(* ===== verification/Prelude.thy ===== *)
theory Prelude
  imports Main "HOL-Library.Word" "HOL-Library.List_Lexorder" "HOL-Library.Char_ord"
begin

section \<open>Shared vocabulary of the development\<close>

text \<open>
  This theory holds what the component theories share: the result type of fallible Rust code, the
  clock, saturating machine arithmetic, the byte predicates the source applies to strings, and the
  generic lemmas about lists and optional values that the component proofs use.

  \<^item> A Rust \<open>Result<T, E>\<close> is the sum type \<open>'e + 'a\<close> with \<open>Err\<close> for \<^const>\<open>Inl\<close> and \<open>Ok\<close>
    for \<^const>\<open>Inr\<close>.
  \<^item> A Rust \<open>String\<close>, \<open>&str\<close> or byte slice used as text is a \<^typ>\<open>string\<close>: a list of 8-bit
    characters, so that \<^const>\<open>length\<close> counts bytes as \<open>str::len\<close> does and the order of strings is
    the bytewise lexicographic one of \<open>Ord for str\<close>.
  \<^item> An \<open>Instant\<close> (or \<open>DateTime\<close>) is a number of nanoseconds since some origin; an operation that reads the
    clock takes the value read as an argument \<open>now\<close>.
  \<^item> A counter of type \<open>u32\<close> or \<open>u64\<close> that the source increments with \<open>saturating_add\<close> is a
    natural number with the saturation written out.
\<close>

named_theorems outcome_simps \<open>equations of the error and outcome tables\<close>
named_theorems guard_defs \<open>definitions of the guards an operation evaluates\<close>
named_theorems inv_intros \<open>preservation of component invariants\<close>

subsection \<open>Results\<close>

abbreviation Ok :: "'a \<Rightarrow> 'e + 'a" where
  "Ok \<equiv> Inr"

abbreviation Err :: "'e \<Rightarrow> 'e + 'a" where
  "Err \<equiv> Inl"

definition is_ok :: "'e + 'a \<Rightarrow> bool" where
  "is_ok r = (case r of Inl _ \<Rightarrow> False | Inr _ \<Rightarrow> True)"

lemma is_ok_simps [simp]: "is_ok (Ok x)" "\<not> is_ok (Err e)"
  by (simp_all add: is_ok_def)

lemma is_ok_iff: "is_ok r \<longleftrightarrow> (\<exists>x. r = Ok x)"
  by (cases r) auto

definition then_result :: "'e + 'a \<Rightarrow> ('a \<Rightarrow> 'e + 'b) \<Rightarrow> 'e + 'b" where
  \<comment> \<open>the \<open>?\<close> operator: return the error, or continue with the value\<close>
  "then_result r f = (case r of Inl e \<Rightarrow> Inl e | Inr x \<Rightarrow> f x)"

lemma then_result_simps [simp]:
  "then_result (Ok x) f = f x" "then_result (Err e) f = Err e"
  by (simp_all add: then_result_def)

lemma then_result_Ok_iff: "then_result r f = Ok y \<longleftrightarrow> (\<exists>x. r = Ok x \<and> f x = Ok y)"
  by (cases r) auto

lemma then_result_Err_iff:
  "then_result r f = Err e \<longleftrightarrow> r = Err e \<or> (\<exists>x. r = Ok x \<and> f x = Err e)"
  by (cases r) auto

subsection \<open>Clock\<close>

type_synonym instant = nat
type_synonym duration = nat

definition from_secs :: "nat \<Rightarrow> duration" where
  "from_secs n = n * 1000000000"

definition from_millis :: "nat \<Rightarrow> duration" where
  "from_millis n = n * 1000000"

definition saturating_duration_since :: "instant \<Rightarrow> instant \<Rightarrow> duration" where
  \<comment> \<open>\<open>Instant::saturating_duration_since\<close>: zero when \<open>earlier\<close> is later\<close>
  "saturating_duration_since now earlier = now - earlier"

definition max_instant :: "instant option \<Rightarrow> instant option \<Rightarrow> instant option" where
  \<comment> \<open>\<open>Ord::max\<close> on \<open>Option<Instant>\<close>, where \<open>None\<close> is the least value\<close>
  "max_instant a b =
     (case a of None \<Rightarrow> b | Some x \<Rightarrow> (case b of None \<Rightarrow> Some x | Some y \<Rightarrow> Some (max x y)))"

lemma max_instant_None_iff [simp]: "max_instant a b = None \<longleftrightarrow> a = None \<and> b = None"
  by (auto simp: max_instant_def split: option.splits)

lemma from_secs_mono: "a \<le> b \<Longrightarrow> from_secs a \<le> from_secs b"
  by (simp add: from_secs_def)

lemma from_secs_pos [simp]: "0 < from_secs n \<longleftrightarrow> 0 < n"
  by (simp add: from_secs_def)

subsection \<open>Machine integers with saturation\<close>

definition u32_max :: nat where "u32_max = 4294967295"
definition u64_max :: nat where "u64_max = 18446744073709551615"

definition sat_add32 :: "nat \<Rightarrow> nat \<Rightarrow> nat" where
  "sat_add32 a b = min (a + b) u32_max"

definition sat_add64 :: "nat \<Rightarrow> nat \<Rightarrow> nat" where
  "sat_add64 a b = min (a + b) u64_max"

lemma u32_max_pos [simp]: "0 < u32_max" "Suc 0 \<le> u32_max"
  by (simp_all add: u32_max_def)

lemma sat_add32_le: "sat_add32 a b \<le> u32_max"
  by (simp add: sat_add32_def)

lemma sat_add32_eq: "a + b \<le> u32_max \<Longrightarrow> sat_add32 a b = a + b"
  by (simp add: sat_add32_def)

lemma sat_add32_mono: "a \<le> a' \<Longrightarrow> sat_add32 a b \<le> sat_add32 a' b"
  by (simp add: sat_add32_def)

lemma sat_add32_ge: "a \<le> u32_max \<Longrightarrow> a \<le> sat_add32 a b"
  by (simp add: sat_add32_def)

lemma sat_add32_pos [simp]: "0 < sat_add32 a (Suc 0)"
  by (simp add: sat_add32_def u32_max_def)

lemma sat_add64_eq: "a + b \<le> u64_max \<Longrightarrow> sat_add64 a b = a + b"
  by (simp add: sat_add64_def)

subsection \<open>Bytes of strings\<close>

definition byte :: "char \<Rightarrow> nat" where
  "byte c = of_char c"

definition ascii_digit :: "char \<Rightarrow> bool" where
  "ascii_digit c \<longleftrightarrow> 48 \<le> byte c \<and> byte c \<le> 57"

definition ascii_upper :: "char \<Rightarrow> bool" where
  "ascii_upper c \<longleftrightarrow> 65 \<le> byte c \<and> byte c \<le> 90"

definition ascii_lower :: "char \<Rightarrow> bool" where
  "ascii_lower c \<longleftrightarrow> 97 \<le> byte c \<and> byte c \<le> 122"

definition ascii_alphanumeric :: "char \<Rightarrow> bool" where
  "ascii_alphanumeric c \<longleftrightarrow> ascii_digit c \<or> ascii_upper c \<or> ascii_lower c"

definition ascii_hexdigit :: "char \<Rightarrow> bool" where
  "ascii_hexdigit c \<longleftrightarrow>
     ascii_digit c \<or> (65 \<le> byte c \<and> byte c \<le> 70) \<or> (97 \<le> byte c \<and> byte c \<le> 102)"

definition lower_hexdigit :: "char \<Rightarrow> bool" where
  "lower_hexdigit c \<longleftrightarrow> ascii_digit c \<or> (97 \<le> byte c \<and> byte c \<le> 102)"

definition ascii_whitespace :: "char \<Rightarrow> bool" where
  \<comment> \<open>\<open>u8::is_ascii_whitespace\<close>: space, tab, line feed, form feed, carriage return\<close>
  "ascii_whitespace c \<longleftrightarrow> byte c \<in> {32, 9, 10, 12, 13}"

lemmas byte_defs = byte_def ascii_digit_def ascii_upper_def ascii_lower_def
  ascii_alphanumeric_def ascii_hexdigit_def lower_hexdigit_def ascii_whitespace_def

definition starts_with :: "string \<Rightarrow> string \<Rightarrow> bool" where
  "starts_with s p \<longleftrightarrow> take (length p) s = p"

definition ends_with :: "string \<Rightarrow> string \<Rightarrow> bool" where
  "ends_with s p \<longleftrightarrow> starts_with (rev s) (rev p)"

fun contains_str :: "string \<Rightarrow> string \<Rightarrow> bool" where
  "contains_str [] p \<longleftrightarrow> p = []"
| "contains_str (c # s) p \<longleftrightarrow> starts_with (c # s) p \<or> contains_str s p"

lemma starts_with_append [simp]: "starts_with (p @ s) p"
  by (simp add: starts_with_def)

lemma starts_with_iff: "starts_with s p \<longleftrightarrow> (\<exists>r. s = p @ r)"
  by (metis append_take_drop_id starts_with_append starts_with_def)

lemma ends_with_iff: "ends_with s p \<longleftrightarrow> (\<exists>r. s = r @ p)"
  by (metis ends_with_def rev_append rev_swap starts_with_iff)

text \<open>
  Valid UTF-8 text as bytes: \<open>blank s\<close> is \<open>s.trim().is_empty()\<close>, that is, every character of
  \<open>s\<close> has the Unicode property White\_Space, and \<open>has_control s\<close> is
  \<open>s.chars().any(char::is_control)\<close> (U+0000 to U+001F and U+007F to U+009F).
\<close>

fun blank_bytes :: "nat list \<Rightarrow> bool" where
  "blank_bytes [] = True"
| "blank_bytes (b # r) =
     (if 9 \<le> b \<and> b \<le> 13 \<or> b = 32 then blank_bytes r
      else if b = 194 then
        (case r of [] \<Rightarrow> False | c # r' \<Rightarrow> (c = 133 \<or> c = 160) \<and> blank_bytes r')
      else
        (case r of
           [] \<Rightarrow> False
         | c # r' \<Rightarrow>
             (case r' of
                [] \<Rightarrow> False
              | d # r'' \<Rightarrow>
                  ((b, c, d) = (225, 154, 128) \<or> (b, c, d) = (226, 129, 159) \<or>
                   (b, c, d) = (227, 128, 128) \<or>
                   b = 226 \<and> c = 128 \<and> (128 \<le> d \<and> d \<le> 138 \<or> d = 168 \<or> d = 169 \<or> d = 175)) \<and>
                  blank_bytes r'')))"

definition blank :: "string \<Rightarrow> bool" where
  "blank s = blank_bytes (map byte s)"

fun control_bytes :: "nat list \<Rightarrow> bool" where
  "control_bytes [] = False"
| "control_bytes (b # r) =
     (if b = 194 then (case r of [] \<Rightarrow> False | c # r' \<Rightarrow> c < 160 \<or> control_bytes r')
      else b < 32 \<or> b = 127 \<or> control_bytes r)"

definition has_control :: "string \<Rightarrow> bool" where
  "has_control s = control_bytes (map byte s)"

fun split_dot :: "string \<Rightarrow> string list" where
  \<comment> \<open>\<open>str::split('.')\<close>\<close>
  "split_dot [] = [[]]"
| "split_dot (c # s) =
     (if c = CHR ''.'' then [] # split_dot s
      else case split_dot s of [] \<Rightarrow> [[c]] | w # ws \<Rightarrow> (c # w) # ws)"

subsection \<open>Lists\<close>

lemma find_Some_iff_distinct:
  "find P xs = Some x \<Longrightarrow> x \<in> set xs \<and> P x"
  by (metis find_Some_iff nth_mem)

lemma option_eqI: "(\<And>v. a = Some v \<longleftrightarrow> b = Some v) \<Longrightarrow> a = b"
  by (cases a; cases b) auto

lemma sum_list_filter_le: "sum_list (map f (filter P xs)) \<le> (sum_list (map f xs) :: nat)"
  by (induction xs) auto

end
