(* ===== verification/Json_Value.thy ===== *)
theory Json_Value
  imports Prelude
begin

section \<open>JSON values\<close>

text \<open>
  The source passes request and response bodies around as \<open>serde_json::Value\<close>. An object is a list
  of members with the operations the source uses on it: lookup, removal and insertion by name. A number
  that is not an integer is kept as its text.
\<close>

datatype json =
    JNull
  | JBool bool
  | JInt int
  | JFloat string
  | JStr string
  | JArr "json list"
  | JObj "(string \<times> json) list"

fun is_object :: "json \<Rightarrow> bool" where
  "is_object (JObj _) = True"
| "is_object _ = False"

definition members_remove :: "string \<Rightarrow> (string \<times> json) list \<Rightarrow> (string \<times> json) list" where
  "members_remove k ms = filter (\<lambda>m. fst m \<noteq> k) ms"

fun json_get :: "json \<Rightarrow> string \<Rightarrow> json option" where
  "json_get (JObj ms) k = map_of ms k"
| "json_get _ k = None"

fun json_remove :: "string \<Rightarrow> json \<Rightarrow> json" where
  \<comment> \<open>\<open>if let Some(object) = v.as_object_mut() { object.remove(k); }\<close>\<close>
  "json_remove k (JObj ms) = JObj (members_remove k ms)"
| "json_remove k v = v"

lemma map_of_members_remove:
  "map_of (members_remove k ms) k' = (if k' = k then None else map_of ms k')"
  by (induction ms) (auto simp: members_remove_def)

lemma json_get_remove: "json_get (json_remove k v) k' = (if k' = k then None else json_get v k')"
  by (cases v) (simp_all add: map_of_members_remove)

lemma is_object_remove [simp]: "is_object (json_remove k v) = is_object v"
  by (cases v) simp_all

lemma json_remove_idem: "json_remove k (json_remove k v) = json_remove k v"
  by (cases v) (simp_all add: members_remove_def)

lemma json_remove_commute: "json_remove k (json_remove l v) = json_remove l (json_remove k v)"
  by (cases v) (simp_all add: members_remove_def conj_commute)

end
