(* ===== verification/App_Error.thy ===== *)
theory App_Error
  imports Json_Value
begin

section \<open>Errors and their HTTP form (src/error.rs)\<close>

text \<open>
  The error enumeration every component returns, its stable code, its message, the HTTP response an
  error turns into, and the middleware that gives framework-generated client errors the same JSON
  form. Code that belongs to the HTTP framework is a parameter: \<open>to_str\<close> is \<open>HeaderValue::to_str\<close>
  and \<open>json_headers\<close> are the headers \<open>axum::Json\<close> sets.
\<close>

datatype app_error =
    NodeUnavailable
  | PeerAccountUnavailable
  | PeerIdentityMismatch
  | UnsupportedRegionOperation
  | ProtocolDefinition
  | Config string
  | InvalidRequest
  | Unauthorized
  | Forbidden
  | AuthUnavailable
  | NotFound
  | AccountUnavailable
  | UpstreamUnavailable
  | Timeout
  | Transport
  | Proxy
  | Protocol
  | Grpc nat
  | Maintenance nat
  | SnapshotUnavailable
  | MasterUnavailable

definition nat_text :: "nat \<Rightarrow> string" where
  \<comment> \<open>decimal text of a status; \<open>u16\<close> has at most five digits\<close>
  "nat_text n =
     (let d = (\<lambda>k. char_of (48 + (n div 10 ^ k) mod 10)) in
      if n < 10 then [d 0]
      else if n < 100 then [d 1, d 0]
      else if n < 1000 then [d 2, d 1, d 0]
      else if n < 10000 then [d 3, d 2, d 1, d 0]
      else [d 4, d 3, d 2, d 1, d 0])"

fun app_error_message :: "app_error \<Rightarrow> string" where
  "app_error_message NodeUnavailable = ''no node is currently available''"
| "app_error_message PeerAccountUnavailable = ''local account unavailable before dispatch''"
| "app_error_message PeerIdentityMismatch = ''peer protocol identity changed before dispatch''"
| "app_error_message UnsupportedRegionOperation =
     ''operation is not supported by the verified protocol for this region''"
| "app_error_message ProtocolDefinition =
     ''proto bundle compilation or compatibility validation failed''"
| "app_error_message (Config text) = ''invalid configuration: '' @ text"
| "app_error_message InvalidRequest = ''invalid request''"
| "app_error_message Unauthorized = ''authentication required''"
| "app_error_message Forbidden = ''not authorized for this region''"
| "app_error_message AuthUnavailable = ''client authorization is temporarily unavailable''"
| "app_error_message NotFound = ''not found''"
| "app_error_message AccountUnavailable = ''no game account is currently available''"
| "app_error_message UpstreamUnavailable = ''game upstream is temporarily unreachable''"
| "app_error_message Timeout = ''upstream request timed out''"
| "app_error_message Transport = ''upstream transport failed''"
| "app_error_message Proxy = ''upstream proxy rejected connection''"
| "app_error_message Protocol = ''invalid upstream protocol response''"
| "app_error_message (Grpc s) = ''game returned gRPC status '' @ nat_text s"
| "app_error_message (Maintenance _) = ''game is under maintenance''"
| "app_error_message SnapshotUnavailable = ''resource snapshot is unavailable''"
| "app_error_message MasterUnavailable = ''Master snapshot is unavailable or invalid''"

fun app_error_code :: "app_error \<Rightarrow> string" where
  "app_error_code NodeUnavailable = ''node_unavailable''"
| "app_error_code PeerAccountUnavailable = ''peer_account_unavailable''"
| "app_error_code PeerIdentityMismatch = ''peer_identity_mismatch''"
| "app_error_code UnsupportedRegionOperation = ''unsupported_operation''"
| "app_error_code ProtocolDefinition = ''protocol_definition_invalid''"
| "app_error_code (Config _) = ''invalid_configuration''"
| "app_error_code InvalidRequest = ''invalid_request''"
| "app_error_code Unauthorized = ''unauthorized''"
| "app_error_code Forbidden = ''forbidden''"
| "app_error_code AuthUnavailable = ''auth_unavailable''"
| "app_error_code NotFound = ''not_found''"
| "app_error_code AccountUnavailable = ''account_unavailable''"
| "app_error_code UpstreamUnavailable = ''upstream_unavailable''"
| "app_error_code Timeout = ''upstream_timeout''"
| "app_error_code Transport = ''upstream_transport''"
| "app_error_code Proxy = ''upstream_proxy''"
| "app_error_code Protocol = ''upstream_protocol''"
| "app_error_code (Grpc _) = ''upstream_grpc''"
| "app_error_code (Maintenance _) = ''maintenance''"
| "app_error_code SnapshotUnavailable = ''snapshot_unavailable''"
| "app_error_code MasterUnavailable = ''master_unavailable''"

fun app_error_status :: "app_error \<Rightarrow> nat" where
  "app_error_status PeerIdentityMismatch = 409"
| "app_error_status UnsupportedRegionOperation = 501"
| "app_error_status InvalidRequest = 400"
| "app_error_status ProtocolDefinition = 422"
| "app_error_status Unauthorized = 401"
| "app_error_status Forbidden = 403"
| "app_error_status NotFound = 404"
| "app_error_status NodeUnavailable = 503"
| "app_error_status PeerAccountUnavailable = 503"
| "app_error_status AccountUnavailable = 503"
| "app_error_status UpstreamUnavailable = 503"
| "app_error_status SnapshotUnavailable = 503"
| "app_error_status MasterUnavailable = 503"
| "app_error_status AuthUnavailable = 503"
| "app_error_status (Maintenance _) = 503"
| "app_error_status (Grpc s) = (if s = 14 then 503 else 502)"
| "app_error_status Timeout = 504"
| "app_error_status _ = 502"

datatype rsp_body = JsonBody json | OtherBody string

record response =
  rsp_status :: nat
  rsp_headers :: "(string \<times> string) list"
  rsp_body :: rsp_body

definition app_error_body :: "app_error \<Rightarrow> (string \<times> json) list" where
  "app_error_body e =
     [(''error'', JStr (app_error_message e)), (''code'', JStr (app_error_code e))] @
     (case e of
        Grpc s \<Rightarrow> [(''grpc_status'', JInt (int s))]
      | Maintenance s \<Rightarrow> [(''grpc_status'', JInt (int s))]
      | _ \<Rightarrow> [])"

definition into_response :: "(string \<times> string) list \<Rightarrow> app_error \<Rightarrow> response" where
  "into_response json_headers e =
     \<lparr>rsp_status = app_error_status e, rsp_headers = json_headers,
      rsp_body = JsonBody (JObj (app_error_body e))\<rparr>"

subsection \<open>The client-error middleware\<close>

definition header_get :: "(string \<times> string) list \<Rightarrow> string \<Rightarrow> string option" where
  "header_get hs k = map_of hs k"

definition header_remove :: "string \<Rightarrow> (string \<times> string) list \<Rightarrow> (string \<times> string) list" where
  "header_remove k hs = filter (\<lambda>h. fst h \<noteq> k) hs"

definition client_error_text :: "nat \<Rightarrow> (string \<times> string) option" where
  "client_error_text status =
     (if status = 400 \<or> status = 422 then Some (''invalid request'', ''invalid_request'')
      else if status = 404 then Some (''not found'', ''not_found'')
      else if status = 405 then Some (''method not allowed'', ''method_not_allowed'')
      else if status = 413 then Some (''request body too large'', ''payload_too_large'')
      else if status = 415 then Some (''unsupported media type'', ''unsupported_media_type'')
      else None)"

definition is_json :: "(string \<Rightarrow> string option) \<Rightarrow> (string \<times> string) list \<Rightarrow> bool" where
  "is_json to_str hs =
     (case Option.bind (header_get hs ''content-type'') to_str of
        None \<Rightarrow> False
      | Some v \<Rightarrow> starts_with v ''application/json'')"

definition json_client_error ::
  "(string \<Rightarrow> string option) \<Rightarrow> (string \<times> string) list \<Rightarrow> response \<Rightarrow> response" where
  "json_client_error to_str json_headers r =
     (case client_error_text (rsp_status r) of
        None \<Rightarrow> r
      | Some (error, code) \<Rightarrow>
          if is_json to_str (rsp_headers r) then r
          else r\<lparr>rsp_headers :=
                   header_remove ''content-encoding''
                     (header_remove ''content-length''
                       (header_remove ''content-type'' (rsp_headers r))) @ json_headers,
                 rsp_body := JsonBody (JObj [(''error'', JStr error), (''code'', JStr code)])\<rparr>)"

subsection \<open>Properties\<close>

lemma header_get_remove:
  "header_get (header_remove k hs) k' = (if k' = k then None else header_get hs k')"
  by (induction hs) (auto simp: header_get_def header_remove_def)

lemma header_get_append:
  "header_get (hs @ gs) k = (case header_get hs k of None \<Rightarrow> header_get gs k | Some v \<Rightarrow> Some v)"
  by (simp add: header_get_def map_add_def split: option.splits)

definition app_error_tag :: "app_error \<Rightarrow> nat" where
  \<comment> \<open>the position of an error's variant in the enumeration, for reasoning only\<close>
  "app_error_tag e =
     (case e of NodeUnavailable \<Rightarrow> 0 | PeerAccountUnavailable \<Rightarrow> 1 | PeerIdentityMismatch \<Rightarrow> 2
      | UnsupportedRegionOperation \<Rightarrow> 3 | ProtocolDefinition \<Rightarrow> 4 | Config _ \<Rightarrow> 5 | InvalidRequest \<Rightarrow> 6
      | Unauthorized \<Rightarrow> 7 | Forbidden \<Rightarrow> 8 | AuthUnavailable \<Rightarrow> 9 | NotFound \<Rightarrow> 10
      | AccountUnavailable \<Rightarrow> 11 | UpstreamUnavailable \<Rightarrow> 12 | Timeout \<Rightarrow> 13 | Transport \<Rightarrow> 14
      | Proxy \<Rightarrow> 15 | Protocol \<Rightarrow> 16 | Grpc _ \<Rightarrow> 17 | Maintenance _ \<Rightarrow> 18 | SnapshotUnavailable \<Rightarrow> 19
      | MasterUnavailable \<Rightarrow> 20)"

lemma app_error_code_tag: "app_error_code e = app_error_code e' \<Longrightarrow> app_error_tag e = app_error_tag e'"
  by (cases e; cases e') (simp_all add: app_error_tag_def)

lemma app_error_tag_same_variant:
  "app_error_tag e = app_error_tag e' \<Longrightarrow> app_error_body e = app_error_body e' \<Longrightarrow> e = e'"
  by (cases e; cases e') (simp_all add: app_error_tag_def app_error_body_def)

lemma app_error_status_range: "400 \<le> app_error_status e \<and> app_error_status e \<le> 504"
  by (cases e) simp_all

lemma is_json_after:
  assumes "header_get json_headers ''content-type'' = Some v"
    and "to_str v = Some w" and "starts_with w ''application/json''"
  shows "is_json to_str (header_remove ''content-encoding''
      (header_remove ''content-length'' (header_remove ''content-type'' hs)) @ json_headers)"
  using assms by (simp add: is_json_def header_get_append header_get_remove)

lemma client_error_not_json:
  assumes "client_error_text (rsp_status r) = Some (error, code)"
    and "\<not> is_json to_str (rsp_headers r)"
  shows "json_client_error to_str json_headers r =
    r\<lparr>rsp_headers :=
        header_remove ''content-encoding''
          (header_remove ''content-length''
            (header_remove ''content-type'' (rsp_headers r))) @ json_headers,
      rsp_body := JsonBody (JObj [(''error'', JStr error), (''code'', JStr code)])\<rparr>"
  using assms by (simp add: json_client_error_def)

text \<open>Two errors never produce the same HTTP response: the code identifies the variant, and the
  gRPC status or the configuration text carried by the variant is in the body. The HTTP status of
  an error response is always an error status.\<close>

theorem error_responses_identify_errors:
  "(into_response json_headers e = into_response json_headers e' \<longleftrightarrow> e = e') \<and>
   400 \<le> rsp_status (into_response json_headers e) \<and> rsp_status (into_response json_headers e) < 600"
proof -
  have "e = e'" if "into_response json_headers e = into_response json_headers e'"
  proof -
    from that have body: "app_error_body e = app_error_body e'"
      by (simp add: into_response_def)
    then have "app_error_code e = app_error_code e'"
      by (simp add: app_error_body_def)
    then show ?thesis
      using body by (intro app_error_tag_same_variant app_error_code_tag)
  qed
  moreover have "400 \<le> app_error_status e" "app_error_status e < 600"
    using app_error_status_range [of e] by simp_all
  ultimately show ?thesis by (auto simp: into_response_def)
qed

text \<open>The client-error middleware keeps the status, is idempotent, and replaces the body of every
  framework-generated client error that is not JSON by the fixed error and code of its status, so
  that no text of the original body is left and no content encoding is claimed for the new one.\<close>

theorem client_errors_have_fixed_json:
  assumes "header_get json_headers ''content-type'' = Some v"
    and "to_str v = Some w" and "starts_with w ''application/json''"
    and "header_get json_headers ''content-encoding'' = None"
  shows "rsp_status (json_client_error to_str json_headers r) = rsp_status r \<and>
    json_client_error to_str json_headers (json_client_error to_str json_headers r) =
      json_client_error to_str json_headers r \<and>
    (client_error_text (rsp_status r) = Some (error, code) \<and> \<not> is_json to_str (rsp_headers r) \<longrightarrow>
       rsp_body (json_client_error to_str json_headers r) =
         JsonBody (JObj [(''error'', JStr error), (''code'', JStr code)]) \<and>
       header_get (rsp_headers (json_client_error to_str json_headers r)) ''content-encoding'' = None)"
proof (cases "is_json to_str (rsp_headers r) \<or> client_error_text (rsp_status r) = None")
  case True
  then have "json_client_error to_str json_headers r = r"
    by (auto simp: json_client_error_def split: option.splits prod.splits)
  with True show ?thesis by auto
next
  case False
  then obtain err c where ec: "client_error_text (rsp_status r) = Some (err, c)" by force
  with False have new: "json_client_error to_str json_headers r =
      r\<lparr>rsp_headers := header_remove ''content-encoding''
            (header_remove ''content-length''
              (header_remove ''content-type'' (rsp_headers r))) @ json_headers,
        rsp_body := JsonBody (JObj [(''error'', JStr err), (''code'', JStr c)])\<rparr>"
    by (intro client_error_not_json) auto
  then have "is_json to_str (rsp_headers (json_client_error to_str json_headers r))"
    using is_json_after [where to_str = to_str, OF assms(1-3)] by simp
  then have "json_client_error to_str json_headers (json_client_error to_str json_headers r) =
      json_client_error to_str json_headers r"
    by (simp add: json_client_error_def [of _ _ "json_client_error to_str json_headers r"]
        split: option.splits prod.splits)
  then show ?thesis
    using new ec assms(4) by (simp add: header_get_append header_get_remove)
qed

theorem client_errors_have_fixed_json_witness:
  "rsp_body (json_client_error Some [(''content-type'', ''application/json'')]
     \<lparr>rsp_status = 404, rsp_headers = [(''content-type'', ''text/plain''), (''content-encoding'', ''gzip'')],
      rsp_body = OtherBody ''/secret''\<rparr>) =
   JsonBody (JObj [(''error'', JStr ''not found''), (''code'', JStr ''not_found'')])"
proof -
  have ct: "header_get [(''content-type'', ''application/json'')] ''content-type'' =
      Some ''application/json''" by (simp add: header_get_def)
  have enc: "header_get [(''content-type'', ''application/json'')] ''content-encoding'' = None"
    by (simp add: header_get_def)
  have sw: "starts_with ''application/json'' ''application/json''"
    by (simp add: starts_with_def)
  show ?thesis
    using client_errors_have_fixed_json [where to_str = Some, OF ct refl sw enc, of
        "\<lparr>rsp_status = 404, rsp_headers = [(''content-type'', ''text/plain''), (''content-encoding'', ''gzip'')],
          rsp_body = OtherBody ''/secret''\<rparr>" "''not found''" "''not_found''"]
    by (simp add: client_error_text_def is_json_def header_get_def starts_with_def)
qed

end
