(* ===== verification/Probe_Gate.thy ===== *)
theory Probe_Gate
  imports Prelude
begin

section \<open>The probe gate: an interface shared by two circuit breakers\<close>

text \<open>
  The upstream path (src/path_health.rs) and each routing target (src/node_routing.rs) have a
  circuit breaker of the same shape: closed it admits every call; open it refuses until its
  interval has passed and then admits one probe at a time, whose permit gives the probe slot back
  when it is dropped. A breaker is used by any number of concurrent calls, so the runs are steps
  of a relation on the breaker's state and the numbers of outstanding probe and plain permits.
\<close>

inductive gate_step ::
  "(instant \<Rightarrow> 's \<Rightarrow> (bool \<times> 's) option) \<Rightarrow> ('s \<Rightarrow> 's) \<Rightarrow> ('op \<Rightarrow> 's \<Rightarrow> 's) \<Rightarrow>
   's \<times> nat \<times> nat \<Rightarrow> 's \<times> nat \<times> nat \<Rightarrow> bool"
  for admit release report where
  gate_admit_probe: "admit now s = Some (True, s') \<Longrightarrow>
     gate_step admit release report (s, probes, plain) (s', Suc probes, plain)"
| gate_admit_plain: "admit now s = Some (False, s') \<Longrightarrow>
     gate_step admit release report (s, probes, plain) (s', probes, Suc plain)"
| gate_drop_probe: "gate_step admit release report (s, Suc probes, plain) (release s, probes, plain)"
| gate_drop_plain: "gate_step admit release report (s, probes, Suc plain) (s, probes, plain)"
| gate_report: "gate_step admit release report (s, probes, plain) (report x s, probes, plain)"

inductive gate_reachable ::
  "(instant \<Rightarrow> 's \<Rightarrow> (bool \<times> 's) option) \<Rightarrow> ('s \<Rightarrow> 's) \<Rightarrow> ('op \<Rightarrow> 's \<Rightarrow> 's) \<Rightarrow> 's \<Rightarrow>
   's \<times> nat \<times> nat \<Rightarrow> bool"
  for admit release report init where
  gate_start: "gate_reachable admit release report init (init, 0, 0)"
| gate_next: "gate_reachable admit release report init c \<Longrightarrow> gate_step admit release report c d \<Longrightarrow>
     gate_reachable admit release report init d"

locale probe_gate =
  fixes open_until :: "'s \<Rightarrow> instant option"
    and probing :: "'s \<Rightarrow> bool"
    and admit :: "instant \<Rightarrow> 's \<Rightarrow> (bool \<times> 's) option"
    and release :: "'s \<Rightarrow> 's"
    and report :: "'op \<Rightarrow> 's \<Rightarrow> 's"
    and init :: 's
  assumes admit_closed: "open_until s = None \<Longrightarrow> admit now s = Some (False, s)"
    and admit_refused: "open_until s = Some u \<Longrightarrow> now < u \<or> probing s \<Longrightarrow> admit now s = None"
    and admit_probe: "open_until s = Some u \<Longrightarrow> \<not> now < u \<Longrightarrow> \<not> probing s \<Longrightarrow>
          \<exists>s'. admit now s = Some (True, s') \<and> probing s'"
    and release_probing: "\<not> probing (release s)"
    and report_probing: "probing (report x s) = probing s"
    and init_probing: "\<not> probing init"
begin

lemma admit_cases:
  assumes "admit now s = Some (p, s')"
  shows "p \<and> \<not> probing s \<and> probing s' \<and> (\<exists>u. open_until s = Some u \<and> u \<le> now) \<or>
         \<not> p \<and> s' = s \<and> open_until s = None"
proof (cases "open_until s")
  case None
  with assms show ?thesis by (simp add: admit_closed)
next
  case (Some u)
  have no: "\<not> now < u" "\<not> probing s"
    using assms admit_refused [OF Some, of now] by auto
  then show ?thesis using assms Some admit_probe [OF Some no] by auto
qed

lemma step_slot:
  assumes "gate_step admit release report c d"
    and "fst (snd c) = (if probing (fst c) then 1 else 0)"
  shows "fst (snd d) = (if probing (fst d) then 1 else 0)"
  using assms by (induction rule: gate_step.induct)
    (auto dest: admit_cases simp: release_probing report_probing split: if_splits)

lemma reachable_slot:
  "gate_reachable admit release report init c \<Longrightarrow>
   fst (snd c) = (if probing (fst c) then 1 else 0)"
  by (induction rule: gate_reachable.induct) (simp_all add: init_probing step_slot)

lemma one_probe:
  assumes "gate_reachable admit release report init (s, probes, plain)"
  shows "probes \<le> 1"
    and "open_until s = Some u \<Longrightarrow> now < u \<or> 0 < probes \<Longrightarrow> admit now s = None"
  using reachable_slot [OF assms] admit_refused [of s u now] by (auto split: if_splits)

end

end
