(* ===== verification/Path_Health.thy ===== *)
theory Path_Health
  imports App_Error Probe_Gate
begin

section \<open>Upstream path health (src/path_health.rs)\<close>

text \<open>
  The health of one shared upstream path. Consecutive faults form a streak with a number (the
  epoch). A streak becomes the path's own fault (attributed) once it involves a second account or
  an anonymous call, or at once when sources are not distinguished; an attributed streak that
  reaches the threshold opens the path. \<open>path_record\<close> is the whole of \<open>PathHealth::record\<close>, in its
  three phases. The mutex around the state makes every operation atomic; lock poisoning is recovered by
  the source and therefore leaves no trace.
\<close>

record pool_policy =
  failure_threshold :: nat
  cooldown_seconds :: nat

datatype charge = ChargeAccount "nat option" | ChargePath

datatype path_outcome = Healthy | Fault string

datatype path_transition = PathNone | PathOpened | PathProbeFailed | PathRecovered

record path_change =
  ch_transition :: path_transition
  ch_attributed :: "nat option"

record path_state =
  ps_failures :: nat
  ps_epoch :: nat
  ps_first_source :: "string option"
  ps_attributed :: bool
  ps_last_attributed :: nat
  ps_open_until :: "instant option"
  ps_probing :: bool

record path_config =
  pc_distinct_sources :: bool
  pc_threshold :: nat
  pc_interval :: duration

definition MAX_PROBE_INTERVAL :: duration where
  "MAX_PROBE_INTERVAL = from_secs 5"

definition path_init :: path_state where
  "path_init = \<lparr>ps_failures = 0, ps_epoch = 0, ps_first_source = None, ps_attributed = False,
     ps_last_attributed = 0, ps_open_until = None, ps_probing = False\<rparr>"

definition path_new :: "pool_policy \<Rightarrow> bool \<Rightarrow> path_config" where
  "path_new policy distinct_sources =
     \<lparr>pc_distinct_sources = distinct_sources,
      pc_threshold = failure_threshold policy,
      pc_interval = min (from_secs (cooldown_seconds policy)) MAX_PROBE_INTERVAL\<rparr>"

subsection \<open>Recording an attempt\<close>

definition path_healthy :: "path_state \<Rightarrow> path_change \<times> path_state" where
  "path_healthy s =
     (\<lparr>ch_transition = (if ps_open_until s \<noteq> None then PathRecovered else PathNone),
       ch_attributed = None\<rparr>,
      s\<lparr>ps_failures := 0, ps_attributed := False, ps_first_source := None, ps_open_until := None\<rparr>)"

definition path_count :: "path_state \<Rightarrow> path_state" where
  \<comment> \<open>a fault after a success starts the next streak\<close>
  "path_count s =
     (let s1 = (if ps_failures s = 0
                then s\<lparr>ps_epoch := ps_epoch s + 1, ps_first_source := None, ps_attributed := False\<rparr>
                else s)
      in s1\<lparr>ps_failures := sat_add32 (ps_failures s1) 1\<rparr>)"

definition path_attribute ::
  "path_config \<Rightarrow> string option \<Rightarrow> path_state \<Rightarrow> nat option \<times> path_state" where
  "path_attribute c source s =
     (if ps_attributed s then (None, s)
      else
        let (path, s1) =
          (case source of
             Some name \<Rightarrow>
               if pc_distinct_sources c
               then (case ps_first_source s of
                       None \<Rightarrow> (False, s\<lparr>ps_first_source := Some name\<rparr>)
                     | Some first \<Rightarrow> (first \<noteq> name, s))
               else (True, s)
           | None \<Rightarrow> (True, s))
        in if path
           then (Some (ps_epoch s1),
                 s1\<lparr>ps_attributed := True, ps_last_attributed := ps_epoch s1\<rparr>)
           else (None, s1))"

definition path_open :: "path_config \<Rightarrow> instant \<Rightarrow> path_state \<Rightarrow> path_transition \<times> path_state" where
  "path_open c now s =
     (if ps_attributed s \<and> pc_threshold c \<le> ps_failures s
      then ((if ps_open_until s = None then PathOpened
             else if ps_probing s then PathProbeFailed
             else PathNone),
            s\<lparr>ps_open_until := Some (now + pc_interval c)\<rparr>)
      else (PathNone, s))"

fun path_record ::
  "path_config \<Rightarrow> instant \<Rightarrow> string option \<Rightarrow> path_outcome \<Rightarrow> path_state \<Rightarrow> path_change \<times> path_state"
where
  "path_record c now source Healthy s = path_healthy s"
| "path_record c now source (Fault code) s =
     (let (attr, s1) = path_attribute c source (path_count s);
          (trans, s2) = path_open c now s1
      in (\<lparr>ch_transition = trans, ch_attributed = attr\<rparr>, s2))"

subsection \<open>Admission and the other operations\<close>

definition path_admit :: "instant \<Rightarrow> path_state \<Rightarrow> (bool \<times> path_state) option" where
  \<comment> \<open>the ticket's \<open>probe\<close> flag and the new state\<close>
  "path_admit now s =
     (case ps_open_until s of
        None \<Rightarrow> Some (False, s)
      | Some until \<Rightarrow>
          if now < until \<or> ps_probing s then None
          else Some (True, s\<lparr>ps_probing := True\<rparr>))"

definition path_drop_probe :: "path_state \<Rightarrow> path_state" where
  "path_drop_probe s = s\<lparr>ps_probing := False\<rparr>"

definition path_charge :: "path_state \<Rightarrow> charge" where
  "path_charge s =
     (if ps_attributed s \<or> ps_open_until s \<noteq> None then ChargePath
      else ChargeAccount (if 0 < ps_failures s then Some (ps_epoch s) else None))"

definition path_attributed :: "nat \<Rightarrow> path_state \<Rightarrow> bool" where
  "path_attributed epoch s \<longleftrightarrow> ps_last_attributed s = epoch"

definition path_status :: "instant \<Rightarrow> path_state \<Rightarrow> json" where
  "path_status now s =
     JObj [(''state'', JStr (case ps_open_until s of
               None \<Rightarrow> ''closed'' | Some _ \<Rightarrow> if ps_probing s then ''probing'' else ''open'')),
           (''failures'', JInt (int (ps_failures s))),
           (''attributed'', JBool (ps_attributed s)),
           (''cooldown_remaining_ms'',
              JInt (case ps_open_until s of None \<Rightarrow> 0
                    | Some until \<Rightarrow> int (saturating_duration_since until now div 1000000)))]"

subsection \<open>The invariant\<close>

definition path_inv :: "path_config \<Rightarrow> path_state \<Rightarrow> bool" where
  "path_inv c s \<longleftrightarrow>
     ps_failures s \<le> u32_max \<and>
     ps_last_attributed s \<le> ps_epoch s \<and>
     (ps_open_until s \<noteq> None \<longrightarrow> ps_attributed s \<and> pc_threshold c \<le> ps_failures s) \<and>
     (ps_attributed s \<longrightarrow> 0 < ps_failures s \<and> ps_last_attributed s = ps_epoch s) \<and>
     (0 < ps_failures s \<and> \<not> ps_attributed s \<longrightarrow>
        pc_distinct_sources c \<and> ps_first_source s \<noteq> None \<and> ps_last_attributed s < ps_epoch s)"

lemma path_inv_init: "path_inv c path_init"
  by (simp add: path_inv_def path_init_def)

lemma path_attribute_inv:
  assumes "path_attribute c source (path_count s) = (attr, s1)" "path_inv c s" "0 < pc_threshold c"
  shows "path_inv c s1" "0 < ps_failures s1" "ps_epoch s1 = ps_epoch (path_count s)"
    "attr = Some k \<Longrightarrow> ps_attributed s1 \<and> k = ps_epoch s1"
    "ps_open_until s1 = ps_open_until s" "ps_probing s1 = ps_probing s"
    "ps_failures s1 = sat_add32 (ps_failures s) 1"
  using assms
  by (auto simp: path_attribute_def path_count_def path_inv_def sat_add32_le sat_add32_def Let_def
      split: if_splits option.splits)

lemma path_open_inv:
  assumes "path_open c now s = (t, s2)" "path_inv c s"
  shows "path_inv c s2"
  using assms by (auto simp: path_open_def path_inv_def split: if_splits)

lemma path_record_inv [inv_intros]:
  assumes "path_inv c s" "0 < pc_threshold c"
  shows "path_inv c (snd (path_record c now source outcome s))"
proof (cases outcome)
  case Healthy
  with assms show ?thesis by (auto simp: path_healthy_def path_inv_def)
next
  case (Fault code)
  obtain attr s1 where a: "path_attribute c source (path_count s) = (attr, s1)" by fastforce
  obtain t s2 where o: "path_open c now s1 = (t, s2)" by fastforce
  from path_attribute_inv(1) [OF a assms] have "path_inv c s1" .
  with o have "path_inv c s2" by (rule path_open_inv)
  with Fault a o show ?thesis by simp
qed

lemma path_admit_inv [inv_intros]:
  "path_inv c s \<Longrightarrow> path_admit now s = Some (p, s') \<Longrightarrow> path_inv c s'"
  by (auto simp: path_admit_def path_inv_def split: option.splits if_splits)

lemma path_drop_inv [inv_intros]: "path_inv c s \<Longrightarrow> path_inv c (path_drop_probe s)"
  by (simp add: path_drop_probe_def path_inv_def)

subsection \<open>Runs of attempts\<close>

type_synonym path_attempt = "instant \<times> string option \<times> path_outcome"

fun path_run :: "path_config \<Rightarrow> path_attempt list \<Rightarrow> path_state \<Rightarrow> path_state" where
  "path_run c [] s = s"
| "path_run c ((now, source, outcome) # xs) s =
     path_run c xs (snd (path_record c now source outcome s))"

lemma path_run_append: "path_run c (xs @ ys) s = path_run c ys (path_run c xs s)"
  by (induction xs arbitrary: s) auto

lemma path_run_inv:
  "path_inv c s \<Longrightarrow> 0 < pc_threshold c \<Longrightarrow> path_inv c (path_run c xs s)"
  by (induction xs arbitrary: s) (auto simp: path_record_inv)

definition faults :: "(instant \<times> string option \<times> string) list \<Rightarrow> path_attempt list" where
  "faults xs = map (\<lambda>(now, source, code). (now, source, Fault code)) xs"

definition sources :: "(instant \<times> string option \<times> string) list \<Rightarrow> string option list" where
  "sources xs = map (\<lambda>(now, source, code). source) xs"

lemma sources_simps [simp]:
  "sources [] = []" "sources (xs @ [(now, source, code)]) = sources xs @ [source]"
  "sources ((now, source, code) # xs) = source # sources xs"
  "sources xs = [] \<longleftrightarrow> xs = []" "length (sources xs) = length xs"
  by (simp_all add: sources_def)

definition streak_attributed :: "bool \<Rightarrow> string option list \<Rightarrow> bool" where
  \<comment> \<open>specification: a second source or an anonymous call makes a streak the path's own\<close>
  "streak_attributed distinct_sources srcs \<longleftrightarrow>
     srcs \<noteq> [] \<and>
     (\<not> distinct_sources \<or> (\<exists>x \<in> set srcs. x = None \<or> x \<noteq> hd srcs))"

lemma streak_attributed_snoc:
  "streak_attributed d (xs @ [x]) \<longleftrightarrow>
     (if xs = [] then \<not> d \<or> x = None
      else streak_attributed d xs \<or> x = None \<or> x \<noteq> hd xs)"
  by (auto simp: streak_attributed_def hd_append)

lemma path_record_fault_first:
  assumes "ps_failures s = 0" "path_inv c s" "0 < pc_threshold c"
    and s'_def: "s' = snd (path_record c now source (Fault code) s)"
  shows "ps_failures s' = 1" "ps_epoch s' = Suc (ps_epoch s)"
    "ps_attributed s' \<longleftrightarrow> \<not> pc_distinct_sources c \<or> source = None"
    "\<not> ps_attributed s' \<Longrightarrow> ps_first_source s' = source"
    "ps_open_until s' \<noteq> None \<longleftrightarrow> ps_attributed s' \<and> pc_threshold c \<le> 1"
  using assms
  by (auto simp: s'_def path_attribute_def path_count_def path_open_def path_inv_def sat_add32_def
      Let_def min_def split: if_splits option.splits prod.splits)

lemma path_record_fault_next:
  assumes "0 < ps_failures s" "path_inv c s"
    and s'_def: "s' = snd (path_record c now source (Fault code) s)"
  shows "ps_failures s' = sat_add32 (ps_failures s) 1" "ps_epoch s' = ps_epoch s"
    "ps_attributed s' \<longleftrightarrow> ps_attributed s \<or> source = None \<or> source \<noteq> ps_first_source s"
    "\<not> ps_attributed s' \<Longrightarrow> ps_first_source s' = ps_first_source s"
    "ps_open_until s' \<noteq> None \<longleftrightarrow>
       ps_open_until s \<noteq> None \<or> ps_attributed s' \<and> pc_threshold c \<le> ps_failures s'"
  using assms
  by (auto simp: s'_def path_attribute_def path_count_def path_open_def path_inv_def Let_def
      split: if_splits option.splits prod.splits)

lemma streak_run:
  assumes "ps_failures s = 0" "path_inv c s" "0 < pc_threshold c" "xs \<noteq> []"
    and s'_def: "s' = path_run c (faults xs) s"
  shows "ps_failures s' = min (length xs) u32_max \<and> ps_epoch s' = Suc (ps_epoch s) \<and>
    (ps_attributed s' \<longleftrightarrow> streak_attributed (pc_distinct_sources c) (sources xs)) \<and>
    (\<not> ps_attributed s' \<longrightarrow> ps_first_source s' = hd (sources xs)) \<and>
    (ps_open_until s' \<noteq> None \<longleftrightarrow> ps_attributed s' \<and> pc_threshold c \<le> ps_failures s')"
  using assms(4) unfolding s'_def
proof (induction xs rule: rev_induct)
  case (snoc x xs)
  obtain now source code where x: "x = (now, source, code)" by (cases x)
  let ?s = "path_run c (faults xs) s"
  have run: "path_run c (faults (xs @ [x])) s = snd (path_record c now source (Fault code) ?s)"
    by (simp add: faults_def path_run_append x)
  show ?case
  proof (cases "xs = []")
    case True
    then show ?thesis
      using run path_record_fault_first [OF assms(1-3) refl, of now source code]
      by (auto simp: streak_attributed_def faults_def x)
  next
    case False
    have inv: "path_inv c ?s" using assms(2,3) by (rule path_run_inv)
    note IH = snoc.IH [OF False]
    then have pos: "0 < ps_failures ?s" using False by simp
    note follow = path_record_fault_next [OF pos inv refl, of now source code]
    let ?t = "snd (path_record c now source (Fault code) ?s)"
    let ?srcs = "sources xs"
    have srcs: "sources (xs @ [x]) = ?srcs @ [source]" by (simp add: x)
    have ne: "?srcs \<noteq> []" using False by simp
    have failures: "ps_failures ?t = min (length (xs @ [x])) u32_max"
      using follow(1) IH by (simp add: sat_add32_def)
    have attributed: "ps_attributed ?t \<longleftrightarrow> streak_attributed (pc_distinct_sources c) (?srcs @ [source])"
      unfolding follow(3) streak_attributed_snoc using IH ne by auto
    have first: "\<not> ps_attributed ?t \<longrightarrow> ps_first_source ?t = hd (?srcs @ [source])"
      using follow(3,4) IH ne by (auto simp: hd_append)
    have opened: "ps_open_until ?t \<noteq> None \<longleftrightarrow> ps_attributed ?t \<and> pc_threshold c \<le> ps_failures ?t"
      unfolding follow(5) using follow(3) failures IH by auto
    show ?thesis
      unfolding run srcs using failures follow(2) attributed first opened IH by simp
  qed
qed simp

subsection \<open>The path is a probe gate\<close>

definition path_report :: "path_config \<Rightarrow> path_attempt \<Rightarrow> path_state \<Rightarrow> path_state" where
  "path_report c x s = (case x of (now, source, outcome) \<Rightarrow> snd (path_record c now source outcome s))"

lemma path_record_probing [simp]: "ps_probing (snd (path_record c now source outcome s)) = ps_probing s"
  by (cases outcome)
    (auto simp: path_healthy_def path_attribute_def path_count_def path_open_def Let_def
      split: option.splits prod.splits)

interpretation path_gate: probe_gate ps_open_until ps_probing path_admit path_drop_probe
  "path_report c" path_init for c
  by unfold_locales
    (auto simp: path_admit_def path_drop_probe_def path_report_def path_init_def
      split: prod.splits)

subsection \<open>Properties\<close>

text \<open>In every interleaving of admissions, dropped tickets and recorded attempts, at most one
  probe of the path is outstanding. A closed path admits every call; an open one refuses before
  its interval has passed and while a probe is outstanding, and otherwise admits exactly one
  probe.\<close>

theorem path_admits_one_probe:
  assumes "gate_reachable path_admit path_drop_probe (path_report c) path_init (s, probes, plain)"
  shows "probes \<le> 1 \<and>
    path_admit now s =
      (case ps_open_until s of
         None \<Rightarrow> Some (False, s)
       | Some until \<Rightarrow> if now < until \<or> probes = 1 then None else Some (True, s\<lparr>ps_probing := True\<rparr>))"
  using path_gate.reachable_slot [OF assms]
  by (auto simp: path_admit_def split: option.splits)

theorem path_admits_one_probe_witness:
  "path_admit 8000000000 (path_run (path_new \<lparr>failure_threshold = 1, cooldown_seconds = 30\<rparr> True)
      [(0, None, Fault ''t'')] path_init) \<noteq> None"
proof -
  let ?c = "path_new \<lparr>failure_threshold = 1, cooldown_seconds = 30\<rparr> True"
  let ?s = "path_run ?c [(0, None, Fault ''t'')] path_init"
  have "?s = path_report ?c (0, None, Fault ''t'') path_init" by (simp add: path_report_def)
  then have "gate_reachable path_admit path_drop_probe (path_report ?c) path_init (?s, 0, 0)"
    using gate_next [OF gate_start gate_report] by metis
  from path_admits_one_probe [OF this, of 8000000000] show ?thesis
    by (simp add: path_new_def path_init_def path_attribute_def path_count_def path_open_def
        sat_add32_def MAX_PROBE_INTERVAL_def from_secs_def u32_max_def)
qed

text \<open>A streak of faults is attributed to the path exactly when it holds an anonymous call or a
  second account (or sources are not distinguished), and it opens the path exactly when it is
  attributed and at least as long as the threshold. So one account that keeps failing never closes
  the path for the others, however long it fails.\<close>

theorem streak_opens_path_iff:
  assumes "path_inv c s" "ps_failures s = 0" "0 < pc_threshold c" "pc_threshold c \<le> u32_max"
    and "xs \<noteq> []"
  shows "(ps_attributed (path_run c (faults xs) s) \<longleftrightarrow>
            streak_attributed (pc_distinct_sources c) (sources xs)) \<and>
         (ps_open_until (path_run c (faults xs) s) \<noteq> None \<longleftrightarrow>
            streak_attributed (pc_distinct_sources c) (sources xs) \<and> pc_threshold c \<le> length xs)"
  using streak_run [OF assms(2,1,3,5) refl] assms(4) by auto

theorem streak_opens_path_iff_witness:
  "let c = path_new \<lparr>failure_threshold = 2, cooldown_seconds = 30\<rparr> True in
   \<not> ps_attributed (path_run c (faults [(0, Some ''a'', ''t''), (1, Some ''a'', ''t''), (2, Some ''a'', ''t'')])
       path_init) \<and>
   ps_open_until (path_run c (faults [(0, Some ''a'', ''t''), (1, Some ''b'', ''t'')]) path_init) \<noteq> None"
proof -
  let ?c = "path_new \<lparr>failure_threshold = 2, cooldown_seconds = 30\<rparr> True"
  have t: "0 < pc_threshold ?c" "pc_threshold ?c \<le> u32_max" "pc_distinct_sources ?c"
    "pc_threshold ?c = 2" "ps_failures path_init = 0"
    by (simp_all add: path_new_def path_init_def u32_max_def)
  show ?thesis
    using streak_opens_path_iff [OF path_inv_init t(5,1,2),
        of "[(0, Some ''a'', ''t''), (1, Some ''a'', ''t''), (2, Some ''a'', ''t'')]"]
      streak_opens_path_iff [OF path_inv_init t(5,1,2), of "[(0, Some ''a'', ''t''), (1, Some ''b'', ''t'')]"]
      t(3,4)
    by (simp add: streak_attributed_def)
qed

text \<open>Any answer of the upstream closes the path at once: whatever state the attempts so far
  have left, after a healthy attempt every call is admitted without a probe, the next fault starts
  a new streak, and a single named account's fault is charged to that account again.\<close>

theorem healthy_answer_closes_path:
  assumes "0 < pc_threshold c" "pc_distinct_sources c"
    and "s = path_run c xs path_init" "h = snd (path_record c now source Healthy s)"
    and "t = snd (path_record c now' (Some name) (Fault code) h)"
  shows "path_admit later h = Some (False, h) \<and>
    (ch_transition (fst (path_record c now source Healthy s)) = PathRecovered \<longleftrightarrow> ps_open_until s \<noteq> None) \<and>
    ps_epoch t = Suc (ps_epoch s) \<and>
    path_charge t = ChargeAccount (Some (Suc (ps_epoch s))) \<and> \<not> path_attributed (ps_epoch t) t"
proof -
  have inv: "path_inv c h"
    using assms by (simp add: path_record_inv path_run_inv path_inv_init del: path_record.simps)
  have h: "ps_failures h = 0" "ps_open_until h = None" "ps_epoch h = ps_epoch s"
    using assms(4) by (simp_all add: path_healthy_def)
  note first = path_record_fault_first [OF h(1) inv assms(1,5)]
  have "path_inv c t" using inv assms(1,5) by (simp add: path_record_inv del: path_record.simps)
  with first assms(2) have "ps_last_attributed t < ps_epoch t" "\<not> ps_attributed t" "ps_open_until t = None"
    by (auto simp: path_inv_def)
  with first h assms(4) show ?thesis
    by (auto simp: path_admit_def path_charge_def path_attributed_def path_healthy_def)
qed

theorem healthy_answer_closes_path_witness:
  "let c = path_new \<lparr>failure_threshold = 1, cooldown_seconds = 30\<rparr> True;
       s = path_run c [(0, None, Fault ''t'')] path_init
   in ps_open_until s \<noteq> None \<and>
      path_admit 1 (snd (path_record c 1 None Healthy s)) =
        Some (False, snd (path_record c 1 None Healthy s))"
proof -
  let ?c = "path_new \<lparr>failure_threshold = 1, cooldown_seconds = 30\<rparr> True"
  let ?s = "path_run ?c [(0, None, Fault ''t'')] path_init"
  have c: "0 < pc_threshold ?c" "pc_distinct_sources ?c" by (simp_all add: path_new_def)
  have "ps_open_until ?s \<noteq> None"
    by (simp add: path_new_def path_init_def path_attribute_def path_count_def path_open_def
        sat_add32_def u32_max_def)
  then show ?thesis
    using healthy_answer_closes_path [where c = ?c and xs = "[(0, None, Fault ''t'')]" and now = 1
        and source = None and now' = 1 and name = "''a''" and code = "''t''" and later = 1,
        OF c refl refl refl] by (simp add: Let_def del: path_run.simps)
qed

end
