(* ===== verification/Region.thy ===== *)
theory Region
  imports Prelude
begin

section \<open>Regions (src/region.rs)\<close>

text \<open>
  The region enumeration with its names, protocol families and known services, the platform, and
  the deprecated spelling of the Hong Kong region with its two process-wide flags. The flags are
  explicit state: reading configuration may set \<open>alias_used\<close>, and the warning is logged at most
  once.
\<close>

datatype region = Jp | Hk | En | Kr | Cn

datatype platform = Ios | Android

record alias_flags =
  alias_used :: bool
  alias_warned :: bool

definition alias_init :: alias_flags where
  "alias_init = \<lparr>alias_used = False, alias_warned = False\<rparr>"

definition deprecated_hk_alias :: string where
  "deprecated_hk_alias = ''tw''"

definition warn_deprecated_alias :: "alias_flags \<Rightarrow> bool \<times> alias_flags" where
  \<comment> \<open>the second operand of \<open>||\<close> swaps the flag only when the first is false\<close>
  "warn_deprecated_alias f =
     (if \<not> alias_used f then (False, f)
      else if alias_warned f then (False, f\<lparr>alias_warned := True\<rparr>)
      else (True, f\<lparr>alias_warned := True\<rparr>))"

definition is_deprecated_alias :: "string \<Rightarrow> bool" where
  "is_deprecated_alias name \<longleftrightarrow> name = deprecated_hk_alias"

definition note_deprecated_alias :: "alias_flags \<Rightarrow> alias_flags" where
  "note_deprecated_alias f = f\<lparr>alias_used := True\<rparr>"

fun region_name :: "region \<Rightarrow> string" where
  "region_name Jp = ''jp''"
| "region_name Hk = ''hk''"
| "region_name En = ''en''"
| "region_name Kr = ''kr''"
| "region_name Cn = ''cn''"

definition region_from_name :: "string \<Rightarrow> region option" where
  "region_from_name name = find (\<lambda>r. region_name r = name) [Jp, Hk, En, Kr, Cn]"

definition region_from_config_name :: "string \<Rightarrow> alias_flags \<Rightarrow> region option \<times> alias_flags" where
  "region_from_config_name name f =
     (if is_deprecated_alias name then (Some Hk, note_deprecated_alias f)
      else (region_from_name name, f))"

definition region_from_recorded_name :: "string \<Rightarrow> region option" where
  "region_from_recorded_name name =
     (if is_deprecated_alias name then Some Hk else region_from_name name)"

fun region_family :: "region \<Rightarrow> string" where
  "region_family Jp = ''jp''"
| "region_family Cn = ''cn''"
| "region_family _ = ''global''"

fun region_area_id :: "region \<Rightarrow> string option" where
  "region_area_id Hk = Some ''2''"
| "region_area_id En = Some ''3''"
| "region_area_id Kr = Some ''4''"
| "region_area_id _ = None"

fun region_protocol_version :: "region \<Rightarrow> string" where
  "region_protocol_version Jp = ''1.0.4''"
| "region_protocol_version Cn = []"
| "region_protocol_version _ = ''1.0.3''"

definition matches_known_service :: "region \<Rightarrow> string \<Rightarrow> string \<Rightarrow> bool" where
  "matches_known_service self host path =
     (let is_none_or = (\<lambda>expected. case expected of None \<Rightarrow> True | Some r \<Rightarrow> r = self) in
      if ends_with host ''.bang-dream-on.jp'' then is_none_or (Some Jp)
      else if ends_with host ''.gamerfusiontech.com'' \<and> contains_str host ''-prod-hk-''
        then is_none_or (Some Hk)
      else if ends_with host ''.bilibiligame.net'' \<and> contains_str host ''-prod-va-''
        then is_none_or (Some En)
      else if ends_with host ''.bilibiligame.net'' \<and> contains_str host ''-prod-kr-''
        then is_none_or (Some Kr)
      else if ends_with host ''.bilibiligame.net'' \<and> contains_str host ''-prod-sg-patch-''
        then (if starts_with path ''/prod/en_'' then is_none_or (Some En)
              else if starts_with path ''/prod/kr_'' then is_none_or (Some Kr)
              else False)
      else is_none_or None)"

definition master_supported :: "region \<Rightarrow> bool" where
  "master_supported r \<longleftrightarrow> r \<noteq> Cn"

definition default_platform :: "region \<Rightarrow> platform" where
  "default_platform r = (if r = Jp then Ios else Android)"

fun platform_name :: "platform \<Rightarrow> string" where
  "platform_name Ios = ''iOS''"
| "platform_name Android = ''Android''"

fun platform_header :: "platform \<Rightarrow> string" where
  "platform_header Ios = ''ios''"
| "platform_header Android = ''android''"

subsection \<open>Runs of configuration reads and warnings\<close>

datatype alias_event = ReadConfigName string | Warn

fun alias_run :: "alias_event list \<Rightarrow> alias_flags \<Rightarrow> bool list" where
  \<comment> \<open>the answers of the \<open>warn_deprecated_alias\<close> calls of a run\<close>
  "alias_run [] f = []"
| "alias_run (ReadConfigName n # es) f = alias_run es (snd (region_from_config_name n f))"
| "alias_run (Warn # es) f =
     (let (logged, f') = warn_deprecated_alias f in logged # alias_run es f')"

lemma region_from_name_iff: "region_from_name n = Some r \<longleftrightarrow> n = region_name r"
  by (cases r) (auto simp: region_from_name_def)

lemma alias_not_canonical: "region_name r \<noteq> deprecated_hk_alias"
  by (cases r) (simp_all add: deprecated_hk_alias_def)

lemma alias_run_warned: "alias_warned f \<Longrightarrow> \<not> List.member (alias_run es f) True"
proof (induction es arbitrary: f)
  case (Cons e es)
  then show ?case
    by (cases e) (auto simp: warn_deprecated_alias_def region_from_config_name_def
        note_deprecated_alias_def Let_def split: if_splits)
qed simp

lemma alias_run_once: "length (filter (\<lambda>b. b) (alias_run es f)) \<le> 1"
proof (induction es arbitrary: f)
  case (Cons e es)
  show ?case
  proof (cases e)
    case (ReadConfigName n)
    with Cons.IH show ?thesis by simp
  next
    case Warn
    have "filter (\<lambda>b. b) (alias_run es (f\<lparr>alias_warned := True\<rparr>)) = []"
      using alias_run_warned [of "f\<lparr>alias_warned := True\<rparr>" es] by (auto simp: filter_empty_conv)
    with Warn Cons.IH show ?thesis
      by (auto simp: warn_deprecated_alias_def Let_def)
  qed
qed simp

lemma alias_run_unused:
  "\<not> alias_used f \<Longrightarrow> (\<forall>n. ReadConfigName n \<in> set es \<longrightarrow> n \<noteq> deprecated_hk_alias) \<Longrightarrow>
   filter (\<lambda>b. b) (alias_run es f) = []"
proof (induction es arbitrary: f)
  case (Cons e es)
  then show ?case
    by (cases e) (auto simp: warn_deprecated_alias_def region_from_config_name_def
        is_deprecated_alias_def Let_def)
qed simp

lemma alias_rejected: "region_from_name ''tw'' = None"
  by (simp add: region_from_name_def)

lemma recorded_name_iff:
  "region_from_recorded_name n = Some r \<longleftrightarrow> n = region_name r \<or> n = ''tw'' \<and> r = Hk"
proof (cases "n = ''tw''")
  case True
  then show ?thesis
    using alias_not_canonical [of r]
    by (auto simp: region_from_recorded_name_def is_deprecated_alias_def deprecated_hk_alias_def)
next
  case False
  then show ?thesis
    by (simp add: region_from_recorded_name_def is_deprecated_alias_def deprecated_hk_alias_def
        region_from_name_iff)
qed

lemma config_name_recorded: "fst (region_from_config_name n f) = region_from_recorded_name n"
  by (simp add: region_from_recorded_name_def region_from_config_name_def)

lemma config_name_flags:
  "alias_used (snd (region_from_config_name n f)) \<longleftrightarrow> alias_used f \<or> n = ''tw''"
  by (auto simp: region_from_config_name_def is_deprecated_alias_def deprecated_hk_alias_def
      note_deprecated_alias_def)

subsection \<open>Properties\<close>

text \<open>Region names are read back exactly: a canonical name is accepted by every reader and
  denotes its own region, the only other accepted text is the deprecated alias, which configuration
  and recorded state read as the Hong Kong region, and a canonical reader rejects it.\<close>

theorem region_names_round_trip:
  "(region_from_name n = Some r \<longleftrightarrow> n = region_name r) \<and>
   (region_from_recorded_name n = Some r \<longleftrightarrow> n = region_name r \<or> n = ''tw'' \<and> r = Hk) \<and>
   fst (region_from_config_name n f) = region_from_recorded_name n \<and>
   (alias_used (snd (region_from_config_name n f)) \<longleftrightarrow> alias_used f \<or> n = ''tw'') \<and>
   region_from_name ''tw'' = None"
  by (simp add: region_from_name_iff recorded_name_iff config_name_recorded config_name_flags
      alias_rejected)

text \<open>The deprecation warning is logged at most once per process, whatever the order of
  configuration reads and warning calls, and never when no configuration name was the alias.\<close>

theorem alias_warning_at_most_once:
  "length (filter (\<lambda>b. b) (alias_run es alias_init)) \<le> 1 \<and>
   (filter (\<lambda>b. b) (alias_run es alias_init) \<noteq> [] \<longrightarrow> ReadConfigName ''tw'' \<in> set es)"
  using alias_run_once [of es alias_init] alias_run_unused [of alias_init es]
  by (auto simp: alias_init_def deprecated_hk_alias_def)

theorem alias_warning_at_most_once_witness:
  "alias_run [Warn, ReadConfigName ''tw'', Warn, Warn] alias_init = [False, True, False] \<and>
   length (filter (\<lambda>b. b) (alias_run [Warn, ReadConfigName ''tw'', Warn, Warn] alias_init)) \<le> 1"
  using alias_warning_at_most_once [of "[Warn, ReadConfigName ''tw'', Warn, Warn]"]
  by (simp add: alias_init_def warn_deprecated_alias_def region_from_config_name_def
      is_deprecated_alias_def deprecated_hk_alias_def note_deprecated_alias_def)

text \<open>A host and path that belong to a known game service are accepted for at most one region,
  and never for the reserved one: when two regions both accept them, the service is unknown and
  every region accepts it.\<close>

theorem known_services_do_not_overlap:
  "matches_known_service r host path \<Longrightarrow> matches_known_service r' host path \<Longrightarrow> r \<noteq> r' \<Longrightarrow>
   matches_known_service q host path"
  by (auto simp: matches_known_service_def Let_def split: if_splits)

theorem known_services_do_not_overlap_witness:
  "matches_known_service Jp ''example.org'' ''/'' \<and> matches_known_service En ''example.org'' ''/'' \<and>
   matches_known_service Kr ''example.org'' ''/''"
proof -
  have "matches_known_service Jp ''example.org'' ''/''" "matches_known_service En ''example.org'' ''/''"
    by (simp_all add: matches_known_service_def ends_with_def starts_with_def)
  then show ?thesis
    using known_services_do_not_overlap [of Jp "''example.org''" "''/''" En Kr] by simp
qed

end
