(* ===== verification/Global_Login.thy ===== *)
theory Global_Login
  imports App_Error Region
begin

section \<open>Global logins (src/global_account.rs, src/global_sdk.rs)\<close>

text \<open>
  The \<open>global_login\<close> section of the configuration with its validation, the login state of one
  Global account, its rate limit, and the reading of a PlayerLogin answer. The HTTP library's
  header syntax check \<open>value.parse::<HeaderValue>()\<close> is the parameter \<open>header_ok\<close>.
\<close>

definition SDK_ORIGINS :: "string list" where
  "SDK_ORIGINS =
     [''https://l11-sdk-login-intl.biligame.net'',
      ''https://l12-sdk-login-intl.biligame.net'',
      ''https://l13-sdk-login-intl.biligame.net'']"

definition origin_allowed :: "string \<Rightarrow> bool" where
  \<comment> \<open>the production build: \<open>cfg!(test)\<close> is false\<close>
  "origin_allowed origin \<longleftrightarrow> origin \<in> set SDK_ORIGINS"

definition DAY :: duration where
  "DAY = from_secs 86400"

lemma DAY_pos [simp]: "0 < DAY"
  by (simp add: DAY_def)

record login_config =
  sdk_origin :: string
  sdk_app_key_env :: string
  sdk_timeout_ms :: nat
  login_min_interval_seconds :: nat
  max_logins_per_day :: nat
  aegis_cooldown_seconds :: nat
  concurrent_device_limit :: nat
  state_directory :: "string option"
  sdk_refusal_retry_seconds :: nat
  sdk_keepalive_seconds :: nat

definition login_config_default :: login_config where
  "login_config_default =
     \<lparr>sdk_origin = ''https://l11-sdk-login-intl.biligame.net'',
      sdk_app_key_env = ''SIRIUS_GLOBAL_SDK_APP_KEY'',
      sdk_timeout_ms = 15000,
      login_min_interval_seconds = 300,
      max_logins_per_day = 24,
      aegis_cooldown_seconds = 900,
      concurrent_device_limit = 3,
      state_directory = None,
      sdk_refusal_retry_seconds = 86400,
      sdk_keepalive_seconds = 20 * 86400\<rparr>"

definition login_config_validate :: "login_config \<Rightarrow> app_error + unit" where
  "login_config_validate c =
     (if \<not> origin_allowed (sdk_origin c)
      then Err (Config ''global_login.sdk_origin must be one of the official SDK HTTPS origins'')
      else if sdk_app_key_env c = []
        \<or> \<not> (1000 \<le> sdk_timeout_ms c \<and> sdk_timeout_ms c \<le> 60000)
        \<or> login_min_interval_seconds c > 86400
        \<or> \<not> (1 \<le> max_logins_per_day c \<and> max_logins_per_day c \<le> 100)
        \<or> \<not> (60 \<le> aegis_cooldown_seconds c \<and> aegis_cooldown_seconds c \<le> 86400)
        \<or> \<not> (1 \<le> concurrent_device_limit c \<and> concurrent_device_limit c \<le> 100)
        \<or> \<not> (3600 \<le> sdk_refusal_retry_seconds c \<and> sdk_refusal_retry_seconds c \<le> 30 * 86400)
        \<or> \<not> (86400 \<le> sdk_keepalive_seconds c \<and> sdk_keepalive_seconds c \<le> 28 * 86400)
        \<or> (case state_directory c of None \<Rightarrow> False | Some d \<Rightarrow> d = [])
      then Err (Config ''global_login values exceed supported bounds'')
      else Ok ())"

subsection \<open>Login state\<close>

record session =
  se_player_id :: string
  se_credential :: string
  se_is_new_user :: bool
  se_cp_server_name :: string

record login_state =
  ls_session :: "session option"
  ls_sdk_generation :: nat
  ls_attempts :: "instant list"
  ls_last_login_at :: "instant option"
  ls_last_error_code :: "string option"
  ls_last_sdk_code :: "int option"
  ls_invalidations :: nat
  ls_concurrent_device :: "instant list"

definition login_init :: login_state where
  "login_init = \<lparr>ls_session = None, ls_sdk_generation = 0, ls_attempts = [], ls_last_login_at = None,
     ls_last_error_code = None, ls_last_sdk_code = None, ls_invalidations = 0,
     ls_concurrent_device = []\<rparr>"

fun pop_expired :: "instant \<Rightarrow> instant list \<Rightarrow> instant list" where
  \<comment> \<open>\<open>while front().is_some_and(older than a day) { pop_front() }\<close>\<close>
  "pop_expired now [] = []"
| "pop_expired now (t # ts) =
     (if DAY \<le> saturating_duration_since now t then pop_expired now ts else t # ts)"

definition login_prune :: "instant \<Rightarrow> login_state \<Rightarrow> login_state" where
  "login_prune now s =
     s\<lparr>ls_attempts := pop_expired now (ls_attempts s),
       ls_concurrent_device := pop_expired now (ls_concurrent_device s)\<rparr>"

definition login_next_allowed ::
  "instant \<Rightarrow> login_config \<Rightarrow> login_state \<Rightarrow> instant option \<times> login_state" where
  "login_next_allowed now c s =
     (let s1 = login_prune now s;
          interval = from_secs (login_min_interval_seconds c);
          by_interval =
            (if ls_attempts s1 = [] then None
             else let t = last (ls_attempts s1) + interval in if t > now then Some t else None);
          by_cap =
            (if max_logins_per_day c \<le> length (ls_attempts s1)
             then (case ls_attempts s1 of [] \<Rightarrow> None | t # _ \<Rightarrow> Some (t + DAY))
             else None)
      in (max_instant by_interval by_cap, s1))"

definition login_attempt :: "instant \<Rightarrow> login_state \<Rightarrow> login_state" where
  \<comment> \<open>\<open>g.state().attempts.push_back(now)\<close>\<close>
  "login_attempt now s = s\<lparr>ls_attempts := ls_attempts s @ [now]\<rparr>"

subsection \<open>Reading a PlayerLogin answer\<close>

definition header_value :: "(string \<Rightarrow> bool) \<Rightarrow> string \<Rightarrow> bool" where
  "header_value header_ok v \<longleftrightarrow> \<not> blank v \<and> length v \<le> 4096 \<and> header_ok v"

fun as_str :: "json \<Rightarrow> string option" where
  "as_str (JStr s) = Some s"
| "as_str _ = None"

fun as_u64 :: "json \<Rightarrow> nat option" where
  "as_u64 (JInt i) = (if 0 \<le> i \<and> i \<le> int u64_max then Some (nat i) else None)"
| "as_u64 _ = None"

definition parse_login :: "(string \<Rightarrow> bool) \<Rightarrow> json \<Rightarrow> session option" where
  "parse_login header_ok value =
     (case json_get value ''credential'' of
        None \<Rightarrow> None
      | Some credential \<Rightarrow>
          (case Option.bind (json_get credential ''id'') as_str of
             None \<Rightarrow> None
           | Some player_id \<Rightarrow>
               (case Option.bind (json_get credential ''credential'') as_str of
                  None \<Rightarrow> None
                | Some secret \<Rightarrow>
                    if \<not> header_value header_ok player_id \<or> \<not> header_value header_ok secret then None
                    else Some
                      \<lparr>se_player_id = player_id,
                       se_credential = secret,
                       se_is_new_user =
                         (case Option.bind (json_get value ''isNewUser'') as_u64 of
                            None \<Rightarrow> False | Some n \<Rightarrow> n \<noteq> 0),
                       se_cp_server_name =
                         (case Option.bind (json_get value ''cpServerName'') as_str of
                            None \<Rightarrow> []
                          | Some n \<Rightarrow> if length n \<le> 128 \<and> \<not> has_control n then n else [])\<rparr>)))"

subsection \<open>The rate limit\<close>

text \<open>
  Login requests of one account, one after another (the account's session lock serializes them): a
  request at time \<open>now\<close> is refused while \<open>next_allowed\<close> names a later time, and otherwise becomes
  an attempt. The result lists the attempts.
\<close>

fun login_run :: "login_config \<Rightarrow> instant list \<Rightarrow> login_state \<Rightarrow> instant list" where
  "login_run c [] s = []"
| "login_run c (now # ts) s =
     (case login_next_allowed now c s of
        (Some _, s1) \<Rightarrow> login_run c ts s1
      | (None, s1) \<Rightarrow> now # login_run c ts (login_attempt now s1))"

lemma pop_expired_suffix:
  "\<exists>old. ts = old @ pop_expired now ts \<and> (\<forall>t \<in> set old. t + DAY \<le> now)"
proof (induction ts)
  case (Cons t ts)
  then obtain old where old: "ts = old @ pop_expired now ts" "\<forall>t \<in> set old. t + DAY \<le> now" by blast
  show ?case
  proof (cases "DAY \<le> saturating_duration_since now t")
    case True
    then have "t + DAY \<le> now" by (simp add: saturating_duration_since_def DAY_def from_secs_def)
    with True old show ?thesis by (intro exI [of _ "t # old"]) auto
  qed simp
qed simp

lemma pop_expired_young:
  "sorted ts \<Longrightarrow> t \<in> set (pop_expired now ts) \<Longrightarrow> now < t + DAY"
  by (induction ts) (auto simp: saturating_duration_since_def split: if_splits)

definition recent :: "instant \<Rightarrow> instant list \<Rightarrow> instant list" where
  "recent now xs = filter (\<lambda>x. now < x + DAY) xs"

definition rate_ok :: "login_config \<Rightarrow> instant list \<Rightarrow> bool" where
  "rate_ok c xs \<longleftrightarrow>
     sorted xs \<and>
     (\<forall>i. Suc i < length xs \<longrightarrow> xs ! i + from_secs (login_min_interval_seconds c) \<le> xs ! Suc i) \<and>
     (\<forall>i < length xs. length (recent (xs ! i) (take (Suc i) xs)) \<le> max_logins_per_day c)"

lemma rate_ok_snoc:
  assumes "rate_ok c xs" "\<forall>x \<in> set xs. x \<le> now"
    and "xs \<noteq> [] \<Longrightarrow> last xs + from_secs (login_min_interval_seconds c) \<le> now"
    and "length (recent now xs) < max_logins_per_day c"
  shows "rate_ok c (xs @ [now])"
proof -
  have "sorted (xs @ [now])" using assms(1,2) by (simp add: rate_ok_def sorted_append)
  moreover have "(xs @ [now]) ! i + from_secs (login_min_interval_seconds c) \<le> (xs @ [now]) ! Suc i"
    if "Suc i < length (xs @ [now])" for i
  proof (cases "Suc i < length xs")
    case True
    with assms(1) show ?thesis by (simp add: rate_ok_def nth_append)
  next
    case False
    with that have i: "Suc i = length xs" by simp
    then have "xs \<noteq> []" "last xs = xs ! i" by (fastforce, metis diff_Suc_1 i last_conv_nth list.size(3) nat.distinct(1))
    with assms(3) i show ?thesis by (simp add: nth_append)
  qed
  moreover have "length (recent ((xs @ [now]) ! i) (take (Suc i) (xs @ [now]))) \<le> max_logins_per_day c"
    if "i < length (xs @ [now])" for i
  proof (cases "i < length xs")
    case True
    with assms(1) show ?thesis by (simp add: rate_ok_def nth_append)
  next
    case False
    with that have "i = length xs" by simp
    with assms(4) show ?thesis by (simp add: recent_def)
  qed
  ultimately show ?thesis by (simp add: rate_ok_def)
qed

definition login_inv :: "instant list \<Rightarrow> instant \<Rightarrow> login_state \<Rightarrow> bool" where
  \<comment> \<open>the state remembers every attempt of the history younger than a day at \<open>now\<close>\<close>
  "login_inv hist now s \<longleftrightarrow>
     (\<exists>old. hist = old @ ls_attempts s \<and> (\<forall>x \<in> set old. x + DAY \<le> now)) \<and>
     sorted hist \<and> (\<forall>x \<in> set hist. x \<le> now)"

lemma login_inv_prune:
  assumes "login_inv hist now0 s" "now0 \<le> now"
  shows "login_inv hist now (login_prune now s)"
    "ls_attempts (login_prune now s) = recent now hist"
proof -
  obtain old where old: "hist = old @ ls_attempts s" "\<forall>x \<in> set old. x + DAY \<le> now0"
    and srt: "sorted hist" "\<forall>x \<in> set hist. x \<le> now0"
    using assms(1) by (auto simp: login_inv_def)
  obtain old' where old': "ls_attempts s = old' @ pop_expired now (ls_attempts s)"
    "\<forall>t \<in> set old'. t + DAY \<le> now" using pop_expired_suffix by blast
  have hist: "hist = (old @ old') @ pop_expired now (ls_attempts s)"
    using old(1) old'(1) by simp
  have dead: "\<forall>x \<in> set (old @ old'). x + DAY \<le> now"
    using old(2) old'(2) assms(2) by fastforce
  have "sorted (ls_attempts s)" using srt(1) old(1) by (simp add: sorted_append)
  then have young: "\<forall>x \<in> set (pop_expired now (ls_attempts s)). now < x + DAY"
    using pop_expired_young by blast
  from dead have "filter (\<lambda>x. now < x + DAY) (old @ old') = []"
    by (simp add: filter_empty_conv not_less ball_Un)
  moreover from young have "filter (\<lambda>x. now < x + DAY) (pop_expired now (ls_attempts s)) =
      pop_expired now (ls_attempts s)"
    by (simp add: filter_id_conv)
  ultimately have "recent now hist = pop_expired now (ls_attempts s)"
    unfolding recent_def by (subst hist) (simp add: filter_empty_conv)
  then show "ls_attempts (login_prune now s) = recent now hist"
    by (simp add: login_prune_def)
  show "login_inv hist now (login_prune now s)"
    unfolding login_inv_def
  proof (intro conjI exI [of _ "old @ old'"])
    show "hist = (old @ old') @ ls_attempts (login_prune now s)" using hist by (simp add: login_prune_def)
    show "\<forall>x \<in> set hist. x \<le> now" using srt(2) assms(2) by fastforce
  qed (use dead srt(1) in auto)
qed

lemma login_allowed_gap:
  assumes "login_inv hist now0 s" "now0 \<le> now" "login_min_interval_seconds c \<le> 86400"
    and "login_next_allowed now c s = (None, s1)" "hist \<noteq> []"
  shows "last hist + from_secs (login_min_interval_seconds c) \<le> now"
proof (cases "recent now hist = []")
  case True
  then have "last hist + DAY \<le> now"
    using assms(5) by (auto simp: recent_def filter_empty_conv not_less)
  moreover have "from_secs (login_min_interval_seconds c) \<le> DAY"
    using assms(3) by (simp add: DAY_def from_secs_mono)
  ultimately show ?thesis by simp
next
  case False
  note prune = login_inv_prune [OF assms(1,2)]
  obtain old where "hist = old @ recent now hist"
    using prune by (auto simp: login_inv_def)
  then have "last hist = last (recent now hist)" using False by (metis last_append)
  moreover have "last (recent now hist) + from_secs (login_min_interval_seconds c) \<le> now"
    using assms(4) False prune(2)
    by (auto simp: login_next_allowed_def Let_def split: if_splits)
  ultimately show ?thesis by simp
qed

lemma login_allowed_cap:
  assumes "login_inv hist now0 s" "now0 \<le> now" "0 < max_logins_per_day c"
    and "login_next_allowed now c s = (None, s1)"
  shows "length (recent now hist) < max_logins_per_day c"
  using assms(3,4) login_inv_prune(2) [OF assms(1,2)]
  by (auto simp: login_next_allowed_def Let_def split: if_splits list.splits)

lemma login_run_rate:
  assumes "sorted (now0 # ts)" "login_inv hist now0 s" "rate_ok c hist"
    and "0 < max_logins_per_day c" "login_min_interval_seconds c \<le> 86400"
  shows "rate_ok c (hist @ login_run c ts s)"
  using assms(1-3)
proof (induction ts arbitrary: now0 hist s)
  case (Cons now ts)
  then have le: "now0 \<le> now" and srt: "sorted (now # ts)" by auto
  obtain r s1 where nxt: "login_next_allowed now c s = (r, s1)" by fastforce
  then have s1: "s1 = login_prune now s" by (auto simp: login_next_allowed_def Let_def)
  note prune = login_inv_prune [OF Cons.prems(2) le]
  show ?case
  proof (cases r)
    case (Some t)
    with Cons.IH [OF srt prune(1) Cons.prems(3)] nxt s1 show ?thesis by simp
  next
    case None
    have "\<forall>x \<in> set hist. x \<le> now" using Cons.prems(2) le by (auto simp: login_inv_def)
    then have "rate_ok c (hist @ [now])"
      using Cons.prems(2,3) le assms(4,5) nxt None
      by (intro rate_ok_snoc login_allowed_gap login_allowed_cap) auto
    moreover have "login_inv (hist @ [now]) now (login_attempt now s1)"
      using prune(1) s1 by (auto simp: login_inv_def login_attempt_def sorted_append)
    ultimately have "rate_ok c ((hist @ [now]) @ login_run c ts (login_attempt now s1))"
      using srt by (intro Cons.IH)
    with nxt None show ?thesis by simp
  qed
qed simp

lemma rate_ok_snocD:
  assumes "rate_ok c (xs @ [y])"
  shows "rate_ok c xs" "length (recent y (xs @ [y])) \<le> max_logins_per_day c"
proof -
  have gap: "(xs @ [y]) ! i + from_secs (login_min_interval_seconds c) \<le> (xs @ [y]) ! Suc i"
    if "Suc i < length (xs @ [y])" for i using assms that by (simp add: rate_ok_def)
  have cap: "length (recent ((xs @ [y]) ! i) (take (Suc i) (xs @ [y]))) \<le> max_logins_per_day c"
    if "i < length (xs @ [y])" for i using assms that unfolding rate_ok_def by blast
  show "length (recent y (xs @ [y])) \<le> max_logins_per_day c"
    using cap [of "length xs"] by simp
  have "xs ! i + from_secs (login_min_interval_seconds c) \<le> xs ! Suc i" if "Suc i < length xs" for i
    using gap [of i] that by (simp add: nth_append)
  moreover have "length (recent (xs ! i) (take (Suc i) xs)) \<le> max_logins_per_day c"
    if "i < length xs" for i using cap [of i] that by (simp add: nth_append)
  moreover have "sorted xs" using assms by (simp add: rate_ok_def sorted_append)
  ultimately show "rate_ok c xs" by (simp add: rate_ok_def)
qed

lemma rate_ok_window:
  "rate_ok c xs \<Longrightarrow> length (filter (\<lambda>x. t \<le> x \<and> x < t + DAY) xs) \<le> max_logins_per_day c"
proof (induction xs rule: rev_induct)
  case (snoc y xs)
  let ?P = "\<lambda>x. t \<le> x \<and> x < t + DAY"
  show ?case
  proof (cases "?P y")
    case True
    have "filter ?P (xs @ [y]) = filter ?P (recent y (xs @ [y]))"
      using True unfolding recent_def filter_filter by (intro filter_cong) auto
    then have "length (filter ?P (xs @ [y])) \<le> length (recent y (xs @ [y]))"
      by (metis length_filter_le)
    also have "\<dots> \<le> max_logins_per_day c" by (rule rate_ok_snocD(2) [OF snoc.prems])
    finally show ?thesis .
  next
    case False
    then have "filter ?P (xs @ [y]) = filter ?P xs" by auto
    then show ?thesis using snoc.IH [OF rate_ok_snocD(1) [OF snoc.prems]] by simp
  qed
qed simp

subsection \<open>Properties\<close>

text \<open>For every validated configuration and every sequence of login requests of an account,
  consecutive attempts are at least the configured interval apart, and no window of 24 hours holds
  more attempts than the daily cap.\<close>

theorem login_rate_is_bounded:
  assumes "login_config_validate c = Ok ()" "sorted ts"
  shows "(\<forall>i. Suc i < length (login_run c ts login_init) \<longrightarrow>
            login_run c ts login_init ! i + from_secs (login_min_interval_seconds c)
              \<le> login_run c ts login_init ! Suc i) \<and>
         (\<forall>t. length (filter (\<lambda>x. t \<le> x \<and> x < t + DAY) (login_run c ts login_init))
              \<le> max_logins_per_day c)"
proof -
  have c: "0 < max_logins_per_day c" "login_min_interval_seconds c \<le> 86400"
    using assms(1) by (auto simp: login_config_validate_def split: if_splits)
  have "rate_ok c ([] @ login_run c ts login_init)"
    using assms(2) c by (intro login_run_rate [of 0]) (auto simp: login_inv_def login_init_def rate_ok_def)
  then show ?thesis
    using rate_ok_window by (simp add: rate_ok_def)
qed

theorem login_rate_is_bounded_witness:
  "login_config_validate (login_config_default\<lparr>max_logins_per_day := 2\<rparr>) = Ok () \<and>
   login_run (login_config_default\<lparr>max_logins_per_day := 2\<rparr>)
     (map from_secs [0, 100, 400, 900, 90000]) login_init = map from_secs [0, 400, 90000] \<and>
   length (filter (\<lambda>x. 0 \<le> x \<and> x < 0 + DAY) (login_run (login_config_default\<lparr>max_logins_per_day := 2\<rparr>)
     (map from_secs [0, 100, 400, 900, 90000]) login_init)) \<le> 2"
proof -
  let ?c = "login_config_default\<lparr>max_logins_per_day := 2\<rparr>"
  have v: "login_config_validate ?c = Ok ()"
    by (simp add: login_config_validate_def login_config_default_def origin_allowed_def SDK_ORIGINS_def)
  have r: "login_run ?c (map from_secs [0, 100, 400, 900, 90000]) login_init = map from_secs [0, 400, 90000]"
    by (simp add: login_next_allowed_def login_prune_def login_init_def login_attempt_def Let_def
        login_config_default_def saturating_duration_since_def DAY_def from_secs_def max_instant_def)
  have s: "sorted (map from_secs [0, 100, 400, 900, 90000])" by (simp add: from_secs_def)
  have m: "max_logins_per_day ?c = 2" by simp
  have "length (filter (\<lambda>x. 0 \<le> x \<and> x < 0 + DAY)
      (login_run ?c (map from_secs [0, 100, 400, 900, 90000]) login_init)) \<le> max_logins_per_day ?c"
    using login_rate_is_bounded [OF v s, THEN conjunct2] by (rule spec)
  then show ?thesis using v r unfolding m by (intro conjI)
qed

text \<open>A session read from a PlayerLogin answer carries exactly the answer's player ID and
  credential, both usable as header values, and a server name that is bounded and free of control
  characters; an answer without them gives no session.\<close>

theorem parsed_session_is_usable:
  "parse_login header_ok value = Some s \<Longrightarrow>
   (\<exists>cred. json_get value ''credential'' = Some cred \<and>
      json_get cred ''id'' = Some (JStr (se_player_id s)) \<and>
      json_get cred ''credential'' = Some (JStr (se_credential s))) \<and>
   header_value header_ok (se_player_id s) \<and> header_value header_ok (se_credential s) \<and>
   length (se_cp_server_name s) \<le> 128 \<and> \<not> has_control (se_cp_server_name s)"
  by (auto simp: parse_login_def has_control_def bind_eq_Some_conv elim!: as_str.elims
      split: option.splits if_splits)

theorem parsed_session_is_usable_witness:
  "let v = JObj [(''credential'', JObj [(''id'', JStr ''p1''), (''credential'', JStr ''k'')]),
                 (''cpServerName'', JStr [CHR 0x0A])]
   in parse_login (\<lambda>_. True) v =
        Some \<lparr>se_player_id = ''p1'', se_credential = ''k'', se_is_new_user = False, se_cp_server_name = []\<rparr> \<and>
      header_value (\<lambda>_. True) ''p1''"
proof -
  let ?v = "JObj [(''credential'', JObj [(''id'', JStr ''p1''), (''credential'', JStr ''k'')]),
                 (''cpServerName'', JStr [CHR 0x0A])]"
  have "parse_login (\<lambda>_. True) ?v =
        Some \<lparr>se_player_id = ''p1'', se_credential = ''k'', se_is_new_user = False, se_cp_server_name = []\<rparr>"
    by (simp add: parse_login_def header_value_def blank_def byte_def has_control_def)
  with parsed_session_is_usable [OF this] show ?thesis by (simp add: Let_def)
qed

end
