(* ===== verification/Sdk_Session.thy ===== *)
theory Sdk_Session
  imports Global_Login
begin

section \<open>Shared SDK sessions (src/sdk_session.rs)\<close>

text \<open>
  The session of one SDK identity, shared by every region of a deployment and, through a private
  state file, by every process that names the same directory. The file system is explicit: an
  operation takes what the state file's path names (\<open>fs_entry\<close>) and returns what it names
  afterwards. The library code the component calls is collected in \<open>sdk_lib\<close>: base64 decoding,
  JSON parsing, the derived (de)serialization of the file and the HTTP library's header syntax
  check. A write may fail, which the argument \<open>write_ok\<close> says.
\<close>

datatype fs_entry = Absent | Unopenable | NotRegular | Regular nat string

definition read_private_file ::
  "nat \<Rightarrow> string \<Rightarrow> string \<Rightarrow> string \<Rightarrow> fs_entry \<Rightarrow> app_error + string" where
  \<comment> \<open>on Unix; \<open>mode & 0o077\<close> is the low six bits\<close>
  "read_private_file limit unavailable invalid not_private e =
     (case e of
        Absent \<Rightarrow> Err (Config unavailable)
      | Unopenable \<Rightarrow> Err (Config unavailable)
      | NotRegular \<Rightarrow> Err (Config invalid)
      | Regular mode bytes \<Rightarrow>
          if limit < length bytes then Err (Config invalid)
          else if mode mod 64 \<noteq> 0 then Err (Config not_private)
          else Ok bytes)"

definition SCHEMA :: nat where "SCHEMA = 1"
definition MAX_FILE_BYTES :: nat where "MAX_FILE_BYTES = 16 * 1024"
definition EXPIRY_MARGIN_SECONDS :: int where "EXPIRY_MARGIN_SECONDS = 300"

record sdk_account =
  sa_uid :: string
  sa_access_key :: string
  sa_id_token :: string
  sa_mid :: "string option"

record refusal =
  rf_code :: int
  rf_at :: instant

record sdk_state =
  st_account :: "sdk_account option"
  st_validated_at :: "instant option"
  st_generation :: nat
  st_stale :: bool
  st_refusal :: "refusal option"

record persisted =
  pe_schema :: nat
  pe_uid :: string
  pe_access_key_fingerprint :: string
  pe_id_token :: string
  pe_mid :: "string option"
  pe_validated_at :: "instant option"
  pe_refusal :: "refusal option"

record loaded =
  ld_account :: "sdk_account option"
  ld_validated_at :: "instant option"
  ld_refusal :: "refusal option"

record sdk_session =
  sn_uid :: string
  sn_access_key :: string
  sn_access_key_fingerprint :: string
  sn_file :: bool \<comment> \<open>whether the session has a state file\<close>
  sn_attempts :: nat
  sn_revalidations :: nat
  sn_state :: sdk_state

record sdk_lib =
  decode_base64 :: "string \<Rightarrow> string option"
  json_parse :: "string \<Rightarrow> json option"
  header_ok :: "string \<Rightarrow> bool"
  serialize :: "persisted \<Rightarrow> string"
  deserialize :: "string \<Rightarrow> persisted option"

definition sdk_state_default :: sdk_state where
  "sdk_state_default = \<lparr>st_account = None, st_validated_at = None, st_generation = 0,
     st_stale = False, st_refusal = None\<rparr>"

subsection \<open>Token expiry\<close>

definition trim_end_eq :: "string \<Rightarrow> string" where
  "trim_end_eq s = rev (dropWhile (\<lambda>c. c = CHR ''='') (rev s))"

fun as_i64 :: "json \<Rightarrow> int option" where
  "as_i64 (JInt i) = (if - (2 ^ 63) \<le> i \<and> i < 2 ^ 63 then Some i else None)"
| "as_i64 _ = None"

definition token_expiry :: "sdk_lib \<Rightarrow> string \<Rightarrow> int option" where
  "token_expiry L id_token =
     (let parts = split_dot id_token in
      if length parts < 2 then None
      else Option.bind (decode_base64 L (trim_end_eq (parts ! 1)))
             (\<lambda>bytes. Option.bind (json_parse L bytes)
             (\<lambda>v. Option.bind (json_get v ''exp'') as_i64)))"

definition i64_wrap :: "int \<Rightarrow> int" where
  "i64_wrap i = (i + 2 ^ 63) mod 2 ^ 64 - 2 ^ 63"

definition timestamp :: "instant \<Rightarrow> int" where
  "timestamp now = int (now div 1000000000)"

definition expiring :: "sdk_lib \<Rightarrow> string \<Rightarrow> instant \<Rightarrow> bool" where
  "expiring L id_token now =
     (case token_expiry L id_token of
        None \<Rightarrow> False
      | Some exp \<Rightarrow> i64_wrap (exp - EXPIRY_MARGIN_SECONDS) \<le> timestamp now)"

definition header_safe :: "sdk_lib \<Rightarrow> string \<Rightarrow> bool" where
  "header_safe L v \<longleftrightarrow> v \<noteq> [] \<and> length v \<le> 4096 \<and> header_ok L v"

subsection \<open>Reading the session\<close>

definition st_reusable :: "sdk_lib \<Rightarrow> instant \<Rightarrow> sdk_state \<Rightarrow> (sdk_account \<times> nat) option" where
  "st_reusable L now s =
     (if st_stale s \<or> st_refusal s \<noteq> None then None
      else case st_account s of
             None \<Rightarrow> None
           | Some a \<Rightarrow> if expiring L (sa_id_token a) now then None else Some (a, st_generation s))"

definition sdk_reusable :: "sdk_lib \<Rightarrow> instant \<Rightarrow> sdk_session \<Rightarrow> (sdk_account \<times> nat) option" where
  "sdk_reusable L now n = st_reusable L now (sn_state n)"

definition sdk_base :: "sdk_session \<Rightarrow> sdk_account option" where
  "sdk_base n = st_account (sn_state n)"

definition sdk_refusal :: "instant \<Rightarrow> duration \<Rightarrow> sdk_session \<Rightarrow> refusal option" where
  "sdk_refusal now retry n =
     (case st_refusal (sn_state n) of
        None \<Rightarrow> None
      | Some r \<Rightarrow> if now < rf_at r + retry then Some r else None)"

definition sdk_keepalive_due :: "instant \<Rightarrow> duration \<Rightarrow> sdk_session \<Rightarrow> bool" where
  "sdk_keepalive_due now interval n \<longleftrightarrow>
     st_refusal (sn_state n) = None \<and>
     (case st_validated_at (sn_state n) of
        None \<Rightarrow> False
      | Some at \<Rightarrow> int interval \<le> int now - int at)"

definition sdk_label :: "sdk_lib \<Rightarrow> instant \<Rightarrow> sdk_session \<Rightarrow> string" where
  "sdk_label L now n =
     (let s = sn_state n in
      case (st_refusal s, st_account s) of
        (Some _, _) \<Rightarrow> ''refused''
      | (None, None) \<Rightarrow> ''none''
      | (None, Some a) \<Rightarrow>
          if st_stale s then ''stale''
          else if expiring L (sa_id_token a) now then ''expired''
          else ''valid'')"

definition sdk_completed :: "sdk_session \<Rightarrow> sdk_session" where
  "sdk_completed n = n\<lparr>sn_attempts := sn_attempts n + 1\<rparr>"

subsection \<open>The state file\<close>

definition sdk_read :: "sdk_lib \<Rightarrow> instant \<Rightarrow> sdk_session \<Rightarrow> fs_entry \<Rightarrow> loaded option" where
  "sdk_read L now n e =
     (case read_private_file MAX_FILE_BYTES ''unavailable'' ''invalid'' ''not private'' e of
        Inl _ \<Rightarrow> None
      | Inr bytes \<Rightarrow>
          (case deserialize L bytes of
             None \<Rightarrow> None
           | Some p \<Rightarrow>
               if \<not> (pe_schema p = SCHEMA \<and> pe_uid p = sn_uid n
                      \<and> pe_access_key_fingerprint p = sn_access_key_fingerprint n)
               then None
               else Some
                 \<lparr>ld_account =
                    (if pe_refusal p = None \<and> header_safe L (pe_id_token p)
                        \<and> token_expiry L (pe_id_token p) \<noteq> None
                        \<and> \<not> expiring L (pe_id_token p) now
                        \<and> (case pe_mid p of None \<Rightarrow> True | Some m \<Rightarrow> header_safe L m)
                     then Some \<lparr>sa_uid = sn_uid n, sa_access_key = sn_access_key n,
                                sa_id_token = pe_id_token p, sa_mid = pe_mid p\<rparr>
                     else None),
                  ld_validated_at = pe_validated_at p,
                  ld_refusal = pe_refusal p\<rparr>))"

definition st_newer :: "sdk_state \<Rightarrow> instant \<Rightarrow> bool" where
  "st_newer s at \<longleftrightarrow>
     (case st_validated_at s of None \<Rightarrow> True | Some v \<Rightarrow> v < at) \<and>
     (case st_refusal s of None \<Rightarrow> True | Some r \<Rightarrow> rf_at r < at)"

definition st_adopt :: "loaded \<Rightarrow> sdk_state \<Rightarrow> sdk_state" where
  \<comment> \<open>the body of \<open>merge\<close> once the file has been read\<close>
  "st_adopt disk s =
     (case (case ld_refusal disk of None \<Rightarrow> None
            | Some r \<Rightarrow> if st_newer s (rf_at r) then Some r else None) of
        Some r \<Rightarrow>
          s\<lparr>st_account := None, st_generation := st_generation s + 1, st_stale := False,
            st_refusal := Some r\<rparr>
      | None \<Rightarrow>
          (case (case ld_validated_at disk of None \<Rightarrow> None
                 | Some at \<Rightarrow> if st_newer s at then Some at else None) of
             None \<Rightarrow> s
           | Some at \<Rightarrow>
               (case ld_account disk of
                  None \<Rightarrow> s\<lparr>st_validated_at := Some at\<rparr>
                | Some a \<Rightarrow>
                    s\<lparr>st_validated_at := Some at, st_account := Some a,
                      st_generation := st_generation s + 1, st_stale := False,
                      st_refusal := None\<rparr>)))"

definition sdk_merge :: "sdk_lib \<Rightarrow> instant \<Rightarrow> sdk_session \<Rightarrow> fs_entry \<Rightarrow> sdk_state \<Rightarrow> sdk_state" where
  "sdk_merge L now n e s =
     (if \<not> sn_file n then s
      else case sdk_read L now n e of None \<Rightarrow> s | Some disk \<Rightarrow> st_adopt disk s)"

definition persisted_of :: "sdk_session \<Rightarrow> sdk_state \<Rightarrow> persisted" where
  "persisted_of n s =
     (let account = (if st_stale s then None else st_account s) in
      \<lparr>pe_schema = SCHEMA,
       pe_uid = sn_uid n,
       pe_access_key_fingerprint = sn_access_key_fingerprint n,
       pe_id_token = (case account of None \<Rightarrow> [] | Some a \<Rightarrow> sa_id_token a),
       pe_mid = (case account of None \<Rightarrow> None | Some a \<Rightarrow> sa_mid a),
       pe_validated_at = st_validated_at s,
       pe_refusal = st_refusal s\<rparr>)"

definition write_private :: "sdk_lib \<Rightarrow> bool \<Rightarrow> persisted \<Rightarrow> fs_entry \<Rightarrow> fs_entry" where
  \<comment> \<open>a private temporary file renamed over the old one: all of it or nothing; \<open>0o600 = 384\<close>\<close>
  "write_private L write_ok p e = (if write_ok then Regular 384 (serialize L p) else e)"

definition sdk_persist ::
  "sdk_lib \<Rightarrow> bool \<Rightarrow> instant \<Rightarrow> sdk_session \<Rightarrow> sdk_state \<Rightarrow> fs_entry \<Rightarrow> sdk_state \<times> fs_entry" where
  "sdk_persist L write_ok now n s e =
     (if \<not> sn_file n then (s, e)
      else let s1 = sdk_merge L now n e s
           in (s1, write_private L write_ok (persisted_of n s1) e))"

subsection \<open>Operations that change the session\<close>

definition sdk_mark_stale ::
  "sdk_lib \<Rightarrow> bool \<Rightarrow> instant \<Rightarrow> nat \<Rightarrow> sdk_session \<Rightarrow> fs_entry \<Rightarrow> sdk_session \<times> fs_entry" where
  "sdk_mark_stale L write_ok now generation n e =
     (let s = sn_state n in
      if st_generation s \<noteq> generation \<or> st_stale s then (n, e)
      else
        let s1 = s\<lparr>st_stale := True\<rparr> in
        if st_account s1 \<noteq> None
        then (case sdk_persist L write_ok now n s1 e of (s2, e2) \<Rightarrow> (n\<lparr>sn_state := s2\<rparr>, e2))
        else (n\<lparr>sn_state := s1\<rparr>, e))"

definition sdk_validated ::
  "sdk_lib \<Rightarrow> bool \<Rightarrow> instant \<Rightarrow> sdk_account \<Rightarrow> sdk_session \<Rightarrow> fs_entry \<Rightarrow> nat \<times> sdk_session \<times> fs_entry"
where
  "sdk_validated L write_ok now account n e =
     (let s = sn_state n;
          s1 = s\<lparr>st_account := Some account, st_validated_at := Some now,
                 st_generation := st_generation s + 1, st_stale := False, st_refusal := None\<rparr>;
          n1 = n\<lparr>sn_revalidations := sn_revalidations n + 1\<rparr>
      in case sdk_persist L write_ok now n1 s1 e of
           (s2, e2) \<Rightarrow> (st_generation s2, n1\<lparr>sn_state := s2\<rparr>, e2))"

definition sdk_refused ::
  "sdk_lib \<Rightarrow> bool \<Rightarrow> instant \<Rightarrow> int \<Rightarrow> sdk_session \<Rightarrow> fs_entry \<Rightarrow> sdk_session \<times> fs_entry" where
  "sdk_refused L write_ok now code n e =
     (let s = sn_state n;
          s1 = s\<lparr>st_account := None, st_generation := st_generation s + 1, st_stale := False,
                 st_refusal := Some \<lparr>rf_code = code, rf_at = now\<rparr>\<rparr>
      in case sdk_persist L write_ok now n s1 e of (s2, e2) \<Rightarrow> (n\<lparr>sn_state := s2\<rparr>, e2))"

definition sdk_refresh :: "sdk_lib \<Rightarrow> instant \<Rightarrow> fs_entry \<Rightarrow> sdk_session \<Rightarrow> sdk_session" where
  \<comment> \<open>what \<open>exclusive\<close> does to the session once it holds the lock file\<close>
  "sdk_refresh L now e n = n\<lparr>sn_state := sdk_merge L now n e (sn_state n)\<rparr>"

definition sdk_open ::
  "sdk_lib \<Rightarrow> (string \<Rightarrow> string) \<Rightarrow> bool \<Rightarrow> instant \<Rightarrow> sdk_account \<Rightarrow> fs_entry \<Rightarrow> sdk_session" where
  \<comment> \<open>the new session of \<open>SdkSessions::session\<close>; \<open>fingerprint\<close> is \<open>hex16\<close>, from SHA-256\<close>
  "sdk_open L fingerprint persistent now sdk e =
     sdk_refresh L now e
       \<lparr>sn_uid = sa_uid sdk, sn_access_key = sa_access_key sdk,
        sn_access_key_fingerprint = fingerprint (sa_access_key sdk), sn_file = persistent,
        sn_attempts = 0, sn_revalidations = 0, sn_state = sdk_state_default\<rparr>"

subsection \<open>Steps of a session\<close>

text \<open>
  A session and its file evolve by the operations of this process, each atomic under the state
  lock, and by other processes replacing the file.
\<close>

inductive sdk_step :: "sdk_lib \<Rightarrow> sdk_session \<times> fs_entry \<Rightarrow> sdk_session \<times> fs_entry \<Rightarrow> bool"
  for L :: sdk_lib
where
  stale: "sdk_step L (n, e) (sdk_mark_stale L w now g n e)"
| validated: "sdk_validated L w now a n e = (g, n', e') \<Longrightarrow> sdk_step L (n, e) (n', e')"
| refused: "sdk_step L (n, e) (sdk_refused L w now code n e)"
| refresh: "sdk_step L (n, e) (sdk_refresh L now e n, e)"
| completed: "sdk_step L (n, e) (sdk_completed n, e)"
| other: "sdk_step L (n, e) (n, e')"

definition sdk_forward :: "sdk_session \<Rightarrow> sdk_session \<Rightarrow> bool" where
  \<comment> \<open>\<open>n'\<close> is \<open>n\<close> at a later time\<close>
  "sdk_forward n n' \<longleftrightarrow>
     st_generation (sn_state n) \<le> st_generation (sn_state n') \<and>
     (st_generation (sn_state n) = st_generation (sn_state n') \<longrightarrow>
        st_account (sn_state n) = st_account (sn_state n') \<and>
        st_refusal (sn_state n) = st_refusal (sn_state n') \<and>
        (st_stale (sn_state n) \<longrightarrow> st_stale (sn_state n'))) \<and>
     sn_uid n' = sn_uid n \<and> sn_access_key n' = sn_access_key n"

lemma st_adopt_forward:
  "st_generation s \<le> st_generation (st_adopt d s)"
  "st_generation (st_adopt d s) = st_generation s \<Longrightarrow>
     st_account (st_adopt d s) = st_account s \<and> st_refusal (st_adopt d s) = st_refusal s \<and>
     st_stale (st_adopt d s) = st_stale s"
  by (auto simp: st_adopt_def split: option.splits if_splits)

lemma sdk_merge_forward:
  "st_generation s \<le> st_generation (sdk_merge L now n e s)"
  "st_generation (sdk_merge L now n e s) = st_generation s \<Longrightarrow>
     st_account (sdk_merge L now n e s) = st_account s \<and>
     st_refusal (sdk_merge L now n e s) = st_refusal s \<and>
     st_stale (sdk_merge L now n e s) = st_stale s"
  using st_adopt_forward by (auto simp: sdk_merge_def split: option.splits)

lemma sdk_persist_state:
  "fst (sdk_persist L w now n s e) = sdk_merge L now n e s"
  by (simp add: sdk_persist_def sdk_merge_def Let_def)

lemma sdk_persist_generation:
  "sdk_persist L w now n s e = (s2, e2) \<Longrightarrow> st_generation s \<le> st_generation s2"
  using sdk_persist_state [of L w now n s e] sdk_merge_forward(1) by simp

lemma sdk_step_forward:
  "sdk_step L x y \<Longrightarrow> sdk_forward (fst x) (fst y)"
proof (induction rule: sdk_step.induct)
  case (stale n e w now g)
  let ?s = "(sn_state n)\<lparr>st_stale := True\<rparr>"
  show ?case
    using sdk_merge_forward [where s = ?s and L = L and now = now and n = n and e = e] sdk_persist_state [of L w now n ?s e]
    by (auto simp: sdk_mark_stale_def sdk_forward_def Let_def split: prod.splits)
next
  case (validated w now a n e g n' e')
  obtain s2 e2 where p: "sdk_persist L w now (n\<lparr>sn_revalidations := sn_revalidations n + 1\<rparr>)
      ((sn_state n)\<lparr>st_account := Some a, st_validated_at := Some now,
         st_generation := st_generation (sn_state n) + 1, st_stale := False, st_refusal := None\<rparr>) e = (s2, e2)"
    by fastforce
  from sdk_persist_generation [OF this] have "st_generation (sn_state n) < st_generation s2" by simp
  with validated p show ?case by (auto simp: sdk_validated_def sdk_forward_def Let_def)
next
  case (refused n e w now code)
  obtain s2 e2 where p: "sdk_persist L w now n
      ((sn_state n)\<lparr>st_account := None, st_generation := st_generation (sn_state n) + 1, st_stale := False,
         st_refusal := Some \<lparr>rf_code = code, rf_at = now\<rparr>\<rparr>) e = (s2, e2)"
    by fastforce
  from sdk_persist_generation [OF this] have "st_generation (sn_state n) < st_generation s2" by simp
  with p show ?case by (auto simp: sdk_refused_def sdk_forward_def Let_def)
next
  case (refresh n e now)
  show ?case
    using sdk_merge_forward [where s = "sn_state n" and L = L and now = now and n = n and e = e] by (auto simp: sdk_refresh_def sdk_forward_def)
qed (simp_all add: sdk_completed_def sdk_forward_def)

lemma sdk_forward_trans: "sdk_forward a b \<Longrightarrow> sdk_forward b c \<Longrightarrow> sdk_forward a c"
  by (auto simp: sdk_forward_def)

lemma sdk_steps_forward: "(sdk_step L)\<^sup>*\<^sup>* x y \<Longrightarrow> sdk_forward (fst x) (fst y)"
proof (induction rule: rtranclp_induct)
  case (step y z)
  then show ?case using sdk_step_forward sdk_forward_trans by blast
qed (simp add: sdk_forward_def)

subsection \<open>Processes that share the file\<close>

definition file_not_newer :: "sdk_lib \<Rightarrow> sdk_session \<Rightarrow> fs_entry \<Rightarrow> instant \<Rightarrow> bool" where
  \<comment> \<open>no time recorded in the file is later than \<open>bound\<close>\<close>
  "file_not_newer L n e bound =
     (case sdk_read L bound n e of
        None \<Rightarrow> True
      | Some d \<Rightarrow>
          (case ld_validated_at d of None \<Rightarrow> True | Some t \<Rightarrow> t \<le> bound) \<and>
          (case ld_refusal d of None \<Rightarrow> True | Some r \<Rightarrow> rf_at r \<le> bound))"

definition serde_ok :: "sdk_lib \<Rightarrow> persisted \<Rightarrow> bool" where
  \<comment> \<open>the derived serialization reads back what it wrote, and the file stays within its bound\<close>
  "serde_ok L p \<longleftrightarrow> deserialize L (serialize L p) = Some p \<and> length (serialize L p) \<le> MAX_FILE_BYTES"

definition same_identity :: "sdk_session \<Rightarrow> sdk_session \<Rightarrow> bool" where
  "same_identity n m \<longleftrightarrow>
     sn_uid m = sn_uid n \<and> sn_access_key_fingerprint m = sn_access_key_fingerprint n \<and>
     sn_file n \<and> sn_file m"

lemma sdk_read_time:
  "sdk_read L now n e = Some d \<Longrightarrow>
   \<exists>d'. sdk_read L t n e = Some d' \<and> ld_validated_at d' = ld_validated_at d \<and> ld_refusal d' = ld_refusal d"
  by (auto simp: sdk_read_def split: sum.splits option.splits if_splits)

lemma sdk_read_counters [simp]:
  "sdk_read L now (n\<lparr>sn_revalidations := k\<rparr>) e = sdk_read L now n e"
  by (auto simp: sdk_read_def split: sum.splits option.splits)

lemma sdk_merge_counters [simp]:
  "sdk_merge L now (n\<lparr>sn_revalidations := k\<rparr>) e s = sdk_merge L now n e s"
  "persisted_of (n\<lparr>sn_revalidations := k\<rparr>) s = persisted_of n s"
  by (simp_all add: sdk_merge_def persisted_of_def)

lemma sdk_merge_not_newer:
  assumes "file_not_newer L n e bound"
    and "(\<exists>r. st_refusal s = Some r \<and> bound \<le> rf_at r) \<or> (\<exists>v. st_validated_at s = Some v \<and> bound \<le> v)"
  shows "sdk_merge L now n e s = s"
proof (cases "sdk_read L now n e")
  case (Some d)
  then obtain d' where "sdk_read L bound n e = Some d'"
    "ld_validated_at d' = ld_validated_at d" "ld_refusal d' = ld_refusal d"
    using sdk_read_time by blast
  with assms have "\<not> st_newer s t" if "ld_validated_at d = Some t \<or> (\<exists>r. ld_refusal d = Some r \<and> rf_at r = t)" for t
    using that by (fastforce simp: file_not_newer_def st_newer_def split: option.splits)
  with Some show ?thesis
    by (auto simp: sdk_merge_def st_adopt_def split: option.splits)
qed (simp add: sdk_merge_def)

lemma persisted_of_simps [simp]:
  "pe_schema (persisted_of n s) = SCHEMA" "pe_uid (persisted_of n s) = sn_uid n"
  "pe_access_key_fingerprint (persisted_of n s) = sn_access_key_fingerprint n"
  "pe_validated_at (persisted_of n s) = st_validated_at s" "pe_refusal (persisted_of n s) = st_refusal s"
  "pe_id_token (persisted_of n s) =
     (case st_account s of None \<Rightarrow> [] | Some a \<Rightarrow> if st_stale s then [] else sa_id_token a)"
  "pe_mid (persisted_of n s) =
     (case st_account s of None \<Rightarrow> None | Some a \<Rightarrow> if st_stale s then None else sa_mid a)"
  by (simp_all add: persisted_of_def Let_def split: option.splits)

lemma header_safe_Nil [simp]: "\<not> header_safe L []"
  by (simp add: header_safe_def)

lemma sdk_read_persisted:
  assumes "serde_ok L (persisted_of n s)" "same_identity n m"
  shows "sdk_read L t m (Regular 384 (serialize L (persisted_of n s))) =
    Some \<lparr>ld_account =
            (if st_refusal s = None \<and> \<not> st_stale s
             then Option.bind (st_account s)
               (\<lambda>a. if header_safe L (sa_id_token a) \<and> token_expiry L (sa_id_token a) \<noteq> None
                      \<and> \<not> expiring L (sa_id_token a) t
                      \<and> (case sa_mid a of None \<Rightarrow> True | Some m \<Rightarrow> header_safe L m)
                   then Some \<lparr>sa_uid = sn_uid m, sa_access_key = sn_access_key m,
                              sa_id_token = sa_id_token a, sa_mid = sa_mid a\<rparr>
                   else None)
             else None),
          ld_validated_at = st_validated_at s, ld_refusal = st_refusal s\<rparr>"
  using assms
  by (cases "st_account s")
    (auto simp: sdk_read_def read_private_file_def serde_ok_def same_identity_def)

subsection \<open>Properties\<close>

text \<open>Whatever happens to a session and its file, the generation never decreases, and two
  moments with the same generation have the same account and the same refusal, while a session
  marked stale in a generation stays stale in it.\<close>

theorem sdk_generation_identifies_account:
  "(sdk_step L)\<^sup>*\<^sup>* (n, e) (n', e') \<Longrightarrow>
   st_generation (sn_state n) \<le> st_generation (sn_state n') \<and>
   (st_generation (sn_state n) = st_generation (sn_state n') \<longrightarrow>
      sdk_base n = sdk_base n' \<and> st_refusal (sn_state n) = st_refusal (sn_state n') \<and>
      (st_stale (sn_state n) \<longrightarrow> st_stale (sn_state n')))"
  using sdk_steps_forward [of L "(n, e)" "(n', e')"] by (simp add: sdk_forward_def sdk_base_def)

definition example_lib :: sdk_lib where
  "example_lib = \<lparr>decode_base64 = (\<lambda>s. Some s),
     json_parse = (\<lambda>s. if s = ''p'' then Some (JObj [(''exp'', JInt 4000)]) else None),
     header_ok = (\<lambda>s. True),
     serialize = (\<lambda>p. if pe_refusal p = None then ''v'' else ''r''),
     deserialize = (\<lambda>s. Some \<lparr>pe_schema = 1, pe_uid = ''7'', pe_access_key_fingerprint = ''ab'',
       pe_id_token = (if s = ''v'' then ''h.p.s'' else []), pe_mid = None,
       pe_validated_at = (if s = ''v'' then Some 500 else None),
       pe_refusal = (if s = ''v'' then None else Some \<lparr>rf_code = 42, rf_at = 500\<rparr>)\<rparr>)\<rparr>"

definition example_account :: sdk_account where
  "example_account = \<lparr>sa_uid = ''7'', sa_access_key = ''key'', sa_id_token = ''h.p.s'', sa_mid = None\<rparr>"

definition example_session :: sdk_session where
  "example_session = sdk_open example_lib (\<lambda>_. ''ab'') True 0 example_account Absent"

lemma example_session_eq:
  "example_session = \<lparr>sn_uid = ''7'', sn_access_key = ''key'', sn_access_key_fingerprint = ''ab'',
     sn_file = True, sn_attempts = 0, sn_revalidations = 0, sn_state = sdk_state_default\<rparr>"
  by (simp add: example_session_def sdk_open_def sdk_refresh_def sdk_merge_def sdk_read_def
      read_private_file_def example_account_def)

theorem sdk_generation_identifies_account_witness:
  "st_generation (sn_state example_session) \<le>
     st_generation (sn_state (fst (sdk_refused example_lib False 9 3 example_session Absent))) \<and>
   st_generation (sn_state (fst (sdk_refused example_lib False 9 3 example_session Absent))) = 1"
proof -
  have "sdk_step example_lib (example_session, Absent)
      (fst (sdk_refused example_lib False 9 3 example_session Absent),
       snd (sdk_refused example_lib False 9 3 example_session Absent))"
    using sdk_step.refused [of example_lib example_session Absent] by simp
  from sdk_generation_identifies_account [OF r_into_rtranclp [where r = "sdk_step example_lib", OF this]]
  have "st_generation (sn_state example_session) \<le>
     st_generation (sn_state (fst (sdk_refused example_lib False 9 3 example_session Absent)))" by blast
  then show ?thesis
    by (simp add: sdk_refused_def sdk_persist_def sdk_merge_def sdk_read_def read_private_file_def
        example_session_eq sdk_state_default_def Let_def)
qed

text \<open>Once an identity is refused and the refusal is written, every process that shares the
  state file and has nothing newer of its own learns the refusal when it refreshes: it has no
  reusable session, sends no keepalive, and honours the refusal for the whole retry time.\<close>

theorem refusal_reaches_every_process:
  assumes "sdk_refused L True now code n e = (n', e')" "file_not_newer L n e now"
    and "serde_ok L (persisted_of n (sn_state n'))" "same_identity n m" "st_newer (sn_state m) now"
  shows "sdk_reusable L t n' = None \<and> sdk_reusable L t (sdk_refresh L later e' m) = None \<and>
    \<not> sdk_keepalive_due t interval (sdk_refresh L later e' m) \<and>
    sdk_refusal t retry (sdk_refresh L later e' m) =
      (if t < now + retry then Some \<lparr>rf_code = code, rf_at = now\<rparr> else None)"
proof -
  let ?s = "(sn_state n)\<lparr>st_account := None, st_generation := st_generation (sn_state n) + 1,
     st_stale := False, st_refusal := Some \<lparr>rf_code = code, rf_at = now\<rparr>\<rparr>"
  have "sdk_merge L now n e ?s = ?s"
    using assms(2) by (intro sdk_merge_not_newer) auto
  then have n': "sn_state n' = ?s" and e': "e' = Regular 384 (serialize L (persisted_of n ?s))"
    using assms(1,4)
    by (auto simp: sdk_refused_def sdk_persist_def write_private_def same_identity_def Let_def)
  have "sdk_refresh L later e' m = m\<lparr>sn_state := (sn_state m)\<lparr>st_account := None,
      st_generation := st_generation (sn_state m) + 1, st_stale := False,
      st_refusal := Some \<lparr>rf_code = code, rf_at = now\<rparr>\<rparr>\<rparr>"
    using assms(4,5) sdk_read_persisted [OF assms(3)[unfolded n'] assms(4)]
    by (simp add: sdk_refresh_def sdk_merge_def e' same_identity_def st_adopt_def)
  then show ?thesis
    by (simp add: n' sdk_reusable_def st_reusable_def sdk_keepalive_due_def sdk_refusal_def)
qed

theorem refusal_reaches_every_process_witness:
  "sdk_refusal 600 200 (sdk_refresh example_lib 510
      (snd (sdk_refused example_lib True 500 42 example_session Absent)) example_session) =
     Some \<lparr>rf_code = 42, rf_at = 500\<rparr>"
proof -
  have r: "sdk_refused example_lib True 500 42 example_session Absent =
      (fst (sdk_refused example_lib True 500 42 example_session Absent),
       snd (sdk_refused example_lib True 500 42 example_session Absent))" by simp
  have f: "file_not_newer example_lib example_session Absent 500"
    by (simp add: file_not_newer_def sdk_read_def read_private_file_def)
  have d: "serde_ok example_lib (persisted_of example_session
      (sn_state (fst (sdk_refused example_lib True 500 42 example_session Absent))))"
    by (simp add: serde_ok_def example_lib_def persisted_of_def sdk_refused_def sdk_persist_def
        sdk_merge_def sdk_read_def read_private_file_def example_session_eq sdk_state_default_def
        SCHEMA_def MAX_FILE_BYTES_def Let_def)
  have i: "same_identity example_session example_session" "st_newer (sn_state example_session) 500"
    by (simp_all add: same_identity_def example_session_eq st_newer_def sdk_state_default_def)
  show ?thesis
    using refusal_reaches_every_process [OF r f d i, of 600 510 0 200] by simp
qed

text \<open>C34: a restart does not repeat a login: after a successful revalidation is written, a new
  process that opens the same identity while its token is valid reuses the very account that was
  written.\<close>

theorem restart_reuses_session:
  assumes "sdk_validated L True now a n e = (g, n', e')" "file_not_newer L n e now"
    and "serde_ok L (persisted_of n (sn_state n'))" "sn_file n"
    and "sa_uid sdk = sn_uid n" "fingerprint (sa_access_key sdk) = sn_access_key_fingerprint n"
    and "sa_uid a = sn_uid n" "sa_access_key a = sa_access_key sdk"
    and "header_safe L (sa_id_token a)" "\<forall>m. sa_mid a = Some m \<longrightarrow> header_safe L m"
    and "token_expiry L (sa_id_token a) \<noteq> None" "\<not> expiring L (sa_id_token a) later"
  shows "sdk_reusable L later (sdk_open L fingerprint True later sdk e') = Some (a, 1) \<and>
    sdk_base (sdk_open L fingerprint True later sdk e') = sdk_base n'"
proof -
  let ?s = "(sn_state n)\<lparr>st_account := Some a, st_validated_at := Some now,
     st_generation := st_generation (sn_state n) + 1, st_stale := False, st_refusal := None\<rparr>"
  let ?m = "\<lparr>sn_uid = sa_uid sdk, sn_access_key = sa_access_key sdk,
        sn_access_key_fingerprint = fingerprint (sa_access_key sdk), sn_file = True,
        sn_attempts = 0, sn_revalidations = 0, sn_state = sdk_state_default\<rparr>"
  have "sdk_merge L now n e ?s = ?s"
    using assms(2) by (intro sdk_merge_not_newer) auto
  then have n': "sn_state n' = ?s" and e': "e' = Regular 384 (serialize L (persisted_of n ?s))"
    using assms(1,4) by (auto simp: sdk_validated_def sdk_persist_def write_private_def Let_def)
  have i: "same_identity n ?m" using assms(4-6) by (simp add: same_identity_def)
  have "(case sa_mid a of None \<Rightarrow> True | Some m \<Rightarrow> header_safe L m)"
    using assms(10) by (simp split: option.splits)
  then have "sdk_read L later ?m e' = Some \<lparr>ld_account = Some a, ld_validated_at = Some now, ld_refusal = None\<rparr>"
    using sdk_read_persisted [OF assms(3)[unfolded n'] i, of later] assms(5,7-9,11,12)
    by (simp add: e')
  then show ?thesis
    using assms(12)
    by (simp add: sdk_open_def sdk_refresh_def sdk_merge_def st_adopt_def st_newer_def n'
        sdk_state_default_def sdk_reusable_def st_reusable_def sdk_base_def)
qed

theorem restart_reuses_session_witness:
  "sdk_reusable example_lib 600 (sdk_open example_lib (\<lambda>_. ''ab'') True 600 example_account
      (snd (snd (sdk_validated example_lib True 500 example_account example_session Absent)))) =
     Some (example_account, 1)"
proof -
  let ?v = "sdk_validated example_lib True 500 example_account example_session Absent"
  have r: "?v = (fst ?v, fst (snd ?v), snd (snd ?v))" by simp
  have f: "file_not_newer example_lib example_session Absent 500"
    by (simp add: file_not_newer_def sdk_read_def read_private_file_def)
  have d: "serde_ok example_lib (persisted_of example_session (sn_state (fst (snd ?v))))"
    by (simp add: serde_ok_def example_lib_def persisted_of_def sdk_validated_def sdk_persist_def
        sdk_merge_def sdk_read_def read_private_file_def example_session_eq sdk_state_default_def
        SCHEMA_def MAX_FILE_BYTES_def example_account_def Let_def)
  have x: "token_expiry example_lib ''h.p.s'' = Some 4000"
    by (simp add: token_expiry_def example_lib_def trim_end_eq_def)
  have y: "\<not> expiring example_lib ''h.p.s'' 600"
    by (simp add: expiring_def x timestamp_def i64_wrap_def EXPIRY_MARGIN_SECONDS_def)
  have h: "header_safe example_lib ''h.p.s''" by (simp add: header_safe_def example_lib_def)
  have "sn_file example_session" "sa_uid example_account = sn_uid example_session"
    "''ab'' = sn_access_key_fingerprint example_session"
    "header_safe example_lib (sa_id_token example_account)"
    "\<forall>m. sa_mid example_account = Some m \<longrightarrow> header_safe example_lib m"
    "token_expiry example_lib (sa_id_token example_account) \<noteq> None"
    "\<not> expiring example_lib (sa_id_token example_account) 600"
    by (simp_all add: example_session_eq h x y) (simp_all add: example_account_def h x y)
  from restart_reuses_session [OF r f d this(1,2) _ this(2) _ this(4-7), of "\<lambda>_. ''ab''"] this(3)
  show ?thesis by blast
qed

text \<open>A token signal for the current generation makes the session unusable here and for every
  process that opens the file later; a signal about an older generation changes nothing.\<close>

theorem stale_token_is_not_reused:
  assumes "sdk_mark_stale L True now (st_generation (sn_state n)) n e = (n', e')"
    and "sn_file n" "sdk_base n \<noteq> None" "\<not> st_stale (sn_state n)"
    and "st_validated_at (sn_state n) = Some v" "file_not_newer L n e v"
    and "serde_ok L (persisted_of n (sn_state n'))"
    and "sa_uid sdk = sn_uid n" "fingerprint (sa_access_key sdk) = sn_access_key_fingerprint n"
  shows "sdk_reusable L t n' = None \<and> sdk_reusable L t (sdk_open L fingerprint True t sdk e') = None \<and>
    (\<forall>g. g \<noteq> st_generation (sn_state n) \<longrightarrow> sdk_mark_stale L w now g n e = (n, e))"
proof -
  let ?s = "(sn_state n)\<lparr>st_stale := True\<rparr>"
  let ?m = "\<lparr>sn_uid = sa_uid sdk, sn_access_key = sa_access_key sdk,
        sn_access_key_fingerprint = fingerprint (sa_access_key sdk), sn_file = True,
        sn_attempts = 0, sn_revalidations = 0, sn_state = sdk_state_default\<rparr>"
  have "sdk_merge L now n e ?s = ?s"
    using assms(5,6) by (intro sdk_merge_not_newer) auto
  then have n': "sn_state n' = ?s" and e': "e' = Regular 384 (serialize L (persisted_of n ?s))"
    using assms(1-4) by (auto simp: sdk_mark_stale_def sdk_persist_def write_private_def sdk_base_def Let_def)
  have i: "same_identity n ?m" using assms(2,8,9) by (simp add: same_identity_def)
  have "ld_account d = None" if "sdk_read L t ?m e' = Some d" for d
    using that sdk_read_persisted [OF assms(7)[unfolded n'] i, of t] by (auto simp: e')
  then have "st_account (sn_state (sdk_open L fingerprint True t sdk e')) = None"
    by (auto simp: sdk_open_def sdk_refresh_def sdk_merge_def st_adopt_def sdk_state_default_def
        split: option.splits)
  then show ?thesis
    by (auto simp: sdk_mark_stale_def sdk_reusable_def st_reusable_def n')
qed

definition stale_lib :: sdk_lib where
  "stale_lib = example_lib\<lparr>deserialize := (\<lambda>s. Some \<lparr>pe_schema = 1, pe_uid = ''7'',
     pe_access_key_fingerprint = ''ab'', pe_id_token = [], pe_mid = None,
     pe_validated_at = Some 500, pe_refusal = None\<rparr>)\<rparr>"

definition valid_session :: sdk_session where
  "valid_session = example_session\<lparr>sn_state := \<lparr>st_account = Some example_account,
     st_validated_at = Some 500, st_generation = 0, st_stale = False, st_refusal = None\<rparr>\<rparr>"

theorem stale_token_is_not_reused_witness:
  "sdk_reusable stale_lib 600 valid_session = Some (example_account, 0) \<and>
   sdk_reusable stale_lib 600 (fst (sdk_mark_stale stale_lib True 510 0 valid_session Absent)) = None \<and>
   sdk_reusable stale_lib 600 (sdk_open stale_lib (\<lambda>_. ''ab'') True 600 example_account
      (snd (sdk_mark_stale stale_lib True 510 0 valid_session Absent))) = None"
proof -
  let ?m = "sdk_mark_stale stale_lib True 510 0 valid_session Absent"
  have g: "st_generation (sn_state valid_session) = 0" by (simp add: valid_session_def)
  have r: "sdk_mark_stale stale_lib True 510 (st_generation (sn_state valid_session)) valid_session Absent =
      (fst ?m, snd ?m)" by (simp add: g)
  have f: "file_not_newer stale_lib valid_session Absent 500"
    by (simp add: file_not_newer_def sdk_read_def read_private_file_def)
  have d: "serde_ok stale_lib (persisted_of valid_session (sn_state (fst ?m)))"
    by (simp add: serde_ok_def stale_lib_def example_lib_def persisted_of_def sdk_mark_stale_def sdk_persist_def
        sdk_merge_def sdk_read_def read_private_file_def valid_session_def example_session_eq
        SCHEMA_def MAX_FILE_BYTES_def Let_def)
  have x: "token_expiry stale_lib ''h.p.s'' = Some 4000"
    by (simp add: token_expiry_def stale_lib_def example_lib_def trim_end_eq_def)
  have v: "sdk_reusable stale_lib 600 valid_session = Some (example_account, 0)"
    by (simp add: sdk_reusable_def st_reusable_def valid_session_def example_account_def expiring_def x
        timestamp_def i64_wrap_def EXPIRY_MARGIN_SECONDS_def)
  have "sn_file valid_session" "sdk_base valid_session \<noteq> None" "\<not> st_stale (sn_state valid_session)"
    "st_validated_at (sn_state valid_session) = Some 500"
    "sa_uid example_account = sn_uid valid_session"
    "''ab'' = sn_access_key_fingerprint valid_session"
    by (simp_all add: valid_session_def example_session_eq sdk_base_def) (simp_all add: example_account_def)
  from stale_token_is_not_reused [OF r this(1-4) f d this(5), of "\<lambda>_. ''ab''"] this(6) v
  show ?thesis by blast
qed

end
