(* ===== verification/Game_Routes.thy ===== *)
theory Game_Routes
  imports App_Error Region
begin

section \<open>Game routes (src/routes.rs and the route predicates of src/client.rs)\<close>

text \<open>
  The RPC paths of the game, the routes a protocol family exposes, and the predicates the client
  decides with: which routes carry a game account, which share one execution, and how a response
  code is read.
\<close>

definition VERSION :: string where
  "VERSION = ''/app.masterdata.MasterdataService/Version''"
definition ANNOUNCEMENTS :: string where
  "ANNOUNCEMENTS = ''/app.announcement.AnnouncementService/GetList''"
definition ANNOUNCEMENT :: string where
  "ANNOUNCEMENT = ''/app.announcement.AnnouncementService/Get''"
definition EVENT_RANKING :: string where
  "EVENT_RANKING = ''/app.event.EventService/GetRankingList''"
definition EVENT_DECK :: string where
  "EVENT_DECK = ''/app.event.EventService/GetDeck''"
definition MUSIC_RANKING :: string where
  "MUSIC_RANKING = ''/app.livemusic.LiveMusicService/GetRanking''"
definition CHALLENGE_RANKING :: string where
  "CHALLENGE_RANKING = ''/app.event.EventService/GetChallengeMusicRanking''"
definition WHOAMI :: string where
  "WHOAMI = ''/app.player.PlayerService/Whoami''"
definition PLAYER_DATA :: string where
  "PLAYER_DATA = ''/app.player.PlayerService/GetPlayerData''"
definition PROFILE :: string where
  "PROFILE = ''/app.friend.FriendService/FindByProfileID''"
definition SERVER_LIST :: string where
  "SERVER_LIST = ''/app.playerlogin.PlayerLoginService/GetServerList''"
definition PLAYER_LOGIN :: string where
  "PLAYER_LOGIN = ''/app.playerlogin.PlayerLoginService/PlayerLogin''"

lemmas route_defs = VERSION_def ANNOUNCEMENTS_def ANNOUNCEMENT_def EVENT_RANKING_def EVENT_DECK_def
  MUSIC_RANKING_def CHALLENGE_RANKING_def WHOAMI_def PLAYER_DATA_def PROFILE_def SERVER_LIST_def
  PLAYER_LOGIN_def

definition ROUTES :: "string list" where
  "ROUTES = [VERSION, ANNOUNCEMENTS, ANNOUNCEMENT, PROFILE, EVENT_RANKING, EVENT_DECK,
     MUSIC_RANKING, CHALLENGE_RANKING, WHOAMI, PLAYER_DATA]"

definition GLOBAL_ROUTES :: "string list" where
  "GLOBAL_ROUTES = [VERSION, SERVER_LIST, ANNOUNCEMENTS, ANNOUNCEMENT, PROFILE, EVENT_RANKING,
     EVENT_DECK, MUSIC_RANKING, CHALLENGE_RANKING, PLAYER_DATA]"

definition GLOBAL_CONTRACT :: "string list" where
  "GLOBAL_CONTRACT = [VERSION, SERVER_LIST, ANNOUNCEMENTS, ANNOUNCEMENT, PROFILE, EVENT_RANKING,
     EVENT_DECK, MUSIC_RANKING, CHALLENGE_RANKING, PLAYER_DATA, PLAYER_LOGIN]"

definition for_family :: "string \<Rightarrow> string list" where
  "for_family family = (if family = ''global'' then GLOBAL_ROUTES else ROUTES)"

definition contract_for_family :: "string \<Rightarrow> string list" where
  "contract_for_family family = (if family = ''global'' then GLOBAL_CONTRACT else ROUTES)"

definition authenticated :: "string \<Rightarrow> bool" where
  "authenticated route \<longleftrightarrow>
     route = PROFILE \<or> route = EVENT_RANKING \<or> route = EVENT_DECK \<or> route = MUSIC_RANKING \<or>
     route = CHALLENGE_RANKING \<or> route = WHOAMI \<or> route = PLAYER_DATA"

definition target_not_found ::
  "bool \<Rightarrow> string \<Rightarrow> app_error + json \<Rightarrow> string option \<Rightarrow> bool" where
  "target_not_found global route response code =
     (let matched =
        (if global
         then (route = PROFILE \<or> route = EVENT_DECK) \<and>
              (case response of Inl (Grpc _) \<Rightarrow> True | _ \<Rightarrow> False)
         else route = PROFILE \<and>
              (case response of Inl (Grpc s) \<Rightarrow> s = 2 \<or> s = 7 | _ \<Rightarrow> False))
      in matched \<and> code = Some ''PLAYER_NOT_FOUND'')"

definition version_signal :: "string option \<Rightarrow> bool" where
  "version_signal code \<longleftrightarrow>
     code = Some ''MASTER_VERSION_MISMATCH'' \<or> code = Some ''CLIENT_UPDATE_REQUIRED''"

definition strip_account_fields :: "string \<Rightarrow> json \<Rightarrow> json" where
  "strip_account_fields route value =
     (if route = MUSIC_RANKING \<or> route = CHALLENGE_RANKING
      then json_remove ''myScore'' (json_remove ''myRank'' value)
      else value)"

definition coalesces :: "bool \<Rightarrow> string \<Rightarrow> bool" where
  \<comment> \<open>the first argument is \<open>config.upstream.coalesce_public_reads\<close>\<close>
  "coalesces coalesce_public_reads route =
     (if route = VERSION \<or> route = SERVER_LIST \<or> route = ANNOUNCEMENTS \<or> route = ANNOUNCEMENT
      then True
      else if route = EVENT_RANKING \<or> route = MUSIC_RANKING \<or> route = CHALLENGE_RANKING
      then coalesce_public_reads
      else False)"

subsection \<open>Properties\<close>

lemma routes_distinct:
  "distinct [VERSION, ANNOUNCEMENTS, ANNOUNCEMENT, EVENT_RANKING, EVENT_DECK, MUSIC_RANKING,
     CHALLENGE_RANKING, WHOAMI, PLAYER_DATA, PROFILE, SERVER_LIST, PLAYER_LOGIN]"
  by (simp add: route_defs)

lemma strip_account_fields_get:
  "json_get (strip_account_fields route v) k =
     (if (route = MUSIC_RANKING \<or> route = CHALLENGE_RANKING) \<and> (k = ''myRank'' \<or> k = ''myScore'')
      then None else json_get v k)"
  by (simp add: strip_account_fields_def json_get_remove)

lemma is_object_strip [simp]: "is_object (strip_account_fields route v) = is_object v"
  by (simp add: strip_account_fields_def)

text \<open>The login RPC is part of the contract of the Global bundle and of no public route list;
  every public route is in the contract, and the only private one is the login.\<close>

theorem login_is_never_public:
  "PLAYER_LOGIN \<notin> set (for_family family) \<and>
   set (for_family family) \<subseteq> set (contract_for_family family) \<and>
   set (contract_for_family family) - set (for_family family) =
     (if family = ''global'' then {PLAYER_LOGIN} else {}) \<and>
   distinct (contract_for_family family)"
  using routes_distinct
  by (auto simp: for_family_def contract_for_family_def ROUTES_def GLOBAL_ROUTES_def GLOBAL_CONTRACT_def)

end
