(* ===== verification/Accounts.thy ===== *)
theory Accounts
  imports Path_Health Sdk_Session Game_Routes
begin

section \<open>Accounts and their health (src/accounts.rs)\<close>

text \<open>
  The health of an account and what each call outcome does to it. An operation that reads the clock takes the reading \<open>now\<close>
  (monotonic) or \<open>wall\<close> (UTC). The SDK session an account shares with the other regions is not part
  of the account: it is passed to the operations that touch it together with its file.
\<close>

record health =
  he_failures :: nat
  he_path_failures :: nat
  he_path_streak :: nat
  he_until :: "instant option"
  he_threshold_until :: "instant option"
  he_disabled :: bool

definition health_default :: health where
  "health_default = \<lparr>he_failures = 0, he_path_failures = 0, he_path_streak = 0, he_until = None,
     he_threshold_until = None, he_disabled = False\<rparr>"

definition pool_policy_default :: pool_policy where
  "pool_policy_default = \<lparr>failure_threshold = 2, cooldown_seconds = 30\<rparr>"

subsection \<open>Health\<close>

definition health_cooldown_until :: "health \<Rightarrow> instant option" where
  "health_cooldown_until h = max_instant (he_until h) (he_threshold_until h)"

definition health_succeeded :: "health \<Rightarrow> health" where
  "health_succeeded h =
     h\<lparr>he_failures := 0, he_path_failures := 0, he_until := None, he_threshold_until := None\<rparr>"

definition health_transient :: "instant \<Rightarrow> pool_policy \<Rightarrow> nat option \<Rightarrow> health \<Rightarrow> health" where
  "health_transient now policy streak h =
     (let h1 = h\<lparr>he_failures := sat_add32 (he_failures h) 1\<rparr>;
          h2 = (case streak of
                  None \<Rightarrow> h1
                | Some k \<Rightarrow>
                    let h' = (if he_path_streak h1 \<noteq> k
                              then h1\<lparr>he_path_streak := k, he_path_failures := 0\<rparr> else h1)
                    in h'\<lparr>he_path_failures := sat_add32 (he_path_failures h') 1\<rparr>)
      in if failure_threshold policy \<le> he_failures h2
         then h2\<lparr>he_threshold_until := Some (now + from_secs (cooldown_seconds policy))\<rparr>
         else h2)"

fun health_path_fault :: "instant \<Rightarrow> pool_policy \<Rightarrow> charge \<Rightarrow> health \<Rightarrow> health" where
  "health_path_fault now policy (ChargeAccount streak) h = health_transient now policy streak h"
| "health_path_fault now policy ChargePath h = h"

definition health_disable :: "health \<Rightarrow> health" where
  "health_disable h = h\<lparr>he_disabled := True\<rparr>"

definition health_cool_down :: "instant \<Rightarrow> health \<Rightarrow> health" where
  "health_cool_down until h =
     h\<lparr>he_until := Some (case he_until h of None \<Rightarrow> until | Some current \<Rightarrow> max current until)\<rparr>"

definition health_revoke :: "nat \<Rightarrow> pool_policy \<Rightarrow> health \<Rightarrow> health" where
  "health_revoke streak policy h =
     (if he_path_streak h \<noteq> streak \<or> he_path_failures h = 0 then h
      else
        let h1 = h\<lparr>he_failures := he_failures h - he_path_failures h, he_path_failures := 0\<rparr>
        in if he_failures h1 < failure_threshold policy
           then h1\<lparr>he_threshold_until := None\<rparr> else h1)"

definition health_available :: "instant \<Rightarrow> health \<Rightarrow> bool" where
  "health_available now h \<longleftrightarrow>
     \<not> he_disabled h \<and>
     (case health_cooldown_until h of None \<Rightarrow> True | Some until \<Rightarrow> until \<le> now)"

subsection \<open>Accounts\<close>

record credentials =
  cr_player_id :: string
  cr_credential :: string

record global_account =
  ga_sdk :: sdk_account \<comment> \<open>\<open>identity.sdk\<close>\<close>
  ga_expected_player_id :: "string option"
  ga_state :: login_state

datatype account_source = Static credentials | Global global_account

record account =
  ac_name :: string
  ac_source :: account_source
  ac_active :: nat
  ac_health :: health

record auth =
  au_account :: string
  au_player_id :: string
  au_credential :: string
  au_bid :: "string option"

fun source_global :: "account_source \<Rightarrow> global_account option" where
  "source_global (Global g) = Some g"
| "source_global (Static c) = None"

definition account_global :: "account \<Rightarrow> global_account option" where
  "account_global a = source_global (ac_source a)"

definition account_available :: "instant \<Rightarrow> account \<Rightarrow> bool" where
  "account_available now a = health_available now (ac_health a)"

definition account_auth_headers :: "account \<Rightarrow> auth option" where
  "account_auth_headers a =
     (case ac_source a of
        Static c \<Rightarrow>
          Some \<lparr>au_account = ac_name a, au_player_id = cr_player_id c,
                au_credential = cr_credential c, au_bid = None\<rparr>
      | Global g \<Rightarrow>
          map_option (\<lambda>s. \<lparr>au_account = ac_name a, au_player_id = se_player_id s,
             au_credential = se_credential s, au_bid = Some (sa_uid (ga_sdk g))\<rparr>)
           (ls_session (ga_state g)))"

definition on_health :: "(health \<Rightarrow> health) \<Rightarrow> account \<Rightarrow> account" where
  "on_health f a = a\<lparr>ac_health := f (ac_health a)\<rparr>"

definition on_login :: "(login_state \<Rightarrow> login_state) \<Rightarrow> account \<Rightarrow> account" where
  "on_login f a =
     (case ac_source a of
        Global g \<Rightarrow> a\<lparr>ac_source := Global (g\<lparr>ga_state := f (ga_state g)\<rparr>)\<rparr>
      | Static _ \<Rightarrow> a)"

definition account_disable :: "account \<Rightarrow> account" where
  "account_disable = on_health health_disable"

definition account_cool_down :: "instant \<Rightarrow> account \<Rightarrow> account" where
  "account_cool_down until = on_health (health_cool_down until)"

definition account_revoke_path_failures :: "nat \<Rightarrow> pool_policy \<Rightarrow> account \<Rightarrow> account" where
  "account_revoke_path_failures streak policy = on_health (health_revoke streak policy)"

subsection \<open>Signals of a Global account\<close>

text \<open>The environment of a signal: the two clocks, whether the state file can be written, and the
  shared session with its file.\<close>

record signal_env =
  en_lib :: sdk_lib
  en_now :: instant
  en_wall :: instant
  en_write_ok :: bool

type_synonym sdk_world = "sdk_session \<times> fs_entry"

fun signal_status :: "app_error \<Rightarrow> nat option" where
  "signal_status (Grpc s) = Some s"
| "signal_status (Maintenance s) = Some s"
| "signal_status _ = None"

definition signal_code :: "string option \<Rightarrow> string option" where
  "signal_code code =
     (case code of
        None \<Rightarrow> None
      | Some c \<Rightarrow>
          if length c \<le> 64 \<and> list_all (\<lambda>b. ascii_upper b \<or> ascii_digit b \<or> b = CHR ''_'') c
          then Some c else None)"

definition path_class :: "app_error \<Rightarrow> bool" where
  "path_class e \<longleftrightarrow> e = Timeout \<or> e = Transport \<or> e = Protocol"

definition drop_session :: "login_state \<Rightarrow> login_state" where
  "drop_session s = s\<lparr>ls_session := None\<rparr>"

definition count_invalidation :: "login_state \<Rightarrow> login_state" where
  "count_invalidation s =
     s\<lparr>ls_session := None, ls_invalidations := sat_add32 (ls_invalidations s) 1\<rparr>"

definition login_invalidations :: "account \<Rightarrow> nat" where
  "login_invalidations a = (case account_global a of None \<Rightarrow> 0 | Some g \<Rightarrow> ls_invalidations (ga_state g))"

definition sdk_generation_of :: "account \<Rightarrow> nat" where
  "sdk_generation_of a = (case account_global a of None \<Rightarrow> 0 | Some g \<Rightarrow> ls_sdk_generation (ga_state g))"

definition invalidate :: "signal_env \<Rightarrow> bool \<Rightarrow> account \<times> sdk_world \<Rightarrow> account \<times> sdk_world" where
  "invalidate E sdk_stale x =
     (case x of (a, n, e) \<Rightarrow>
        (on_login count_invalidation a,
         if sdk_stale
         then sdk_mark_stale (en_lib E) (en_write_ok E) (en_wall E) (sdk_generation_of a) n e
         else (n, e)))"

definition invalidate_twice :: "signal_env \<Rightarrow> bool \<Rightarrow> account \<times> sdk_world \<Rightarrow> account \<times> sdk_world" where
  \<comment> \<open>\<open>if invalidate(sdk_stale) >= 2 { self.disable() }\<close>\<close>
  "invalidate_twice E sdk_stale x =
     (case invalidate E sdk_stale x of (a, w) \<Rightarrow>
        (if 2 \<le> login_invalidations a then account_disable a else a, w))"

definition concurrent_event :: "instant \<Rightarrow> login_state \<Rightarrow> login_state" where
  "concurrent_event now s =
     (let s1 = login_prune now s
      in s1\<lparr>ls_concurrent_device := ls_concurrent_device s1 @ [now]\<rparr>)"

definition concurrent_events :: "account \<Rightarrow> nat" where
  "concurrent_events a =
     (case account_global a of None \<Rightarrow> 0 | Some g \<Rightarrow> length (ls_concurrent_device (ga_state g)))"

definition signal_ok :: "account \<Rightarrow> account" where
  "signal_ok a =
     on_login (\<lambda>s. s\<lparr>ls_invalidations := 0, ls_last_error_code := None, ls_last_sdk_code := None\<rparr>)
       (on_health health_succeeded a)"

definition signal_by_status ::
  "signal_env \<Rightarrow> app_error \<Rightarrow> pool_policy \<Rightarrow> charge \<Rightarrow> account \<times> sdk_world \<Rightarrow> account \<times> sdk_world" where
  \<comment> \<open>the \<open>match (error, status)\<close> of a signal without a known code\<close>
  "signal_by_status E error policy charge x =
     (case x of (a, w) \<Rightarrow>
        if signal_status error = Some 16 then invalidate_twice E True (a, w)
        else if signal_status error = Some 7 then (account_disable a, w)
        else if path_class error \<or> signal_status error = Some 14
          then (on_health (health_path_fault (en_now E) policy charge) a, w)
        else if signal_status error = Some 8 \<or> signal_status error = Some 13
          then (on_health (health_transient (en_now E) policy None) a, w)
        else (a, w))"

definition signal_by_code ::
  "signal_env \<Rightarrow> app_error \<Rightarrow> string \<Rightarrow> pool_policy \<Rightarrow> login_config \<Rightarrow> charge
   \<Rightarrow> account \<times> sdk_world \<Rightarrow> account \<times> sdk_world" where
  "signal_by_code E error c policy login charge x =
     (case x of (a, w) \<Rightarrow>
        if starts_with c ''BAN_'' then (account_disable (on_login drop_session a), w)
        else if starts_with c ''AEGIS_''
          then (account_cool_down (en_now E + from_secs (aegis_cooldown_seconds login)) a, w)
        else if c = ''CONCURRENT_DEVICE'' then
          (case invalidate E False (a, w) of (a1, w1) \<Rightarrow>
             let a2 = on_login (concurrent_event (en_now E)) a1
             in (if concurrent_device_limit login \<le> concurrent_events a2
                 then account_disable a2
                 else account_cool_down (en_now E + from_secs (cooldown_seconds policy)) a2, w1))
        else if starts_with c ''TOKEN_'' \<or> starts_with c ''PLAYER_NOT_''
          then invalidate_twice E (starts_with c ''TOKEN_'') (a, w)
        else if c = ''UNDER_MAINTENANCE'' then (a, w)
        else if version_signal (Some c) then (a, w)
        else signal_by_status E error policy charge (a, w))"

definition global_signal ::
  "signal_env \<Rightarrow> app_error + json \<Rightarrow> string option \<Rightarrow> pool_policy \<Rightarrow> login_config \<Rightarrow> charge
   \<Rightarrow> account \<times> sdk_world \<Rightarrow> account \<times> sdk_world" where
  "global_signal E result code policy login charge x =
     (case x of (a, w) \<Rightarrow>
       (case account_global a of
          None \<Rightarrow> (a, w)
        | Some _ \<Rightarrow>
            (case result of
               Inr _ \<Rightarrow> (signal_ok a, w)
             | Inl error \<Rightarrow>
                 (case signal_code code of
                    None \<Rightarrow> signal_by_status E error policy charge (a, w)
                  | Some c \<Rightarrow>
                      signal_by_code E error c policy login charge
                        (on_login (\<lambda>s. s\<lparr>ls_last_error_code := Some c, ls_last_sdk_code := None\<rparr>) a, w)))))"

definition static_report ::
  "instant \<Rightarrow> app_error + json \<Rightarrow> string option \<Rightarrow> pool_policy \<Rightarrow> charge \<Rightarrow> health \<Rightarrow> health" where
  "static_report now result code policy charge h =
     (if code = Some ''UNDER_MAINTENANCE'' \<or> version_signal code then h
      else case result of
             Inr _ \<Rightarrow> health_succeeded h
           | Inl error \<Rightarrow>
               if error = Grpc 7 \<or> error = Grpc 16
               then h\<lparr>he_disabled := True, he_failures := sat_add32 (he_failures h) 1\<rparr>
               else if path_class error \<or> error = Grpc 14 then health_path_fault now policy charge h
               else if error = Grpc 8 \<or> error = Grpc 13 then health_transient now policy None h
               else h)"

definition lease_report ::
  "signal_env \<Rightarrow> app_error + json \<Rightarrow> string option \<Rightarrow> pool_policy \<Rightarrow> login_config option \<Rightarrow> charge
   \<Rightarrow> account \<times> sdk_world \<Rightarrow> account \<times> sdk_world" where
  "lease_report E result code policy login charge x =
     (case x of (a, w) \<Rightarrow>
       (case (login, account_global a) of
          (Some l, Some _) \<Rightarrow> global_signal E result code policy l charge (a, w)
        | _ \<Rightarrow> (on_health (static_report (en_now E) result code policy charge) a, w)))"

subsection \<open>Health: invariant and withdrawal of a streak\<close>

definition health_inv :: "pool_policy \<Rightarrow> health \<Rightarrow> bool" where
  "health_inv policy h \<longleftrightarrow>
     he_path_failures h \<le> he_failures h \<and> he_failures h \<le> u32_max \<and>
     (he_threshold_until h \<noteq> None \<longrightarrow> failure_threshold policy \<le> he_failures h)"

definition health_step :: "health \<Rightarrow> health \<Rightarrow> bool" where
  \<comment> \<open>what no operation on the health of an account may do: re-enable it\<close>
  "health_step h h' \<longleftrightarrow> (he_disabled h \<longrightarrow> he_disabled h')"

lemma health_inv_default [inv_intros]: "health_inv policy health_default"
  by (simp add: health_inv_def health_default_def)

lemma health_inv_succeeded [inv_intros]: "health_inv policy (health_succeeded h)"
  by (simp add: health_inv_def health_succeeded_def)

lemma health_inv_transient [inv_intros]:
  "health_inv policy h \<Longrightarrow> health_inv policy (health_transient now policy streak h)"
  by (auto simp: health_inv_def health_transient_def sat_add32_le sat_add32_mono sat_add32_def
      Let_def split: option.splits)

lemma health_inv_path_fault [inv_intros]:
  "health_inv policy h \<Longrightarrow> health_inv policy (health_path_fault now policy charge h)"
  by (cases charge) (simp_all add: health_inv_transient)

lemma health_inv_simple [inv_intros]:
  assumes "health_inv policy h"
  shows "health_inv policy (health_disable h)" "health_inv policy (health_cool_down until h)"
  using assms by (simp_all add: health_inv_def health_disable_def health_cool_down_def)

lemma health_inv_revoke [inv_intros]:
  "health_inv policy h \<Longrightarrow> health_inv policy (health_revoke streak policy h)"
  by (auto simp: health_inv_def health_revoke_def Let_def)

lemma health_inv_static [inv_intros]:
  assumes "health_inv policy h"
  shows "health_inv policy (static_report now result code policy charge h)"
proof -
  have "health_inv policy (h\<lparr>he_disabled := True, he_failures := sat_add32 (he_failures h) 1\<rparr>)"
    using assms by (auto simp: health_inv_def sat_add32_def)
  with assms show ?thesis
    by (auto simp: static_report_def intro: inv_intros split: sum.splits)
qed

lemma health_disabled_simps [simp]:
  "he_disabled (health_succeeded h) = he_disabled h"
  "he_disabled (health_transient now policy streak h) = he_disabled h"
  "he_disabled (health_path_fault now policy charge h) = he_disabled h"
  "he_disabled (health_cool_down until h) = he_disabled h"
  "he_disabled (health_revoke k policy h) = he_disabled h"
  "he_disabled (health_disable h)"
proof -
  show t: "he_disabled (health_transient now policy streak h) = he_disabled h" for streak
    by (auto simp: health_transient_def Let_def split: option.splits)
  then show "he_disabled (health_path_fault now policy charge h) = he_disabled h"
    by (cases charge) simp_all
qed (auto simp: health_succeeded_def health_cool_down_def health_revoke_def health_disable_def Let_def)

text \<open>Faults of one account in time order: path-class ones charged to a streak, or others.\<close>

fun charge_run :: "pool_policy \<Rightarrow> (instant \<times> charge) list \<Rightarrow> health \<Rightarrow> health" where
  "charge_run policy [] h = h"
| "charge_run policy ((now, c) # xs) h = charge_run policy xs (health_path_fault now policy c h)"

lemma charge_run_append: "charge_run policy (xs @ ys) h = charge_run policy ys (charge_run policy xs h)"
  by (induction xs arbitrary: h) auto

definition charges :: "charge \<Rightarrow> (instant \<times> charge) list \<Rightarrow> nat" where
  "charges c xs = length (filter (\<lambda>x. snd x = c) xs)"

lemma charges_simps [simp]:
  "charges c [] = 0" "charges c ((t, d) # xs) = (if d = c then Suc (charges c xs) else charges c xs)"
  by (simp_all add: charges_def)

definition streak_charge :: "nat \<Rightarrow> charge \<Rightarrow> bool" where
  \<comment> \<open>the charges that can be decided while streak \<open>k\<close> is in progress or none is\<close>
  "streak_charge k c \<longleftrightarrow> c = ChargeAccount (Some k) \<or> c = ChargeAccount None \<or> c = ChargePath"

definition streak_part :: "nat \<Rightarrow> health \<Rightarrow> nat" where
  \<comment> \<open>the failures currently charged to streak \<open>k\<close>\<close>
  "streak_part k h = (if he_path_streak h = k then he_path_failures h else 0)"

lemma path_fault_step:
  assumes "streak_charge k c" "he_failures h < u32_max" "streak_part k h \<le> he_failures h"
    and h'_def: "h' = health_path_fault now policy c h"
  shows "he_failures h' = he_failures h + (if c = ChargePath then 0 else 1)"
    "streak_part k h' = streak_part k h + (if c = ChargeAccount (Some k) then 1 else 0)"
    "he_until h' = he_until h"
    "he_threshold_until h' \<noteq> None \<Longrightarrow>
       he_threshold_until h \<noteq> None \<or> failure_threshold policy \<le> he_failures h'"
  using assms
  by (auto simp: streak_charge_def streak_part_def health_transient_def Let_def sat_add32_def
      split: if_splits)

lemma charge_run_counts:
  assumes "\<forall>x \<in> set xs. streak_charge k (snd x)"
    and "he_failures h + length xs \<le> u32_max" "streak_part k h \<le> he_failures h"
    and h'_def: "h' = charge_run policy xs h"
  shows "he_failures h' =
      he_failures h + charges (ChargeAccount (Some k)) xs + charges (ChargeAccount None) xs \<and>
    he_until h' = he_until h \<and> he_disabled h' = he_disabled h \<and>
    streak_part k h' = streak_part k h + charges (ChargeAccount (Some k)) xs \<and>
    (he_threshold_until h' \<noteq> None \<longrightarrow> he_threshold_until h \<noteq> None \<or>
       failure_threshold policy \<le> he_failures h')"
  using assms
proof (induction xs arbitrary: h h')
  case (Cons x xs)
  obtain now c where x: "x = (now, c)" by (cases x)
  define h1 where "h1 = health_path_fault now policy c h"
  have c: "streak_charge k c" and xs: "\<forall>x \<in> set xs. streak_charge k (snd x)"
    using Cons.prems(1) x by simp_all
  have len: "he_failures h < u32_max" using Cons.prems(2) by simp
  note step = path_fault_step [OF c len Cons.prems(3) h1_def]
  have "he_failures h1 + length xs \<le> u32_max" "streak_part k h1 \<le> he_failures h1"
    using step(1,2) Cons.prems(2,3) c by (auto simp: streak_charge_def split: if_splits)
  note IH = Cons.IH [OF xs this refl]
  have run: "h' = charge_run policy xs h1" using Cons.prems(4) by (simp add: x h1_def)
  have dis: "he_disabled h1 = he_disabled h" by (simp add: h1_def)
  show ?case
    unfolding run using IH step c dis by (auto simp: x streak_charge_def split: if_splits)
qed simp

text \<open>Withdrawing a streak undoes it. Whatever mixture of faults was charged during path
  streak \<open>k\<close> (to the streak, to no streak, or to the path), attributing the streak to the path
  leaves exactly the failures that did not belong to it; the threshold cooldown is gone when those
  are below the threshold, and signal cooldowns and the disabled flag are untouched.\<close>

theorem revoked_streak_leaves_no_trace:
  assumes "\<forall>x \<in> set xs. streak_charge k (snd x)"
    and "he_failures h + length xs \<le> u32_max" "streak_part k h = 0" "he_threshold_until h = None"
    and h'_def: "h' = health_revoke k policy (charge_run policy xs h)"
  shows "he_failures h' = he_failures h + charges (ChargeAccount None) xs \<and>
    he_until h' = he_until h \<and> he_disabled h' = he_disabled h \<and>
    (he_failures h' < failure_threshold policy \<longrightarrow> he_threshold_until h' = None)"
proof -
  have *: "streak_part k h \<le> he_failures h" using assms(3) by simp
  define g where "g = charge_run policy xs h"
  note run = charge_run_counts [OF assms(1,2) * g_def]
  have h': "he_failures h' = he_failures g - streak_part k g \<and> he_until h' = he_until g \<and>
      he_disabled h' = he_disabled g \<and>
      (streak_part k g \<noteq> 0 \<longrightarrow> he_failures h' < failure_threshold policy \<longrightarrow> he_threshold_until h' = None) \<and>
      (streak_part k g = 0 \<longrightarrow> h' = g)"
    by (auto simp: h'_def g_def [symmetric] health_revoke_def streak_part_def Let_def)
  then show ?thesis using run assms(3,4) by (cases "streak_part k g = 0") auto
qed

theorem revoked_streak_leaves_no_trace_witness:
  "let h = charge_run pool_policy_default
       [(1, ChargeAccount (Some 3)), (2, ChargeAccount None), (3, ChargeAccount (Some 3)), (4, ChargePath)] health_default
   in he_failures h = 3 \<and> he_threshold_until h \<noteq> None \<and>
      he_failures (health_revoke 3 pool_policy_default h) = 1 \<and>
      he_threshold_until (health_revoke 3 pool_policy_default h) = None"
proof -
  let ?xs = "[(1, ChargeAccount (Some 3)), (2, ChargeAccount None), (3, ChargeAccount (Some 3)), (4, ChargePath)]"
  have "he_failures (health_revoke 3 pool_policy_default (charge_run pool_policy_default ?xs health_default)) = 1 \<and>
    he_threshold_until (health_revoke 3 pool_policy_default (charge_run pool_policy_default ?xs health_default)) = None"
    using revoked_streak_leaves_no_trace [where xs = ?xs and k = 3 and h = health_default and policy = pool_policy_default,
        OF _ _ _ _ refl]
    by (simp add: health_default_def pool_policy_default_def u32_max_def streak_charge_def streak_part_def)
  then show ?thesis
    by (simp add: Let_def) (simp add: health_transient_def health_default_def pool_policy_default_def
        sat_add32_def u32_max_def Let_def)
qed

subsection \<open>Signals\<close>

lemma ac_health_on [simp]:
  "ac_health (on_health f a) = f (ac_health a)" "ac_health (on_login g a) = ac_health a"
  "account_global (on_health f a) = account_global a"
  "account_global (on_login g a) = map_option (\<lambda>x. x\<lparr>ga_state := g (ga_state x)\<rparr>) (account_global a)"
  by (auto simp: on_health_def on_login_def account_global_def split: account_source.splits)

lemma account_auth_on_login:
  "(\<And>s. ls_session (g s) = ls_session s) \<Longrightarrow> account_auth_headers (on_login g a) = account_auth_headers a"
  by (auto simp: on_login_def account_auth_headers_def split: account_source.splits)

definition account_neutral :: "string \<Rightarrow> bool" where
  \<comment> \<open>the codes that say nothing about the account\<close>
  "account_neutral c \<longleftrightarrow>
     c = ''UNDER_MAINTENANCE'' \<or> c = ''MASTER_VERSION_MISMATCH'' \<or> c = ''CLIENT_UPDATE_REQUIRED''"

lemma neutral_signal_code: "account_neutral c \<Longrightarrow> signal_code (Some c) = Some c"
  by (auto simp: account_neutral_def signal_code_def byte_defs)

lemma neutral_by_code:
  "account_neutral c \<Longrightarrow> signal_by_code E error c policy login charge (a, w) = (a, w)"
  by (auto simp: account_neutral_def signal_by_code_def starts_with_def version_signal_def)

text \<open>Maintenance and stale version headers never cost an account anything: whatever the
  failure, its health, its session and the shared SDK session stay as they were.\<close>

theorem neutral_signals_spare_the_account:
  assumes "account_neutral c" "lease_report E (Err error) (Some c) policy login charge (a, w) = (a', w')"
  shows "w' = w \<and> ac_health a' = ac_health a \<and> account_auth_headers a' = account_auth_headers a \<and>
    (\<forall>now. account_available now a' = account_available now a)"
proof (cases "\<exists>l g. login = Some l \<and> account_global a = Some g")
  case True
  then have "a' = on_login (\<lambda>s. s\<lparr>ls_last_error_code := Some c, ls_last_sdk_code := None\<rparr>) a" "w' = w"
    using assms(2)
    by (cases w, auto simp: lease_report_def global_signal_def neutral_signal_code [OF assms(1)]
        neutral_by_code [OF assms(1)])+
  then show ?thesis by (simp add: account_auth_on_login account_available_def)
next
  case False
  have "static_report now (Err error) (Some c) policy charge h = h" for now h
    using assms(1) by (auto simp: static_report_def account_neutral_def version_signal_def)
  then have "on_health (static_report (en_now E) (Err error) (Some c) policy charge) a = a"
    by (simp add: on_health_def)
  then show ?thesis
    using False assms(2) by (auto simp: lease_report_def split: option.splits)
qed

definition example_env :: signal_env where
  "example_env = \<lparr>en_lib = example_lib, en_now = 1000, en_wall = 1000, en_write_ok = True\<rparr>"

definition example_static :: account where
  "example_static = \<lparr>ac_name = ''s'', ac_source = Static \<lparr>cr_player_id = ''p'', cr_credential = ''k''\<rparr>,
     ac_active = 0, ac_health = health_default\<rparr>"

definition global_example :: "nat \<Rightarrow> account" where
  "global_example k = \<lparr>ac_name = ''g'',
     ac_source = Global \<lparr>ga_sdk = example_account, ga_expected_player_id = None,
       ga_state = login_init\<lparr>ls_invalidations := k\<rparr>\<rparr>, ac_active = 0, ac_health = health_default\<rparr>"

theorem neutral_signals_spare_the_account_witness:
  "ac_health (fst (lease_report example_env (Err (Grpc 16)) (Some ''UNDER_MAINTENANCE'')
      pool_policy_default None ChargePath (example_static, example_session, Absent))) = health_default"
proof -
  let ?r = "lease_report example_env (Err (Grpc 16)) (Some ''UNDER_MAINTENANCE'')
      pool_policy_default None ChargePath (example_static, example_session, Absent)"
  have "account_neutral ''UNDER_MAINTENANCE''" "?r = (fst ?r, snd ?r)"
    by (simp_all add: account_neutral_def)
  from neutral_signals_spare_the_account [OF this] show ?thesis
    by (simp add: example_static_def)
qed

definition token_signal :: "app_error \<Rightarrow> string option \<Rightarrow> bool" where
  \<comment> \<open>a signal that invalidates the game session: by code, or gRPC 16 without a known code\<close>
  "token_signal error code \<longleftrightarrow>
     (case signal_code code of
        Some c \<Rightarrow>
          starts_with c ''TOKEN_'' \<or> starts_with c ''PLAYER_NOT_'' \<or>
          (error = Grpc 16 \<or> error = Maintenance 16) \<and>
          \<not> starts_with c ''BAN_'' \<and> \<not> starts_with c ''AEGIS_'' \<and> c \<noteq> ''CONCURRENT_DEVICE'' \<and>
          \<not> account_neutral c
      | None \<Rightarrow> error = Grpc 16 \<or> error = Maintenance 16)"

definition ban_signal :: "app_error \<Rightarrow> string option \<Rightarrow> bool" where
  \<comment> \<open>a ban, or gRPC 7 without a known code\<close>
  "ban_signal error code \<longleftrightarrow>
     (case signal_code code of
        Some c \<Rightarrow>
          starts_with c ''BAN_'' \<or>
          (error = Grpc 7 \<or> error = Maintenance 7) \<and>
          \<not> starts_with c ''AEGIS_'' \<and> c \<noteq> ''CONCURRENT_DEVICE'' \<and>
          \<not> starts_with c ''TOKEN_'' \<and> \<not> starts_with c ''PLAYER_NOT_'' \<and> \<not> account_neutral c
      | None \<Rightarrow> error = Grpc 7 \<or> error = Maintenance 7)"

lemma starts_with_exclusive:
  assumes "starts_with c p" "\<not> starts_with p q" "\<not> starts_with q p"
  shows "\<not> starts_with c q"
proof
  assume q: "starts_with c q"
  have p: "take (length p) c = p" using assms(1) by (simp add: starts_with_def)
  have q': "take (length q) c = q" using q by (simp add: starts_with_def)
  show False
  proof (cases "length q \<le> length p")
    case True
    then have "take (length q) p = q" using p q' by (metis min.absorb2 take_take min.commute)
    then show ?thesis using assms(2) by (simp add: starts_with_def)
  next
    case False
    then have "take (length p) q = p" using p q' by (metis min.absorb2 take_take min.commute nat_le_linear)
    then show ?thesis using assms(3) by (simp add: starts_with_def)
  qed
qed

lemma signal_prefixes:
  assumes "starts_with c ''TOKEN_'' \<or> starts_with c ''PLAYER_NOT_''"
  shows "\<not> starts_with c ''BAN_''" "\<not> starts_with c ''AEGIS_''" "c \<noteq> ''CONCURRENT_DEVICE''"
    "\<not> account_neutral c"
proof -
  have *: "\<not> starts_with c q"
    if "\<not> starts_with ''TOKEN_'' q" "\<not> starts_with q ''TOKEN_''"
      "\<not> starts_with ''PLAYER_NOT_'' q" "\<not> starts_with q ''PLAYER_NOT_''" for q
    using assms that starts_with_exclusive by blast
  show "\<not> starts_with c ''BAN_''" by (rule *) (simp_all add: starts_with_def)
  show "\<not> starts_with c ''AEGIS_''" by (rule *) (simp_all add: starts_with_def)
  show "c \<noteq> ''CONCURRENT_DEVICE''" "\<not> account_neutral c"
    using assms by (auto simp: account_neutral_def starts_with_def)
qed

lemma signal_status_iff:
  "signal_status error = Some s \<longleftrightarrow> error = Grpc s \<or> error = Maintenance s"
  by (cases error) auto

lemma disabled_invalidate_twice:
  "account_global a = Some g \<Longrightarrow>
   he_disabled (ac_health (fst (invalidate_twice E stale (a, w)))) \<longleftrightarrow>
     he_disabled (ac_health a) \<or> 0 < ls_invalidations (ga_state g)"
  by (cases w) (auto simp: invalidate_twice_def invalidate_def login_invalidations_def account_disable_def
      count_invalidation_def sat_add32_def u32_max_def)

lemma disabled_by_status:
  "account_global a = Some g \<Longrightarrow>
   he_disabled (ac_health (fst (signal_by_status E error policy charge (a, w)))) \<longleftrightarrow>
     he_disabled (ac_health a) \<or> signal_status error = Some 7 \<or>
     signal_status error = Some 16 \<and> 0 < ls_invalidations (ga_state g)"
  by (auto simp: signal_by_status_def disabled_invalidate_twice account_disable_def)

lemma disabled_by_code:
  assumes "account_global a = Some g"
  shows "he_disabled (ac_health (fst (signal_by_code E error c policy login charge (a, w)))) \<longleftrightarrow>
    he_disabled (ac_health a) \<or>
    (if starts_with c ''BAN_'' then True
     else if starts_with c ''AEGIS_'' then False
     else if c = ''CONCURRENT_DEVICE''
       then concurrent_device_limit login \<le> Suc (length (pop_expired (en_now E) (ls_concurrent_device (ga_state g))))
     else if starts_with c ''TOKEN_'' \<or> starts_with c ''PLAYER_NOT_''
       then 0 < ls_invalidations (ga_state g)
     else \<not> account_neutral c \<and> (signal_status error = Some 7 \<or>
       signal_status error = Some 16 \<and> 0 < ls_invalidations (ga_state g)))"
  using assms disabled_invalidate_twice [OF assms] disabled_by_status [OF assms]
  by (cases w) (simp add: signal_by_code_def account_disable_def account_cool_down_def invalidate_def
      concurrent_events_def concurrent_event_def count_invalidation_def login_prune_def
      account_neutral_def version_signal_def Let_def)

text \<open>Exactly which failures of a Global account need an operator: a ban (or gRPC 7), the
  configured number of concurrent-device signals within 24 hours, or a token signal that follows
  another one with no success between them. Nothing else disables an account.\<close>

theorem account_disabled_iff:
  assumes "account_global a = Some g"
    and "global_signal E (Err error) code policy login charge (a, w) = (a', w')"
  shows "he_disabled (ac_health a') \<longleftrightarrow>
    he_disabled (ac_health a) \<or> ban_signal error code \<or>
    token_signal error code \<and> 0 < ls_invalidations (ga_state g) \<or>
    code = Some ''CONCURRENT_DEVICE'' \<and>
      concurrent_device_limit login \<le> Suc (length (pop_expired (en_now E) (ls_concurrent_device (ga_state g))))"
proof -
  have a': "a' = fst (global_signal E (Err error) code policy login charge (a, w))" using assms(2) by simp
  show ?thesis
  proof (cases "signal_code code")
    case None
    then have "code \<noteq> Some ''CONCURRENT_DEVICE''" by (auto simp: signal_code_def byte_defs split: if_splits)
    then show ?thesis
      unfolding a' using assms(1) None
      by (auto simp: global_signal_def disabled_by_status ban_signal_def token_signal_def signal_status_iff)
  next
    case (Some c)
    then have code: "code = Some c" by (auto simp: signal_code_def split: option.splits if_splits)
    let ?a = "on_login (\<lambda>s. s\<lparr>ls_last_error_code := Some c, ls_last_sdk_code := None\<rparr>) a"
    have g: "account_global ?a = Some (g\<lparr>ga_state := (ga_state g)\<lparr>ls_last_error_code := Some c, ls_last_sdk_code := None\<rparr>\<rparr>)"
      using assms(1) by simp
    have "\<not> (starts_with c ''BAN_'' \<and> starts_with c ''AEGIS_'')"
      using starts_with_exclusive [of c "''BAN_''" "''AEGIS_''"] by (auto simp: starts_with_def)
    moreover have "account_neutral c \<Longrightarrow> \<not> starts_with c ''BAN_'' \<and> \<not> starts_with c ''AEGIS_''"
      "\<not> starts_with ''CONCURRENT_DEVICE'' ''BAN_''" "\<not> starts_with ''CONCURRENT_DEVICE'' ''AEGIS_''"
      by (auto simp: account_neutral_def starts_with_def)
    ultimately show ?thesis
      unfolding a' using assms(1) Some disabled_by_code [OF g, of E error c policy login charge w] signal_prefixes [of c]
      by (auto simp: global_signal_def code ban_signal_def token_signal_def signal_status_iff)
  qed
qed

theorem account_disabled_iff_witness:
  "\<not> he_disabled (ac_health (fst (global_signal example_env (Err (Grpc 16)) None pool_policy_default
      login_config_default ChargePath (global_example 0, example_session, Absent)))) \<and>
   he_disabled (ac_health (fst (global_signal example_env (Err (Grpc 16)) None pool_policy_default
      login_config_default ChargePath (global_example 1, example_session, Absent))))"
proof -
  let ?r = "\<lambda>k. global_signal example_env (Err (Grpc 16)) None pool_policy_default
      login_config_default ChargePath (global_example k, example_session, Absent)"
  have g: "account_global (global_example k) = Some \<lparr>ga_sdk = example_account, ga_expected_player_id = None,
       ga_state = login_init\<lparr>ls_invalidations := k\<rparr>\<rparr>" for k
    by (simp add: global_example_def account_global_def)
  have r: "?r k = (fst (?r k), snd (?r k))" for k by simp
  have h: "he_disabled (ac_health (global_example k)) = False" for k
    by (simp add: global_example_def health_default_def)
  show ?thesis
    using account_disabled_iff [OF g r, of 0] account_disabled_iff [OF g r, of 1]
    by (simp add: h ban_signal_def token_signal_def signal_code_def)
qed

end
