(* ===== verification/Account_Pool.thy ===== *)
theory Account_Pool
  imports Accounts
begin

section \<open>Scheduling of accounts (src/accounts.rs)\<close>

text \<open>
  The pool of accounts: which account a call leases, leases and the active counts, the withdrawal
  of a path streak from every account, the login history that survives a reload, and the status
  listing. A lease names an account by its position, which is fixed for the lifetime of a pool.
\<close>

subsection \<open>The pool\<close>

record pool =
  po_entries :: "account list"
  po_next :: nat
  po_generation :: nat

fun first_min :: "('a \<Rightarrow> nat) \<Rightarrow> 'a list \<Rightarrow> 'a option" where
  \<comment> \<open>\<open>Iterator::min_by_key\<close>: the first of the least elements\<close>
  "first_min f [] = None"
| "first_min f (x # xs) =
     (case first_min f xs of None \<Rightarrow> Some x | Some y \<Rightarrow> if f x \<le> f y then Some x else Some y)"

definition rotation_indices :: "pool \<Rightarrow> nat list" where
  "rotation_indices p = map (\<lambda>offset. (po_next p + offset) mod length (po_entries p)) [0..<length (po_entries p)]"

definition public_index :: "instant \<Rightarrow> pool \<Rightarrow> nat option" where
  "public_index now p =
     first_min (\<lambda>i. ac_active (po_entries p ! i))
       (filter (\<lambda>i. account_available now (po_entries p ! i)) (rotation_indices p))"

definition peek_public :: "instant \<Rightarrow> pool \<Rightarrow> account option" where
  "peek_public now p = map_option (\<lambda>i. po_entries p ! i) (public_index now p)"

definition pool_rotation :: "pool \<Rightarrow> account list" where
  "pool_rotation p = map (\<lambda>i. po_entries p ! i) (rotation_indices p)"

fun position :: "('a \<Rightarrow> bool) \<Rightarrow> 'a list \<Rightarrow> nat option" where
  "position P [] = None"
| "position P (x # xs) = (if P x then Some 0 else map_option Suc (position P xs))"

definition pool_find :: "string \<Rightarrow> pool \<Rightarrow> account option" where
  "pool_find name p = find (\<lambda>a. ac_name a = name) (po_entries p)"

definition usize_add :: "nat \<Rightarrow> nat" where "usize_add n = (n + 1) mod 2 ^ 64"
definition usize_sub :: "nat \<Rightarrow> nat" where "usize_sub n = (n + (2 ^ 64 - 1)) mod 2 ^ 64"

definition on_entry :: "nat \<Rightarrow> (account \<Rightarrow> account) \<Rightarrow> pool \<Rightarrow> pool" where
  "on_entry i f p = p\<lparr>po_entries := (po_entries p)[i := f (po_entries p ! i)]\<rparr>"

definition select_index :: "instant \<Rightarrow> string option \<Rightarrow> bool \<Rightarrow> pool \<Rightarrow> app_error + nat" where
  "select_index now name priv p =
     (case name of
        Some n \<Rightarrow> (case position (\<lambda>a. ac_name a = n) (po_entries p) of None \<Rightarrow> Err NotFound | Some i \<Rightarrow> Ok i)
      | None \<Rightarrow>
          if priv then Ok 0
          else (case public_index now p of None \<Rightarrow> Err AccountUnavailable | Some i \<Rightarrow> Ok i))"

definition pool_select :: "instant \<Rightarrow> string option \<Rightarrow> bool \<Rightarrow> pool \<Rightarrow> (app_error + nat) \<times> pool" where
  \<comment> \<open>the result is the lease: the position of the leased account\<close>
  "pool_select now name priv p =
     (case select_index now name priv p of
        Inl e \<Rightarrow> (Err e, p)
      | Inr i \<Rightarrow>
          if i < length (po_entries p) \<and> account_available now (po_entries p ! i)
          then (Ok i,
                on_entry i (\<lambda>a. a\<lparr>ac_active := usize_add (ac_active a)\<rparr>)
                  (p\<lparr>po_next := (i + 1) mod length (po_entries p)\<rparr>))
          else (Err AccountUnavailable, p))"

definition lease_drop :: "nat \<Rightarrow> pool \<Rightarrow> pool" where
  "lease_drop i = on_entry i (\<lambda>a. a\<lparr>ac_active := usize_sub (ac_active a)\<rparr>)"

definition pool_revoke_path_failures :: "nat \<Rightarrow> pool_policy \<Rightarrow> pool \<Rightarrow> pool" where
  "pool_revoke_path_failures streak policy p =
     p\<lparr>po_entries := map (account_revoke_path_failures streak policy) (po_entries p)\<rparr>"

definition inherit_entry :: "pool \<Rightarrow> account \<Rightarrow> account" where
  "inherit_entry previous a =
     (case account_global a of
        None \<Rightarrow> a
      | Some new \<Rightarrow>
          (case Option.bind (find (\<lambda>b. ac_name b = ac_name a) (po_entries previous)) account_global of
             None \<Rightarrow> a
           | Some old \<Rightarrow>
               if sa_uid (ga_sdk old) = sa_uid (ga_sdk new)
               then on_login (\<lambda>s. s\<lparr>ls_attempts := ls_attempts (ga_state old),
                        ls_concurrent_device := ls_concurrent_device (ga_state old),
                        ls_last_login_at := ls_last_login_at (ga_state old)\<rparr>) a
               else a))"

definition inherit_login_history :: "pool \<Rightarrow> pool \<Rightarrow> pool" where
  "inherit_login_history p previous = p\<lparr>po_entries := map (inherit_entry previous) (po_entries p)\<rparr>"

subsection \<open>Status\<close>

record account_status =
  as_name :: string
  as_active_calls :: nat
  as_consecutive_failures :: nat
  as_cooldown_remaining_seconds :: nat
  as_disabled :: bool
  as_session_state :: "string option"
  as_last_login_at :: "instant option"
  as_logins_24h :: "nat option"
  as_last_error_code :: "string option"
  as_last_sdk_code :: "int option"
  as_sdk_session :: "string option"
  as_sdk_validated_at :: "instant option"

definition ceil_secs :: "duration \<Rightarrow> nat" where
  \<comment> \<open>\<open>as_secs() + u64::from(subsec_nanos() != 0)\<close>\<close>
  "ceil_secs d = d div 1000000000 + (if d mod 1000000000 \<noteq> 0 then 1 else 0)"

definition session_label :: "instant \<Rightarrow> health \<Rightarrow> login_state \<Rightarrow> string" where
  "session_label now h s =
     (if he_disabled h then ''disabled''
      else if (case health_cooldown_until h of None \<Rightarrow> False | Some t \<Rightarrow> now < t) then ''cooling''
      else if ls_session s \<noteq> None then ''active''
      else if ls_last_login_at s \<noteq> None \<or> ls_attempts s \<noteq> [] then ''relogin_pending''
      else ''none'')"

definition status_entry ::
  "sdk_lib \<Rightarrow> instant \<Rightarrow> instant \<Rightarrow> (string \<Rightarrow> sdk_session) \<Rightarrow> account \<Rightarrow> account_status" where
  \<comment> \<open>\<open>sdk_of\<close> is the registry of shared sessions, by SDK uid\<close>
  "status_entry L wall now sdk_of a =
     (let h = ac_health a;
          g = account_global a;
          s = map_option (\<lambda>g. login_prune now (ga_state g)) g
      in \<lparr>as_name = ac_name a,
          as_active_calls = ac_active a,
          as_consecutive_failures = he_failures h,
          as_cooldown_remaining_seconds =
            (case health_cooldown_until h of None \<Rightarrow> 0
             | Some t \<Rightarrow> ceil_secs (saturating_duration_since t now)),
          as_disabled = he_disabled h,
          as_session_state = map_option (session_label now h) s,
          as_last_login_at = Option.bind s ls_last_login_at,
          as_logins_24h = map_option (\<lambda>s. length (ls_attempts s)) s,
          as_last_error_code = Option.bind s ls_last_error_code,
          as_last_sdk_code = Option.bind s ls_last_sdk_code,
          as_sdk_session = map_option (\<lambda>g. sdk_label L wall (sdk_of (sa_uid (ga_sdk g)))) g,
          as_sdk_validated_at =
            Option.bind g (\<lambda>g. st_validated_at (sn_state (sdk_of (sa_uid (ga_sdk g)))))\<rparr>)"

definition pool_status ::
  "sdk_lib \<Rightarrow> instant \<Rightarrow> instant \<Rightarrow> (string \<Rightarrow> sdk_session) \<Rightarrow> pool \<Rightarrow> account_status list \<times> pool" where
  \<comment> \<open>the login histories are pruned on the way\<close>
  "pool_status L wall now sdk_of p =
     (map (status_entry L wall now sdk_of) (po_entries p),
      p\<lparr>po_entries := map (on_login (login_prune now)) (po_entries p)\<rparr>)"

subsection \<open>Scheduling\<close>

lemma first_min_None [simp]: "first_min f xs = None \<longleftrightarrow> xs = []"
  by (cases xs) (auto split: option.splits)

lemma first_min_filter:
  "first_min f (filter P xs) = Some x \<Longrightarrow>
   \<exists>k < length xs. x = xs ! k \<and> P x \<and>
     (\<forall>j < length xs. P (xs ! j) \<longrightarrow> f x \<le> f (xs ! j) \<and> (j < k \<longrightarrow> f x < f (xs ! j)))"
proof (induction xs arbitrary: x)
  case (Cons y ys)
  show ?case
  proof (cases "first_min f (filter P ys)")
    case None
    with Cons.prems have x: "x = y" "P y" by (auto split: if_splits)
    from None have "\<forall>j < length ys. \<not> P (ys ! j)" by (simp add: filter_empty_conv)
    with x show ?thesis by (intro exI [of _ 0]) (auto simp: nth_Cons split: nat.splits)
  next
    case (Some z)
    from Cons.IH [OF this] obtain k where k: "k < length ys" "z = ys ! k" "P z"
      "\<forall>j < length ys. P (ys ! j) \<longrightarrow> f z \<le> f (ys ! j) \<and> (j < k \<longrightarrow> f z < f (ys ! j))" by blast
    show ?thesis
    proof (cases "P y \<and> f y \<le> f z")
      case True
      with Some Cons.prems have "x = y" by simp
      with True k(4) show ?thesis
        by (intro exI [of _ 0]) (fastforce simp: nth_Cons split: nat.splits)
    next
      case False
      with Some Cons.prems have "x = z" by (auto split: if_splits)
      with False k show ?thesis
        by (intro exI [of _ "Suc k"]) (auto simp: nth_Cons split: nat.splits)
    qed
  qed
qed simp

lemma length_rotation [simp]: "length (rotation_indices p) = length (po_entries p)"
  by (simp add: rotation_indices_def)

lemma rotation_nth: "k < length (po_entries p) \<Longrightarrow>
    rotation_indices p ! k = (po_next p + k) mod length (po_entries p)"
  by (simp add: rotation_indices_def)

lemma rotation_surj:
  assumes "i < length (po_entries p)"
  shows "\<exists>k < length (po_entries p). (po_next p + k) mod length (po_entries p) = i"
proof -
  let ?n = "length (po_entries p)"
  let ?k = "(i + ?n - po_next p mod ?n) mod ?n"
  have n: "0 < ?n" using assms by linarith
  have le: "po_next p mod ?n \<le> i + ?n" by (meson le_add2 le_trans mod_less_divisor n order_less_imp_le)
  have "(po_next p + ?k) mod ?n = (po_next p mod ?n + (i + ?n - po_next p mod ?n)) mod ?n"
    by (simp add: mod_simps)
  also have "\<dots> = (i + ?n) mod ?n" using le by simp
  also have "\<dots> = i" using assms by simp
  finally show ?thesis using n by (intro exI [of _ ?k]) simp
qed

lemma set_rotation: "set (rotation_indices p) = {0..<length (po_entries p)}"
proof (cases "po_entries p = []")
  case False
  then have "0 < length (po_entries p)" by simp
  then have "rotation_indices p ! k < length (po_entries p)" if "k < length (po_entries p)" for k
    using that by (simp add: rotation_nth)
  moreover have "i \<in> set (rotation_indices p)" if "i < length (po_entries p)" for i
    using rotation_surj [OF that] by (auto simp: rotation_indices_def)
  ultimately show ?thesis by (auto simp: in_set_conv_nth)
qed (simp add: rotation_indices_def)

lemma public_index_None:
  "public_index now p = None \<longleftrightarrow> (\<forall>a \<in> set (po_entries p). \<not> account_available now a)"
  by (auto simp add: public_index_def filter_empty_conv set_rotation all_set_conv_all_nth)

lemma public_index_Some:
  assumes "public_index now p = Some i"
  shows "\<exists>k < length (po_entries p). i = (po_next p + k) mod length (po_entries p) \<and>
    account_available now (po_entries p ! i) \<and>
    (\<forall>j < length (po_entries p). account_available now (pool_rotation p ! j) \<longrightarrow>
       ac_active (po_entries p ! i) \<le> ac_active (pool_rotation p ! j) \<and>
       (j < k \<longrightarrow> ac_active (po_entries p ! i) < ac_active (pool_rotation p ! j)))"
  using first_min_filter [OF assms [unfolded public_index_def]]
  by (auto simp: pool_rotation_def rotation_nth)

lemma pool_select_Ok:
  assumes "pool_select now name priv p = (Ok i, p')"
  shows "select_index now name priv p = Ok i" "i < length (po_entries p)"
    "account_available now (po_entries p ! i)"
    "p' = on_entry i (\<lambda>a. a\<lparr>ac_active := usize_add (ac_active a)\<rparr>)
       (p\<lparr>po_next := (i + 1) mod length (po_entries p)\<rparr>)"
  using assms by (auto simp: pool_select_def split: sum.splits if_splits)

lemma pool_select_Err: "pool_select now name priv p = (Err e, p') \<Longrightarrow> p' = p"
  by (auto simp: pool_select_def split: sum.splits if_splits)

lemma position_Some:
  "position P xs = Some i \<Longrightarrow> i < length xs \<and> P (xs ! i) \<and> (\<forall>j < i. \<not> P (xs ! j))"
  by (induction xs arbitrary: i) (auto simp: nth_Cons split: if_splits nat.splits)

lemma position_None: "position P xs = None \<longleftrightarrow> (\<forall>x \<in> set xs. \<not> P x)"
  by (induction xs) auto

text \<open>A public call leases the available account with the fewest active calls, the first in
  rotation order among equals, and moves the rotation past it; it fails, leaving the pool as it is, exactly
  when no account is available.\<close>

theorem public_selection_is_least_loaded:
  "case pool_select now None False p of
     (Inl e, p') \<Rightarrow>
       e = AccountUnavailable \<and> p' = p \<and> (\<forall>a \<in> set (po_entries p). \<not> account_available now a)
   | (Inr i, p') \<Rightarrow>
       (\<exists>k < length (po_entries p). i = (po_next p + k) mod length (po_entries p) \<and>
          account_available now (po_entries p ! i) \<and>
          (\<forall>j < length (po_entries p). account_available now (pool_rotation p ! j) \<longrightarrow>
             ac_active (po_entries p ! i) \<le> ac_active (pool_rotation p ! j) \<and>
             (j < k \<longrightarrow> ac_active (po_entries p ! i) < ac_active (pool_rotation p ! j)))) \<and>
       peek_public now p = Some (po_entries p ! i) \<and>
       po_next p' = (i + 1) mod length (po_entries p)"
proof (cases "public_index now p")
  case None
  moreover from None have "\<forall>a \<in> set (po_entries p). \<not> account_available now a"
    by (simp only: public_index_None)
  ultimately show ?thesis by (simp add: pool_select_def select_index_def)
next
  case (Some i)
  note spec = public_index_Some [OF Some]
  then have "0 < length (po_entries p)" "account_available now (po_entries p ! i)" by auto
  with spec have sel: "pool_select now None False p =
      (Ok i, on_entry i (\<lambda>a. a\<lparr>ac_active := usize_add (ac_active a)\<rparr>)
        (p\<lparr>po_next := (i + 1) mod length (po_entries p)\<rparr>))"
    by (auto simp: pool_select_def select_index_def Some)
  have "peek_public now p = Some (po_entries p ! i)" by (simp add: peek_public_def Some)
  with spec show ?thesis unfolding sel by (simp add: on_entry_def)
qed

definition example_pool :: pool where
  "example_pool = \<lparr>po_entries = map (\<lambda>(n, k, d). \<lparr>ac_name = n,
       ac_source = Static \<lparr>cr_player_id = n, cr_credential = ''c''\<rparr>, ac_active = k,
       ac_health = health_default\<lparr>he_disabled := d\<rparr>\<rparr>)
     [(''a'', 0, True), (''b'', 2, False), (''c'', 1, False), (''d'', 1, False)],
     po_next = 1, po_generation = 0\<rparr>"

lemma example_available:
  "account_available now (po_entries example_pool ! 0) = False"
  "account_available now (po_entries example_pool ! 1)"
  "account_available now (po_entries example_pool ! 2)"
  "account_available now (po_entries example_pool ! 3)"
  by (simp_all add: example_pool_def account_available_def health_available_def health_default_def
      health_cooldown_until_def max_instant_def)

lemma example_rotation: "rotation_indices example_pool = [1, 2, 3, 0]"
  by (simp add: rotation_indices_def example_pool_def upt_rec)

theorem public_selection_is_least_loaded_witness:
  "fst (pool_select 5 None False example_pool) = Ok 2 \<and>
   po_next (snd (pool_select 5 None False example_pool)) = 3"
proof -
  have i: "public_index 5 example_pool = Some 2"
    by (simp add: public_index_def example_rotation example_available) (simp add: example_pool_def)
  then have sel: "fst (pool_select 5 None False example_pool) = Ok 2"
    using example_available(3) by (simp add: pool_select_def select_index_def) (simp add: example_pool_def)
  obtain p' where "pool_select 5 None False example_pool = (Ok 2, p')"
    using sel by (metis prod.collapse)
  then show ?thesis
    using public_selection_is_least_loaded [where now = 5 and p = example_pool] by (simp add: example_pool_def)
qed

text \<open>A call that names an account, or a private call, leases that account (the first of the
  name, or the first of the pool) or fails: it never falls back to another one.\<close>

theorem named_call_never_substitutes:
  "(case pool_select now (Some n) priv p of
      (Inl e, p') \<Rightarrow> p' = p \<and>
        (e = NotFound \<and> (\<forall>a \<in> set (po_entries p). ac_name a \<noteq> n) \<or>
         e = AccountUnavailable \<and> (\<exists>a \<in> set (po_entries p). ac_name a = n \<and> \<not> account_available now a))
    | (Inr i, p') \<Rightarrow> ac_name (po_entries p ! i) = n \<and> account_available now (po_entries p ! i) \<and>
        (\<forall>j < i. ac_name (po_entries p ! j) \<noteq> n)) \<and>
   (case pool_select now None True p of
      (Inl e, p') \<Rightarrow> p' = p \<and> e = AccountUnavailable \<and>
        (po_entries p = [] \<or> \<not> account_available now (hd (po_entries p)))
    | (Inr i, p') \<Rightarrow> i = 0 \<and> account_available now (po_entries p ! 0))"
proof (rule conjI, goal_cases)
  case 1
  show ?case
  proof (cases "position (\<lambda>a. ac_name a = n) (po_entries p)")
    case None
    moreover from None have "\<forall>a \<in> set (po_entries p). ac_name a \<noteq> n"
      by (simp only: position_None)
    ultimately show ?thesis by (simp add: pool_select_def select_index_def)
  next
    case (Some i)
    note pos = position_Some [OF Some]
    then have "po_entries p ! i \<in> set (po_entries p)" by simp
    with pos Some show ?thesis
      by (auto simp: pool_select_def select_index_def)
  qed
next
  case 2
  show ?case by (cases "po_entries p") (auto simp: pool_select_def select_index_def)
qed

theorem named_call_never_substitutes_witness:
  "fst (pool_select 5 (Some ''a'') False example_pool) = Err AccountUnavailable \<and>
   fst (pool_select 5 (Some ''d'') False example_pool) = Ok 3 \<and>
   fst (pool_select 5 (Some ''x'') False example_pool) = Err NotFound"
proof -
  have d: "ac_name (po_entries example_pool ! 0) = ''a''" "ac_name (po_entries example_pool ! 3) = ''d''"
    by (simp_all add: example_pool_def)
  show ?thesis
    using named_call_never_substitutes [where now = 5 and n = "''a''" and priv = False and p = example_pool] d
    by (simp add: pool_select_def select_index_def example_available)
       (simp add: example_pool_def account_available_def health_available_def health_default_def
          health_cooldown_until_def max_instant_def)
qed

subsection \<open>Leases over time\<close>

text \<open>
  A pool and the leases handed out from it evolve by selections, by leases being dropped, by call
  outcomes reported to leased accounts, by withdrawn path streaks, and by changes of an account's
  login state or of its cooldown.
\<close>

inductive pool_step :: "pool \<times> nat list \<Rightarrow> pool \<times> nat list \<Rightarrow> bool" where
  select: "pool_select now name priv p = (Ok i, p') \<Longrightarrow> pool_step (p, ls) (p', i # ls)"
| failed: "pool_select now name priv p = (Err e, p') \<Longrightarrow> pool_step (p, ls) (p', ls)"
| drop: "i \<in> set ls \<Longrightarrow> pool_step (p, ls) (lease_drop i p, remove1 i ls)"
| report: "i \<in> set ls \<Longrightarrow>
    pool_step (p, ls)
      (on_entry i (\<lambda>a. fst (lease_report E result code policy login charge (a, w))) p, ls)"
| revoke: "pool_step (p, ls) (pool_revoke_path_failures k policy p, ls)"
| login: "pool_step (p, ls) (on_entry i (on_login f) p, ls)"
| cool: "pool_step (p, ls) (on_entry i (account_cool_down until) p, ls)"
| disable: "pool_step (p, ls) (on_entry i account_disable p, ls)"

definition account_step :: "account \<Rightarrow> account \<Rightarrow> bool" where
  \<comment> \<open>the name and the active count are kept, and a disabled account stays disabled\<close>
  "account_step a a' \<longleftrightarrow>
     ac_name a' = ac_name a \<and> ac_active a' = ac_active a \<and>
     (he_disabled (ac_health a) \<longrightarrow> he_disabled (ac_health a'))"

lemma account_step_simps [simp]:
  "account_step a a" "account_step a (on_login f a)" "account_step a (account_disable a)"
  "account_step a (account_cool_down until a)" "account_step a (account_revoke_path_failures k policy a)"
  by (auto simp: account_step_def on_login_def account_disable_def on_health_def account_cool_down_def
      account_revoke_path_failures_def split: account_source.splits)

lemma account_step_trans: "account_step a b \<Longrightarrow> account_step b c \<Longrightarrow> account_step a c"
  by (auto simp: account_step_def)

lemma account_step_health:
  "(\<And>h. he_disabled h \<Longrightarrow> he_disabled (f h)) \<Longrightarrow> account_step a (on_health f a)"
  by (simp add: account_step_def on_health_def)

lemma account_step_invalidate: "account_step a (fst (invalidate E stale (a, w)))"
  by (cases w) (simp add: invalidate_def)

lemma account_step_invalidate_twice: "account_step a (fst (invalidate_twice E stale (a, w)))"
  using account_step_invalidate [of a E stale w]
  by (auto simp: invalidate_twice_def intro: account_step_trans split: prod.splits)

lemma account_step_status: "account_step a (fst (signal_by_status E error policy charge (a, w)))"
  by (simp add: signal_by_status_def account_step_invalidate_twice account_step_health)

lemma account_step_code: "account_step a (fst (signal_by_code E error c policy login charge (a, w)))"
proof -
  obtain a1 w1 where i: "invalidate E False (a, w) = (a1, w1)" by (metis surj_pair)
  then have "account_step a a1" using account_step_invalidate [of a E False w] by simp
  then have "account_step a (account_disable (on_login f a1))"
    "account_step a (account_cool_down u (on_login f a1))" for f u
    by (meson account_step_simps account_step_trans)+
  moreover have "account_step a (account_disable (on_login drop_session a))"
    by (meson account_step_simps account_step_trans)
  ultimately show ?thesis
    using account_step_invalidate_twice account_step_status
    by (simp add: signal_by_code_def i Let_def)
qed

lemma account_step_report:
  "account_step a (fst (lease_report E result code policy login charge (a, w)))"
proof -
  have static: "account_step a (on_health (static_report now result code policy charge) a)" for now
    by (rule account_step_health) (auto simp: static_report_def split: sum.splits)
  have "account_step a (on_health health_succeeded a)" by (rule account_step_health) simp
  then have ok: "account_step a (signal_ok a)"
    unfolding signal_ok_def by (meson account_step_simps account_step_trans)
  have code: "account_step a (fst (signal_by_code E error c policy l charge (on_login f a, w)))" for error c l f
    using account_step_code by (meson account_step_simps account_step_trans)
  have "account_step a (fst (global_signal E result code policy l charge (a, w)))" for l
    using ok code account_step_status
    by (simp add: global_signal_def split: option.splits sum.splits)
  with static show ?thesis
    by (simp add: lease_report_def split: option.splits)
qed

lemma usize_counts:
  "usize_add (n mod 2 ^ 64) = Suc n mod 2 ^ 64"
  "0 < n \<Longrightarrow> usize_sub (n mod 2 ^ 64) = (n - 1) mod 2 ^ 64"
proof -
  show "usize_add (n mod 2 ^ 64) = Suc n mod 2 ^ 64" by (simp add: usize_add_def mod_simps)
  assume "0 < n"
  then obtain m where n: "n = Suc m" using gr0_implies_Suc by blast
  have "usize_sub (n mod 2 ^ 64) = (n + (2 ^ 64 - 1)) mod 2 ^ 64"
    unfolding usize_sub_def by (rule mod_add_left_eq)
  also have "\<dots> = (m + 2 ^ 64) mod 2 ^ 64" by (simp add: n)
  finally show "usize_sub (n mod 2 ^ 64) = (n - 1) mod 2 ^ 64" by (simp add: n)
qed

definition pool_inv :: "pool \<times> nat list \<Rightarrow> bool" where
  "pool_inv x \<longleftrightarrow>
     (\<forall>i < length (po_entries (fst x)).
        ac_active (po_entries (fst x) ! i) = count_list (snd x) i mod 2 ^ 64)"

definition pool_forward :: "pool \<Rightarrow> pool \<Rightarrow> bool" where
  "pool_forward p q \<longleftrightarrow>
     length (po_entries q) = length (po_entries p) \<and>
     (\<forall>i < length (po_entries p). ac_name (po_entries q ! i) = ac_name (po_entries p ! i) \<and>
        (he_disabled (ac_health (po_entries p ! i)) \<longrightarrow> he_disabled (ac_health (po_entries q ! i))))"

lemma count_list_remove1: "count_list (remove1 x ls) i = (if i = x then count_list ls i - 1 else count_list ls i)"
  by (induction ls) (auto simp: count_list_0_iff)

lemma on_entry_simps [simp]:
  "length (po_entries (on_entry i f p)) = length (po_entries p)"
  "po_next (on_entry i f p) = po_next p"
  "j < length (po_entries p) \<Longrightarrow>
     po_entries (on_entry i f p) ! j = (if j = i then f (po_entries p ! i) else po_entries p ! j)"
  by (simp_all add: on_entry_def)

lemma on_entry_account_step:
  assumes "\<And>a. account_step a (f a)"
  shows "pool_forward p (on_entry i f p)" "pool_inv (p, ls) \<Longrightarrow> pool_inv (on_entry i f p, ls)"
  using assms by (auto simp: pool_forward_def pool_inv_def account_step_def)

lemma map_account_step:
  assumes "\<And>a. account_step a (f a)"
  shows "pool_forward p (p\<lparr>po_entries := map f (po_entries p)\<rparr>)"
    "pool_inv (p, ls) \<Longrightarrow> pool_inv (p\<lparr>po_entries := map f (po_entries p)\<rparr>, ls)"
  using assms by (auto simp: pool_forward_def pool_inv_def account_step_def)

lemma pool_step_forward: "pool_step x y \<Longrightarrow> pool_forward (fst x) (fst y)"
proof (induction rule: pool_step.induct)
  case (select now name priv p i p' ls)
  note sel = pool_select_Ok [OF select]
  show ?case unfolding sel(4) using sel(2) by (auto simp: pool_forward_def )
next
  case (failed now name priv p e p' ls)
  show ?case using pool_select_Err [OF failed] by (simp add: pool_forward_def)
next
  case (drop i ls p)
  then show ?case by (auto simp: pool_forward_def lease_drop_def)
next
  case (revoke p ls k policy)
  then show ?case using map_account_step(1) by (simp add: pool_revoke_path_failures_def)
qed (simp_all add: on_entry_account_step account_step_report)

lemma pool_step_inv: "pool_step x y \<Longrightarrow> pool_inv x \<Longrightarrow> pool_inv y"
proof (induction rule: pool_step.induct)
  case (select now name priv p i p' ls)
  note sel = pool_select_Ok [OF select.hyps]
  show ?case
    unfolding sel(4) using sel(2) select.prems usize_counts(1) [of "count_list ls i"]
    by (auto simp: pool_inv_def)
next
  case (failed now name priv p e p' ls)
  then show ?case using pool_select_Err by blast
next
  case (drop i ls p)
  have "0 < count_list ls i" using drop.hyps by (metis count_list_0_iff neq0_conv)
  then show ?case
    using drop.prems usize_counts(2) [of "count_list ls i"]
    by (auto simp: pool_inv_def lease_drop_def count_list_remove1)
next
  case (revoke p ls k policy)
  then show ?case using map_account_step(2) by (simp add: pool_revoke_path_failures_def)
qed (simp_all add: on_entry_account_step account_step_report)

lemma pool_steps:
  "pool_step\<^sup>*\<^sup>* x y \<Longrightarrow> pool_forward (fst x) (fst y) \<and> (pool_inv x \<longrightarrow> pool_inv y)"
proof (induction rule: rtranclp_induct)
  case (step y z)
  then show ?case
    using pool_step_forward [OF step.hyps(2)] pool_step_inv [OF step.hyps(2)]
    by (auto simp: pool_forward_def)
qed (simp add: pool_forward_def)

text \<open>However a pool is used, the active count of an account is the number of leases of it
  that are still held; the counter never wraps while fewer than \<open>2 ^ 64\<close> leases exist.\<close>

theorem active_calls_count_leases:
  assumes "pool_step\<^sup>*\<^sup>* (p, []) (q, ls)" "\<forall>a \<in> set (po_entries p). ac_active a = 0"
    and "i < length (po_entries q)" "length ls < 2 ^ 64"
  shows "ac_active (po_entries q ! i) = count_list ls i"
proof -
  have "pool_inv (p, [])" using assms(2) by (simp add: pool_inv_def)
  with pool_steps [OF assms(1)] have "pool_inv (q, ls)" by blast
  moreover have "count_list ls i < 2 ^ 64" using count_le_length [of ls i] assms(4) by linarith
  ultimately show ?thesis using assms(3) by (simp add: pool_inv_def)
qed

lemma example_select:
  "pool_select 5 None True (example_pool\<lparr>po_entries := [(po_entries example_pool ! 2)\<lparr>ac_active := 0\<rparr>]\<rparr>) =
   (Ok 0, example_pool\<lparr>po_entries := [(po_entries example_pool ! 2)\<lparr>ac_active := 1\<rparr>], po_next := 0\<rparr>)"
  using example_available(3) [of 5]
  by (simp add: pool_select_def select_index_def account_available_def on_entry_def usize_add_def)

theorem active_calls_count_leases_witness:
  "ac_active (po_entries (example_pool\<lparr>po_entries := [(po_entries example_pool ! 2)\<lparr>ac_active := 1\<rparr>],
     po_next := 0\<rparr>) ! 0) = count_list [0] 0"
proof -
  have "pool_step (example_pool\<lparr>po_entries := [(po_entries example_pool ! 2)\<lparr>ac_active := 0\<rparr>]\<rparr>, [])
    (example_pool\<lparr>po_entries := [(po_entries example_pool ! 2)\<lparr>ac_active := 1\<rparr>], po_next := 0\<rparr>, [0])"
    by (rule pool_step.select [OF example_select])
  from active_calls_count_leases [OF r_into_rtranclp [where r = pool_step, OF this], of 0]
  show ?thesis by simp
qed

text \<open>A disabled account stays disabled for the lifetime of the pool, whatever is reported,
  and is never leased again.\<close>

theorem disabled_accounts_are_never_leased:
  assumes "pool_step\<^sup>*\<^sup>* (p, ls) (q, ls')" "i < length (po_entries p)"
    and "he_disabled (ac_health (po_entries p ! i))"
  shows "he_disabled (ac_health (po_entries q ! i)) \<and>
    ac_name (po_entries q ! i) = ac_name (po_entries p ! i) \<and>
    fst (pool_select now name priv q) \<noteq> Ok i"
proof -
  have fwd: "pool_forward p q" using pool_steps [OF assms(1)] by simp
  then have dis: "he_disabled (ac_health (po_entries q ! i))"
    "ac_name (po_entries q ! i) = ac_name (po_entries p ! i)"
    using assms(2,3) by (simp_all add: pool_forward_def)
  have "fst (pool_select now name priv q) \<noteq> Ok i"
  proof
    assume "fst (pool_select now name priv q) = Ok i"
    then obtain q' where "pool_select now name priv q = (Ok i, q')" by (metis prod.collapse)
    from pool_select_Ok(3) [OF this] dis(1) show False
      by (simp add: account_available_def health_available_def)
  qed
  with dis show ?thesis by simp
qed

theorem disabled_accounts_are_never_leased_witness:
  "he_disabled (ac_health (po_entries (pool_revoke_path_failures 1 pool_policy_default example_pool) ! 0)) \<and>
   fst (pool_select 9 None True (pool_revoke_path_failures 1 pool_policy_default example_pool)) \<noteq> Ok 0"
proof -
  have r: "pool_step\<^sup>*\<^sup>* (example_pool, []) (pool_revoke_path_failures 1 pool_policy_default example_pool, [])"
    using pool_step.revoke by (rule r_into_rtranclp)
  have "0 < length (po_entries example_pool)" "he_disabled (ac_health (po_entries example_pool ! 0))"
    by (simp_all add: example_pool_def)
  from disabled_accounts_are_never_leased [OF r this] show ?thesis by simp
qed

subsection \<open>Reload and status\<close>

text \<open>Reloading the configuration cannot bypass the login limits: an account with the same name
  and SDK identity gets the same answer to "may I log in now?" from the new pool as from the old
  one.\<close>

theorem reload_keeps_login_limits:
  assumes "a \<in> set (po_entries p)" "account_global a = Some new"
    and "pool_find (ac_name a) previous = Some b" "account_global b = Some old"
    and "sa_uid (ga_sdk old) = sa_uid (ga_sdk new)"
  shows "\<exists>a' g. a' \<in> set (po_entries (inherit_login_history p previous)) \<and>
    ac_name a' = ac_name a \<and> account_global a' = Some g \<and>
    fst (login_next_allowed now c (ga_state g)) = fst (login_next_allowed now c (ga_state old)) \<and>
    ls_concurrent_device (ga_state g) = ls_concurrent_device (ga_state old) \<and>
    ls_session (ga_state g) = ls_session (ga_state new) \<and> ac_health a' = ac_health a"
proof (intro exI conjI)
  let ?g = "new\<lparr>ga_state := (ga_state new)\<lparr>ls_attempts := ls_attempts (ga_state old),
      ls_concurrent_device := ls_concurrent_device (ga_state old),
      ls_last_login_at := ls_last_login_at (ga_state old)\<rparr>\<rparr>"
  have src: "ac_source a = Global new" using assms(2) by (cases "ac_source a") (auto simp: account_global_def)
  have e: "inherit_entry previous a = a\<lparr>ac_source := Global ?g\<rparr>"
    using assms(2-5) by (simp add: inherit_entry_def pool_find_def on_login_def src)
  show "inherit_entry previous a \<in> set (po_entries (inherit_login_history p previous))"
    using assms(1) by (simp add: inherit_login_history_def)
  show "account_global (inherit_entry previous a) = Some ?g" by (simp add: e account_global_def)
  show "fst (login_next_allowed now c (ga_state ?g)) = fst (login_next_allowed now c (ga_state old))"
    by (simp add: login_next_allowed_def login_prune_def Let_def)
qed (use assms in \<open>auto simp: inherit_entry_def pool_find_def on_login_def split: account_source.splits\<close>)

definition example_global :: "instant list \<Rightarrow> account" where
  "example_global ts = \<lparr>ac_name = ''g'',
     ac_source = Global \<lparr>ga_sdk = example_account, ga_expected_player_id = None,
       ga_state = login_init\<lparr>ls_attempts := ts\<rparr>\<rparr>, ac_active = 0, ac_health = health_default\<rparr>"

theorem reload_keeps_login_limits_witness:
  "\<exists>a' g. a' \<in> set (po_entries (inherit_login_history
       (example_pool\<lparr>po_entries := [example_global []]\<rparr>)
       (example_pool\<lparr>po_entries := [example_global [1000]]\<rparr>))) \<and>
     account_global a' = Some g \<and>
     fst (login_next_allowed 2000 login_config_default (ga_state g)) =
       Some (1000 + from_secs 300)"
proof -
  let ?old = "\<lparr>ga_sdk = example_account, ga_expected_player_id = None,
       ga_state = login_init\<lparr>ls_attempts := [1000]\<rparr>\<rparr>"
  have b: "pool_find (ac_name (example_global [])) (example_pool\<lparr>po_entries := [example_global [1000]]\<rparr>) =
      Some (example_global [1000])" "account_global (example_global [1000]) = Some ?old"
    "account_global (example_global []) = Some (?old\<lparr>ga_state := login_init\<lparr>ls_attempts := []\<rparr>\<rparr>)"
    by (simp_all add: pool_find_def example_global_def account_global_def)
  have l: "fst (login_next_allowed 2000 login_config_default (ga_state ?old)) = Some (1000 + from_secs 300)"
    by (simp add: login_next_allowed_def login_prune_def login_init_def login_config_default_def
        saturating_duration_since_def DAY_def from_secs_def max_instant_def Let_def)
  have "example_global [] \<in> set (po_entries (example_pool\<lparr>po_entries := [example_global []]\<rparr>))" by simp
  from reload_keeps_login_limits [OF this b(3,1,2), of 2000 login_config_default] l
  show ?thesis by auto
qed

lemma first_min_mem: "first_min f xs = Some x \<Longrightarrow> x \<in> set xs"
  by (induction xs arbitrary: x) (auto split: option.splits if_splits)

lemma first_min_filter_cong:
  assumes "\<And>x. x \<in> set xs \<Longrightarrow> P x = Q x" "\<And>x. x \<in> set xs \<Longrightarrow> f x = g x"
  shows "first_min f (filter P xs) = first_min g (filter Q xs)"
proof -
  have "first_min f ys = first_min g ys" if "set ys \<subseteq> set xs" for ys
    using that
  proof (induction ys)
    case (Cons y ys)
    then have IH: "first_min f ys = first_min g ys" and y: "f y = g y" using assms(2) by simp_all
    show ?case
    proof (cases "first_min g ys")
      case (Some z)
      then have "f z = g z" using Cons.prems assms(2) first_min_mem [OF Some] by auto
      with Some IH y show ?thesis by simp
    qed (simp add: IH)
  qed simp
  moreover have "filter P xs = filter Q xs" using assms(1) by (auto intro: filter_cong)
  ultimately show ?thesis by simp
qed

lemma position_map: "position P (map f xs) = position (\<lambda>x. P (f x)) xs"
  by (induction xs) auto

text \<open>The status listing agrees with the scheduler: an account is shown as neither disabled nor
  cooling down exactly when a call could lease it, and listing the status changes nothing that a
  call or a login depends on.\<close>

theorem status_agrees_with_scheduler:
  assumes "i < length (po_entries p)" "pool_status L wall now sdk_of p = (st, p')"
  shows "(\<not> as_disabled (st ! i) \<and> as_cooldown_remaining_seconds (st ! i) = 0 \<longleftrightarrow>
      account_available now (po_entries p ! i)) \<and>
    fst (pool_select now name priv p') = fst (pool_select now name priv p) \<and>
    length st = length (po_entries p)"
proof -
  have st: "st = map (status_entry L wall now sdk_of) (po_entries p)"
    and p': "p' = p\<lparr>po_entries := map (on_login (login_prune now)) (po_entries p)\<rparr>"
    using assms(2) by (simp_all add: pool_status_def)
  have "ceil_secs (t - now) = 0 \<longleftrightarrow> t \<le> now" for t :: nat
    by (auto simp: ceil_secs_def)
  then have shown: "\<not> as_disabled (st ! i) \<and> as_cooldown_remaining_seconds (st ! i) = 0 \<longleftrightarrow>
      account_available now (po_entries p ! i)"
    using assms(1)
    by (simp add: st status_entry_def account_available_def health_available_def Let_def
        saturating_duration_since_def split: option.splits)
  have keep: "ac_name (on_login f a) = ac_name a" "ac_active (on_login f a) = ac_active a"
    "account_available now (on_login f a) = account_available now a" for f a
    by (simp_all add: on_login_def account_available_def split: account_source.splits)
  have rot: "rotation_indices p' = rotation_indices p" by (simp add: p' rotation_indices_def)
  have nth: "po_entries p' ! j = on_login (login_prune now) (po_entries p ! j)" "length (po_entries p') = length (po_entries p)"
    if "j < length (po_entries p)" for j
    using that by (simp_all add: p')
  have "public_index now p' = public_index now p"
    unfolding public_index_def rot
    by (rule first_min_filter_cong) (simp_all add: set_rotation nth keep)
  then have "select_index now name priv p' = select_index now name priv p"
    by (simp add: select_index_def p' position_map keep split: option.splits)
  then have "fst (pool_select now name priv p') = fst (pool_select now name priv p)"
    using nth by (auto simp: pool_select_def keep p' split: sum.splits)
  with shown show ?thesis by (simp add: st)
qed

theorem status_agrees_with_scheduler_witness:
  "as_disabled (fst (pool_status example_lib 7 7 (\<lambda>_. example_session) example_pool) ! 0) \<and>
   fst (pool_select 7 (Some ''d'') False
     (snd (pool_status example_lib 7 7 (\<lambda>_. example_session) example_pool))) = Ok 3"
proof -
  let ?x = "pool_status example_lib 7 7 (\<lambda>_. example_session) example_pool"
  have x: "?x = (fst ?x, snd ?x)" and len: "0 < length (po_entries example_pool)"
    by (simp_all add: example_pool_def)
  have sel: "fst (pool_select 7 (Some ''d'') False example_pool) = Ok 3"
    by (simp add: pool_select_def select_index_def example_pool_def account_available_def
        health_available_def health_default_def health_cooldown_until_def max_instant_def)
  have cool: "as_cooldown_remaining_seconds (fst ?x ! 0) = 0"
    by (simp add: pool_status_def status_entry_def example_pool_def health_default_def
        health_cooldown_until_def max_instant_def Let_def)
  from status_agrees_with_scheduler [OF len x, of "Some ''d''" False] sel cool example_available(1)
  show ?thesis by simp
qed

end
