(* ===== verification/Account_Config.thy ===== *)
theory Account_Config
  imports Account_Pool
begin

section \<open>Configured accounts and loading the pool (src/accounts.rs)\<close>

text \<open>
  The validation of the account section of a configuration and the construction of the pool from it.
  Environment variables, credential files and identity files are read by functions that are
  parameters here (\<open>loaders\<close>); the parsed contents are what the source gets from them.
\<close>

record account_config =
  cf_name :: string
  cf_player_id_env :: "string option"
  cf_credential_env :: "string option"
  cf_credentials_file :: "string option"
  cf_global_identity_file :: "string option"

record accounts_section =
  cs_accounts :: "account_config list"
  cs_account_pool :: pool_policy
  cs_player_id_env :: "string option"
  cs_player_credential_env :: "string option"
  cs_region :: region
  cs_global_login :: "login_config option"
  cs_session_lock :: bool

definition account_name_ok :: "string \<Rightarrow> bool" where
  "account_name_ok n \<longleftrightarrow>
     n \<noteq> [] \<and> length n \<le> 64 \<and> list_all (\<lambda>b. ascii_alphanumeric b \<or> b \<in> set ''_-'') n"

definition account_source_check :: "bool \<Rightarrow> account_config \<Rightarrow> app_error + unit" where
  "account_source_check global c =
     (case (cf_player_id_env c, cf_credential_env c, cf_credentials_file c, cf_global_identity_file c) of
        (Some i, Some key, None, None) \<Rightarrow>
          if i \<noteq> [] \<and> key \<noteq> [] \<and> \<not> global then Ok ()
          else if global then Err (Config
            ''HK/EN/KR accounts require global_identity_file; static game credentials are JP only'')
          else Err (Config ''each account requires paired environment references or one credentials file'')
      | (None, None, Some path, None) \<Rightarrow>
          if path \<noteq> [] \<and> \<not> global then Ok ()
          else if global then Err (Config
            ''HK/EN/KR accounts require global_identity_file; static game credentials are JP only'')
          else Err (Config ''each account requires paired environment references or one credentials file'')
      | (None, None, None, Some path) \<Rightarrow>
          if path \<noteq> [] \<and> global then Ok ()
          else if \<not> global then Err (Config ''global_identity_file is only for HK/EN/KR accounts'')
          else Err (Config ''each account requires paired environment references or one credentials file'')
      | (_, _, _, None) \<Rightarrow>
          if global then Err (Config
            ''HK/EN/KR accounts require global_identity_file; static game credentials are JP only'')
          else Err (Config ''each account requires paired environment references or one credentials file'')
      | _ \<Rightarrow> Err (Config ''each account requires paired environment references or one credentials file''))"

fun validate_each :: "bool \<Rightarrow> string list \<Rightarrow> account_config list \<Rightarrow> app_error + unit" where
  \<comment> \<open>the loop over \<open>config.accounts\<close>; \<open>names\<close> are those inserted so far\<close>
  "validate_each global names [] = Ok ()"
| "validate_each global names (c # cs) =
     (if \<not> account_name_ok (cf_name c) \<or> cf_name c \<in> set names
      then Err (Config ''account names must be unique safe identifiers'')
      else then_result (account_source_check global c)
             (\<lambda>_. validate_each global (cf_name c # names) cs))"

definition validate_global_login :: "accounts_section \<Rightarrow> bool \<Rightarrow> app_error + unit" where
  "validate_global_login cfg global =
     (case cs_global_login cfg of
        None \<Rightarrow> Ok ()
      | Some login \<Rightarrow>
          if \<not> global then Err (Config ''global_login is only for HK/EN/KR'')
          else login_config_validate login)"

definition accounts_validate :: "accounts_section \<Rightarrow> app_error + unit" where
  "accounts_validate cfg =
     (let policy = cs_account_pool cfg;
          legacy = cs_player_id_env cfg \<noteq> None \<or> cs_player_credential_env cfg \<noteq> None;
          global = (region_family (cs_region cfg) = ''global'')
      in if 64 < length (cs_accounts cfg)
           \<or> \<not> (1 \<le> failure_threshold policy \<and> failure_threshold policy \<le> 100)
           \<or> \<not> (1 \<le> cooldown_seconds policy \<and> cooldown_seconds policy \<le> 3600)
         then Err (Config ''invalid account pool bounds'')
         else if cs_accounts cfg \<noteq> [] \<and> legacy
         then Err (Config ''accounts and legacy account references are mutually exclusive'')
         else if global \<and> legacy
         then Err (Config
           ''HK/EN/KR accounts require global_identity_file; static game credentials are JP only'')
         else
           then_result (validate_each global [] (cs_accounts cfg)) (\<lambda>_.
           then_result (validate_global_login cfg global) (\<lambda>_.
             if global \<and> cs_accounts cfg \<noteq> []
             then if cs_global_login cfg = None
                  then Err (Config ''HK/EN/KR accounts require a global_login section'')
                  else if \<not> cs_session_lock cfg
                  then Err (Config ''HK/EN/KR accounts require session_lock: true'')
                  else Ok ()
             else Ok ())))"

subsection \<open>Loading\<close>

record identity =
  id_sdk :: sdk_account
  id_players :: "(string \<times> string) list" \<comment> \<open>the pinned player by region name\<close>

record loaders =
  secret :: "string \<Rightarrow> app_error + string"
  read_credentials :: "string \<Rightarrow> app_error + credentials"
  load_identity :: "string \<Rightarrow> app_error + identity"
  header_parses :: "string \<Rightarrow> bool"

definition global_account_new :: "identity \<Rightarrow> region \<Rightarrow> global_account" where
  "global_account_new i r =
     \<lparr>ga_sdk = id_sdk i, ga_expected_player_id = map_of (id_players i) (region_name r),
      ga_state = login_init\<rparr>"

definition static_credentials :: "loaders \<Rightarrow> account_config \<Rightarrow> app_error + credentials" where
  "static_credentials R c =
     (case cf_credentials_file c of
        Some path \<Rightarrow> read_credentials R path
      | None \<Rightarrow>
          (case cf_player_id_env c of
             None \<Rightarrow> Err AccountUnavailable
           | Some pe \<Rightarrow> then_result (secret R pe) (\<lambda>player_id.
               (case cf_credential_env c of
                  None \<Rightarrow> Err AccountUnavailable
                | Some ce \<Rightarrow> then_result (secret R ce) (\<lambda>credential.
                    Ok \<lparr>cr_player_id = player_id, cr_credential = credential\<rparr>)))))"

definition load_source :: "loaders \<Rightarrow> region \<Rightarrow> string list \<Rightarrow> account_config \<Rightarrow> app_error + (account_source \<times> string)" where
  \<comment> \<open>the source of one account and the identity it inserts into \<open>ids\<close>\<close>
  "load_source R r ids c =
     (case cf_global_identity_file c of
        Some path \<Rightarrow>
          then_result (load_identity R path) (\<lambda>i.
            let k = ''global:'' @ sa_uid (id_sdk i)
            in if k \<in> set ids then Err (Config ''invalid or duplicate account identity'')
               else Ok (Global (global_account_new i r), k))
      | None \<Rightarrow>
          then_result (static_credentials R c) (\<lambda>cr.
            let k = ''static:'' @ cr_player_id cr
            in if blank (cr_player_id cr) \<or> \<not> header_parses R (cr_player_id cr)
                 \<or> blank (cr_credential cr) \<or> \<not> header_parses R (cr_credential cr)
                 \<or> k \<in> set ids
               then Err (Config ''invalid or duplicate account identity'')
               else Ok (Static cr, k)))"

fun load_each :: "loaders \<Rightarrow> region \<Rightarrow> string list \<Rightarrow> account_config list \<Rightarrow> app_error + account list" where
  "load_each R r ids [] = Ok []"
| "load_each R r ids (c # cs) =
     then_result (load_source R r ids c) (\<lambda>x. case x of (src, k) \<Rightarrow>
       then_result (load_each R r (k # ids) cs) (\<lambda>as.
         Ok (\<lparr>ac_name = cf_name c, ac_source = src, ac_active = 0, ac_health = health_default\<rparr> # as)))"

definition pool_entries_of :: "accounts_section \<Rightarrow> app_error + account_config list" where
  "pool_entries_of cfg =
     (if cs_accounts cfg \<noteq> [] then Ok (cs_accounts cfg)
      else case (cs_player_id_env cfg, cs_player_credential_env cfg) of
             (Some i, Some k) \<Rightarrow>
               Ok [\<lparr>cf_name = ''default'', cf_player_id_env = Some i, cf_credential_env = Some k,
                    cf_credentials_file = None, cf_global_identity_file = None\<rparr>]
           | (None, None) \<Rightarrow> Ok []
           | _ \<Rightarrow> Err (Config ''both account references required''))"

definition pool_load :: "loaders \<Rightarrow> accounts_section \<Rightarrow> nat \<Rightarrow> app_error + pool" where
  "pool_load R cfg generation =
     then_result (accounts_validate cfg) (\<lambda>_.
     then_result (pool_entries_of cfg) (\<lambda>entries.
     then_result (load_each R (cs_region cfg) [] entries) (\<lambda>loaded.
       Ok \<lparr>po_entries = loaded, po_next = 0, po_generation = generation\<rparr>)))"

subsection \<open>Properties\<close>

fun source_identity :: "account_source \<Rightarrow> string" where
  "source_identity (Global g) = ''global:'' @ sa_uid (ga_sdk g)"
| "source_identity (Static c) = ''static:'' @ cr_player_id c"

fun is_global :: "account_source \<Rightarrow> bool" where
  "is_global (Global g) = True"
| "is_global (Static c) = False"

lemma load_source_Ok:
  assumes "load_source R r ids c = Ok (src, k)"
  shows "k = source_identity src" "k \<notin> set ids" "is_global src \<longleftrightarrow> cf_global_identity_file c \<noteq> None"
  using assms by (auto simp: load_source_def then_result_Ok_iff Let_def global_account_new_def
      split: option.splits if_splits)

lemma load_each_Ok:
  assumes "load_each R r ids cs = Ok as"
  shows "map ac_name as = map cf_name cs \<and>
    distinct (map (\<lambda>a. source_identity (ac_source a)) as) \<and>
    (\<forall>a \<in> set as. source_identity (ac_source a) \<notin> set ids \<and> ac_active a = 0 \<and>
       ac_health a = health_default) \<and>
    list_all2 (\<lambda>a c. is_global (ac_source a) \<longleftrightarrow> cf_global_identity_file c \<noteq> None) as cs"
  using assms
proof (induction cs arbitrary: ids as)
  case (Cons c cs)
  then obtain src k as' where src: "load_source R r ids c = Ok (src, k)"
    and rest: "load_each R r (k # ids) cs = Ok as'"
    and as: "as = \<lparr>ac_name = cf_name c, ac_source = src, ac_active = 0, ac_health = health_default\<rparr> # as'"
    by (auto simp: then_result_Ok_iff split: prod.splits)
  from load_source_Ok [OF src] Cons.IH [OF rest] show ?case
    by (auto simp: as)
qed simp

lemma list_all2_memD: "list_all2 P xs ys \<Longrightarrow> x \<in> set xs \<Longrightarrow> \<exists>y \<in> set ys. P x y"
  by (induction rule: list_all2_induct) auto

lemma validate_each_Ok:
  assumes "validate_each global names cs = Ok ()"
  shows "distinct (map cf_name cs) \<and> (\<forall>c \<in> set cs. cf_name c \<notin> set names \<and> account_name_ok (cf_name c) \<and>
    account_source_check global c = Ok ())"
  using assms
proof (induction cs arbitrary: names)
  case (Cons c cs)
  then have "validate_each global (cf_name c # names) cs = Ok ()"
    by (auto simp: then_result_Ok_iff split: if_splits)
  from Cons.IH [OF this] Cons.prems show ?case
    by (auto simp: then_result_Ok_iff split: if_splits)
qed simp

lemma account_source_check_global:
  "account_source_check global c = Ok () \<Longrightarrow> cf_global_identity_file c \<noteq> None \<longleftrightarrow> global"
  by (auto simp: account_source_check_def split: option.splits if_splits)

lemma accounts_validate_Ok:
  assumes "accounts_validate cfg = Ok ()"
  shows "validate_each (region_family (cs_region cfg) = ''global'') [] (cs_accounts cfg) = Ok ()"
    "1 \<le> failure_threshold (cs_account_pool cfg)"
    "region_family (cs_region cfg) = ''global'' \<Longrightarrow> cs_accounts cfg = [] \<Longrightarrow>
       cs_player_id_env cfg = None \<and> cs_player_credential_env cfg = None"
    "region_family (cs_region cfg) = ''global'' \<Longrightarrow> cs_accounts cfg \<noteq> [] \<Longrightarrow> cs_session_lock cfg \<and>
       (\<exists>login. cs_global_login cfg = Some login \<and> login_config_validate login = Ok ())"
  using assms
  by (auto simp: accounts_validate_def validate_global_login_def then_result_Ok_iff Let_def
      split: if_splits option.splits)

text \<open>A pool that loads is well formed: the accounts keep the configured order and names, no
  two of them have the same name or the same game identity, all start healthy and idle, and their
  kind fits the region: Global accounts exactly on the Global family, where logins are serialized
  and limited by a valid \<open>global_login\<close> section.\<close>

theorem loaded_pool_is_well_formed:
  assumes "pool_load R cfg generation = Ok p"
  shows "distinct (map ac_name (po_entries p)) \<and>
    distinct (map (\<lambda>a. source_identity (ac_source a)) (po_entries p)) \<and>
    (cs_accounts cfg \<noteq> [] \<longrightarrow> map ac_name (po_entries p) = map cf_name (cs_accounts cfg)) \<and>
    (\<forall>a \<in> set (po_entries p). ac_active a = 0 \<and> ac_health a = health_default \<and>
       (account_global a \<noteq> None \<longleftrightarrow> region_family (cs_region cfg) = ''global'')) \<and>
    (region_family (cs_region cfg) = ''global'' \<and> po_entries p \<noteq> [] \<longrightarrow>
       cs_session_lock cfg \<and>
       (\<exists>login. cs_global_login cfg = Some login \<and> login_config_validate login = Ok ()))"
proof -
  let ?global = "region_family (cs_region cfg) = ''global''"
  obtain entries where v: "accounts_validate cfg = Ok ()" and e: "pool_entries_of cfg = Ok entries"
    and l: "load_each R (cs_region cfg) [] entries = Ok (po_entries p)"
    using assms by (auto simp: pool_load_def then_result_Ok_iff)
  note each = validate_each_Ok [OF accounts_validate_Ok(1) [OF v]]
  have names: "distinct (map cf_name entries)"
    and kind: "\<forall>c \<in> set entries. cf_global_identity_file c \<noteq> None \<longleftrightarrow> ?global"
    using e each account_source_check_global accounts_validate_Ok(3) [OF v]
    by (auto simp: pool_entries_of_def split: if_splits option.splits)
  note loaded = load_each_Ok [OF l]
  have glob: "account_global a \<noteq> None \<longleftrightarrow> is_global (ac_source a)" for a
    by (cases "ac_source a") (simp_all add: account_global_def)
  have "is_global (ac_source a) \<longleftrightarrow> ?global" if "a \<in> set (po_entries p)" for a
    using list_all2_memD [OF _ that] loaded kind by fastforce
  moreover have "cs_accounts cfg \<noteq> []" if "?global" "po_entries p \<noteq> []"
    using that e loaded accounts_validate_Ok(3) [OF v]
    by (auto simp: pool_entries_of_def split: if_splits option.splits)
  ultimately show ?thesis
    using names loaded e accounts_validate_Ok(4) [OF v] glob
    by (auto simp: pool_entries_of_def split: if_splits)
qed

definition example_loaders :: loaders where
  "example_loaders = \<lparr>secret = (\<lambda>e. Ok e), read_credentials = (\<lambda>_. Err AccountUnavailable),
     load_identity = (\<lambda>_. Err AccountUnavailable), header_parses = (\<lambda>_. True)\<rparr>"

definition example_section :: accounts_section where
  "example_section = \<lparr>cs_accounts = map (\<lambda>n. \<lparr>cf_name = n, cf_player_id_env = Some (n @ ''_ID''),
       cf_credential_env = Some (n @ ''_KEY''), cf_credentials_file = None, cf_global_identity_file = None\<rparr>)
       [''a'', ''b''],
     cs_account_pool = pool_policy_default, cs_player_id_env = None, cs_player_credential_env = None,
     cs_region = Jp, cs_global_login = None, cs_session_lock = False\<rparr>"

theorem loaded_pool_is_well_formed_witness:
  "\<exists>p. pool_load example_loaders example_section 3 = Ok p \<and>
     map ac_name (po_entries p) = [''a'', ''b''] \<and> distinct (map ac_name (po_entries p))"
proof -
  have "\<exists>p. pool_load example_loaders example_section 3 = Ok p"
    by (simp add: pool_load_def accounts_validate_def example_section_def pool_policy_default_def
        account_name_ok_def byte_defs account_source_check_def validate_global_login_def
        pool_entries_of_def load_source_def static_credentials_def example_loaders_def blank_def byte_def
        Let_def)
  then obtain p where p: "pool_load example_loaders example_section 3 = Ok p" ..
  from loaded_pool_is_well_formed [OF p]
  have "map ac_name (po_entries p) = map cf_name (cs_accounts example_section)"
    "distinct (map ac_name (po_entries p))"
    by (simp_all add: example_section_def)
  with p show ?thesis by (simp add: example_section_def)
qed

end
