(* ===== verification/Peer.thy ===== *)
theory Peer
  imports Region Game_Routes App_Error
begin

section \<open>Peer reads and their transport (src/peer.rs, src/peer_transport.rs)\<close>

text \<open>
  The typed operations a node executes for its peers, the handler of the peer route, the failure
  vocabulary with its conversions, and the one-attempt HTTP transport of the calling side. The
  game call behind the handler (\<open>GameClient::call_peer\<close>) is an argument: the handler's behaviour is
  stated for every result it can give. Parameters stand for library code: UUID and semantic
  version parsing, header text, and the derived JSON (de)serialization.
\<close>

record peer_identity =
  pi_contract_version :: nat
  pi_region :: region
  pi_environment :: string
  pi_platform :: platform
  pi_client_version :: string
  pi_protocol_sha256 :: string

datatype operation =
    OpVersion
  | OpServers
  | OpAnnouncements int
  | OpAnnouncement int
  | OpProfile int
  | OpEventRanking int "int list"
  | OpEventDeck int string
  | OpMusicRanking int
  | OpChallengeRanking int

record peer_request =
  rq_request_id :: string
  rq_identity :: peer_identity
  rq_operation :: operation

fun decimal :: "nat \<Rightarrow> string" where
  \<comment> \<open>\<open>to_string\<close> of a nonnegative integer\<close>
  "decimal n = (if n < 10 then [char_of (48 + n)] else decimal (n div 10) @ [char_of (48 + n mod 10)])"

declare decimal.simps [simp del]

definition id_text :: "int \<Rightarrow> app_error + string" where
  "id_text v = (if 0 < v then Ok (decimal (nat v)) else Err InvalidRequest)"

definition id_input :: "string \<Rightarrow> string \<Rightarrow> int \<Rightarrow> (string \<times> json) list \<Rightarrow> app_error + (string \<times> json)" where
  "id_input route name v others =
     then_result (id_text v) (\<lambda>t. Ok (route, JObj ((name, JStr t) # others)))"

fun operation_rpc :: "operation \<Rightarrow> app_error + (string \<times> json)" where
  "operation_rpc OpVersion = Ok (VERSION, JObj [])"
| "operation_rpc OpServers = Ok (SERVER_LIST, JObj [])"
| "operation_rpc (OpAnnouncements tab) =
     (if 0 \<le> tab \<and> tab \<le> 2 then Ok (ANNOUNCEMENTS, JObj [(''selectedTab'', JInt tab)])
      else Err InvalidRequest)"
| "operation_rpc (OpAnnouncement v) = id_input ANNOUNCEMENT ''id'' v []"
| "operation_rpc (OpProfile v) = id_input PROFILE ''playerProfileId'' v []"
| "operation_rpc (OpEventRanking e ranks) =
     (if ranks = [] \<or> 100 < length ranks \<or> card (set ranks) \<noteq> length ranks
         \<or> list_ex (\<lambda>v. v \<le> 0) ranks
      then Err InvalidRequest
      else id_input EVENT_RANKING ''eventId'' e [(''ranks'', JArr (map JInt ranks))])"
| "operation_rpc (OpEventDeck e player) =
     (if player = [] \<or> 128 < length player
         \<or> \<not> list_all (\<lambda>b. ascii_alphanumeric b \<or> b = CHR ''-'' \<or> b = CHR ''_'') player
      then Err InvalidRequest
      else id_input EVENT_DECK ''eventId'' e [(''playerId'', JStr player)])"
| "operation_rpc (OpMusicRanking v) = id_input MUSIC_RANKING ''musicId'' v []"
| "operation_rpc (OpChallengeRanking v) = id_input CHALLENGE_RANKING ''challengeMusicId'' v []"

record observation =
  ob_observed_at :: "instant option"
  ob_grpc_status :: "nat option"
  ob_application_code :: "string option"
  ob_server_time :: "string option"
  ob_maintenance :: bool
  ob_master_version :: "string option"
  ob_resource_version :: "string option"

definition observation_default :: observation where
  "observation_default = \<lparr>ob_observed_at = None, ob_grpc_status = None, ob_application_code = None,
     ob_server_time = None, ob_maintenance = False, ob_master_version = None,
     ob_resource_version = None\<rparr>"

datatype failure =
    FailIdentityMismatch
  | FailUnsupportedOperation
  | FailAccountUnavailable
  | FailUnavailableBeforeDispatch
  | FailTimeout
  | FailTransport
  | FailProtocol
  | FailGame nat
  | FailNotFound

datatype outcome = OutSuccess json | OutFailure failure

record reply =
  re_request_id :: string
  re_identity :: peer_identity
  re_outcome :: outcome
  re_observation :: observation

fun failure_of :: "app_error \<Rightarrow> failure" where
  "failure_of UnsupportedRegionOperation = FailUnsupportedOperation"
| "failure_of PeerAccountUnavailable = FailUnavailableBeforeDispatch"
| "failure_of UpstreamUnavailable = FailUnavailableBeforeDispatch"
| "failure_of AccountUnavailable = FailAccountUnavailable"
| "failure_of Timeout = FailTimeout"
| "failure_of Transport = FailTransport"
| "failure_of Proxy = FailTransport"
| "failure_of (Grpc s) = FailGame s"
| "failure_of (Maintenance s) = FailGame s"
| "failure_of PeerIdentityMismatch = FailIdentityMismatch"
| "failure_of NotFound = FailNotFound"
| "failure_of _ = FailProtocol"

fun is_maintenance :: "app_error \<Rightarrow> bool" where
  "is_maintenance (Maintenance _) = True"
| "is_maintenance _ = False"

fun failure_error :: "failure \<Rightarrow> bool \<Rightarrow> app_error" where
  \<comment> \<open>src/node\_routing.rs: the caller's reading of a failure and the reply's maintenance flag\<close>
  "failure_error FailIdentityMismatch m = PeerIdentityMismatch"
| "failure_error FailUnsupportedOperation m = UnsupportedRegionOperation"
| "failure_error FailUnavailableBeforeDispatch m = PeerAccountUnavailable"
| "failure_error FailAccountUnavailable m = AccountUnavailable"
| "failure_error FailTimeout m = Timeout"
| "failure_error FailTransport m = Transport"
| "failure_error FailProtocol m = Protocol"
| "failure_error (FailGame s) m = (if m then Maintenance s else Grpc s)"
| "failure_error FailNotFound m = NotFound"

subsection \<open>The executor's handler\<close>

definition peer_query ::
  "(string \<Rightarrow> bool) \<Rightarrow> (app_error + peer_identity) \<Rightarrow> (string \<Rightarrow> json \<Rightarrow> string \<Rightarrow> app_error + json)
   \<Rightarrow> observation \<Rightarrow> peer_request \<Rightarrow> (app_error + reply) \<times> (string \<times> json) list" where
  \<comment> \<open>the answer (an \<open>Err\<close> is an HTTP error) and the game calls made; \<open>own\<close> is
     \<open>client.peer_identity()\<close> and \<open>obs\<close> the shared observation read after the call\<close>
  "peer_query uuid_ok own call_peer obs req =
     (if \<not> uuid_ok (rq_request_id req) \<or> length (rq_request_id req) \<noteq> 36 then (Err InvalidRequest, [])
      else case operation_rpc (rq_operation req) of
        Inl e \<Rightarrow> (Err e, [])
      | Inr (route, input) \<Rightarrow>
          (case own of
             Inl e \<Rightarrow> (Err e, [])
           | Inr identity \<Rightarrow>
               let answer = (\<lambda>out obs'. Ok \<lparr>re_request_id = rq_request_id req,
                     re_identity = rq_identity req, re_outcome = out, re_observation = obs'\<rparr>)
               in if identity \<noteq> rq_identity req
                  then (answer (OutFailure FailIdentityMismatch) obs, [])
                  else (case call_peer route input (pi_protocol_sha256 (rq_identity req)) of
                          Inr data \<Rightarrow>
                            (answer (OutSuccess (strip_account_fields route data)) obs, [(route, input)])
                        | Inl e \<Rightarrow>
                            (answer (OutFailure (failure_of e)) (obs\<lparr>ob_maintenance := is_maintenance e\<rparr>),
                             [(route, input)]))))"

subsection \<open>The caller's transport\<close>

datatype pt_error = PtConfig | PtNotSent | PtConnect | PtTimeout | PtTransport | PtStatus nat | PtProtocol

record pt_policy =
  pt_connect_timeout_ms :: nat
  pt_request_timeout_ms :: nat
  pt_max_response_bytes :: nat

definition pt_policy_default :: pt_policy where
  "pt_policy_default = \<lparr>pt_connect_timeout_ms = 5000, pt_request_timeout_ms = 20000,
     pt_max_response_bytes = 16 * 1024 * 1024\<rparr>"

definition pt_policy_validate :: "pt_policy \<Rightarrow> pt_error + unit" where
  "pt_policy_validate p =
     (if \<not> (100 \<le> pt_connect_timeout_ms p \<and> pt_connect_timeout_ms p \<le> 300000)
         \<or> \<not> (100 \<le> pt_request_timeout_ms p \<and> pt_request_timeout_ms p \<le> 300000)
         \<or> pt_request_timeout_ms p < pt_connect_timeout_ms p
         \<or> \<not> (1024 \<le> pt_max_response_bytes p \<and> pt_max_response_bytes p \<le> 128 * 1024 * 1024)
      then Err PtConfig else Ok ())"

definition PRE_DISPATCH_STATUSES :: "nat list" where
  "PRE_DISPATCH_STATUSES = [400, 401, 404, 405, 413, 415, 422]"

fun definitely_not_sent :: "pt_error \<Rightarrow> bool" where
  "definitely_not_sent PtConfig = True"
| "definitely_not_sent PtNotSent = True"
| "definitely_not_sent PtConnect = True"
| "definitely_not_sent _ = False"

fun rejected_before_dispatch :: "pt_error \<Rightarrow> bool" where
  "rejected_before_dispatch (PtStatus s) = (s \<in> set PRE_DISPATCH_STATUSES)"
| "rejected_before_dispatch _ = False"

definition validate_identity :: "(string \<Rightarrow> bool) \<Rightarrow> peer_identity \<Rightarrow> pt_error + unit" where
  "validate_identity semver_ok i =
     (if pi_contract_version i \<noteq> 1 \<or> pi_region i = Cn
         \<or> pi_environment i = [] \<or> 256 < length (pi_environment i)
         \<or> \<not> list_all (\<lambda>b. ascii_alphanumeric b \<or> b = CHR ''-'') (pi_environment i)
         \<or> \<not> semver_ok (pi_client_version i)
         \<or> length (pi_protocol_sha256 i) \<noteq> 64
         \<or> \<not> list_all lower_hexdigit (pi_protocol_sha256 i)
      then Err PtConfig else Ok ())"

text \<open>What the HTTP library reports for one POST: a failure to send, or a response whose body
  arrives in chunks, any of which may fail to arrive.\<close>

datatype send_error = ConnectError | TimeoutError | OtherError

record http_answer =
  ha_status :: nat
  ha_headers :: "(string \<times> string) list"
  ha_content_length :: "nat option"
  ha_chunks :: "(send_error + string) list"

fun transport_error :: "send_error \<Rightarrow> pt_error" where
  "transport_error ConnectError = PtConnect"
| "transport_error TimeoutError = PtTimeout"
| "transport_error OtherError = PtTransport"

definition ascii_lowercase :: "char \<Rightarrow> char" where
  "ascii_lowercase c = (if ascii_upper c then char_of (byte c + 32) else c)"

definition trim_blanks :: "string \<Rightarrow> string" where
  \<comment> \<open>\<open>trim\<close> of a header text, whose only white space is space and tab\<close>
  "trim_blanks s =
     (let blank = (\<lambda>c. c = CHR '' '' \<or> byte c = 9)
      in rev (dropWhile blank (rev (dropWhile blank s))))"

definition json_mime :: "string \<Rightarrow> bool" where
  "json_mime v \<longleftrightarrow>
     map ascii_lowercase (trim_blanks (takeWhile (\<lambda>c. c \<noteq> CHR '';'') v)) = ''application/json''"

fun read_chunks :: "nat \<Rightarrow> string \<Rightarrow> (send_error + string) list \<Rightarrow> pt_error + string" where
  "read_chunks max_bytes bytes [] = Ok bytes"
| "read_chunks max_bytes bytes (Inl e # cs) = Err (transport_error e)"
| "read_chunks max_bytes bytes (Inr chunk # cs) =
     (if max_bytes - length bytes < length chunk then Err PtProtocol
      else read_chunks max_bytes (bytes @ chunk) cs)"

record peer_lib =
  pl_uuid_canonical :: "string \<Rightarrow> bool" \<comment> \<open>parses, and prints back as itself\<close>
  pl_semver_ok :: "string \<Rightarrow> bool"
  pl_to_str :: "string \<Rightarrow> string option"
  pl_parse_reply :: "string \<Rightarrow> reply option"
  pl_request_bytes :: "peer_request \<Rightarrow> string option"

definition check_reply :: "peer_request \<Rightarrow> reply \<Rightarrow> pt_error + reply" where
  "check_reply req r =
     (if re_request_id r \<noteq> rq_request_id req \<or> re_identity r \<noteq> rq_identity req then Err PtProtocol
      else case re_outcome r of
             OutSuccess data \<Rightarrow> if \<not> is_object data then Err PtProtocol else Ok r
           | OutFailure (FailGame s) \<Rightarrow> if \<not> (1 \<le> s \<and> s \<le> 16) then Err PtProtocol else Ok r
           | OutFailure _ \<Rightarrow> Ok r)"

definition peer_send :: "peer_lib \<Rightarrow> pt_policy \<Rightarrow> peer_request \<Rightarrow> send_error + http_answer \<Rightarrow> pt_error + reply" where
  "peer_send P policy req http =
     (case http of
        Inl e \<Rightarrow> Err (transport_error e)
      | Inr a \<Rightarrow>
          if ha_status a \<noteq> 200 then Err (PtStatus (ha_status a))
          else if \<not> (case Option.bind (header_get (ha_headers a) ''content-type'') (pl_to_str P) of
                        None \<Rightarrow> False | Some v \<Rightarrow> json_mime v)
               \<or> (case header_get (ha_headers a) ''content-encoding'' of
                    None \<Rightarrow> False | Some v \<Rightarrow> v \<noteq> ''identity'')
               \<or> (case ha_content_length a of
                    None \<Rightarrow> False | Some n \<Rightarrow> pt_max_response_bytes policy < n)
          then Err PtProtocol
          else
            then_result (read_chunks (pt_max_response_bytes policy) [] (ha_chunks a)) (\<lambda>bytes.
              (case pl_parse_reply P bytes of
                 None \<Rightarrow> Err PtProtocol
               | Some r \<Rightarrow> check_reply req r)))"

definition peer_call ::
  "peer_lib \<Rightarrow> pt_policy \<Rightarrow> region \<Rightarrow> instant \<Rightarrow> instant \<Rightarrow> bool \<Rightarrow> send_error + http_answer
   \<Rightarrow> peer_request \<Rightarrow> pt_error + reply" where
  \<comment> \<open>\<open>timed_out\<close>: the deadline passed while the request was being sent or answered\<close>
  "peer_call P policy region now deadline timed_out http req =
     then_result (validate_identity (pl_semver_ok P) (rq_identity req)) (\<lambda>_.
       (case operation_rpc (rq_operation req) of
          Inl _ \<Rightarrow> Err PtConfig
        | Inr (route, input) \<Rightarrow>
            if pi_region (rq_identity req) \<noteq> region
               \<or> route \<notin> set (for_family (region_family region))
               \<or> \<not> pl_uuid_canonical P (rq_request_id req)
            then Err PtConfig
            else (case pl_request_bytes P req of
                    None \<Rightarrow> Err PtConfig
                  | Some bytes \<Rightarrow>
                      if 16 * 1024 < length bytes then Err PtConfig
                      else if deadline \<le> now then Err PtNotSent
                      else if timed_out then Err PtTimeout
                      else peer_send P policy req http)))"

subsection \<open>Properties\<close>

lemma id_input_Ok:
  "id_input route name v others = Ok (r, input) \<longleftrightarrow>
     0 < v \<and> r = route \<and> input = JObj ((name, JStr (decimal (nat v))) # others)"
  by (auto simp: id_input_def id_text_def)

lemma operation_route:
  assumes "operation_rpc op = Ok (route, input)"
  shows "route \<in> {VERSION, SERVER_LIST, ANNOUNCEMENTS, ANNOUNCEMENT, PROFILE, EVENT_RANKING, EVENT_DECK,
     MUSIC_RANKING, CHALLENGE_RANKING}" "is_object input"
  using assms by (cases op; auto simp: id_input_Ok split: if_splits)+

lemma read_chunks_bound:
  "read_chunks m bytes cs = Ok out \<Longrightarrow> length bytes \<le> m \<Longrightarrow>
   length out \<le> m \<and> out = bytes @ concat (map (\<lambda>c. case c of Inl _ \<Rightarrow> [] | Inr x \<Rightarrow> x) cs)"
proof (induction m bytes cs rule: read_chunks.induct)
  case (3 m bytes chunk cs)
  then have fit: "\<not> m - length bytes < length chunk" by (auto split: if_splits)
  with 3(3) have "length (bytes @ chunk) \<le> m" by simp
  from 3(1) [OF fit _ this] 3(2) fit show ?case by fastforce
qed auto

lemma check_reply_Ok:
  assumes "check_reply req r = Ok r'"
  shows "r' = r" "re_request_id r = rq_request_id req" "re_identity r = rq_identity req"
    "re_outcome r = OutSuccess data \<Longrightarrow> is_object data"
    "re_outcome r = OutFailure (FailGame s) \<Longrightarrow> 1 \<le> s \<and> s \<le> 16"
  using assms by (auto simp: check_reply_def split: if_splits outcome.splits failure.splits)

text \<open>The peer route runs typed public reads only: whatever a peer asks, the game call made for it
  is never the login nor a read of the account's own data, at most one call is made, and an HTTP
  error is answered only when none was made; every answer to a call made carries the request's ID
  and identity.\<close>

theorem peer_query_dispatch:
  assumes "peer_query uuid_ok own call_peer obs req = (answer, calls)"
  shows "length calls \<le> 1 \<and>
    (\<forall>(route, input) \<in> set calls. route \<notin> {PLAYER_LOGIN, WHOAMI, PLAYER_DATA} \<and> is_object input \<and>
       own = Ok (rq_identity req)) \<and>
    (\<forall>e. answer = Err e \<longrightarrow> calls = []) \<and>
    (\<forall>r. answer = Ok r \<longrightarrow> re_request_id r = rq_request_id req \<and> re_identity r = rq_identity req \<and>
       (calls = [] \<longrightarrow> re_outcome r = OutFailure FailIdentityMismatch))"
proof (cases "operation_rpc (rq_operation req)")
  case (Inr ri)
  obtain route input where ri: "ri = (route, input)" by (cases ri)
  from operation_route [OF Inr [unfolded ri]] routes_distinct
  have "route \<notin> {PLAYER_LOGIN, WHOAMI, PLAYER_DATA}" "is_object input" by auto
  with assms Inr ri show ?thesis
    by (auto simp: peer_query_def Let_def split: if_splits sum.splits)
next
  case (Inl e)
  with assms show ?thesis by (auto simp: peer_query_def split: if_splits)
qed

definition example_identity :: peer_identity where
  "example_identity = \<lparr>pi_contract_version = 1, pi_region = Jp, pi_environment = ''prod'',
     pi_platform = Ios, pi_client_version = ''1.0.3'', pi_protocol_sha256 = replicate 64 CHR ''a''\<rparr>"

definition example_request :: peer_request where
  "example_request = \<lparr>rq_request_id = replicate 36 CHR ''1'', rq_identity = example_identity,
     rq_operation = OpMusicRanking 7\<rparr>"

theorem peer_query_dispatch_witness:
  "snd (peer_query (\<lambda>_. True) (Ok example_identity)
     (\<lambda>_ _ _. Ok (JObj [(''myRank'', JInt 1), (''rows'', JArr [])])) observation_default example_request) =
     [(MUSIC_RANKING, JObj [(''musicId'', JStr ''7'')])] \<and>
   MUSIC_RANKING \<notin> {PLAYER_LOGIN, WHOAMI, PLAYER_DATA}"
proof -
  let ?q = "peer_query (\<lambda>_. True) (Ok example_identity)
     (\<lambda>_ _ _. Ok (JObj [(''myRank'', JInt 1), (''rows'', JArr [])])) observation_default example_request"
  have "snd ?q = [(MUSIC_RANKING, JObj [(''musicId'', JStr ''7'')])]"
    by (simp add: peer_query_def example_request_def id_input_def id_text_def decimal.simps Let_def
        char_of_def bit_0)
  moreover have "?q = (fst ?q, snd ?q)" by simp
  ultimately show ?thesis using peer_query_dispatch [where req = example_request, of "\<lambda>_. True"] by fastforce
qed

text \<open>A failure survives the hop between nodes: the caller's error is read back as the same
  failure (so a further hop would report it alike), and for every error a game call can end in the
  caller gets exactly that error, the maintenance flag included.\<close>

theorem failures_survive_the_hop:
  "failure_of (failure_error f m) = f \<and>
   (e \<in> {UnsupportedRegionOperation, PeerAccountUnavailable, AccountUnavailable, Timeout, Transport,
          Protocol, PeerIdentityMismatch, NotFound, Grpc s, Maintenance s} \<longrightarrow>
      failure_error (failure_of e) (is_maintenance e) = e)"
  by (cases f) auto

theorem failures_survive_the_hop_witness:
  "failure_error (failure_of (Maintenance 14)) (is_maintenance (Maintenance 14)) = Maintenance 14"
  using failures_survive_the_hop [of FailProtocol False "Maintenance 14" 14] by simp

text \<open>A reply the transport accepts is bounded and bound to its request: at most the configured
  number of bytes were read, request ID and identity are the ones sent, a success carries an object
  and a game failure a real gRPC error status; and nothing is accepted from a call that was refused
  before transmission.\<close>

theorem accepted_replies_are_bound_to_requests:
  assumes "peer_call P policy region now deadline timed_out http req = Ok r"
  shows "\<exists>a bytes. http = Ok a \<and> ha_status a = 200 \<and> now < deadline \<and> \<not> timed_out \<and>
    read_chunks (pt_max_response_bytes policy) [] (ha_chunks a) = Ok bytes \<and>
    length bytes \<le> pt_max_response_bytes policy \<and> pl_parse_reply P bytes = Some r \<and>
    re_request_id r = rq_request_id req \<and> re_identity r = rq_identity req \<and>
    pi_region (re_identity r) = region \<and>
    (case re_outcome r of OutSuccess data \<Rightarrow> is_object data
     | OutFailure k \<Rightarrow> (\<forall>s. k = FailGame s \<longrightarrow> 1 \<le> s \<and> s \<le> 16))"
proof -
  have send: "peer_send P policy req http = Ok r" and time: "now < deadline" "\<not> timed_out"
    and region: "pi_region (rq_identity req) = region"
    using assms by (auto simp: peer_call_def then_result_Ok_iff not_le split: sum.splits option.splits if_splits)
  obtain a where a: "http = Ok a" using send by (cases http) (auto simp: peer_send_def)
  obtain bytes r0 where st: "ha_status a = 200"
    and rd: "read_chunks (pt_max_response_bytes policy) [] (ha_chunks a) = Ok bytes"
    and pr: "pl_parse_reply P bytes = Some r0" and ck: "check_reply req r0 = Ok r"
    using send by (auto simp: peer_send_def a then_result_Ok_iff split: if_splits option.splits)
  have len: "length bytes \<le> pt_max_response_bytes policy" using read_chunks_bound [OF rd] by (metis le0 list.size(3))
  note c = check_reply_Ok [OF ck]
  show ?thesis
    using a st rd pr len time region c(1-3) c(4) c(5) by (cases "re_outcome r0") auto
qed

definition example_lib_peer :: "reply \<Rightarrow> peer_lib" where
  "example_lib_peer r = \<lparr>pl_uuid_canonical = (\<lambda>_. True), pl_semver_ok = (\<lambda>_. True), pl_to_str = Some,
     pl_parse_reply = (\<lambda>_. Some r), pl_request_bytes = (\<lambda>_. Some ''{}'')\<rparr>"

definition example_reply :: reply where
  "example_reply = \<lparr>re_request_id = replicate 36 CHR ''1'', re_identity = example_identity,
     re_outcome = OutSuccess (JObj []), re_observation = observation_default\<rparr>"

theorem accepted_replies_are_bound_to_requests_witness:
  "peer_call (example_lib_peer example_reply) pt_policy_default Jp 1 5 False
     (Ok \<lparr>ha_status = 200, ha_headers = [(''content-type'', ''Application/JSON; charset=utf-8'')],
          ha_content_length = None, ha_chunks = [Ok ''{'', Ok ''}'']\<rparr>) example_request = Ok example_reply \<and>
   re_request_id example_reply = rq_request_id example_request"
proof -
  let ?a = "\<lparr>ha_status = 200, ha_headers = [(''content-type'', ''Application/JSON; charset=utf-8'')],
          ha_content_length = None, ha_chunks = [Ok ''{'', Ok ''}'']\<rparr>"
  have mime: "json_mime ''Application/JSON; charset=utf-8''"
    by (simp add: json_mime_def trim_blanks_def ascii_lowercase_def byte_defs char_of_def bit_0)
  have route: "MUSIC_RANKING \<in> set (for_family (region_family Jp))"
    by (simp add: for_family_def ROUTES_def)
  have send: "peer_send (example_lib_peer example_reply) pt_policy_default example_request (Ok ?a) = Ok example_reply"
    by (simp add: peer_send_def header_get_def example_lib_peer_def mime pt_policy_default_def
        check_reply_def example_reply_def example_request_def)
  have ident: "validate_identity (\<lambda>_. True) example_identity = Ok ()"
    by (simp add: validate_identity_def example_identity_def byte_defs list_all_iff)
  have "peer_call (example_lib_peer example_reply) pt_policy_default Jp 1 5 False (Ok ?a) example_request = Ok example_reply"
    using send route ident
    by (simp add: peer_call_def example_request_def example_lib_peer_def id_input_def id_text_def)
       (simp add: example_identity_def)
  with accepted_replies_are_bound_to_requests [OF this] show ?thesis by blast
qed

end
