(* ===== verification/Global_Sdk.thy ===== *)
theory Global_Sdk
  imports Sdk_Session Peer
begin

section \<open>The Global SDK client (src/global_sdk.rs)\<close>

text \<open>
  The requests that create and revalidate a guest identity: device parameters, the signature, form
  encoding, and the interpretation of the answers. Library functions are arguments: the MD5 digest
  in lower-case hexadecimal, header parsing, semantic versions and the derived JSON parser. Names
  of parameters are ASCII, so the UTF-16 order of the source is the order of their bytes.
\<close>

datatype sdk_error = SdkConfig | SdkCaptcha | SdkRefused int | SdkIdentity | SdkTransport | SdkProtocol

definition CAPTCHA_CODE :: int where
  "CAPTCHA_CODE = 200007"

definition MAX_RESPONSE_BYTES :: nat where
  "MAX_RESPONSE_BYTES = 1024 * 1024"

fun sdk_error_code :: "sdk_error \<Rightarrow> string" where
  "sdk_error_code SdkConfig = ''SDK_CONFIG''"
| "sdk_error_code SdkCaptcha = ''SDK_CAPTCHA''"
| "sdk_error_code (SdkRefused _) = ''SDK_REFUSED''"
| "sdk_error_code SdkIdentity = ''SDK_IDENTITY''"
| "sdk_error_code SdkTransport = ''SDK_TRANSPORT''"
| "sdk_error_code SdkProtocol = ''SDK_PROTOCOL''"

fun sdk_code :: "sdk_error \<Rightarrow> int option" where
  "sdk_code (SdkRefused code) = Some code"
| "sdk_code _ = None"

fun sdk_transient :: "sdk_error \<Rightarrow> bool" where
  "sdk_transient SdkTransport = True"
| "sdk_transient SdkProtocol = True"
| "sdk_transient _ = False"

record device =
  dv_udid :: string
  dv_model :: string
  dv_pf_ver :: string
  dv_dp :: string
  dv_net :: string
  dv_operators :: string
  dv_adid :: string
  dv_lang :: string
  dv_time_zone :: string
  dv_is_root :: string
  dv_unity_device_model :: string
  dv_unity_operating_system :: string
  dv_unity_device_id :: string

definition plain :: "string \<Rightarrow> nat \<Rightarrow> bool" where
  "plain v max_bytes \<longleftrightarrow> length v \<le> max_bytes \<and> \<not> has_control v"

definition device_required :: "device \<Rightarrow> string list" where
  "device_required d =
     [dv_udid d, dv_model d, dv_pf_ver d, dv_dp d, dv_net d, dv_operators d, dv_lang d, dv_time_zone d,
      dv_is_root d, dv_unity_device_model d, dv_unity_operating_system d, dv_unity_device_id d]"

definition device_validate :: "device \<Rightarrow> string + unit" where
  "device_validate d =
     (if list_ex (\<lambda>v. blank v \<or> \<not> plain v 256) (device_required d) \<or> \<not> plain (dv_adid d) 256
      then Err ''device fields must be nonblank, at most 256 characters and without control characters''
      else Ok ())"

type_synonym parameters = "(string \<times> string) list"

definition device_parameters :: "device \<Rightarrow> parameters" where
  "device_parameters d =
     [(''udid'', dv_udid d), (''model'', dv_model d), (''pf_ver'', dv_pf_ver d), (''dp'', dv_dp d),
      (''net'', dv_net d), (''operators'', dv_operators d), (''adid'', dv_adid d), (''lang'', dv_lang d),
      (''time_zone'', dv_time_zone d), (''isRoot'', dv_is_root d)]"

subsection \<open>Signature and encoding\<close>

definition sign :: "(string \<Rightarrow> string) \<Rightarrow> parameters \<Rightarrow> string \<Rightarrow> string" where
  "sign md5_hex ps app_key =
     md5_hex (concat (map snd (filter (\<lambda>p. map ascii_lowercase (fst p) \<notin> {''item_name'', ''item_desc''})
                                  (sort_key fst ps))) @ app_key)"

definition hex_upper :: "nat \<Rightarrow> char" where
  "hex_upper n = char_of (if n < 10 then 48 + n else 55 + n)"

definition unreserved :: "char \<Rightarrow> bool" where
  "unreserved c \<longleftrightarrow> ascii_alphanumeric c \<or> c \<in> set ''_.-~''"

definition push_byte :: "char \<Rightarrow> string" where
  "push_byte c =
     (if c = CHR '' '' then ''+''
      else if unreserved c then [c]
      else [CHR ''%'', hex_upper (byte c div 16), hex_upper (byte c mod 16)])"

definition push_text :: "string \<Rightarrow> string" where
  "push_text v = concat (map push_byte v)"

fun form_encode :: "parameters \<Rightarrow> string" where
  "form_encode [] = []"
| "form_encode [(n, v)] = push_text n @ ''='' @ push_text v"
| "form_encode ((n, v) # p # ps) = push_text n @ ''='' @ push_text v @ ''&'' @ form_encode (p # ps)"

definition LEADING_PARAMETERS :: parameters where
  "LEADING_PARAMETERS = [(''game_id'', ''17703''), (''server_id'', ''16841''), (''merchant_id'', ''1045'')]"

definition FIXED_PARAMETERS :: parameters where
  "FIXED_PARAMETERS =
     [(''sdk_ver'', ''4.2.12''), (''channel_id'', ''100''), (''platform'', ''google''), (''platform_type'', ''3''),
      (''sdk_log_type'', ''1''), (''ad_ext'', ''''), (''web_code'', ''6'')]"

definition cached_parameters :: "sdk_account option \<Rightarrow> parameters" where
  "cached_parameters cached_account =
     (case cached_account of
        None \<Rightarrow> []
      | Some a \<Rightarrow> [(''access_key'', sa_access_key a), (''uid'', sa_uid a)]
                  @ (case sa_mid a of None \<Rightarrow> [] | Some m \<Rightarrow> [(''mid'', m)]))"

definition unsigned_parameters :: "device \<Rightarrow> string \<Rightarrow> nat \<Rightarrow> sdk_account option \<Rightarrow> parameters" where
  "unsigned_parameters d app_ver timestamp_ms cached_account =
     LEADING_PARAMETERS @ [(''app_ver'', app_ver)] @ FIXED_PARAMETERS @ device_parameters d
     @ [(''timestamp'', decimal timestamp_ms)] @ cached_parameters cached_account"

definition prepare ::
  "(string \<Rightarrow> string) \<Rightarrow> device \<Rightarrow> string \<Rightarrow> string \<Rightarrow> nat \<Rightarrow> sdk_account option \<Rightarrow> parameters" where
  "prepare md5_hex d app_ver app_key timestamp_ms cached_account =
     (let ps = unsigned_parameters d app_ver timestamp_ms cached_account
      in ps @ [(''sign'', sign md5_hex ps app_key)])"

subsection \<open>Answers\<close>

definition int_text :: "int \<Rightarrow> string" where
  "int_text i = (if i < 0 then ''-'' @ decimal (nat (- i)) else decimal (nat i))"

definition identity_text :: "json option \<Rightarrow> string option" where
  "identity_text v =
     (case v of
        Some (JStr s) \<Rightarrow> if s \<noteq> [] then Some s else None
      | Some (JInt i) \<Rightarrow> if - (2 ^ 63) \<le> i \<and> i \<le> int u64_max then Some (int_text i) else None
      | _ \<Rightarrow> None)"

definition nonempty :: "string option \<Rightarrow> string option" where
  "nonempty v = (case v of Some [] \<Rightarrow> None | _ \<Rightarrow> v)"

definition account_of ::
  "sdk_account option \<Rightarrow> string \<Rightarrow> string option \<Rightarrow> string option \<Rightarrow> string option \<Rightarrow> sdk_error + sdk_account" where
  \<comment> \<open>the \<open>match previous\<close> of \<open>interpret\<close>\<close>
  "account_of previous uid id_token mid access_key =
     (case previous of
        Some p \<Rightarrow>
          if uid \<noteq> sa_uid p then Err SdkIdentity
          else Ok \<lparr>sa_uid = uid, sa_access_key = sa_access_key p,
                   sa_id_token = (case id_token of None \<Rightarrow> sa_id_token p | Some t \<Rightarrow> t),
                   sa_mid = (case mid of None \<Rightarrow> sa_mid p | Some m \<Rightarrow> Some m)\<rparr>
      | None \<Rightarrow>
          (case access_key of
             None \<Rightarrow> Err SdkIdentity
           | Some k \<Rightarrow> Ok \<lparr>sa_uid = uid, sa_access_key = k,
                            sa_id_token = (case id_token of None \<Rightarrow> [] | Some t \<Rightarrow> t), sa_mid = mid\<rparr>))"

definition interpret_answer :: "sdk_lib \<Rightarrow> json \<Rightarrow> sdk_account option \<Rightarrow> sdk_error + sdk_account" where
  "interpret_answer L body previous =
     (case Option.bind (json_get body ''code'') as_i64 of
        None \<Rightarrow> Err SdkProtocol
      | Some code \<Rightarrow>
          if code = CAPTCHA_CODE then Err SdkCaptcha
          else if code \<noteq> 0 then Err (SdkRefused code)
          else (case json_get body ''data'' of
            None \<Rightarrow> Err SdkIdentity
          | Some data \<Rightarrow>
              if \<not> is_object data then Err SdkIdentity
              else (case identity_text (json_get data ''uid'') of
                None \<Rightarrow> Err SdkIdentity
              | Some uid \<Rightarrow>
                  then_result
                    (account_of previous uid
                       (nonempty (Option.bind (json_get data ''id_token'') as_str))
                       (identity_text (json_get data ''mid''))
                       (Option.bind (json_get data ''access_key'') as_str)) (\<lambda>a.
                    if \<not> header_safe L (sa_uid a) \<or> \<not> header_safe L (sa_access_key a)
                       \<or> \<not> (sa_id_token a = [] \<or> header_safe L (sa_id_token a))
                    then Err SdkIdentity else Ok a))))"

fun sdk_read_body :: "string \<Rightarrow> (send_error + string) list \<Rightarrow> sdk_error + string" where
  "sdk_read_body bytes [] = Ok bytes"
| "sdk_read_body bytes (Inl _ # cs) = Err SdkTransport"
| "sdk_read_body bytes (Inr chunk # cs) =
     (if MAX_RESPONSE_BYTES < length bytes + length chunk then Err SdkProtocol
      else sdk_read_body (bytes @ chunk) cs)"

definition sdk_post :: "sdk_lib \<Rightarrow> send_error + http_answer \<Rightarrow> sdk_error + json" where
  "sdk_post L http =
     (case http of
        Inl _ \<Rightarrow> Err SdkTransport
      | Inr a \<Rightarrow>
          if ha_status a \<noteq> 200 \<or> (case ha_content_length a of None \<Rightarrow> False | Some n \<Rightarrow> MAX_RESPONSE_BYTES < n)
          then Err SdkProtocol
          else then_result (sdk_read_body [] (ha_chunks a)) (\<lambda>bytes.
            (case json_parse L bytes of
               None \<Rightarrow> Err SdkProtocol
             | Some v \<Rightarrow> if is_object v then Ok v else Err SdkProtocol)))"

text \<open>A request is what the client sends: the path and the encoded form. The answer of the server may
  depend on it.\<close>

type_synonym sdk_server = "string \<Rightarrow> string \<Rightarrow> send_error + http_answer"

record sdk_client =
  cl_app_key :: string
  cl_app_ver :: string
  cl_md5_hex :: "string \<Rightarrow> string"

definition TOURIST_LOGIN :: string where "TOURIST_LOGIN = ''/gapi/client/tourist.login''"
definition CACHE_LOGIN :: string where "CACHE_LOGIN = ''/gapi/client/cache.login''"

definition sdk_client_new ::
  "(string \<Rightarrow> string) \<Rightarrow> (string \<Rightarrow> bool) \<Rightarrow> string \<Rightarrow> string \<Rightarrow> string \<Rightarrow> sdk_error + sdk_client" where
  "sdk_client_new md5_hex semver_ok origin app_key app_ver =
     (if \<not> origin_allowed origin \<or> blank app_key \<or> \<not> semver_ok app_ver then Err SdkConfig
      else Ok \<lparr>cl_app_key = app_key, cl_app_ver = app_ver, cl_md5_hex = md5_hex\<rparr>)"

definition sdk_request :: "sdk_client \<Rightarrow> device \<Rightarrow> nat \<Rightarrow> sdk_account option \<Rightarrow> string" where
  "sdk_request C d now_ms cached_account =
     form_encode (prepare (cl_md5_hex C) d (cl_app_ver C) (cl_app_key C) now_ms cached_account)"

definition sdk_login ::
  "sdk_lib \<Rightarrow> sdk_client \<Rightarrow> sdk_server \<Rightarrow> device \<Rightarrow> nat \<Rightarrow> sdk_account option \<Rightarrow> sdk_error + sdk_account" where
  \<comment> \<open>\<open>tourist_login\<close> (no account) and \<open>cache_login\<close>\<close>
  "sdk_login L C server d now_ms cached_account =
     (case device_validate d of
        Inl _ \<Rightarrow> Err SdkConfig
      | Inr _ \<Rightarrow>
          then_result
            (sdk_post L (server (if cached_account = None then TOURIST_LOGIN else CACHE_LOGIN)
                           (sdk_request C d now_ms cached_account))) (\<lambda>body.
            interpret_answer L body cached_account))"

subsection \<open>Reading a form back\<close>

text \<open>The receiving side of \<open>application/x-www-form-urlencoded\<close>, as the reference for the encoder.\<close>

definition hex_value :: "char \<Rightarrow> nat" where
  "hex_value c = (if byte c \<le> 57 then byte c - 48 else byte c - 55)"

fun unquote :: "string \<Rightarrow> string" where
  "unquote [] = []"
| "unquote (c # s) =
     (if c = CHR ''+'' then CHR '' '' # unquote s
      else if c = CHR ''%'' then
        (case s of a # b # r \<Rightarrow> char_of (16 * hex_value a + hex_value b) # unquote r | _ \<Rightarrow> c # s)
      else c # unquote s)"

fun split_on :: "char \<Rightarrow> string \<Rightarrow> string list" where
  "split_on d [] = [[]]"
| "split_on d (c # s) = (if c = d then [] # split_on d s else (c # hd (split_on d s)) # tl (split_on d s))"

definition form_pair :: "string \<Rightarrow> string \<times> string" where
  "form_pair p = (unquote (takeWhile (\<lambda>c. c \<noteq> CHR ''='') p), unquote (tl (dropWhile (\<lambda>c. c \<noteq> CHR ''='') p)))"

definition form_decode :: "string \<Rightarrow> parameters" where
  "form_decode s = (if s = [] then [] else map form_pair (split_on (CHR ''&'') s))"

lemma byte_of_char_of: "n < 256 \<Longrightarrow> byte (char_of n) = n"
  by (simp add: byte_def)

lemma hex_value_upper: "n < 16 \<Longrightarrow> hex_value (hex_upper n) = n"
  by (simp add: hex_value_def hex_upper_def byte_of_char_of)

lemma byte_less: "byte c < 256"
  by (simp add: byte_def)

lemma char_of_byte: "char_of (byte c) = c"
  by (simp add: byte_def)

lemma unquote_push_byte: "unquote (push_byte c @ s) = c # unquote s"
proof -
  have "c \<noteq> CHR ''+'' \<and> c \<noteq> CHR ''%''" if "unreserved c"
    using that by (auto simp: unreserved_def byte_defs)
  moreover have "hex_value (hex_upper (byte c div 16)) = byte c div 16" "hex_value (hex_upper (byte c mod 16)) = byte c mod 16"
    using byte_less [of c] by (auto intro!: hex_value_upper)
  ultimately show ?thesis by (auto simp: push_byte_def char_of_byte)
qed

lemma unquote_push_text: "unquote (push_text v) = v"
proof -
  have "unquote (push_text v @ s) = v @ unquote s" for s
    by (induction v) (simp_all add: push_text_def unquote_push_byte)
  from this [of "[]"] show ?thesis by simp
qed

lemma hex_upper_plain: "n < 16 \<Longrightarrow> hex_upper n \<noteq> CHR ''='' \<and> hex_upper n \<noteq> CHR ''&''"
proof -
  assume "n < 16"
  then have "byte (hex_upper n) = (if n < 10 then 48 + n else 55 + n)" by (simp add: hex_upper_def byte_of_char_of)
  moreover have "byte (CHR ''='') = 61" "byte (CHR ''&'') = 38" by (simp_all add: byte_def)
  ultimately show ?thesis using \<open>n < 16\<close> by (auto split: if_splits)
qed

lemma push_text_plain: "CHR ''='' \<notin> set (push_text v)" "CHR ''&'' \<notin> set (push_text v)"
proof -
  have u: "c \<noteq> CHR ''='' \<and> c \<noteq> CHR ''&''" if "unreserved c" for c
    using that by (auto simp: unreserved_def byte_defs)
  have h: "hex_upper (byte c div 16) \<notin> {CHR ''='', CHR ''&''}" "hex_upper (byte c mod 16) \<notin> {CHR ''='', CHR ''&''}" for c
    using hex_upper_plain [of "byte c div 16"] hex_upper_plain [of "byte c mod 16"] byte_less [of c] by auto
  have "CHR ''='' \<notin> set (push_byte c) \<and> CHR ''&'' \<notin> set (push_byte c)" for c
    using u [of c] h [of c] by (auto simp: push_byte_def)
  then show "CHR ''='' \<notin> set (push_text v)" "CHR ''&'' \<notin> set (push_text v)" by (auto simp: push_text_def)
qed

lemma split_on_plain: "d \<notin> set s \<Longrightarrow> split_on d s = [s]"
  by (induction s) auto

lemma split_on_append: "d \<notin> set s \<Longrightarrow> split_on d (s @ d # r) = s # split_on d r"
  by (induction s) auto

lemma span_until: "d \<notin> set s \<Longrightarrow> takeWhile (\<lambda>c. c \<noteq> d) (s @ d # r) = s"
  "d \<notin> set s \<Longrightarrow> dropWhile (\<lambda>c. c \<noteq> d) (s @ d # r) = d # r"
  by (induction s) auto

lemma form_pair_text: "form_pair (push_text n @ CHR ''='' # push_text v) = (n, v)"
  using span_until [OF push_text_plain(1)] by (simp add: form_pair_def unquote_push_text)

lemma split_form_encode: "ps \<noteq> [] \<Longrightarrow> map form_pair (split_on (CHR ''&'') (form_encode ps)) = ps"
proof (induction ps rule: form_encode.induct)
  case (2 n v)
  have "CHR ''&'' \<notin> set (push_text n @ CHR ''='' # push_text v)" using push_text_plain(2) by simp
  then show ?case by (simp add: split_on_plain form_pair_text)
next
  case (3 n v p ps)
  have "CHR ''&'' \<notin> set (push_text n @ CHR ''='' # push_text v)" using push_text_plain(2) by simp
  from split_on_append [OF this, of "form_encode (p # ps)"] 3 show ?case by (simp add: form_pair_text)
qed simp

lemma form_encode_Nil: "form_encode ps = [] \<longleftrightarrow> ps = []"
  by (cases ps rule: form_encode.cases) simp_all

lemma form_decode_encode: "form_decode (form_encode ps) = ps"
  by (simp add: form_decode_def form_encode_Nil split_form_encode)

subsection \<open>Properties\<close>

definition base_names :: "string list" where
  "base_names =
     [''game_id'', ''server_id'', ''merchant_id'', ''app_ver'', ''sdk_ver'', ''channel_id'', ''platform'', ''platform_type'',
      ''sdk_log_type'', ''ad_ext'', ''web_code'', ''udid'', ''model'', ''pf_ver'', ''dp'', ''net'', ''operators'', ''adid'',
      ''lang'', ''time_zone'', ''isRoot'', ''timestamp'', ''access_key'', ''uid'', ''mid'']"

lemma unsigned_names: "\<exists>n. map fst (unsigned_parameters d app_ver t a) = take n base_names"
proof -
  have names: "map fst (unsigned_parameters d app_ver t a) = take 22 base_names @ map fst (cached_parameters a)"
    by (simp add: unsigned_parameters_def LEADING_PARAMETERS_def FIXED_PARAMETERS_def device_parameters_def
        base_names_def)
  have extra: "map fst (cached_parameters a) = take (length (cached_parameters a)) (drop 22 base_names)"
    by (simp add: cached_parameters_def base_names_def split: option.splits)
  show ?thesis unfolding names extra by (metis take_add)
qed

lemma not_item:
  assumes "length n \<noteq> 9 \<or> ascii_lowercase (hd n) \<noteq> CHR ''i''"
  shows "map ascii_lowercase n \<notin> {''item_name'', ''item_desc''}"
  using assms by (auto simp: map_eq_Cons_conv)

lemma base_names_ok:
  "distinct base_names" "''sign'' \<notin> set base_names"
  "\<forall>n \<in> set base_names. map ascii_lowercase n \<notin> {''item_name'', ''item_desc''}"
proof -
  show "distinct base_names" "''sign'' \<notin> set base_names" by (simp_all add: base_names_def)
  have "list_all (\<lambda>n. length n \<noteq> 9 \<or> ascii_lowercase (hd n) \<noteq> CHR ''i'') base_names"
    by (simp add: base_names_def ascii_lowercase_def byte_defs)
  then show "\<forall>n \<in> set base_names. map ascii_lowercase n \<notin> {''item_name'', ''item_desc''}"
    unfolding list_all_iff by (intro ballI) (rule not_item, erule bspec)
qed

lemma parameter_names:
  "distinct (map fst (unsigned_parameters d app_ver t a))" "''sign'' \<notin> set (map fst (unsigned_parameters d app_ver t a))"
  "\<forall>n \<in> set (map fst (unsigned_parameters d app_ver t a)). map ascii_lowercase n \<notin> {''item_name'', ''item_desc''}"
proof -
  obtain n where n: "map fst (unsigned_parameters d app_ver t a) = take n base_names" using unsigned_names by blast
  show "distinct (map fst (unsigned_parameters d app_ver t a))" unfolding n by (rule distinct_take [OF base_names_ok(1)])
  show "''sign'' \<notin> set (map fst (unsigned_parameters d app_ver t a))"
    unfolding n using base_names_ok(2) by (rule contrapos_nn) (rule in_set_takeD)
  show "\<forall>n \<in> set (map fst (unsigned_parameters d app_ver t a)). map ascii_lowercase n \<notin> {''item_name'', ''item_desc''}"
    unfolding n using base_names_ok(3) by (intro ballI) (erule bspec, erule in_set_takeD)
qed

text \<open>What the server reads from a request are exactly the parameters that were prepared, whatever bytes
  they hold: no two requests are confused by the encoding. Their names are distinct, the signature comes
  last, and it covers the value of every other parameter.\<close>

theorem sdk_request_carries_signed_parameters:
  "\<exists>ps. form_decode (sdk_request C d now_ms a) = ps @ [(''sign'', sign (cl_md5_hex C) ps (cl_app_key C))] \<and>
     distinct (map fst ps) \<and> ''sign'' \<notin> set (map fst ps) \<and>
     sign (cl_md5_hex C) ps (cl_app_key C) =
       cl_md5_hex C (concat (map snd (sort_key fst ps)) @ cl_app_key C) \<and>
     (case a of None \<Rightarrow> True | Some i \<Rightarrow> map_of ps ''uid'' = Some (sa_uid i) \<and>
        map_of ps ''access_key'' = Some (sa_access_key i))"
proof -
  define ps where "ps = unsigned_parameters d (cl_app_ver C) now_ms a"
  have dec: "form_decode (sdk_request C d now_ms a) = prepare (cl_md5_hex C) d (cl_app_ver C) (cl_app_key C) now_ms a"
    by (simp add: sdk_request_def form_decode_encode)
  have p: "prepare (cl_md5_hex C) d (cl_app_ver C) (cl_app_key C) now_ms a =
      ps @ [(''sign'', sign (cl_md5_hex C) ps (cl_app_key C))]"
    by (simp add: ps_def prepare_def Let_def)
  have distinct: "distinct (map fst ps)" and nosign: "''sign'' \<notin> set (map fst ps)"
    and plain: "\<forall>n \<in> set (map fst ps). map ascii_lowercase n \<notin> {''item_name'', ''item_desc''}"
    using parameter_names by (simp_all add: ps_def)
  have "filter (\<lambda>p. map ascii_lowercase (fst p) \<notin> {''item_name'', ''item_desc''}) (sort_key fst ps) = sort_key fst ps"
    unfolding filter_id_conv using plain by auto
  then have "sign (cl_md5_hex C) ps (cl_app_key C) = cl_md5_hex C (concat (map snd (sort_key fst ps)) @ cl_app_key C)"
    by (simp add: sign_def)
  moreover have "case a of None \<Rightarrow> True | Some i \<Rightarrow> map_of ps ''uid'' = Some (sa_uid i) \<and>
      map_of ps ''access_key'' = Some (sa_access_key i)"
    by (simp add: ps_def unsigned_parameters_def cached_parameters_def LEADING_PARAMETERS_def
        FIXED_PARAMETERS_def device_parameters_def split: option.splits)
  ultimately show ?thesis using dec p distinct nosign by auto
qed

text \<open>Revalidating an identity never changes it: an accepted \<open>cache.login\<close> answers for the same uid, keeps
  the access key, and everything that will be sent as a header is safe to send; the server answered the
  request with code 0.\<close>

theorem revalidation_keeps_identity:
  assumes "sdk_login L C server d now_ms (Some a) = Ok a'"
  shows "sa_uid a' = sa_uid a \<and> sa_access_key a' = sa_access_key a \<and>
    header_safe L (sa_uid a') \<and> header_safe L (sa_access_key a') \<and>
    (sa_id_token a' = [] \<or> header_safe L (sa_id_token a')) \<and>
    (\<exists>body. sdk_post L (server CACHE_LOGIN (sdk_request C d now_ms (Some a))) = Ok body \<and>
       json_get body ''code'' = Some (JInt 0))"
proof -
  from assms obtain body where post: "sdk_post L (server CACHE_LOGIN (sdk_request C d now_ms (Some a))) = Ok body"
    and i: "interpret_answer L body (Some a) = Ok a'"
    by (auto simp: sdk_login_def then_result_Ok_iff split: sum.splits)
  have "json_get body ''code'' = Some (JInt 0)"
    using i by (auto simp: interpret_answer_def split: option.splits if_splits Option.bind_splits elim!: as_i64.elims)
  with post i show ?thesis
    by (auto simp: interpret_answer_def account_of_def then_result_Ok_iff split: option.splits if_splits)
qed

definition sample_device :: device where
  "sample_device = \<lparr>dv_udid = ''d'', dv_model = ''m'', dv_pf_ver = ''13'', dv_dp = ''1x1'', dv_net = ''4'', dv_operators = ''5'',
     dv_adid = [], dv_lang = ''en'', dv_time_zone = ''UTC'', dv_is_root = ''0'', dv_unity_device_model = ''m'',
     dv_unity_operating_system = ''os'', dv_unity_device_id = ''id''\<rparr>"

definition sample_sdk :: sdk_lib where
  "sample_sdk = \<lparr>decode_base64 = (\<lambda>_. None),
     json_parse = (\<lambda>_. Some (JObj [(''code'', JInt 0), (''data'', JObj [(''uid'', JInt 42)])])),
     header_ok = (\<lambda>_. True), serialize = (\<lambda>_. []), deserialize = (\<lambda>_. None)\<rparr>"

definition sample_sdk_client :: sdk_client where
  "sample_sdk_client = \<lparr>cl_app_key = ''k'', cl_app_ver = ''1.0.3'', cl_md5_hex = (\<lambda>s. s)\<rparr>"

definition sample_sdk_account :: sdk_account where
  "sample_sdk_account = \<lparr>sa_uid = ''42'', sa_access_key = ''key'', sa_id_token = ''t'', sa_mid = None\<rparr>"

theorem revalidation_keeps_identity_witness:
  "\<exists>a. sdk_login sample_sdk sample_sdk_client
       (\<lambda>_ _. Inr \<lparr>ha_status = 200, ha_headers = [], ha_content_length = None, ha_chunks = []\<rparr>)
       sample_device 7 (Some sample_sdk_account) = Ok a \<and> sa_uid a = ''42'' \<and> sa_access_key a = ''key''"
proof -
  let ?server = "\<lambda>_ _. Inr \<lparr>ha_status = 200, ha_headers = [], ha_content_length = None, ha_chunks = []\<rparr> :: send_error + http_answer"
  have d: "device_validate sample_device = Ok ()"
    by (simp add: device_validate_def device_required_def sample_device_def plain_def blank_def has_control_def byte_def)
  have t: "decimal 42 = ''42''" by (subst decimal.simps, subst decimal.simps) (simp add: char_of_def bit_0)
  have "sdk_login sample_sdk sample_sdk_client ?server sample_device 7 (Some sample_sdk_account) = Ok sample_sdk_account"
    by (simp add: sdk_login_def d sdk_post_def sample_sdk_def interpret_answer_def CAPTCHA_CODE_def identity_text_def
        int_text_def t u64_max_def account_of_def nonempty_def sample_sdk_account_def header_safe_def)
  with revalidation_keeps_identity [OF this] show ?thesis by (auto simp: sample_sdk_account_def)
qed

end
