(* ===== verification/Ordered_Map.thy ===== *)
theory Ordered_Map
  imports Prelude
begin

section \<open>Ordered maps\<close>

text \<open>
  The source keeps cache entries and the dispatch ledger in a \<open>BTreeMap\<close>, whose iteration order
  (and whose \<open>pop_first\<close>) the behaviour depends on. The concrete map is an association list kept
  strictly sorted by key. The locale \<open>ordered_map\<close> is the interface the client components rely on;
  the interpretation \<open>bt\<close> discharges its laws for the association list.
\<close>

type_synonym ('k, 'v) btree_map = "('k \<times> 'v) list"

fun bt_get :: "('k, 'v) btree_map \<Rightarrow> 'k \<Rightarrow> 'v option" where
  "bt_get [] k = None"
| "bt_get ((a, v) # m) k = (if k = a then Some v else bt_get m k)"

fun bt_insert :: "'k::linorder \<Rightarrow> 'v \<Rightarrow> ('k, 'v) btree_map \<Rightarrow> ('k, 'v) btree_map" where
  "bt_insert k v [] = [(k, v)]"
| "bt_insert k v ((a, w) # m) =
     (if k < a then (k, v) # (a, w) # m
      else if k = a then (k, v) # m
      else (a, w) # bt_insert k v m)"

fun bt_remove :: "'k \<Rightarrow> ('k, 'v) btree_map \<Rightarrow> ('k, 'v) btree_map" where
  "bt_remove k [] = []"
| "bt_remove k ((a, w) # m) = (if k = a then m else (a, w) # bt_remove k m)"

fun bt_pop_first :: "('k, 'v) btree_map \<Rightarrow> (('k \<times> 'v) \<times> ('k, 'v) btree_map) option" where
  "bt_pop_first [] = None"
| "bt_pop_first (e # m) = Some (e, m)"

definition bt_wf :: "('k::linorder, 'v) btree_map \<Rightarrow> bool" where
  "bt_wf m \<longleftrightarrow> sorted_wrt (<) (map fst m)"

subsection \<open>The interface\<close>

locale ordered_map =
  fixes get :: "'m \<Rightarrow> 'k::linorder \<Rightarrow> 'v option"
    and insert :: "'k \<Rightarrow> 'v \<Rightarrow> 'm \<Rightarrow> 'm"
    and remove :: "'k \<Rightarrow> 'm \<Rightarrow> 'm"
    and entries :: "'m \<Rightarrow> ('k \<times> 'v) list"
    and wf :: "'m \<Rightarrow> bool"
  assumes get_entries: "wf m \<Longrightarrow> get m k = Some v \<longleftrightarrow> (k, v) \<in> set (entries m)"
    and keys_distinct: "wf m \<Longrightarrow> distinct (map fst (entries m))"
    and entries_insert:
      "wf m \<Longrightarrow> set (entries (insert k v m)) = {(k, v)} \<union> {e \<in> set (entries m). fst e \<noteq> k}"
    and entries_remove: "wf m \<Longrightarrow> set (entries (remove k m)) = {e \<in> set (entries m). fst e \<noteq> k}"
    and wf_insert: "wf m \<Longrightarrow> wf (insert k v m)"
    and wf_remove: "wf m \<Longrightarrow> wf (remove k m)"
begin

lemma get_None_iff: "wf m \<Longrightarrow> get m k = None \<longleftrightarrow> k \<notin> fst ` set (entries m)"
proof -
  assume "wf m"
  then have "get m k \<noteq> None \<longleftrightarrow> (\<exists>v. (k, v) \<in> set (entries m))"
    by (simp flip: get_entries)
  then show ?thesis by force
qed

lemma get_insert_same: "wf m \<Longrightarrow> get (insert k v m) k = Some v"
  by (simp add: get_entries wf_insert entries_insert)

lemma get_insert_other: "wf m \<Longrightarrow> k' \<noteq> k \<Longrightarrow> get (insert k v m) k' = get m k'"
  by (rule option_eqI) (simp add: get_entries wf_insert entries_insert)

lemma get_remove_same: "wf m \<Longrightarrow> get (remove k m) k = None"
  by (simp add: get_None_iff wf_remove entries_remove image_iff)

lemma get_remove_other: "wf m \<Longrightarrow> k' \<noteq> k \<Longrightarrow> get (remove k m) k' = get m k'"
  by (rule option_eqI) (simp add: get_entries wf_remove entries_remove)

lemma get_insert: "wf m \<Longrightarrow> get (insert k v m) k' = (if k' = k then Some v else get m k')"
  by (simp add: get_insert_same get_insert_other)

lemma get_remove: "wf m \<Longrightarrow> get (remove k m) k' = (if k' = k then None else get m k')"
  by (simp add: get_remove_same get_remove_other)

lemma remove_absent: "wf m \<Longrightarrow> get m k = None \<Longrightarrow> set (entries (remove k m)) = set (entries m)"
  by (auto simp: get_None_iff entries_remove image_iff)

end

subsection \<open>The sorted association list is an ordered map\<close>

lemma bt_wf_Nil [simp]: "bt_wf []"
  by (simp add: bt_wf_def)

lemma bt_wf_Cons: "bt_wf (e # m) \<longleftrightarrow> (\<forall>x \<in> set m. fst e < fst x) \<and> bt_wf m"
  by (auto simp: bt_wf_def)

lemma bt_get_mem: "bt_wf m \<Longrightarrow> bt_get m k = Some v \<longleftrightarrow> (k, v) \<in> set m"
  by (induction m) (force simp: bt_wf_Cons)+

lemma bt_wf_distinct: "bt_wf m \<Longrightarrow> distinct (map fst m)"
  by (simp add: bt_wf_def strict_sorted_iff)

lemma set_bt_insert:
  "bt_wf m \<Longrightarrow> set (bt_insert k v m) = {(k, v)} \<union> {e \<in> set m. fst e \<noteq> k}"
  by (induction m) (force simp: bt_wf_Cons)+

lemma set_bt_remove: "bt_wf m \<Longrightarrow> set (bt_remove k m) = {e \<in> set m. fst e \<noteq> k}"
  by (induction m) (force simp: bt_wf_Cons)+

lemma bt_wf_insert: "bt_wf m \<Longrightarrow> bt_wf (bt_insert k v m)"
proof (induction m)
  case (Cons e m)
  then show ?case
    by (cases e) (auto simp: bt_wf_Cons set_bt_insert)
qed (simp add: bt_wf_def)

lemma bt_wf_remove: "bt_wf m \<Longrightarrow> bt_wf (bt_remove k m)"
proof (induction m)
  case (Cons e m)
  then show ?case
    by (cases e) (auto simp: bt_wf_Cons set_bt_remove)
qed simp

interpretation bt: ordered_map bt_get bt_insert bt_remove "\<lambda>m. m" bt_wf
  by unfold_locales
    (simp_all add: bt_get_mem bt_wf_distinct set_bt_insert set_bt_remove bt_wf_insert bt_wf_remove)

lemmas bt_simps = bt.get_insert bt.get_remove bt_wf_insert bt_wf_remove

subsection \<open>Sizes\<close>

text \<open>A weight (such as the bytes of an entry) summed over a map.\<close>

definition bt_weight :: "('v \<Rightarrow> nat) \<Rightarrow> ('k, 'v) btree_map \<Rightarrow> nat" where
  "bt_weight f m = sum_list (map (f \<circ> snd) m)"

lemma bt_weight_simps [simp]:
  "bt_weight f [] = 0" "bt_weight f (e # m) = f (snd e) + bt_weight f m"
  by (simp_all add: bt_weight_def)

lemma bt_weight_remove:
  "bt_get m k = Some v \<Longrightarrow> bt_weight f (bt_remove k m) = bt_weight f m - f v"
  "bt_get m k = Some v \<Longrightarrow> f v \<le> bt_weight f m"
  by (induction m) (auto split: if_splits)

lemma bt_remove_absent: "bt_get m k = None \<Longrightarrow> bt_remove k m = m"
  by (induction m) (auto split: if_splits)

lemma bt_weight_insert_absent:
  "bt_get m k = None \<Longrightarrow> bt_weight f (bt_insert k v m) = bt_weight f m + f v"
  by (induction m) (auto split: if_splits)

lemma length_bt_insert_absent:
  "bt_get m k = None \<Longrightarrow> length (bt_insert k v m) = Suc (length m)"
  by (induction m) (auto split: if_splits)

lemma length_bt_remove: "bt_get m k = Some v \<Longrightarrow> Suc (length (bt_remove k m)) = length m"
  by (induction m) (auto split: if_splits)

lemma length_bt_insert_le: "length (bt_insert k v m) \<le> Suc (length m)"
  by (induction m) auto

lemma length_bt_insert_present:
  "bt_wf m \<Longrightarrow> bt_get m k = Some w \<Longrightarrow> length (bt_insert k v m) = length m"
  by (induction m) (force simp: bt_wf_Cons bt_get_mem split: if_splits)+

end
