(* ===== verification/Global_Identity.thy ===== *)
theory Global_Identity
  imports Account_Config Global_Sdk Ordered_Map
begin

section \<open>Identity files of Global accounts (src/global_account.rs)\<close>

text \<open>
  Validation and loading of an identity file, the login request built from it, and the one-shot
  \<open>bootstrap\<close> command that creates one. The derived JSON (de)serialization of files is a parameter
  (\<open>identity_lib\<close>), and so is what the operating system does to each file the command creates.
\<close>

definition IDENTITY_SCHEMA :: nat where "IDENTITY_SCHEMA = 1"
definition MAX_IDENTITY_BYTES :: nat where "MAX_IDENTITY_BYTES = 16 * 1024"
definition GLOBAL_CHANNEL_ID :: int where "GLOBAL_CHANNEL_ID = 2001"
definition BRAND_ID :: int where "BRAND_ID = 5"
definition AREA_ID :: int where "AREA_ID = 6"

definition CLIENT_PACKAGE :: string where "CLIENT_PACKAGE = ''com.bilibili.sirius''"

record sdk_section =
  sx_uid :: json
  sx_access_key :: string
  sx_id_token :: string
  sx_mid :: "json option"

record identity_file =
  if_schema :: nat
  if_sdk :: sdk_section
  if_device :: device
  if_players :: "(string \<times> string) list"

record identity_lib =
  il_header_ok :: "string \<Rightarrow> bool"
  il_parse_file :: "string \<Rightarrow> identity_file option"
  il_parse_device :: "string \<Rightarrow> device option"
  il_write_file :: "identity_file \<Rightarrow> string"
  il_md5_hex :: "string \<Rightarrow> string"
  il_semver_ok :: "string \<Rightarrow> bool"

definition invalid_identity :: app_error where
  "invalid_identity = Config ''invalid Global identity file''"

fun parse_players ::
  "identity_lib \<Rightarrow> (string \<times> string) list \<Rightarrow> (string, string) btree_map \<Rightarrow> alias_flags
   \<Rightarrow> (app_error + (string, string) btree_map) \<times> alias_flags" where
  "parse_players L [] m f = (Ok m, f)"
| "parse_players L ((name, pin) # ps) m f =
     (case region_from_config_name name f of
        (None, f1) \<Rightarrow> (Err invalid_identity, f1)
      | (Some r, f1) \<Rightarrow>
          if region_family r \<noteq> ''global'' \<or> \<not> header_value (il_header_ok L) pin
          then (Err invalid_identity, f1)
          else parse_players L ps (bt_insert (region_name r) pin m) f1)"

definition identity_parse ::
  "identity_lib \<Rightarrow> string \<Rightarrow> alias_flags \<Rightarrow> (app_error + identity \<times> device) \<times> alias_flags" where
  "identity_parse L bytes f =
     (case il_parse_file L bytes of
        None \<Rightarrow> (Err invalid_identity, f)
      | Some file \<Rightarrow>
          if if_schema file \<noteq> IDENTITY_SCHEMA \<or> \<not> is_ok (device_validate (if_device file))
          then (Err invalid_identity, f)
          else (case identity_text (Some (sx_uid (if_sdk file))) of
            None \<Rightarrow> (Err invalid_identity, f)
          | Some uid \<Rightarrow>
              let a = \<lparr>sa_uid = uid, sa_access_key = sx_access_key (if_sdk file),
                       sa_id_token = sx_id_token (if_sdk file), sa_mid = identity_text (sx_mid (if_sdk file))\<rparr>
              in if \<not> header_value (il_header_ok L) (sa_uid a) \<or> \<not> header_value (il_header_ok L) (sa_access_key a)
                    \<or> \<not> (sa_id_token a = [] \<or> header_value (il_header_ok L) (sa_id_token a))
                 then (Err invalid_identity, f)
                 else (case parse_players L (if_players file) [] f of
                   (Inl e, f1) \<Rightarrow> (Err e, f1)
                 | (Inr players, f1) \<Rightarrow>
                     (Ok (\<lparr>id_sdk = a, id_players = players\<rparr>, if_device file), f1))))"

definition identity_load ::
  "identity_lib \<Rightarrow> fs_entry \<Rightarrow> alias_flags \<Rightarrow> (app_error + identity \<times> device) \<times> alias_flags" where
  "identity_load L e f =
     (case read_private_file MAX_IDENTITY_BYTES ''Global identity file unavailable'' ''invalid Global identity file''
             ''Global identity file must be private to its owner'' e of
        Inl err \<Rightarrow> (Err err, f)
      | Inr bytes \<Rightarrow> identity_parse L bytes f)"

definition login_request :: "sdk_account \<Rightarrow> device \<Rightarrow> string \<Rightarrow> json" where
  "login_request sdk d client_version =
     JObj ([(''sdkUid'', JStr (sa_uid sdk)), (''sdkAccessToken'', JStr (sa_access_key sdk)),
            (''deviceModel'', JStr (dv_unity_device_model d)),
            (''operatingSystem'', JStr (dv_unity_operating_system d)),
            (''clientVersion'', JStr client_version),
            (''uuid'', JObj [(''identifier'', JStr (dv_unity_device_id d))]),
            (''clientPackage'', JStr CLIENT_PACKAGE), (''globalChannelId'', JInt GLOBAL_CHANNEL_ID),
            (''brandId'', JInt BRAND_ID), (''areaId'', JInt AREA_ID)]
           @ (if sa_id_token sdk = [] then [] else [(''idToken'', JStr (sa_id_token sdk))]))"

subsection \<open>Creating an identity\<close>

text \<open>A file created exclusively: it was written, it could not be created, or it was created and the
  write failed part of the way.\<close>

datatype write_outcome = Written | NotCreated | Torn string

definition create_private :: "write_outcome \<Rightarrow> string \<Rightarrow> fs_entry \<Rightarrow> (string + unit) \<times> fs_entry" where
  "create_private w bytes e =
     (if e \<noteq> Absent then (Err ''cannot create the private output file'', e)
      else case w of
             Written \<Rightarrow> (Ok (), Regular 384 bytes)
           | NotCreated \<Rightarrow> (Err ''cannot create the private output file'', e)
           | Torn part \<Rightarrow> (Err ''cannot write the private output file'', Regular 384 part))"

record boot_env =
  be_device_file :: fs_entry
  be_directory :: "nat option" \<comment> \<open>the mode of the identity directory, if it is one\<close>
  be_origin :: string
  be_client_version :: string
  be_create_guest :: bool
  be_app_key :: "string option" \<comment> \<open>the secret of the app key environment variable\<close>
  be_server :: sdk_server
  be_now_ms :: nat
  be_marker_write :: write_outcome
  be_marker_text :: string
  be_identity_write :: write_outcome
  be_killed :: bool \<comment> \<open>the process dies while the request is outstanding\<close>

datatype boot_result = Planned | Created | Refused string | Killed

fun boot_error :: "sdk_error \<Rightarrow> string" where
  "boot_error SdkCaptcha = ''SDK requires CAPTCHA; finish verification in the official client''"
| "boot_error (SdkRefused _) = ''SDK refused tourist.login''"
| "boot_error SdkTransport = ''SDK transport failed; the outcome is unknown; do not repeat automatically''"
| "boot_error _ = ''SDK response is invalid; the outcome is unknown''"

definition identity_file_of :: "sdk_account \<Rightarrow> device \<Rightarrow> identity_file" where
  "identity_file_of a d =
     \<lparr>if_schema = IDENTITY_SCHEMA,
      if_sdk = \<lparr>sx_uid = JStr (sa_uid a), sx_access_key = sa_access_key a, sx_id_token = sa_id_token a,
                sx_mid = map_option JStr (sa_mid a)\<rparr>,
      if_device = d, if_players = []\<rparr>"

definition boot_device :: "identity_lib \<Rightarrow> boot_env \<Rightarrow> string + device" where
  "boot_device L E =
     (case read_private_file MAX_IDENTITY_BYTES ''device file unavailable'' ''invalid device file''
             ''device file must be private to its owner'' (be_device_file E) of
        Inl _ \<Rightarrow> Err ''device file must be a private regular file of at most 16 KiB''
      | Inr bytes \<Rightarrow>
          (case il_parse_device L bytes of
             None \<Rightarrow> Err ''invalid device file''
           | Some d \<Rightarrow> then_result (device_validate d) (\<lambda>_. Ok d)))"

definition boot_checks :: "identity_lib \<Rightarrow> boot_env \<Rightarrow> fs_entry \<Rightarrow> fs_entry \<Rightarrow> string + unit" where
  "boot_checks L E identity_entry marker =
     (if \<not> il_semver_ok L (be_client_version E) then Err ''the client version must be a version such as 1.0.3''
      else if \<not> origin_allowed (be_origin E)
        then Err ''the SDK origin must be one of the official SDK HTTPS origins''
      else if identity_entry \<noteq> Absent \<or> marker \<noteq> Absent
        then Err ''the identity file or a previous attempt marker exists; inspect it, nothing was sent''
      else case be_directory E of
             None \<Rightarrow> Err ''identity directory unavailable''
           | Some mode \<Rightarrow>
               if mode mod 64 \<noteq> 0
               then Err ''the identity directory must be private to its owner (mode 0700)'' else Ok ())"

definition boot_send ::
  "identity_lib \<Rightarrow> sdk_lib \<Rightarrow> boot_env \<Rightarrow> sdk_client \<Rightarrow> device \<Rightarrow> fs_entry \<Rightarrow> boot_result \<times> fs_entry" where
  \<comment> \<open>the one request, once the marker is written, and the identity file\<close>
  "boot_send L S E client d identity_entry =
     (if be_killed E then (Killed, identity_entry)
      else case sdk_login S client (be_server E) d (be_now_ms E) None of
             Inl err \<Rightarrow> (Refused (boot_error err), identity_entry)
           | Inr a \<Rightarrow>
               (case create_private (be_identity_write E) (il_write_file L (identity_file_of a d)) identity_entry of
                  (Inl err, i1) \<Rightarrow> (Refused err, i1)
                | (Inr _, i1) \<Rightarrow> (Created, i1)))"

definition bootstrap ::
  "identity_lib \<Rightarrow> sdk_lib \<Rightarrow> boot_env \<Rightarrow> fs_entry \<times> fs_entry \<Rightarrow> boot_result \<times> (fs_entry \<times> fs_entry) \<times> nat" where
  \<comment> \<open>the identity file and its attempt marker; the result, the files afterwards, the requests sent\<close>
  "bootstrap L S E files =
     (case files of (i, m) \<Rightarrow>
       (case boot_device L E of
          Inl err \<Rightarrow> (Refused err, (i, m), 0)
        | Inr d \<Rightarrow>
            (case boot_checks L E i m of
               Inl err \<Rightarrow> (Refused err, (i, m), 0)
             | Inr _ \<Rightarrow>
                 if \<not> be_create_guest E then (Planned, (i, m), 0)
                 else (case be_app_key E of
                   None \<Rightarrow>
                     (Refused ''the SDK app key environment variable is missing or invalid'', (i, m), 0)
                 | Some key \<Rightarrow> (case sdk_client_new (il_md5_hex L) (il_semver_ok L) (be_origin E) key (be_client_version E) of
                   Inl _ \<Rightarrow> (Refused ''invalid SDK client configuration'', (i, m), 0)
                 | Inr client \<Rightarrow>
                     (case create_private (be_marker_write E) (be_marker_text E) m of
                        (Inl err, m1) \<Rightarrow> (Refused err, (i, m1), 0)
                      | (Inr _, m1) \<Rightarrow>
                          (case boot_send L S E client d i of (r, i1) \<Rightarrow> (r, (i1, m1), 1))))))))"

fun boot_runs :: "identity_lib \<Rightarrow> sdk_lib \<Rightarrow> boot_env list \<Rightarrow> fs_entry \<times> fs_entry \<Rightarrow> boot_result list \<times> nat" where
  \<comment> \<open>the command run again and again on the same path\<close>
  "boot_runs L S [] files = ([], 0)"
| "boot_runs L S (E # Es) files =
     (case bootstrap L S E files of (r, files1, n) \<Rightarrow>
        (case boot_runs L S Es files1 of (rs, k) \<Rightarrow> (r # rs, n + k)))"

subsection \<open>Properties\<close>

lemma bootstrap_marker:
  assumes "bootstrap L S E (i, m) = (r, (i1, m1), n)"
  shows "n \<le> 1" "0 < n \<Longrightarrow> m1 \<noteq> Absent" "m \<noteq> Absent \<Longrightarrow> n = 0 \<and> m1 = m \<and> i1 = i \<and> r \<noteq> Created"
    "r = Created \<Longrightarrow> n = 1"
  using assms
  by (auto simp: bootstrap_def boot_checks_def create_private_def boot_send_def
      split: sum.splits if_splits option.splits write_outcome.splits prod.splits)

lemma boot_runs_marked: "m \<noteq> Absent \<Longrightarrow> boot_runs L S Es (i, m) = (rs, n) \<Longrightarrow> n = 0 \<and> Created \<notin> set rs"
proof (induction Es arbitrary: rs n)
  case (Cons E Es)
  obtain r i1 m1 k where b: "bootstrap L S E (i, m) = (r, (i1, m1), k)" by (metis surj_pair)
  note mk = bootstrap_marker(3) [OF b Cons.prems(1)]
  obtain rs1 k1 where rest: "boot_runs L S Es (i, m) = (rs1, k1)" by fastforce
  with Cons.IH [OF Cons.prems(1) rest] mk b Cons.prems(2) show ?case by auto
qed simp

text \<open>However often the command is run on a path, with whatever failures, crashes and torn writes, it sends at
  most one request that creates an identity: the attempt marker written before the request stops every later run.\<close>

theorem bootstrap_sends_at_most_once:
  "snd (boot_runs L S Es files) \<le> 1 \<and> length (filter (\<lambda>r. r = Created) (fst (boot_runs L S Es files))) \<le> 1"
proof (induction Es arbitrary: files)
  case (Cons E Es)
  obtain i m where f: "files = (i, m)" by fastforce
  obtain r i1 m1 n where b: "bootstrap L S E (i, m) = (r, (i1, m1), n)" by (metis surj_pair)
  obtain rs k where rest: "boot_runs L S Es (i1, m1) = (rs, k)" by fastforce
  note bm = bootstrap_marker [OF b]
  show ?case
  proof (cases "n = 0")
    case True
    then show ?thesis using Cons.IH [of "(i1, m1)"] bm by (auto simp: f b rest)
  next
    case False
    then have m1: "m1 \<noteq> Absent" using bm(2) by simp
    from boot_runs_marked [OF m1 rest] have "k = 0" "filter (\<lambda>r. r = Created) rs = []"
      by (auto simp: filter_empty_conv)
    then show ?thesis using bm(1) by (auto simp: f b rest)
  qed
qed simp

end
