(* ===== verification/Login_Flow.thy ===== *)
theory Login_Flow
  imports Global_Identity Accounts
begin

section \<open>Logging an account in (src/client.rs, src/sdk_keepalive.rs)\<close>

text \<open>
  \<open>GameClient::account_auth\<close> gives the headers of an account; a Global account without a session
  logs in first. \<open>GameClient::sdk_keepalive\<close> revalidates the SDK sessions in the background. Both are
  \<open>async\<close>: the code between two suspension points is one function here, and a step relation
  interleaves them with each other, with the clock and with the other regions and processes that
  share the identity.

  \<^item> The account's session lock admits one login at a time; the keepalive does not take it.
  \<^item> The lock \<open>sdk.login\<close> and the lock file admit one \<open>cache.login\<close> of an identity at a time.
  \<^item> An answer of the SDK or of the game server is an argument of the step that receives it.
  \<^item> \<open>ly_log\<close> records what the code does that others can see: attempts counted, requests sent,
    sessions installed. No operation reads it.
\<close>

datatype login_event =
    Attempt instant
  | CacheLogin sdk_account
  | PlayerLogin json auth
  | Installed session

datatype auth_phase =
    AuthIdle
  | AuthWaiting instant nat
  | AuthRevalidating instant bool
  | AuthLoggingIn sdk_account
  | AuthDone "app_error + auth"

datatype keep_phase = KeepIdle | KeepWaiting instant | KeepRevalidating bool

record login_client =
  lc_login :: "login_config option"
  lc_sdk :: "sdk_client option"
  lc_policy :: pool_policy
  lc_sdk_path :: path_config
  lc_device :: device
  lc_client_version :: string
  lc_header_ok :: "string \<Rightarrow> bool"

record login_sys =
  ly_now :: instant
  ly_account :: account
  ly_world :: sdk_world
  ly_sdk_path :: "path_state option"
  ly_auth :: auth_phase
  ly_keep :: keep_phase
  ly_log :: "login_event list"

definition log_event :: "login_event \<Rightarrow> login_sys \<Rightarrow> login_sys" where
  "log_event ev y = y\<lparr>ly_log := ly_log y @ [ev]\<rparr>"

definition on_account :: "(account \<Rightarrow> account) \<Rightarrow> login_sys \<Rightarrow> login_sys" where
  "on_account f y = y\<lparr>ly_account := f (ly_account y)\<rparr>"

definition push_attempt :: "instant \<Rightarrow> login_sys \<Rightarrow> login_sys" where
  "push_attempt now y = log_event (Attempt now) (on_account (on_login (login_attempt now)) y)"

definition auth_return :: "app_error + auth \<Rightarrow> login_sys \<Rightarrow> login_sys" where
  "auth_return r y = y\<lparr>ly_auth := AuthDone r\<rparr>"

definition refusal_error :: "int \<Rightarrow> sdk_error" where
  "refusal_error code = (if code = CAPTCHA_CODE then SdkCaptcha else SdkRefused code)"

definition note_sdk_error :: "sdk_error \<Rightarrow> login_state \<Rightarrow> login_state" where
  "note_sdk_error err s =
     s\<lparr>ls_last_error_code := Some (sdk_error_code err), ls_last_sdk_code := sdk_code err\<rparr>"

definition account_refused :: "int \<Rightarrow> account \<Rightarrow> account" where
  \<comment> \<open>the function \<open>sdk_refused\<close> of the client\<close>
  "account_refused code a = account_disable (on_login (note_sdk_error (refusal_error code)) a)"

definition retry_time :: "login_config \<Rightarrow> duration" where
  "retry_time login = from_secs (sdk_refusal_retry_seconds login)"

subsection \<open>One \<open>cache.login\<close>\<close>

definition record_sdk_path :: "login_client \<Rightarrow> instant \<Rightarrow> path_outcome \<Rightarrow> login_sys \<Rightarrow> login_sys" where
  \<comment> \<open>\<open>record_path(true, None, outcome)\<close>; an SDK streak charges no account\<close>
  "record_sdk_path C now outcome y =
     y\<lparr>ly_sdk_path := map_option (\<lambda>p. snd (path_record (lc_sdk_path C) now None outcome p)) (ly_sdk_path y)\<rparr>"

definition drop_ticket :: "bool \<Rightarrow> login_sys \<Rightarrow> login_sys" where
  "drop_ticket probe y = (if probe then y\<lparr>ly_sdk_path := map_option path_drop_probe (ly_sdk_path y)\<rparr> else y)"

definition revalidate_begin :: "instant \<Rightarrow> instant \<Rightarrow> login_sys \<Rightarrow> (bool \<times> login_sys) option" where
  \<comment> \<open>up to the request: an SDK path that refuses spends no attempt. \<open>clock\<close> is the path's time, \<open>now\<close> the
    time the attempt is counted at\<close>
  "revalidate_begin clock now y =
     (case Option.bind (ly_sdk_path y) (path_admit clock) of
        None \<Rightarrow> None
      | Some (probe, p) \<Rightarrow>
          let y1 = push_attempt now (y\<lparr>ly_sdk_path := Some p\<rparr>);
              base = (case sdk_base (fst (ly_world y1)) of
                        Some a \<Rightarrow> a
                      | None \<Rightarrow> (case account_global (ly_account y1) of
                                  Some g \<Rightarrow> ga_sdk g
                                | None \<Rightarrow> \<lparr>sa_uid = [], sa_access_key = [], sa_id_token = [], sa_mid = None\<rparr>))
          in Some (probe, log_event (CacheLogin base) y1))"

definition attempt_outcome :: "sdk_error + sdk_account \<Rightarrow> path_outcome option" where
  "attempt_outcome outcome =
     (case outcome of
        Inl err \<Rightarrow> if sdk_transient err then Some (Fault (sdk_error_code err))
                  else if err = SdkConfig then None else Some Healthy
      | Inr _ \<Rightarrow> Some Healthy)"

definition revalidate_failed :: "signal_env \<Rightarrow> sdk_error \<Rightarrow> login_sys \<Rightarrow> login_sys" where
  "revalidate_failed E err y =
     (let y1 = on_account (on_login (note_sdk_error err)) y;
          refuse = (\<lambda>code. case ly_world y1 of (n, e) \<Rightarrow>
                      y1\<lparr>ly_world := sdk_refused (en_lib E) (en_write_ok E) (en_wall E) code n e\<rparr>);
          y2 = (case err of SdkRefused code \<Rightarrow> refuse code | SdkCaptcha \<Rightarrow> refuse CAPTCHA_CODE | _ \<Rightarrow> y1)
      in if sdk_transient err then y2 else on_account account_disable y2)"

definition revalidate_finish ::
  "login_client \<Rightarrow> signal_env \<Rightarrow> bool \<Rightarrow> bool \<Rightarrow> sdk_error + sdk_account \<Rightarrow> login_sys
   \<Rightarrow> (app_error + sdk_account \<times> nat) \<times> login_sys" where
  \<comment> \<open>from the answer on; \<open>late\<close>: the deadline has passed\<close>
  "revalidate_finish C E probe late outcome y =
     (let y1 = y\<lparr>ly_world := (case ly_world y of (n, e) \<Rightarrow> (sdk_completed n, e))\<rparr>;
          y2 = (case attempt_outcome outcome of None \<Rightarrow> y1 | Some o1 \<Rightarrow> record_sdk_path C (en_now E) o1 y1)
      in case outcome of
           Inr refreshed \<Rightarrow>
             (case ly_world y2 of (n, e) \<Rightarrow>
               (case sdk_validated (en_lib E) (en_write_ok E) (en_wall E) refreshed n e of
                  (generation, w) \<Rightarrow> (Ok (refreshed, generation), drop_ticket probe (y2\<lparr>ly_world := w\<rparr>))))
         | Inl err \<Rightarrow>
             (Err (if late then Timeout else AccountUnavailable), drop_ticket probe (revalidate_failed E err y2)))"

definition revalidate_cancel :: "login_client \<Rightarrow> instant \<Rightarrow> bool \<Rightarrow> bool \<Rightarrow> login_sys \<Rightarrow> login_sys" where
  \<comment> \<open>the future is dropped while the request is in flight\<close>
  "revalidate_cancel C now probe late y =
     drop_ticket probe (if late then record_sdk_path C now (Fault (sdk_error_code SdkTransport)) y else y)"

subsection \<open>\<open>account_auth\<close>\<close>

datatype lock_outcome = LockTimeout | LockFree | LockHeld
  \<comment> \<open>the deadline passed; no lock file, so nothing is read; the lock file is held and the state refreshed\<close>

definition take_exclusive :: "signal_env \<Rightarrow> lock_outcome \<Rightarrow> login_sys \<Rightarrow> login_sys option" where
  "take_exclusive E l y =
     (case l of
        LockTimeout \<Rightarrow> None
      | LockFree \<Rightarrow> Some y
      | LockHeld \<Rightarrow>
          (case ly_world y of (n, e) \<Rightarrow> Some (y\<lparr>ly_world := (sdk_refresh (en_lib E) (en_wall E) e n, e)\<rparr>)))"

definition start_login :: "login_client \<Rightarrow> sdk_account \<times> nat \<Rightarrow> login_sys \<Rightarrow> login_sys" where
  "start_login C shared y =
     (case shared of (sdk_account, generation) \<Rightarrow>
       let y1 = on_account (on_login (\<lambda>s. s\<lparr>ls_sdk_generation := generation\<rparr>)) y;
           login_auth = \<lparr>au_account = ac_name (ly_account y1), au_player_id = [], au_credential = [],
                         au_bid = Some (sa_uid sdk_account)\<rparr>
       in (log_event (PlayerLogin (login_request sdk_account (lc_device C) (lc_client_version C)) login_auth) y1)
            \<lparr>ly_auth := AuthLoggingIn sdk_account\<rparr>)"

definition auth_begin :: "login_client \<Rightarrow> signal_env \<Rightarrow> login_sys \<Rightarrow> login_sys" where
  "auth_begin C E y =
     (case account_auth_headers (ly_account y) of
        Some auth \<Rightarrow> auth_return (Ok auth) y
      | None \<Rightarrow>
     (case account_global (ly_account y) of
        None \<Rightarrow> auth_return (Err AccountUnavailable) y
      | Some g \<Rightarrow>
     (case (lc_login C, lc_sdk C) of
        (Some login, Some _) \<Rightarrow>
          (case sdk_refusal (en_wall E) (retry_time login) (fst (ly_world y)) of
             Some r \<Rightarrow>
               auth_return (Err AccountUnavailable) (on_account (account_refused (rf_code r)) y)
           | None \<Rightarrow>
          (case login_next_allowed (en_now E) login (ga_state g) of
             (Some until, s1) \<Rightarrow>
               auth_return (Err AccountUnavailable)
                 (on_account (\<lambda>a. account_cool_down until (on_login (\<lambda>_. s1) a)) y)
           | (None, s1) \<Rightarrow>
               let y1 = on_account (on_login (\<lambda>_. s1)) y in
               (case sdk_reusable (en_lib E) (en_wall E) (fst (ly_world y1)) of
                  Some shared \<Rightarrow> start_login C shared (push_attempt (en_now E) y1)
                | None \<Rightarrow> y1\<lparr>ly_auth := AuthWaiting (en_now E) (sn_attempts (fst (ly_world y1)))\<rparr>)))
      | _ \<Rightarrow> auth_return (Err AccountUnavailable) y)))"

definition auth_locked ::
  "login_client \<Rightarrow> login_config \<Rightarrow> signal_env \<Rightarrow> lock_outcome \<Rightarrow> instant \<Rightarrow> nat \<Rightarrow> login_sys \<Rightarrow> login_sys" where
  \<comment> \<open>once the revalidation lock is held, or the deadline has passed\<close>
  "auth_locked C login E l now seen y =
     (case take_exclusive E l y of
        None \<Rightarrow> auth_return (Err Timeout) y
      | Some y1 \<Rightarrow>
     (case sdk_refusal (en_wall E) (retry_time login) (fst (ly_world y1)) of
        Some r \<Rightarrow> auth_return (Err AccountUnavailable) (on_account (account_refused (rf_code r)) y1)
      | None \<Rightarrow>
     (case sdk_reusable (en_lib E) (en_wall E) (fst (ly_world y1)) of
        Some shared \<Rightarrow> start_login C shared (push_attempt now y1)
      | None \<Rightarrow>
          (if sn_attempts (fst (ly_world y1)) \<noteq> seen then auth_return (Err UpstreamUnavailable) y1
           else (case revalidate_begin (en_now E) now y1 of
                   None \<Rightarrow> auth_return (Err UpstreamUnavailable) y1
                 | Some (probe, y2) \<Rightarrow> (y2\<lparr>ly_auth := AuthRevalidating now probe\<rparr>))))))"

definition auth_revalidated ::
  "login_client \<Rightarrow> signal_env \<Rightarrow> bool \<Rightarrow> bool \<Rightarrow> sdk_error + sdk_account \<Rightarrow> login_sys \<Rightarrow> login_sys" where
  "auth_revalidated C E probe late outcome y =
     (case revalidate_finish C E probe late outcome y of
        (Inl err, y1) \<Rightarrow> auth_return (Err err) y1
      | (Inr shared, y1) \<Rightarrow> start_login C shared y1)"

definition settle_charge :: "pool_policy \<Rightarrow> charge \<Rightarrow> path_state \<Rightarrow> account \<Rightarrow> account" where
  "settle_charge policy c p a =
     (case c of
        ChargeAccount (Some streak) \<Rightarrow>
          if path_attributed streak p then account_revoke_path_failures streak policy a else a
      | _ \<Rightarrow> a)"

definition login_failure :: "app_error \<Rightarrow> app_error" where
  "login_failure err =
     (case err of Timeout \<Rightarrow> Timeout | Maintenance status \<Rightarrow> Maintenance status | _ \<Rightarrow> AccountUnavailable)"

definition login_rejected ::
  "login_client \<Rightarrow> login_config \<Rightarrow> signal_env \<Rightarrow> path_state \<Rightarrow> path_state \<Rightarrow> app_error + json \<Rightarrow> string option
   \<Rightarrow> login_sys \<Rightarrow> login_sys" where
  \<comment> \<open>\<open>p\<close> and \<open>p'\<close>: the game path when it is asked for the charge and when the charge is settled\<close>
  "login_rejected C login E p p' result code y =
     (let err = (case result of Inl err \<Rightarrow> err | Inr _ \<Rightarrow> Protocol);
          c = path_charge p
      in case global_signal E (Err err) code (lc_policy C) login c (ly_account y, ly_world y) of
           (a, w) \<Rightarrow> auth_return (Err (login_failure err))
                      (y\<lparr>ly_account := settle_charge (lc_policy C) c p' a, ly_world := w\<rparr>))"

definition install_session :: "session \<Rightarrow> instant \<Rightarrow> login_state \<Rightarrow> login_state" where
  "install_session s wall st = st\<lparr>ls_session := Some s, ls_last_login_at := Some wall\<rparr>"

definition player_mismatch :: "account \<Rightarrow> session \<Rightarrow> bool" where
  "player_mismatch a s \<longleftrightarrow>
     (case account_global a of
        None \<Rightarrow> False
      | Some g \<Rightarrow> (case ga_expected_player_id g of None \<Rightarrow> False | Some expected \<Rightarrow> expected \<noteq> se_player_id s))"

definition auth_finish ::
  "login_client \<Rightarrow> login_config \<Rightarrow> signal_env \<Rightarrow> path_state \<Rightarrow> path_state \<Rightarrow> sdk_account
   \<Rightarrow> app_error + json \<Rightarrow> string option \<Rightarrow> login_sys \<Rightarrow> login_sys" where
  "auth_finish C login E p p' sdk_account result code y =
     (case (case result of Inr v \<Rightarrow> parse_login (lc_header_ok C) v | Inl _ \<Rightarrow> None) of
        None \<Rightarrow> login_rejected C login E p p' result code y
      | Some s \<Rightarrow>
          if player_mismatch (ly_account y) s
          then auth_return (Err AccountUnavailable)
                 (on_account (\<lambda>a. account_disable (on_login (\<lambda>st. st\<lparr>ls_last_error_code := Some ''PLAYER_MISMATCH'',
                    ls_last_sdk_code := None\<rparr>) a)) y)
          else auth_return
                 (Ok \<lparr>au_account = ac_name (ly_account y), au_player_id = se_player_id s,
                      au_credential = se_credential s, au_bid = Some (sa_uid sdk_account)\<rparr>)
                 (log_event (Installed s) (on_account (on_login (install_session s (en_wall E))) y)))"

definition auth_prepare ::
  "login_client \<Rightarrow> login_config \<Rightarrow> signal_env \<Rightarrow> lock_outcome \<Rightarrow> bool \<Rightarrow> sdk_error + sdk_account \<Rightarrow> login_sys \<Rightarrow> login_sys" where
  \<comment> \<open>up to the PlayerLogin request when nothing else runs: the outcome of the locks and the answer of the SDK
    are given\<close>
  "auth_prepare C login E l late outcome y =
     (let y1 = auth_begin C E y;
          y2 = (case ly_auth y1 of AuthWaiting now seen \<Rightarrow> auth_locked C login E l now seen y1 | _ \<Rightarrow> y1)
      in case ly_auth y2 of
           AuthRevalidating _ probe \<Rightarrow> auth_revalidated C E probe late outcome y2 | _ \<Rightarrow> y2)"

definition account_auth ::
  "login_client \<Rightarrow> login_config \<Rightarrow> signal_env \<Rightarrow> lock_outcome \<Rightarrow> bool \<Rightarrow> sdk_error + sdk_account
   \<Rightarrow> path_state \<Rightarrow> path_state \<Rightarrow> (app_error + json) \<times> string option \<Rightarrow> login_sys \<Rightarrow> login_sys" where
  \<comment> \<open>the whole function when nothing else runs, given the answer of the game server too\<close>
  "account_auth C login E l late outcome p p' answer y =
     (let y3 = auth_prepare C login E l late outcome y
      in case ly_auth y3 of
           AuthLoggingIn sdk_account \<Rightarrow> auth_finish C login E p p' sdk_account (fst answer) (snd answer) y3
         | _ \<Rightarrow> y3)"

subsection \<open>The keepalive\<close>

definition keep_begin :: "login_config \<Rightarrow> signal_env \<Rightarrow> login_sys \<Rightarrow> login_sys" where
  "keep_begin login E y =
     (if account_global (ly_account y) = None \<or> he_disabled (ac_health (ly_account y))
         \<or> \<not> sdk_keepalive_due (en_wall E) (from_secs (sdk_keepalive_seconds login)) (fst (ly_world y))
      then y else y\<lparr>ly_keep := KeepWaiting (en_now E)\<rparr>)"

definition keep_locked :: "login_config \<Rightarrow> signal_env \<Rightarrow> lock_outcome \<Rightarrow> instant \<Rightarrow> login_sys \<Rightarrow> login_sys" where
  "keep_locked login E l now y =
     (case take_exclusive E l y of
        None \<Rightarrow> y\<lparr>ly_keep := KeepIdle\<rparr>
      | Some y1 \<Rightarrow>
     (if \<not> sdk_keepalive_due (en_wall E) (from_secs (sdk_keepalive_seconds login)) (fst (ly_world y1))
      then y1\<lparr>ly_keep := KeepIdle\<rparr>
      else case account_global (ly_account y1) of
        None \<Rightarrow> y1\<lparr>ly_keep := KeepIdle\<rparr>
      | Some g \<Rightarrow>
     (case login_next_allowed now login (ga_state g) of
        (Some _, s1) \<Rightarrow> (on_account (on_login (\<lambda>_. s1)) y1)\<lparr>ly_keep := KeepIdle\<rparr>
      | (None, s1) \<Rightarrow>
          let y2 = on_account (on_login (\<lambda>_. s1)) y1 in
          (case revalidate_begin (en_now E) now y2 of
             None \<Rightarrow> y2\<lparr>ly_keep := KeepIdle\<rparr>
           | Some (probe, y3) \<Rightarrow> y3\<lparr>ly_keep := KeepRevalidating probe\<rparr>))))"

definition keep_finish ::
  "login_client \<Rightarrow> signal_env \<Rightarrow> bool \<Rightarrow> bool \<Rightarrow> sdk_error + sdk_account \<Rightarrow> login_sys \<Rightarrow> login_sys" where
  "keep_finish C E probe late outcome y =
     (snd (revalidate_finish C E probe late outcome y))\<lparr>ly_keep := KeepIdle\<rparr>"

subsection \<open>Interleavings\<close>

definition revalidating :: "login_sys \<Rightarrow> bool" where
  "revalidating y \<longleftrightarrow> (\<exists>now probe. ly_auth y = AuthRevalidating now probe) \<or> (\<exists>probe. ly_keep y = KeepRevalidating probe)"

definition at_clock :: "signal_env \<Rightarrow> login_sys \<Rightarrow> bool" where
  "at_clock E y \<longleftrightarrow> en_now E = ly_now y"

inductive login_step :: "login_client \<Rightarrow> login_config \<Rightarrow> bool \<Rightarrow> login_sys \<Rightarrow> login_sys \<Rightarrow> bool"
  for C :: login_client and login :: login_config and keepalive :: bool
where
  tick: "ly_now y \<le> t \<Longrightarrow> login_step C login keepalive y (y\<lparr>ly_now := t\<rparr>)"
| call: "ly_auth y = AuthDone r \<Longrightarrow> login_step C login keepalive y (y\<lparr>ly_auth := AuthIdle\<rparr>)"
| begin_auth: "ly_auth y = AuthIdle \<Longrightarrow> at_clock E y \<Longrightarrow> login_step C login keepalive y (auth_begin C E y)"
| locked: "ly_auth y = AuthWaiting now seen \<Longrightarrow> \<not> revalidating y \<Longrightarrow> at_clock E y \<Longrightarrow>
    login_step C login keepalive y (auth_locked C login E l now seen y)"
| revalidated: "ly_auth y = AuthRevalidating now probe \<Longrightarrow> at_clock E y \<Longrightarrow>
    login_step C login keepalive y (auth_revalidated C E probe late outcome y)"
| finish: "ly_auth y = AuthLoggingIn sdk_account \<Longrightarrow> at_clock E y \<Longrightarrow>
    login_step C login keepalive y (auth_finish C login E p p' sdk_account result code y)"
| cancel_waiting: "ly_auth y = AuthWaiting now seen \<or> ly_auth y = AuthLoggingIn sdk_account \<Longrightarrow>
    login_step C login keepalive y (y\<lparr>ly_auth := AuthIdle\<rparr>)"
| cancel_revalidation: "ly_auth y = AuthRevalidating now probe \<Longrightarrow>
    login_step C login keepalive y ((revalidate_cancel C (ly_now y) probe late y)\<lparr>ly_auth := AuthIdle\<rparr>)"
| keep_begins: "keepalive \<Longrightarrow> ly_keep y = KeepIdle \<Longrightarrow> at_clock E y \<Longrightarrow>
    login_step C login keepalive y (keep_begin login E y)"
| keep_proceeds: "ly_keep y = KeepWaiting now \<Longrightarrow> \<not> revalidating y \<Longrightarrow> at_clock E y \<Longrightarrow>
    login_step C login keepalive y (keep_locked login E l now y)"
| keep_finishes: "ly_keep y = KeepRevalidating probe \<Longrightarrow> at_clock E y \<Longrightarrow>
    login_step C login keepalive y (keep_finish C E probe late outcome y)"
| keep_cancelled: "ly_keep y = KeepRevalidating probe \<Longrightarrow>
    login_step C login keepalive y ((revalidate_cancel C (ly_now y) probe late y)\<lparr>ly_keep := KeepIdle\<rparr>)"
| report: "at_clock E y \<Longrightarrow> global_signal E result code (lc_policy C) login c (ly_account y, ly_world y) = (a, w) \<Longrightarrow>
    login_step C login keepalive y (y\<lparr>ly_account := a, ly_world := w\<rparr>)"
| health: "login_step C login keepalive y (on_account (on_health h) y)"
| shared: "sdk_step L (ly_world y) w \<Longrightarrow> login_step C login keepalive y (y\<lparr>ly_world := w\<rparr>)"
| path: "login_step C login keepalive y (y\<lparr>ly_sdk_path := p\<rparr>)"

definition login_start :: "account \<Rightarrow> login_sys \<Rightarrow> bool" where
  \<comment> \<open>a Global account with a fresh login state\<close>
  "login_start a y \<longleftrightarrow>
     ly_account y = a \<and> ly_auth y = AuthIdle \<and> ly_keep y = KeepIdle \<and> ly_log y = [] \<and>
     (case account_global a of None \<Rightarrow> False | Some g \<Rightarrow> ga_state g = login_init)"

definition login_reach :: "login_client \<Rightarrow> login_config \<Rightarrow> bool \<Rightarrow> account \<Rightarrow> login_sys \<Rightarrow> bool" where
  "login_reach C login keepalive a y \<longleftrightarrow>
     (\<exists>y0. login_start a y0 \<and> (login_step C login keepalive)\<^sup>*\<^sup>* y0 y)"

subsection \<open>What an account keeps\<close>

definition login_kept :: "instant \<Rightarrow> account \<Rightarrow> account \<Rightarrow> bool" where
  \<comment> \<open>no attempt is added, attempts are forgotten by age only, no session is installed\<close>
  "login_kept now a a' \<longleftrightarrow>
     (\<exists>g g'. account_global a = Some g \<and> account_global a' = Some g' \<and>
        ga_expected_player_id g' = ga_expected_player_id g \<and>
        (ls_attempts (ga_state g') = ls_attempts (ga_state g) \<or>
         ls_attempts (ga_state g') = pop_expired now (ls_attempts (ga_state g))) \<and>
        (ls_session (ga_state g') = ls_session (ga_state g) \<or> ls_session (ga_state g') = None))"

lemma account_global_on [simp]:
  "account_global (on_login f a) = map_option (\<lambda>g. g\<lparr>ga_state := f (ga_state g)\<rparr>) (account_global a)"
  "account_global (on_health h a) = account_global a"
  "account_global (account_disable a) = account_global a"
  "account_global (account_cool_down t a) = account_global a"
  "account_global (account_revoke_path_failures k policy a) = account_global a"
  by (auto simp: account_global_def on_login_def on_health_def account_disable_def account_cool_down_def
      account_revoke_path_failures_def split: account_source.splits)

lemma pop_expired_idem [simp]: "pop_expired now (pop_expired now ts) = pop_expired now ts"
  by (induction ts) auto

lemma kept_refl: "account_global a = Some g \<Longrightarrow> login_kept now a a"
  by (simp add: login_kept_def)

lemma login_kept_trans: "login_kept now a b \<Longrightarrow> login_kept now b c \<Longrightarrow> login_kept now a c"
  unfolding login_kept_def by (elim exE conjE) (auto simp del: account_global_on)

lemma login_kept_cong: "account_global b = account_global a \<Longrightarrow> login_kept now x a \<Longrightarrow> login_kept now x b"
  by (simp add: login_kept_def)

lemma kept_on_login:
  assumes "login_kept now x a"
    and "\<And>s. ls_attempts (f s) = ls_attempts s \<or> ls_attempts (f s) = pop_expired now (ls_attempts s)"
    and "\<And>s. ls_session (f s) = ls_session s \<or> ls_session (f s) = None"
  shows "login_kept now x (on_login f a)"
proof -
  obtain g where g: "account_global a = Some g" using assms(1) by (auto simp: login_kept_def)
  have "login_kept now a (on_login f a)"
    using g assms(2,3) [of "ga_state g"] by (auto simp: login_kept_def)
  then show ?thesis by (rule login_kept_trans [OF assms(1)])
qed

lemma kept_invalidate:
  "login_kept now x a \<Longrightarrow> login_kept now x (fst (invalidate E stale (a, w)))"
  "login_kept now x a \<Longrightarrow> login_kept now x (fst (invalidate_twice E stale (a, w)))"
  by (auto simp: invalidate_def invalidate_twice_def count_invalidation_def split: prod.splits
      intro!: kept_on_login intro: login_kept_cong [of _ "on_login count_invalidation a"])

lemma kept_by_status:
  "login_kept now x a \<Longrightarrow> login_kept now x (fst (signal_by_status E error policy c (a, w)))"
  using kept_invalidate(2) by (auto simp: signal_by_status_def intro: login_kept_cong [of _ a])

lemma kept_concurrent:
  "login_kept (en_now E) x a \<Longrightarrow> login_kept (en_now E) x (on_login (concurrent_event (en_now E)) a)"
  by (rule kept_on_login) (auto simp: concurrent_event_def login_prune_def Let_def)

lemma kept_by_code:
  assumes "login_kept (en_now E) x a"
  shows "login_kept (en_now E) x (fst (signal_by_code E error c policy login ch (a, w)))"
proof -
  have drop: "login_kept (en_now E) x (on_login drop_session a)"
    by (rule kept_on_login [OF assms]) (auto simp: drop_session_def)
  obtain a1 w1 where inv: "invalidate E False (a, w) = (a1, w1)" by (cases "invalidate E False (a, w)")
  from kept_invalidate(1) [OF assms, of E False w] inv
  have "login_kept (en_now E) x (on_login (concurrent_event (en_now E)) a1)"
    by (simp add: kept_concurrent)
  note steps = drop assms kept_by_status [OF assms] kept_invalidate(2) [OF assms] this
  note congs = login_kept_cong [OF account_global_on(3)] login_kept_cong [OF account_global_on(4)]
  show ?thesis
    unfolding signal_by_code_def
    by (simp add: inv Let_def) (intro impI conjI congs steps)
qed

lemma kept_signal:
  assumes "login_kept (en_now E) x a" "global_signal E result code policy login ch (a, w) = (a', w')"
  shows "login_kept (en_now E) x a'"
proof -
  let ?noted = "\<lambda>c. on_login (\<lambda>s. s\<lparr>ls_last_error_code := Some c, ls_last_sdk_code := None\<rparr>) a"
  have "login_kept (en_now E) x (?noted c)" for c by (rule kept_on_login [OF assms(1)]) auto
  note coded = kept_by_code [OF this]
  have "login_kept (en_now E) x (signal_ok a)"
    unfolding signal_ok_def
    by (rule kept_on_login [OF login_kept_cong [OF account_global_on(2) assms(1)]]) auto
  moreover have "login_kept (en_now E) x (fst (global_signal E (Err error) code policy login ch (a, w)))" for error
    using assms(1) kept_by_status [OF assms(1), of E error policy ch w] coded
    by (auto simp: global_signal_def split: option.splits)
  moreover have "a' = fst (global_signal E result code policy login ch (a, w))" using assms(2) by simp
  ultimately show ?thesis
    using assms(1) by (cases result) (auto simp: global_signal_def split: option.splits)
qed

lemma login_kept_settle: "login_kept now x a \<Longrightarrow> login_kept now x (settle_charge policy c p a)"
  by (auto simp: settle_charge_def split: charge.splits option.splits intro: login_kept_cong [of _ a])

lemma kept_note: "login_kept now x a \<Longrightarrow> login_kept now x (on_login (note_sdk_error err) a)"
  by (rule kept_on_login) (auto simp: note_sdk_error_def)

lemma kept_refused: "login_kept now x a \<Longrightarrow> login_kept now x (account_refused code a)"
  unfolding account_refused_def by (rule login_kept_cong [OF account_global_on(3)]) (rule kept_note)

lemma kept_allowed:
  assumes "account_global a = Some g" "login_next_allowed now login (ga_state g) = (r, s1)"
  shows "login_kept now a (on_login (\<lambda>_. s1) a)"
  using assms by (auto simp: login_kept_def login_next_allowed_def login_prune_def Let_def)

subsection \<open>What the parts of a login change\<close>

lemma record_sdk_path_simps [simp]:
  "ly_account (record_sdk_path C now o1 y) = ly_account y" "ly_log (record_sdk_path C now o1 y) = ly_log y"
  "ly_auth (record_sdk_path C now o1 y) = ly_auth y" "ly_keep (record_sdk_path C now o1 y) = ly_keep y"
  "ly_now (record_sdk_path C now o1 y) = ly_now y" "ly_world (record_sdk_path C now o1 y) = ly_world y"
  by (simp_all add: record_sdk_path_def)

lemma drop_ticket_simps [simp]:
  "ly_account (drop_ticket probe y) = ly_account y" "ly_log (drop_ticket probe y) = ly_log y"
  "ly_auth (drop_ticket probe y) = ly_auth y" "ly_keep (drop_ticket probe y) = ly_keep y"
  "ly_now (drop_ticket probe y) = ly_now y" "ly_world (drop_ticket probe y) = ly_world y"
  by (simp_all add: drop_ticket_def)

lemma revalidate_cancel_simps [simp]:
  "ly_account (revalidate_cancel C now probe late y) = ly_account y"
  "ly_log (revalidate_cancel C now probe late y) = ly_log y"
  "ly_auth (revalidate_cancel C now probe late y) = ly_auth y"
  "ly_keep (revalidate_cancel C now probe late y) = ly_keep y"
  "ly_now (revalidate_cancel C now probe late y) = ly_now y"
  by (simp_all add: revalidate_cancel_def)

lemma on_account_simps [simp]:
  "ly_account (on_account f y) = f (ly_account y)" "ly_log (on_account f y) = ly_log y"
  "ly_auth (on_account f y) = ly_auth y" "ly_keep (on_account f y) = ly_keep y"
  "ly_now (on_account f y) = ly_now y" "ly_world (on_account f y) = ly_world y"
  by (simp_all add: on_account_def)

lemma log_event_simps [simp]:
  "ly_account (log_event ev y) = ly_account y" "ly_log (log_event ev y) = ly_log y @ [ev]"
  "ly_auth (log_event ev y) = ly_auth y" "ly_keep (log_event ev y) = ly_keep y"
  "ly_now (log_event ev y) = ly_now y" "ly_world (log_event ev y) = ly_world y"
  by (simp_all add: log_event_def)

lemma push_attempt_simps [simp]:
  "ly_account (push_attempt t y) = on_login (login_attempt t) (ly_account y)"
  "ly_log (push_attempt t y) = ly_log y @ [Attempt t]"
  "ly_auth (push_attempt t y) = ly_auth y" "ly_keep (push_attempt t y) = ly_keep y"
  "ly_now (push_attempt t y) = ly_now y" "ly_world (push_attempt t y) = ly_world y"
  by (simp_all add: push_attempt_def)

lemma auth_return_simps [simp]:
  "ly_account (auth_return r y) = ly_account y" "ly_log (auth_return r y) = ly_log y"
  "ly_auth (auth_return r y) = AuthDone r" "ly_keep (auth_return r y) = ly_keep y"
  "ly_now (auth_return r y) = ly_now y" "ly_world (auth_return r y) = ly_world y"
  by (simp_all add: auth_return_def)

lemma take_exclusive_fields:
  assumes "take_exclusive E l y = Some y1"
  shows "ly_account y1 = ly_account y" "ly_log y1 = ly_log y" "ly_auth y1 = ly_auth y"
    "ly_keep y1 = ly_keep y" "ly_now y1 = ly_now y"
  using assms by (auto simp: take_exclusive_def split: lock_outcome.splits prod.splits)

lemma revalidate_begin_fields:
  assumes "revalidate_begin clock now y = Some (probe, y1)"
  shows "ly_account y1 = on_login (login_attempt now) (ly_account y)" "ly_auth y1 = ly_auth y"
    "ly_keep y1 = ly_keep y" "ly_now y1 = ly_now y" "\<exists>base. ly_log y1 = ly_log y @ [Attempt now, CacheLogin base]"
  using assms by (auto simp: revalidate_begin_def Let_def split: option.splits)

lemma revalidate_failed_fields:
  assumes "login_kept now x (ly_account y)"
  shows "login_kept now x (ly_account (revalidate_failed E err y))" "ly_log (revalidate_failed E err y) = ly_log y"
    "ly_auth (revalidate_failed E err y) = ly_auth y" "ly_keep (revalidate_failed E err y) = ly_keep y"
    "ly_now (revalidate_failed E err y) = ly_now y"
  using kept_note [OF assms, of err] login_kept_cong [OF account_global_on(3) kept_note [OF assms, of err]]
  by (auto simp: revalidate_failed_def Let_def split: prod.splits sdk_error.splits)

lemma revalidate_finish_fields:
  assumes "revalidate_finish C E probe late outcome y = (r, y1)" "login_kept now x (ly_account y)"
  shows "login_kept now x (ly_account y1)" "ly_log y1 = ly_log y" "ly_auth y1 = ly_auth y"
    "ly_keep y1 = ly_keep y" "ly_now y1 = ly_now y"
  using assms revalidate_failed_fields [where now = now and x = x and E = E]
  by (auto simp: revalidate_finish_def Let_def split: sum.splits prod.splits option.splits)

lemma start_login_simps [simp]:
  "ly_keep (start_login C shared y) = ly_keep y" "ly_now (start_login C shared y) = ly_now y"
  by (simp_all add: start_login_def Let_def split: prod.splits)

lemma start_login_fields:
  assumes "login_kept now x (ly_account y)"
  shows "login_kept now x (ly_account (start_login C shared y))"
    "\<exists>req auth. ly_log (start_login C shared y) = ly_log y @ [PlayerLogin req auth]"
    "\<exists>sdk. ly_auth (start_login C shared y) = AuthLoggingIn sdk"
proof -
  have "login_kept now x (on_login (\<lambda>s. s\<lparr>ls_sdk_generation := gen\<rparr>) (ly_account y))" for gen
    by (rule kept_on_login [OF assms]) auto
  then show "login_kept now x (ly_account (start_login C shared y))"
    by (simp add: start_login_def Let_def split: prod.splits)
qed (simp_all add: start_login_def Let_def split: prod.splits)

subsection \<open>The rate limit under interleaving\<close>

fun attempts_of :: "login_event list \<Rightarrow> instant list" where
  "attempts_of [] = []"
| "attempts_of (Attempt t # evs) = t # attempts_of evs"
| "attempts_of (_ # evs) = attempts_of evs"

lemma attempts_of_append [simp]: "attempts_of (xs @ ys) = attempts_of xs @ attempts_of ys"
  by (induction xs rule: attempts_of.induct) auto

definition may_attempt :: "login_config \<Rightarrow> instant \<Rightarrow> instant \<Rightarrow> instant list \<Rightarrow> bool" where
  "may_attempt login t now h \<longleftrightarrow>
     t \<le> now \<and> (\<forall>x \<in> set h. x \<le> t) \<and>
     (h \<noteq> [] \<longrightarrow> last h + from_secs (login_min_interval_seconds login) \<le> t) \<and>
     length (recent t h) < max_logins_per_day login"

definition rate_inv ::
  "login_config \<Rightarrow> instant \<Rightarrow> login_event list \<Rightarrow> account \<Rightarrow> auth_phase \<Rightarrow> bool" where
  "rate_inv login now evs a ph \<longleftrightarrow>
     (\<exists>g. account_global a = Some g \<and> login_inv (attempts_of evs) now (ga_state g)) \<and>
     rate_ok login (attempts_of evs) \<and>
     (\<forall>t seen. ph = AuthWaiting t seen \<longrightarrow> may_attempt login t now (attempts_of evs))"

lemma login_inv_attempts:
  assumes "login_inv h now s" "ls_attempts s' = ls_attempts s \<or> ls_attempts s' = pop_expired now (ls_attempts s)"
  shows "login_inv h now s'"
proof -
  have cong: "login_inv h now x \<Longrightarrow> ls_attempts s' = ls_attempts x \<Longrightarrow> login_inv h now s'" for x
    by (simp add: login_inv_def)
  from assms(2) show ?thesis
    using cong [OF assms(1)] cong [OF login_inv_prune(1) [OF assms(1) order_refl]]
    by (auto simp: login_prune_def)
qed

lemma login_inv_later: "login_inv h now s \<Longrightarrow> now \<le> now' \<Longrightarrow> login_inv h now' s"
  by (force simp: login_inv_def intro: le_trans)

lemma rate_kept:
  assumes "rate_inv login now evs a ph" "login_kept now a a'"
    and "attempts_of evs' = attempts_of evs" "\<And>t seen. ph' = AuthWaiting t seen \<Longrightarrow> ph' = ph"
  shows "rate_inv login now evs' a' ph'"
proof -
  obtain g g' where g: "account_global a = Some g" "account_global a' = Some g'"
    and att: "ls_attempts (ga_state g') = ls_attempts (ga_state g) \<or>
      ls_attempts (ga_state g') = pop_expired now (ls_attempts (ga_state g))"
    using assms(2) by (auto simp: login_kept_def)
  then have "login_inv (attempts_of evs) now (ga_state g')"
    using assms(1) login_inv_attempts [OF _ att] by (auto simp: rate_inv_def)
  with g(2) assms(1,3,4) show ?thesis by (auto simp: rate_inv_def)
qed

lemma rate_later:
  assumes "rate_inv login now evs a ph" "now \<le> now'"
  shows "rate_inv login now' evs a ph"
  using assms login_inv_later by (fastforce simp: rate_inv_def may_attempt_def)

lemma rate_push:
  assumes "rate_inv login now evs a ph" "may_attempt login t now (attempts_of evs)"
    and "attempts_of evs' = attempts_of evs @ [t]" "\<And>t seen. ph' \<noteq> AuthWaiting t seen"
  shows "rate_inv login now evs' (on_login (login_attempt t) a) ph'"
proof -
  obtain g where g: "account_global a = Some g" "login_inv (attempts_of evs) now (ga_state g)"
    and ok: "rate_ok login (attempts_of evs)"
    using assms(1) by (auto simp: rate_inv_def)
  from g(2) obtain old where "attempts_of evs = old @ ls_attempts (ga_state g)" "\<forall>x \<in> set old. x + DAY \<le> now"
    "sorted (attempts_of evs)" by (auto simp: login_inv_def)
  with assms(2) have "login_inv (attempts_of evs @ [t]) now (login_attempt t (ga_state g))"
    unfolding login_inv_def may_attempt_def
    by (intro conjI exI [of _ old]) (auto simp: login_attempt_def sorted_append intro: le_trans)
  moreover have "rate_ok login (attempts_of evs @ [t])"
    using assms(2) by (intro rate_ok_snoc [OF ok]) (auto simp: may_attempt_def)
  ultimately show ?thesis using g(1) assms(3,4) by (simp add: rate_inv_def)
qed

lemma rate_allowed:
  assumes "rate_inv login now evs a ph" "account_global a = Some g"
    and "login_next_allowed now login (ga_state g) = (None, s1)"
    and "0 < max_logins_per_day login" "login_min_interval_seconds login \<le> 86400"
  shows "may_attempt login now now (attempts_of evs)"
proof -
  have inv: "login_inv (attempts_of evs) now (ga_state g)" using assms(1,2) by (auto simp: rate_inv_def)
  with login_allowed_gap [OF inv order_refl assms(5,3)] login_allowed_cap [OF inv order_refl assms(4,3)]
  show ?thesis by (auto simp: may_attempt_def login_inv_def)
qed

definition sys_rate :: "login_config \<Rightarrow> login_sys \<Rightarrow> bool" where
  "sys_rate login y \<longleftrightarrow> rate_inv login (ly_now y) (ly_log y) (ly_account y) (ly_auth y)"

lemma sys_kept:
  assumes "sys_rate login y" "login_kept (ly_now y) (ly_account y) (ly_account y')" "ly_now y' = ly_now y"
    and "attempts_of (ly_log y') = attempts_of (ly_log y)" "\<And>t seen. ly_auth y' = AuthWaiting t seen \<Longrightarrow> ly_auth y' = ly_auth y"
  shows "sys_rate login y'"
  using rate_kept [OF assms(1) [unfolded sys_rate_def] assms(2,4,5)] assms(3) by (simp add: sys_rate_def)

lemma sys_global: "sys_rate login y \<Longrightarrow> \<exists>g. account_global (ly_account y) = Some g"
  by (auto simp: sys_rate_def rate_inv_def)

lemma sys_refl: "sys_rate login y \<Longrightarrow> login_kept now (ly_account y) (ly_account y)"
  using sys_global kept_refl by blast

lemma sys_start:
  assumes "sys_rate login y" "may_attempt login t (ly_now y) (attempts_of (ly_log y))"
  shows "sys_rate login (start_login C shared (push_attempt t y))"
proof -
  have "sys_rate login ((push_attempt t y)\<lparr>ly_auth := AuthIdle\<rparr>)"
    using rate_push [OF assms(1) [unfolded sys_rate_def] assms(2), of "ly_log y @ [Attempt t]" AuthIdle]
    by (simp add: sys_rate_def)
  note pushed = this
  have kept: "login_kept (ly_now y) (ly_account (push_attempt t y)) (ly_account (push_attempt t y))"
    using sys_refl [OF pushed] by simp
  note fields = start_login_fields [OF kept, of C shared]
  show ?thesis
    by (rule sys_kept [OF pushed]) (use fields in \<open>auto\<close>)
qed

lemma sys_return:
  assumes "sys_rate login y" "login_kept (ly_now y) (ly_account y) (ly_account y')" "ly_now y' = ly_now y"
    and "ly_log y' = ly_log y"
  shows "sys_rate login (auth_return r y')"
  by (rule sys_kept [OF assms(1)]) (use assms in auto)

lemma auth_begin_rate:
  assumes "sys_rate login y" "at_clock E y" "lc_login C = Some login" "0 < max_logins_per_day login"
    "login_min_interval_seconds login \<le> 86400"
  shows "sys_rate login (auth_begin C E y)"
proof -
  obtain g where g: "account_global (ly_account y) = Some g" using sys_global [OF assms(1)] by blast
  obtain r s1 where nxt: "login_next_allowed (ly_now y) login (ga_state g) = (r, s1)" by fastforce
  let ?y1 = "on_account (on_login (\<lambda>_. s1)) y"
  note refl = sys_refl [OF assms(1)]
  note pruned = kept_allowed [OF g nxt]
  have y1: "sys_rate login ?y1" by (rule sys_kept [OF assms(1)]) (use pruned in auto)
  have stop: "sys_rate login (auth_return r y)" for r by (rule sys_return [OF assms(1)]) (use refl in auto)
  have refused: "sys_rate login (auth_return (Err AccountUnavailable) (on_account (account_refused code) y))" for code
    by (rule sys_return [OF assms(1)]) (use kept_refused [OF refl] in auto)
  have cooled: "sys_rate login (auth_return (Err AccountUnavailable)
      (on_account (\<lambda>a. account_cool_down until (on_login (\<lambda>_. s1) a)) y))" for until
    by (rule sys_return [OF assms(1)]) (use login_kept_cong [OF account_global_on(4) pruned] in auto)
  have allowed: "may_attempt login (ly_now y) (ly_now y) (attempts_of (ly_log y))" if "r = None"
    using rate_allowed [OF assms(1) [unfolded sys_rate_def] g _ assms(4,5)] nxt that by simp
  have waits: "sys_rate login (?y1\<lparr>ly_auth := AuthWaiting (ly_now y) seen\<rparr>)" if "r = None" for seen
    using y1 allowed [OF that] by (simp add: sys_rate_def rate_inv_def)
  have starts: "sys_rate login (start_login C shared (push_attempt (ly_now y) ?y1))" if "r = None" for shared
    by (rule sys_start [OF y1]) (use allowed [OF that] in simp)
  show ?thesis
    using assms(2,3) g nxt stop refused cooled waits starts
    by (auto simp: auth_begin_def at_clock_def Let_def split: option.splits)
qed

lemma auth_locked_rate:
  assumes "sys_rate login y" "ly_auth y = AuthWaiting now seen"
  shows "sys_rate login (auth_locked C login E l now seen y)"
proof (cases "take_exclusive E l y")
  case None
  then show ?thesis using sys_return [OF assms(1) sys_refl [OF assms(1)]] by (simp add: auth_locked_def)
next
  case (Some y1)
  note f = take_exclusive_fields [OF Some]
  have y1: "sys_rate login y1" using assms(1) f by (simp add: sys_rate_def)
  note refl = sys_refl [OF y1]
  have may: "may_attempt login now (ly_now y1) (attempts_of (ly_log y1))"
    using assms f by (simp add: sys_rate_def rate_inv_def)
  have stop: "sys_rate login (auth_return r y1)" for r by (rule sys_return [OF y1]) (use refl in auto)
  have refused: "sys_rate login (auth_return (Err AccountUnavailable) (on_account (account_refused code) y1))" for code
    by (rule sys_return [OF y1]) (use kept_refused [OF refl] in auto)
  have sends: "sys_rate login (y2\<lparr>ly_auth := AuthRevalidating now probe\<rparr>)"
    if b: "revalidate_begin clock now y1 = Some (probe, y2)" for clock probe y2
  proof -
    obtain base where "ly_log y2 = ly_log y1 @ [Attempt now, CacheLogin base]"
      using revalidate_begin_fields(5) [OF b] by blast
    with revalidate_begin_fields [OF b] rate_push [OF y1 [unfolded sys_rate_def] may]
    show ?thesis by (simp add: sys_rate_def)
  qed
  show ?thesis
    using Some stop refused sends sys_start [OF y1 may]
    by (auto simp: auth_locked_def split: option.splits)
qed

lemma auth_revalidated_rate:
  assumes "sys_rate login y"
  shows "sys_rate login (auth_revalidated C E probe late outcome y)"
proof -
  obtain r y1 where fin: "revalidate_finish C E probe late outcome y = (r, y1)" by fastforce
  note f = revalidate_finish_fields [OF fin sys_refl [OF assms, of "ly_now y"]]
  have "sys_rate login (auth_return q y1)" for q by (rule sys_return [OF assms]) (use f in auto)
  moreover have "sys_rate login (start_login C shared y1)" for shared
    by (rule sys_kept [OF assms]) (use start_login_fields [OF f(1), of C shared] f in auto)
  ultimately show ?thesis by (simp add: auth_revalidated_def fin split: sum.splits)
qed

lemma login_rejected_fields:
  assumes "login_kept (en_now E) x (ly_account y)"
  shows "login_kept (en_now E) x (ly_account (login_rejected C login E p p' result code y))"
    "ly_log (login_rejected C login E p p' result code y) = ly_log y"
    "ly_auth (login_rejected C login E p p' result code y) =
       AuthDone (Err (login_failure (case result of Inl err \<Rightarrow> err | Inr _ \<Rightarrow> Protocol)))"
    "ly_keep (login_rejected C login E p p' result code y) = ly_keep y"
    "ly_now (login_rejected C login E p p' result code y) = ly_now y"
  using login_kept_settle [OF kept_signal [OF assms]]
  by (auto simp: login_rejected_def Let_def split: prod.splits)

lemma auth_finish_rate:
  assumes "sys_rate login y" "at_clock E y"
  shows "sys_rate login (auth_finish C login E p p' sdk result code y)"
proof -
  note refl = sys_refl [OF assms(1), of "en_now E"]
  note rej = login_rejected_fields [OF refl, of C login p p' result code]
  have "sys_rate login (login_rejected C login E p p' result code y)"
    by (rule sys_kept [OF assms(1)]) (use rej assms(2) in \<open>auto simp: at_clock_def\<close>)
  moreover have "sys_rate login (auth_return r (on_account (\<lambda>a. account_disable
      (on_login (\<lambda>st. st\<lparr>ls_last_error_code := Some c, ls_last_sdk_code := None\<rparr>) a)) y))" for r c
    by (rule sys_return [OF assms(1)], simp_all)
      (rule login_kept_cong [OF account_global_on(3)], rule kept_on_login [OF sys_refl [OF assms(1)]], auto)
  moreover have "sys_rate login (auth_return r (log_event (Installed s)
      (on_account (on_login (install_session s wall)) y)))" for r s wall
    using assms(1) by (auto simp: sys_rate_def rate_inv_def install_session_def login_inv_def)
  ultimately show ?thesis by (auto simp: auth_finish_def split: option.splits sum.splits)
qed

lemma revalidate_finish_keep:
  "ly_keep (snd (revalidate_finish C E probe late outcome y)) = ly_keep y"
  by (auto simp: revalidate_finish_def revalidate_failed_def Let_def split: sum.splits prod.splits option.splits
      sdk_error.splits)

lemma revalidate_begin_keep: "revalidate_begin clock now y = Some (probe, y1) \<Longrightarrow> ly_keep y1 = ly_keep y"
  by (rule revalidate_begin_fields(3))

lemma auth_keep:
  "ly_keep (auth_begin C E y) = ly_keep y"
  "ly_keep (auth_locked C login E l now seen y) = ly_keep y"
  "ly_keep (auth_revalidated C E probe late outcome y) = ly_keep y"
  "ly_keep (auth_finish C login E p p' sdk result code y) = ly_keep y"
proof -
  show "ly_keep (auth_begin C E y) = ly_keep y"
    by (auto simp: auth_begin_def Let_def split: option.splits prod.splits)
  show "ly_keep (auth_locked C login E l now seen y) = ly_keep y"
    by (auto simp: auth_locked_def take_exclusive_fields revalidate_begin_keep split: option.splits)
  show "ly_keep (auth_revalidated C E probe late outcome y) = ly_keep y"
    using revalidate_finish_keep [of C E probe late outcome y]
    by (auto simp: auth_revalidated_def split: sum.splits prod.splits)
  show "ly_keep (auth_finish C login E p p' sdk result code y) = ly_keep y"
    by (auto simp: auth_finish_def login_rejected_def Let_def split: option.splits sum.splits prod.splits)
qed

lemma login_step_rate:
  assumes "login_step C login False y y'" "sys_rate login y" "ly_keep y = KeepIdle"
    and "lc_login C = Some login" "0 < max_logins_per_day login" "login_min_interval_seconds login \<le> 86400"
  shows "sys_rate login y' \<and> ly_keep y' = KeepIdle"
  using assms
proof (induction rule: login_step.induct)
  case (tick y t)
  then show ?case using rate_later by (auto simp: sys_rate_def)
next
  case (begin_auth y E)
  then show ?case using auth_begin_rate by (auto simp: auth_keep)
next
  case (locked y now seen E l)
  then show ?case using auth_locked_rate by (auto simp: auth_keep)
next
  case (revalidated y now probe E late outcome)
  then show ?case using auth_revalidated_rate by (auto simp: auth_keep)
next
  case (finish y sdk_account E p p' result code)
  then show ?case using auth_finish_rate by (auto simp: auth_keep)
next
  case (report E y result code c a w)
  then show ?case
    using sys_kept [OF report.prems(1), of "y\<lparr>ly_account := a, ly_world := w\<rparr>"]
      kept_signal [OF sys_refl [OF report.prems(1)] report.hyps(2)] by (auto simp: at_clock_def)
next
  case (health y h)
  then show ?case by (auto simp: sys_rate_def rate_inv_def)
qed (auto simp: sys_rate_def rate_inv_def)

subsection \<open>Requests are counted before they are sent\<close>

fun event_kind :: "login_event \<Rightarrow> nat" where
  "event_kind (Attempt _) = 0"
| "event_kind (CacheLogin _) = 1"
| "event_kind (PlayerLogin _ _) = 2"
| "event_kind (Installed _) = 3"

definition events :: "nat \<Rightarrow> login_event list \<Rightarrow> nat" where
  "events k evs = length (filter (\<lambda>ev. event_kind ev = k) evs)"

lemma events_simps [simp]:
  "events k [] = 0" "events k (evs @ evs') = events k evs + events k evs'"
  "events k (ev # evs) = (if event_kind ev = k then 1 else 0) + events k evs"
  by (simp_all add: events_def)

definition counted :: "login_event list \<Rightarrow> bool" where
  \<comment> \<open>at every moment, no more requests of either kind than attempts\<close>
  "counted evs \<longleftrightarrow>
     (\<forall>n. events 1 (take n evs) \<le> events 0 (take n evs) \<and> events 2 (take n evs) \<le> events 0 (take n evs))"

definition fits :: "string option \<Rightarrow> string \<Rightarrow> bool" where
  "fits expected player \<longleftrightarrow> expected = None \<or> expected = Some player"

definition pinned :: "string option \<Rightarrow> account \<Rightarrow> bool" where
  "pinned expected a \<longleftrightarrow>
     (\<exists>g. account_global a = Some g \<and> ga_expected_player_id g = expected \<and>
        (\<forall>s. ls_session (ga_state g) = Some s \<longrightarrow> fits expected (se_player_id s)))"

definition logged :: "string option \<Rightarrow> login_event list \<Rightarrow> bool \<Rightarrow> bool" where
  "logged expected evs pending \<longleftrightarrow>
     counted evs \<and> (\<forall>s. Installed s \<in> set evs \<longrightarrow> fits expected (se_player_id s)) \<and>
     events 1 evs \<le> events 0 evs \<and> events 2 evs + (if pending then 1 else 0) \<le> events 0 evs"

fun phase_pending :: "auth_phase \<Rightarrow> bool" where
  "phase_pending (AuthRevalidating _ _) = True"
| "phase_pending _ = False"

definition audit :: "string option \<Rightarrow> login_sys \<Rightarrow> bool" where
  "audit expected y \<longleftrightarrow>
     pinned expected (ly_account y) \<and> logged expected (ly_log y) (phase_pending (ly_auth y)) \<and>
     (\<forall>auth. ly_auth y = AuthDone (Ok auth) \<longrightarrow> fits expected (au_player_id auth))"

lemma counted_append:
  assumes "counted evs"
    and "\<And>n. events 1 evs + events 1 (take n new) \<le> events 0 evs + events 0 (take n new) \<and>
      events 2 evs + events 2 (take n new) \<le> events 0 evs + events 0 (take n new)"
  shows "counted (evs @ new)"
  unfolding counted_def
proof
  fix n
  show "events 1 (take n (evs @ new)) \<le> events 0 (take n (evs @ new)) \<and>
        events 2 (take n (evs @ new)) \<le> events 0 (take n (evs @ new))"
  proof (cases "n \<le> length evs")
    case True
    with assms(1) show ?thesis by (simp add: counted_def)
  next
    case False
    with assms(2) [of "n - length evs"] show ?thesis by simp
  qed
qed

lemma logged_append:
  assumes "logged expected evs pending"
    and "\<And>n. events 1 evs + events 1 (take n new) \<le> events 0 evs + events 0 (take n new) \<and>
      events 2 evs + events 2 (take n new) \<le> events 0 evs + events 0 (take n new)"
    and "\<And>s. Installed s \<in> set new \<Longrightarrow> fits expected (se_player_id s)"
    and "events 2 evs + events 2 new + (if pending' then 1 else 0) \<le> events 0 evs + events 0 new"
  shows "logged expected (evs @ new) pending'"
  using assms(1,3,4) counted_append [OF _ assms(2)] assms(2) [of "length new"]
  by (auto simp: logged_def)

lemma take_one: "take n [x] = (if n = 0 then [] else [x])"
  by (cases n) auto

lemma take_two: "take n [x, y] = (if n = 0 then [] else if n = 1 then [x] else [x, y])"
  by (cases n; cases "n - 1") auto

lemma logged_attempt:
  "logged expected evs pending \<Longrightarrow> logged expected (evs @ [Attempt t]) True"
  by (rule logged_append) (auto simp: logged_def take_one)

lemma logged_cache:
  "logged expected evs pending \<Longrightarrow> logged expected (evs @ [Attempt t, CacheLogin base]) True"
  by (rule logged_append) (auto simp: logged_def take_two)

lemma logged_player:
  "logged expected evs True \<Longrightarrow> logged expected (evs @ [PlayerLogin req auth]) False"
  by (rule logged_append) (auto simp: logged_def take_one)

lemma logged_installed:
  "logged expected evs pending \<Longrightarrow> fits expected (se_player_id s) \<Longrightarrow> logged expected (evs @ [Installed s]) False"
  by (rule logged_append) (auto simp: logged_def take_one)

lemma logged_weaken: "logged expected evs pending \<Longrightarrow> (pending' \<Longrightarrow> pending) \<Longrightarrow> logged expected evs pending'"
  by (auto simp: logged_def)

lemma pinned_kept: "pinned expected a \<Longrightarrow> login_kept now a a' \<Longrightarrow> pinned expected a'"
  unfolding pinned_def login_kept_def by (elim exE conjE disjE) auto

lemma pinned_refl: "pinned expected a \<Longrightarrow> login_kept now a a"
  by (auto simp: pinned_def kept_refl)

lemma pinned_attempt [simp]: "pinned expected (on_login (login_attempt t) a) = pinned expected a"
  by (auto simp: pinned_def login_attempt_def)

lemma pinned_headers:
  "pinned expected a \<Longrightarrow> account_auth_headers a = Some auth \<Longrightarrow> fits expected (au_player_id auth)"
  by (auto simp: pinned_def account_auth_headers_def account_global_def split: account_source.splits)

lemma audit_keptI:
  assumes "audit expected y" "login_kept now (ly_account y) (ly_account y')" "ly_log y' = ly_log y"
    and "phase_pending (ly_auth y') \<Longrightarrow> phase_pending (ly_auth y)"
    and "\<And>auth. ly_auth y' = AuthDone (Ok auth) \<Longrightarrow> fits expected (au_player_id auth)"
  shows "audit expected y'"
  using assms pinned_kept [OF _ assms(2)] logged_weaken [OF _ assms(4)] by (auto simp: audit_def)

lemma audit_refl: "audit expected y \<Longrightarrow> login_kept now (ly_account y) (ly_account y)"
  by (auto simp: audit_def intro: pinned_refl)

lemma audit_start:
  assumes "pinned expected (ly_account y)" "logged expected (ly_log y) True"
  shows "audit expected (start_login C shared y)"
proof -
  note f = start_login_fields [OF pinned_refl [OF assms(1), of 0], of C shared]
  from f(2) obtain req auth where "ly_log (start_login C shared y) = ly_log y @ [PlayerLogin req auth]" by blast
  with f(3) pinned_kept [OF assms(1) f(1)] logged_player [OF assms(2)] show ?thesis by (auto simp: audit_def)
qed

lemma audit_push_start:
  assumes "audit expected y"
  shows "audit expected (start_login C shared (push_attempt t y))"
  by (rule audit_start) (use assms logged_attempt in \<open>auto simp: audit_def\<close>)

lemma audit_begin:
  assumes "audit expected y" "revalidate_begin clock now y = Some (probe, y1)"
  shows "pinned expected (ly_account y1)" "logged expected (ly_log y1) True"
  using assms(1) revalidate_begin_fields(1,5) [OF assms(2)] logged_cache by (auto simp: audit_def)

lemma auth_begin_audit:
  assumes "audit expected y"
  shows "audit expected (auth_begin C E y)"
proof -
  note refl = audit_refl [OF assms]
  have stop: "audit expected (auth_return r y)" if "\<And>auth. r = Ok auth \<Longrightarrow> fits expected (au_player_id auth)" for r
    by (rule audit_keptI [OF assms]) (use refl that in auto)
  have headers: "audit expected (auth_return (Ok auth) y)" if "account_auth_headers (ly_account y) = Some auth" for auth
    by (rule stop) (use pinned_headers [OF _ that] assms in \<open>auto simp: audit_def\<close>)
  have refused: "audit expected (auth_return (Err AccountUnavailable) (on_account (account_refused code) y))" for code
    by (rule audit_keptI [OF assms]) (use kept_refused [OF refl] in auto)
  have pruned: "login_kept (en_now E) (ly_account y) (on_login (\<lambda>_. s1) (ly_account y))"
    if "account_global (ly_account y) = Some g" "login_next_allowed (en_now E) login (ga_state g) = (r, s1)" for g login r s1
    by (rule kept_allowed [OF that])
  have cooled: "audit expected (auth_return (Err AccountUnavailable)
      (on_account (\<lambda>a. account_cool_down until (on_login (\<lambda>_. s1) a)) y))"
    if "account_global (ly_account y) = Some g" "login_next_allowed (en_now E) login (ga_state g) = (r, s1)"
    for g login r s1 until
    by (rule audit_keptI [OF assms]) (use login_kept_cong [OF account_global_on(4) pruned [OF that]] in auto)
  have moved: "audit expected ((on_account (on_login (\<lambda>_. s1)) y)\<lparr>ly_auth := AuthWaiting t seen\<rparr>)"
    if "account_global (ly_account y) = Some g" "login_next_allowed (en_now E) login (ga_state g) = (r, s1)"
    for g login r s1 t seen
    by (rule audit_keptI [OF assms]) (use pruned [OF that] in auto)
  have starts: "audit expected (start_login C shared (push_attempt t (on_account (on_login (\<lambda>_. s1)) y)))"
    if "account_global (ly_account y) = Some g" "login_next_allowed (en_now E) login (ga_state g) = (r, s1)"
    for g login r s1 t shared
    by (rule audit_start)
      (use pinned_kept [OF _ pruned [OF that]] assms logged_attempt in \<open>auto simp: audit_def\<close>)
  show ?thesis
    unfolding auth_begin_def Let_def
    by (auto split: option.splits prod.splits intro: headers refused cooled moved starts stop)
qed

lemma auth_locked_audit:
  assumes "audit expected y"
  shows "audit expected (auth_locked C login E l now seen y)"
proof (cases "take_exclusive E l y")
  case None
  moreover have "audit expected (auth_return (Err Timeout) y)"
    by (rule audit_keptI [OF assms]) (use audit_refl [OF assms] in auto)
  ultimately show ?thesis by (simp add: auth_locked_def)
next
  case (Some y1)
  have y1: "audit expected y1" using assms take_exclusive_fields [OF Some] by (simp add: audit_def)
  note refl = audit_refl [OF y1]
  have stop: "audit expected (auth_return (Err err) y1)" for err by (rule audit_keptI [OF y1]) (use refl in auto)
  have refused: "audit expected (auth_return (Err AccountUnavailable) (on_account (account_refused code) y1))" for code
    by (rule audit_keptI [OF y1]) (use kept_refused [OF refl] in auto)
  have sends: "audit expected (y2\<lparr>ly_auth := AuthRevalidating now probe\<rparr>)"
    if "revalidate_begin clock now y1 = Some (probe, y2)" for clock probe y2
    using audit_begin [OF y1 that] by (simp add: audit_def)
  show ?thesis
    using Some stop refused sends audit_push_start [OF y1]
    by (auto simp: auth_locked_def split: option.splits)
qed

lemma auth_revalidated_audit:
  assumes "audit expected y" "ly_auth y = AuthRevalidating now probe"
  shows "audit expected (auth_revalidated C E probe late outcome y)"
proof -
  obtain r y1 where fin: "revalidate_finish C E probe late outcome y = (r, y1)" by fastforce
  note f = revalidate_finish_fields [OF fin audit_refl [OF assms(1), of 0]]
  have "audit expected (auth_return (Err err) y1)" for err by (rule audit_keptI [OF assms(1)]) (use f in auto)
  moreover have "audit expected (start_login C shared y1)" for shared
    by (rule audit_start) (use assms f(2) pinned_kept [OF _ f(1)] in \<open>auto simp: audit_def\<close>)
  ultimately show ?thesis by (simp add: auth_revalidated_def fin split: sum.splits)
qed

lemma auth_finish_audit:
  assumes "audit expected y"
  shows "audit expected (auth_finish C login E p p' sdk result code y)"
proof -
  note refl = audit_refl [OF assms]
  note rej = login_rejected_fields [OF audit_refl [OF assms, of "en_now E"], of C login p p' result code]
  have "audit expected (login_rejected C login E p p' result code y)"
    by (rule audit_keptI [OF assms]) (use rej in auto)
  moreover have "audit expected (auth_return (Err err) (on_account (\<lambda>a. account_disable
      (on_login (\<lambda>st. st\<lparr>ls_last_error_code := Some c, ls_last_sdk_code := None\<rparr>) a)) y))" for err c
    by (rule audit_keptI [OF assms], simp_all)
      (rule login_kept_cong [OF account_global_on(3)], rule kept_on_login [OF refl], auto)
  moreover have "audit expected (auth_return (Ok auth) (log_event (Installed s)
      (on_account (on_login (install_session s wall)) y)))"
    if "\<not> player_mismatch (ly_account y) s" "au_player_id auth = se_player_id s" for auth s wall
  proof -
    have "fits expected (se_player_id s)"
      using that(1) assms by (auto simp: player_mismatch_def audit_def pinned_def fits_def split: option.splits)
    with assms that(2) logged_installed show ?thesis
      by (auto simp: audit_def pinned_def install_session_def)
  qed
  ultimately show ?thesis by (auto simp: auth_finish_def split: option.splits sum.splits)
qed

lemma keep_locked_audit:
  assumes "audit expected y"
  shows "audit expected (keep_locked login E l now y)"
proof (cases "take_exclusive E l y")
  case None
  then show ?thesis using assms by (simp add: keep_locked_def audit_def)
next
  case (Some y1)
  have y1: "audit expected y1" using assms take_exclusive_fields [OF Some] by (simp add: audit_def)
  have pruned: "audit expected (on_account (on_login (\<lambda>_. s1)) y1)"
    if "account_global (ly_account y1) = Some g" "login_next_allowed now login (ga_state g) = (r, s1)" for g r s1
    by (rule audit_keptI [OF y1]) (use kept_allowed [OF that] y1 in \<open>auto simp: audit_def\<close>)
  have sends: "audit expected (y3\<lparr>ly_keep := KeepRevalidating probe\<rparr>)"
    if "audit expected y2" "revalidate_begin clock now y2 = Some (probe, y3)" for clock probe y2 y3
    using audit_begin [OF that] logged_weaken that(1) revalidate_begin_fields(2) [OF that(2)]
    by (auto simp: audit_def)
  have idle: "audit expected y2 \<Longrightarrow> audit expected (y2\<lparr>ly_keep := k\<rparr>)" for y2 k by (simp add: audit_def)
  show ?thesis
    unfolding keep_locked_def Let_def Some option.case
    by (auto split: option.splits prod.splits intro: idle y1 pruned sends)
qed

lemma login_step_audit:
  "login_step C login keepalive y y' \<Longrightarrow> audit expected y \<Longrightarrow> audit expected y'"
proof (induction rule: login_step.induct)
  case (revalidated y now probe E late outcome)
  then show ?case using auth_revalidated_audit by blast
next
  case (keep_finishes y probe E late outcome)
  obtain r y1 where fin: "revalidate_finish C E probe late outcome y = (r, y1)" by fastforce
  note f = revalidate_finish_fields [OF fin audit_refl [OF keep_finishes.prems, of 0]]
  show ?case
    by (rule audit_keptI [OF keep_finishes.prems])
      (use f fin keep_finishes.prems in \<open>auto simp: keep_finish_def audit_def\<close>)
next
  case (report E y result code c a w)
  show ?case
    by (rule audit_keptI [OF report.prems])
      (use kept_signal [OF audit_refl [OF report.prems] report.hyps(2)] report.prems in \<open>auto simp: audit_def\<close>)
next
  case (health y h)
  then show ?case by (auto simp: audit_def pinned_def)
next
  case (begin_auth y E)
  then show ?case by (simp add: auth_begin_audit)
next
  case (locked y now seen E l)
  then show ?case by (simp add: auth_locked_audit)
next
  case (finish y sdk_account E p p' result code)
  then show ?case by (simp add: auth_finish_audit)
next
  case (keep_proceeds y now E l)
  then show ?case by (simp add: keep_locked_audit)
qed (auto simp: audit_def keep_begin_def elim: logged_weaken)

lemma audit_reach:
  assumes "login_reach C login keepalive a y" "account_global a = Some g"
  shows "audit (ga_expected_player_id g) y"
proof -
  obtain y0 where start: "login_start a y0" and steps: "(login_step C login keepalive)\<^sup>*\<^sup>* y0 y"
    using assms(1) by (auto simp: login_reach_def)
  from start assms(2) have "audit (ga_expected_player_id g) y0"
    by (auto simp: login_start_def audit_def pinned_def logged_def counted_def login_init_def)
  with steps show ?thesis by (induction rule: rtranclp_induct) (auto intro: login_step_audit)
qed

lemma rate_reach:
  assumes "login_reach C login False a y" "lc_login C = Some login" "login_config_validate login = Ok ()"
  shows "rate_ok login (attempts_of (ly_log y))"
proof -
  have c: "0 < max_logins_per_day login" "login_min_interval_seconds login \<le> 86400"
    using assms(3) by (auto simp: login_config_validate_def split: if_splits)
  obtain y0 where start: "login_start a y0" and steps: "(login_step C login False)\<^sup>*\<^sup>* y0 y"
    using assms(1) by (auto simp: login_reach_def)
  from start have "sys_rate login y0 \<and> ly_keep y0 = KeepIdle"
    by (auto simp: login_start_def sys_rate_def rate_inv_def login_inv_def login_init_def rate_ok_def
        split: option.splits)
  with steps have "sys_rate login y \<and> ly_keep y = KeepIdle"
    by (induction rule: rtranclp_induct) (use login_step_rate [OF _ _ _ assms(2) c] in blast)+
  then show ?thesis by (auto simp: sys_rate_def rate_inv_def)
qed

subsection \<open>One login\<close>

definition moves :: "login_sys \<Rightarrow> login_event list \<Rightarrow> login_sys \<Rightarrow> bool" where
  \<comment> \<open>after \<open>evs\<close>, the call is over or its PlayerLogin is the last thing that was sent\<close>
  "moves y evs y' \<longleftrightarrow>
     (\<exists>r. ly_auth y' = AuthDone r \<and> ly_log y' = ly_log y @ evs) \<or>
     (\<exists>sdk pre req auth. ly_auth y' = AuthLoggingIn sdk \<and> ly_log y' = ly_log y @ evs @ pre @ [PlayerLogin req auth] \<and>
        (pre = [] \<and> evs \<noteq> [] \<or> (\<exists>t. pre = [Attempt t] \<and> evs = [])))"

lemma start_login_moves:
  "\<exists>sdk req auth. ly_auth (start_login C shared y) = AuthLoggingIn sdk \<and>
     ly_log (start_login C shared y) = ly_log y @ [PlayerLogin req auth]"
  by (auto simp: start_login_def Let_def split: prod.splits)

lemma push_start_moves: "ly_log y1 = ly_log y \<Longrightarrow> moves y [] (start_login C shared (push_attempt t y1))"
  using start_login_moves [of C shared "push_attempt t y1"] by (auto simp: moves_def)

lemma return_moves: "ly_log y1 = ly_log y \<Longrightarrow> moves y [] (auth_return r y1)"
  by (simp add: moves_def)

lemma moves_cong: "ly_log y1 = ly_log y \<Longrightarrow> moves y1 evs y' = moves y evs y'"
  by (simp add: moves_def)

lemma begin_moves:
  "moves y [] (auth_begin C E y) \<or>
   (\<exists>now seen. ly_auth (auth_begin C E y) = AuthWaiting now seen \<and> ly_log (auth_begin C E y) = ly_log y)"
  unfolding auth_begin_def Let_def
  by (auto split: option.splits prod.splits intro: return_moves push_start_moves)

lemma locked_moves:
  "moves y [] (auth_locked C login E l now seen y) \<or>
   (\<exists>probe base. ly_auth (auth_locked C login E l now seen y) = AuthRevalidating now probe \<and>
      ly_log (auth_locked C login E l now seen y) = ly_log y @ [Attempt now, CacheLogin base])"
  unfolding auth_locked_def
  by (auto split: option.splits prod.splits intro: return_moves push_start_moves
      simp: take_exclusive_fields dest: revalidate_begin_fields(5))

lemma revalidated_moves:
  assumes "ly_log y = ly_log y0 @ [Attempt t, CacheLogin base]"
  shows "moves y0 [Attempt t, CacheLogin base] (auth_revalidated C E probe late outcome y)"
proof -
  obtain r y1 where fin: "revalidate_finish C E probe late outcome y = (r, y1)" by fastforce
  then have "ly_log y1 = ly_log y"
    by (auto simp: revalidate_finish_def revalidate_failed_def Let_def split: sum.splits prod.splits option.splits
      sdk_error.splits)
  with assms start_login_moves [of C _ y1] show ?thesis
    by (cases r) (fastforce simp: auth_revalidated_def fin moves_def)+
qed

lemma prepare_moves:
  "\<exists>evs t base. moves y evs (auth_prepare C login E l late outcome y) \<and> (evs = [] \<or> evs = [Attempt t, CacheLogin base])"
proof -
  let ?y1 = "auth_begin C E y"
  define y2 where "y2 = (case ly_auth ?y1 of AuthWaiting now seen \<Rightarrow> auth_locked C login E l now seen ?y1 | _ \<Rightarrow> ?y1)"
  define y3 where "y3 = (case ly_auth y2 of
      AuthRevalidating _ probe \<Rightarrow> auth_revalidated C E probe late outcome y2 | _ \<Rightarrow> y2)"
  have prepared: "auth_prepare C login E l late outcome y = y3"
    unfolding auth_prepare_def Let_def y2_def y3_def by (rule refl)
  consider (over) "moves y [] y2" | (sent) now probe t base where "ly_auth y2 = AuthRevalidating now probe"
      "ly_log y2 = ly_log y @ [Attempt t, CacheLogin base]"
  proof (cases "moves y [] ?y1")
    case True
    then have "y2 = ?y1" by (auto simp: y2_def moves_def)
    with True over show ?thesis by simp
  next
    case False
    then obtain now seen where w: "ly_auth ?y1 = AuthWaiting now seen" "ly_log ?y1 = ly_log y" using begin_moves by blast
    then have eq: "y2 = auth_locked C login E l now seen ?y1" by (simp add: y2_def)
    then show ?thesis
      using locked_moves [of ?y1 C login E l now seen] w(2) over sent moves_cong [OF w(2)] by metis
  qed
  then have "moves y [] y3 \<or> (\<exists>t base. moves y [Attempt t, CacheLogin base] y3)"
  proof cases
    case over
    then have "y3 = y2" by (auto simp: y3_def moves_def)
    with over show ?thesis by simp
  next
    case sent
    then have "y3 = auth_revalidated C E probe late outcome y2" by (simp add: y3_def)
    with revalidated_moves [OF sent(2)] show ?thesis by blast
  qed
  then show ?thesis unfolding prepared by blast
qed

lemma finish_moves:
  "\<exists>r. ly_auth (auth_finish C login E p p' sdk result code y) = AuthDone r \<and>
     (ly_log (auth_finish C login E p p' sdk result code y) = ly_log y \<or>
      (\<exists>s. ly_log (auth_finish C login E p p' sdk result code y) = ly_log y @ [Installed s]))"
  by (auto simp: auth_finish_def login_rejected_def Let_def split: option.splits sum.splits prod.splits)

lemma finishes:
  assumes "moves y evs y3" "evs = [] \<or> evs = [Attempt t, CacheLogin base]"
    and y4_def: "y4 = (case ly_auth y3 of AuthLoggingIn sdk \<Rightarrow> auth_finish C login E p p' sdk result code y3 | _ \<Rightarrow> y3)"
  shows "\<exists>r new. ly_auth y4 = AuthDone r \<and> ly_log y4 = ly_log y @ new \<and>
    events 0 new \<le> 1 \<and> events 1 new \<le> 1 \<and> events 2 new \<le> 1"
proof (cases "\<exists>r. ly_auth y3 = AuthDone r")
  case True
  then obtain r where "ly_auth y3 = AuthDone r" by blast
  with assms show ?thesis by (intro exI [of _ r] exI [of _ evs]) (auto simp: moves_def)
next
  case False
  with assms(1) obtain sdk pre req auth where y3: "ly_auth y3 = AuthLoggingIn sdk"
    "ly_log y3 = ly_log y @ evs @ pre @ [PlayerLogin req auth]" "pre = [] \<and> evs \<noteq> [] \<or> (\<exists>t. pre = [Attempt t] \<and> evs = [])"
    by (auto simp: moves_def)
  obtain r tail where fin: "ly_auth y4 = AuthDone r" "ly_log y4 = ly_log y3 @ tail" "tail = [] \<or> (\<exists>s. tail = [Installed s])"
    using finish_moves [of C login E p p' sdk result code y3] y3(1) unfolding y4_def by auto
  show ?thesis
    by (intro exI [of _ r] exI [of _ "evs @ pre @ [PlayerLogin req auth] @ tail"]) (use y3 fin assms(2) in auto)
qed

subsection \<open>Properties\<close>

text \<open>C4: with the keepalive off, whatever the interleaving of calls, cancellations, reports, other
  regions and other processes: the login attempts of an account are at least the configured interval
  apart, and no window of 24 hours holds more of them than the daily cap.\<close>

theorem logins_stay_within_limits:
  assumes "login_reach C login False a y" "lc_login C = Some login" "login_config_validate login = Ok ()"
  shows "(\<forall>i. Suc i < length (attempts_of (ly_log y)) \<longrightarrow>
            attempts_of (ly_log y) ! i + from_secs (login_min_interval_seconds login)
              \<le> attempts_of (ly_log y) ! Suc i) \<and>
         (\<forall>t. length (filter (\<lambda>x. t \<le> x \<and> x < t + DAY) (attempts_of (ly_log y))) \<le> max_logins_per_day login)"
  using rate_reach [OF assms] rate_ok_window by (simp add: rate_ok_def)

text \<open>In every interleaving, keepalive included: at every moment no more \<open>cache.login\<close> requests and no
  more PlayerLogin requests have been sent than attempts counted; every session installed, held or
  returned belongs to the player the identity file pins.\<close>

theorem logins_are_counted_and_pinned:
  assumes "login_reach C login keepalive a y" "account_global a = Some g"
  shows "counted (ly_log y) \<and>
    (\<forall>s. Installed s \<in> set (ly_log y) \<longrightarrow> fits (ga_expected_player_id g) (se_player_id s)) \<and>
    pinned (ga_expected_player_id g) (ly_account y) \<and>
    (\<forall>auth. ly_auth y = AuthDone (Ok auth) \<longrightarrow> fits (ga_expected_player_id g) (au_player_id auth))"
  using audit_reach [OF assms] by (auto simp: audit_def logged_def)

text \<open>While a refusal of the SDK identity is younger than the retry time, a login sends nothing, whether
  the refusal is known when the call begins or only once the locks are held: the account is disabled and
  the call fails.\<close>

theorem refused_identity_sends_nothing:
  assumes "account_global (ly_account y) = Some g" "lc_login C = Some login" "lc_sdk C = Some sdk"
    and "sdk_refusal (en_wall E) (retry_time login) (fst (ly_world y)) = Some r"
  shows "(ls_session (ga_state g) = None \<longrightarrow>
      ly_auth (auth_begin C E y) = AuthDone (Err AccountUnavailable) \<and> ly_log (auth_begin C E y) = ly_log y \<and>
      he_disabled (ac_health (ly_account (auth_begin C E y)))) \<and>
    (ly_auth (auth_locked C login E LockFree now seen y) = AuthDone (Err AccountUnavailable) \<and>
      ly_log (auth_locked C login E LockFree now seen y) = ly_log y \<and>
      he_disabled (ac_health (ly_account (auth_locked C login E LockFree now seen y))))"
proof -
  have "he_disabled (ac_health (account_refused code b))" for code b
    by (simp add: account_refused_def account_disable_def on_health_def health_disable_def)
  moreover have "account_auth_headers (ly_account y) = None" if "ls_session (ga_state g) = None"
    using assms(1) that by (auto simp: account_auth_headers_def account_global_def split: account_source.splits)
  ultimately show ?thesis using assms by (simp add: auth_begin_def auth_locked_def take_exclusive_def)
qed

text \<open>A call that asks for the headers of an account always comes to an end, and nothing in it is
  retried: whatever the locks, the SDK and the game server answer, it counts at most one attempt and
  sends at most one \<open>cache.login\<close> and one PlayerLogin.\<close>

theorem account_auth_is_one_shot:
  "\<exists>r new. ly_auth (account_auth C login E l late outcome p p' answer y) = AuthDone r \<and>
     ly_log (account_auth C login E l late outcome p p' answer y) = ly_log y @ new \<and>
     events 0 new \<le> 1 \<and> events 1 new \<le> 1 \<and> events 2 new \<le> 1"
proof -
  obtain evs t base where evs: "moves y evs (auth_prepare C login E l late outcome y)"
    "evs = [] \<or> evs = [Attempt t, CacheLogin base]" using prepare_moves by blast
  show ?thesis
    unfolding account_auth_def Let_def by (rule finishes [OF evs refl])
qed

subsection \<open>Sample runs\<close>

definition sample_login :: login_config where
  "sample_login = login_config_default\<lparr>max_logins_per_day := 1\<rparr>"

definition sample_login_client :: login_client where
  "sample_login_client =
     \<lparr>lc_login = Some sample_login, lc_sdk = Some sample_sdk_client, lc_policy = pool_policy_default,
      lc_sdk_path = path_new pool_policy_default False, lc_device = sample_device,
      lc_client_version = ''1.0.0'', lc_header_ok = (\<lambda>_. True)\<rparr>"

definition sample_account :: account where
  "sample_account =
     \<lparr>ac_name = ''a'',
      ac_source = Global \<lparr>ga_sdk = sample_sdk_account, ga_expected_player_id = Some ''p1'', ga_state = login_init\<rparr>,
      ac_active = 0, ac_health = health_default\<rparr>"

definition sample_session :: "bool \<Rightarrow> refusal option \<Rightarrow> sdk_session" where
  "sample_session stale refused =
     \<lparr>sn_uid = ''u'', sn_access_key = ''k'', sn_access_key_fingerprint = ''f'', sn_file = False, sn_attempts = 0,
      sn_revalidations = 0,
      sn_state = \<lparr>st_account = Some sample_sdk_account, st_validated_at = Some 0, st_generation = 1,
                  st_stale = stale, st_refusal = refused\<rparr>\<rparr>"

definition sample_env :: "instant \<Rightarrow> signal_env" where
  "sample_env now = \<lparr>en_lib = sample_sdk, en_now = now, en_wall = from_secs (20 * 86400), en_write_ok = True\<rparr>"

definition sample_sys :: "bool \<Rightarrow> refusal option \<Rightarrow> login_sys" where
  "sample_sys stale refused =
     \<lparr>ly_now = 9, ly_account = sample_account, ly_world = (sample_session stale refused, Absent),
      ly_sdk_path = Some path_init, ly_auth = AuthIdle, ly_keep = KeepIdle, ly_log = []\<rparr>"

lemmas sample_defs = sample_login_def login_config_default_def sample_login_client_def sample_account_def
  sample_session_def sample_env_def sample_sys_def

lemma sample_start: "login_start sample_account (sample_sys stale refused)"
  by (simp add: login_start_def sample_sys_def sample_account_def account_global_def)

lemma sample_login_valid: "login_config_validate sample_login = Ok ()"
  by (simp add: sample_defs login_config_validate_def origin_allowed_def SDK_ORIGINS_def)

lemma sample_not_expiring [simp]: "\<not> expiring sample_sdk (sa_id_token sample_sdk_account) now"
  by (simp add: expiring_def token_expiry_def sample_sdk_def sample_sdk_account_def Let_def)

lemmas flow_defs = auth_begin_def auth_locked_def take_exclusive_def start_login_def push_attempt_def log_event_def
  on_account_def auth_return_def account_auth_headers_def account_global_def on_login_def login_next_allowed_def
  login_prune_def login_init_def login_attempt_def max_instant_def sdk_refusal_def sdk_reusable_def st_reusable_def
  auth_finish_def player_mismatch_def install_session_def at_clock_def revalidating_def

definition direct_login :: login_sys where
  \<comment> \<open>a session that is still valid, and a successful PlayerLogin\<close>
  "direct_login =
     (let y1 = auth_begin sample_login_client (sample_env 9) (sample_sys False None)
      in auth_finish sample_login_client sample_login (sample_env 9) path_init path_init sample_sdk_account
           (Ok (JObj [(''credential'', JObj [(''id'', JStr ''p1''), (''credential'', JStr ''c'')])])) None y1)"

lemma direct_login_phase:
  "ly_auth (auth_begin sample_login_client (sample_env 9) (sample_sys False None)) = AuthLoggingIn sample_sdk_account"
  by (simp add: flow_defs sample_defs Let_def)

lemma direct_login_reach: "login_reach sample_login_client sample_login False sample_account direct_login"
proof -
  let ?y1 = "auth_begin sample_login_client (sample_env 9) (sample_sys False None)"
  have "login_step sample_login_client sample_login False (sample_sys False None) ?y1"
    by (rule begin_auth) (simp_all add: sample_defs at_clock_def)
  moreover have "at_clock (sample_env 9) ?y1"
    by (simp add: flow_defs sample_defs Let_def)
  then have "login_step sample_login_client sample_login False ?y1 direct_login"
    unfolding direct_login_def Let_def by (intro finish direct_login_phase)
  ultimately show ?thesis
    unfolding login_reach_def using sample_start by (meson converse_rtranclp_into_rtranclp rtranclp.rtrancl_refl)
qed

lemma direct_login_log:
  "attempts_of (ly_log direct_login) = [9]" "length (ly_log direct_login) = 3"
  by (simp_all add: direct_login_def flow_defs sample_defs Let_def parse_login_def header_value_def blank_def byte_def)

text \<open>The race: the keepalive waits for the locks, a call passes the rate check and waits for them too, and
  both count an attempt.\<close>

definition race_waiting :: login_sys where
  "race_waiting = auth_begin sample_login_client (sample_env 10)
     ((keep_begin sample_login (sample_env 9) (sample_sys True None))\<lparr>ly_now := 10\<rparr>)"

definition race_kept :: login_sys where
  "race_kept = keep_finish sample_login_client (sample_env 10) False False (Ok sample_sdk_account)
     (keep_locked sample_login (sample_env 10) LockFree 9 race_waiting)"

definition race_end :: login_sys where
  "race_end = auth_locked sample_login_client sample_login (sample_env 10) LockFree 10 0 race_kept"

lemmas race_defs = race_waiting_def race_kept_def race_end_def keep_begin_def keep_locked_def keep_finish_def
  revalidate_begin_def revalidate_finish_def sdk_keepalive_due_def sdk_base_def path_admit_def path_init_def
  sdk_completed_def attempt_outcome_def record_sdk_path_def path_healthy_def drop_ticket_def sdk_validated_def
  sdk_persist_def health_default_def from_secs_def

lemma race_phases:
  "ly_keep race_waiting = KeepWaiting 9" "ly_auth race_waiting = AuthWaiting 10 0" "ly_now race_waiting = 10"
  "ly_auth race_kept = AuthWaiting 10 0" "ly_keep race_kept = KeepIdle" "ly_now race_kept = 10"
  "attempts_of (ly_log race_end) = [9, 10]"
  by (simp_all add: race_defs flow_defs sample_defs Let_def)

lemma race_sending:
  "ly_keep (keep_locked sample_login (sample_env 10) LockFree 9 race_waiting) = KeepRevalidating False"
  "ly_now (keep_locked sample_login (sample_env 10) LockFree 9 race_waiting) = 10"
  by (simp_all add: race_defs flow_defs sample_defs Let_def)

lemma race_reach: "login_reach sample_login_client sample_login True sample_account race_end"
proof -
  let ?step = "login_step sample_login_client sample_login True"
  let ?k = "keep_begin sample_login (sample_env 9) (sample_sys True None)"
  let ?s = "keep_locked sample_login (sample_env 10) LockFree 9 race_waiting"
  have at: "at_clock (sample_env 10) y \<longleftrightarrow> ly_now y = 10" for y by (simp add: at_clock_def sample_env_def)
  have k: "ly_auth ?k = AuthIdle" "ly_now ?k = 9" by (simp_all add: keep_begin_def sample_sys_def)
  have "?step (sample_sys True None) ?k"
    by (rule keep_begins) (simp_all add: sample_sys_def sample_env_def at_clock_def)
  moreover have "?step ?k (?k\<lparr>ly_now := 10\<rparr>)" by (rule tick) (simp add: k)
  moreover have "?step (?k\<lparr>ly_now := 10\<rparr>) race_waiting"
    unfolding race_waiting_def by (rule begin_auth) (simp_all add: k at)
  moreover have "?step race_waiting ?s"
    by (rule keep_proceeds) (simp_all add: race_phases revalidating_def at)
  moreover have "?step ?s race_kept"
    unfolding race_kept_def by (rule keep_finishes) (simp_all add: race_sending at)
  moreover have "?step race_kept race_end"
    unfolding race_end_def by (rule locked) (simp_all add: race_phases revalidating_def at)
  ultimately have "?step\<^sup>*\<^sup>* (sample_sys True None) race_end"
    by (meson converse_rtranclp_into_rtranclp rtranclp.rtrancl_refl)
  with sample_start show ?thesis by (auto simp: login_reach_def)
qed

text \<open>C40: with the keepalive on, the daily cap of a valid configuration can be exceeded: \<open>account_auth\<close> checks
  the limit before it waits for the revalidation lock and counts the attempt afterwards without checking
  again, while the keepalive counts its own without the account's session lock.\<close>

theorem keepalive_race_exceeds_the_cap:
  "\<exists>C login a y. login_config_validate login = Ok () \<and> lc_login C = Some login \<and>
     login_reach C login True a y \<and>
     max_logins_per_day login < length (filter (\<lambda>x. 0 \<le> x \<and> x < 0 + DAY) (attempts_of (ly_log y)))"
proof -
  have "max_logins_per_day sample_login <
      length (filter (\<lambda>x. 0 \<le> x \<and> x < 0 + DAY) (attempts_of (ly_log race_end)))"
    by (simp add: race_phases sample_login_def DAY_def from_secs_def)
  moreover have "lc_login sample_login_client = Some sample_login" by (simp add: sample_login_client_def)
  ultimately show ?thesis using sample_login_valid race_reach by blast
qed

theorem logins_stay_within_limits_witness:
  "attempts_of (ly_log direct_login) = [9] \<and>
   length (filter (\<lambda>x. 0 \<le> x \<and> x < 0 + DAY) (attempts_of (ly_log direct_login))) \<le> max_logins_per_day sample_login"
proof -
  have "lc_login sample_login_client = Some sample_login" by (simp add: sample_login_client_def)
  from logins_stay_within_limits [OF direct_login_reach this sample_login_valid, THEN conjunct2]
  show ?thesis using direct_login_log(1) by blast
qed

theorem logins_are_counted_and_pinned_witness:
  "counted (ly_log race_end) \<and> attempts_of (ly_log race_end) = [9, 10] \<and>
   pinned (Some ''p1'') (ly_account race_end)"
  using logins_are_counted_and_pinned [OF race_reach] race_phases(7)
  by (simp add: sample_account_def account_global_def)

theorem refused_identity_sends_nothing_witness:
  "ly_auth (auth_begin sample_login_client (sample_env 9) (sample_sys False (Some \<lparr>rf_code = 5, rf_at = from_secs (20 * 86400)\<rparr>))) =
     AuthDone (Err AccountUnavailable) \<and>
   ly_log (auth_begin sample_login_client (sample_env 9) (sample_sys False (Some \<lparr>rf_code = 5, rf_at = from_secs (20 * 86400)\<rparr>))) = []"
proof -
  let ?r = "\<lparr>rf_code = 5, rf_at = from_secs (20 * 86400)\<rparr>"
  let ?y = "sample_sys False (Some ?r)"
  let ?g = "\<lparr>ga_sdk = sample_sdk_account, ga_expected_player_id = Some ''p1'', ga_state = login_init\<rparr>"
  have "account_global (ly_account ?y) = Some ?g" by (simp add: sample_defs account_global_def)
  moreover have "lc_login sample_login_client = Some sample_login" "lc_sdk sample_login_client = Some sample_sdk_client"
    by (simp_all add: sample_login_client_def)
  moreover have "sdk_refusal (en_wall (sample_env 9)) (retry_time sample_login) (fst (ly_world ?y)) = Some ?r"
    by (simp add: sdk_refusal_def sample_defs retry_time_def)
  ultimately have "ls_session (ga_state ?g) = None \<longrightarrow>
      ly_auth (auth_begin sample_login_client (sample_env 9) ?y) = AuthDone (Err AccountUnavailable) \<and>
      ly_log (auth_begin sample_login_client (sample_env 9) ?y) = ly_log ?y \<and>
      he_disabled (ac_health (ly_account (auth_begin sample_login_client (sample_env 9) ?y)))"
    using refused_identity_sends_nothing by blast
  then show ?thesis by (simp add: login_init_def sample_sys_def)
qed

end
