(* ===== verification/Resources.thy ===== *)
theory Resources
  imports Peer Ordered_Map
begin

section \<open>CDN downloads and resource snapshots (src/resources.rs, src/master_update.rs)\<close>

text \<open>
  The HTTP policy of the CDN clients with its bounded retries, the reading of a catalog hash, and the
  choice of a release from the \<open>x-asset-version\<close> header. Semantic versions are a type \<open>'v\<close> with a
  linear order and a parser, which the \<open>semver\<close> library provides.
\<close>

datatype update_error = UpConfig | UpTarget | UpDownload | UpHttp nat | UpTimeout | UpChanged | UpMaster

record network =
  nw_connect_timeout_ms :: nat
  nw_request_timeout_ms :: nat
  nw_update_timeout_seconds :: nat
  nw_attempts :: nat
  nw_retry_delay_ms :: nat
  nw_max_retry_delay_ms :: nat
  nw_proxy_url_env :: "string option"
  nw_proxy_authorization_env :: "string option"

definition network_default :: network where
  "network_default =
     \<lparr>nw_connect_timeout_ms = 10000, nw_request_timeout_ms = 60000, nw_update_timeout_seconds = 600,
      nw_attempts = 1, nw_retry_delay_ms = 250, nw_max_retry_delay_ms = 5000,
      nw_proxy_url_env = None, nw_proxy_authorization_env = None\<rparr>"

definition network_master :: network where
  "network_master = network_default\<lparr>nw_attempts := 3\<rparr>"

record partial_network =
  pn_connect_timeout_ms :: "nat option"
  pn_request_timeout_ms :: "nat option"
  pn_update_timeout_seconds :: "nat option"
  pn_attempts :: "nat option"
  pn_retry_delay_ms :: "nat option"
  pn_max_retry_delay_ms :: "nat option"
  pn_proxy_url_env :: "string option"
  pn_proxy_authorization_env :: "string option"

fun or_else :: "'a option \<Rightarrow> 'a option \<Rightarrow> 'a option" where
  "or_else (Some x) _ = Some x"
| "or_else None y = y"

definition unwrap_or :: "'a option \<Rightarrow> 'a \<Rightarrow> 'a" where
  "unwrap_or x d = (case x of None \<Rightarrow> d | Some v \<Rightarrow> v)"

definition network_over :: "partial_network \<Rightarrow> network \<Rightarrow> network" where
  "network_over p base =
     \<lparr>nw_connect_timeout_ms = unwrap_or (pn_connect_timeout_ms p) (nw_connect_timeout_ms base),
      nw_request_timeout_ms = unwrap_or (pn_request_timeout_ms p) (nw_request_timeout_ms base),
      nw_update_timeout_seconds = unwrap_or (pn_update_timeout_seconds p) (nw_update_timeout_seconds base),
      nw_attempts = unwrap_or (pn_attempts p) (nw_attempts base),
      nw_retry_delay_ms = unwrap_or (pn_retry_delay_ms p) (nw_retry_delay_ms base),
      nw_max_retry_delay_ms = unwrap_or (pn_max_retry_delay_ms p) (nw_max_retry_delay_ms base),
      nw_proxy_url_env = or_else (pn_proxy_url_env p) (nw_proxy_url_env base),
      nw_proxy_authorization_env = or_else (pn_proxy_authorization_env p) (nw_proxy_authorization_env base)\<rparr>"

definition env_name_ok :: "string \<Rightarrow> bool" where
  "env_name_ok name \<longleftrightarrow>
     name \<noteq> [] \<and> length name \<le> 256 \<and> list_all (\<lambda>b. ascii_alphanumeric b \<or> b = CHR ''_'') name"

definition network_validate :: "network \<Rightarrow> update_error + unit" where
  "network_validate n =
     (if \<not> (100 \<le> nw_connect_timeout_ms n \<and> nw_connect_timeout_ms n \<le> 300000)
        \<or> \<not> (100 \<le> nw_request_timeout_ms n \<and> nw_request_timeout_ms n \<le> 300000)
        \<or> \<not> (1 \<le> nw_update_timeout_seconds n \<and> nw_update_timeout_seconds n \<le> 3600)
        \<or> \<not> (1 \<le> nw_attempts n \<and> nw_attempts n \<le> 8)
        \<or> \<not> (1 \<le> nw_retry_delay_ms n \<and> nw_retry_delay_ms n \<le> 10000)
        \<or> \<not> (nw_retry_delay_ms n \<le> nw_max_retry_delay_ms n \<and> nw_max_retry_delay_ms n \<le> 30000)
        \<or> (nw_proxy_url_env n = None \<and> nw_proxy_authorization_env n \<noteq> None)
      then Err UpConfig
      else if (case nw_proxy_url_env n of None \<Rightarrow> True | Some name \<Rightarrow> env_name_ok name)
            \<and> (case nw_proxy_authorization_env n of None \<Rightarrow> True | Some name \<Rightarrow> env_name_ok name)
      then Ok () else Err UpConfig)"

definition retryable :: "update_error \<Rightarrow> bool" where
  "retryable e \<longleftrightarrow>
     (case e of UpDownload \<Rightarrow> True | UpHttp s \<Rightarrow> s = 429 \<or> 500 \<le> s \<and> s \<le> 599 | _ \<Rightarrow> False)"

definition network_retry :: "network \<Rightarrow> update_error \<Rightarrow> nat \<Rightarrow> bool" where
  "network_retry n e attempt \<longleftrightarrow> attempt + 1 < nw_attempts n \<and> retryable e"

definition network_delay :: "network \<Rightarrow> nat \<Rightarrow> 64 word" where
  \<comment> \<open>in milliseconds; the product is a machine multiplication\<close>
  "network_delay n attempt =
     min (of_nat (nw_retry_delay_ms n) * push_bit attempt 1) (of_nat (nw_max_retry_delay_ms n))"

subsection \<open>Bounded downloads\<close>

fun read_limited :: "nat \<Rightarrow> string \<Rightarrow> (send_error + string) list \<Rightarrow> update_error + string" where
  "read_limited limit bytes [] = Ok bytes"
| "read_limited limit bytes (Inl _ # cs) = Err UpDownload"
| "read_limited limit bytes (Inr chunk # cs) =
     (if limit < length bytes + length chunk then Err UpMaster else read_limited limit (bytes @ chunk) cs)"

definition get_once :: "nat \<Rightarrow> send_error + http_answer \<Rightarrow> update_error + string" where
  "get_once limit http =
     (case http of
        Inl _ \<Rightarrow> Err UpDownload
      | Inr a \<Rightarrow>
          if ha_status a \<noteq> 200 then Err (UpHttp (ha_status a))
          else if (case ha_content_length a of None \<Rightarrow> False | Some n \<Rightarrow> limit < n) then Err UpMaster
          else read_limited limit [] (ha_chunks a))"

record 'a attempts_run =
  ar_result :: "update_error + 'a"
  ar_requests :: nat
  ar_slept_ms :: nat

function retrying :: "network \<Rightarrow> (nat \<Rightarrow> update_error + 'a) \<Rightarrow> nat \<Rightarrow> 'a attempts_run" where
  \<comment> \<open>\<open>for attempt in attempt..network.attempts\<close>, with the requests made and the time slept\<close>
  "retrying n once attempt =
     (if nw_attempts n \<le> attempt
      then \<lparr>ar_result = Err UpDownload, ar_requests = 0, ar_slept_ms = 0\<rparr>
      else case once attempt of
             Inl e \<Rightarrow>
               if network_retry n e attempt
               then let r = retrying n once (attempt + 1)
                    in r\<lparr>ar_requests := ar_requests r + 1,
                         ar_slept_ms := ar_slept_ms r + unat (network_delay n attempt)\<rparr>
               else \<lparr>ar_result = Err e, ar_requests = 1, ar_slept_ms = 0\<rparr>
           | Inr x \<Rightarrow> \<lparr>ar_result = Ok x, ar_requests = 1, ar_slept_ms = 0\<rparr>)"
  by pat_completeness auto
termination by (relation "measure (\<lambda>(n, once, attempt). nw_attempts n - attempt)") auto

declare retrying.simps [simp del]

record master_target =
  mt_version :: string
  mt_resource_version :: "string option"
  mt_root :: string
  mt_password :: "string option"

record cdn_request =
  cq_url :: string
  cq_basic :: "(string \<times> string) option"

definition download_request :: "string option \<Rightarrow> master_target \<Rightarrow> string \<Rightarrow> update_error + cdn_request" where
  "download_request username t name =
     (let url = mt_root t @ ''/master/'' @ mt_version t @ ''/'' @ name in
      case (username, mt_password t) of
        (Some u, Some p) \<Rightarrow> Ok \<lparr>cq_url = url, cq_basic = Some (u, p)\<rparr>
      | (None, None) \<Rightarrow> Ok \<lparr>cq_url = url, cq_basic = None\<rparr>
      | _ \<Rightarrow> Err UpTarget)"

type_synonym cdn = "nat \<Rightarrow> cdn_request \<Rightarrow> send_error + http_answer"
  \<comment> \<open>the answer to the n-th request\<close>

definition download_once ::
  "string option \<Rightarrow> master_target \<Rightarrow> string \<Rightarrow> nat \<Rightarrow> cdn \<Rightarrow> nat \<Rightarrow> update_error + string" where
  "download_once username t name limit server attempt =
     then_result (download_request username t name) (\<lambda>q. get_once limit (server attempt q))"

definition download ::
  "network \<Rightarrow> string option \<Rightarrow> master_target \<Rightarrow> string \<Rightarrow> nat \<Rightarrow> cdn \<Rightarrow> string attempts_run" where
  "download n username t name limit server = retrying n (download_once username t name limit server) 0"

subsection \<open>The catalog hash\<close>

definition MAX_CATALOG_HASH :: nat where "MAX_CATALOG_HASH = 256"

definition global_catalog_urls :: "string \<Rightarrow> string \<Rightarrow> string \<Rightarrow> string \<times> string \<times> string" where
  "global_catalog_urls root platform version =
     (let base = root @ ''/asset/'' @ platform in
      (base @ ''/catalog_'' @ version @ ''.bin'', base @ ''/catalog_'' @ version @ ''.hash'', base))"

definition catalog_hash :: "(string \<Rightarrow> string option) \<Rightarrow> string \<Rightarrow> string option" where
  \<comment> \<open>\<open>trimmed\<close>: valid UTF-8 text without its surrounding white space\<close>
  "catalog_hash trimmed body =
     (case trimmed body of
        None \<Rightarrow> None
      | Some text \<Rightarrow>
          if length text = 32 \<and> list_all ascii_hexdigit text then Some (map ascii_lowercase text) else None)"

definition hash_once ::
  "(string \<Rightarrow> string option) \<Rightarrow> cdn_request \<Rightarrow> cdn \<Rightarrow> nat \<Rightarrow> update_error + string" where
  "hash_once trimmed q server attempt =
     then_result (get_once MAX_CATALOG_HASH (server attempt q)) (\<lambda>bytes.
       (case catalog_hash trimmed bytes of None \<Rightarrow> Err UpMaster | Some h \<Rightarrow> Ok h))"

definition fetch_catalog_hash ::
  "(string \<Rightarrow> string option) \<Rightarrow> network \<Rightarrow> cdn_request \<Rightarrow> cdn \<Rightarrow> bool \<Rightarrow> app_error + string" where
  \<comment> \<open>\<open>late\<close>: the update deadline passes before the attempts are over\<close>
  "fetch_catalog_hash trimmed n q server late =
     (if late then Err SnapshotUnavailable
      else case ar_result (retrying n (hash_once trimmed q server) 0) of
             Inl _ \<Rightarrow> Err SnapshotUnavailable
           | Inr h \<Rightarrow> Ok h)"

subsection \<open>Choosing a release\<close>

record release =
  rl_version :: string
  rl_ios :: "string option"
  rl_android :: "string option"
  rl_minimum :: "string option"

fun opt_string :: "json \<Rightarrow> string option option" where
  \<comment> \<open>\<open>Option<String>\<close>: null or text\<close>
  "opt_string JNull = Some None"
| "opt_string (JStr s) = Some (Some s)"
| "opt_string _ = None"

definition opt_member :: "(string \<times> json) list \<Rightarrow> string \<Rightarrow> string option option" where
  "opt_member ms k = (case map_of ms k of None \<Rightarrow> Some None | Some v \<Rightarrow> opt_string v)"

definition make_release ::
  "json option \<Rightarrow> string option option \<Rightarrow> string option option \<Rightarrow> string option option \<Rightarrow> release option" where
  "make_release v ios android minimum =
     (case (v, ios, android, minimum) of
        (Some (JStr version), Some i, Some a, Some m) \<Rightarrow>
          Some \<lparr>rl_version = version, rl_ios = i, rl_android = a, rl_minimum = m\<rparr>
      | _ \<Rightarrow> None)"

fun release_of :: "json \<Rightarrow> release option" where
  \<comment> \<open>the derived deserializer: an object, or the four fields in order\<close>
  "release_of (JObj ms) =
     make_release (map_of ms ''version'') (opt_member ms ''iOS'') (opt_member ms ''Android'')
       (opt_member ms ''minClientVersion'')"
| "release_of (JArr [v, i, a, m]) = make_release (Some v) (opt_string i) (opt_string a) (opt_string m)"
| "release_of _ = None"

fun releases_of :: "json list \<Rightarrow> release list option" where
  "releases_of [] = Some []"
| "releases_of (v # vs) =
     (case release_of v of None \<Rightarrow> None | Some r \<Rightarrow> map_option ((#) r) (releases_of vs))"

definition minimum_of :: "(string \<Rightarrow> 'v option) \<Rightarrow> release \<Rightarrow> 'v option" where
  "minimum_of parse r = Option.bind (rl_minimum r) parse"

fun candidates ::
  "(string \<Rightarrow> 'v::linorder option) \<Rightarrow> release list \<Rightarrow> ('v, release) btree_map
   \<Rightarrow> app_error + ('v, release) btree_map" where
  "candidates parse [] m = Ok m"
| "candidates parse (r # rs) m =
     (case minimum_of parse r of
        None \<Rightarrow> Err Protocol
      | Some minimum \<Rightarrow>
          if bt_get m minimum \<noteq> None then Err Protocol
          else candidates parse rs (bt_insert minimum r m))"

definition path_component :: "string \<Rightarrow> bool" where
  "path_component part \<longleftrightarrow>
     part \<noteq> [] \<and> length part \<le> 256 \<and> part \<noteq> ''.'' \<and> part \<noteq> ''..'' \<and>
     list_all (\<lambda>b. ascii_alphanumeric b \<or> b = CHR ''-'' \<or> b = CHR ''_'' \<or> b = CHR ''.'') part"

fun platform_hash :: "platform \<Rightarrow> release \<Rightarrow> string option" where
  "platform_hash Ios r = rl_ios r"
| "platform_hash Android r = rl_android r"

definition choose_release ::
  "(string \<Rightarrow> 'v::linorder option) \<Rightarrow> json \<Rightarrow> 'v \<Rightarrow> app_error + release" where
  "choose_release parse v client =
     (case json_get v ''live'' of
        Some live \<Rightarrow>
          (case live of
             JArr items \<Rightarrow>
               (case releases_of items of
                  None \<Rightarrow> Err Protocol
                | Some rs \<Rightarrow>
                    then_result (candidates parse rs []) (\<lambda>m.
                      (case find (\<lambda>e. fst e \<le> client) (rev m) of
                         None \<Rightarrow> Err SnapshotUnavailable
                       | Some e \<Rightarrow> Ok (snd e))))
           | _ \<Rightarrow> Err Protocol)
      | None \<Rightarrow> (case release_of v of None \<Rightarrow> Err Protocol | Some r \<Rightarrow> Ok r))"

definition select_platform ::
  "(string \<Rightarrow> json option) \<Rightarrow> (string \<Rightarrow> 'v::linorder option) \<Rightarrow> string \<Rightarrow> string \<Rightarrow> platform
   \<Rightarrow> app_error + string \<times> string" where
  "select_platform json parse raw client platform =
     (case json raw of
        None \<Rightarrow> Err Protocol
      | Some v \<Rightarrow>
     (case parse client of
        None \<Rightarrow> Err Protocol
      | Some c \<Rightarrow>
          then_result (choose_release parse v c) (\<lambda>r.
            (case platform_hash platform r of
               None \<Rightarrow> Err SnapshotUnavailable
             | Some hash \<Rightarrow>
                 if path_component (rl_version r) \<and> path_component hash then Ok (rl_version r, hash)
                 else Err Protocol))))"

subsection \<open>Bounds of the retries\<close>

lemma validated_network:
  assumes "network_validate n = Ok ()"
  shows "1 \<le> nw_attempts n" "nw_attempts n \<le> 8" "nw_retry_delay_ms n \<le> 10000" "nw_max_retry_delay_ms n \<le> 30000"
  using assms by (auto simp: network_validate_def split: if_splits)

lemma network_delay_exact:
  assumes "network_validate n = Ok ()" "attempt < nw_attempts n"
  shows "unat (network_delay n attempt) = min (nw_retry_delay_ms n * 2 ^ attempt) (nw_max_retry_delay_ms n)"
proof -
  note b = validated_network(2-4) [OF assms(1)]
  have "(2::nat) ^ attempt \<le> 2 ^ 7" using b(1) assms(2) by (intro power_increasing) auto
  then have "nw_retry_delay_ms n * 2 ^ attempt \<le> 10000 * 2 ^ 7" by (intro mult_le_mono b)
  then have small: "nw_retry_delay_ms n * 2 ^ attempt < 2 ^ 64" by simp
  have eq: "of_nat (nw_retry_delay_ms n) * push_bit attempt (1 :: 64 word) =
      of_nat (nw_retry_delay_ms n * 2 ^ attempt)" by (simp add: push_bit_eq_mult)
  have "unat (of_nat (nw_retry_delay_ms n * 2 ^ attempt) :: 64 word) = nw_retry_delay_ms n * 2 ^ attempt"
    using small by (simp add: unat_of_nat take_bit_nat_eq_self del: of_nat_mult)
  moreover have "unat (of_nat (nw_max_retry_delay_ms n) :: 64 word) = nw_max_retry_delay_ms n"
    using b(3) by (simp add: unat_of_nat take_bit_nat_eq_self)
  ultimately show ?thesis
    unfolding network_delay_def eq by (simp add: min_def word_le_nat_alt)
qed

lemma network_delay_le:
  "network_validate n = Ok () \<Longrightarrow> attempt < nw_attempts n \<Longrightarrow>
   unat (network_delay n attempt) \<le> nw_max_retry_delay_ms n"
  by (simp add: network_delay_exact)

definition bounded_run :: "network \<Rightarrow> (nat \<Rightarrow> update_error + 'a) \<Rightarrow> nat \<Rightarrow> 'a attempts_run \<Rightarrow> bool" where
  \<comment> \<open>\<open>r\<close> is a run from \<open>attempt\<close> on: its requests are within the limit, its pauses within the cap, its
    result answers its last request, and only retryable failures were tried again, all of them if any\<close>
  "bounded_run n once attempt r \<longleftrightarrow>
     1 \<le> ar_requests r \<and> attempt + ar_requests r \<le> nw_attempts n \<and>
     ar_slept_ms r \<le> (ar_requests r - 1) * nw_max_retry_delay_ms n \<and>
     ar_result r = once (attempt + ar_requests r - 1) \<and>
     (\<forall>i. attempt \<le> i \<and> i < attempt + ar_requests r - 1 \<longrightarrow> (\<exists>e. once i = Err e \<and> retryable e)) \<and>
     (\<forall>e. ar_result r = Err e \<longrightarrow> retryable e \<longrightarrow> attempt + ar_requests r = nw_attempts n)"

lemma bounded_runD:
  assumes "bounded_run n once attempt r"
  shows "attempt + ar_requests r \<le> nw_attempts n"
    "ar_slept_ms r \<le> (ar_requests r - 1) * nw_max_retry_delay_ms n"
    "ar_result r = once (attempt + ar_requests r - 1)"
  by (insert assms, unfold bounded_run_def) (elim conjE, assumption)+

lemma bounded_stop:
  assumes "attempt < nw_attempts n" "\<And>e. once attempt = Err e \<Longrightarrow> \<not> network_retry n e attempt"
  shows "bounded_run n once attempt \<lparr>ar_result = once attempt, ar_requests = 1, ar_slept_ms = 0\<rparr>"
  using assms by (auto simp: bounded_run_def network_retry_def)

lemma bounded_again:
  assumes "once attempt = Err e" "network_retry n e attempt" "bounded_run n once (attempt + 1) r"
    and "slept \<le> nw_max_retry_delay_ms n"
  shows "bounded_run n once attempt (r\<lparr>ar_requests := ar_requests r + 1, ar_slept_ms := ar_slept_ms r + slept\<rparr>)"
proof -
  obtain k where k: "ar_requests r = Suc k" using assms(3) by (cases "ar_requests r") (auto simp: bounded_run_def)
  have tried: "\<exists>e. once i = Err e \<and> retryable e" if "attempt \<le> i" "i < attempt + Suc k" for i
  proof (cases "i = attempt")
    case True
    with assms(1,2) show ?thesis by (auto simp: network_retry_def)
  next
    case False
    with that assms(3) k show ?thesis by (simp add: bounded_run_def)
  qed
  have "ar_slept_ms r + slept \<le> Suc k * nw_max_retry_delay_ms n"
    using assms(3,4) k by (simp add: bounded_run_def)
  with tried assms(3) k show ?thesis by (simp add: bounded_run_def)
qed

lemma retrying_bounded:
  "network_validate n = Ok () \<Longrightarrow> attempt < nw_attempts n \<Longrightarrow> bounded_run n once attempt (retrying n once attempt)"
proof (induction n once attempt rule: retrying.induct)
  case (1 n once attempt)
  show ?case
  proof (cases "\<exists>e. once attempt = Err e \<and> network_retry n e attempt")
    case False
    then have "retrying n once attempt = \<lparr>ar_result = once attempt, ar_requests = 1, ar_slept_ms = 0\<rparr>"
      using 1(3) by (subst retrying.simps) (auto split: sum.splits)
    with False show ?thesis using bounded_stop [of attempt n once] 1(3) by auto
  next
    case True
    then obtain e where e: "once attempt = Err e" "network_retry n e attempt" by blast
    let ?r = "retrying n once (attempt + 1)"
    have "bounded_run n once (attempt + 1) ?r"
      using 1(1) [OF _ e] 1(2,3) e(2) by (simp add: network_retry_def)
    from bounded_again [OF e this network_delay_le [OF 1(2,3)]] show ?thesis
      using 1(3) e by (subst retrying.simps) (simp add: Let_def)
  qed
qed

subsection \<open>The chosen release\<close>

lemma candidates_spec:
  assumes "candidates parse rs m = Ok m'" "bt_wf m"
  shows "bt_wf m' \<and> set m' = set m \<union> {(k, r). r \<in> set rs \<and> minimum_of parse r = Some k} \<and>
    (\<forall>r \<in> set rs. minimum_of parse r \<noteq> None) \<and>
    distinct (map (minimum_of parse) rs) \<and> (\<forall>r \<in> set rs. \<forall>k. minimum_of parse r = Some k \<longrightarrow> k \<notin> fst ` set m)"
  using assms
proof (induction rs arbitrary: m)
  case (Cons r rs)
  from Cons.prems(1) obtain k where k: "minimum_of parse r = Some k" "bt_get m k = None"
    "candidates parse rs (bt_insert k r m) = Ok m'"
    by (auto split: option.splits if_splits)
  have fresh: "k \<notin> fst ` set m" using k(2) bt.get_None_iff [OF Cons.prems(2)] by simp
  then have ins: "set (bt_insert k r m) = insert (k, r) (set m)"
    using set_bt_insert [OF Cons.prems(2), of k r] by (auto simp: image_iff)
  from Cons.IH [OF k(3) bt_wf_insert [OF Cons.prems(2)]] ins fresh k(1) show ?case
    by (force simp: image_iff)
qed auto

lemma find_rev_greatest:
  assumes "bt_wf m" "find (\<lambda>e. fst e \<le> c) (rev m) = Some e"
  shows "e \<in> set m" "fst e \<le> c" "\<And>x. x \<in> set m \<Longrightarrow> fst x \<le> c \<Longrightarrow> fst x \<le> fst e"
proof -
  show "e \<in> set m" "fst e \<le> c" using find_Some_iff_distinct [OF assms(2)] by auto
  show "\<And>x. x \<in> set m \<Longrightarrow> fst x \<le> c \<Longrightarrow> fst x \<le> fst e"
    using assms
  proof (induction m rule: rev_induct)
    case (snoc y m)
    have wf: "bt_wf m" and above: "\<forall>z \<in> set m. fst z < fst y"
      using snoc.prems(3) by (auto simp: bt_wf_def sorted_wrt_append)
    show ?case
    proof (cases "fst y \<le> c")
      case True
      with snoc.prems(4) have "e = y" by simp
      with above snoc.prems(1) show ?thesis by (auto intro: less_imp_le)
    next
      case False
      with snoc.prems have "x \<in> set m" "find (\<lambda>e. fst e \<le> c) (rev m) = Some e" by auto
      with snoc.IH snoc.prems(2) wf show ?thesis by blast
    qed
  qed simp
qed

lemma choose_release_live:
  assumes "choose_release parse v c = Ok r" "json_get v ''live'' = Some live"
  shows "\<exists>items rs k. live = JArr items \<and> releases_of items = Some rs \<and> r \<in> set rs \<and>
    minimum_of parse r = Some k \<and> k \<le> c \<and> distinct (map (minimum_of parse) rs) \<and>
    (\<forall>r' \<in> set rs. \<exists>k'. minimum_of parse r' = Some k' \<and> (k' \<le> c \<longrightarrow> k' \<le> k))"
proof -
  from assms obtain items rs m e where live: "live = JArr items" "releases_of items = Some rs"
    and m: "candidates parse rs [] = Ok m" "find (\<lambda>e. fst e \<le> c) (rev m) = Some e" and r: "r = snd e"
    by (auto simp: choose_release_def then_result_Ok_iff split: json.splits option.splits)
  note spec = candidates_spec [OF m(1) bt_wf_Nil]
  note best = find_rev_greatest [OF spec [THEN conjunct1] m(2)]
  have e: "r \<in> set rs" "minimum_of parse r = Some (fst e)" using spec best(1) r by (auto simp: case_prod_beta)
  have "\<exists>k'. minimum_of parse r' = Some k' \<and> (k' \<le> c \<longrightarrow> k' \<le> fst e)" if r': "r' \<in> set rs" for r'
  proof -
    obtain k' where k': "minimum_of parse r' = Some k'" using spec r' by auto
    with r' spec have "(k', r') \<in> set m" by simp
    with best(3) [of "(k', r')"] k' show ?thesis by auto
  qed
  moreover have "distinct (map (minimum_of parse) rs)" using spec by (elim conjE)
  ultimately show ?thesis
    by (intro exI [of _ items] exI [of _ rs] exI [of _ "fst e"] conjI live e best(2)) auto
qed

lemma read_limited_length:
  "read_limited limit bytes cs = Ok out \<Longrightarrow> length bytes \<le> limit \<Longrightarrow> length out \<le> limit"
  by (induction limit bytes cs rule: read_limited.induct) (auto split: if_splits)

lemma download_once_length:
  "download_once username t name limit server attempt = Ok bytes \<Longrightarrow> length bytes \<le> limit"
proof -
  assume "download_once username t name limit server attempt = Ok bytes"
  then obtain q where "get_once limit (server attempt q) = Ok bytes"
    by (auto simp: download_once_def then_result_Ok_iff)
  then obtain a :: http_answer where "read_limited limit [] (ha_chunks a) = Ok bytes"
    by (cases "server attempt q") (auto simp: get_once_def split: if_splits)
  then show ?thesis using read_limited_length by fastforce
qed

subsection \<open>Properties\<close>

text \<open>With a valid policy, a download ends: it makes at least one and at most the configured number of
  requests (eight at most), sleeps at most the capped delay between two of them (so at most 210 seconds in
  all, with no overflow in the doubling), tries only retryable failures again, and its result is the
  answer to its last request.\<close>

theorem downloads_are_bounded:
  assumes "network_validate n = Ok ()" "r = download n username t name limit server"
  shows "bounded_run n (download_once username t name limit server) 0 r \<and>
    ar_requests r \<le> 8 \<and> ar_slept_ms r \<le> 210000 \<and>
    (\<forall>bytes. ar_result r = Ok bytes \<longrightarrow> length bytes \<le> limit)"
proof -
  have b: "0 < nw_attempts n" "nw_attempts n \<le> 8" "nw_max_retry_delay_ms n \<le> 30000"
    using validated_network [OF assms(1)] by auto
  have run: "bounded_run n (download_once username t name limit server) 0 r"
    using retrying_bounded [OF assms(1) b(1)] assms(2) by (simp add: download_def)
  have "ar_requests r \<le> 8" using bounded_runD(1) [OF run] b(2) by simp
  moreover have "(ar_requests r - 1) * nw_max_retry_delay_ms n \<le> 7 * 30000"
    using \<open>ar_requests r \<le> 8\<close> b(3) by (intro mult_le_mono) auto
  then have "ar_slept_ms r \<le> 210000" using bounded_runD(2) [OF run] by simp
  moreover have "length bytes \<le> limit" if "ar_result r = Ok bytes" for bytes
  proof -
    have "download_once username t name limit server (ar_requests r - 1) = Ok bytes"
      using bounded_runD(3) [OF run] that by simp
    then show ?thesis by (rule download_once_length)
  qed
  ultimately show ?thesis using run by blast
qed

definition sample_cdn :: cdn where
  "sample_cdn attempt q =
     (if attempt = 0 then Err ConnectError
      else Ok \<lparr>ha_status = 200, ha_headers = [], ha_content_length = None, ha_chunks = [Ok ''ab'', Ok ''c'']\<rparr>)"

definition sample_target :: master_target where
  "sample_target = \<lparr>mt_version = ''1'', mt_resource_version = None, mt_root = ''r'', mt_password = None\<rparr>"

lemma sample_download:
  "download network_master None sample_target ''t'' 3 sample_cdn =
     \<lparr>ar_result = Ok ''abc'', ar_requests = 2, ar_slept_ms = 250\<rparr>"
proof -
  let ?once = "download_once None sample_target ''t'' 3 sample_cdn"
  have once: "?once 0 = Err UpDownload" "?once 1 = Ok ''abc''"
    by (simp_all add: download_once_def download_request_def sample_target_def sample_cdn_def get_once_def Let_def)
  have "retrying network_master ?once 1 = \<lparr>ar_result = Ok ''abc'', ar_requests = 1, ar_slept_ms = 0\<rparr>"
    using once(2) by (subst retrying.simps) (simp add: network_master_def network_default_def)
  then show ?thesis
    unfolding download_def using once(1)
    by (subst retrying.simps) (simp add: network_retry_def retryable_def network_delay_def network_master_def
        network_default_def Let_def)
qed

theorem downloads_are_bounded_witness:
  "let r = download network_master None sample_target ''t'' 3 sample_cdn
   in network_validate network_master = Ok () \<and> ar_result r = Ok ''abc'' \<and> ar_slept_ms r \<le> 210000 \<and>
      length ''abc'' \<le> (3::nat)"
proof -
  have v: "network_validate network_master = Ok ()"
    by (simp add: network_validate_def network_master_def network_default_def)
  note bounds = downloads_are_bounded [OF v sample_download [symmetric]]
  show ?thesis using v bounds by (simp add: sample_download Let_def)
qed

text \<open>The release taken from an asset version header is well formed and the right one: its version and
  hash are single path components; from a list of live releases it is the one with the greatest minimum
  client version that does not exceed the client's own, and the list names no minimum twice.\<close>

theorem selected_release_is_latest_compatible:
  assumes "select_platform json parse raw client platform = Ok (version, hash)"
  shows "path_component version \<and> path_component hash \<and>
    (\<exists>v c r. json raw = Some v \<and> parse client = Some c \<and> rl_version r = version \<and>
       platform_hash platform r = Some hash \<and>
       (case json_get v ''live'' of
          None \<Rightarrow> release_of v = Some r
        | Some live \<Rightarrow>
            (\<exists>items rs k. live = JArr items \<and> releases_of items = Some rs \<and> r \<in> set rs \<and>
               minimum_of parse r = Some k \<and> k \<le> c \<and> distinct (map (minimum_of parse) rs) \<and>
               (\<forall>r' \<in> set rs. \<exists>k'. minimum_of parse r' = Some k' \<and> (k' \<le> c \<longrightarrow> k' \<le> k)))))"
proof -
  from assms obtain v c r where p: "json raw = Some v" "parse client = Some c"
    and r: "choose_release parse v c = Ok r" "platform_hash platform r = Some hash" "rl_version r = version"
    and ok: "path_component version" "path_component hash"
    by (auto simp: select_platform_def then_result_Ok_iff split: option.splits if_splits)
  have "json_get v ''live'' = None \<Longrightarrow> release_of v = Some r"
    using r(1) by (auto simp: choose_release_def split: option.splits)
  with choose_release_live [OF r(1)] p r ok show ?thesis
    by (intro conjI exI [of _ v] exI [of _ c] exI [of _ r]) (auto split: option.splits)
qed

definition sample_version :: "string \<Rightarrow> nat option" where
  "sample_version s = (case s of [c] \<Rightarrow> Some (byte c) | _ \<Rightarrow> None)"

definition sample_releases :: json where
  "sample_releases = JObj [(''live'', JArr
     [JObj [(''version'', JStr ''old''), (''iOS'', JStr ''h1''), (''minClientVersion'', JStr ''1'')],
      JObj [(''version'', JStr ''new''), (''iOS'', JStr ''h2''), (''minClientVersion'', JStr ''2'')],
      JArr [JStr ''beta'', JStr ''h3'', JNull, JStr ''4'']])]"

theorem selected_release_is_latest_compatible_witness:
  "select_platform (\<lambda>_. Some sample_releases) sample_version [] ''3'' Ios = Ok (''new'', ''h2'') \<and>
   path_component ''new'' \<and> path_component ''h2''"
proof -
  have "select_platform (\<lambda>_. Some sample_releases) sample_version [] ''3'' Ios = Ok (''new'', ''h2'')"
    by (simp add: select_platform_def choose_release_def sample_releases_def sample_version_def minimum_of_def
        make_release_def opt_member_def path_component_def byte_defs)
  with selected_release_is_latest_compatible [OF this] show ?thesis by blast
qed

end
