(* ===== verification/Upstream_Policy.thy ===== *)
theory Upstream_Policy
  imports App_Error
begin

section \<open>The upstream request policy (src/config.rs)\<close>

text \<open>
  \<open>UpstreamConfig\<close>: time limits, retries and the HTTP/2 keepalive of the connection to the game, with
  their validation. Times are in milliseconds, as in the configuration.
\<close>

record upstream_config =
  uc_connect_timeout_ms :: nat
  uc_proxy_url_env :: "string option"
  uc_proxy_authorization_env :: "string option"
  uc_timeout_ms :: nat
  uc_max_response_bytes :: nat
  uc_max_inflight :: nat
  uc_anonymous_attempts :: nat
  uc_retry_delay_ms :: nat
  uc_anonymous_max_inflight :: "nat option"
  uc_coalesce_public_reads :: bool
  uc_http2_keepalive_interval_ms :: "nat option"
  uc_http2_keepalive_timeout_ms :: "nat option"
  uc_version_max_age_seconds :: nat

definition upstream_default :: upstream_config where
  "upstream_default =
     \<lparr>uc_connect_timeout_ms = 10000, uc_proxy_url_env = None, uc_proxy_authorization_env = None,
      uc_timeout_ms = 20000, uc_max_response_bytes = 8 * 1024 * 1024, uc_max_inflight = 64,
      uc_anonymous_attempts = 1, uc_retry_delay_ms = 250, uc_anonymous_max_inflight = None,
      uc_coalesce_public_reads = False, uc_http2_keepalive_interval_ms = None,
      uc_http2_keepalive_timeout_ms = None, uc_version_max_age_seconds = 600\<rparr>"

definition keepalive_explicit :: "upstream_config \<Rightarrow> bool" where
  "keepalive_explicit c \<longleftrightarrow> uc_http2_keepalive_interval_ms c \<noteq> None \<or> uc_http2_keepalive_timeout_ms c \<noteq> None"

definition http2_keepalive :: "upstream_config \<Rightarrow> (nat \<times> nat) option" where
  "http2_keepalive c =
     (if uc_http2_keepalive_interval_ms c = Some 0 then None
      else
        let interval = (case uc_http2_keepalive_interval_ms c of
                          Some v \<Rightarrow> v | None \<Rightarrow> min (uc_timeout_ms c div 2) 10000);
            ack = (case uc_http2_keepalive_timeout_ms c of
                     Some v \<Rightarrow> v | None \<Rightarrow> min (uc_timeout_ms c div 4) 5000)
        in if \<not> keepalive_explicit c \<and> ack < 1000 then None else Some (interval, ack))"

definition explicit_keepalive_misses_deadline :: "upstream_config \<Rightarrow> bool" where
  "explicit_keepalive_misses_deadline c \<longleftrightarrow>
     keepalive_explicit c \<and>
     (case http2_keepalive c of None \<Rightarrow> False | Some (interval, ack) \<Rightarrow> uc_timeout_ms c \<le> interval + ack)"

definition upstream_validate :: "upstream_config \<Rightarrow> app_error + unit" where
  "upstream_validate c =
     (if \<not> (100 \<le> uc_connect_timeout_ms c \<and> uc_connect_timeout_ms c \<le> 300000)
        \<or> (uc_proxy_authorization_env c \<noteq> None \<and> uc_proxy_url_env c = None)
        \<or> uc_proxy_url_env c = Some [] \<or> uc_proxy_authorization_env c = Some []
        \<or> \<not> (100 \<le> uc_timeout_ms c \<and> uc_timeout_ms c \<le> 300000)
        \<or> \<not> (1024 \<le> uc_max_response_bytes c \<and> uc_max_response_bytes c \<le> 128 * 1024 * 1024)
        \<or> \<not> (1 \<le> uc_max_inflight c \<and> uc_max_inflight c \<le> 4096)
        \<or> \<not> (1 \<le> uc_anonymous_attempts c \<and> uc_anonymous_attempts c \<le> 5)
        \<or> \<not> (1 \<le> uc_retry_delay_ms c \<and> uc_retry_delay_ms c \<le> 10000)
        \<or> (case uc_anonymous_max_inflight c of
             None \<Rightarrow> False | Some n \<Rightarrow> \<not> (1 \<le> n \<and> n \<le> 64) \<or> uc_max_inflight c < n)
        \<or> (uc_http2_keepalive_timeout_ms c \<noteq> None \<and> uc_http2_keepalive_interval_ms c = Some 0)
        \<or> (case uc_http2_keepalive_interval_ms c of
             None \<Rightarrow> False | Some v \<Rightarrow> v \<noteq> 0 \<and> \<not> (1000 \<le> v \<and> v \<le> 300000))
        \<or> (case uc_http2_keepalive_timeout_ms c of
             None \<Rightarrow> False | Some v \<Rightarrow> \<not> (1000 \<le> v \<and> v \<le> 60000))
        \<or> explicit_keepalive_misses_deadline c
        \<or> \<not> (60 \<le> uc_version_max_age_seconds c \<and> uc_version_max_age_seconds c \<le> 86400)
      then Err (Config ''upstream request policy exceeds supported bounds'')
      else Ok ())"

definition anonymous_slots :: "upstream_config \<Rightarrow> nat" where
  "anonymous_slots c = min (case uc_anonymous_max_inflight c of None \<Rightarrow> 4 | Some n \<Rightarrow> n) (uc_max_inflight c)"

lemma upstream_valid:
  assumes "upstream_validate c = Ok ()"
  shows "1 \<le> uc_anonymous_attempts c" "uc_anonymous_attempts c \<le> 5" "1 \<le> uc_retry_delay_ms c"
    "uc_retry_delay_ms c \<le> 10000" "100 \<le> uc_timeout_ms c" "uc_timeout_ms c \<le> 300000"
    "\<not> explicit_keepalive_misses_deadline c" "1 \<le> uc_max_inflight c"
    "\<And>n. uc_anonymous_max_inflight c = Some n \<Longrightarrow> 1 \<le> n \<and> n \<le> uc_max_inflight c"
    "\<And>v. uc_http2_keepalive_timeout_ms c = Some v \<Longrightarrow> 1000 \<le> v"
    "\<And>v. uc_http2_keepalive_interval_ms c = Some v \<Longrightarrow> v \<noteq> 0 \<Longrightarrow> 1000 \<le> v"
  using assms by (auto simp: upstream_validate_def split: if_splits option.splits)

lemma derived_keepalive:
  assumes "\<not> keepalive_explicit c" "http2_keepalive c = Some (interval, ack)"
  shows "interval + ack \<le> 3 * uc_timeout_ms c div 4" "1000 \<le> ack" "1000 \<le> interval"
proof -
  from assms have i: "interval = min (uc_timeout_ms c div 2) 10000" and a: "ack = min (uc_timeout_ms c div 4) 5000"
    and n: "1000 \<le> ack"
    by (auto simp: http2_keepalive_def keepalive_explicit_def Let_def split: if_splits)
  have "interval \<le> uc_timeout_ms c div 2" "ack \<le> uc_timeout_ms c div 4" "1000 \<le> uc_timeout_ms c div 4"
    using i a n by simp_all
  then show "interval + ack \<le> 3 * uc_timeout_ms c div 4" "1000 \<le> ack" "1000 \<le> interval"
    using i n by linarith+
qed

text \<open>With a valid policy, a dead connection is noticed before a call's deadline: whenever the
  keepalive is on, the PING interval and the wait for its acknowledgement are positive and together stay
  below the call's time limit, and below three quarters of it when both are derived. There is at least
  one slot for anonymous calls, and no more than calls in flight.\<close>

theorem dead_connections_are_noticed_in_time:
  assumes "upstream_validate c = Ok ()" "http2_keepalive c = Some (interval, ack)"
  shows "0 < interval \<and> 0 < ack \<and> interval + ack < uc_timeout_ms c \<and>
    (\<not> keepalive_explicit c \<longrightarrow> 1000 \<le> ack \<and> interval + ack \<le> 3 * uc_timeout_ms c div 4) \<and>
    1 \<le> anonymous_slots c \<and> anonymous_slots c \<le> uc_max_inflight c"
proof -
  note v = upstream_valid [OF assms(1)]
  have slots: "1 \<le> anonymous_slots c \<and> anonymous_slots c \<le> uc_max_inflight c"
    using v(8,9) by (auto simp: anonymous_slots_def split: option.splits)
  show ?thesis
  proof (cases "keepalive_explicit c")
    case False
    note d = derived_keepalive [OF False assms(2)]
    have "3 * uc_timeout_ms c div 4 < uc_timeout_ms c" using v(5) by linarith
    with d slots show ?thesis by simp
  next
    case True
    have "interval + ack < uc_timeout_ms c"
      using v(7) True assms(2) by (auto simp: explicit_keepalive_misses_deadline_def)
    moreover have "0 < interval" "0 < ack"
      using assms(2) v(5,10,11) True
      by (auto simp: http2_keepalive_def Let_def keepalive_explicit_def split: if_splits option.splits)
    ultimately show ?thesis using slots True by simp
  qed
qed

theorem dead_connections_are_noticed_in_time_witness:
  "upstream_validate upstream_default = Ok () \<and> http2_keepalive upstream_default = Some (10000, 5000) \<and>
   10000 + 5000 < uc_timeout_ms upstream_default"
proof -
  have v: "upstream_validate upstream_default = Ok ()"
    by (simp add: upstream_validate_def upstream_default_def explicit_keepalive_misses_deadline_def
        keepalive_explicit_def)
  have k: "http2_keepalive upstream_default = Some (10000, 5000)"
    by (simp add: http2_keepalive_def upstream_default_def keepalive_explicit_def)
  show ?thesis using v k dead_connections_are_noticed_in_time [OF v k] by blast
qed

end
