(* ===== verification/Game_Rpc.thy ===== *)
theory Game_Rpc
  imports Accounts Global_Sdk Resources Upstream_Policy
begin

section \<open>One game RPC (src/client.rs)\<close>

text \<open>
  \<open>GameClient::execute_once\<close> and \<open>execute\<close>: the request of a unary gRPC call, the reading of its answer,
  and what the client remembers from it. A call is two functions, because the state lock is free
  while the request is in flight: \<open>rpc_request\<close> builds the request from the state, \<open>rpc_answer\<close> applies the
  answer to the state found then. The protocol bundle (protobuf descriptors), header syntax, RFC 3339,
  JSON and semantic versions are library code and parameters.
\<close>

type_synonym headers = "(string \<times> string) list"

record 'v rpc_lib =
  rp_to_str :: "string \<Rightarrow> string option"
  rp_header_ok :: "string \<Rightarrow> bool"
  rp_uri_ok :: "string \<Rightarrow> bool"
  rp_rfc3339_ok :: "string \<Rightarrow> bool"
  rp_json :: "string \<Rightarrow> json option"
  rp_semver :: "string \<Rightarrow> 'v option"

record protocol_bundle =
  pb_sha256 :: string
  pb_generation :: nat
  pb_version :: string
  pb_encode :: "string \<Rightarrow> json \<Rightarrow> app_error + string"
  pb_decode :: "string \<Rightarrow> string \<Rightarrow> app_error + json"
  pb_area_name :: "string option"

record client_config =
  cc_region :: region
  cc_environment :: string
  cc_endpoint :: string
  cc_platform :: platform
  cc_client_version :: string
  cc_upstream :: upstream_config
  cc_default_cdn_root :: string
  cc_cdn_credential_env :: "(string \<times> string) list"
  cc_cdn_secrets :: "(string \<times> string) list"

record resource_snapshot =
  sp_schema_version :: nat
  sp_region :: region
  sp_environment :: string
  sp_platform :: string
  sp_client_version :: string
  sp_protocol_version :: string
  sp_master_version :: "string option"
  sp_resource_version :: string
  sp_platform_hash :: string
  sp_effective_cdn_root :: string
  sp_credential_ref :: string
  sp_observed_at :: instant
  sp_source :: string
  sp_catalog_layout :: "string option"
  sp_catalog_url :: "string option"
  sp_bundle_base_url :: "string option"
  sp_cdn_authorization :: "string option"

record client_state =
  cs_observation :: observation
  cs_master_pair :: "(string \<times> string option) option"
  cs_snapshot :: "resource_snapshot option"
  cs_snapshot_stale :: bool
  cs_cdn_root :: string
  cs_credential_valid :: bool
  cs_global_version :: "(string \<times> instant) option"
  cs_catalog_hash :: "(string \<times> string \<times> string option \<times> instant) option"
  cs_version_fresh_until :: "instant option"
  cs_version_suspect :: bool
  cs_version_retry_at :: "instant option"
  cs_client_update_required :: bool

definition VERSION_RETRY :: duration where "VERSION_RETRY = from_secs 30"

definition global_family :: "client_config \<Rightarrow> bool" where
  "global_family C \<longleftrightarrow> region_family (cc_region C) = ''global''"

subsection \<open>gRPC frames\<close>

definition be32 :: "32 word \<Rightarrow> string" where
  \<comment> \<open>\<open>u32::to_be_bytes\<close>\<close>
  "be32 w = [char_of (unat (drop_bit 24 w) mod 256), char_of (unat (drop_bit 16 w) mod 256),
             char_of (unat (drop_bit 8 w) mod 256), char_of (unat w mod 256)]"

definition from_be32 :: "string \<Rightarrow> nat" where
  "from_be32 s = foldl (\<lambda>n c. n * 256 + byte c) 0 s"

definition frame_encode :: "string \<Rightarrow> string" where
  \<comment> \<open>no compression, the length as \<open>u32\<close> (a cast: it keeps the low 32 bits), the message\<close>
  "frame_encode encoded = char_of (0::nat) # be32 (of_nat (length encoded)) @ encoded"

definition frame_decode :: "string \<Rightarrow> app_error + string" where
  "frame_decode bytes =
     (if length bytes < 5 \<or> byte (hd bytes) \<noteq> 0 then Err Protocol
      else if from_be32 (take 4 (drop 1 bytes)) \<noteq> length bytes - 5 then Err Protocol
      else Ok (drop 5 bytes))"

subsection \<open>The request\<close>

record rpc_message =
  rm_url :: string
  rm_headers :: headers
  rm_body :: string

definition grpc_timeout :: "duration \<Rightarrow> string" where
  \<comment> \<open>whole milliseconds, rounded up\<close>
  "grpc_timeout remaining =
     decimal (max 1 (remaining div 1000000 + (if remaining mod 1000000 \<noteq> 0 then 1 else 0))) @ ''m''"

definition fixed_headers :: "client_config \<Rightarrow> duration \<Rightarrow> string \<Rightarrow> headers" where
  "fixed_headers C remaining request_id =
     [(''content-type'', ''application/grpc+proto''),
      (''user-agent'', ''sirius-api-proxy/1.3.6''),
      (''te'', ''trailers''),
      (''grpc-accept-encoding'', ''identity''),
      (''grpc-timeout'', grpc_timeout remaining),
      (''x-platform'', platform_header (cc_platform C)),
      (''x-client-version'', cc_client_version C),
      (''x-request-id'', request_id)]"

definition sent_version :: "client_state \<Rightarrow> string \<Rightarrow> string option" where
  \<comment> \<open>the \<open>x-master-version\<close> of a request: never on PlayerLogin, and not on the Version call after a mismatch\<close>
  "sent_version s route =
     (if route = PLAYER_LOGIN \<or> (route = VERSION \<and> cs_version_suspect s) then None
      else ob_master_version (cs_observation s))"

definition version_headers :: "client_state \<Rightarrow> string \<Rightarrow> headers" where
  "version_headers s route = (case sent_version s route of None \<Rightarrow> [] | Some v \<Rightarrow> [(''x-master-version'', v)])"

definition player_headers ::
  "client_config \<Rightarrow> client_state \<Rightarrow> string \<Rightarrow> auth option \<Rightarrow> app_error + headers" where
  "player_headers C s route auth =
     (if \<not> authenticated route then Ok []
      else case auth of
             None \<Rightarrow> Err AccountUnavailable
           | Some a \<Rightarrow>
               Ok ([(''x-player-id'', au_player_id a), (''x-player-credential'', au_credential a)] @
                   (if global_family C
                    then (case ob_resource_version (cs_observation s) of
                            None \<Rightarrow> [] | Some v \<Rightarrow> [(''x-resource-version'', v)])
                    else [])))"

definition bid_headers :: "client_config \<Rightarrow> string \<Rightarrow> auth option \<Rightarrow> app_error + headers" where
  "bid_headers C route auth =
     (if global_family C \<and> (route = PLAYER_LOGIN \<or> authenticated route)
      then (case Option.bind auth au_bid of None \<Rightarrow> Err AccountUnavailable | Some bid \<Rightarrow> Ok [(''x-player-bid'', bid)])
      else Ok [])"

definition rpc_request ::
  "'v rpc_lib \<Rightarrow> client_config \<Rightarrow> protocol_bundle \<Rightarrow> string \<Rightarrow> json \<Rightarrow> auth option \<Rightarrow> duration \<Rightarrow> string
   \<Rightarrow> client_state \<Rightarrow> app_error + rpc_message" where
  \<comment> \<open>\<open>remaining\<close> until the deadline; \<open>request_id\<close> is the random UUID\<close>
  "rpc_request L C P route input auth remaining request_id s =
     (if remaining = 0 then Err Timeout
      else
        then_result (pb_encode P route input) (\<lambda>encoded.
        then_result (player_headers C s route auth) (\<lambda>player.
        then_result (bid_headers C route auth) (\<lambda>bid.
          let hs = fixed_headers C remaining request_id @ version_headers s route @ player @ bid;
              url = cc_endpoint C @ route
          in if rp_uri_ok L url \<and> list_all (\<lambda>h. rp_header_ok L (snd h)) hs
             then Ok \<lparr>rm_url = url, rm_headers = hs, rm_body = frame_encode encoded\<rparr>
             else Err Protocol))))"

subsection \<open>The answer\<close>

datatype body_frame = DataFrame string | TrailerFrame headers

record rpc_response =
  rs_status :: nat
  rs_headers :: headers
  rs_frames :: "(unit + body_frame) list"

definition headers_extend :: "headers \<Rightarrow> headers \<Rightarrow> headers" where
  \<comment> \<open>\<open>HeaderMap::extend\<close>: a name of the trailers replaces the values it had\<close>
  "headers_extend md trailers = filter (\<lambda>h. fst h \<notin> fst ` set trailers) md @ trailers"

definition header :: "'v rpc_lib \<Rightarrow> headers \<Rightarrow> string \<Rightarrow> string option" where
  "header L md key = Option.bind (map_of md key) (rp_to_str L)"

datatype read_outcome = ReadFailed app_error "path_outcome option" | ReadDone string headers

fun read_frames :: "nat \<Rightarrow> string \<Rightarrow> headers \<Rightarrow> (unit + body_frame) list \<Rightarrow> read_outcome" where
  "read_frames limit bytes md [] = ReadDone bytes md"
| "read_frames limit bytes md (Inl _ # fs) = ReadFailed Transport (Some (Fault (app_error_code Transport)))"
| "read_frames limit bytes md (Inr (DataFrame data) # fs) =
     (if limit < length bytes + length data then ReadFailed Protocol None
      else read_frames limit (bytes @ data) md fs)"
| "read_frames limit bytes md (Inr (TrailerFrame trailers) # fs) =
     read_frames limit bytes (headers_extend md trailers) fs"

definition decimal_value :: "string \<Rightarrow> nat" where
  "decimal_value s = foldl (\<lambda>n c. n * 10 + (byte c - 48)) 0 s"

definition parse_u16 :: "string \<Rightarrow> nat option" where
  \<comment> \<open>\<open>str::parse::<u16>\<close>: digits, with an optional plus sign\<close>
  "parse_u16 s =
     (let digits = (if starts_with s ''+'' then tl s else s)
      in if digits \<noteq> [] \<and> list_all ascii_digit digits \<and> decimal_value digits < 65536
         then Some (decimal_value digits) else None)"

definition grpc_status :: "'v rpc_lib \<Rightarrow> headers \<Rightarrow> nat option" where
  "grpc_status L md =
     (case Option.bind (header L md ''grpc-status'') parse_u16 of
        None \<Rightarrow> None | Some n \<Rightarrow> if n \<le> 16 then Some n else None)"

definition application_code :: "'v rpc_lib \<Rightarrow> headers \<Rightarrow> string option" where
  "application_code L md =
     (case header L md ''x-sirius-error-code'' of
        None \<Rightarrow> None
      | Some v \<Rightarrow>
          if v \<noteq> [] \<and> length v \<le> 64 \<and> list_all (\<lambda>c. ascii_upper c \<or> ascii_digit c \<or> c = CHR ''_'') v
          then Some v else None)"

definition content_ok :: "'v rpc_lib \<Rightarrow> headers \<Rightarrow> bool" where
  "content_ok L md \<longleftrightarrow>
     (case header L md ''content-type'' of
        None \<Rightarrow> False | Some s \<Rightarrow> s = ''application/grpc'' \<or> starts_with s ''application/grpc+'')"

definition answer_outcome :: "bool \<Rightarrow> nat option \<Rightarrow> string option \<Rightarrow> path_outcome" where
  "answer_outcome answered status code =
     (if \<not> answered then Fault (app_error_code Protocol)
      else case status of
             None \<Rightarrow> Fault (app_error_code Protocol)
           | Some n \<Rightarrow> if n = 14 \<and> code = None then Fault (app_error_code (Grpc 14)) else Healthy)"

subsection \<open>What the client remembers\<close>

definition observe_code ::
  "nat option \<Rightarrow> string option \<Rightarrow> string option \<Rightarrow> client_state \<Rightarrow> client_state" where
  \<comment> \<open>the \<open>match\<close> of \<open>observe\<close>; \<open>sent\<close> is the version the request carried\<close>
  "observe_code status code sent s =
     (if code = Some ''MASTER_VERSION_MISMATCH'' \<and> \<not> cs_version_suspect s \<and> sent \<noteq> None
         \<and> sent = ob_master_version (cs_observation s)
      then s\<lparr>cs_version_suspect := True\<rparr>
      else if code = Some ''CLIENT_UPDATE_REQUIRED'' \<and> \<not> cs_client_update_required s
      then s\<lparr>cs_client_update_required := True\<rparr>
      else if status = Some 0 then s\<lparr>cs_client_update_required := False\<rparr>
      else s)"

definition observe_root :: "'v rpc_lib \<Rightarrow> headers \<Rightarrow> client_state \<Rightarrow> client_state" where
  "observe_root L md s =
     (case header L md ''x-sirius-env'' of
        None \<Rightarrow> s
      | Some root \<Rightarrow>
          (if root \<noteq> cs_cdn_root s then s\<lparr>cs_snapshot_stale := True, cs_credential_valid := False\<rparr> else s)
            \<lparr>cs_cdn_root := root\<rparr>)"

definition observe_credential :: "'v rpc_lib \<Rightarrow> client_config \<Rightarrow> headers \<Rightarrow> client_state \<Rightarrow> client_state" where
  "observe_credential L C md s =
     (case header L md ''x-sirius-cred'' of
        None \<Rightarrow> s
      | Some credential \<Rightarrow>
          let valid = (map_of (cc_cdn_secrets C) (cs_cdn_root s) = Some credential)
          in s\<lparr>cs_credential_valid := valid, cs_snapshot_stale := (cs_snapshot_stale s \<or> \<not> valid)\<rparr>)"

definition observe ::
  "'v rpc_lib \<Rightarrow> client_config \<Rightarrow> instant \<Rightarrow> headers \<Rightarrow> nat option \<Rightarrow> string option \<Rightarrow> client_state \<Rightarrow> client_state" where
  "observe L C wall md status sent s =
     (let code = application_code L md;
          s1 = s\<lparr>cs_observation := (cs_observation s)
                  \<lparr>ob_observed_at := Some wall, ob_grpc_status := status, ob_application_code := code,
                   ob_maintenance := (code = Some ''UNDER_MAINTENANCE'')\<rparr>\<rparr>;
          s2 = observe_code status code sent s1;
          server_time = (case header L md ''x-server-time'' of
                           None \<Rightarrow> None | Some v \<Rightarrow> if rp_rfc3339_ok L v then Some v else None);
          s3 = s2\<lparr>cs_observation := (cs_observation s2)\<lparr>ob_server_time := server_time\<rparr>,
                  cs_snapshot_stale := (cs_snapshot_stale s2 \<or> status \<noteq> Some 0)\<rparr>
      in observe_credential L C md (observe_root L md s3))"

definition safe_version :: "string \<Rightarrow> bool" where
  "safe_version value \<longleftrightarrow>
     (let parts = split_on (CHR ''/'') value; version = hd parts in
      version \<noteq> [] \<and> length version \<le> 128 \<and> length value \<le> 256 \<and> version \<noteq> ''.'' \<and> version \<noteq> ''..'' \<and>
      list_all (\<lambda>b. ascii_alphanumeric b \<or> b \<in> set ''._-'') version \<and>
      (case tl parts of
         [] \<Rightarrow> True
       | h # rest \<Rightarrow> length h = 32 \<and> list_all ascii_hexdigit h \<and> rest = []))"

definition resource_version_component :: "string \<Rightarrow> bool" where
  "resource_version_component v \<longleftrightarrow>
     v \<noteq> [] \<and> length v \<le> 128 \<and> v \<noteq> ''.'' \<and> v \<noteq> ''..'' \<and> v \<noteq> ''unknown'' \<and>
     list_all (\<lambda>b. ascii_alphanumeric b \<or> b \<in> set ''._-'') v"

definition body_resource :: "json \<Rightarrow> string option" where
  "body_resource v =
     (case Option.bind (json_get v ''resourceVersion'') as_str of
        None \<Rightarrow> None | Some r \<Rightarrow> if safe_version r then Some r else None)"

definition asset_version :: "('v::linorder) rpc_lib \<Rightarrow> client_config \<Rightarrow> headers \<Rightarrow> json \<Rightarrow> string option" where
  "asset_version L C md v =
     or_else (body_resource v)
       (case header L md ''x-asset-version'' of
          None \<Rightarrow> None
        | Some raw \<Rightarrow>
            (case select_platform (rp_json L) (rp_semver L) raw (cc_client_version C) (cc_platform C) of
               Inl _ \<Rightarrow> None
             | Inr (version, _) \<Rightarrow> if safe_version version then Some version else None))"

definition reported_version :: "'v rpc_lib \<Rightarrow> json \<Rightarrow> string option" where
  "reported_version L v =
     (case Option.bind (json_get v ''version'') as_str of
        None \<Rightarrow> None | Some s \<Rightarrow> if s \<noteq> [] \<and> length s \<le> 256 \<and> rp_header_ok L s then Some s else None)"

definition adopt_version ::
  "('v::linorder) rpc_lib \<Rightarrow> client_config \<Rightarrow> instant \<Rightarrow> instant \<Rightarrow> headers \<Rightarrow> json \<Rightarrow> string \<Rightarrow> client_state
   \<Rightarrow> client_state" where
  \<comment> \<open>what a successful VERSION answer changes\<close>
  "adopt_version L C now wall md v version s =
     (let same = (cs_version_suspect s \<and> ob_master_version (cs_observation s) = Some version);
          s1 = s\<lparr>cs_version_retry_at := (if same then Some (now + VERSION_RETRY) else None),
                 cs_version_suspect := False,
                 cs_version_fresh_until :=
                   Some (now + from_secs (uc_version_max_age_seconds (cc_upstream C))),
                 cs_observation := (cs_observation s)
                   \<lparr>ob_master_version := Some version, ob_resource_version := body_resource v\<rparr>,
                 cs_master_pair := Some (version, asset_version L C md v)\<rparr>
      in if global_family C
         then s1\<lparr>cs_global_version :=
                   (case body_resource v of
                      None \<Rightarrow> None
                    | Some r \<Rightarrow> if resource_version_component r then Some (r, wall) else None),
                 cs_snapshot_stale := True\<rparr>
         else s1)"

definition promote_snapshot ::
  "('v::linorder) rpc_lib \<Rightarrow> client_config \<Rightarrow> instant \<Rightarrow> headers \<Rightarrow> string \<Rightarrow> client_state \<Rightarrow> client_state" where
  "promote_snapshot L C wall md protocol_version s =
     (if global_family C then s
      else case header L md ''x-asset-version'' of
        None \<Rightarrow> s
      | Some raw \<Rightarrow>
          let s1 = s\<lparr>cs_snapshot_stale := True\<rparr> in
          (case select_platform (rp_json L) (rp_semver L) raw (cc_client_version C) (cc_platform C) of
             Inl _ \<Rightarrow> s1
           | Inr (version, hash) \<Rightarrow>
          (case map_of (cc_cdn_credential_env C) (cs_cdn_root s1) of
             None \<Rightarrow> s1
           | Some reference \<Rightarrow>
               if \<not> cs_credential_valid s1 then s1
               else s1\<lparr>cs_snapshot := Some
                   \<lparr>sp_schema_version = 2, sp_region = cc_region C, sp_environment = cc_environment C,
                    sp_platform = platform_name (cc_platform C), sp_client_version = cc_client_version C,
                    sp_protocol_version = protocol_version,
                    sp_master_version = ob_master_version (cs_observation s1),
                    sp_resource_version = version, sp_platform_hash = hash,
                    sp_effective_cdn_root = cs_cdn_root s1, sp_credential_ref = reference,
                    sp_observed_at = wall, sp_source = ''remote'', sp_catalog_layout = None,
                    sp_catalog_url = None, sp_bundle_base_url = None, sp_cdn_authorization = None\<rparr>,
                  cs_snapshot_stale := False\<rparr>)))"

subsection \<open>A whole call\<close>

fun members_insert :: "string \<Rightarrow> json \<Rightarrow> (string \<times> json) list \<Rightarrow> (string \<times> json) list" where
  "members_insert k v [] = [(k, v)]"
| "members_insert k v (m # ms) = (if fst m = k then (k, v) # ms else m # members_insert k v ms)"

fun normalize_server :: "string \<Rightarrow> json \<Rightarrow> json" where
  "normalize_server name (JObj ms) =
     (case map_of ms name of
        None \<Rightarrow> JObj ms
      | Some area \<Rightarrow> JObj (members_insert ''areaId'' area (members_remove name ms)))"
| "normalize_server name v = v"

definition normalize_servers :: "protocol_bundle \<Rightarrow> json \<Rightarrow> json" where
  "normalize_servers P value =
     (case pb_area_name P of
        None \<Rightarrow> value
      | Some name \<Rightarrow>
          if name = ''areaId'' then value
          else (case value of
                  JObj ms \<Rightarrow>
                    (case map_of ms ''servers'' of
                       Some (JArr servers) \<Rightarrow>
                         JObj (members_insert ''servers'' (JArr (map (normalize_server name) servers)) ms)
                     | _ \<Rightarrow> value)
                | _ \<Rightarrow> value))"

record rpc_result =
  rr_result :: "app_error + json"
  rr_code :: "string option"
  rr_outcome :: "path_outcome option"
  rr_state :: client_state

definition rpc_done ::
  "('v::linorder) rpc_lib \<Rightarrow> client_config \<Rightarrow> protocol_bundle \<Rightarrow> instant \<Rightarrow> instant \<Rightarrow> string \<Rightarrow> auth option
   \<Rightarrow> headers \<Rightarrow> string \<Rightarrow> client_state \<Rightarrow> (app_error + json) \<times> client_state" where
  \<comment> \<open>from an answer with gRPC status 0 on\<close>
  "rpc_done L C P now wall route auth md bytes s =
     (if (case header L md ''grpc-encoding'' of None \<Rightarrow> False | Some e \<Rightarrow> e \<noteq> ''identity'')
      then (Err Protocol, s)
      else case then_result (frame_decode bytes) (pb_decode P route) of
        Inl err \<Rightarrow> (Err err, s)
      | Inr value \<Rightarrow>
          if route = WHOAMI \<and> Option.bind (json_get value ''playerId'') as_str \<noteq> map_option au_player_id auth
          then (Err Protocol, s)
          else
            let value1 = (if route = SERVER_LIST then normalize_servers P value else value) in
            if route = VERSION
            then (case reported_version L value1 of
                    None \<Rightarrow> (Err Protocol, s)
                  | Some version \<Rightarrow>
                      (Ok value1, promote_snapshot L C wall md (pb_version P)
                                    (adopt_version L C now wall md value1 version s)))
            else (Ok value1, promote_snapshot L C wall md (pb_version P) s))"

definition rpc_answer ::
  "('v::linorder) rpc_lib \<Rightarrow> client_config \<Rightarrow> protocol_bundle \<Rightarrow> instant \<Rightarrow> instant \<Rightarrow> string \<Rightarrow> auth option
   \<Rightarrow> string option \<Rightarrow> app_error + rpc_response \<Rightarrow> client_state \<Rightarrow> rpc_result" where
  "rpc_answer L C P now wall route auth sent response s =
     (case response of
        Inl err \<Rightarrow>
          \<lparr>rr_result = Err err, rr_code = None, rr_outcome = Some (Fault (app_error_code err)), rr_state = s\<rparr>
      | Inr r \<Rightarrow>
     (case read_frames (uc_max_response_bytes (cc_upstream C)) [] (rs_headers r) (rs_frames r) of
        ReadFailed err outcome \<Rightarrow>
          \<lparr>rr_result = Err err, rr_code = None, rr_outcome = outcome, rr_state = s\<rparr>
      | ReadDone bytes md \<Rightarrow>
          let answered = (200 \<le> rs_status r \<and> rs_status r < 300 \<and> content_ok L (rs_headers r));
              status = grpc_status L md;
              code = application_code L md;
              s1 = observe L C wall md status sent s;
              finish = (\<lambda>(result, st). \<lparr>rr_result = result, rr_code = code,
                         rr_outcome = Some (answer_outcome answered status code), rr_state = st\<rparr>)
          in if \<not> answered then finish (Err Protocol, s1)
             else (case status of
                     None \<Rightarrow> finish (Err Protocol, s1)
                   | Some n \<Rightarrow>
                       if n \<noteq> 0
                       then finish (Err (if code = Some ''UNDER_MAINTENANCE'' then Maintenance n else Grpc n), s1)
                       else finish (rpc_done L C P now wall route auth md bytes s1))))"

record rpc_env =
  ev_remaining :: duration
  ev_request_id :: string
  ev_now :: instant
  ev_wall :: instant
  ev_server :: "rpc_message \<Rightarrow> app_error + rpc_response"
  ev_late :: bool \<comment> \<open>the deadline passes while the request is in flight\<close>

definition execute_once ::
  "('v::linorder) rpc_lib \<Rightarrow> client_config \<Rightarrow> protocol_bundle \<Rightarrow> string \<Rightarrow> json \<Rightarrow> auth option \<Rightarrow> rpc_env
   \<Rightarrow> client_state \<Rightarrow> rpc_message option \<times> rpc_result" where
  \<comment> \<open>the message sent, if any, and the result; an attempt abandoned at the deadline is a fault of the path
    (\<open>UpstreamAttempt::drop\<close>) and the call a timeout\<close>
  "execute_once L C P route input auth E s =
     (case rpc_request L C P route input auth (ev_remaining E) (ev_request_id E) s of
        Inl err \<Rightarrow> (None, \<lparr>rr_result = Err err, rr_code = None, rr_outcome = None, rr_state = s\<rparr>)
      | Inr m \<Rightarrow>
          (Some m,
           if ev_late E
           then \<lparr>rr_result = Err Timeout, rr_code = None,
                 rr_outcome = Some (Fault (app_error_code Timeout)), rr_state = s\<rparr>
           else rpc_answer L C P (ev_now E) (ev_wall E) route auth (sent_version s route) (ev_server E m) s))"

fun list_of_option :: "'a option \<Rightarrow> 'a list" where
  "list_of_option None = []"
| "list_of_option (Some x) = [x]"

lemma length_list_of_option: "length (list_of_option m) \<le> 1"
  by (cases m) simp_all

definition attempt_limit :: "client_config \<Rightarrow> string \<Rightarrow> nat" where
  "attempt_limit C route =
     (if route = VERSION \<or> route = ANNOUNCEMENTS \<or> route = ANNOUNCEMENT \<or> route = SERVER_LIST
      then uc_anonymous_attempts (cc_upstream C) else 1)"

definition retry_delay :: "client_config \<Rightarrow> nat \<Rightarrow> nat" where
  \<comment> \<open>\<open>retry_delay_ms.saturating_mul(1 << (attempt - 1))\<close>\<close>
  "retry_delay C attempt =
     min (uc_retry_delay_ms (cc_upstream C) * unat (push_bit (attempt - 1) 1 :: 64 word)) u64_max"

definition may_retry :: "rpc_result \<Rightarrow> bool" where
  "may_retry r \<longleftrightarrow>
     (rr_result r = Err Transport \<or> rr_result r = Err (Grpc 14)) \<and> \<not> version_signal (rr_code r) \<and>
     \<not> ob_maintenance (cs_observation (rr_state r))"

record rpc_execution =
  ex_result :: rpc_result
  ex_messages :: "rpc_message list"
  ex_outcomes :: "(instant \<times> path_outcome) list"
  ex_slept_ms :: nat

function execute ::
  "('v::linorder) rpc_lib \<Rightarrow> client_config \<Rightarrow> protocol_bundle \<Rightarrow> string \<Rightarrow> json \<Rightarrow> auth option \<Rightarrow> (nat \<Rightarrow> rpc_env)
   \<Rightarrow> nat \<Rightarrow> client_state \<Rightarrow> rpc_execution" where
  \<comment> \<open>the loop, from the attempt number \<open>attempt\<close> on\<close>
  "execute L C P route input auth envs attempt s =
     (case execute_once L C P route input auth (envs attempt) s of (m, r) \<Rightarrow>
        let sent = list_of_option m;
            outcomes = map (Pair (ev_now (envs attempt))) (list_of_option (rr_outcome r)) in
        if attempt_limit C route \<le> attempt + 1 \<or> \<not> may_retry r
        then \<lparr>ex_result = r, ex_messages = sent, ex_outcomes = outcomes, ex_slept_ms = 0\<rparr>
        else let e = execute L C P route input auth envs (attempt + 1) (rr_state r)
             in e\<lparr>ex_messages := sent @ ex_messages e, ex_outcomes := outcomes @ ex_outcomes e,
                  ex_slept_ms := retry_delay C (attempt + 1) + ex_slept_ms e\<rparr>)"
  by pat_completeness auto
termination
  by (relation "measure (\<lambda>(L, C, P, route, input, auth, envs, attempt, s). attempt_limit C route - attempt)") auto

declare execute.simps [simp del]

subsection \<open>Frames\<close>

lemma from_be32_4:
  "from_be32 [a, b, c, d] = ((byte a * 256 + byte b) * 256 + byte c) * 256 + byte d"
  by (simp add: from_be32_def)

lemma length_be32 [simp]: "length (be32 w) = 4"
  by (simp add: be32_def)

lemma digit256: "d < 256 \<Longrightarrow> (x * 256 + d) div 256 = x" "d < 256 \<Longrightarrow> (x * 256 + d) mod 256 = (d::nat)"
  by simp_all

lemma be32_digits:
  assumes "a < 256" "b < 256" "c < 256" "d < 256"
  shows "be32 (of_nat (((a * 256 + b) * 256 + c) * 256 + d)) = map char_of [a, b, c, d]"
proof -
  let ?n = "((a * 256 + b) * 256 + c) * 256 + d"
  have "?n < 2 ^ 32" using assms by simp
  then have n: "unat (of_nat ?n :: 32 word) = ?n" by (subst unat_of_nat) (simp add: take_bit_nat_eq_self)
  have drop: "unat (drop_bit k (of_nat ?n :: 32 word)) = ?n div 2 ^ k" for k
    by (subst unat_drop_bit_eq) (simp only: n drop_bit_eq_div)
  have p8: "(2::nat) ^ 8 = 256" by simp
  have q1: "?n div 2 ^ 8 = (a * 256 + b) * 256 + c" and r1: "?n mod 256 = d"
    unfolding p8 by (rule digit256 [OF assms(4)])+
  have "?n div 2 ^ 16 = ?n div 2 ^ 8 div 256" by (simp only: div_mult2_eq [symmetric]) simp
  then have q2: "?n div 2 ^ 16 = a * 256 + b" unfolding q1 digit256(1) [OF assms(3)] .
  have "?n div 2 ^ 24 = ?n div 2 ^ 16 div 256" by (simp only: div_mult2_eq [symmetric]) simp
  then have q3: "?n div 2 ^ 24 = a" unfolding q2 digit256(1) [OF assms(2)] .
  show ?thesis
    unfolding be32_def drop n q1 q2 q3 r1 digit256(2) [OF assms(2)] digit256(2) [OF assms(3)]
    using assms(1) by simp
qed

lemma be32_from_be32:
  assumes "length s = 4"
  shows "be32 (of_nat (from_be32 s)) = s" "from_be32 s < 2 ^ 32"
proof -
  obtain a b c d where s: "s = [a, b, c, d]"
    using assms by (auto simp: length_Suc_conv numeral_eq_Suc)
  show "be32 (of_nat (from_be32 s)) = s"
    unfolding s from_be32_4 by (subst be32_digits) (simp_all add: byte_less char_of_byte)
  show "from_be32 s < 2 ^ 32"
    unfolding s from_be32_4 using byte_less [of a] byte_less [of b] byte_less [of c] byte_less [of d] by simp
qed

lemma from_be32_be32:
  assumes "n < 2 ^ 32"
  shows "from_be32 (be32 (of_nat n)) = n"
proof -
  define a b c d where "a = n div 256 div 256 div 256" and "b = n div 256 div 256 mod 256"
    and "c = n div 256 mod 256" and "d = n mod 256"
  note digits = this
  have "n div 256 div 256 div 256 = n div 2 ^ 24" by (simp add: div_mult2_eq [symmetric])
  then have small: "a < 256" "b < 256" "c < 256" "d < 256"
    using assms by (simp_all add: digits div_less_iff_less_mult)
  have n: "n = ((a * 256 + b) * 256 + c) * 256 + d" by (simp add: digits)
  have "from_be32 (be32 (of_nat (((a * 256 + b) * 256 + c) * 256 + d))) = ((a * 256 + b) * 256 + c) * 256 + d"
    unfolding be32_digits [OF small] by (simp add: from_be32_4 byte_of_char_of small)
  then show ?thesis by (simp only: n [symmetric])
qed

lemma frame_decode_iff:
  "frame_decode bytes = Ok p \<longleftrightarrow> bytes = frame_encode p \<and> length p < 2 ^ 32"
proof
  assume "frame_decode bytes = Ok p"
  then have len: "5 \<le> length bytes" and b0: "byte (hd bytes) = 0"
    and n: "from_be32 (take 4 (drop 1 bytes)) = length bytes - 5" and p: "p = drop 5 bytes"
    by (auto simp: frame_decode_def split: if_splits)
  have four: "length (take 4 (drop 1 bytes)) = 4" using len by simp
  have "bytes = hd bytes # take 4 (drop 1 bytes) @ drop 5 bytes"
    using len by (cases bytes) (auto simp: append_take_drop_id [of 4, symmetric] simp del: append_take_drop_id)
  moreover have "hd bytes = char_of (0::nat)" using char_of_byte [of "hd bytes"] b0 by simp
  moreover have "take 4 (drop 1 bytes) = be32 (of_nat (length p))"
    using be32_from_be32(1) [OF four] n p by simp
  ultimately show "bytes = frame_encode p \<and> length p < 2 ^ 32"
    using be32_from_be32(2) [OF four] n p by (simp add: frame_encode_def)
next
  assume "bytes = frame_encode p \<and> length p < 2 ^ 32"
  then show "frame_decode bytes = Ok p"
    by (simp add: frame_decode_def frame_encode_def from_be32_be32 byte_of_char_of)
qed

subsection \<open>Requests and retries\<close>

lemma rpc_request_headers:
  assumes "rpc_request L C P route input auth remaining request_id s = Ok m"
  obtains player bid where "player_headers C s route auth = Ok player" "bid_headers C route auth = Ok bid"
    "rm_headers m = fixed_headers C remaining request_id @ version_headers s route @ player @ bid"
    "rm_url m = cc_endpoint C @ route" "list_all (\<lambda>h. rp_header_ok L (snd h)) (rm_headers m)"
    "\<exists>encoded. pb_encode P route input = Ok encoded \<and> rm_body m = frame_encode encoded"
  using assms by (auto simp: rpc_request_def then_result_Ok_iff Let_def split: if_splits)

lemma fixed_headers_names: "(k, v) \<in> set (fixed_headers C remaining request_id) \<Longrightarrow>
  k \<noteq> ''x-player-id'' \<and> k \<noteq> ''x-player-credential'' \<and> k \<noteq> ''x-player-bid'' \<and> k \<noteq> ''x-master-version'' \<and> k \<noteq> ''x-resource-version''"
  by (auto simp: fixed_headers_def)

lemma attempt_limit_authenticated: "authenticated route \<or> route = PLAYER_LOGIN \<Longrightarrow> attempt_limit C route = 1"
  by (auto simp: attempt_limit_def authenticated_def route_defs)

lemma execute_bounded:
  assumes "attempt < attempt_limit C route" "attempt_limit C route \<le> 5" "uc_retry_delay_ms (cc_upstream C) \<le> 10000"
  shows "length (ex_messages (execute L C P route input auth envs attempt s)) \<le> attempt_limit C route - attempt \<and>
    ex_slept_ms (execute L C P route input auth envs attempt s) \<le> (attempt_limit C route - attempt - 1) * 80000"
  using assms
proof (induction L C P route input auth envs attempt s rule: execute.induct)
  case (1 L C P route input auth envs attempt s)
  obtain m r where once: "execute_once L C P route input auth (envs attempt) s = (m, r)" by fastforce
  let ?e = "execute L C P route input auth envs (attempt + 1) (rr_state r)"
  show ?case
  proof (cases "attempt_limit C route \<le> attempt + 1 \<or> \<not> may_retry r")
    case True
    with once 1(2) length_list_of_option [of m] show ?thesis by (subst (1 2) execute.simps) auto
  next
    case False
    then have more: "attempt + 1 < attempt_limit C route" by simp
    have "push_bit attempt (1 :: 64 word) = 2 ^ attempt" by (simp add: push_bit_eq_mult)
    moreover have "attempt < 4" using more 1(3) by simp
    then have "attempt = 0 \<or> attempt = 1 \<or> attempt = 2 \<or> attempt = 3" by arith
    then have "unat ((2 :: 64 word) ^ attempt) \<le> 8" by auto
    ultimately have "retry_delay C (attempt + 1) \<le> 10000 * 8"
      unfolding retry_delay_def by (metis 1(4) add_diff_cancel_right' min.coboundedI1 mult_le_mono)
    moreover have "length (ex_messages ?e) \<le> attempt_limit C route - (attempt + 1)"
      "ex_slept_ms ?e \<le> (attempt_limit C route - (attempt + 1) - 1) * 80000"
      using 1(1) [OF once [symmetric] refl refl False more 1(3,4)] by auto
    moreover obtain k where "attempt_limit C route = attempt + 2 + k" using more less_iff_Suc_add by auto
    ultimately show ?thesis
      using once False length_list_of_option [of m] by (subst (1 2) execute.simps) (auto simp: Let_def)
  qed
qed

subsection \<open>Versions\<close>

definition version_part ::
  "client_state \<Rightarrow> string option \<times> string option \<times> (string \<times> string option) option \<times> (string \<times> instant) option
     \<times> instant option \<times> instant option" where
  \<comment> \<open>everything the client knows from VERSION\<close>
  "version_part s =
     (ob_master_version (cs_observation s), ob_resource_version (cs_observation s), cs_master_pair s,
      cs_global_version s, cs_version_fresh_until s, cs_version_retry_at s)"

lemma observe_code_version:
  "version_part (observe_code status code sent s) = version_part s"
  "cs_version_suspect (observe_code status code sent s) \<longleftrightarrow>
     cs_version_suspect s \<or>
     (code = Some ''MASTER_VERSION_MISMATCH'' \<and> sent \<noteq> None \<and> sent = ob_master_version (cs_observation s))"
  by (auto simp: observe_code_def version_part_def)

lemma observe_headers_version:
  "version_part (observe_root L md s) = version_part s"
  "cs_version_suspect (observe_root L md s) = cs_version_suspect s"
  "version_part (observe_credential L C md s) = version_part s"
  "cs_version_suspect (observe_credential L C md s) = cs_version_suspect s"
  by (simp_all add: observe_root_def observe_credential_def version_part_def Let_def split: option.splits)

lemma version_part_fields [simp]:
  "version_part (s\<lparr>cs_snapshot_stale := b\<rparr>) = version_part s"
  "version_part (s\<lparr>cs_observation := (cs_observation s)\<lparr>ob_server_time := t\<rparr>\<rparr>) = version_part s"
  "version_part (s\<lparr>cs_observation := (cs_observation s)\<lparr>ob_observed_at := w, ob_grpc_status := st,
      ob_application_code := c, ob_maintenance := m\<rparr>\<rparr>) = version_part s"
  "version_part (s\<lparr>cs_observation := (cs_observation s)\<lparr>ob_server_time := t\<rparr>, cs_snapshot_stale := b\<rparr>) = version_part s"
  by (simp_all add: version_part_def)

lemma observe_version:
  "version_part (observe L C wall md status sent s) = version_part s"
  "cs_version_suspect (observe L C wall md status sent s) \<longleftrightarrow>
     cs_version_suspect s \<or>
     (application_code L md = Some ''MASTER_VERSION_MISMATCH'' \<and> sent \<noteq> None \<and>
      sent = ob_master_version (cs_observation s))"
  by (simp_all add: observe_def Let_def observe_headers_version observe_code_version)

lemma promote_version:
  "version_part (promote_snapshot L C wall md pv s) = version_part s"
  "cs_version_suspect (promote_snapshot L C wall md pv s) = cs_version_suspect s"
  by (auto simp: promote_snapshot_def version_part_def Let_def split: option.splits sum.splits)

lemma rpc_done_version:
  assumes "rpc_done L C P now wall route auth md bytes s = (result, s')"
  shows "route \<noteq> VERSION \<or> (\<exists>err. result = Err err) \<Longrightarrow>
      version_part s' = version_part s \<and> cs_version_suspect s' = cs_version_suspect s"
    "route = VERSION \<Longrightarrow> result = Ok v \<Longrightarrow>
      \<exists>version. reported_version L v = Some version \<and> \<not> cs_version_suspect s' \<and>
        version_part s' = version_part (adopt_version L C now wall md v version s)"
proof -
  have "VERSION \<noteq> SERVER_LIST" by (simp add: route_defs)
  with assms show "route \<noteq> VERSION \<or> (\<exists>err. result = Err err) \<Longrightarrow>
      version_part s' = version_part s \<and> cs_version_suspect s' = cs_version_suspect s"
    by (auto simp: rpc_done_def Let_def promote_version split: if_splits sum.splits option.splits)
  have "\<not> cs_version_suspect (adopt_version L C now wall md v version s)" for version
    by (simp add: adopt_version_def Let_def)
  with assms \<open>VERSION \<noteq> SERVER_LIST\<close> show "route = VERSION \<Longrightarrow> result = Ok v \<Longrightarrow>
      \<exists>version. reported_version L v = Some version \<and> \<not> cs_version_suspect s' \<and>
        version_part s' = version_part (adopt_version L C now wall md v version s)"
    by (auto simp: rpc_done_def Let_def promote_version split: if_splits sum.splits option.splits)
qed

lemma rpc_answer_cases:
  assumes "rpc_answer L C P now wall route auth sent response s = r"
  obtains (kept) "rr_state r = s" "\<exists>err. rr_result r = Err err" "rr_code r = None"
  | (refused) md where "rr_code r = application_code L md" "\<exists>err. rr_result r = Err err"
      "rr_state r = observe L C wall md (grpc_status L md) sent s"
  | (success) md bytes where "rr_code r = application_code L md" "grpc_status L md = Some 0"
      "rpc_done L C P now wall route auth md bytes (observe L C wall md (Some 0) sent s) = (rr_result r, rr_state r)"
proof (cases response)
  case (Inl err)
  with assms kept show ?thesis by (auto simp: rpc_answer_def)
next
  case (Inr q)
  show ?thesis
  proof (cases "read_frames (uc_max_response_bytes (cc_upstream C)) [] (rs_headers q) (rs_frames q)")
    case (ReadFailed err outcome)
    with Inr assms kept show ?thesis by (auto simp: rpc_answer_def)
  next
    case (ReadDone bytes md)
    let ?s1 = "observe L C wall md (grpc_status L md) sent s"
    let ?answered = "200 \<le> rs_status q \<and> rs_status q < 300 \<and> content_ok L (rs_headers q)"
    consider "\<not> ?answered" | "?answered" "grpc_status L md = None"
      | n where "?answered" "grpc_status L md = Some n" "n \<noteq> 0" | "?answered" "grpc_status L md = Some 0"
      by (cases "grpc_status L md") auto
    then show ?thesis
    proof cases
      case 4
      obtain res st where d: "rpc_done L C P now wall route auth md bytes ?s1 = (res, st)" by fastforce
      show ?thesis
        by (rule success [of md bytes])
          (use assms Inr ReadDone 4 d in \<open>auto simp: rpc_answer_def Let_def\<close>)
    qed (rule refused [of md]; use assms Inr ReadDone in \<open>auto simp: rpc_answer_def Let_def\<close>)+
  qed
qed

subsection \<open>Snapshots\<close>

definition snapshot_inv :: "client_config \<Rightarrow> client_state \<Rightarrow> bool" where
  \<comment> \<open>a snapshot that is not marked stale belongs to the CDN root the server announces now, whose credential
    was confirmed, and the last answer of the game was a success\<close>
  "snapshot_inv C s \<longleftrightarrow>
     (cs_snapshot_stale s \<or>
      (\<exists>sp. cs_snapshot s = Some sp \<and> sp_effective_cdn_root sp = cs_cdn_root s \<and> cs_credential_valid s \<and>
         map_of (cc_cdn_credential_env C) (cs_cdn_root s) = Some (sp_credential_ref sp) \<and>
         ob_grpc_status (cs_observation s) = Some 0))"

lemma observe_snapshot:
  assumes "snapshot_inv C s"
  shows "snapshot_inv C (observe L C wall md status sent s)"
    "ob_grpc_status (cs_observation (observe L C wall md status sent s)) = status"
proof -
  have code: "cs_snapshot_stale (observe_code st c v s0) = cs_snapshot_stale s0"
    "cs_snapshot (observe_code st c v s0) = cs_snapshot s0" "cs_cdn_root (observe_code st c v s0) = cs_cdn_root s0"
    "cs_credential_valid (observe_code st c v s0) = cs_credential_valid s0"
    "cs_observation (observe_code st c v s0) = cs_observation s0" for st c v and s0 :: client_state
    by (simp_all add: observe_code_def)
  have root: "snapshot_inv C s0 \<Longrightarrow> snapshot_inv C (observe_root L md s0)"
    "cs_observation (observe_root L md s0) = cs_observation s0" for s0
    by (auto simp: observe_root_def snapshot_inv_def split: option.splits)
  have cred: "snapshot_inv C s0 \<Longrightarrow> snapshot_inv C (observe_credential L C md s0)"
    "cs_observation (observe_credential L C md s0) = cs_observation s0" for s0
    by (auto simp: observe_credential_def snapshot_inv_def Let_def split: option.splits)
  show "ob_grpc_status (cs_observation (observe L C wall md status sent s)) = status"
    by (simp add: observe_def Let_def cred root code)
  show "snapshot_inv C (observe L C wall md status sent s)"
    unfolding observe_def Let_def
    by (intro cred root) (use assms in \<open>auto simp: snapshot_inv_def code\<close>)
qed

lemma adopt_snapshot:
  "snapshot_inv C s \<Longrightarrow> snapshot_inv C (adopt_version L C now wall md v version s)"
  "ob_grpc_status (cs_observation (adopt_version L C now wall md v version s)) = ob_grpc_status (cs_observation s)"
  by (auto simp: adopt_version_def snapshot_inv_def Let_def)

lemma promote_snapshot_inv:
  assumes "snapshot_inv C s" "ob_grpc_status (cs_observation s) = Some 0"
  shows "snapshot_inv C (promote_snapshot L C wall md pv s)"
  using assms by (auto simp: promote_snapshot_def snapshot_inv_def Let_def split: option.splits sum.splits)

lemma rpc_done_snapshot:
  assumes "rpc_done L C P now wall route auth md bytes s = (result, s')" "snapshot_inv C s"
    and "ob_grpc_status (cs_observation s) = Some 0"
  shows "snapshot_inv C s'"
  using assms
  by (auto simp: rpc_done_def Let_def adopt_snapshot(2) split: if_splits sum.splits option.splits
      intro!: promote_snapshot_inv adopt_snapshot(1))

subsection \<open>Requests and answers\<close>

lemma request_headers_spec:
  assumes "rpc_request L C P route input auth remaining request_id s = Ok m"
  shows "(\<forall>v. (''x-player-id'', v) \<in> set (rm_headers m) \<longleftrightarrow>
            authenticated route \<and> (\<exists>a. auth = Some a \<and> v = au_player_id a)) \<and>
         (\<forall>v. (''x-player-credential'', v) \<in> set (rm_headers m) \<longleftrightarrow>
            authenticated route \<and> (\<exists>a. auth = Some a \<and> v = au_credential a)) \<and>
         (\<forall>v. (''x-player-bid'', v) \<in> set (rm_headers m) \<longleftrightarrow>
            global_family C \<and> (route = PLAYER_LOGIN \<or> authenticated route) \<and>
            (\<exists>a. auth = Some a \<and> au_bid a = Some v)) \<and>
         (\<forall>v. (''x-master-version'', v) \<in> set (rm_headers m) \<longleftrightarrow> sent_version s route = Some v)"
proof -
  obtain player bid where p: "player_headers C s route auth = Ok player" and b: "bid_headers C route auth = Ok bid"
    and m: "rm_headers m = fixed_headers C remaining request_id @ version_headers s route @ player @ bid"
    using rpc_request_headers [OF assms] by blast
  have player: "set player = (if authenticated route then {(''x-player-id'', au_player_id (the auth)),
      (''x-player-credential'', au_credential (the auth))} \<union>
      (if global_family C then (\<lambda>v. (''x-resource-version'', v)) ` set_option (ob_resource_version (cs_observation s)) else {})
      else {})" "authenticated route \<Longrightarrow> auth \<noteq> None"
    using p by (auto simp: player_headers_def split: if_splits option.splits)
  have bid: "set bid = (if global_family C \<and> (route = PLAYER_LOGIN \<or> authenticated route)
      then {(''x-player-bid'', the (au_bid (the auth)))} else {})"
    "global_family C \<and> (route = PLAYER_LOGIN \<or> authenticated route) \<Longrightarrow> \<exists>a v. auth = Some a \<and> au_bid a = Some v"
    using b by (auto simp: bid_headers_def bind_eq_Some_conv split: if_splits option.splits)
  have version: "set (version_headers s route) = (\<lambda>v. (''x-master-version'', v)) ` set_option (sent_version s route)"
    by (auto simp: version_headers_def split: option.splits)
  have f: "(''x-player-id'', v) \<notin> set (fixed_headers C remaining request_id)"
    "(''x-player-credential'', v) \<notin> set (fixed_headers C remaining request_id)"
    "(''x-player-bid'', v) \<notin> set (fixed_headers C remaining request_id)"
    "(''x-master-version'', v) \<notin> set (fixed_headers C remaining request_id)" for v
    using fixed_headers_names by blast+
  have hs: "h \<in> set (rm_headers m) \<longleftrightarrow> h \<in> set (fixed_headers C remaining request_id) \<or>
      h \<in> set (version_headers s route) \<or> h \<in> set player \<or> h \<in> set bid" for h
    by (simp add: m)
  show ?thesis
  proof (intro conjI allI)
    fix v
    show "(''x-player-id'', v) \<in> set (rm_headers m) \<longleftrightarrow>
        authenticated route \<and> (\<exists>a. auth = Some a \<and> v = au_player_id a)"
      using player(2) unfolding hs version player(1) bid(1) by (auto simp: f)
    show "(''x-player-credential'', v) \<in> set (rm_headers m) \<longleftrightarrow>
        authenticated route \<and> (\<exists>a. auth = Some a \<and> v = au_credential a)"
      using player(2) unfolding hs version player(1) bid(1) by (auto simp: f)
    show "(''x-player-bid'', v) \<in> set (rm_headers m) \<longleftrightarrow>
        global_family C \<and> (route = PLAYER_LOGIN \<or> authenticated route) \<and> (\<exists>a. auth = Some a \<and> au_bid a = Some v)"
      using bid(2) unfolding hs version player(1) bid(1) by (auto simp: f)
    show "(''x-master-version'', v) \<in> set (rm_headers m) \<longleftrightarrow> sent_version s route = Some v"
      unfolding hs version player(1) bid(1) by (auto simp: f)
  qed
qed

lemma rpc_answer_version:
  assumes "rpc_answer L C P now wall route auth sent response s = r"
  shows "(route \<noteq> VERSION \<or> (\<exists>err. rr_result r = Err err) \<longrightarrow>
      version_part (rr_state r) = version_part s \<and>
      (cs_version_suspect (rr_state r) \<longleftrightarrow> cs_version_suspect s \<or>
         (rr_code r = Some ''MASTER_VERSION_MISMATCH'' \<and> sent \<noteq> None \<and> sent = ob_master_version (cs_observation s)))) \<and>
    (\<forall>v. route = VERSION \<and> rr_result r = Ok v \<longrightarrow>
      (\<exists>version. reported_version L v = Some version \<and> \<not> cs_version_suspect (rr_state r) \<and>
         ob_master_version (cs_observation (rr_state r)) = Some version \<and>
         ob_resource_version (cs_observation (rr_state r)) = body_resource v \<and>
         (\<exists>asset. cs_master_pair (rr_state r) = Some (version, asset)) \<and>
         cs_version_fresh_until (rr_state r) = Some (now + from_secs (uc_version_max_age_seconds (cc_upstream C)))))"
  using assms
proof (cases rule: rpc_answer_cases)
  case kept
  then show ?thesis by auto
next
  case (refused md)
  then show ?thesis using observe_version [of L C wall md _ sent s] by auto
next
  case (success md bytes)
  note done1 = rpc_done_version(1) [OF success(3)] and done2 = rpc_done_version(2) [OF success(3)]
  show ?thesis
  proof (intro conjI impI allI)
    assume "route \<noteq> VERSION \<or> (\<exists>err. rr_result r = Err err)"
    from done1 [OF this] show "version_part (rr_state r) = version_part s"
      "cs_version_suspect (rr_state r) \<longleftrightarrow> cs_version_suspect s \<or>
         (rr_code r = Some ''MASTER_VERSION_MISMATCH'' \<and> sent \<noteq> None \<and> sent = ob_master_version (cs_observation s))"
      by (simp_all add: observe_version success(1))
  next
    fix v
    assume "route = VERSION \<and> rr_result r = Ok v"
    then obtain version where "reported_version L v = Some version" "\<not> cs_version_suspect (rr_state r)"
      "version_part (rr_state r) = version_part (adopt_version L C now wall md v version (observe L C wall md (Some 0) sent s))"
      using done2 [of v] by blast
    then show "\<exists>version. reported_version L v = Some version \<and> \<not> cs_version_suspect (rr_state r) \<and>
         ob_master_version (cs_observation (rr_state r)) = Some version \<and>
         ob_resource_version (cs_observation (rr_state r)) = body_resource v \<and>
         (\<exists>asset. cs_master_pair (rr_state r) = Some (version, asset)) \<and>
         cs_version_fresh_until (rr_state r) = Some (now + from_secs (uc_version_max_age_seconds (cc_upstream C)))"
      by (auto simp: version_part_def adopt_version_def Let_def)
  qed
qed

subsection \<open>Properties\<close>

text \<open>The gRPC framing is lossless and unambiguous: the reader accepts a body exactly when it is the
  frame the writer makes of one message of less than 4 GiB, and gives that message back.\<close>

theorem frames_round_trip:
  "frame_decode bytes = Ok message \<longleftrightarrow> bytes = frame_encode message \<and> length message < 2 ^ 32"
  by (rule frame_decode_iff)

text \<open>C32: a request carries the credentials of an account exactly on the routes that need them. The player
  ID and the credential are sent on account routes only, the SDK uid only by the Global client on account
  routes and PlayerLogin, always those of the account given; the version header is the one the state
  chooses for the route; an anonymous request carries none of the three.\<close>

theorem credentials_reach_only_account_routes:
  assumes "rpc_request L C P route input auth remaining request_id s = Ok m"
  shows "(\<forall>v. (''x-player-id'', v) \<in> set (rm_headers m) \<longleftrightarrow>
            authenticated route \<and> (\<exists>a. auth = Some a \<and> v = au_player_id a)) \<and>
         (\<forall>v. (''x-player-credential'', v) \<in> set (rm_headers m) \<longleftrightarrow>
            authenticated route \<and> (\<exists>a. auth = Some a \<and> v = au_credential a)) \<and>
         (\<forall>v. (''x-player-bid'', v) \<in> set (rm_headers m) \<longleftrightarrow>
            global_family C \<and> (route = PLAYER_LOGIN \<or> authenticated route) \<and>
            (\<exists>a. auth = Some a \<and> au_bid a = Some v)) \<and>
         (\<forall>v. (''x-master-version'', v) \<in> set (rm_headers m) \<longleftrightarrow> sent_version s route = Some v)"
  by (rule request_headers_spec [OF assms])

text \<open>A call on an account route, and a PlayerLogin, sends at most one request, whatever the answer. An
  anonymous read under a valid policy ends after at most five requests and at most 320 seconds of pauses.\<close>

theorem account_calls_are_never_replayed:
  assumes "upstream_validate (cc_upstream C) = Ok ()"
  shows "(authenticated route \<or> route = PLAYER_LOGIN \<longrightarrow>
      length (ex_messages (execute L C P route input auth envs 0 s)) \<le> 1) \<and>
    length (ex_messages (execute L C P route input auth envs 0 s)) \<le> 5 \<and>
    ex_slept_ms (execute L C P route input auth envs 0 s) \<le> 320000"
proof -
  note v = upstream_valid [OF assms]
  have lim: "0 < attempt_limit C route" "attempt_limit C route \<le> 5" using v(1,2) by (auto simp: attempt_limit_def)
  note b = execute_bounded [OF lim v(4), of L P input auth envs s]
  have "ex_slept_ms (execute L C P route input auth envs 0 s) \<le> (attempt_limit C route - 0 - 1) * 80000" using b by blast
  also have "\<dots> \<le> 320000" using lim by simp
  finally show ?thesis using b lim attempt_limit_authenticated [of route C] by fastforce
qed

text \<open>VERSION is the only source of the version headers. Any other call, and a VERSION call that fails,
  leaves the version pair, its age and its retry time as they were; a successful VERSION answer replaces
  them by its own and clears the suspicion. A version becomes suspect exactly when the game answers
  MASTER\_VERSION\_MISMATCH to a request that carried the version still in use.\<close>

theorem versions_come_from_version_calls:
  assumes "rpc_answer L C P now wall route auth sent response s = r"
  shows "(route \<noteq> VERSION \<or> (\<exists>err. rr_result r = Err err) \<longrightarrow>
      version_part (rr_state r) = version_part s \<and>
      (cs_version_suspect (rr_state r) \<longleftrightarrow> cs_version_suspect s \<or>
         (rr_code r = Some ''MASTER_VERSION_MISMATCH'' \<and> sent \<noteq> None \<and> sent = ob_master_version (cs_observation s)))) \<and>
    (\<forall>v. route = VERSION \<and> rr_result r = Ok v \<longrightarrow>
      (\<exists>version. reported_version L v = Some version \<and> \<not> cs_version_suspect (rr_state r) \<and>
         ob_master_version (cs_observation (rr_state r)) = Some version \<and>
         ob_resource_version (cs_observation (rr_state r)) = body_resource v \<and>
         (\<exists>asset. cs_master_pair (rr_state r) = Some (version, asset)) \<and>
         cs_version_fresh_until (rr_state r) = Some (now + from_secs (uc_version_max_age_seconds (cc_upstream C)))))"
  by (rule rpc_answer_version [OF assms])

text \<open>A snapshot offered as fresh is always consistent: it belongs to the CDN root the game announced last,
  the credential of that root was confirmed, and the last answer was a success. Every answer keeps this.\<close>

theorem fresh_snapshots_are_consistent:
  assumes "snapshot_inv C s"
  shows "snapshot_inv C (rr_state (rpc_answer L C P now wall route auth sent response s))"
proof -
  let ?r = "rpc_answer L C P now wall route auth sent response s"
  show ?thesis
  proof (rule rpc_answer_cases [OF refl, of L C P now wall route auth sent response s])
    fix md bytes
    assume "rpc_done L C P now wall route auth md bytes (observe L C wall md (Some 0) sent s) = (rr_result ?r, rr_state ?r)"
    then show ?thesis by (rule rpc_done_snapshot) (rule observe_snapshot [OF assms])+
  qed (use assms observe_snapshot(1) [OF assms] in auto)
qed

subsection \<open>Witnesses\<close>

definition sample_rpc_lib :: "nat rpc_lib" where
  "sample_rpc_lib = \<lparr>rp_to_str = Some, rp_header_ok = (\<lambda>_. True), rp_uri_ok = (\<lambda>_. True), rp_rfc3339_ok = (\<lambda>_. True),
     rp_json = (\<lambda>_. None), rp_semver = (\<lambda>_. None)\<rparr>"

definition sample_bundle :: protocol_bundle where
  "sample_bundle = \<lparr>pb_sha256 = ''s'', pb_generation = 1, pb_version = ''1.0.4'', pb_encode = (\<lambda>_ _. Ok ''m''),
     pb_decode = (\<lambda>_ _. Ok (JObj [(''version'', JStr ''v2''), (''resourceVersion'', JStr ''r2'')])), pb_area_name = None\<rparr>"

definition sample_config :: client_config where
  "sample_config = \<lparr>cc_region = Jp, cc_environment = ''prod'', cc_endpoint = ''https://g'', cc_platform = Ios,
     cc_client_version = ''1.0.4'', cc_upstream = upstream_default, cc_default_cdn_root = ''https://cdn'',
     cc_cdn_credential_env = [], cc_cdn_secrets = []\<rparr>"

definition sample_state :: client_state where
  "sample_state = \<lparr>cs_observation = observation_default\<lparr>ob_master_version := Some ''v1''\<rparr>, cs_master_pair = None,
     cs_snapshot = None, cs_snapshot_stale = True, cs_cdn_root = ''https://cdn'', cs_credential_valid = False,
     cs_global_version = None, cs_catalog_hash = None, cs_version_fresh_until = None, cs_version_suspect = True,
     cs_version_retry_at = None, cs_client_update_required = False\<rparr>"

definition sample_auth :: auth where
  "sample_auth = \<lparr>au_account = ''a'', au_player_id = ''p'', au_credential = ''c'', au_bid = None\<rparr>"

definition sample_response :: rpc_response where
  "sample_response = \<lparr>rs_status = 200, rs_headers = [(''content-type'', ''application/grpc'')],
     rs_frames = [Ok (DataFrame (frame_encode ''m'')), Ok (TrailerFrame [(''grpc-status'', ''0'')])]\<rparr>"

lemmas sample_rpc_defs = sample_rpc_lib_def sample_bundle_def sample_config_def sample_state_def sample_auth_def
  sample_response_def observation_default_def upstream_default_def

theorem credentials_reach_only_account_routes_witness:
  "\<exists>m. rpc_request sample_rpc_lib sample_config sample_bundle PROFILE JNull (Some sample_auth) 1000000 ''id'' sample_state = Ok m \<and>
     (''x-player-credential'', ''c'') \<in> set (rm_headers m) \<and> (''x-player-bid'', ''c'') \<notin> set (rm_headers m)"
proof -
  obtain m where m: "rpc_request sample_rpc_lib sample_config sample_bundle PROFILE JNull (Some sample_auth) 1000000 ''id'' sample_state = Ok m"
    by (simp add: rpc_request_def sample_rpc_defs player_headers_def bid_headers_def global_family_def
        authenticated_def Let_def list_all_iff)
  note c = credentials_reach_only_account_routes [OF m]
  have "authenticated PROFILE" by (simp add: authenticated_def)
  moreover have "\<not> global_family sample_config" by (simp add: global_family_def sample_config_def)
  moreover have "au_credential sample_auth = ''c''" by (simp add: sample_auth_def)
  ultimately have "(''x-player-credential'', ''c'') \<in> set (rm_headers m)" "(''x-player-bid'', ''c'') \<notin> set (rm_headers m)"
    using c by (metis, metis)
  with m show ?thesis by blast
qed

definition sample_rpc_env :: "nat \<Rightarrow> rpc_env" where
  "sample_rpc_env _ = \<lparr>ev_remaining = 1000000, ev_request_id = ''id'', ev_now = 0, ev_wall = 0,
     ev_server = (\<lambda>_. Err Transport), ev_late = False\<rparr>"

theorem account_calls_are_never_replayed_witness:
  "upstream_validate (cc_upstream sample_config) = Ok () \<and>
   length (ex_messages (execute sample_rpc_lib sample_config sample_bundle PROFILE JNull (Some sample_auth)
     sample_rpc_env 0 sample_state)) \<le> 1"
proof -
  have v: "upstream_validate (cc_upstream sample_config) = Ok ()"
    by (simp add: upstream_validate_def sample_rpc_defs explicit_keepalive_misses_deadline_def keepalive_explicit_def)
  moreover have "authenticated PROFILE" by (simp add: authenticated_def)
  ultimately show ?thesis using account_calls_are_never_replayed [OF v, of PROFILE] by blast
qed

theorem versions_come_from_version_calls_witness:
  "let r = rpc_answer sample_rpc_lib sample_config sample_bundle 5 6 VERSION None None (Ok sample_response) sample_state
   in (\<exists>v. rr_result r = Ok v) \<and> ob_master_version (cs_observation (rr_state r)) = Some ''v2'' \<and>
      \<not> cs_version_suspect (rr_state r)"
proof -
  let ?r = "rpc_answer sample_rpc_lib sample_config sample_bundle 5 6 VERSION None None (Ok sample_response) sample_state"
  let ?v = "JObj [(''version'', JStr ''v2''), (''resourceVersion'', JStr ''r2'')]"
  have len: "length (frame_encode ''m'') = 6" by (simp add: frame_encode_def)
  have frame: "frame_decode (frame_encode ''m'') = Ok ''m''" by (simp add: frame_decode_iff)
  have neq: "VERSION \<noteq> WHOAMI" "VERSION \<noteq> SERVER_LIST" by (simp_all add: route_defs)
  have v: "rr_result ?r = Ok ?v"
    by (simp add: rpc_answer_def sample_rpc_defs len headers_extend_def content_ok_def header_def grpc_status_def
        parse_u16_def decimal_value_def byte_defs starts_with_def Let_def rpc_done_def frame neq reported_version_def)
  have "reported_version sample_rpc_lib ?v = Some ''v2''" by (simp add: reported_version_def sample_rpc_lib_def)
  with versions_come_from_version_calls [where r = ?r, OF refl, THEN conjunct2] v
  show ?thesis by (auto simp: Let_def)
qed

theorem fresh_snapshots_are_consistent_witness:
  "snapshot_inv sample_config sample_state \<and>
   snapshot_inv sample_config (rr_state (rpc_answer sample_rpc_lib sample_config sample_bundle 5 6 VERSION None None
     (Ok sample_response) sample_state))"
proof -
  have i: "snapshot_inv sample_config sample_state" by (simp add: snapshot_inv_def sample_state_def)
  from i fresh_snapshots_are_consistent [OF i] show ?thesis by blast
qed

end
