(* ===== verification/Response_Cache.thy ===== *)
theory Response_Cache
  imports Ordered_Map App_Error Game_Routes
begin

section \<open>Response cache (src/response_cache.rs)\<close>

text \<open>
  The optional response storage: its configuration, the memory backend with its byte and entry
  bounds, and the reading side of the Redis backend. \<open>enc\<close> and \<open>dec\<close> are serde's writing and reading
  of an entry. A stored value is a shared handle; \<open>Arc::ptr_eq\<close> compares handles, so an entry carries
  the number of its allocation. A read takes the memory lock twice (to look up, and to drop an
  expired entry), with other calls possibly in between: the two parts are separate operations.
\<close>

datatype cache_route = Announcements | Announcement | EventRankings | SongRankings | ChallengeRankings

definition cache_route_from_rpc :: "string \<Rightarrow> cache_route option" where
  "cache_route_from_rpc route =
     (if route = ANNOUNCEMENTS then Some Announcements
      else if route = ANNOUNCEMENT then Some Announcement
      else if route = EVENT_RANKING then Some EventRankings
      else if route = MUSIC_RANKING then Some SongRankings
      else if route = CHALLENGE_RANKING then Some ChallengeRankings
      else None)"

record memory_config =
  mc_ttl_ms :: nat
  mc_stale_while_revalidate_ms :: nat
  mc_route_ttl_ms :: "(cache_route \<times> nat) list"
  mc_max_entries :: nat
  mc_max_bytes :: nat
  mc_max_entry_bytes :: nat

record redis_config =
  rc_url_env :: string
  rc_namespace :: string
  rc_ttl_ms :: nat
  rc_stale_while_revalidate_ms :: nat
  rc_route_ttl_ms :: "(cache_route \<times> nat) list"
  rc_max_entry_bytes :: nat
  rc_operation_timeout_ms :: nat

datatype cache_config = CacheDisabled | CacheMemory memory_config | CacheRedis redis_config

definition memory_config_valid :: "memory_config \<Rightarrow> bool" where
  "memory_config_valid c \<longleftrightarrow>
     1 \<le> mc_ttl_ms c \<and> mc_ttl_ms c \<le> 300000 \<and>
     mc_stale_while_revalidate_ms c \<le> 300000 \<and>
     list_all (\<lambda>x. snd x \<le> 300000) (mc_route_ttl_ms c) \<and>
     1 \<le> mc_max_entries c \<and> mc_max_entries c \<le> 100000 \<and>
     1024 \<le> mc_max_bytes c \<and> mc_max_bytes c \<le> 1024 * 1024 * 1024 \<and>
     256 \<le> mc_max_entry_bytes c \<and> mc_max_entry_bytes c \<le> 8 * 1024 * 1024 \<and>
     mc_max_entry_bytes c \<le> mc_max_bytes c"

definition redis_config_valid :: "redis_config \<Rightarrow> bool" where
  "redis_config_valid c \<longleftrightarrow>
     rc_url_env c \<noteq> [] \<and> rc_namespace c \<noteq> [] \<and> length (rc_namespace c) \<le> 64 \<and>
     list_all (\<lambda>b. ascii_alphanumeric b \<or> b \<in> set ''_-'') (rc_namespace c) \<and>
     rc_stale_while_revalidate_ms c \<le> 300000 \<and>
     list_all (\<lambda>x. snd x \<le> 300000) (rc_route_ttl_ms c) \<and>
     1 \<le> rc_ttl_ms c \<and> rc_ttl_ms c \<le> 300000 \<and>
     256 \<le> rc_max_entry_bytes c \<and> rc_max_entry_bytes c \<le> 8 * 1024 * 1024 \<and>
     1 \<le> rc_operation_timeout_ms c \<and> rc_operation_timeout_ms c \<le> 2000"

definition cache_config_validate :: "cache_config \<Rightarrow> app_error + unit" where
  "cache_config_validate c =
     (if (case c of
            CacheDisabled \<Rightarrow> True
          | CacheMemory m \<Rightarrow> memory_config_valid m
          | CacheRedis r \<Rightarrow> redis_config_valid r)
      then Ok () else Err (Config ''invalid response cache configuration''))"

definition cache_ttl :: "cache_config \<Rightarrow> string \<Rightarrow> nat option" where
  "cache_ttl c rpc =
     (case cache_route_from_rpc rpc of
        None \<Rightarrow> None
      | Some route \<Rightarrow>
          (let effective = (\<lambda>ttl overrides. case map_of overrides route of None \<Rightarrow> ttl | Some t \<Rightarrow> t);
               positive = (\<lambda>ttl::nat. if 0 < ttl then Some ttl else None)
           in case c of
                CacheDisabled \<Rightarrow> None
              | CacheMemory m \<Rightarrow> positive (effective (mc_ttl_ms m) (mc_route_ttl_ms m))
              | CacheRedis r \<Rightarrow> positive (effective (rc_ttl_ms r) (rc_route_ttl_ms r))))"

fun cache_stale_window :: "cache_config \<Rightarrow> nat" where
  "cache_stale_window CacheDisabled = 0"
| "cache_stale_window (CacheMemory m) = mc_stale_while_revalidate_ms m"
| "cache_stale_window (CacheRedis r) = rc_stale_while_revalidate_ms r"

definition stripe :: "string \<Rightarrow> nat" where
  \<comment> \<open>the lock of a key in \<open>try_refresh_guard\<close> and \<open>fill_guard\<close>: 64 stripes, 64-bit wrapping hash\<close>
  "stripe key = unat (fold (\<lambda>b h. h * 31 + of_nat (byte b)) key (0 :: 64 word)) mod 64"

subsection \<open>Entries\<close>

record entry =
  expires_ms :: nat
  retain_ms :: nat
  en_value :: json

record cached =
  ca_value :: json
  ca_stale :: bool

type_synonym decoder = "string \<Rightarrow> entry option"

definition decode_entry :: "decoder \<Rightarrow> nat \<Rightarrow> string \<Rightarrow> nat option \<Rightarrow> cached option" where
  "decode_entry dec now_ms bytes limit =
     (if (case limit of None \<Rightarrow> False | Some l \<Rightarrow> l < length bytes) then None
      else case dec bytes of
             None \<Rightarrow> None
           | Some e \<Rightarrow>
               if now_ms < max (retain_ms e) (expires_ms e)
               then Some \<lparr>ca_value = en_value e, ca_stale = (expires_ms e \<le> now_ms)\<rparr>
               else None)"

subsection \<open>The memory backend\<close>

type_synonym handle = "nat \<times> string"

record memory =
  me_entries :: "(string, handle) btree_map"
  me_bytes :: nat
  me_next :: nat \<comment> \<open>the number of the next allocation\<close>

definition memory_default :: memory where
  "memory_default = \<lparr>me_entries = [], me_bytes = 0, me_next = 0\<rparr>"

function evict :: "nat \<Rightarrow> nat \<Rightarrow> nat \<Rightarrow> (string, handle) btree_map \<Rightarrow> nat
    \<Rightarrow> (string, handle) btree_map \<times> nat" where
  \<comment> \<open>\<open>while entries.len() >= max_entries || bytes + need > max_bytes\<close>\<close>
  "evict max_entries max_bytes need entries bytes =
     (if max_entries \<le> length entries \<or> max_bytes < bytes + need
      then case bt_pop_first entries of
             None \<Rightarrow> (entries, bytes)
           | Some (removed, rest) \<Rightarrow>
               evict max_entries max_bytes need rest (bytes - length (snd (snd removed)))
      else (entries, bytes))"
  by pat_completeness auto
termination
  by (relation "measure (\<lambda>(_, _, _, entries, _). length entries)") (auto elim: bt_pop_first.elims)

declare evict.simps [simp del]

definition memory_remove :: "string \<Rightarrow> memory \<Rightarrow> memory" where
  "memory_remove key m =
     (case bt_get (me_entries m) key of
        None \<Rightarrow> m
      | Some old \<Rightarrow> m\<lparr>me_entries := bt_remove key (me_entries m), me_bytes := me_bytes m - length (snd old)\<rparr>)"

definition memory_store :: "memory_config \<Rightarrow> string \<Rightarrow> string \<Rightarrow> memory \<Rightarrow> memory" where
  "memory_store c key bytes m =
     (let m1 = memory_remove key m
      in case evict (mc_max_entries c) (mc_max_bytes c) (length bytes) (me_entries m1) (me_bytes m1) of
           (entries, used) \<Rightarrow>
             m1\<lparr>me_entries := bt_insert key (me_next m1, bytes) entries,
                me_bytes := used + length bytes,
                me_next := me_next m1 + 1\<rparr>)"

definition entry_of :: "nat \<Rightarrow> nat \<Rightarrow> nat \<Rightarrow> json \<Rightarrow> entry" where
  "entry_of now_ms ttl window value =
     \<lparr>expires_ms = sat_add64 now_ms ttl,
      retain_ms = sat_add64 (sat_add64 now_ms ttl) window,
      en_value = value\<rparr>"

definition memory_put ::
  "(entry \<Rightarrow> string option) \<Rightarrow> memory_config \<Rightarrow> nat \<Rightarrow> string \<Rightarrow> json \<Rightarrow> nat option \<Rightarrow> memory \<Rightarrow> memory" where
  \<comment> \<open>\<open>put_with_ttl\<close> of the memory backend\<close>
  "memory_put enc c now_ms key value override_ttl m =
     (let ttl = (case override_ttl of None \<Rightarrow> mc_ttl_ms c | Some t \<Rightarrow> t)
      in case enc (entry_of now_ms ttl (mc_stale_while_revalidate_ms c) value) of
           None \<Rightarrow> m
         | Some bytes \<Rightarrow>
             if mc_max_entry_bytes c < length bytes then m else memory_store c key bytes m)"

definition memory_put_route ::
  "(entry \<Rightarrow> string option) \<Rightarrow> memory_config \<Rightarrow> nat \<Rightarrow> string \<Rightarrow> string \<Rightarrow> json \<Rightarrow> memory \<Rightarrow> memory" where
  "memory_put_route enc c now_ms rpc key value m =
     (case cache_ttl (CacheMemory c) rpc of
        None \<Rightarrow> m
      | Some ttl \<Rightarrow> memory_put enc c now_ms key value (Some ttl) m)"

definition memory_lookup :: "string \<Rightarrow> memory \<Rightarrow> handle option" where
  "memory_lookup key m = bt_get (me_entries m) key"

definition memory_expire :: "string \<Rightarrow> handle \<Rightarrow> memory \<Rightarrow> memory" where
  \<comment> \<open>the second locked part of a read that found the handle \<open>h\<close> expired\<close>
  "memory_expire key h m =
     (if (case bt_get (me_entries m) key of None \<Rightarrow> False | Some current \<Rightarrow> fst current = fst h)
      then m\<lparr>me_entries := bt_remove key (me_entries m), me_bytes := me_bytes m - length (snd h)\<rparr>
      else m)"

definition memory_get :: "decoder \<Rightarrow> nat \<Rightarrow> string \<Rightarrow> memory \<Rightarrow> cached option \<times> memory" where
  \<comment> \<open>\<open>get_with_state\<close> of the memory backend when nothing happens in between\<close>
  "memory_get dec now_ms key m =
     (case memory_lookup key m of
        None \<Rightarrow> (None, m)
      | Some h \<Rightarrow>
          (case decode_entry dec now_ms (snd h) None of
             None \<Rightarrow> (None, memory_expire key h m)
           | Some c \<Rightarrow> (Some c, m)))"

fun memory_get_any :: "decoder \<Rightarrow> nat \<Rightarrow> string list \<Rightarrow> memory \<Rightarrow> cached option \<times> memory" where
  "memory_get_any dec now_ms [] m = (None, m)"
| "memory_get_any dec now_ms (key # keys) m =
     (case memory_get dec now_ms key m of
        (Some c, m1) \<Rightarrow> (Some c, m1)
      | (None, m1) \<Rightarrow> memory_get_any dec now_ms keys m1)"

subsection \<open>Reading from Redis\<close>

definition ANY_CHUNK :: nat where "ANY_CHUNK = 4"

fun find_map :: "('a \<Rightarrow> 'b option) \<Rightarrow> 'a list \<Rightarrow> 'b option" where
  "find_map f [] = None"
| "find_map f (x # xs) = (case f x of None \<Rightarrow> find_map f xs | Some y \<Rightarrow> Some y)"

function redis_get_any ::
  "decoder \<Rightarrow> (string list \<Rightarrow> string list option) \<Rightarrow> nat \<Rightarrow> nat \<Rightarrow> string list \<Rightarrow> cached option" where
  \<comment> \<open>\<open>query\<close> is one pipeline of bounded GETRANGEs: the values, or nothing on an error or timeout\<close>
  "redis_get_any dec query now_ms limit keys =
     (if keys = [] then None
      else case query (take ANY_CHUNK keys) of
             None \<Rightarrow> None
           | Some values \<Rightarrow>
               (case find_map (\<lambda>bytes. decode_entry dec now_ms bytes (Some limit)) values of
                  Some c \<Rightarrow> Some c
                | None \<Rightarrow> redis_get_any dec query now_ms limit (drop ANY_CHUNK keys)))"
  by pat_completeness auto
termination
  by (relation "measure (\<lambda>(_, _, _, _, keys). length keys)") (auto simp: ANY_CHUNK_def)

declare redis_get_any.simps [simp del]

subsection \<open>The invariant of the memory backend\<close>

definition handle_bytes :: "handle \<Rightarrow> nat" where
  "handle_bytes h = length (snd h)"

definition memory_inv :: "memory_config \<Rightarrow> memory \<Rightarrow> bool" where
  "memory_inv c m \<longleftrightarrow>
     bt_wf (me_entries m) \<and>
     me_bytes m = bt_weight handle_bytes (me_entries m) \<and>
     me_bytes m \<le> mc_max_bytes c \<and>
     length (me_entries m) \<le> mc_max_entries c \<and>
     (\<forall>e \<in> set (me_entries m). fst (snd e) < me_next m)"

lemma evict_spec:
  assumes "evict me mb need entries bytes = (entries', bytes')" "bytes = bt_weight handle_bytes entries"
  shows "(\<exists>n. entries' = drop n entries) \<and> bytes' = bt_weight handle_bytes entries' \<and>
    (0 < me \<and> need \<le> mb \<longrightarrow> length entries' < me \<and> bytes' + need \<le> mb)"
  using assms
proof (induction me mb need entries bytes rule: evict.induct)
  case (1 me mb need entries bytes)
  show ?case
  proof (cases "me \<le> length entries \<or> mb < bytes + need")
    case True
    show ?thesis
    proof (cases entries)
      case Nil
      with True 1(2) have "entries' = []" "bytes' = bytes" by (simp_all add: evict.simps [of me])
      with Nil True 1(3) show ?thesis by auto
    next
      case (Cons e rest)
      then have rec: "evict me mb need rest (bytes - length (snd (snd e))) = (entries', bytes')"
        using True 1(2) by (simp add: evict.simps [of me _ _ "e # rest"])
      have w: "bytes - length (snd (snd e)) = bt_weight handle_bytes rest"
        using 1(3) Cons by (simp add: handle_bytes_def [of "snd e"])
      have "(\<exists>n. entries' = drop n rest) \<and> bytes' = bt_weight handle_bytes entries' \<and>
        (0 < me \<and> need \<le> mb \<longrightarrow> length entries' < me \<and> bytes' + need \<le> mb)"
        by (rule 1(1) [OF True _ refl rec w]) (simp add: Cons)
      then show ?thesis using Cons by (metis drop_Suc_Cons)
    qed
  next
    case False
    with 1(2) have "entries' = entries" "bytes' = bytes" by (simp_all add: evict.simps [of me])
    with False 1(3) show ?thesis by (auto intro: exI [of _ 0])
  qed
qed

lemma evict_room:
  "length entries < me \<Longrightarrow> bytes + need \<le> mb \<Longrightarrow> evict me mb need entries bytes = (entries, bytes)"
  by (simp add: evict.simps)

lemma bt_wf_drop: "bt_wf m \<Longrightarrow> bt_wf (drop n m)"
  unfolding bt_wf_def by (metis drop_map sorted_wrt_drop)

lemma bt_get_drop: "bt_wf m \<Longrightarrow> bt_get (drop n m) k = Some v \<Longrightarrow> bt_get m k = Some v"
  by (meson bt_get_mem bt_wf_drop in_set_dropD)

lemma bt_get_drop_None: "bt_wf m \<Longrightarrow> bt_get m k = None \<Longrightarrow> bt_get (drop n m) k = None"
  by (metis bt_get_drop not_Some_eq)

lemma memory_remove_inv:
  assumes "memory_inv c m"
  shows "memory_inv c (memory_remove key m)" "bt_get (me_entries (memory_remove key m)) key = None"
    "me_next (memory_remove key m) = me_next m"
    "k \<noteq> key \<Longrightarrow> bt_get (me_entries (memory_remove key m)) k = bt_get (me_entries m) k"
proof -
  have wf: "bt_wf (me_entries m)" using assms by (simp add: memory_inv_def)
  show "memory_inv c (memory_remove key m)"
    using assms length_bt_remove [of "me_entries m" key]
    by (auto simp: memory_remove_def memory_inv_def bt_wf_remove set_bt_remove bt_weight_remove handle_bytes_def
        split: option.splits)
qed (use assms in \<open>auto simp: memory_remove_def memory_inv_def bt_simps split: option.splits\<close>)

lemma memory_expire_inv [inv_intros]:
  assumes "memory_inv c m" "\<And>h'. bt_get (me_entries m) key = Some h' \<Longrightarrow> fst h' = fst h \<Longrightarrow> h' = h"
  shows "memory_inv c (memory_expire key h m)"
proof -
  have "memory_expire key h m = m \<or> memory_expire key h m = memory_remove key m"
    using assms(2) by (cases h) (auto simp: memory_expire_def memory_remove_def split: option.splits)
  with memory_remove_inv(1) [OF assms(1)] assms(1) show ?thesis by auto
qed

lemma memory_store_spec:
  assumes "memory_inv c m" "memory_config_valid c" "length bytes \<le> mc_max_entry_bytes c"
  shows "memory_inv c (memory_store c key bytes m) \<and>
    bt_get (me_entries (memory_store c key bytes m)) key = Some (me_next m, bytes) \<and>
    me_next (memory_store c key bytes m) = me_next m + 1 \<and>
    (\<forall>k. k \<noteq> key \<longrightarrow> bt_get (me_entries (memory_store c key bytes m)) k \<in> {None, bt_get (me_entries m) k})"
proof -
  define m1 where "m1 = memory_remove key m"
  note m1 = memory_remove_inv [OF assms(1), where key = key, folded m1_def]
  obtain es used where ev: "evict (mc_max_entries c) (mc_max_bytes c) (length bytes) (me_entries m1) (me_bytes m1) = (es, used)"
    by fastforce
  have wf1: "bt_wf (me_entries m1)" and b1: "me_bytes m1 = bt_weight handle_bytes (me_entries m1)"
    and fresh: "\<forall>e \<in> set (me_entries m1). fst (snd e) < me_next m1"
    using m1(1) by (simp_all add: memory_inv_def)
  obtain n where es: "es = drop n (me_entries m1)" and used: "used = bt_weight handle_bytes es"
    and room: "length es < mc_max_entries c" "used + length bytes \<le> mc_max_bytes c"
    using evict_spec [OF ev b1] assms(2,3) by (auto simp: memory_config_valid_def)
  have wf: "bt_wf es" and absent: "bt_get es key = None"
    unfolding es using wf1 m1(2) by (auto intro: bt_wf_drop bt_get_drop_None)
  let ?m = "m1\<lparr>me_entries := bt_insert key (me_next m1, bytes) es, me_bytes := used + length bytes,
      me_next := me_next m1 + 1\<rparr>"
  have st: "memory_store c key bytes m = ?m" by (simp add: memory_store_def m1_def [symmetric] ev)
  have young: "\<forall>e \<in> set es. fst (snd e) < me_next m1 + 1"
    using fresh set_drop_subset [of n "me_entries m1"] unfolding es by fastforce
  have "memory_inv c ?m"
    using wf room used young absent
    by (auto simp: memory_inv_def bt_wf_insert bt_weight_insert_absent handle_bytes_def [of "(_, _)"]
        length_bt_insert_absent set_bt_insert)
  moreover have "bt_get (me_entries ?m) k \<in> {None, bt_get (me_entries m) k}" if "k \<noteq> key" for k
    using that wf m1(4) bt_get_drop [OF wf1, of n k] by (cases "bt_get es k") (simp_all add: bt_simps es)
  ultimately show ?thesis
    unfolding st using wf m1(3) by (simp add: bt_simps)
qed

text \<open>
  The memory backend in use: stores, complete reads, and reads interrupted between their two locked
  parts. An interrupted read remembers the key and the handle it found.
\<close>

inductive cache_step ::
  "(entry \<Rightarrow> string option) \<Rightarrow> decoder \<Rightarrow> memory_config \<Rightarrow>
   memory \<times> (string \<times> handle) list \<Rightarrow> memory \<times> (string \<times> handle) list \<Rightarrow> bool"
  for enc dec c where
  put: "cache_step enc dec c (m, rs) (memory_put enc c now_ms key v ttl m, rs)"
| get: "cache_step enc dec c (m, rs) (snd (memory_get dec now_ms key m), rs)"
| found_expired: "memory_lookup key m = Some h \<Longrightarrow> decode_entry dec now_ms (snd h) None = None \<Longrightarrow>
    cache_step enc dec c (m, rs) (m, (key, h) # rs)"
| expire: "(key, h) \<in> set rs \<Longrightarrow>
    cache_step enc dec c (m, rs) (memory_expire key h m, remove1 (key, h) rs)"

definition handle_ok :: "memory \<Rightarrow> string \<times> handle \<Rightarrow> bool" where
  \<comment> \<open>a handle once found for a key: a current entry of that key with the same allocation is it\<close>
  "handle_ok m r \<longleftrightarrow>
     fst (snd r) < me_next m \<and>
     (\<forall>h. bt_get (me_entries m) (fst r) = Some h \<longrightarrow> fst h = fst (snd r) \<longrightarrow> h = snd r)"

definition cache_inv :: "memory_config \<Rightarrow> memory \<times> (string \<times> handle) list \<Rightarrow> bool" where
  "cache_inv c x \<longleftrightarrow> memory_inv c (fst x) \<and> (\<forall>r \<in> set (snd x). handle_ok (fst x) r)"

lemma handle_ok_shrink:
  assumes "handle_ok m r" "me_next m \<le> me_next m'"
    and "bt_get (me_entries m') (fst r) \<in> {None, bt_get (me_entries m) (fst r)}"
  shows "handle_ok m' r"
  using assms unfolding handle_ok_def by (metis empty_iff insert_iff option.distinct(1) order_less_le_trans)

lemma memory_put_cases:
  "memory_put enc c now_ms key value ttl m = m \<or>
   (\<exists>bytes. length bytes \<le> mc_max_entry_bytes c \<and>
      memory_put enc c now_ms key value ttl m = memory_store c key bytes m)"
  by (auto simp: memory_put_def Let_def not_less split: option.splits)

lemma memory_get_cases:
  "snd (memory_get dec now_ms key m) = m \<or>
   (\<exists>h. memory_lookup key m = Some h \<and> snd (memory_get dec now_ms key m) = memory_expire key h m)"
  by (auto simp: memory_get_def split: option.splits)

lemma memory_expire_entries:
  assumes "bt_wf (me_entries m)"
  shows "me_next (memory_expire key h m) = me_next m"
    "bt_get (me_entries (memory_expire key h m)) k \<in> {None, bt_get (me_entries m) k}"
  using assms by (auto simp: memory_expire_def bt_simps split: option.splits)

lemma cache_inv_shrink:
  assumes "cache_inv c (m, rs)" "memory_inv c m'" "me_next m' = me_next m" "set rs' \<subseteq> set rs"
    and "\<And>k. bt_get (me_entries m') k \<in> {None, bt_get (me_entries m) k}"
  shows "cache_inv c (m', rs')"
proof -
  have "handle_ok m' r" if "r \<in> set rs'" for r
    using assms(1,3,4) that by (intro handle_ok_shrink [OF _ _ assms(5)]) (auto simp: cache_inv_def)
  with assms(2) show ?thesis by (simp add: cache_inv_def)
qed

lemma memory_lookup_ok: "memory_inv c m \<Longrightarrow> memory_lookup key m = Some h \<Longrightarrow> handle_ok m (key, h)"
  using bt_get_mem [of "me_entries m" key h]
  by (auto simp: memory_lookup_def memory_inv_def handle_ok_def simp del: split_paired_All)

lemma cache_step_inv:
  assumes "cache_step enc dec c x y" "cache_inv c x" "memory_config_valid c"
  shows "cache_inv c y"
  using assms(1,2)
proof (induction rule: cache_step.induct)
  case (put m rs now_ms key v ttl)
  show ?case
  proof (cases "memory_put enc c now_ms key v ttl m = m")
    case False
    then obtain bytes where b: "length bytes \<le> mc_max_entry_bytes c"
      and p: "memory_put enc c now_ms key v ttl m = memory_store c key bytes m"
      using memory_put_cases by blast
    have inv: "memory_inv c m" using put by (simp add: cache_inv_def)
    note st = memory_store_spec [OF inv assms(3) b, of key]
    have "handle_ok (memory_store c key bytes m) r" if "r \<in> set rs" for r
    proof -
      have r: "handle_ok m r" using put that by (simp add: cache_inv_def)
      show ?thesis
      proof (cases "fst r = key")
        case True
        with st r show ?thesis by (auto simp: handle_ok_def)
      next
        case False
        with st show ?thesis by (intro handle_ok_shrink [OF r]) auto
      qed
    qed
    with st show ?thesis by (simp add: p cache_inv_def)
  qed (use put in simp)
next
  case (get m rs now_ms key)
  have inv: "memory_inv c m" using get by (simp add: cache_inv_def)
  then have wf: "bt_wf (me_entries m)" by (simp add: memory_inv_def)
  from memory_get_cases [of dec now_ms key m] show ?case
  proof
    assume "\<exists>h. memory_lookup key m = Some h \<and> snd (memory_get dec now_ms key m) = memory_expire key h m"
    then obtain h where h: "bt_get (me_entries m) key = Some h" "snd (memory_get dec now_ms key m) = memory_expire key h m"
      by (auto simp: memory_lookup_def)
    have "memory_inv c (memory_expire key h m)" using inv by (rule memory_expire_inv) (use h in auto)
    from cache_inv_shrink [OF get this memory_expire_entries(1) [OF wf] subset_refl memory_expire_entries(2) [OF wf]]
    show ?thesis by (simp add: h(2))
  qed (use get in simp)
next
  case (found_expired key m h now_ms rs)
  then show ?case using memory_lookup_ok [of c m key h] by (simp add: cache_inv_def)
next
  case (expire key h rs m)
  then have inv: "memory_inv c m" and h: "bt_get (me_entries m) key = Some h' \<Longrightarrow> fst h' = fst h \<Longrightarrow> h' = h" for h'
    by (force simp: cache_inv_def handle_ok_def simp del: split_paired_All)+
  have wf: "bt_wf (me_entries m)" using inv by (simp add: memory_inv_def)
  have "memory_inv c (memory_expire key h m)" using inv by (rule memory_expire_inv) (use h in auto)
  from cache_inv_shrink [OF expire.prems this memory_expire_entries(1) [OF wf] set_remove1_subset
      memory_expire_entries(2) [OF wf]]
  show ?case .
qed

lemma memory_inv_default: "memory_inv c memory_default"
  by (simp add: memory_inv_def memory_default_def)

lemma cache_steps_inv:
  assumes "(cache_step enc dec c)\<^sup>*\<^sup>* x y" "cache_inv c x" "memory_config_valid c"
  shows "cache_inv c y"
  using assms(1,2) by (induction rule: rtranclp_induct) (auto intro: cache_step_inv [OF _ _ assms(3)])

subsection \<open>Properties\<close>

text \<open>C7: the memory backend stays within its bounds however stores, reads and interrupted reads
  interleave: at most \<open>max_entries\<close> entries, at most \<open>max_bytes\<close> bytes, and the byte counter is
  exactly the size of what is stored.\<close>

theorem cache_stays_within_bounds:
  assumes "(cache_step enc dec c)\<^sup>*\<^sup>* (memory_default, []) (m, rs)"
    and "cache_config_validate (CacheMemory c) = Ok ()"
  shows "length (me_entries m) \<le> mc_max_entries c \<and> me_bytes m \<le> mc_max_bytes c \<and>
    me_bytes m = sum_list (map (\<lambda>e. length (snd (snd e))) (me_entries m)) \<and>
    distinct (map fst (me_entries m))"
proof -
  have v: "memory_config_valid c" using assms(2) by (simp add: cache_config_validate_def split: if_splits)
  have "cache_inv c (memory_default, [])" by (simp add: cache_inv_def memory_inv_default)
  from cache_steps_inv [OF assms(1) this v] have "memory_inv c m" by (simp add: cache_inv_def)
  then show ?thesis
    by (simp add: memory_inv_def bt_weight_def handle_bytes_def comp_def bt_wf_distinct)
qed

definition example_cache :: memory_config where
  "example_cache = \<lparr>mc_ttl_ms = 1000, mc_stale_while_revalidate_ms = 500, mc_route_ttl_ms = [],
     mc_max_entries = 1, mc_max_bytes = 1024, mc_max_entry_bytes = 256\<rparr>"

definition example_enc :: "entry \<Rightarrow> string option" where
  "example_enc e = Some (replicate (expires_ms e) CHR ''x'')"

lemma example_cache_valid: "cache_config_validate (CacheMemory example_cache) = Ok ()"
  by (simp add: cache_config_validate_def memory_config_valid_def example_cache_def)

theorem cache_stays_within_bounds_witness:
  "length (me_entries (memory_put example_enc example_cache 1 ''b'' JNull (Some 2)
     (memory_put example_enc example_cache 0 ''a'' JNull (Some 3) memory_default))) \<le> 1"
proof -
  let ?m = "memory_put example_enc example_cache 0 ''a'' JNull (Some 3) memory_default"
  have "(cache_step example_enc (\<lambda>_. None) example_cache)\<^sup>*\<^sup>* (memory_default, [])
      (memory_put example_enc example_cache 1 ''b'' JNull (Some 2) ?m, [])"
    using cache_step.put by (metis (no_types, lifting) r_into_rtranclp rtranclp.rtrancl_into_rtrancl)
  from cache_stays_within_bounds [OF this example_cache_valid] show ?thesis
    by (simp add: example_cache_def)
qed

text \<open>A stored response is served fresh for its time to live, then as stale for the
  revalidation window, and then not at all: reading it then also drops it.\<close>

theorem put_then_get:
  assumes "memory_config_valid c" "memory_inv c m"
    and "enc (entry_of t ttl (mc_stale_while_revalidate_ms c) v) = Some bytes"
    and "dec bytes = Some (entry_of t ttl (mc_stale_while_revalidate_ms c) v)"
    and "length bytes \<le> mc_max_entry_bytes c" "t + ttl + mc_stale_while_revalidate_ms c \<le> u64_max"
    and m'_def: "m' = memory_put enc c t key v (Some ttl) m"
  shows "fst (memory_get dec now key m') =
    (if now < t + ttl then Some \<lparr>ca_value = v, ca_stale = False\<rparr>
     else if now < t + ttl + mc_stale_while_revalidate_ms c then Some \<lparr>ca_value = v, ca_stale = True\<rparr>
     else None) \<and>
    (t + ttl + mc_stale_while_revalidate_ms c \<le> now \<longrightarrow>
       memory_lookup key (snd (memory_get dec now key m')) = None)"
proof -
  have m': "m' = memory_store c key bytes m"
    using assms(3,5) by (simp add: m'_def memory_put_def)
  note st = memory_store_spec [OF assms(2,1,5), of key, folded m']
  have e: "expires_ms (entry_of t ttl (mc_stale_while_revalidate_ms c) v) = t + ttl"
    "retain_ms (entry_of t ttl (mc_stale_while_revalidate_ms c) v) = t + ttl + mc_stale_while_revalidate_ms c"
    "en_value (entry_of t ttl (mc_stale_while_revalidate_ms c) v) = v"
    using assms(6) by (simp_all add: entry_of_def sat_add64_def)
  have d: "decode_entry dec now bytes None =
    (if now < t + ttl + mc_stale_while_revalidate_ms c
     then Some \<lparr>ca_value = v, ca_stale = (t + ttl \<le> now)\<rparr> else None)"
    using assms(4) e by (simp add: decode_entry_def max_def)
  have wf: "bt_wf (me_entries m')" using st by (simp add: memory_inv_def)
  show ?thesis
    using st wf by (auto simp: memory_get_def memory_lookup_def d memory_expire_def bt_simps)
qed

theorem put_then_get_witness:
  "fst (memory_get (\<lambda>_. Some (entry_of 10 100 500 JNull)) 200 ''a''
     (memory_put example_enc example_cache 10 ''a'' JNull (Some 100) memory_default)) =
   Some \<lparr>ca_value = JNull, ca_stale = True\<rparr>"
proof -
  have v: "memory_config_valid example_cache" by (simp add: memory_config_valid_def example_cache_def)
  have swr: "mc_stale_while_revalidate_ms example_cache = 500" "mc_max_entry_bytes example_cache = 256"
    by (simp_all add: example_cache_def)
  have enc: "example_enc (entry_of 10 100 (mc_stale_while_revalidate_ms example_cache) JNull) =
      Some (replicate 110 CHR ''x'')"
    by (simp add: example_enc_def entry_of_def sat_add64_def u64_max_def)
  have dec: "(\<lambda>_. Some (entry_of 10 100 500 JNull)) (replicate 110 CHR ''x'') =
      Some (entry_of 10 100 (mc_stale_while_revalidate_ms example_cache) JNull)" by (simp add: swr)
  have len: "length (replicate 110 CHR ''x'') \<le> mc_max_entry_bytes example_cache"
    "(10 :: nat) + 100 + mc_stale_while_revalidate_ms example_cache \<le> u64_max"
    by (simp_all add: swr u64_max_def)
  from put_then_get [where enc = example_enc and dec = "\<lambda>_. Some (entry_of 10 100 500 JNull)",
      OF v memory_inv_default enc dec len refl, of 200 "''a''"]
  show ?thesis by (simp add: swr)
qed

text \<open>Storing a response leaves every other response as it was unless room has to be made,
  in which case another response is at most evicted, never changed; and a response stored while a read
  of the same key is interrupted is never dropped by that read.\<close>

theorem put_only_evicts_for_room:
  assumes "memory_config_valid c" "memory_inv c m" "length bytes \<le> mc_max_entry_bytes c"
  shows "(length (me_entries m) < mc_max_entries c \<and> me_bytes m + length bytes \<le> mc_max_bytes c \<longrightarrow>
      (\<forall>k. k \<noteq> key \<longrightarrow> memory_lookup k (memory_store c key bytes m) = memory_lookup k m)) \<and>
    (\<forall>k. k \<noteq> key \<longrightarrow> memory_lookup k (memory_store c key bytes m) \<in> {None, memory_lookup k m}) \<and>
    (\<forall>h. memory_lookup key m = Some h \<longrightarrow>
       memory_expire key h (memory_store c key bytes m) = memory_store c key bytes m)"
proof (intro conjI impI allI)
  note st = memory_store_spec [OF assms(2,1,3), of key]
  fix h assume "memory_lookup key m = Some h"
  then have "fst h < me_next m" using memory_lookup_ok [OF assms(2)] by (auto simp: handle_ok_def)
  then show "memory_expire key h (memory_store c key bytes m) = memory_store c key bytes m"
    using st by (simp add: memory_expire_def)
next
  fix k assume "k \<noteq> key"
  then show "memory_lookup k (memory_store c key bytes m) \<in> {None, memory_lookup k m}"
    using memory_store_spec [OF assms(2,1,3), of key] by (simp add: memory_lookup_def)
next
  fix k assume k: "k \<noteq> key"
    and room: "length (me_entries m) < mc_max_entries c \<and> me_bytes m + length bytes \<le> mc_max_bytes c"
  define m1 where "m1 = memory_remove key m"
  note m1 = memory_remove_inv [OF assms(2), where key = key, folded m1_def]
  have "length (me_entries m1) \<le> length (me_entries m)" "me_bytes m1 \<le> me_bytes m"
    using length_bt_remove [of "me_entries m" key]
    by (auto simp: m1_def memory_remove_def split: option.splits)
  then have "evict (mc_max_entries c) (mc_max_bytes c) (length bytes) (me_entries m1) (me_bytes m1) =
      (me_entries m1, me_bytes m1)"
    using room by (intro evict_room) auto
  moreover have "bt_wf (me_entries m1)" using m1(1) by (simp add: memory_inv_def)
  ultimately show "memory_lookup k (memory_store c key bytes m) = memory_lookup k m"
    using k m1(4) by (simp add: memory_store_def m1_def [symmetric] memory_lookup_def bt_simps)
qed

theorem put_only_evicts_for_room_witness:
  "memory_expire ''a'' (0, ''old'') (memory_store example_cache ''a'' ''new''
     \<lparr>me_entries = [(''a'', (0, ''old''))], me_bytes = 3, me_next = 1\<rparr>) =
   \<lparr>me_entries = [(''a'', (1, ''new''))], me_bytes = 3, me_next = 2\<rparr>"
proof -
  let ?m = "\<lparr>me_entries = [(''a'', (0, ''old''))], me_bytes = 3, me_next = 1\<rparr>"
  have v: "memory_config_valid example_cache" by (simp add: memory_config_valid_def example_cache_def)
  have i: "memory_inv example_cache ?m"
    by (simp add: memory_inv_def example_cache_def bt_wf_def handle_bytes_def)
  have l: "length ''new'' \<le> mc_max_entry_bytes example_cache" by (simp add: example_cache_def)
  have "memory_expire ''a'' (0, ''old'') (memory_store example_cache ''a'' ''new'' ?m) =
      memory_store example_cache ''a'' ''new'' ?m"
    using put_only_evicts_for_room [OF v i l, of "''a''"] by (simp add: memory_lookup_def)
  then show ?thesis
    by (simp add: memory_store_def memory_remove_def evict.simps example_cache_def Let_def)
qed

text \<open>Reading several keys from Redis in pipelines of four gives the first retained entry in
  the order of the keys, exactly as reading them one by one would.\<close>

theorem pipelined_read_is_first_match:
  assumes "\<And>ks. query ks = Some (map val ks)"
  shows "redis_get_any dec query now limit keys =
    find_map (\<lambda>k. decode_entry dec now (val k) (Some limit)) keys"
proof (induction "length keys" arbitrary: keys rule: less_induct)
  case less
  have split: "find_map f (xs @ ys) = (case find_map f xs of None \<Rightarrow> find_map f ys | Some y \<Rightarrow> Some y)"
    for f :: "string \<Rightarrow> cached option" and xs ys
    by (induction xs) (auto split: option.splits)
  have mp: "find_map f (map val xs) = find_map (\<lambda>k. f (val k)) xs" for f :: "string \<Rightarrow> cached option" and xs
    by (induction xs) (auto split: option.splits)
  show ?case
  proof (cases "keys = []")
    case False
    then have "length (drop ANY_CHUNK keys) < length keys" by (simp add: ANY_CHUNK_def)
    note IH = less.hyps [OF this]
    have "find_map (\<lambda>k. decode_entry dec now (val k) (Some limit)) keys =
      (case find_map (\<lambda>k. decode_entry dec now (val k) (Some limit)) (take ANY_CHUNK keys) of
         None \<Rightarrow> find_map (\<lambda>k. decode_entry dec now (val k) (Some limit)) (drop ANY_CHUNK keys)
       | Some y \<Rightarrow> Some y)"
      by (metis (no_types, lifting) append_take_drop_id split)
    then show ?thesis
      using False IH by (simp add: redis_get_any.simps [of dec query now limit keys] assms mp split: option.splits)
  qed (simp add: redis_get_any.simps)
qed

theorem pipelined_read_is_first_match_witness:
  "redis_get_any (\<lambda>b. if b = ''k5'' then Some (entry_of 0 9 0 JNull) else None) (\<lambda>ks. Some ks) 1 50
     [''k1'', ''k2'', ''k3'', ''k4'', ''k5''] = Some \<lparr>ca_value = JNull, ca_stale = False\<rparr>"
proof -
  have "redis_get_any dec (\<lambda>ks. Some ks) now limit keys =
      find_map (\<lambda>k. decode_entry dec now k (Some limit)) keys" for dec now limit keys
    using pipelined_read_is_first_match [where query = "\<lambda>ks. Some ks" and val = "\<lambda>k. k"] by simp
  then show ?thesis
    by (simp add: decode_entry_def entry_of_def sat_add64_def u64_max_def)
qed

end
