(* ===== verification/Call_Pipeline.thy ===== *)
theory Call_Pipeline
  imports Login_Flow Game_Rpc Account_Pool Response_Cache
begin

section \<open>The pipeline of a logical call (src/client.rs)\<close>

text \<open>
  \<open>GameClient::call_selected\<close>, \<open>cached_before_admission\<close> and \<open>call_admitted\<close>: a read of the game from the
  caller's request to its answer, through the response cache, the account pool, the upstream path, the
  version headers, the login and the RPC, composed from the models of those components. This is a call
  when nothing else runs; the components' own step relations cover interleaving. What the outside
  decides (clocks, locks that time out, answers of the SDK and of the game) is the environment
  \<open>call_env\<close>. The cache is the memory backend, and the fill guard of a key is free.
\<close>

record client_setup =
  su_client :: client_config
  su_memory :: "memory_config option" \<comment> \<open>\<open>None\<close>: the cache is disabled\<close>
  su_policy :: pool_policy
  su_path :: path_config
  su_login :: login_client
  su_protocol :: protocol_bundle

datatype account_scope = StaticScope string string | GlobalScope string string

record scope =
  sc_stale_ms :: nat
  sc_region :: region
  sc_environment :: string
  sc_endpoint :: string
  sc_platform :: platform
  sc_client :: string
  sc_protocol :: string
  sc_protocol_generation :: nat
  sc_account :: "account_scope option"
  sc_account_generation :: nat
  sc_master :: "string option"
  sc_route :: string
  sc_input :: json
  sc_ttl_ms :: nat

record 'v pipeline_lib =
  pi_rpc :: "'v rpc_lib"
  pi_sdk :: sdk_lib
  pi_enc :: "entry \<Rightarrow> string option"
  pi_dec :: decoder
  pi_key :: "scope \<Rightarrow> string" \<comment> \<open>SHA-256 of the JSON text\<close>

record world =
  gw_state :: client_state
  gw_path :: path_state
  gw_sdk_path :: "path_state option"
  gw_pool :: pool
  gw_sdk :: "string \<Rightarrow> sdk_world" \<comment> \<open>the shared sessions, by SDK uid\<close>
  gw_cache :: memory
  gw_refreshing :: "(string \<times> string \<times> json \<times> string option) list" \<comment> \<open>background refreshes that have begun\<close>
  gw_sent :: "rpc_message list"
  gw_logins :: "login_event list"

datatype stage = AtPrecheck | AtSelect | AtVersion | AtRefreshed | AtRead | AtFill | AtStore | AtAdmit | AtAuth | AtReport

record call_env =
  ce_now :: "stage \<Rightarrow> instant"
  ce_wall :: "stage \<Rightarrow> instant"
  ce_ms :: "stage \<Rightarrow> nat" \<comment> \<open>the clock of the cache\<close>
  ce_slow :: "stage \<Rightarrow> bool" \<comment> \<open>the cache operation exceeds its budget\<close>
  ce_permit :: "app_error + unit"
  ce_barrier :: "app_error + unit"
  ce_guard :: "app_error + unit"
  ce_bootstrap_busy :: bool
  ce_write_ok :: bool
  ce_lock :: lock_outcome
  ce_sdk_late :: bool
  ce_sdk_outcome :: "sdk_error + sdk_account"
  ce_version_rpc :: "nat \<Rightarrow> rpc_env"
  ce_login_rpc :: rpc_env
  ce_identity_rpc :: rpc_env
  ce_rpc :: "nat \<Rightarrow> rpc_env"

definition identity_only :: "client_setup \<Rightarrow> string \<Rightarrow> bool" where
  "identity_only S route \<longleftrightarrow> global_family (su_client S) \<and> route = WHOAMI"

subsection \<open>The path, the accounts and the RPC\<close>

definition record_game_path ::
  "client_setup \<Rightarrow> string option \<Rightarrow> instant \<times> path_outcome \<Rightarrow> world \<Rightarrow> world" where
  "record_game_path S source o1 w =
     (case path_record (su_path S) (fst o1) source (snd o1) (gw_path w) of (ch, p) \<Rightarrow>
        (case ch_attributed ch of
           None \<Rightarrow> (w\<lparr>gw_path := p\<rparr>)
         | Some streak \<Rightarrow>
             (w\<lparr>gw_path := p, gw_pool := pool_revoke_path_failures streak (su_policy S) (gw_pool w)\<rparr>)))"

definition run_once ::
  "('v::linorder) pipeline_lib \<Rightarrow> client_setup \<Rightarrow> string \<Rightarrow> json \<Rightarrow> auth option \<Rightarrow> rpc_env \<Rightarrow> world \<Rightarrow> rpc_result \<times> world" where
  "run_once L S route input auth E w =
     (case execute_once (pi_rpc L) (su_client S) (su_protocol S) route input auth E (gw_state w) of (m, r) \<Rightarrow>
        (r, fold (record_game_path S (map_option au_account auth))
              (map (Pair (ev_now E)) (list_of_option (rr_outcome r)))
              (w\<lparr>gw_state := rr_state r, gw_sent := gw_sent w @ list_of_option m\<rparr>)))"

definition run_anonymous ::
  "('v::linorder) pipeline_lib \<Rightarrow> client_setup \<Rightarrow> string \<Rightarrow> json \<Rightarrow> (nat \<Rightarrow> rpc_env) \<Rightarrow> world \<Rightarrow> rpc_result \<times> world" where
  \<comment> \<open>\<open>execute\<close> without an account; the path hears of every attempt\<close>
  "run_anonymous L S route input envs w =
     (let e = execute (pi_rpc L) (su_client S) (su_protocol S) route input None envs 0 (gw_state w)
      in (ex_result e, fold (record_game_path S None) (ex_outcomes e)
            (w\<lparr>gw_state := rr_state (ex_result e), gw_sent := gw_sent w @ ex_messages e\<rparr>)))"

definition admit_path :: "instant \<Rightarrow> bool option \<Rightarrow> world \<Rightarrow> (app_error + bool option) \<times> world" where
  \<comment> \<open>the ticket of the call, once: whether it is the probe\<close>
  "admit_path now ticket w =
     (case ticket of
        Some t \<Rightarrow> (Ok (Some t), w)
      | None \<Rightarrow>
          (case path_admit now (gw_path w) of
             None \<Rightarrow> (Err UpstreamUnavailable, w)
           | Some (probe, p) \<Rightarrow> (Ok (Some probe), w\<lparr>gw_path := p\<rparr>)))"

definition drop_path :: "bool option \<Rightarrow> world \<Rightarrow> world" where
  "drop_path ticket w = (if ticket = Some True then w\<lparr>gw_path := path_drop_probe (gw_path w)\<rparr> else w)"

definition leased :: "world \<Rightarrow> nat \<Rightarrow> account" where
  "leased w i = po_entries (gw_pool w) ! i"

definition account_uid :: "account \<Rightarrow> string" where
  "account_uid a = (case account_global a of None \<Rightarrow> [] | Some g \<Rightarrow> sa_uid (ga_sdk g))"

definition put_account :: "nat \<Rightarrow> account \<Rightarrow> sdk_world \<Rightarrow> world \<Rightarrow> world" where
  "put_account i a sw w =
     w\<lparr>gw_pool := on_entry i (\<lambda>_. a) (gw_pool w),
       gw_sdk := (if account_global a = None then gw_sdk w else (gw_sdk w)(account_uid a := sw))\<rparr>"

definition signal_at :: "'v pipeline_lib \<Rightarrow> call_env \<Rightarrow> stage \<Rightarrow> signal_env" where
  "signal_at L E st = \<lparr>en_lib = pi_sdk L, en_now = ce_now E st, en_wall = ce_wall E st, en_write_ok = ce_write_ok E\<rparr>"

definition report_lease ::
  "'v pipeline_lib \<Rightarrow> client_setup \<Rightarrow> call_env \<Rightarrow> nat \<Rightarrow> app_error + json \<Rightarrow> string option \<Rightarrow> world \<Rightarrow> world" where
  "report_lease L S E i result code w =
     (let c = path_charge (gw_path w); a = leased w i in
      case lease_report (signal_at L E AtReport) result code (su_policy S) (lc_login (su_login S)) c
             (a, gw_sdk w (account_uid a)) of
        (a1, sw) \<Rightarrow> put_account i (settle_charge (su_policy S) c (gw_path w) a1) sw w)"

definition login_sys_of :: "call_env \<Rightarrow> nat \<Rightarrow> world \<Rightarrow> login_sys" where
  "login_sys_of E i w =
     \<lparr>ly_now = ce_now E AtAuth, ly_account = leased w i, ly_world = gw_sdk w (account_uid (leased w i)),
      ly_sdk_path = gw_sdk_path w, ly_auth = AuthIdle, ly_keep = KeepIdle, ly_log = gw_logins w\<rparr>"

definition put_login :: "nat \<Rightarrow> login_sys \<Rightarrow> world \<Rightarrow> world" where
  "put_login i y w =
     (put_account i (ly_account y) (ly_world y) w)\<lparr>gw_sdk_path := ly_sdk_path y, gw_logins := ly_log y\<rparr>"

fun phase_result :: "auth_phase \<Rightarrow> app_error + auth" where
  "phase_result (AuthDone r) = r"
| "phase_result _ = Err AccountUnavailable"

definition login_account ::
  "('v::linorder) pipeline_lib \<Rightarrow> client_setup \<Rightarrow> call_env \<Rightarrow> nat \<Rightarrow> world \<Rightarrow> (app_error + auth) \<times> world" where
  \<comment> \<open>\<open>account_auth\<close> with its PlayerLogin sent through \<open>execute_once\<close>. When the deadline passes while that is in
    flight, the rest of the function is dropped\<close>
  "login_account L S E i w =
     (let lc = su_login S;
          login = (case lc_login lc of None \<Rightarrow> login_config_default | Some l \<Rightarrow> l);
          y = auth_prepare lc login (signal_at L E AtAuth) (ce_lock E) (ce_sdk_late E) (ce_sdk_outcome E) (login_sys_of E i w);
          w1 = put_login i y w
      in case ly_auth y of
           AuthLoggingIn sdk \<Rightarrow>
             (case last (ly_log y) of
                PlayerLogin req auth \<Rightarrow>
                  (case run_once L S PLAYER_LOGIN req (Some auth) (ce_login_rpc E) w1 of (r, w2) \<Rightarrow>
                     if ev_late (ce_login_rpc E) \<and> rr_outcome r \<noteq> None then (Err Timeout, w2)
                     else
                       let y2 = auth_finish lc login (signal_at L E AtReport) (gw_path w2) (gw_path w2) sdk
                                  (rr_result r) (rr_code r) (y\<lparr>ly_account := leased w2 i\<rparr>)
                       in (phase_result (ly_auth y2), put_login i y2 w2))
              | _ \<Rightarrow> (Err AccountUnavailable, w1))
         | ph \<Rightarrow> (phase_result ph, w1))"

subsection \<open>Version headers\<close>

datatype version_needs = Fresh | Required | Refresh bool

definition version_need :: "client_setup \<Rightarrow> instant \<Rightarrow> string \<Rightarrow> client_state \<Rightarrow> version_needs" where
  "version_need S now route s =
     (if route = VERSION \<or> route = PLAYER_LOGIN then Fresh
      else
        let ob = cs_observation s;
            missing = (ob_master_version ob = None \<or> (global_family (su_client S) \<and> ob_resource_version ob = None))
        in if missing \<and> authenticated route then Required
           else if ob_master_version ob = None \<or> (case cs_version_retry_at s of None \<Rightarrow> False | Some at \<Rightarrow> now < at)
           then Fresh
           else if cs_version_suspect s then Refresh True
           else if (case cs_version_fresh_until s of None \<Rightarrow> True | Some at \<Rightarrow> at \<le> now) then Refresh False
           else Fresh)"

definition ensure_version ::
  "('v::linorder) pipeline_lib \<Rightarrow> client_setup \<Rightarrow> call_env \<Rightarrow> string \<Rightarrow> world \<Rightarrow> (app_error + bool option) \<times> world" where
  \<comment> \<open>the result is the ticket of the call, if a Version call needed one. A refresh has half of the remaining time;
    when that passes it counts as failed and the call goes on\<close>
  "ensure_version L S E route w =
     (case version_need S (ce_now E AtVersion) route (gw_state w) of
        Fresh \<Rightarrow> (Ok None, w)
      | Required \<Rightarrow>
          (case admit_path (ce_now E AtVersion) None w of
             (Inl err, w1) \<Rightarrow> (Err err, w1)
           | (Inr ticket, w1) \<Rightarrow>
               (case run_anonymous L S VERSION (JObj []) (ce_version_rpc E) w1 of (r, w2) \<Rightarrow>
                  (case rr_result r of
                     Inl err \<Rightarrow> (Err err, drop_path ticket w2)
                   | Inr _ \<Rightarrow> (Ok ticket, w2))))
      | Refresh wait \<Rightarrow>
          if \<not> wait \<and> ce_bootstrap_busy E then (Ok None, w)
          else (case admit_path (ce_now E AtVersion) None w of
                  (Inl _, w1) \<Rightarrow> (Ok None, w1)
                | (Inr ticket, w1) \<Rightarrow>
                    (case run_anonymous L S VERSION (JObj []) (ce_version_rpc E) w1 of (r, w2) \<Rightarrow>
                       (case rr_result r of
                          Inl _ \<Rightarrow> (Ok ticket, w2\<lparr>gw_state := (gw_state w2)
                                      \<lparr>cs_version_retry_at := Some (ce_now E AtRefreshed + VERSION_RETRY)\<rparr>\<rparr>)
                        | Inr _ \<Rightarrow> (Ok ticket, w2)))))"

subsection \<open>The response cache\<close>

definition su_ttl :: "client_setup \<Rightarrow> string \<Rightarrow> nat option" where
  "su_ttl S route = (case su_memory S of None \<Rightarrow> None | Some mc \<Rightarrow> cache_ttl (CacheMemory mc) route)"

definition su_stale_window :: "client_setup \<Rightarrow> nat" where
  "su_stale_window S = (case su_memory S of None \<Rightarrow> 0 | Some mc \<Rightarrow> cache_stale_window (CacheMemory mc))"

definition cache_scope :: "account \<Rightarrow> account_scope" where
  "cache_scope a =
     (case ac_source a of
        Static c \<Rightarrow> StaticScope (cr_player_id c) (cr_credential c)
      | Global g \<Rightarrow> GlobalScope (ac_name a) (sa_uid (ga_sdk g)))"

definition response_cache_key ::
  "'v pipeline_lib \<Rightarrow> client_setup \<Rightarrow> string \<Rightarrow> json \<Rightarrow> account option \<Rightarrow> world \<Rightarrow> string option" where
  "response_cache_key L S route input account w =
     (case su_ttl S route of
        None \<Rightarrow> None
      | Some ttl \<Rightarrow>
          if ob_maintenance (cs_observation (gw_state w)) then None
          else let C = su_client S in
            Some (pi_key L
              \<lparr>sc_stale_ms = su_stale_window S, sc_region = cc_region C, sc_environment = cc_environment C,
               sc_endpoint = cc_endpoint C, sc_platform = cc_platform C, sc_client = cc_client_version C,
               sc_protocol = pb_sha256 (su_protocol S), sc_protocol_generation = pb_generation (su_protocol S),
               sc_account = map_option cache_scope account, sc_account_generation = po_generation (gw_pool w),
               sc_master = ob_master_version (cs_observation (gw_state w)), sc_route = route, sc_input = input,
               sc_ttl_ms = ttl\<rparr>))"

definition read_cached_state ::
  "'v pipeline_lib \<Rightarrow> call_env \<Rightarrow> stage \<Rightarrow> string \<Rightarrow> string \<Rightarrow> world \<Rightarrow> cached option \<times> world" where
  "read_cached_state L E st key route w =
     (if ce_slow E st then (None, w)
      else case memory_get (pi_dec L) (ce_ms E st) key (gw_cache w) of (c, m) \<Rightarrow>
             (map_option (\<lambda>x. x\<lparr>ca_value := strip_account_fields route (ca_value x)\<rparr>) c, w\<lparr>gw_cache := m\<rparr>))"

definition read_cached ::
  "'v pipeline_lib \<Rightarrow> call_env \<Rightarrow> stage \<Rightarrow> string \<Rightarrow> string \<Rightarrow> world \<Rightarrow> json option \<times> world" where
  "read_cached L E st key route w =
     (case read_cached_state L E st key route w of (c, w1) \<Rightarrow>
        (case c of None \<Rightarrow> None | Some x \<Rightarrow> if ca_stale x then None else Some (ca_value x), w1))"

definition spawn_refresh :: "string \<Rightarrow> string \<Rightarrow> json \<Rightarrow> string option \<Rightarrow> world \<Rightarrow> world" where
  \<comment> \<open>a stripe that is taken refuses\<close>
  "spawn_refresh key route input name w =
     (if \<exists>x \<in> set (gw_refreshing w). stripe (fst x) = stripe key then w
      else w\<lparr>gw_refreshing := gw_refreshing w @ [(key, route, input, name)]\<rparr>)"

datatype precheck = Hit json | Miss string | Skipped

definition retained_while_quarantined ::
  "'v pipeline_lib \<Rightarrow> client_setup \<Rightarrow> call_env \<Rightarrow> string \<Rightarrow> json \<Rightarrow> account list \<Rightarrow> world \<Rightarrow> precheck \<times> world" where
  "retained_while_quarantined L S E route input rotation w =
     (let keys = map (\<lambda>a. response_cache_key L S route input (Some a) w) rotation in
      if su_stale_window S = 0 \<or> None \<in> set keys \<or> ce_slow E AtPrecheck then (Skipped, w)
      else case memory_get_any (pi_dec L) (ce_ms E AtPrecheck) (map the keys) (gw_cache w) of (c, m) \<Rightarrow>
             (case c of None \<Rightarrow> Skipped | Some x \<Rightarrow> Hit (strip_account_fields route (ca_value x)),
              w\<lparr>gw_cache := m\<rparr>))"

definition cached_before_admission ::
  "'v pipeline_lib \<Rightarrow> client_setup \<Rightarrow> call_env \<Rightarrow> string \<Rightarrow> json \<Rightarrow> string option \<Rightarrow> world \<Rightarrow> precheck \<times> world" where
  "cached_before_admission L S E route input expected w =
     (let need = version_need S (ce_now E AtPrecheck) route (gw_state w);
          account = (if authenticated route then peek_public (ce_now E AtPrecheck) (gw_pool w) else None) in
      if su_ttl S route = None \<or> (expected \<noteq> None \<and> expected \<noteq> Some (pb_sha256 (su_protocol S)))
         \<or> \<not> (need = Fresh \<or> need = Refresh False)
      then (Skipped, w)
      else if authenticated route \<and> account = None
      then retained_while_quarantined L S E route input (pool_rotation (gw_pool w)) w
      else case response_cache_key L S route input account w of
             None \<Rightarrow> (Skipped, w)
           | Some key \<Rightarrow>
               if ce_slow E AtPrecheck then (Skipped, w)
               else (case memory_get (pi_dec L) (ce_ms E AtPrecheck) key (gw_cache w) of
                       (None, m) \<Rightarrow> (Miss key, w\<lparr>gw_cache := m\<rparr>)
                     | (Some c, m) \<Rightarrow>
                         (Hit (strip_account_fields route (ca_value c)),
                          if ca_stale c
                          then spawn_refresh key route input (map_option ac_name account) (w\<lparr>gw_cache := m\<rparr>)
                          else w\<lparr>gw_cache := m\<rparr>)))"

definition store_response ::
  "'v pipeline_lib \<Rightarrow> client_setup \<Rightarrow> call_env \<Rightarrow> string \<Rightarrow> string option \<Rightarrow> json \<Rightarrow> world \<Rightarrow> json \<times> world" where
  "store_response L S E route cache_key value w =
     (case (cache_key, su_memory S) of
        (Some key, Some mc) \<Rightarrow>
          let v = strip_account_fields route value in
          (v, if ce_slow E AtStore then w
              else w\<lparr>gw_cache := memory_put_route (pi_enc L) mc (ce_ms E AtStore) route key v (gw_cache w)\<rparr>)
      | _ \<Rightarrow> (value, w))"

subsection \<open>The admitted call\<close>

definition fetch ::
  "('v::linorder) pipeline_lib \<Rightarrow> client_setup \<Rightarrow> call_env \<Rightarrow> string \<Rightarrow> json \<Rightarrow> nat option \<Rightarrow> auth option \<Rightarrow> world
   \<Rightarrow> (app_error + json) \<times> world" where
  \<comment> \<open>the RPC with the identity check before it, and the report on the account\<close>
  "fetch L S E route input lease auth w =
     (if authenticated route
      then
        let (w1, failed) =
          (if route = PLAYER_DATA \<and> \<not> global_family (su_client S)
           then (case run_once L S WHOAMI (JObj []) auth (ce_identity_rpc E) w of (r, w1) \<Rightarrow>
                   (case rr_result r of
                      Inl err \<Rightarrow>
                        ((case lease of None \<Rightarrow> w1 | Some i \<Rightarrow> report_lease L S E i (Err err) (rr_code r) w1), Some err)
                    | Inr _ \<Rightarrow> (w1, None)))
           else (w, None))
        in case failed of
             Some err \<Rightarrow> (Err err, w1)
           | None \<Rightarrow>
               (case run_once L S route input auth (ce_rpc E 0) w1 of (r, w2) \<Rightarrow>
                  let absent = target_not_found (global_family (su_client S)) route (rr_result r) (rr_code r);
                      response = (if absent then Err NotFound else rr_result r);
                      code = (if absent then None else rr_code r)
                  in (response, case lease of None \<Rightarrow> w2 | Some i \<Rightarrow> report_lease L S E i response code w2))
      else case run_anonymous L S route input (ce_rpc E) w of (r, w1) \<Rightarrow> (rr_result r, w1))"

definition admit_stage ::
  "client_setup \<Rightarrow> call_env \<Rightarrow> string \<Rightarrow> nat option \<Rightarrow> bool option \<Rightarrow> world \<Rightarrow> (app_error + bool option) \<times> world" where
  \<comment> \<open>a Global identity with a session is answered without an upstream call\<close>
  "admit_stage S E route lease ticket w =
     (if identity_only S route \<and> (case lease of None \<Rightarrow> False | Some i \<Rightarrow> account_auth_headers (leased w i) \<noteq> None)
      then (Ok ticket, w) else admit_path (ce_now E AtAdmit) ticket w)"

definition auth_stage ::
  "('v::linorder) pipeline_lib \<Rightarrow> client_setup \<Rightarrow> call_env \<Rightarrow> string \<Rightarrow> nat option \<Rightarrow> world \<Rightarrow> (app_error + auth option) \<times> world" where
  "auth_stage L S E route lease w =
     (case lease of
        Some i \<Rightarrow> if authenticated route
                  then (case login_account L S E i w of (r, w1) \<Rightarrow> (map_sum id Some r, w1))
                  else (Ok None, w)
      | None \<Rightarrow> (Ok None, w))"

definition dispatch ::
  "('v::linorder) pipeline_lib \<Rightarrow> client_setup \<Rightarrow> call_env \<Rightarrow> string \<Rightarrow> json \<Rightarrow> nat option \<Rightarrow> string option \<Rightarrow> bool option
   \<Rightarrow> world \<Rightarrow> (app_error + json) \<times> bool option \<times> world" where
  \<comment> \<open>from the admission to the path on; the ticket is given back to be dropped\<close>
  "dispatch L S E route input lease cache_key ticket w =
     (case admit_stage S E route lease ticket w of
        (Inl err, w1) \<Rightarrow> (Err err, ticket, w1)
      | (Inr ticket1, w1) \<Rightarrow>
     (case auth_stage L S E route lease w1 of
        (Inl err, w2) \<Rightarrow> (Err err, ticket1, w2)
      | (Inr auth, w2) \<Rightarrow>
          if identity_only S route
          then ((case auth of None \<Rightarrow> Err AccountUnavailable
                 | Some a \<Rightarrow> Ok (JObj [(''playerId'', JStr (au_player_id a))])), ticket1, w2)
          else (case fetch L S E route input lease auth w2 of
                  (Inl err, w3) \<Rightarrow> (Err err, ticket1, w3)
                | (Inr value, w3) \<Rightarrow>
                    (case store_response L S E route cache_key value w3 of (v, w4) \<Rightarrow> (Ok v, ticket1, w4)))))"

definition first_read ::
  "'v pipeline_lib \<Rightarrow> call_env \<Rightarrow> string \<Rightarrow> json \<Rightarrow> account option \<Rightarrow> string option \<Rightarrow> string option \<Rightarrow> string
   \<Rightarrow> world \<Rightarrow> json option \<times> world" where
  \<comment> \<open>a key that the lookup before admission found empty is not read again; a refresh does not take a stale value\<close>
  "first_read L E route input account refresh_key checked k w =
     (if checked = Some k then (None, w)
      else if refresh_key = None
      then (case read_cached_state L E AtRead k route w of
              (None, w1) \<Rightarrow> (None, w1)
            | (Some c, w1) \<Rightarrow>
                (Some (ca_value c), if ca_stale c then spawn_refresh k route input (map_option ac_name account) w1 else w1))
      else read_cached L E AtRead k route w)"

definition with_cache ::
  "('v::linorder) pipeline_lib \<Rightarrow> client_setup \<Rightarrow> call_env \<Rightarrow> string \<Rightarrow> json \<Rightarrow> nat option \<Rightarrow> string option
   \<Rightarrow> string option \<Rightarrow> bool option \<Rightarrow> world \<Rightarrow> (app_error + json) \<times> bool option \<times> world" where
  \<comment> \<open>from the cache key to the dispatch; \<open>checked\<close> is the key the lookup before admission found empty\<close>
  "with_cache L S E route input lease refresh_key checked ticket w =
     (let account = map_option (leased w) lease;
          key = response_cache_key L S route input account w in
      if refresh_key \<noteq> None \<and> key \<noteq> refresh_key then (Err ProtocolDefinition, ticket, w)
      else
        let (hit, w1) =
          (case key of
             None \<Rightarrow> (None, w)
           | Some k \<Rightarrow> first_read L E route input account refresh_key checked k w);
            (hit2, w2) =
              (if hit \<noteq> None then (hit, w1)
               else case key of None \<Rightarrow> (None, w1) | Some k \<Rightarrow> read_cached L E AtFill k route w1)
        in case hit2 of
             Some value \<Rightarrow> (Ok value, ticket, w2)
           | None \<Rightarrow>
               (case ce_guard E of
                  Inl err \<Rightarrow> (Err err, ticket, w2)
                | Inr _ \<Rightarrow>
                    if (case lease of None \<Rightarrow> False | Some i \<Rightarrow> \<not> account_available (ce_now E AtAdmit) (leased w2 i))
                    then (Err AccountUnavailable, ticket, w2)
                    else if refresh_key \<noteq> None
                      \<and> response_cache_key L S route input (map_option (leased w2) lease) w2 \<noteq> refresh_key
                    then (Err ProtocolDefinition, ticket, w2)
                    else dispatch L S E route input lease key ticket w2))"

definition call_leased ::
  "('v::linorder) pipeline_lib \<Rightarrow> client_setup \<Rightarrow> call_env \<Rightarrow> string \<Rightarrow> json \<Rightarrow> nat option \<Rightarrow> string option
   \<Rightarrow> string option \<Rightarrow> world \<Rightarrow> (app_error + json) \<times> world" where
  \<comment> \<open>the part under the deadline; the ticket is dropped at its end, and the lease after it\<close>
  "call_leased L S E route input lease refresh_key checked w =
     (case (if identity_only S route then (Ok None, w) else ensure_version L S E route w) of
        (Inl err, w1) \<Rightarrow> (Err err, w1)
      | (Inr ticket, w1) \<Rightarrow>
          (case with_cache L S E route input lease refresh_key checked ticket w1 of
             (result, ticket1, w2) \<Rightarrow> (result, drop_path ticket1 w2)))"

definition drop_lease :: "nat option \<Rightarrow> world \<Rightarrow> world" where
  "drop_lease lease w = (case lease of None \<Rightarrow> w | Some i \<Rightarrow> w\<lparr>gw_pool := lease_drop i (gw_pool w)\<rparr>)"

definition select_lease ::
  "call_env \<Rightarrow> string \<Rightarrow> string option \<Rightarrow> string option \<Rightarrow> world \<Rightarrow> (app_error + nat option) \<times> world" where
  "select_lease E route name expected w =
     (if \<not> authenticated route then (Ok None, w)
      else case pool_select (ce_now E AtSelect) name (route = WHOAMI \<or> route = PLAYER_DATA) (gw_pool w) of
             (Inl err, p) \<Rightarrow> (Err (if expected \<noteq> None then PeerAccountUnavailable else err), w\<lparr>gw_pool := p\<rparr>)
           | (Inr i, p) \<Rightarrow> (Ok (Some i), w\<lparr>gw_pool := p\<rparr>))"

definition failed_state :: "instant \<Rightarrow> client_state \<Rightarrow> client_state" where
  "failed_state wall s =
     s\<lparr>cs_snapshot_stale := True,
       cs_observation := (cs_observation s)\<lparr>ob_grpc_status := None, ob_observed_at := Some wall\<rparr>\<rparr>"

definition note_failure :: "call_env \<Rightarrow> app_error + json \<Rightarrow> world \<Rightarrow> world" where
  "note_failure E result w =
     (if result = Err Timeout \<or> result = Err Transport \<or> result = Err Protocol
      then w\<lparr>gw_state := failed_state (ce_wall E AtReport) (gw_state w)\<rparr>
      else w)"

definition call_admitted ::
  "('v::linorder) pipeline_lib \<Rightarrow> client_setup \<Rightarrow> call_env \<Rightarrow> string \<Rightarrow> json \<Rightarrow> string option \<Rightarrow> string option
   \<Rightarrow> string option \<Rightarrow> string option \<Rightarrow> world \<Rightarrow> (app_error + json) \<times> world" where
  "call_admitted L S E route input name refresh_key expected checked w =
     (let (result, w1) =
        (case then_result (ce_permit E) (\<lambda>_. ce_barrier E) of
           Inl err \<Rightarrow> (Err err, w)
         | Inr _ \<Rightarrow>
             if expected \<noteq> None \<and> expected \<noteq> Some (pb_sha256 (su_protocol S)) then (Err PeerIdentityMismatch, w)
             else (case select_lease E route name expected w of
                     (Inl err, w1) \<Rightarrow> (Err err, w1)
                   | (Inr lease, w1) \<Rightarrow>
                       (case call_leased L S E route input lease refresh_key checked w1 of
                          (r, w2) \<Rightarrow> (r, drop_lease lease w2))))
      in if expected \<noteq> None \<and> result = Err UpstreamUnavailable then (Err PeerAccountUnavailable, w1)
         else (result, note_failure E result w1))"

definition call_selected ::
  "('v::linorder) pipeline_lib \<Rightarrow> client_setup \<Rightarrow> call_env \<Rightarrow> string \<Rightarrow> json \<Rightarrow> string option \<Rightarrow> string option
   \<Rightarrow> string option \<Rightarrow> world \<Rightarrow> (app_error + json) \<times> world" where
  \<comment> \<open>as the leader of a shared execution when the route coalesces\<close>
  "call_selected L S E route input name refresh_key expected w =
     (if route \<notin> set ROUTES \<and> route \<noteq> SERVER_LIST then (Err InvalidRequest, w)
      else if \<not> identity_only S route \<and> route \<notin> set (for_family (region_family (cc_region (su_client S))))
      then (Err UnsupportedRegionOperation, w)
      else
        let (pre, w1) =
          (if name = None \<and> refresh_key = None \<and> \<not> identity_only S route
           then cached_before_admission L S E route input expected w else (Skipped, w));
            checked = (case pre of Miss key \<Rightarrow> Some key | _ \<Rightarrow> None)
        in case pre of
             Hit value \<Rightarrow> (Ok value, w1)
           | _ \<Rightarrow>
               (case call_admitted L S E route input name refresh_key expected checked w1 of (r, w2) \<Rightarrow>
                  (if name = None \<and> refresh_key = None
                      \<and> coalesces (uc_coalesce_public_reads (cc_upstream (su_client S))) route
                   then map_sum id (strip_account_fields route) r else r, w2)))"

definition call_account ::
  "('v::linorder) pipeline_lib \<Rightarrow> client_setup \<Rightarrow> call_env \<Rightarrow> string \<Rightarrow> string \<Rightarrow> world \<Rightarrow> (app_error + json) \<times> world" where
  "call_account L S E name route w =
     (if route \<noteq> WHOAMI \<and> route \<noteq> PLAYER_DATA then (Err InvalidRequest, w)
      else call_selected L S E route (JObj []) (Some name) None None w)"

subsection \<open>Leases survive the call\<close>

lemma active_simps [simp]:
  "ac_active (on_login f a) = ac_active a" "ac_active (on_health h a) = ac_active a"
  "ac_active (account_disable a) = ac_active a" "ac_active (account_cool_down t a) = ac_active a"
  "ac_active (account_revoke_path_failures k policy a) = ac_active a"
  "ac_active (account_refused code a) = ac_active a"
  "ac_active (settle_charge policy c p a) = ac_active a"
  by (auto simp: on_login_def on_health_def account_disable_def account_cool_down_def account_refused_def
      account_revoke_path_failures_def settle_charge_def split: account_source.splits charge.splits option.splits)

lemma active_report: "ac_active (fst (lease_report E result code policy login c (a, w))) = ac_active a"
  using account_step_report by (simp add: account_step_def)

lemma active_signal:
  assumes "global_signal E result code policy login c (a, w) = (a', w')"
  shows "ac_active a' = ac_active a"
proof (cases "account_global a")
  case None
  with assms show ?thesis by (simp add: global_signal_def)
next
  case (Some g)
  then have "lease_report E result code policy (Some login) c (a, w) = (a', w')"
    using assms by (simp add: lease_report_def)
  with active_report [of E result code policy "Some login" c a w] show ?thesis by simp
qed

lemma active_revalidate:
  "revalidate_begin clock now y = Some (probe, y1) \<Longrightarrow> ac_active (ly_account y1) = ac_active (ly_account y)"
  "ac_active (ly_account (revalidate_failed E err y)) = ac_active (ly_account y)"
  "ac_active (ly_account (snd (revalidate_finish C E probe late outcome y))) = ac_active (ly_account y)"
  by (auto simp: revalidate_begin_fields(1) revalidate_failed_def revalidate_finish_def Let_def
      split: option.splits sum.splits prod.splits sdk_error.splits)

lemma active_auth:
  "ac_active (ly_account (start_login C shared y)) = ac_active (ly_account y)"
  "ac_active (ly_account (auth_begin C E y)) = ac_active (ly_account y)"
  "ac_active (ly_account (auth_locked C login E l now seen y)) = ac_active (ly_account y)"
  "ac_active (ly_account (auth_revalidated C E probe late outcome y)) = ac_active (ly_account y)"
  "ac_active (ly_account (auth_finish C login E p p' sdk result code y)) = ac_active (ly_account y)"
proof -
  show start: "ac_active (ly_account (start_login C shared y)) = ac_active (ly_account y)" for shared y
    by (simp add: start_login_def Let_def split: prod.splits)
  show "ac_active (ly_account (auth_begin C E y)) = ac_active (ly_account y)"
    by (auto simp: auth_begin_def Let_def start split: option.splits prod.splits)
  show "ac_active (ly_account (auth_locked C login E l now seen y)) = ac_active (ly_account y)"
    by (auto simp: auth_locked_def start take_exclusive_fields dest: active_revalidate(1) split: option.splits)
  show "ac_active (ly_account (auth_revalidated C E probe late outcome y)) = ac_active (ly_account y)"
    using active_revalidate(3) [of C E probe late outcome y]
    by (auto simp: auth_revalidated_def start simp del: split_paired_All split: prod.splits sum.splits)
  show "ac_active (ly_account (auth_finish C login E p p' sdk result code y)) = ac_active (ly_account y)"
    by (auto simp: auth_finish_def login_rejected_def Let_def dest: active_signal split: option.splits sum.splits prod.splits)
qed

lemma active_prepare: "ac_active (ly_account (auth_prepare C login E l late outcome y)) = ac_active (ly_account y)"
  unfolding auth_prepare_def Let_def by (simp add: active_auth split: auth_phase.splits)

definition actives :: "world \<Rightarrow> nat list" where
  "actives w = map ac_active (po_entries (gw_pool w))"

lemma actives_fields [simp]:
  "actives (w\<lparr>gw_state := s\<rparr>) = actives w" "actives (w\<lparr>gw_path := p\<rparr>) = actives w"
  "actives (w\<lparr>gw_cache := m\<rparr>) = actives w" "actives (w\<lparr>gw_sent := ms\<rparr>) = actives w"
  "actives (w\<lparr>gw_refreshing := rs\<rparr>) = actives w"
  "actives (w\<lparr>gw_state := s, gw_sent := ms\<rparr>) = actives w"
  "actives (w\<lparr>gw_sdk_path := sp, gw_logins := ls\<rparr>) = actives w"
  by (simp_all add: actives_def)

lemma actives_put:
  assumes "ac_active a = ac_active (leased w i)"
  shows "actives (put_account i a sw w) = actives w"
proof (cases "i < length (po_entries (gw_pool w))")
  case True
  then have "(map ac_active (po_entries (gw_pool w)))[i := ac_active a] = map ac_active (po_entries (gw_pool w))"
    using assms by (simp add: leased_def list_update_same_conv)
  then show ?thesis by (simp add: actives_def put_account_def on_entry_def map_update)
qed (simp add: actives_def put_account_def on_entry_def list_update_beyond)

lemma actives_record [simp]: "actives (record_game_path S source o1 w) = actives w"
  by (auto simp: record_game_path_def actives_def pool_revoke_path_failures_def split: prod.splits option.splits)

lemma actives_records [simp]: "actives (fold (record_game_path S source) os w) = actives w"
  by (induction os arbitrary: w) simp_all

lemma actives_run:
  "run_once L S route input auth E w = (r, w') \<Longrightarrow> actives w' = actives w"
  "run_anonymous L S route input envs w = (r, w') \<Longrightarrow> actives w' = actives w"
  by (auto simp: run_once_def run_anonymous_def Let_def split: prod.splits)

lemma actives_admit: "admit_path now ticket w = (r, w') \<Longrightarrow> actives w' = actives w"
  by (auto simp: admit_path_def split: option.splits)

lemma actives_drop_path [simp]: "actives (drop_path ticket w) = actives w"
  by (simp add: drop_path_def)

lemma actives_report [simp]: "actives (report_lease L S E i result code w) = actives w"
proof -
  let ?a = "leased w i"
  obtain a1 sw where r: "lease_report (signal_at L E AtReport) result code (su_policy S) (lc_login (su_login S))
      (path_charge (gw_path w)) (?a, gw_sdk w (account_uid ?a)) = (a1, sw)" by (metis surj_pair)
  have "ac_active a1 = ac_active ?a" using active_report [of "signal_at L E AtReport"] r by (metis fst_conv)
  then show ?thesis by (simp add: report_lease_def Let_def r actives_put)
qed

lemma actives_put_login: "ac_active (ly_account y) = ac_active (leased w i) \<Longrightarrow> actives (put_login i y w) = actives w"
  by (simp add: put_login_def actives_put)

lemma login_account_cases:
  assumes "login_account L S E i w = (r, w')"
  obtains (plain) y where "w' = put_login i y w" "ac_active (ly_account y) = ac_active (leased w i)"
  | (rpc) y req auth q w2 where "ac_active (ly_account y) = ac_active (leased w i)"
      "run_once L S PLAYER_LOGIN req (Some auth) (ce_login_rpc E) (put_login i y w) = (q, w2)"
      "w' = w2 \<or> (\<exists>y2. w' = put_login i y2 w2 \<and> ac_active (ly_account y2) = ac_active (leased w2 i))"
proof -
  define lc where "lc = su_login S"
  define login where "login = (case lc_login lc of None \<Rightarrow> login_config_default | Some l \<Rightarrow> l)"
  define y where "y = auth_prepare lc login (signal_at L E AtAuth) (ce_lock E) (ce_sdk_late E) (ce_sdk_outcome E) (login_sys_of E i w)"
  have y: "ac_active (ly_account y) = ac_active (leased w i)"
    by (simp add: y_def active_prepare login_sys_of_def)
  show ?thesis
  proof (cases "\<exists>sdk req auth. ly_auth y = AuthLoggingIn sdk \<and> last (ly_log y) = PlayerLogin req auth")
    case False
    then have "w' = put_login i y w"
      using assms by (auto simp: login_account_def Let_def y_def [symmetric] lc_def [symmetric] login_def [symmetric]
        split: auth_phase.splits login_event.splits)
    with y plain show ?thesis by blast
  next
    case True
    then obtain sdk req auth where ph: "ly_auth y = AuthLoggingIn sdk" "last (ly_log y) = PlayerLogin req auth" by blast
    obtain q w2 where run: "run_once L S PLAYER_LOGIN req (Some auth) (ce_login_rpc E) (put_login i y w) = (q, w2)"
      by fastforce
    let ?y2 = "auth_finish lc login (signal_at L E AtReport) (gw_path w2) (gw_path w2) sdk
        (rr_result q) (rr_code q) (y\<lparr>ly_account := leased w2 i\<rparr>)"
    have "w' = w2 \<or> w' = put_login i ?y2 w2"
      using assms ph run by (auto simp: login_account_def Let_def y_def [symmetric] lc_def [symmetric] login_def [symmetric]
        split: if_splits)
    moreover have "ac_active (ly_account ?y2) = ac_active (leased w2 i)" by (simp add: active_auth)
    ultimately show ?thesis using rpc [OF y run] by blast
  qed
qed

lemma actives_login: "login_account L S E i w = (r, w') \<Longrightarrow> actives w' = actives w"
proof (erule login_account_cases)
  fix y req auth q w2
  assume y: "ac_active (ly_account y) = ac_active (leased w i)"
    and run: "run_once L S PLAYER_LOGIN req (Some auth) (ce_login_rpc E) (put_login i y w) = (q, w2)"
    and w': "w' = w2 \<or> (\<exists>y2. w' = put_login i y2 w2 \<and> ac_active (ly_account y2) = ac_active (leased w2 i))"
  have "actives w2 = actives w" using actives_run(1) [OF run] actives_put_login [OF y] by simp
  with w' show ?thesis using actives_put_login by metis
qed (simp add: actives_put_login)

lemma actives_version: "ensure_version L S E route w = (r, w') \<Longrightarrow> actives w' = actives w"
  by (auto simp: ensure_version_def dest!: actives_admit actives_run(2) split: version_needs.splits prod.splits
      sum.splits if_splits)

lemma actives_cache:
  "read_cached_state L E st key route w = (c, w') \<Longrightarrow> actives w' = actives w"
  "read_cached L E st key route w = (v, w') \<Longrightarrow> actives w' = actives w"
  "actives (spawn_refresh key route input name w) = actives w"
  "store_response L S E route cache_key value w = (stored, w') \<Longrightarrow> actives w' = actives w"
  by (auto simp: read_cached_state_def read_cached_def spawn_refresh_def store_response_def Let_def
      split: prod.splits if_splits option.splits)

lemma actives_fetch: "fetch L S E route input lease auth w = (r, w') \<Longrightarrow> actives w' = actives w"
  by (auto simp: fetch_def Let_def dest!: actives_run split: prod.splits sum.splits option.splits if_splits)

lemma actives_stages:
  "admit_stage S E route lease ticket w = (a, w') \<Longrightarrow> actives w' = actives w"
  "auth_stage L S E route lease w = (b, w') \<Longrightarrow> actives w' = actives w"
  by (auto simp: admit_stage_def auth_stage_def dest!: actives_admit actives_login
      split: prod.splits option.splits if_splits)

lemma actives_dispatch:
  "dispatch L S E route input lease cache_key ticket w = (r, ticket1, w') \<Longrightarrow> actives w' = actives w"
  by (auto simp: dispatch_def dest!: actives_stages actives_fetch actives_cache(4)
      split: prod.splits sum.splits if_splits)

lemma actives_with_cache:
  assumes "with_cache L S E route input lease refresh_key checked ticket w = (r, ticket1, w')"
  shows "actives w' = actives w"
proof -
  define key where "key = response_cache_key L S route input (map_option (leased w) lease) w"
  show ?thesis
    using assms
    by (auto simp: with_cache_def first_read_def Let_def key_def [symmetric] actives_cache(3)
        dest!: actives_dispatch actives_cache(1,2)
        split: prod.splits sum.splits option.splits if_splits)
qed

lemma actives_leased:
  "call_leased L S E route input lease refresh_key checked w = (r, w') \<Longrightarrow> actives w' = actives w"
  by (auto simp: call_leased_def dest!: actives_version actives_with_cache split: prod.splits sum.splits if_splits)

lemma actives_select:
  assumes "select_lease E route name expected w = (r, w1)"
  shows "r = Err err \<Longrightarrow> actives w1 = actives w" "r = Ok None \<Longrightarrow> actives w1 = actives w"
    "r = Ok (Some i) \<Longrightarrow> i < length (actives w) \<and> actives w1 = (actives w)[i := usize_add (actives w ! i)]"
  using assms
  by (auto simp: select_lease_def pool_select_def actives_def on_entry_def map_update split: prod.splits sum.splits if_splits)

lemma actives_drop_lease:
  "actives (drop_lease None w) = actives w"
  "i < length (actives w) \<Longrightarrow> actives (drop_lease (Some i) w) = (actives w)[i := usize_sub (actives w ! i)]"
  by (simp_all add: drop_lease_def lease_drop_def on_entry_def actives_def map_update)

lemma usize_sub_add: "n < 2 ^ 64 \<Longrightarrow> usize_sub (usize_add n) = n"
  using usize_counts [of n] usize_counts(2) [of "Suc n"] by simp

lemma actives_note [simp]: "actives (note_failure E r w) = actives w"
  by (simp add: note_failure_def)

lemma actives_precheck:
  "cached_before_admission L S E route input expected w = (pre, w') \<Longrightarrow> actives w' = actives w"
  by (auto simp: cached_before_admission_def retained_while_quarantined_def Let_def actives_cache(3)
      split: prod.splits option.splits if_splits)

lemma actives_admitted:
  assumes "call_admitted L S E route input name refresh_key expected checked w = (r, w')" "\<forall>n \<in> set (actives w). n < 2 ^ 64"
  shows "actives w' = actives w"
proof -
  have leased: "actives (drop_lease lease w2) = actives w"
    if sel: "select_lease E route name expected w = (Ok lease, w1)"
      and call: "call_leased L S E route input lease refresh_key checked w1 = (q, w2)" for lease w1 w2 q
  proof (cases lease)
    case None
    then show ?thesis using actives_select(2) [OF sel] actives_leased [OF call] by (simp add: actives_drop_lease)
  next
    case (Some i)
    then have i: "i < length (actives w)" "actives w2 = (actives w)[i := usize_add (actives w ! i)]"
      using actives_select(3) [OF sel] actives_leased [OF call] by auto
    then have "actives w ! i < 2 ^ 64" using assms(2) by simp
    with i Some show ?thesis by (simp add: actives_drop_lease usize_sub_add)
  qed
  show ?thesis
    using assms(1) leased actives_select(1)
    by (auto simp: call_admitted_def Let_def split: prod.splits sum.splits if_splits)
qed

subsection \<open>Requests of the call\<close>

definition credentialed :: "rpc_message \<Rightarrow> bool" where
  "credentialed m \<longleftrightarrow> (\<exists>v. (''x-player-credential'', v) \<in> set (rm_headers m))"

definition versioned :: "rpc_message \<Rightarrow> bool" where
  "versioned m \<longleftrightarrow> (\<exists>v. (''x-master-version'', v) \<in> set (rm_headers m))"

definition sends :: "nat \<Rightarrow> world \<Rightarrow> world \<Rightarrow> bool" where
  \<comment> \<open>at most \<open>n\<close> more requests with credentials, each with a version\<close>
  "sends n w w' \<longleftrightarrow>
     (\<exists>ms. gw_sent w' = gw_sent w @ ms \<and> length (filter credentialed ms) \<le> n \<and>
        (\<forall>m \<in> set ms. credentialed m \<longrightarrow> versioned m))"

definition master :: "world \<Rightarrow> string option" where
  "master w = ob_master_version (cs_observation (gw_state w))"

lemma sends_same: "gw_sent w' = gw_sent w \<Longrightarrow> sends n w w'"
  by (simp add: sends_def)

lemma sends_trans:
  assumes "sends a w w1" "sends b w1 w2"
  shows "sends (a + b) w w2"
proof -
  obtain ms ms' where "gw_sent w1 = gw_sent w @ ms" "length (filter credentialed ms) \<le> a"
    "\<forall>m \<in> set ms. credentialed m \<longrightarrow> versioned m" "gw_sent w2 = gw_sent w1 @ ms'"
    "length (filter credentialed ms') \<le> b" "\<forall>m \<in> set ms'. credentialed m \<longrightarrow> versioned m"
    using assms by (auto simp: sends_def)
  then show ?thesis unfolding sends_def by (intro exI [of _ "ms @ ms'"]) auto
qed

lemma sends_mono: "sends a w w' \<Longrightarrow> a \<le> b \<Longrightarrow> sends b w w'"
  unfolding sends_def by (meson le_trans)

lemma sends_cong: "gw_sent w'' = gw_sent w' \<Longrightarrow> sends n w w' \<Longrightarrow> sends n w w''"
  by (simp add: sends_def)

lemma record_game_path_keeps [simp]:
  "gw_sent (record_game_path S source o1 w) = gw_sent w" "gw_state (record_game_path S source o1 w) = gw_state w"
  by (auto simp: record_game_path_def split: prod.splits option.splits)

lemma record_game_paths_keep [simp]:
  "gw_sent (fold (record_game_path S source) os w) = gw_sent w"
  "gw_state (fold (record_game_path S source) os w) = gw_state w"
  by (induction os arbitrary: w) simp_all

lemma request_credentialed:
  assumes "rpc_request L C P route input auth remaining request_id s = Ok m"
  shows "credentialed m \<longleftrightarrow> authenticated route \<and> auth \<noteq> None"
    "versioned m \<longleftrightarrow> sent_version s route \<noteq> None"
  using request_headers_spec [OF assms] by (auto simp: credentialed_def versioned_def)

lemma authenticated_sent_version:
  "authenticated route \<Longrightarrow> sent_version s route = ob_master_version (cs_observation s)"
  by (auto simp: sent_version_def authenticated_def route_defs)

lemma execute_once_message:
  assumes "execute_once L C P route input auth E s = (m, r)" "x \<in> set (list_of_option m)"
  shows "credentialed x \<longleftrightarrow> authenticated route \<and> auth \<noteq> None" "versioned x \<longleftrightarrow> sent_version s route \<noteq> None"
proof -
  have "rpc_request L C P route input auth (ev_remaining E) (ev_request_id E) s = Ok x"
    using assms by (cases m) (auto simp: execute_once_def split: sum.splits)
  from request_credentialed [OF this] show "credentialed x \<longleftrightarrow> authenticated route \<and> auth \<noteq> None"
    "versioned x \<longleftrightarrow> sent_version s route \<noteq> None" .
qed

lemma execute_once_version:
  assumes "execute_once L C P route input auth E s = (m, r)"
  shows "route \<noteq> VERSION \<Longrightarrow> ob_master_version (cs_observation (rr_state r)) = ob_master_version (cs_observation s)"
    "route = VERSION \<Longrightarrow> rr_result r = Ok v \<Longrightarrow> ob_master_version (cs_observation (rr_state r)) \<noteq> None"
proof -
  have "(\<exists>err. rr_result r = Err err \<and> rr_state r = s) \<or>
      (\<exists>sent resp. rpc_answer L C P (ev_now E) (ev_wall E) route auth sent resp s = r)"
    using assms by (auto simp: execute_once_def split: sum.splits if_splits)
  moreover note rpc_answer_version [where r = r]
  ultimately show "route \<noteq> VERSION \<Longrightarrow> ob_master_version (cs_observation (rr_state r)) = ob_master_version (cs_observation s)"
    "route = VERSION \<Longrightarrow> rr_result r = Ok v \<Longrightarrow> ob_master_version (cs_observation (rr_state r)) \<noteq> None"
    unfolding version_part_def by (metis prod.inject, metis option.distinct(1) Inl_Inr_False)
qed

lemma execute_once_keeps_version:
  assumes "execute_once L C P route input auth E s = (m, r)" "ob_master_version (cs_observation s) \<noteq> None"
  shows "ob_master_version (cs_observation (rr_state r)) \<noteq> None"
proof -
  have "(\<exists>err. rr_result r = Err err \<and> rr_state r = s) \<or>
      (\<exists>sent resp. rpc_answer L C P (ev_now E) (ev_wall E) route auth sent resp s = r)"
    using assms(1) by (auto simp: execute_once_def split: sum.splits if_splits)
  moreover have "(\<exists>err. rr_result r = Err err) \<or> (\<exists>v. rr_result r = Ok v)" by (cases "rr_result r") auto
  moreover note rpc_answer_version [where r = r]
  ultimately show ?thesis
    using assms(2) execute_once_version [OF assms(1)] unfolding version_part_def by (metis prod.inject)
qed

lemma execute_keeps_version:
  "ob_master_version (cs_observation s) \<noteq> None \<Longrightarrow>
   ob_master_version (cs_observation (rr_state (ex_result (execute L C P route input auth envs attempt s)))) \<noteq> None"
proof (induction L C P route input auth envs attempt s rule: execute.induct)
  case (1 L C P route input auth envs attempt s)
  obtain m r where once: "execute_once L C P route input auth (envs attempt) s = (m, r)" by fastforce
  note kept = execute_once_keeps_version [OF once 1(2)]
  show ?case
  proof (cases "attempt_limit C route \<le> attempt + 1 \<or> \<not> may_retry r")
    case True
    with once kept show ?thesis by (subst execute.simps) simp
  next
    case False
    with once 1(1) [OF once [symmetric] refl refl False kept] show ?thesis
      by (subst execute.simps) (simp add: Let_def)
  qed
qed

lemma execute_anonymous:
  "(\<forall>m \<in> set (ex_messages (execute L C P route input None envs attempt s)). \<not> credentialed m) \<and>
   (route = VERSION \<longrightarrow> is_ok (rr_result (ex_result (execute L C P route input None envs attempt s))) \<longrightarrow>
      ob_master_version (cs_observation (rr_state (ex_result (execute L C P route input None envs attempt s)))) \<noteq> None)"
proof (induction L C P route input "None :: auth option" envs attempt s rule: execute.induct)
  case (1 L C P route input envs attempt s)
  obtain m r where once: "execute_once L C P route input None (envs attempt) s = (m, r)" by fastforce
  have msg: "\<forall>x \<in> set (list_of_option m). \<not> credentialed x"
    using execute_once_message(1) [OF once] by blast
  have ver: "route = VERSION \<longrightarrow> is_ok (rr_result r) \<longrightarrow> ob_master_version (cs_observation (rr_state r)) \<noteq> None"
    using execute_once_version(2) [OF once] by (auto simp: is_ok_iff)
  let ?e = "execute L C P route input None envs attempt s"
  show ?case
  proof (cases "attempt_limit C route \<le> attempt + 1 \<or> \<not> may_retry r")
    case True
    then have eqs: "ex_messages ?e = list_of_option m" "ex_result ?e = r"
      using once by (subst execute.simps, simp)+
    show ?thesis unfolding eqs using msg ver by blast
  next
    case False
    let ?f = "execute L C P route input None envs (attempt + 1) (rr_state r)"
    have eqs: "ex_messages ?e = list_of_option m @ ex_messages ?f" "ex_result ?e = ex_result ?f"
      using once False by (subst execute.simps, simp add: Let_def)+
    show ?thesis unfolding eqs set_append using 1 [OF once [symmetric] refl refl False] msg by blast
  qed
qed

lemma run_once_sends:
  assumes "run_once L S route input auth E w = (r, w')"
  shows "authenticated route \<Longrightarrow> master w \<noteq> None \<Longrightarrow> sends 1 w w'" "\<not> authenticated route \<Longrightarrow> sends 0 w w'"
    "route \<noteq> VERSION \<Longrightarrow> master w' = master w"
proof -
  obtain m where once: "execute_once (pi_rpc L) (su_client S) (su_protocol S) route input auth E (gw_state w) = (m, r)"
    and sent: "gw_sent w' = gw_sent w @ list_of_option m" and st: "gw_state w' = rr_state r"
    using assms by (auto simp: run_once_def split: prod.splits)
  have msg: "x \<in> set (list_of_option m) \<Longrightarrow>
      (credentialed x \<longrightarrow> authenticated route) \<and> (authenticated route \<longrightarrow> master w \<noteq> None \<longrightarrow> versioned x)" for x
    using execute_once_message [OF once, of x] authenticated_sent_version [of route "gw_state w"]
    by (auto simp: master_def)
  have le: "length (filter credentialed (list_of_option m)) \<le> 1"
    using length_filter_le [of credentialed "list_of_option m"] length_list_of_option [of m] by linarith
  show "authenticated route \<Longrightarrow> master w \<noteq> None \<Longrightarrow> sends 1 w w'"
    unfolding sends_def using sent msg le by blast
  show "sends 0 w w'" if "\<not> authenticated route"
    unfolding sends_def using sent msg that by (intro exI [of _ "list_of_option m"]) (auto simp: filter_empty_conv)
  show "route \<noteq> VERSION \<Longrightarrow> master w' = master w"
    using execute_once_version(1) [OF once] st by (simp add: master_def)
qed

lemma run_anonymous_sends:
  assumes "run_anonymous L S route input envs w = (r, w')"
  shows "sends n w w'" "route = VERSION \<Longrightarrow> rr_result r = Ok v \<Longrightarrow> master w' \<noteq> None"
    "master w \<noteq> None \<Longrightarrow> master w' \<noteq> None"
proof -
  let ?e = "execute (pi_rpc L) (su_client S) (su_protocol S) route input None envs 0 (gw_state w)"
  note anonymous = execute_anonymous [of "pi_rpc L" "su_client S" "su_protocol S" route input envs 0 "gw_state w"]
  have w': "gw_sent w' = gw_sent w @ ex_messages ?e" "gw_state w' = rr_state (ex_result ?e)" "r = ex_result ?e"
    using assms by (auto simp: run_anonymous_def Let_def)
  have "filter credentialed (ex_messages ?e) = []" using anonymous by (simp add: filter_empty_conv)
  then show "sends n w w'" unfolding sends_def using w'(1) anonymous by (intro exI [of _ "ex_messages ?e"]) simp
  show "route = VERSION \<Longrightarrow> rr_result r = Ok v \<Longrightarrow> master w' \<noteq> None"
    unfolding master_def w' by (intro anonymous [THEN conjunct2, rule_format]) (auto simp: is_ok_iff)
  show "master w \<noteq> None \<Longrightarrow> master w' \<noteq> None"
    unfolding master_def w' by (rule execute_keeps_version)
qed

lemma put_keeps [simp]:
  "gw_sent (put_account i a sw w) = gw_sent w" "gw_state (put_account i a sw w) = gw_state w"
  "gw_sent (put_login i y w) = gw_sent w" "gw_state (put_login i y w) = gw_state w"
  by (simp_all add: put_account_def put_login_def)

lemma report_keeps [simp]:
  "gw_sent (report_lease L S E i result code w) = gw_sent w"
  "gw_state (report_lease L S E i result code w) = gw_state w"
  by (simp_all add: report_lease_def Let_def split: prod.splits)

lemma master_cong: "gw_state w' = gw_state w \<Longrightarrow> master w' = master w"
  by (simp add: master_def)

lemma login_not_authenticated: "\<not> authenticated PLAYER_LOGIN" "PLAYER_LOGIN \<noteq> VERSION"
  by (simp_all add: authenticated_def route_defs)

lemma login_account_sends:
  assumes "login_account L S E i w = (r, w')"
  shows "sends 0 w w' \<and> master w' = master w"
  using assms
proof (cases rule: login_account_cases)
  case (plain y)
  have "gw_sent w' = gw_sent w" "gw_state w' = gw_state w" unfolding plain(1) by simp_all
  then show ?thesis by (intro conjI sends_same master_cong)
next
  case (rpc y req auth q w2)
  note run = run_once_sends [OF rpc(2)]
  have "sends 0 (put_login i y w) w2" using run(2) login_not_authenticated by blast
  then have "sends 0 w w2" by (simp add: sends_def)
  moreover have "master w2 = master w"
    using run(3) login_not_authenticated master_cong [of "put_login i y w" w] by simp
  moreover have "gw_sent w' = gw_sent w2" "gw_state w' = gw_state w2" using rpc(3) by auto
  ultimately show ?thesis using sends_cong [of w' w2] master_cong [of w' w2] by simp
qed

lemma admit_keeps:
  assumes "admit_path now ticket w = (r, w')"
  shows "gw_sent w' = gw_sent w" "gw_state w' = gw_state w"
  using assms by (auto simp: admit_path_def split: option.splits)

lemma drop_keeps [simp]:
  "gw_sent (drop_path ticket w) = gw_sent w" "gw_state (drop_path ticket w) = gw_state w"
  "gw_sent (drop_lease lease w) = gw_sent w"
  by (auto simp: drop_path_def drop_lease_def split: option.splits)

lemma version_run:
  assumes "admit_path now None w = (q, w1)" "run_anonymous L S VERSION input envs w1 = (r, w2)"
  shows "sends 0 w w2" "rr_result r = Ok v \<Longrightarrow> master w2 \<noteq> None"
proof -
  have "sends 0 w1 w2" by (rule run_anonymous_sends(1) [OF assms(2)])
  then show "sends 0 w w2" using admit_keeps(1) [OF assms(1)] by (simp add: sends_def)
  show "rr_result r = Ok v \<Longrightarrow> master w2 \<noteq> None" using run_anonymous_sends(2) [OF assms(2)] by blast
qed

lemma ensure_version_sends:
  assumes "ensure_version L S E route w = (r, w')"
  shows "sends 0 w w'"
proof -
  obtain q w1 where adm: "admit_path (ce_now E AtVersion) None w = (q, w1)" by fastforce
  obtain r2 w2 where run: "run_anonymous L S VERSION (JObj []) (ce_version_rpc E) w1 = (r2, w2)" by fastforce
  have "gw_sent w' = gw_sent w \<or> gw_sent w' = gw_sent w2"
    using assms adm run admit_keeps(1) [OF adm]
    by (auto simp: ensure_version_def split: version_needs.splits sum.splits if_splits)
  then show ?thesis using sends_same sends_cong version_run(1) [OF adm run] by blast
qed

lemma ensure_version_master:
  assumes "ensure_version L S E route w = (Ok ticket, w')" "authenticated route"
  shows "master w' \<noteq> None"
proof -
  obtain q w1 where adm: "admit_path (ce_now E AtVersion) None w = (q, w1)" by fastforce
  obtain r2 w2 where run: "run_anonymous L S VERSION (JObj []) (ce_version_rpc E) w1 = (r2, w2)" by fastforce
  have route: "route \<noteq> VERSION" "route \<noteq> PLAYER_LOGIN" using assms(2) login_not_authenticated
    by (auto simp: authenticated_def route_defs)
  show ?thesis
  proof (cases "version_need S (ce_now E AtVersion) route (gw_state w)")
    case Required
    with assms(1) adm run obtain v where "rr_result r2 = Ok v" "w' = w2"
      by (auto simp: ensure_version_def split: sum.splits)
    then show ?thesis using version_run(2) [OF adm run] by blast
  next
    case Fresh
    with assms route have "master w \<noteq> None" "w' = w"
      by (auto simp: ensure_version_def version_need_def master_def Let_def split: if_splits)
    then show ?thesis by simp
  next
    case (Refresh wait)
    then have "master w \<noteq> None" using assms(2) route by (auto simp: version_need_def master_def Let_def split: if_splits)
    moreover have "master w1 = master w" by (rule master_cong [OF admit_keeps(2) [OF adm]])
    ultimately have "master w1 \<noteq> None" "master w2 \<noteq> None" using run_anonymous_sends(3) [OF run] by auto
    moreover have "master w' = master w \<or> master w' = master w1 \<or> master w' = master w2"
      using assms(1) adm run Refresh by (auto simp: ensure_version_def master_def split: sum.splits if_splits)
    ultimately show ?thesis using \<open>master w \<noteq> None\<close> by metis
  qed
qed

definition account_requests :: "client_setup \<Rightarrow> string \<Rightarrow> nat" where
  \<comment> \<open>the requests with credentials a call may send: the JP player data is read after an identity check\<close>
  "account_requests S route =
     (if \<not> authenticated route then 0
      else if route = PLAYER_DATA \<and> \<not> global_family (su_client S) then 2 else 1)"

lemma fetch_sends:
  assumes "fetch L S E route input lease auth w = (r, w')" "authenticated route \<Longrightarrow> master w \<noteq> None"
  shows "sends (account_requests S route) w w'"
proof (cases "authenticated route")
  case False
  then obtain q where "run_anonymous L S route input (ce_rpc E) w = (q, w')"
    using assms(1) by (auto simp: fetch_def split: prod.splits)
  then show ?thesis by (rule run_anonymous_sends(1))
next
  case True
  note m = assms(2) [OF True]
  have route: "route \<noteq> VERSION" "authenticated WHOAMI" "WHOAMI \<noteq> VERSION"
    using True by (auto simp: authenticated_def route_defs)
  have main: "sends 1 w1 w2" if "run_once L S route input auth E' w1 = (q, w2)" "master w1 \<noteq> None" for E' w1 q w2
    using run_once_sends(1) [OF that(1) True that(2)] .
  show ?thesis
  proof (cases "route = PLAYER_DATA \<and> \<not> global_family (su_client S)")
    case False
    obtain q w2 where run: "run_once L S route input auth (ce_rpc E 0) w = (q, w2)" by fastforce
    have "gw_sent w' = gw_sent w2"
      using assms(1) True False run by (auto simp: fetch_def Let_def split: option.splits)
    then have "sends 1 w w'" by (rule sends_cong) (rule main [OF run m])
    moreover have "account_requests S route = 1" using True False by (auto simp: account_requests_def)
    ultimately show ?thesis by simp
  next
    case id: True
    obtain q1 w1 where who: "run_once L S WHOAMI (JObj []) auth (ce_identity_rpc E) w = (q1, w1)" by fastforce
    have s1: "sends 1 w w1" and m1: "master w1 \<noteq> None"
      using run_once_sends(1) [OF who route(2) m] run_once_sends(3) [OF who route(3)] m by auto
    obtain q w2 where run: "run_once L S route input auth (ce_rpc E 0) w1 = (q, w2)" by fastforce
    have "gw_sent w' = gw_sent w1 \<or> gw_sent w' = gw_sent w2"
      using assms(1) True id who run by (auto simp: fetch_def Let_def split: option.splits sum.splits)
    moreover have "sends 2 w w2" using sends_trans [OF s1 main [OF run m1]] by (simp add: numeral_2_eq_2)
    moreover have "sends 2 w w1" using sends_mono [OF s1] by simp
    moreover have "account_requests S route = 2" using True id by (simp add: account_requests_def)
    ultimately show ?thesis using sends_cong by metis
  qed
qed

lemma cache_keeps:
  "read_cached_state L E st key route w = (c, w') \<Longrightarrow> gw_sent w' = gw_sent w \<and> gw_state w' = gw_state w"
  "read_cached L E st key route w = (v, w') \<Longrightarrow> gw_sent w' = gw_sent w \<and> gw_state w' = gw_state w"
  "gw_sent (spawn_refresh key route input name w) = gw_sent w" "gw_state (spawn_refresh key route input name w) = gw_state w"
  "store_response L S E route cache_key value w = (stored, w') \<Longrightarrow> gw_sent w' = gw_sent w \<and> gw_state w' = gw_state w"
  by (auto simp: read_cached_state_def read_cached_def spawn_refresh_def store_response_def Let_def
      split: prod.splits if_splits option.splits)

lemma admit_stage_keeps:
  assumes "admit_stage S E route lease ticket w = (a, w')"
  shows "gw_sent w' = gw_sent w" "gw_state w' = gw_state w"
  using assms admit_keeps by (auto simp: admit_stage_def split: if_splits)

lemma auth_stage_sends:
  "auth_stage L S E route lease w = (b, w') \<Longrightarrow> sends 0 w w' \<and> master w' = master w"
  by (auto simp: auth_stage_def sends_same dest: login_account_sends split: option.splits if_splits prod.splits)

lemma dispatch_cases:
  assumes "dispatch L S E route input lease cache_key ticket w = (r, ticket1, w')"
  obtains (refused) a where "admit_stage S E route lease ticket w = (a, w')"
  | (unauthorized) t b w1 where "admit_stage S E route lease ticket w = (Ok t, w1)" "auth_stage L S E route lease w1 = (b, w')"
  | (fetched) t auth w1 w2 q w3 where "admit_stage S E route lease ticket w = (Ok t, w1)"
      "auth_stage L S E route lease w1 = (Ok auth, w2)" "fetch L S E route input lease auth w2 = (q, w3)"
      "w' = w3 \<and> is_ok r = is_ok q \<or> (\<exists>v. q = Ok v \<and> (r, w') = map_prod Ok id (store_response L S E route cache_key v w3))"
      "\<not> identity_only S route"
  using assms by (auto simp: dispatch_def split: prod.splits sum.splits if_splits)

lemma dispatch_sends:
  assumes "dispatch L S E route input lease cache_key ticket w = (r, ticket1, w')"
    and "authenticated route \<Longrightarrow> \<not> identity_only S route \<Longrightarrow> master w \<noteq> None"
  shows "sends (account_requests S route) w w'"
  using assms(1)
proof (cases rule: dispatch_cases)
  case (refused a)
  then show ?thesis using admit_stage_keeps(1) sends_same by blast
next
  case (unauthorized t b w1)
  have "sends 0 w1 w'" using auth_stage_sends [OF unauthorized(2)] by blast
  then have "sends 0 w w'" using admit_stage_keeps(1) [OF unauthorized(1)] by (simp add: sends_def)
  then show ?thesis by (rule sends_mono) simp
next
  case (fetched t auth w1 w2 q w3)
  have "sends 0 w w2" "master w2 = master w"
    using auth_stage_sends [OF fetched(2)] admit_stage_keeps [OF fetched(1)] by (auto simp: sends_def master_def)
  with sends_trans [OF this(1) fetch_sends [OF fetched(3)]] assms(2) fetched(5) have "sends (account_requests S route) w w3" by simp
  moreover have "gw_sent w' = gw_sent w3"
    using fetched(4)
  proof (elim disjE conjE exE)
    fix v assume stored: "(r, w') = map_prod Ok id (store_response L S E route cache_key v w3)"
    then have "store_response L S E route cache_key v w3 = (fst (store_response L S E route cache_key v w3), w')"
      by (cases "store_response L S E route cache_key v w3") simp
    then show ?thesis using cache_keeps(5) by blast
  qed simp
  ultimately show ?thesis using sends_cong by blast
qed

definition untouched :: "world \<Rightarrow> world \<Rightarrow> bool" where
  "untouched w w' \<longleftrightarrow> gw_sent w' = gw_sent w \<and> gw_logins w' = gw_logins w \<and> gw_path w' = gw_path w \<and> gw_state w' = gw_state w"

lemma untouched_cache:
  "read_cached_state L E st key route w = (c, w') \<Longrightarrow>
     untouched w w' \<and> (c = Some x \<longrightarrow> (\<exists>v. ca_value x = strip_account_fields route v))"
  "read_cached L E st key route w = (u, w') \<Longrightarrow> untouched w w' \<and> (u = Some z \<longrightarrow> (\<exists>v. z = strip_account_fields route v))"
  "untouched w (spawn_refresh key route input name w)"
  by (auto simp: untouched_def read_cached_state_def read_cached_def spawn_refresh_def Let_def
      split: prod.splits if_splits option.splits)

lemma untouched_trans: "untouched w w1 \<Longrightarrow> untouched w1 w2 \<Longrightarrow> untouched w w2"
  by (simp add: untouched_def)

lemma untouched_first_read:
  assumes "first_read L E route input account refresh_key checked k w = (u, w')"
  shows "untouched w w' \<and> (u = Some z \<longrightarrow> (\<exists>v. z = strip_account_fields route v))"
proof -
  obtain c w1 where c: "read_cached_state L E AtRead k route w = (c, w1)" by fastforce
  have "untouched w (spawn_refresh k route input name w1)" for name
    using untouched_trans [of w w1] untouched_cache(1) [OF c] untouched_cache(3) by blast
  moreover have "untouched w w" by (simp add: untouched_def)
  ultimately show ?thesis
    using assms c untouched_cache(1) [OF c] untouched_cache(2) [of L E AtRead k route w u w']
    by (cases c) (auto simp: first_read_def split: if_splits)
qed

lemma with_cache_cases:
  assumes "with_cache L S E route input lease refresh_key checked ticket w = (r, ticket1, w')"
  obtains (stopped) err where "r = Err err" "ticket1 = ticket" "untouched w w'"
  | (hit) v where "r = Ok (strip_account_fields route v)" "ticket1 = ticket" "untouched w w'"
  | (missed) key w2 where "untouched w w2" "dispatch L S E route input lease key ticket w2 = (r, ticket1, w')"
proof -
  define key where "key = response_cache_key L S route input (map_option (leased w) lease) w"
  obtain hit w1 where h1: "(case key of None \<Rightarrow> (None, w)
      | Some k \<Rightarrow> first_read L E route input (map_option (leased w) lease) refresh_key checked k w) = (hit, w1)"
    by (metis surj_pair)
  have p1: "untouched w w1 \<and> (hit = Some z \<longrightarrow> (\<exists>v. z = strip_account_fields route v))" for z
  proof (cases key)
    case (Some k)
    then show ?thesis using untouched_first_read h1 by simp
  qed (use h1 in \<open>simp add: untouched_def\<close>)
  obtain hit2 w2 where h2: "(if hit \<noteq> None then (hit, w1)
      else case key of None \<Rightarrow> (None, w1) | Some k \<Rightarrow> read_cached L E AtFill k route w1) = (hit2, w2)" by (metis surj_pair)
  have p2: "untouched w w2" "\<And>z. hit2 = Some z \<Longrightarrow> \<exists>v. z = strip_account_fields route v"
    using h2 p1 untouched_cache(2) [of L E AtFill _ route w1 hit2 w2] untouched_trans [of w w1 w2]
    by (auto split: option.splits if_splits)
  show ?thesis
  proof (cases "refresh_key \<noteq> None \<and> key \<noteq> refresh_key")
    case True
    then show ?thesis using assms stopped [of ProtocolDefinition]
      by (simp add: with_cache_def Let_def key_def [symmetric] untouched_def)
  next
    case False
    note eq = assms [unfolded with_cache_def Let_def key_def [symmetric] if_not_P [OF False] h1 split h2]
    show ?thesis
    proof (cases hit2)
      case (Some z)
      with p2(2) obtain v where "z = strip_account_fields route v" by blast
      then show ?thesis using eq Some hit [of v] p2(1) by simp
    next
      case None
      then show ?thesis using eq stopped missed p2(1) by (auto split: sum.splits if_splits)
    qed
  qed
qed

lemma with_cache_sends:
  assumes "with_cache L S E route input lease refresh_key checked ticket w = (r, ticket1, w')"
    and "authenticated route \<Longrightarrow> \<not> identity_only S route \<Longrightarrow> master w \<noteq> None"
  shows "sends (account_requests S route) w w'"
  using assms(1)
proof (cases rule: with_cache_cases)
  case (missed key w2)
  have "sends (account_requests S route) w2 w'"
    using dispatch_sends [OF missed(2)] assms(2) missed(1) by (simp add: master_def untouched_def)
  then show ?thesis using missed(1) by (simp add: sends_def untouched_def)
qed (auto simp: untouched_def intro: sends_same)

lemma call_leased_sends:
  assumes "call_leased L S E route input lease refresh_key checked w = (r, w')"
  shows "sends (account_requests S route) w w'"
proof -
  obtain v w1 where version: "(if identity_only S route then (Ok None, w) else ensure_version L S E route w) = (v, w1)"
    by fastforce
  have s1: "sends 0 w w1" using version ensure_version_sends by (auto simp: sends_same split: if_splits)
  show ?thesis
  proof (cases v)
    case (Inl err)
    then have "w' = w1" using assms version by (simp add: call_leased_def)
    then show ?thesis using sends_mono [OF s1] by simp
  next
    case (Inr ticket)
    have m: "master w1 \<noteq> None" if "authenticated route" "\<not> identity_only S route"
      using version that Inr ensure_version_master by simp
    obtain q t w2 where c: "with_cache L S E route input lease refresh_key checked ticket w1 = (q, t, w2)"
      by (metis surj_pair)
    have "gw_sent w' = gw_sent w2" using assms version Inr c by (auto simp: call_leased_def)
    moreover have "sends (account_requests S route) w w2" using sends_trans [OF s1 with_cache_sends [OF c m]] by simp
    ultimately show ?thesis by (rule sends_cong)
  qed
qed

lemma note_keeps [simp]: "gw_sent (note_failure E r w) = gw_sent w"
  by (simp add: note_failure_def)

lemma select_keeps:
  "select_lease E route name expected w = (r, w') \<Longrightarrow>
   gw_sent w' = gw_sent w \<and> gw_logins w' = gw_logins w \<and> gw_path w' = gw_path w \<and> gw_state w' = gw_state w"
  by (auto simp: select_lease_def split: prod.splits sum.splits if_splits)

lemma call_admitted_cases:
  assumes "call_admitted L S E route input name refresh_key expected checked w = (r, w')"
  obtains (stopped) w1 where "\<not> is_ok r" "w1 = w \<or> (\<exists>err. select_lease E route name expected w = (Err err, w1))"
      "w' = w1 \<or> w' = note_failure E r w1"
  | (leased) lease w1 q w2 where "select_lease E route name expected w = (Ok lease, w1)"
      "call_leased L S E route input lease refresh_key checked w1 = (q, w2)" "r = q \<or> \<not> is_ok q \<and> \<not> is_ok r"
      "w' = drop_lease lease w2 \<or> w' = note_failure E r (drop_lease lease w2)"
proof -
  obtain sel w1 where sel: "select_lease E route name expected w = (sel, w1)" by fastforce
  show ?thesis
  proof (cases sel)
    case (Inl err)
    with assms sel have "\<not> is_ok r \<and> (w' = w \<or> w' = note_failure E r w \<or> w' = w1 \<or> w' = note_failure E r w1)"
      by (auto simp: call_admitted_def Let_def split: sum.splits if_splits)
    then show ?thesis using stopped sel Inl by blast
  next
    case (Inr lease)
    obtain q w2 where call: "call_leased L S E route input lease refresh_key checked w1 = (q, w2)" by fastforce
    from assms sel Inr call have "\<not> is_ok r \<and> (w' = w \<or> w' = note_failure E r w) \<or>
        (r = q \<or> \<not> is_ok q \<and> \<not> is_ok r) \<and> (w' = drop_lease lease w2 \<or> w' = note_failure E r (drop_lease lease w2))"
      by (auto simp: call_admitted_def Let_def split: sum.splits if_splits)
    then show ?thesis using stopped leased sel Inr call by blast
  qed
qed

lemma call_admitted_sends:
  assumes "call_admitted L S E route input name refresh_key expected checked w = (r, w')"
  shows "sends (account_requests S route) w w'"
  using assms
proof (cases rule: call_admitted_cases)
  case (stopped w1)
  have "gw_sent w1 = gw_sent w" using stopped(2) select_keeps by blast
  then show ?thesis using stopped(3) by (auto intro: sends_same)
next
  case (leased lease w1 q w2)
  have "gw_sent w1 = gw_sent w" "gw_sent w' = gw_sent w2"
    using leased(4) select_keeps [OF leased(1)] by auto
  then show ?thesis using call_leased_sends [OF leased(2)] by (simp add: sends_def)
qed

lemma precheck_keeps:
  assumes "cached_before_admission L S E route input expected w = (pre, w')"
  shows "w' = w\<lparr>gw_cache := gw_cache w', gw_refreshing := gw_refreshing w'\<rparr>"
  using assms
  by (auto simp: cached_before_admission_def retained_while_quarantined_def spawn_refresh_def Let_def
      split: prod.splits option.splits if_splits)

lemma call_selected_cases:
  assumes "call_selected L S E route input name refresh_key expected w = (r, w')"
  obtains (refused) err where "r = Err err" "w' = w"
  | (hit) v where "cached_before_admission L S E route input expected w = (Hit v, w')" "r = Ok v"
      "name = None" "refresh_key = None"
  | (called) w1 checked q where "w1 = w\<lparr>gw_cache := gw_cache w1, gw_refreshing := gw_refreshing w1\<rparr>"
      "call_admitted L S E route input name refresh_key expected checked w1 = (q, w')"
      "r = (if name = None \<and> refresh_key = None \<and> coalesces (uc_coalesce_public_reads (cc_upstream (su_client S))) route
            then map_sum id (strip_account_fields route) q else q)"
proof -
  obtain pre w1 where pre: "(if name = None \<and> refresh_key = None \<and> \<not> identity_only S route
      then cached_before_admission L S E route input expected w else (Skipped, w)) = (pre, w1)" by fastforce
  have keeps: "w1 = w\<lparr>gw_cache := gw_cache w1, gw_refreshing := gw_refreshing w1\<rparr>"
    using pre precheck_keeps by (auto split: if_splits)
  show ?thesis
  proof (cases "route \<notin> set ROUTES \<and> route \<noteq> SERVER_LIST \<or>
      \<not> identity_only S route \<and> route \<notin> set (for_family (region_family (cc_region (su_client S))))")
    case True
    then have "\<exists>err. r = Err err" "w' = w" using assms by (auto simp: call_selected_def split: if_splits)
    then show ?thesis using refused by blast
  next
    case False
    note eq = assms [unfolded call_selected_def Let_def pre]
    show ?thesis
    proof (cases "\<exists>v. pre = Hit v")
      case True
      then show ?thesis using eq False pre hit by (auto split: if_splits)
    next
      case miss: False
      then show ?thesis using eq False called [OF keeps] by (cases pre) (auto split: prod.splits)
    qed
  qed
qed

subsection \<open>A path that is open\<close>

definition closed_to :: "call_env \<Rightarrow> world \<Rightarrow> bool" where
  "closed_to E w \<longleftrightarrow> path_admit (ce_now E AtVersion) (gw_path w) = None \<and> path_admit (ce_now E AtAdmit) (gw_path w) = None"

lemma untouched_closed: "untouched w w1 \<Longrightarrow> closed_to E w \<Longrightarrow> closed_to E w1"
  by (simp add: untouched_def closed_to_def)

lemma untouched_version:
  assumes "ensure_version L S E route w = (r, w')" "closed_to E w"
  shows "w' = w" "r = Ok ticket \<Longrightarrow> ticket = None"
  using assms by (auto simp: ensure_version_def admit_path_def closed_to_def split: version_needs.splits if_splits)

lemma login_with_session:
  assumes "account_auth_headers (leased w i) = Some a"
  shows "\<exists>w'. login_account L S E i w = (Ok a, w') \<and> untouched w w'"
proof -
  let ?login = "case lc_login (su_login S) of None \<Rightarrow> login_config_default | Some l \<Rightarrow> l"
  let ?y = "auth_prepare (su_login S) ?login (signal_at L E AtAuth) (ce_lock E) (ce_sdk_late E) (ce_sdk_outcome E) (login_sys_of E i w)"
  have y: "ly_auth ?y = AuthDone (Ok a)" "ly_log ?y = gw_logins w"
    using assms by (simp_all add: auth_prepare_def auth_begin_def login_sys_of_def auth_return_def Let_def)
  then have "login_account L S E i w = (Ok a, put_login i ?y w)" by (simp add: login_account_def Let_def)
  moreover have "untouched w (put_login i ?y w)" using y(2) by (simp add: untouched_def put_login_def put_account_def)
  ultimately show ?thesis by blast
qed

lemma untouched_dispatch:
  assumes "dispatch L S E route input lease key None w = (r, ticket, w')" "closed_to E w"
  shows "untouched w w'" "ticket = None"
proof -
  have "untouched w w' \<and> ticket = None"
  proof (cases "identity_only S route \<and> (case lease of None \<Rightarrow> False | Some i \<Rightarrow> account_auth_headers (leased w i) \<noteq> None)")
    case True
    then obtain i a where i: "lease = Some i" "account_auth_headers (leased w i) = Some a"
      by (auto split: option.splits)
    then obtain w1 where "login_account L S E i w = (Ok a, w1)" "untouched w w1" using login_with_session by blast
    moreover have "authenticated route" using True by (simp add: identity_only_def authenticated_def)
    ultimately show ?thesis
      using assms(1) True i by (auto simp: dispatch_def admit_stage_def auth_stage_def)
  next
    case False
    then show ?thesis
      using assms by (auto simp: dispatch_def admit_stage_def admit_path_def closed_to_def untouched_def)
  qed
  then show "untouched w w'" "ticket = None" by blast+
qed

lemma untouched_leased:
  assumes "call_leased L S E route input lease refresh_key checked w = (r, w')" "closed_to E w"
  shows "untouched w w'"
proof -
  obtain v w1 where version: "(if identity_only S route then (Ok None, w) else ensure_version L S E route w) = (v, w1)"
    by fastforce
  then have w1: "w1 = w" "\<And>t. v = Ok t \<Longrightarrow> t = None"
    using untouched_version assms(2) by (auto split: if_splits)
  show ?thesis
  proof (cases v)
    case (Inl err)
    then show ?thesis using assms(1) version w1 by (simp add: call_leased_def untouched_def)
  next
    case (Inr t)
    obtain q t1 w2 where c: "with_cache L S E route input lease refresh_key checked None w = (q, t1, w2)"
      by (metis surj_pair)
    have w': "w' = drop_path t1 w2" using assms(1) version Inr w1 c by (simp add: call_leased_def)
    from c have "untouched w w2 \<and> t1 = None"
    proof (cases rule: with_cache_cases)
      case (missed key w3)
      note d = untouched_dispatch [OF missed(2) untouched_closed [OF missed(1) assms(2)]]
      then show ?thesis using untouched_trans [OF missed(1)] by blast
    qed auto
    then show ?thesis unfolding w' by (simp add: drop_path_def)
  qed
qed

text \<open>While the path to the game servers is open (\<open>PathHealth\<close> refuses the call at the stages where it asks),
  a call sends no RPC and begins no login, whatever the route, the account and the cache: it is answered from
  the cache, from an established identity, or with an error.\<close>

theorem open_path_sends_nothing:
  assumes "path_admit (ce_now E AtVersion) (gw_path w) = None" "path_admit (ce_now E AtAdmit) (gw_path w) = None"
    and "call_selected L S E route input name refresh_key expected w = (r, w')"
  shows "gw_sent w' = gw_sent w \<and> gw_logins w' = gw_logins w"
  using assms(3)
proof (cases rule: call_selected_cases)
  case (refused err)
  then show ?thesis by simp
next
  case (hit v)
  show ?thesis by (subst (1 2) precheck_keeps [OF hit(1)]) simp
next
  case (called w1 checked q)
  have w1: "closed_to E w1" "gw_sent w1 = gw_sent w" "gw_logins w1 = gw_logins w"
    by (subst called(1), simp add: closed_to_def assms)+
  from called(2) have "gw_sent w' = gw_sent w1 \<and> gw_logins w' = gw_logins w1"
  proof (cases rule: call_admitted_cases)
    case (stopped w2)
    then show ?thesis using select_keeps by (fastforce simp: note_failure_def)
  next
    case (leased lease w2 q w3)
    have "closed_to E w2" using w1(1) select_keeps [OF leased(1)] by (simp add: closed_to_def)
    with untouched_leased [OF leased(2)] select_keeps [OF leased(1)] leased(4) show ?thesis
      by (auto simp: untouched_def note_failure_def drop_lease_def split: option.splits)
  qed
  with w1 show ?thesis by simp
qed

text \<open>C2: a logical call sends at most one request with an account's credentials, two when it reads the player
  data of JP (the identity check comes first) and none for an anonymous route, and every one of them carries the
  version header: without a version the call fails before it. Nothing that was sent is taken back.\<close>

theorem account_requests_are_bounded_and_versioned:
  "sends (account_requests S route) w (snd (call_selected L S E route input name refresh_key expected w))"
proof -
  obtain r w' where c: "call_selected L S E route input name refresh_key expected w = (r, w')" by fastforce
  then have "sends (account_requests S route) w w'"
  proof (cases rule: call_selected_cases)
    case (refused err)
    then show ?thesis by (simp add: sends_same)
  next
    case (hit v)
    show ?thesis by (rule sends_same, subst precheck_keeps [OF hit(1)]) simp
  next
    case (called w1 checked q)
    have "gw_sent w1 = gw_sent w" by (subst called(1)) simp
    with call_admitted_sends [OF called(2)] show ?thesis by (simp add: sends_def)
  qed
  then show ?thesis by (simp add: c)
qed

text \<open>C31: a call gives back the lease it took: afterwards every account has as many active calls as before,
  on every branch, errors and timeouts included.\<close>

theorem calls_return_their_lease:
  assumes "\<forall>a \<in> set (po_entries (gw_pool w)). ac_active a < 2 ^ 64"
  shows "map ac_active (po_entries (gw_pool (snd (call_selected L S E route input name refresh_key expected w)))) =
    map ac_active (po_entries (gw_pool w))"
proof -
  obtain r w' where c: "call_selected L S E route input name refresh_key expected w = (r, w')" by fastforce
  have "actives w' = actives w"
    using c
  proof (cases rule: call_selected_cases)
    case (called w1 checked q)
    have "actives w1 = actives w" by (subst called(1)) (simp add: actives_def)
    moreover have "\<forall>n \<in> set (actives w). n < 2 ^ 64" using assms by (simp add: actives_def)
    ultimately show ?thesis using actives_admitted [OF called(2)] by simp
  qed (auto dest: actives_precheck)
  then show ?thesis by (simp add: c actives_def)
qed

subsection \<open>What callers share\<close>

lemma strip_no_account_fields:
  assumes "route = MUSIC_RANKING \<or> route = CHALLENGE_RANKING" "k = ''myRank'' \<or> k = ''myScore''"
  shows "json_get (strip_account_fields route v) k = None"
  using assms by (simp add: strip_account_fields_get)

lemma fetch_ok_sends:
  assumes "fetch L S E route input lease auth w = (Ok v, w')" "authenticated route" "route \<noteq> PLAYER_DATA"
  shows "length (gw_sent w) < length (gw_sent w')"
proof -
  obtain r w2 where run: "run_once L S route input auth (ce_rpc E 0) w = (r, w2)" by fastforce
  have w': "gw_sent w' = gw_sent w2" and ok: "is_ok (rr_result r)"
    using assms run by (auto simp: fetch_def Let_def is_ok_def split: option.splits if_splits)
  obtain m q where once: "execute_once (pi_rpc L) (su_client S) (su_protocol S) route input auth (ce_rpc E 0) (gw_state w) = (m, q)"
    by fastforce
  with run have q: "q = r" "gw_sent w2 = gw_sent w @ list_of_option m" by (auto simp: run_once_def)
  with once ok have "m \<noteq> None" by (auto simp: execute_once_def split: sum.splits)
  then show ?thesis using w' q by (cases m) auto
qed

lemma sends_length: "sends n w w' \<Longrightarrow> length (gw_sent w) \<le> length (gw_sent w')"
  by (auto simp: sends_def)

lemma dispatch_ok_sends:
  assumes "dispatch L S E route input lease key ticket w = (Ok v, t, w')" "authenticated route" "route \<noteq> PLAYER_DATA"
    and "\<not> identity_only S route"
  shows "length (gw_sent w) < length (gw_sent w')"
proof -
  obtain a w1 where a: "admit_stage S E route lease ticket w = (a, w1)" by fastforce
  obtain b w2 where b: "auth_stage L S E route lease w1 = (b, w2)" by fastforce
  have "length (gw_sent w) \<le> length (gw_sent w2)"
    using admit_stage_keeps(1) [OF a] auth_stage_sends [OF b] sends_length [of 0 w1 w2] by simp
  moreover obtain auth q w3 where f: "fetch L S E route input lease auth w2 = (Ok q, w3)"
    and st: "snd (store_response L S E route key q w3) = w'"
    using assms(1,4) a b by (auto simp: dispatch_def split: sum.splits prod.splits)
  moreover have "gw_sent w' = gw_sent w3"
    using cache_keeps(5) [of L S E route key q w3 "fst (store_response L S E route key q w3)" w'] st
    by (metis prod.collapse)
  ultimately show ?thesis using fetch_ok_sends [OF f assms(2,3)] by simp
qed

lemma leased_ok_stripped:
  assumes "call_leased L S E route input lease refresh_key checked w = (Ok v, w')" "gw_sent w' = gw_sent w"
    and "authenticated route" "route \<noteq> PLAYER_DATA" "\<not> identity_only S route"
  shows "\<exists>u. v = strip_account_fields route u"
proof -
  obtain t w1 where version: "ensure_version L S E route w = (Ok t, w1)"
    using assms(1,5) by (auto simp: call_leased_def split: prod.splits sum.splits)
  obtain t1 w2 where c: "with_cache L S E route input lease refresh_key checked t w1 = (Ok v, t1, w2)"
    and w': "w' = drop_path t1 w2"
    using assms(1,5) version by (auto simp: call_leased_def split: prod.splits)
  have le: "length (gw_sent w) \<le> length (gw_sent w1)" using sends_length [OF ensure_version_sends [OF version]] .
  from c show ?thesis
  proof (cases rule: with_cache_cases)
    case (missed key w3)
    have "length (gw_sent w3) < length (gw_sent w2)" by (rule dispatch_ok_sends [OF missed(2) assms(3-5)])
    then show ?thesis using le missed(1) assms(2) by (simp add: untouched_def w')
  qed auto
qed

lemma call_selected_shared:
  assumes "call_selected L S E route input None None expected w = (Ok v, w')"
    and "authenticated route" "route \<noteq> PLAYER_DATA" "\<not> identity_only S route"
    and "coalesces (uc_coalesce_public_reads (cc_upstream (su_client S))) route \<or> gw_sent w' = gw_sent w"
  shows "\<exists>u. v = strip_account_fields route u"
  using assms(1)
proof (cases rule: call_selected_cases)
  case (hit u)
  then show ?thesis
    by (auto simp: cached_before_admission_def retained_while_quarantined_def Let_def
        split: prod.splits option.splits if_splits)
next
  case (called w1 checked q)
  show ?thesis
  proof (cases "coalesces (uc_coalesce_public_reads (cc_upstream (su_client S))) route")
    case True
    then show ?thesis using called(3) by (cases q) auto
  next
    case False
    then have q: "q = Ok v" and same: "gw_sent w' = gw_sent w1" using called(3) assms(5) by (auto, subst called(1), simp)
    from called(2) show ?thesis
    proof (cases rule: call_admitted_cases)
      case (leased lease w2 q' w3)
      then have "gw_sent w3 = gw_sent w2" "q' = Ok v" using select_keeps [OF leased(1)] same q by auto
      then show ?thesis using leased_ok_stripped leased(2) assms(2-4) by blast
    qed (simp add: q)
  qed
qed auto

text \<open>C29: the rankings carry the rank and the score of the account that read them. No caller gets them in an
  answer it shares with others: not one of a coalesced read, and not one that was answered without a request
  (from the cache, on a hit before or after admission).\<close>

theorem shared_answers_carry_no_account_fields:
  assumes "call_selected L S E route input None None expected w = (Ok v, w')"
    and "route = MUSIC_RANKING \<or> route = CHALLENGE_RANKING"
    and "uc_coalesce_public_reads (cc_upstream (su_client S)) \<or> gw_sent w' = gw_sent w"
  shows "json_get v ''myRank'' = None \<and> json_get v ''myScore'' = None"
proof -
  have "authenticated route" "route \<noteq> PLAYER_DATA" "\<not> identity_only S route"
    "uc_coalesce_public_reads (cc_upstream (su_client S)) \<Longrightarrow> coalesces (uc_coalesce_public_reads (cc_upstream (su_client S))) route"
    using assms(2) by (auto simp: authenticated_def identity_only_def coalesces_def route_defs)
  with call_selected_shared [OF assms(1)] assms(3) obtain u where "v = strip_account_fields route u" by blast
  with assms(2) show ?thesis by (simp add: strip_no_account_fields)
qed

subsection \<open>Calls are answered\<close>

lemma fetch_answers:
  assumes "authenticated route" "route \<noteq> PLAYER_DATA"
    and "execute_once (pi_rpc L) (su_client S) (su_protocol S) route input auth (ce_rpc E 0) (gw_state w) = (Some m, q)"
    and "rr_result q = Ok v"
  shows "\<exists>w'. fetch L S E route input lease auth w = (Ok v, w') \<and> gw_sent w' = gw_sent w @ [m]"
  using assms
  by (cases lease) (auto simp: fetch_def run_once_def target_not_found_def Let_def)

lemma call_leased_answers:
  assumes route: "authenticated route" "route \<noteq> PLAYER_DATA" "\<not> identity_only S route"
    and off: "su_memory S = None" and guard: "ce_guard E = Ok ()"
    and fresh: "version_need S (ce_now E AtVersion) route (gw_state w) = Fresh"
    and path: "path_admit (ce_now E AtAdmit) (gw_path w) = Some (probe, p)"
    and account: "account_available (ce_now E AtAdmit) (leased w i)" "account_auth_headers (leased w i) = Some auth"
    and rpc: "execute_once (pi_rpc L) (su_client S) (su_protocol S) route input (Some auth) (ce_rpc E 0) (gw_state w) = (Some m, q)"
      "rr_result q = Ok v"
  shows "\<exists>w'. call_leased L S E route input (Some i) None checked w = (Ok v, w') \<and> gw_sent w' = gw_sent w @ [m]"
proof -
  have key: "response_cache_key L S route input a w = None" for a
    by (simp add: response_cache_key_def su_ttl_def off)
  let ?w = "w\<lparr>gw_path := p\<rparr>"
  have "account_auth_headers (leased ?w i) = Some auth" using account(2) by (simp add: leased_def)
  then obtain w1 where login: "login_account L S E i ?w = (Ok auth, w1)" "untouched ?w w1"
    using login_with_session by blast
  then have "gw_state w1 = gw_state w" "gw_sent w1 = gw_sent w" by (simp_all add: untouched_def)
  then obtain w2 where f: "fetch L S E route input (Some i) (Some auth) w1 = (Ok v, w2)" "gw_sent w2 = gw_sent w @ [m]"
    using fetch_answers [OF route(1,2), of L S input "Some auth" E w1 m q v "Some i"] rpc by auto
  have "dispatch L S E route input (Some i) None None w = (Ok v, Some probe, w2)"
    using path login(1) f(1) route
    by (simp add: dispatch_def admit_stage_def auth_stage_def admit_path_def store_response_def)
  then have "with_cache L S E route input (Some i) None checked None w = (Ok v, Some probe, w2)"
    using key guard account(1) by (simp add: with_cache_def)
  moreover have "ensure_version L S E route w = (Ok None, w)" using fresh by (simp add: ensure_version_def)
  ultimately show ?thesis using route(3) f(2) by (simp add: call_leased_def)
qed

lemma call_selected_answers:
  assumes route: "authenticated route" "route \<noteq> PLAYER_DATA" "\<not> identity_only S route" "route \<in> set ROUTES"
      "route \<in> set (for_family (region_family (cc_region (su_client S))))"
    and off: "su_memory S = None" and free: "ce_permit E = Ok ()" "ce_barrier E = Ok ()" "ce_guard E = Ok ()"
    and fresh: "version_need S (ce_now E AtVersion) route (gw_state w) = Fresh"
    and path: "path_admit (ce_now E AtAdmit) (gw_path w) = Some (probe, p)"
    and lease: "pool_select (ce_now E AtSelect) None (route = WHOAMI) (gw_pool w) = (Ok i, pool)"
    and account: "account_available (ce_now E AtAdmit) (po_entries pool ! i)" "account_auth_headers (po_entries pool ! i) = Some auth"
    and rpc: "execute_once (pi_rpc L) (su_client S) (su_protocol S) route input (Some auth) (ce_rpc E 0) (gw_state w) = (Some m, q)"
      "rr_result q = Ok v"
  shows "\<exists>w'. call_selected L S E route input None None None w =
      (Ok (if coalesces (uc_coalesce_public_reads (cc_upstream (su_client S))) route
           then strip_account_fields route v else v), w') \<and> gw_sent w' = gw_sent w @ [m]"
proof -
  let ?w = "w\<lparr>gw_pool := pool\<rparr>"
  have pre: "cached_before_admission L S E route input None w = (Skipped, w)"
    using off by (simp add: cached_before_admission_def su_ttl_def)
  have sel: "select_lease E route None None w = (Ok (Some i), ?w)" using route(1,2) lease by (simp add: select_lease_def)
  obtain w2 where "call_leased L S E route input (Some i) None None ?w = (Ok v, w2)" "gw_sent w2 = gw_sent w @ [m]"
    using call_leased_answers [OF route(1-3) off free(3), of ?w probe p i auth L input m q v None]
      fresh path account rpc by (auto simp: leased_def)
  then have "call_admitted L S E route input None None None None w = (Ok v, drop_lease (Some i) w2)"
    using free sel by (simp add: call_admitted_def note_failure_def)
  then show ?thesis
    using pre route \<open>gw_sent w2 = _\<close> by (simp add: call_selected_def)
qed


subsection \<open>Witnesses\<close>

definition sample_ranking :: json where
  "sample_ranking = JObj [(''ranking'', JArr []), (''myRank'', JStr ''3'')]"

definition sample_setup :: client_setup where
  "sample_setup =
     \<lparr>su_client = sample_config\<lparr>cc_upstream := upstream_default\<lparr>uc_coalesce_public_reads := True\<rparr>\<rparr>, su_memory = None,
      su_policy = pool_policy_default, su_path = path_new pool_policy_default True, su_login = sample_login_client,
      su_protocol = sample_bundle\<lparr>pb_decode := \<lambda>_ _. Ok sample_ranking\<rparr>\<rparr>"

definition sample_pipeline :: "nat pipeline_lib" where
  "sample_pipeline =
     \<lparr>pi_rpc = sample_rpc_lib, pi_sdk = sample_sdk, pi_enc = (\<lambda>_. None), pi_dec = (\<lambda>_. None), pi_key = sc_route\<rparr>"

definition sample_world :: "path_state \<Rightarrow> world" where
  "sample_world path =
     \<lparr>gw_state = sample_state\<lparr>cs_version_suspect := False, cs_version_fresh_until := Some 100\<rparr>, gw_path = path,
      gw_sdk_path = None, gw_pool = example_pool, gw_sdk = (\<lambda>_. (sample_session False None, Absent)),
      gw_cache = memory_default, gw_refreshing = [], gw_sent = [], gw_logins = []\<rparr>"

definition sample_call_env :: call_env where
  "sample_call_env =
     (let rpc = \<lparr>ev_remaining = 1000000, ev_request_id = ''id'', ev_now = 6, ev_wall = 6,
                 ev_server = (\<lambda>_. Ok sample_response), ev_late = False\<rparr>
      in \<lparr>ce_now = (\<lambda>_. 5), ce_wall = (\<lambda>_. 5), ce_ms = (\<lambda>_. 5), ce_slow = (\<lambda>_. False), ce_permit = Ok (), ce_barrier = Ok (),
          ce_guard = Ok (), ce_bootstrap_busy = False, ce_write_ok = True, ce_lock = LockFree, ce_sdk_late = False,
          ce_sdk_outcome = Ok sample_sdk_account, ce_version_rpc = (\<lambda>_. rpc), ce_login_rpc = rpc, ce_identity_rpc = rpc,
          ce_rpc = (\<lambda>_. rpc)\<rparr>)"

lemmas sample_call_defs = sample_setup_def sample_pipeline_def sample_world_def sample_call_env_def sample_rpc_defs

definition sample_call_auth :: auth where
  "sample_call_auth = \<lparr>au_account = ''c'', au_player_id = ''c'', au_credential = ''c'', au_bid = None\<rparr>"

lemma sample_call_rpc:
  "\<exists>m q. execute_once (pi_rpc sample_pipeline) (su_client sample_setup) (su_protocol sample_setup) MUSIC_RANKING JNull
      (Some sample_call_auth) (ce_rpc sample_call_env 0) (gw_state (sample_world path_init)) = (Some m, q)
    \<and> rr_result q = Ok sample_ranking"
proof -
  have len: "length (frame_encode ''m'') = 6" by (simp add: frame_encode_def)
  have frame: "frame_decode (frame_encode ''m'') = Ok ''m''" by (simp add: frame_decode_iff)
  have neq: "MUSIC_RANKING \<noteq> WHOAMI" "MUSIC_RANKING \<noteq> SERVER_LIST" "MUSIC_RANKING \<noteq> VERSION" "MUSIC_RANKING \<noteq> PLAYER_LOGIN"
    by (simp_all add: route_defs)
  obtain m where m: "rpc_request (pi_rpc sample_pipeline) (su_client sample_setup) (su_protocol sample_setup) MUSIC_RANKING JNull
      (Some sample_call_auth) 1000000 ''id'' (gw_state (sample_world path_init)) = Ok m"
    by (simp add: rpc_request_def sample_call_defs sample_call_auth_def player_headers_def bid_headers_def global_family_def
        authenticated_def Let_def list_all_iff)
  have "rr_result (rpc_answer (pi_rpc sample_pipeline) (su_client sample_setup) (su_protocol sample_setup) 6 6 MUSIC_RANKING
      (Some sample_call_auth) sent (Ok sample_response) s) = Ok sample_ranking" for sent s
    by (simp add: rpc_answer_def sample_call_defs len headers_extend_def content_ok_def header_def grpc_status_def
        parse_u16_def decimal_value_def byte_defs starts_with_def Let_def rpc_done_def frame neq)
  with m show ?thesis by (simp add: execute_once_def sample_call_env_def Let_def)
qed

lemma sample_select:
  "\<exists>pool. pool_select 5 None False example_pool = (Ok 2, pool) \<and> account_available 5 (po_entries pool ! 2) \<and>
     account_auth_headers (po_entries pool ! 2) = Some sample_call_auth"
proof -
  have i: "public_index 5 example_pool = Some 2"
    by (simp add: public_index_def example_rotation example_available) (simp add: example_pool_def)
  have len: "2 < length (po_entries example_pool)" by (simp add: example_pool_def)
  have keeps: "account_available 5 (a\<lparr>ac_active := n\<rparr>) = account_available 5 a"
    "account_auth_headers (a\<lparr>ac_active := n\<rparr>) = account_auth_headers a" for a n
    by (simp_all add: account_available_def account_auth_headers_def split: account_source.split)
  have "account_auth_headers (po_entries example_pool ! 2) = Some sample_call_auth"
    by (simp add: example_pool_def account_auth_headers_def sample_call_auth_def)
  with i len show ?thesis
    using example_available(3) [of 5] by (simp add: pool_select_def select_index_def on_entry_def keeps)
qed

lemma sample_route:
  "authenticated MUSIC_RANKING" "MUSIC_RANKING \<noteq> PLAYER_DATA" "\<not> identity_only sample_setup MUSIC_RANKING"
  "MUSIC_RANKING \<in> set ROUTES" "MUSIC_RANKING \<in> set (for_family (region_family (cc_region (su_client sample_setup))))"
  "(MUSIC_RANKING = WHOAMI) = False"
  by (simp_all add: authenticated_def identity_only_def route_defs ROUTES_def for_family_def sample_call_defs)

lemma sample_free:
  "su_memory sample_setup = None" "ce_permit sample_call_env = Ok ()" "ce_barrier sample_call_env = Ok ()"
  "ce_guard sample_call_env = Ok ()" "ce_now sample_call_env st = 5"
  by (simp_all add: sample_setup_def sample_call_env_def Let_def)

lemma sample_fresh:
  "version_need sample_setup (ce_now sample_call_env AtVersion) MUSIC_RANKING (gw_state (sample_world path_init)) = Fresh"
  by (simp add: version_need_def sample_call_defs global_family_def authenticated_def route_defs Let_def)

lemma sample_stripped:
  "coalesces (uc_coalesce_public_reads (cc_upstream (su_client sample_setup))) MUSIC_RANKING"
  "strip_account_fields MUSIC_RANKING sample_ranking = JObj [(''ranking'', JArr [])]"
  by (simp_all add: coalesces_def strip_account_fields_def sample_ranking_def members_remove_def sample_setup_def route_defs)

lemma sample_path:
  "path_admit (ce_now sample_call_env AtAdmit) (gw_path (sample_world path_init)) = Some (False, path_init)"
  by (simp add: path_admit_def path_init_def sample_world_def)


theorem shared_answers_carry_no_account_fields_witness:
  "\<exists>v w'. call_selected sample_pipeline sample_setup sample_call_env MUSIC_RANKING JNull None None None (sample_world path_init) =
     (Ok v, w') \<and> json_get v ''myRank'' = None"
proof -
  obtain pool where pool: "pool_select 5 None False example_pool = (Ok 2, pool)" "account_available 5 (po_entries pool ! 2)"
    "account_auth_headers (po_entries pool ! 2) = Some sample_call_auth" using sample_select by blast
  obtain m q where rpc: "execute_once (pi_rpc sample_pipeline) (su_client sample_setup) (su_protocol sample_setup) MUSIC_RANKING
      JNull (Some sample_call_auth) (ce_rpc sample_call_env 0) (gw_state (sample_world path_init)) = (Some m, q)"
    "rr_result q = Ok sample_ranking" using sample_call_rpc by blast
  have sel: "pool_select (ce_now sample_call_env AtSelect) None (MUSIC_RANKING = WHOAMI) (gw_pool (sample_world path_init)) = (Ok 2, pool)"
    using pool(1) by (simp add: sample_free sample_route sample_world_def)
  have coalesced: "uc_coalesce_public_reads (cc_upstream (su_client sample_setup))" by (simp add: sample_setup_def)
  obtain v w' where call: "call_selected sample_pipeline sample_setup sample_call_env MUSIC_RANKING JNull None None None
      (sample_world path_init) = (Ok v, w')"
    using call_selected_answers [OF sample_route(1-5) sample_free(1-4) sample_fresh sample_path sel _ _ rpc] pool
    by (auto simp: sample_free)
  from shared_answers_carry_no_account_fields [OF call] coalesced call show ?thesis by blast
qed

theorem open_path_sends_nothing_witness:
  "let w = sample_world (path_init\<lparr>ps_open_until := Some 10\<rparr>);
       w' = snd (call_selected sample_pipeline sample_setup sample_call_env MUSIC_RANKING JNull None None None w)
   in path_admit 5 (gw_path w) = None \<and> gw_sent w' = [] \<and> gw_logins w' = []"
proof -
  let ?w = "sample_world (path_init\<lparr>ps_open_until := Some 10\<rparr>)"
  have p: "path_admit (ce_now sample_call_env st) (gw_path ?w) = None" for st
    by (simp add: path_admit_def path_init_def sample_world_def sample_free)
  obtain r w' where c: "call_selected sample_pipeline sample_setup sample_call_env MUSIC_RANKING JNull None None None ?w = (r, w')"
    by fastforce
  have "gw_sent ?w = []" "gw_logins ?w = []" by (simp_all add: sample_world_def)
  with open_path_sends_nothing [OF p p c] p c show ?thesis by (simp add: sample_free)
qed

theorem calls_return_their_lease_witness:
  "map ac_active (po_entries (gw_pool (snd (call_selected sample_pipeline sample_setup sample_call_env MUSIC_RANKING JNull
     None None None (sample_world path_init))))) = [0, 2, 1, 1]"
proof -
  let ?w = "sample_world path_init"
  have "\<forall>a \<in> set (po_entries (gw_pool ?w)). ac_active a < 2 ^ 64" "map ac_active (po_entries (gw_pool ?w)) = [0, 2, 1, 1]"
    by (simp_all add: sample_world_def example_pool_def)
  with calls_return_their_lease [of ?w sample_pipeline sample_setup sample_call_env MUSIC_RANKING JNull None None None]
  show ?thesis by simp
qed

end
