(* ===== verification/Client_Auth.thy ===== *)
theory Client_Auth
  imports App_Error
begin

section \<open>Client authorization (src/client_auth.rs)\<close>

text \<open>
  The HS256 token check and the bounded cache of positive decisions. SHA-256, base64 and JSON
  reading are parameters (\<open>auth_lib\<close>); the user store's answer to the query is an input: nothing when
  it cannot answer in time, and otherwise the row of the user, if there is one. Signatures and digests
  are lists of bytes.
\<close>

unbundle bit_operations_syntax

type_synonym bytes = "8 word list"

definition bytes_of :: "string \<Rightarrow> bytes" where
  "bytes_of s = map (\<lambda>c. word_of_nat (byte c)) s"

record token_header =
  tk_alg :: string
  tk_typ :: "string option"

record token_payload =
  tk_uid :: string
  tk_credential :: string
  tk_exp :: "nat option"

record auth_lib =
  sha256 :: "bytes \<Rightarrow> bytes"
  b64_decode :: "string \<Rightarrow> bytes option"
  parse_header :: "bytes \<Rightarrow> token_header option"
  parse_payload :: "bytes \<Rightarrow> token_payload option"

definition constant_time_eq :: "bytes \<Rightarrow> bytes \<Rightarrow> bool" where
  "constant_time_eq a b \<longleftrightarrow>
     length a = length b \<and> fold (\<lambda>(x, y) acc. acc OR (x XOR y)) (zip a b) 0 = 0"

definition hmac_block :: "auth_lib \<Rightarrow> bytes \<Rightarrow> bytes" where
  "hmac_block A key =
     (let k = (if 64 < length key then take 32 (sha256 A key) else key)
      in k @ replicate (64 - length k) 0)"

definition hmac_sha256 :: "auth_lib \<Rightarrow> bytes \<Rightarrow> bytes \<Rightarrow> bytes" where
  "hmac_sha256 A key message =
     (let pad = (\<lambda>v. map (\<lambda>b. b XOR v) (hmac_block A key))
      in sha256 A (pad 0x5c @ sha256 A (pad 0x36 @ message)))"

record claims =
  cl_uid :: string
  cl_credential :: string

definition verify_token :: "auth_lib \<Rightarrow> string \<Rightarrow> bytes \<Rightarrow> nat \<Rightarrow> claims option" where
  "verify_token A token key now =
     (if 8192 < length token then None
      else case split_dot token of
        [header, payload, signature] \<Rightarrow>
          (case b64_decode A signature of
             None \<Rightarrow> None
           | Some sig \<Rightarrow>
               if \<not> constant_time_eq sig (hmac_sha256 A key (bytes_of (header @ ''.'' @ payload))) then None
               else (case Option.bind (b64_decode A header) (parse_header A) of
                       None \<Rightarrow> None
                     | Some h \<Rightarrow>
                         if tk_alg h \<noteq> ''HS256'' \<or> (tk_typ h \<noteq> None \<and> tk_typ h \<noteq> Some ''JWT'') then None
                         else (case Option.bind (b64_decode A payload) (parse_payload A) of
                                 None \<Rightarrow> None
                               | Some p \<Rightarrow>
                                   if tk_uid p = [] \<or> 256 < length (tk_uid p)
                                      \<or> tk_credential p = [] \<or> 4096 < length (tk_credential p)
                                      \<or> (case tk_exp p of None \<Rightarrow> False | Some exp \<Rightarrow> exp \<le> now)
                                   then None
                                   else Some \<lparr>cl_uid = tk_uid p, cl_credential = tk_credential p\<rparr>)))
      | _ \<Rightarrow> None)"

subsection \<open>The authenticator\<close>

type_synonym auth_key = "string \<times> bytes"

record authenticator =
  an_key :: bytes
  an_ttl :: duration
  an_capacity :: nat
  an_cache :: "(auth_key \<times> instant) list"

definition auth_cached :: "instant \<Rightarrow> auth_key \<Rightarrow> authenticator \<Rightarrow> bool" where
  "auth_cached now k a =
     (case map_of (an_cache a) k of None \<Rightarrow> False | Some expiry \<Rightarrow> now < expiry)"

definition auth_remember :: "instant \<Rightarrow> auth_key \<Rightarrow> authenticator \<Rightarrow> authenticator" where
  "auth_remember now k a =
     (if an_ttl a = 0 then a
      else
        let cache = (if an_capacity a \<le> length (an_cache a)
                     then filter (\<lambda>e. now < snd e) (an_cache a) else an_cache a)
        in a\<lparr>an_cache :=
               (if length cache < an_capacity a
                then (k, now + an_ttl a) # filter (\<lambda>e. fst e \<noteq> k) cache else cache)\<rparr>)"

record auth_request =
  ar_token :: string
  ar_wall :: nat \<comment> \<open>seconds since the epoch\<close>
  ar_lookup :: instant \<comment> \<open>the clock when the cache is consulted\<close>
  ar_store :: instant \<comment> \<open>the clock when a decision is remembered\<close>
  ar_row :: "(string \<times> bool) option option" \<comment> \<open>the user store's answer\<close>

definition authorize :: "auth_lib \<Rightarrow> auth_request \<Rightarrow> authenticator \<Rightarrow> (app_error + unit) \<times> authenticator" where
  "authorize A r a =
     (case verify_token A (ar_token r) (an_key a) (ar_wall r) of
        None \<Rightarrow> (Err Unauthorized, a)
      | Some c \<Rightarrow>
          let k = (cl_uid c, sha256 A (bytes_of (cl_credential c)))
          in if auth_cached (ar_lookup r) k a then (Ok (), a)
             else (case ar_row r of
                    None \<Rightarrow> (Err AuthUnavailable, a)
                  | Some row \<Rightarrow>
                      (case row of
                         None \<Rightarrow> (Err Unauthorized, a)
                       | Some (credential, granted) \<Rightarrow>
                           if \<not> constant_time_eq (bytes_of credential) (bytes_of (cl_credential c))
                           then (Err Unauthorized, a)
                           else if \<not> granted then (Err Forbidden, a)
                           else (Ok (), auth_remember (ar_store r) k a))))"

subsection \<open>Constant-time comparison\<close>

lemma fold_or_zero:
  "fold (\<lambda>(x, y) acc. acc OR (x XOR y)) xs (z :: 8 word) = 0 \<longleftrightarrow> z = 0 \<and> (\<forall>(x, y) \<in> set xs. x = y)"
proof (induction xs arbitrary: z)
  case (Cons p xs)
  obtain x y where p: "p = (x, y)" by (cases p)
  have "z OR (x XOR y) = 0 \<longleftrightarrow> z = 0 \<and> x = y"
    by (metis bit.disj_zero_right bit.xor_self or_eq_0_iff xor_self_eq xor.right_neutral xor.left_commute)
  with Cons show ?case by (auto simp: p)
qed simp

lemma constant_time_eq_iff: "constant_time_eq a b \<longleftrightarrow> a = b"
  unfolding constant_time_eq_def fold_or_zero
  by (auto simp: list_eq_iff_zip_eq)

lemma bytes_of_inj: "bytes_of a = bytes_of b \<longleftrightarrow> a = b"
proof -
  have "x = y" if "(word_of_nat (byte x) :: 8 word) = word_of_nat (byte y)" for x y
  proof -
    have "byte x mod 256 = byte y mod 256"
      using that by (simp add: word_of_nat_eq_iff take_bit_nat_def)
    then show ?thesis by (simp add: byte_def)
  qed
  then have "inj (\<lambda>c. word_of_nat (byte c) :: 8 word)" by (rule injI)
  then show ?thesis by (simp add: bytes_of_def inj_map_eq_map)
qed

subsection \<open>The cache\<close>

definition backed :: "auth_lib \<Rightarrow> bytes \<Rightarrow> auth_request \<Rightarrow> auth_key \<Rightarrow> bool" where
  \<comment> \<open>the request carried a verified token whose user the store confirmed with a grant\<close>
  "backed A key r k \<longleftrightarrow>
     (\<exists>c. verify_token A (ar_token r) key (ar_wall r) = Some c \<and>
        k = (cl_uid c, sha256 A (bytes_of (cl_credential c))) \<and>
        ar_row r = Some (Some (cl_credential c, True)))"

definition auth_inv :: "auth_lib \<Rightarrow> auth_request list \<Rightarrow> authenticator \<Rightarrow> bool" where
  "auth_inv A hist a \<longleftrightarrow>
     distinct (map fst (an_cache a)) \<and> length (an_cache a) \<le> an_capacity a \<and>
     (\<forall>(k, expiry) \<in> set (an_cache a). 0 < an_ttl a \<and>
        (\<exists>r \<in> set hist. backed A (an_key a) r k \<and> expiry = ar_store r + an_ttl a))"

lemma distinct_filter_keys: "distinct (map fst xs) \<Longrightarrow> distinct (map fst (filter P xs))"
  by (simp add: distinct_map_filter)

lemma auth_remember_inv:
  assumes "auth_inv A hist a" "backed A (an_key a) r k"
  shows "auth_inv A (hist @ [r]) (auth_remember (ar_store r) k a)"
proof (cases "an_ttl a = 0")
  case True
  with assms show ?thesis by (fastforce simp: auth_inv_def auth_remember_def)
next
  case False
  define cache where "cache = (if an_capacity a \<le> length (an_cache a)
     then filter (\<lambda>e. ar_store r < snd e) (an_cache a) else an_cache a)"
  have sub: "set cache \<subseteq> set (an_cache a)" "distinct (map fst cache)" "length cache \<le> an_capacity a"
    using assms(1) by (auto simp: cache_def auth_inv_def distinct_filter_keys intro: le_trans [OF length_filter_le])
  let ?new = "if length cache < an_capacity a
     then (k, ar_store r + an_ttl a) # filter (\<lambda>e. fst e \<noteq> k) cache else cache"
  have rem: "auth_remember (ar_store r) k a = a\<lparr>an_cache := ?new\<rparr>"
    using False by (simp add: auth_remember_def cache_def Let_def)
  have new: "distinct (map fst ?new)" "length ?new \<le> an_capacity a"
    using sub(2,3) le_less_trans [OF length_filter_le, of cache "an_capacity a"]
    by (auto simp: distinct_filter_keys Suc_le_eq)
  have src: "\<exists>q \<in> set (hist @ [r]). backed A (an_key a) q (fst x) \<and> snd x = ar_store q + an_ttl a"
    if "x \<in> set ?new" for x
  proof (cases "x \<in> set (an_cache a)")
    case True
    with assms(1) show ?thesis by (auto simp: auth_inv_def case_prod_beta)
  next
    case False
    with that sub(1) have "x = (k, ar_store r + an_ttl a)" by (auto split: if_splits)
    with assms(2) show ?thesis by auto
  qed
  show ?thesis
    unfolding auth_inv_def rem using new src False by (simp add: case_prod_beta)
qed

lemma auth_inv_mono: "auth_inv A hist a \<Longrightarrow> auth_inv A (hist @ [r]) a"
  by (fastforce simp: auth_inv_def)

lemma authorize_cases:
  assumes "authorize A r a = (res, a')"
  shows "a' = a \<and> res \<noteq> Ok () \<or>
    (\<exists>c k. verify_token A (ar_token r) (an_key a) (ar_wall r) = Some c \<and>
       k = (cl_uid c, sha256 A (bytes_of (cl_credential c))) \<and> res = Ok () \<and>
       (auth_cached (ar_lookup r) k a \<and> a' = a \<or>
        backed A (an_key a) r k \<and> a' = auth_remember (ar_store r) k a))"
  using assms
  by (auto simp: authorize_def backed_def constant_time_eq_iff bytes_of_inj Let_def
      split: option.splits if_splits)

fun auth_run :: "auth_lib \<Rightarrow> auth_request list \<Rightarrow> authenticator \<Rightarrow> authenticator" where
  "auth_run A [] a = a"
| "auth_run A (r # rs) a = auth_run A rs (snd (authorize A r a))"

lemma authorize_inv:
  assumes "auth_inv A hist a"
  shows "auth_inv A (hist @ [r]) (snd (authorize A r a))" "an_key (snd (authorize A r a)) = an_key a"
    "an_ttl (snd (authorize A r a)) = an_ttl a" "an_capacity (snd (authorize A r a)) = an_capacity a"
proof -
  obtain res a' where au: "authorize A r a = (res, a')" by fastforce
  have keep: "an_key (auth_remember t k a) = an_key a" "an_ttl (auth_remember t k a) = an_ttl a"
    "an_capacity (auth_remember t k a) = an_capacity a" for t k
    by (simp_all add: auth_remember_def Let_def)
  from authorize_cases [OF au] assms
  show "auth_inv A (hist @ [r]) (snd (authorize A r a))" "an_key (snd (authorize A r a)) = an_key a"
    "an_ttl (snd (authorize A r a)) = an_ttl a" "an_capacity (snd (authorize A r a)) = an_capacity a"
    using auth_inv_mono auth_remember_inv keep by (auto simp: au)
qed

lemma auth_run_inv:
  "auth_inv A hist a \<Longrightarrow> auth_inv A (hist @ rs) (auth_run A rs a) \<and> an_key (auth_run A rs a) = an_key a \<and>
     an_ttl (auth_run A rs a) = an_ttl a \<and> an_capacity (auth_run A rs a) = an_capacity a"
proof (induction rs arbitrary: hist a)
  case (Cons r rs)
  from Cons.IH [OF authorize_inv(1) [OF Cons.prems, of r]] authorize_inv(2-4) [OF Cons.prems]
  show ?case by simp
qed simp

subsection \<open>Properties\<close>

text \<open>Every accepted request is backed by the user store: its token verifies under the signing
  key, and either the store confirmed exactly this user and credential with a grant for the region
  just now, or it confirmed the user with a credential of the same digest less than the cache lifetime ago.
  The cache never holds more than its configured number of entries.\<close>

theorem authorization_is_backed:
  assumes "an_cache a0 = []" "a = auth_run A hist a0" "authorize A r a = (Ok (), a')"
  shows "(\<exists>c. verify_token A (ar_token r) (an_key a0) (ar_wall r) = Some c \<and>
      (ar_row r = Some (Some (cl_credential c, True)) \<or>
       (\<exists>q \<in> set hist. ar_lookup r < ar_store q + an_ttl a0 \<and>
          backed A (an_key a0) q (cl_uid c, sha256 A (bytes_of (cl_credential c)))))) \<and>
    length (an_cache a') \<le> an_capacity a0"
proof -
  have "auth_inv A [] a0" using assms(1) by (simp add: auth_inv_def)
  from auth_run_inv [OF this, of hist]
  have inv: "auth_inv A hist a" and eq: "an_key a = an_key a0" "an_ttl a = an_ttl a0" "an_capacity a = an_capacity a0"
    by (simp_all add: assms(2))
  have len: "length (an_cache a') \<le> an_capacity a0"
    using authorize_inv(1,4) [OF inv, of r] assms(3) eq by (simp add: auth_inv_def)
  from authorize_cases [OF assms(3)] obtain c k where
    c: "verify_token A (ar_token r) (an_key a0) (ar_wall r) = Some c"
    and k: "k = (cl_uid c, sha256 A (bytes_of (cl_credential c)))"
    and how: "auth_cached (ar_lookup r) k a \<or> backed A (an_key a0) r k" by (auto simp: eq)
  from how have "ar_row r = Some (Some (cl_credential c, True)) \<or>
       (\<exists>q \<in> set hist. ar_lookup r < ar_store q + an_ttl a0 \<and> backed A (an_key a0) q k)"
  proof
    assume "auth_cached (ar_lookup r) k a"
    then obtain expiry where "(k, expiry) \<in> set (an_cache a)" "ar_lookup r < expiry"
      by (auto simp: auth_cached_def split: option.splits dest: map_of_SomeD)
    with inv eq show ?thesis by (force simp: auth_inv_def)
  next
    assume "backed A (an_key a0) r k"
    with c show ?thesis by (auto simp: backed_def)
  qed
  with c len show ?thesis unfolding k by blast
qed

definition example_auth_lib :: auth_lib where
  "example_auth_lib = \<lparr>sha256 = (\<lambda>b. take 32 (b @ replicate 32 0)),
     b64_decode = (\<lambda>s. if s = ''s'' then Some (replicate 32 0x6a) else Some []),
     parse_header = (\<lambda>_. Some \<lparr>tk_alg = ''HS256'', tk_typ = None\<rparr>),
     parse_payload = (\<lambda>_. Some \<lparr>tk_uid = ''u'', tk_credential = ''c'', tk_exp = Some 100\<rparr>)\<rparr>"

definition example_authenticator :: authenticator where
  "example_authenticator = \<lparr>an_key = replicate 32 0x36, an_ttl = 50, an_capacity = 2, an_cache = []\<rparr>"

definition example_auth_request :: "(string \<times> bool) option option \<Rightarrow> auth_request" where
  "example_auth_request row = \<lparr>ar_token = ''h.p.s'', ar_wall = 7, ar_lookup = 1000, ar_store = 1001, ar_row = row\<rparr>"

theorem authorization_is_backed_witness:
  "fst (authorize example_auth_lib (example_auth_request None)
     (auth_run example_auth_lib [example_auth_request (Some (Some (''c'', True)))] example_authenticator)) = Ok () \<and>
   (\<exists>c. verify_token example_auth_lib ''h.p.s'' (an_key example_authenticator) 7 = Some c)"
proof -
  let ?a = "auth_run example_auth_lib [example_auth_request (Some (Some (''c'', True)))] example_authenticator"
  have v: "verify_token example_auth_lib ''h.p.s'' (replicate 32 0x36) 7 =
      Some \<lparr>cl_uid = ''u'', cl_credential = ''c''\<rparr>"
    by (simp add: verify_token_def constant_time_eq_iff hmac_sha256_def hmac_block_def example_auth_lib_def
        Let_def eval_nat_numeral)
  have ok: "fst (authorize example_auth_lib (example_auth_request None) ?a) = Ok ()"
    by (simp add: authorize_def example_auth_request_def example_authenticator_def v auth_cached_def
        constant_time_eq_iff auth_remember_def Let_def)
  then have "authorize example_auth_lib (example_auth_request None) ?a =
      (Ok (), snd (authorize example_auth_lib (example_auth_request None) ?a))"
    by (simp add: prod_eq_iff)
  from authorization_is_backed [OF _ refl this] ok show ?thesis
    by (auto simp: example_authenticator_def example_auth_request_def)
qed

end
