(* ===== verification/Node_Routing.thy ===== *)
theory Node_Routing
  imports Peer Probe_Gate "HOL-Library.Sublist"
begin

section \<open>Node routing (src/node_routing.rs)\<close>

text \<open>
  Ordered, bounded node selection: the health of a target and its circuit breaker, the target
  order, and the failover loop. What happens outside the router during a call is given as its
  inputs, one record per target: the clock readings, the peer transport's result or the local game call's
  result. The result of the loop lists the attempts that were made.
\<close>

record routing_config =
  nr_local_priority :: "int option"
  nr_timeout_ms :: nat
  nr_max_inflight :: nat
  nr_failure_threshold :: nat
  nr_cooldown_ms :: nat
  nr_transport :: pt_policy

record target_config =
  tc_name :: string
  tc_origin :: string
  tc_token_env :: string
  tc_priority :: int
  tc_regional_paths :: bool
  tc_allow_http :: bool

record target_health =
  th_failures :: nat
  th_open_until :: "instant option"
  th_probing :: bool

definition target_health_default :: target_health where
  "target_health_default = \<lparr>th_failures = 0, th_open_until = None, th_probing = False\<rparr>"

datatype node_transition = NodeNone | NodeCooldownStarted | NodeProbeFailed | NodeRecovered

definition target_admit :: "instant \<Rightarrow> target_health \<Rightarrow> (bool \<times> target_health) option" where
  "target_admit now h =
     (case th_open_until h of
        None \<Rightarrow> Some (False, h)
      | Some until \<Rightarrow>
          if now < until \<or> th_probing h then None
          else Some (True, h\<lparr>th_probing := True\<rparr>))"

definition permit_finish ::
  "routing_config \<Rightarrow> instant \<Rightarrow> bool \<Rightarrow> bool \<Rightarrow> target_health \<Rightarrow> node_transition \<times> target_health" where
  "permit_finish c now probe failed h =
     (if failed
      then let h1 = h\<lparr>th_failures := sat_add32 (th_failures h) 1\<rparr>
           in if nr_failure_threshold c \<le> th_failures h1
              then ((if probe then NodeProbeFailed
                     else if th_open_until h1 = None then NodeCooldownStarted else NodeNone),
                    h1\<lparr>th_open_until := Some (now + from_millis (nr_cooldown_ms c))\<rparr>)
              else (NodeNone, h1)
      else ((if th_open_until h \<noteq> None then NodeRecovered else NodeNone),
            h\<lparr>th_failures := 0, th_open_until := None\<rparr>))"

definition permit_drop :: "bool \<Rightarrow> target_health \<Rightarrow> target_health" where
  "permit_drop probe h = (if probe then h\<lparr>th_probing := False\<rparr> else h)"

subsection \<open>The router\<close>

record target =
  ta_name :: string
  ta_priority :: int
  ta_remote :: bool
  ta_health :: target_health

definition target_name_ok :: "string \<Rightarrow> bool" where
  "target_name_ok n \<longleftrightarrow>
     n \<noteq> [] \<and> length n \<le> 64 \<and> n \<noteq> ''local'' \<and>
     list_all (\<lambda>b. ascii_alphanumeric b \<or> b \<in> set ''-_'') n"

definition token_env_ok :: "string \<Rightarrow> bool" where
  "token_env_ok e \<longleftrightarrow>
     e \<noteq> [] \<and> length e \<le> 256 \<and> list_all (\<lambda>b. ascii_alphanumeric b \<or> b = CHR ''_'') e"

record routing_lib =
  rl_client_ok :: "target_config \<Rightarrow> bool" \<comment> \<open>\<open>peer_transport::Client::new\<close> accepts the destination\<close>
  rl_origin :: "string \<Rightarrow> string option" \<comment> \<open>the URL's origin, when it parses\<close>
  rl_secret :: "string \<Rightarrow> app_error + string"
  rl_credential_ok :: "target_config \<Rightarrow> string \<Rightarrow> bool"

fun validate_targets ::
  "routing_lib \<Rightarrow> string list \<Rightarrow> (string \<times> bool) list \<Rightarrow> target_config list \<Rightarrow> app_error + unit" where
  "validate_targets L names dests [] = Ok ()"
| "validate_targets L names dests (t # ts) =
     (if \<not> target_name_ok (tc_name t) \<or> tc_name t \<in> set names \<or> \<not> token_env_ok (tc_token_env t)
      then Err (Config ''invalid or duplicate node name or credential reference'')
      else if \<not> rl_client_ok L t then Err (Config ''invalid peer destination'')
      else case rl_origin L (tc_origin t) of
             None \<Rightarrow> Err (Config ''invalid peer destination'')
           | Some orig \<Rightarrow>
               if (orig, tc_regional_paths t) \<in> set dests
               then Err (Config ''duplicate peer destination'')
               else validate_targets L (tc_name t # names) ((orig, tc_regional_paths t) # dests) ts)"

definition routing_validate :: "routing_lib \<Rightarrow> routing_config \<Rightarrow> target_config list \<Rightarrow> app_error + unit" where
  "routing_validate L c ts =
     (if 16 < length ts
         \<or> (ts = [] \<and> nr_local_priority c = None)
         \<or> \<not> (100 \<le> nr_timeout_ms c \<and> nr_timeout_ms c \<le> 300000)
         \<or> \<not> (1 \<le> nr_max_inflight c \<and> nr_max_inflight c \<le> 4096)
         \<or> \<not> (1 \<le> nr_failure_threshold c \<and> nr_failure_threshold c \<le> 100)
         \<or> \<not> (100 \<le> nr_cooldown_ms c \<and> nr_cooldown_ms c \<le> 300000)
      then Err (Config ''invalid node routing bounds'')
      else if pt_policy_validate (nr_transport c) \<noteq> Ok ()
      then Err (Config ''invalid peer transport policy'')
      else validate_targets L [] [] ts)"

fun remote_targets :: "routing_lib \<Rightarrow> target_config list \<Rightarrow> app_error + target list" where
  "remote_targets L [] = Ok []"
| "remote_targets L (t # ts) =
     then_result (rl_secret L (tc_token_env t)) (\<lambda>s.
       if \<not> rl_credential_ok L t s then Err (Config ''invalid peer transport credential'')
       else then_result (remote_targets L ts) (\<lambda>rest.
              Ok (\<lparr>ta_name = tc_name t, ta_priority = tc_priority t, ta_remote = True,
                   ta_health = target_health_default\<rparr> # rest)))"

definition router_new :: "routing_lib \<Rightarrow> routing_config \<Rightarrow> target_config list \<Rightarrow> app_error + target list" where
  "router_new L c ts =
     then_result (routing_validate L c ts) (\<lambda>_.
     then_result (remote_targets L ts) (\<lambda>remotes.
       let locals = (case nr_local_priority c of
                       None \<Rightarrow> []
                     | Some p \<Rightarrow> [\<lparr>ta_name = ''local'', ta_priority = p, ta_remote = False,
                                   ta_health = target_health_default\<rparr>])
       in Ok (sort_key ta_priority (locals @ remotes))))"

subsection \<open>The failover loop\<close>

record execution =
  ex_result :: "app_error + json"
  ex_observation :: observation

definition execution_error :: "app_error \<Rightarrow> execution" where
  "execution_error e = \<lparr>ex_result = Err e, ex_observation = observation_default\<rparr>"

record attempt_env =
  ae_check :: instant \<comment> \<open>the clock at the top of the loop body\<close>
  ae_admit :: instant
  ae_finish :: instant
  ae_remote :: "pt_error + reply" \<comment> \<open>what the peer transport returns if the target is remote\<close>
  ae_local :: "app_error + json" \<comment> \<open>what the local game call returns otherwise, by the deadline\<close>
  ae_observation :: observation

definition safe_reply :: "reply \<Rightarrow> bool" where
  "safe_reply r \<longleftrightarrow>
     re_outcome r \<in> {OutFailure FailIdentityMismatch, OutFailure FailUnsupportedOperation,
        OutFailure FailUnavailableBeforeDispatch}"

fun remote_error :: "pt_error \<Rightarrow> app_error" where
  "remote_error PtTimeout = Timeout"
| "remote_error PtNotSent = Timeout"
| "remote_error PtProtocol = Protocol"
| "remote_error _ = Transport"

fun outcome_result :: "outcome \<Rightarrow> bool \<Rightarrow> app_error + json" where
  "outcome_result (OutSuccess data) m = Ok data"
| "outcome_result (OutFailure k) m = Err (failure_error k m)"

definition run_attempt :: "bool \<Rightarrow> attempt_env \<Rightarrow> execution \<times> bool" where
  \<comment> \<open>the execution and whether it definitely did not reach the game\<close>
  "run_attempt remote e =
     (if remote
      then case ae_remote e of
             Inr r \<Rightarrow>
               (\<lparr>ex_result = outcome_result (re_outcome r) (ob_maintenance (re_observation r)),
                 ex_observation = re_observation r\<rparr>, safe_reply r)
           | Inl err \<Rightarrow>
               (execution_error (remote_error err),
                definitely_not_sent err \<or> rejected_before_dispatch err)
      else (\<lparr>ex_result = ae_local e, ex_observation = ae_observation e\<rparr>,
            ae_local e \<in> {Err PeerIdentityMismatch, Err PeerAccountUnavailable,
              Err UnsupportedRegionOperation}))"

definition target_fault :: "app_error + json \<Rightarrow> bool" where
  "target_fault r \<longleftrightarrow>
     r \<in> {Err Transport, Err Proxy, Err Timeout, Err Protocol, Err PeerIdentityMismatch,
       Err PeerAccountUnavailable, Err AccountUnavailable, Err UnsupportedRegionOperation}"

record attempt =
  at_name :: string
  at_result :: "app_error + json"
  at_not_executed :: bool

fun try_targets ::
  "routing_config \<Rightarrow> string \<Rightarrow> instant \<Rightarrow> (target \<times> attempt_env) list \<Rightarrow> execution
   \<Rightarrow> execution \<times> target list \<times> attempt list" where
  \<comment> \<open>the loop of \<open>call_inner\<close>: its result, the targets afterwards, and the attempts made\<close>
  "try_targets c route deadline [] prev = (prev, [], [])"
| "try_targets c route deadline ((t, e) # ts) prev =
     (if deadline \<le> ae_check e then (execution_error Timeout, t # map fst ts, [])
      else case target_admit (ae_admit e) (ta_health t) of
        None \<Rightarrow>
          (case try_targets c route deadline ts prev of (x, us, tr) \<Rightarrow> (x, t # us, tr))
      | Some (probe, h) \<Rightarrow>
          (case run_attempt (ta_remote t) e of (x, safe) \<Rightarrow>
             let fault = target_fault (ex_result x);
                 h1 = permit_drop probe (snd (permit_finish c (ae_finish e) probe fault h));
                 t1 = t\<lparr>ta_health := h1\<rparr>;
                 entry = \<lparr>at_name = ta_name t, at_result = ex_result x, at_not_executed = safe\<rparr>;
                 stop = (\<not> safe \<and> authenticated route)
             in if \<not> fault \<or> stop then (x, t1 # map fst ts, [entry])
                else (case try_targets c route deadline ts x of (y, us, tr) \<Rightarrow> (y, t1 # us, entry # tr))))"

definition call_inner ::
  "routing_config \<Rightarrow> string \<Rightarrow> instant \<Rightarrow> bool \<Rightarrow> (target \<times> attempt_env) list
   \<Rightarrow> execution \<times> target list \<times> attempt list" where
  \<comment> \<open>\<open>admitted\<close>: an in-flight permit was acquired before the deadline\<close>
  "call_inner c route deadline admitted ts =
     (if \<not> admitted then (execution_error Timeout, map fst ts, [])
      else try_targets c route deadline ts (execution_error NodeUnavailable))"

definition router_call ::
  "routing_config \<Rightarrow> string list \<Rightarrow> bool \<Rightarrow> (app_error + peer_identity) \<Rightarrow> operation \<Rightarrow> instant \<Rightarrow> bool
   \<Rightarrow> (target \<times> attempt_env) list \<Rightarrow> execution \<times> target list \<times> attempt list" where
  \<comment> \<open>\<open>call\<close> as the one caller that executes: a coalesced read shares this execution\<close>
  "router_call c supported coalesce own op now admitted ts =
     (case operation_rpc op of
        Inl e \<Rightarrow> (execution_error e, map fst ts, [])
      | Inr (route, input) \<Rightarrow>
          if route \<notin> set supported then (execution_error UnsupportedRegionOperation, map fst ts, [])
          else (case own of
            Inl e \<Rightarrow> (execution_error e, map fst ts, [])
          | Inr identity \<Rightarrow>
              (case call_inner c route (now + from_millis (nr_timeout_ms c)) admitted ts of
                 (x, us, tr) \<Rightarrow>
                   if coalesces coalesce route
                   then (x\<lparr>ex_result := map_sum id (strip_account_fields route) (ex_result x)\<rparr>, us, tr)
                   else (x, us, tr))))"

subsection \<open>A target is a probe gate\<close>

definition permit_report :: "routing_config \<Rightarrow> instant \<times> bool \<times> bool \<Rightarrow> target_health \<Rightarrow> target_health" where
  "permit_report c x h = (case x of (now, probe, failed) \<Rightarrow> snd (permit_finish c now probe failed h))"

lemma permit_finish_probing [simp]: "th_probing (snd (permit_finish c now probe failed h)) = th_probing h"
  by (auto simp: permit_finish_def Let_def)

interpretation node_gate: probe_gate th_open_until th_probing target_admit "permit_drop True"
  "permit_report c" target_health_default for c :: routing_config
  by unfold_locales
    (auto simp: target_admit_def permit_drop_def permit_report_def target_health_default_def
      split: prod.splits)

subsection \<open>Runs of outcomes\<close>

fun finish_run :: "routing_config \<Rightarrow> (instant \<times> bool \<times> bool) list \<Rightarrow> target_health \<Rightarrow> target_health" where
  "finish_run c [] h = h"
| "finish_run c (x # xs) h = finish_run c xs (permit_report c x h)"

lemma finish_run_append: "finish_run c (xs @ ys) h = finish_run c ys (finish_run c xs h)"
  by (induction xs arbitrary: h) auto

definition trailing_faults :: "bool list \<Rightarrow> nat" where
  "trailing_faults bs = length (takeWhile (\<lambda>b. b) (rev bs))"

lemma trailing_faults_simps [simp]:
  "trailing_faults [] = 0"
  "trailing_faults (bs @ [b]) = (if b then Suc (trailing_faults bs) else 0)"
  by (simp_all add: trailing_faults_def)

definition outcome_flags :: "(instant \<times> bool \<times> bool) list \<Rightarrow> bool list" where
  "outcome_flags xs = map (\<lambda>(now, probe, failed). failed) xs"

lemma finish_run_state:
  assumes "1 \<le> nr_failure_threshold c" "nr_failure_threshold c \<le> u32_max"
  shows "th_failures (finish_run c xs target_health_default) =
      min (trailing_faults (outcome_flags xs)) u32_max \<and>
    (th_open_until (finish_run c xs target_health_default) \<noteq> None \<longleftrightarrow>
      nr_failure_threshold c \<le> trailing_faults (outcome_flags xs))"
proof (induction xs rule: rev_induct)
  case (snoc x xs)
  obtain now probe failed where x: "x = (now, probe, failed)" by (cases x)
  let ?h = "finish_run c xs target_health_default"
  have run: "finish_run c (xs @ [x]) target_health_default = snd (permit_finish c now probe failed ?h)"
    by (simp add: finish_run_append permit_report_def x)
  have flags: "outcome_flags (xs @ [x]) = outcome_flags xs @ [failed]" by (simp add: outcome_flags_def x)
  show ?case
    unfolding run flags using snoc assms
    by (auto simp: permit_finish_def sat_add32_def Let_def)
qed (use assms in \<open>simp add: target_health_default_def outcome_flags_def\<close>)

subsection \<open>Properties\<close>

lemma try_targets_trace:
  assumes "try_targets c route deadline ts prev = (x, us, tr)"
  shows "(authenticated route \<longrightarrow> (\<forall>a \<in> set (butlast tr). at_not_executed a)) \<and>
    (\<forall>a \<in> set (butlast tr). target_fault (at_result a)) \<and>
    subseq (map at_name tr) (map (\<lambda>t. ta_name (fst t)) ts) \<and>
    (if tr = [] then x = prev \<or> x = execution_error Timeout
     else ex_result x = at_result (last tr) \<or> x = execution_error Timeout \<and> target_fault (at_result (last tr))) \<and>
    length us = length ts"
  using assms
proof (induction c route deadline ts prev arbitrary: x us tr rule: try_targets.induct)
  case (2 c route deadline t e ts prev)
  show ?case
  proof (cases "deadline \<le> ae_check e")
    case True
    with 2(3) show ?thesis by auto
  next
    case live: False
    show ?thesis
    proof (cases "target_admit (ae_admit e) (ta_health t)")
      case None
      obtain y us' tr' where rec: "try_targets c route deadline ts prev = (y, us', tr')" by (metis prod_cases3)
      from 2(1) [OF live None rec] 2(3) live None rec show ?thesis by auto
    next
      case (Some ph)
      obtain probe h where ph: "ph = (probe, h)" by (cases ph)
      obtain z safe where att: "run_attempt (ta_remote t) e = (z, safe)" by (cases "run_attempt (ta_remote t) e")
      let ?fault = "target_fault (ex_result z)"
      show ?thesis
      proof (cases "\<not> ?fault \<or> \<not> safe \<and> authenticated route")
        case True
        with 2(3) live Some ph att show ?thesis by (auto simp: Let_def)
      next
        case cont: False
        obtain y us' tr' where rec: "try_targets c route deadline ts z = (y, us', tr')" by (metis prod_cases3)
        have IH: "(authenticated route \<longrightarrow> (\<forall>a \<in> set (butlast tr'). at_not_executed a)) \<and>
            (\<forall>a \<in> set (butlast tr'). target_fault (at_result a)) \<and>
            subseq (map at_name tr') (map (\<lambda>t. ta_name (fst t)) ts) \<and>
            (if tr' = [] then y = z \<or> y = execution_error Timeout
             else ex_result y = at_result (last tr') \<or> y = execution_error Timeout \<and> target_fault (at_result (last tr'))) \<and>
            length us' = length ts"
          by (rule 2(2) [OF live Some ph [symmetric] att [symmetric] refl refl refl refl refl cont rec])
        let ?entry = "\<lparr>at_name = ta_name t, at_result = ex_result z, at_not_executed = safe\<rparr>"
        have out: "x = y" "tr = ?entry # tr'" "length us = Suc (length us')"
          using 2(3) live Some ph att cont rec by (auto simp: Let_def)
        show ?thesis
        proof (cases "tr' = []")
          case True
          with IH out cont show ?thesis by auto
        next
          case False
          with IH out cont show ?thesis by auto
        qed
      qed
    qed
  qed
qed simp


definition example_routing :: routing_config where
  "example_routing = \<lparr>nr_local_priority = Some 0, nr_timeout_ms = 20000, nr_max_inflight = 64,
     nr_failure_threshold = 3, nr_cooldown_ms = 30000, nr_transport = pt_policy_default\<rparr>"

definition example_targets :: "(target \<times> attempt_env) list" where
  "example_targets = map (\<lambda>(n, r).
     (\<lparr>ta_name = n, ta_priority = 0, ta_remote = True, ta_health = target_health_default\<rparr>,
      \<lparr>ae_check = 1, ae_admit = 1, ae_finish = 1, ae_remote = r, ae_local = Err Timeout,
       ae_observation = observation_default\<rparr>))
     [(''a'', Err PtConnect), (''b'', Err (PtStatus 401)), (''c'', Err PtTransport), (''d'', Err PtConnect)]"

lemma example_trace:
  "map at_name (snd (snd (router_call example_routing ROUTES False (Ok example_identity) (OpProfile 5) 0 True
     example_targets))) = [''a'', ''b'', ''c'']"
proof -
  have r: "PROFILE \<in> set ROUTES" "authenticated PROFILE" by (simp_all add: ROUTES_def authenticated_def)
  show ?thesis
    using r
    by (simp add: router_call_def id_input_def id_text_def call_inner_def example_targets_def example_routing_def
        target_admit_def target_health_default_def run_attempt_def execution_error_def target_fault_def
        PRE_DISPATCH_STATUSES_def from_millis_def Let_def split: if_splits)
qed


text \<open>What "provably not executed" rests on: a reply the caller counts as not executed means that
  the peer either made no game call at all, or its game call was itself refused before anything was
  sent to the game.\<close>

theorem safe_replies_come_from_unexecuted_queries:
  assumes "peer_query uuid_ok own call_peer obs req = (Ok r, calls)" "safe_reply r"
  shows "calls = [] \<or>
    (\<exists>route input. calls = [(route, input)] \<and>
       call_peer route input (pi_protocol_sha256 (rq_identity req)) \<in>
         {Err PeerIdentityMismatch, Err UnsupportedRegionOperation, Err PeerAccountUnavailable,
          Err UpstreamUnavailable})"
proof -
  have f: "failure_of e = FailIdentityMismatch \<longleftrightarrow> e = PeerIdentityMismatch"
    "failure_of e = FailUnsupportedOperation \<longleftrightarrow> e = UnsupportedRegionOperation"
    "failure_of e = FailUnavailableBeforeDispatch \<longleftrightarrow> e = PeerAccountUnavailable \<or> e = UpstreamUnavailable" for e
    by (cases e; simp)+
  show ?thesis
    using assms by (auto simp: peer_query_def safe_reply_def f Let_def split: if_splits sum.splits)
qed

theorem safe_replies_come_from_unexecuted_queries_witness:
  "snd (peer_query (\<lambda>_. True) (Ok (example_identity\<lparr>pi_protocol_sha256 := []\<rparr>)) (\<lambda>_ _ _. Err Timeout)
     observation_default example_request) = []"
proof -
  let ?q = "peer_query (\<lambda>_. True) (Ok (example_identity\<lparr>pi_protocol_sha256 := []\<rparr>)) (\<lambda>_ _ _. Err Timeout)
     observation_default example_request"
  obtain r where q: "?q = (Ok r, snd ?q)" and "safe_reply r"
    by (simp add: peer_query_def example_request_def example_identity_def id_input_def id_text_def
        safe_reply_def Let_def)
  from safe_replies_come_from_unexecuted_queries [OF this] show ?thesis by auto
qed

text \<open>Targets are tried strictly in the order of their priorities: the router orders them by
  priority with the local node first among equals and the configured order otherwise; a call's
  attempts follow that order, every attempt before the last ended in a fault of its target, and the
  result is that of the last attempt unless the deadline passed or no target admitted the call.\<close>

theorem routing_follows_priority:
  assumes "router_new L c cfgs = Ok tgts" "map fst ts = tgts"
    and "call_inner c route deadline admitted ts = (x, us, tr)"
  shows "sorted (map ta_priority tgts) \<and>
    filter (\<lambda>t. ta_priority t = p) tgts =
      filter (\<lambda>t. ta_priority t = p)
        ((case nr_local_priority c of None \<Rightarrow> [] | Some q \<Rightarrow> [\<lparr>ta_name = ''local'', ta_priority = q,
            ta_remote = False, ta_health = target_health_default\<rparr>]) @
         map (\<lambda>t. \<lparr>ta_name = tc_name t, ta_priority = tc_priority t, ta_remote = True,
            ta_health = target_health_default\<rparr>) cfgs) \<and>
    subseq (map at_name tr) (map ta_name tgts) \<and>
    (\<forall>a \<in> set (butlast tr). target_fault (at_result a)) \<and>
    (if tr = [] then ex_result x = Err NodeUnavailable \<or> ex_result x = Err Timeout
     else ex_result x = at_result (last tr) \<or> ex_result x = Err Timeout \<and> target_fault (at_result (last tr)))"
proof -
  have remotes: "remote_targets L cs = Ok rs \<Longrightarrow> rs = map (\<lambda>t. \<lparr>ta_name = tc_name t,
      ta_priority = tc_priority t, ta_remote = True, ta_health = target_health_default\<rparr>) cs" for cs rs
    by (induction cs arbitrary: rs) (auto simp: then_result_Ok_iff split: if_splits)
  obtain rs where "remote_targets L cfgs = Ok rs"
    and tgts: "tgts = sort_key ta_priority ((case nr_local_priority c of None \<Rightarrow> [] | Some q \<Rightarrow>
        [\<lparr>ta_name = ''local'', ta_priority = q, ta_remote = False, ta_health = target_health_default\<rparr>]) @ rs)"
    using assms(1) by (auto simp: router_new_def then_result_Ok_iff Let_def)
  note rs = remotes [OF this(1)]
  have names: "map ta_name tgts = map (\<lambda>t. ta_name (fst t)) ts" using assms(2) by auto
  have "(\<forall>a \<in> set (butlast tr). target_fault (at_result a)) \<and>
    subseq (map at_name tr) (map (\<lambda>t. ta_name (fst t)) ts) \<and>
    (if tr = [] then ex_result x = Err NodeUnavailable \<or> ex_result x = Err Timeout
     else ex_result x = at_result (last tr) \<or> ex_result x = Err Timeout \<and> target_fault (at_result (last tr)))"
  proof (cases admitted)
    case True
    then have "try_targets c route deadline ts (execution_error NodeUnavailable) = (x, us, tr)"
      using assms(3) by (simp add: call_inner_def)
    from try_targets_trace [OF this] show ?thesis by (auto simp: execution_error_def)
  next
    case False
    with assms(3) show ?thesis by (auto simp: call_inner_def execution_error_def)
  qed
  then show ?thesis
    unfolding names by (simp add: tgts rs sort_key_stable)
qed

definition example_routing_lib :: routing_lib where
  "example_routing_lib = \<lparr>rl_client_ok = (\<lambda>_. True), rl_origin = Some, rl_secret = Ok,
     rl_credential_ok = (\<lambda>_ _. True)\<rparr>"

definition example_cfgs :: "target_config list" where
  "example_cfgs = map (\<lambda>(n, p). \<lparr>tc_name = n, tc_origin = ''https://'' @ n, tc_token_env = ''T'',
     tc_priority = p, tc_regional_paths = False, tc_allow_http = False\<rparr>) [(''b'', 0), (''a'', -1)]"

theorem routing_follows_priority_witness:
  "\<exists>tgts. router_new example_routing_lib example_routing example_cfgs = Ok tgts \<and>
     map ta_name tgts = [''a'', ''local'', ''b''] \<and> sorted (map ta_priority tgts)"
proof -
  let ?e = "\<lparr>ae_check = 1, ae_admit = 1, ae_finish = 1, ae_remote = Err PtConnect, ae_local = Err Timeout,
       ae_observation = observation_default\<rparr>"
  have "\<exists>tgts. router_new example_routing_lib example_routing example_cfgs = Ok tgts \<and>
     map ta_name tgts = [''a'', ''local'', ''b'']"
    by (simp add: router_new_def routing_validate_def example_routing_def example_cfgs_def
        example_routing_lib_def target_name_ok_def token_env_ok_def byte_defs pt_policy_validate_def
        pt_policy_default_def Let_def)
  then obtain tgts where t: "router_new example_routing_lib example_routing example_cfgs = Ok tgts"
    "map ta_name tgts = [''a'', ''local'', ''b'']" by (elim exE conjE) (rule that)
  let ?ts = "map (\<lambda>t. (t, ?e)) tgts"
  have m: "map fst ?ts = tgts" by (simp add: comp_def)
  have "call_inner example_routing VERSION 0 False ?ts = (execution_error Timeout, map fst ?ts, [])"
    by (simp add: call_inner_def)
  from routing_follows_priority [OF t(1) m this] have "sorted (map ta_priority tgts)" by (rule conjunct1)
  with t show ?thesis by (intro exI [of _ tgts] conjI)
qed

text \<open>The breaker of a target: it is open exactly when the last outcomes were at least
  \<open>failure_threshold\<close> faults in a row, and however calls interleave, at most one probe is outstanding
  and an open target admits nothing else.\<close>

theorem target_breaker:
  assumes "1 \<le> nr_failure_threshold c" "nr_failure_threshold c \<le> u32_max"
  shows "(th_open_until (finish_run c xs target_health_default) \<noteq> None \<longleftrightarrow>
      nr_failure_threshold c \<le> trailing_faults (outcome_flags xs)) \<and>
    (gate_reachable target_admit (permit_drop True) (permit_report c) target_health_default (h, probes, plain) \<longrightarrow>
       probes \<le> 1 \<and>
       (case target_admit now h of
          None \<Rightarrow> th_open_until h \<noteq> None
        | Some (probe, h') \<Rightarrow> (probe \<longleftrightarrow> th_open_until h \<noteq> None) \<and> (probe \<longrightarrow> probes = 0)))"
proof (intro conjI impI)
  show "(th_open_until (finish_run c xs target_health_default) \<noteq> None) =
      (nr_failure_threshold c \<le> trailing_faults (outcome_flags xs))"
    using finish_run_state [OF assms] by blast
next
  assume r: "gate_reachable target_admit (permit_drop True) (permit_report c) target_health_default (h, probes, plain)"
  from node_gate.one_probe(1) [OF r] show "probes \<le> 1" .
  from node_gate.reachable_slot [OF r]
  show "case target_admit now h of None \<Rightarrow> th_open_until h \<noteq> None
      | Some (probe, h') \<Rightarrow> (probe \<longleftrightarrow> th_open_until h \<noteq> None) \<and> (probe \<longrightarrow> probes = 0)"
    by (auto simp: target_admit_def split: option.splits)
qed

theorem target_breaker_witness:
  "th_open_until (finish_run example_routing [(1, False, True), (2, False, True), (3, False, True)]
      target_health_default) \<noteq> None"
proof -
  have t: "nr_failure_threshold example_routing = 3" by (simp add: example_routing_def)
  have "1 \<le> nr_failure_threshold example_routing" "nr_failure_threshold example_routing \<le> u32_max"
    by (simp_all add: t u32_max_def)
  from target_breaker [OF this, of "[(1, False, True), (2, False, True), (3, False, True)]"]
  show ?thesis by (simp add: t outcome_flags_def trailing_faults_def)
qed

end
