(* ===== verification/Rijndael_Field.thy ===== *)
theory Rijndael_Field
  imports Prelude
begin

unbundle bit_operations_syntax

section \<open>The byte field of the Master cipher\<close>

text \<open>
  The byte arithmetic of \<open>src/rijndael.rs\<close>: the multiplication loop \<open>mul\<close> and the tables that
  \<open>boxes\<close> computes with it.  A \<open>u8\<close> is an \<^typ>\<open>8 word\<close>, a fixed-size array a list.

  The loop is shown to be the multiplication of a commutative ring without a single table look-up:
  it is linear in both arguments, it commutes with the doubling step of its own loop, and every
  fact about a linear byte function follows from its values on the eight powers of two.  The
  eightfold square of every byte is that byte, so the 254-th power is its own inverse and the
  substitution table that \<open>boxes\<close> fills is a permutation whose inverse is the second table.
\<close>

type_synonym u8 = "8 word"

subsection \<open>Multiplication and tables as the code computes them\<close>

definition mul_step :: "u8 \<Rightarrow> u8" where
  "mul_step a = push_bit 1 a XOR (if a AND 128 \<noteq> 0 then 0x1b else 0)"

fun mul_loop :: "nat \<Rightarrow> u8 \<Rightarrow> u8 \<Rightarrow> u8 \<Rightarrow> u8" where
  "mul_loop 0 result a b = result"
| "mul_loop (Suc n) result a b =
     mul_loop n (if b AND 1 \<noteq> 0 then result XOR a else result) (mul_step a) (drop_bit 1 b)"

definition mul :: "u8 \<Rightarrow> u8 \<Rightarrow> u8" where
  "mul a b = mul_loop 8 0 a b"

fun power_loop :: "nat \<Rightarrow> u8 \<Rightarrow> u8 \<Rightarrow> u8" where
  "power_loop 0 i x = x"
| "power_loop (Suc n) i x = power_loop n i (mul x i)"

definition affine :: "u8 \<Rightarrow> u8" where
  "affine x = x XOR word_rotl 1 x XOR word_rotl 2 x XOR word_rotl 3 x XOR word_rotl 4 x XOR 0x63"

definition sbox_entry :: "u8 \<Rightarrow> u8" where
  "sbox_entry i = affine (power_loop 254 i 1)"

definition boxes_step :: "nat \<Rightarrow> u8 list \<times> u8 list \<Rightarrow> u8 list \<times> u8 list" where
  "boxes_step i tables = (case tables of (sbox, inv_table) \<Rightarrow>
     let entry = sbox_entry (of_nat i)
     in (sbox[i := entry], inv_table[unat entry := of_nat i]))"

definition boxes :: "u8 list \<times> u8 list" where
  "boxes = fold boxes_step [0..<256] (replicate 256 0, replicate 256 0)"

subsection \<open>Linear byte functions\<close>

definition xor_linear :: "(u8 \<Rightarrow> u8) \<Rightarrow> bool" where
  "xor_linear f \<longleftrightarrow> (\<forall>a b. f (a XOR b) = f a XOR f b)"

lemma xor_linearI: "(\<And>a b. f (a XOR b) = f a XOR f b) \<Longrightarrow> xor_linear f"
  by (simp add: xor_linear_def)

lemma xor_linearD: "xor_linear f \<Longrightarrow> f (a XOR b) = f a XOR f b"
  by (simp add: xor_linear_def)

lemma xor_linear_zero: "xor_linear f \<Longrightarrow> f 0 = 0"
  using xor_linearD [of f 0 0] by simp

lemma xor_linear_comp: "xor_linear f \<Longrightarrow> xor_linear g \<Longrightarrow> xor_linear (\<lambda>x. f (g x))"
  by (simp add: xor_linear_def)

lemma xor_linear_id: "xor_linear (\<lambda>x. x)"
  by (simp add: xor_linear_def)

lemma xor_linear_xor: "xor_linear f \<Longrightarrow> xor_linear g \<Longrightarrow> xor_linear (\<lambda>x. f x XOR g x)"
  by (simp add: xor_linear_def ac_simps)

lemma xor_linear_zero_fun: "xor_linear (\<lambda>x. 0)"
  by (simp add: xor_linear_def)

lemma xor_linear_funpow: "xor_linear f \<Longrightarrow> xor_linear (f ^^ n)"
  by (induction n) (simp_all add: xor_linear_def)

definition mask_bit :: "u8 \<Rightarrow> nat \<Rightarrow> u8" where
  "mask_bit a i = (if bit a i then 2 ^ i else 0)"

lemma below_eight: "n < 8 \<Longrightarrow> n \<in> {0, 1, 2, 3, 4, 5, 6, 7::nat}"
  by auto

lemma byte_decompose:
  "a = mask_bit a 0 XOR mask_bit a 1 XOR mask_bit a 2 XOR mask_bit a 3 XOR
       mask_bit a 4 XOR mask_bit a 5 XOR mask_bit a 6 XOR mask_bit a 7"
proof (rule bit_word_eqI)
  fix n assume "n < LENGTH(8)"
  then have n: "n < 8" by simp
  have mask: "bit (mask_bit a i) n \<longleftrightarrow> i = n \<and> bit a n" for i
    using n by (auto simp: mask_bit_def bit_exp_iff)
  show "bit a n \<longleftrightarrow> bit (mask_bit a 0 XOR mask_bit a 1 XOR mask_bit a 2 XOR mask_bit a 3 XOR
       mask_bit a 4 XOR mask_bit a 5 XOR mask_bit a 6 XOR mask_bit a 7) n"
    unfolding bit_xor_iff mask using below_eight [OF n] by (elim insertE emptyE) simp_all
qed

text \<open>Two linear byte functions that agree on the eight powers of two are equal.\<close>

lemma linear_eqI:
  assumes f: "xor_linear f" and g: "xor_linear g"
    and basis: "\<And>i. i \<in> {0, 1, 2, 3, 4, 5, 6, 7} \<Longrightarrow> f (2 ^ i) = g (2 ^ i)"
  shows "f a = g a"
proof -
  have mask: "f (mask_bit a i) = g (mask_bit a i)" if "i \<in> {0, 1, 2, 3, 4, 5, 6, 7}" for i
    using basis [OF that] by (simp add: mask_bit_def xor_linear_zero f g)
  show ?thesis
    by (subst (1 2) byte_decompose) (simp add: xor_linearD f g mask)
qed

subsection \<open>The doubling step\<close>

lemma and_128_iff: "(a :: u8) AND 128 \<noteq> 0 \<longleftrightarrow> bit a 7"
proof -
  have "(128 :: u8) = 2 ^ 7" by simp
  then show ?thesis by (metis and_exp_eq_0_iff_not_bit)
qed

lemma and_1_iff: "(a :: u8) AND 1 \<noteq> 0 \<longleftrightarrow> bit a 0"
  by (metis and_exp_eq_0_iff_not_bit power_0)

lemma mul_step_linear: "xor_linear mul_step"
  by (rule xor_linearI) (auto simp: mul_step_def and_128_iff bit_xor_iff push_bit_xor ac_simps)

lemma mul_loop_linear_acc: "mul_loop n r a b = r XOR mul_loop n 0 a b"
proof (induction n arbitrary: r a b)
  case (Suc n)
  show ?case
    by (cases "b AND 1 \<noteq> 0")
      (simp_all add: Suc.IH [of "r XOR a"] Suc.IH [of r] Suc.IH [of a] xor.assoc)
qed simp

lemma mul_loop_Suc:
  "mul_loop (Suc n) 0 a b = (if bit b 0 then a else 0) XOR mul_loop n 0 (mul_step a) (drop_bit 1 b)"
  using and_1_iff [of b] mul_loop_linear_acc [of n a] by simp

lemma mul_loop_linear_left: "mul_loop n 0 (a XOR a') b = mul_loop n 0 a b XOR mul_loop n 0 a' b"
proof (induction n arbitrary: a a' b)
  case (Suc n)
  show ?case
    by (simp only: mul_loop_Suc xor_linearD [OF mul_step_linear] Suc.IH) (simp add: ac_simps)
qed simp

lemma mul_loop_linear_right: "mul_loop n 0 a (b XOR b') = mul_loop n 0 a b XOR mul_loop n 0 a b'"
proof (induction n arbitrary: a b b')
  case (Suc n)
  show ?case
    by (simp only: mul_loop_Suc drop_bit_xor Suc.IH) (simp add: bit_xor_iff ac_simps)
qed simp

lemma mul_loop_step: "mul_loop n 0 (mul_step a) b = mul_step (mul_loop n 0 a b)"
proof (induction n arbitrary: a b)
  case (Suc n)
  show ?case
    by (simp only: mul_loop_Suc Suc.IH xor_linearD [OF mul_step_linear])
      (simp add: xor_linear_zero [OF mul_step_linear])
qed (simp add: xor_linear_zero [OF mul_step_linear])

lemma mul_linear_left: "mul (a XOR a') b = mul a b XOR mul a' b"
  by (simp only: mul_def mul_loop_linear_left)

lemma mul_linear_right: "mul a (b XOR b') = mul a b XOR mul a b'"
  by (simp only: mul_def mul_loop_linear_right)

lemma mul_left_linear: "xor_linear (\<lambda>a. mul a b)"
  by (rule xor_linearI) (rule mul_linear_left)

lemma mul_right_linear: "xor_linear (mul a)"
  by (rule xor_linearI) (rule mul_linear_right)

lemma mul_mul_step_left: "mul (mul_step a) b = mul_step (mul a b)"
  by (simp only: mul_def mul_loop_step)

lemma mul_loop_zero: "mul_loop n 0 a 0 = 0"
  by (induction n arbitrary: a) simp_all

lemma two_power_byte_facts:
  assumes "Suc i < 8"
  shows "\<not> bit (2 ^ Suc i :: u8) 0" and "drop_bit 1 (2 ^ Suc i :: u8) = 2 ^ i"
proof -
  show "\<not> bit (2 ^ Suc i :: u8) 0" by (simp add: bit_0)
  show "drop_bit 1 (2 ^ Suc i :: u8) = 2 ^ i"
    by (rule bit_word_eqI) (use assms in \<open>auto simp: bit_drop_bit_eq bit_exp_iff simp del: power_Suc\<close>)
qed

lemma mul_loop_power_two: "i < n \<Longrightarrow> i < 8 \<Longrightarrow> mul_loop n 0 a (2 ^ i) = (mul_step ^^ i) a"
proof (induction n arbitrary: i a)
  case (Suc n)
  show ?case
  proof (cases i)
    case 0
    have "drop_bit 1 (1 :: u8) = 0" by code_simp
    with 0 show ?thesis by (simp add: mul_loop_Suc mul_loop_zero del: mul_loop.simps)
  next
    case i: (Suc j)
    have "mul_loop (Suc n) 0 a (2 ^ Suc j) = mul_loop n 0 (mul_step a) (2 ^ j)"
      unfolding mul_loop_Suc using two_power_byte_facts [of j] Suc.prems i by simp
    also have "\<dots> = (mul_step ^^ j) (mul_step a)" using Suc i by simp
    finally show ?thesis by (simp only: i funpow_Suc_right comp_apply)
  qed
qed simp

subsection \<open>Multiplication is a commutative ring operation\<close>

lemma mul_power_two: "i < 8 \<Longrightarrow> mul a (2 ^ i) = (mul_step ^^ i) a"
  unfolding mul_def by (rule mul_loop_power_two) simp_all

lemma mul_funpow_left: "mul ((mul_step ^^ i) a) b = (mul_step ^^ i) (mul a b)"
  by (induction i) (simp_all add: mul_mul_step_left)

lemma mul_one_right: "mul a 1 = a"
  using mul_power_two [of 0 a] by simp

lemma step_power_one: "i \<in> {0, 1, 2, 3, 4, 5, 6, 7} \<Longrightarrow> (mul_step ^^ i) 1 = 2 ^ i"
  by (elim insertE emptyE; hypsubst; code_simp)

lemma basis_below: "i \<in> {0, 1, 2, 3, 4, 5, 6, 7} \<Longrightarrow> i < (8::nat)"
  by auto

lemma mul_one_left: "mul 1 b = b"
  by (rule linear_eqI [OF mul_right_linear xor_linear_id])
    (simp only: mul_power_two basis_below step_power_one)

lemma mul_commute: "mul a b = mul b a"
proof (rule linear_eqI [OF mul_right_linear mul_left_linear])
  fix i :: nat assume i: "i \<in> {0, 1, 2, 3, 4, 5, 6, 7}"
  have "mul (2 ^ i) a = mul ((mul_step ^^ i) 1) a" by (simp only: step_power_one i)
  also have "\<dots> = (mul_step ^^ i) a" by (simp only: mul_funpow_left mul_one_left)
  finally show "mul a (2 ^ i) = mul (2 ^ i) a" by (simp only: mul_power_two basis_below i)
qed

lemma mul_assoc: "mul (mul a b) c = mul a (mul b c)"
proof (rule linear_eqI [OF mul_right_linear xor_linear_comp [OF mul_right_linear mul_right_linear]])
  fix i :: nat assume i: "i \<in> {0, 1, 2, 3, 4, 5, 6, 7}"
  have "mul a (mul b (2 ^ i)) = mul (mul b (2 ^ i)) a" by (rule mul_commute)
  also have "\<dots> = (mul_step ^^ i) (mul b a)" by (simp only: mul_power_two basis_below i mul_funpow_left)
  finally show "mul (mul a b) (2 ^ i) = mul a (mul b (2 ^ i))"
    by (simp only: mul_power_two basis_below i mul_commute [of b a])
qed

interpretation byte_mul: comm_monoid mul 1
  by unfold_locales (rule mul_assoc, rule mul_commute, rule mul_one_right)

subsection \<open>Powers and the inverse of a byte\<close>

primrec byte_power :: "u8 \<Rightarrow> nat \<Rightarrow> u8" where
  "byte_power i 0 = 1"
| "byte_power i (Suc n) = mul (byte_power i n) i"

lemma power_loop_eq: "power_loop n i x = mul x (byte_power i n)"
  by (induction n arbitrary: x) (simp_all add: byte_mul.assoc byte_mul.commute byte_mul.left_commute mul_one_right)

lemma byte_power_add: "byte_power a (m + n) = mul (byte_power a m) (byte_power a n)"
  by (induction n) (simp_all add: mul_one_right byte_mul.assoc)

lemma byte_power_mult: "byte_power (byte_power a m) n = byte_power a (m * n)"
  by (induction n) (simp_all add: byte_power_add byte_mul.commute)

definition byte_square :: "u8 \<Rightarrow> u8" where
  "byte_square a = mul a a"

lemma byte_square_linear: "xor_linear byte_square"
  by (rule xor_linearI)
    (simp add: byte_square_def mul_linear_left mul_linear_right mul_commute ac_simps)

lemma byte_power_two_exp: "byte_power a (2 ^ k) = (byte_square ^^ k) a"
proof (induction k)
  case 0
  show ?case by (simp add: mul_one_left)
next
  case (Suc k)
  have "byte_power a (2 ^ Suc k) = byte_power a (2 ^ k + 2 ^ k)" by (simp add: mult_2)
  then show ?case by (simp only: byte_power_add Suc byte_square_def) (simp add: byte_square_def)
qed

fun square_loop :: "nat \<Rightarrow> u8 \<Rightarrow> u8" where
  "square_loop 0 x = x"
| "square_loop (Suc n) x = square_loop n (byte_square x)"

lemma square_loop_eq: "square_loop n x = (byte_square ^^ n) x"
  by (induction n arbitrary: x) (simp_all add: funpow_swap1)

lemma byte_square_eight: "(byte_square ^^ 8) a = a"
proof (rule linear_eqI [OF xor_linear_funpow [OF byte_square_linear] xor_linear_id])
  show "(byte_square ^^ 8) (2 ^ i) = 2 ^ i" if "i \<in> {0, 1, 2, 3, 4, 5, 6, 7}" for i :: nat
    unfolding square_loop_eq [symmetric] using that by (elim insertE emptyE; hypsubst; code_simp)
qed

lemma byte_power_256: "byte_power a 256 = a"
  using byte_power_two_exp [of a 8] byte_square_eight by simp

lemma byte_power_cycle: "byte_power a (k * 255 + 1) = a"
proof (induction k)
  case 0
  show ?case by (simp add: mul_one_left)
next
  case (Suc k)
  have "byte_power a (Suc k * 255 + 1) = byte_power a ((k * 255 + 1) + 255)" by (simp add: ac_simps)
  also have "\<dots> = mul a (byte_power a 255)" by (subst byte_power_add) (simp only: Suc)
  also have "\<dots> = byte_power a (Suc 255)" by (simp only: byte_power.simps byte_mul.commute)
  finally show ?case using byte_power_256 [of a] by simp
qed

text \<open>The 254-th power, the multiplicative inverse of the source's comment, is an involution.\<close>

lemma byte_power_254_involution: "byte_power (byte_power a 254) 254 = a"
  using byte_power_cycle [of a 253] by (simp add: byte_power_mult)

subsection \<open>The substitution tables\<close>

definition affine_linear :: "u8 \<Rightarrow> u8" where
  "affine_linear x = x XOR word_rotl 1 x XOR word_rotl 2 x XOR word_rotl 3 x XOR word_rotl 4 x"

definition affine_linear_inverse :: "u8 \<Rightarrow> u8" where
  "affine_linear_inverse x = word_rotl 1 x XOR word_rotl 3 x XOR word_rotl 6 x"

lemma word_rotl_linear: "xor_linear (word_rotl n)"
  by (rule xor_linearI) (auto intro!: bit_word_eqI simp: bit_word_rotl_iff bit_xor_iff)

lemma affine_linear_linear: "xor_linear affine_linear"
  unfolding affine_linear_def
  by (intro xor_linear_xor xor_linear_id word_rotl_linear)

lemma affine_linear_inverse_linear: "xor_linear affine_linear_inverse"
  unfolding affine_linear_inverse_def
  by (intro xor_linear_xor xor_linear_id word_rotl_linear)

lemma affine_linear_invertible: "affine_linear_inverse (affine_linear x) = x"
proof (rule linear_eqI [OF xor_linear_comp [OF affine_linear_inverse_linear affine_linear_linear]
      xor_linear_id])
  show "affine_linear_inverse (affine_linear (2 ^ i)) = 2 ^ i"
    if "i \<in> {0, 1, 2, 3, 4, 5, 6, 7}" for i :: nat
    using that by (elim insertE emptyE; hypsubst; code_simp)
qed

lemma affine_inj: "affine x = affine y \<Longrightarrow> x = y"
proof -
  assume "affine x = affine y"
  moreover have "affine z XOR 0x63 = affine_linear z" for z
    by (simp add: affine_def affine_linear_def xor.assoc)
  ultimately have "affine_linear x = affine_linear y" by metis
  then show "x = y" by (metis affine_linear_invertible)
qed

lemma sbox_entry_eq: "sbox_entry i = affine (byte_power i 254)"
  by (simp only: sbox_entry_def power_loop_eq mul_one_left)

lemma sbox_entry_inj: "inj sbox_entry"
  by (rule injI) (metis sbox_entry_eq affine_inj byte_power_254_involution)

lemma sbox_entry_surj: "surj sbox_entry"
  by (rule finite_UNIV_inj_surj [OF finite sbox_entry_inj])

lemma boxes_fold:
  "n \<le> 256 \<Longrightarrow> fold boxes_step [0..<n] (replicate 256 0, replicate 256 0) = (sb, sb_inv) \<Longrightarrow>
     length sb = 256 \<and> length sb_inv = 256 \<and>
     (\<forall>i<n. sb ! i = sbox_entry (of_nat i) \<and> sb_inv ! unat (sbox_entry (of_nat i)) = of_nat i)"
proof (induction n arbitrary: sb sb_inv)
  case (Suc n)
  obtain sb' sb_inv' where prev: "fold boxes_step [0..<n] (replicate 256 0, replicate 256 0) = (sb', sb_inv')"
    by (cases "fold boxes_step [0..<n] (replicate 256 (0::u8), replicate 256 (0::u8))")
  let ?v = "sbox_entry (of_nat n)"
  have tables: "sb = sb'[n := ?v]" "sb_inv = sb_inv'[unat ?v := of_nat n]"
    using Suc.prems(2) unfolding upt_Suc_append [OF le0] fold_append comp_apply prev
    by (simp_all add: boxes_step_def Let_def)
  have bound: "unat w < 256" for w :: u8
    using unsigned_less [of w] by simp
  have distinct: "unat (sbox_entry (of_nat i)) \<noteq> unat ?v" if "i < n" for i
  proof
    assume "unat (sbox_entry (of_nat i)) = unat ?v"
    then have "(of_nat i :: u8) = of_nat n"
      using sbox_entry_inj by (simp add: inj_eq)
    then have "unat (of_nat i :: u8) = unat (of_nat n :: u8)" by simp
    then show False using that Suc.prems by (simp add: unat_of_nat)
  qed
  have IH: "length sb' = 256" "length sb_inv' = 256"
      "i < n \<Longrightarrow> sb' ! i = sbox_entry (of_nat i)"
      "i < n \<Longrightarrow> sb_inv' ! unat (sbox_entry (of_nat i)) = of_nat i" for i
    using Suc.IH [OF _ prev] Suc.prems(1) by auto
  have "n < 256" using Suc.prems(1) by simp
  then show ?case
    using bound [of ?v] distinct [symmetric] unfolding tables
    by (simp add: IH nth_list_update less_Suc_eq)
qed simp

lemma boxes_props:
  "length (fst boxes) = 256" "length (snd boxes) = 256"
  "fst boxes ! unat x = sbox_entry x" "snd boxes ! unat (sbox_entry x) = x"
proof -
  obtain sb sb_inv where tables: "boxes = (sb, sb_inv)" by (cases boxes)
  have facts: "length sb = 256 \<and> length sb_inv = 256 \<and>
      (\<forall>i<256. sb ! i = sbox_entry (of_nat i) \<and> sb_inv ! unat (sbox_entry (of_nat i)) = of_nat i)"
    by (rule boxes_fold) (use tables in \<open>simp_all add: boxes_def\<close>)
  have "unat x < 256" using unsigned_less [of x] by simp
  with facts have "sb ! unat x = sbox_entry (of_nat (unat x))"
      "sb_inv ! unat (sbox_entry (of_nat (unat x))) = of_nat (unat x)" by blast+
  with facts show "length (fst boxes) = 256" "length (snd boxes) = 256"
    "fst boxes ! unat x = sbox_entry x" "snd boxes ! unat (sbox_entry x) = x"
    unfolding tables by simp_all
qed

lemma boxes_inverse_of_sbox: "snd boxes ! unat (fst boxes ! unat x) = x"
  by (simp only: boxes_props)

lemma boxes_sbox_of_inverse: "fst boxes ! unat (snd boxes ! unat x) = x"
proof -
  obtain y where "x = sbox_entry y" using sbox_entry_surj by (metis surjD)
  then show ?thesis by (simp only: boxes_props)
qed

end
