(* ===== verification/Rijndael.thy ===== *)
theory Rijndael
  imports Rijndael_Field
begin

unbundle bit_operations_syntax

section \<open>The Master cipher\<close>

text \<open>
  The decryption of \<open>src/rijndael.rs\<close>: Rijndael with a block and a key of 256 bits, in cipher block
  chaining mode with the padding of PKCS 7.  The key schedule, the round function, the chaining loop
  and the padding check are translated; the program only decrypts, so the encryption that the
  ciphertext comes from is given here as a specification, in the textbook order of its rounds.

  The main results: the program's block decryption and the textbook encryption are inverse to each
  other for every key, and \<open>decrypt\<close> accepts a ciphertext with plaintext \<open>p\<close> exactly when that
  ciphertext is the encryption of \<open>p\<close>, so a Master file opens to one plaintext only.

  The error type of the Master modules, \<open>MasterError\<close> of \<open>src/master.rs\<close>, is declared here because
  the cipher is the lowest module that returns it.
\<close>

datatype IoKind = IoNotFound | IoOther

datatype MasterError =
    MasterBusy
  | MasterNotFound
  | MasterIo IoKind
  | MasterFormat
  | MasterLimit
  | MasterIntegrity
  | MasterCipher
  | MasterKey

subsection \<open>Key schedule\<close>

record Rijndael256 =
  words :: "u8 list list"
  inverse_box :: "u8 list"

definition chunk :: "nat \<Rightarrow> 'a list \<Rightarrow> nat \<Rightarrow> 'a list" where
  "chunk n xs i = take n (drop (n * i) xs)"

definition schedule_word :: "u8 list \<Rightarrow> nat \<Rightarrow> u8 \<Rightarrow> u8 list \<Rightarrow> u8 list" where
  "schedule_word sbox i rcon t =
     (if i mod 8 = 0 then
        let s = map (\<lambda>b. sbox ! unat b) (rotate1 t) in s[0 := s ! 0 XOR rcon]
      else if i mod 8 = 4 then map (\<lambda>b. sbox ! unat b) t
      else t)"

definition schedule_step :: "u8 list \<Rightarrow> nat \<Rightarrow> u8 list list \<times> u8 \<Rightarrow> u8 list list \<times> u8" where
  "schedule_step sbox i st = (case st of (ws, rcon) \<Rightarrow>
     (ws[i := map2 (\<lambda>w b. w XOR b) (ws ! (i - 8)) (schedule_word sbox i rcon (ws ! (i - 1)))],
      if i mod 8 = 0 then mul rcon 2 else rcon))"

definition rijndael_new :: "u8 list \<Rightarrow> Rijndael256" where
  "rijndael_new key = (case boxes of (sbox, inv_table) \<Rightarrow>
     \<lparr>words = fst (fold (schedule_step sbox) [8..<120]
         (map (chunk 4 key) [0..<8] @ replicate 112 (replicate 4 0), 1)),
      inverse_box = inv_table\<rparr>)"

subsection \<open>Rounds\<close>

definition add_key :: "Rijndael256 \<Rightarrow> u8 list \<Rightarrow> nat \<Rightarrow> u8 list" where
  "add_key c state round =
     map (\<lambda>i. state ! i XOR words c ! (round * 8 + i div 4) ! (i mod 4)) [0..<length state]"

definition row_shift :: "nat \<Rightarrow> nat" where
  "row_shift row = [0, 1, 3, 4] ! row"

definition inverse_shift_sub :: "Rijndael256 \<Rightarrow> u8 list \<Rightarrow> u8 list" where
  "inverse_shift_sub c previous =
     map (\<lambda>i. inverse_box c ! unat (previous !
            (((i div 4 + 8 - row_shift (i mod 4)) mod 8) * 4 + i mod 4))) [0..<32]"

definition column_byte :: "u8 list \<Rightarrow> nat \<Rightarrow> nat \<Rightarrow> u8" where
  "column_byte state i k = state ! (i div 4 * 4 + (i mod 4 + k) mod 4)"

definition inverse_mix :: "u8 list \<Rightarrow> u8 list" where
  "inverse_mix state =
     map (\<lambda>i. mul (column_byte state i 0) 14 XOR mul (column_byte state i 1) 11
               XOR mul (column_byte state i 2) 13 XOR mul (column_byte state i 3) 9) [0..<32]"

definition block_round :: "Rijndael256 \<Rightarrow> nat \<Rightarrow> u8 list \<Rightarrow> u8 list" where
  "block_round c round state =
     (let keyed = add_key c (inverse_shift_sub c state) round
      in if round \<noteq> 0 then inverse_mix keyed else keyed)"

definition block :: "Rijndael256 \<Rightarrow> u8 list \<Rightarrow> u8 list" where
  "block c input = fold (block_round c) (rev [0..<14]) (add_key c input 14)"

subsection \<open>Chaining and padding\<close>

definition xor_bytes :: "u8 list \<Rightarrow> u8 list \<Rightarrow> u8 list" where
  "xor_bytes = map2 (\<lambda>a b. a XOR b)"

fun decrypt_chain :: "Rijndael256 \<Rightarrow> u8 list \<Rightarrow> u8 list list \<Rightarrow> u8 list" where
  "decrypt_chain c previous [] = []"
| "decrypt_chain c previous (b # bs) = xor_bytes (block c b) previous @ decrypt_chain c b bs"

definition chunks :: "nat \<Rightarrow> 'a list \<Rightarrow> 'a list list" where
  "chunks n xs = map (chunk n xs) [0..<length xs div n]"

definition strip_padding :: "u8 list \<Rightarrow> MasterError + u8 list" where
  "strip_padding output =
     (if output = [] then Err MasterCipher
      else let padding = unat (last output)
      in if \<not> (1 \<le> padding \<and> padding \<le> 32) \<or>
            \<not> list_all (\<lambda>b. unat b = padding) (drop (length output - padding) output)
         then Err MasterCipher
         else Ok (take (length output - padding) output))"

definition decrypt :: "Rijndael256 \<Rightarrow> u8 list \<Rightarrow> u8 list \<Rightarrow> MasterError + u8 list" where
  "decrypt c encrypted iv =
     (if encrypted = [] \<or> length encrypted mod 32 \<noteq> 0 then Err MasterCipher
      else strip_padding (decrypt_chain c iv (chunks 32 encrypted)))"

subsection \<open>The encryption the ciphertexts come from\<close>

definition shift_sub :: "u8 list \<Rightarrow> u8 list" where
  "shift_sub state =
     map (\<lambda>i. fst boxes ! unat (state !
            (((i div 4 + row_shift (i mod 4)) mod 8) * 4 + i mod 4))) [0..<32]"

definition mix :: "u8 list \<Rightarrow> u8 list" where
  "mix state =
     map (\<lambda>i. mul (column_byte state i 0) 2 XOR mul (column_byte state i 1) 3
               XOR column_byte state i 2 XOR column_byte state i 3) [0..<32]"

text \<open>Round \<open>r\<close> of the textbook cipher adds the round key \<open>r\<close>, after the column mixing of all but the
  first round, and substitutes and shifts; the last round key closes the block.\<close>

definition encrypt_round :: "Rijndael256 \<Rightarrow> nat \<Rightarrow> u8 list \<Rightarrow> u8 list" where
  "encrypt_round c round state =
     shift_sub (add_key c (if round \<noteq> 0 then mix state else state) round)"

definition encrypt_block :: "Rijndael256 \<Rightarrow> u8 list \<Rightarrow> u8 list" where
  "encrypt_block c input = add_key c (fold (encrypt_round c) [0..<14] input) 14"

fun encrypt_chain :: "Rijndael256 \<Rightarrow> u8 list \<Rightarrow> u8 list list \<Rightarrow> u8 list" where
  "encrypt_chain c previous [] = []"
| "encrypt_chain c previous (p # ps) =
     (let b = encrypt_block c (xor_bytes p previous) in b @ encrypt_chain c b ps)"

definition pad :: "u8 list \<Rightarrow> u8 list" where
  "pad p = (let n = 32 - length p mod 32 in p @ replicate n (of_nat n))"

definition encrypt :: "Rijndael256 \<Rightarrow> u8 list \<Rightarrow> u8 list \<Rightarrow> u8 list" where
  "encrypt c p iv = encrypt_chain c iv (chunks 32 (pad p))"

subsection \<open>Round functions undo each other\<close>

lemma length_rounds [simp]:
  "length (add_key c st r) = length st"
  "length (inverse_shift_sub c st) = 32" "length (shift_sub st) = 32"
  "length (inverse_mix st) = 32" "length (mix st) = 32"
  by (simp_all add: add_key_def inverse_shift_sub_def shift_sub_def inverse_mix_def mix_def)

lemma add_key_twice: "add_key c (add_key c st r) r = st"
  by (rule nth_equalityI) (simp_all add: add_key_def xor.assoc)

lemma row_shift_le: "row < 4 \<Longrightarrow> row_shift row \<le> 4"
  by (cases "row = 0"; cases "row = 1"; cases "row = 2"; cases "row = 3") (auto simp: row_shift_def)

lemma shift_index_cancel:
  assumes "c < 8" "s \<le> (4::nat)"
  shows "((c + 8 - s) mod 8 + s) mod 8 = c" "((c + s) mod 8 + 8 - s) mod 8 = c"
proof -
  have "((c + 8 - s) mod 8 + s) mod 8 = (c + 8 - s + s) mod 8" by (rule mod_add_left_eq)
  also have "c + 8 - s + s = c + 8" using assms by simp
  finally show "((c + 8 - s) mod 8 + s) mod 8 = c" using assms by simp
  have "((c + s) mod 8 + 8 - s) mod 8 = ((c + s) mod 8 + (8 - s)) mod 8" using assms by simp
  also have "\<dots> = (c + s + (8 - s)) mod 8" by (rule mod_add_left_eq)
  also have "c + s + (8 - s) = c + 8" using assms by simp
  finally show "((c + s) mod 8 + 8 - s) mod 8 = c" using assms by simp
qed

lemma state_index:
  assumes "i < (32::nat)"
  shows "i div 4 < 8" "i mod 4 < 4" "i div 4 * 4 + i mod 4 = i"
  using assms by auto

lemma packed_index:
  assumes "r < (4::nat)"
  shows "(c * 4 + r) div 4 = c" "(c * 4 + r) mod 4 = r"
  using assms by auto

lemma packed_bound: "(c::nat) mod 8 * 4 + i mod 4 < 32"
proof -
  have "c mod 8 < 8" "i mod 4 < 4" by simp_all
  then show ?thesis by linarith
qed

lemma inverse_shift_sub_nth:
  "i < 32 \<Longrightarrow> inverse_shift_sub c st ! i =
     inverse_box c ! unat (st ! (((i div 4 + 8 - row_shift (i mod 4)) mod 8) * 4 + i mod 4))"
  by (simp add: inverse_shift_sub_def)

lemma shift_sub_nth:
  "i < 32 \<Longrightarrow> shift_sub st ! i =
     fst boxes ! unat (st ! (((i div 4 + row_shift (i mod 4)) mod 8) * 4 + i mod 4))"
  by (simp add: shift_sub_def)

lemma inverse_shift_sub_shift_sub:
  assumes c: "inverse_box c = snd boxes" and st: "length st = 32"
  shows "inverse_shift_sub c (shift_sub st) = st"
proof (rule nth_equalityI)
  fix i assume "i < length (inverse_shift_sub c (shift_sub st))"
  then have i: "i < 32" by simp
  show "inverse_shift_sub c (shift_sub st) ! i = st ! i"
    by (simp only: inverse_shift_sub_nth i shift_sub_nth packed_bound packed_index state_index(2,3) c
      shift_index_cancel [OF state_index(1) [OF i] row_shift_le [OF state_index(2) [OF i]]]
      boxes_inverse_of_sbox)
qed (simp add: st)

lemma shift_sub_inverse_shift_sub:
  assumes c: "inverse_box c = snd boxes" and st: "length st = 32"
  shows "shift_sub (inverse_shift_sub c st) = st"
proof (rule nth_equalityI)
  fix i assume "i < length (shift_sub (inverse_shift_sub c st))"
  then have i: "i < 32" by simp
  show "shift_sub (inverse_shift_sub c st) ! i = st ! i"
    by (simp only: inverse_shift_sub_nth i shift_sub_nth packed_bound packed_index state_index(2,3) c
      shift_index_cancel [OF state_index(1) [OF i] row_shift_le [OF state_index(2) [OF i]]]
      boxes_sbox_of_inverse)
qed (simp add: st)

lemma column_byte_index:
  assumes "i < (32::nat)"
  shows "i div 4 * 4 + (i mod 4 + k) mod 4 < 32"
    and "(i div 4 * 4 + (i mod 4 + k) mod 4) div 4 = i div 4"
    and "((i div 4 * 4 + (i mod 4 + k) mod 4) mod 4 + l) mod 4 = (i mod 4 + (k + l)) mod 4"
proof -
  have r: "(i mod 4 + k) mod 4 < 4" and c: "i div 4 < 8" using assms by simp_all
  show "i div 4 * 4 + (i mod 4 + k) mod 4 < 32" using r c by linarith
  show "(i div 4 * 4 + (i mod 4 + k) mod 4) div 4 = i div 4" by (rule packed_index(1) [OF r])
  have "((i div 4 * 4 + (i mod 4 + k) mod 4) mod 4 + l) mod 4 = ((i mod 4 + k) mod 4 + l) mod 4"
    by (simp only: packed_index(2) [OF r])
  also have "\<dots> = (i mod 4 + k + l) mod 4" by (rule mod_add_left_eq)
  finally show "((i div 4 * 4 + (i mod 4 + k) mod 4) mod 4 + l) mod 4 = (i mod 4 + (k + l)) mod 4"
    by (simp only: add.assoc)
qed

lemma column_byte_column_byte:
  "i < 32 \<Longrightarrow> column_byte st (i div 4 * 4 + (i mod 4 + k) mod 4) l = column_byte st i (k + l)"
  unfolding column_byte_def by (simp only: column_byte_index)

lemma mix_nth:
  "i < 32 \<Longrightarrow> mix st ! i = mul (column_byte st i 0) 2 XOR mul (column_byte st i 1) 3
      XOR column_byte st i 2 XOR column_byte st i 3"
  by (simp add: mix_def)

lemma inverse_mix_nth:
  "i < 32 \<Longrightarrow> inverse_mix st ! i = mul (column_byte st i 0) 14 XOR mul (column_byte st i 1) 11
      XOR mul (column_byte st i 2) 13 XOR mul (column_byte st i 3) 9"
  by (simp add: inverse_mix_def)

lemma column_byte_mix:
  assumes "i < 32"
  shows "column_byte (mix st) i k = mul (column_byte st i k) 2 XOR mul (column_byte st i (k + 1)) 3
      XOR column_byte st i (k + 2) XOR column_byte st i (k + 3)"
  unfolding column_byte_def [of "mix st"]
  by (simp only: mix_nth column_byte_index(1) column_byte_column_byte assms add_0_right)

lemma column_byte_inverse_mix:
  assumes "i < 32"
  shows "column_byte (inverse_mix st) i k =
    mul (column_byte st i k) 14 XOR mul (column_byte st i (k + 1)) 11
      XOR mul (column_byte st i (k + 2)) 13 XOR mul (column_byte st i (k + 3)) 9"
  unfolding column_byte_def [of "inverse_mix st"]
  by (simp only: inverse_mix_nth column_byte_index(1) column_byte_column_byte assms add_0_right)

lemma column_byte_cycle: "column_byte st i (k + 4) = column_byte st i k"
  unfolding column_byte_def by (simp only: add.assoc [symmetric] mod_add_self2)

lemma column_byte_wrap:
  "column_byte st i (1 + 3) = column_byte st i 0" "column_byte st i (2 + 2) = column_byte st i 0"
  "column_byte st i (3 + 1) = column_byte st i 0" "column_byte st i (2 + 3) = column_byte st i 1"
  "column_byte st i (3 + 2) = column_byte st i 1" "column_byte st i (3 + 3) = column_byte st i 2"
  using column_byte_cycle [of st i 0] column_byte_cycle [of st i 1] column_byte_cycle [of st i 2]
  by simp_all

lemma column_sums:
  "(0::nat) + n = n" "(1::nat) + 1 = 2" "(1::nat) + 2 = 3" "(2::nat) + 1 = 3"
  by simp_all

lemma column_byte_0: "column_byte st i 0 = st ! i"
  by (simp add: column_byte_def)

lemma mul_columns:
  "mul a w XOR mul a x XOR mul a y XOR mul a z = mul a (w XOR x XOR y XOR z)"
  by (simp only: mul_linear_right)

lemma mul_zero_right: "mul a 0 = 0"
  by (rule xor_linear_zero [OF mul_right_linear])

text \<open>The two column matrices are inverse: every product coefficient is computed once, as a sum of
  four byte products.\<close>

lemmas xor_ac = xor.assoc xor.commute xor.left_commute

lemma inverse_mix_column:
  "mul (mul a 2 XOR mul b 3 XOR c XOR d) 14 XOR mul (mul b 2 XOR mul c 3 XOR d XOR a) 11 XOR
   mul (mul c 2 XOR mul d 3 XOR a XOR b) 13 XOR mul (mul d 2 XOR mul a 3 XOR b XOR c) 9 = a"
  (is "?lhs = a")
proof -
  have "?lhs = (mul a (mul 2 14) XOR mul a 11 XOR mul a 13 XOR mul a (mul 3 9)) XOR
      (mul b (mul 3 14) XOR mul b (mul 2 11) XOR mul b 13 XOR mul b 9) XOR
      (mul c 14 XOR mul c (mul 3 11) XOR mul c (mul 2 13) XOR mul c 9) XOR
      (mul d 14 XOR mul d 11 XOR mul d (mul 3 13) XOR mul d (mul 2 9))"
    by (simp only: mul_linear_left mul_assoc xor_ac)
  moreover have "mul 2 14 XOR 11 XOR 13 XOR mul 3 9 = 1" "mul 3 14 XOR mul 2 11 XOR 13 XOR 9 = 0"
    "14 XOR mul 3 11 XOR mul 2 13 XOR 9 = 0" "14 XOR 11 XOR mul 3 13 XOR mul 2 9 = 0"
    by code_simp+
  ultimately show ?thesis by (simp only: mul_columns mul_zero_right mul_one_right xor.right_neutral)
qed

lemma mix_inverse_column:
  "mul (mul a 14 XOR mul b 11 XOR mul c 13 XOR mul d 9) 2 XOR
   mul (mul b 14 XOR mul c 11 XOR mul d 13 XOR mul a 9) 3 XOR
   (mul c 14 XOR mul d 11 XOR mul a 13 XOR mul b 9) XOR
   (mul d 14 XOR mul a 11 XOR mul b 13 XOR mul c 9) = a"
  (is "?lhs = a")
proof -
  have "?lhs = (mul a (mul 14 2) XOR mul a (mul 9 3) XOR mul a 13 XOR mul a 11) XOR
      (mul b (mul 11 2) XOR mul b (mul 14 3) XOR mul b 9 XOR mul b 13) XOR
      (mul c (mul 13 2) XOR mul c (mul 11 3) XOR mul c 14 XOR mul c 9) XOR
      (mul d (mul 9 2) XOR mul d (mul 13 3) XOR mul d 11 XOR mul d 14)"
    by (simp only: mul_linear_left mul_assoc xor_ac)
  moreover have "mul 14 2 XOR mul 9 3 XOR 13 XOR 11 = 1" "mul 11 2 XOR mul 14 3 XOR 9 XOR 13 = 0"
    "mul 13 2 XOR mul 11 3 XOR 14 XOR 9 = 0" "mul 9 2 XOR mul 13 3 XOR 11 XOR 14 = 0"
    by code_simp+
  ultimately show ?thesis by (simp only: mul_columns mul_zero_right mul_one_right xor.right_neutral)
qed

lemma inverse_mix_mix:
  assumes "length st = 32" shows "inverse_mix (mix st) = st"
proof (rule nth_equalityI)
  fix i assume "i < length (inverse_mix (mix st))"
  then have i: "i < 32" by simp
  have "inverse_mix (mix st) ! i = column_byte st i 0"
    by (simp only: inverse_mix_nth i column_byte_mix column_sums column_byte_wrap inverse_mix_column)
  then show "inverse_mix (mix st) ! i = st ! i" by (simp only: column_byte_0)
qed (simp add: assms)

lemma mix_inverse_mix:
  assumes "length st = 32" shows "mix (inverse_mix st) = st"
proof (rule nth_equalityI)
  fix i assume "i < length (mix (inverse_mix st))"
  then have i: "i < 32" by simp
  have "mix (inverse_mix st) ! i = column_byte st i 0"
    by (simp only: mix_nth i column_byte_inverse_mix column_sums column_byte_wrap mix_inverse_column)
  then show "mix (inverse_mix st) ! i = st ! i" by (simp only: column_byte_0)
qed (simp add: assms)

subsection \<open>Blocks\<close>

lemma round_undone:
  assumes "inverse_box c = snd boxes" "length st = 32"
  shows "block_round c r (encrypt_round c r st) = st"
    and "encrypt_round c r (block_round c r st) = st"
  using assms
  by (simp_all add: block_round_def encrypt_round_def Let_def inverse_shift_sub_shift_sub
      shift_sub_inverse_shift_sub add_key_twice inverse_mix_mix mix_inverse_mix)

lemma length_block_round [simp]: "length (block_round c r st) = 32"
  by (simp add: block_round_def Let_def)

lemma length_encrypt_round [simp]: "length (encrypt_round c r st) = 32"
  by (simp add: encrypt_round_def)

lemma length_fold_rounds:
  "length st = 32 \<Longrightarrow> length (fold (block_round c) rs st) = 32"
  "length st = 32 \<Longrightarrow> length (fold (encrypt_round c) rs st) = 32"
  by (induction rs arbitrary: st) simp_all

lemma rounds_undone:
  assumes "inverse_box c = snd boxes"
  shows "length st = 32 \<Longrightarrow> fold (block_round c) (rev rs) (fold (encrypt_round c) rs st) = st"
    and "length st = 32 \<Longrightarrow> fold (encrypt_round c) rs (fold (block_round c) (rev rs) st) = st"
proof (induction rs arbitrary: st)
  case (Cons r rs)
  {
    case 1
    then show ?case using Cons.IH(1) [of "encrypt_round c r st"]
      by (simp add: round_undone [OF assms])
  next
    case 2
    then show ?case using Cons.IH(2) [of st]
      by (simp add: round_undone [OF assms] length_fold_rounds)
  }
qed simp_all

lemma block_encrypt_block:
  assumes "inverse_box c = snd boxes" "length b = 32"
  shows "block c (encrypt_block c b) = b" and "encrypt_block c (block c b) = b"
  unfolding block_def encrypt_block_def
  using rounds_undone [OF assms(1), of _ "[0..<14]"] assms(2)
  by (simp_all only: add_key_twice length_rounds)

lemma length_block [simp]: "length b = 32 \<Longrightarrow> length (block c b) = 32"
  by (simp add: block_def length_fold_rounds)

lemma length_encrypt_block [simp]: "length b = 32 \<Longrightarrow> length (encrypt_block c b) = 32"
  by (simp add: encrypt_block_def length_fold_rounds)

lemma inverse_box_new: "inverse_box (rijndael_new key) = snd boxes"
  by (simp add: rijndael_new_def case_prod_unfold)

subsection \<open>Chains of blocks\<close>

lemma length_xor_bytes [simp]: "length (xor_bytes a b) = min (length a) (length b)"
  by (simp add: xor_bytes_def)

lemma xor_bytes_twice: "length a = length b \<Longrightarrow> xor_bytes (xor_bytes a b) b = a"
  by (rule nth_equalityI) (simp_all add: xor_bytes_def xor.assoc)

lemma length_chunks: "length (chunks n xs) = length xs div n"
  by (simp add: chunks_def)

lemma chunks_nth: "i < length xs div n \<Longrightarrow> chunks n xs ! i = chunk n xs i"
  by (simp add: chunks_def)

lemma chunks_append:
  assumes "0 < n" "length a = n"
  shows "chunks n (a @ b) = a # chunks n b"
proof (rule nth_equalityI)
  show "length (chunks n (a @ b)) = length (a # chunks n b)"
    using assms by (simp add: length_chunks div_add_self1)
next
  fix i assume "i < length (chunks n (a @ b))"
  then show "chunks n (a @ b) ! i = (a # chunks n b) ! i"
    using assms by (cases i) (simp_all add: chunks_nth length_chunks chunk_def div_add_self1)
qed

lemma chunks_short [simp]: "chunks n [] = []"
  by (simp add: chunks_def)

lemma chunks_concat:
  assumes "0 < n" "list_all (\<lambda>b. length b = n) bs"
  shows "chunks n (concat bs) = bs"
  using assms(2) by (induction bs) (simp_all add: chunks_append [OF assms(1)])

lemma chunks_blocks:
  assumes "0 < n" "length xs mod n = 0"
  shows "concat (chunks n xs) = xs \<and> list_all (\<lambda>b. length b = n) (chunks n xs)"
  using assms(2)
proof (induction "length xs div n" arbitrary: xs)
  case 0
  then have "xs = []" using assms(1) by (metis div_mult_mod_eq length_0_conv mult_is_0 add_0_right)
  then show ?case by simp
next
  case (Suc k)
  let ?a = "take n xs" and ?b = "drop n xs"
  have len: "n \<le> length xs"
    using Suc.hyps(2) by (metis div_less not_less nat.distinct(1))
  then have b: "length ?b mod n = 0" "length ?b div n = k"
    using Suc.prems Suc.hyps(2) assms(1) by (simp_all add: le_mod_geq [symmetric] le_div_geq)
  have "chunks n (?a @ ?b) = ?a # chunks n ?b"
    by (rule chunks_append [OF assms(1)]) (use len in simp)
  moreover have "concat (chunks n ?b) = ?b \<and> list_all (\<lambda>b. length b = n) (chunks n ?b)"
    using Suc.hyps(1) b by metis
  ultimately show ?case using len by simp
qed

lemma chain_encrypt_chain:
  assumes "inverse_box c = snd boxes" "length prev = 32" "list_all (\<lambda>b. length b = 32) ps"
  shows "decrypt_chain c prev (chunks 32 (encrypt_chain c prev ps)) = concat ps"
  using assms(2,3)
proof (induction ps arbitrary: prev)
  case (Cons p ps)
  then show ?case
    by (simp add: Let_def chunks_append block_encrypt_block [OF assms(1)] xor_bytes_twice)
qed simp

lemma encrypt_chain_chain:
  assumes "inverse_box c = snd boxes" "length prev = 32" "list_all (\<lambda>b. length b = 32) bs"
  shows "encrypt_chain c prev (chunks 32 (decrypt_chain c prev bs)) = concat bs"
  using assms(2,3)
proof (induction bs arbitrary: prev)
  case (Cons b bs)
  then show ?case
    by (simp add: Let_def chunks_append block_encrypt_block [OF assms(1)] xor_bytes_twice)
qed simp

lemma length_chain:
  "length prev = 32 \<Longrightarrow> list_all (\<lambda>b. length b = 32) bs \<Longrightarrow> length (decrypt_chain c prev bs) = 32 * length bs"
  by (induction bs arbitrary: prev) simp_all

lemma length_encrypt_chain:
  "length prev = 32 \<Longrightarrow> list_all (\<lambda>b. length b = 32) ps \<Longrightarrow>
     length (encrypt_chain c prev ps) = 32 * length ps"
  by (induction ps arbitrary: prev) (simp_all add: Let_def)

subsection \<open>Padding\<close>

lemma pad_shape:
  "\<exists>n. 1 \<le> n \<and> n \<le> 32 \<and> pad p = p @ replicate n (of_nat n) \<and> n = 32 - length p mod 32"
  by (rule exI [of _ "32 - length p mod 32"]) (simp add: pad_def Let_def Suc_leI)

lemma length_pad: "length (pad p) mod 32 = 0" "pad p \<noteq> []"
proof -
  have "length p mod 32 < 32" by simp
  then have "length p + (32 - length p mod 32) = 32 * (length p div 32 + 1)"
    by presburger
  then show "length (pad p) mod 32 = 0" by (simp add: pad_def Let_def)
  show "pad p \<noteq> []" using pad_shape [of p] by auto
qed

lemma unat_small: "n \<le> 32 \<Longrightarrow> unat (of_nat n :: u8) = n"
  by (simp add: unat_of_nat)

lemma strip_padding_pad: "strip_padding (pad p) = Ok p"
proof -
  obtain n where n: "1 \<le> n" "n \<le> 32" "pad p = p @ replicate n (of_nat n)"
    using pad_shape by blast
  then have "last (pad p) = of_nat n" by simp
  with n show ?thesis by (simp add: strip_padding_def Let_def unat_small list_all_iff)
qed

lemma padding_length:
  assumes total: "(n + k) mod 32 = (0::nat)" and k: "1 \<le> k" "k \<le> 32"
  shows "k = 32 - n mod 32"
proof -
  let ?m = "n mod 32"
  have m: "?m < 32" by simp
  have sum: "(?m + k) mod 32 = 0" using total by (simp add: mod_add_left_eq)
  have "?m + k = 32"
  proof (rule linorder_cases)
    assume "?m + k < 32"
    then show ?thesis using sum k by (simp add: mod_less)
  next
    assume less: "32 < ?m + k"
    then have "(?m + k - 32) mod 32 = 0" using sum by (simp only: le_mod_geq less_imp_le)
    moreover have "?m + k - 32 < 32" using m k by linarith
    ultimately show ?thesis using less by (simp add: mod_less)
  qed
  then show ?thesis by simp
qed

lemma strip_padding_Ok:
  assumes ok: "strip_padding out = Ok p" and len: "length out mod 32 = 0"
  shows "out = pad p"
proof -
  define k where "k = unat (last out)"
  have ne: "out \<noteq> []" and k: "1 \<le> k" "k \<le> 32"
    and tail: "list_all (\<lambda>b. unat b = k) (drop (length out - k) out)"
    and p: "p = take (length out - k) out"
    using ok by (simp_all add: strip_padding_def k_def Let_def split: if_splits)
  have "32 \<le> length out" using ne len by (metis dvd_imp_le length_greater_0_conv mod_0_imp_dvd)
  then have kl: "k \<le> length out" using k by simp
  have "drop (length out - k) out = replicate k (of_nat k)"
  proof (rule nth_equalityI)
    fix i assume i: "i < length (drop (length out - k) out)"
    have "unat (drop (length out - k) out ! i) = k" using tail i by (simp add: list_all_length)
    then have "of_nat (unat (drop (length out - k) out ! i)) = (of_nat k :: u8)" by simp
    then show "drop (length out - k) out ! i = replicate k (of_nat k) ! i"
      using i kl by (simp only: of_nat_unat ucast_id nth_replicate length_drop diff_diff_cancel)
  qed (use kl in simp)
  then have out: "out = p @ replicate k (of_nat k)" by (metis p append_take_drop_id)
  have "length out = length p + k" using p kl by simp
  then have "(length p + k) mod 32 = 0" using len by simp
  then have "k = 32 - length p mod 32" by (rule padding_length [OF _ k])
  with out show ?thesis by (simp add: pad_def Let_def)
qed

subsection \<open>Decryption\<close>

lemma length_encrypt:
  assumes "length iv = 32" shows "length (encrypt c p iv) = length (pad p)"
proof -
  have "list_all (\<lambda>b. length b = 32) (chunks 32 (pad p))"
    using chunks_blocks [of 32 "pad p"] length_pad by simp
  then have "length (encrypt c p iv) = 32 * (length (pad p) div 32)"
    by (simp add: encrypt_def length_encrypt_chain assms length_chunks)
  then show ?thesis using length_pad(1) [of p] by (metis add.right_neutral mult_div_mod_eq)
qed

lemma decrypt_encrypt:
  assumes c: "inverse_box c = snd boxes" and iv: "length iv = 32"
  shows "decrypt c (encrypt c p iv) iv = Ok p"
proof -
  have blocks: "concat (chunks 32 (pad p)) = pad p" "list_all (\<lambda>b. length b = 32) (chunks 32 (pad p))"
    using chunks_blocks [of 32 "pad p"] length_pad by simp_all
  have len: "length (encrypt c p iv) = length (pad p)" by (rule length_encrypt [OF iv])
  then have "encrypt c p iv \<noteq> []" using length_pad(2) by fastforce
  then show ?thesis
    using len length_pad(1) strip_padding_pad
    by (simp add: decrypt_def encrypt_def chain_encrypt_chain [OF c iv] blocks)
qed

lemma decrypt_Ok:
  assumes c: "inverse_box c = snd boxes" and iv: "length iv = 32" and ok: "decrypt c e iv = Ok p"
  shows "e = encrypt c p iv"
proof -
  have e: "length e mod 32 = 0" and strip: "strip_padding (decrypt_chain c iv (chunks 32 e)) = Ok p"
    using ok by (simp_all add: decrypt_def split: if_splits)
  have blocks: "concat (chunks 32 e) = e" "list_all (\<lambda>b. length b = 32) (chunks 32 e)"
    using chunks_blocks [of 32 e] e by simp_all
  have "length (decrypt_chain c iv (chunks 32 e)) mod 32 = 0" by (simp add: length_chain iv blocks)
  then have "decrypt_chain c iv (chunks 32 e) = pad p" by (rule strip_padding_Ok [OF strip])
  then show ?thesis
    using encrypt_chain_chain [OF c iv blocks(2)] blocks(1) by (simp add: encrypt_def)
qed

lemma decrypt_Err: "decrypt c e iv = Err x \<Longrightarrow> x = MasterCipher"
  by (auto simp: decrypt_def strip_padding_def Let_def split: if_splits)

subsection \<open>The expanded key\<close>

lemma length_schedule_word [simp]: "length (schedule_word sbox i rcon t) = length t"
  by (simp add: schedule_word_def Let_def)

text \<open>What the first \<open>n\<close> entries of the expanded key satisfy once the loop has reached \<open>n\<close>: the
  recurrence of the key schedule, with the round constant in closed form.\<close>

definition expanded_to :: "u8 list \<Rightarrow> nat \<Rightarrow> u8 list list \<Rightarrow> bool" where
  "expanded_to key n ws \<longleftrightarrow> length ws = 120 \<and> list_all (\<lambda>w. length w = 4) ws \<and>
     (\<forall>i<n. ws ! i = (if i < 8 then chunk 4 key i else
        map2 (\<lambda>w b. w XOR b) (ws ! (i - 8))
          (schedule_word (fst boxes) i (byte_power 2 (i div 8 - 1)) (ws ! (i - 1)))))"

lemma schedule_step_expanded:
  assumes inv: "expanded_to key i ws" and i: "8 \<le> i" "i < 120"
    and rcon: "i mod 8 = 0 \<Longrightarrow> rcon = byte_power 2 (i div 8 - 1)"
  shows "expanded_to key (Suc i) (fst (schedule_step (fst boxes) i (ws, rcon)))"
proof -
  let ?next = "map2 (\<lambda>w b. w XOR b) (ws ! (i - 8))
    (schedule_word (fst boxes) i (byte_power 2 (i div 8 - 1)) (ws ! (i - 1)))"
  have len: "length ws = 120" and four: "length (ws ! j) = 4" if "j < 120" for j
    using inv that by (auto simp: expanded_to_def list_all_length)
  have "schedule_word (fst boxes) i rcon t = schedule_word (fst boxes) i (byte_power 2 (i div 8 - 1)) t" for t
    using rcon by (simp add: schedule_word_def)
  then have step: "fst (schedule_step (fst boxes) i (ws, rcon)) = ws[i := ?next]"
    by (simp add: schedule_step_def)
  have shape: "list_all (\<lambda>w. length w = 4) (ws[i := ?next])"
    using four i len by (auto simp: list_all_length nth_list_update)
  show ?thesis unfolding step expanded_to_def
  proof (intro conjI allI impI)
    fix j assume j: "j < Suc i"
    show "ws[i := ?next] ! j = (if j < 8 then chunk 4 key j else
        map2 (\<lambda>w b. w XOR b) (ws[i := ?next] ! (j - 8))
          (schedule_word (fst boxes) j (byte_power 2 (j div 8 - 1)) (ws[i := ?next] ! (j - 1))))"
    proof (cases "j = i")
      case True
      then show ?thesis using i len by simp
    next
      case False
      then have "j < i" using j by simp
      moreover have "i \<noteq> j - 8" "i \<noteq> j - 1" using \<open>j < i\<close> by simp_all
      ultimately show ?thesis using inv False by (simp add: expanded_to_def)
    qed
  qed (use shape len i in auto)
qed

lemma div_pred:
  "n mod 8 = 0 \<Longrightarrow> (n - 1) div 8 = n div 8 - (1::nat)"
  "n mod 8 \<noteq> 0 \<Longrightarrow> (n - 1) div 8 = n div (8::nat)"
proof -
  have n: "n = 8 * (n div 8) + n mod 8" by simp
  show "(n - 1) div 8 = n div 8 - 1" if "n mod 8 = 0"
    using n that by (cases "n div 8") simp_all
  show "(n - 1) div 8 = n div 8" if "n mod 8 \<noteq> 0"
  proof -
    have "n - 1 = 8 * (n div 8) + (n mod 8 - 1)" using n that by linarith
    moreover have "n mod 8 - 1 < 8" using mod_less_divisor [of 8 n] by linarith
    ultimately show ?thesis by simp
  qed
qed

lemma schedule_fold:
  assumes "length key = 32" "8 \<le> n" "n \<le> 120"
  shows "\<exists>ws. fold (schedule_step (fst boxes)) [8..<n]
      (map (chunk 4 key) [0..<8] @ replicate 112 (replicate 4 0), 1) = (ws, byte_power 2 ((n - 1) div 8))
    \<and> expanded_to key n ws"
  using assms(2,3)
proof (induction n rule: nat_induct_at_least)
  case base
  have "expanded_to key 8 (map (chunk 4 key) [0..<8] @ replicate 112 (replicate 4 0))"
    using assms(1) by (simp add: expanded_to_def nth_append list_all_iff chunk_def)
  then show ?case by simp
next
  case (Suc n)
  then obtain ws where ws: "fold (schedule_step (fst boxes)) [8..<n]
      (map (chunk 4 key) [0..<8] @ replicate 112 (replicate 4 0), 1) = (ws, byte_power 2 ((n - 1) div 8))"
    and inv: "expanded_to key n ws" by auto
  let ?rcon = "byte_power 2 ((n - 1) div 8)"
  have closed: "(n - 1) div 8 = n div 8 - 1" if "n mod 8 = 0" using that by (rule div_pred(1))
  then have "expanded_to key (Suc n) (fst (schedule_step (fst boxes) n (ws, ?rcon)))"
    by (intro schedule_step_expanded [OF inv]) (use Suc in auto)
  moreover have "snd (schedule_step (fst boxes) n (ws, ?rcon)) = byte_power 2 ((Suc n - 1) div 8)"
  proof (cases "n mod 8 = 0")
    case True
    then have "n div 8 = Suc ((n - 1) div 8)" using div_pred(1) [OF True] Suc(1) by simp
    with True show ?thesis by (simp add: schedule_step_def)
  next
    case False
    then have "n div 8 = (n - 1) div 8" using div_pred(2) by simp
    with False show ?thesis by (simp add: schedule_step_def)
  qed
  moreover have "fold (schedule_step (fst boxes)) [8..<Suc n]
      (map (chunk 4 key) [0..<8] @ replicate 112 (replicate 4 0), 1) =
    schedule_step (fst boxes) n (ws, ?rcon)"
    unfolding upt_Suc_append [OF Suc(1)] fold_append comp_apply ws by simp
  ultimately show ?case by (metis prod.collapse)
qed

lemma words_expanded:
  assumes "length key = 32"
  shows "expanded_to key 120 (words (rijndael_new key))"
proof -
  obtain ws where "fold (schedule_step (fst boxes)) [8..<120]
      (map (chunk 4 key) [0..<8] @ replicate 112 (replicate 4 0), 1) = (ws, byte_power 2 ((120 - 1) div 8))"
    "expanded_to key 120 ws"
    using schedule_fold [OF assms, of 120] by auto
  then show ?thesis
    by (simp only: rijndael_new_def case_prod_unfold Rijndael256.select_convs fst_conv)
qed

subsection \<open>Properties\<close>





end
