(* ===== verification/Master_Format.thy ===== *)
theory Master_Format
  imports Rijndael Game_Rpc "HOL-Library.Multiset"
begin

section \<open>Master manifests, inventories and table files\<close>

text \<open>
  The documents of the Master store and their validation, from \<open>src/master.rs\<close> and
  \<open>src/master_registry.rs\<close>: the encrypted bundle's manifest and \<open>Manifest::parse\<close>, the plaintext
  inventory and \<open>Inventory::validate\<close>, the published manifest and \<open>PublishedManifest::validate\<close>, the
  receipt fields, the key parser and \<open>MasterDecoder::decode\<close>.

  File contents are byte lists, text is a \<^typ>\<open>string\<close>.  SHA-256, gzip and the JSON reader and
  writer of serde are third-party code: the record \<open>master_lib\<close> holds them as functions, and a
  theorem that needs one of their documented laws (a written document reads back) states it for the
  documents concerned.  \<open>ml_dir_len\<close> is the length the platform reports for a directory.  Writing these structures cannot fail, so the writers are sz.
\<close>

subsection \<open>Documents\<close>

record master_entry =
  en_name :: string
  en_hash :: string
  en_size :: nat

record master_manifest =
  mf_version :: string
  mf_files :: "master_entry list"

record table_file =
  tf_name :: string
  tf_size :: nat
  tf_sha256 :: string

record table_inventory =
  iv_schema_version :: nat
  iv_version :: string
  iv_files :: "table_file list"

record master_scope =
  sc_region :: region
  sc_environment :: string
  sc_platform :: platform

record published_manifest =
  pm_schema_version :: nat
  pm_scope :: master_scope
  pm_snapshot :: string
  pm_version :: string
  pm_resource_version :: "string option"
  pm_content_sha256 :: string
  pm_files :: "table_file list"
  pm_source_manifest :: master_manifest

record import_receipt =
  rc_version :: string
  rc_snapshot :: string
  rc_tables :: nat
  rc_json_bytes :: nat
  rc_source :: string
  rc_region :: region
  rc_resource_version :: "string option"

record publication =
  pb_schema_version :: nat
  pb_snapshot :: string
  pb_previous_snapshot :: "string option"
  pb_published_at :: instant

record retention_record =
  rr_schema_version :: nat
  rr_boundary :: string

record master_lib =
  ml_sha256 :: "u8 list \<Rightarrow> string"
  ml_gunzip :: "u8 list \<Rightarrow> nat \<Rightarrow> u8 list option"
  ml_validate_json :: "u8 list \<Rightarrow> bool"
  ml_de_value :: "u8 list \<Rightarrow> json option"
  ml_ser_value :: "json \<Rightarrow> u8 list"
  ml_de_manifest :: "u8 list \<Rightarrow> master_manifest option"
  ml_ser_manifest :: "master_manifest \<Rightarrow> u8 list"
  ml_de_inventory :: "u8 list \<Rightarrow> table_inventory option"
  ml_ser_inventory :: "table_inventory \<Rightarrow> u8 list"
  ml_de_published :: "u8 list \<Rightarrow> published_manifest option"
  ml_ser_published :: "published_manifest \<Rightarrow> u8 list"
  ml_de_publication :: "u8 list \<Rightarrow> publication option"
  ml_ser_publication :: "publication \<Rightarrow> u8 list"
  ml_de_retention :: "u8 list \<Rightarrow> retention_record option"
  ml_ser_retention :: "retention_record \<Rightarrow> u8 list"
  ml_ser_receipt :: "import_receipt \<Rightarrow> u8 list"
  ml_dir_len :: nat
  ml_ser_content :: "master_scope \<Rightarrow> master_manifest \<Rightarrow> table_file list \<Rightarrow> u8 list"

definition MAX_MANIFEST :: nat where "MAX_MANIFEST = 1024 * 1024"
definition MAX_ENCRYPTED :: nat where "MAX_ENCRYPTED = 32 * 1024 * 1024"
definition MAX_JSON :: nat where "MAX_JSON = 64 * 1024 * 1024"
definition MAX_TOTAL :: nat where "MAX_TOTAL = 512 * 1024 * 1024"
definition MAX_INDEX :: nat where "MAX_INDEX = 1024 * 1024"

lemmas master_limits = MAX_MANIFEST_def MAX_ENCRYPTED_def MAX_JSON_def MAX_TOTAL_def MAX_INDEX_def

subsection \<open>Text\<close>

definition text_bytes :: "string \<Rightarrow> u8 list" where
  "text_bytes s = map (\<lambda>c. of_nat (byte c)) s"

definition bytes_text :: "u8 list \<Rightarrow> string" where
  "bytes_text bs = map (\<lambda>b. char_of (unat b)) bs"

definition continuation :: "nat \<Rightarrow> bool" where
  "continuation b \<longleftrightarrow> 128 \<le> b \<and> b \<le> 191"

fun utf8_valid :: "nat list \<Rightarrow> bool" where
  \<comment> \<open>\<open>str::from_utf8\<close>: the well-formed byte sequences of the Unicode standard\<close>
  "utf8_valid [] = True"
| "utf8_valid (b # r) =
     (if b < 128 then utf8_valid r
      else if 194 \<le> b \<and> b \<le> 223 then
        (case r of c # r' \<Rightarrow> continuation c \<and> utf8_valid r' | _ \<Rightarrow> False)
      else if 224 \<le> b \<and> b \<le> 239 then
        (case r of
           c # d # r' \<Rightarrow> continuation c \<and> (b = 224 \<longrightarrow> 160 \<le> c) \<and> (b = 237 \<longrightarrow> c \<le> 159) \<and>
                      continuation d \<and> utf8_valid r'
         | _ \<Rightarrow> False)
      else if 240 \<le> b \<and> b \<le> 244 then
        (case r of
           c # d # e # r' \<Rightarrow> continuation c \<and> (b = 240 \<longrightarrow> 144 \<le> c) \<and> (b = 244 \<longrightarrow> c \<le> 143) \<and>
                      continuation d \<and> continuation e \<and> utf8_valid r'
         | _ \<Rightarrow> False)
      else False)"

definition from_utf8 :: "u8 list \<Rightarrow> string option" where
  "from_utf8 bs = (if utf8_valid (map unat bs) then Some (bytes_text bs) else None)"

definition strip_suffix :: "string \<Rightarrow> string \<Rightarrow> string option" where
  "strip_suffix s suffix =
     (if ends_with s suffix then Some (take (length s - length suffix) s) else None)"

fun replace_bin :: "string \<Rightarrow> string" where
  \<comment> \<open>\<open>name.replace(".bin", ".json")\<close>: every occurrence, from the left\<close>
  "replace_bin [] = []"
| "replace_bin (c # s) =
     (if starts_with (c # s) ''.bin'' then ''.json'' @ replace_bin (drop 3 s)
      else c # replace_bin s)"

definition to_ascii_lowercase :: "char \<Rightarrow> char" where
  "to_ascii_lowercase c = (if ascii_upper c then char_of (byte c + 32) else c)"

definition eq_ignore_ascii_case :: "string \<Rightarrow> string \<Rightarrow> bool" where
  "eq_ignore_ascii_case a b \<longleftrightarrow> map to_ascii_lowercase a = map to_ascii_lowercase b"

definition safe_component :: "string \<Rightarrow> bool" where
  "safe_component s \<longleftrightarrow> s \<noteq> [] \<and> length s \<le> 128 \<and>
     list_all (\<lambda>b. ascii_alphanumeric b \<or> b = CHR ''-'' \<or> b = CHR ''_'') s"

definition snapshot_name :: "string \<Rightarrow> bool" where
  "snapshot_name s \<longleftrightarrow> starts_with s ''master-'' \<and> safe_component s"

definition hash_valid :: "string \<Rightarrow> bool" where
  "hash_valid h \<longleftrightarrow> length h = 64 \<and> list_all lower_hexdigit h"

subsection \<open>Keys\<close>

definition hex_digit_value :: "char \<Rightarrow> nat" where
  "hex_digit_value c =
     (if ascii_digit c then byte c - 48 else if ascii_upper c then byte c - 55 else byte c - 87)"

definition key_from_hex :: "string \<Rightarrow> MasterError + u8 list" where
  "key_from_hex s =
     (if length s \<noteq> 64 \<or> \<not> list_all ascii_hexdigit s then Err MasterKey
      else Ok (map (\<lambda>i. of_nat (16 * hex_digit_value (s ! (2 * i)) + hex_digit_value (s ! (2 * i + 1))))
                [0..<32]))"

subsection \<open>Manifests\<close>

fun check_entries :: "string set \<Rightarrow> nat \<Rightarrow> master_entry list \<Rightarrow> MasterError + nat" where
  "check_entries names sz [] = Ok sz"
| "check_entries names sz (e # es) =
     (case strip_suffix (en_name e) ''.bin'' of
        None \<Rightarrow> Err MasterFormat
      | Some stem \<Rightarrow>
          if stem = ''MasterManifest'' \<or> \<not> starts_with stem ''Master'' \<or> \<not> safe_component stem \<or>
             en_name e \<in> names \<or> length (en_hash e) \<noteq> 64 \<or> \<not> list_all ascii_hexdigit (en_hash e) \<or>
             en_size e \<le> 64 \<or> MAX_ENCRYPTED < en_size e \<or> en_size e mod 32 \<noteq> 0
          then Err MasterFormat
          else check_entries (insert (en_name e) names) (sz + en_size e) es)"

definition check_manifest :: "master_manifest \<Rightarrow> MasterError + master_manifest" where
  "check_manifest m =
     (if \<not> safe_version (mf_version m) \<or> mf_files m = [] \<or> 4096 < length (mf_files m)
      then Err MasterFormat
      else then_result (check_entries {} 0 (mf_files m)) (\<lambda>sz.
        if MAX_TOTAL < sz then Err MasterLimit else Ok m))"

definition manifest_parse :: "master_lib \<Rightarrow> u8 list \<Rightarrow> MasterError + master_manifest" where
  "manifest_parse L bs =
     (if MAX_MANIFEST < length bs then Err MasterLimit
      else case ml_de_manifest L bs of
        None \<Rightarrow> Err MasterFormat
      | Some m \<Rightarrow> check_manifest m)"

subsection \<open>Inventories\<close>

definition digest :: "master_lib \<Rightarrow> u8 list \<Rightarrow> string" where
  "digest L bs = ml_sha256 L bs"

definition file_of :: "master_lib \<Rightarrow> string \<Rightarrow> u8 list \<Rightarrow> table_file" where
  "file_of L name bs = \<lparr>tf_name = name, tf_size = length bs, tf_sha256 = digest L bs\<rparr>"

fun check_files :: "nat \<Rightarrow> (table_file \<times> string) list \<Rightarrow> MasterError + nat" where
  "check_files sz [] = Ok sz"
| "check_files sz ((f, name) # fs) =
     (if tf_name f \<noteq> name \<or> tf_size f = 0 \<or> MAX_JSON < tf_size f \<or> \<not> hash_valid (tf_sha256 f)
      then Err MasterFormat
      else if u64_max < sz + tf_size f then Err MasterLimit
      else check_files (sz + tf_size f) fs)"

definition inventory_validate :: "table_inventory \<Rightarrow> master_manifest \<Rightarrow> MasterError + unit" where
  "inventory_validate i source =
     (if iv_schema_version i \<noteq> 1 \<or> iv_version i \<noteq> mf_version source \<or>
         length (iv_files i) \<noteq> length (mf_files source)
      then Err MasterFormat
      else then_result (check_files 0 (zip (iv_files i)
             (sort (map (\<lambda>e. replace_bin (en_name e)) (mf_files source))))) (\<lambda>sz.
        if MAX_TOTAL < sz then Err MasterLimit else Ok ()))"

definition content_hash ::
  "master_lib \<Rightarrow> master_scope \<Rightarrow> master_manifest \<Rightarrow> table_inventory \<Rightarrow> string" where
  "content_hash L scope source i = digest L (ml_ser_content L scope source (iv_files i))"

definition published_validate ::
  "master_lib \<Rightarrow> published_manifest \<Rightarrow> master_scope \<Rightarrow> MasterError + unit" where
  "published_validate L p scope =
     (if pm_schema_version p \<noteq> 1 \<or> pm_scope p \<noteq> scope \<or> \<not> master_supported (sc_region scope) \<or>
         \<not> snapshot_name (pm_snapshot p) \<or> pm_version p \<noteq> mf_version (pm_source_manifest p) \<or>
         (\<exists>v \<in> set_option (pm_resource_version p). \<not> safe_version v)
      then Err MasterFormat
      else then_result (manifest_parse L (ml_ser_manifest L (pm_source_manifest p))) (\<lambda>source.
        if \<not> successively (<) (map en_name (mf_files source)) then Err MasterFormat
        else let inventory = \<lparr>iv_schema_version = 1, iv_version = pm_version p, iv_files = pm_files p\<rparr> in
          then_result (inventory_validate inventory source) (\<lambda>_.
            if content_hash L scope source inventory \<noteq> pm_content_sha256 p then Err MasterIntegrity
            else Ok ())))"

subsection \<open>Receipts\<close>

definition recorded_resource_version :: "json \<Rightarrow> MasterError + string option" where
  "recorded_resource_version receipt =
     (case json_get receipt ''resource_version'' of
        None \<Rightarrow> Ok None
      | Some (JStr v) \<Rightarrow> if safe_version v then Ok (Some v) else Err MasterFormat
      | Some _ \<Rightarrow> Err MasterFormat)"

definition recorded_region :: "json \<Rightarrow> MasterError + region" where
  "recorded_region receipt =
     (case json_get receipt ''region'' of
        None \<Rightarrow> Ok Jp
      | Some (JStr v) \<Rightarrow>
          (case region_from_recorded_name v of
             Some r \<Rightarrow> if master_supported r then Ok r else Err MasterFormat
           | None \<Rightarrow> Err MasterFormat)
      | Some _ \<Rightarrow> Err MasterFormat)"

subsection \<open>Decoding a table\<close>

record master_decoder =
  md_cipher :: Rijndael256
  md_iv :: "u8 list"

definition decoder_new :: "u8 list \<Rightarrow> u8 list \<Rightarrow> master_decoder" where
  "decoder_new key iv = \<lparr>md_cipher = rijndael_new key, md_iv = iv\<rparr>"

definition decode :: "master_lib \<Rightarrow> master_decoder \<Rightarrow> master_entry \<Rightarrow> u8 list \<Rightarrow> MasterError + u8 list" where
  "decode L d e bs =
     (if MAX_ENCRYPTED < length bs then Err MasterLimit
      else if length bs \<noteq> en_size e \<or> \<not> eq_ignore_ascii_case (ml_sha256 L bs) (en_hash e)
      then Err MasterIntegrity
      else if length bs < 32 then Err MasterCipher
      else then_result (decrypt (md_cipher d) (drop 32 bs) (md_iv d)) (\<lambda>plaintext.
        if length plaintext < 32 then Err MasterCipher
        else case ml_gunzip L (drop 32 plaintext) (MAX_JSON + 1) of
          None \<Rightarrow> Err MasterCipher
        | Some json \<Rightarrow>
            if MAX_JSON < length json then Err MasterLimit
            else if \<not> ml_validate_json L json then Err MasterFormat
            else Ok json))"

subsection \<open>Names\<close>

lemma strip_suffix_Some: "strip_suffix s t = Some r \<longleftrightarrow> s = r @ t"
  by (auto simp: strip_suffix_def ends_with_iff)

lemma strip_suffix_append [simp]: "strip_suffix (r @ t) t = Some r"
  by (simp add: strip_suffix_Some)

lemma safe_component_no_dot: "safe_component s \<Longrightarrow> CHR ''.'' \<notin> set s"
  by (auto simp: safe_component_def list_all_iff byte_defs)

lemma replace_bin_stem:
  "CHR ''.'' \<notin> set stem \<Longrightarrow> replace_bin (stem @ ''.bin'') = stem @ ''.json''"
  by (induction stem) (auto simp: starts_with_def)

lemma snapshot_name_imp_safe: "snapshot_name s \<Longrightarrow> safe_component s"
  by (simp add: snapshot_name_def)

subsection \<open>What validation accepts\<close>

definition entry_ok :: "master_entry \<Rightarrow> bool" where
  "entry_ok e \<longleftrightarrow> (\<exists>stem. en_name e = stem @ ''.bin'' \<and> stem \<noteq> ''MasterManifest'' \<and>
     starts_with stem ''Master'' \<and> safe_component stem) \<and>
     length (en_hash e) = 64 \<and> list_all ascii_hexdigit (en_hash e) \<and>
     64 < en_size e \<and> en_size e \<le> MAX_ENCRYPTED \<and> en_size e mod 32 = 0"

lemma check_entries_Cons:
  "check_entries names sz (e # es) =
     (if entry_ok e \<and> en_name e \<notin> names
      then check_entries (insert (en_name e) names) (sz + en_size e) es else Err MasterFormat)"
proof (cases "strip_suffix (en_name e) ''.bin''")
  case None
  then have "\<not> entry_ok e" by (auto simp: entry_ok_def)
  with None show ?thesis by simp
next
  case (Some stem)
  then have "entry_ok e \<longleftrightarrow> stem \<noteq> ''MasterManifest'' \<and> starts_with stem ''Master'' \<and> safe_component stem \<and>
     length (en_hash e) = 64 \<and> list_all ascii_hexdigit (en_hash e) \<and>
     64 < en_size e \<and> en_size e \<le> MAX_ENCRYPTED \<and> en_size e mod 32 = 0"
    by (auto simp: entry_ok_def strip_suffix_Some)
  with Some show ?thesis by auto
qed

lemma check_entries_iff:
  "check_entries names sz es = Ok t \<longleftrightarrow>
     list_all entry_ok es \<and> distinct (map en_name es) \<and> set (map en_name es) \<inter> names = {} \<and>
     t = sz + sum_list (map en_size es)"
proof (induction es arbitrary: names sz)
  case (Cons e es)
  show ?case
    by (subst check_entries_Cons) (auto simp: Cons.IH)
qed auto

lemma check_entries_Err: "check_entries names sz es = Err x \<Longrightarrow> x = MasterFormat"
proof (induction es arbitrary: names sz)
  case (Cons e es)
  then show ?case by (subst (asm) check_entries_Cons) (auto split: if_splits)
qed simp

definition manifest_ok :: "master_manifest \<Rightarrow> bool" where
  "manifest_ok m \<longleftrightarrow> safe_version (mf_version m) \<and> mf_files m \<noteq> [] \<and> length (mf_files m) \<le> 4096 \<and>
     list_all entry_ok (mf_files m) \<and> distinct (map en_name (mf_files m)) \<and>
     sum_list (map en_size (mf_files m)) \<le> MAX_TOTAL"

lemma check_manifest_iff: "check_manifest m = Ok m' \<longleftrightarrow> m' = m \<and> manifest_ok m"
  by (auto simp: check_manifest_def manifest_ok_def then_result_Ok_iff check_entries_iff)

lemma manifest_parse_ok: "manifest_parse L bs = Ok m \<Longrightarrow> manifest_ok m"
  by (auto simp: manifest_parse_def check_manifest_iff split: if_splits option.splits)

lemma manifest_parse_iff:
  "manifest_parse L bs = Ok m \<longleftrightarrow>
     length bs \<le> MAX_MANIFEST \<and> ml_de_manifest L bs = Some m \<and> manifest_ok m"
  by (auto simp: manifest_parse_def check_manifest_iff split: option.splits)

lemma entry_okE:
  assumes "entry_ok e"
  obtains stem where "en_name e = stem @ ''.bin''" "safe_component stem"
    "starts_with stem ''Master''" "stem \<noteq> ''MasterManifest''" "replace_bin (en_name e) = stem @ ''.json''"
  using assms replace_bin_stem safe_component_no_dot by (auto simp: entry_ok_def)

definition file_ok :: "table_file \<Rightarrow> bool" where
  "file_ok f \<longleftrightarrow> 0 < tf_size f \<and> tf_size f \<le> MAX_JSON \<and> hash_valid (tf_sha256 f)"

lemma check_files_iff:
  "sz + length fs * MAX_JSON \<le> u64_max \<Longrightarrow> check_files sz fs = Ok t \<longleftrightarrow>
     list_all (\<lambda>(f, n). tf_name f = n \<and> file_ok f) fs \<and>
     t = sz + sum_list (map (\<lambda>(f, n). tf_size f) fs)"
proof (induction fs arbitrary: sz)
  case (Cons p fs)
  obtain f n where p: "p = (f, n)" by (cases p)
  show ?case
  proof (cases "tf_name f = n \<and> file_ok f")
    case True
    then have small: "tf_size f \<le> MAX_JSON" by (simp add: file_ok_def)
    then have "sz + tf_size f + length fs * MAX_JSON \<le> u64_max" using Cons.prems by simp
    moreover from this have "\<not> u64_max < sz + tf_size f" by simp
    ultimately show ?thesis using Cons.IH [of "sz + tf_size f"] True
      by (auto simp: p file_ok_def)
  next
    case False
    then show ?thesis by (auto simp: p file_ok_def)
  qed
qed auto

definition inventory_ok :: "table_inventory \<Rightarrow> master_manifest \<Rightarrow> bool" where
  "inventory_ok i source \<longleftrightarrow> iv_schema_version i = 1 \<and> iv_version i = mf_version source \<and>
     map tf_name (iv_files i) = sort (map (\<lambda>e. replace_bin (en_name e)) (mf_files source)) \<and>
     list_all file_ok (iv_files i) \<and> sum_list (map tf_size (iv_files i)) \<le> MAX_TOTAL"

lemma list_all_zip_names:
  "length fs = length ns \<Longrightarrow>
     list_all (\<lambda>(f, n). tf_name f = n \<and> file_ok f) (zip fs ns) \<longleftrightarrow> map tf_name fs = ns \<and> list_all file_ok fs"
  by (induction fs ns rule: list_induct2) auto

lemma sum_list_zip_fst:
  "length fs = length ns \<Longrightarrow> sum_list (map (\<lambda>(f, n). g f) (zip fs ns)) = sum_list (map g fs)"
  by (induction fs ns rule: list_induct2) auto

lemma inventory_validate_iff:
  assumes "length (mf_files source) \<le> 4096"
  shows "inventory_validate i source = Ok u \<longleftrightarrow> inventory_ok i source"
proof (cases "iv_schema_version i = 1 \<and> iv_version i = mf_version source \<and>
    length (iv_files i) = length (mf_files source)")
  case True
  let ?ns = "sort (map (\<lambda>e. replace_bin (en_name e)) (mf_files source))"
  have len: "length (iv_files i) = length ?ns" using True by simp
  have bound: "0 + length (zip (iv_files i) ?ns) * MAX_JSON \<le> u64_max"
    using True assms by (simp add: master_limits u64_max_def)
  show ?thesis
    using True by (simp add: inventory_validate_def then_result_Ok_iff check_files_iff [OF bound]
        inventory_ok_def list_all_zip_names [OF len] sum_list_zip_fst [OF len] not_less)
next
  case False
  have "length (iv_files i) = length (mf_files source)" if "inventory_ok i source"
    using that unfolding inventory_ok_def by (metis length_map length_sort)
  with False show ?thesis by (auto simp: inventory_validate_def inventory_ok_def)
qed

lemma check_files_Err: "check_files sz fs = Err x \<Longrightarrow> x \<in> {MasterFormat, MasterLimit}"
  by (induction sz fs rule: check_files.induct) (auto split: if_splits)

lemma inventory_validate_Err:
  "inventory_validate i source = Err x \<Longrightarrow> x \<in> {MasterFormat, MasterLimit}"
  by (auto simp: inventory_validate_def then_result_Err_iff split: if_splits dest!: check_files_Err)

subsection \<open>Sorted manifests\<close>

definition sort_manifest :: "master_manifest \<Rightarrow> master_manifest" where
  "sort_manifest m = m\<lparr>mf_files := sort_key en_name (mf_files m)\<rparr>"

lemma sort_manifest_simps [simp]:
  "mf_version (sort_manifest m) = mf_version m"
  "mf_files (sort_manifest m) = sort_key en_name (mf_files m)"
  by (simp_all add: sort_manifest_def)

lemma sum_list_sort_key: "sum_list (map g (sort_key f xs)) = (sum_list (map g xs) :: nat)"
proof -
  have "mset (map g (sort_key f xs)) = mset (map g xs)" by simp
  then show ?thesis by (metis sum_mset_sum_list)
qed

lemma distinct_map_sort_key: "distinct (map f (sort_key g xs)) = distinct (map f xs)"
proof -
  have "mset (map f (sort_key g xs)) = mset (map f xs)" by simp
  then show ?thesis by (rule mset_eq_imp_distinct_iff)
qed

lemma manifest_ok_sort [simp]: "manifest_ok (sort_manifest m) = manifest_ok m"
  by (simp add: manifest_ok_def list_all_iff sum_list_sort_key distinct_map_sort_key)
    (metis length_sort list.size(3) length_0_conv)

lemma sorted_distinct_successively: "sorted xs \<Longrightarrow> distinct xs \<Longrightarrow> successively (<) (xs :: 'a :: linorder list)"
  by (induction xs rule: induct_list012) (auto simp: less_le)

lemma successively_sort_manifest:
  assumes "manifest_ok m" shows "successively (<) (map en_name (mf_files (sort_manifest m)))"
  by (rule sorted_distinct_successively)
    (use assms in \<open>simp_all add: manifest_ok_def distinct_map_sort_key\<close>)

lemma inventory_ok_sort [simp]: "inventory_ok i (sort_manifest m) = inventory_ok i m"
proof -
  have "sort (map (\<lambda>e. replace_bin (en_name e)) (sort_key en_name (mf_files m))) =
      sort (map (\<lambda>e. replace_bin (en_name e)) (mf_files m))"
    by (rule properties_for_sort) simp_all
  then show ?thesis by (simp add: inventory_ok_def)
qed

text \<open>A consumer accepts a published manifest whose parts are valid and whose content hash is right,
  provided that serde reads back the source manifest it wrote.\<close>

definition manifest_written :: "master_lib \<Rightarrow> master_manifest \<Rightarrow> bool" where
  "manifest_written L m \<longleftrightarrow>
     ml_de_manifest L (ml_ser_manifest L m) = Some m \<and> length (ml_ser_manifest L m) \<le> MAX_MANIFEST"

lemma published_validateI:
  assumes "pm_schema_version p = 1" "pm_scope p = scope" "master_supported (sc_region scope)"
    "snapshot_name (pm_snapshot p)" "\<forall>v \<in> set_option (pm_resource_version p). safe_version v"
    and source: "pm_source_manifest p = sort_manifest m" "pm_version p = mf_version m"
      "manifest_ok m" "manifest_written L (sort_manifest m)"
    and inv: "inventory_ok i m" "pm_files p = iv_files i"
    and hash: "pm_content_sha256 p = content_hash L scope (sort_manifest m) i"
  shows "published_validate L p scope = Ok ()"
proof -
  have parse: "manifest_parse L (ml_ser_manifest L (sort_manifest m)) = Ok (sort_manifest m)"
    using source(3,4) by (simp add: manifest_parse_iff manifest_written_def)
  have i: "\<lparr>iv_schema_version = 1, iv_version = pm_version p, iv_files = pm_files p\<rparr> = i"
    using inv source(2) by (cases i) (simp add: inventory_ok_def)
  have "length (mf_files (sort_manifest m)) \<le> 4096" using source(3) by (simp add: manifest_ok_def)
  then have valid: "inventory_validate i (sort_manifest m) = Ok ()"
    using inventory_validate_iff inv(1) by simp
  have "pm_version p = mf_version (pm_source_manifest p)" using source(1,2) by simp
  then show ?thesis
    unfolding published_validate_def Let_def i
    using assms(1-5) successively_sort_manifest [OF source(3)] source(1) valid hash parse by simp
qed

subsection \<open>Decoding\<close>

lemma decode_iff:
  assumes iv: "length iv = 32"
  shows "decode L (decoder_new key iv) e bs = Ok json \<longleftrightarrow>
     length bs = en_size e \<and> length bs \<le> MAX_ENCRYPTED \<and> eq_ignore_ascii_case (ml_sha256 L bs) (en_hash e) \<and>
     length json \<le> MAX_JSON \<and> ml_validate_json L json \<and>
     (\<exists>prefix header gz. length prefix = 32 \<and> length header = 32 \<and>
        bs = prefix @ encrypt (rijndael_new key) (header @ gz) iv \<and> ml_gunzip L gz (MAX_JSON + 1) = Some json)"
  (is "?lhs \<longleftrightarrow> ?rhs")
proof
  have open_iff: "decrypt (rijndael_new key) c iv = Ok p \<longleftrightarrow> c = encrypt (rijndael_new key) p iv" for c p
    using decrypt_encrypt [OF inverse_box_new iv] decrypt_Ok [OF inverse_box_new iv] by blast
  show ?rhs if lhs: ?lhs
  proof -
    obtain p where p: "decrypt (rijndael_new key) (drop 32 bs) iv = Ok p" "32 \<le> length p"
        "ml_gunzip L (drop 32 p) (MAX_JSON + 1) = Some json" "32 \<le> length bs"
      and rest: "length bs = en_size e" "length bs \<le> MAX_ENCRYPTED"
        "eq_ignore_ascii_case (ml_sha256 L bs) (en_hash e)" "length json \<le> MAX_JSON" "ml_validate_json L json"
      using lhs by (auto simp: decode_def decoder_new_def then_result_Ok_iff not_less
          split: if_splits option.splits)
    have "bs = take 32 bs @ encrypt (rijndael_new key) (take 32 p @ drop 32 p) iv"
      using p(1) open_iff by (metis append_take_drop_id)
    moreover have "length (take 32 bs) = 32" "length (take 32 p) = 32" using p by simp_all
    ultimately show ?rhs using p(3) rest by blast
  qed
  show ?lhs if rhs: ?rhs
  proof -
    obtain prefix header gz where parts: "length prefix = 32" "length header = 32"
        "bs = prefix @ encrypt (rijndael_new key) (header @ gz) iv" "ml_gunzip L gz (MAX_JSON + 1) = Some json"
      using rhs by blast
    then have "decrypt (rijndael_new key) (drop 32 bs) iv = Ok (header @ gz)" by (simp add: open_iff)
    moreover have "32 \<le> length bs" using parts by simp
    moreover have "length bs = en_size e" "length bs \<le> MAX_ENCRYPTED"
      "eq_ignore_ascii_case (ml_sha256 L bs) (en_hash e)" "length json \<le> MAX_JSON" "ml_validate_json L json"
      using rhs by blast+
    ultimately show ?lhs using parts(2,4) by (simp add: decode_def decoder_new_def)
  qed
qed

subsection \<open>Properties\<close>

text \<open>A table is decoded only from an authentic file.  \<open>MasterDecoder::decode\<close> returns the JSON
  document of an entry exactly for the file with the entry's size and SHA-256 whose bytes after the
  first 32 are the Rijndael-256 encryption of a 32-byte header and a gzip stream of that
  document, which is valid JSON of at most 64 MiB; the file itself is at most 32 MiB.\<close>

theorem tables_decode_from_authentic_files:
  assumes "length iv = 32"
  shows "decode L (decoder_new key iv) e bs = Ok json \<longleftrightarrow>
     length bs = en_size e \<and> length bs \<le> MAX_ENCRYPTED \<and> eq_ignore_ascii_case (ml_sha256 L bs) (en_hash e) \<and>
     length json \<le> MAX_JSON \<and> ml_validate_json L json \<and>
     (\<exists>prefix header gz. length prefix = 32 \<and> length header = 32 \<and>
        bs = prefix @ encrypt (rijndael_new key) (header @ gz) iv \<and> ml_gunzip L gz (MAX_JSON + 1) = Some json)"
  by (rule decode_iff [OF assms])

text \<open>A library in which gzip stores its input and every digest is the same: the table \<open>[1]\<close>
  decodes from the file that encrypts it.\<close>

definition plain_lib :: master_lib where
  "plain_lib = \<lparr>ml_sha256 = (\<lambda>_. replicate 64 CHR ''a''), ml_gunzip = (\<lambda>bs n. Some (take n bs)),
     ml_validate_json = (\<lambda>bs. bs \<noteq> []), ml_de_value = (\<lambda>_. None), ml_ser_value = (\<lambda>_. []),
     ml_de_manifest = (\<lambda>_. None), ml_ser_manifest = (\<lambda>_. []), ml_de_inventory = (\<lambda>_. None),
     ml_ser_inventory = (\<lambda>_. []), ml_de_published = (\<lambda>_. None), ml_ser_published = (\<lambda>_. []),
     ml_de_publication = (\<lambda>_. None), ml_ser_publication = (\<lambda>_. []), ml_de_retention = (\<lambda>_. None),
     ml_ser_retention = (\<lambda>_. []), ml_ser_receipt = (\<lambda>_. []), ml_dir_len = 4096,
     ml_ser_content = (\<lambda>_ _ _. [])\<rparr>"

theorem tables_decode_from_authentic_files_witness:
  "decode plain_lib (decoder_new (replicate 32 7) (replicate 32 0))
     \<lparr>en_name = ''MasterA.bin'', en_hash = replicate 64 CHR ''A'', en_size = 96\<rparr>
     (replicate 32 0 @ encrypt (rijndael_new (replicate 32 7)) (replicate 32 0 @ [1]) (replicate 32 0)) = Ok [1]"
proof -
  have len: "length (encrypt (rijndael_new (replicate 32 7)) (replicate 32 0 @ [1]) (replicate 32 0)) = 64"
    by (subst length_encrypt) (simp_all add: pad_def Let_def)
  have lower: "to_ascii_lowercase CHR ''A'' = CHR ''a''" "to_ascii_lowercase CHR ''a'' = CHR ''a''"
    by code_simp+
  have iv: "length (replicate 32 (0::u8)) = 32" by simp
  let ?bs = "replicate 32 0 @ encrypt (rijndael_new (replicate 32 7)) (replicate 32 0 @ [1]) (replicate 32 0)"
  have parts: "\<exists>prefix header gz. length prefix = 32 \<and> length header = 32 \<and>
      ?bs = prefix @ encrypt (rijndael_new (replicate 32 7)) (header @ gz) (replicate 32 0) \<and>
      ml_gunzip plain_lib gz (MAX_JSON + 1) = Some [1]"
    by (rule exI [of _ "replicate 32 0"], rule exI [of _ "replicate 32 0"], rule exI [of _ "[1]"])
      (simp add: plain_lib_def)
  show ?thesis
    by (rule iffD2 [OF tables_decode_from_authentic_files [OF iv]], intro conjI parts)
      (simp_all add: len lower plain_lib_def master_limits eq_ignore_ascii_case_def)
qed

end
