(* ===== verification/Master_Store.thy ===== *)
theory Master_Store
  imports Master_Format
begin

section \<open>The Master store on disk\<close>

text \<open>
  The snapshot directory that \<open>src/master.rs\<close> and \<open>src/master_registry.rs\<close> read and write.  The store
  is a root directory whose entries are the pointer file \<open>CURRENT\<close>, the file \<open>retention.json\<close>, the
  snapshot directories \<open>master-...\<close> and the writer's staging directories; a snapshot directory holds
  files only.  A \<open>leaf\<close> is what one name inside a directory stands for: a regular file, a
  file that cannot be opened, a symbolic link with what following it yields, or a directory.

  The reading side is translated function by function: \<open>read_bounded\<close> follows links while
  \<open>regular\<close> refuses them, \<open>snapshot_directory\<close> refuses anything but a real directory with a
  snapshot name, and every reader goes through the provenance of the snapshot before its tables.
\<close>

datatype leaf = Plain "u8 list" | Unreadable | Link "u8 list option" | Sub

type_synonym folder = "string \<Rightarrow> leaf option"

datatype node = Top leaf | Dir folder | DirLink folder

type_synonym disk = "string \<Rightarrow> node option"

subsection \<open>Opening files\<close>

definition within_limit :: "nat \<Rightarrow> u8 list \<Rightarrow> MasterError + u8 list" where
  "within_limit limit bs = (if limit < length bs then Err MasterLimit else Ok bs)"

fun read_bounded :: "master_lib \<Rightarrow> leaf option \<Rightarrow> nat \<Rightarrow> MasterError + u8 list" where
  "read_bounded L None limit = Err (MasterIo IoNotFound)"
| "read_bounded L (Some (Plain bs)) limit = within_limit limit bs"
| "read_bounded L (Some Unreadable) limit = Err (MasterIo IoOther)"
| "read_bounded L (Some (Link (Some bs))) limit = within_limit limit bs"
| "read_bounded L (Some (Link None)) limit = Err (MasterIo IoNotFound)"
| "read_bounded L (Some Sub) limit =
     (if limit < ml_dir_len L then Err MasterLimit else Err (MasterIo IoOther))"

fun regular :: "master_lib \<Rightarrow> leaf option \<Rightarrow> nat \<Rightarrow> MasterError + u8 list" where
  "regular L None limit = Err (MasterIo IoNotFound)"
| "regular L (Some (Link _)) limit = Err MasterFormat"
| "regular L (Some Sub) limit = Err MasterFormat"
| "regular L (Some l) limit = read_bounded L (Some l) limit"

fun node_leaf :: "node option \<Rightarrow> leaf option" where
  "node_leaf None = None"
| "node_leaf (Some (Top l)) = Some l"
| "node_leaf (Some _) = Some Sub"

fun node_folder :: "node option \<Rightarrow> folder" where
  \<comment> \<open>what \<open>path.join(name)\<close> finds below a path that is missing, a directory, a link or a file\<close>
  "node_folder None = (\<lambda>_. None)"
| "node_folder (Some (Dir d)) = d"
| "node_folder (Some (DirLink d)) = d"
| "node_folder (Some (Top _)) = (\<lambda>_. Some Unreadable)"

definition read_text :: "MasterError + u8 list \<Rightarrow> MasterError + string" where
  "read_text r = then_result r (\<lambda>bs. case from_utf8 bs of None \<Rightarrow> Err MasterFormat | Some s \<Rightarrow> Ok s)"

subsection \<open>Snapshots\<close>

definition snapshot_directory :: "disk \<Rightarrow> string \<Rightarrow> MasterError + folder" where
  "snapshot_directory root snapshot =
     (if \<not> snapshot_name snapshot then Err MasterNotFound
      else case root snapshot of
        None \<Rightarrow> Err MasterNotFound
      | Some (Dir d) \<Rightarrow> Ok d
      | Some _ \<Rightarrow> Err MasterFormat)"

definition allowed_source :: "json option \<Rightarrow> bool" where
  "allowed_source v \<longleftrightarrow> v \<in> {Some (JStr ''local-import''), Some (JStr ''remote''), Some (JStr ''registry'')}"

definition read_value :: "master_lib \<Rightarrow> MasterError + u8 list \<Rightarrow> MasterError + json" where
  "read_value L r =
     then_result r (\<lambda>bs. case ml_de_value L bs of None \<Rightarrow> Err MasterFormat | Some v \<Rightarrow> Ok v)"

definition source_with_provenance ::
  "master_lib \<Rightarrow> string \<Rightarrow> folder \<Rightarrow> MasterError + master_manifest \<times> string option \<times> region" where
  "source_with_provenance L name d =
     then_result (regular L (d ''MasterManifest.json'') MAX_MANIFEST) (\<lambda>bs.
     then_result (manifest_parse L bs) (\<lambda>source.
     then_result (read_value L (regular L (d ''receipt.json'') 4096)) (\<lambda>receipt.
       if json_get receipt ''version'' \<noteq> Some (JStr (mf_version source)) \<or>
          json_get receipt ''snapshot'' \<noteq> Some (JStr name) \<or>
          json_get receipt ''tables'' \<noteq> Some (JInt (int (length (mf_files source)))) \<or>
          \<not> allowed_source (json_get receipt ''source'')
       then Err MasterFormat
       else then_result (recorded_resource_version receipt) (\<lambda>resource_version.
            then_result (recorded_region receipt) (\<lambda>region.
              Ok (source, resource_version, region))))))"

definition source_of :: "master_lib \<Rightarrow> string \<Rightarrow> folder \<Rightarrow> region \<Rightarrow> MasterError + master_manifest" where
  "source_of L name d region =
     then_result (source_with_provenance L name d) (\<lambda>(source, _, recorded).
       if recorded \<noteq> region then Err MasterFormat else Ok source)"

definition snapshot_region :: "master_lib \<Rightarrow> disk \<Rightarrow> string \<Rightarrow> MasterError + region" where
  "snapshot_region L root snapshot =
     then_result (snapshot_directory root snapshot) (\<lambda>d.
     then_result (source_with_provenance L snapshot d) (\<lambda>(_, _, region). Ok region))"

fun unindexed_files ::
  "master_lib \<Rightarrow> folder \<Rightarrow> nat \<Rightarrow> table_file list \<Rightarrow> master_entry list \<Rightarrow> MasterError + table_file list" where
  "unindexed_files L d sz files [] = Ok files"
| "unindexed_files L d sz files (e # es) =
     (let name = replace_bin (en_name e) in
      then_result (regular L (d name) MAX_JSON) (\<lambda>bs.
        if MAX_TOTAL < sz + length bs then Err MasterLimit
        else if \<not> ml_validate_json L bs then Err MasterFormat
        else unindexed_files L d (sz + length bs) (files @ [file_of L name bs]) es))"

definition read_inventory :: "master_lib \<Rightarrow> MasterError + u8 list \<Rightarrow> MasterError + table_inventory" where
  "read_inventory L r =
     then_result r (\<lambda>bs. case ml_de_inventory L bs of None \<Rightarrow> Err MasterFormat | Some i \<Rightarrow> Ok i)"

definition inventory_of :: "master_lib \<Rightarrow> folder \<Rightarrow> master_manifest \<Rightarrow> MasterError + table_inventory" where
  "inventory_of L d source =
     then_result
       (case d ''tables.json'' of
          Some l \<Rightarrow> read_inventory L (regular L (Some l) MAX_INDEX)
        | None \<Rightarrow>
            then_result (unindexed_files L d 0 [] (mf_files source)) (\<lambda>files.
              Ok \<lparr>iv_schema_version = 1, iv_version = mf_version source, iv_files = sort_key tf_name files\<rparr>))
       (\<lambda>i. then_result (inventory_validate i source) (\<lambda>_. Ok i))"

definition current_snapshot :: "master_lib \<Rightarrow> disk \<Rightarrow> MasterError + string" where
  "current_snapshot L root =
     then_result (read_text (regular L (node_leaf (root ''CURRENT'')) 128)) (\<lambda>snapshot.
     then_result (snapshot_directory root snapshot) (\<lambda>_. Ok snapshot))"

subsection \<open>Published manifests\<close>

record registry_document =
  rd_bytes :: "u8 list"
  rd_etag :: string
  rd_version :: string

definition scope_ok :: "master_scope \<Rightarrow> bool" where
  "scope_ok s \<longleftrightarrow> master_supported (sc_region s) \<and> sc_environment s \<noteq> [] \<and>
     length (sc_environment s) \<le> 256 \<and>
     list_all (\<lambda>b. ascii_alphanumeric b \<or> b = CHR ''-'') (sc_environment s)"

definition published_of ::
  "master_lib \<Rightarrow> master_scope \<Rightarrow> string \<Rightarrow> folder \<Rightarrow> MasterError + published_manifest" where
  "published_of L scope snapshot d =
     then_result (source_with_provenance L snapshot d) (\<lambda>(source0, resource_version, region).
       if region \<noteq> sc_region scope then Err MasterFormat
       else let source = sort_manifest source0 in
         then_result (inventory_of L d source) (\<lambda>i.
           Ok \<lparr>pm_schema_version = 1, pm_scope = scope, pm_snapshot = snapshot,
               pm_version = mf_version source, pm_resource_version = resource_version,
               pm_content_sha256 = content_hash L scope source i,
               pm_files = iv_files i, pm_source_manifest = source\<rparr>))"

definition registry_manifest ::
  "master_lib \<Rightarrow> disk \<Rightarrow> string option \<Rightarrow> master_scope \<Rightarrow> MasterError + registry_document" where
  "registry_manifest L root snapshot scope =
     (if \<not> scope_ok scope then Err MasterFormat
      else then_result (case snapshot of Some v \<Rightarrow> Ok v | None \<Rightarrow> current_snapshot L root) (\<lambda>snap.
           then_result (snapshot_directory root snap) (\<lambda>d.
           then_result (published_of L scope snap d) (\<lambda>m.
             let bs = ml_ser_published L m in
             Ok \<lparr>rd_bytes = bs, rd_etag = ''\"'' @ digest L bs @ ''\"'', rd_version = pm_version m\<rparr>))))"

subsection \<open>Table reads\<close>

definition verify_indexed_digest ::
  "master_lib \<Rightarrow> folder \<Rightarrow> master_manifest \<Rightarrow> string \<Rightarrow> nat \<Rightarrow> string \<Rightarrow> MasterError + bool" where
  "verify_indexed_digest L d source tab len sha256 =
     (case d ''tables.json'' of
        None \<Rightarrow> Ok False
      | Some l \<Rightarrow>
          then_result (read_inventory L (regular L (Some l) MAX_INDEX)) (\<lambda>index.
          then_result (inventory_validate index source) (\<lambda>_.
            case find (\<lambda>f. tf_name f = tab @ ''.json'') (iv_files index) of
              None \<Rightarrow> Err MasterFormat
            | Some f \<Rightarrow> if tf_size f \<noteq> len \<or> tf_sha256 f \<noteq> sha256 then Err MasterIntegrity else Ok True)))"

definition has_table :: "master_manifest \<Rightarrow> string \<Rightarrow> bool" where
  "has_table m tab \<longleftrightarrow> list_ex (\<lambda>e. en_name e = tab @ ''.bin'') (mf_files m)"

definition table_read ::
  "master_lib \<Rightarrow> disk \<Rightarrow> region \<Rightarrow> string \<Rightarrow> string \<Rightarrow> string \<Rightarrow> bool \<Rightarrow> MasterError + registry_document" where
  "table_read L root region snapshot tab expected_hash validate_indexed =
     (if \<not> safe_component tab \<or> \<not> hash_valid expected_hash then Err MasterNotFound
      else then_result (snapshot_directory root snapshot) (\<lambda>d.
           then_result (source_of L snapshot d region) (\<lambda>source.
             if \<not> has_table source tab then Err MasterNotFound
             else then_result (regular L (d (tab @ ''.json'')) MAX_JSON) (\<lambda>bs.
               if digest L bs \<noteq> expected_hash then Err MasterIntegrity
               else then_result (verify_indexed_digest L d source tab (length bs) expected_hash) (\<lambda>indexed.
                 if (validate_indexed \<or> \<not> indexed) \<and> \<not> ml_validate_json L bs then Err MasterFormat
                 else Ok \<lparr>rd_bytes = bs, rd_etag = ''\"'' @ expected_hash @ ''\"'',
                          rd_version = mf_version source\<rparr>)))))"

definition registry_table ::
  "master_lib \<Rightarrow> disk \<Rightarrow> region \<Rightarrow> string \<Rightarrow> string \<Rightarrow> string \<Rightarrow> MasterError + registry_document" where
  "registry_table L root region snapshot tab expected_hash =
     table_read L root region snapshot tab expected_hash True"

definition table_intact :: "master_lib \<Rightarrow> disk \<Rightarrow> region \<Rightarrow> string \<Rightarrow> string \<Rightarrow> string \<Rightarrow> bool" where
  "table_intact L root region snapshot tab expected_hash \<longleftrightarrow>
     is_ok (table_read L root region snapshot tab expected_hash False)"

subsection \<open>Reads through the pointer\<close>

record master_document =
  mdoc_version :: string
  mdoc_sha256 :: string
  mdoc_bytes :: "u8 list"

function trim_bin :: "string \<Rightarrow> string" where
  \<comment> \<open>\<open>name.trim_end_matches(".bin")\<close>\<close>
  "trim_bin s = (case strip_suffix s ''.bin'' of None \<Rightarrow> s | Some r \<Rightarrow> trim_bin r)"
  by pat_completeness auto

termination trim_bin
  by (relation "measure length") (auto simp: strip_suffix_Some)

definition status_value ::
  "master_manifest \<Rightarrow> string \<Rightarrow> json \<Rightarrow> region \<Rightarrow> string option \<Rightarrow> json" where
  \<comment> \<open>the members in the order of the writer, by key\<close>
  "status_value m snapshot source region resource =
     JObj ([(''region'', JStr (region_name region))] @
       (case resource of None \<Rightarrow> [] | Some v \<Rightarrow> [(''resource_version'', JStr v)]) @
       [(''snapshot'', JStr snapshot), (''source'', source),
        (''tables'', JArr (map (\<lambda>e. JStr (trim_bin (en_name e))) (mf_files m))),
        (''version'', JStr (mf_version m))])"

definition read_current_table ::
  "master_lib \<Rightarrow> folder \<Rightarrow> master_manifest \<Rightarrow> string \<Rightarrow> MasterError + string \<times> u8 list \<times> bool" where
  "read_current_table L d m tab =
     (if \<not> safe_component tab \<or> \<not> has_table m tab then Err MasterNotFound
      else then_result (read_bounded L (d (tab @ ''.json'')) MAX_JSON) (\<lambda>bs.
           let sha256 = digest L bs in
           then_result (verify_indexed_digest L d m tab (length bs) sha256) (\<lambda>indexed.
             Ok (sha256, bs, indexed))))"

definition read_current_status ::
  "master_lib \<Rightarrow> string \<Rightarrow> json \<Rightarrow> region \<Rightarrow> master_manifest \<Rightarrow> MasterError + string \<times> u8 list \<times> bool" where
  "read_current_status L snapshot receipt region m =
     (if \<not> allowed_source (json_get receipt ''source'') then Err MasterFormat
      else if json_get receipt ''version'' \<noteq> Some (JStr (mf_version m)) \<or>
              json_get receipt ''snapshot'' \<noteq> Some (JStr snapshot)
      then Err MasterFormat
      else then_result (recorded_resource_version receipt) (\<lambda>resource.
        let bs = ml_ser_value L (status_value m snapshot (the (json_get receipt ''source'')) region resource)
        in Ok (digest L bs, bs, False)))"

definition read_current_inner ::
  "master_lib \<Rightarrow> disk \<Rightarrow> string option \<Rightarrow> region option \<Rightarrow> MasterError + master_document \<times> bool" where
  "read_current_inner L root tab expected =
     then_result (read_text (read_bounded L (node_leaf (root ''CURRENT'')) 128)) (\<lambda>snapshot.
       if \<not> snapshot_name snapshot then Err MasterFormat
       else let d = node_folder (root snapshot) in
         then_result (read_bounded L (d ''MasterManifest.json'') MAX_MANIFEST) (\<lambda>bs.
         then_result (manifest_parse L bs) (\<lambda>m.
         then_result (read_value L (read_bounded L (d ''receipt.json'') 4096)) (\<lambda>receipt.
         then_result (recorded_region receipt) (\<lambda>region.
           if expected \<noteq> None \<and> expected \<noteq> Some region then Err MasterFormat
           else then_result
             (case tab of
                Some t \<Rightarrow> read_current_table L d m t
              | None \<Rightarrow> read_current_status L snapshot receipt region m)
             (\<lambda>(sha256, bytes, indexed).
               Ok (\<lparr>mdoc_version = mf_version m, mdoc_sha256 = sha256, mdoc_bytes = bytes\<rparr>, indexed)))))))"

definition read_current_checked ::
  "master_lib \<Rightarrow> disk \<Rightarrow> string option \<Rightarrow> region option \<Rightarrow> MasterError + master_document" where
  "read_current_checked L root tab expected =
     then_result (read_current_inner L root tab expected) (\<lambda>(document, _). Ok document)"

definition read_current :: "master_lib \<Rightarrow> disk \<Rightarrow> string option \<Rightarrow> MasterError + master_document" where
  "read_current L root tab = read_current_checked L root tab None"

definition read_current_in ::
  "master_lib \<Rightarrow> disk \<Rightarrow> string option \<Rightarrow> region \<Rightarrow> MasterError + master_document" where
  "read_current_in L root tab region = read_current_checked L root tab (Some region)"

definition current_table_intact :: "master_lib \<Rightarrow> disk \<Rightarrow> string \<Rightarrow> region \<Rightarrow> string \<Rightarrow> bool" where
  "current_table_intact L root tab region version =
     (case read_current_inner L root (Some tab) (Some region) of
        Inr (document, indexed) \<Rightarrow>
          mdoc_version document = version \<and> (indexed \<or> ml_validate_json L (mdoc_bytes document))
      | Inl _ \<Rightarrow> False)"

subsection \<open>Publication records and the retention boundary\<close>

definition predecessor :: "master_lib \<Rightarrow> disk \<Rightarrow> MasterError + string option" where
  "predecessor L root =
     (case regular L (node_leaf (root ''CURRENT'')) 128 of
        Inl e \<Rightarrow> if e = MasterIo IoNotFound then Ok None else Err e
      | Inr pointer \<Rightarrow>
          then_result (read_text (Ok pointer)) (\<lambda>snapshot.
          then_result (snapshot_directory root snapshot) (\<lambda>d.
          then_result (source_with_provenance L snapshot d) (\<lambda>_.
            Ok (Some snapshot)))))"

definition read_publication ::
  "master_lib \<Rightarrow> folder \<Rightarrow> string \<Rightarrow> string set \<Rightarrow> MasterError + publication option" where
  "read_publication L d snapshot visited =
     (case regular L (d ''publication.json'') 4096 of
        Inl e \<Rightarrow> if e = MasterIo IoNotFound then Ok None else Err e
      | Inr bs \<Rightarrow>
          (case ml_de_publication L bs of
             None \<Rightarrow> Err MasterFormat
           | Some record \<Rightarrow>
               if pb_schema_version record \<noteq> 1 \<or> pb_snapshot record \<noteq> snapshot \<or>
                  (\<exists>previous \<in> set_option (pb_previous_snapshot record).
                     \<not> snapshot_name previous \<or> previous \<in> visited)
               then Err MasterFormat else Ok (Some record)))"

definition retention_boundary :: "master_lib \<Rightarrow> disk \<Rightarrow> MasterError + string option" where
  "retention_boundary L root =
     (case regular L (node_leaf (root ''retention.json'')) 4096 of
        Inl e \<Rightarrow> if e = MasterIo IoNotFound then Ok None else Err e
      | Inr bs \<Rightarrow>
          (case ml_de_retention L bs of
             None \<Rightarrow> Err MasterFormat
           | Some record \<Rightarrow>
               if rr_schema_version record \<noteq> 1 \<or> \<not> snapshot_name (rr_boundary record)
               then Err MasterFormat else Ok (Some (rr_boundary record))))"

subsection \<open>What the readers accept\<close>

lemma regular_Ok_iff: "regular L l limit = Ok bs \<longleftrightarrow> l = Some (Plain bs) \<and> length bs \<le> limit"
  by (induction L l limit rule: regular.induct) (auto simp: within_limit_def)

lemma regular_NotFound_iff: "regular L l limit = Err (MasterIo IoNotFound) \<longleftrightarrow> l = None"
  by (induction L l limit rule: regular.induct) (auto simp: within_limit_def)

lemma read_bounded_Plain: "length bs \<le> limit \<Longrightarrow> read_bounded L (Some (Plain bs)) limit = Ok bs"
  by (simp add: within_limit_def)

lemma snapshot_directory_Ok_iff:
  "snapshot_directory root s = Ok d \<longleftrightarrow> snapshot_name s \<and> root s = Some (Dir d)"
  by (auto simp: snapshot_directory_def split: option.splits node.splits)

lemma snapshot_directory_NotFound_iff:
  "snapshot_directory root s = Err MasterNotFound \<longleftrightarrow> \<not> snapshot_name s \<or> root s = None"
  by (auto simp: snapshot_directory_def split: option.splits node.splits)

lemma source_with_provenance_Ok:
  assumes "source_with_provenance L name d = Ok (source, resource, region)"
  shows "manifest_ok source" and "\<forall>v \<in> set_option resource. safe_version v" and "master_supported region"
proof -
  obtain receipt where "recorded_resource_version receipt = Ok resource" "recorded_region receipt = Ok region"
    and "manifest_ok source"
    using assms by (auto simp: source_with_provenance_def then_result_Ok_iff manifest_parse_iff split: if_splits)
  then show "manifest_ok source" "\<forall>v \<in> set_option resource. safe_version v" "master_supported region"
    by (auto simp: recorded_resource_version_def recorded_region_def master_supported_def
        split: option.splits json.splits if_splits)
qed

lemma inventory_of_Ok:
  assumes "inventory_of L d source = Ok i" "manifest_ok source" shows "inventory_ok i source"
proof -
  have "inventory_validate i source = Ok ()"
    using assms(1) by (auto simp: inventory_of_def then_result_Ok_iff)
  then show ?thesis using inventory_validate_iff assms(2) by (simp add: manifest_ok_def)
qed

lemma published_of_validates:
  assumes m: "published_of L scope snapshot d = Ok m"
    and "snapshot_name snapshot" "master_supported (sc_region scope)"
    and written: "\<And>source resource region. source_with_provenance L snapshot d = Ok (source, resource, region) \<Longrightarrow>
      manifest_written L (sort_manifest source)"
  shows "published_validate L m scope = Ok ()"
proof -
  obtain source resource region i where prov: "source_with_provenance L snapshot d = Ok (source, resource, region)"
    and inv: "inventory_of L d (sort_manifest source) = Ok i"
    and parts: "m = \<lparr>pm_schema_version = 1, pm_scope = scope, pm_snapshot = snapshot,
               pm_version = mf_version source, pm_resource_version = resource,
               pm_content_sha256 = content_hash L scope (sort_manifest source) i,
               pm_files = iv_files i, pm_source_manifest = sort_manifest source\<rparr>"
    using m by (auto simp: published_of_def then_result_Ok_iff Let_def split: if_splits)
  note ok = source_with_provenance_Ok [OF prov]
  have "inventory_ok i source" using inventory_of_Ok [OF inv] ok(1) by simp
  then show ?thesis
    by (intro published_validateI [of _ _ source _ i])
      (use assms(2,3) ok parts written [OF prov] in simp_all)
qed

subsection \<open>Properties of the readers\<close>

text \<open>Consumers accept what the registry serves.  A manifest that \<open>manifest\<close> of the registry
  returns, for the current or a pinned snapshot, passes \<open>PublishedManifest::validate\<close> under the
  scope it was asked for: the scope and schema match, the source manifest and the inventory
  are valid and sorted, and the content hash is the hash of its parts; its entity tag is the digest
  of the bytes served.  The hypothesis on serde is that the source manifests of the store, sorted, read back
  as written and within the size limit of the parser.\<close>

theorem served_manifests_validate:
  assumes "registry_manifest L root snapshot scope = Ok doc"
    and "\<And>snap d source resource region. root snap = Some (Dir d) \<Longrightarrow>
      source_with_provenance L snap d = Ok (source, resource, region) \<Longrightarrow> manifest_written L (sort_manifest source)"
  shows "\<exists>m. rd_bytes doc = ml_ser_published L m \<and> pm_scope m = scope \<and>
    rd_version doc = pm_version m \<and> rd_etag doc = ''\"'' @ digest L (rd_bytes doc) @ ''\"'' \<and>
    (\<forall>s. snapshot = Some s \<longrightarrow> pm_snapshot m = s) \<and> published_validate L m scope = Ok ()"
proof -
  obtain snap d m where snap: "snapshot_directory root snap = Ok d" "published_of L scope snap d = Ok m"
    and scope: "scope_ok scope" and given: "\<forall>s. snapshot = Some s \<longrightarrow> snap = s"
    and doc: "doc = \<lparr>rd_bytes = ml_ser_published L m,
       rd_etag = ''\"'' @ digest L (ml_ser_published L m) @ ''\"'', rd_version = pm_version m\<rparr>"
    using assms(1) by (auto simp: registry_manifest_def then_result_Ok_iff Let_def split: if_splits option.splits)
  have name: "snapshot_name snap" "root snap = Some (Dir d)"
    using snap(1) by (simp_all add: snapshot_directory_Ok_iff)
  have "published_validate L m scope = Ok ()"
    by (rule published_of_validates [OF snap(2) name(1) _ assms(2) [OF name(2)]])
      (use scope in \<open>simp_all add: scope_ok_def\<close>)
  moreover have "pm_snapshot m = snap" "pm_scope m = scope"
    using snap(2) by (auto simp: published_of_def then_result_Ok_iff Let_def split: if_splits)
  ultimately show ?thesis using doc given by auto
qed

lemma table_read_Ok:
  assumes "table_read L root region snapshot tab hash strict = Ok doc"
  obtains d source resource indexed where
    "snapshot_name snapshot" "root snapshot = Some (Dir d)" "safe_component tab"
    "source_with_provenance L snapshot d = Ok (source, resource, region)" "has_table source tab"
    "d (tab @ ''.json'') = Some (Plain (rd_bytes doc))" "length (rd_bytes doc) \<le> MAX_JSON"
    "digest L (rd_bytes doc) = hash" "rd_version doc = mf_version source"
    "verify_indexed_digest L d source tab (length (rd_bytes doc)) hash = Ok indexed"
    "strict \<or> \<not> indexed \<Longrightarrow> ml_validate_json L (rd_bytes doc)"
  using assms
  by (auto simp: table_read_def then_result_Ok_iff source_of_def regular_Ok_iff
      snapshot_directory_Ok_iff split: if_splits)

lemma verify_indexed_digest_Ok:
  assumes "verify_indexed_digest L d source tab len hash = Ok indexed" "manifest_ok source"
  shows "if indexed then \<exists>i f. inventory_of L d source = Ok i \<and> f \<in> set (iv_files i) \<and>
      tf_name f = tab @ ''.json'' \<and> tf_size f = len \<and> tf_sha256 f = hash
    else d ''tables.json'' = None"
proof (cases "d ''tables.json''")
  case None
  then show ?thesis using assms by (simp add: verify_indexed_digest_def)
next
  case (Some l)
  then obtain i f where "read_inventory L (regular L (Some l) MAX_INDEX) = Ok i"
      "inventory_validate i source = Ok ()" "find (\<lambda>f. tf_name f = tab @ ''.json'') (iv_files i) = Some f"
      "tf_size f = len" "tf_sha256 f = hash" "indexed"
    using assms(1) by (auto simp: verify_indexed_digest_def then_result_Ok_iff split: option.splits if_splits)
  then show ?thesis using Some
    by (auto simp: inventory_of_def find_Some_iff then_result_def intro!: exI [of _ i] exI [of _ f])
qed

text \<open>C28: a table read returns the pinned bytes or an error.  When \<open>table\<close> succeeds, the bytes are
  the whole contents of the regular file of that table in the named snapshot, their digest is the
  one asked for, they are valid JSON of at most 64 MiB, the snapshot belongs to the region
  and its manifest lists the table; and if the snapshot has an index, the index is valid and records exactly this size
  and digest.\<close>

theorem table_reads_return_the_pinned_bytes:
  assumes "registry_table L root region snapshot tab hash = Ok doc"
  shows "\<exists>d source resource. snapshot_name snapshot \<and> root snapshot = Some (Dir d) \<and>
    source_with_provenance L snapshot d = Ok (source, resource, region) \<and> has_table source tab \<and>
    d (tab @ ''.json'') = Some (Plain (rd_bytes doc)) \<and> digest L (rd_bytes doc) = hash \<and>
    length (rd_bytes doc) \<le> MAX_JSON \<and> ml_validate_json L (rd_bytes doc) \<and> rd_version doc = mf_version source \<and>
    (d ''tables.json'' = None \<or> (\<exists>i f. inventory_of L d source = Ok i \<and> f \<in> set (iv_files i) \<and>
      tf_name f = tab @ ''.json'' \<and> tf_size f = length (rd_bytes doc) \<and> tf_sha256 f = hash))"
proof -
  from assms obtain d source resource indexed where read:
    "snapshot_name snapshot" "root snapshot = Some (Dir d)"
    "source_with_provenance L snapshot d = Ok (source, resource, region)" "has_table source tab"
    "d (tab @ ''.json'') = Some (Plain (rd_bytes doc))" "length (rd_bytes doc) \<le> MAX_JSON"
    "digest L (rd_bytes doc) = hash" "rd_version doc = mf_version source"
    "verify_indexed_digest L d source tab (length (rd_bytes doc)) hash = Ok indexed"
    "ml_validate_json L (rd_bytes doc)"
    unfolding registry_table_def by (rule table_read_Ok) auto
  have "d ''tables.json'' = None \<or> (\<exists>i f. inventory_of L d source = Ok i \<and> f \<in> set (iv_files i) \<and>
      tf_name f = tab @ ''.json'' \<and> tf_size f = length (rd_bytes doc) \<and> tf_sha256 f = hash)"
    using verify_indexed_digest_Ok [OF read(9) source_with_provenance_Ok(1) [OF read(3)]]
    by (auto split: if_splits)
  with read show ?thesis by blast
qed

text \<open>A store with one snapshot of one table, and a library that knows its documents.\<close>

definition sample_manifest :: master_manifest where
  "sample_manifest = \<lparr>mf_version = ''1.0'', mf_files =
     [\<lparr>en_name = ''MasterA.bin'', en_hash = replicate 64 CHR ''a'', en_size = 96\<rparr>]\<rparr>"

definition sample_inventory :: table_inventory where
  "sample_inventory = \<lparr>iv_schema_version = 1, iv_version = ''1.0'', iv_files =
     [\<lparr>tf_name = ''MasterA.json'', tf_size = 1, tf_sha256 = replicate 64 CHR ''a''\<rparr>]\<rparr>"

definition sample_receipt :: json where
  "sample_receipt = JObj [(''version'', JStr ''1.0''), (''snapshot'', JStr ''master-1''),
     (''tables'', JInt 1), (''source'', JStr ''local-import''), (''region'', JStr ''en'')]"

definition sample_store_lib :: master_lib where
  "sample_store_lib = plain_lib\<lparr>
     ml_de_manifest := (\<lambda>bs. if bs = [10] then Some sample_manifest else None),
     ml_ser_manifest := (\<lambda>_. [10]),
     ml_de_inventory := (\<lambda>bs. if bs = [11] then Some sample_inventory else None),
     ml_de_value := (\<lambda>bs. if bs = [12] then Some sample_receipt else None)\<rparr>"

definition sample_folder :: folder where
  "sample_folder = [''MasterManifest.json'' \<mapsto> Plain [10], ''tables.json'' \<mapsto> Plain [11],
     ''receipt.json'' \<mapsto> Plain [12], ''MasterA.json'' \<mapsto> Plain [5]]"

definition sample_store :: disk where
  "sample_store = [''CURRENT'' \<mapsto> Top (Plain (text_bytes ''master-1'')), ''master-1'' \<mapsto> Dir sample_folder]"

definition sample_scope :: master_scope where
  "sample_scope = \<lparr>sc_region = En, sc_environment = ''prod'', sc_platform = Android\<rparr>"

lemma sample_names: "snapshot_name ''master-1''" "safe_component ''MasterA''" "safe_version ''1.0''"
    "hash_valid (replicate 64 CHR ''a'')" "scope_ok sample_scope"
  by code_simp+

lemma sample_manifest_ok: "manifest_ok sample_manifest"
proof -
  have "entry_ok \<lparr>en_name = ''MasterA.bin'', en_hash = replicate 64 CHR ''a'', en_size = 96\<rparr>"
    unfolding entry_ok_def
    by (intro conjI exI [of _ "''MasterA''"]) (simp_all add: sample_names starts_with_def list_all_iff byte_defs MAX_ENCRYPTED_def)
  then show ?thesis by (simp add: manifest_ok_def sample_manifest_def sample_names MAX_TOTAL_def)
qed

lemma sample_inventory_ok: "inventory_ok sample_inventory sample_manifest"
  by (simp add: inventory_ok_def sample_inventory_def sample_manifest_def file_ok_def sample_names
      MAX_JSON_def MAX_TOTAL_def starts_with_def)

lemma sample_provenance_in:
  assumes "ml_de_manifest L [10] = Some sample_manifest" "ml_de_value L [12] = Some sample_receipt"
  shows "source_with_provenance L ''master-1'' sample_folder = Ok (sample_manifest, None, En)"
proof -
  have parse: "manifest_parse L [10] = Ok sample_manifest"
    by (simp add: manifest_parse_iff sample_manifest_ok assms MAX_MANIFEST_def)
  have files: "regular L (sample_folder ''MasterManifest.json'') MAX_MANIFEST = Ok [10]"
      "regular L (sample_folder ''receipt.json'') 4096 = Ok [12]"
    by (simp_all add: within_limit_def sample_folder_def MAX_MANIFEST_def)
  have "recorded_region sample_receipt = Ok En" "recorded_resource_version sample_receipt = Ok None"
    by code_simp+
  then show ?thesis
    by (simp add: source_with_provenance_def files parse read_value_def assms)
      (simp add: sample_receipt_def sample_manifest_def allowed_source_def)
qed

lemma sample_provenance:
  "source_with_provenance sample_store_lib ''master-1'' sample_folder = Ok (sample_manifest, None, En)"
  by (rule sample_provenance_in) (simp_all add: sample_store_lib_def)

lemma sample_store_sources:
  assumes "source_with_provenance sample_store_lib s d = Ok (source, resource, region)"
  shows "source = sample_manifest"
  using assms by (auto simp: source_with_provenance_def then_result_Ok_iff manifest_parse_iff
      sample_store_lib_def split: if_splits)

lemma sample_manifest_written: "manifest_written sample_store_lib (sort_manifest sample_manifest)"
proof -
  have "sort_manifest sample_manifest = sample_manifest"
    by (simp add: sort_manifest_def sample_manifest_def)
  then show ?thesis by (simp add: manifest_written_def sample_store_lib_def MAX_MANIFEST_def)
qed

lemma sample_index:
  "read_inventory sample_store_lib (regular sample_store_lib (sample_folder ''tables.json'') MAX_INDEX) = Ok sample_inventory"
proof -
  have "regular sample_store_lib (sample_folder ''tables.json'') MAX_INDEX = Ok [11]"
    by (simp add: within_limit_def sample_folder_def MAX_INDEX_def)
  then show ?thesis by (simp add: read_inventory_def sample_store_lib_def)
qed

lemma sample_index_valid: "inventory_validate sample_inventory sample_manifest = Ok ()"
  by (subst inventory_validate_iff) (simp_all add: sample_inventory_ok, simp add: sample_manifest_def)

lemma sample_inventory_of: "inventory_of sample_store_lib sample_folder sample_manifest = Ok sample_inventory"
  unfolding inventory_of_def using sample_index sample_index_valid by (simp add: sample_folder_def)

lemma sample_dir: "snapshot_directory sample_store ''master-1'' = Ok sample_folder"
  by (simp add: snapshot_directory_Ok_iff sample_names sample_store_def)

lemma sample_current: "current_snapshot sample_store_lib sample_store = Ok ''master-1''"
proof -
  have "regular sample_store_lib (node_leaf (sample_store ''CURRENT'')) 128 = Ok (text_bytes ''master-1'')"
    by (simp add: within_limit_def sample_store_def text_bytes_def)
  moreover have "from_utf8 (text_bytes ''master-1'') = Some ''master-1''" by code_simp
  ultimately show ?thesis by (simp add: current_snapshot_def read_text_def sample_dir)
qed

theorem served_manifests_validate_witness:
  "\<exists>doc m. registry_manifest sample_store_lib sample_store None sample_scope = Ok doc \<and>
     rd_bytes doc = ml_ser_published sample_store_lib m \<and> published_validate sample_store_lib m sample_scope = Ok ()"
proof -
  have sorted: "sort_manifest sample_manifest = sample_manifest"
    by (simp add: sort_manifest_def sample_manifest_def)
  have sample_region: "sc_region sample_scope = En" by (simp add: sample_scope_def)
  have "is_ok (registry_manifest sample_store_lib sample_store None sample_scope)"
    by (simp add: registry_manifest_def sample_names sample_current sample_dir published_of_def
        sample_provenance sorted sample_inventory_of Let_def sample_region)
  then obtain doc where doc: "registry_manifest sample_store_lib sample_store None sample_scope = Ok doc"
    by (auto simp: is_ok_iff)
  show ?thesis
    using served_manifests_validate [OF doc] sample_manifest_written sample_store_sources doc by metis
qed

theorem table_reads_return_the_pinned_bytes_witness:
  "\<exists>doc. registry_table sample_store_lib sample_store En ''master-1'' ''MasterA'' (replicate 64 CHR ''a'') = Ok doc \<and>
     rd_bytes doc = [5] \<and> digest sample_store_lib (rd_bytes doc) = replicate 64 CHR ''a''"
proof -
  have bytes: "regular sample_store_lib (sample_folder ''MasterA.json'') MAX_JSON = Ok [5]"
    by (simp add: within_limit_def sample_folder_def MAX_JSON_def)
  have lib: "digest sample_store_lib [5] = replicate 64 CHR ''a''" "ml_validate_json sample_store_lib [5]"
    by (simp_all add: digest_def sample_store_lib_def plain_lib_def)
  have index: "verify_indexed_digest sample_store_lib sample_folder sample_manifest ''MasterA'' (Suc 0)
      (replicate 64 CHR ''a'') = Ok True"
    unfolding verify_indexed_digest_def using sample_index sample_index_valid
    by (simp add: sample_folder_def sample_inventory_def)
  have has: "has_table sample_manifest ''MasterA''" by (simp add: has_table_def sample_manifest_def)
  have read: "registry_table sample_store_lib sample_store En ''master-1'' ''MasterA'' (replicate 64 CHR ''a'') =
      Ok \<lparr>rd_bytes = [5], rd_etag = ''\"'' @ replicate 64 CHR ''a'' @ ''\"'', rd_version = mf_version sample_manifest\<rparr>"
    by (simp only: registry_table_def table_read_def sample_names sample_dir source_of_def sample_provenance
        then_result_simps prod.case) (simp add: has bytes lib index)
  show ?thesis using table_reads_return_the_pinned_bytes [OF read] read by auto
qed

end
