(* ===== verification/Master_Publish.thy ===== *)
theory Master_Publish
  imports Master_Store
begin

section \<open>Preparing and publishing a Master snapshot\<close>

text \<open>
  The writing side of \<open>src/master.rs\<close>: \<open>prepare_directory\<close> decodes an encrypted bundle into a staging
  directory, \<open>prepare_registry\<close> validates one downloaded from an owner, and \<open>publish\<close> moves the staging
  directory to its final name and then swings the pointer file \<open>CURRENT\<close>.

  The writer's effects on the store are explicit steps in the order the code performs them, each made
  durable by a sync before the next.  A write may be interrupted with any contents; a rename is
  atomic.  The relation \<open>crash\<close> gives every disk that an interruption of a list of steps, by a crash or by an
  I/O error, can leave behind.  The fresh names (the snapshot's UUID, the staging directory and
  the temporary file) are arguments.  I/O errors while staging only abandon the staging directory and are not modelled.
\<close>

subsection \<open>Steps on the disk\<close>

datatype disk_step =
    WriteIn string string "u8 list"
  | WriteTop string "u8 list"
  | Rename string string
  | RemoveDir string

fun apply_step :: "disk_step \<Rightarrow> disk \<Rightarrow> disk" where
  "apply_step (WriteIn dir name bs) root =
     (case root dir of
        Some (Dir d) \<Rightarrow> root(dir \<mapsto> Dir (d(name \<mapsto> Plain bs)))
      | _ \<Rightarrow> root)"
| "apply_step (WriteTop name bs) root = root(name \<mapsto> Top (Plain bs))"
| "apply_step (Rename a b) root = (root(a := None))(b := root a)"
| "apply_step (RemoveDir name) root = root(name := None)"

declare apply_step.simps [simp del]

inductive crash :: "disk \<Rightarrow> disk_step list \<Rightarrow> disk \<Rightarrow> bool" where
  crash_now: "crash root steps root"
| crash_torn_in: "crash root (WriteIn dir name bs # steps) (apply_step (WriteIn dir name torn) root)"
| crash_torn_top: "crash root (WriteTop name bs # steps) (apply_step (WriteTop name torn) root)"
| crash_later: "crash (apply_step s root) steps root' \<Longrightarrow> crash root (s # steps) root'"

inductive_cases crash_NilE: "crash root [] root'"
inductive_cases crash_ConsE: "crash root (s # steps) root'"

subsection \<open>Receipts\<close>

definition receipt_value :: "import_receipt \<Rightarrow> json" where
  "receipt_value r =
     JObj ([(''version'', JStr (rc_version r)), (''snapshot'', JStr (rc_snapshot r)),
       (''tables'', JInt (int (rc_tables r))), (''json_bytes'', JInt (int (rc_json_bytes r))),
       (''source'', JStr (rc_source r)), (''region'', JStr (region_name (rc_region r)))] @
       (case rc_resource_version r of None \<Rightarrow> [] | Some v \<Rightarrow> [(''resource_version'', JStr v)]))"

subsection \<open>Preparation\<close>

record prepared_import =
  pi_staging :: folder
  pi_receipt :: import_receipt

fun prepare_tables ::
  "master_lib \<Rightarrow> master_decoder \<Rightarrow> folder \<Rightarrow> nat \<Rightarrow> folder \<Rightarrow> table_file list \<Rightarrow> master_entry list \<Rightarrow>
     MasterError + nat \<times> folder \<times> table_file list" where
  "prepare_tables L dec input sz staging files [] = Ok (sz, staging, files)"
| "prepare_tables L dec input sz staging files (e # es) =
     then_result (read_bounded L (input (en_name e)) MAX_ENCRYPTED) (\<lambda>bs.
     then_result (decode L dec e bs) (\<lambda>json.
       if MAX_TOTAL < sz + length json then Err MasterLimit
       else let name = replace_bin (en_name e) in
         prepare_tables L dec input (sz + length json) (staging(name \<mapsto> Plain json))
           (files @ [file_of L name json]) es))"

definition stage_documents ::
  "master_lib \<Rightarrow> folder \<Rightarrow> table_inventory \<Rightarrow> u8 list \<Rightarrow> import_receipt \<Rightarrow> prepared_import" where
  "stage_documents L staging index manifest_bytes receipt =
     \<lparr>pi_staging = staging(''tables.json'' \<mapsto> Plain (ml_ser_inventory L index),
        ''MasterManifest.json'' \<mapsto> Plain manifest_bytes,
        ''receipt.json'' \<mapsto> Plain (ml_ser_receipt L receipt)),
      pi_receipt = receipt\<rparr>"

definition prepare_directory ::
  "master_lib \<Rightarrow> master_decoder \<Rightarrow> folder \<Rightarrow> string \<Rightarrow> string option \<Rightarrow> region \<Rightarrow> string \<Rightarrow>
     MasterError + prepared_import" where
  "prepare_directory L dec input source resource_version region snapshot =
     (if \<not> master_supported region \<or> (\<exists>v \<in> set_option resource_version. \<not> safe_version v)
      then Err MasterFormat
      else then_result (read_bounded L (input ''MasterManifest.json'') MAX_MANIFEST) (\<lambda>manifest_bytes.
        then_result (manifest_parse L manifest_bytes) (\<lambda>m.
        then_result (prepare_tables L dec input 0 (\<lambda>_. None) [] (mf_files m)) (\<lambda>(sz, staging, files).
          let index = \<lparr>iv_schema_version = 1, iv_version = mf_version m,
                       iv_files = sort_key tf_name files\<rparr> in
          then_result (inventory_validate index m) (\<lambda>_.
            let receipt = \<lparr>rc_version = mf_version m, rc_snapshot = snapshot,
                  rc_tables = length (mf_files m), rc_json_bytes = sz, rc_source = source,
                  rc_region = region, rc_resource_version = resource_version\<rparr>
            in Ok (stage_documents L staging index manifest_bytes receipt))))))"

fun check_staged :: "master_lib \<Rightarrow> folder \<Rightarrow> nat \<Rightarrow> table_file list \<Rightarrow> MasterError + nat" where
  "check_staged L staging sz [] = Ok sz"
| "check_staged L staging sz (f # fs) =
     (case staging (tf_name f) of
        None \<Rightarrow> Err (MasterIo IoNotFound)
      | Some (Link _) \<Rightarrow> Err MasterFormat
      | Some Sub \<Rightarrow> Err MasterFormat
      | Some l \<Rightarrow>
          then_result (read_bounded L (Some l) (tf_size f)) (\<lambda>bs.
            if length bs \<noteq> tf_size f \<or> digest L bs \<noteq> tf_sha256 f then Err MasterIntegrity
            else if \<not> ml_validate_json L bs then Err MasterFormat
            else check_staged L staging (sz + tf_size f) fs))"

definition prepare_registry ::
  "master_lib \<Rightarrow> folder \<Rightarrow> published_manifest \<Rightarrow> string \<Rightarrow> MasterError + prepared_import" where
  "prepare_registry L staging m snapshot =
     then_result (published_validate L m (pm_scope m)) (\<lambda>_.
     then_result (check_staged L staging 0 (pm_files m)) (\<lambda>sz.
       let index = \<lparr>iv_schema_version = 1, iv_version = pm_version m, iv_files = pm_files m\<rparr>;
           receipt = \<lparr>rc_version = pm_version m, rc_snapshot = snapshot,
             rc_tables = length (pm_files m), rc_json_bytes = sz, rc_source = ''registry'',
             rc_region = sc_region (pm_scope m), rc_resource_version = pm_resource_version m\<rparr>
       in Ok (stage_documents L staging index (ml_ser_manifest L (pm_source_manifest m)) receipt)))"

subsection \<open>Publication\<close>

definition publish ::
  "master_lib \<Rightarrow> disk \<Rightarrow> instant \<Rightarrow> string \<Rightarrow> string \<Rightarrow> prepared_import \<Rightarrow>
     MasterError + disk_step list \<times> import_receipt" where
  "publish L root now stage tmp p =
     (let snapshot = rc_snapshot (pi_receipt p) in
      then_result (predecessor L root) (\<lambda>previous.
      then_result
        (case previous of
           None \<Rightarrow> Ok ()
         | Some s \<Rightarrow> then_result (snapshot_region L root s) (\<lambda>r.
             if r \<noteq> rc_region (pi_receipt p) then Err MasterFormat else Ok ()))
        (\<lambda>_.
          let record = \<lparr>pb_schema_version = 1, pb_snapshot = snapshot,
                pb_previous_snapshot = previous, pb_published_at = now\<rparr> in
          Ok ([WriteIn stage ''publication.json'' (ml_ser_publication L record),
               Rename stage snapshot,
               WriteTop tmp (text_bytes snapshot),
               Rename tmp ''CURRENT''],
              pi_receipt p))))"

definition staged :: "disk \<Rightarrow> string \<Rightarrow> prepared_import \<Rightarrow> disk" where
  "staged root stage p = root(stage \<mapsto> Dir (pi_staging p))"

definition import_directory_for_region ::
  "master_lib \<Rightarrow> bool \<Rightarrow> disk \<Rightarrow> master_decoder \<Rightarrow> folder \<Rightarrow> string option \<Rightarrow> region \<Rightarrow> string \<Rightarrow>
     instant \<Rightarrow> string \<Rightarrow> string \<Rightarrow> MasterError + disk \<times> disk_step list \<times> import_receipt" where
  "import_directory_for_region L locked root dec input resource_version region snapshot now stage tmp =
     (if \<not> master_supported region then Err MasterFormat
      else if locked then Err MasterBusy
      else then_result (prepare_directory L dec input ''local-import'' resource_version region snapshot) (\<lambda>p.
        then_result (publish L (staged root stage p) now stage tmp p) (\<lambda>(steps, receipt).
          Ok (staged root stage p, steps, receipt))))"

subsection \<open>Documents that read back\<close>

text \<open>What the theorems assume of serde: the document concerned reads back as it was written, and its
  text fits the limit its reader applies.\<close>

definition receipt_written :: "master_lib \<Rightarrow> import_receipt \<Rightarrow> bool" where
  "receipt_written L r \<longleftrightarrow>
     ml_de_value L (ml_ser_receipt L r) = Some (receipt_value r) \<and> length (ml_ser_receipt L r) \<le> 4096"

definition inventory_written :: "master_lib \<Rightarrow> table_inventory \<Rightarrow> bool" where
  "inventory_written L i \<longleftrightarrow>
     ml_de_inventory L (ml_ser_inventory L i) = Some i \<and> length (ml_ser_inventory L i) \<le> MAX_INDEX"

definition publication_written :: "master_lib \<Rightarrow> publication \<Rightarrow> bool" where
  "publication_written L r \<longleftrightarrow>
     ml_de_publication L (ml_ser_publication L r) = Some r \<and> length (ml_ser_publication L r) \<le> 4096"

text \<open>A snapshot directory that serves: its provenance and its index are valid, and every file of the
  index is present with the recorded size and digest and holds JSON.\<close>

definition complete_snapshot :: "master_lib \<Rightarrow> string \<Rightarrow> folder \<Rightarrow> bool" where
  "complete_snapshot L name d \<longleftrightarrow> (\<exists>m resource region i.
     source_with_provenance L name d = Ok (m, resource, region) \<and> inventory_of L d m = Ok i \<and>
     (\<forall>f \<in> set (iv_files i). \<exists>bs. d (tf_name f) = Some (Plain bs) \<and>
        f = file_of L (tf_name f) bs \<and> ml_validate_json L bs))"

subsection \<open>Receipts read back\<close>

lemma receipt_value_get:
  "json_get (receipt_value r) ''version'' = Some (JStr (rc_version r))"
  "json_get (receipt_value r) ''snapshot'' = Some (JStr (rc_snapshot r))"
  "json_get (receipt_value r) ''tables'' = Some (JInt (int (rc_tables r)))"
  "json_get (receipt_value r) ''source'' = Some (JStr (rc_source r))"
  "json_get (receipt_value r) ''region'' = Some (JStr (region_name (rc_region r)))"
  "json_get (receipt_value r) ''resource_version'' = map_option JStr (rc_resource_version r)"
  by (simp_all add: receipt_value_def split: option.split)

lemma recorded_receipt:
  "\<forall>v \<in> set_option (rc_resource_version r). safe_version v \<Longrightarrow>
     recorded_resource_version (receipt_value r) = Ok (rc_resource_version r)"
  "master_supported (rc_region r) \<Longrightarrow> recorded_region (receipt_value r) = Ok (rc_region r)"
proof -
  show "recorded_resource_version (receipt_value r) = Ok (rc_resource_version r)"
    if "\<forall>v \<in> set_option (rc_resource_version r). safe_version v"
    using that by (cases "rc_resource_version r") (simp_all add: recorded_resource_version_def receipt_value_get)
  have "region_from_recorded_name (region_name (rc_region r)) = Some (rc_region r)"
    by (simp add: recorded_name_iff)
  then show "recorded_region (receipt_value r) = Ok (rc_region r)" if "master_supported (rc_region r)"
    using that by (simp add: recorded_region_def receipt_value_get)
qed

lemma provenance_of_receipt:
  assumes "d ''MasterManifest.json'' = Some (Plain bs)" "manifest_parse L bs = Ok m"
    and "d ''receipt.json'' = Some (Plain (ml_ser_receipt L r))" "receipt_written L r"
    and "rc_version r = mf_version m" "rc_tables r = length (mf_files m)"
    and "rc_source r \<in> {''local-import'', ''remote'', ''registry''}"
    and "\<forall>v \<in> set_option (rc_resource_version r). safe_version v" "master_supported (rc_region r)"
  shows "source_with_provenance L (rc_snapshot r) d = Ok (m, rc_resource_version r, rc_region r)"
proof -
  have "regular L (d ''MasterManifest.json'') MAX_MANIFEST = Ok bs"
    using assms(1,2) by (simp add: within_limit_def manifest_parse_iff)
  moreover have "read_value L (regular L (d ''receipt.json'') 4096) = Ok (receipt_value r)"
    using assms(3,4) by (simp add: within_limit_def read_value_def receipt_written_def)
  moreover have "allowed_source (Some (JStr (rc_source r)))"
    using assms(7) by (simp add: allowed_source_def)
  ultimately show ?thesis
    using assms(2,5,6,8,9) by (simp add: source_with_provenance_def receipt_value_get recorded_receipt)
qed

lemma char_byte_less: "byte c < 256"
  unfolding byte_def by (cases c) (simp add: of_char_def)

lemma unat_byte: "unat (of_nat (byte c) :: u8) = byte c"
  using char_byte_less [of c] by (simp add: unat_of_nat)

lemma safe_byte: "ascii_alphanumeric c \<or> c = CHR ''-'' \<or> c = CHR ''_'' \<Longrightarrow> byte c < 128"
  by (auto simp: byte_defs)

lemma utf8_valid_ascii: "\<forall>b \<in> set bs. b < 128 \<Longrightarrow> utf8_valid bs"
  by (induction bs) simp_all

lemma bytes_text_text [simp]: "bytes_text (text_bytes s) = s"
  by (simp add: text_bytes_def bytes_text_def comp_def unat_byte) (simp add: byte_def)

lemma text_bytes_ascii: "safe_component s \<Longrightarrow> from_utf8 (text_bytes s) = Some s"
proof -
  assume "safe_component s"
  then have ascii: "\<forall>c \<in> set s. byte c < 128" using safe_byte by (auto simp: safe_component_def list_all_iff)
  have "map unat (text_bytes s) = map byte s" by (simp add: text_bytes_def unat_byte)
  then show ?thesis using ascii by (simp add: from_utf8_def utf8_valid_ascii)
qed

lemma length_text_bytes [simp]: "length (text_bytes s) = length s"
  by (simp add: text_bytes_def)

subsection \<open>Staged tables\<close>

lemma decode_valid: "decode L dec e bs = Ok json \<Longrightarrow> ml_validate_json L json \<and> length json \<le> MAX_JSON"
  by (auto simp: decode_def then_result_Ok_iff split: if_splits option.splits)

definition decoded_from :: "master_lib \<Rightarrow> master_decoder \<Rightarrow> folder \<Rightarrow> master_entry \<Rightarrow> u8 list \<Rightarrow> bool" where
  "decoded_from L dec input e json \<longleftrightarrow>
     (\<exists>bs. read_bounded L (input (en_name e)) MAX_ENCRYPTED = Ok bs \<and> decode L dec e bs = Ok json)"

abbreviation json_name :: "master_entry \<Rightarrow> string" where
  "json_name e \<equiv> replace_bin (en_name e)"

lemma prepare_tables_Ok:
  assumes "prepare_tables L dec input sz staging files es = Ok (sz', staging', files')"
    "distinct (map json_name es)"
  shows "\<exists>js. list_all2 (decoded_from L dec input) es js \<and>
    files' = files @ map2 (\<lambda>e j. file_of L (json_name e) j) es js \<and>
    staging' = (\<lambda>n. case map_of (zip (map json_name es) js) n of Some j \<Rightarrow> Some (Plain j) | None \<Rightarrow> staging n)"
  using assms
proof (induction es arbitrary: sz staging files)
  case Nil
  then show ?case by simp
next
  case (Cons e es)
  obtain bs json where dec: "read_bounded L (input (en_name e)) MAX_ENCRYPTED = Ok bs" "decode L dec e bs = Ok json"
    and rest: "prepare_tables L dec input (sz + length json) (staging(json_name e \<mapsto> Plain json))
      (files @ [file_of L (json_name e) json]) es = Ok (sz', staging', files')"
    using Cons.prems(1) by (auto simp: then_result_Ok_iff Let_def split: if_splits)
  from Cons.IH [OF rest] Cons.prems(2) obtain js where js: "list_all2 (decoded_from L dec input) es js"
    "files' = (files @ [file_of L (json_name e) json]) @ map2 (\<lambda>e j. file_of L (json_name e) j) es js"
    "staging' = (\<lambda>n. case map_of (zip (map json_name es) js) n of Some j \<Rightarrow> Some (Plain j)
       | None \<Rightarrow> (staging(json_name e \<mapsto> Plain json)) n)"
    by auto
  have "decoded_from L dec input e json" using dec by (auto simp: decoded_from_def)
  moreover have "map_of (zip (map json_name es) js) (json_name e) = None"
    using Cons.prems(2) js(1) by (simp add: map_of_zip_is_None list_all2_lengthD)
  ultimately show ?case
    using js by (intro exI [of _ "json # js"]) (auto simp: fun_eq_iff split: option.splits)
qed

lemma json_names_distinct:
  assumes "list_all entry_ok es" "distinct (map en_name es)"
  shows "distinct (map json_name es)"
proof -
  have "inj_on replace_bin (set (map en_name es))"
  proof (rule inj_onI)
    fix a b assume "a \<in> set (map en_name es)" "b \<in> set (map en_name es)" and eq: "replace_bin a = replace_bin b"
    then obtain e f where "e \<in> set es" "f \<in> set es" and ab: "a = en_name e" "b = en_name f" by auto
    then have ok: "entry_ok e" "entry_ok f" using assms(1) by (simp_all add: list_all_iff)
    from ok show "a = b" using eq ab by (elim entry_okE) simp
  qed
  then have "distinct (map replace_bin (map en_name es))" using assms(2) by (simp only: distinct_map simp_thms)
  then show ?thesis by (simp add: comp_def)
qed

lemma reserved_names:
  assumes "entry_ok e"
  shows "json_name e \<notin> {''tables.json'', ''MasterManifest.json'', ''receipt.json'', ''publication.json''}"
  using assms
proof (rule entry_okE)
  fix stem assume stem: "starts_with stem ''Master''" "stem \<noteq> ''MasterManifest''" "json_name e = stem @ ''.json''"
  have "stem @ ''.json'' \<noteq> t @ ''.json''" if "\<not> starts_with t ''Master'' \<or> t = ''MasterManifest''" for t
    using that stem by auto
  from this [of "''tables''"] this [of "''MasterManifest''"] this [of "''receipt''"] this [of "''publication''"]
  show ?thesis unfolding stem(3) by (simp add: starts_with_def)
qed

subsection \<open>Staged snapshots are complete\<close>

definition holds_files :: "master_lib \<Rightarrow> folder \<Rightarrow> table_file list \<Rightarrow> bool" where
  "holds_files L d files \<longleftrightarrow> (\<forall>f \<in> set files. \<exists>bs. d (tf_name f) = Some (Plain bs) \<and>
     f = file_of L (tf_name f) bs \<and> ml_validate_json L bs)"

definition serving ::
  "master_lib \<Rightarrow> string \<Rightarrow> folder \<Rightarrow> master_manifest \<Rightarrow> string option \<Rightarrow> region \<Rightarrow> table_inventory \<Rightarrow> bool" where
  "serving L s d m resource region i \<longleftrightarrow>
     source_with_provenance L s d = Ok (m, resource, region) \<and> inventory_of L d m = Ok i \<and>
     d ''tables.json'' \<noteq> None \<and> holds_files L d (iv_files i)"

lemma servingD:
  assumes "serving L s d m resource region i"
  shows "source_with_provenance L s d = Ok (m, resource, region)" "inventory_of L d m = Ok i"
    "d ''tables.json'' \<noteq> None" "holds_files L d (iv_files i)" "manifest_ok m" "inventory_ok i m"
proof -
  show parts: "source_with_provenance L s d = Ok (m, resource, region)" "inventory_of L d m = Ok i"
    "d ''tables.json'' \<noteq> None" "holds_files L d (iv_files i)" using assms by (simp_all add: serving_def)
  show "manifest_ok m" by (rule source_with_provenance_Ok(1) [OF parts(1)])
  then show "inventory_ok i m" by (rule inventory_of_Ok [OF parts(2)])
qed

text \<open>What a staged import needs of serde: its receipt and its index read back.\<close>

definition import_written :: "master_lib \<Rightarrow> prepared_import \<Rightarrow> bool" where
  "import_written L p \<longleftrightarrow> receipt_written L (pi_receipt p) \<and>
     (\<forall>i. pi_staging p ''tables.json'' = Some (Plain (ml_ser_inventory L i)) \<longrightarrow> inventory_written L i)"

lemma stage_complete:
  fixes staging :: folder and index :: table_inventory and r :: import_receipt and l :: leaf
  assumes m: "manifest_parse L bs = Ok m" and r: "receipt_written L r"
    "rc_version r = mf_version m" "rc_tables r = length (mf_files m)"
    "rc_source r \<in> {''local-import'', ''remote'', ''registry''}"
    "\<forall>v \<in> set_option (rc_resource_version r). safe_version v" "master_supported (rc_region r)"
    and i: "inventory_ok index m" "inventory_written L index" "holds_files L staging (iv_files index)"
  defines "d \<equiv> (pi_staging (stage_documents L staging index bs r))(''publication.json'' \<mapsto> l)"
  shows "serving L (rc_snapshot r) d m (rc_resource_version r) (rc_region r) index"
proof -
  have ok: "manifest_ok m" using m by (rule manifest_parse_ok)
  have source: "source_with_provenance L (rc_snapshot r) d = Ok (m, rc_resource_version r, rc_region r)"
    by (rule provenance_of_receipt [OF _ m]) (use r in \<open>simp_all add: d_def stage_documents_def\<close>)
  have tables: "d ''tables.json'' = Some (Plain (ml_ser_inventory L index))"
    by (simp add: d_def stage_documents_def)
  have "read_inventory L (regular L (d ''tables.json'') MAX_INDEX) = Ok index"
    using i(2) by (simp add: tables inventory_written_def read_inventory_def within_limit_def)
  moreover have "inventory_validate index m = Ok ()"
    using inventory_validate_iff ok i(1) by (simp add: manifest_ok_def)
  ultimately have inventory: "inventory_of L d m = Ok index" by (simp add: inventory_of_def tables)
  have "holds_files L d (iv_files index)" unfolding holds_files_def
  proof
    fix f assume f: "f \<in> set (iv_files index)"
    have names: "map tf_name (iv_files index) = sort (map json_name (mf_files m))"
      using i(1) by (simp add: inventory_ok_def)
    have "tf_name f \<in> set (map tf_name (iv_files index))" using f by simp
    then obtain e where "e \<in> set (mf_files m)" "tf_name f = json_name e" unfolding names by auto
    then have "tf_name f \<notin> {''tables.json'', ''MasterManifest.json'', ''receipt.json'', ''publication.json''}"
      using ok reserved_names by (auto simp: manifest_ok_def list_all_iff)
    then have "d (tf_name f) = staging (tf_name f)" by (simp add: d_def stage_documents_def)
    then show "\<exists>bs. d (tf_name f) = Some (Plain bs) \<and> f = file_of L (tf_name f) bs \<and> ml_validate_json L bs"
      using i(3) f by (simp add: holds_files_def)
  qed
  then show ?thesis using source inventory by (simp add: serving_def tables)
qed

lemma serving_complete: "serving L s d m resource region i \<Longrightarrow> complete_snapshot L s d"
  unfolding serving_def complete_snapshot_def holds_files_def by blast

lemma prepare_directory_Ok:
  assumes "prepare_directory L dec input source resource region snapshot = Ok p"
  obtains bs m js index where
    "read_bounded L (input ''MasterManifest.json'') MAX_MANIFEST = Ok bs" "manifest_parse L bs = Ok m"
    "list_all2 (decoded_from L dec input) (mf_files m) js" "inventory_ok index m"
    "iv_files index = sort_key tf_name (map2 (\<lambda>e j. file_of L (json_name e) j) (mf_files m) js)"
    "p = stage_documents L (\<lambda>n. map_option Plain (map_of (zip (map json_name (mf_files m)) js) n)) index bs (pi_receipt p)"
    "rc_version (pi_receipt p) = mf_version m" "rc_snapshot (pi_receipt p) = snapshot"
    "rc_tables (pi_receipt p) = length (mf_files m)" "rc_source (pi_receipt p) = source"
    "rc_region (pi_receipt p) = region" "rc_resource_version (pi_receipt p) = resource"
    "master_supported region" "\<forall>v \<in> set_option resource. safe_version v"
proof -
  from assms obtain bs m sz staging files index where
    parts: "read_bounded L (input ''MasterManifest.json'') MAX_MANIFEST = Ok bs" "manifest_parse L bs = Ok m"
    "prepare_tables L dec input 0 (\<lambda>_. None) [] (mf_files m) = Ok (sz, staging, files)"
    "index = \<lparr>iv_schema_version = 1, iv_version = mf_version m, iv_files = sort_key tf_name files\<rparr>"
    "inventory_validate index m = Ok ()"
    and guards: "master_supported region" "\<forall>v \<in> set_option resource. safe_version v"
    and p: "p = stage_documents L staging index bs \<lparr>rc_version = mf_version m, rc_snapshot = snapshot,
                  rc_tables = length (mf_files m), rc_json_bytes = sz, rc_source = source,
                  rc_region = region, rc_resource_version = resource\<rparr>"
    by (auto simp: prepare_directory_def then_result_Ok_iff Let_def split: if_splits)
  have ok: "manifest_ok m" using parts(2) by (rule manifest_parse_ok)
  then have "distinct (map json_name (mf_files m))"
    by (intro json_names_distinct) (simp_all add: manifest_ok_def)
  moreover have "(case x of Some j \<Rightarrow> Some (Plain j) | None \<Rightarrow> None) = map_option Plain x" for x
    by (cases x) simp_all
  ultimately obtain js where
    js: "list_all2 (decoded_from L dec input) (mf_files m) js"
      "files = map2 (\<lambda>e j. file_of L (json_name e) j) (mf_files m) js"
      "staging = (\<lambda>n. map_option Plain (map_of (zip (map json_name (mf_files m)) js) n))"
    using prepare_tables_Ok [OF parts(3)] by auto
  have "inventory_ok index m" using parts(5) ok inventory_validate_iff by (simp add: manifest_ok_def)
  moreover have "pi_receipt p = \<lparr>rc_version = mf_version m, rc_snapshot = snapshot,
                  rc_tables = length (mf_files m), rc_json_bytes = sz, rc_source = source,
                  rc_region = region, rc_resource_version = resource\<rparr>"
    by (simp add: p stage_documents_def)
  ultimately show thesis
    using that [OF parts(1,2) js(1), of index] js(2,3) parts(4) guards p by simp
qed

lemma map2_file_nth:
  assumes "list_all2 P es js" "f \<in> set (map2 (\<lambda>e j. file_of L (json_name e) j) es js)"
  shows "\<exists>e j. (e, j) \<in> set (zip es js) \<and> P e j \<and> f = file_of L (json_name e) j"
  using assms by (force simp: list_all2_iff)

lemma prepared_directory_files:
  assumes "list_all2 (decoded_from L dec input) es js" "distinct (map json_name es)"
    "files = sort_key tf_name (map2 (\<lambda>e j. file_of L (json_name e) j) es js)"
  shows "holds_files L (\<lambda>n. map_option Plain (map_of (zip (map json_name es) js) n)) files"
  unfolding holds_files_def
proof
  fix f assume "f \<in> set files"
  then have "f \<in> set (map2 (\<lambda>e j. file_of L (json_name e) j) es js)" using assms(3) by simp
  from map2_file_nth [OF assms(1) this] obtain e j where
    e: "(e, j) \<in> set (zip es js)" "decoded_from L dec input e j" "f = file_of L (json_name e) j" by blast
  have len: "length es = length js" using assms(1) by (rule list_all2_lengthD)
  have "(json_name e, j) \<in> set (zip (map json_name es) js)" using e(1) len by (force simp: zip_map1)
  then have "map_of (zip (map json_name es) js) (json_name e) = Some j"
    using assms(2) len by (simp add: map_of_eq_Some_iff)
  moreover have "ml_validate_json L j" using e(2) decode_valid by (auto simp: decoded_from_def)
  moreover have "tf_name f = json_name e" using e(3) by (simp add: file_of_def)
  ultimately show "\<exists>bs. map_option Plain (map_of (zip (map json_name es) js) (tf_name f)) = Some (Plain bs) \<and>
      f = file_of L (tf_name f) bs \<and> ml_validate_json L bs"
    using e(3) by auto
qed

lemma decoded_file_listed:
  assumes js: "list_all2 P (mf_files m) js" and e: "e \<in> set (mf_files m)"
    and distinct: "distinct (map json_name (mf_files m))"
    and files: "iv_files index = sort_key tf_name (map2 (\<lambda>e j. file_of L (json_name e) j) (mf_files m) js)"
  shows "\<exists>json. P e json \<and> file_of L (json_name e) json \<in> set (iv_files index) \<and>
    map_of (zip (map json_name (mf_files m)) js) (json_name e) = Some json"
proof -
  from e obtain k where k: "k < length (mf_files m)" "mf_files m ! k = e" by (auto simp: in_set_conv_nth)
  have len: "length (mf_files m) = length js" using js by (rule list_all2_lengthD)
  have "P e (js ! k)" "(e, js ! k) \<in> set (zip (mf_files m) js)"
    using js k by (auto simp: list_all2_conv_all_nth in_set_zip)
  moreover have "map_of (zip (map json_name (mf_files m)) js) (json_name e) = Some (js ! k)"
    using distinct k len by (auto simp: map_of_eq_Some_iff in_set_zip intro!: exI [of _ k])
  ultimately show ?thesis unfolding files by (intro exI [of _ "js ! k"]) force
qed

lemma prepare_directory_serves:
  assumes prep: "prepare_directory L dec input source resource region snapshot = Ok p"
    and src: "source \<in> {''local-import'', ''remote'', ''registry''}" and written: "import_written L p"
  obtains bs m i where "read_bounded L (input ''MasterManifest.json'') MAX_MANIFEST = Ok bs" "manifest_parse L bs = Ok m"
    "\<forall>l. serving L snapshot ((pi_staging p)(''publication.json'' \<mapsto> l)) m resource region i"
    "\<forall>e \<in> set (mf_files m). \<exists>json. decoded_from L dec input e json \<and>
       file_of L (json_name e) json \<in> set (iv_files i) \<and> pi_staging p (json_name e) = Some (Plain json)"
    "rc_version (pi_receipt p) = mf_version m"
proof -
  from prep obtain bs m js i where parts: "read_bounded L (input ''MasterManifest.json'') MAX_MANIFEST = Ok bs"
    "manifest_parse L bs = Ok m" "list_all2 (decoded_from L dec input) (mf_files m) js" "inventory_ok i m"
    "iv_files i = sort_key tf_name (map2 (\<lambda>e j. file_of L (json_name e) j) (mf_files m) js)"
    "p = stage_documents L (\<lambda>n. map_option Plain (map_of (zip (map json_name (mf_files m)) js) n)) i bs (pi_receipt p)"
    "rc_version (pi_receipt p) = mf_version m" "rc_snapshot (pi_receipt p) = snapshot"
    "rc_tables (pi_receipt p) = length (mf_files m)" "rc_source (pi_receipt p) = source"
    "rc_region (pi_receipt p) = region" "rc_resource_version (pi_receipt p) = resource"
    "master_supported region" "\<forall>v \<in> set_option resource. safe_version v"
    by (rule prepare_directory_Ok) simp
  let ?staging = "\<lambda>n. map_option Plain (map_of (zip (map json_name (mf_files m)) js) n)"
  have ok: "manifest_ok m" by (rule manifest_parse_ok [OF parts(2)])
  then have distinct: "distinct (map json_name (mf_files m))"
    by (intro json_names_distinct) (simp_all add: manifest_ok_def)
  have files: "holds_files L ?staging (iv_files i)"
    by (rule prepared_directory_files [OF parts(3) distinct parts(5)])
  have "pi_staging p ''tables.json'' = Some (Plain (ml_ser_inventory L i))"
    by (subst parts(6)) (simp add: stage_documents_def)
  then have reads: "receipt_written L (pi_receipt p)" "inventory_written L i"
    using written by (simp_all add: import_written_def)
  have "serving L snapshot ((pi_staging p)(''publication.json'' \<mapsto> l)) m resource region i" for l
    using stage_complete [OF parts(2) reads(1) parts(7,9) _ _ _ parts(4) reads(2) files, of l] src parts(6,8,10-14) by metis
  moreover have "\<exists>json. decoded_from L dec input e json \<and> file_of L (json_name e) json \<in> set (iv_files i) \<and>
      pi_staging p (json_name e) = Some (Plain json)" if e: "e \<in> set (mf_files m)" for e
  proof -
    have "entry_ok e" using ok e by (auto simp: manifest_ok_def list_all_iff)
    then have "pi_staging p (json_name e) = ?staging (json_name e)"
      by (subst parts(6)) (use reserved_names in \<open>auto simp: stage_documents_def\<close>)
    then show ?thesis using decoded_file_listed [OF parts(3) e distinct parts(5)] by auto
  qed
  ultimately show thesis using that parts(1,2,7) by blast
qed

lemma check_staged_Ok:
  "check_staged L staging sz fs = Ok t \<Longrightarrow>
     (\<forall>f \<in> set fs. \<exists>bs. staging (tf_name f) = Some (Plain bs) \<and> f = file_of L (tf_name f) bs \<and> ml_validate_json L bs)"
proof (induction fs arbitrary: sz)
  case (Cons f fs)
  then obtain bs where "staging (tf_name f) = Some (Plain bs)" "length bs = tf_size f" "digest L bs = tf_sha256 f"
      "ml_validate_json L bs" "check_staged L staging (sz + tf_size f) fs = Ok t"
    by (auto simp: then_result_Ok_iff within_limit_def split: option.splits leaf.splits if_splits)
  moreover from this have "f = file_of L (tf_name f) bs" by (cases f) (simp add: file_of_def)
  ultimately show ?case using Cons.IH by auto
qed simp

lemma prepare_registry_serves:
  assumes prep: "prepare_registry L staging m snapshot = Ok p"
    and reads: "import_written L p"
  obtains source where "manifest_parse L (ml_ser_manifest L (pm_source_manifest m)) = Ok source"
    "\<forall>l. serving L snapshot ((pi_staging p)(''publication.json'' \<mapsto> l)) source (pm_resource_version m)
       (sc_region (pm_scope m)) \<lparr>iv_schema_version = 1, iv_version = pm_version m, iv_files = pm_files m\<rparr>"
    "rc_version (pi_receipt p) = pm_version m" "rc_snapshot (pi_receipt p) = snapshot"
    "rc_region (pi_receipt p) = sc_region (pm_scope m)" "rc_resource_version (pi_receipt p) = pm_resource_version m"
    "published_validate L m (pm_scope m) = Ok ()"
proof -
  let ?index = "\<lparr>iv_schema_version = 1, iv_version = pm_version m, iv_files = pm_files m\<rparr>"
  from prep obtain sz where valid: "published_validate L m (pm_scope m) = Ok ()"
    and staged: "check_staged L staging 0 (pm_files m) = Ok sz"
    and p: "p = stage_documents L staging ?index (ml_ser_manifest L (pm_source_manifest m))
       \<lparr>rc_version = pm_version m, rc_snapshot = snapshot, rc_tables = length (pm_files m),
        rc_json_bytes = sz, rc_source = ''registry'', rc_region = sc_region (pm_scope m),
        rc_resource_version = pm_resource_version m\<rparr>"
    by (auto simp: prepare_registry_def then_result_Ok_iff Let_def)
  from valid obtain source where source: "manifest_parse L (ml_ser_manifest L (pm_source_manifest m)) = Ok source"
    and inv: "inventory_validate ?index source = Ok ()"
    and guards: "master_supported (sc_region (pm_scope m))" "\<forall>v \<in> set_option (pm_resource_version m). safe_version v"
    by (auto simp: published_validate_def then_result_Ok_iff Let_def split: if_splits)
  have ok: "inventory_ok ?index source"
    using inv inventory_validate_iff manifest_parse_ok [OF source] by (simp add: manifest_ok_def)
  then have len: "length (pm_files m) = length (mf_files source)" and version: "pm_version m = mf_version source"
    unfolding inventory_ok_def by (metis length_map length_sort table_inventory.select_convs(3), simp)
  have files: "holds_files L staging (iv_files ?index)"
    using check_staged_Ok [OF staged] by (simp add: holds_files_def)
  have r: "pi_receipt p = \<lparr>rc_version = pm_version m, rc_snapshot = snapshot, rc_tables = length (pm_files m),
        rc_json_bytes = sz, rc_source = ''registry'', rc_region = sc_region (pm_scope m),
        rc_resource_version = pm_resource_version m\<rparr>"
    by (simp add: p stage_documents_def)
  have rec: "receipt_written L (pi_receipt p)" and written: "inventory_written L ?index"
    using reads by (simp_all add: import_written_def) (simp add: p stage_documents_def)
  note stage = stage_complete [OF source rec [unfolded r] _ _ _ _ _ ok written files]
  have "\<forall>l. serving L snapshot ((pi_staging p)(''publication.json'' \<mapsto> l)) source (pm_resource_version m)
      (sc_region (pm_scope m)) ?index"
    using stage guards len version by (simp add: p)
  then show thesis using that source valid by (simp add: r)
qed

subsection \<open>Interrupted publications\<close>

lemma predecessor_cong:
  assumes "predecessor L root = Ok prev" "root' ''CURRENT'' = root ''CURRENT''"
    and "\<forall>s. prev = Some s \<longrightarrow> root' s = root s"
  shows "predecessor L root' = Ok prev"
proof (cases "regular L (node_leaf (root ''CURRENT'')) 128")
  case (Inl e)
  then show ?thesis using assms(1,2) by (simp add: predecessor_def split: if_splits)
next
  case (Inr bs)
  then obtain s where "from_utf8 bs = Some s" "prev = Some s"
    using assms(1) by (auto simp: predecessor_def read_text_def then_result_Ok_iff split: option.splits)
  moreover from this have "snapshot_directory root' s = snapshot_directory root s"
    using assms(3) by (simp add: snapshot_directory_def)
  ultimately show ?thesis
    using assms(1,2) Inr by (simp add: predecessor_def read_text_def)
qed

lemma predecessor_exists:
  assumes "predecessor L root = Ok (Some s)" shows "snapshot_name s" "root s \<noteq> None"
  using assms by (auto simp: predecessor_def then_result_Ok_iff snapshot_directory_Ok_iff
      split: sum.splits if_splits)

lemma staged_predecessor:
  assumes "predecessor L (root(stage \<mapsto> x)) = Ok previous" "\<not> snapshot_name stage" "stage \<noteq> ''CURRENT''"
  shows "predecessor L root = Ok previous"
  using assms(2,3) predecessor_exists(1) [of L "root(stage \<mapsto> x)"] assms(1)
  by (intro predecessor_cong [OF assms(1)]) auto

lemma read_publication_written:
  assumes "d ''publication.json'' = Some (Plain (ml_ser_publication L r))" "publication_written L r"
    "pb_schema_version r = 1" "pb_snapshot r = s"
    "\<forall>q. pb_previous_snapshot r = Some q \<longrightarrow> snapshot_name q \<and> q \<notin> visited"
  shows "read_publication L d s visited = Ok (Some r)"
  using assms by (auto simp: read_publication_def publication_written_def within_limit_def)

lemma predecessor_pointer:
  assumes "root ''CURRENT'' = Some (Top (Plain (text_bytes s)))" "snapshot_name s"
    "root s = Some (Dir d)" "complete_snapshot L s d"
  shows "predecessor L root = Ok (Some s)"
proof -
  have safe: "safe_component s" using assms(2) by (rule snapshot_name_imp_safe)
  then have "length s \<le> 128" by (simp add: safe_component_def)
  moreover obtain x where "source_with_provenance L s d = Ok x"
    using assms(4) by (auto simp: complete_snapshot_def)
  ultimately show ?thesis
    using assms(1-3) text_bytes_ascii [OF safe]
    by (simp add: predecessor_def within_limit_def read_text_def snapshot_directory_def)
qed

text \<open>The disks a publication can leave: before the rename only the staging directory has changed;
  after it the new directory is in place; and only the last step moves the pointer.\<close>

definition publish_record :: "import_receipt \<Rightarrow> string option \<Rightarrow> instant \<Rightarrow> publication" where
  "publish_record r previous now = \<lparr>pb_schema_version = 1, pb_snapshot = rc_snapshot r,
     pb_previous_snapshot = previous, pb_published_at = now\<rparr>"

lemma publish_Ok:
  assumes "publish L root now stage tmp p = Ok (steps, receipt)"
  obtains previous where "predecessor L root = Ok previous"
    "steps = [WriteIn stage ''publication.json'' (ml_ser_publication L (publish_record (pi_receipt p) previous now)),
       Rename stage (rc_snapshot (pi_receipt p)), WriteTop tmp (text_bytes (rc_snapshot (pi_receipt p))),
       Rename tmp ''CURRENT'']"
    "receipt = pi_receipt p"
    "\<forall>s. previous = Some s \<longrightarrow> snapshot_region L root s = Ok (rc_region (pi_receipt p))"
  using assms
  by (auto simp: publish_def publish_record_def Let_def then_result_Ok_iff split: option.splits if_splits)

lemma publish_crash_states:
  assumes "crash root [WriteIn stage f bs, Rename stage s, WriteTop tmp b2, Rename tmp ''CURRENT''] root'"
  shows "root' = root \<or> (\<exists>torn. root' = apply_step (WriteIn stage f torn) root) \<or>
    (let r2 = apply_step (Rename stage s) (apply_step (WriteIn stage f bs) root) in
      root' = r2 \<or> (\<exists>torn. root' = apply_step (WriteTop tmp torn) r2) \<or>
      root' = apply_step (Rename tmp ''CURRENT'') (apply_step (WriteTop tmp b2) r2))"
  using assms unfolding Let_def
  by (elim crash_ConsE crash_NilE) auto

lemma staged_steps:
  fixes f :: string and bs b :: "u8 list"
  assumes "root stage = Some (Dir d)" "stage \<noteq> s" "stage \<noteq> ''CURRENT''" "tmp \<noteq> ''CURRENT''" "tmp \<noteq> s" "s \<noteq> ''CURRENT''"
  defines "r2 \<equiv> apply_step (Rename stage s) (apply_step (WriteIn stage f bs) root)"
  defines "r4 \<equiv> apply_step (Rename tmp ''CURRENT'') (apply_step (WriteTop tmp b) r2)"
  shows "\<And>n torn. n \<noteq> stage \<Longrightarrow> apply_step (WriteIn stage f torn) root n = root n"
    and "\<And>n. n \<noteq> stage \<Longrightarrow> n \<noteq> s \<Longrightarrow> r2 n = root n"
    and "\<And>n torn. n \<noteq> stage \<Longrightarrow> n \<noteq> s \<Longrightarrow> n \<noteq> tmp \<Longrightarrow> apply_step (WriteTop tmp torn) r2 n = root n"
    and "\<And>n. n \<noteq> stage \<Longrightarrow> n \<noteq> s \<Longrightarrow> n \<noteq> tmp \<Longrightarrow> n \<noteq> ''CURRENT'' \<Longrightarrow> r4 n = root n"
    and "r4 ''CURRENT'' = Some (Top (Plain b))" and "r4 s = Some (Dir (d(f \<mapsto> Plain bs)))"
  using assms by (simp_all add: apply_step.simps split: option.split node.split)

lemma CURRENT_not_snapshot: "\<not> snapshot_name ''CURRENT''"
  by (simp add: snapshot_name_def starts_with_def)

lemma publish_crash:
  assumes pub: "publish L root now stage tmp p = Ok (steps, receipt)"
    and crash: "crash root steps root'"
    and names: "\<not> snapshot_name stage" "\<not> snapshot_name tmp" "stage \<noteq> ''CURRENT''" "tmp \<noteq> ''CURRENT''"
    and s: "s = rc_snapshot (pi_receipt p)" "snapshot_name s" "root s = None"
    and stage: "root stage = Some (Dir (pi_staging p))"
    and complete: "\<And>l. complete_snapshot L s ((pi_staging p)(''publication.json'' \<mapsto> l))"
  shows "(\<forall>n. snapshot_name n \<and> n \<noteq> s \<longrightarrow> root' n = root n) \<and>
    (predecessor L root' = predecessor L root \<or>
     predecessor L root' = Ok (Some s) \<and> (\<exists>d. root' s = Some (Dir d) \<and> complete_snapshot L s d))"
proof -
  from pub obtain previous where prev: "predecessor L root = Ok previous" and steps:
    "steps = [WriteIn stage ''publication.json'' (ml_ser_publication L (publish_record (pi_receipt p) previous now)),
       Rename stage s, WriteTop tmp (text_bytes s), Rename tmp ''CURRENT'']"
    unfolding s(1) by (rule publish_Ok)
  let ?bs = "ml_ser_publication L (publish_record (pi_receipt p) previous now)"
  have distinct: "stage \<noteq> s" "tmp \<noteq> s" "s \<noteq> ''CURRENT''"
    using names s(2) CURRENT_not_snapshot by auto
  note st = staged_steps [where root = root and stage = stage, OF stage distinct(1) names(3,4) distinct(2,3)]
  have before: ?thesis if same: "\<And>n. n \<noteq> stage \<Longrightarrow> n \<noteq> s \<Longrightarrow> n \<noteq> tmp \<Longrightarrow> root' n = root n"
  proof -
    have "prev_s \<noteq> s \<and> snapshot_name prev_s" if "previous = Some prev_s" for prev_s
      using predecessor_exists [of L root prev_s] prev that s(3) by auto
    then have "predecessor L root' = Ok previous"
      using names same distinct by (intro predecessor_cong [OF prev]) auto
    moreover have "\<forall>n. snapshot_name n \<and> n \<noteq> s \<longrightarrow> root' n = root n" using names same by metis
    ultimately show ?thesis using prev by simp
  qed
  from publish_crash_states [OF crash [unfolded steps]] show ?thesis unfolding Let_def
  proof (elim disjE exE)
    fix torn assume "root' = apply_step (WriteIn stage ''publication.json'' torn) root"
    then show ?thesis using before st(1) by simp
  next
    assume final: "root' = apply_step (Rename tmp ''CURRENT'') (apply_step (WriteTop tmp (text_bytes s))
      (apply_step (Rename stage s) (apply_step (WriteIn stage ''publication.json'' ?bs) root)))"
    have "predecessor L root' = Ok (Some s)"
      by (rule predecessor_pointer [OF _ s(2) _ complete]) (simp_all only: final st)
    moreover have "root' s = Some (Dir ((pi_staging p)(''publication.json'' \<mapsto> Plain ?bs)))"
      by (simp only: final st)
    moreover have "\<forall>n. snapshot_name n \<and> n \<noteq> s \<longrightarrow> root' n = root n"
      using names CURRENT_not_snapshot st(4) final by metis
    ultimately show ?thesis using complete by auto
  qed (use before st(2,3) in \<open>simp_all\<close>)
qed

subsection \<open>Serving a published snapshot\<close>

lemma find_file:
  assumes "distinct (map tf_name fs)" "f \<in> set fs" "tf_name f = n"
  shows "find (\<lambda>f. tf_name f = n) fs = Some f"
  using assms by (induction fs) auto

lemma inventory_names_distinct:
  assumes "manifest_ok m" "inventory_ok i m" shows "distinct (map tf_name (iv_files i))"
  using assms json_names_distinct [of "mf_files m"] by (simp add: inventory_ok_def manifest_ok_def)

lemma verify_present_file:
  assumes m: "manifest_ok m" and i: "inventory_of L d m = Ok i" and l: "d ''tables.json'' = Some l"
    and f: "f \<in> set (iv_files i)" "tf_name f = tab @ ''.json''"
  shows "verify_indexed_digest L d m tab (tf_size f) (tf_sha256 f) = Ok True"
proof -
  have ok: "read_inventory L (regular L (Some l) MAX_INDEX) = Ok i" "inventory_validate i m = Ok ()"
    using i l by (auto simp: inventory_of_def then_result_Ok_iff)
  have "distinct (map tf_name (iv_files i))"
    by (rule inventory_names_distinct [OF m inventory_of_Ok [OF i m]])
  then have "find (\<lambda>f. tf_name f = tab @ ''.json'') (iv_files i) = Some f" using f by (rule find_file)
  then show ?thesis by (simp add: verify_indexed_digest_def l ok)
qed

lemma registry_table_present:
  assumes root: "root s = Some (Dir d)" "snapshot_name s"
    and src: "source_with_provenance L s d = Ok (m, resource, region)"
    and index: "inventory_of L d m = Ok i" "d ''tables.json'' = Some l"
    and f: "f \<in> set (iv_files i)" "f = file_of L (tab @ ''.json'') json" "d (tab @ ''.json'') = Some (Plain json)"
      "ml_validate_json L json"
    and tab: "safe_component tab" "has_table m tab"
  shows "registry_table L root region s tab (digest L json) =
    Ok \<lparr>rd_bytes = json, rd_etag = ''\"'' @ digest L json @ ''\"'', rd_version = mf_version m\<rparr>"
proof -
  have m: "manifest_ok m" by (rule source_with_provenance_Ok(1) [OF src])
  have "file_ok f" using inventory_of_Ok [OF index(1) m] f(1) by (auto simp: inventory_ok_def list_all_iff)
  then have ok: "hash_valid (digest L json)" "length json \<le> MAX_JSON" by (simp_all add: file_ok_def f(2) file_of_def)
  have "verify_indexed_digest L d m tab (tf_size f) (tf_sha256 f) = Ok True"
    by (rule verify_present_file [OF m index f(1)]) (simp add: f(2) file_of_def)
  then have verify: "verify_indexed_digest L d m tab (length json) (digest L json) = Ok True"
    by (simp add: f(2) file_of_def)
  have "snapshot_directory root s = Ok d" using root by (simp add: snapshot_directory_Ok_iff)
  then show ?thesis
    using src tab ok f(3,4) verify
    by (simp add: registry_table_def table_read_def source_of_def within_limit_def)
qed

lemma source_with_provenance_parts:
  assumes "source_with_provenance L s d = Ok (m, resource, region)"
  obtains bs receipt where "d ''MasterManifest.json'' = Some (Plain bs)" "length bs \<le> MAX_MANIFEST"
    "manifest_parse L bs = Ok m" "read_value L (regular L (d ''receipt.json'') 4096) = Ok receipt"
    "recorded_region receipt = Ok region" "recorded_resource_version receipt = Ok resource"
  using assms by (auto simp: source_with_provenance_def then_result_Ok_iff regular_Ok_iff split: if_splits)

lemma read_value_regular:
  assumes "read_value L (regular L l n) = Ok v" shows "read_value L (read_bounded L l n) = Ok v"
  using assms by (auto simp: read_value_def then_result_Ok_iff regular_Ok_iff within_limit_def split: option.splits)

lemma read_current_present:
  assumes root: "root s = Some (Dir d)" "snapshot_name s" "root ''CURRENT'' = Some (Top (Plain (text_bytes s)))"
    and src: "source_with_provenance L s d = Ok (m, resource, region)"
    and index: "inventory_of L d m = Ok i" "d ''tables.json'' = Some l"
    and f: "f \<in> set (iv_files i)" "f = file_of L (tab @ ''.json'') json" "d (tab @ ''.json'') = Some (Plain json)"
    and tab: "safe_component tab" "has_table m tab"
  shows "read_current_in L root (Some tab) region =
    Ok \<lparr>mdoc_version = mf_version m, mdoc_sha256 = digest L json, mdoc_bytes = json\<rparr>"
proof -
  from src obtain bs receipt where parts: "d ''MasterManifest.json'' = Some (Plain bs)" "length bs \<le> MAX_MANIFEST"
    "manifest_parse L bs = Ok m" "read_value L (regular L (d ''receipt.json'') 4096) = Ok receipt"
    "recorded_region receipt = Ok region"
    by (rule source_with_provenance_parts)
  have m: "manifest_ok m" by (rule source_with_provenance_Ok(1) [OF src])
  have "file_ok f" using inventory_of_Ok [OF index(1) m] f(1) by (auto simp: inventory_ok_def list_all_iff)
  then have len: "length json \<le> MAX_JSON" by (simp add: file_ok_def f(2) file_of_def)
  have "verify_indexed_digest L d m tab (tf_size f) (tf_sha256 f) = Ok True"
    by (rule verify_present_file [OF m index f(1)]) (simp add: f(2) file_of_def)
  then have verify: "verify_indexed_digest L d m tab (length json) (digest L json) = Ok True"
    by (simp add: f(2) file_of_def)
  have table: "read_current_table L d m tab = Ok (digest L json, json, True)"
    using tab f(3) len verify by (simp add: read_current_table_def within_limit_def Let_def)
  have safe: "safe_component s" using root(2) by (rule snapshot_name_imp_safe)
  then have pointer: "read_text (read_bounded L (node_leaf (root ''CURRENT'')) 128) = Ok s"
    using root(3) text_bytes_ascii [OF safe] by (simp add: read_text_def within_limit_def safe_component_def)
  have manifest: "read_bounded L (d ''MasterManifest.json'') MAX_MANIFEST = Ok bs"
    using parts(1,2) by (simp add: within_limit_def)
  show ?thesis
    by (simp add: read_current_in_def read_current_checked_def read_current_inner_def pointer root(1,2) manifest
        parts(3,5) read_value_regular [OF parts(4)] table)
qed

lemma serving_table:
  assumes snap: "serving L s d m resource region i" and root: "root s = Some (Dir d)" "snapshot_name s"
    and f: "file_of L (tab @ ''.json'') json \<in> set (iv_files i)" "d (tab @ ''.json'') = Some (Plain json)"
    and valid: "ml_validate_json L json" and tab: "safe_component tab" "has_table m tab"
  shows "registry_table L root region s tab (digest L json) =
      Ok \<lparr>rd_bytes = json, rd_etag = ''\"'' @ digest L json @ ''\"'', rd_version = mf_version m\<rparr>"
    "root ''CURRENT'' = Some (Top (Plain (text_bytes s))) \<Longrightarrow> read_current_in L root (Some tab) region =
      Ok \<lparr>mdoc_version = mf_version m, mdoc_sha256 = digest L json, mdoc_bytes = json\<rparr>"
proof -
  note S = servingD [OF snap]
  obtain l where l: "d ''tables.json'' = Some l" using S(3) by blast
  show "registry_table L root region s tab (digest L json) =
      Ok \<lparr>rd_bytes = json, rd_etag = ''\"'' @ digest L json @ ''\"'', rd_version = mf_version m\<rparr>"
    by (rule registry_table_present [where root = root, OF root S(1,2) l f(1) refl f(2) valid tab])
  show "root ''CURRENT'' = Some (Top (Plain (text_bytes s))) \<Longrightarrow> read_current_in L root (Some tab) region =
      Ok \<lparr>mdoc_version = mf_version m, mdoc_sha256 = digest L json, mdoc_bytes = json\<rparr>"
    by (rule read_current_present [where root = root, OF root _ S(1,2) l f(1) refl f(2) tab])
qed

text \<open>The names a writer chooses: the snapshot is new, and neither the staging directory nor the
  temporary file has a name that a reader looks at.\<close>

definition fresh_names :: "disk \<Rightarrow> string \<Rightarrow> string \<Rightarrow> string \<Rightarrow> bool" where
  "fresh_names root snapshot stage tmp \<longleftrightarrow> snapshot_name snapshot \<and> root snapshot = None \<and>
     \<not> snapshot_name stage \<and> \<not> snapshot_name tmp \<and>
     stage \<notin> {''CURRENT'', ''retention.json''} \<and> tmp \<notin> {''CURRENT'', ''retention.json''}"

lemma fresh_namesD:
  assumes "fresh_names root s stage tmp"
  shows "\<not> snapshot_name stage" "\<not> snapshot_name tmp" "stage \<noteq> ''CURRENT''" "tmp \<noteq> ''CURRENT''"
    "snapshot_name s" "root s = None" "stage \<noteq> ''retention.json''" "tmp \<noteq> ''retention.json''"
    "stage \<noteq> s" "tmp \<noteq> s" "s \<noteq> ''CURRENT''" "s \<noteq> ''retention.json''"
proof -
  show names: "\<not> snapshot_name stage" "\<not> snapshot_name tmp" "stage \<noteq> ''CURRENT''" "tmp \<noteq> ''CURRENT''"
    "snapshot_name s" "root s = None" "stage \<noteq> ''retention.json''" "tmp \<noteq> ''retention.json''"
    using assms by (simp_all add: fresh_names_def)
  have "\<not> snapshot_name ''retention.json''" by (simp add: snapshot_name_def starts_with_def)
  then show "stage \<noteq> s" "tmp \<noteq> s" "s \<noteq> ''CURRENT''" "s \<noteq> ''retention.json''"
    using names CURRENT_not_snapshot by auto
qed

definition staged_written :: "master_lib \<Rightarrow> disk \<Rightarrow> string \<Rightarrow> import_receipt \<Rightarrow> bool" where
  "staged_written L root0 stage receipt \<longleftrightarrow> receipt_written L receipt \<and>
     (\<forall>d i. root0 stage = Some (Dir d) \<longrightarrow> d ''tables.json'' = Some (Plain (ml_ser_inventory L i)) \<longrightarrow>
       inventory_written L i)"

lemma staged_writtenD: "staged_written L (staged root stage p) stage (pi_receipt p) \<Longrightarrow> import_written L p"
  by (simp add: staged_written_def import_written_def staged_def)

subsection \<open>The contract between preparing and publishing\<close>

text \<open>A preparation promises a staging directory that serves once it is renamed, whatever its
  publication record; what publication does to the store follows from that promise alone.\<close>

locale preparation =
  fixes prepare :: "master_lib \<Rightarrow> 'x \<Rightarrow> string \<Rightarrow> MasterError + prepared_import"
  assumes prepared_name: "prepare L x s = Ok p \<Longrightarrow> rc_snapshot (pi_receipt p) = s"
    and prepared_serves: "prepare L x s = Ok p \<Longrightarrow> import_written L p \<Longrightarrow>
      \<exists>m i. \<forall>l. serving L s ((pi_staging p)(''publication.json'' \<mapsto> l)) m
        (rc_resource_version (pi_receipt p)) (rc_region (pi_receipt p)) i"
begin

lemma publication_survives:
  assumes prep: "prepare L x s = Ok p" and written: "import_written L p"
    and pub: "publish L (staged root stage p) now stage tmp p = Ok (steps, receipt)"
    and fresh: "fresh_names root s stage tmp" and crash: "crash (staged root stage p) steps root'"
  shows "(\<forall>n. snapshot_name n \<and> n \<noteq> s \<longrightarrow> root' n = root n) \<and>
    (predecessor L root' = predecessor L root \<or>
     predecessor L root' = Ok (Some s) \<and> (\<exists>d. root' s = Some (Dir d) \<and> complete_snapshot L s d))"
proof -
  note names = fresh_namesD [OF fresh]
  have complete: "complete_snapshot L s ((pi_staging p)(''publication.json'' \<mapsto> l))" for l
    using prepared_serves [OF prep written] serving_complete by metis
  have step: "(\<forall>n. snapshot_name n \<and> n \<noteq> s \<longrightarrow> root' n = staged root stage p n) \<and>
    (predecessor L root' = predecessor L (staged root stage p) \<or>
     predecessor L root' = Ok (Some s) \<and> (\<exists>d. root' s = Some (Dir d) \<and> complete_snapshot L s d))"
    by (rule publish_crash [OF pub crash names(1-4) prepared_name [OF prep, symmetric] names(5) _ _ complete])
      (use names in \<open>auto simp: staged_def\<close>)
  obtain previous where "predecessor L (staged root stage p) = Ok previous" using pub by (rule publish_Ok)
  then have "predecessor L (staged root stage p) = predecessor L root"
    using staged_predecessor [OF _ names(1,3)] unfolding staged_def by metis
  moreover have "staged root stage p n = root n" if "snapshot_name n" for n using that names(1) by (auto simp: staged_def)
  ultimately show ?thesis using step by auto
qed

lemma publication_final:
  assumes prep: "prepare L x s = Ok p"
    and pub: "publish L (staged root stage p) now stage tmp p = Ok (steps, receipt)"
    and fresh: "fresh_names root s stage tmp" and root': "root' = fold apply_step steps (staged root stage p)"
  obtains previous where "receipt = pi_receipt p" "predecessor L root = Ok previous"
    "root' s = Some (Dir ((pi_staging p)(''publication.json'' \<mapsto>
       Plain (ml_ser_publication L (publish_record receipt previous now)))))"
    "root' ''CURRENT'' = Some (Top (Plain (text_bytes s)))"
    "\<forall>n. snapshot_name n \<and> n \<noteq> s \<longrightarrow> root' n = root n" "root' ''retention.json'' = root ''retention.json''"
proof -
  have name: "rc_snapshot (pi_receipt p) = s" by (rule prepared_name [OF prep])
  from pub obtain previous where prev: "predecessor L (staged root stage p) = Ok previous" and steps:
    "steps = [WriteIn stage ''publication.json'' (ml_ser_publication L (publish_record (pi_receipt p) previous now)),
       Rename stage s, WriteTop tmp (text_bytes s), Rename tmp ''CURRENT'']"
    and receipt: "receipt = pi_receipt p"
    unfolding name [symmetric] by (rule publish_Ok)
  note names = fresh_namesD [OF fresh]
  note st = staged_steps [where root = "staged root stage p" and stage = stage and d = "pi_staging p",
      OF _ names(9,3,4,10,11)]
  have final: "root' = apply_step (Rename tmp ''CURRENT'') (apply_step (WriteTop tmp (text_bytes s))
      (apply_step (Rename stage s) (apply_step (WriteIn stage ''publication.json''
        (ml_ser_publication L (publish_record receipt previous now))) (staged root stage p))))"
    by (simp add: root' steps receipt)
  have stage: "staged root stage p stage = Some (Dir (pi_staging p))" by (simp add: staged_def)
  have old: "root' n = root n" if "n \<noteq> stage" "n \<noteq> s" "n \<noteq> tmp" "n \<noteq> ''CURRENT''" for n
    using st(4) [OF stage that] that(1) unfolding final by (simp add: staged_def)
  have "\<forall>n. snapshot_name n \<and> n \<noteq> s \<longrightarrow> root' n = root n"
    using names CURRENT_not_snapshot by (intro allI impI old) auto
  moreover have "root' ''retention.json'' = root ''retention.json''" by (rule old) (use names in auto)
  ultimately show thesis
    using that [OF receipt staged_predecessor [OF prev [unfolded staged_def] names(1,3)]]
      st(5,6) [OF stage] unfolding final by metis
qed

lemma published_snapshot:
  assumes prep: "prepare L x s = Ok p" and written: "import_written L p"
    and pub: "publish L (staged root stage p) now stage tmp p = Ok (steps, receipt)"
    and fresh: "fresh_names root s stage tmp"
    and recorded: "\<And>previous. predecessor L root = Ok previous \<Longrightarrow>
      publication_written L (publish_record receipt previous now)"
    and root': "root' = fold apply_step steps (staged root stage p)"
  obtains d previous m i where "root' s = Some (Dir d)" "predecessor L root = Ok previous"
    "root' ''CURRENT'' = Some (Top (Plain (text_bytes s)))" "current_snapshot L root' = Ok s"
    "\<forall>n. snapshot_name n \<and> n \<noteq> s \<longrightarrow> root' n = root n"
    "read_publication L d s {s} = Ok (Some (publish_record receipt previous now))"
    "serving L s d m (rc_resource_version receipt) (rc_region receipt) i"
proof -
  from prep pub fresh root' obtain previous where receipt: "receipt = pi_receipt p"
    and prev: "predecessor L root = Ok previous" and final:
    "root' s = Some (Dir ((pi_staging p)(''publication.json'' \<mapsto>
       Plain (ml_ser_publication L (publish_record receipt previous now)))))"
    "root' ''CURRENT'' = Some (Top (Plain (text_bytes s)))"
    "\<forall>n. snapshot_name n \<and> n \<noteq> s \<longrightarrow> root' n = root n"
    by (rule publication_final)
  let ?d = "(pi_staging p)(''publication.json'' \<mapsto> Plain (ml_ser_publication L (publish_record receipt previous now)))"
  note names = fresh_namesD [OF fresh]
  have "read_publication L ?d s {s} = Ok (Some (publish_record receipt previous now))"
    by (rule read_publication_written)
      (use recorded prev names(5,6) predecessor_exists [of L root] prepared_name [OF prep] receipt in
        \<open>auto simp: publish_record_def\<close>)
  moreover obtain m i where "serving L s ?d m (rc_resource_version receipt) (rc_region receipt) i"
    using prepared_serves [OF prep written] receipt by metis
  moreover have "current_snapshot L root' = Ok s"
  proof -
    have safe: "safe_component s" using names(5) by (rule snapshot_name_imp_safe)
    then show ?thesis
      using final names text_bytes_ascii [OF safe] by (simp add: current_snapshot_def read_text_def
          within_limit_def safe_component_def snapshot_directory_def)
  qed
  ultimately show thesis using that final prev by blast
qed

end

text \<open>The two preparations of the code: decoding an encrypted bundle, imported or downloaded, and checking
  a directory of tables downloaded from an owner.\<close>

definition prepare_bundle ::
  "string \<Rightarrow> master_lib \<Rightarrow> master_decoder \<times> folder \<times> string option \<times> region \<Rightarrow> string \<Rightarrow> MasterError + prepared_import" where
  "prepare_bundle source L x snapshot =
     (case x of (dec, input, resource, region) \<Rightarrow> prepare_directory L dec input source resource region snapshot)"

definition prepare_download ::
  "master_lib \<Rightarrow> folder \<times> published_manifest \<Rightarrow> string \<Rightarrow> MasterError + prepared_import" where
  "prepare_download L x snapshot = prepare_registry L (fst x) (snd x) snapshot"

lemma prepare_bundle_contract:
  assumes "source \<in> {''local-import'', ''remote'', ''registry''}"
  shows "preparation (prepare_bundle source)"
proof
  fix L x s p assume prep: "prepare_bundle source L x s = Ok p"
  obtain dec input resource region where x: "x = (dec, input, resource, region)" by (cases x)
  have d: "prepare_directory L dec input source resource region s = Ok p" using prep by (simp add: prepare_bundle_def x)
  have fields: "rc_region (pi_receipt p) = region \<and> rc_resource_version (pi_receipt p) = resource"
    using d by (rule prepare_directory_Ok) simp
  show "rc_snapshot (pi_receipt p) = s" using d by (rule prepare_directory_Ok)
  show "\<exists>m i. \<forall>l. serving L s ((pi_staging p)(''publication.json'' \<mapsto> l)) m (rc_resource_version (pi_receipt p))
      (rc_region (pi_receipt p)) i" if "import_written L p"
    using prepare_directory_serves [OF d assms that] fields by metis
qed

interpretation local_import: preparation "prepare_bundle ''local-import''"
  by (rule prepare_bundle_contract) simp

interpretation remote_update: preparation "prepare_bundle ''remote''"
  by (rule prepare_bundle_contract) simp

interpretation owner_sync: preparation prepare_download
proof
  fix L x s p assume "prepare_download L x s = Ok p"
  then have d: "prepare_registry L (fst x) (snd x) s = Ok p" by (simp add: prepare_download_def)
  show "rc_snapshot (pi_receipt p) = s"
    using d by (auto simp: prepare_registry_def then_result_Ok_iff Let_def stage_documents_def)
  show "\<exists>m i. \<forall>l. serving L s ((pi_staging p)(''publication.json'' \<mapsto> l)) m (rc_resource_version (pi_receipt p))
      (rc_region (pi_receipt p)) i" if "import_written L p"
    using prepare_registry_serves [OF d that] by metis
qed

subsection \<open>Properties of publication\<close>

lemma import_Ok:
  assumes "import_directory_for_region L locked root dec input resource region snapshot now stage tmp =
      Ok (root0, steps, receipt)"
  obtains p where "prepare_bundle ''local-import'' L (dec, input, resource, region) snapshot = Ok p"
    "root0 = staged root stage p" "publish L (staged root stage p) now stage tmp p = Ok (steps, receipt)"
    "receipt = pi_receipt p"
proof -
  from assms obtain p where "prepare_bundle ''local-import'' L (dec, input, resource, region) snapshot = Ok p"
    "root0 = staged root stage p" "publish L (staged root stage p) now stage tmp p = Ok (steps, receipt)"
    by (auto simp: import_directory_for_region_def then_result_Ok_iff prepare_bundle_def split: if_splits)
  moreover from this have "receipt = pi_receipt p" by (elim publish_Ok)
  ultimately show thesis using that by blast
qed

text \<open>C8: an import can be interrupted anywhere.  Whatever prefix of the steps of an import reaches the
  disk, with the last write torn or not, every snapshot that existed is untouched and the
  pointer resolves either to the snapshot it named before or to the new one, and in the
  second case the new snapshot is complete: its receipt, manifest and index are valid and every
  table is present with its recorded digest.\<close>

theorem imports_survive_interruption:
  assumes "import_directory_for_region L locked root dec input resource region snapshot now stage tmp =
      Ok (root0, steps, receipt)"
    and "fresh_names root snapshot stage tmp" and "staged_written L root0 stage receipt"
    and "crash root0 steps root'"
  shows "(\<forall>n. snapshot_name n \<and> n \<noteq> snapshot \<longrightarrow> root' n = root n) \<and>
    (predecessor L root' = predecessor L root \<or>
     predecessor L root' = Ok (Some snapshot) \<and>
       (\<exists>d. root' snapshot = Some (Dir d) \<and> complete_snapshot L snapshot d))"
proof -
  from assms(1) obtain p where p: "prepare_bundle ''local-import'' L (dec, input, resource, region) snapshot = Ok p"
    "root0 = staged root stage p" "publish L (staged root stage p) now stage tmp p = Ok (steps, receipt)"
    "receipt = pi_receipt p"
    by (rule import_Ok)
  show ?thesis
    by (rule local_import.publication_survives [OF p(1) _ p(3) assms(2) assms(4) [unfolded p(2)]])
      (use assms(3) staged_writtenD in \<open>simp add: p(2,4)\<close>)
qed

text \<open>The tables of a bundle, once its snapshot is in place.\<close>

lemma bundle_tables_served:
  assumes prep: "prepare_directory L dec input source resource region s = Ok p"
    and src: "source \<in> {''local-import'', ''remote'', ''registry''}" and written: "import_written L p"
    and root: "root s = Some (Dir ((pi_staging p)(''publication.json'' \<mapsto> l)))" "snapshot_name s"
      "root ''CURRENT'' = Some (Top (Plain (text_bytes s)))"
  shows "\<exists>bs m. read_bounded L (input ''MasterManifest.json'') MAX_MANIFEST = Ok bs \<and> manifest_parse L bs = Ok m \<and>
      (\<forall>e \<in> set (mf_files m). \<exists>tab json. en_name e = tab @ ''.bin'' \<and> decoded_from L dec input e json \<and>
        registry_table L root region s tab (digest L json) =
          Ok \<lparr>rd_bytes = json, rd_etag = ''\"'' @ digest L json @ ''\"'', rd_version = mf_version m\<rparr> \<and>
        read_current_in L root (Some tab) region =
          Ok \<lparr>mdoc_version = mf_version m, mdoc_sha256 = digest L json, mdoc_bytes = json\<rparr>)"
proof -
  from prep src written obtain bs m i where m:
    "read_bounded L (input ''MasterManifest.json'') MAX_MANIFEST = Ok bs" "manifest_parse L bs = Ok m"
    "\<forall>l. serving L s ((pi_staging p)(''publication.json'' \<mapsto> l)) m resource region i"
    "\<forall>e \<in> set (mf_files m). \<exists>json. decoded_from L dec input e json \<and>
       file_of L (json_name e) json \<in> set (iv_files i) \<and> pi_staging p (json_name e) = Some (Plain json)"
    by (rule prepare_directory_serves)
  have "\<exists>tab json. en_name e = tab @ ''.bin'' \<and> decoded_from L dec input e json \<and>
        registry_table L root region s tab (digest L json) =
          Ok \<lparr>rd_bytes = json, rd_etag = ''\"'' @ digest L json @ ''\"'', rd_version = mf_version m\<rparr> \<and>
        read_current_in L root (Some tab) region =
          Ok \<lparr>mdoc_version = mf_version m, mdoc_sha256 = digest L json, mdoc_bytes = json\<rparr>"
    if e: "e \<in> set (mf_files m)" for e
  proof -
    have "entry_ok e" using manifest_parse_ok [OF m(2)] e by (auto simp: manifest_ok_def list_all_iff)
    then obtain tab where tab: "en_name e = tab @ ''.bin''" "safe_component tab" "json_name e = tab @ ''.json''"
      by (rule entry_okE)
    from m(4) e obtain json where json: "decoded_from L dec input e json"
      "file_of L (tab @ ''.json'') json \<in> set (iv_files i)" "pi_staging p (tab @ ''.json'') = Some (Plain json)"
      unfolding tab(3) [symmetric] by blast
    have "tab @ ''.json'' \<noteq> ''publication.json''" using reserved_names [OF \<open>entry_ok e\<close>] unfolding tab(3) by blast
    then have bytes: "((pi_staging p)(''publication.json'' \<mapsto> l)) (tab @ ''.json'') = Some (Plain json)"
      using json(3) by simp
    have valid: "ml_validate_json L json" using json(1) decode_valid by (auto simp: decoded_from_def)
    have has: "has_table m tab" using e tab(1) by (auto simp: has_table_def list_ex_iff)
    note T = serving_table [where root = root, OF m(3) [rule_format] root(1,2) json(2) bytes valid tab(2) has]
    show ?thesis using tab(1) json(1) T(1) T(2) [OF root(3)] by blast
  qed
  then show ?thesis using m(1,2) by blast
qed

text \<open>C9: an imported bundle is served as it was decoded.  After a completed import the pointer names the
  new snapshot, whose publication record names the snapshot it replaced; and every table of the
  bundle's manifest decodes from the input, and is served, byte for byte, both by a read
  through the pointer and by the registry under the digest of the decoded document.\<close>

theorem imported_tables_are_served:
  assumes "import_directory_for_region L locked root dec input resource region snapshot now stage tmp =
      Ok (root0, steps, receipt)"
    and "fresh_names root snapshot stage tmp" and "staged_written L root0 stage receipt"
    and "\<And>previous. predecessor L root = Ok previous \<Longrightarrow>
      publication_written L (publish_record receipt previous now)"
    and "root' = fold apply_step steps root0"
  shows "current_snapshot L root' = Ok snapshot \<and>
    (\<exists>d previous. root' snapshot = Some (Dir d) \<and> predecessor L root = Ok previous \<and>
      read_publication L d snapshot {snapshot} = Ok (Some (publish_record receipt previous now))) \<and>
    (\<exists>bs m. read_bounded L (input ''MasterManifest.json'') MAX_MANIFEST = Ok bs \<and> manifest_parse L bs = Ok m \<and>
      (\<forall>e \<in> set (mf_files m). \<exists>tab json. en_name e = tab @ ''.bin'' \<and> decoded_from L dec input e json \<and>
        registry_table L root' region snapshot tab (digest L json) =
          Ok \<lparr>rd_bytes = json, rd_etag = ''\"'' @ digest L json @ ''\"'', rd_version = mf_version m\<rparr> \<and>
        read_current_in L root' (Some tab) region =
          Ok \<lparr>mdoc_version = mf_version m, mdoc_sha256 = digest L json, mdoc_bytes = json\<rparr>))"
proof -
  from assms(1) obtain p where p: "prepare_bundle ''local-import'' L (dec, input, resource, region) snapshot = Ok p"
    "root0 = staged root stage p" "publish L (staged root stage p) now stage tmp p = Ok (steps, receipt)"
    "receipt = pi_receipt p"
    by (rule import_Ok)
  have written: "import_written L p" using assms(3) staged_writtenD by (simp add: p(2,4))
  note root' = assms(5) [unfolded p(2)]
  have prep: "prepare_directory L dec input ''local-import'' resource region snapshot = Ok p"
    using p(1) by (simp add: prepare_bundle_def)
  from p(1) written p(3) assms(2,4) root' obtain d previous where final: "root' snapshot = Some (Dir d)"
    "predecessor L root = Ok previous" "current_snapshot L root' = Ok snapshot"
    "read_publication L d snapshot {snapshot} = Ok (Some (publish_record receipt previous now))"
    by (rule local_import.published_snapshot)
  from p(1,3) assms(2) root' obtain l where
    placed: "root' snapshot = Some (Dir ((pi_staging p)(''publication.json'' \<mapsto> l)))"
      "root' ''CURRENT'' = Some (Top (Plain (text_bytes snapshot)))"
    by (rule local_import.publication_final) blast
  show ?thesis
    using final bundle_tables_served [where root = root', OF prep _ written placed(1) fresh_namesD(5) [OF assms(2)] placed(2)]
    by blast
qed

subsection \<open>A sample import\<close>

text \<open>The store with one snapshot of \<open>Master_Store\<close> receives a second one: a bundle of one table,
  encrypted, with a library that knows the documents written on the way.\<close>

definition import_receipt_2 :: import_receipt where
  "import_receipt_2 = \<lparr>rc_version = ''1.0'', rc_snapshot = ''master-2'', rc_tables = 1, rc_json_bytes = 1,
     rc_source = ''local-import'', rc_region = En, rc_resource_version = None\<rparr>"

definition sample_published :: "string \<Rightarrow> published_manifest" where
  "sample_published s = \<lparr>pm_schema_version = 1, pm_scope = sample_scope, pm_snapshot = s, pm_version = ''1.0'',
     pm_resource_version = None, pm_content_sha256 = replicate 64 CHR ''a'',
     pm_files = iv_files sample_inventory, pm_source_manifest = sample_manifest\<rparr>"

definition import_lib :: master_lib where
  "import_lib = sample_store_lib\<lparr>
     ml_ser_published := (\<lambda>m. text_bytes (pm_snapshot m)),
     ml_de_published := (\<lambda>bs. Some (sample_published (bytes_text bs))),
     ml_ser_inventory := (\<lambda>i. if i = sample_inventory then [11] else [99]),
     ml_de_value := (\<lambda>bs. if bs = [12] then Some sample_receipt
        else if bs = [14] then Some (receipt_value import_receipt_2) else if bs = [5] then Some (JArr []) else None),
     ml_ser_receipt := (\<lambda>_. [14]),
     ml_de_publication := (\<lambda>bs. if bs = [13] then Some (publish_record import_receipt_2 (Some ''master-1'') 7) else None),
     ml_ser_publication := (\<lambda>_. [13])\<rparr>"

abbreviation sample_key :: "u8 list" where "sample_key \<equiv> replicate 32 7"
abbreviation sample_iv :: "u8 list" where "sample_iv \<equiv> replicate 32 0"

definition sample_bin :: "u8 list" where
  "sample_bin = replicate 32 0 @ encrypt (rijndael_new sample_key) (replicate 32 0 @ [1]) sample_iv"

definition sample_input :: folder where
  "sample_input = [''MasterManifest.json'' \<mapsto> Plain [10], ''MasterA.bin'' \<mapsto> Plain sample_bin]"

lemma import_lib_simps [simp]:
  "ml_sha256 import_lib bs = replicate 64 CHR ''a''" "ml_gunzip import_lib bs n = Some (take n bs)"
  "ml_validate_json import_lib bs \<longleftrightarrow> bs \<noteq> []"
  "ml_de_manifest import_lib bs = (if bs = [10] then Some sample_manifest else None)"
  "ml_ser_inventory import_lib i = (if i = sample_inventory then [11] else [99])"
  "ml_de_inventory import_lib bs = (if bs = [11] then Some sample_inventory else None)"
  "ml_de_value import_lib [14] = Some (receipt_value import_receipt_2)"
  "ml_de_value import_lib [12] = Some sample_receipt"
  "ml_ser_published import_lib m = text_bytes (pm_snapshot m)"
  "ml_de_published import_lib bs = Some (sample_published (bytes_text bs))"
  "ml_ser_receipt import_lib r = [14]" "ml_ser_publication import_lib r' = [13]"
  "ml_de_publication import_lib [13] = Some (publish_record import_receipt_2 (Some ''master-1'') 7)"
  by (simp_all add: import_lib_def sample_store_lib_def plain_lib_def)

lemma sample_bin_length: "length sample_bin = 96"
  unfolding sample_bin_def by (simp add: length_encrypt pad_def Let_def)

lemma sample_decode:
  "decode import_lib (decoder_new sample_key sample_iv)
     \<lparr>en_name = ''MasterA.bin'', en_hash = replicate 64 CHR ''a'', en_size = 96\<rparr> sample_bin = Ok [1]"
proof (subst decode_iff)
  show "length sample_iv = 32" by simp
  have parts: "\<exists>prefix header gz. length prefix = 32 \<and> length header = 32 \<and>
      sample_bin = prefix @ encrypt (rijndael_new sample_key) (header @ gz) sample_iv \<and>
      ml_gunzip import_lib gz (MAX_JSON + 1) = Some [1]"
    by (rule exI [of _ "replicate 32 0"], rule exI [of _ "replicate 32 0"], rule exI [of _ "[1]"])
      (simp add: sample_bin_def)
  show "length sample_bin = en_size \<lparr>en_name = ''MasterA.bin'', en_hash = replicate 64 CHR ''a'', en_size = 96\<rparr> \<and>
     length sample_bin \<le> MAX_ENCRYPTED \<and> eq_ignore_ascii_case (ml_sha256 import_lib sample_bin)
       (en_hash \<lparr>en_name = ''MasterA.bin'', en_hash = replicate 64 CHR ''a'', en_size = 96\<rparr>) \<and>
     length [1::u8] \<le> MAX_JSON \<and> ml_validate_json import_lib [1] \<and>
     (\<exists>prefix header gz. length prefix = 32 \<and> length header = 32 \<and>
        sample_bin = prefix @ encrypt (rijndael_new sample_key) (header @ gz) sample_iv \<and>
        ml_gunzip import_lib gz (MAX_JSON + 1) = Some [1])"
    by (intro conjI parts) (simp_all add: sample_bin_length master_limits eq_ignore_ascii_case_def)
qed

definition sample_prepared :: prepared_import where
  "sample_prepared = stage_documents import_lib [''MasterA.json'' \<mapsto> Plain [1]] sample_inventory [10] import_receipt_2"

lemma sample_prepare:
  "prepare_directory import_lib (decoder_new sample_key sample_iv) sample_input ''local-import'' None En ''master-2'' =
     Ok sample_prepared"
proof -
  have parse: "manifest_parse import_lib [10] = Ok sample_manifest"
    by (simp add: manifest_parse_iff sample_manifest_ok MAX_MANIFEST_def)
  have files: "read_bounded import_lib (sample_input ''MasterManifest.json'') MAX_MANIFEST = Ok [10]"
      "read_bounded import_lib (sample_input ''MasterA.bin'') MAX_ENCRYPTED = Ok sample_bin"
    by (simp_all add: sample_input_def within_limit_def sample_bin_length master_limits)
  have name: "replace_bin ''MasterA.bin'' = ''MasterA.json''" by code_simp
  have tables: "prepare_tables import_lib (decoder_new sample_key sample_iv) sample_input 0 (\<lambda>_. None) []
      (mf_files sample_manifest) = Ok (1, [''MasterA.json'' \<mapsto> Plain [1]], iv_files sample_inventory)"
    by (simp add: sample_manifest_def files sample_decode name Let_def MAX_TOTAL_def sample_inventory_def
        file_of_def digest_def del: replace_bin.simps)
  have index: "\<lparr>iv_schema_version = 1, iv_version = mf_version sample_manifest,
      iv_files = sort_key tf_name (iv_files sample_inventory)\<rparr> = sample_inventory"
    by (simp add: sample_inventory_def sample_manifest_def)
  show ?thesis
    by (simp add: prepare_directory_def master_supported_def files parse tables index [simplified]
        sample_index_valid Let_def sample_prepared_def)
      (simp add: import_receipt_2_def sample_manifest_def)
qed

lemma sample_predecessor: "predecessor import_lib sample_store = Ok (Some ''master-1'')"
proof -
  have "source_with_provenance import_lib ''master-1'' sample_folder = Ok (sample_manifest, None, En)"
    by (rule sample_provenance_in) simp_all
  moreover have "from_utf8 (text_bytes ''master-1'') = Some ''master-1''" by code_simp
  moreover have "regular import_lib (node_leaf (sample_store ''CURRENT'')) 128 = Ok (text_bytes ''master-1'')"
    by (simp add: sample_store_def within_limit_def)
  ultimately show ?thesis by (simp add: predecessor_def read_text_def sample_dir)
qed

lemma sample_snapshot_region: "snapshot_region import_lib sample_store ''master-1'' = Ok En"
proof -
  have "source_with_provenance import_lib ''master-1'' sample_folder = Ok (sample_manifest, None, En)"
    by (rule sample_provenance_in) simp_all
  then show ?thesis by (simp add: snapshot_region_def sample_dir)
qed

definition import_steps :: "disk_step list" where
  "import_steps = [WriteIn ''.stage'' ''publication.json'' [13], Rename ''.stage'' ''master-2'',
     WriteTop ''.tmp'' (text_bytes ''master-2''), Rename ''.tmp'' ''CURRENT'']"

lemma sample_import:
  "import_directory_for_region import_lib False sample_store (decoder_new sample_key sample_iv) sample_input
     None En ''master-2'' 7 ''.stage'' ''.tmp'' =
   Ok (sample_store(''.stage'' \<mapsto> Dir (pi_staging sample_prepared)), import_steps, import_receipt_2)"
proof -
  let ?root = "sample_store(''.stage'' \<mapsto> Dir (pi_staging sample_prepared))"
  have receipt: "pi_receipt sample_prepared = import_receipt_2" by (simp add: sample_prepared_def stage_documents_def)
  have fields: "rc_region import_receipt_2 = En" "rc_snapshot import_receipt_2 = ''master-2''"
    by (simp_all add: import_receipt_2_def)
  have prev: "predecessor import_lib ?root = Ok (Some ''master-1'')"
    by (rule predecessor_cong [OF sample_predecessor]) simp_all
  have "snapshot_region import_lib ?root ''master-1'' = Ok En"
    using sample_snapshot_region by (simp add: snapshot_region_def snapshot_directory_def sample_names)
  then have "publish import_lib ?root 7 ''.stage'' ''.tmp'' sample_prepared = Ok (import_steps, import_receipt_2)"
    by (simp add: publish_def prev receipt fields Let_def import_steps_def)
  then show ?thesis by (simp add: import_directory_for_region_def master_supported_def sample_prepare staged_def)
qed

lemma sample_import_fresh: "fresh_names sample_store ''master-2'' ''.stage'' ''.tmp''"
proof -
  have "snapshot_name ''master-2''" "\<not> snapshot_name ''.stage''" "\<not> snapshot_name ''.tmp''" by code_simp+
  then show ?thesis by (simp add: fresh_names_def sample_store_def)
qed

lemma sample_staged_written:
  "staged_written import_lib (sample_store(''.stage'' \<mapsto> Dir (pi_staging sample_prepared))) ''.stage'' import_receipt_2"
  by (auto simp: staged_written_def receipt_written_def inventory_written_def MAX_INDEX_def
      sample_prepared_def stage_documents_def split: if_splits)

text \<open>Interrupted after the third step, the sample import has not moved the pointer yet.\<close>

theorem imports_survive_interruption_witness:
  "\<exists>root'. crash (sample_store(''.stage'' \<mapsto> Dir (pi_staging sample_prepared))) import_steps root' \<and>
     (\<forall>n. snapshot_name n \<and> n \<noteq> ''master-2'' \<longrightarrow> root' n = sample_store n) \<and>
     (predecessor import_lib root' = predecessor import_lib sample_store \<or>
      predecessor import_lib root' = Ok (Some ''master-2'') \<and>
        (\<exists>d. root' ''master-2'' = Some (Dir d) \<and> complete_snapshot import_lib ''master-2'' d))"
proof -
  have "crash (sample_store(''.stage'' \<mapsto> Dir (pi_staging sample_prepared))) import_steps
      (fold apply_step (take 3 import_steps) (sample_store(''.stage'' \<mapsto> Dir (pi_staging sample_prepared))))"
    unfolding import_steps_def by (simp add: crash.intros)
  from imports_survive_interruption [OF sample_import sample_import_fresh sample_staged_written this] this
  show ?thesis by blast
qed

theorem imported_tables_are_served_witness:
  "current_snapshot import_lib (fold apply_step import_steps
     (sample_store(''.stage'' \<mapsto> Dir (pi_staging sample_prepared)))) = Ok ''master-2''"
proof -
  have "publication_written import_lib (publish_record import_receipt_2 previous 7)"
    if "predecessor import_lib sample_store = Ok previous" for previous
    using that sample_predecessor by (simp add: publication_written_def)
  from imported_tables_are_served [OF sample_import sample_import_fresh sample_staged_written this refl]
  show ?thesis by blast
qed

lemma sample_published_of:
  assumes "source_with_provenance import_lib s d = Ok (sample_manifest, None, En)"
    "inventory_of import_lib d sample_manifest = Ok sample_inventory"
  shows "published_of import_lib sample_scope s d = Ok (sample_published s)"
proof -
  have sorted: "sort_manifest sample_manifest = sample_manifest" by (simp add: sort_manifest_def sample_manifest_def)
  show ?thesis
    using assms by (simp add: published_of_def sorted sample_scope_def Let_def content_hash_def digest_def)
      (simp add: sample_published_def sample_manifest_def sample_scope_def)
qed

lemma sample_import_published:
  "published_of import_lib sample_scope ''master-2'' ((pi_staging sample_prepared)(''publication.json'' \<mapsto> l)) =
     Ok (sample_published ''master-2'')"
proof (rule sample_published_of)
  let ?d = "(pi_staging sample_prepared)(''publication.json'' \<mapsto> l)"
  have parse: "manifest_parse import_lib [10] = Ok sample_manifest"
    by (simp add: manifest_parse_iff sample_manifest_ok MAX_MANIFEST_def)
  have "source_with_provenance import_lib (rc_snapshot import_receipt_2) ?d =
      Ok (sample_manifest, rc_resource_version import_receipt_2, rc_region import_receipt_2)"
    by (rule provenance_of_receipt [OF _ parse])
      (simp_all add: sample_prepared_def stage_documents_def receipt_written_def import_receipt_2_def
        sample_manifest_def master_supported_def)
  then show "source_with_provenance import_lib ''master-2'' ?d = Ok (sample_manifest, None, En)"
    by (simp add: import_receipt_2_def)
  have "read_inventory import_lib (regular import_lib (Some (Plain [11])) MAX_INDEX) = Ok sample_inventory"
    by (simp add: read_inventory_def within_limit_def MAX_INDEX_def)
  then show "inventory_of import_lib ?d sample_manifest = Ok sample_inventory"
    using sample_index_valid by (simp add: inventory_of_def sample_prepared_def stage_documents_def)
qed

end
