(* ===== verification/Master_History.thy ===== *)
theory Master_History
  imports Master_Publish
begin

section \<open>Master history and retention\<close>

text \<open>
  The committed history of \<open>src/master_registry.rs\<close>: the walk along the publication records from the
  pointer (\<open>history_walk\<close>, \<open>by_hash_walk\<close>), and the retention pass that removes the oldest snapshots of
  that chain (\<open>prune_within\<close>, \<open>retain\<close>).

  The loops of the source count the snapshots they have visited and stop with an error at 10,000; the
  model recurses on what is left of that count, so the bound is the source's own.  The first loop of the retention pass
  is bounded by the number of snapshots to keep.  As in \<open>Master_Publish\<close> the effects of the pass
  are a list of steps on the disk, in order, and an interruption leaves one of the disks of \<open>crash\<close>.
\<close>

record history_entry =
  he_snapshot :: string
  he_version :: string
  he_resource_version :: "string option"
  he_content_sha256 :: string
  he_published_at :: "instant option"
  he_file_count :: nat
  he_total_size :: nat

record history =
  hs_schema_version :: nat
  hs_scope :: master_scope
  hs_head :: string
  hs_entries :: "history_entry list"
  hs_has_more :: bool
  hs_next_before :: "string option"
  hs_legacy_boundary :: bool
  hs_retention_boundary :: bool

definition valid_history_cursor :: "string \<Rightarrow> bool" where
  "valid_history_cursor v \<longleftrightarrow> length v \<le> 128 \<and> starts_with v ''master-'' \<and> safe_component v"

definition WALK_LIMIT :: nat where "WALK_LIMIT = 10000"

subsection \<open>One step of the chain\<close>

definition chain_step ::
  "master_lib \<Rightarrow> disk \<Rightarrow> master_scope \<Rightarrow> string \<Rightarrow> string set \<Rightarrow>
     MasterError + registry_document \<times> publication option" where
  "chain_step L root scope snapshot visited =
     then_result (snapshot_directory root snapshot) (\<lambda>d.
     then_result (registry_manifest L root (Some snapshot) scope) (\<lambda>doc.
     then_result (read_publication L d snapshot visited) (\<lambda>record.
       if record = None then then_result (snapshot_directory root snapshot) (\<lambda>_. Ok (doc, record))
       else Ok (doc, record))))"

definition crossed_boundary ::
  "master_lib \<Rightarrow> disk \<Rightarrow> MasterError \<Rightarrow> string \<Rightarrow> string set \<Rightarrow> MasterError + string" where
  "crossed_boundary L root e failed visited =
     (if e \<noteq> MasterNotFound \<and> e \<noteq> MasterIo IoNotFound then Err e
      else case retention_boundary L root of
        Inr (Some boundary) \<Rightarrow> if boundary \<noteq> failed \<and> boundary \<in> visited then Ok boundary else Err e
      | _ \<Rightarrow> Err e)"

definition history_entry_of :: "string \<Rightarrow> published_manifest \<Rightarrow> publication option \<Rightarrow> history_entry" where
  "history_entry_of snapshot m record =
     \<lparr>he_snapshot = snapshot, he_version = pm_version m, he_resource_version = pm_resource_version m,
      he_content_sha256 = pm_content_sha256 m, he_published_at = map_option pb_published_at record,
      he_file_count = length (pm_files m), he_total_size = sum_list (map tf_size (pm_files m))\<rparr>"

subsection \<open>The walk\<close>

record walk =
  wk_visited :: "string set"
  wk_cursor_found :: bool
  wk_entries :: "history_entry list"
  wk_legacy :: bool
  wk_retained :: bool

definition truncate_at ::
  "string option \<Rightarrow> string \<Rightarrow> walk \<Rightarrow> MasterError + walk \<times> string option" where
  "truncate_at before crossed w =
     (if before = Some crossed then Ok (w\<lparr>wk_entries := [], wk_retained := True\<rparr>, None)
      else if list_ex (\<lambda>e. he_snapshot e = crossed) (wk_entries w)
      then Ok (w\<lparr>wk_entries := takeWhile (\<lambda>e. he_snapshot e \<noteq> crossed) (wk_entries w) @
             take 1 (dropWhile (\<lambda>e. he_snapshot e \<noteq> crossed) (wk_entries w)), wk_retained := True\<rparr>, None)
      else Err MasterNotFound)"

definition older :: "string option \<Rightarrow> string \<Rightarrow> publication option \<Rightarrow> string option" where
  \<comment> \<open>the next snapshot of the walk, which ends at the retention boundary\<close>
  "older boundary snapshot record =
     (let next = Option.bind record pb_previous_snapshot
      in if next \<noteq> None \<and> boundary = Some snapshot then None else next)"

definition at_boundary :: "string option \<Rightarrow> string \<Rightarrow> publication option \<Rightarrow> bool" where
  "at_boundary boundary snapshot record \<longleftrightarrow>
     Option.bind record pb_previous_snapshot \<noteq> None \<and> boundary = Some snapshot"

fun walk_loop ::
  "master_lib \<Rightarrow> disk \<Rightarrow> master_scope \<Rightarrow> nat \<Rightarrow> string option \<Rightarrow> string option \<Rightarrow> nat \<Rightarrow> string option \<Rightarrow>
     walk \<Rightarrow> MasterError + walk \<times> string option" where
  "walk_loop L root scope limit before boundary n None w = Ok (w, None)"
| "walk_loop L root scope limit before boundary 0 (Some snapshot) w = Err MasterLimit"
| "walk_loop L root scope limit before boundary (Suc n) (Some snapshot) w =
     (if snapshot \<in> wk_visited w then Err MasterFormat
      else let visited = insert snapshot (wk_visited w) in
        case chain_step L root scope snapshot visited of
          Inl e \<Rightarrow> then_result (crossed_boundary L root e snapshot visited) (\<lambda>crossed.
                    truncate_at before crossed (w\<lparr>wk_visited := visited\<rparr>))
        | Inr (doc, record) \<Rightarrow>
            (case ml_de_published L (rd_bytes doc) of
               None \<Rightarrow> Err MasterFormat
             | Some m \<Rightarrow>
                 let next = older boundary snapshot record;
                     w1 = w\<lparr>wk_visited := visited, wk_legacy := (wk_legacy w \<or> record = None),
                            wk_retained := (wk_retained w \<or> at_boundary boundary snapshot record)\<rparr>
                 in if \<not> wk_cursor_found w
                    then walk_loop L root scope limit before boundary n next
                           (w1\<lparr>wk_cursor_found := (before = Some snapshot)\<rparr>)
                    else let w2 = w1\<lparr>wk_entries := wk_entries w @ [history_entry_of snapshot m record]\<rparr>
                      in if length (wk_entries w2) = limit then Ok (w2, next)
                         else walk_loop L root scope limit before boundary n next w2))"

definition history_walk ::
  "master_lib \<Rightarrow> disk \<Rightarrow> master_scope \<Rightarrow> nat \<Rightarrow> string option \<Rightarrow> string option \<Rightarrow> MasterError + history" where
  "history_walk L root scope limit before boundary =
     (if \<exists>v \<in> set_option before. \<not> valid_history_cursor v then Err MasterFormat
      else then_result (predecessor L root) (\<lambda>p. case p of
        None \<Rightarrow> Err MasterNotFound
      | Some head \<Rightarrow>
          then_result (walk_loop L root scope limit before boundary WALK_LIMIT (Some head)
              \<lparr>wk_visited = {}, wk_cursor_found = (before = None), wk_entries = [],
               wk_legacy = False, wk_retained = False\<rparr>) (\<lambda>(w, next).
            if \<not> wk_cursor_found w then Err MasterNotFound
            else Ok \<lparr>hs_schema_version = 1, hs_scope = scope, hs_head = head,
                     hs_entries = wk_entries w, hs_has_more = (next \<noteq> None),
                     hs_next_before = (if next \<noteq> None \<and> wk_entries w \<noteq> []
                        then Some (he_snapshot (last (wk_entries w))) else None),
                     hs_legacy_boundary = wk_legacy w, hs_retention_boundary = wk_retained w\<rparr>)))"

definition history_page_inner ::
  "master_lib \<Rightarrow> disk \<Rightarrow> master_scope \<Rightarrow> nat \<Rightarrow> string option \<Rightarrow> MasterError + history" where
  "history_page_inner L root scope limit before =
     then_result (retention_boundary L root) (\<lambda>boundary. history_walk L root scope limit before boundary)"

definition history_page ::
  "master_lib \<Rightarrow> disk \<Rightarrow> master_scope \<Rightarrow> nat \<Rightarrow> string option \<Rightarrow> MasterError + history" where
  "history_page L root scope limit before =
     (if \<not> (1 \<le> limit \<and> limit \<le> 100) then Err MasterLimit
      else history_page_inner L root scope limit before)"

definition committed_history :: "master_lib \<Rightarrow> disk \<Rightarrow> master_scope \<Rightarrow> MasterError + history" where
  "committed_history L root scope =
     then_result (history_page_inner L root scope 10000 None) (\<lambda>h.
       if hs_has_more h then Err MasterLimit else Ok h)"

subsection \<open>Lookup by content\<close>

fun by_hash_loop ::
  "master_lib \<Rightarrow> disk \<Rightarrow> master_scope \<Rightarrow> string \<Rightarrow> string option \<Rightarrow> nat \<Rightarrow> string option \<Rightarrow> string set \<Rightarrow>
     MasterError + registry_document" where
  "by_hash_loop L root scope hash boundary n None visited = Err MasterNotFound"
| "by_hash_loop L root scope hash boundary 0 (Some snapshot) visited = Err MasterLimit"
| "by_hash_loop L root scope hash boundary (Suc n) (Some snapshot) visited0 =
     (if snapshot \<in> visited0 then Err MasterFormat
      else let visited = insert snapshot visited0 in
        case chain_step L root scope snapshot visited of
          Inl e \<Rightarrow> then_result (crossed_boundary L root e snapshot visited) (\<lambda>_. Err MasterNotFound)
        | Inr (doc, record) \<Rightarrow>
            (case ml_de_published L (rd_bytes doc) of
               None \<Rightarrow> Err MasterFormat
             | Some m \<Rightarrow>
                 if pm_content_sha256 m = hash then Ok doc
                 else if boundary = Some snapshot then Err MasterNotFound
                 else by_hash_loop L root scope hash boundary n (Option.bind record pb_previous_snapshot) visited))"

definition manifest_by_hash ::
  "master_lib \<Rightarrow> disk \<Rightarrow> master_scope \<Rightarrow> string \<Rightarrow> MasterError + registry_document" where
  "manifest_by_hash L root scope hash =
     (if \<not> hash_valid hash then Err MasterFormat
      else then_result (retention_boundary L root) (\<lambda>boundary.
           then_result (predecessor L root) (\<lambda>next.
             by_hash_loop L root scope hash boundary WALK_LIMIT next {})))"

subsection \<open>Retention\<close>

definition retention_valid :: "nat \<Rightarrow> bool" where
  "retention_valid keep \<longleftrightarrow> 2 \<le> keep \<and> keep \<le> 10000"

definition MAX_PRUNED_PER_PASS :: nat where "MAX_PRUNED_PER_PASS = 64"

definition write_retention :: "master_lib \<Rightarrow> string \<Rightarrow> string \<Rightarrow> disk_step list" where
  "write_retention L tmp boundary =
     [WriteTop tmp (ml_ser_retention L \<lparr>rr_schema_version = 1, rr_boundary = boundary\<rparr>),
      Rename tmp ''retention.json'']"

fun prune_window ::
  "master_lib \<Rightarrow> disk \<Rightarrow> string option \<Rightarrow> nat \<Rightarrow> string option \<Rightarrow> string set \<Rightarrow>
     MasterError + (string \<times> string option \<times> string set) option" where
  "prune_window L root old n None visited = Ok None"
| "prune_window L root old 0 (Some snapshot) visited = Ok None"
| "prune_window L root old (Suc n) (Some snapshot) visited0 =
     (if snapshot \<in> visited0 then Err MasterFormat
      else let visited = insert snapshot visited0 in
        then_result (snapshot_directory root snapshot) (\<lambda>d.
        then_result (read_publication L d snapshot visited) (\<lambda>p. (case p of
          None \<Rightarrow> Ok None
        | Some record \<Rightarrow>
            if n = 0 \<or> old = Some snapshot
            then Ok (Some (snapshot, pb_previous_snapshot record, visited))
            else prune_window L root old n (pb_previous_snapshot record) visited))))"

fun prune_candidates ::
  "master_lib \<Rightarrow> disk \<Rightarrow> nat \<Rightarrow> string option \<Rightarrow> string set \<Rightarrow> MasterError + string list" where
  "prune_candidates L root n None visited = Ok []"
| "prune_candidates L root 0 (Some snapshot) visited = Err MasterLimit"
| "prune_candidates L root (Suc n) (Some snapshot) visited0 =
     (if snapshot \<in> visited0 then Err MasterFormat
      else let visited = insert snapshot visited0 in
        case snapshot_directory root snapshot of
          Inl e \<Rightarrow> if e = MasterNotFound then Ok [] else Err e
        | Inr d \<Rightarrow>
            then_result (read_publication L d snapshot visited) (\<lambda>p. case p of
              None \<Rightarrow> Ok []
            | Some record \<Rightarrow>
                then_result (prune_candidates L root n (pb_previous_snapshot record) visited) (\<lambda>rest.
                  Ok (snapshot # rest))))"

definition remove_steps :: "(string \<Rightarrow> string) \<Rightarrow> string \<Rightarrow> disk_step list" where
  "remove_steps trash snapshot = [Rename snapshot (trash snapshot), RemoveDir (trash snapshot)]"

definition prune_within ::
  "master_lib \<Rightarrow> disk \<Rightarrow> nat \<Rightarrow> nat \<Rightarrow> string \<Rightarrow> (string \<Rightarrow> string) \<Rightarrow> MasterError + disk_step list \<times> nat" where
  "prune_within L root keep budget tmp trash =
     (if \<not> retention_valid keep then Err MasterLimit
      else then_result (predecessor L root) (\<lambda>p. case p of
        None \<Rightarrow> Ok ([], 0)
      | Some head \<Rightarrow>
          then_result (retention_boundary L root) (\<lambda>old.
          then_result (prune_window L root old keep (Some head) {}) (\<lambda>found. (case found of
            None \<Rightarrow> Ok ([], 0)
          | Some (boundary, next, visited) \<Rightarrow>
              then_result (prune_candidates L root 10000 next visited) (\<lambda>candidates.
                if candidates = [] then Ok ([], 0)
                else let doomed = take budget (rev candidates) in
                  Ok ((if old \<noteq> Some boundary then write_retention L tmp boundary else []) @
                      concat (map (remove_steps trash) doomed), length doomed)))))))"

definition prune ::
  "master_lib \<Rightarrow> disk \<Rightarrow> nat \<Rightarrow> string \<Rightarrow> (string \<Rightarrow> string) \<Rightarrow> MasterError + disk_step list \<times> nat" where
  "prune L root keep tmp trash = prune_within L root keep MAX_PRUNED_PER_PASS tmp trash"

definition retain ::
  "master_lib \<Rightarrow> bool \<Rightarrow> disk \<Rightarrow> nat option \<Rightarrow> string \<Rightarrow> (string \<Rightarrow> string) \<Rightarrow> disk_step list \<times> nat option" where
  \<comment> \<open>a busy writer or a failed pass yields nothing, and the pass is never an error of its caller\<close>
  "retain L locked root retention tmp trash =
     (case retention of
        None \<Rightarrow> ([], None)
      | Some keep \<Rightarrow>
          if locked then ([], None)
          else (case prune L root keep tmp trash of
            Inr (steps, pruned) \<Rightarrow> (steps, Some pruned)
          | Inl _ \<Rightarrow> ([], None)))"

subsection \<open>Committed chains\<close>

text \<open>A link is a snapshot with its published manifest and its publication record.  The links of a list
  are \<open>linked\<close> up to a snapshot \<open>t\<close> when each one is readable, has not been visited, and leads to the
  next one, the last of them to \<open>t\<close>.  The committed chain of a store starts at the pointer and leads
  nowhere: its oldest link has no predecessor, has no record, or is the retention boundary.\<close>

type_synonym link = "string \<times> published_manifest \<times> publication option"

fun link_head :: "link list \<Rightarrow> string option \<Rightarrow> string option" where
  "link_head [] t = t"
| "link_head (l # ls) t = Some (fst l)"

fun linked ::
  "master_lib \<Rightarrow> disk \<Rightarrow> master_scope \<Rightarrow> string option \<Rightarrow> string set \<Rightarrow> link list \<Rightarrow> string option \<Rightarrow> bool" where
  "linked L root scope boundary visited [] t \<longleftrightarrow> True"
| "linked L root scope boundary visited ((s, m, r) # ls) t \<longleftrightarrow>
     s \<notin> visited \<and>
     (\<exists>doc. chain_step L root scope s (insert s visited) = Ok (doc, r) \<and> ml_de_published L (rd_bytes doc) = Some m) \<and>
     older boundary s r = link_head ls t \<and>
     linked L root scope boundary (insert s visited) ls t"

definition committed_chain ::
  "master_lib \<Rightarrow> disk \<Rightarrow> master_scope \<Rightarrow> string option \<Rightarrow> link list \<Rightarrow> bool" where
  "committed_chain L root scope boundary ls \<longleftrightarrow> ls \<noteq> [] \<and> length ls \<le> WALK_LIMIT \<and>
     predecessor L root = Ok (link_head ls None) \<and> linked L root scope boundary {} ls None"

definition link_entry :: "link \<Rightarrow> history_entry" where
  "link_entry l = history_entry_of (fst l) (fst (snd l)) (snd (snd l))"

lemma link_entry_snapshot [simp]: "he_snapshot (link_entry l) = fst l"
  by (simp add: link_entry_def history_entry_of_def)

lemma link_head_append: "link_head (xs @ ys) t = link_head xs (link_head ys t)"
  by (cases xs) simp_all

lemma linked_append:
  "linked L root scope boundary visited (xs @ ys) t \<longleftrightarrow>
     linked L root scope boundary visited xs (link_head ys t) \<and>
     linked L root scope boundary (visited \<union> fst ` set xs) ys t"
proof (induction xs arbitrary: visited)
  case (Cons x xs)
  obtain s m r where x: "x = (s, m, r)" by (cases x)
  show ?case by (simp add: x link_head_append Cons.IH)
qed simp

lemma linked_distinct:
  "linked L root scope boundary visited ls t \<Longrightarrow> distinct (map fst ls) \<and> fst ` set ls \<inter> visited = {}"
proof (induction ls arbitrary: visited)
  case (Cons l ls)
  obtain s m r where l: "l = (s, m, r)" by (cases l)
  show ?case using Cons.prems Cons.IH [of "insert s visited"] by (auto simp: l)
qed simp

text \<open>What the walk has recorded after passing over some links.\<close>

definition passed :: "string option \<Rightarrow> link list \<Rightarrow> walk \<Rightarrow> walk" where
  "passed boundary ls w = w\<lparr>wk_visited := wk_visited w \<union> fst ` set ls,
     wk_legacy := (wk_legacy w \<or> list_ex (\<lambda>(s, m, r). r = None) ls),
     wk_retained := (wk_retained w \<or> list_ex (\<lambda>(s, m, r). at_boundary boundary s r) ls)\<rparr>"

definition listed :: "string option \<Rightarrow> link list \<Rightarrow> walk \<Rightarrow> walk" where
  "listed boundary ls w = (passed boundary ls w)\<lparr>wk_entries := wk_entries w @ map link_entry ls\<rparr>"

lemma passed_simps [simp]:
  "wk_visited (passed boundary ls w) = wk_visited w \<union> fst ` set ls"
  "wk_cursor_found (passed boundary ls w) = wk_cursor_found w"
  "wk_entries (passed boundary ls w) = wk_entries w"
  "wk_legacy (passed boundary ls w) \<longleftrightarrow> wk_legacy w \<or> list_ex (\<lambda>(s, m, r). r = None) ls"
  "wk_retained (passed boundary ls w) \<longleftrightarrow> wk_retained w \<or> list_ex (\<lambda>(s, m, r). at_boundary boundary s r) ls"
  by (simp_all add: passed_def)

lemma listed_simps [simp]:
  "wk_visited (listed boundary ls w) = wk_visited w \<union> fst ` set ls"
  "wk_cursor_found (listed boundary ls w) = wk_cursor_found w"
  "wk_entries (listed boundary ls w) = wk_entries w @ map link_entry ls"
  "wk_legacy (listed boundary ls w) \<longleftrightarrow> wk_legacy w \<or> list_ex (\<lambda>(s, m, r). r = None) ls"
  "wk_retained (listed boundary ls w) \<longleftrightarrow> wk_retained w \<or> list_ex (\<lambda>(s, m, r). at_boundary boundary s r) ls"
  by (simp_all add: listed_def)

lemma listed_Nil [simp]: "listed boundary [] w = w"
  by (simp add: listed_def passed_def)

lemma passed_Nil [simp]: "passed boundary [] w = w"
  by (simp add: passed_def)

lemma listed_Cons: "listed boundary (l # ls) w = listed boundary ls (listed boundary [l] w)"
  by (cases l) (simp add: listed_def passed_def)

lemma passed_Cons: "passed boundary (l # ls) w = passed boundary ls (passed boundary [l] w)"
  by (cases l) (simp add: passed_def)

text \<open>Once the cursor is found, the walk lists the links one by one until the page is full.\<close>

lemma walk_one:
  assumes "linked L root scope boundary (wk_visited w) ((s, m, r) # ls) t"
  shows "walk_loop L root scope limit before boundary (Suc n) (Some s) w =
    (if \<not> wk_cursor_found w
     then walk_loop L root scope limit before boundary n (link_head ls t)
       ((passed boundary [(s, m, r)] w)\<lparr>wk_cursor_found := (before = Some s)\<rparr>)
     else if length (wk_entries w) + 1 = limit then Ok (listed boundary [(s, m, r)] w, link_head ls t)
     else walk_loop L root scope limit before boundary n (link_head ls t) (listed boundary [(s, m, r)] w))"
proof -
  from assms obtain doc where step: "chain_step L root scope s (insert s (wk_visited w)) = Ok (doc, r)"
    "ml_de_published L (rd_bytes doc) = Some m" "older boundary s r = link_head ls t" "s \<notin> wk_visited w" by auto
  show ?thesis
    by (simp add: step Let_def listed_def passed_def link_entry_def)
qed

lemma walk_prefix:
  assumes "linked L root scope boundary (wk_visited w) ls t" "wk_cursor_found w"
    "length (wk_entries w) + length ls < limit" "length ls \<le> n"
  shows "walk_loop L root scope limit before boundary n (link_head ls t) w =
    walk_loop L root scope limit before boundary (n - length ls) t (listed boundary ls w)"
  using assms
proof (induction ls arbitrary: w n)
  case (Cons l ls)
  obtain s m r where l: "l = (s, m, r)" by (cases l)
  obtain n' where n: "n = Suc n'" using Cons.prems(4) by (cases n) simp_all
  let ?w = "listed boundary [l] w"
  have "linked L root scope boundary (wk_visited ?w) ls t" using Cons.prems(1) by (simp add: l)
  moreover have "length (wk_entries ?w) + length ls < limit" using Cons.prems(3) by simp
  moreover have "wk_cursor_found ?w" "length ls \<le> n'" using Cons.prems(2,4) n by simp_all
  ultimately have "walk_loop L root scope limit before boundary n' (link_head ls t) ?w =
      walk_loop L root scope limit before boundary (n' - length ls) t (listed boundary ls ?w)"
    by (intro Cons.IH)
  moreover have "length (wk_entries w) + 1 \<noteq> limit" using Cons.prems(3) by simp
  ultimately show ?case
    using walk_one [of L root scope boundary w s m r ls t limit before n'] Cons.prems(1,2)
    by (simp add: l n listed_Cons [of boundary "(s, m, r)" ls] del: walk_loop.simps)
qed simp

lemma walk_page:
  assumes "linked L root scope boundary (wk_visited w) ls t" "wk_cursor_found w"
    "length (wk_entries w) < limit" "limit \<le> length (wk_entries w) + length ls" "length ls \<le> n"
  shows "walk_loop L root scope limit before boundary n (link_head ls t) w =
    Ok (listed boundary (take (limit - length (wk_entries w)) ls) w,
        link_head (drop (limit - length (wk_entries w)) ls) t)"
proof -
  define k where "k = limit - length (wk_entries w)"
  have k: "0 < k" "k \<le> length ls" using assms(3,4) by (simp_all add: k_def)
  let ?xs = "take (k - 1) ls"
  obtain s m r where l: "ls ! (k - 1) = (s, m, r)" by (cases "ls ! (k - 1)")
  have split: "ls = ?xs @ (s, m, r) # drop k ls"
    using id_take_nth_drop [of "k - 1" ls] k l by simp
  have len: "length ?xs = k - 1" using k by simp
  have joined: "linked L root scope boundary (wk_visited w) (?xs @ (s, m, r) # drop k ls) t"
    by (simp only: split [symmetric] assms(1))
  have parts: "linked L root scope boundary (wk_visited w) ?xs (Some s)"
    "linked L root scope boundary (wk_visited (listed boundary ?xs w)) ((s, m, r) # drop k ls) t"
    using joined by (simp_all only: linked_append link_head.simps listed_simps fst_conv)
  have "link_head ls t = link_head ?xs (Some s)"
    by (subst split) (simp only: link_head_append link_head.simps fst_conv)
  then have "walk_loop L root scope limit before boundary n (link_head ls t) w =
      walk_loop L root scope limit before boundary (n - (k - 1)) (Some s) (listed boundary ?xs w)"
    using walk_prefix [OF parts(1) assms(2), of limit n before] assms(3,5) k len by (simp add: k_def)
  also have "n - (k - 1) = Suc (n - k)" using k assms(5) by simp
  also have "walk_loop L root scope limit before boundary (Suc (n - k)) (Some s) (listed boundary ?xs w) =
      Ok (listed boundary [(s, m, r)] (listed boundary ?xs w), link_head (drop k ls) t)"
    by (subst walk_one [OF parts(2)]) (use assms(2,3) k len in \<open>simp add: k_def\<close>)
  also have "listed boundary [(s, m, r)] (listed boundary ?xs w) = listed boundary (take k ls) w"
  proof -
    have "take k ls = ?xs @ [(s, m, r)]" using k l take_Suc_conv_app_nth [of "k - 1" ls] by simp
    then show ?thesis by (auto simp: listed_def passed_def)
  qed
  finally show ?thesis by (simp add: k_def)
qed

lemma walk_skip:
  assumes "linked L root scope boundary (wk_visited w) ls t" "\<not> wk_cursor_found w"
    "before \<notin> Some ` fst ` set ls" "length ls \<le> n"
  shows "walk_loop L root scope limit before boundary n (link_head ls t) w =
    walk_loop L root scope limit before boundary (n - length ls) t (passed boundary ls w)"
  using assms
proof (induction ls arbitrary: w n)
  case (Cons l ls)
  obtain s m r where l: "l = (s, m, r)" by (cases l)
  obtain n' where n: "n = Suc n'" using Cons.prems(4) by (cases n) simp_all
  let ?w = "passed boundary [l] w"
  have miss: "before \<noteq> Some s" using Cons.prems(3) by (auto simp: l)
  have keep: "?w\<lparr>wk_cursor_found := False\<rparr> = ?w" using Cons.prems(2) by (simp add: passed_def)
  have "walk_loop L root scope limit before boundary n' (link_head ls t) ?w =
      walk_loop L root scope limit before boundary (n' - length ls) t (passed boundary ls ?w)"
    by (rule Cons.IH) (use Cons.prems n in \<open>auto simp: l\<close>)
  then show ?case
    using walk_one [of L root scope boundary w s m r ls t limit before n'] Cons.prems(1,2) miss
    by (simp add: l n keep [unfolded l] passed_Cons [of boundary "(s, m, r)" ls] del: walk_loop.simps)
qed simp

lemma walk_skip_to_cursor:
  assumes "linked L root scope boundary (wk_visited w) (xs @ [(b, m, r)]) t" "\<not> wk_cursor_found w"
    "b \<notin> fst ` set xs" "length xs < n"
  shows "walk_loop L root scope limit (Some b) boundary n (link_head (xs @ [(b, m, r)]) t) w =
    walk_loop L root scope limit (Some b) boundary (n - Suc (length xs)) t
      ((passed boundary (xs @ [(b, m, r)]) w)\<lparr>wk_cursor_found := True\<rparr>)"
proof -
  have parts: "linked L root scope boundary (wk_visited w) xs (Some b)"
    "linked L root scope boundary (wk_visited (passed boundary xs w)) [(b, m, r)] t"
    using assms(1) by (simp_all add: linked_append)
  have "link_head (xs @ [(b, m, r)]) t = link_head xs (Some b)" by (simp add: link_head_append)
  then have "walk_loop L root scope limit (Some b) boundary n (link_head (xs @ [(b, m, r)]) t) w =
      walk_loop L root scope limit (Some b) boundary (n - length xs) (Some b) (passed boundary xs w)"
    using walk_skip [OF parts(1) assms(2), of "Some b" n limit] assms(3,4) by auto
  also have "n - length xs = Suc (n - Suc (length xs))" using assms(4) by simp
  also have "walk_loop L root scope limit (Some b) boundary (Suc (n - Suc (length xs))) (Some b) (passed boundary xs w) =
      walk_loop L root scope limit (Some b) boundary (n - Suc (length xs)) t
        ((passed boundary [(b, m, r)] (passed boundary xs w))\<lparr>wk_cursor_found := True\<rparr>)"
    by (subst walk_one [OF parts(2)]) (use assms(2) in simp)
  also have "passed boundary [(b, m, r)] (passed boundary xs w) = passed boundary (xs @ [(b, m, r)]) w"
    by (auto simp: passed_def)
  finally show ?thesis .
qed

lemma walk_rest:
  assumes "linked L root scope boundary (wk_visited w) ls None" "wk_cursor_found w" "wk_entries w = []"
    "1 \<le> limit" "length ls \<le> n"
  shows "walk_loop L root scope limit before boundary n (link_head ls None) w =
    Ok (listed boundary (take limit ls) w, link_head (drop limit ls) None)"
proof (cases "limit \<le> length ls")
  case True
  then show ?thesis using walk_page [OF assms(1,2), of limit n before] assms(3-5) by simp
next
  case False
  then show ?thesis
    using walk_prefix [OF assms(1,2), of limit n before] assms(3,5)
    by (simp add: walk_loop.simps(1))
qed

lemma older_Some:
  "older boundary s r = Some q \<Longrightarrow> r \<noteq> None \<and> \<not> at_boundary boundary s r"
  by (cases r) (auto simp: older_def at_boundary_def Let_def split: if_splits)

lemma linked_inner_flags:
  assumes "linked L root scope boundary visited ls (Some u)"
  shows "\<not> list_ex (\<lambda>(s, m, r). r = None) ls" "\<not> list_ex (\<lambda>(s, m, r). at_boundary boundary s r) ls"
proof -
  have "r \<noteq> None \<and> \<not> at_boundary boundary s r" if "(s, m, r) \<in> set ls" for s m r
    using assms that
  proof (induction ls arbitrary: visited)
    case (Cons l ls)
    obtain s' m' r' where l: "l = (s', m', r')" by (cases l)
    obtain q where "link_head ls (Some u) = Some q" by (cases ls) simp_all
    then have "older boundary s' r' = Some q" using Cons.prems(1) by (simp add: l)
    then have "r' \<noteq> None \<and> \<not> at_boundary boundary s' r'" by (rule older_Some)
    moreover have "linked L root scope boundary (insert s' visited) ls (Some u)"
      using Cons.prems(1) by (simp add: l)
    ultimately show ?case using Cons.IH Cons.prems(2) l by auto
  qed simp
  then show "\<not> list_ex (\<lambda>(s, m, r). r = None) ls" "\<not> list_ex (\<lambda>(s, m, r). at_boundary boundary s r) ls"
    by (auto simp: list_ex_iff)
qed

text \<open>The specification of a page: the links after the cursor, the first \<open>limit\<close> of them.\<close>

definition page_start :: "string option \<Rightarrow> link list \<Rightarrow> link list option" where
  "page_start before ls =
     (case before of
        None \<Rightarrow> Some ls
      | Some b \<Rightarrow> if b \<in> fst ` set ls then Some (tl (dropWhile (\<lambda>l. fst l \<noteq> b) ls)) else None)"

definition page_of ::
  "master_scope \<Rightarrow> string option \<Rightarrow> nat \<Rightarrow> link list \<Rightarrow> link list \<Rightarrow> history" where
  "page_of scope boundary limit ls rest =
     \<lparr>hs_schema_version = 1, hs_scope = scope, hs_head = fst (hd ls),
      hs_entries = map link_entry (take limit rest), hs_has_more = (limit < length rest),
      hs_next_before = (if limit < length rest then Some (fst (rest ! (limit - 1))) else None),
      hs_legacy_boundary = (length rest \<le> limit \<and> list_ex (\<lambda>(s, m, r). r = None) ls),
      hs_retention_boundary = (length rest \<le> limit \<and> list_ex (\<lambda>(s, m, r). at_boundary boundary s r) ls)\<rparr>"

lemma page_flags:
  assumes "linked L root scope boundary {} (xs @ rest) None"
  shows "list_ex (\<lambda>(s, m, r). r = None) (xs @ take limit rest) \<longleftrightarrow>
      length rest \<le> limit \<and> list_ex (\<lambda>(s, m, r). r = None) (xs @ rest)"
    and "list_ex (\<lambda>(s, m, r). at_boundary boundary s r) (xs @ take limit rest) \<longleftrightarrow>
      length rest \<le> limit \<and> list_ex (\<lambda>(s, m, r). at_boundary boundary s r) (xs @ rest)"
proof -
  have "\<not> list_ex (\<lambda>(s, m, r). r = None) (xs @ take limit rest) \<and>
      \<not> list_ex (\<lambda>(s, m, r). at_boundary boundary s r) (xs @ take limit rest)" if more: "limit < length rest"
  proof -
    obtain l ls where "drop limit rest = l # ls" using more by (cases "drop limit rest") simp_all
    moreover have "linked L root scope boundary {} ((xs @ take limit rest) @ drop limit rest) None"
      using assms by (simp only: append_assoc append_take_drop_id)
    ultimately have "linked L root scope boundary {} (xs @ take limit rest) (Some (fst l))"
      by (simp only: linked_append [of _ _ _ _ _ "xs @ take limit rest"] link_head.simps)
    then show ?thesis using linked_inner_flags by blast
  qed
  then show "list_ex (\<lambda>(s, m, r). r = None) (xs @ take limit rest) \<longleftrightarrow>
      length rest \<le> limit \<and> list_ex (\<lambda>(s, m, r). r = None) (xs @ rest)"
    "list_ex (\<lambda>(s, m, r). at_boundary boundary s r) (xs @ take limit rest) \<longleftrightarrow>
      length rest \<le> limit \<and> list_ex (\<lambda>(s, m, r). at_boundary boundary s r) (xs @ rest)"
    by (cases "limit < length rest"; simp)+
qed

lemma split_at_cursor:
  assumes "b \<in> fst ` set ls"
  obtains xs m r rest where "ls = xs @ (b, m, r) # rest" "b \<notin> fst ` set xs"
    "tl (dropWhile (\<lambda>l. fst l \<noteq> b) ls) = rest"
proof -
  let ?xs = "takeWhile (\<lambda>l. fst l \<noteq> b) ls" and ?ys = "dropWhile (\<lambda>l. fst l \<noteq> b) ls"
  have "?ys \<noteq> []" using assms by (auto simp: dropWhile_eq_Nil_conv)
  then obtain y ys where y: "?ys = y # ys" by (cases ?ys) simp_all
  then have "fst y = b" using hd_dropWhile [of "\<lambda>l. fst l \<noteq> b" ls] by simp
  moreover have "ls = ?xs @ y # ys" using takeWhile_dropWhile_id [of "\<lambda>l. fst l \<noteq> b" ls] y by simp
  moreover have "b \<notin> fst ` set ?xs" by (auto dest: set_takeWhileD)
  ultimately show thesis using that [of ?xs "fst (snd y)" "snd (snd y)" ys] y by (metis list.sel(3) prod.collapse)
qed

lemma history_walk_page:
  assumes chain: "committed_chain L root scope boundary ls"
    and cursor: "\<forall>v \<in> set_option before. valid_history_cursor v" and limit: "1 \<le> limit"
    and rest: "page_start before ls = Some rest"
  shows "history_walk L root scope limit before boundary = Ok (page_of scope boundary limit ls rest)"
proof -
  let ?start = "\<lparr>wk_visited = {}, wk_cursor_found = (before = None), wk_entries = [], wk_legacy = False, wk_retained = False\<rparr>"
  have ls: "ls \<noteq> []" "length ls \<le> WALK_LIMIT" "predecessor L root = Ok (link_head ls None)"
    "linked L root scope boundary {} ls None" using chain by (simp_all add: committed_chain_def)
  have head: "link_head ls None = Some (fst (hd ls))" using ls(1) by (cases ls) simp_all
  have "\<exists>xs w. walk_loop L root scope limit before boundary WALK_LIMIT (link_head ls None) ?start =
      Ok (w, link_head (drop limit rest) None) \<and> wk_cursor_found w \<and> ls = xs @ rest \<and>
      wk_entries w = map link_entry (take limit rest) \<and>
      (wk_legacy w \<longleftrightarrow> list_ex (\<lambda>(s, m, r). r = None) (xs @ take limit rest)) \<and>
      (wk_retained w \<longleftrightarrow> list_ex (\<lambda>(s, m, r). at_boundary boundary s r) (xs @ take limit rest))"
  proof (cases before)
    case None
    then have "rest = ls" using rest by (simp add: page_start_def)
    then show ?thesis
      using walk_rest [of L root scope boundary ?start ls limit WALK_LIMIT before] ls None limit
      by (intro exI [of _ "[]"] exI [of _ "listed boundary (take limit rest) ?start"]) simp
  next
    case (Some b)
    then have "b \<in> fst ` set ls" using rest by (auto simp: page_start_def split: if_splits)
    then obtain xs m r rest' where split: "ls = xs @ (b, m, r) # rest'" "b \<notin> fst ` set xs"
      "tl (dropWhile (\<lambda>l. fst l \<noteq> b) ls) = rest'" by (rule split_at_cursor)
    have rest': "rest' = rest" using rest Some split(3) \<open>b \<in> fst ` set ls\<close> by (simp add: page_start_def)
    let ?xs = "xs @ [(b, m, r)]"
    let ?w = "(passed boundary ?xs ?start)\<lparr>wk_cursor_found := True\<rparr>"
    have joined: "ls = ?xs @ rest" using split(1) rest' by simp
    have "linked L root scope boundary {} (?xs @ rest) None" using ls(4) by (simp only: joined)
    then have both: "linked L root scope boundary {} ?xs (link_head rest None)"
      "linked L root scope boundary ({} \<union> fst ` set ?xs) rest None"
      by (simp_all only: linked_append [of _ _ _ _ _ ?xs])
    then have parts: "linked L root scope boundary (wk_visited ?start) ?xs (link_head rest None)"
      "linked L root scope boundary (wk_visited ?w) rest None" by simp_all
    have "walk_loop L root scope limit before boundary WALK_LIMIT (link_head ls None) ?start =
        walk_loop L root scope limit before boundary (WALK_LIMIT - Suc (length xs)) (link_head rest None) ?w"
      using walk_skip_to_cursor [OF parts(1) _ split(2), of WALK_LIMIT limit] ls(2) Some
      by (simp add: joined link_head_append)
    also have "\<dots> = Ok (listed boundary (take limit rest) ?w, link_head (drop limit rest) None)"
      by (rule walk_rest [OF parts(2)]) (use limit ls(2) joined in simp_all)
    finally show ?thesis
      by (intro exI [of _ ?xs] exI [of _ "listed boundary (take limit rest) ?w"]) (simp add: joined)
  qed
  then obtain xs w where walk: "walk_loop L root scope limit before boundary WALK_LIMIT (link_head ls None) ?start =
      Ok (w, link_head (drop limit rest) None)" "wk_cursor_found w" "ls = xs @ rest"
      "wk_entries w = map link_entry (take limit rest)"
      "wk_legacy w \<longleftrightarrow> list_ex (\<lambda>(s, m, r). r = None) (xs @ take limit rest)"
      "wk_retained w \<longleftrightarrow> list_ex (\<lambda>(s, m, r). at_boundary boundary s r) (xs @ take limit rest)" by blast
  have more: "link_head (drop limit rest) None \<noteq> None \<longleftrightarrow> limit < length rest"
    using drop_eq_Nil [of limit rest] by (cases "drop limit rest") auto
  have last: "last (map link_entry (take limit rest)) = link_entry (rest ! (limit - 1))" "take limit rest \<noteq> []"
    if "limit < length rest"
  proof -
    show ne: "take limit rest \<noteq> []" using that limit by auto
    then show "last (map link_entry (take limit rest)) = link_entry (rest ! (limit - 1))"
      using that by (simp add: last_map last_conv_nth)
  qed
  have flags: "wk_legacy w \<longleftrightarrow> length rest \<le> limit \<and> list_ex (\<lambda>(s, m, r). r = None) ls"
    "wk_retained w \<longleftrightarrow> length rest \<le> limit \<and> list_ex (\<lambda>(s, m, r). at_boundary boundary s r) ls"
    using walk(5,6) page_flags [OF ls(4) [unfolded walk(3)], of limit] walk(3) by (simp_all only:)
  have guard: "\<not> (\<exists>v \<in> set_option before. \<not> valid_history_cursor v)" using cursor by blast
  show ?thesis
    unfolding history_walk_def ls(3) then_result_simps head option.case walk(1) [unfolded head] if_not_P [OF guard]
      prod.case page_of_def flags walk(4)
    using walk(2) more last by (cases "limit < length rest") simp_all
qed

subsection \<open>Following the pages\<close>

text \<open>A client that asks for pages of \<open>limit\<close> entries and passes \<open>next_before\<close> back until
  \<open>has_more\<close> is false.\<close>

fun collect_pages ::
  "master_lib \<Rightarrow> disk \<Rightarrow> master_scope \<Rightarrow> nat \<Rightarrow> nat \<Rightarrow> string option \<Rightarrow> MasterError + history_entry list" where
  "collect_pages L root scope limit 0 before = Err MasterLimit"
| "collect_pages L root scope limit (Suc n) before =
     then_result (history_page L root scope limit before) (\<lambda>h.
       if hs_has_more h
       then then_result (collect_pages L root scope limit n (hs_next_before h)) (\<lambda>es. Ok (hs_entries h @ es))
       else Ok (hs_entries h))"

lemma linked_names:
  "linked L root scope boundary visited ls t \<Longrightarrow> l \<in> set ls \<Longrightarrow> snapshot_name (fst l)"
proof (induction ls arbitrary: visited)
  case (Cons l' ls)
  obtain s m r where l': "l' = (s, m, r)" by (cases l')
  have "snapshot_name s"
    using Cons.prems(1) by (auto simp: l' chain_step_def then_result_Ok_iff snapshot_directory_Ok_iff)
  moreover have "linked L root scope boundary (insert s visited) ls t" using Cons.prems(1) by (simp add: l')
  ultimately show ?case using Cons.IH Cons.prems(2) l' by auto
qed simp

lemma snapshot_name_cursor: "snapshot_name s \<Longrightarrow> valid_history_cursor s"
  by (simp add: snapshot_name_def valid_history_cursor_def safe_component_def)

lemma page_start_after:
  assumes "distinct (map fst (ys @ zs))" "ys \<noteq> []"
  shows "page_start (Some (fst (last ys))) (ys @ zs) = Some zs"
proof -
  obtain y us where ys: "ys = us @ [y]" using assms(2) by (metis append_butlast_last_id)
  have "fst y \<notin> fst ` set us" using assms(1) by (auto simp: ys)
  then have "\<forall>l \<in> set us. fst l \<noteq> fst y" by (metis image_eqI)
  then have "dropWhile (\<lambda>l. fst l \<noteq> fst y) (us @ y # zs) = y # zs" by (subst dropWhile_append2) auto
  then show ?thesis by (simp add: page_start_def ys)
qed

lemma collect_from:
  assumes chain: "committed_chain L root scope boundary ls" and b: "retention_boundary L root = Ok boundary"
    and limit: "1 \<le> limit" "limit \<le> 100"
  shows "ls = xs @ rest \<Longrightarrow> before = (if xs = [] then None else Some (fst (last xs))) \<Longrightarrow> length rest < n \<Longrightarrow>
    collect_pages L root scope limit n before = Ok (map link_entry rest)"
proof (induction n arbitrary: xs rest before)
  case (Suc n)
  have linked: "linked L root scope boundary {} ls None" using chain by (simp add: committed_chain_def)
  then have distinct: "distinct (map fst ls)" using linked_distinct by blast
  have start: "page_start before ls = Some rest"
    using Suc.prems(1,2) page_start_after [of xs rest] distinct
    by (cases "xs = []") (simp_all add: page_start_def)
  have cursor: "\<forall>v \<in> set_option before. valid_history_cursor v"
    using Suc.prems(1,2) linked_names [OF linked] snapshot_name_cursor by (auto split: if_splits)
  have page: "history_page L root scope limit before = Ok (page_of scope boundary limit ls rest)"
    using history_walk_page [OF chain cursor limit(1) start] limit b
    by (simp add: history_page_def history_page_inner_def)
  show ?case
  proof (cases "limit < length rest")
    case True
    let ?xs = "xs @ take limit rest"
    have ne: "take limit rest \<noteq> []" using True limit(1) by auto
    have "last ?xs = last (take limit rest)" using ne by (simp only: last_append if_False)
    then have "fst (last ?xs) = fst (rest ! (limit - 1))" using ne True by (simp add: last_conv_nth)
    then have "collect_pages L root scope limit n (Some (fst (rest ! (limit - 1)))) =
        Ok (map link_entry (drop limit rest))"
      by (intro Suc.IH [of ?xs]) (use Suc.prems True limit(1) ne in simp_all)
    then show ?thesis
      using True by (simp add: page page_of_def) (metis append_take_drop_id map_append)
  next
    case False
    then show ?thesis by (simp add: page page_of_def)
  qed
qed simp

text \<open>C27: paging enumerates the committed history.  When the pointer leads to a chain of at most
  10,000 readable snapshots, ending at the retention boundary, at a snapshot without record or at the
  first publication, a client that follows \<open>next_before\<close> with any page size from 1 to 100 gets every
  snapshot of the chain exactly once, newest first, and stops.\<close>

theorem pages_enumerate_the_history:
  assumes "committed_chain L root scope boundary ls" and "retention_boundary L root = Ok boundary"
    and "1 \<le> limit" "limit \<le> 100" and "length ls < n"
  shows "collect_pages L root scope limit n None = Ok (map link_entry ls) \<and> distinct (map fst ls)"
proof -
  have "distinct (map fst ls)" using assms(1) linked_distinct by (auto simp: committed_chain_def)
  then show ?thesis
    using collect_from [OF assms(1-4), of "[]" ls None n] assms(5) by simp
qed

subsection \<open>Chains on changed disks\<close>

lemma chain_step_cong:
  "root' s = root s \<Longrightarrow> chain_step L root' scope s visited = chain_step L root scope s visited"
proof -
  assume "root' s = root s"
  then have "snapshot_directory root' s = snapshot_directory root s" by (simp add: snapshot_directory_def)
  then show ?thesis by (simp only: chain_step_def registry_manifest_def option.case then_result_simps)
qed

lemma linked_cong:
  "\<forall>l \<in> set ls. root' (fst l) = root (fst l) \<Longrightarrow>
     linked L root' scope boundary visited ls t = linked L root scope boundary visited ls t"
proof (induction ls arbitrary: visited)
  case (Cons l ls)
  obtain s m r where l: "l = (s, m, r)" by (cases l)
  have "chain_step L root' scope s v = chain_step L root scope s v" for v
    by (rule chain_step_cong) (use Cons.prems l in simp)
  then show ?case using Cons by (simp add: l)
qed simp

lemma linked_new_boundary:
  "linked L root scope boundary visited (xs @ [(b, m, r)]) t \<Longrightarrow>
     linked L root scope (Some b) visited (xs @ [(b, m, r)]) None"
proof (induction xs arbitrary: visited)
  case Nil
  then show ?case by (auto simp: older_def Let_def)
next
  case (Cons x xs)
  obtain s m' r' where x: "x = (s, m', r')" by (cases x)
  have tail: "linked L root scope boundary (insert s visited) (xs @ [(b, m, r)]) t"
    using Cons.prems by (simp add: x)
  then have "b \<noteq> s" using linked_distinct by fastforce
  obtain q where q: "link_head (xs @ [(b, m, r)]) u = Some q" for u by (cases xs) simp_all
  then have "older boundary s r' = Some q" using Cons.prems by (simp add: x)
  then have "older (Some b) s r' = Some q"
    using \<open>b \<noteq> s\<close> by (auto simp: older_def Let_def split: if_splits)
  then show ?case using Cons.prems Cons.IH [OF tail] q by (simp add: x)
qed

lemma committed_chain_cong:
  assumes "committed_chain L root scope boundary ls" "root' ''CURRENT'' = root ''CURRENT''"
    "\<forall>l \<in> set ls. root' (fst l) = root (fst l)"
  shows "committed_chain L root' scope boundary ls"
proof -
  have ls: "ls \<noteq> []" "predecessor L root = Ok (link_head ls None)" using assms(1) by (simp_all add: committed_chain_def)
  have "predecessor L root' = Ok (link_head ls None)"
    by (rule predecessor_cong [where root' = root', OF ls(2) assms(2)]) (use ls(1) assms(3) in \<open>cases ls; simp\<close>)
  then show ?thesis using assms(1) linked_cong [OF assms(3)] by (simp add: committed_chain_def)
qed

lemma committed_chain_shorten:
  assumes "committed_chain L root scope boundary ls" "0 < k" "k \<le> length ls"
  shows "committed_chain L root scope (Some (fst (ls ! (k - 1)))) (take k ls)"
proof -
  have ls: "length ls \<le> WALK_LIMIT" "predecessor L root = Ok (link_head ls None)"
    "linked L root scope boundary {} ls None" using assms(1) by (simp_all add: committed_chain_def)
  obtain b m r where l: "ls ! (k - 1) = (b, m, r)" by (cases "ls ! (k - 1)")
  have take: "take k ls = take (k - 1) ls @ [(b, m, r)]"
    using assms(2,3) l take_Suc_conv_app_nth [of "k - 1" ls] by simp
  have "linked L root scope boundary {} (take k ls @ drop k ls) None" using ls(3) by simp
  then have "linked L root scope boundary {} (take k ls) (link_head (drop k ls) None)"
    by (simp only: linked_append [of _ _ _ _ _ "take k ls"])
  then have "linked L root scope (Some b) {} (take k ls) None"
    unfolding take by (rule linked_new_boundary)
  moreover have "link_head (take k ls) None = link_head ls None"
    using assms(2,3) by (cases ls; cases k) simp_all
  ultimately show ?thesis using assms(2,3) ls(1,2) l by (auto simp: committed_chain_def)
qed

subsection \<open>Interrupted retention passes\<close>

fun touched :: "disk_step \<Rightarrow> string set" where
  "touched (WriteIn dir name bs) = {dir}"
| "touched (WriteTop name bs) = {name}"
| "touched (Rename a b) = {a, b}"
| "touched (RemoveDir name) = {name}"

lemma apply_step_untouched: "n \<notin> touched s \<Longrightarrow> apply_step s root n = root n"
  by (cases s) (auto simp: apply_step.simps split: option.split node.split)

lemma crash_untouched: "crash root steps root' \<Longrightarrow> n \<notin> \<Union> (touched ` set steps) \<Longrightarrow> root' n = root n"
  by (induction rule: crash.induct) (simp_all add: apply_step_untouched)

lemma crash_append:
  "crash root (xs @ ys) root' \<Longrightarrow> crash root xs root' \<or> crash (fold apply_step xs root) ys root'"
proof (induction xs arbitrary: root)
  case (Cons x xs)
  from Cons.prems have "crash root (x # (xs @ ys)) root'" by simp
  then show ?case
  proof (cases rule: crash.cases)
    case crash_later
    then show ?thesis using Cons.IH by (auto intro: crash.intros)
  qed (auto intro: crash.intros)
qed simp

lemma prune_window_chain:
  assumes "linked L root scope old visited ls None"
    "prune_window L root old n (link_head ls None) visited = Ok (Some (b, next, visited'))"
  shows "\<exists>k. 0 < k \<and> k \<le> length ls \<and> b = fst (ls ! (k - 1)) \<and> visited' = visited \<union> fst ` set (take k ls) \<and>
    (k = n \<or> old = Some b) \<and> (old = Some b \<longrightarrow> k = length ls)"
  using assms
proof (induction ls arbitrary: n visited)
  case (Cons l ls)
  obtain s m r where l: "l = (s, m, r)" by (cases l)
  obtain n' where n: "n = Suc n'" using Cons.prems(2) by (cases n) simp_all
  obtain d where d: "snapshot_directory root s = Ok d" "read_publication L d s (insert s visited) = Ok r"
    using Cons.prems(1) by (auto simp: l chain_step_def then_result_Ok_iff split: if_splits)
  have fresh: "s \<notin> visited" using Cons.prems(1) by (simp add: l)
  obtain rec where r: "r = Some rec" using Cons.prems(2) d fresh by (cases r) (simp_all add: l n)
  show ?case
  proof (cases "n' = 0 \<or> old = Some s")
    case True
    then have res: "b = s" "visited' = insert s visited" using Cons.prems(2) d fresh by (auto simp: l n r)
    have "ls = []" if "old = Some s"
    proof -
      have "older old s r = None" using that by (simp add: older_def Let_def)
      then show ?thesis using Cons.prems(1) by (cases ls) (auto simp: l)
    qed
    then show ?thesis using res True n by (intro exI [of _ 1]) (auto simp: l)
  next
    case False
    then have rest: "prune_window L root old n' (pb_previous_snapshot rec) (insert s visited) = Ok (Some (b, next, visited'))"
      using Cons.prems(2) d fresh by (simp add: l n r)
    have "older old s r = link_head ls None" using Cons.prems(1) by (simp add: l)
    then have "pb_previous_snapshot rec = link_head ls None"
      using False by (auto simp: older_def Let_def r split: if_splits)
    then obtain k where k: "0 < k" "k \<le> length ls" "b = fst (ls ! (k - 1))"
        "visited' = insert s visited \<union> fst ` set (take k ls)" "k = n' \<or> old = Some b" "old = Some b \<longrightarrow> k = length ls"
      using Cons.IH [of "insert s visited" n'] rest Cons.prems(1) unfolding l linked.simps by metis
    have nth: "(l # ls) ! (Suc k - 1) = ls ! (k - 1)" using k(1) by (cases k) simp_all
    show ?thesis
    proof (intro exI [of _ "Suc k"] conjI impI)
      show "0 < Suc k" "Suc k \<le> length (l # ls)" using k(2) by simp_all
      show "b = fst ((l # ls) ! (Suc k - 1))" using k(3) by (simp only: nth)
      show "visited' = visited \<union> fst ` set (take (Suc k) (l # ls))" using k(4) by (simp add: l)
      show "Suc k = n \<or> old = Some b" using k(5) n by blast
      show "Suc k = length (l # ls)" if "old = Some b" using k(6) that by simp
    qed
  qed
qed simp

lemma prune_candidates_fresh:
  "prune_candidates L root n next visited = Ok cs \<Longrightarrow> set cs \<inter> visited = {} \<and> (\<forall>c \<in> set cs. snapshot_name c)"
proof (induction L root n "next" visited arbitrary: cs rule: prune_candidates.induct)
  case (3 L root n snapshot visited)
  have new: "snapshot \<notin> visited" using "3.prems" by (auto split: if_splits)
  show ?case
  proof (cases "snapshot_directory root snapshot")
    case (Inl e)
    then show ?thesis using "3.prems" new by (auto split: if_splits)
  next
    case (Inr d)
    then have name: "snapshot_name snapshot" by (simp add: snapshot_directory_Ok_iff)
    obtain p where p: "read_publication L d snapshot (insert snapshot visited) = Ok p"
      using "3.prems" new Inr by (auto simp: then_result_Ok_iff Let_def)
    show ?thesis
    proof (cases p)
      case None
      then show ?thesis using "3.prems" new Inr p by (simp add: Let_def)
    next
      case (Some pub)
      then obtain rest where "prune_candidates L root n (pb_previous_snapshot pub) (insert snapshot visited) = Ok rest"
          "cs = snapshot # rest"
        using "3.prems" new Inr p by (auto simp: then_result_Ok_iff Let_def)
      then show ?thesis using "3.IH" [OF new refl Inr] Some new name p by auto
    qed
  qed
qed simp_all

lemma prune_within_chain:
  assumes chain: "committed_chain L root scope old ls" and old: "retention_boundary L root = Ok old"
    and prune: "prune_within L root keep budget tmp trash = Ok (steps, pruned)" and ne: "steps \<noteq> []"
  obtains k doomed where "0 < k" "k \<le> length ls" "k = keep \<or> old = Some (fst (ls ! (k - 1)))"
    "old = Some (fst (ls ! (k - 1))) \<longrightarrow> k = length ls"
    "set doomed \<inter> fst ` set (take k ls) = {}" "\<forall>c \<in> set doomed. snapshot_name c"
    "steps = (if old \<noteq> Some (fst (ls ! (k - 1))) then write_retention L tmp (fst (ls ! (k - 1))) else []) @
       concat (map (remove_steps trash) doomed)" "pruned = length doomed" "length doomed \<le> budget"
proof -
  have ls: "ls \<noteq> []" "predecessor L root = Ok (link_head ls None)" "linked L root scope old {} ls None"
    using chain by (simp_all add: committed_chain_def)
  obtain head where head: "link_head ls None = Some head" using ls(1) by (cases ls) simp_all
  obtain found where found: "prune_window L root old keep (Some head) {} = Ok found"
    using prune by (auto simp: prune_within_def ls(2) head old then_result_Ok_iff split: if_splits)
  with prune ne obtain boundary "next" visited where window': "found = Some (boundary, next, visited)"
    by (cases found) (auto simp: prune_within_def ls(2) head old split: if_splits)
  with found have window: "prune_window L root old keep (Some head) {} = Ok (Some (boundary, next, visited))" by simp
  obtain candidates where cands: "prune_candidates L root 10000 next visited = Ok candidates"
    using prune by (auto simp: prune_within_def ls(2) head old window then_result_Ok_iff split: if_splits)
  have steps: "steps = (if old \<noteq> Some boundary then write_retention L tmp boundary else []) @
        concat (map (remove_steps trash) (take budget (rev candidates)))"
      "pruned = length (take budget (rev candidates))"
    using prune ne by (auto simp: prune_within_def ls(2) head old window cands Let_def split: if_splits)
  obtain k where k: "0 < k" "k \<le> length ls" "boundary = fst (ls ! (k - 1))" "visited = fst ` set (take k ls)"
      "k = keep \<or> old = Some boundary" "old = Some boundary \<longrightarrow> k = length ls"
    using prune_window_chain [OF ls(3) window [folded head]] unfolding Un_empty_left by blast
  let ?doomed = "take budget (rev candidates)"
  have "set ?doomed \<subseteq> set candidates" by (metis set_rev set_take_subset)
  then have doomed: "set ?doomed \<inter> fst ` set (take k ls) = {}" "\<forall>c \<in> set ?doomed. snapshot_name c"
    using prune_candidates_fresh [OF cands] k(4) by blast+
  show thesis
    by (rule that [OF k(1,2) k(5) [unfolded k(3)] k(6) [unfolded k(3)] doomed steps(1) [unfolded k(3)] steps(2)]) simp
qed

lemma removal_touched:
  "\<Union> (touched ` set (concat (map (remove_steps trash) doomed))) \<subseteq> set doomed \<union> trash ` set doomed"
  by (auto simp: remove_steps_def)

lemma write_retention_crash:
  assumes "crash root (write_retention L tmp b) root'" "tmp \<noteq> ''retention.json''"
  shows "root' ''retention.json'' = root ''retention.json'' \<or>
    root' ''retention.json'' = Some (Top (Plain (ml_ser_retention L \<lparr>rr_schema_version = 1, rr_boundary = b\<rparr>)))"
  using assms unfolding write_retention_def
  by (elim crash_ConsE crash_NilE) (auto simp: apply_step.simps)

definition retention_written :: "master_lib \<Rightarrow> string \<Rightarrow> bool" where
  "retention_written L b \<longleftrightarrow>
     (let r = \<lparr>rr_schema_version = 1, rr_boundary = b\<rparr>
      in ml_de_retention L (ml_ser_retention L r) = Some r \<and> length (ml_ser_retention L r) \<le> 4096)"

lemma retention_boundary_written:
  assumes "root ''retention.json'' = Some (Top (Plain (ml_ser_retention L \<lparr>rr_schema_version = 1, rr_boundary = b\<rparr>)))"
    "retention_written L b" "snapshot_name b"
  shows "retention_boundary L root = Ok (Some b)"
  using assms by (simp add: retention_boundary_def within_limit_def retention_written_def Let_def)

text \<open>The names a retention pass creates are not names that a reader looks at.\<close>

definition scratch_names :: "string \<Rightarrow> (string \<Rightarrow> string) \<Rightarrow> bool" where
  "scratch_names tmp trash \<longleftrightarrow> \<not> snapshot_name tmp \<and> tmp \<notin> {''CURRENT'', ''retention.json''} \<and>
     (\<forall>s. \<not> snapshot_name (trash s) \<and> trash s \<notin> {''CURRENT'', ''retention.json''})"

lemma retention_not_snapshot: "\<not> snapshot_name ''retention.json''"
  by (simp add: snapshot_name_def starts_with_def)

lemma removal_keeps:
  assumes "crash root (concat (map (remove_steps trash) doomed)) root'" "scratch_names tmp trash"
    "\<forall>c \<in> set doomed. snapshot_name c"
  shows "root' ''CURRENT'' = root ''CURRENT''" "root' ''retention.json'' = root ''retention.json''"
    "snapshot_name n \<Longrightarrow> n \<notin> set doomed \<Longrightarrow> root' n = root n"
proof -
  have keep: "root' n = root n" if "n \<notin> set doomed \<union> trash ` set doomed" for n
    using crash_untouched [OF assms(1)] that removal_touched [of trash doomed] by blast
  show "root' ''CURRENT'' = root ''CURRENT''" "root' ''retention.json'' = root ''retention.json''"
    using assms(2,3) CURRENT_not_snapshot retention_not_snapshot
    by (intro keep; force simp: scratch_names_def)+
  show "root' n = root n" if "snapshot_name n" "n \<notin> set doomed"
    using assms(2) that by (intro keep) (auto simp: scratch_names_def)
qed

lemma write_retention_keeps:
  assumes "crash root (write_retention L tmp b) root'" "scratch_names tmp trash"
  shows "root' ''CURRENT'' = root ''CURRENT''" "snapshot_name n \<Longrightarrow> root' n = root n"
proof -
  have keep: "root' n = root n" if "n \<notin> {tmp, ''retention.json''}" for n
    using crash_untouched [OF assms(1)] that by (auto simp: write_retention_def)
  show "root' ''CURRENT'' = root ''CURRENT''" by (rule keep) (use assms(2) in \<open>auto simp: scratch_names_def\<close>)
  show "root' n = root n" if "snapshot_name n"
    by (rule keep) (use assms(2) that retention_not_snapshot in \<open>auto simp: scratch_names_def\<close>)
qed

lemma write_retention_done:
  "tmp \<noteq> ''retention.json'' \<Longrightarrow> fold apply_step (write_retention L tmp b) root ''retention.json'' =
     Some (Top (Plain (ml_ser_retention L \<lparr>rr_schema_version = 1, rr_boundary = b\<rparr>)))"
  by (simp add: write_retention_def apply_step.simps)

lemma crash_all: "crash root steps (fold apply_step steps root)"
  by (induction steps arbitrary: root) (auto intro: crash.intros)

lemma chain_names: "committed_chain L root scope boundary ls \<Longrightarrow> l \<in> set ls \<Longrightarrow> snapshot_name (fst l)"
proof -
  assume "committed_chain L root scope boundary ls" "l \<in> set ls"
  then have "linked L root scope boundary {} ls None" by (simp add: committed_chain_def)
  then show "snapshot_name (fst l)" using \<open>l \<in> set ls\<close> by (rule linked_names)
qed

lemma retention_crash:
  assumes chain: "committed_chain L root scope old ls" and old: "retention_boundary L root = Ok old"
    and k: "0 < k" "k \<le> length ls" and b: "b = fst (ls ! (k - 1))"
    and doomed: "set doomed \<inter> fst ` set (take k ls) = {}" "\<forall>c \<in> set doomed. snapshot_name c"
    and crash: "crash root (write_retention L tmp b @ concat (map (remove_steps trash) doomed)) root'"
    and names: "scratch_names tmp trash" and written: "retention_written L b"
  shows "retention_boundary L root' = Ok old \<and> committed_chain L root' scope old ls \<or>
    retention_boundary L root' = Ok (Some b) \<and> committed_chain L root' scope (Some b) (take k ls)"
proof -
  have tmp: "tmp \<noteq> ''retention.json''" using names by (simp add: scratch_names_def)
  have bname: "snapshot_name b" using chain_names [OF chain] k b by simp
  have short: "committed_chain L root scope (Some b) (take k ls)"
    unfolding b by (rule committed_chain_shorten [OF chain k])
  from crash_append [OF crash] show ?thesis
  proof
    assume first: "crash root (write_retention L tmp b) root'"
    note keep = write_retention_keeps [OF first names]
    have "\<forall>l \<in> set ls. root' (fst l) = root (fst l)" using chain_names [OF chain] keep(2) by blast
    then have both: "committed_chain L root' scope old ls" "committed_chain L root' scope (Some b) (take k ls)"
      using committed_chain_cong [where root' = root', OF chain keep(1)]
        committed_chain_cong [where root' = root', OF short keep(1)]
      by (auto dest: in_set_takeD)
    from write_retention_crash [OF first tmp] show ?thesis
    proof
      assume "root' ''retention.json'' = root ''retention.json''"
      then show ?thesis using both(1) old by (simp add: retention_boundary_def)
    next
      assume "root' ''retention.json'' = Some (Top (Plain (ml_ser_retention L \<lparr>rr_schema_version = 1, rr_boundary = b\<rparr>)))"
      then show ?thesis using both(2) retention_boundary_written written bname by blast
    qed
  next
    let ?r1 = "fold apply_step (write_retention L tmp b) root"
    assume second: "crash ?r1 (concat (map (remove_steps trash) doomed)) root'"
    note keep1 = write_retention_keeps [OF crash_all names]
    note keep2 = removal_keeps [OF second names doomed(2)]
    have "\<forall>l \<in> set (take k ls). root' (fst l) = root (fst l)"
    proof
      fix l assume l: "l \<in> set (take k ls)"
      then have "snapshot_name (fst l)" by (intro chain_names [OF chain]) (rule in_set_takeD)
      moreover have "fst l \<notin> set doomed" using l doomed(1) by blast
      ultimately show "root' (fst l) = root (fst l)" using keep1(2) keep2(3) by metis
    qed
    then have "committed_chain L root' scope (Some b) (take k ls)"
      using committed_chain_cong [where root' = root', OF short] keep1(1) keep2(1) by simp
    moreover have "retention_boundary L root' = Ok (Some b)"
      by (rule retention_boundary_written [OF _ written bname])
        (simp only: keep2(2) write_retention_done [OF tmp])
    ultimately show ?thesis by blast
  qed
qed

text \<open>C25: retention keeps the newest snapshots at every moment.  While a retention pass removes the
  oldest snapshots of a committed chain, and wherever it is interrupted, the store has a committed
  chain that its recorded boundary describes: the whole chain as before, or, once the new boundary
  is durable, exactly its newest \<open>keep\<close> snapshots.  So history reads never meet a snapshot that the
  pass removed, and \<open>CURRENT\<close> and the snapshot it replaced always stay.\<close>

theorem retention_keeps_the_newest:
  assumes "committed_chain L root scope old ls" and "retention_boundary L root = Ok old"
    and "prune_within L root keep budget tmp trash = Ok (steps, pruned)"
    and "crash root steps root'"
    and "scratch_names tmp trash" and "\<forall>l \<in> set ls. retention_written L (fst l)"
  shows "\<exists>b ls'. retention_boundary L root' = Ok b \<and> committed_chain L root' scope b ls' \<and>
    (b = old \<and> ls' = ls \<or>
     2 \<le> keep \<and> keep \<le> length ls \<and> b = Some (fst (ls ! (keep - 1))) \<and> ls' = take keep ls)"
proof (cases "steps = []")
  case True
  then have "root' = root" using assms(4) by (auto elim: crash_NilE)
  then show ?thesis using assms(1,2) by blast
next
  case False
  have keep: "2 \<le> keep" using assms(3) by (auto simp: prune_within_def retention_valid_def split: if_splits)
  from assms(1-3) False obtain k doomed where k: "0 < k" "k \<le> length ls" "k = keep \<or> old = Some (fst (ls ! (k - 1)))"
      "old = Some (fst (ls ! (k - 1))) \<longrightarrow> k = length ls"
    and doomed: "set doomed \<inter> fst ` set (take k ls) = {}" "\<forall>c \<in> set doomed. snapshot_name c"
    and steps: "steps = (if old \<noteq> Some (fst (ls ! (k - 1))) then write_retention L tmp (fst (ls ! (k - 1))) else []) @
       concat (map (remove_steps trash) doomed)"
    by (rule prune_within_chain)
  show ?thesis
  proof (cases "old = Some (fst (ls ! (k - 1)))")
    case True
    then have all: "take k ls = ls" using k(4) by simp
    note keep' = removal_keeps [OF _ assms(5) doomed(2), of root root']
    have crash: "crash root (concat (map (remove_steps trash) doomed)) root'" using assms(4) True by (simp add: steps)
    have "\<forall>l \<in> set ls. root' (fst l) = root (fst l)"
    proof
      fix l assume l: "l \<in> set ls"
      then have "fst l \<notin> set doomed" using doomed(1) unfolding all by blast
      then show "root' (fst l) = root (fst l)" by (rule keep'(3) [OF crash chain_names [OF assms(1) l]])
    qed
    then have "committed_chain L root' scope old ls"
      using committed_chain_cong [where root' = root', OF assms(1) keep'(1) [OF crash]] by blast
    moreover have "retention_boundary L root' = Ok old"
      using assms(2) keep'(2) [OF crash] by (simp add: retention_boundary_def)
    ultimately show ?thesis by blast
  next
    case False
    then have "k = keep" using k(3) by simp
    moreover have "crash root (write_retention L tmp (fst (ls ! (k - 1))) @ concat (map (remove_steps trash) doomed)) root'"
      using assms(4) False by (simp add: steps)
    moreover have "retention_written L (fst (ls ! (k - 1)))" using assms(6) k(1,2) by simp
    ultimately show ?thesis
      using retention_crash [OF assms(1,2) k(1,2) refl doomed _ assms(5)] keep k(2) by blast
  qed
qed

subsection \<open>Lookup by content hash\<close>

lemma by_hash_chain:
  assumes "linked L root scope boundary visited ls None" "length ls \<le> n"
  shows "case find (\<lambda>l. pm_content_sha256 (fst (snd l)) = hash) ls of
      None \<Rightarrow> by_hash_loop L root scope hash boundary n (link_head ls None) visited = Err MasterNotFound
    | Some l \<Rightarrow> \<exists>doc. by_hash_loop L root scope hash boundary n (link_head ls None) visited = Ok doc \<and>
        registry_manifest L root (Some (fst l)) scope = Ok doc \<and> ml_de_published L (rd_bytes doc) = Some (fst (snd l))"
  using assms
proof (induction ls arbitrary: visited n)
  case (Cons l ls)
  obtain s m r where l: "l = (s, m, r)" by (cases l)
  obtain n' where n: "n = Suc n'" using Cons.prems(2) by (cases n) simp_all
  obtain doc where doc: "chain_step L root scope s (insert s visited) = Ok (doc, r)"
      "ml_de_published L (rd_bytes doc) = Some m" "s \<notin> visited" "older boundary s r = link_head ls None"
    and tail: "linked L root scope boundary (insert s visited) ls None"
    using Cons.prems(1) by (auto simp: l)
  have served: "registry_manifest L root (Some s) scope = Ok doc"
    using doc(1) by (auto simp: chain_step_def then_result_Ok_iff split: if_splits)
  note IH = Cons.IH [OF tail, of n']
  show ?case
  proof (cases "pm_content_sha256 m = hash")
    case True
    then show ?thesis using doc served by (simp add: l n)
  next
    case False
    have "(if boundary = Some s then Err MasterNotFound
        else by_hash_loop L root scope hash boundary n' (Option.bind r pb_previous_snapshot) (insert s visited)) =
      by_hash_loop L root scope hash boundary n' (link_head ls None) (insert s visited)"
    proof (cases "boundary = Some s")
      case True
      then have "link_head ls None = None" using doc(4) by (simp add: older_def Let_def split: if_splits)
      then show ?thesis using True by simp
    next
      case False
      then show ?thesis using doc(4) by (simp add: older_def Let_def split: if_splits)
    qed
    then have loop: "by_hash_loop L root scope hash boundary n (link_head (l # ls) None) visited =
        by_hash_loop L root scope hash boundary n' (link_head ls None) (insert s visited)"
      using doc False by (simp add: l n)
    have found: "find (\<lambda>l. pm_content_sha256 (fst (snd l)) = hash) (l # ls) =
        find (\<lambda>l. pm_content_sha256 (fst (snd l)) = hash) ls" using False by (simp add: l)
    show ?thesis unfolding loop found by (rule IH) (use Cons.prems(2) n in simp)
  qed
qed simp

text \<open>A lookup by content hash finds the newest installation.  Over a committed chain
  \<open>manifest_by_hash\<close> returns the manifest of the newest snapshot with that content hash, and
  \<open>NotFound\<close> when no snapshot down to the retention boundary has it.\<close>

theorem lookup_by_hash_finds_the_newest:
  assumes "committed_chain L root scope boundary ls" and "retention_boundary L root = Ok boundary"
    and "hash_valid hash"
  shows "case find (\<lambda>l. pm_content_sha256 (fst (snd l)) = hash) ls of
      None \<Rightarrow> manifest_by_hash L root scope hash = Err MasterNotFound
    | Some l \<Rightarrow> \<exists>doc. manifest_by_hash L root scope hash = Ok doc \<and>
        registry_manifest L root (Some (fst l)) scope = Ok doc \<and> ml_de_published L (rd_bytes doc) = Some (fst (snd l))"
proof -
  have ls: "length ls \<le> WALK_LIMIT" "predecessor L root = Ok (link_head ls None)"
    "linked L root scope boundary {} ls None" using assms(1) by (simp_all add: committed_chain_def)
  have loop: "manifest_by_hash L root scope hash = by_hash_loop L root scope hash boundary WALK_LIMIT (link_head ls None) {}"
    using assms(2,3) ls(2) by (simp add: manifest_by_hash_def)
  show ?thesis unfolding loop by (rule by_hash_chain [OF ls(3,1)])
qed

subsection \<open>Readers overtaken by a retention pass\<close>

lemma missing_step: "root s = None \<Longrightarrow> chain_step L root scope s visited = Err MasterNotFound"
  by (simp add: chain_step_def snapshot_directory_def)

lemma cut_entries:
  assumes "distinct (map fst ls)" "0 < k" "k \<le> length ls" "b = fst (ls ! (k - 1))"
  shows "takeWhile (\<lambda>e. he_snapshot e \<noteq> b) (map link_entry ls) @
      take 1 (dropWhile (\<lambda>e. he_snapshot e \<noteq> b) (map link_entry ls)) = map link_entry (take k ls)"
    and "list_ex (\<lambda>e. he_snapshot e = b) (map link_entry ls)"
proof -
  let ?xs = "take (k - 1) ls" and ?y = "ls ! (k - 1)"
  have split: "ls = ?xs @ ?y # drop k ls" using id_take_nth_drop [of "k - 1" ls] assms(2,3) by simp
  have take: "take k ls = ?xs @ [?y]" using assms(2,3) take_Suc_conv_app_nth [of "k - 1" ls] by simp
  have "distinct (map fst (?xs @ ?y # drop k ls))" using assms(1) by (simp only: split [symmetric])
  then have miss: "b \<notin> fst ` set ?xs" using assms(4) by simp
  then have "\<forall>e \<in> set (map link_entry ?xs). he_snapshot e \<noteq> b" by auto
  then have tw: "takeWhile (\<lambda>e. he_snapshot e \<noteq> b) (map link_entry ?xs @ link_entry ?y # map link_entry (drop k ls)) =
        map link_entry ?xs"
      "dropWhile (\<lambda>e. he_snapshot e \<noteq> b) (map link_entry ?xs @ link_entry ?y # map link_entry (drop k ls)) =
        link_entry ?y # map link_entry (drop k ls)"
    using assms(4) by (simp_all add: takeWhile_append2 dropWhile_append2 del: set_map)
  have maps: "map link_entry ls = map link_entry ?xs @ link_entry ?y # map link_entry (drop k ls)"
    by (subst split) simp
  show "takeWhile (\<lambda>e. he_snapshot e \<noteq> b) (map link_entry ls) @
      take 1 (dropWhile (\<lambda>e. he_snapshot e \<noteq> b) (map link_entry ls)) = map link_entry (take k ls)"
    unfolding maps tw take by simp
  show "list_ex (\<lambda>e. he_snapshot e = b) (map link_entry ls)"
    unfolding maps using assms(4) by simp
qed

lemma list_ex_take: "list_ex P (take n xs) \<Longrightarrow> list_ex P xs"
  by (auto simp: list_ex_iff dest: in_set_takeD)

lemma distinct_gone: "distinct (map f xs) \<Longrightarrow> j < length xs \<Longrightarrow> f (xs ! j) \<notin> f ` set (take j xs)"
  by (auto simp: distinct_conv_nth in_set_conv_nth)

lemma walk_crossed:
  assumes "root s = None" "s \<notin> wk_visited w" "retention_boundary L root = Ok (Some b)" "b \<noteq> s" "b \<in> wk_visited w"
  shows "walk_loop L root scope limit before boundary (Suc n) (Some s) w =
    truncate_at before b (w\<lparr>wk_visited := insert s (wk_visited w)\<rparr>)"
  using assms by (simp add: missing_step crossed_boundary_def Let_def)

text \<open>A reader overtaken by retention still gets a page.  Suppose a reader has read the boundary and a
  retention pass then moves it to the \<open>k\<close>-th snapshot and removes snapshots from the \<open>j\<close>-th on, oldest
  first.  The reader's walk with the outdated boundary returns a full page while it stays among the snapshots
  that still exist, and otherwise exactly the newest \<open>k\<close> snapshots, marked as ending at the
  retention boundary; it does not fail.\<close>

theorem overtaken_readers_get_a_page:
  assumes "committed_chain L root scope old ls" and "root' ''CURRENT'' = root ''CURRENT''"
    and "\<forall>l \<in> set (take j ls). root' (fst l) = root (fst l)" and "j < length ls" "root' (fst (ls ! j)) = None"
    and "0 < k" "k \<le> j" and "retention_boundary L root' = Ok (Some (fst (ls ! (k - 1))))" and "1 \<le> limit"
  shows "\<exists>h. history_walk L root' scope limit None old = Ok h \<and>
    hs_entries h = map link_entry (if limit \<le> j then take limit ls else take k ls) \<and>
    hs_has_more h = (limit \<le> j) \<and> hs_retention_boundary h = (j < limit)"
proof -
  let ?start = "\<lparr>wk_visited = {}, wk_cursor_found = True, wk_entries = [], wk_legacy = False, wk_retained = False\<rparr>"
  let ?gone = "fst (ls ! j)" and ?b = "fst (ls ! (k - 1))" and ?ps = "take j ls"
  have ls: "length ls \<le> WALK_LIMIT" "predecessor L root = Ok (link_head ls None)" "linked L root scope old {} ls None"
    using assms(1) by (simp_all add: committed_chain_def)
  have cut: "drop j ls = ls ! j # drop (Suc j) ls" using assms(4) by (rule Cons_nth_drop_Suc [symmetric])
  have "linked L root scope old {} (?ps @ drop j ls) None" using ls(3) by simp
  then have "linked L root scope old {} ?ps (Some ?gone)"
    by (simp only: linked_append [of _ _ _ _ _ ?ps] cut link_head.simps)
  then have prefix: "linked L root' scope old (wk_visited ?start) ?ps (Some ?gone)"
    using linked_cong [OF assms(3)] by simp
  have len: "length ?ps = j" "j \<le> WALK_LIMIT" using assms(4) ls(1) by simp_all
  have head: "link_head ?ps (Some ?gone) = Some (fst (hd ls))" "link_head ls None = Some (fst (hd ls))"
    using assms(4,6,7) by (cases ls; cases j; simp)+
  have pred: "predecessor L root' = Ok (Some (fst (hd ls)))"
    by (rule predecessor_cong [where root' = root', OF ls(2) [unfolded head(2)] assms(2)])
      (use assms(3,4,6,7) in \<open>cases ls; cases j; simp\<close>)
  have flags: "\<not> list_ex (\<lambda>(s, m, r). at_boundary old s r) (take limit ?ps)"
    using linked_inner_flags(2) [OF prefix] list_ex_take by blast
  show ?thesis
  proof (cases "limit \<le> j")
    case True
    have more: "link_head (drop limit ?ps) (Some ?gone) \<noteq> None" by (cases "drop limit ?ps") simp_all
    have "walk_loop L root' scope limit None old WALK_LIMIT (Some (fst (hd ls))) ?start =
        Ok (listed old (take limit ?ps) ?start, link_head (drop limit ?ps) (Some ?gone))"
      using walk_page [OF prefix, of limit WALK_LIMIT None] assms(9) True len by (simp add: head)
    then show ?thesis
      using True more flags by (simp add: history_walk_def pred min_absorb1)
  next
    case False
    let ?w = "listed old ?ps ?start"
    have "walk_loop L root' scope limit None old WALK_LIMIT (Some (fst (hd ls))) ?start =
        walk_loop L root' scope limit None old (WALK_LIMIT - j) (Some ?gone) ?w"
      using walk_prefix [OF prefix, of limit WALK_LIMIT None] False len by (simp add: head)
    also have "WALK_LIMIT - j = Suc (WALK_LIMIT - Suc j)" using assms(4) ls(1) by simp
    also have "walk_loop L root' scope limit None old (Suc (WALK_LIMIT - Suc j)) (Some ?gone) ?w =
        Ok (?w\<lparr>wk_visited := insert ?gone (wk_visited ?w), wk_entries := map link_entry (take k ls), wk_retained := True\<rparr>, None)"
    proof -
      have distinct: "distinct (map fst ?ps)" "?gone \<notin> fst ` set ?ps"
        using linked_distinct [OF ls(3)] assms(4) distinct_take [of "map fst ls" j] distinct_gone [of fst ls j]
        by (simp_all only: take_map simp_thms)
      have kj: "k \<le> length ?ps" "?ps ! (k - 1) = ls ! (k - 1)" "take k ?ps = take k ls"
        using assms(6,7) len(1) by (simp_all add: min_absorb1)
      have b: "?b \<in> fst ` set ?ps" using kj(1,2) assms(6) by (metis Suc_diff_1 Suc_le_lessD image_eqI nth_mem)
      have other: "?b \<noteq> ?gone" using b distinct(2) by metis
      note cut = cut_entries [OF distinct(1) assms(6) kj(1), of ?b, unfolded kj(2,3), OF refl]
      have "walk_loop L root' scope limit None old (Suc (WALK_LIMIT - Suc j)) (Some ?gone) ?w =
          truncate_at None ?b (?w\<lparr>wk_visited := insert ?gone (wk_visited ?w)\<rparr>)"
        by (rule walk_crossed [where s = ?gone, OF assms(5) _ assms(8)]) (use distinct(2) b other in simp_all)
      then show ?thesis using cut by (simp add: truncate_at_def)
    qed
    finally show ?thesis using False by (simp add: history_walk_def pred)
  qed
qed

subsection \<open>Imports extend the history\<close>

definition names_previous :: "link \<Rightarrow> string \<Rightarrow> bool" where
  "names_previous l q \<longleftrightarrow> Option.bind (snd (snd l)) pb_previous_snapshot = Some q"

lemma read_publication_insert:
  assumes "read_publication L d s visited = Ok r" "Option.bind r pb_previous_snapshot \<noteq> Some q"
  shows "read_publication L d s (insert q visited) = Ok r"
proof (cases "regular L (d ''publication.json'') 4096")
  case (Inl e)
  then show ?thesis using assms(1) by (simp add: read_publication_def)
next
  case (Inr bs)
  then obtain p where p: "ml_de_publication L bs = Some p"
    using assms(1) by (cases "ml_de_publication L bs") (simp_all add: read_publication_def)
  then have r: "r = Some p" using assms(1) Inr by (simp add: read_publication_def split: if_splits)
  then have "pb_previous_snapshot p \<noteq> Some q" using assms(2) by simp
  then show ?thesis using assms(1) Inr p by (auto simp: r read_publication_def split: if_splits)
qed

lemma linked_insert:
  "linked L root scope boundary visited ls t \<Longrightarrow> q \<notin> fst ` set ls \<Longrightarrow> \<forall>l \<in> set ls. \<not> names_previous l q \<Longrightarrow>
     linked L root scope boundary (insert q visited) ls t"
proof (induction ls arbitrary: visited)
  case (Cons l ls)
  obtain s m r where l: "l = (s, m, r)" by (cases l)
  obtain doc where step: "chain_step L root scope s (insert s visited) = Ok (doc, r)" "ml_de_published L (rd_bytes doc) = Some m"
    using Cons.prems(1) by (auto simp: l)
  then obtain d where d: "snapshot_directory root s = Ok d" "registry_manifest L root (Some s) scope = Ok doc"
      "read_publication L d s (insert s visited) = Ok r"
    by (auto simp: chain_step_def then_result_Ok_iff split: if_splits)
  have "Option.bind r pb_previous_snapshot \<noteq> Some q" using Cons.prems(3) by (simp add: l names_previous_def)
  then have "read_publication L d s (insert q (insert s visited)) = Ok r"
    by (rule read_publication_insert [OF d(3)])
  then have "chain_step L root scope s (insert s (insert q visited)) = Ok (doc, r)"
    using d by (simp add: chain_step_def insert_commute)
  moreover have "linked L root scope boundary (insert q (insert s visited)) ls t"
    by (rule Cons.IH) (use Cons.prems in \<open>simp_all add: l\<close>)
  ultimately show ?case using Cons.prems(1,2) step(2) by (auto simp: l insert_commute)
qed simp

lemma linked_exists:
  "linked L root scope boundary visited ls t \<Longrightarrow> l \<in> set ls \<Longrightarrow> root (fst l) \<noteq> None"
proof (induction ls arbitrary: visited)
  case (Cons l' ls)
  obtain s m r where l': "l' = (s, m, r)" by (cases l')
  have "root s \<noteq> None"
    using Cons.prems(1) by (auto simp: l' chain_step_def then_result_Ok_iff snapshot_directory_Ok_iff)
  moreover have "linked L root scope boundary (insert s visited) ls t" using Cons.prems(1) by (simp add: l')
  ultimately show ?case using Cons.IH Cons.prems(2) l' by auto
qed simp

lemma published_staged:
  assumes snap: "serving L s d m resource region i" and region: "region = sc_region scope"
  shows "\<exists>p. published_of L scope s d = Ok p \<and> pm_snapshot p = s \<and> pm_version p = mf_version m \<and>
    pm_resource_version p = resource \<and> pm_files p = iv_files i \<and> pm_source_manifest p = sort_manifest m \<and>
    pm_content_sha256 p = content_hash L scope (sort_manifest m) i \<and> pm_scope p = scope"
proof -
  note S = servingD [OF snap]
  have "length (mf_files (sort_manifest m)) \<le> 4096" using S(5) by (simp add: manifest_ok_def)
  then have valid: "inventory_validate i (sort_manifest m) = Ok ()"
    using inventory_validate_iff S(6) by simp
  obtain l where l: "d ''tables.json'' = Some l" using S(3) by blast
  then have "read_inventory L (regular L (Some l) MAX_INDEX) = Ok i"
    using S(2) by (auto simp: inventory_of_def then_result_Ok_iff)
  then have "inventory_of L d (sort_manifest m) = Ok i" by (simp add: inventory_of_def l valid)
  then show ?thesis by (simp add: published_of_def S(1) region Let_def)
qed

text \<open>Whatever prepared it, a published snapshot becomes the first link of the committed chain.\<close>

context preparation
begin

lemma publication_extends:
  assumes "prepare L x snapshot = Ok p" and "import_written L p"
    and "publish L (staged root stage p) now stage tmp p = Ok (steps, receipt)" and "rc_region receipt = sc_region scope"
    and "fresh_names root snapshot stage tmp"
    and "\<And>previous. predecessor L root = Ok previous \<Longrightarrow>
      publication_written L (publish_record receipt previous now)"
    and "\<And>d p. root' snapshot = Some (Dir d) \<Longrightarrow> published_of L scope snapshot d = Ok p \<Longrightarrow>
      ml_de_published L (ml_ser_published L p) = Some p"
    and "scope_ok scope" and "boundary \<noteq> Some snapshot"
    and "ls = [] \<and> predecessor L root = Ok None \<or> committed_chain L root scope boundary ls"
    and "length ls < WALK_LIMIT" and "\<forall>l \<in> set ls. \<not> names_previous l snapshot"
    and "root' = fold apply_step steps (staged root stage p)"
  shows "\<exists>m. committed_chain L root' scope boundary
    ((snapshot, m, Some (publish_record receipt (link_head ls None) now)) # ls) \<and> pm_snapshot m = snapshot"
proof -
  from assms(1-3,5,6,13) obtain d previous m i where final: "root' snapshot = Some (Dir d)" and prev: "predecessor L root = Ok previous"
    and pointer: "root' ''CURRENT'' = Some (Top (Plain (text_bytes snapshot)))"
    and others: "\<forall>n. snapshot_name n \<and> n \<noteq> snapshot \<longrightarrow> root' n = root n"
    and pub: "read_publication L d snapshot {snapshot} = Ok (Some (publish_record receipt previous now))"
    and snap: "serving L snapshot d m (rc_resource_version receipt) (rc_region receipt) i"
    by (rule published_snapshot)
  let ?rec = "publish_record receipt previous now"
  have name: "snapshot_name snapshot" "root snapshot = None" using fresh_namesD(5,6) [OF assms(5)] .
  have previous: "previous = link_head ls None" using assms(10) prev by (auto simp: committed_chain_def)
  obtain q where q: "published_of L scope snapshot d = Ok q" "pm_snapshot q = snapshot"
    using published_staged [OF snap assms(4)] by blast
  have dir: "snapshot_directory root' snapshot = Ok d" using final name by (simp add: snapshot_directory_Ok_iff)
  obtain doc where doc: "registry_manifest L root' (Some snapshot) scope = Ok doc" "rd_bytes doc = ml_ser_published L q"
    using assms(8) dir q(1) by (simp add: registry_manifest_def Let_def)
  have step: "chain_step L root' scope snapshot {snapshot} = Ok (doc, Some ?rec)"
    by (simp add: chain_step_def dir doc(1) pub)
  have older: "older boundary snapshot (Some ?rec) = link_head ls None"
    using assms(9) previous by (simp add: older_def publish_record_def)
  have tail: "linked L root' scope boundary {snapshot} ls None"
  proof (cases "ls = []")
    case False
    then have chain: "committed_chain L root scope boundary ls" using assms(10) by simp
    then have linked: "linked L root scope boundary {} ls None" by (simp add: committed_chain_def)
    have new: "snapshot \<notin> fst ` set ls"
      using linked_exists [OF linked] name(2) by (metis imageE)
    have "\<forall>l \<in> set ls. root' (fst l) = root (fst l)"
      using chain_names [OF chain] others new by (metis image_eqI)
    then have "linked L root' scope boundary {} ls None" using linked_cong linked by blast
    then show ?thesis using new assms(12) by (intro linked_insert)
  qed simp
  have "predecessor L root' = Ok (Some snapshot)"
    by (rule predecessor_pointer [OF pointer name(1) final serving_complete [OF snap]])
  then have "committed_chain L root' scope boundary ((snapshot, q, Some ?rec) # ls)"
    using step older tail assms(7) [OF final q(1)] doc(2) assms(11) by (simp add: committed_chain_def)
  then show ?thesis using previous q(2) by blast
qed

end

text \<open>C26: an import becomes the newest entry of the history.  If the store has a committed chain of
  fewer than 10,000 snapshots in the scope's region, or no snapshot at all, then after a completed import
  it has the committed chain that starts with the imported snapshot, recorded at the time of the
  import, and continues with the previous chain, under the same retention boundary.\<close>

theorem imports_extend_the_history:
  assumes "import_directory_for_region L locked root dec input resource (sc_region scope) snapshot now stage tmp =
      Ok (root0, steps, receipt)"
    and "fresh_names root snapshot stage tmp" and "staged_written L root0 stage receipt"
    and "\<And>previous. predecessor L root = Ok previous \<Longrightarrow>
      publication_written L (publish_record receipt previous now)"
    and "\<And>d p. root' snapshot = Some (Dir d) \<Longrightarrow> published_of L scope snapshot d = Ok p \<Longrightarrow>
      ml_de_published L (ml_ser_published L p) = Some p"
    and "scope_ok scope" and "boundary \<noteq> Some snapshot"
    and "ls = [] \<and> predecessor L root = Ok None \<or> committed_chain L root scope boundary ls"
    and "length ls < WALK_LIMIT" and "\<forall>l \<in> set ls. \<not> names_previous l snapshot"
    and "root' = fold apply_step steps root0"
  shows "\<exists>m. committed_chain L root' scope boundary
    ((snapshot, m, Some (publish_record receipt (link_head ls None) now)) # ls) \<and> pm_snapshot m = snapshot"
proof -
  from assms(1) obtain p where p: "prepare_bundle ''local-import'' L (dec, input, resource, sc_region scope) snapshot = Ok p"
    "root0 = staged root stage p" "publish L (staged root stage p) now stage tmp p = Ok (steps, receipt)"
    "receipt = pi_receipt p"
    by (rule import_Ok)
  have written: "import_written L p" using assms(3) staged_writtenD by (simp add: p(2,4))
  have region: "rc_region receipt = sc_region scope"
    using p(1) unfolding p(4) by (auto simp: prepare_bundle_def elim: prepare_directory_Ok)
  show ?thesis
    by (rule local_import.publication_extends [OF p(1) written p(3) region assms(2) _ _ assms(6-10) assms(11) [unfolded p(2)]])
      (erule assms(4), erule (1) assms(5))
qed

subsection \<open>A sample history\<close>

text \<open>Three snapshots of the sample bundle, published one after the other, with a library that reads
  their documents.\<close>

definition hist_receipt :: "string \<Rightarrow> json" where
  "hist_receipt s = JObj [(''version'', JStr ''1.0''), (''snapshot'', JStr s),
     (''tables'', JInt 1), (''source'', JStr ''local-import''), (''region'', JStr ''en'')]"

definition hist_record :: "string \<Rightarrow> string option \<Rightarrow> publication" where
  "hist_record s previous = \<lparr>pb_schema_version = 1, pb_snapshot = s, pb_previous_snapshot = previous, pb_published_at = 0\<rparr>"

definition hist_lib :: master_lib where
  "hist_lib = sample_store_lib\<lparr>
     ml_de_value := (\<lambda>bs. Some (hist_receipt (bytes_text bs))),
     ml_ser_published := (\<lambda>m. text_bytes (pm_snapshot m)),
     ml_de_published := (\<lambda>bs. Some (sample_published (bytes_text bs))),
     ml_ser_retention := (\<lambda>r. text_bytes (rr_boundary r)),
     ml_de_retention := (\<lambda>bs. Some \<lparr>rr_schema_version = 1, rr_boundary = bytes_text bs\<rparr>),
     ml_de_publication := map_of [([33], hist_record ''master-3'' (Some ''master-2'')),
       ([32], hist_record ''master-2'' (Some ''master-1'')), ([31], hist_record ''master-1'' None)]\<rparr>"

definition hist_folder :: "string \<Rightarrow> u8 \<Rightarrow> folder" where
  "hist_folder s p = [''MasterManifest.json'' \<mapsto> Plain [10], ''tables.json'' \<mapsto> Plain [11],
     ''receipt.json'' \<mapsto> Plain (text_bytes s), ''MasterA.json'' \<mapsto> Plain [5], ''publication.json'' \<mapsto> Plain [p]]"

definition hist_store :: disk where
  "hist_store = [''CURRENT'' \<mapsto> Top (Plain (text_bytes ''master-3'')), ''master-1'' \<mapsto> Dir (hist_folder ''master-1'' 31),
     ''master-2'' \<mapsto> Dir (hist_folder ''master-2'' 32), ''master-3'' \<mapsto> Dir (hist_folder ''master-3'' 33)]"

definition hist_links :: "link list" where
  "hist_links = [(''master-3'', sample_published ''master-3'', Some (hist_record ''master-3'' (Some ''master-2''))),
     (''master-2'', sample_published ''master-2'', Some (hist_record ''master-2'' (Some ''master-1''))),
     (''master-1'', sample_published ''master-1'', Some (hist_record ''master-1'' None))]"

lemma hist_names: "snapshot_name ''master-1''" "snapshot_name ''master-2''" "snapshot_name ''master-3''"
  by code_simp+

lemma hist_lib_simps [simp]:
  "ml_de_manifest hist_lib bs = (if bs = [10] then Some sample_manifest else None)"
  "ml_de_inventory hist_lib bs = (if bs = [11] then Some sample_inventory else None)"
  "ml_de_value hist_lib bs = Some (hist_receipt (bytes_text bs))"
  "ml_ser_published hist_lib m = text_bytes (pm_snapshot m)"
  "ml_de_published hist_lib bs = Some (sample_published (bytes_text bs))"
  "ml_ser_retention hist_lib r = text_bytes (rr_boundary r)"
  "ml_de_retention hist_lib bs = Some \<lparr>rr_schema_version = 1, rr_boundary = bytes_text bs\<rparr>"
  "ml_sha256 hist_lib bs = replicate 64 CHR ''a''"
  "ml_de_publication hist_lib [33] = Some (hist_record ''master-3'' (Some ''master-2''))"
  "ml_de_publication hist_lib [32] = Some (hist_record ''master-2'' (Some ''master-1''))"
  "ml_de_publication hist_lib [31] = Some (hist_record ''master-1'' None)"
  by (simp_all add: hist_lib_def sample_store_lib_def plain_lib_def)

lemma hist_provenance:
  assumes "length s \<le> 4096"
  shows "source_with_provenance hist_lib s (hist_folder s p) = Ok (sample_manifest, None, En)"
proof -
  have parse: "manifest_parse hist_lib [10] = Ok sample_manifest"
    by (simp add: manifest_parse_iff sample_manifest_ok MAX_MANIFEST_def)
  have files: "regular hist_lib (hist_folder s p ''MasterManifest.json'') MAX_MANIFEST = Ok [10]"
      "regular hist_lib (hist_folder s p ''receipt.json'') 4096 = Ok (text_bytes s)"
    using assms by (simp_all add: within_limit_def hist_folder_def MAX_MANIFEST_def)
  have en: "region_from_recorded_name ''en'' = Some En" by code_simp
  have "recorded_region (hist_receipt s) = Ok En" "recorded_resource_version (hist_receipt s) = Ok None"
    by (simp_all add: recorded_region_def recorded_resource_version_def hist_receipt_def en master_supported_def)
  then show ?thesis
    by (simp add: source_with_provenance_def files parse read_value_def)
      (simp add: hist_receipt_def sample_manifest_def allowed_source_def)
qed

lemma hist_published_of:
  assumes "length s \<le> 4096"
  shows "published_of hist_lib sample_scope s (hist_folder s p) = Ok (sample_published s)"
proof -
  have index: "read_inventory hist_lib (regular hist_lib (Some (Plain [11])) MAX_INDEX) = Ok sample_inventory"
    by (simp add: read_inventory_def within_limit_def MAX_INDEX_def)
  have sorted: "sort_manifest sample_manifest = sample_manifest" by (simp add: sort_manifest_def sample_manifest_def)
  have "inventory_of hist_lib (hist_folder s p) sample_manifest = Ok sample_inventory"
    using index sample_index_valid by (simp add: inventory_of_def hist_folder_def)
  then show ?thesis
    using hist_provenance [OF assms]
    by (simp add: published_of_def sorted sample_scope_def Let_def content_hash_def digest_def)
      (simp add: sample_published_def sample_manifest_def sample_scope_def)
qed

lemma hist_chain_step:
  assumes "root s = Some (Dir (hist_folder s p))" "snapshot_name s" "ml_de_publication hist_lib [p] = Some (hist_record s previous)"
    "\<forall>q. previous = Some q \<longrightarrow> snapshot_name q \<and> q \<notin> visited"
  shows "\<exists>doc. chain_step hist_lib root sample_scope s visited = Ok (doc, Some (hist_record s previous)) \<and>
    ml_de_published hist_lib (rd_bytes doc) = Some (sample_published s)"
proof -
  have dir: "snapshot_directory root s = Ok (hist_folder s p)" using assms(1,2) by (simp add: snapshot_directory_Ok_iff)
  have "length s \<le> 4096" using assms(2) by (simp add: snapshot_name_def safe_component_def)
  note pub = hist_published_of [OF this, of p]
  have "read_publication hist_lib (hist_folder s p) s visited = Ok (Some (hist_record s previous))"
    using assms(3,4) by (auto simp: read_publication_def hist_folder_def within_limit_def hist_record_def)
  then show ?thesis
    by (simp add: chain_step_def dir registry_manifest_def sample_names pub Let_def) (simp add: sample_published_def)
qed

lemma hist_predecessor: "predecessor hist_lib hist_store = Ok (Some ''master-3'')"
proof -
  have "safe_component ''master-3''" by code_simp
  then show ?thesis
    using hist_provenance [of "''master-3''" 33]
    by (simp add: predecessor_def hist_store_def within_limit_def read_text_def text_bytes_ascii
        snapshot_directory_def hist_names)
qed

lemma hist_chain: "committed_chain hist_lib hist_store sample_scope None hist_links"
proof -
  have older: "older None s (Some (hist_record s previous)) = previous" for s previous
    by (simp add: older_def hist_record_def)
  have "linked hist_lib hist_store sample_scope None {} hist_links None"
    unfolding hist_links_def linked.simps
    by (intro conjI TrueI hist_chain_step [where p = 33] hist_chain_step [where p = 32] hist_chain_step [where p = 31])
      (simp_all add: hist_store_def hist_names older)
  then show ?thesis by (simp add: committed_chain_def hist_predecessor) (simp add: hist_links_def WALK_LIMIT_def)
qed

lemma hist_boundary: "retention_boundary hist_lib hist_store = Ok None"
  by (simp add: retention_boundary_def hist_store_def)

theorem pages_enumerate_the_history_witness:
  "collect_pages hist_lib hist_store sample_scope 2 4 None = Ok (map link_entry hist_links) \<and>
   map fst hist_links = [''master-3'', ''master-2'', ''master-1'']"
proof -
  have "length hist_links < 4" by (simp add: hist_links_def)
  then show ?thesis
    using pages_enumerate_the_history [OF hist_chain hist_boundary, of 2 4] by (simp add: hist_links_def)
qed

theorem lookup_by_hash_finds_the_newest_witness:
  "\<exists>doc. manifest_by_hash hist_lib hist_store sample_scope (replicate 64 CHR ''a'') = Ok doc \<and>
     registry_manifest hist_lib hist_store (Some ''master-3'') sample_scope = Ok doc"
  using lookup_by_hash_finds_the_newest [OF hist_chain hist_boundary sample_names(4)]
  by (auto simp: hist_links_def sample_published_def)

text \<open>A retention pass that keeps two snapshots and is interrupted after the boundary is durable.\<close>

definition hist_trash :: "string \<Rightarrow> string" where
  "hist_trash s = ''.master-pruned-'' @ s"

definition hist_steps :: "disk_step list" where
  "hist_steps = write_retention hist_lib ''.tmp'' ''master-2'' @ remove_steps hist_trash ''master-1''"

lemma hist_publications:
  "ml_de_publication hist_lib [p] = Some (hist_record s previous) \<Longrightarrow>
     \<forall>q. previous = Some q \<longrightarrow> snapshot_name q \<and> q \<notin> visited \<Longrightarrow>
     read_publication hist_lib (hist_folder s p) s visited = Ok (Some (hist_record s previous))"
  by (auto simp: read_publication_def hist_folder_def within_limit_def hist_record_def)

lemma hist_prune: "prune_within hist_lib hist_store 2 64 ''.tmp'' hist_trash = Ok (hist_steps, 1)"
proof -
  have dirs: "snapshot_directory hist_store ''master-3'' = Ok (hist_folder ''master-3'' 33)"
      "snapshot_directory hist_store ''master-2'' = Ok (hist_folder ''master-2'' 32)"
      "snapshot_directory hist_store ''master-1'' = Ok (hist_folder ''master-1'' 31)"
    by (simp_all add: snapshot_directory_def hist_store_def hist_names)
  have recs: "read_publication hist_lib (hist_folder ''master-3'' 33) ''master-3'' {''master-3''} =
        Ok (Some (hist_record ''master-3'' (Some ''master-2'')))"
      "read_publication hist_lib (hist_folder ''master-2'' 32) ''master-2'' {''master-2'', ''master-3''} =
        Ok (Some (hist_record ''master-2'' (Some ''master-1'')))"
      "read_publication hist_lib (hist_folder ''master-1'' 31) ''master-1'' {''master-1'', ''master-2'', ''master-3''} =
        Ok (Some (hist_record ''master-1'' None))"
    by (rule hist_publications; simp add: hist_names)+
  have prev: "pb_previous_snapshot (hist_record s q) = q" for s q by (simp add: hist_record_def)
  have window: "prune_window hist_lib hist_store None 2 (Some ''master-3'') {} =
      Ok (Some (''master-2'', Some ''master-1'', {''master-2'', ''master-3''}))"
    by (simp add: numeral_2_eq_2 dirs recs prev Let_def)
  have cands: "prune_candidates hist_lib hist_store (Suc n) (Some ''master-1'') {''master-2'', ''master-3''} = Ok [''master-1'']" for n
    by (simp add: dirs recs prev Let_def)
  have "(10000::nat) = Suc 9999" by simp
  then have cands': "prune_candidates hist_lib hist_store 10000 (Some ''master-1'') {''master-2'', ''master-3''} = Ok [''master-1'']"
    using cands by metis
  show ?thesis
    by (simp add: prune_within_def retention_valid_def hist_predecessor hist_boundary window cands' Let_def hist_steps_def)
qed

lemma hist_scratch: "scratch_names ''.tmp'' hist_trash"
  by (simp add: scratch_names_def hist_trash_def snapshot_name_def starts_with_def)

lemma hist_written: "\<forall>l \<in> set hist_links. retention_written hist_lib (fst l)"
  by (simp add: hist_links_def retention_written_def Let_def)

theorem retention_keeps_the_newest_witness:
  "\<exists>root' b ls'. crash hist_store hist_steps root' \<and> retention_boundary hist_lib root' = Ok b \<and>
     committed_chain hist_lib root' sample_scope b ls' \<and> (ls' = hist_links \<or> ls' = take 2 hist_links)"
proof -
  have "crash hist_store hist_steps (fold apply_step hist_steps hist_store)" by (rule crash_all)
  from retention_keeps_the_newest [OF hist_chain hist_boundary hist_prune this hist_scratch hist_written] this
  show ?thesis by blast
qed

theorem overtaken_readers_get_a_page_witness:
  "\<exists>h. history_walk hist_lib (fold apply_step hist_steps hist_store) sample_scope 5 None None = Ok h \<and>
     hs_entries h = map link_entry (take 2 hist_links) \<and> hs_retention_boundary h"
proof -
  let ?root = "fold apply_step hist_steps hist_store"
  have root: "?root n = (if n = ''retention.json'' then Some (Top (Plain (text_bytes ''master-2'')))
      else if n \<in> {''master-1'', hist_trash ''master-1'', ''.tmp''} then None else hist_store n)" for n
    by (simp add: hist_steps_def write_retention_def remove_steps_def apply_step.simps hist_trash_def)
  have "retention_boundary hist_lib ?root = Ok (Some (fst (hist_links ! (2 - 1))))"
    by (simp add: retention_boundary_def root within_limit_def hist_names hist_links_def)
  from overtaken_readers_get_a_page [OF hist_chain, of ?root 2 2 5] this
  show ?thesis by (auto simp: root hist_links_def hist_trash_def)
qed

text \<open>The sample import of \<open>Master_Publish\<close> puts a second snapshot in front of the legacy one.\<close>

lemma import_legacy_chain:
  "committed_chain import_lib sample_store sample_scope None [(''master-1'', sample_published ''master-1'', None)]"
proof -
  have src: "source_with_provenance import_lib ''master-1'' sample_folder = Ok (sample_manifest, None, En)"
    by (rule sample_provenance_in) simp_all
  have index: "read_inventory import_lib (regular import_lib (Some (Plain [11])) MAX_INDEX) = Ok sample_inventory"
    by (simp add: read_inventory_def within_limit_def MAX_INDEX_def)
  then have "inventory_of import_lib sample_folder sample_manifest = Ok sample_inventory"
    using sample_index_valid by (simp add: inventory_of_def sample_folder_def)
  then have pub: "published_of import_lib sample_scope ''master-1'' sample_folder = Ok (sample_published ''master-1'')"
    by (rule sample_published_of [OF src])
  have "read_publication import_lib sample_folder ''master-1'' {''master-1''} = Ok None"
    by (simp add: read_publication_def sample_folder_def)
  then show ?thesis
    by (simp add: committed_chain_def sample_predecessor WALK_LIMIT_def chain_step_def sample_dir registry_manifest_def
        sample_names pub Let_def older_def)
      (simp add: sample_published_def)
qed

lemma sample_final:
  "fold apply_step import_steps (sample_store(''.stage'' \<mapsto> Dir (pi_staging sample_prepared))) ''master-2'' =
     Some (Dir ((pi_staging sample_prepared)(''publication.json'' \<mapsto> Plain [13])))"
  by (simp add: import_steps_def apply_step.simps)

theorem imports_extend_the_history_witness:
  "\<exists>m. committed_chain import_lib (fold apply_step import_steps (sample_store(''.stage'' \<mapsto> Dir (pi_staging sample_prepared))))
     sample_scope None [(''master-2'', m, Some (publish_record import_receipt_2 (Some ''master-1'') 7)),
       (''master-1'', sample_published ''master-1'', None)]"
proof -
  let ?root = "sample_store(''.stage'' \<mapsto> Dir (pi_staging sample_prepared))"
  have region: "sc_region sample_scope = En" by (simp add: sample_scope_def)
  have written: "publication_written import_lib (publish_record import_receipt_2 previous 7)"
    if "predecessor import_lib sample_store = Ok previous" for previous
    using that sample_predecessor by (simp add: publication_written_def)
  have reads: "ml_de_published import_lib (ml_ser_published import_lib p) = Some p"
    if "fold apply_step import_steps ?root ''master-2'' = Some (Dir d)" "published_of import_lib sample_scope ''master-2'' d = Ok p"
    for d p
  proof -
    have "d = (pi_staging sample_prepared)(''publication.json'' \<mapsto> Plain [13])" using that(1) by (simp add: sample_final)
    then have "p = sample_published ''master-2''" using that(2) sample_import_published by simp
    then show ?thesis by (simp add: sample_published_def)
  qed
  let ?ls = "[(''master-1'', sample_published ''master-1'', None)]"
  have imp: "import_directory_for_region import_lib False sample_store (decoder_new sample_key sample_iv) sample_input
      None (sc_region sample_scope) ''master-2'' 7 ''.stage'' ''.tmp'' = Ok (?root, import_steps, import_receipt_2)"
    using sample_import by (simp add: region)
  have "\<exists>m. committed_chain import_lib (fold apply_step import_steps ?root) sample_scope None
      ((''master-2'', m, Some (publish_record import_receipt_2 (link_head ?ls None) 7)) # ?ls) \<and> pm_snapshot m = ''master-2''"
  proof (rule imports_extend_the_history [OF imp sample_import_fresh sample_staged_written])
    show "scope_ok sample_scope" by (rule sample_names(5))
    show "?ls = [] \<and> predecessor import_lib sample_store = Ok None \<or>
        committed_chain import_lib sample_store sample_scope None ?ls"
      using import_legacy_chain by blast
  qed (use written reads in \<open>simp_all add: WALK_LIMIT_def names_previous_def del: fold_simps\<close>)
  then show ?thesis by auto
qed

end
