(* ===== verification/Origins.thy ===== *)
theory Origins
  imports Peer
begin

section \<open>Configured origins and secrets (src/config.rs, src/peer_transport.rs, src/asset_jobs.rs)\<close>

text \<open>
  Every outgoing credential is bound to an origin from the configuration.  This theory has the checks of
  such origins and the constructors of the HTTP clients that use them.  The URL parser is an
  argument; a URL is the components the code looks at.  \<open>header_ok\<close> stands for the parser of header values,
  \<open>env\<close> for the environment.  Building the HTTP client itself, which fails only when its TLS backend cannot be
  initialised, is not modelled.
\<close>

record url =
  url_scheme :: string
  url_username :: string
  url_password :: "string option"
  url_host :: "string option"
  url_port :: "nat option"
  url_path :: string
  url_query :: "string option"
  url_fragment :: "string option"

type_synonym url_parser = "string \<Rightarrow> url option"

record env_lib =
  el_env :: "string \<Rightarrow> string option"
  el_header_ok :: "string \<Rightarrow> bool"
  el_parse :: url_parser
  el_uri_ok :: "url \<Rightarrow> bool" \<comment> \<open>the text of the URL parses as a request URI\<close>

definition config_secret :: "env_lib \<Rightarrow> string \<Rightarrow> app_error + string" where
  "config_secret V name =
     (case el_env V name of
        None \<Rightarrow> Err (Config ''missing secret environment variable'')
      | Some v \<Rightarrow>
          if v = [] \<or> \<not> el_header_ok V v then Err (Config ''empty or invalid secret environment variable'')
          else Ok v)"

text \<open>No user information, query or fragment.\<close>

definition bare_url :: "url \<Rightarrow> bool" where
  "bare_url u \<longleftrightarrow> url_host u \<noteq> None \<and> url_username u = [] \<and> url_password u = None \<and>
     url_query u = None \<and> url_fragment u = None"

definition ends_with_slash :: "string \<Rightarrow> bool" where
  "ends_with_slash s \<longleftrightarrow> s \<noteq> [] \<and> last s = CHR ''/''"

fun split_text :: "char \<Rightarrow> string \<Rightarrow> string list" where
  \<comment> \<open>\<open>text.split(d)\<close>\<close>
  "split_text d [] = [[]]"
| "split_text d (c # s) =
     (if c = d then [] # split_text d s else (c # hd (split_text d s)) # tl (split_text d s))"

definition https_root :: "url_parser \<Rightarrow> string \<Rightarrow> bool" where
  "https_root parse v \<longleftrightarrow>
     (case parse v of
        None \<Rightarrow> False
      | Some u \<Rightarrow> url_scheme u = ''https'' \<and> bare_url u \<and> url_path u = ''/'' \<and> \<not> ends_with_slash v)"

definition cdn_root :: "url_parser \<Rightarrow> string \<Rightarrow> bool" where
  "cdn_root parse v \<longleftrightarrow>
     (case parse v of
        None \<Rightarrow> False
      | Some u \<Rightarrow> url_scheme u = ''https'' \<and> bare_url u \<and> \<not> ends_with_slash v \<and>
          CHR ''%'' \<notin> set v \<and> CHR 92 \<notin> set v \<and>
          \<not> list_ex (\<lambda>s. s \<in> {''.'', ''..''}) (split_text (CHR ''/'') v) \<and>
          list_all (\<lambda>s. list_all (\<lambda>b. ascii_alphanumeric b \<or> b \<in> set ''-_ .'') s \<and> CHR '' '' \<notin> set s)
            (split_text (CHR ''/'') (url_path u)))"

definition token_ok :: "string \<Rightarrow> bool" where
  "token_ok t \<longleftrightarrow> t \<noteq> [] \<and> length t \<le> 4096 \<and> list_all (\<lambda>b. 33 \<le> byte b \<and> byte b \<le> 126) t"

definition origin_scheme :: "bool \<Rightarrow> url \<Rightarrow> bool" where
  "origin_scheme allow_http u \<longleftrightarrow> url_scheme u = ''https'' \<or> allow_http \<and> url_scheme u = ''http''"

definition proxy_uri :: "env_lib \<Rightarrow> string \<Rightarrow> app_error + url" where
  "proxy_uri V v =
     (let invalid = Err (Config ''proxy URL must be an HTTP(S) origin without credentials'') in
      case el_parse V v of
        None \<Rightarrow> invalid
      | Some u \<Rightarrow>
          if 4096 < length v \<or> list_ex (\<lambda>b. ascii_whitespace b \<or> byte b < 32 \<or> byte b = 127) v \<or>
             url_scheme u \<notin> {''http'', ''https''} \<or> \<not> bare_url u \<or> CHR ''@'' \<in> set v \<or> url_path u \<noteq> ''/'' \<or>
             CHR 92 \<in> set v \<or> \<not> el_uri_ok V u
          then invalid else Ok u)"

subsection \<open>The peer client\<close>

record peer_client =
  pc_url :: url
  pc_region :: region
  pc_authorization :: string
  pc_policy :: pt_policy

definition peer_client_new ::
  "env_lib \<Rightarrow> string \<Rightarrow> string \<Rightarrow> region \<Rightarrow> bool \<Rightarrow> bool \<Rightarrow> pt_policy \<Rightarrow> pt_error + peer_client" where
  "peer_client_new V origin token region regional_paths allow_http policy =
     then_result (pt_policy_validate policy) (\<lambda>_.
       case el_parse V origin of
         None \<Rightarrow> Err PtConfig
       | Some u \<Rightarrow>
           if region = Cn \<or> 2048 < length origin \<or> list_ex ascii_whitespace origin \<or> CHR 92 \<in> set origin \<or>
              \<not> bare_url u \<or> url_path u \<noteq> ''/'' \<or> \<not> origin_scheme allow_http u \<or> \<not> token_ok token
           then Err PtConfig
           else let u1 = u\<lparr>url_path := (if regional_paths
                        then ''/internal/v1/'' @ region_name region @ ''/peer/query''
                        else ''/internal/v1/peer/query'')\<rparr> in
             if \<not> el_header_ok V (''Bearer '' @ token) then Err PtConfig
             else Ok \<lparr>pc_url = u1, pc_region = region, pc_authorization = ''Bearer '' @ token, pc_policy = policy\<rparr>)"

subsection \<open>The asset updater's client\<close>

record asset_client =
  ac_root :: url
  ac_authorization :: string
  ac_user_agent :: "string option"

definition asset_client_new :: "env_lib \<Rightarrow> string \<Rightarrow> string \<Rightarrow> bool \<Rightarrow> nat \<Rightarrow> unit + asset_client" where
  \<comment> \<open>the only error is \<open>Error::Config\<close>\<close>
  "asset_client_new V root token allow_http timeout_ms =
     (case el_parse V root of
        None \<Rightarrow> Err ()
      | Some u \<Rightarrow>
          if \<not> bare_url u \<or> url_path u \<noteq> ''/'' \<or> \<not> origin_scheme allow_http u \<or>
             \<not> (100 \<le> timeout_ms \<and> timeout_ms \<le> 300000) \<or> \<not> token_ok token
          then Err ()
          else if \<not> el_header_ok V (''Bearer '' @ token) then Err ()
          else Ok \<lparr>ac_root = u, ac_authorization = ''Bearer '' @ token, ac_user_agent = None\<rparr>)"

definition with_user_agent :: "env_lib \<Rightarrow> string option \<Rightarrow> asset_client \<Rightarrow> unit + asset_client" where
  "with_user_agent V v c =
     (case v of
        None \<Rightarrow> Ok (c\<lparr>ac_user_agent := None\<rparr>)
      | Some a \<Rightarrow>
          if blank a \<or> 256 < length a \<or> \<not> list_all (\<lambda>b. 32 \<le> byte b \<and> byte b \<le> 126) a then Err ()
          else if \<not> el_header_ok V a then Err ()
          else Ok (c\<lparr>ac_user_agent := Some a\<rparr>))"

subsection \<open>What an accepted origin is\<close>

text \<open>A client built from a configured origin sends its token to that origin only: the scheme, host and port are the
  configured ones, encrypted unless plain HTTP was asked for, and the path is the fixed one.\<close>

definition same_origin :: "url \<Rightarrow> url \<Rightarrow> bool" where
  "same_origin a b \<longleftrightarrow> url_scheme a = url_scheme b \<and> url_host a = url_host b \<and> url_port a = url_port b \<and>
     url_username a = url_username b \<and> url_password a = url_password b"

lemma same_origin_refl [simp]: "same_origin u u"
  by (simp add: same_origin_def)

lemma same_origin_set_path [simp]: "same_origin (u\<lparr>url_path := p\<rparr>) v = same_origin u v"
  by (simp add: same_origin_def)

lemma peer_client_Ok:
  assumes "peer_client_new V origin token region regional_paths allow_http policy = Ok c"
  obtains u where "el_parse V origin = Some u" "bare_url u" "url_path u = ''/''" "origin_scheme allow_http u"
    "same_origin (pc_url c) u" "token_ok token" "region \<noteq> Cn" "pc_authorization c = ''Bearer '' @ token"
    "pt_policy_validate policy = Ok ()"
  using assms by (auto simp: peer_client_new_def Let_def then_result_Ok_iff split: option.splits if_splits)

lemma asset_client_Ok:
  assumes "asset_client_new V root token allow_http timeout_ms = Ok c"
  obtains u where "el_parse V root = Some u" "bare_url u" "url_path u = ''/''" "origin_scheme allow_http u"
    "ac_root c = u" "token_ok token" "ac_authorization c = ''Bearer '' @ token"
  using assms by (auto simp: asset_client_new_def split: option.splits if_splits)

end
