(* ===== verification/Master_Sync.thy ===== *)
theory Master_Sync
  imports Master_History Resources Origins
begin

section \<open>Owner-to-consumer synchronization (src/master_sync.rs)\<close>

text \<open>
  A consumer follows an owner's registry: it reads the owner's published manifest, takes each table
  from its own current snapshot or from the owner, checks size and digest, prepares a registry
  snapshot, reads the owner's manifest again, and publishes only if the content is still the same.

  The owner is a function from the number of the request and the request to its answer; the disk, the
  fresh names and the clock are arguments.  The pass runs under the deadline of \<open>timeout_at\<close>: \<open>expired\<close> says that it passes while
  the pass waits, \<open>late\<close> that it has passed at the final check.  Publication is the last step and waits
  for nothing, so an expired pass has published nothing.  A write error while staging abandons the staging directory and is not
  modelled.
\<close>

subsection \<open>Configuration\<close>

record sync_config =
  sy_origin :: string
  sy_token_env :: string
  sy_regional_paths :: bool
  sy_allow_http :: bool
  sy_interval_seconds :: nat
  sy_timeout_seconds :: nat
  sy_request_timeout_ms :: nat

definition sync_validate :: "env_lib \<Rightarrow> sync_config \<Rightarrow> app_error + unit" where
  "sync_validate V c =
     (if \<not> (60 \<le> sy_interval_seconds c \<and> sy_interval_seconds c \<le> 86400) \<or>
         \<not> (1 \<le> sy_timeout_seconds c \<and> sy_timeout_seconds c \<le> 3600) \<or>
         \<not> (100 \<le> sy_request_timeout_ms c \<and> sy_request_timeout_ms c \<le> 300000) \<or>
         \<not> env_name_ok (sy_token_env c)
      then Err (Config ''invalid Master sync policy'')
      else case peer_client_new V (sy_origin c) ''validation'' Jp False (sy_allow_http c)
             (pt_policy_default\<lparr>pt_connect_timeout_ms := min (sy_request_timeout_ms c) 10000,
                pt_request_timeout_ms := sy_request_timeout_ms c\<rparr>) of
             Inl _ \<Rightarrow> Err (Config ''invalid Master owner origin'')
           | Inr _ \<Rightarrow> Ok ())"

datatype sync_error = SyncDownload | SyncTimeout | SyncIntegrity | SyncChanged | SyncStorage

fun sync_error_text :: "sync_error \<Rightarrow> string" where
  "sync_error_text SyncDownload = ''Master owner request failed''"
| "sync_error_text SyncTimeout = ''Master synchronization timed out''"
| "sync_error_text SyncIntegrity = ''Master owner manifest or file integrity failed''"
| "sync_error_text SyncChanged = ''Master owner changed during synchronization''"
| "sync_error_text SyncStorage = ''Master consumer storage failed''"

definition storage :: "MasterError + 'a \<Rightarrow> sync_error + 'a" where
  \<comment> \<open>\<open>From<MasterError>\<close>\<close>
  "storage r = (case r of Inl _ \<Rightarrow> Err SyncStorage | Inr x \<Rightarrow> Ok x)"

record syncer =
  sn_authorization :: string
  sn_root :: url
  sn_scope :: master_scope
  sn_retention :: "nat option"
  sn_timeout_seconds :: nat

definition syncer_construct ::
  "env_lib \<Rightarrow> sync_config \<Rightarrow> master_scope \<Rightarrow> string \<Rightarrow> nat option \<Rightarrow> app_error + syncer" where
  \<comment> \<open>\<open>output\<close> is the path of the consumer's directory\<close>
  "syncer_construct V c scope output retention =
     then_result (sync_validate V c) (\<lambda>_.
       if \<exists>r \<in> set_option retention. \<not> retention_valid r then Err (Config ''invalid Master retention'')
       else if \<not> scope_ok scope \<or> output = [] then Err (Config ''invalid Master sync scope or output'')
       else then_result (config_secret V (sy_token_env c)) (\<lambda>token.
         if 4096 < length token \<or> \<not> list_all (\<lambda>b. 33 \<le> byte b \<and> byte b \<le> 126) token \<or>
            \<not> el_header_ok V (''Bearer '' @ token)
         then Err (Config ''invalid Master owner token'')
         else case el_parse V (sy_origin c) of
                None \<Rightarrow> Err (Config ''invalid Master owner origin'')
              | Some u \<Rightarrow> Ok \<lparr>sn_authorization = ''Bearer '' @ token,
                  sn_root = u\<lparr>url_path := (if sy_regional_paths c
                     then ''/api/v1/'' @ region_name (sc_region scope) @ ''/master-data/''
                     else ''/api/v1/master-data/'')\<rparr>,
                  sn_scope = scope, sn_retention = retention, sn_timeout_seconds = sy_timeout_seconds c\<rparr>))"

subsection \<open>Requests to the owner\<close>

record sync_request =
  sq_url :: url
  sq_authorization :: string

type_synonym owner = "nat \<Rightarrow> sync_request \<Rightarrow> send_error + http_answer"

record sync_lib =
  sl_master :: master_lib
  sl_join :: "url \<Rightarrow> string \<Rightarrow> url option"
  sl_to_str :: "string \<Rightarrow> string option"

fun sync_read :: "nat \<Rightarrow> string \<Rightarrow> (send_error + string) list \<Rightarrow> sync_error + string" where
  "sync_read limit bytes [] = Ok bytes"
| "sync_read limit bytes (Inl _ # cs) = Err SyncDownload"
| "sync_read limit bytes (Inr part # cs) =
     (if limit - length bytes < length part then Err SyncIntegrity
      else sync_read limit (bytes @ part) cs)"

definition sync_answer :: "sync_lib \<Rightarrow> nat \<Rightarrow> send_error + http_answer \<Rightarrow> sync_error + u8 list" where
  "sync_answer SL limit http =
     (case http of
        Inl _ \<Rightarrow> Err SyncDownload
      | Inr a \<Rightarrow>
          if ha_status a \<noteq> 200 \<or> (\<exists>n \<in> set_option (ha_content_length a). limit < n) \<or>
             \<not> (case Option.bind (header_get (ha_headers a) ''content-type'') (sl_to_str SL) of
                  None \<Rightarrow> False | Some v \<Rightarrow> json_mime v)
          then Err SyncDownload
          else then_result (sync_read limit [] (ha_chunks a)) (\<lambda>s. Ok (text_bytes s)))"

definition sync_download ::
  "sync_lib \<Rightarrow> syncer \<Rightarrow> owner \<Rightarrow> nat \<Rightarrow> string \<Rightarrow> nat \<Rightarrow> sync_error + u8 list" where
  "sync_download SL S server n path limit =
     (case sl_join SL (sn_root S) path of
        None \<Rightarrow> Err SyncIntegrity
      | Some u \<Rightarrow>
          sync_answer SL limit (server n \<lparr>sq_url = u, sq_authorization = sn_authorization S\<rparr>))"

definition MAX_OWNER_MANIFEST :: nat where "MAX_OWNER_MANIFEST = 4 * 1024 * 1024"

definition owner_manifest :: "sync_lib \<Rightarrow> syncer \<Rightarrow> owner \<Rightarrow> nat \<Rightarrow> sync_error + published_manifest" where
  "owner_manifest SL S server n =
     then_result (sync_download SL S server n ''manifest'' MAX_OWNER_MANIFEST) (\<lambda>bs.
       case ml_de_published (sl_master SL) bs of
         None \<Rightarrow> Err SyncIntegrity
       | Some m \<Rightarrow>
           (case published_validate (sl_master SL) m (sn_scope S) of
              Inl _ \<Rightarrow> Err SyncIntegrity | Inr _ \<Rightarrow> Ok m))"

function trim_json :: "string \<Rightarrow> string" where
  \<comment> \<open>\<open>name.trim_end_matches(".json")\<close>\<close>
  "trim_json s = (case strip_suffix s ''.json'' of None \<Rightarrow> s | Some r \<Rightarrow> trim_json r)"
  by pat_completeness auto

termination trim_json
  by (relation "measure length") (auto simp: strip_suffix_Some)

declare trim_json.simps [simp del]

definition table_path :: "published_manifest \<Rightarrow> table_file \<Rightarrow> string" where
  "table_path target f =
     ''snapshots/'' @ pm_snapshot target @ ''/tables/'' @ trim_json (tf_name f) @ ''/'' @ tf_sha256 f"

subsection \<open>One pass\<close>

definition installed_manifest :: "master_lib \<Rightarrow> disk \<Rightarrow> master_scope \<Rightarrow> published_manifest option" where
  "installed_manifest L root scope =
     (case registry_manifest L root None scope of
        Inl _ \<Rightarrow> None
      | Inr document \<Rightarrow> ml_de_published L (rd_bytes document))"

definition sync_unchanged ::
  "master_lib \<Rightarrow> disk \<Rightarrow> master_scope \<Rightarrow> published_manifest \<Rightarrow> published_manifest option \<Rightarrow> bool" where
  "sync_unchanged L root scope target current =
     (case current of
        None \<Rightarrow> False
      | Some c \<Rightarrow> pm_content_sha256 c = pm_content_sha256 target \<and>
          pm_resource_version c = pm_resource_version target \<and>
          list_all (\<lambda>f. table_intact L root (sc_region scope) (pm_snapshot c) (trim_json (tf_name f)) (tf_sha256 f))
            (pm_files c))"

definition cached_table ::
  "master_lib \<Rightarrow> disk \<Rightarrow> region \<Rightarrow> published_manifest option \<Rightarrow> table_file \<Rightarrow> u8 list option" where
  "cached_table L root region current f =
     (case current of
        None \<Rightarrow> None
      | Some c \<Rightarrow>
          if f \<in> set (pm_files c)
          then (case registry_table L root region (pm_snapshot c) (trim_json (tf_name f)) (tf_sha256 f) of
                  Inl _ \<Rightarrow> None | Inr document \<Rightarrow> Some (rd_bytes document))
          else None)"

record staged_files =
  sg_folder :: folder
  sg_downloaded :: nat
  sg_reused :: nat

fun stage_files ::
  "sync_lib \<Rightarrow> syncer \<Rightarrow> owner \<Rightarrow> disk \<Rightarrow> published_manifest \<Rightarrow> published_manifest option \<Rightarrow> staged_files \<Rightarrow>
     table_file list \<Rightarrow> sync_error + staged_files" where
  "stage_files SL S server root target current g [] = Ok g"
| "stage_files SL S server root target current g (f # fs) =
     then_result
       (case cached_table (sl_master SL) root (sc_region (sn_scope S)) current f of
          Some bs \<Rightarrow> Ok (bs, g\<lparr>sg_reused := sg_reused g + 1\<rparr>)
        | None \<Rightarrow>
            then_result (sync_download SL S server (1 + sg_downloaded g) (table_path target f) (tf_size f)) (\<lambda>bs.
              Ok (bs, g\<lparr>sg_downloaded := sg_downloaded g + 1\<rparr>)))
       (\<lambda>(bs, g1).
         if length bs \<noteq> tf_size f \<or> digest (sl_master SL) bs \<noteq> tf_sha256 f then Err SyncIntegrity
         else stage_files SL S server root target current
                (g1\<lparr>sg_folder := (sg_folder g1)(tf_name f \<mapsto> Plain bs)\<rparr>) fs)"

datatype sync_result =
    SyncUnchanged string
  | SyncUpdated import_receipt string nat nat

record sync_names =
  nm_snapshot :: string
  nm_stage :: string
  nm_tmp :: string
  nm_now :: instant

definition sync_update ::
  "sync_lib \<Rightarrow> syncer \<Rightarrow> owner \<Rightarrow> bool \<Rightarrow> bool \<Rightarrow> sync_names \<Rightarrow> disk \<Rightarrow>
     sync_error + sync_result \<times> disk \<times> disk_step list" where
  \<comment> \<open>the result, the disk with the staging directory, and the steps of the publication on it\<close>
  "sync_update SL S server locked late N root =
     (if locked then Err SyncStorage
      else then_result (owner_manifest SL S server 0) (\<lambda>target.
        let L = sl_master SL; scope = sn_scope S; current = installed_manifest L root scope in
        if sync_unchanged L root scope target current
        then Ok (SyncUnchanged (pm_content_sha256 target), root, [])
        else then_result (stage_files SL S server root target current
               \<lparr>sg_folder = Map.empty, sg_downloaded = 0, sg_reused = 0\<rparr> (pm_files target)) (\<lambda>g.
          then_result (storage (prepare_registry L (sg_folder g) target (nm_snapshot N))) (\<lambda>p.
          then_result (owner_manifest SL S server (1 + sg_downloaded g)) (\<lambda>latest.
            if pm_content_sha256 latest \<noteq> pm_content_sha256 target then Err SyncChanged
            else if late then Err SyncTimeout
            else then_result (storage (publish L (staged root (nm_stage N) p) (nm_now N) (nm_stage N) (nm_tmp N) p))
              (\<lambda>(steps, receipt).
                Ok (SyncUpdated receipt (pm_content_sha256 target) (sg_downloaded g) (sg_reused g),
                    staged root (nm_stage N) p, steps)))))))"

definition sync_result_value :: "sync_result \<Rightarrow> nat option \<Rightarrow> json" where
  \<comment> \<open>members in key order, with the pruned snapshots when the retention pass ran\<close>
  "sync_result_value r pruned =
     (let tail = (case pruned of None \<Rightarrow> [] | Some n \<Rightarrow> [(''pruned_snapshots'', JInt (int n))]) in
      case r of
        SyncUnchanged hash \<Rightarrow> JObj ([(''action'', JStr ''unchanged''), (''content_sha256'', JStr hash)] @ tail)
      | SyncUpdated receipt hash downloaded reused \<Rightarrow>
          JObj ([(''action'', JStr ''updated''), (''content_sha256'', JStr hash),
                 (''downloaded_files'', JInt (int downloaded))] @ tail @
                [(''receipt'', receipt_value receipt), (''reused_files'', JInt (int reused))]))"

record sync_pass =
  sp_result :: "sync_error + sync_result"
  sp_pruned :: "nat option"
  sp_disk :: disk
  sp_status :: json

definition sync_update_once ::
  "sync_lib \<Rightarrow> syncer \<Rightarrow> owner \<Rightarrow> bool \<Rightarrow> bool \<Rightarrow> bool \<Rightarrow> bool \<Rightarrow> json \<Rightarrow> sync_names \<Rightarrow> (string \<Rightarrow> string) \<Rightarrow> disk \<Rightarrow> sync_pass" where
  \<comment> \<open>the retention pass of a settled result has its own writer lock\<close>
  "sync_update_once SL S server locked expired late retain_locked completed_at N trash root =
     (if expired
      then \<lparr>sp_result = Err SyncTimeout, sp_pruned = None, sp_disk = root,
            sp_status = JObj [(''error'', JStr (sync_error_text SyncTimeout)), (''mode'', JStr ''sync''),
              (''status'', JStr ''failed'')]\<rparr>
      else case sync_update SL S server locked late N root of
        Inl e \<Rightarrow> \<lparr>sp_result = Err e, sp_pruned = None, sp_disk = root,
            sp_status = JObj [(''error'', JStr (sync_error_text e)), (''mode'', JStr ''sync''), (''status'', JStr ''failed'')]\<rparr>
      | Inr (r, root0, steps) \<Rightarrow>
          let root1 = fold apply_step steps root0;
              kept = retain (sl_master SL) retain_locked root1 (sn_retention S) (nm_tmp N) trash in
          \<lparr>sp_result = Ok r, sp_pruned = snd kept, sp_disk = fold apply_step (fst kept) root1,
           sp_status = JObj [(''completed_at'', completed_at), (''mode'', JStr ''sync''),
             (''result'', sync_result_value r (snd kept)), (''status'', JStr ''ready'')]\<rparr>)"

subsection \<open>What a pass installs\<close>

lemma sorted_key_successively:
  "successively (<) (map f xs) \<Longrightarrow> sort_key f xs = (xs :: 'a list)" for f :: "'a \<Rightarrow> 'b :: linorder"
proof -
  assume "successively (<) (map f xs)"
  then have "sorted_wrt (<) (map f xs)" by (simp add: successively_conv_sorted_wrt)
  then have "sorted (map f xs)" by (rule strict_sorted_imp_sorted)
  then show ?thesis by (rule sort_key_id_if_sorted)
qed

lemma trim_json_stem: "safe_component tab \<Longrightarrow> trim_json (tab @ ''.json'') = tab"
proof -
  assume "safe_component tab"
  then have "CHR ''.'' \<notin> set tab" by (rule safe_component_no_dot)
  then have "strip_suffix tab ''.json'' = None"
    by (cases "strip_suffix tab ''.json''") (auto simp: strip_suffix_Some)
  then show ?thesis by (simp add: trim_json.simps [of "tab @ ''.json''"] trim_json.simps [of tab])
qed

lemma published_validate_Ok:
  assumes "published_validate L m scope = Ok ()" "manifest_parse L (ml_ser_manifest L (pm_source_manifest m)) = Ok source"
  shows "pm_scope m = scope" "sort_manifest source = source"
    "pm_content_sha256 m = content_hash L scope source \<lparr>iv_schema_version = 1, iv_version = pm_version m, iv_files = pm_files m\<rparr>"
    "snapshot_name (pm_snapshot m)" "master_supported (sc_region scope)"
  using assms by (auto simp: published_validate_def then_result_Ok_iff Let_def sort_manifest_def sorted_key_successively
      split: if_splits)

text \<open>Every file of an index belongs to a table whose name is its stem.\<close>

lemma serving_file:
  assumes snap: "serving L s d m resource region i" and f: "f \<in> set (iv_files i)"
  obtains tab bs where "tf_name f = tab @ ''.json''" "safe_component tab" "has_table m tab" "trim_json (tf_name f) = tab"
    "d (tf_name f) = Some (Plain bs)" "f = file_of L (tf_name f) bs" "ml_validate_json L bs"
proof -
  note S = servingD [OF snap]
  have names: "map tf_name (iv_files i) = sort (map json_name (mf_files m))"
    using S(6) by (simp add: inventory_ok_def)
  have "tf_name f \<in> set (map tf_name (iv_files i))" using f by simp
  then have "tf_name f \<in> json_name ` set (mf_files m)" unfolding names by simp
  then obtain e where e: "e \<in> set (mf_files m)" "tf_name f = json_name e" by blast
  have "entry_ok e" using S(5) e(1) by (auto simp: manifest_ok_def list_all_iff)
  then obtain tab where tab: "en_name e = tab @ ''.bin''" "safe_component tab" "json_name e = tab @ ''.json''"
    by (rule entry_okE)
  have "has_table m tab" using e(1) tab(1) by (auto simp: has_table_def list_ex_iff)
  moreover obtain bs where "d (tf_name f) = Some (Plain bs)" "f = file_of L (tf_name f) bs" "ml_validate_json L bs"
    using S(4) f by (auto simp: holds_files_def)
  ultimately show thesis using that tab e(2) trim_json_stem by metis
qed

lemma table_intact_registry: "registry_table L root region s tab h = Ok doc \<Longrightarrow> table_intact L root region s tab h"
  unfolding registry_table_def table_intact_def table_read_def
  by (clarsimp simp: then_result_Ok_iff split: if_splits)

lemma serving_intact:
  assumes snap: "serving L s d m resource region i" and f: "f \<in> set (iv_files i)"
    and root: "root s = Some (Dir d)" "snapshot_name s"
  shows "\<exists>bs. registry_table L root region s (trim_json (tf_name f)) (tf_sha256 f) =
      Ok \<lparr>rd_bytes = bs, rd_etag = ''\"'' @ tf_sha256 f @ ''\"'', rd_version = mf_version m\<rparr> \<and>
    length bs = tf_size f \<and> digest L bs = tf_sha256 f"
proof -
  from snap f obtain tab bs where t: "tf_name f = tab @ ''.json''" "safe_component tab" "has_table m tab"
    "trim_json (tf_name f) = tab" "d (tf_name f) = Some (Plain bs)" "f = file_of L (tf_name f) bs" "ml_validate_json L bs"
    by (rule serving_file)
  have parts: "tf_size f = length bs" "tf_sha256 f = digest L bs"
    by (subst t(6), simp add: file_of_def)+
  have "registry_table L root region s tab (digest L bs) =
      Ok \<lparr>rd_bytes = bs, rd_etag = ''\"'' @ digest L bs @ ''\"'', rd_version = mf_version m\<rparr>"
    by (rule serving_table(1) [where root = root, OF snap root])
      (use f t in \<open>simp_all flip: t(1)\<close>)
  then show ?thesis using t(4) parts by simp
qed

lemma serving_installed:
  assumes snap: "serving L s d m resource region i" and root: "root s = Some (Dir d)" "snapshot_name s"
    "current_snapshot L root = Ok s" and scope: "scope_ok scope" "region = sc_region scope"
    and reads: "\<And>p. published_of L scope s d = Ok p \<Longrightarrow> ml_de_published L (ml_ser_published L p) = Some p"
  obtains p where "installed_manifest L root scope = Some p" "pm_snapshot p = s" "pm_version p = mf_version m"
    "pm_resource_version p = resource" "pm_files p = iv_files i" "pm_source_manifest p = sort_manifest m"
    "pm_content_sha256 p = content_hash L scope (sort_manifest m) i"
proof -
  obtain p where p: "published_of L scope s d = Ok p" "pm_snapshot p = s" "pm_version p = mf_version m"
    "pm_resource_version p = resource" "pm_files p = iv_files i" "pm_source_manifest p = sort_manifest m"
    "pm_content_sha256 p = content_hash L scope (sort_manifest m) i"
    using published_staged [OF snap scope(2)] by blast
  have "snapshot_directory root s = Ok d" using root by (simp add: snapshot_directory_Ok_iff)
  then have "installed_manifest L root scope = Some p"
    using scope(1) root(3) p(1) reads by (simp add: installed_manifest_def registry_manifest_def Let_def)
  then show thesis using that p by blast
qed

lemma construct_scope:
  assumes "syncer_construct V c scope output retention = Ok S" shows "sn_scope S = scope" "scope_ok scope"
  using assms by (auto simp: syncer_construct_def then_result_Ok_iff split: if_splits option.splits)

lemma owner_manifest_Ok:
  assumes "owner_manifest SL S server n = Ok m" shows "published_validate (sl_master SL) m (sn_scope S) = Ok ()"
proof -
  from assms obtain v where "(case published_validate (sl_master SL) v (sn_scope S) of
      Inl _ \<Rightarrow> Err SyncIntegrity | Inr _ \<Rightarrow> Ok v) = (Ok m :: sync_error + published_manifest)"
    by (auto simp: owner_manifest_def then_result_Ok_iff split: option.splits)
  then show ?thesis by (cases "published_validate (sl_master SL) v (sn_scope S)") auto
qed

lemma sync_update_Updated:
  assumes "sync_update SL S server locked late N root = Ok (SyncUpdated receipt hash downloaded reused, root0, steps)"
  obtains target latest g p where "owner_manifest SL S server 0 = Ok target"
    "stage_files SL S server root target (installed_manifest (sl_master SL) root (sn_scope S))
       \<lparr>sg_folder = Map.empty, sg_downloaded = 0, sg_reused = 0\<rparr> (pm_files target) = Ok g"
    "prepare_download (sl_master SL) (sg_folder g, target) (nm_snapshot N) = Ok p"
    "owner_manifest SL S server (1 + sg_downloaded g) = Ok latest" "pm_content_sha256 latest = pm_content_sha256 target"
    "root0 = staged root (nm_stage N) p" "hash = pm_content_sha256 target"
    "publish (sl_master SL) (staged root (nm_stage N) p) (nm_now N) (nm_stage N) (nm_tmp N) p = Ok (steps, receipt)"
    "downloaded = sg_downloaded g" "reused = sg_reused g" "\<not> locked" "\<not> late" "receipt = pi_receipt p"
proof -
  from assms obtain target latest g p where parts: "owner_manifest SL S server 0 = Ok target"
    "stage_files SL S server root target (installed_manifest (sl_master SL) root (sn_scope S))
       \<lparr>sg_folder = Map.empty, sg_downloaded = 0, sg_reused = 0\<rparr> (pm_files target) = Ok g"
    "prepare_download (sl_master SL) (sg_folder g, target) (nm_snapshot N) = Ok p"
    "owner_manifest SL S server (1 + sg_downloaded g) = Ok latest" "pm_content_sha256 latest = pm_content_sha256 target"
    "root0 = staged root (nm_stage N) p" "hash = pm_content_sha256 target"
    "publish (sl_master SL) (staged root (nm_stage N) p) (nm_now N) (nm_stage N) (nm_tmp N) p = Ok (steps, receipt)"
    "downloaded = sg_downloaded g" "reused = sg_reused g" "\<not> locked" "\<not> late"
    by (auto simp: sync_update_def Let_def then_result_Ok_iff storage_def prepare_download_def
        split: if_splits sum.splits)
  moreover have "receipt = pi_receipt p" using parts(8) by (rule publish_Ok)
  ultimately show thesis using that by blast
qed


text \<open>An interrupted pass installs nothing half.  Whatever prefix of a pass's publication reaches the
  consumer's disk, every snapshot that existed is untouched, and the pointer names what it named before or the
  new snapshot, complete with all its tables.\<close>

theorem synchronization_survives_interruption:
  assumes "sync_update SL S server locked late N root = Ok (SyncUpdated receipt hash downloaded reused, root0, steps)"
    and "fresh_names root (nm_snapshot N) (nm_stage N) (nm_tmp N)"
    and "staged_written (sl_master SL) root0 (nm_stage N) receipt" and "crash root0 steps root'"
  shows "(\<forall>n. snapshot_name n \<and> n \<noteq> nm_snapshot N \<longrightarrow> root' n = root n) \<and>
    (predecessor (sl_master SL) root' = predecessor (sl_master SL) root \<or>
     predecessor (sl_master SL) root' = Ok (Some (nm_snapshot N)) \<and>
       (\<exists>d. root' (nm_snapshot N) = Some (Dir d) \<and> complete_snapshot (sl_master SL) (nm_snapshot N) d))"
proof -
  from assms(1) obtain target latest p and g :: staged_files where p: "prepare_download (sl_master SL) (sg_folder g, target) (nm_snapshot N) = Ok p"
    "root0 = staged root (nm_stage N) p"
    "publish (sl_master SL) (staged root (nm_stage N) p) (nm_now N) (nm_stage N) (nm_tmp N) p = Ok (steps, receipt)"
    "receipt = pi_receipt p"
    by (rule sync_update_Updated) blast
  show ?thesis
    by (rule owner_sync.publication_survives [OF p(1) _ p(3) assms(2) assms(4) [unfolded p(2)]])
      (use assms(3) staged_writtenD in \<open>simp add: p(2,4)\<close>)
qed

subsection \<open>A sample pass\<close>

text \<open>An empty consumer follows an owner that publishes one snapshot of one table.\<close>

definition sync_receipt :: import_receipt where
  "sync_receipt = \<lparr>rc_version = ''1.0'', rc_snapshot = ''master-2'', rc_tables = 1, rc_json_bytes = 1,
     rc_source = ''registry'', rc_region = En, rc_resource_version = None\<rparr>"

definition sync_master :: master_lib where
  "sync_master = import_lib\<lparr>
     ml_de_value := (\<lambda>bs. if bs = [14] then Some (receipt_value sync_receipt) else None),
     ml_de_publication := (\<lambda>bs. if bs = [13] then Some (publish_record sync_receipt None 7) else None)\<rparr>"

definition owner_url :: url where
  "owner_url = \<lparr>url_scheme = ''https'', url_username = [], url_password = None, url_host = Some ''owner'', url_port = None,
     url_path = ''/'', url_query = None, url_fragment = None\<rparr>"

definition sample_env :: env_lib where
  "sample_env = \<lparr>el_env = [''TOKEN'' \<mapsto> ''t''], el_header_ok = (\<lambda>_. True),
     el_parse = [''https://owner'' \<mapsto> owner_url], el_uri_ok = (\<lambda>_. True)\<rparr>"

definition sample_sync_config :: sync_config where
  "sample_sync_config = \<lparr>sy_origin = ''https://owner'', sy_token_env = ''TOKEN'', sy_regional_paths = False,
     sy_allow_http = False, sy_interval_seconds = 300, sy_timeout_seconds = 600, sy_request_timeout_ms = 60000\<rparr>"

definition sample_syncer :: syncer where
  "sample_syncer = \<lparr>sn_authorization = ''Bearer t'', sn_root = owner_url\<lparr>url_path := ''/api/v1/master-data/''\<rparr>,
     sn_scope = sample_scope, sn_retention = None, sn_timeout_seconds = 600\<rparr>"

definition sample_sync_lib :: sync_lib where
  "sample_sync_lib = \<lparr>sl_master = sync_master, sl_join = (\<lambda>u p. Some (u\<lparr>url_path := url_path u @ p\<rparr>)), sl_to_str = Some\<rparr>"

definition sample_owner :: owner where
  "sample_owner n q = Inr \<lparr>ha_status = 200, ha_headers = [(''content-type'', ''application/json'')], ha_content_length = None,
     ha_chunks = [Inr (if n = 1 then ''1'' else ''master-9'')]\<rparr>"

definition sample_sync_names :: sync_names where
  "sample_sync_names = \<lparr>nm_snapshot = ''master-2'', nm_stage = ''.stage'', nm_tmp = ''.tmp'', nm_now = 7\<rparr>"

definition sync_prepared :: prepared_import where
  "sync_prepared = stage_documents sync_master [''MasterA.json'' \<mapsto> Plain [49]] sample_inventory [10] sync_receipt"

lemma sync_lib_simps [simp]:
  "ml_sha256 sync_master bs = replicate 64 CHR ''a''" "ml_validate_json sync_master bs \<longleftrightarrow> bs \<noteq> []"
  "ml_de_manifest sync_master bs = (if bs = [10] then Some sample_manifest else None)" "ml_ser_manifest sync_master m = [10]"
  "ml_ser_inventory sync_master i = (if i = sample_inventory then [11] else [99])"
  "ml_de_inventory sync_master bs = (if bs = [11] then Some sample_inventory else None)"
  "ml_de_value sync_master [14] = Some (receipt_value sync_receipt)"
  "ml_ser_published sync_master q = text_bytes (pm_snapshot q)"
  "ml_de_published sync_master bs = Some (sample_published (bytes_text bs))"
  "ml_ser_receipt sync_master r = [14]" "ml_ser_publication sync_master r' = [13]"
  "ml_de_publication sync_master [13] = Some (publish_record sync_receipt None 7)"
  "sl_master sample_sync_lib = sync_master" "sl_to_str sample_sync_lib = Some"
  "sl_join sample_sync_lib u path = Some (u\<lparr>url_path := url_path u @ path\<rparr>)"
  by (simp_all add: sync_master_def import_lib_def sample_store_lib_def plain_lib_def sample_sync_lib_def)

lemma sample_construct: "syncer_construct sample_env sample_sync_config sample_scope ''out'' None = Ok sample_syncer"
proof -
  have names: "env_name_ok ''TOKEN''" "token_ok ''validation''" "\<not> list_ex ascii_whitespace ''https://owner''"
    "list_all (\<lambda>b. 33 \<le> byte b \<and> byte b \<le> 126) ''t''" by code_simp+
  have env: "el_parse sample_env ''https://owner'' = Some owner_url" "el_header_ok sample_env h"
    "config_secret sample_env ''TOKEN'' = Ok ''t''" for h by (simp_all add: sample_env_def config_secret_def)
  have "bare_url owner_url" "url_path owner_url = ''/''" "origin_scheme False owner_url" by code_simp+
  then have "sync_validate sample_env sample_sync_config = Ok ()"
    by (simp add: sync_validate_def sample_sync_config_def names names(3) [simplified] env peer_client_new_def pt_policy_validate_def
        pt_policy_default_def)
  then show ?thesis
    by (simp add: syncer_construct_def sample_names env names) (simp add: sample_sync_config_def sample_syncer_def env names(4) [simplified])
qed

lemma sample_sync_parse: "manifest_parse sync_master [10] = Ok sample_manifest"
  by (simp add: manifest_parse_iff sample_manifest_ok MAX_MANIFEST_def)

lemma sample_target_valid: "published_validate sync_master (sample_published ''master-9'') sample_scope = Ok ()"
proof -
  have "snapshot_name ''master-9''" "successively (<) (map en_name (mf_files sample_manifest))" by code_simp+
  moreover have "\<lparr>iv_schema_version = 1, iv_version = ''1.0'', iv_files = iv_files sample_inventory\<rparr> = sample_inventory"
    by (simp add: sample_inventory_def)
  ultimately show ?thesis
    using sample_index_valid
    by (simp add: published_validate_def sample_published_def sample_sync_parse sample_scope_def master_supported_def
        content_hash_def digest_def Let_def) (simp add: sample_manifest_def)
qed

lemma sample_owner_answer:
  "8 \<le> limit \<Longrightarrow> n \<noteq> 1 \<Longrightarrow> sync_answer sample_sync_lib limit (sample_owner n q) = Ok (text_bytes ''master-9'')"
  "sync_answer sample_sync_lib 1 (sample_owner 1 q) = Ok [49]"
proof -
  have mime: "json_mime ''application/json''" by code_simp
  show "8 \<le> limit \<Longrightarrow> n \<noteq> 1 \<Longrightarrow> sync_answer sample_sync_lib limit (sample_owner n q) = Ok (text_bytes ''master-9'')"
    by (simp add: sync_answer_def sample_owner_def header_get_def mime)
  show "sync_answer sample_sync_lib 1 (sample_owner 1 q) = Ok [49]"
    by (simp add: sync_answer_def sample_owner_def header_get_def mime text_bytes_def byte_defs)
qed

lemma sample_owner_manifest: "n \<noteq> 1 \<Longrightarrow> owner_manifest sample_sync_lib sample_syncer sample_owner n = Ok (sample_published ''master-9'')"
  using sample_target_valid
  by (simp add: owner_manifest_def sync_download_def sample_owner_answer MAX_OWNER_MANIFEST_def sample_syncer_def)

lemma sample_sync_update:
  "sync_update sample_sync_lib sample_syncer sample_owner False False sample_sync_names Map.empty =
     Ok (SyncUpdated sync_receipt (replicate 64 CHR ''a'') 1 0, staged Map.empty ''.stage'' sync_prepared, import_steps)"
proof -
  have installed: "installed_manifest sync_master Map.empty sample_scope = None"
    by (simp add: installed_manifest_def registry_manifest_def sample_names current_snapshot_def read_text_def)
  have files: "pm_files (sample_published ''master-9'') = [\<lparr>tf_name = ''MasterA.json'', tf_size = 1, tf_sha256 = replicate 64 CHR ''a''\<rparr>]"
    by (simp add: sample_published_def sample_inventory_def)
  have stage: "stage_files sample_sync_lib sample_syncer sample_owner Map.empty (sample_published ''master-9'') None
      \<lparr>sg_folder = Map.empty, sg_downloaded = 0, sg_reused = 0\<rparr> (pm_files (sample_published ''master-9'')) =
    Ok \<lparr>sg_folder = [''MasterA.json'' \<mapsto> Plain [49]], sg_downloaded = 1, sg_reused = 0\<rparr>"
    by (simp add: files cached_table_def sync_download_def sample_owner_answer [simplified] digest_def)
  have index: "\<lparr>iv_schema_version = 1, iv_version = ''1.0'', iv_files = iv_files sample_inventory\<rparr> = sample_inventory"
    by (simp add: sample_inventory_def)
  have staged: "check_staged sync_master [''MasterA.json'' \<mapsto> Plain [49]] 0 (pm_files (sample_published ''master-9'')) = Ok 1"
    by (simp add: files within_limit_def digest_def)
  have prep: "prepare_registry sync_master [''MasterA.json'' \<mapsto> Plain [49]] (sample_published ''master-9'') ''master-2'' = Ok sync_prepared"
    using sample_target_valid staged index
    by (simp add: prepare_registry_def sample_published_def Let_def sync_prepared_def sync_receipt_def sample_scope_def)
      (simp add: sample_inventory_def)
  have receipt: "pi_receipt sync_prepared = sync_receipt" by (simp add: sync_prepared_def stage_documents_def)
  have pub: "publish sync_master (staged Map.empty ''.stage'' sync_prepared) 7 ''.stage'' ''.tmp'' sync_prepared = Ok (import_steps, sync_receipt)"
    by (simp add: publish_def predecessor_def staged_def receipt Let_def import_steps_def) (simp add: sync_receipt_def)
  have fields: "sn_scope sample_syncer = sample_scope" "pm_content_sha256 (sample_published ''master-9'') = replicate 64 CHR ''a''"
    by (simp_all add: sample_syncer_def sample_published_def)
  show ?thesis
    by (simp add: sync_update_def sample_owner_manifest sync_unchanged_def sample_sync_names_def storage_def Let_def
        fields installed stage [simplified] prep pub)
qed

lemma sample_sync_written:
  "staged_written sync_master (staged Map.empty ''.stage'' sync_prepared) ''.stage'' sync_receipt"
  "publication_written sync_master (publish_record sync_receipt None 7)"
  by (auto simp: staged_written_def receipt_written_def inventory_written_def MAX_INDEX_def sync_prepared_def
      stage_documents_def staged_def publication_written_def split: if_splits)

lemma sample_sync_fresh: "fresh_names Map.empty ''master-2'' ''.stage'' ''.tmp''"
  using sample_import_fresh by (simp add: fresh_names_def)

lemma sample_sync_published:
  "published_of sync_master sample_scope ''master-2'' ((pi_staging sync_prepared)(''publication.json'' \<mapsto> l)) =
     Ok (sample_published ''master-2'')"
proof -
  let ?d = "(pi_staging sync_prepared)(''publication.json'' \<mapsto> l)"
  have "source_with_provenance sync_master (rc_snapshot sync_receipt) ?d =
      Ok (sample_manifest, rc_resource_version sync_receipt, rc_region sync_receipt)"
    by (rule provenance_of_receipt [OF _ sample_sync_parse])
      (simp_all add: sync_prepared_def stage_documents_def receipt_written_def sync_receipt_def
        sample_manifest_def master_supported_def)
  then have source: "source_with_provenance sync_master ''master-2'' ?d = Ok (sample_manifest, None, En)"
    by (simp add: sync_receipt_def)
  have "read_inventory sync_master (regular sync_master (Some (Plain [11])) MAX_INDEX) = Ok sample_inventory"
    by (simp add: read_inventory_def within_limit_def MAX_INDEX_def)
  then have index: "inventory_of sync_master ?d sample_manifest = Ok sample_inventory"
    using sample_index_valid by (simp add: inventory_of_def sync_prepared_def stage_documents_def)
  have sorted: "sort_manifest sample_manifest = sample_manifest" by (simp add: sort_manifest_def sample_manifest_def)
  show ?thesis
    using source index by (simp add: published_of_def sorted sample_scope_def Let_def content_hash_def digest_def)
      (simp add: sample_published_def sample_manifest_def sample_scope_def)
qed


theorem synchronization_survives_interruption_witness:
  "\<exists>root'. crash (staged Map.empty ''.stage'' sync_prepared) import_steps root' \<and>
     (predecessor sync_master root' = Ok None \<or> predecessor sync_master root' = Ok (Some ''master-2''))"
proof -
  have crash: "crash (staged Map.empty ''.stage'' sync_prepared) import_steps
      (fold apply_step (take 3 import_steps) (staged Map.empty ''.stage'' sync_prepared))"
    unfolding import_steps_def by (simp add: crash.intros)
  have "predecessor sync_master Map.empty = Ok None" by (simp add: predecessor_def)
  then show ?thesis
    using synchronization_survives_interruption [OF sample_sync_update _ _ crash] crash
    by (simp add: sample_sync_names_def sample_sync_fresh sample_sync_written) blast
qed

end
