(* ===== verification/Table_Reads.thy ===== *)
theory Table_Reads
  imports Master_Store
begin

section \<open>Admission of table reads (src/master_admission.rs)\<close>

text \<open>
  A table read loads a whole file and keeps it until the connection has taken its last byte.  A gate of 16
  permits bounds how many such tables a process holds.  A response of status 200 carries its permit in
  its body, which hands the table on in copies of at most 64 KiB; the permit goes with the body.

  The body \<open>Held\<close> is a function from one poll to the next; a poll that finds the inner body not ready changes nothing
  and is left out.  The gate is a step relation over the requests: the semaphore of the runtime grants a permit
  when fewer than 16 are held, a request may be cancelled at any time, and a read that already runs in
  a blocking task keeps its permit until the task ends.
\<close>

definition TABLE_READS :: nat where "TABLE_READS = 16"
definition CHUNK :: nat where "CHUNK = 64 * 1024"

subsection \<open>The body that holds a permit\<close>

datatype frame = DataFrame "u8 list" | Trailers

record held =
  hd_inner :: "frame list"
  hd_pending :: "u8 list"

definition emit_chunk :: "held \<Rightarrow> frame option \<times> held" where
  "emit_chunk h =
     (let n = min (length (hd_pending h)) CHUNK in
      (Some (DataFrame (take n (hd_pending h))), h\<lparr>hd_pending := drop n (hd_pending h)\<rparr>))"

definition poll_frame :: "held \<Rightarrow> frame option \<times> held" where
  "poll_frame h =
     (if hd_pending h = []
      then case hd_inner h of
             [] \<Rightarrow> (None, h)
           | DataFrame d # fs \<Rightarrow>
               if CHUNK < length d then emit_chunk (h\<lparr>hd_inner := fs, hd_pending := d\<rparr>)
               else (Some (DataFrame d), h\<lparr>hd_inner := fs\<rparr>)
           | Trailers # fs \<Rightarrow> (Some Trailers, h\<lparr>hd_inner := fs\<rparr>)
      else emit_chunk h)"

definition is_end_stream :: "held \<Rightarrow> bool" where
  "is_end_stream h \<longleftrightarrow> hd_pending h = [] \<and> hd_inner h = []"

fun frame_bytes :: "frame \<Rightarrow> u8 list" where
  "frame_bytes (DataFrame d) = d"
| "frame_bytes Trailers = []"

definition size_hint :: "nat \<times> nat option \<Rightarrow> held \<Rightarrow> nat \<times> nat option" where
  \<comment> \<open>the lower and the upper bound of the inner body, and what is pending\<close>
  "size_hint inner h =
     (fst inner + length (hd_pending h), map_option (\<lambda>u. u + length (hd_pending h)) (snd inner))"

definition remaining :: "held \<Rightarrow> u8 list" where
  "remaining h = hd_pending h @ concat (map frame_bytes (hd_inner h))"

definition held_work :: "held \<Rightarrow> nat" where
  "held_work h = length (hd_pending h) + length (concat (map frame_bytes (hd_inner h))) + 2 * length (hd_inner h)"

lemma CHUNK_pos: "0 < CHUNK"
  by (simp add: CHUNK_def)

lemma emit_chunk_parts:
  "emit_chunk h = (f, h') \<Longrightarrow> hd_pending h \<noteq> [] \<Longrightarrow>
     (\<exists>d. f = Some (DataFrame d) \<and> d \<noteq> [] \<and> length d \<le> CHUNK \<and> hd_pending h = d @ hd_pending h') \<and> hd_inner h' = hd_inner h"
  using CHUNK_pos by (auto simp: emit_chunk_def Let_def min_def)

lemma poll_frame_parts:
  assumes "poll_frame h = (f, h')"
  shows "(f = None \<longrightarrow> remaining h = [] \<and> hd_inner h = [] \<and> h' = h) \<and>
    (\<forall>g. f = Some g \<longrightarrow> length (frame_bytes g) \<le> CHUNK \<and> remaining h = frame_bytes g @ remaining h' \<and>
       held_work h' < held_work h)"
proof (cases "hd_pending h = []")
  case False
  from emit_chunk_parts [of h f h'] assms False obtain d where
    "f = Some (DataFrame d)" "d \<noteq> []" "length d \<le> CHUNK" "hd_pending h = d @ hd_pending h'" "hd_inner h' = hd_inner h"
    by (auto simp: poll_frame_def)
  then show ?thesis by (simp add: remaining_def held_work_def)
next
  case pending: True
  show ?thesis
  proof (cases "hd_inner h")
    case Nil
    then show ?thesis using assms pending by (simp add: poll_frame_def remaining_def)
  next
    case (Cons g fs)
    show ?thesis
    proof (cases "\<exists>d. g = DataFrame d \<and> CHUNK < length d")
      case True
      then obtain d where d: "g = DataFrame d" "CHUNK < length d" by blast
      let ?h = "h\<lparr>hd_inner := fs, hd_pending := d\<rparr>"
      have "hd_pending ?h \<noteq> []" using d(2) CHUNK_pos by auto
      moreover have "emit_chunk ?h = (f, h')" using assms pending Cons d by (simp add: poll_frame_def)
      ultimately obtain c where "f = Some (DataFrame c)" "length c \<le> CHUNK" "d = c @ hd_pending h'" "hd_inner h' = fs"
        using emit_chunk_parts [of ?h f h'] by auto
      then show ?thesis using pending Cons d(1) by (simp add: remaining_def held_work_def)
    next
      case False
      then have "f = Some g" "h' = h\<lparr>hd_inner := fs\<rparr>" "length (frame_bytes g) \<le> CHUNK"
        using assms pending Cons by (auto simp: poll_frame_def split: frame.splits if_splits)
      then show ?thesis using pending Cons by (simp add: remaining_def held_work_def)
    qed
  qed
qed

function drain :: "held \<Rightarrow> frame list" where
  \<comment> \<open>every frame a connection takes, poll after poll\<close>
  "drain h = (case poll_frame h of (None, _) \<Rightarrow> [] | (Some f, h') \<Rightarrow> f # drain h')"
  by pat_completeness auto

termination drain
proof (relation "measure held_work")
  fix h x y g assume "(x, y) = poll_frame h" "x = Some g"
  then show "(y, h) \<in> measure held_work" using poll_frame_parts [of h x y] by simp
qed simp

declare drain.simps [simp del]

definition exact_hint :: "nat \<times> nat option \<Rightarrow> held \<Rightarrow> bool" where
  \<comment> \<open>the inner body knows its length\<close>
  "exact_hint inner h \<longleftrightarrow>
     inner = (length (concat (map frame_bytes (hd_inner h))), Some (length (concat (map frame_bytes (hd_inner h)))))"

lemma drain_frames:
  "concat (map frame_bytes (drain h)) = remaining h \<and> list_all (\<lambda>f. length (frame_bytes f) \<le> CHUNK) (drain h)"
proof (induction h rule: drain.induct)
  case (1 h)
  obtain f h' where p: "poll_frame h = (f, h')" by (cases "poll_frame h")
  note P = poll_frame_parts [OF p]
  show ?case
  proof (cases f)
    case None
    then show ?thesis using P by (simp add: drain.simps [of h] p)
  next
    case (Some g)
    then have "concat (map frame_bytes (drain h')) = remaining h' \<and> list_all (\<lambda>f. length (frame_bytes f) \<le> CHUNK) (drain h')"
      using 1 [OF p [symmetric] Some] by blast
    then show ?thesis using P Some by (simp add: drain.simps [of h] p)
  qed
qed

subsection \<open>The gate\<close>

datatype read_phase =
    Queued
  | Reading bool "u8 list" \<comment> \<open>whether the request is still there, and the table the blocking task loads\<close>
  | SendingBody held
  | Finished

type_synonym reads = "nat \<Rightarrow> read_phase"

fun holds_permit :: "read_phase \<Rightarrow> bool" where
  "holds_permit Queued = False"
| "holds_permit (Reading _ _) = True"
| "holds_permit (SendingBody _) = True"
| "holds_permit Finished = False"

fun phase_bytes :: "read_phase \<Rightarrow> u8 list" where
  "phase_bytes (Reading _ bs) = bs"
| "phase_bytes (SendingBody h) = remaining h"
| "phase_bytes _ = []"

definition holders :: "reads \<Rightarrow> nat set" where
  "holders s = {i. holds_permit (s i)}"

definition attach :: "nat \<Rightarrow> u8 list \<Rightarrow> read_phase" where
  \<comment> \<open>a 200 carries the permit in its body; any other response releases it\<close>
  "attach status bs = (if status \<noteq> 200 then Finished else SendingBody \<lparr>hd_inner = [DataFrame bs], hd_pending = []\<rparr>)"

inductive read_gate_step :: "reads \<Rightarrow> reads \<Rightarrow> bool" where
  admit: "s i = Queued \<Longrightarrow> card (holders s) < TABLE_READS \<Longrightarrow> length bs \<le> MAX_JSON \<Longrightarrow>
    read_gate_step s (s(i := Reading True bs))"
| wait_expired: "s i = Queued \<Longrightarrow> read_gate_step s (s(i := Finished))"
| cancel_reading: "s i = Reading True bs \<Longrightarrow> read_gate_step s (s(i := Reading False bs))"
| read_done: "s i = Reading True bs \<Longrightarrow> read_gate_step s (s(i := attach status bs))"
| orphan_done: "s i = Reading False bs \<Longrightarrow> read_gate_step s (s(i := Finished))"
| polled: "s i = SendingBody h \<Longrightarrow> poll_frame h = (Some f, h') \<Longrightarrow>
    read_gate_step s (s(i := (if is_end_stream h' then Finished else SendingBody h')))"
| body_dropped: "s i = SendingBody h \<Longrightarrow> read_gate_step s (s(i := Finished))"

definition read_gate_reach :: "reads \<Rightarrow> bool" where
  "read_gate_reach s \<longleftrightarrow> (\<exists>s0. (\<forall>i. s0 i \<in> {Queued, Finished}) \<and> read_gate_step\<^sup>*\<^sup>* s0 s)"

definition read_gate_inv :: "reads \<Rightarrow> bool" where
  "read_gate_inv s \<longleftrightarrow> finite (holders s) \<and> card (holders s) \<le> TABLE_READS \<and> (\<forall>i. length (phase_bytes (s i)) \<le> MAX_JSON)"

lemma read_gate_invI:
  "finite (holders s) \<Longrightarrow> card (holders s) \<le> TABLE_READS \<Longrightarrow> (\<And>i. length (phase_bytes (s i)) \<le> MAX_JSON) \<Longrightarrow> read_gate_inv s"
  by (simp add: read_gate_inv_def)

lemma holders_update: "holders (s(i := p)) = (if holds_permit p then insert i (holders s) else holders s - {i})"
  by (auto simp: holders_def)

lemma read_gate_inv_update:
  assumes "read_gate_inv s" "holds_permit (s i)" "length (phase_bytes p) \<le> MAX_JSON"
  shows "read_gate_inv (s(i := p))"
proof -
  have "i \<in> holders s" using assms(2) by (simp add: holders_def)
  then have "finite (holders (s(i := p)))" "card (holders (s(i := p))) \<le> card (holders s)"
    using assms(1) by (auto simp: holders_update read_gate_inv_def insert_absorb card_Diff1_le)
  then show ?thesis using assms by (auto simp: read_gate_inv_def)
qed

lemma polled_bytes:
  assumes "poll_frame h = (Some f, h')" shows "length (remaining h') \<le> length (remaining h)"
  using poll_frame_parts [OF assms] by auto

lemma read_gate_step_inv: "read_gate_step s s' \<Longrightarrow> read_gate_inv s \<Longrightarrow> read_gate_inv s'"
proof (induction rule: read_gate_step.induct)
  case (admit s i bs)
  then have "i \<notin> holders s" by (simp add: holders_def)
  moreover have "holders (s(i := Reading True bs)) = insert i (holders s)" by (simp add: holders_update)
  ultimately have "finite (holders (s(i := Reading True bs)))" "card (holders (s(i := Reading True bs))) \<le> TABLE_READS"
    using admit by (simp_all add: read_gate_inv_def)
  then show ?case by (rule read_gate_invI) (use admit in \<open>simp add: read_gate_inv_def\<close>)
next
  case (wait_expired s i)
  then have "holders (s(i := Finished)) = holders s" by (auto simp: holders_update) (simp add: holders_def)
  then have "finite (holders (s(i := Finished)))" "card (holders (s(i := Finished))) \<le> TABLE_READS"
    using wait_expired by (simp_all add: read_gate_inv_def)
  then show ?case by (rule read_gate_invI) (use wait_expired in \<open>simp add: read_gate_inv_def\<close>)
next
  case (polled s i h f h')
  have "length (remaining h) \<le> MAX_JSON" using polled(1,3) unfolding read_gate_inv_def by (metis phase_bytes.simps(2))
  then have "length (phase_bytes (if is_end_stream h' then Finished else SendingBody h')) \<le> MAX_JSON"
    using polled_bytes [OF polled(2)] by simp
  then show ?case using polled by (intro read_gate_inv_update) simp_all
next
  case (read_done s i bs status)
  have "length (phase_bytes (Reading True bs)) \<le> MAX_JSON" using read_done unfolding read_gate_inv_def by metis
  then show ?case using read_done by (intro read_gate_inv_update) (simp_all add: attach_def remaining_def)
next
  case (cancel_reading s i bs)
  have "length (phase_bytes (Reading True bs)) \<le> MAX_JSON" using cancel_reading unfolding read_gate_inv_def by metis
  then show ?case using cancel_reading by (intro read_gate_inv_update) simp_all
qed (auto intro: read_gate_inv_update)

lemma read_gate_reach_inv: "read_gate_reach s \<Longrightarrow> read_gate_inv s"
proof -
  assume "read_gate_reach s"
  then obtain s0 where s0: "\<forall>i. s0 i \<in> {Queued, Finished}" "read_gate_step\<^sup>*\<^sup>* s0 s" by (auto simp: read_gate_reach_def)
  have "\<not> holds_permit (s0 i) \<and> phase_bytes (s0 i) = []" for i using s0(1) [rule_format, of i] by auto
  then have "read_gate_inv s0" by (simp add: read_gate_inv_def holders_def)
  with s0(2) show ?thesis by (induction rule: rtranclp_induct) (auto intro: read_gate_step_inv)
qed



end
