(* ===== verification/Master_Http.thy ===== *)
theory Master_Http
  imports Master_Sync Table_Reads
begin

section \<open>Master data over HTTP (src/api.rs, src/master_bundle.rs)\<close>

text \<open>
  The responses that carry Master documents: conditional reads by entity tag, reads through the pointer, reads
  of pinned snapshots, history pages, lookups by content, and the archive of a whole snapshot.  An admission of
  \<open>Table_Reads\<close> comes before a table read; here it is its result.  The \<open>tar\<close> library is an argument: the
  bytes it writes for an entry and at the end.  A blocking task that panics is not modelled.
\<close>

subsection \<open>Documents\<close>

record http_lib =
  hl_to_str :: "string \<Rightarrow> string option"
  hl_header_ok :: "string \<Rightarrow> bool"

record doc_response =
  dr_status :: nat
  dr_headers :: "(string \<times> string) list"
  dr_body :: "u8 list"

definition strip_weak :: "string \<Rightarrow> string" where
  \<comment> \<open>\<open>strip_prefix("W/").unwrap_or(item)\<close>\<close>
  "strip_weak s = (if starts_with s ''W/'' then drop 2 s else s)"

definition etag_matches :: "http_lib \<Rightarrow> (string \<times> string) list \<Rightarrow> string \<Rightarrow> bool" where
  "etag_matches H headers etag =
     (case Option.bind (header_get headers ''if-none-match'') (hl_to_str H) of
        None \<Rightarrow> False
      | Some v \<Rightarrow> list_ex (\<lambda>item. strip_weak (trim_blanks item) = etag \<or> trim_blanks item = ''*'')
                    (split_text (CHR '','') v))"

definition registry_document_response ::
  "http_lib \<Rightarrow> registry_document \<Rightarrow> (string \<times> string) list \<Rightarrow> bool \<Rightarrow> app_error + doc_response" where
  "registry_document_response H document headers pinned =
     (let unchanged = etag_matches H headers (rd_etag document) in
      if \<not> hl_header_ok H (rd_etag document) \<or> \<not> hl_header_ok H (rd_version document) then Err MasterUnavailable
      else Ok \<lparr>dr_status = (if unchanged then 304 else 200),
               dr_headers = [(''content-type'', ''application/json''), (''etag'', rd_etag document),
                 (''x-master-version'', rd_version document),
                 (''cache-control'', if pinned then ''private, max-age=31536000, immutable'' else ''private, no-cache'')],
               dr_body = (if unchanged then [] else rd_bytes document)\<rparr>)"

definition file_error :: "MasterError \<Rightarrow> app_error" where
  "file_error e = (case e of MasterNotFound \<Rightarrow> NotFound | _ \<Rightarrow> MasterUnavailable)"

definition from_files :: "MasterError + 'a \<Rightarrow> app_error + 'a" where
  "from_files r = (case r of Inl e \<Rightarrow> Err (file_error e) | Inr x \<Rightarrow> Ok x)"

subsection \<open>The handlers of the game API\<close>

record master_api =
  ma_root :: "disk option" \<comment> \<open>the contents of \<open>master_directory\<close>, when configured\<close>
  ma_scope :: master_scope

definition master_document_response ::
  "master_lib \<Rightarrow> http_lib \<Rightarrow> master_api \<Rightarrow> app_error + unit \<Rightarrow> string option \<Rightarrow> (string \<times> string) list \<Rightarrow>
     app_error + doc_response" where
  \<comment> \<open>\<open>admission\<close>: the result of waiting at the table gate, asked for only when a table is read\<close>
  "master_document_response L H A admission tab headers =
     (case ma_root A of
        None \<Rightarrow> Err MasterUnavailable
      | Some root \<Rightarrow>
          then_result (if tab = None then Ok () else admission) (\<lambda>_.
          then_result (from_files (read_current_in L root tab (sc_region (ma_scope A)))) (\<lambda>d.
            registry_document_response H
              \<lparr>rd_bytes = mdoc_bytes d, rd_etag = ''\"'' @ mdoc_sha256 d @ ''\"'', rd_version = mdoc_version d\<rparr>
              headers False)))"

definition registry_response ::
  "master_lib \<Rightarrow> http_lib \<Rightarrow> master_api \<Rightarrow> app_error + unit \<Rightarrow> string option \<Rightarrow> (string \<times> string) option \<Rightarrow>
     (string \<times> string) list \<Rightarrow> app_error + doc_response" where
  "registry_response L H A admission snapshot tab headers =
     (case ma_root A of
        None \<Rightarrow> Err MasterUnavailable
      | Some root \<Rightarrow>
          then_result (if tab = None then Ok () else admission) (\<lambda>_.
          then_result (from_files
            (case tab of
               Some (name, hash) \<Rightarrow>
                 (case snapshot of
                    None \<Rightarrow> Err MasterFormat
                  | Some s \<Rightarrow> registry_table L root (sc_region (ma_scope A)) s name hash)
             | None \<Rightarrow> registry_manifest L root snapshot (ma_scope A))) (\<lambda>document.
            registry_document_response H document headers (tab \<noteq> None))))"

definition registry_by_hash ::
  "master_lib \<Rightarrow> http_lib \<Rightarrow> master_api \<Rightarrow> string \<Rightarrow> (string \<times> string) list \<Rightarrow> app_error + doc_response" where
  "registry_by_hash L H A hash headers =
     (if \<not> hash_valid hash then Err InvalidRequest
      else case ma_root A of
        None \<Rightarrow> Err MasterUnavailable
      | Some root \<Rightarrow>
          then_result (from_files (manifest_by_hash L root (ma_scope A) hash)) (\<lambda>document.
            registry_document_response H document headers False))"

definition registry_history ::
  "master_lib \<Rightarrow> master_api \<Rightarrow> nat \<Rightarrow> string option \<Rightarrow> app_error + history" where
  \<comment> \<open>the page, which the response carries as JSON\<close>
  "registry_history L A limit before =
     (if \<not> (1 \<le> limit \<and> limit \<le> 100) \<or> (\<exists>v \<in> set_option before. \<not> valid_history_cursor v) then Err InvalidRequest
      else case ma_root A of
        None \<Rightarrow> Err MasterUnavailable
      | Some root \<Rightarrow> from_files (history_page L root (ma_scope A) limit before))"

subsection \<open>Archives\<close>

definition MAX_ARCHIVE :: nat where "MAX_ARCHIVE = 528 * 1024 * 1024"
definition MAX_BUNDLE_MANIFEST :: nat where "MAX_BUNDLE_MANIFEST = 4 * 1024 * 1024"

record tar_lib =
  tl_entry :: "string \<Rightarrow> u8 list \<Rightarrow> u8 list option" \<comment> \<open>header, data and padding of a regular file; \<open>None\<close> for a name it refuses\<close>
  tl_end :: "u8 list"

definition archive_write :: "u8 list \<Rightarrow> u8 list \<Rightarrow> u8 list option" where
  \<comment> \<open>the bytes written so far, and the next ones\<close>
  "archive_write out bs = (if MAX_ARCHIVE - length out < length bs then None else Some (out @ bs))"

definition archive_append :: "tar_lib \<Rightarrow> u8 list \<Rightarrow> string \<Rightarrow> u8 list \<Rightarrow> u8 list option" where
  "archive_append T out name bs = Option.bind (tl_entry T name bs) (archive_write out)"

fun bundle_tables ::
  "master_lib \<Rightarrow> tar_lib \<Rightarrow> (table_file \<Rightarrow> app_error + u8 list) \<Rightarrow> u8 list \<Rightarrow> table_file list \<Rightarrow> app_error + u8 list" where
  "bundle_tables L T load out [] = Ok out"
| "bundle_tables L T load out (f # fs) =
     then_result (load f) (\<lambda>bs.
       if length bs \<noteq> tf_size f \<or> digest L bs \<noteq> tf_sha256 f \<or> \<not> ml_validate_json L bs then Err MasterUnavailable
       else case archive_append T out (''tables/'' @ tf_name f) bs of
              None \<Rightarrow> Err MasterUnavailable
            | Some out1 \<Rightarrow> bundle_tables L T load out1 fs)"

record archive =
  ax_bytes :: "u8 list"
  ax_etag :: string

definition bundle_build ::
  "master_lib \<Rightarrow> tar_lib \<Rightarrow> bool \<Rightarrow> (table_file \<Rightarrow> app_error + u8 list) \<Rightarrow> published_manifest \<Rightarrow> app_error + archive" where
  \<comment> \<open>\<open>expired\<close>: the 120 seconds pass before the archive is complete\<close>
  "bundle_build L T expired load m =
     (if expired then Err MasterUnavailable
      else case published_validate L m (pm_scope m) of
        Inl _ \<Rightarrow> Err MasterUnavailable
      | Inr _ \<Rightarrow>
          let bs = ml_ser_published L m in
          if MAX_BUNDLE_MANIFEST < length bs then Err MasterUnavailable
          else case archive_append T [] ''metadata/manifest.json'' bs of
                 None \<Rightarrow> Err MasterUnavailable
               | Some out \<Rightarrow>
                   then_result (bundle_tables L T load out (pm_files m)) (\<lambda>out1.
                     case archive_write out1 (tl_end T) of
                       None \<Rightarrow> Err MasterUnavailable
                     | Some done \<Rightarrow> Ok \<lparr>ax_bytes = done, ax_etag = ''\"'' @ ml_sha256 L done @ ''\"''\<rparr>))"

definition bundle_response ::
  "http_lib \<Rightarrow> archive \<Rightarrow> (string \<times> string) list \<Rightarrow> string \<Rightarrow> string \<Rightarrow> app_error + doc_response" where
  "bundle_response H a headers version hash =
     (let unchanged = etag_matches H headers (ax_etag a) in
      if \<not> hl_header_ok H (ax_etag a) \<or> \<not> hl_header_ok H version \<or> \<not> hl_header_ok H hash then Err MasterUnavailable
      else Ok \<lparr>dr_status = (if unchanged then 304 else 200),
               dr_headers = [(''content-type'', ''application/x-tar''), (''etag'', ax_etag a),
                 (''cache-control'', ''private, no-cache''), (''x-master-version'', version),
                 (''x-master-content-sha256'', hash),
                 (''content-disposition'', ''attachment; filename=\"master-'' @ hash @ ''.tar\"'')] @
                 (if unchanged then [] else [(''content-length'', decimal (length (ax_bytes a)))]),
               dr_body = (if unchanged then [] else ax_bytes a)\<rparr>)"

definition load_table :: "master_lib \<Rightarrow> disk \<Rightarrow> region \<Rightarrow> string \<Rightarrow> table_file \<Rightarrow> app_error + u8 list" where
  "load_table L root region snapshot f =
     (case strip_suffix (tf_name f) ''.json'' of
        None \<Rightarrow> Err MasterUnavailable
      | Some name \<Rightarrow>
          (case registry_table L root region snapshot name (tf_sha256 f) of
             Inl _ \<Rightarrow> Err MasterUnavailable | Inr d \<Rightarrow> Ok (rd_bytes d)))"

definition registry_bundle ::
  "master_lib \<Rightarrow> http_lib \<Rightarrow> tar_lib \<Rightarrow> master_api \<Rightarrow> bool \<Rightarrow> bool \<Rightarrow> string option \<Rightarrow> (string \<times> string) list \<Rightarrow>
     app_error + doc_response" where
  \<comment> \<open>\<open>permit\<close>: one of the two permits for archives is free\<close>
  "registry_bundle L H T A permit expired hash headers =
     (if \<exists>h \<in> set_option hash. \<not> hash_valid h then Err InvalidRequest
      else if \<not> permit then Err MasterUnavailable
      else case ma_root A of
        None \<Rightarrow> Err MasterUnavailable
      | Some root \<Rightarrow>
          then_result (from_files (case hash of
               Some h \<Rightarrow> manifest_by_hash L root (ma_scope A) h
             | None \<Rightarrow> registry_manifest L root None (ma_scope A))) (\<lambda>document.
            case ml_de_published L (rd_bytes document) of
              None \<Rightarrow> Err MasterUnavailable
            | Some m \<Rightarrow>
                then_result (bundle_build L T expired (load_table L root (sc_region (ma_scope A)) (pm_snapshot m)) m) (\<lambda>a.
                  bundle_response H a headers (pm_version m) (pm_content_sha256 m))))"

subsection \<open>What a reader gets\<close>

text \<open>The archive of a list of files, as the library lays it out.\<close>

fun archive_entries :: "tar_lib \<Rightarrow> (string \<times> u8 list) list \<Rightarrow> u8 list option" where
  "archive_entries T [] = Some []"
| "archive_entries T ((name, bs) # fs) =
     Option.bind (tl_entry T name bs) (\<lambda>e. map_option ((@) e) (archive_entries T fs))"

definition pinned_table :: "master_lib \<Rightarrow> (table_file \<Rightarrow> app_error + u8 list) \<Rightarrow> table_file \<Rightarrow> u8 list \<Rightarrow> bool" where
  "pinned_table L load f bs \<longleftrightarrow> load f = Ok bs \<and> f = file_of L (tf_name f) bs \<and> ml_validate_json L bs"

lemma archive_append_Some:
  assumes "archive_append T out name bs = Some out1"
  obtains e where "tl_entry T name bs = Some e" "out1 = out @ e" "length out \<le> MAX_ARCHIVE \<Longrightarrow> length out1 \<le> MAX_ARCHIVE"
  using assms by (auto simp: archive_append_def archive_write_def split: bind_splits if_splits)

lemma bundle_tables_Ok:
  assumes "bundle_tables L T load out fs = Ok out1"
  shows "\<exists>bss tables. list_all2 (pinned_table L load) fs bss \<and> out1 = out @ tables \<and>
    archive_entries T (zip (map (\<lambda>f. ''tables/'' @ tf_name f) fs) bss) = Some tables \<and>
    (length out \<le> MAX_ARCHIVE \<longrightarrow> length out1 \<le> MAX_ARCHIVE)"
  using assms
proof (induction fs arbitrary: out)
  case (Cons f fs)
  then obtain bs out2 where bs: "load f = Ok bs" "length bs = tf_size f" "digest L bs = tf_sha256 f" "ml_validate_json L bs"
    and app: "archive_append T out (''tables/'' @ tf_name f) bs = Some out2" and rest: "bundle_tables L T load out2 fs = Ok out1"
    by (auto simp: then_result_Ok_iff split: if_splits option.splits)
  from app obtain e where e: "tl_entry T (''tables/'' @ tf_name f) bs = Some e" "out2 = out @ e"
    "length out \<le> MAX_ARCHIVE \<longrightarrow> length out2 \<le> MAX_ARCHIVE"
    by (rule archive_append_Some) blast
  from Cons.IH [OF rest] obtain bss tables where IH: "list_all2 (pinned_table L load) fs bss" "out1 = out2 @ tables"
    "archive_entries T (zip (map (\<lambda>f. ''tables/'' @ tf_name f) fs) bss) = Some tables"
    "length out2 \<le> MAX_ARCHIVE \<longrightarrow> length out1 \<le> MAX_ARCHIVE" by blast
  have "f = file_of L (tf_name f) bs" using bs by (cases f) (simp add: file_of_def)
  then have "list_all2 (pinned_table L load) (f # fs) (bs # bss)" using bs IH(1) by (simp add: pinned_table_def)
  moreover have "archive_entries T (zip (map (\<lambda>f. ''tables/'' @ tf_name f) (f # fs)) (bs # bss)) = Some (e @ tables)"
    using e(1) IH(3) by simp
  moreover have "length out \<le> MAX_ARCHIVE \<longrightarrow> length out1 \<le> MAX_ARCHIVE" using e(3) IH(4) by blast
  ultimately show ?case using e(2) IH(2) by (metis append.assoc)
qed simp

lemma bundle_build_Ok:
  assumes "bundle_build L T expired load m = Ok a"
  obtains bss body where "list_all2 (pinned_table L load) (pm_files m) bss"
    "archive_entries T ((''metadata/manifest.json'', ml_ser_published L m) #
       zip (map (\<lambda>f. ''tables/'' @ tf_name f) (pm_files m)) bss) = Some body"
    "ax_bytes a = body @ tl_end T" "length (ax_bytes a) \<le> MAX_ARCHIVE" "ax_etag a = ''\"'' @ ml_sha256 L (ax_bytes a) @ ''\"''"
    "published_validate L m (pm_scope m) = Ok ()"
proof -
  from assms obtain out out1 full where valid: "published_validate L m (pm_scope m) = Ok ()"
    and out: "archive_append T [] ''metadata/manifest.json'' (ml_ser_published L m) = Some out"
    and tables: "bundle_tables L T load out (pm_files m) = Ok out1" and full: "archive_write out1 (tl_end T) = Some full"
    and a: "a = \<lparr>ax_bytes = full, ax_etag = ''\"'' @ ml_sha256 L full @ ''\"''\<rparr>"
    by (auto simp: bundle_build_def Let_def then_result_Ok_iff split: if_splits option.splits sum.splits)
  from out obtain e where e: "tl_entry T ''metadata/manifest.json'' (ml_ser_published L m) = Some e" "out = e" "length out \<le> MAX_ARCHIVE"
    by (rule archive_append_Some) simp
  from bundle_tables_Ok [OF tables] obtain bss body where t: "list_all2 (pinned_table L load) (pm_files m) bss" "out1 = out @ body"
    "archive_entries T (zip (map (\<lambda>f. ''tables/'' @ tf_name f) (pm_files m)) bss) = Some body"
    "length out1 \<le> MAX_ARCHIVE" using e(3) by blast
  have "full = out1 @ tl_end T" "length full \<le> MAX_ARCHIVE" using full t(4) by (auto simp: archive_write_def split: if_splits)
  then show thesis using that [OF t(1), of "e @ body"] t e valid by (simp add: a)
qed


subsection \<open>A sample archive\<close>

definition sample_http :: http_lib where
  "sample_http = \<lparr>hl_to_str = Some, hl_header_ok = (\<lambda>_. True)\<rparr>"

definition sample_tar :: tar_lib where
  "sample_tar = \<lparr>tl_entry = (\<lambda>name bs. Some (text_bytes name @ bs)), tl_end = [0]\<rparr>"

definition sample_api :: master_api where
  "sample_api = \<lparr>ma_root = Some sample_store, ma_scope = sample_scope\<rparr>"

lemma import_store:
  "source_with_provenance import_lib ''master-1'' sample_folder = Ok (sample_manifest, None, En)"
  "inventory_of import_lib sample_folder sample_manifest = Ok sample_inventory"
  "current_snapshot import_lib sample_store = Ok ''master-1''"
  "read_inventory import_lib (regular import_lib (sample_folder ''tables.json'') MAX_INDEX) = Ok sample_inventory"
proof -
  show "source_with_provenance import_lib ''master-1'' sample_folder = Ok (sample_manifest, None, En)"
    by (rule sample_provenance_in) simp_all
  show index: "read_inventory import_lib (regular import_lib (sample_folder ''tables.json'') MAX_INDEX) = Ok sample_inventory"
    by (simp add: within_limit_def sample_folder_def MAX_INDEX_def read_inventory_def)
  show "inventory_of import_lib sample_folder sample_manifest = Ok sample_inventory"
    unfolding inventory_of_def using index sample_index_valid by (simp add: sample_folder_def)
  have "regular import_lib (node_leaf (sample_store ''CURRENT'')) 128 = Ok (text_bytes ''master-1'')"
    by (simp add: within_limit_def sample_store_def)
  moreover have "from_utf8 (text_bytes ''master-1'') = Some ''master-1''" by code_simp
  ultimately show "current_snapshot import_lib sample_store = Ok ''master-1''"
    by (simp add: current_snapshot_def read_text_def sample_dir)
qed

lemma import_store_manifest:
  "registry_manifest import_lib sample_store None sample_scope =
     Ok \<lparr>rd_bytes = text_bytes ''master-1'', rd_etag = ''\"'' @ replicate 64 CHR ''a'' @ ''\"'', rd_version = ''1.0''\<rparr>"
  using sample_published_of [OF import_store(1,2)]
  by (simp add: registry_manifest_def sample_names import_store sample_dir Let_def digest_def)
    (simp add: sample_published_def)

lemma import_published_valid: "published_validate import_lib (sample_published ''master-1'') sample_scope = Ok ()"
proof -
  have "manifest_parse import_lib [10] = Ok sample_manifest"
    by (simp add: manifest_parse_iff sample_manifest_ok MAX_MANIFEST_def)
  moreover have "ml_ser_manifest import_lib m = [10]" for m by (simp add: import_lib_def sample_store_lib_def)
  moreover have "successively (<) (map en_name (mf_files sample_manifest))" by code_simp
  moreover have "\<lparr>iv_schema_version = 1, iv_version = ''1.0'', iv_files = iv_files sample_inventory\<rparr> = sample_inventory"
    by (simp add: sample_inventory_def)
  ultimately show ?thesis
    using sample_index_valid
    by (simp add: published_validate_def sample_published_def sample_scope_def master_supported_def
        content_hash_def digest_def Let_def sample_names) (simp add: sample_manifest_def)
qed

lemma import_store_table:
  "registry_table import_lib sample_store En ''master-1'' ''MasterA'' (replicate 64 CHR ''a'') =
     Ok \<lparr>rd_bytes = [5], rd_etag = ''\"'' @ replicate 64 CHR ''a'' @ ''\"'', rd_version = ''1.0''\<rparr>"
proof -
  have bytes: "regular import_lib (sample_folder ''MasterA.json'') MAX_JSON = Ok [5]"
    by (simp add: within_limit_def sample_folder_def MAX_JSON_def)
  have index: "verify_indexed_digest import_lib sample_folder sample_manifest ''MasterA'' (Suc 0) (replicate 64 CHR ''a'') = Ok True"
    unfolding verify_indexed_digest_def using import_store(4) sample_index_valid
    by (simp add: sample_folder_def sample_inventory_def)
  have has: "has_table sample_manifest ''MasterA''" "mf_version sample_manifest = ''1.0''"
    by (simp_all add: has_table_def sample_manifest_def)
  show ?thesis
    by (simp only: registry_table_def table_read_def sample_names sample_dir source_of_def import_store
        then_result_simps prod.case) (simp add: has bytes digest_def index)
qed

lemma sample_bundle:
  "is_ok (registry_bundle import_lib sample_http sample_tar sample_api True False None [])"
proof -
  have files: "pm_files (sample_published s) = [\<lparr>tf_name = ''MasterA.json'', tf_size = 1, tf_sha256 = replicate 64 CHR ''a''\<rparr>]"
      "pm_snapshot (sample_published s) = s" "pm_scope (sample_published s) = sample_scope" for s
    by (simp_all add: sample_published_def sample_inventory_def)
  have stem: "strip_suffix ''MasterA.json'' ''.json'' = Some ''MasterA''" by code_simp
  have load: "load_table import_lib sample_store En ''master-1'' \<lparr>tf_name = ''MasterA.json'', tf_size = 1,
      tf_sha256 = replicate 64 CHR ''a''\<rparr> = Ok [5]"
    by (simp add: load_table_def stem import_store_table)
  have "is_ok (bundle_build import_lib sample_tar False (load_table import_lib sample_store En ''master-1'') (sample_published ''master-1''))"
    using import_published_valid load
    by (simp add: bundle_build_def files MAX_BUNDLE_MANIFEST_def archive_append_def archive_write_def sample_tar_def
        MAX_ARCHIVE_def Let_def digest_def)
  then obtain a where "bundle_build import_lib sample_tar False (load_table import_lib sample_store En ''master-1'')
      (sample_published ''master-1'') = Ok a" by (auto simp: is_ok_iff)
  then show ?thesis
    by (simp add: registry_bundle_def sample_api_def import_store_manifest from_files_def sample_scope_def [symmetric] files
        bundle_response_def sample_http_def Let_def) (simp add: sample_scope_def)
qed


end
