(* ===== verification/Master_Database.thy ===== *)
theory Master_Database
  imports Master_Http
begin

section \<open>The database mirror (src/master_database.rs)\<close>

text \<open>
  Verified snapshots of the registry, mirrored into PostgreSQL.  The database is its tables: lists of rows in the
  order of their insertion.  Every writer takes one advisory lock, so writing transactions are functions on the whole
  database, and a reader works on one state of it (repeatable read).  A statement or the commit may fail: nothing is
  then changed but the sequence of event ids, which PostgreSQL never rolls back; or the commit may happen and
  its answer be lost.  The argument \<open>db_lib\<close> holds what PostgreSQL and serde give: the text of a scope, what a
  \<open>JSONB\<close> column returns for a stored value, the collation of names, and the rendering of times.
\<close>

subsection \<open>Configuration\<close>

datatype db_error =
  DbNotFound | DbInvalidRequest | DbConfig | DbSecret | DbSnapshot | DbDatabase | DbTimeout | DbIntegrity

record db_config =
  dc_host :: string
  dc_port :: nat
  dc_database :: string
  dc_username :: string
  dc_password_env :: string
  dc_root_certificate :: "string option"
  dc_plaintext_loopback :: bool
  dc_timeout_seconds :: nat
  dc_read_timeout_seconds :: "nat option"
  dc_keep_snapshots :: nat
  dc_max_read_connections :: nat

record host_lib =
  hb_env :: env_lib
  hb_loopback :: "string \<Rightarrow> bool" \<comment> \<open>the text is an IP address, and a loopback one\<close>
  hb_file :: "string \<Rightarrow> nat option" \<comment> \<open>the length of a regular file that is not a link\<close>

definition db_text :: "string \<Rightarrow> bool" where
  "db_text s \<longleftrightarrow> s \<noteq> [] \<and> length s \<le> 256 \<and> \<not> has_control s"

definition secret_name :: "string \<Rightarrow> bool" where
  "secret_name s \<longleftrightarrow> s \<noteq> [] \<and> length s \<le> 128 \<and> list_all (\<lambda>b. ascii_alphanumeric b \<or> b = CHR ''_'') s"

definition db_validate :: "host_lib \<Rightarrow> db_config \<Rightarrow> db_error + unit" where
  "db_validate B c =
     (if \<not> db_text (dc_host c) \<or> list_ex (\<lambda>b. b \<in> set ''/@?# '' \<or> b = CHR 92) (dc_host c) \<or>
         \<not> db_text (dc_database c) \<or> \<not> db_text (dc_username c) \<or> dc_port c = 0 \<or>
         \<not> secret_name (dc_password_env c) \<or>
         \<not> (1 \<le> dc_timeout_seconds c \<and> dc_timeout_seconds c \<le> 600) \<or>
         (\<exists>s \<in> set_option (dc_read_timeout_seconds c). \<not> (1 \<le> s \<and> s \<le> 600)) \<or>
         \<not> (1 \<le> dc_keep_snapshots c \<and> dc_keep_snapshots c \<le> 10000) \<or>
         \<not> (1 \<le> dc_max_read_connections c \<and> dc_max_read_connections c \<le> 64) \<or>
         (dc_plaintext_loopback c \<and> \<not> hb_loopback B (dc_host c)) \<or>
         (dc_plaintext_loopback c \<and> dc_root_certificate c \<noteq> None)
      then Err DbConfig
      else case dc_root_certificate c of
        None \<Rightarrow> Ok ()
      | Some path \<Rightarrow>
          (case hb_file B path of
             None \<Rightarrow> Err DbConfig
           | Some len \<Rightarrow> if 1024 * 1024 < len \<or> len = 0 then Err DbConfig else Ok ()))"

definition read_timeout :: "db_config \<Rightarrow> nat" where
  "read_timeout c = (case dc_read_timeout_seconds c of Some s \<Rightarrow> s | None \<Rightarrow> min (dc_timeout_seconds c) 30)"

definition INHERITED_LIBPQ_VARIABLES :: "string list" where
  "INHERITED_LIBPQ_VARIABLES = [''PGSSLROOTCERT'', ''PGSSLCERT'', ''PGSSLKEY'', ''PGOPTIONS'']"

definition ambient_libpq_configuration :: "(string \<Rightarrow> bool) \<Rightarrow> bool" where
  "ambient_libpq_configuration is_set = list_ex is_set INHERITED_LIBPQ_VARIABLES"

record pg_options =
  po_host :: string
  po_port :: nat
  po_database :: string
  po_username :: string
  po_password :: string
  po_verify_full :: bool
  po_root_certificate :: "string option"
  po_deadline_ms :: nat

definition connect_options :: "host_lib \<Rightarrow> db_config \<Rightarrow> nat \<Rightarrow> db_error + pg_options" where
  \<comment> \<open>\<open>deadline\<close> in seconds\<close>
  "connect_options B c deadline =
     then_result (db_validate B c) (\<lambda>_.
       if ambient_libpq_configuration (\<lambda>name. el_env (hb_env B) name \<noteq> None) then Err DbConfig
       else case el_env (hb_env B) (dc_password_env c) of
         None \<Rightarrow> Err DbSecret
       | Some password \<Rightarrow>
           if password = [] \<or> 4096 < length password then Err DbSecret
           else Ok \<lparr>po_host = dc_host c, po_port = dc_port c, po_database = dc_database c,
                    po_username = dc_username c, po_password = password,
                    po_verify_full = (\<not> dc_plaintext_loopback c),
                    po_root_certificate = dc_root_certificate c, po_deadline_ms = 1000 * deadline\<rparr>)"

subsection \<open>The tables\<close>

record snap_row =
  sr_scope :: string
  sr_hash :: string
  sr_manifest :: "u8 list"
  sr_touched :: int

record doc_row =
  dw_scope :: string
  dw_hash :: string
  dw_name :: string
  dw_sha256 :: string
  dw_bytes :: "u8 list"
  dw_document :: json

record event_row =
  ev_id :: int
  ev_scope :: string
  ev_hash :: string
  ev_published_at :: string \<comment> \<open>as the database renders it in UTC\<close>
  ev_version :: "string option"
  ev_resource_version :: "string option"
  ev_file_count :: "int option"
  ev_total_size :: "int option"

record migration_row =
  mg_scope :: string
  mg_source_hash :: string
  mg_head :: string
  mg_publications :: nat
  mg_legacy_boundary :: bool

record master_db =
  db_schema :: bool \<comment> \<open>the tables exist\<close>
  db_snapshots :: "snap_row list"
  db_documents :: "doc_row list"
  db_history :: "event_row list"
  db_current :: "string \<Rightarrow> string option"
  db_migrations :: "migration_row list"
  db_sequence :: int \<comment> \<open>the last event id given out\<close>

record db_lib =
  dl_master :: master_lib
  dl_scope_key :: "master_scope \<Rightarrow> string"
  dl_jsonb :: "json \<Rightarrow> json option" \<comment> \<open>what the column returns; \<open>None\<close> when it refuses the value\<close>
  dl_name_le :: "string \<Rightarrow> string \<Rightarrow> bool" \<comment> \<open>the collation of \<open>ORDER BY name\<close>\<close>
  dl_time :: "instant \<Rightarrow> string" \<comment> \<open>a time, stored and rendered\<close>
  dl_parse_time :: "string \<Rightarrow> instant option"
  dl_ser_plan :: "history \<Rightarrow> u8 list" \<comment> \<open>the frozen serialization of a migration plan\<close>

definition snap_at :: "master_db \<Rightarrow> string \<Rightarrow> string \<Rightarrow> snap_row option" where
  "snap_at db scope hash = find (\<lambda>r. sr_scope r = scope \<and> sr_hash r = hash) (db_snapshots db)"

definition docs_at :: "master_db \<Rightarrow> string \<Rightarrow> string \<Rightarrow> doc_row list" where
  "docs_at db scope hash = filter (\<lambda>d. dw_scope d = scope \<and> dw_hash d = hash) (db_documents db)"

fun insert_by :: "('a \<Rightarrow> 'a \<Rightarrow> bool) \<Rightarrow> 'a \<Rightarrow> 'a list \<Rightarrow> 'a list" where
  "insert_by le x [] = [x]"
| "insert_by le x (y # ys) = (if le x y then x # y # ys else y # insert_by le x ys)"

fun order_by :: "('a \<Rightarrow> 'a \<Rightarrow> bool) \<Rightarrow> 'a list \<Rightarrow> 'a list" where
  "order_by le [] = []"
| "order_by le (x # xs) = insert_by le x (order_by le xs)"

subsection \<open>Verified snapshots\<close>

record db_snapshot =
  ds_manifest :: published_manifest
  ds_manifest_bytes :: "u8 list"
  ds_tables :: "(table_file \<times> u8 list \<times> json) list"

fun verified_tables ::
  "master_lib \<Rightarrow> disk \<Rightarrow> region \<Rightarrow> string \<Rightarrow> table_file list \<Rightarrow> db_error + (table_file \<times> u8 list \<times> json) list" where
  "verified_tables L source region snapshot [] = Ok []"
| "verified_tables L source region snapshot (f # fs) =
     (case strip_suffix (tf_name f) ''.json'' of
        None \<Rightarrow> Err DbSnapshot
      | Some name \<Rightarrow>
          (case registry_table L source region snapshot name (tf_sha256 f) of
             Inl _ \<Rightarrow> Err DbSnapshot
           | Inr data \<Rightarrow>
               if length (rd_bytes data) \<noteq> tf_size f then Err DbSnapshot
               else (case ml_de_value L (rd_bytes data) of
                 None \<Rightarrow> Err DbSnapshot
               | Some v \<Rightarrow>
                   then_result (verified_tables L source region snapshot fs) (\<lambda>ts.
                     Ok ((f, rd_bytes data, v) # ts)))))"

definition verified_snapshot :: "master_lib \<Rightarrow> disk \<Rightarrow> master_scope \<Rightarrow> string option \<Rightarrow> db_error + db_snapshot" where
  "verified_snapshot L source scope snapshot =
     (case registry_manifest L source snapshot scope of
        Inl _ \<Rightarrow> Err DbSnapshot
      | Inr document \<Rightarrow>
          (case ml_de_published L (rd_bytes document) of
             None \<Rightarrow> Err DbSnapshot
           | Some m \<Rightarrow>
               (case published_validate L m scope of
                  Inl _ \<Rightarrow> Err DbSnapshot
                | Inr _ \<Rightarrow>
                    then_result (verified_tables L source (sc_region scope) (pm_snapshot m) (pm_files m)) (\<lambda>ts.
                      Ok \<lparr>ds_manifest = m, ds_manifest_bytes = rd_bytes document, ds_tables = ts\<rparr>))))"

record db_receipt =
  dt_content_sha256 :: string
  dt_tables :: nat
  dt_bytes :: nat
  dt_changed :: bool

definition snapshot_bytes :: "db_snapshot \<Rightarrow> nat" where
  "snapshot_bytes S = sum_list (map (\<lambda>(f, _, _). tf_size f) (ds_tables S))"

definition verify_current :: "master_lib \<Rightarrow> disk \<Rightarrow> master_scope \<Rightarrow> db_error + db_receipt" where
  "verify_current L source scope =
     then_result (verified_snapshot L source scope None) (\<lambda>S.
       Ok \<lparr>dt_content_sha256 = pm_content_sha256 (ds_manifest S), dt_tables = length (ds_tables S),
           dt_bytes = snapshot_bytes S, dt_changed = False\<rparr>)"

subsection \<open>Publication\<close>

definition same_document :: "doc_row \<Rightarrow> table_file \<times> u8 list \<times> json \<Rightarrow> bool" where
  "same_document d t \<longleftrightarrow> (case t of (f, bs, v) \<Rightarrow>
     dw_name d = tf_name f \<and> dw_sha256 d = tf_sha256 f \<and> dw_bytes d = bs \<and> dw_document d = v)"

fun insert_documents ::
  "db_lib \<Rightarrow> string \<Rightarrow> string \<Rightarrow> (table_file \<times> u8 list \<times> json) list \<Rightarrow> doc_row list \<Rightarrow> db_error + doc_row list" where
  "insert_documents DL scope hash [] docs = Ok docs"
| "insert_documents DL scope hash ((f, bs, v) # ts) docs =
     (case dl_jsonb DL v of
        None \<Rightarrow> Err DbDatabase
      | Some w \<Rightarrow>
          if list_ex (\<lambda>d. dw_scope d = scope \<and> dw_hash d = hash \<and> dw_name d = tf_name f) docs then Err DbDatabase
          else insert_documents DL scope hash ts
            (docs @ [\<lparr>dw_scope = scope, dw_hash = hash, dw_name = tf_name f, dw_sha256 = tf_sha256 f,
                      dw_bytes = bs, dw_document = w\<rparr>]))"

definition update_snap :: "string \<Rightarrow> string \<Rightarrow> (snap_row \<Rightarrow> snap_row) \<Rightarrow> master_db \<Rightarrow> master_db" where
  "update_snap scope hash f db =
     db\<lparr>db_snapshots := map (\<lambda>r. if sr_scope r = scope \<and> sr_hash r = hash then f r else r) (db_snapshots db)\<rparr>"

definition store_content :: "db_lib \<Rightarrow> db_snapshot \<Rightarrow> string \<Rightarrow> master_db \<Rightarrow> db_error + master_db" where
  \<comment> \<open>the rows of the content itself: compared when they exist, inserted otherwise\<close>
  "store_content DL S scope db =
     (let m = ds_manifest S; hash = pm_content_sha256 m; L = dl_master DL in
      case snap_at db scope hash of
        Some row \<Rightarrow>
          (case ml_de_published L (sr_manifest row) of
             None \<Rightarrow> Err DbIntegrity
           | Some saved \<Rightarrow>
               (case published_validate L saved (pm_scope m) of
                  Inl _ \<Rightarrow> Err DbIntegrity
                | Inr _ \<Rightarrow>
                    if pm_content_sha256 saved \<noteq> hash then Err DbIntegrity
                    else let rows = order_by (\<lambda>a b. dl_name_le DL (dw_name a) (dw_name b)) (docs_at db scope hash) in
                      if length rows \<noteq> length (ds_tables S) \<or>
                         \<not> list_all (\<lambda>(d, t). same_document d t) (zip rows (ds_tables S))
                      then Err DbIntegrity
                      else if pm_resource_version m \<noteq> None \<and> pm_resource_version saved \<noteq> pm_resource_version m
                      then Ok (update_snap scope hash (\<lambda>r. r\<lparr>sr_manifest := ds_manifest_bytes S\<rparr>) db)
                      else Ok db))
      | None \<Rightarrow>
          then_result (insert_documents DL scope hash (ds_tables S) (db_documents db)) (\<lambda>docs.
            Ok (db\<lparr>db_snapshots := db_snapshots db @
                    [\<lparr>sr_scope = scope, sr_hash = hash, sr_manifest = ds_manifest_bytes S, sr_touched = 0\<rparr>],
                  db_documents := docs\<rparr>)))"

definition record_event ::
  "db_lib \<Rightarrow> db_snapshot \<Rightarrow> string \<Rightarrow> instant option \<Rightarrow> instant \<Rightarrow> master_db \<Rightarrow> db_error + master_db" where
  "record_event DL S scope published now db =
     (let m = ds_manifest S; hash = pm_content_sha256 m; sequence = db_sequence db + 1 in
      if 2 ^ 63 \<le> snapshot_bytes S then Err DbSnapshot
      else if 2 ^ 63 \<le> sequence then Err DbDatabase
      else Ok (update_snap scope hash (\<lambda>r. r\<lparr>sr_touched := sequence\<rparr>)
        (db\<lparr>db_history := db_history db @
              [\<lparr>ev_id = sequence, ev_scope = scope, ev_hash = hash,
                ev_published_at = dl_time DL (case published of Some t \<Rightarrow> t | None \<Rightarrow> now),
                ev_version = Some (pm_version m), ev_resource_version = pm_resource_version m,
                ev_file_count = Some (int (length (ds_tables S))), ev_total_size = Some (int (snapshot_bytes S))\<rparr>],
            db_current := (db_current db)(scope \<mapsto> hash), db_sequence := sequence\<rparr>)))"

definition touched_before :: "snap_row \<Rightarrow> snap_row \<Rightarrow> bool" where
  \<comment> \<open>\<open>ORDER BY touched DESC, content_hash\<close>\<close>
  "touched_before a b \<longleftrightarrow> sr_touched b < sr_touched a \<or> sr_touched a = sr_touched b \<and> sr_hash a \<le> sr_hash b"

definition newest_hashes :: "nat \<Rightarrow> string \<Rightarrow> master_db \<Rightarrow> string list" where
  "newest_hashes keep scope db =
     map sr_hash (take keep (order_by touched_before (filter (\<lambda>r. sr_scope r = scope) (db_snapshots db))))"

definition prune_snapshots :: "nat \<Rightarrow> string \<Rightarrow> string \<Rightarrow> master_db \<Rightarrow> master_db" where
  \<comment> \<open>the documents of a deleted snapshot go with it (\<open>ON DELETE CASCADE\<close>)\<close>
  "prune_snapshots keep scope hash db =
     (let gone = (\<lambda>s h. s = scope \<and> h \<noteq> hash \<and> h \<notin> set (newest_hashes keep scope db)) in
      db\<lparr>db_snapshots := filter (\<lambda>r. \<not> gone (sr_scope r) (sr_hash r)) (db_snapshots db),
         db_documents := filter (\<lambda>d. \<not> gone (dw_scope d) (dw_hash d)) (db_documents db)\<rparr>)"

definition store_snapshot ::
  "db_lib \<Rightarrow> nat \<Rightarrow> db_snapshot \<Rightarrow> instant option option \<Rightarrow> instant \<Rightarrow> master_db \<Rightarrow> db_error + db_receipt \<times> master_db" where
  "store_snapshot DL keep S publication now db =
     (let m = ds_manifest S; scope = dl_scope_key DL (pm_scope m); hash = pm_content_sha256 m;
          changed = (publication \<noteq> None \<or> db_current db scope \<noteq> Some hash) in
      then_result (store_content DL S scope db) (\<lambda>db1.
      then_result (if changed then record_event DL S scope (Option.bind publication id) now db1 else Ok db1) (\<lambda>db2.
        Ok (\<lparr>dt_content_sha256 = hash, dt_tables = length (ds_tables S), dt_bytes = snapshot_bytes S,
             dt_changed = changed\<rparr>, prune_snapshots keep scope hash db2))))"

text \<open>What may happen to a transaction: nothing; it stops before its commit, having used some event ids; or
  the answer of its commit is lost, applied or not.  Each ends as a database error or as a timeout.\<close>

datatype db_fault =
  NoFault
| Interrupted db_error nat
| CommitLost db_error bool

definition transact ::
  "db_fault \<Rightarrow> (master_db \<Rightarrow> db_error + 'a \<times> master_db) \<Rightarrow> master_db \<Rightarrow> (db_error + 'a) \<times> master_db" where
  "transact fault tx db =
     (case fault of
        Interrupted e used \<Rightarrow> (Err e, db\<lparr>db_sequence := db_sequence db + int used\<rparr>)
      | _ \<Rightarrow>
          (case tx (db\<lparr>db_schema := True\<rparr>) of
             Inl e \<Rightarrow> (Err e, db)
           | Inr (r, db1) \<Rightarrow>
               (case fault of
                  CommitLost e applied \<Rightarrow> (Err e, if applied then db1 else db\<lparr>db_sequence := db_sequence db1\<rparr>)
                | _ \<Rightarrow> (Ok r, db1))))"

definition publish_snapshot ::
  "db_lib \<Rightarrow> nat \<Rightarrow> db_snapshot \<Rightarrow> db_fault \<Rightarrow> instant \<Rightarrow> master_db \<Rightarrow> (db_error + db_receipt) \<times> master_db" where
  "publish_snapshot DL keep S fault now db = transact fault (store_snapshot DL keep S None now) db"

definition db_publish ::
  "host_lib \<Rightarrow> db_lib \<Rightarrow> db_config \<Rightarrow> disk \<Rightarrow> master_scope \<Rightarrow> db_fault \<Rightarrow> instant \<Rightarrow> master_db \<Rightarrow>
     (db_error + db_receipt) \<times> master_db" where
  "db_publish B DL c source scope fault now db =
     (case then_result (db_validate B c) (\<lambda>_.
           then_result (verified_snapshot (dl_master DL) source scope None) (\<lambda>S.
           then_result (connect_options B c (dc_timeout_seconds c)) (\<lambda>_. Ok S))) of
        Inl e \<Rightarrow> (Err e, db)
      | Inr S \<Rightarrow> publish_snapshot DL (dc_keep_snapshots c) S fault now db)"

subsection \<open>Migration\<close>

record migration_receipt =
  mr_head :: string
  mr_source_sha256 :: string
  mr_publications :: nat
  mr_legacy_boundary :: bool
  mr_retention_boundary :: bool
  mr_changed :: bool

fun verify_entries :: "master_lib \<Rightarrow> disk \<Rightarrow> master_scope \<Rightarrow> history_entry list \<Rightarrow> db_error + unit" where
  "verify_entries L root scope [] = Ok ()"
| "verify_entries L root scope (e # es) =
     then_result (verified_snapshot L root scope (Some (he_snapshot e))) (\<lambda>S.
       if pm_content_sha256 (ds_manifest S) \<noteq> he_content_sha256 e then Err DbSnapshot
       else verify_entries L root scope es)"

definition migration_plan :: "master_lib \<Rightarrow> disk \<Rightarrow> master_scope \<Rightarrow> db_error + history" where
  "migration_plan L root scope =
     (case committed_history L root scope of
        Inl _ \<Rightarrow> Err DbSnapshot
      | Inr h \<Rightarrow> then_result (verify_entries L root scope (hs_entries h)) (\<lambda>_. Ok h))"

definition migration_plan_digest :: "db_lib \<Rightarrow> history \<Rightarrow> string" where
  "migration_plan_digest DL h = digest (dl_master DL) (dl_ser_plan DL h)"

fun migrate_entries ::
  "db_lib \<Rightarrow> nat \<Rightarrow> disk \<Rightarrow> master_scope \<Rightarrow> instant \<Rightarrow> history_entry list \<Rightarrow> master_db \<Rightarrow> db_error + master_db" where
  "migrate_entries DL keep root scope now [] db = Ok db"
| "migrate_entries DL keep root scope now (e # es) db =
     then_result (verified_snapshot (dl_master DL) root scope (Some (he_snapshot e))) (\<lambda>S.
       if pm_content_sha256 (ds_manifest S) \<noteq> he_content_sha256 e then Err DbSnapshot
       else then_result (store_snapshot DL keep S (Some (he_published_at e)) now db) (\<lambda>(_, db1).
         migrate_entries DL keep root scope now es db1))"

definition scope_occupied :: "master_db \<Rightarrow> string \<Rightarrow> bool" where
  "scope_occupied db scope \<longleftrightarrow> list_ex (\<lambda>r. sr_scope r = scope) (db_snapshots db) \<or>
     db_current db scope \<noteq> None \<or> list_ex (\<lambda>e. ev_scope e = scope) (db_history db)"

definition migrate_transaction ::
  "db_lib \<Rightarrow> nat \<Rightarrow> disk \<Rightarrow> history \<Rightarrow> string \<Rightarrow> instant \<Rightarrow> master_db \<Rightarrow> db_error + migration_receipt \<times> master_db" where
  "migrate_transaction DL keep root h source now db =
     (let scope = dl_scope_key DL (hs_scope h);
          receipt = \<lparr>mr_head = hs_head h, mr_source_sha256 = source, mr_publications = length (hs_entries h),
            mr_legacy_boundary = hs_legacy_boundary h, mr_retention_boundary = hs_retention_boundary h, mr_changed = False\<rparr> in
      case find (\<lambda>g. mg_scope g = scope) (db_migrations db) of
        Some g \<Rightarrow>
          if mg_source_hash g \<noteq> source \<or> mg_head g \<noteq> hs_head h \<or> mg_publications g \<noteq> length (hs_entries h) \<or>
             mg_legacy_boundary g \<noteq> hs_legacy_boundary h
          then Err DbIntegrity else Ok (receipt, db)
      | None \<Rightarrow>
          if scope_occupied db scope then Err DbIntegrity
          else then_result (migrate_entries DL keep root (hs_scope h) now (rev (hs_entries h)) db) (\<lambda>db1.
            Ok (receipt\<lparr>mr_changed := True\<rparr>,
                db1\<lparr>db_migrations := db_migrations db1 @
                  [\<lparr>mg_scope = scope, mg_source_hash = source, mg_head = hs_head h,
                    mg_publications = length (hs_entries h), mg_legacy_boundary = hs_legacy_boundary h\<rparr>]\<rparr>)))"

definition migrate_history ::
  "host_lib \<Rightarrow> db_lib \<Rightarrow> db_config \<Rightarrow> disk \<Rightarrow> disk \<Rightarrow> master_scope \<Rightarrow> db_fault \<Rightarrow> instant \<Rightarrow> master_db \<Rightarrow>
     (db_error + migration_receipt) \<times> master_db" where
  \<comment> \<open>\<open>planned\<close>: the source while the plan is verified, \<open>root\<close>: while it is stored\<close>
  "migrate_history B DL c planned root scope fault now db =
     (case then_result (db_validate B c) (\<lambda>_.
           then_result (migration_plan (dl_master DL) planned scope) (\<lambda>h.
           then_result (connect_options B c (dc_timeout_seconds c)) (\<lambda>_. Ok h))) of
        Inl e \<Rightarrow> (Err e, db)
      | Inr h \<Rightarrow>
          transact fault
            (migrate_transaction DL (dc_keep_snapshots c) root h (migration_plan_digest DL h) now) db)"

subsection \<open>Reads\<close>

definition document_inner ::
  "db_lib \<Rightarrow> master_db \<Rightarrow> master_scope \<Rightarrow> string option \<Rightarrow> string option \<Rightarrow> db_error + registry_document" where
  "document_inner DL db scope hash tab =
     (let L = dl_master DL; key = dl_scope_key DL scope in
      if \<not> db_schema db then Err DbDatabase
      else case Option.bind (case hash of Some h \<Rightarrow> Some h | None \<Rightarrow> db_current db key) (snap_at db key) of
        None \<Rightarrow> Err DbNotFound
      | Some row \<Rightarrow>
          if 1048576 < length (sr_manifest row) then Err DbIntegrity
          else case ml_de_published L (sr_manifest row) of
            None \<Rightarrow> Err DbIntegrity
          | Some m \<Rightarrow>
              (case published_validate L m scope of
                 Inl _ \<Rightarrow> Err DbIntegrity
               | Inr _ \<Rightarrow>
                   if pm_content_sha256 m \<noteq> sr_hash row \<or> (\<exists>h \<in> set_option hash. h \<noteq> sr_hash row) then Err DbIntegrity
                   else then_result
                     (case tab of
                        None \<Rightarrow> Ok (sr_manifest row)
                      | Some t \<Rightarrow>
                          (case find (\<lambda>f. tf_name f = t @ ''.json'') (pm_files m) of
                             None \<Rightarrow> Err DbNotFound
                           | Some f \<Rightarrow>
                               (case find (\<lambda>d. dw_name d = t @ ''.json'') (docs_at db key (sr_hash row)) of
                                  None \<Rightarrow> Err DbIntegrity
                                | Some d \<Rightarrow>
                                    if 67108864 < length (dw_bytes d) \<or> length (dw_bytes d) \<noteq> tf_size f \<or>
                                       dw_sha256 d \<noteq> tf_sha256 f \<or> digest L (dw_bytes d) \<noteq> tf_sha256 f \<or>
                                       \<not> ml_validate_json L (dw_bytes d)
                                    then Err DbIntegrity else Ok (dw_bytes d))))
                     (\<lambda>bs. Ok \<lparr>rd_bytes = bs, rd_etag = ''\"'' @ digest L bs @ ''\"'', rd_version = pm_version m\<rparr>)))"

definition db_document ::
  "db_lib \<Rightarrow> db_error option \<Rightarrow> master_db \<Rightarrow> master_scope \<Rightarrow> string option \<Rightarrow> string option \<Rightarrow> db_error + registry_document" where
  \<comment> \<open>\<open>lost\<close>: the connection or the deadline fails\<close>
  "db_document DL lost db scope hash tab =
     (if \<not> master_supported (sc_region scope) \<or> (\<exists>h \<in> set_option hash. \<not> hash_valid h) \<or>
         (\<exists>t \<in> set_option tab. hash = None \<or> \<not> safe_component t)
      then Err DbInvalidRequest
      else case lost of Some e \<Rightarrow> Err e | None \<Rightarrow> document_inner DL db scope hash tab)"

record db_event =
  de_sequence :: string
  de_content_sha256 :: string
  de_retained :: bool
  de_published_at :: instant
  de_version :: "string option"
  de_resource_version :: "string option"
  de_file_count :: "nat option"
  de_total_size :: "nat option"

definition event_totals :: "event_row \<Rightarrow> db_error + nat option \<times> nat option" where
  "event_totals row =
     (case (ev_version row, ev_file_count row, ev_total_size row) of
        (None, None, None) \<Rightarrow> Ok (None, None)
      | (Some _, Some files, Some bytes) \<Rightarrow>
          if 1 \<le> files \<and> files \<le> bytes \<and> bytes \<le> int MAX_TOTAL then Ok (Some (nat files), Some (nat bytes))
          else Err DbIntegrity
      | _ \<Rightarrow> Err DbIntegrity)"

definition db_history_entry :: "db_lib \<Rightarrow> bool \<Rightarrow> event_row \<Rightarrow> db_error + db_event" where
  "db_history_entry DL retained row =
     (case dl_parse_time DL (ev_published_at row) of
        None \<Rightarrow> Err DbIntegrity
      | Some t \<Rightarrow>
          then_result (event_totals row) (\<lambda>(files, bytes).
            if ev_id row \<le> 0 \<or> \<not> hash_valid (ev_hash row) \<or>
               (ev_resource_version row \<noteq> None \<and> ev_version row = None) \<or>
               (\<exists>v \<in> set_option (ev_version row). \<not> safe_version v) \<or>
               (\<exists>v \<in> set_option (ev_resource_version row). \<not> safe_version v)
            then Err DbIntegrity
            else Ok \<lparr>de_sequence = decimal (nat (ev_id row)), de_content_sha256 = ev_hash row,
                     de_retained = retained, de_published_at = t, de_version = ev_version row,
                     de_resource_version = ev_resource_version row, de_file_count = files, de_total_size = bytes\<rparr>))"

record db_page =
  dp_entries :: "db_event list"
  dp_next_before :: "string option"

definition cut_text :: "event_row \<Rightarrow> event_row" where
  \<comment> \<open>\<open>substr(..., 1, 257)\<close>\<close>
  "cut_text row = row\<lparr>ev_version := map_option (take 257) (ev_version row),
     ev_resource_version := map_option (take 257) (ev_resource_version row)\<rparr>"

definition history_rows :: "master_db \<Rightarrow> string \<Rightarrow> int option \<Rightarrow> event_row list" where
  "history_rows db scope before =
     order_by (\<lambda>a b. ev_id b \<le> ev_id a)
       (filter (\<lambda>e. ev_scope e = scope \<and> (\<forall>n \<in> set_option before. ev_id e < n)) (db_history db))"

fun history_events :: "db_lib \<Rightarrow> master_db \<Rightarrow> event_row list \<Rightarrow> db_error + db_event list" where
  "history_events DL db [] = Ok []"
| "history_events DL db (row # rows) =
     then_result (db_history_entry DL (snap_at db (ev_scope row) (ev_hash row) \<noteq> None) (cut_text row)) (\<lambda>e.
     then_result (history_events DL db rows) (\<lambda>es. Ok (e # es)))"

definition db_history_page ::
  "db_lib \<Rightarrow> db_error option \<Rightarrow> master_db \<Rightarrow> master_scope \<Rightarrow> nat \<Rightarrow> int option \<Rightarrow> db_error + db_page" where
  "db_history_page DL lost db scope limit before =
     (if \<not> master_supported (sc_region scope) \<or> \<not> (1 \<le> limit \<and> limit \<le> 200) \<or>
         (\<exists>n \<in> set_option before. n \<le> 0)
      then Err DbInvalidRequest
      else case lost of
        Some e \<Rightarrow> Err e
      | None \<Rightarrow>
          if \<not> db_schema db then Err DbDatabase
          else let rows = take (limit + 1) (history_rows db (dl_scope_key DL scope) before) in
            then_result (history_events DL db (take limit rows)) (\<lambda>es.
              Ok \<lparr>dp_entries = es,
                  dp_next_before = (if limit < length rows then Some (de_sequence (last es)) else None)\<rparr>))"

subsection \<open>Ordered rows\<close>

lemma set_insert_by [simp]: "set (insert_by le x xs) = insert x (set xs)"
  by (induction xs) auto

lemma set_order_by [simp]: "set (order_by le xs) = set xs"
  by (induction xs) auto

lemma length_insert_by [simp]: "length (insert_by le x xs) = Suc (length xs)"
  by (induction xs) auto

lemma length_order_by [simp]: "length (order_by le xs) = length xs"
  by (induction xs) auto

lemma mset_insert_by [simp]: "mset (insert_by le x xs) = add_mset x (mset xs)"
  by (induction xs) auto

lemma mset_order_by [simp]: "mset (order_by le xs) = mset xs"
  by (induction xs) auto

lemma distinct_order_by [simp]: "distinct (order_by le xs) = distinct xs"
  by (metis mset_order_by mset_eq_imp_distinct_iff)

lemma distinct_map_order_by [simp]: "distinct (map f (order_by le xs)) = distinct (map f xs)"
  by (metis mset_order_by mset_map mset_eq_imp_distinct_iff)

lemma sorted_insert_by:
  assumes "\<And>a b. \<not> le a b \<Longrightarrow> le b a" "\<And>a b c. le a b \<Longrightarrow> le b c \<Longrightarrow> le a c" "sorted_wrt le xs"
  shows "sorted_wrt le (insert_by le x xs)"
  using assms(3)
proof (induction xs)
  case (Cons y ys)
  show ?case
  proof (cases "le x y")
    case True
    then have "\<forall>z \<in> set ys. le x z" using Cons.prems assms(2) by auto
    then show ?thesis using True Cons.prems by simp
  next
    case False
    then show ?thesis using Cons assms(1) [OF False] by simp
  qed
qed simp

lemma sorted_order_by:
  assumes "\<And>a b. \<not> le a b \<Longrightarrow> le b a" "\<And>a b c. le a b \<Longrightarrow> le b c \<Longrightarrow> le a c"
  shows "sorted_wrt le (order_by le xs)"
proof (induction xs)
  case (Cons x xs)
  have "sorted_wrt le (insert_by le x (order_by le xs))"
    by (rule sorted_insert_by) (use assms Cons.IH in \<open>blast+\<close>)
  then show ?case by simp
qed simp

lemma insert_by_first:
  assumes "\<And>y. y \<in> set xs \<Longrightarrow> le x y"
  shows "insert_by le x xs = x # xs"
  using assms by (cases xs) auto

lemma order_by_sorted: "sorted_wrt le xs \<Longrightarrow> order_by le xs = xs"
  by (induction xs) (auto simp: insert_by_first)

lemma sorted_wrt_unique:
  assumes "sorted_wrt le xs" "sorted_wrt le ys" "mset xs = mset ys"
    and "\<And>a b. a \<in> set xs \<Longrightarrow> b \<in> set xs \<Longrightarrow> le a b \<Longrightarrow> le b a \<Longrightarrow> a = b"
  shows "xs = ys"
  using assms
proof (induction xs arbitrary: ys)
  case (Cons x xs)
  from Cons.prems(3) obtain y zs where ys: "ys = y # zs" by (cases ys) auto
  have sets: "set (x # xs) = set (y # zs)" using Cons.prems(3) ys by (metis set_mset_mset)
  have "x = y"
  proof (rule ccontr)
    assume "x \<noteq> y"
    then have "x \<in> set zs" "y \<in> set xs" using sets by auto
    then have "le x y" "le y x" using Cons.prems(1,2) ys by auto
    then show False using \<open>x \<noteq> y\<close> Cons.prems(4) \<open>y \<in> set xs\<close> by auto
  qed
  then show ?case using Cons.IH [of zs] Cons.prems ys by simp
qed simp

subsection \<open>Verified snapshots and consistent databases\<close>

definition table_ok :: "master_lib \<Rightarrow> table_file \<Rightarrow> u8 list \<Rightarrow> bool" where
  "table_ok L f bs \<longleftrightarrow> length bs = tf_size f \<and> digest L bs = tf_sha256 f \<and> ml_validate_json L bs"

definition snapshot_ok :: "master_lib \<Rightarrow> db_snapshot \<Rightarrow> bool" where
  "snapshot_ok L S \<longleftrightarrow> ml_de_published L (ds_manifest_bytes S) = Some (ds_manifest S) \<and>
     published_validate L (ds_manifest S) (pm_scope (ds_manifest S)) = Ok () \<and>
     map fst (ds_tables S) = pm_files (ds_manifest S) \<and> (\<forall>(f, bs, v) \<in> set (ds_tables S). table_ok L f bs)"

lemma published_names:
  assumes "published_validate L m scope = Ok ()"
  shows "sorted (map tf_name (pm_files m))" "distinct (map tf_name (pm_files m))"
    "list_all file_ok (pm_files m)" "pm_scope m = scope" "master_supported (sc_region scope)" "pm_files m \<noteq> []"
    "sum_list (map tf_size (pm_files m)) \<le> MAX_TOTAL"
    "f \<in> set (pm_files m) \<Longrightarrow> \<exists>tab. tf_name f = tab @ ''.json'' \<and> safe_component tab"
proof -
  let ?i = "\<lparr>iv_schema_version = 1, iv_version = pm_version m, iv_files = pm_files m\<rparr>"
  from assms obtain source where source: "manifest_parse L (ml_ser_manifest L (pm_source_manifest m)) = Ok source"
    and valid: "inventory_validate ?i source = Ok ()"
    and scope: "pm_scope m = scope" "master_supported (sc_region scope)"
    by (auto simp: published_validate_def then_result_Ok_iff Let_def split: if_splits)
  have ok: "manifest_ok source" using source by (simp add: manifest_parse_iff)
  then have inv: "inventory_ok ?i source" using valid inventory_validate_iff by (simp add: manifest_ok_def)
  then have names: "map tf_name (pm_files m) = sort (map json_name (mf_files source))"
    by (simp add: inventory_ok_def)
  have "distinct (map json_name (mf_files source))" using ok by (intro json_names_distinct) (simp_all add: manifest_ok_def)
  then show "sorted (map tf_name (pm_files m))" "distinct (map tf_name (pm_files m))" unfolding names by simp_all
  show "list_all file_ok (pm_files m)" "sum_list (map tf_size (pm_files m)) \<le> MAX_TOTAL"
    using inv by (simp_all add: inventory_ok_def)
  have "length (pm_files m) = length (mf_files source)" using arg_cong [OF names, of length] by simp
  then show "pm_files m \<noteq> []" using ok by (auto simp: manifest_ok_def)
  show "pm_scope m = scope" "master_supported (sc_region scope)" by (fact scope)+
  assume "f \<in> set (pm_files m)"
  then have "tf_name f \<in> set (map json_name (mf_files source))" using names by (metis imageI list.set_map set_sort)
  then obtain e where e: "e \<in> set (mf_files source)" "tf_name f = json_name e" by auto
  moreover have "entry_ok e" using e ok by (auto simp: manifest_ok_def list_all_iff)
  ultimately show "\<exists>tab. tf_name f = tab @ ''.json'' \<and> safe_component tab"
    using safe_component_no_dot by (auto simp: entry_ok_def replace_bin_stem)
qed

lemma verified_tables_Ok:
  assumes "verified_tables L source region snapshot fs = Ok ts"
  shows "map fst ts = fs \<and> (\<forall>(f, bs, v) \<in> set ts. table_ok L f bs \<and> ml_de_value L bs = Some v \<and>
    (\<exists>name. tf_name f = name @ ''.json'' \<and>
      (\<exists>doc. registry_table L source region snapshot name (tf_sha256 f) = Ok doc \<and> rd_bytes doc = bs)))"
  using assms
proof (induction fs arbitrary: ts)
  case (Cons f fs)
  then obtain name data v rest where name: "strip_suffix (tf_name f) ''.json'' = Some name"
    and data: "registry_table L source region snapshot name (tf_sha256 f) = Ok data" "length (rd_bytes data) = tf_size f"
    and v: "ml_de_value L (rd_bytes data) = Some v"
    and rest: "verified_tables L source region snapshot fs = Ok rest" "ts = (f, rd_bytes data, v) # rest"
    by (auto simp: then_result_Ok_iff split: option.splits sum.splits if_splits)
  have "digest L (rd_bytes data) = tf_sha256 f" "ml_validate_json L (rd_bytes data)"
    using data(1) unfolding registry_table_def by (auto elim!: table_read_Ok)
  moreover have "tf_name f = name @ ''.json''" using name by (simp add: strip_suffix_Some)
  ultimately show ?case using Cons.IH [OF rest(1)] rest(2) data v by (auto simp: table_ok_def)
qed simp

lemma verified_snapshot_Ok:
  assumes "verified_snapshot L source scope snapshot = Ok S"
  shows "snapshot_ok L S" "pm_scope (ds_manifest S) = scope"
    "(f, bs, v) \<in> set (ds_tables S) \<Longrightarrow> \<exists>name. tf_name f = name @ ''.json'' \<and>
      (\<exists>doc. registry_table L source (sc_region scope) (pm_snapshot (ds_manifest S)) name (tf_sha256 f) = Ok doc \<and> rd_bytes doc = bs)"
proof -
  from assms obtain document m ts where doc: "registry_manifest L source snapshot scope = Ok document"
      "ml_de_published L (rd_bytes document) = Some m" "published_validate L m scope = Ok ()"
    and ts: "verified_tables L source (sc_region scope) (pm_snapshot m) (pm_files m) = Ok ts"
    and S: "S = \<lparr>ds_manifest = m, ds_manifest_bytes = rd_bytes document, ds_tables = ts\<rparr>"
    by (auto simp: verified_snapshot_def then_result_Ok_iff split: option.splits sum.splits)
  note t = verified_tables_Ok [OF ts]
  have scope: "pm_scope m = scope" by (rule published_names(4) [OF doc(3)])
  then show "snapshot_ok L S" "pm_scope (ds_manifest S) = scope" using doc t by (auto simp: snapshot_ok_def S)
  show "(f, bs, v) \<in> set (ds_tables S) \<Longrightarrow> \<exists>name. tf_name f = name @ ''.json'' \<and>
      (\<exists>doc. registry_table L source (sc_region scope) (pm_snapshot (ds_manifest S)) name (tf_sha256 f) = Ok doc \<and> rd_bytes doc = bs)"
    using t by (auto simp: S)
qed

abbreviation snap_key :: "snap_row \<Rightarrow> string \<times> string" where
  "snap_key r \<equiv> (sr_scope r, sr_hash r)"

abbreviation doc_key :: "doc_row \<Rightarrow> string \<times> string \<times> string" where
  "doc_key d \<equiv> (dw_scope d, dw_hash d, dw_name d)"

abbreviation has_snap :: "master_db \<Rightarrow> string \<Rightarrow> string \<Rightarrow> bool" where
  "has_snap db scope hash \<equiv> (scope, hash) \<in> snap_key ` set (db_snapshots db)"

definition docs_for :: "master_lib \<Rightarrow> table_file list \<Rightarrow> doc_row list \<Rightarrow> bool" where
  "docs_for L fs docs \<longleftrightarrow> dw_name ` set docs = tf_name ` set fs \<and>
     (\<forall>f \<in> set fs. \<forall>d \<in> set docs. dw_name d = tf_name f \<longrightarrow> dw_sha256 d = tf_sha256 f \<and> table_ok L f (dw_bytes d))"

definition row_ok :: "db_lib \<Rightarrow> master_db \<Rightarrow> snap_row \<Rightarrow> bool" where
  "row_ok DL db r \<longleftrightarrow> (\<exists>m scope. sr_scope r = dl_scope_key DL scope \<and>
     ml_de_published (dl_master DL) (sr_manifest r) = Some m \<and> published_validate (dl_master DL) m scope = Ok () \<and>
     pm_content_sha256 m = sr_hash r \<and> docs_for (dl_master DL) (pm_files m) (docs_at db (sr_scope r) (sr_hash r)))"

definition rows_ok :: "db_lib \<Rightarrow> master_db \<Rightarrow> bool" where
  "rows_ok DL db \<longleftrightarrow> distinct (map snap_key (db_snapshots db)) \<and> distinct (map doc_key (db_documents db)) \<and>
     (\<forall>r \<in> set (db_snapshots db). row_ok DL db r) \<and>
     (\<forall>d \<in> set (db_documents db). has_snap db (dw_scope d) (dw_hash d))"

text \<open>The pointer of a scope names a stored snapshot, the one touched last; event ids ascend.\<close>

definition rows_of :: "master_db \<Rightarrow> string \<Rightarrow> (string \<times> int) set" where
  "rows_of db s = (\<lambda>r. (sr_hash r, sr_touched r)) ` {r \<in> set (db_snapshots db). sr_scope r = s}"

definition newest_at :: "master_db \<Rightarrow> string \<Rightarrow> bool" where
  "newest_at db s \<longleftrightarrow> (\<forall>h. db_current db s = Some h \<longrightarrow>
     (\<exists>t. (h, t) \<in> rows_of db s \<and> (\<forall>g u. (g, u) \<in> rows_of db s \<longrightarrow> g \<noteq> h \<longrightarrow> u < t)))"

definition newest_ok :: "master_db \<Rightarrow> bool" where
  "newest_ok db \<longleftrightarrow> (\<forall>s. newest_at db s)"

definition events_ok :: "master_db \<Rightarrow> bool" where
  "events_ok db \<longleftrightarrow> (\<forall>s g u. (g, u) \<in> rows_of db s \<longrightarrow> u \<le> db_sequence db) \<and> 0 \<le> db_sequence db \<and>
     sorted_wrt (\<lambda>a b. ev_id a < ev_id b) (db_history db) \<and>
     (\<forall>e \<in> set (db_history db). 0 < ev_id e \<and> ev_id e \<le> db_sequence db)"

definition db_ok :: "db_lib \<Rightarrow> master_db \<Rightarrow> bool" where
  "db_ok DL db \<longleftrightarrow> rows_ok DL db \<and> newest_ok db \<and> events_ok db"

lemma find_unique:
  assumes "\<And>x y. x \<in> set xs \<Longrightarrow> y \<in> set xs \<Longrightarrow> P x \<Longrightarrow> P y \<Longrightarrow> x = y"
  shows "find P xs = Some r \<longleftrightarrow> r \<in> set xs \<and> P r"
proof
  assume "r \<in> set xs \<and> P r"
  then obtain q where "find P xs = Some q" by (metis find_None_iff not_None_eq)
  then show "find P xs = Some r" using assms \<open>r \<in> set xs \<and> P r\<close> by (metis find_Some_iff nth_mem)
qed (auto simp: find_Some_iff)

lemma snap_at_iff:
  assumes "distinct (map snap_key (db_snapshots db))"
  shows "snap_at db s h = Some r \<longleftrightarrow> r \<in> set (db_snapshots db) \<and> snap_key r = (s, h)"
proof -
  have "x = y" if "x \<in> set (db_snapshots db)" "y \<in> set (db_snapshots db)"
    "sr_scope x = s \<and> sr_hash x = h" "sr_scope y = s \<and> sr_hash y = h" for x y
    using inj_onD [of snap_key "set (db_snapshots db)" x y] assms that by (simp add: distinct_map)
  from find_unique [OF this] show ?thesis by (simp add: snap_at_def)
qed

lemma snap_at_None_iff: "snap_at db s h = None \<longleftrightarrow> \<not> has_snap db s h"
  by (auto simp: snap_at_def find_None_iff)

lemma row_ok_cong:
  assumes "docs_at db (sr_scope r) (sr_hash r) = docs_at db1 (sr_scope r) (sr_hash r)"
    "snap_key q = snap_key r" "sr_manifest q = sr_manifest r"
  shows "row_ok DL db q = row_ok DL db1 r"
  using assms by (simp add: row_ok_def)

lemma docs_at_find:
  assumes "distinct (map doc_key (db_documents db))" "d \<in> set (docs_at db s h)"
  shows "find (\<lambda>e. dw_name e = dw_name d) (docs_at db s h) = Some d"
proof -
  have "x = y" if "x \<in> set (docs_at db s h)" "y \<in> set (docs_at db s h)" "dw_name x = dw_name d" "dw_name y = dw_name d" for x y
    using inj_onD [of doc_key "set (db_documents db)" x y] assms(1) that by (simp add: distinct_map docs_at_def)
  from find_unique [OF this] show ?thesis using assms(2) by simp
qed

subsection \<open>Publication keeps the database consistent\<close>

lemma update_snap_rows_ok:
  assumes ok: "rows_ok DL db"
    and keys: "\<And>r. sr_scope (f r) = sr_scope r" "\<And>r. sr_hash (f r) = sr_hash r"
    and rows: "\<And>r. r \<in> set (db_snapshots db) \<Longrightarrow> snap_key r = (scope, hash) \<Longrightarrow> row_ok DL db (f r)"
  shows "rows_ok DL (update_snap scope hash f db)"
proof -
  define g where "g = (\<lambda>r. if sr_scope r = scope \<and> sr_hash r = hash then f r else r)"
  have new: "update_snap scope hash f db = db\<lparr>db_snapshots := map g (db_snapshots db)\<rparr>"
    by (simp add: update_snap_def g_def)
  have key: "snap_key (g r) = snap_key r" for r by (simp add: g_def keys)
  have row: "row_ok DL (update_snap scope hash f db) (g r)" if "r \<in> set (db_snapshots db)" for r
  proof -
    have "row_ok DL db (g r)" using that rows ok by (auto simp: rows_ok_def g_def)
    then show ?thesis by (simp add: row_ok_def docs_at_def new)
  qed
  have "map snap_key (map g (db_snapshots db)) = map snap_key (db_snapshots db)"
    "snap_key ` set (map g (db_snapshots db)) = snap_key ` set (db_snapshots db)"
    using key by (simp_all add: image_image)
  then show ?thesis using ok row unfolding rows_ok_def new by (simp del: map_map)
qed

lemma insert_documents_Ok:
  assumes "insert_documents DL scope hash ts docs = Ok docs1"
  shows "\<exists>new. docs1 = docs @ new \<and> list_all2 (\<lambda>d (f, bs, v). dw_scope d = scope \<and> dw_hash d = hash \<and>
      dw_name d = tf_name f \<and> dw_sha256 d = tf_sha256 f \<and> dw_bytes d = bs \<and> dl_jsonb DL v = Some (dw_document d)) new ts"
  using assms
proof (induction ts arbitrary: docs)
  case (Cons t ts)
  obtain f bs v where t: "t = (f, bs, v)" by (cases t)
  let ?d = "\<lambda>w. \<lparr>dw_scope = scope, dw_hash = hash, dw_name = tf_name f, dw_sha256 = tf_sha256 f, dw_bytes = bs, dw_document = w\<rparr>"
  from Cons.prems t obtain w where w: "dl_jsonb DL v = Some w"
    and rest: "insert_documents DL scope hash ts (docs @ [?d w]) = Ok docs1" by (auto split: option.splits if_splits)
  from Cons.IH [OF rest] obtain new where new: "docs1 = (docs @ [?d w]) @ new"
    "list_all2 (\<lambda>d (f, bs, v). dw_scope d = scope \<and> dw_hash d = hash \<and> dw_name d = tf_name f \<and>
      dw_sha256 d = tf_sha256 f \<and> dw_bytes d = bs \<and> dl_jsonb DL v = Some (dw_document d)) new ts" by blast
  then show ?case using w t by (intro exI [of _ "?d w # new"]) simp
qed simp

lemma list_all2_docs_for:
  assumes rel: "list_all2 (\<lambda>d (f, bs, v). dw_name d = tf_name f \<and> dw_sha256 d = tf_sha256 f \<and> dw_bytes d = bs) docs ts"
    and S: "\<forall>(f, bs, v) \<in> set ts. table_ok L f bs" "map fst ts = fs" "distinct (map tf_name fs)"
  shows "docs_for L fs docs"
proof -
  have nth1: "length docs = length ts" using rel by (rule list_all2_lengthD)
  have nth2: "dw_name (docs ! k) = tf_name (fst (ts ! k)) \<and> dw_sha256 (docs ! k) = tf_sha256 (fst (ts ! k)) \<and>
      table_ok L (fst (ts ! k)) (dw_bytes (docs ! k))" if k: "k < length ts" for k
  proof -
    obtain f bs v where t: "ts ! k = (f, bs, v)" by (cases "ts ! k")
    then have "table_ok L f bs" using S(1) nth_mem [OF k] by (simp add: case_prod_beta)
        (metis fst_conv snd_conv)
    then show ?thesis using list_all2_nthD2 [OF rel k] t by simp
  qed
  note nth = nth1 nth2
  have names: "map dw_name docs = map tf_name fs"
    by (rule nth_equalityI) (use nth S(2) in \<open>auto simp: S(2) [symmetric]\<close>)
  have "dw_sha256 d = tf_sha256 f \<and> table_ok L f (dw_bytes d)" if f: "f \<in> set fs" and d: "d \<in> set docs" "dw_name d = tf_name f" for f d
  proof -
    obtain k where k: "k < length ts" "fst (ts ! k) = f" using f S(2) by (metis in_set_conv_nth length_map nth_map)
    obtain j where j: "j < length docs" "docs ! j = d" using d(1) by (metis in_set_conv_nth)
    have len: "length fs = length ts" using S(2) by auto
    have "map tf_name fs ! j = map tf_name fs ! k"
      using names nth j k d(2) len S(2) by (metis length_map nth_map)
    then have "j = k" using nth_eq_iff_index_eq [OF S(3), of j k] j k len nth(1) by simp
    then show ?thesis using nth(2) [OF k(1)] k j by simp
  qed
  moreover have "dw_name ` set docs = tf_name ` set fs" using names by (metis list.set_map)
  ultimately show ?thesis by (simp add: docs_for_def)
qed

lemma docs_for_set: "set docs = set docs1 \<Longrightarrow> docs_for L fs docs = docs_for L fs docs1"
  by (simp add: docs_for_def)

lemma zip_all_list_all2:
  "length xs = length ys \<Longrightarrow> list_all (\<lambda>(x, y). P x y) (zip xs ys) = list_all2 P xs ys"
  by (auto simp: list_all2_iff list_all_iff)

definition stored_tables :: "db_snapshot \<Rightarrow> doc_row list \<Rightarrow> bool" where
  "stored_tables S docs \<longleftrightarrow> (\<exists>rows. set rows = set docs \<and> list_all2 (\<lambda>d (f, bs, v).
     dw_name d = tf_name f \<and> dw_sha256 d = tf_sha256 f \<and> dw_bytes d = bs) rows (ds_tables S))"

lemma stored_tables_docs_for:
  assumes "stored_tables S docs" "snapshot_ok L S"
  shows "docs_for L (pm_files (ds_manifest S)) docs"
proof -
  obtain rows where rows: "set rows = set docs" "list_all2 (\<lambda>d (f, bs, v).
      dw_name d = tf_name f \<and> dw_sha256 d = tf_sha256 f \<and> dw_bytes d = bs) rows (ds_tables S)"
    using assms(1) by (auto simp: stored_tables_def)
  have "docs_for L (pm_files (ds_manifest S)) rows"
    by (rule list_all2_docs_for [OF rows(2)]) (use assms(2) published_names(2) in \<open>auto simp: snapshot_ok_def\<close>)
  then show ?thesis using docs_for_set [OF rows(1)] by simp
qed

lemma store_content_cases:
  assumes store: "store_content DL S scope db = Ok db1"
  obtains (same) row saved where "snap_at db scope (pm_content_sha256 (ds_manifest S)) = Some row"
      "ml_de_published (dl_master DL) (sr_manifest row) = Some saved"
      "published_validate (dl_master DL) saved (pm_scope (ds_manifest S)) = Ok ()"
      "pm_content_sha256 saved = pm_content_sha256 (ds_manifest S)"
      "list_all2 same_document (order_by (\<lambda>a b. dl_name_le DL (dw_name a) (dw_name b))
        (docs_at db scope (pm_content_sha256 (ds_manifest S)))) (ds_tables S)"
      "db1 = (if pm_resource_version (ds_manifest S) \<noteq> None \<and> pm_resource_version saved \<noteq> pm_resource_version (ds_manifest S)
         then update_snap scope (pm_content_sha256 (ds_manifest S)) (\<lambda>r. r\<lparr>sr_manifest := ds_manifest_bytes S\<rparr>) db else db)"
  | (new) docs where "snap_at db scope (pm_content_sha256 (ds_manifest S)) = None"
      "insert_documents DL scope (pm_content_sha256 (ds_manifest S)) (ds_tables S) (db_documents db) = Ok docs"
      "db1 = db\<lparr>db_snapshots := db_snapshots db @ [\<lparr>sr_scope = scope, sr_hash = pm_content_sha256 (ds_manifest S),
          sr_manifest = ds_manifest_bytes S, sr_touched = 0\<rparr>], db_documents := docs\<rparr>"
proof (cases "snap_at db scope (pm_content_sha256 (ds_manifest S))")
  case None
  then show thesis using store that(2) by (auto simp: store_content_def then_result_Ok_iff Let_def)
next
  case (Some row)
  with store obtain saved where saved: "ml_de_published (dl_master DL) (sr_manifest row) = Some saved"
    by (auto simp: store_content_def Let_def split: option.splits)
  show thesis
    by (rule that(1) [OF Some saved])
      (use Some saved store in \<open>auto simp: store_content_def Let_def zip_all_list_all2 split: sum.splits if_splits\<close>)
qed

lemma store_content_tables:
  assumes "store_content DL S scope db = Ok db1"
    and ok: "rows_ok DL db"
  shows "stored_tables S (docs_at db1 scope (pm_content_sha256 (ds_manifest S)))"
  using assms(1)
proof (cases rule: store_content_cases)
  case (same row saved)
  have docs: "docs_at db1 scope (pm_content_sha256 (ds_manifest S)) = docs_at db scope (pm_content_sha256 (ds_manifest S))"
    unfolding same(6) by (simp add: docs_at_def update_snap_def)
  have "list_all2 (\<lambda>d (f, bs, v). dw_name d = tf_name f \<and> dw_sha256 d = tf_sha256 f \<and> dw_bytes d = bs)
    (order_by (\<lambda>a b. dl_name_le DL (dw_name a) (dw_name b)) (docs_at db scope (pm_content_sha256 (ds_manifest S)))) (ds_tables S)"
    using same(5) by (rule list_all2_mono) (auto simp: same_document_def)
  then show ?thesis unfolding stored_tables_def docs by (intro exI conjI) (rule set_order_by)
next
  case (new docs)
  let ?h = "pm_content_sha256 (ds_manifest S)"
  obtain rows where rows: "docs = db_documents db @ rows" "list_all2 (\<lambda>d (f, bs, v). dw_scope d = scope \<and> dw_hash d = ?h \<and>
      dw_name d = tf_name f \<and> dw_sha256 d = tf_sha256 f \<and> dw_bytes d = bs \<and> dl_jsonb DL v = Some (dw_document d)) rows (ds_tables S)"
    using insert_documents_Ok [OF new(2)] by blast
  have old: "\<not> (dw_scope d = scope \<and> dw_hash d = ?h)" if "d \<in> set (db_documents db)" for d
  proof
    assume "dw_scope d = scope \<and> dw_hash d = ?h"
    moreover have "has_snap db (dw_scope d) (dw_hash d)" using ok that unfolding rows_ok_def by blast
    ultimately show False using new(1) unfolding snap_at_None_iff by metis
  qed
  have key: "dw_scope d = scope \<and> dw_hash d = ?h" if "d \<in> set rows" for d
    using list_all2_nthD [OF rows(2)] that by (auto simp: in_set_conv_nth split: prod.splits)
  have "docs_at db1 scope ?h = rows"
    using old key by (simp add: docs_at_def new(3) rows(1) filter_id_conv filter_empty_conv)
  moreover have "list_all2 (\<lambda>d (f, bs, v). dw_name d = tf_name f \<and> dw_sha256 d = tf_sha256 f \<and> dw_bytes d = bs) rows (ds_tables S)"
    using rows(2) by (rule list_all2_mono) auto
  ultimately show ?thesis unfolding stored_tables_def by blast
qed

lemma insert_documents_distinct:
  assumes "insert_documents DL scope hash ts docs = Ok docs1" "distinct (map doc_key docs)"
  shows "distinct (map doc_key docs1)"
  using assms
proof (induction ts arbitrary: docs)
  case (Cons t ts)
  obtain f bs v where t: "t = (f, bs, v)" by (cases t)
  let ?d = "\<lambda>w. \<lparr>dw_scope = scope, dw_hash = hash, dw_name = tf_name f, dw_sha256 = tf_sha256 f, dw_bytes = bs, dw_document = w\<rparr>"
  from Cons.prems t obtain w where rest: "insert_documents DL scope hash ts (docs @ [?d w]) = Ok docs1"
    and free: "\<not> list_ex (\<lambda>d. dw_scope d = scope \<and> dw_hash d = hash \<and> dw_name d = tf_name f) docs"
    by (auto split: option.splits if_splits)
  have "distinct (map doc_key (docs @ [?d w]))" using Cons.prems(2) free by (auto simp: list_ex_iff)
  then show ?case by (rule Cons.IH [OF rest])
qed simp

lemma store_content_ok:
  assumes store: "store_content DL S scope db = Ok db1" and ok: "rows_ok DL db"
    and S: "snapshot_ok (dl_master DL) S" and scope: "scope = dl_scope_key DL (pm_scope (ds_manifest S))"
  shows "rows_ok DL db1"
  using store
proof (cases rule: store_content_cases)
  case (same row saved)
  let ?h = "pm_content_sha256 (ds_manifest S)"
  have docs: "docs_for (dl_master DL) (pm_files (ds_manifest S)) (docs_at db scope ?h)"
  proof -
    have "docs_at db1 scope ?h = docs_at db scope ?h" unfolding same(6) by (simp add: docs_at_def update_snap_def)
    then show ?thesis using stored_tables_docs_for [OF store_content_tables [OF store ok] S] by simp
  qed
  have "rows_ok DL (update_snap scope ?h (\<lambda>r. r\<lparr>sr_manifest := ds_manifest_bytes S\<rparr>) db)"
  proof (rule update_snap_rows_ok [OF ok])
    fix r assume "snap_key r = (scope, ?h)"
    then show "row_ok DL db (r\<lparr>sr_manifest := ds_manifest_bytes S\<rparr>)"
      using docs S scope unfolding row_ok_def snapshot_ok_def by auto
  qed simp_all
  then show ?thesis using ok same(6) by (auto split: if_splits)
next
  case (new docs)
  let ?h = "pm_content_sha256 (ds_manifest S)"
  let ?row = "\<lparr>sr_scope = scope, sr_hash = ?h, sr_manifest = ds_manifest_bytes S, sr_touched = 0\<rparr>"
  have tables: "docs_for (dl_master DL) (pm_files (ds_manifest S)) (docs_at db1 scope ?h)"
    by (rule stored_tables_docs_for [OF store_content_tables [OF store ok] S])
  obtain rows where rows: "docs = db_documents db @ rows" "list_all2 (\<lambda>d (f, bs, v). dw_scope d = scope \<and> dw_hash d = ?h \<and>
      dw_name d = tf_name f \<and> dw_sha256 d = tf_sha256 f \<and> dw_bytes d = bs \<and> dl_jsonb DL v = Some (dw_document d)) rows (ds_tables S)"
    using insert_documents_Ok [OF new(2)] by blast
  have key: "dw_scope d = scope" "dw_hash d = ?h" if "d \<in> set rows" for d
    using list_all2_nthD [OF rows(2)] that by (auto simp: in_set_conv_nth split: prod.splits)
  have "row_ok DL db1 ?row" using tables S scope unfolding row_ok_def snapshot_ok_def by auto
  moreover have "row_ok DL db1 r" if r: "r \<in> set (db_snapshots db)" for r
  proof -
    have known: "snap_key r \<in> snap_key ` set (db_snapshots db)" using r by (rule imageI)
    have "snap_key r \<noteq> (scope, ?h)"
    proof
      assume eq: "snap_key r = (scope, ?h)"
      show False using known [unfolded eq] new(1) [unfolded snap_at_None_iff] by contradiction
    qed
    then have "docs_at db1 (sr_scope r) (sr_hash r) = docs_at db (sr_scope r) (sr_hash r)"
      using key by (auto simp: docs_at_def new(3) rows(1) filter_empty_conv)
    then have "row_ok DL db1 r = row_ok DL db r" by (intro row_ok_cong) simp_all
    then show ?thesis using ok r by (simp add: rows_ok_def)
  qed
  moreover have "distinct (map doc_key docs)"
    using insert_documents_distinct [OF new(2)] ok by (simp add: rows_ok_def)
  moreover have "distinct (map snap_key (db_snapshots db @ [?row]))"
    using ok new(1) unfolding rows_ok_def snap_at_None_iff by simp
  moreover have "(dw_scope d, dw_hash d) \<in> snap_key ` set (db_snapshots db @ [?row])" if "d \<in> set docs" for d
  proof (cases "d \<in> set rows")
    case True
    then show ?thesis using key by simp
  next
    case False
    then have "has_snap db (dw_scope d) (dw_hash d)" using that ok rows(1) unfolding rows_ok_def by auto
    then show ?thesis by auto
  qed
  ultimately show ?thesis unfolding rows_ok_def new(3) by (simp add: ball_Un)
qed

lemma rows_of_iff:
  "(g, u) \<in> rows_of db s \<longleftrightarrow> (\<exists>r \<in> set (db_snapshots db). sr_scope r = s \<and> sr_hash r = g \<and> sr_touched r = u)"
  by (auto simp: rows_of_def)

lemma rows_of_update:
  assumes "\<And>r. sr_scope (f r) = sr_scope r" "\<And>r. sr_hash (f r) = sr_hash r"
  shows "(g, u) \<in> rows_of (update_snap scope hash f db) s \<longleftrightarrow>
    (\<exists>r \<in> set (db_snapshots db). sr_scope r = s \<and> sr_hash r = g \<and>
      (if s = scope \<and> g = hash then sr_touched (f r) else sr_touched r) = u)"
proof -
  define k where "k = (\<lambda>r. if sr_scope r = scope \<and> sr_hash r = hash then f r else r)"
  have "(g, u) \<in> rows_of (update_snap scope hash f db) s \<longleftrightarrow>
      (\<exists>r \<in> set (db_snapshots db). sr_scope (k r) = s \<and> sr_hash (k r) = g \<and> sr_touched (k r) = u)"
    unfolding rows_of_iff update_snap_def k_def [symmetric] by simp
  moreover have "sr_scope (k r) = s \<and> sr_hash (k r) = g \<and> sr_touched (k r) = u \<longleftrightarrow> sr_scope r = s \<and> sr_hash r = g \<and>
      (if s = scope \<and> g = hash then sr_touched (f r) else sr_touched r) = u" for r
    by (auto simp: k_def assms)
  ultimately show ?thesis by simp
qed

lemma rows_of_manifest:
  "(g, u) \<in> rows_of (update_snap scope hash (\<lambda>r. r\<lparr>sr_manifest := bs\<rparr>) db) s \<longleftrightarrow> (g, u) \<in> rows_of db s"
  by (subst rows_of_update) (simp_all add: rows_of_iff cong: if_cong split del: if_split)

lemma has_snap_rows: "has_snap db s h \<longleftrightarrow> (\<exists>t. (h, t) \<in> rows_of db s)"
  by (force simp: rows_of_def)

lemma store_content_frame:
  assumes "store_content DL S scope db = Ok db1"
  shows "db_current db1 = db_current db \<and> db_history db1 = db_history db \<and> db_sequence db1 = db_sequence db \<and>
    db_schema db1 = db_schema db \<and> db_migrations db1 = db_migrations db"
  using assms by (cases rule: store_content_cases) (auto simp: update_snap_def)

lemma store_content_rows:
  assumes "store_content DL S scope db = Ok db1"
  shows "(g, u) \<in> rows_of db1 s \<longleftrightarrow> (g, u) \<in> rows_of db s \<or>
    s = scope \<and> \<not> has_snap db scope g \<and> g = pm_content_sha256 (ds_manifest S) \<and> u = 0"
  using assms
proof (cases rule: store_content_cases)
  case (same row saved)
  have "has_snap db scope (pm_content_sha256 (ds_manifest S))"
    using same(1) snap_at_None_iff [of db scope "pm_content_sha256 (ds_manifest S)"] by simp
  moreover have "(g, u) \<in> rows_of db1 s \<longleftrightarrow> (g, u) \<in> rows_of db s"
    unfolding same(6) by (simp add: rows_of_manifest)
  ultimately show ?thesis by blast
next
  case (new docs)
  then show ?thesis unfolding snap_at_None_iff by (auto simp: rows_of_iff)
qed

lemma store_content_has:
  assumes "store_content DL S scope db = Ok db1"
  shows "\<exists>t. (pm_content_sha256 (ds_manifest S), t) \<in> rows_of db1 scope"
proof (cases "has_snap db scope (pm_content_sha256 (ds_manifest S))")
  case True
  then obtain t where "(pm_content_sha256 (ds_manifest S), t) \<in> rows_of db scope" unfolding has_snap_rows by blast
  then show ?thesis using store_content_rows [OF assms] by blast
next
  case False
  then show ?thesis using store_content_rows [OF assms] by blast
qed

lemma record_event_Ok:
  assumes "record_event DL S scope published now db = Ok db1"
  defines "h \<equiv> pm_content_sha256 (ds_manifest S)"
  shows "\<exists>e. db1 = update_snap scope h (\<lambda>r. r\<lparr>sr_touched := db_sequence db + 1\<rparr>)
      (db\<lparr>db_history := db_history db @ [e], db_current := (db_current db)(scope \<mapsto> h), db_sequence := db_sequence db + 1\<rparr>) \<and>
    ev_id e = db_sequence db + 1 \<and> ev_scope e = scope \<and> ev_hash e = h \<and> ev_version e = Some (pm_version (ds_manifest S))"
  using assms by (auto simp: record_event_def Let_def split: if_splits)

lemma rows_ok_frame:
  assumes "db_snapshots db1 = db_snapshots db" "db_documents db1 = db_documents db"
  shows "rows_ok DL db1 = rows_ok DL db"
proof -
  have "row_ok DL db1 r = row_ok DL db r" for r by (simp add: row_ok_def docs_at_def assms)
  then show ?thesis by (simp add: rows_ok_def assms)
qed

lemma record_event_ok:
  assumes event: "record_event DL S scope published now db = Ok db1"
    and content: "rows_ok DL db" and events: "events_ok db" and newest: "\<And>s. s \<noteq> scope \<Longrightarrow> newest_at db s"
    and has: "\<exists>t. (pm_content_sha256 (ds_manifest S), t) \<in> rows_of db scope"
  shows "db_ok DL db1" "db_current db1 scope = Some (pm_content_sha256 (ds_manifest S))"
proof -
  let ?h = "pm_content_sha256 (ds_manifest S)" and ?n = "db_sequence db + 1"
  obtain e where db1: "db1 = update_snap scope ?h (\<lambda>r. r\<lparr>sr_touched := ?n\<rparr>)
      (db\<lparr>db_history := db_history db @ [e], db_current := (db_current db)(scope \<mapsto> ?h), db_sequence := ?n\<rparr>)"
    and e: "ev_id e = ?n" using record_event_Ok [OF event] by blast
  let ?mid = "db\<lparr>db_history := db_history db @ [e], db_current := (db_current db)(scope \<mapsto> ?h), db_sequence := ?n\<rparr>"
  have fields: "db_current db1 = (db_current db)(scope \<mapsto> ?h)" "db_sequence db1 = ?n" "db_history db1 = db_history db @ [e]"
    by (simp_all add: db1 update_snap_def)
  then show "db_current db1 scope = Some ?h" by simp
  have mid: "rows_ok DL ?mid" using content by (subst rows_ok_frame [of _ db]) simp_all
  have "row_ok DL ?mid (r\<lparr>sr_touched := ?n\<rparr>)" if "r \<in> set (db_snapshots ?mid)" for r
    using mid that by (simp add: rows_ok_def row_ok_def)
  then have c: "rows_ok DL db1" unfolding db1 by (intro update_snap_rows_ok [OF mid]) simp_all
  have rows: "(g, u) \<in> rows_of db1 s \<longleftrightarrow> (if s = scope \<and> g = ?h then (\<exists>t. (g, t) \<in> rows_of db s) \<and> u = ?n else (g, u) \<in> rows_of db s)" for g u s
    unfolding db1 by (subst rows_of_update) (auto simp: rows_of_iff)
  have "newest_at db1 s" for s
  proof (cases "s = scope")
    case True
    have "u < ?n" if "(g, u) \<in> rows_of db scope" for g u using events that by (force simp: events_ok_def)
    then show ?thesis using has True by (auto simp: newest_at_def fields rows)
  next
    case False
    then show ?thesis using newest [OF False] by (simp add: newest_at_def fields rows)
  qed
  moreover have "events_ok db1"
    using events e by (auto simp: events_ok_def rows fields sorted_wrt_append split: if_splits) force+
  ultimately show "db_ok DL db1" using c by (simp add: db_ok_def newest_ok_def)
qed

definition pruned_hash :: "nat \<Rightarrow> string \<Rightarrow> string \<Rightarrow> master_db \<Rightarrow> string \<Rightarrow> string \<Rightarrow> bool" where
  "pruned_hash keep scope hash db s h \<longleftrightarrow> s = scope \<and> h \<noteq> hash \<and> h \<notin> set (newest_hashes keep scope db)"

lemma prune_snapshots_eq:
  "prune_snapshots keep scope hash db =
     db\<lparr>db_snapshots := filter (\<lambda>r. \<not> pruned_hash keep scope hash db (sr_scope r) (sr_hash r)) (db_snapshots db),
        db_documents := filter (\<lambda>d. \<not> pruned_hash keep scope hash db (dw_scope d) (dw_hash d)) (db_documents db)\<rparr>"
  by (simp add: prune_snapshots_def pruned_hash_def Let_def)

lemma prune_rows:
  "(g, u) \<in> rows_of (prune_snapshots keep scope hash db) s \<longleftrightarrow> (g, u) \<in> rows_of db s \<and> \<not> pruned_hash keep scope hash db s g"
  by (auto simp: rows_of_iff prune_snapshots_eq)

lemma prune_docs_at:
  "docs_at (prune_snapshots keep scope hash db) s h = (if pruned_hash keep scope hash db s h then [] else docs_at db s h)"
  by (auto simp: docs_at_def prune_snapshots_eq filter_empty_conv intro!: filter_cong)

lemma distinct_map_filtered: "distinct (map f xs) \<Longrightarrow> distinct (map f (filter P xs))"
  by (rule distinct_map_filter)

lemma prune_rows_ok:
  assumes ok: "rows_ok DL db"
  shows "rows_ok DL (prune_snapshots keep scope hash db)" (is "rows_ok DL ?db")
proof -
  have "row_ok DL ?db r" if r: "r \<in> set (db_snapshots ?db)" for r
  proof -
    have kept: "r \<in> set (db_snapshots db)" "\<not> pruned_hash keep scope hash db (sr_scope r) (sr_hash r)"
      using r by (simp_all add: prune_snapshots_eq)
    then have "row_ok DL ?db r = row_ok DL db r" by (intro row_ok_cong) (simp_all add: prune_docs_at)
    then show ?thesis using ok kept(1) by (simp add: rows_ok_def)
  qed
  moreover have "has_snap ?db (dw_scope d) (dw_hash d)" if d: "d \<in> set (db_documents ?db)" for d
  proof -
    have kept: "d \<in> set (db_documents db)" "\<not> pruned_hash keep scope hash db (dw_scope d) (dw_hash d)"
      using d by (simp_all add: prune_snapshots_eq)
    then obtain t where "(dw_hash d, t) \<in> rows_of db (dw_scope d)" using ok unfolding rows_ok_def has_snap_rows by blast
    then show ?thesis using kept(2) unfolding has_snap_rows prune_rows by blast
  qed
  moreover have "distinct (map snap_key (db_snapshots ?db))" "distinct (map doc_key (db_documents ?db))"
    using ok by (simp_all add: rows_ok_def prune_snapshots_eq distinct_map_filtered)
  ultimately show ?thesis unfolding rows_ok_def by blast
qed

lemma prune_ok:
  assumes "db_ok DL db" "db_current db scope = Some hash"
  shows "db_ok DL (prune_snapshots keep scope hash db)" (is "db_ok DL ?db")
proof -
  have same: "db_current ?db = db_current db" "db_sequence ?db = db_sequence db" "db_history ?db = db_history db"
    by (simp_all add: prune_snapshots_eq)
  have "newest_at ?db s" for s
  proof -
    have "newest_at db s" using assms(1) by (simp add: db_ok_def newest_ok_def)
    moreover have "\<not> pruned_hash keep scope hash db s h" if "db_current db s = Some h" for h
      using that assms(2) by (auto simp: pruned_hash_def)
    ultimately show ?thesis unfolding newest_at_def same prune_rows by blast
  qed
  moreover have "events_ok ?db" using assms(1) unfolding db_ok_def events_ok_def same prune_rows by blast
  ultimately show ?thesis using assms(1) prune_rows_ok by (simp add: db_ok_def newest_ok_def)
qed

lemma store_snapshot_parts:
  assumes "store_snapshot DL keep S publication now db = Ok (r, db1)"
  defines "h \<equiv> pm_content_sha256 (ds_manifest S)" and "scope \<equiv> dl_scope_key DL (pm_scope (ds_manifest S))"
  obtains mid final where "store_content DL S scope db = Ok mid"
    "if publication \<noteq> None \<or> db_current db scope \<noteq> Some h then record_event DL S scope (Option.bind publication id) now mid = Ok final
      else final = mid" "db1 = prune_snapshots keep scope h final"
    "r = \<lparr>dt_content_sha256 = h, dt_tables = length (ds_tables S), dt_bytes = snapshot_bytes S,
          dt_changed = (publication \<noteq> None \<or> db_current db scope \<noteq> Some h)\<rparr>"
proof -
  let ?changed = "publication \<noteq> None \<or> db_current db scope \<noteq> Some h"
  from assms(1) obtain mid final where "store_content DL S scope db = Ok mid"
    and event: "(if ?changed then record_event DL S scope (Option.bind publication id) now mid else Ok mid) = Ok final"
    and "r = \<lparr>dt_content_sha256 = h, dt_tables = length (ds_tables S), dt_bytes = snapshot_bytes S, dt_changed = ?changed\<rparr>"
      "db1 = prune_snapshots keep scope h final"
    unfolding store_snapshot_def Let_def then_result_Ok_iff h_def [symmetric] scope_def [symmetric] by blast
  then show thesis using that [of mid final] by (cases ?changed) simp_all
qed

lemma store_snapshot_before_prune:
  assumes store: "store_content DL S scope db = Ok mid"
    and event: "if publication \<noteq> None \<or> db_current db scope \<noteq> Some (pm_content_sha256 (ds_manifest S))
      then record_event DL S scope (Option.bind publication id) now mid = Ok final else final = mid"
    and ok: "db_ok DL db" and S: "snapshot_ok (dl_master DL) S" and scope: "scope = dl_scope_key DL (pm_scope (ds_manifest S))"
  shows "db_ok DL final" "db_current final scope = Some (pm_content_sha256 (ds_manifest S))"
proof -
  let ?h = "pm_content_sha256 (ds_manifest S)"
  note frame = store_content_frame [OF store] and rows = store_content_rows [OF store]
  have content: "rows_ok DL mid" using store_content_ok [OF store _ S scope] ok by (simp add: db_ok_def)
  have events: "events_ok mid" using ok frame by (auto simp: db_ok_def events_ok_def rows)
  have other: "newest_at mid s" if "s \<noteq> scope" for s
    using ok frame that by (simp add: db_ok_def newest_ok_def newest_at_def rows)
  show "db_ok DL final" and current: "db_current final scope = Some ?h"
  proof (atomize(full), cases "publication \<noteq> None \<or> db_current db scope \<noteq> Some ?h")
    case True
    with event have "record_event DL S scope (Option.bind publication id) now mid = Ok final" by simp
    from record_event_ok [OF this content events other store_content_has [OF store]]
    show "db_ok DL final \<and> db_current final scope = Some ?h" by blast
  next
    case False
    then have current: "final = mid" "db_current db scope = Some ?h" using event by simp_all
    then have "\<exists>t. (?h, t) \<in> rows_of db scope" using ok unfolding db_ok_def newest_ok_def newest_at_def by blast
    then have "(g, u) \<in> rows_of mid s \<longleftrightarrow> (g, u) \<in> rows_of db s" for g u s
      unfolding rows has_snap_rows by blast
    then have "newest_ok mid" using ok frame by (simp add: db_ok_def newest_ok_def newest_at_def)
    then show "db_ok DL final \<and> db_current final scope = Some ?h" using content events current frame by (simp add: db_ok_def)
  qed
qed

lemma store_snapshot_ok:
  assumes "store_snapshot DL keep S publication now db = Ok (r, db1)" "db_ok DL db" "snapshot_ok (dl_master DL) S"
  shows "db_ok DL db1"
proof -
  from assms(1) obtain mid final where parts: "store_content DL S (dl_scope_key DL (pm_scope (ds_manifest S))) db = Ok mid"
    "if publication \<noteq> None \<or> db_current db (dl_scope_key DL (pm_scope (ds_manifest S))) \<noteq> Some (pm_content_sha256 (ds_manifest S))
     then record_event DL S (dl_scope_key DL (pm_scope (ds_manifest S))) (Option.bind publication id) now mid = Ok final else final = mid"
    and db1: "db1 = prune_snapshots keep (dl_scope_key DL (pm_scope (ds_manifest S))) (pm_content_sha256 (ds_manifest S)) final"
    by (rule store_snapshot_parts) blast
  show ?thesis unfolding db1 by (rule prune_ok) (rule store_snapshot_before_prune [OF parts assms(2,3) refl])+
qed

subsection \<open>Every reachable database is consistent\<close>

lemma record_event_frame:
  assumes "record_event DL S scope published now db = Ok db1"
  shows "db_sequence db1 = db_sequence db + 1 \<and> db_schema db1 = db_schema db \<and> db_migrations db1 = db_migrations db"
  using record_event_Ok [OF assms] by (auto simp: update_snap_def)

lemma store_snapshot_frame:
  assumes "store_snapshot DL keep S publication now db = Ok (r, db1)"
  shows "db_sequence db \<le> db_sequence db1" "db_schema db1 = db_schema db" "db_migrations db1 = db_migrations db"
proof -
  let ?s = "dl_scope_key DL (pm_scope (ds_manifest S))" and ?h = "pm_content_sha256 (ds_manifest S)"
  from assms obtain mid final where store: "store_content DL S ?s db = Ok mid"
    and event: "if publication \<noteq> None \<or> db_current db ?s \<noteq> Some ?h
      then record_event DL S ?s (Option.bind publication id) now mid = Ok final else final = mid"
    and db1: "db1 = prune_snapshots keep ?s ?h final"
    by (rule store_snapshot_parts) blast
  have "db_sequence mid \<le> db_sequence final \<and> db_schema final = db_schema mid \<and> db_migrations final = db_migrations mid"
    using event record_event_frame [of DL S ?s "Option.bind publication id" now mid final] by (simp split: if_splits)
  then show "db_sequence db \<le> db_sequence db1" "db_schema db1 = db_schema db" "db_migrations db1 = db_migrations db"
    using store_content_frame [OF store] by (simp_all add: db1 prune_snapshots_eq)
qed

lemma migrate_entries_ok:
  assumes "migrate_entries DL keep root scope now es db = Ok db1" "db_ok DL db"
  shows "db_ok DL db1 \<and> db_sequence db \<le> db_sequence db1 \<and> db_schema db1 = db_schema db"
  using assms
proof (induction es arbitrary: db)
  case (Cons e es)
  then obtain S r mid where S: "verified_snapshot (dl_master DL) root scope (Some (he_snapshot e)) = Ok S"
    and store: "store_snapshot DL keep S (Some (he_published_at e)) now db = Ok (r, mid)"
    and rest: "migrate_entries DL keep root scope now es mid = Ok db1"
    by (auto simp: then_result_Ok_iff split: if_splits)
  have "db_ok DL mid" by (rule store_snapshot_ok [OF store Cons.prems(2) verified_snapshot_Ok(1) [OF S]])
  from Cons.IH [OF rest this] store_snapshot_frame [OF store] show ?case by auto
qed simp

definition db_same :: "master_db \<Rightarrow> master_db \<Rightarrow> bool" where
  "db_same db db1 \<longleftrightarrow> db_snapshots db1 = db_snapshots db \<and> db_documents db1 = db_documents db \<and>
     db_history db1 = db_history db \<and> db_current db1 = db_current db \<and> db_sequence db \<le> db_sequence db1"

lemma db_same_ok:
  assumes same: "db_same db db1" and ok: "db_ok DL db"
  shows "db_ok DL db1"
proof -
  have rows: "rows_of db1 = rows_of db" using same by (simp add: db_same_def rows_of_def fun_eq_iff)
  have "rows_ok DL db1" using ok same rows_ok_frame [of db1 db] by (simp add: db_same_def db_ok_def)
  moreover have "newest_ok db1" using ok same by (simp add: db_ok_def newest_ok_def newest_at_def db_same_def rows)
  moreover have "events_ok db1"
    using ok same unfolding db_ok_def events_ok_def db_same_def rows by (elim conjE) (simp, meson order_trans)
  ultimately show ?thesis by (simp add: db_ok_def)
qed

definition tx_ok :: "db_lib \<Rightarrow> (master_db \<Rightarrow> db_error + 'a \<times> master_db) \<Rightarrow> bool" where
  "tx_ok DL tx \<longleftrightarrow> (\<forall>db r db1. db_ok DL db \<longrightarrow> tx db = Ok (r, db1) \<longrightarrow>
     db_ok DL db1 \<and> db_sequence db \<le> db_sequence db1 \<and> db_schema db1 = db_schema db)"

definition reach_ok :: "db_lib \<Rightarrow> master_db \<Rightarrow> bool" where
  "reach_ok DL db \<longleftrightarrow> db_ok DL db \<and> (db_schema db \<or> db_snapshots db = [])"

lemma transact_ok:
  assumes tx: "tx_ok DL tx" and ok: "reach_ok DL db"
  shows "reach_ok DL (snd (transact fault tx db))"
proof -
  let ?db0 = "db\<lparr>db_schema := True\<rparr>"
  have ok0: "db_ok DL ?db0" by (rule db_same_ok [of db]) (use ok in \<open>simp_all add: db_same_def reach_ok_def\<close>)
  have later: "reach_ok DL (db\<lparr>db_sequence := n\<rparr>)" if "db_sequence db \<le> n" for n
    using that ok db_same_ok [of db "db\<lparr>db_sequence := n\<rparr>"] by (simp add: db_same_def reach_ok_def)
  have finished: "reach_ok DL db1" "db_sequence db \<le> db_sequence db1" if "tx ?db0 = Ok (r, db1)" for r db1
  proof -
    have "db_ok DL db1 \<and> db_sequence ?db0 \<le> db_sequence db1 \<and> db_schema db1 = db_schema ?db0"
      using tx ok0 that unfolding tx_ok_def by blast
    then show "reach_ok DL db1" "db_sequence db \<le> db_sequence db1" by (simp_all add: reach_ok_def)
  qed
  show ?thesis
    using ok later finished by (auto simp: transact_def split: db_fault.splits sum.splits prod.splits)
qed

lemma store_snapshot_tx: "snapshot_ok (dl_master DL) S \<Longrightarrow> tx_ok DL (store_snapshot DL keep S publication now)"
  unfolding tx_ok_def by (intro allI impI conjI; (erule store_snapshot_ok | erule store_snapshot_frame); assumption?)

lemma migrate_transaction_tx: "tx_ok DL (migrate_transaction DL keep root h source now)"
  unfolding tx_ok_def
proof (intro allI impI)
  fix db r db1
  assume ok: "db_ok DL db" and tx: "migrate_transaction DL keep root h source now db = Ok (r, db1)"
  show "db_ok DL db1 \<and> db_sequence db \<le> db_sequence db1 \<and> db_schema db1 = db_schema db"
  proof (cases "find (\<lambda>g. mg_scope g = dl_scope_key DL (hs_scope h)) (db_migrations db)")
    case None
    with tx obtain mid g where mid: "migrate_entries DL keep root (hs_scope h) now (rev (hs_entries h)) db = Ok mid"
      and db1: "db1 = mid\<lparr>db_migrations := g\<rparr>"
      by (auto simp: migrate_transaction_def Let_def then_result_Ok_iff split: if_splits)
    note mid = migrate_entries_ok [OF mid ok]
    have "db_ok DL db1" by (rule db_same_ok [of mid]) (use mid in \<open>simp_all add: db_same_def db1\<close>)
    then show ?thesis using mid by (simp add: db1)
  next
    case (Some g)
    then show ?thesis using tx ok by (auto simp: migrate_transaction_def Let_def split: if_splits)
  qed
qed

definition db_empty :: master_db where
  "db_empty = \<lparr>db_schema = False, db_snapshots = [], db_documents = [], db_history = [], db_current = (\<lambda>_. None),
     db_migrations = [], db_sequence = 0\<rparr>"

inductive db_reach :: "host_lib \<Rightarrow> db_lib \<Rightarrow> master_db \<Rightarrow> bool" for B DL where
  db_start: "db_reach B DL db_empty"
| db_publishes: "db_reach B DL db \<Longrightarrow> db_reach B DL (snd (db_publish B DL c source scope fault now db))"
| db_migrates: "db_reach B DL db \<Longrightarrow> db_reach B DL (snd (migrate_history B DL c planned root scope fault now db))"

lemma db_reach_ok: "db_reach B DL db \<Longrightarrow> reach_ok DL db"
proof (induction rule: db_reach.induct)
  case db_start
  show ?case by (simp add: reach_ok_def db_empty_def db_ok_def rows_ok_def newest_ok_def newest_at_def events_ok_def rows_of_def)
next
  case (db_publishes db c source scope fault now)
  show ?case
  proof (cases "\<exists>S. verified_snapshot (dl_master DL) source scope None = Ok S \<and>
      snd (db_publish B DL c source scope fault now db) = snd (publish_snapshot DL (dc_keep_snapshots c) S fault now db)")
    case True
    then obtain S where S: "verified_snapshot (dl_master DL) source scope None = Ok S"
      and eq: "snd (db_publish B DL c source scope fault now db) = snd (publish_snapshot DL (dc_keep_snapshots c) S fault now db)" by blast
    show ?thesis unfolding eq publish_snapshot_def
      by (rule transact_ok [OF store_snapshot_tx [OF verified_snapshot_Ok(1) [OF S]] db_publishes.IH])
  next
    case False
    then have "snd (db_publish B DL c source scope fault now db) = db"
      by (auto simp: db_publish_def then_result_Ok_iff split: sum.splits)
    then show ?thesis using db_publishes.IH by simp
  qed
next
  case (db_migrates db c planned root scope fault now)
  show ?case
    using transact_ok [OF migrate_transaction_tx db_migrates.IH] db_migrates.IH
    by (auto simp: migrate_history_def split: sum.splits)
qed

subsection \<open>What the reader returns\<close>

definition sha256_hex :: "db_lib \<Rightarrow> bool" where
  "sha256_hex DL \<longleftrightarrow> (\<forall>bs. hash_valid (ml_sha256 (dl_master DL) bs))"

abbreviation row_document :: "db_lib \<Rightarrow> published_manifest \<Rightarrow> u8 list \<Rightarrow> registry_document" where
  "row_document DL m bs \<equiv> \<lparr>rd_bytes = bs, rd_etag = ''\"'' @ digest (dl_master DL) bs @ ''\"'', rd_version = pm_version m\<rparr>"

lemma published_hash_valid:
  assumes "published_validate L m scope = Ok ()" "\<forall>bs. hash_valid (ml_sha256 L bs)"
  shows "hash_valid (pm_content_sha256 m)"
proof -
  have "\<exists>bs. pm_content_sha256 m = ml_sha256 L bs"
    using assms(1) by (auto simp: published_validate_def then_result_Ok_iff Let_def content_hash_def digest_def split: if_splits) metis
  then show ?thesis using assms(2) by auto
qed

lemma row_serves:
  assumes ok: "db_ok DL db" and schema: "db_schema db" and inj: "inj (dl_scope_key DL)" and sha: "sha256_hex DL"
    and row: "snap_at db (dl_scope_key DL scope) h = Some row" "length (sr_manifest row) \<le> 1048576"
  obtains m where "ml_de_published (dl_master DL) (sr_manifest row) = Some m" "published_validate (dl_master DL) m scope = Ok ()"
    "pm_content_sha256 m = h" "docs_for (dl_master DL) (pm_files m) (docs_at db (dl_scope_key DL scope) h)"
    "db_document DL None db scope (Some h) None = Ok (row_document DL m (sr_manifest row))"
    "db_current db (dl_scope_key DL scope) = Some h \<Longrightarrow> db_document DL None db scope None None = Ok (row_document DL m (sr_manifest row))"
    "\<And>f tab d. f \<in> set (pm_files m) \<Longrightarrow> tf_name f = tab @ ''.json'' \<Longrightarrow> d \<in> set (docs_at db (dl_scope_key DL scope) h) \<Longrightarrow>
      dw_name d = tf_name f \<Longrightarrow> db_document DL None db scope (Some h) (Some tab) = Ok (row_document DL m (dw_bytes d))"
proof -
  let ?L = "dl_master DL" and ?k = "dl_scope_key DL scope"
  have keys: "distinct (map snap_key (db_snapshots db))" "distinct (map doc_key (db_documents db))"
    using ok by (simp_all add: db_ok_def rows_ok_def)
  have r: "row \<in> set (db_snapshots db)" "sr_scope row = ?k" "sr_hash row = h"
    using row(1) snap_at_iff [OF keys(1)] by simp_all
  have "row_ok DL db row" using ok r(1) by (simp add: db_ok_def rows_ok_def)
  then obtain m scope1 where m: "?k = dl_scope_key DL scope1" "ml_de_published ?L (sr_manifest row) = Some m"
    "published_validate ?L m scope1 = Ok ()" "pm_content_sha256 m = h" "docs_for ?L (pm_files m) (docs_at db ?k h)"
    unfolding row_ok_def r(2,3) by blast
  have valid: "published_validate ?L m scope = Ok ()" using m(1,3) inj by (simp add: inj_eq)
  note names = published_names [OF valid]
  have hash: "hash_valid h" using published_hash_valid [OF valid] sha m(4) by (simp add: sha256_hex_def)
  have table: "db_document DL None db scope (Some h) (Some tab) = Ok (row_document DL m (dw_bytes d))"
    if f: "f \<in> set (pm_files m)" "tf_name f = tab @ ''.json''" and d: "d \<in> set (docs_at db ?k h)" "dw_name d = tf_name f" for f tab d
  proof -
    have listed: "find (\<lambda>f. tf_name f = tab @ ''.json'') (pm_files m) = Some f"
      using f names(2) by (subst find_unique) (auto simp: distinct_map inj_on_def)
    have doc: "find (\<lambda>d. dw_name d = tab @ ''.json'') (docs_at db ?k h) = Some d"
      using docs_at_find [OF keys(2) d(1)] d(2) f(2) by simp
    have data: "table_ok ?L f (dw_bytes d)" "dw_sha256 d = tf_sha256 f" using m(5) f(1) d by (simp_all add: docs_for_def)
    have "file_ok f" using names(3) f(1) by (simp add: list_all_iff)
    then have "length (dw_bytes d) \<le> 67108864" using data(1) by (simp add: file_ok_def table_ok_def MAX_JSON_def)
    moreover have "safe_component tab" using names(8) [OF f(1)] f(2) by auto
    ultimately show ?thesis
      using row hash names(5) schema m(2,4) valid r(3) listed doc data
      by (simp add: db_document_def document_inner_def Let_def table_ok_def)
  qed
  have "db_document DL None db scope (Some h) None = Ok (row_document DL m (sr_manifest row))"
    "db_current db ?k = Some h \<Longrightarrow> db_document DL None db scope None None = Ok (row_document DL m (sr_manifest row))"
    using row hash names(5) schema m(2,4) valid r(3) by (simp_all add: db_document_def document_inner_def Let_def)
  from that [OF m(2) valid m(4,5) this table] show thesis .
qed

text \<open>C12: what the mirror stores can be read.  Whatever publications and migrations ran against a database, failed in
  the middle or lost the answer of their commit, every stored snapshot whose manifest is within the limit of the
  reader is served completely: its manifest, which is valid for the scope and has the hash it is stored under, and each
  table it lists, with the recorded size and digest and as valid JSON.  The hypotheses: distinct scopes have
  distinct JSON texts, and SHA-256 is printed as 64 hexadecimal digits.\<close>

theorem stored_snapshots_are_readable:
  assumes "db_reach B DL db" and "inj (dl_scope_key DL)" and "sha256_hex DL"
    and "snap_at db (dl_scope_key DL scope) h = Some row" and "length (sr_manifest row) \<le> 1048576"
  shows "\<exists>m. db_document DL None db scope (Some h) None = Ok (row_document DL m (sr_manifest row)) \<and>
    ml_de_published (dl_master DL) (sr_manifest row) = Some m \<and> published_validate (dl_master DL) m scope = Ok () \<and>
    pm_content_sha256 m = h \<and>
    (\<forall>f \<in> set (pm_files m). \<exists>tab doc. tf_name f = tab @ ''.json'' \<and>
      db_document DL None db scope (Some h) (Some tab) = Ok doc \<and> table_ok (dl_master DL) f (rd_bytes doc))"
proof -
  have ok: "db_ok DL db" "db_schema db"
    using db_reach_ok [OF assms(1)] assms(4) by (auto simp: reach_ok_def snap_at_def)
  from row_serves [OF ok assms(2-5)] obtain m where m: "ml_de_published (dl_master DL) (sr_manifest row) = Some m"
    "published_validate (dl_master DL) m scope = Ok ()" "pm_content_sha256 m = h"
    "docs_for (dl_master DL) (pm_files m) (docs_at db (dl_scope_key DL scope) h)"
    "db_document DL None db scope (Some h) None = Ok (row_document DL m (sr_manifest row))"
    and table: "\<And>f tab d. f \<in> set (pm_files m) \<Longrightarrow> tf_name f = tab @ ''.json'' \<Longrightarrow> d \<in> set (docs_at db (dl_scope_key DL scope) h) \<Longrightarrow>
      dw_name d = tf_name f \<Longrightarrow> db_document DL None db scope (Some h) (Some tab) = Ok (row_document DL m (dw_bytes d))"
    by metis
  have "\<exists>tab doc. tf_name f = tab @ ''.json'' \<and> db_document DL None db scope (Some h) (Some tab) = Ok doc \<and>
      table_ok (dl_master DL) f (rd_bytes doc)" if f: "f \<in> set (pm_files m)" for f
  proof -
    obtain tab where tab: "tf_name f = tab @ ''.json''" using published_names(8) [OF m(2) f] by blast
    have "tf_name f \<in> dw_name ` set (docs_at db (dl_scope_key DL scope) h)" using m(4) f unfolding docs_for_def by simp
    then obtain d where d: "d \<in> set (docs_at db (dl_scope_key DL scope) h)" "dw_name d = tf_name f" by auto
    moreover have "table_ok (dl_master DL) f (dw_bytes d)" using m(4) f d unfolding docs_for_def by simp
    ultimately show ?thesis using table [OF f tab d] tab by (metis registry_document.select_convs(1))
  qed
  with m show ?thesis by blast
qed

lemma docs_for_subset:
  assumes fs: "docs_for L fs docs" and gs: "docs_for L gs docs"
  shows "set fs \<subseteq> set gs"
proof
  fix f assume f: "f \<in> set fs"
  then obtain d where d: "d \<in> set docs" "dw_name d = tf_name f" using fs unfolding docs_for_def by (metis imageE imageI)
  then obtain g where g: "g \<in> set gs" "tf_name g = dw_name d" using gs unfolding docs_for_def by (metis imageE imageI)
  have "dw_sha256 d = tf_sha256 f" "length (dw_bytes d) = tf_size f" using fs f d unfolding docs_for_def table_ok_def by simp_all
  moreover have "dw_sha256 d = tf_sha256 g" "length (dw_bytes d) = tf_size g" using gs g d unfolding docs_for_def table_ok_def by simp_all
  ultimately have "f = g" using d(2) g(2) by (intro table_file.equality) simp_all
  then show "f \<in> set gs" using g(1) by simp
qed

lemma stored_tables_bytes:
  assumes "stored_tables S docs" "(f, bs, v) \<in> set (ds_tables S)"
  shows "\<exists>d \<in> set docs. dw_name d = tf_name f \<and> dw_bytes d = bs"
proof -
  obtain rows where rows: "set rows = set docs" "list_all2 (\<lambda>d (f, bs, v).
      dw_name d = tf_name f \<and> dw_sha256 d = tf_sha256 f \<and> dw_bytes d = bs) rows (ds_tables S)"
    using assms(1) by (auto simp: stored_tables_def)
  obtain k where "k < length (ds_tables S)" "ds_tables S ! k = (f, bs, v)" using assms(2) by (auto simp: in_set_conv_nth)
  then have "rows ! k \<in> set rows" "dw_name (rows ! k) = tf_name f" "dw_bytes (rows ! k) = bs"
    using list_all2_nthD2 [OF rows(2)] list_all2_lengthD [OF rows(2)] by fastforce+
  then show ?thesis using rows(1) by blast
qed

lemma store_snapshot_served:
  assumes "store_snapshot DL keep S publication now db = Ok (r, db1)" "db_ok DL db" "snapshot_ok (dl_master DL) S"
  defines "h \<equiv> pm_content_sha256 (ds_manifest S)" and "s \<equiv> dl_scope_key DL (pm_scope (ds_manifest S))"
  shows "db_current db1 s = Some h" "stored_tables S (docs_at db1 s h)" "dt_content_sha256 r = h" "snap_at db1 s h \<noteq> None"
proof -
  from assms(1) obtain mid final where parts: "store_content DL S s db = Ok mid"
    "if publication \<noteq> None \<or> db_current db s \<noteq> Some h
     then record_event DL S s (Option.bind publication id) now mid = Ok final else final = mid"
    and db1: "db1 = prune_snapshots keep s h final" and r: "dt_content_sha256 r = h"
    unfolding h_def s_def by (rule store_snapshot_parts) simp
  have final: "db_current final s = Some h"
    using store_snapshot_before_prune(2) [OF parts(1) parts(2) [unfolded h_def] assms(2,3)] by (simp add: h_def s_def)
  then show current: "db_current db1 s = Some h" by (simp add: db1 prune_snapshots_eq)
  show "dt_content_sha256 r = h" by (fact r)
  have "db_documents final = db_documents mid"
    using parts(2) record_event_Ok [of DL S s "Option.bind publication id" now mid final] by (auto simp: update_snap_def split: if_splits)
  then have "docs_at db1 s h = docs_at mid s h"
    unfolding db1 prune_docs_at by (simp add: pruned_hash_def docs_at_def)
  then show "stored_tables S (docs_at db1 s h)"
    using store_content_tables [OF parts(1)] assms(2) by (simp add: h_def db_ok_def)
  have "newest_at db1 s" using store_snapshot_ok [OF assms(1-3)] by (simp add: db_ok_def newest_ok_def)
  then have "has_snap db1 s h" using current unfolding newest_at_def has_snap_rows by blast
  then show "snap_at db1 s h \<noteq> None" using snap_at_None_iff by blast
qed

text \<open>What a publication read is what the reader returns afterwards.\<close>

lemma published_mirror_serves:
  assumes reach: "db_reach B DL db" and inj: "inj (dl_scope_key DL)" and sha: "sha256_hex DL"
    and publish: "db_publish B DL c source scope NoFault now db = (Ok r, db1)"
    and size: "\<forall>row. snap_at db1 (dl_scope_key DL scope) (dt_content_sha256 r) = Some row \<longrightarrow> length (sr_manifest row) \<le> 1048576"
  shows "\<exists>S doc m. verified_snapshot (dl_master DL) source scope None = Ok S \<and>
    db_document DL None db1 scope None None = Ok doc \<and> ml_de_published (dl_master DL) (rd_bytes doc) = Some m \<and>
    pm_content_sha256 m = dt_content_sha256 r \<and> pm_content_sha256 (ds_manifest S) = dt_content_sha256 r \<and>
    set (pm_files m) = set (pm_files (ds_manifest S)) \<and>
    (\<forall>f \<in> set (pm_files m). \<exists>tab doc1 doc2. tf_name f = tab @ ''.json'' \<and>
      registry_table (dl_master DL) source (sc_region scope) (pm_snapshot (ds_manifest S)) tab (tf_sha256 f) = Ok doc1 \<and>
      db_document DL None db1 scope (Some (dt_content_sha256 r)) (Some tab) = Ok doc2 \<and> rd_bytes doc2 = rd_bytes doc1)"
proof -
  let ?L = "dl_master DL" and ?k = "dl_scope_key DL scope"
  from publish obtain S where S: "verified_snapshot ?L source scope None = Ok S"
    and store: "store_snapshot DL (dc_keep_snapshots c) S None now (db\<lparr>db_schema := True\<rparr>) = Ok (r, db1)"
    by (auto simp: db_publish_def publish_snapshot_def transact_def then_result_Ok_iff split: sum.splits prod.splits)
  note verified = verified_snapshot_Ok [OF S]
  have ok0: "db_ok DL (db\<lparr>db_schema := True\<rparr>)"
    by (rule db_same_ok [of db]) (use db_reach_ok [OF reach] in \<open>simp_all add: db_same_def reach_ok_def\<close>)
  note served = store_snapshot_served [OF store ok0 verified(1), unfolded verified(2)]
  let ?h = "pm_content_sha256 (ds_manifest S)"
  have h: "dt_content_sha256 r = ?h" by (rule served(3))
  obtain row where row: "snap_at db1 ?k ?h = Some row" using served(4) by blast
  have schema: "db_schema db1" using store_snapshot_frame(2) [OF store] by simp
  have ok: "db_ok DL db1" by (rule store_snapshot_ok [OF store ok0 verified(1)])
  have small: "length (sr_manifest row) \<le> 1048576" using size row h by simp
  from row_serves [OF ok schema inj sha row small] obtain m where m: "ml_de_published ?L (sr_manifest row) = Some m"
    "pm_content_sha256 m = ?h" "docs_for ?L (pm_files m) (docs_at db1 ?k ?h)"
    "db_document DL None db1 scope None None = Ok (row_document DL m (sr_manifest row))"
    and table: "\<And>f tab d. f \<in> set (pm_files m) \<Longrightarrow> tf_name f = tab @ ''.json'' \<Longrightarrow> d \<in> set (docs_at db1 ?k ?h) \<Longrightarrow>
      dw_name d = tf_name f \<Longrightarrow> db_document DL None db1 scope (Some ?h) (Some tab) = Ok (row_document DL m (dw_bytes d))"
    using served(1) by metis
  have docs: "docs_for ?L (pm_files (ds_manifest S)) (docs_at db1 ?k ?h)" by (rule stored_tables_docs_for [OF served(2) verified(1)])
  have files: "set (pm_files m) = set (pm_files (ds_manifest S))"
    by (intro equalityI docs_for_subset [OF m(3) docs] docs_for_subset [OF docs m(3)])
  have "\<exists>tab doc1 doc2. tf_name f = tab @ ''.json'' \<and>
      registry_table ?L source (sc_region scope) (pm_snapshot (ds_manifest S)) tab (tf_sha256 f) = Ok doc1 \<and>
      db_document DL None db1 scope (Some ?h) (Some tab) = Ok doc2 \<and> rd_bytes doc2 = rd_bytes doc1" if f: "f \<in> set (pm_files m)" for f
  proof -
    have "f \<in> set (map fst (ds_tables S))" using f files verified(1) by (simp add: snapshot_ok_def)
    then obtain bs v where t: "(f, bs, v) \<in> set (ds_tables S)" by auto
    obtain d where d: "d \<in> set (docs_at db1 ?k ?h)" "dw_name d = tf_name f" "dw_bytes d = bs"
      using stored_tables_bytes [OF served(2) t] by blast
    obtain tab doc1 where tab: "tf_name f = tab @ ''.json''"
      "registry_table ?L source (sc_region scope) (pm_snapshot (ds_manifest S)) tab (tf_sha256 f) = Ok doc1" "rd_bytes doc1 = bs"
      using verified(3) [OF t] by blast
    show ?thesis using tab table [OF f tab(1) d(1,2)] d(3) by auto
  qed
  then show ?thesis using S m h files by (intro exI [of _ S] exI [of _ "row_document DL m (sr_manifest row)"] exI [of _ m]) simp
qed

subsection \<open>Retention\<close>

lemma touched_before_total: "\<not> touched_before a b \<Longrightarrow> touched_before b a"
  by (auto simp: touched_before_def)

lemma touched_before_trans: "touched_before a b \<Longrightarrow> touched_before b c \<Longrightarrow> touched_before a c"
  by (auto simp: touched_before_def)

abbreviation scope_rows :: "master_db \<Rightarrow> string \<Rightarrow> snap_row list" where
  "scope_rows db s \<equiv> filter (\<lambda>r. sr_scope r = s) (db_snapshots db)"

lemma newest_first:
  assumes ok: "db_ok DL db" and current: "db_current db s = Some h" and keep: "1 \<le> keep"
  shows "h \<in> set (newest_hashes keep s db)"
proof -
  have "newest_at db s" using ok by (simp add: db_ok_def newest_ok_def)
  then obtain t where t: "(h, t) \<in> rows_of db s" "\<And>g u. (g, u) \<in> rows_of db s \<Longrightarrow> g \<noteq> h \<Longrightarrow> u < t"
    using current unfolding newest_at_def by blast
  let ?ord = "order_by touched_before (scope_rows db s)"
  obtain r where r: "r \<in> set ?ord" "sr_hash r = h" "sr_touched r = t" using t(1) by (auto simp: rows_of_iff)
  then obtain x xs where ord: "?ord = x # xs" by (cases ?ord) auto
  have sorted: "sorted_wrt touched_before ?ord" by (rule sorted_order_by) (auto intro: touched_before_total touched_before_trans)
  have "x = r \<or> touched_before x r" using sorted r(1) unfolding ord by auto
  moreover have "x \<in> set (scope_rows db s)" using ord by (metis list.set_intros(1) set_order_by)
  ultimately have "sr_hash x = h" using t(2) [of "sr_hash x" "sr_touched x"] r
    by (fastforce simp: touched_before_def rows_of_iff)
  moreover obtain n where "keep = Suc n" using keep by (cases keep) auto
  ultimately show ?thesis by (simp add: newest_hashes_def ord)
qed

lemma prune_bound:
  assumes ok: "db_ok DL db" and current: "db_current db s = Some h" and keep: "1 \<le> keep"
  shows "length (scope_rows (prune_snapshots keep s h db) s) \<le> keep"
proof -
  let ?rows = "scope_rows (prune_snapshots keep s h db) s"
  have "distinct (map snap_key (db_snapshots db))" using ok by (simp add: db_ok_def rows_ok_def)
  then have "distinct (map snap_key ?rows)" by (simp add: prune_snapshots_eq distinct_map_filtered)
  then have "inj_on sr_hash (set ?rows)" "distinct ?rows" by (auto simp: distinct_map inj_on_def)
  then have "length ?rows = card (sr_hash ` set ?rows)" by (metis card_image distinct_card)
  also have "\<dots> \<le> card (set (newest_hashes keep s db))"
    using newest_first [OF ok current keep] by (intro card_mono) (auto simp: prune_snapshots_eq pruned_hash_def)
  also have "\<dots> \<le> keep" by (rule order_trans [OF card_length]) (simp add: newest_hashes_def)
  finally show ?thesis .
qed

lemma prune_again:
  assumes ok: "rows_ok DL db" and bound: "length (scope_rows db s) \<le> keep"
  shows "prune_snapshots keep s h db = db"
proof -
  have all: "newest_hashes keep s db = map sr_hash (order_by touched_before (scope_rows db s))"
    using bound by (simp add: newest_hashes_def)
  have kept: "\<not> pruned_hash keep s h db a g" if "has_snap db a g" for a g
    using that unfolding pruned_hash_def all by auto
  have "filter (\<lambda>r. \<not> pruned_hash keep s h db (sr_scope r) (sr_hash r)) (db_snapshots db) = db_snapshots db"
    using kept by (intro filter_True) auto
  moreover have "filter (\<lambda>d. \<not> pruned_hash keep s h db (dw_scope d) (dw_hash d)) (db_documents db) = db_documents db"
    using kept ok unfolding rows_ok_def by (intro filter_True) blast
  ultimately show ?thesis by (simp add: prune_snapshots_eq)
qed

lemma store_snapshot_bound:
  assumes "store_snapshot DL keep S publication now db = Ok (r, db1)" "db_ok DL db" "snapshot_ok (dl_master DL) S" "1 \<le> keep"
  shows "length (scope_rows db1 (dl_scope_key DL (pm_scope (ds_manifest S)))) \<le> keep"
proof -
  let ?s = "dl_scope_key DL (pm_scope (ds_manifest S))" and ?h = "pm_content_sha256 (ds_manifest S)"
  from assms(1) obtain mid final where parts: "store_content DL S ?s db = Ok mid"
    "if publication \<noteq> None \<or> db_current db ?s \<noteq> Some ?h
     then record_event DL S ?s (Option.bind publication id) now mid = Ok final else final = mid"
    and db1: "db1 = prune_snapshots keep ?s ?h final"
    by (rule store_snapshot_parts) blast
  show ?thesis unfolding db1
    by (rule prune_bound [OF store_snapshot_before_prune [OF parts assms(2,3) refl] assms(4)])
qed

subsection \<open>Publishing again\<close>

lemma find_map_row: "(\<And>x. P (g x) = P x) \<Longrightarrow> find P (map g xs) = map_option g (find P xs)"
  by (induction xs) auto

lemma find_filtered: "(\<And>x. P x \<Longrightarrow> Q x) \<Longrightarrow> find P (filter Q xs) = find P xs"
  by (induction xs) auto

lemma find_append: "find P (xs @ ys) = (case find P xs of None \<Rightarrow> find P ys | Some x \<Rightarrow> Some x)"
  by (induction xs) auto

lemma snap_at_key: "snap_at db s h = Some r \<Longrightarrow> sr_scope r = s \<and> sr_hash r = h"
  by (auto simp: snap_at_def find_Some_iff)

lemma snap_at_update:
  assumes "\<And>r. sr_scope (f r) = sr_scope r" "\<And>r. sr_hash (f r) = sr_hash r"
  shows "snap_at (update_snap s h f db) s h = map_option f (snap_at db s h)"
proof -
  have "snap_at (update_snap s h f db) s h = map_option (\<lambda>r. if sr_scope r = s \<and> sr_hash r = h then f r else r) (snap_at db s h)"
    unfolding snap_at_def update_snap_def by (simp add: find_map_row assms)
  also have "\<dots> = map_option f (snap_at db s h)" by (cases "snap_at db s h") (auto dest: snap_at_key)
  finally show ?thesis .
qed

lemma snap_at_prune: "snap_at (prune_snapshots keep s h db) s h = snap_at db s h"
  by (simp add: snap_at_def prune_snapshots_eq) (rule find_filtered, simp add: pruned_hash_def)

text \<open>What a stored snapshot must satisfy for the same content to be accepted again.\<close>

definition accepts :: "db_lib \<Rightarrow> db_snapshot \<Rightarrow> string \<Rightarrow> master_db \<Rightarrow> bool" where
  "accepts DL S s db \<longleftrightarrow> (\<exists>row saved. snap_at db s (pm_content_sha256 (ds_manifest S)) = Some row \<and>
     ml_de_published (dl_master DL) (sr_manifest row) = Some saved \<and>
     published_validate (dl_master DL) saved (pm_scope (ds_manifest S)) = Ok () \<and>
     pm_content_sha256 saved = pm_content_sha256 (ds_manifest S) \<and>
     (pm_resource_version (ds_manifest S) = None \<or> pm_resource_version saved = pm_resource_version (ds_manifest S)) \<and>
     list_all2 same_document (order_by (\<lambda>a b. dl_name_le DL (dw_name a) (dw_name b))
       (docs_at db s (pm_content_sha256 (ds_manifest S)))) (ds_tables S))"

lemma accepts_store_content: "accepts DL S s db \<Longrightarrow> store_content DL S s db = Ok db"
  unfolding accepts_def
proof (elim exE conjE)
  fix row saved
  assume row: "snap_at db s (pm_content_sha256 (ds_manifest S)) = Some row"
    "ml_de_published (dl_master DL) (sr_manifest row) = Some saved"
    "published_validate (dl_master DL) saved (pm_scope (ds_manifest S)) = Ok ()"
    "pm_content_sha256 saved = pm_content_sha256 (ds_manifest S)"
    "pm_resource_version (ds_manifest S) = None \<or> pm_resource_version saved = pm_resource_version (ds_manifest S)"
    and docs: "list_all2 same_document (order_by (\<lambda>a b. dl_name_le DL (dw_name a) (dw_name b))
       (docs_at db s (pm_content_sha256 (ds_manifest S)))) (ds_tables S)"
  have len: "length (docs_at db s (pm_content_sha256 (ds_manifest S))) = length (ds_tables S)"
    using list_all2_lengthD [OF docs] by simp
  show "store_content DL S s db = Ok db"
    using row docs len by (auto simp: store_content_def Let_def zip_all_list_all2)
qed

definition byte_order :: "db_lib \<Rightarrow> bool" where
  "byte_order DL \<longleftrightarrow> (\<forall>a b. dl_name_le DL a b \<longleftrightarrow> a \<le> b)"

definition jsonb_keeps :: "db_lib \<Rightarrow> db_snapshot \<Rightarrow> bool" where
  "jsonb_keeps DL S \<longleftrightarrow> (\<forall>(f, bs, v) \<in> set (ds_tables S). dl_jsonb DL v = Some v)"

lemma sorted_tables_order:
  assumes docs: "list_all2 (\<lambda>d (f, bs, v). dw_name d = tf_name f \<and> dl_jsonb DL v = Some (dw_document d) \<and>
      dw_sha256 d = tf_sha256 f \<and> dw_bytes d = bs) docs (ds_tables S)"
    and S: "snapshot_ok L S" and order: "byte_order DL" and json: "jsonb_keeps DL S"
  shows "list_all2 same_document (order_by (\<lambda>a b. dl_name_le DL (dw_name a) (dw_name b)) docs) (ds_tables S)"
proof -
  have len: "length docs = length (ds_tables S)" using docs by (rule list_all2_lengthD)
  have files: "map fst (ds_tables S) = pm_files (ds_manifest S)" "sorted (map tf_name (pm_files (ds_manifest S)))"
    using S published_names(1) by (auto simp: snapshot_ok_def)
  have "map dw_name docs = map (tf_name \<circ> fst) (ds_tables S)"
    using docs by (induction rule: list_all2_induct) auto
  then have names: "map dw_name docs = map tf_name (pm_files (ds_manifest S))" by (simp flip: files(1))
  have "sorted_wrt (\<lambda>a b. dl_name_le DL (dw_name a) (dw_name b)) docs"
    using files(2) order unfolding names [symmetric] byte_order_def sorted_wrt_map by simp
  then have "order_by (\<lambda>a b. dl_name_le DL (dw_name a) (dw_name b)) docs = docs" by (rule order_by_sorted)
  moreover have "same_document (docs ! k) (ds_tables S ! k)" if "k < length docs" for k
  proof -
    obtain f bs v where t: "ds_tables S ! k = (f, bs, v)" by (cases "ds_tables S ! k")
    have "ds_tables S ! k \<in> set (ds_tables S)" using that len by simp
    then have "dl_jsonb DL v = Some v" using json t unfolding jsonb_keeps_def by fastforce
    then show ?thesis using list_all2_nthD [OF docs that] t by (simp add: same_document_def)
  qed
  ultimately show ?thesis using len by (simp add: list_all2_conv_all_nth)
qed

lemma accepts_cong:
  assumes "map_option sr_manifest (snap_at db1 s (pm_content_sha256 (ds_manifest S))) =
      map_option sr_manifest (snap_at db s (pm_content_sha256 (ds_manifest S)))"
    "docs_at db1 s (pm_content_sha256 (ds_manifest S)) = docs_at db s (pm_content_sha256 (ds_manifest S))" "accepts DL S s db"
  shows "accepts DL S s db1"
proof -
  from assms(3) obtain row where row: "snap_at db s (pm_content_sha256 (ds_manifest S)) = Some row" unfolding accepts_def by blast
  then obtain row1 where row1: "snap_at db1 s (pm_content_sha256 (ds_manifest S)) = Some row1" "sr_manifest row1 = sr_manifest row"
    using assms(1) by auto
  show ?thesis using assms(3) unfolding accepts_def assms(2) row row1(1) option.inject by (auto simp: row1(2))
qed

lemma store_content_new_docs:
  assumes store: "insert_documents DL s (pm_content_sha256 (ds_manifest S)) (ds_tables S) (db_documents db) = Ok docs"
    and new: "snap_at db s (pm_content_sha256 (ds_manifest S)) = None" and ok: "rows_ok DL db"
  shows "\<exists>rows. filter (\<lambda>d. dw_scope d = s \<and> dw_hash d = pm_content_sha256 (ds_manifest S)) docs = rows \<and>
    list_all2 (\<lambda>d (f, bs, v). dw_name d = tf_name f \<and> dl_jsonb DL v = Some (dw_document d) \<and>
      dw_sha256 d = tf_sha256 f \<and> dw_bytes d = bs) rows (ds_tables S)"
proof -
  let ?h = "pm_content_sha256 (ds_manifest S)"
  obtain rows where rows: "docs = db_documents db @ rows" "list_all2 (\<lambda>d (f, bs, v). dw_scope d = s \<and> dw_hash d = ?h \<and>
      dw_name d = tf_name f \<and> dw_sha256 d = tf_sha256 f \<and> dw_bytes d = bs \<and> dl_jsonb DL v = Some (dw_document d)) rows (ds_tables S)"
    using insert_documents_Ok [OF store] by blast
  have old: "\<not> (dw_scope d = s \<and> dw_hash d = ?h)" if "d \<in> set (db_documents db)" for d
  proof
    assume "dw_scope d = s \<and> dw_hash d = ?h"
    moreover have "has_snap db (dw_scope d) (dw_hash d)" using ok that unfolding rows_ok_def by blast
    ultimately show False using new unfolding snap_at_None_iff by metis
  qed
  have key: "dw_scope d = s \<and> dw_hash d = ?h" if "d \<in> set rows" for d
    using list_all2_nthD [OF rows(2)] that by (auto simp: in_set_conv_nth split: prod.splits)
  have "filter (\<lambda>d. dw_scope d = s \<and> dw_hash d = ?h) docs = rows"
    using old key by (simp add: rows(1) filter_id_conv filter_empty_conv)
  moreover have "list_all2 (\<lambda>d (f, bs, v). dw_name d = tf_name f \<and> dl_jsonb DL v = Some (dw_document d) \<and>
      dw_sha256 d = tf_sha256 f \<and> dw_bytes d = bs) rows (ds_tables S)"
    using rows(2) by (rule list_all2_mono) auto
  ultimately show ?thesis by blast
qed

lemma store_content_accepts:
  assumes store: "store_content DL S s db = Ok mid" and ok: "rows_ok DL db" and S: "snapshot_ok (dl_master DL) S"
    and order: "byte_order DL" and json: "jsonb_keeps DL S"
  shows "accepts DL S s mid"
  using store
proof (cases rule: store_content_cases)
  case (same row saved)
  let ?h = "pm_content_sha256 (ds_manifest S)"
  have docs: "docs_at mid s ?h = docs_at db s ?h" unfolding same(6) by (simp add: docs_at_def update_snap_def)
  show ?thesis
  proof (cases "pm_resource_version (ds_manifest S) \<noteq> None \<and> pm_resource_version saved \<noteq> pm_resource_version (ds_manifest S)")
    case True
    have "snap_at mid s ?h = Some (row\<lparr>sr_manifest := ds_manifest_bytes S\<rparr>)"
      using True same(1,6) by (simp add: snap_at_update)
    then show ?thesis unfolding accepts_def docs
      by (intro exI [of _ "row\<lparr>sr_manifest := ds_manifest_bytes S\<rparr>"] exI [of _ "ds_manifest S"])
        (use S same(5) in \<open>simp add: snapshot_ok_def\<close>)
  next
    case False
    then show ?thesis unfolding accepts_def docs using same by auto
  qed
next
  case (new docs)
  let ?h = "pm_content_sha256 (ds_manifest S)"
  let ?row = "\<lparr>sr_scope = s, sr_hash = ?h, sr_manifest = ds_manifest_bytes S, sr_touched = 0\<rparr>"
  have row: "snap_at mid s ?h = Some ?row"
    using new(1) unfolding new(3) snap_at_def by (simp add: find_append)
  have at: "docs_at mid s ?h = filter (\<lambda>d. dw_scope d = s \<and> dw_hash d = ?h) docs" by (simp add: docs_at_def new(3))
  obtain rows where rows: "docs_at mid s ?h = rows" "list_all2 (\<lambda>d (f, bs, v). dw_name d = tf_name f \<and>
      dl_jsonb DL v = Some (dw_document d) \<and> dw_sha256 d = tf_sha256 f \<and> dw_bytes d = bs) rows (ds_tables S)"
    using store_content_new_docs [OF new(2,1) ok] unfolding at by blast
  show ?thesis unfolding accepts_def rows(1)
    by (intro exI [of _ ?row] exI [of _ "ds_manifest S"])
      (use S row sorted_tables_order [OF rows(2) S order json] in \<open>simp add: snapshot_ok_def\<close>)
qed

lemma store_snapshot_again:
  assumes store: "store_snapshot DL keep S publication now db = Ok (r, db1)" and ok: "db_ok DL db" and S: "snapshot_ok (dl_master DL) S"
    and keep: "1 \<le> keep" and order: "byte_order DL" and json: "jsonb_keeps DL S"
  shows "store_snapshot DL keep S None later db1 = Ok (r\<lparr>dt_changed := False\<rparr>, db1)"
proof -
  let ?s = "dl_scope_key DL (pm_scope (ds_manifest S))" and ?h = "pm_content_sha256 (ds_manifest S)"
  from store obtain mid final where parts: "store_content DL S ?s db = Ok mid"
    "if publication \<noteq> None \<or> db_current db ?s \<noteq> Some ?h
     then record_event DL S ?s (Option.bind publication id) now mid = Ok final else final = mid"
    and db1: "db1 = prune_snapshots keep ?s ?h final"
    and r: "r = \<lparr>dt_content_sha256 = ?h, dt_tables = length (ds_tables S), dt_bytes = snapshot_bytes S,
      dt_changed = (publication \<noteq> None \<or> db_current db ?s \<noteq> Some ?h)\<rparr>"
    by (rule store_snapshot_parts)
  have mid: "accepts DL S ?s mid" using store_content_accepts [OF parts(1) _ S order json] ok by (simp add: db_ok_def)
  have final: "map_option sr_manifest (snap_at final ?s ?h) = map_option sr_manifest (snap_at mid ?s ?h)"
    "docs_at final ?s ?h = docs_at mid ?s ?h"
  proof (atomize(full), cases "final = mid")
    case False
    then obtain e where e: "final = update_snap ?s ?h (\<lambda>r. r\<lparr>sr_touched := db_sequence mid + 1\<rparr>)
      (mid\<lparr>db_history := db_history mid @ [e], db_current := (db_current mid)(?s \<mapsto> ?h), db_sequence := db_sequence mid + 1\<rparr>)"
      using parts(2) record_event_Ok [of DL S ?s "Option.bind publication id" now mid final] by (auto split: if_splits)
    have "snap_at (mid\<lparr>db_history := x, db_current := y, db_sequence := z\<rparr>) ?s ?h = snap_at mid ?s ?h" for x y z
      by (simp add: snap_at_def)
    then show "map_option sr_manifest (snap_at final ?s ?h) = map_option sr_manifest (snap_at mid ?s ?h) \<and>
        docs_at final ?s ?h = docs_at mid ?s ?h"
      unfolding e by (subst snap_at_update) (simp_all add: option.map_comp comp_def docs_at_def update_snap_def)
  qed simp
  have "accepts DL S ?s db1"
    by (rule accepts_cong [OF _ _ mid]) (simp_all add: db1 snap_at_prune prune_docs_at pruned_hash_def final)
  then have content: "store_content DL S ?s db1 = Ok db1" by (rule accepts_store_content)
  have current: "db_current db1 ?s = Some ?h" by (rule store_snapshot_served(1) [OF store ok S])
  have "prune_snapshots keep ?s ?h db1 = db1"
    by (rule prune_again [of DL]) (use store_snapshot_ok [OF store ok S] store_snapshot_bound [OF store ok S keep] in \<open>simp_all add: db_ok_def\<close>)
  then show ?thesis unfolding store_snapshot_def Let_def using content current by (simp add: r)
qed

lemma db_publish_store:
  assumes "db_publish B DL c source scope NoFault now db = (Ok r, db1)"
  obtains S where "verified_snapshot (dl_master DL) source scope None = Ok S" "1 \<le> dc_keep_snapshots c"
    "store_snapshot DL (dc_keep_snapshots c) S None now (db\<lparr>db_schema := True\<rparr>) = Ok (r, db1)"
    "\<forall>fault t d. db_publish B DL c source scope fault t d = publish_snapshot DL (dc_keep_snapshots c) S fault t d"
proof -
  from assms obtain S where S: "verified_snapshot (dl_master DL) source scope None = Ok S" and valid: "db_validate B c = Ok ()"
    and opts: "\<exists>opts. connect_options B c (dc_timeout_seconds c) = Ok opts"
    and store: "store_snapshot DL (dc_keep_snapshots c) S None now (db\<lparr>db_schema := True\<rparr>) = Ok (r, db1)"
    by (auto simp: db_publish_def publish_snapshot_def transact_def then_result_Ok_iff split: sum.splits prod.splits)
  have "1 \<le> dc_keep_snapshots c" using valid by (auto simp: db_validate_def split: if_splits)
  moreover have "db_publish B DL c source scope fault t d = publish_snapshot DL (dc_keep_snapshots c) S fault t d" for fault t d
    using S valid opts by (auto simp: db_publish_def)
  ultimately show thesis using that S store by blast
qed

lemma reach_schema:
  assumes "db_reach B DL db"
  shows "db_ok DL (db\<lparr>db_schema := True\<rparr>)"
  by (rule db_same_ok [of db]) (use db_reach_ok [OF assms] in \<open>simp_all add: db_same_def reach_ok_def\<close>)

text \<open>C13: an uncertain commit is reconciled by content.  If the answer to the commit of a publication is lost although
  the commit happened, publishing the same source again succeeds, reports that nothing changed, and leaves
  the database exactly as the lost transaction left it: no second event in the history, no row replaced, nothing pruned.
  The hypotheses: names collate in byte order, and the \<open>JSONB\<close> column returns the documents that are stored.\<close>

theorem lost_commits_are_reconciled:
  assumes "db_reach B DL db" and publish: "db_publish B DL c source scope NoFault now db = (Ok r, db1)"
    and "byte_order DL" and json: "\<forall>S. verified_snapshot (dl_master DL) source scope None = Ok S \<longrightarrow> jsonb_keeps DL S"
  shows "db_publish B DL c source scope (CommitLost e True) now db = (Err e, db1) \<and>
    db_publish B DL c source scope NoFault later db1 = (Ok (r\<lparr>dt_changed := False\<rparr>), db1)"
proof -
  from publish obtain S where S: "verified_snapshot (dl_master DL) source scope None = Ok S" "1 \<le> dc_keep_snapshots c"
    and store: "store_snapshot DL (dc_keep_snapshots c) S None now (db\<lparr>db_schema := True\<rparr>) = Ok (r, db1)"
    and eq: "\<forall>fault t d. db_publish B DL c source scope fault t d = publish_snapshot DL (dc_keep_snapshots c) S fault t d"
    by (rule db_publish_store)
  have again: "store_snapshot DL (dc_keep_snapshots c) S None later db1 = Ok (r\<lparr>dt_changed := False\<rparr>, db1)"
    by (rule store_snapshot_again [OF store reach_schema [OF assms(1)] verified_snapshot_Ok(1) [OF S(1)] S(2) assms(3)])
      (use json S(1) in simp)
  have schema: "db1\<lparr>db_schema := True\<rparr> = db1" using store_snapshot_frame(2) [OF store] by (cases db1) simp
  show ?thesis using store again by (simp add: eq publish_snapshot_def transact_def schema)
qed

text \<open>C18: the mirror stays bounded.  After a successful publication the scope has at most \<open>keep_snapshots\<close> snapshots,
  the one just published is the current one and among them.\<close>

theorem mirror_keeps_the_newest:
  assumes "db_reach B DL db" and "db_publish B DL c source scope NoFault now db = (Ok r, db1)"
  shows "length (filter (\<lambda>row. sr_scope row = dl_scope_key DL scope) (db_snapshots db1)) \<le> dc_keep_snapshots c \<and>
    db_current db1 (dl_scope_key DL scope) = Some (dt_content_sha256 r) \<and>
    snap_at db1 (dl_scope_key DL scope) (dt_content_sha256 r) \<noteq> None"
proof -
  from assms(2) obtain S where S: "verified_snapshot (dl_master DL) source scope None = Ok S" "1 \<le> dc_keep_snapshots c"
    and store: "store_snapshot DL (dc_keep_snapshots c) S None now (db\<lparr>db_schema := True\<rparr>) = Ok (r, db1)"
    by (rule db_publish_store)
  note verified = verified_snapshot_Ok [OF S(1)]
  note served = store_snapshot_served [OF store reach_schema [OF assms(1)] verified(1), unfolded verified(2)]
  show ?thesis using store_snapshot_bound [OF store reach_schema [OF assms(1)] verified(1) S(2)] served by (simp add: verified(2))
qed


subsection \<open>A sample mirror\<close>

definition sample_scope_key :: "master_scope \<Rightarrow> string" where
  "sample_scope_key sc = (case sc_region sc of Jp \<Rightarrow> CHR ''j'' | Hk \<Rightarrow> CHR ''h'' | En \<Rightarrow> CHR ''e'' | Kr \<Rightarrow> CHR ''k'' | Cn \<Rightarrow> CHR ''c'') #
     (case sc_platform sc of Ios \<Rightarrow> CHR ''i'' | Android \<Rightarrow> CHR ''a'') # sc_environment sc"

definition mirror_lib :: db_lib where
  "mirror_lib = \<lparr>dl_master = import_lib, dl_scope_key = sample_scope_key, dl_jsonb = Some, dl_name_le = (\<le>),
     dl_time = (\<lambda>_. ''2025-01-01T00:00:00.000000Z''), dl_parse_time = (\<lambda>_. Some 0), dl_ser_plan = (\<lambda>_. [])\<rparr>"

definition sample_host :: host_lib where
  "sample_host = \<lparr>hb_env = \<lparr>el_env = [''PW'' \<mapsto> ''p''], el_header_ok = (\<lambda>_. True), el_parse = (\<lambda>_. None),
     el_uri_ok = (\<lambda>_. False)\<rparr>, hb_loopback = (\<lambda>_. False), hb_file = (\<lambda>_. None)\<rparr>"

definition sample_db_config :: db_config where
  "sample_db_config = \<lparr>dc_host = ''db'', dc_port = 5432, dc_database = ''m'', dc_username = ''u'', dc_password_env = ''PW'',
     dc_root_certificate = None, dc_plaintext_loopback = False, dc_timeout_seconds = 120, dc_read_timeout_seconds = None,
     dc_keep_snapshots = 20, dc_max_read_connections = 4\<rparr>"

lemma sample_scope_key_inj: "inj sample_scope_key"
proof (rule injI)
  fix a b assume "sample_scope_key a = sample_scope_key b"
  then have "sc_region a = sc_region b" "sc_platform a = sc_platform b" "sc_environment a = sc_environment b"
    by (simp_all add: sample_scope_key_def split: region.splits platform.splits)
  then show "a = b" by simp
qed

lemma mirror_lib_facts:
  "inj (dl_scope_key mirror_lib)" "sha256_hex mirror_lib" "byte_order mirror_lib" "jsonb_keeps mirror_lib S"
proof -
  have "hash_valid (replicate 64 CHR ''a'')" by code_simp
  then show "sha256_hex mirror_lib" by (simp add: sha256_hex_def mirror_lib_def import_lib_def sample_store_lib_def plain_lib_def)
qed (simp_all add: mirror_lib_def sample_scope_key_inj byte_order_def jsonb_keeps_def)

lemma sample_verified:
  "verified_snapshot import_lib sample_store sample_scope None = Ok \<lparr>ds_manifest = sample_published ''master-1'',
     ds_manifest_bytes = text_bytes ''master-1'',
     ds_tables = [(\<lparr>tf_name = ''MasterA.json'', tf_size = 1, tf_sha256 = replicate 64 CHR ''a''\<rparr>, [5], JArr [])]\<rparr>"
proof -
  have stem: "strip_suffix ''MasterA.json'' ''.json'' = Some ''MasterA''" by code_simp
  have lib: "ml_de_published import_lib (text_bytes ''master-1'') = Some (sample_published ''master-1'')"
    "ml_de_value import_lib [5] = Some (JArr [])" by (simp_all add: import_lib_def)
  have files: "pm_files (sample_published s) = [\<lparr>tf_name = ''MasterA.json'', tf_size = 1, tf_sha256 = replicate 64 CHR ''a''\<rparr>]"
      "pm_snapshot (sample_published s) = s" for s by (simp_all add: sample_published_def sample_inventory_def)
  show ?thesis
    by (simp add: verified_snapshot_def import_store_manifest lib import_published_valid files stem import_store_table
        sample_scope_def [symmetric]) (simp add: sample_scope_def import_store_table lib)
qed

definition mirror_row :: snap_row where
  "mirror_row = \<lparr>sr_scope = ''eaprod'', sr_hash = replicate 64 CHR ''a'', sr_manifest = text_bytes ''master-1'', sr_touched = 1\<rparr>"

definition mirror_db :: master_db where
  "mirror_db = \<lparr>db_schema = True, db_snapshots = [mirror_row],
     db_documents = [\<lparr>dw_scope = ''eaprod'', dw_hash = replicate 64 CHR ''a'', dw_name = ''MasterA.json'',
       dw_sha256 = replicate 64 CHR ''a'', dw_bytes = [5], dw_document = JArr []\<rparr>],
     db_history = [\<lparr>ev_id = 1, ev_scope = ''eaprod'', ev_hash = replicate 64 CHR ''a'',
       ev_published_at = ''2025-01-01T00:00:00.000000Z'', ev_version = Some ''1.0'', ev_resource_version = None,
       ev_file_count = Some 1, ev_total_size = Some 1\<rparr>],
     db_current = [''eaprod'' \<mapsto> replicate 64 CHR ''a''], db_migrations = [], db_sequence = 1\<rparr>"

lemma sample_publish:
  "db_publish sample_host mirror_lib sample_db_config sample_store sample_scope NoFault now db_empty =
     (Ok \<lparr>dt_content_sha256 = replicate 64 CHR ''a'', dt_tables = 1, dt_bytes = 1, dt_changed = True\<rparr>, mirror_db)"
proof -
  have key: "sample_scope_key sample_scope = ''eaprod''" by (simp add: sample_scope_key_def sample_scope_def)
  have texts: "db_text ''db''" "db_text ''m''" "db_text ''u''" "secret_name ''PW''"
    "list_ex (\<lambda>b. b \<in> set ''/@?# '' \<or> b = CHR 92) ''db'' = False" by code_simp+
  have valid: "db_validate sample_host sample_db_config = Ok ()"
    unfolding db_validate_def sample_db_config_def by (simp add: texts texts(5) [simplified])
  have opts: "is_ok (connect_options sample_host sample_db_config 120)"
    by (simp add: connect_options_def valid) (simp add: sample_host_def sample_db_config_def ambient_libpq_configuration_def
        INHERITED_LIBPQ_VARIABLES_def)
  have cfg: "dc_timeout_seconds sample_db_config = 120" "dc_keep_snapshots sample_db_config = 20" by (simp_all add: sample_db_config_def)
  have m: "pm_content_sha256 (sample_published s) = replicate 64 CHR ''a''" "pm_scope (sample_published s) = sample_scope"
    "pm_version (sample_published s) = ''1.0''" "pm_resource_version (sample_published s) = None" for s
    by (simp_all add: sample_published_def)
  define h :: string where "h = replicate 64 CHR ''a''"
  have "store_snapshot mirror_lib 20 \<lparr>ds_manifest = sample_published ''master-1'', ds_manifest_bytes = text_bytes ''master-1'',
      ds_tables = [(\<lparr>tf_name = ''MasterA.json'', tf_size = 1, tf_sha256 = h\<rparr>, [5], JArr [])]\<rparr> None now
      (db_empty\<lparr>db_schema := True\<rparr>) =
    Ok (\<lparr>dt_content_sha256 = h, dt_tables = 1, dt_bytes = 1, dt_changed = True\<rparr>, mirror_db)"
    by (simp add: store_snapshot_def store_content_def record_event_def prune_snapshots_def newest_hashes_def m key mirror_lib_def
        db_empty_def mirror_db_def mirror_row_def snap_at_def update_snap_def snapshot_bytes_def h_def [symmetric] Let_def)
  then show ?thesis
    using valid opts cfg by (auto simp: db_publish_def publish_snapshot_def transact_def is_ok_iff h_def sample_verified
        mirror_lib_def [THEN arg_cong, of dl_master, simplified])
qed

lemma sample_reach: "db_reach sample_host mirror_lib mirror_db"
  using db_publishes [OF db_start, of sample_host mirror_lib sample_db_config sample_store sample_scope NoFault 0]
  by (simp add: sample_publish)

lemma mirror_row_at: "snap_at mirror_db (dl_scope_key mirror_lib sample_scope) (replicate 64 CHR ''a'') = Some mirror_row"
  "length (sr_manifest mirror_row) \<le> 1048576"
  by (simp_all add: snap_at_def mirror_db_def mirror_lib_def sample_scope_key_def sample_scope_def mirror_row_def text_bytes_def)

theorem stored_snapshots_are_readable_witness:
  "\<exists>m. db_document mirror_lib None mirror_db sample_scope (Some (replicate 64 CHR ''a'')) None =
      Ok (row_document mirror_lib m (sr_manifest mirror_row)) \<and> pm_content_sha256 m = replicate 64 CHR ''a''"
  using stored_snapshots_are_readable [OF sample_reach mirror_lib_facts(1,2) mirror_row_at] by blast

theorem lost_commits_are_reconciled_witness:
  "db_publish sample_host mirror_lib sample_db_config sample_store sample_scope (CommitLost DbDatabase True) 0 db_empty =
     (Err DbDatabase, mirror_db) \<and>
   db_publish sample_host mirror_lib sample_db_config sample_store sample_scope NoFault 9 mirror_db =
     (Ok \<lparr>dt_content_sha256 = replicate 64 CHR ''a'', dt_tables = 1, dt_bytes = 1, dt_changed = False\<rparr>, mirror_db)"
  using lost_commits_are_reconciled [where e = DbDatabase and later = 9, OF db_start sample_publish [of 0] mirror_lib_facts(3)]
    mirror_lib_facts(4) by simp

theorem mirror_keeps_the_newest_witness:
  "length (filter (\<lambda>row. sr_scope row = dl_scope_key mirror_lib sample_scope) (db_snapshots mirror_db)) \<le> 20"
  using mirror_keeps_the_newest [OF db_start sample_publish] by (simp add: sample_db_config_def)

text \<open>Two tables, and a collation that ignores punctuation.\<close>

definition pair_manifest :: master_manifest where
  "pair_manifest = \<lparr>mf_version = ''1.0'', mf_files =
     [\<lparr>en_name = ''MasterCard.bin'', en_hash = replicate 64 CHR ''a'', en_size = 96\<rparr>,
      \<lparr>en_name = ''MasterCardBonus.bin'', en_hash = replicate 64 CHR ''a'', en_size = 96\<rparr>]\<rparr>"

definition pair_files :: "table_file list" where
  "pair_files = [\<lparr>tf_name = ''MasterCard.json'', tf_size = 1, tf_sha256 = replicate 64 CHR ''a''\<rparr>,
     \<lparr>tf_name = ''MasterCardBonus.json'', tf_size = 1, tf_sha256 = replicate 64 CHR ''a''\<rparr>]"

definition pair_published :: published_manifest where
  "pair_published = \<lparr>pm_schema_version = 1, pm_scope = sample_scope, pm_snapshot = ''master-1'', pm_version = ''1.0'',
     pm_resource_version = None, pm_content_sha256 = replicate 64 CHR ''a'', pm_files = pair_files,
     pm_source_manifest = pair_manifest\<rparr>"

definition punctuation_lib :: db_lib where
  "punctuation_lib = mirror_lib\<lparr>
     dl_master := plain_lib\<lparr>ml_de_manifest := (\<lambda>bs. Some pair_manifest), ml_ser_manifest := (\<lambda>_. [10]),
       ml_de_published := (\<lambda>bs. Some pair_published)\<rparr>,
     dl_name_le := (\<lambda>a b. filter (\<lambda>c. c \<noteq> CHR ''.'') a \<le> filter (\<lambda>c. c \<noteq> CHR ''.'') b)\<rparr>"

definition pair_snapshot :: db_snapshot where
  "pair_snapshot = \<lparr>ds_manifest = pair_published, ds_manifest_bytes = [1], ds_tables = map (\<lambda>f. (f, [5], JArr [])) pair_files\<rparr>"

lemma pair_snapshot_ok: "snapshot_ok (dl_master punctuation_lib) pair_snapshot"
proof -
  let ?L = "dl_master punctuation_lib"
  have lib: "ml_sha256 ?L bs = replicate 64 CHR ''a''" "ml_validate_json ?L [5]" "ml_ser_manifest ?L m = [10]"
    "ml_de_manifest ?L bs = Some pair_manifest" "ml_de_published ?L bs = Some pair_published" for bs m
    by (simp_all add: punctuation_lib_def plain_lib_def)
  have names: "map (\<lambda>e. replace_bin (en_name e)) (mf_files pair_manifest) = map tf_name pair_files"
    "sorted (map tf_name pair_files)" "successively (<) (map en_name (mf_files pair_manifest))"
    "safe_version ''1.0''" "snapshot_name ''master-1''" "hash_valid (replicate 64 CHR ''a'')" by code_simp+
  have entry: "entry_ok \<lparr>en_name = stem @ ''.bin'', en_hash = replicate 64 CHR ''a'', en_size = 96\<rparr>"
    if "stem \<noteq> ''MasterManifest''" "starts_with stem ''Master''" "safe_component stem" for stem
  proof -
    have "list_all ascii_hexdigit (replicate 64 CHR ''a'')" by code_simp
    then show ?thesis using that by (auto simp: entry_ok_def MAX_ENCRYPTED_def)
  qed
  have stems: "starts_with ''MasterCard'' ''Master''" "safe_component ''MasterCard''"
    "starts_with ''MasterCardBonus'' ''Master''" "safe_component ''MasterCardBonus''" by code_simp+
  have ok: "manifest_ok pair_manifest"
    using entry [of "''MasterCard''"] entry [of "''MasterCardBonus''"] stems names(4)
    by (simp add: manifest_ok_def pair_manifest_def MAX_TOTAL_def)
  have parse: "manifest_parse ?L [10] = Ok pair_manifest" using ok by (simp add: manifest_parse_iff lib MAX_MANIFEST_def)
  have "inventory_ok \<lparr>iv_schema_version = 1, iv_version = ''1.0'', iv_files = pair_files\<rparr> pair_manifest"
    using names by (simp add: inventory_ok_def sorted_sort_id) (simp add: pair_files_def file_ok_def MAX_JSON_def MAX_TOTAL_def pair_manifest_def)
  then have "inventory_validate \<lparr>iv_schema_version = 1, iv_version = ''1.0'', iv_files = pair_files\<rparr> pair_manifest = Ok ()"
    using inventory_validate_iff ok by (simp add: manifest_ok_def)
  then have "published_validate ?L pair_published sample_scope = Ok ()"
    using names(3-5) parse by (simp add: published_validate_def pair_published_def lib content_hash_def digest_def Let_def
        sample_scope_def master_supported_def) (simp add: pair_manifest_def)
  then show ?thesis
    by (simp add: snapshot_ok_def pair_snapshot_def lib table_ok_def digest_def comp_def) (simp add: pair_published_def pair_files_def)
qed

lemma pair_publish: "\<exists>r db1. publish_snapshot punctuation_lib 20 pair_snapshot NoFault 0 db_empty = (Ok r, db1)"
proof -
  have fields: "pm_content_sha256 pair_published = replicate 64 CHR ''a''" "pm_scope pair_published = sample_scope"
    "dl_jsonb punctuation_lib = Some" "dl_scope_key punctuation_lib = sample_scope_key"
    by (simp_all add: pair_published_def punctuation_lib_def mirror_lib_def)
  have "\<exists>docs. insert_documents punctuation_lib s h (ds_tables pair_snapshot) [] = Ok docs" for s h
    by (simp add: pair_snapshot_def pair_files_def fields)
  then obtain docs where "insert_documents punctuation_lib (sample_scope_key sample_scope) (replicate 64 CHR ''a'') (ds_tables pair_snapshot) [] = Ok docs"
    by blast
  moreover have "ds_manifest pair_snapshot = pair_published" "snapshot_bytes pair_snapshot = 2"
    by (simp_all add: pair_snapshot_def snapshot_bytes_def pair_files_def)
  ultimately show ?thesis
    by (simp add: publish_snapshot_def transact_def store_snapshot_def store_content_def record_event_def fields
        db_empty_def snap_at_def Let_def)
qed


end
