(* ===== verification/Master_Notify.thy ===== *)
theory Master_Notify
  imports Master_Http
begin

section \<open>Update hints (src/master_notify.rs)\<close>

text \<open>
  An owner tells its consumers that the content it serves has changed.  A hint only wakes a consumer, which still reads and
  verifies the owner's manifest (\<open>Master_Sync\<close>).  Each target remembers the content it acknowledged last; a failed
  delivery leaves that acknowledgement alone, so the next pass tries again.  A consumer is a function from the
  request to its answer.
\<close>

subsection \<open>One target\<close>

datatype notify_error = NotifyConfig | NotifyDelivery

record notify_target =
  nt_url :: url
  nt_authorization :: string
  nt_scope :: master_scope
  nt_accepted :: "string option"

definition target_new ::
  "env_lib \<Rightarrow> string \<Rightarrow> string \<Rightarrow> master_scope \<Rightarrow> bool \<Rightarrow> bool \<Rightarrow> nat \<Rightarrow> notify_error + notify_target" where
  "target_new V origin token scope regional_paths allow_http timeout_ms =
     (if \<not> master_supported (sc_region scope) \<or> \<not> (100 \<le> timeout_ms \<and> timeout_ms \<le> 30000) then Err NotifyConfig
      else case peer_client_new V origin token (sc_region scope) regional_paths allow_http
             (pt_policy_default\<lparr>pt_connect_timeout_ms := min timeout_ms 5000, pt_request_timeout_ms := timeout_ms\<rparr>) of
        Inl _ \<Rightarrow> Err NotifyConfig
      | Inr _ \<Rightarrow>
          (case el_parse V origin of
             None \<Rightarrow> Err NotifyConfig
           | Some u \<Rightarrow>
               if \<not> el_header_ok V (''Bearer '' @ token) then Err NotifyConfig
               else Ok \<lparr>nt_url = u\<lparr>url_path := (if regional_paths
                          then ''/internal/v1/'' @ region_name (sc_region scope) @ ''/master-data/sync''
                          else ''/internal/v1/master-data/sync'')\<rparr>,
                        nt_authorization = ''Bearer '' @ token, nt_scope = scope, nt_accepted = None\<rparr>))"

record update_hint =
  uh_scope :: master_scope
  uh_content_sha256 :: string

record notify_request =
  nq_url :: url
  nq_authorization :: string
  nq_hint :: update_hint \<comment> \<open>the body, as JSON\<close>

type_synonym consumer = "notify_request \<Rightarrow> send_error + http_answer"

fun notify_read :: "string \<Rightarrow> (send_error + string) list \<Rightarrow> notify_error + string" where
  "notify_read bytes [] = Ok bytes"
| "notify_read bytes (Inl _ # cs) = Err NotifyDelivery"
| "notify_read bytes (Inr part # cs) =
     (if 1024 < length bytes + length part then Err NotifyDelivery else notify_read (bytes @ part) cs)"

definition notify_answer :: "(string \<Rightarrow> string option) \<Rightarrow> send_error + http_answer \<Rightarrow> notify_error + unit" where
  \<comment> \<open>\<open>reply\<close>: the status of the JSON reply, when it is one\<close>
  "notify_answer reply http =
     (case http of
        Inl _ \<Rightarrow> Err NotifyDelivery
      | Inr a \<Rightarrow>
          if ha_status a \<noteq> 202 \<or> (\<exists>n \<in> set_option (ha_content_length a). 1024 < n) then Err NotifyDelivery
          else then_result (notify_read [] (ha_chunks a)) (\<lambda>bytes.
            if reply bytes = Some ''accepted'' then Ok () else Err NotifyDelivery))"

definition target_request :: "notify_target \<Rightarrow> string \<Rightarrow> notify_request" where
  "target_request t hash = \<lparr>nq_url = nt_url t, nq_authorization = nt_authorization t,
     nq_hint = \<lparr>uh_scope = nt_scope t, uh_content_sha256 = hash\<rparr>\<rparr>"

definition target_deliver ::
  "(string \<Rightarrow> string option) \<Rightarrow> consumer \<Rightarrow> notify_target \<Rightarrow> string \<Rightarrow> (notify_error + bool) \<times> notify_target \<times> notify_request list" where
  \<comment> \<open>the result, the target afterwards, and the requests sent\<close>
  "target_deliver reply consumer t hash =
     (if length hash \<noteq> 64 \<or> \<not> list_all ascii_hexdigit hash then (Err NotifyConfig, t, [])
      else if nt_accepted t = Some hash then (Ok False, t, [])
      else let request = target_request t hash in
        case notify_answer reply (consumer request) of
          Inl e \<Rightarrow> (Err e, t, [request])
        | Inr _ \<Rightarrow> (Ok True, t\<lparr>nt_accepted := Some hash\<rparr>, [request]))"

subsection \<open>Policy\<close>

record hint_config =
  tc_name :: string
  tc_origin :: string
  tc_token_env :: string
  tc_regional_paths :: bool
  tc_allow_http :: bool

record notify_config =
  nc_targets :: "hint_config list"
  nc_interval_seconds :: nat
  nc_request_timeout_ms :: nat

definition bad_config :: app_error where
  "bad_config = Config ''invalid Master notification configuration''"

fun validate_hint_targets :: "env_lib \<Rightarrow> nat \<Rightarrow> master_scope \<Rightarrow> string set \<Rightarrow> hint_config list \<Rightarrow> app_error + unit" where
  "validate_hint_targets V timeout_ms scope names [] = Ok ()"
| "validate_hint_targets V timeout_ms scope names (t # ts) =
     (if tc_name t = [] \<or> 64 < length (tc_name t) \<or>
         \<not> list_all (\<lambda>b. ascii_alphanumeric b \<or> b = CHR ''-'' \<or> b = CHR ''_'') (tc_name t) \<or>
         tc_name t \<in> names \<or> \<not> env_name_ok (tc_token_env t)
      then Err bad_config
      else case target_new V (tc_origin t) ''validation'' scope (tc_regional_paths t) (tc_allow_http t) timeout_ms of
        Inl _ \<Rightarrow> Err bad_config
      | Inr _ \<Rightarrow> validate_hint_targets V timeout_ms scope (insert (tc_name t) names) ts)"

definition validate_policy :: "env_lib \<Rightarrow> notify_config \<Rightarrow> master_scope \<Rightarrow> app_error + unit" where
  "validate_policy V c scope =
     (if \<not> master_supported (sc_region scope) \<or> nc_targets c = [] \<or> 16 < length (nc_targets c) \<or>
         \<not> (10 \<le> nc_interval_seconds c \<and> nc_interval_seconds c \<le> 3600) \<or>
         \<not> (100 \<le> nc_request_timeout_ms c \<and> nc_request_timeout_ms c \<le> 30000)
      then Err bad_config
      else validate_hint_targets V (nc_request_timeout_ms c) scope {} (nc_targets c))"

type_synonym notify_targets = "(string \<times> notify_target) list"

fun make_targets :: "env_lib \<Rightarrow> nat \<Rightarrow> master_scope \<Rightarrow> hint_config list \<Rightarrow> app_error + notify_targets" where
  "make_targets V timeout_ms scope [] = Ok []"
| "make_targets V timeout_ms scope (t # ts) =
     then_result (config_secret V (tc_token_env t)) (\<lambda>token.
       case target_new V (tc_origin t) token scope (tc_regional_paths t) (tc_allow_http t) timeout_ms of
         Inl _ \<Rightarrow> Err (Config ''invalid Master notification destination or token'')
       | Inr target \<Rightarrow>
           then_result (make_targets V timeout_ms scope ts) (\<lambda>rest. Ok ((tc_name t, target) # rest)))"

definition targets_new :: "env_lib \<Rightarrow> notify_config \<Rightarrow> master_scope \<Rightarrow> app_error + notify_targets" where
  "targets_new V c scope =
     then_result (validate_policy V c scope) (\<lambda>_. make_targets V (nc_request_timeout_ms c) scope (nc_targets c))"

subsection \<open>All targets\<close>

record delivery =
  dv_delivered :: nat
  dv_failed :: bool
  dv_targets :: notify_targets
  dv_requests :: "(string \<times> notify_request) list" \<comment> \<open>what was sent to which target\<close>

fun deliver_all ::
  "(string \<Rightarrow> string option) \<Rightarrow> (string \<Rightarrow> consumer) \<Rightarrow> notify_targets \<Rightarrow> string \<Rightarrow> delivery" where
  "deliver_all reply consumers [] hash = \<lparr>dv_delivered = 0, dv_failed = False, dv_targets = [], dv_requests = []\<rparr>"
| "deliver_all reply consumers ((name, t) # ts) hash =
     (let (r, t1, sent) = target_deliver reply (consumers name) t hash; rest = deliver_all reply consumers ts hash in
      \<lparr>dv_delivered = (case r of Inr True \<Rightarrow> dv_delivered rest + 1 | _ \<Rightarrow> dv_delivered rest),
       dv_failed = (\<not> is_ok r \<or> dv_failed rest), dv_targets = (name, t1) # dv_targets rest,
       dv_requests = map (Pair name) sent @ dv_requests rest\<rparr>)"

definition targets_deliver ::
  "(string \<Rightarrow> string option) \<Rightarrow> (string \<Rightarrow> consumer) \<Rightarrow> notify_targets \<Rightarrow> string \<Rightarrow>
     (notify_error + nat) \<times> notify_targets \<times> (string \<times> notify_request) list" where
  "targets_deliver reply consumers ts hash =
     (let d = deliver_all reply consumers ts hash in
      (if dv_failed d then Err NotifyDelivery else Ok (dv_delivered d), dv_targets d, dv_requests d))"

definition targets_status :: "notify_targets \<Rightarrow> json list" where
  "targets_status ts = map (\<lambda>(name, t). JObj [(''name'', JStr name), (''accepted_content_sha256'',
     case nt_accepted t of None \<Rightarrow> JNull | Some h \<Rightarrow> JStr h)]) ts"

definition committed_hash :: "master_lib \<Rightarrow> disk \<Rightarrow> master_scope \<Rightarrow> notify_error + string" where
  "committed_hash L root scope =
     (case registry_manifest L root None scope of
        Inl _ \<Rightarrow> Err NotifyDelivery
      | Inr document \<Rightarrow>
          (case ml_de_published L (rd_bytes document) of
             None \<Rightarrow> Err NotifyDelivery
           | Some m \<Rightarrow> Ok (pm_content_sha256 m)))"

definition notify_reconcile ::
  "master_lib \<Rightarrow> (string \<Rightarrow> string option) \<Rightarrow> (string \<Rightarrow> consumer) \<Rightarrow> disk \<Rightarrow> master_scope \<Rightarrow> notify_targets \<Rightarrow>
     (notify_error + nat) \<times> notify_targets \<times> (string \<times> notify_request) list" where
  "notify_reconcile L reply consumers root scope ts =
     (case committed_hash L root scope of
        Inl e \<Rightarrow> (Err e, ts, [])
      | Inr hash \<Rightarrow> targets_deliver reply consumers ts hash)"

subsection \<open>What a pass does\<close>

definition hint_taken :: "(string \<Rightarrow> string option) \<Rightarrow> (string \<Rightarrow> consumer) \<Rightarrow> string \<Rightarrow> string \<times> notify_target \<Rightarrow> bool" where
  "hint_taken reply consumers hash nt = is_ok (notify_answer reply (consumers (fst nt) (target_request (snd nt) hash)))"

definition pending_targets :: "string \<Rightarrow> notify_targets \<Rightarrow> notify_targets" where
  "pending_targets hash ts = filter (\<lambda>nt. nt_accepted (snd nt) \<noteq> Some hash) ts"

definition after_hint :: "(string \<Rightarrow> string option) \<Rightarrow> (string \<Rightarrow> consumer) \<Rightarrow> string \<Rightarrow> string \<times> notify_target \<Rightarrow> string \<times> notify_target" where
  "after_hint reply consumers hash nt =
     (if hint_taken reply consumers hash nt then (fst nt, (snd nt)\<lparr>nt_accepted := Some hash\<rparr>) else nt)"

lemma deliver_all_eq:
  assumes "length hash = 64" "list_all ascii_hexdigit hash"
  shows "dv_targets (deliver_all reply consumers ts hash) = map (after_hint reply consumers hash) ts"
    "dv_requests (deliver_all reply consumers ts hash) =
       map (\<lambda>nt. (fst nt, target_request (snd nt) hash)) (pending_targets hash ts)"
    "dv_failed (deliver_all reply consumers ts hash) \<longleftrightarrow> \<not> list_all (hint_taken reply consumers hash) (pending_targets hash ts)"
    "\<not> dv_failed (deliver_all reply consumers ts hash) \<Longrightarrow>
       dv_delivered (deliver_all reply consumers ts hash) = length (pending_targets hash ts)"
proof (induction ts)
  case (Cons nt ts)
  obtain name t where nt: "nt = (name, t)" by (cases nt)
  have same: "nt_accepted t = Some hash \<Longrightarrow> t\<lparr>nt_accepted := Some hash\<rparr> = t" by (cases t) simp
  {
    case 1
    show ?case using assms Cons(1) same
      by (auto simp: nt target_deliver_def after_hint_def hint_taken_def Let_def split: sum.splits)
  next
    case 2
    show ?case using assms Cons(2)
      by (auto simp: nt target_deliver_def pending_targets_def Let_def split: sum.splits)
  next
    case 3
    show ?case using assms Cons(3)
      by (auto simp: nt target_deliver_def pending_targets_def hint_taken_def Let_def split: sum.splits)
  next
    case 4
    then show ?case using assms Cons(4)
      by (auto simp: nt target_deliver_def pending_targets_def Let_def split: sum.splits)
  }
qed (simp_all add: pending_targets_def)


definition sample_hint_target :: notify_target where
  "sample_hint_target = \<lparr>nt_url = owner_url, nt_authorization = ''Bearer t'', nt_scope = sample_scope, nt_accepted = None\<rparr>"

definition sample_consumer :: consumer where
  "sample_consumer = (\<lambda>_. Ok \<lparr>ha_status = 202, ha_headers = [], ha_content_length = None, ha_chunks = [Ok ''x'']\<rparr>)"

lemma sample_committed_hash: "committed_hash import_lib sample_store sample_scope = Ok (replicate 64 CHR ''a'')"
  by (simp add: committed_hash_def import_store_manifest) (simp add: import_lib_def sample_published_def)


end
