(* ===== verification/Registry_Service.thy ===== *)
theory Registry_Service
  imports Master_Database Master_Notify
begin

section \<open>The standalone registry (src/registry_service.rs)\<close>

text \<open>
  A service that only reads Master data: from the registry directory or from its database mirror.  Both
  backends answer the same routes.  A database has no snapshot directories, so its manifests name a virtual
  snapshot made of their content hash, which the table route accepts in their place.  The state of the
  backend is an argument: a request reads one state of it.
\<close>

subsection \<open>Documents\<close>

datatype source =
  Files disk
| Postgres master_db "db_error option" \<comment> \<open>the database and what fails while it is read\<close>

record service =
  sv_scope :: master_scope
  sv_backend :: source

datatype selection = SelCurrent | SelSnapshot string | SelHash string

fun db_app_error :: "db_error \<Rightarrow> app_error" where
  "db_app_error DbNotFound = NotFound"
| "db_app_error DbInvalidRequest = InvalidRequest"
| "db_app_error _ = MasterUnavailable"

definition from_db :: "db_error + 'a \<Rightarrow> app_error + 'a" where
  "from_db r = (case r of Inl e \<Rightarrow> Err (db_app_error e) | Inr x \<Rightarrow> Ok x)"

definition invalid_table :: "string \<Rightarrow> string \<Rightarrow> string \<Rightarrow> bool" where
  "invalid_table snapshot name hash \<longleftrightarrow> \<not> valid_history_cursor snapshot \<or> \<not> safe_component name \<or> \<not> hash_valid hash"

definition selection_invalid :: "selection \<Rightarrow> bool" where
  "selection_invalid sel \<longleftrightarrow> (case sel of
      SelHash h \<Rightarrow> \<not> hash_valid h | SelSnapshot s \<Rightarrow> \<not> valid_history_cursor s | SelCurrent \<Rightarrow> False)"

definition virtual_snapshot :: "string \<Rightarrow> string" where
  "virtual_snapshot hash = ''master-'' @ hash"

definition snapshot_hash :: "string \<Rightarrow> string option" where
  \<comment> \<open>\<open>strip_prefix("master-").filter(hash_valid)\<close>\<close>
  "snapshot_hash s =
     (if starts_with s ''master-'' \<and> hash_valid (drop 7 s) then Some (drop 7 s) else None)"

definition file_document ::
  "master_lib \<Rightarrow> disk \<Rightarrow> master_scope \<Rightarrow> selection \<Rightarrow> (string \<times> string) option \<Rightarrow> MasterError + registry_document" where
  "file_document L root scope sel tab =
     (case (sel, tab) of
        (SelSnapshot s, Some (name, hash)) \<Rightarrow> registry_table L root (sc_region scope) s name hash
      | (SelSnapshot s, None) \<Rightarrow> registry_manifest L root (Some s) scope
      | (SelHash h, None) \<Rightarrow> manifest_by_hash L root scope h
      | (SelCurrent, None) \<Rightarrow> registry_manifest L root None scope
      | _ \<Rightarrow> Err MasterFormat)"

definition mirror_document ::
  "db_lib \<Rightarrow> db_error option \<Rightarrow> master_db \<Rightarrow> master_scope \<Rightarrow> selection \<Rightarrow> (string \<times> string) option \<Rightarrow> app_error + registry_document" where
  "mirror_document DL lost db scope sel tab =
     then_result (case sel of
         SelCurrent \<Rightarrow> Ok None
       | SelHash h \<Rightarrow> Ok (Some h)
       | SelSnapshot s \<Rightarrow> (case snapshot_hash s of None \<Rightarrow> Err InvalidRequest | Some h \<Rightarrow> Ok (Some h))) (\<lambda>hash.
     then_result (from_db (db_document DL lost db scope hash (map_option fst tab))) (\<lambda>doc.
       case tab of
         Some (_, expected) \<Rightarrow> if digest (dl_master DL) (rd_bytes doc) \<noteq> expected then Err NotFound else Ok doc
       | None \<Rightarrow>
           (case ml_de_published (dl_master DL) (rd_bytes doc) of
              None \<Rightarrow> Err MasterUnavailable
            | Some m \<Rightarrow>
                let bs = ml_ser_published (dl_master DL) (m\<lparr>pm_snapshot := virtual_snapshot (pm_content_sha256 m)\<rparr>) in
                Ok (doc\<lparr>rd_bytes := bs, rd_etag := ''\"'' @ digest (dl_master DL) bs @ ''\"''\<rparr>))))"

definition service_document ::
  "db_lib \<Rightarrow> service \<Rightarrow> selection \<Rightarrow> (string \<times> string) option \<Rightarrow> app_error + registry_document" where
  "service_document DL S sel tab =
     (if selection_invalid sel \<or> (\<exists>(name, hash) \<in> set_option tab. \<not> safe_component name \<or> \<not> hash_valid hash)
      then Err InvalidRequest
      else case sv_backend S of
        Files root \<Rightarrow> from_files (file_document (dl_master DL) root (sv_scope S) sel tab)
      | Postgres db lost \<Rightarrow> mirror_document DL lost db (sv_scope S) sel tab)"

subsection \<open>Handlers\<close>

definition respond ::
  "db_lib \<Rightarrow> http_lib \<Rightarrow> service \<Rightarrow> selection \<Rightarrow> (string \<times> string) list \<Rightarrow> app_error + doc_response" where
  "respond DL H S sel headers =
     then_result (service_document DL S sel None) (\<lambda>doc. registry_document_response H doc headers False)"

definition service_table ::
  "db_lib \<Rightarrow> http_lib \<Rightarrow> service \<Rightarrow> app_error + unit \<Rightarrow> string \<Rightarrow> string \<Rightarrow> string \<Rightarrow> (string \<times> string) list \<Rightarrow>
     app_error + doc_response" where
  "service_table DL H S admission snapshot name hash headers =
     (if invalid_table snapshot name hash then Err InvalidRequest
      else then_result admission (\<lambda>_.
        then_result (service_document DL S (SelSnapshot snapshot) (Some (name, hash))) (\<lambda>doc.
          registry_document_response H doc headers True)))"

definition parse_i64 :: "string \<Rightarrow> int option" where
  \<comment> \<open>\<open>str::parse::<i64>\<close>: digits, with an optional sign\<close>
  "parse_i64 s =
     (let negative = starts_with s ''-''; digits = (if starts_with s ''+'' \<or> negative then tl s else s);
          n = int (foldl (\<lambda>n c. n * 10 + (byte c - 48)) 0 digits); v = (if negative then - n else n) in
      if digits \<noteq> [] \<and> list_all ascii_digit digits \<and> - (2 ^ 63) \<le> v \<and> v < 2 ^ 63 then Some v else None)"

datatype history_value = FilesHistory history | PostgresHistory db_page

definition service_history :: "db_lib \<Rightarrow> service \<Rightarrow> nat \<Rightarrow> string option \<Rightarrow> app_error + history_value" where
  "service_history DL S limit before =
     (if \<not> (1 \<le> limit \<and> limit \<le> 100) then Err InvalidRequest
      else case sv_backend S of
        Files root \<Rightarrow>
          if \<exists>v \<in> set_option before. \<not> valid_history_cursor v then Err InvalidRequest
          else then_result (from_files (history_page (dl_master DL) root (sv_scope S) limit before)) (\<lambda>page.
            Ok (FilesHistory page))
      | Postgres db lost \<Rightarrow>
          then_result (case before of
              None \<Rightarrow> Ok None
            | Some v \<Rightarrow> (case parse_i64 v of None \<Rightarrow> Err InvalidRequest | Some n \<Rightarrow> Ok (Some n))) (\<lambda>cursor.
          then_result (from_db (db_history_page DL lost db (sv_scope S) limit cursor)) (\<lambda>page.
            Ok (PostgresHistory page))))"

definition service_load :: "db_lib \<Rightarrow> service \<Rightarrow> string \<Rightarrow> table_file \<Rightarrow> app_error + u8 list" where
  "service_load DL S snapshot f =
     (case strip_suffix (tf_name f) ''.json'' of
        None \<Rightarrow> Err MasterUnavailable
      | Some name \<Rightarrow>
          then_result (service_document DL S (SelSnapshot snapshot) (Some (name, tf_sha256 f))) (\<lambda>d. Ok (rd_bytes d)))"

definition service_bundle ::
  "db_lib \<Rightarrow> http_lib \<Rightarrow> tar_lib \<Rightarrow> service \<Rightarrow> bool \<Rightarrow> bool \<Rightarrow> selection \<Rightarrow> (string \<times> string) list \<Rightarrow> app_error + doc_response" where
  \<comment> \<open>\<open>permit\<close>: one of the two permits for archives is free\<close>
  "service_bundle DL H T S permit expired sel headers =
     (if \<not> permit then Err MasterUnavailable
      else then_result (service_document DL S sel None) (\<lambda>document.
        case ml_de_published (dl_master DL) (rd_bytes document) of
          None \<Rightarrow> Err MasterUnavailable
        | Some m \<Rightarrow>
            then_result (bundle_build (dl_master DL) T expired (service_load DL S (pm_snapshot m)) m) (\<lambda>a.
              bundle_response H a headers (pm_version m) (pm_content_sha256 m))))"

subsection \<open>The notifier\<close>

definition served_hash :: "db_lib \<Rightarrow> service \<Rightarrow> app_error + string" where
  "served_hash DL S =
     then_result (service_document DL S SelCurrent None) (\<lambda>document.
       case ml_de_published (dl_master DL) (rd_bytes document) of
         None \<Rightarrow> Err MasterUnavailable
       | Some m \<Rightarrow> Ok (pm_content_sha256 m))"

definition notifier_reconcile ::
  "db_lib \<Rightarrow> (string \<Rightarrow> string option) \<Rightarrow> (string \<Rightarrow> consumer) \<Rightarrow> json \<Rightarrow> service \<Rightarrow> notify_targets \<Rightarrow>
     (string + nat) \<times> json \<times> notify_targets \<times> (string \<times> notify_request) list" where
  \<comment> \<open>the result, the published status, the targets afterwards and the requests\<close>
  "notifier_reconcile DL reply consumers checked_at S ts =
     (case served_hash DL S of
        Inl _ \<Rightarrow> (Err ''served_state_unavailable'',
          JObj [(''content_sha256'', JNull), (''error_code'', JStr ''served_state_unavailable''), (''status'', JStr ''unavailable''),
            (''targets'', JArr (targets_status ts))], ts, [])
      | Inr hash \<Rightarrow>
          (case targets_deliver reply consumers ts hash of (result, ts1, sent) \<Rightarrow>
            (case result of Inl _ \<Rightarrow> Err ''delivery_incomplete'' | Inr n \<Rightarrow> Ok n,
             JObj [(''checked_at'', checked_at), (''content_sha256'', JStr hash),
               (''status'', JStr (if is_ok result then ''ready'' else ''retrying'')),
               (''targets'', JArr (targets_status ts1))], ts1, sent)))"

subsection \<open>The two backends\<close>

definition virtual_manifest :: "published_manifest \<Rightarrow> published_manifest" where
  "virtual_manifest m = m\<lparr>pm_snapshot := virtual_snapshot (pm_content_sha256 m)\<rparr>"

text \<open>The stored manifests, under their virtual names, read back as they are written.\<close>

definition published_serde :: "db_lib \<Rightarrow> master_db \<Rightarrow> bool" where
  "published_serde DL db \<longleftrightarrow> (\<forall>row \<in> set (db_snapshots db). \<forall>m. ml_de_published (dl_master DL) (sr_manifest row) = Some m \<longrightarrow>
     ml_de_published (dl_master DL) (ml_ser_published (dl_master DL) (virtual_manifest m)) = Some (virtual_manifest m))"

lemma document_row:
  assumes "db_document DL lost db scope hash None = Ok doc"
  shows "\<exists>row \<in> set (db_snapshots db). rd_bytes doc = sr_manifest row"
  using assms
  by (auto simp: db_document_def document_inner_def Let_def then_result_Ok_iff snap_at_def find_Some_iff
      split: if_splits option.splits sum.splits bind_splits)

lemma hexdigit_component: "lower_hexdigit c \<Longrightarrow> ascii_alphanumeric c"
  by (auto simp: byte_defs)

lemma virtual_snapshot_ok:
  assumes "hash_valid h"
  shows "valid_history_cursor (virtual_snapshot h)" "snapshot_name (virtual_snapshot h)" "snapshot_hash (virtual_snapshot h) = Some h"
proof -
  have prefix: "starts_with (virtual_snapshot h) ''master-''" by (simp add: virtual_snapshot_def starts_with_def)
  have "list_all ascii_alphanumeric h" using assms hexdigit_component by (auto simp: hash_valid_def list_all_iff)
  moreover have "safe_component ''master-''" by code_simp
  moreover have "length h = 64" using assms by (simp add: hash_valid_def)
  ultimately have "safe_component (virtual_snapshot h)"
    by (auto simp: safe_component_def virtual_snapshot_def list_all_iff)
  then show "valid_history_cursor (virtual_snapshot h)" "snapshot_name (virtual_snapshot h)"
    using prefix assms by (simp_all add: valid_history_cursor_def snapshot_name_def hash_valid_def virtual_snapshot_def)
  show "snapshot_hash (virtual_snapshot h) = Some h"
    using prefix assms by (simp add: snapshot_hash_def) (simp add: virtual_snapshot_def)
qed

lemma published_validate_snapshot:
  "published_validate L m scope = Ok () \<Longrightarrow> snapshot_name s \<Longrightarrow> published_validate L (m\<lparr>pm_snapshot := s\<rparr>) scope = Ok ()"
  by (auto simp: published_validate_def then_result_Ok_iff Let_def split: if_splits)

lemma mirror_serves:
  assumes ok: "db_ok DL db" "db_schema db" and inj: "inj (dl_scope_key DL)" and sha: "sha256_hex DL" and serde: "published_serde DL db"
    and row: "snap_at db (dl_scope_key DL scope) h = Some row" "length (sr_manifest row) \<le> 1048576"
    and current: "db_current db (dl_scope_key DL scope) = Some h"
  defines "P \<equiv> \<lparr>sv_scope = scope, sv_backend = Postgres db None\<rparr>"
  obtains doc m where "service_document DL P SelCurrent None = Ok doc" "service_document DL P (SelHash h) None = Ok doc"
    "service_document DL P (SelSnapshot (virtual_snapshot h)) None = Ok doc"
    "ml_de_published (dl_master DL) (rd_bytes doc) = Some m" "published_validate (dl_master DL) m scope = Ok ()"
    "pm_content_sha256 m = h" "pm_snapshot m = virtual_snapshot h"
    "docs_for (dl_master DL) (pm_files m) (docs_at db (dl_scope_key DL scope) h)"
    "\<forall>f tab d. f \<in> set (pm_files m) \<longrightarrow> tf_name f = tab @ ''.json'' \<longrightarrow> d \<in> set (docs_at db (dl_scope_key DL scope) h) \<longrightarrow>
      dw_name d = tf_name f \<longrightarrow>
      (\<exists>e. service_document DL P (SelSnapshot (virtual_snapshot h)) (Some (tab, tf_sha256 f)) = Ok e \<and> rd_bytes e = dw_bytes d)"
proof -
  let ?L = "dl_master DL" and ?k = "dl_scope_key DL scope"
  from row_serves [OF ok inj sha row] obtain m where m: "ml_de_published ?L (sr_manifest row) = Some m"
    "published_validate ?L m scope = Ok ()" "pm_content_sha256 m = h" "docs_for ?L (pm_files m) (docs_at db ?k h)"
    "db_document DL None db scope (Some h) None = Ok (row_document DL m (sr_manifest row))"
    "db_document DL None db scope None None = Ok (row_document DL m (sr_manifest row))"
    and table: "\<And>f tab d. f \<in> set (pm_files m) \<Longrightarrow> tf_name f = tab @ ''.json'' \<Longrightarrow> d \<in> set (docs_at db ?k h) \<Longrightarrow>
      dw_name d = tf_name f \<Longrightarrow> db_document DL None db scope (Some h) (Some tab) = Ok (row_document DL m (dw_bytes d))"
    using current by metis
  have hash: "hash_valid h" using published_hash_valid [OF m(2)] sha m(3) by (simp add: sha256_hex_def)
  note v = virtual_snapshot_ok [OF hash]
  let ?m = "m\<lparr>pm_snapshot := virtual_snapshot h\<rparr>"
  have "row \<in> set (db_snapshots db)" using row(1) by (auto simp: snap_at_def find_Some_iff)
  then have reread: "ml_de_published ?L (ml_ser_published ?L ?m) = Some ?m"
    using serde m(1,3) unfolding published_serde_def virtual_manifest_def by blast
  let ?doc = "(row_document DL m (sr_manifest row))\<lparr>rd_bytes := ml_ser_published ?L ?m,
    rd_etag := ''\"'' @ digest ?L (ml_ser_published ?L ?m) @ ''\"''\<rparr>"
  have docs: "service_document DL P SelCurrent None = Ok ?doc" "service_document DL P (SelHash h) None = Ok ?doc"
    "service_document DL P (SelSnapshot (virtual_snapshot h)) None = Ok ?doc"
    using m v hash by (simp_all add: service_document_def P_def mirror_document_def selection_invalid_def from_db_def Let_def)
  have "\<exists>e. service_document DL P (SelSnapshot (virtual_snapshot h)) (Some (tab, tf_sha256 f)) = Ok e \<and> rd_bytes e = dw_bytes d"
    if f: "f \<in> set (pm_files m)" "tf_name f = tab @ ''.json''" "d \<in> set (docs_at db ?k h)" "dw_name d = tf_name f" for f tab d
  proof -
    have "safe_component tab" using published_names(8) [OF m(2) f(1)] f(2) by auto
    moreover have "hash_valid (tf_sha256 f)" using published_names(3) [OF m(2)] f(1) by (auto simp: list_all_iff file_ok_def)
    moreover have "digest ?L (dw_bytes d) = tf_sha256 f" using m(4) f by (simp add: docs_for_def table_ok_def)
    ultimately show ?thesis using table [OF f] v
      by (simp add: service_document_def P_def mirror_document_def selection_invalid_def from_db_def)
  qed
  then show thesis
    using that [OF docs, of ?m] m published_validate_snapshot [OF m(2) v(2)] reread by simp
qed

text \<open>The database backend keeps the contract of the snapshot routes.  For every reachable database whose scope has a current
  snapshot with a manifest within the limit of the reader: the current manifest, the manifest by its content hash and the manifest of
  the snapshot it names are the same document, which a consumer accepts; and each table it lists is served under that
  snapshot name and its digest, complete.\<close>

theorem mirror_keeps_the_snapshot_contract:
  assumes "db_reach B DL db" and "inj (dl_scope_key DL)" and "sha256_hex DL" and "published_serde DL db"
    and "snap_at db (dl_scope_key DL scope) h = Some row" and "length (sr_manifest row) \<le> 1048576"
    and "db_current db (dl_scope_key DL scope) = Some h"
  shows "\<exists>doc m. (let P = \<lparr>sv_scope = scope, sv_backend = Postgres db None\<rparr> in
    service_document DL P SelCurrent None = Ok doc \<and> service_document DL P (SelHash h) None = Ok doc \<and>
    service_document DL P (SelSnapshot (pm_snapshot m)) None = Ok doc \<and>
    ml_de_published (dl_master DL) (rd_bytes doc) = Some m \<and> published_validate (dl_master DL) m scope = Ok () \<and> pm_content_sha256 m = h \<and>
    (\<forall>f \<in> set (pm_files m). \<exists>tab e. tf_name f = tab @ ''.json'' \<and>
      service_document DL P (SelSnapshot (pm_snapshot m)) (Some (tab, tf_sha256 f)) = Ok e \<and> table_ok (dl_master DL) f (rd_bytes e)))"
proof -
  let ?k = "dl_scope_key DL scope" and ?P = "\<lparr>sv_scope = scope, sv_backend = Postgres db None\<rparr>"
  have ok: "db_ok DL db" "db_schema db"
    using db_reach_ok [OF assms(1)] assms(5) by (auto simp: reach_ok_def snap_at_def)
  obtain doc m where docs: "service_document DL ?P SelCurrent None = Ok doc" "service_document DL ?P (SelHash h) None = Ok doc"
    "service_document DL ?P (SelSnapshot (virtual_snapshot h)) None = Ok doc"
    and m: "ml_de_published (dl_master DL) (rd_bytes doc) = Some m" "published_validate (dl_master DL) m scope = Ok ()"
    "pm_content_sha256 m = h" "pm_snapshot m = virtual_snapshot h" "docs_for (dl_master DL) (pm_files m) (docs_at db ?k h)"
    and table: "\<forall>f tab d. f \<in> set (pm_files m) \<longrightarrow> tf_name f = tab @ ''.json'' \<longrightarrow> d \<in> set (docs_at db ?k h) \<longrightarrow>
      dw_name d = tf_name f \<longrightarrow>
      (\<exists>e. service_document DL ?P (SelSnapshot (virtual_snapshot h)) (Some (tab, tf_sha256 f)) = Ok e \<and> rd_bytes e = dw_bytes d)"
    by (rule mirror_serves [OF ok assms(2-7)])
  have "\<exists>tab e. tf_name f = tab @ ''.json'' \<and> service_document DL ?P (SelSnapshot (pm_snapshot m)) (Some (tab, tf_sha256 f)) = Ok e \<and>
      table_ok (dl_master DL) f (rd_bytes e)" if f: "f \<in> set (pm_files m)" for f
  proof -
    obtain tab where tab: "tf_name f = tab @ ''.json''" using published_names(8) [OF m(2) f] by blast
    have "tf_name f \<in> dw_name ` set (docs_at db ?k h)" using m(5) f unfolding docs_for_def by simp
    then obtain d where d: "d \<in> set (docs_at db ?k h)" "dw_name d = tf_name f" by auto
    moreover have "table_ok (dl_master DL) f (dw_bytes d)" using m(5) f d unfolding docs_for_def by simp
    moreover obtain e where "service_document DL ?P (SelSnapshot (virtual_snapshot h)) (Some (tab, tf_sha256 f)) = Ok e" "rd_bytes e = dw_bytes d"
      using table f tab d by blast
    ultimately show ?thesis using tab m(4) by auto
  qed
  with docs m show ?thesis by (intro exI [of _ doc] exI [of _ m]) (simp add: Let_def)
qed

lemma mirror_table:
  assumes "hash_valid h" "safe_component tab" "hash_valid sha" "digest (dl_master DL) (rd_bytes doc) = sha"
    "db_document DL lost db scope (Some h) (Some tab) = Ok doc"
  shows "service_document DL \<lparr>sv_scope = scope, sv_backend = Postgres db lost\<rparr> (SelSnapshot (virtual_snapshot h)) (Some (tab, sha)) = Ok doc"
  using assms virtual_snapshot_ok [OF assms(1)]
  by (simp add: service_document_def mirror_document_def selection_invalid_def from_db_def)

lemma mirror_manifest:
  assumes "db_document DL lost db scope None None = Ok doc" "ml_de_published (dl_master DL) (rd_bytes doc) = Some m" "published_serde DL db"
  shows "\<exists>e. service_document DL \<lparr>sv_scope = scope, sv_backend = Postgres db lost\<rparr> SelCurrent None = Ok e \<and>
    ml_de_published (dl_master DL) (rd_bytes e) = Some (virtual_manifest m)"
proof -
  have "ml_de_published (dl_master DL) (ml_ser_published (dl_master DL) (virtual_manifest m)) = Some (virtual_manifest m)"
    using document_row [OF assms(1)] assms(2,3) unfolding published_serde_def by metis
  then show ?thesis using assms(1,2)
    by (simp add: service_document_def mirror_document_def selection_invalid_def from_db_def virtual_manifest_def Let_def)
qed

lemma verified_manifest:
  assumes "verified_snapshot L source scope None = Ok S"
  shows "\<exists>doc. registry_manifest L source None scope = Ok doc \<and> ml_de_published L (rd_bytes doc) = Some (ds_manifest S)"
  using assms by (auto simp: verified_snapshot_def then_result_Ok_iff split: option.splits sum.splits)

lemma published_cursor: "published_validate L m scope = Ok () \<Longrightarrow> valid_history_cursor (pm_snapshot m)"
  by (auto simp: published_validate_def valid_history_cursor_def snapshot_name_def safe_component_def split: if_splits)


subsection \<open>A sample service\<close>

lemma mirror_serde: "published_serde mirror_lib mirror_db"
proof -
  have m: "virtual_manifest (sample_published s) = sample_published (virtual_snapshot (replicate 64 CHR ''a''))" for s
    by (simp add: virtual_manifest_def sample_published_def)
  have plain: "bytes_text (text_bytes s) = s" for s by simp
  show ?thesis
    by (auto simp: published_serde_def mirror_lib_def import_lib_def m mirror_db_def plain)
       (simp add: sample_published_def)
qed

lemma mirror_current: "db_current mirror_db (dl_scope_key mirror_lib sample_scope) = Some (replicate 64 CHR ''a'')"
  by (simp add: mirror_db_def mirror_lib_def sample_scope_key_def sample_scope_def)

theorem mirror_keeps_the_snapshot_contract_witness:
  "\<exists>doc m. service_document mirror_lib \<lparr>sv_scope = sample_scope, sv_backend = Postgres mirror_db None\<rparr> SelCurrent None = Ok doc \<and>
     ml_de_published (dl_master mirror_lib) (rd_bytes doc) = Some m \<and> pm_content_sha256 m = replicate 64 CHR ''a''"
  using mirror_keeps_the_snapshot_contract [OF sample_reach mirror_lib_facts(1,2) mirror_serde mirror_row_at mirror_current]
  by (auto simp: Let_def)


end
