(* ===== verification/Registry_Owner.thy ===== *)
theory Registry_Owner
  imports Registry_Service
begin

section \<open>The registry owner (src/registry_owner.rs, the configuration of src/registry_service.rs)\<close>

text \<open>
  The background worker of a standalone registry: it follows an upstream owner (\<open>Master_Sync\<close>), verifies the local
  snapshot or publishes it to the database (\<open>Master_Database\<close>), and is woken by requests.  The worker loop is a step
  relation over the bits of pending requests, the permit of the \<open>Notify\<close> and the callers that have set a bit and not
  yet notified.  The second part has the checks that a configuration passes before the service starts.
\<close>

subsection \<open>The worker\<close>

record owner_config =
  oc_source :: "sync_config option"
  oc_local_interval_seconds :: "nat option"
  oc_internal_token_env :: string
  oc_staging_directory :: "string option"
  oc_retention :: "nat option"

record owner_worker =
  ow_sync :: "syncer option"
  ow_scope :: master_scope
  ow_directory :: string
  ow_database :: "db_config option"
  ow_interval :: nat

definition owner_new ::
  "env_lib \<Rightarrow> owner_config \<Rightarrow> master_scope \<Rightarrow> string \<Rightarrow> db_config option \<Rightarrow> app_error + owner_worker" where
  "owner_new V c scope directory database =
     (if oc_source c \<noteq> None \<and> oc_local_interval_seconds c \<noteq> None
      then Err (Config ''local interval requires a local-only registry publisher'')
      else let interval = (case oc_source c of
             Some s \<Rightarrow> sy_interval_seconds s
           | None \<Rightarrow> (case oc_local_interval_seconds c of Some n \<Rightarrow> n | None \<Rightarrow> 300)) in
        if \<not> (60 \<le> interval \<and> interval \<le> 86400) then Err (Config ''invalid registry publication interval'')
        else if \<exists>r \<in> set_option (oc_retention c). oc_source c = None \<or> \<not> retention_valid r
        then Err (Config ''registry owner retention requires a source and keep_snapshots 2..10000'')
        else then_result (case oc_source c of
            None \<Rightarrow> Ok None
          | Some source \<Rightarrow>
              then_result (syncer_construct V source scope directory (oc_retention c)) (\<lambda>s. Ok (Some s))) (\<lambda>sync.
          if directory = [] then Err (Config ''registry publication directory is required'')
          else Ok \<lparr>ow_sync = sync, ow_scope = scope, ow_directory = directory, ow_database = database,
                   ow_interval = interval\<rparr>))"

definition has_source :: "owner_worker \<Rightarrow> bool" where
  "has_source W \<longleftrightarrow> ow_sync W \<noteq> None"

definition owner_hint :: "owner_worker \<Rightarrow> update_hint \<Rightarrow> app_error + unit" where
  \<comment> \<open>\<open>Ok\<close>: the worker is asked to refresh\<close>
  "owner_hint W h =
     (if \<not> has_source W then Err NotFound
      else if uh_scope h \<noteq> ow_scope W \<or> \<not> hash_valid (uh_content_sha256 h) then Err InvalidRequest
      else Ok ())"

record owner_env =
  oe_server :: owner
  oe_locked :: bool
  oe_expired :: bool
  oe_late :: bool
  oe_retain_locked :: bool
  oe_completed_at :: json
  oe_names :: sync_names
  oe_trash :: "string \<Rightarrow> string"
  oe_fault :: db_fault
  oe_now :: instant

record owner_receipt =
  or_sync :: "sync_result option"
  or_local :: "db_receipt option"
  or_database :: "db_receipt option"

definition owner_pull :: "sync_lib \<Rightarrow> owner_env \<Rightarrow> owner_worker \<Rightarrow> bool \<Rightarrow> disk \<Rightarrow> (string + sync_result option) \<times> disk" where
  "owner_pull SL E W pull root =
     (case (pull, ow_sync W) of
        (True, Some s) \<Rightarrow>
          let p = sync_update_once SL s (oe_server E) (oe_locked E) (oe_expired E) (oe_late E) (oe_retain_locked E)
                    (oe_completed_at E) (oe_names E) (oe_trash E) root in
          (case sp_result p of Inl _ \<Rightarrow> Err ''owner_sync_failed'' | Inr r \<Rightarrow> Ok (Some r), sp_disk p)
      | _ \<Rightarrow> (Ok None, root))"

definition owner_update ::
  "sync_lib \<Rightarrow> host_lib \<Rightarrow> db_lib \<Rightarrow> owner_env \<Rightarrow> owner_worker \<Rightarrow> bool \<Rightarrow> disk \<Rightarrow> master_db \<Rightarrow> (string + owner_receipt) \<times> disk \<times> master_db" where
  "owner_update SL B DL E W pull root db =
     (case owner_pull SL E W pull root of
        (Inl e, root1) \<Rightarrow> (Err e, root1, db)
      | (Inr sync, root1) \<Rightarrow>
          (case ow_database W of
             None \<Rightarrow>
               (case verify_current (dl_master DL) root1 (ow_scope W) of
                  Inl _ \<Rightarrow> (Err ''local_verification_failed'', root1, db)
                | Inr r \<Rightarrow> (Ok \<lparr>or_sync = sync, or_local = Some r, or_database = None\<rparr>, root1, db))
           | Some c \<Rightarrow>
               (case db_publish B DL c root1 (ow_scope W) (oe_fault E) (oe_now E) db of
                  (Inl _, db1) \<Rightarrow> (Err ''database_publish_failed'', root1, db1)
                | (Inr r, db1) \<Rightarrow> (Ok \<lparr>or_sync = sync, or_local = None, or_database = Some r\<rparr>, root1, db1))))"

subsection \<open>The loop\<close>

text \<open>A pass that pulls is \<open>Running True\<close>.  \<open>Woken\<close> is the moment between taking the permit and taking the bits.
  The last two fields record, for the theorems, whether a request has been made since the last pass that serves it
  began: every pass verifies or publishes the local snapshot, only a pulling one reads the source.\<close>

datatype owner_phase = Running bool | Waiting | Woken | Stopped

record owner_loop =
  ol_phase :: owner_phase
  ol_pull_bit :: bool
  ol_publish_bit :: bool
  ol_permit :: bool
  ol_callers :: nat
  ol_pull_asked :: bool
  ol_publish_asked :: bool

definition owner_start :: owner_loop where
  "owner_start = \<lparr>ol_phase = Running True, ol_pull_bit = False, ol_publish_bit = False, ol_permit = False, ol_callers = 0,
     ol_pull_asked = False, ol_publish_asked = False\<rparr>"

definition begin_pass :: "bool \<Rightarrow> owner_loop \<Rightarrow> owner_loop" where
  "begin_pass pull s = s\<lparr>ol_phase := Running pull, ol_publish_asked := False,
     ol_pull_asked := (ol_pull_asked s \<and> \<not> pull)\<rparr>"

definition take_bits :: "owner_loop \<Rightarrow> owner_loop" where
  \<comment> \<open>\<open>pending.swap(0)\<close> and what follows; a refresh that came with a publication is asked for again\<close>
  "take_bits s =
     (let s1 = s\<lparr>ol_pull_bit := False, ol_publish_bit := False\<rparr> in
      if ol_publish_bit s
      then begin_pass False (if ol_pull_bit s then s1\<lparr>ol_pull_bit := True, ol_permit := True\<rparr> else s1)
      else begin_pass True s1)"

inductive owner_step :: "owner_loop \<Rightarrow> owner_loop \<Rightarrow> bool" where
  ask_refresh: "owner_step s (s\<lparr>ol_pull_bit := True, ol_callers := ol_callers s + 1, ol_pull_asked := True\<rparr>)"
| ask_publish: "owner_step s (s\<lparr>ol_publish_bit := True, ol_callers := ol_callers s + 1, ol_publish_asked := True\<rparr>)"
| notify_worker: "0 < ol_callers s \<Longrightarrow> owner_step s (s\<lparr>ol_permit := True, ol_callers := ol_callers s - 1\<rparr>)"
| pass_ends: "ol_phase s = Running pull \<Longrightarrow> owner_step s (s\<lparr>ol_phase := Waiting\<rparr>)"
| woken: "ol_phase s = Waiting \<Longrightarrow> ol_permit s \<Longrightarrow> owner_step s (s\<lparr>ol_permit := False, ol_phase := Woken\<rparr>)"
| bits_taken: "ol_phase s = Woken \<Longrightarrow> owner_step s (take_bits s)"
| interval_over: "ol_phase s = Waiting \<Longrightarrow> owner_step s (begin_pass True s)"
| shut_down: "ol_phase s \<noteq> Woken \<Longrightarrow> owner_step s (s\<lparr>ol_phase := Stopped\<rparr>)"

inductive owner_reach :: "owner_loop \<Rightarrow> bool" where
  owner_init: "owner_reach owner_start"
| owner_next: "owner_reach s \<Longrightarrow> owner_step s t \<Longrightarrow> owner_reach t"

definition worker_moves :: "owner_loop \<Rightarrow> owner_loop" where
  \<comment> \<open>what the worker does when nothing else happens\<close>
  "worker_moves s = (case ol_phase s of
      Running _ \<Rightarrow> s\<lparr>ol_phase := Waiting\<rparr>
    | Waiting \<Rightarrow> if ol_permit s then s\<lparr>ol_permit := False, ol_phase := Woken\<rparr> else s
    | Woken \<Rightarrow> take_bits s
    | Stopped \<Rightarrow> s)"

definition owner_inv :: "owner_loop \<Rightarrow> bool" where
  "owner_inv s \<longleftrightarrow> (ol_pull_asked s \<longrightarrow> ol_pull_bit s) \<and> (ol_publish_asked s \<longrightarrow> ol_publish_bit s) \<and>
     (ol_pull_bit s \<or> ol_publish_bit s \<longrightarrow> ol_permit s \<or> 0 < ol_callers s \<or> ol_phase s = Woken)"

lemma owner_step_inv: "owner_step s t \<Longrightarrow> owner_inv s \<Longrightarrow> owner_inv t"
  by (induction rule: owner_step.induct) (auto simp: owner_inv_def take_bits_def begin_pass_def Let_def)

lemma owner_reach_inv: "owner_reach s \<Longrightarrow> owner_inv s"
proof (induction rule: owner_reach.induct)
  case owner_init
  show ?case by (simp add: owner_inv_def owner_start_def)
qed (rule owner_step_inv)

definition unserved :: "owner_loop \<Rightarrow> bool" where
  "unserved s \<longleftrightarrow> ol_pull_asked s \<or> ol_publish_asked s"

definition served_within :: "nat \<Rightarrow> owner_loop \<Rightarrow> bool" where
  "served_within k s \<longleftrightarrow> (\<exists>n \<le> k. \<not> unserved ((worker_moves ^^ n) s))"

lemma served_now: "\<not> unserved s \<Longrightarrow> served_within k s"
  by (auto simp: served_within_def intro: exI [of _ 0])

lemma served_later:
  assumes "served_within k (worker_moves s)"
  shows "served_within (Suc k) s"
proof -
  obtain n where "n \<le> k" "\<not> unserved ((worker_moves ^^ n) (worker_moves s))" using assms by (auto simp: served_within_def)
  then have "Suc n \<le> Suc k" "\<not> unserved ((worker_moves ^^ Suc n) s)" by (simp_all add: funpow_swap1)
  then show ?thesis unfolding served_within_def by blast
qed

lemma woken_served:
  assumes "ol_phase s = Woken" "owner_inv s"
  shows "served_within 4 s"
proof (cases "ol_pull_bit s \<and> ol_publish_bit s")
  case True
  have "\<not> unserved (worker_moves (worker_moves (worker_moves (worker_moves s))))"
    using assms True by (simp add: worker_moves_def take_bits_def begin_pass_def unserved_def Let_def)
  then show ?thesis using served_later served_now by (simp add: eval_nat_numeral)
next
  case False
  have "\<not> unserved (worker_moves s)"
    using assms False by (auto simp: worker_moves_def take_bits_def begin_pass_def unserved_def owner_inv_def Let_def)
  then have "served_within (Suc 3) s" by (intro served_later served_now)
  then show ?thesis by simp
qed

lemma waiting_served:
  assumes "ol_phase s = Waiting" "owner_inv s" "ol_callers s = 0"
  shows "served_within 5 s"
proof (cases "unserved s")
  case True
  then have "ol_permit s" using assms by (auto simp: unserved_def owner_inv_def)
  then have "worker_moves s = s\<lparr>ol_permit := False, ol_phase := Woken\<rparr>" using assms(1) by (simp add: worker_moves_def)
  moreover have "owner_inv (s\<lparr>ol_permit := False, ol_phase := Woken\<rparr>)" using assms(2) by (simp add: owner_inv_def)
  ultimately have "served_within 4 (worker_moves s)" using woken_served [of "s\<lparr>ol_permit := False, ol_phase := Woken\<rparr>"] by simp
  then have "served_within (Suc 4) s" by (rule served_later)
  then show ?thesis by simp
qed (rule served_now)



subsection \<open>Configuration of the service\<close>

datatype backend = FilesBackend string | PostgresBackend db_config

record registry_config =
  gc_token_env :: string
  gc_scope :: master_scope
  gc_backend :: backend
  gc_owner :: "owner_config option"
  gc_notify :: "notify_config option"
  gc_logging_ok :: bool \<comment> \<open>the logging section is absent or valid\<close>
  gc_tls_ok :: bool \<comment> \<open>the certificates are absent or load\<close>
  gc_access_log_ok :: bool

record registry_prepared =
  gp_token :: string
  gp_internal_token :: "string option"
  gp_owner :: "owner_worker option"
  gp_targets :: "notify_targets option"

definition registry_invalid :: app_error where
  "registry_invalid = Config ''invalid standalone registry configuration''"

definition prepare_backend :: "host_lib \<Rightarrow> string \<Rightarrow> backend \<Rightarrow> app_error + unit" where
  "prepare_backend B token b =
     (case b of
        FilesBackend directory \<Rightarrow> if directory = [] then Err registry_invalid else Ok ()
      | PostgresBackend c \<Rightarrow>
          then_result (config_secret (hb_env B) (dc_password_env c)) (\<lambda>password.
            if password = token then Err registry_invalid
            else case connect_options B c (read_timeout c) of Inl _ \<Rightarrow> Err registry_invalid | Inr _ \<Rightarrow> Ok ()))"

definition source_secret :: "env_lib \<Rightarrow> sync_config option \<Rightarrow> app_error + string option" where
  "source_secret V source = (case source of
      None \<Rightarrow> Ok None
    | Some s \<Rightarrow> then_result (config_secret V (sy_token_env s)) (\<lambda>t. Ok (Some t)))"

definition owner_directory ::
  "env_lib \<Rightarrow> backend \<Rightarrow> owner_config \<Rightarrow> string \<Rightarrow> string option \<Rightarrow> app_error + string \<times> db_config option" where
  "owner_directory V b o_cfg internal upstream =
     (case b of
        FilesBackend directory \<Rightarrow>
          if oc_staging_directory o_cfg \<noteq> None then Err registry_invalid else Ok (directory, None)
      | PostgresBackend c \<Rightarrow>
          then_result (config_secret V (dc_password_env c)) (\<lambda>password.
            if password = internal \<or> upstream = Some password then Err registry_invalid
            else case oc_staging_directory o_cfg of None \<Rightarrow> Err registry_invalid | Some d \<Rightarrow> Ok (d, Some c)))"

definition prepare_owner ::
  "env_lib \<Rightarrow> string \<Rightarrow> master_scope \<Rightarrow> backend \<Rightarrow> owner_config option \<Rightarrow> app_error + (string \<times> owner_worker) option" where
  "prepare_owner V token scope b ocfg =
     (case ocfg of
        None \<Rightarrow> Ok None
      | Some c \<Rightarrow>
          then_result (case oc_source c of None \<Rightarrow> Ok () | Some s \<Rightarrow> sync_validate V s) (\<lambda>_.
          if \<not> secret_name (oc_internal_token_env c) then Err registry_invalid
          else then_result (config_secret V (oc_internal_token_env c)) (\<lambda>internal.
          then_result (source_secret V (oc_source c)) (\<lambda>upstream.
          if \<not> token_ok internal \<or> internal = token \<or> upstream = Some token \<or> upstream = Some internal
          then Err registry_invalid
          else then_result (owner_directory V b c internal upstream) (\<lambda>(directory, database).
          then_result (owner_new V c scope directory database) (\<lambda>w. Ok (Some (internal, w))))))))"

definition protected_secrets ::
  "env_lib \<Rightarrow> string \<Rightarrow> string option \<Rightarrow> owner_config option \<Rightarrow> backend \<Rightarrow> app_error + string list" where
  "protected_secrets V token internal ocfg b =
     then_result (source_secret V (Option.bind ocfg oc_source)) (\<lambda>upstream.
     then_result (case b of
         FilesBackend _ \<Rightarrow> Ok []
       | PostgresBackend c \<Rightarrow> then_result (config_secret V (dc_password_env c)) (\<lambda>p. Ok [p])) (\<lambda>password.
       Ok (token # (case internal of None \<Rightarrow> [] | Some i \<Rightarrow> [i]) @ (case upstream of None \<Rightarrow> [] | Some u \<Rightarrow> [u]) @ password)))"

fun outgoing_distinct :: "env_lib \<Rightarrow> string list \<Rightarrow> hint_config list \<Rightarrow> app_error + unit" where
  "outgoing_distinct V protected [] = Ok ()"
| "outgoing_distinct V protected (t # ts) =
     then_result (config_secret V (tc_token_env t)) (\<lambda>token.
       if token \<in> set protected then Err registry_invalid else outgoing_distinct V protected ts)"

definition prepare_targets ::
  "env_lib \<Rightarrow> string \<Rightarrow> string option \<Rightarrow> registry_config \<Rightarrow> app_error + notify_targets option" where
  "prepare_targets V token internal c =
     (case gc_notify c of
        None \<Rightarrow> Ok None
      | Some policy \<Rightarrow>
          then_result (validate_policy V policy (gc_scope c)) (\<lambda>_.
          then_result (protected_secrets V token internal (gc_owner c) (gc_backend c)) (\<lambda>protected.
          then_result (outgoing_distinct V protected (nc_targets policy)) (\<lambda>_.
            case targets_new V policy (gc_scope c) of Inl _ \<Rightarrow> Err registry_invalid | Inr ts \<Rightarrow> Ok (Some ts)))))"

definition registry_prepare :: "host_lib \<Rightarrow> registry_config \<Rightarrow> app_error + registry_prepared" where
  "registry_prepare B c =
     (let V = hb_env B in
      if \<not> scope_ok (gc_scope c) \<or> \<not> secret_name (gc_token_env c) then Err registry_invalid
      else then_result (config_secret V (gc_token_env c)) (\<lambda>token.
        if \<not> token_ok token \<or> \<not> gc_logging_ok c \<or> \<not> gc_tls_ok c then Err registry_invalid
        else then_result (prepare_backend B token (gc_backend c)) (\<lambda>_.
          then_result (prepare_owner V token (gc_scope c) (gc_backend c) (gc_owner c)) (\<lambda>own.
          then_result (prepare_targets V token (map_option fst own) c) (\<lambda>targets.
            if \<not> gc_access_log_ok c then Err registry_invalid
            else Ok \<lparr>gp_token = token, gp_internal_token = map_option fst own, gp_owner = map_option snd own,
                     gp_targets = targets\<rparr>)))))"

text \<open>The secrets a running service holds, by what they give access to: reading from this service, commanding it, reading from its upstream
  owner, and its database; and the ones it sends to its consumers.\<close>

definition held_secrets :: "env_lib \<Rightarrow> registry_config \<Rightarrow> registry_prepared \<Rightarrow> string list" where
  "held_secrets V c p = gp_token p # (case gp_internal_token p of None \<Rightarrow> [] | Some i \<Rightarrow> [i]) @
     (case Option.bind (gc_owner c) oc_source of None \<Rightarrow> []
      | Some s \<Rightarrow> (case config_secret V (sy_token_env s) of Inl _ \<Rightarrow> [] | Inr u \<Rightarrow> [u])) @
     (case gc_backend c of FilesBackend _ \<Rightarrow> []
      | PostgresBackend d \<Rightarrow> (case config_secret V (dc_password_env d) of Inl _ \<Rightarrow> [] | Inr w \<Rightarrow> [w]))"

lemma outgoing_distinct_Ok:
  "outgoing_distinct V protected ts = Ok u \<Longrightarrow> t \<in> set ts \<Longrightarrow> \<exists>s. config_secret V (tc_token_env t) = Ok s \<and> s \<notin> set protected"
  by (induction ts) (auto simp: then_result_Ok_iff split: if_splits)

text \<open>C16: the credentials of a registry are independent.  When a configuration is accepted, the secrets that open this service, its internal
  routes, its upstream owner and its database are pairwise different, and every token sent to a consumer is
  different from all of them: no peer that learns one credential can use it for another purpose.\<close>

theorem registry_credentials_are_independent:
  assumes "registry_prepare B c = Ok p"
  shows "distinct (held_secrets (hb_env B) c p) \<and>
    (\<forall>policy \<in> set_option (gc_notify c). \<forall>t \<in> set (nc_targets policy).
      \<exists>s. config_secret (hb_env B) (tc_token_env t) = Ok s \<and> s \<notin> set (held_secrets (hb_env B) c p))"
proof -
  let ?V = "hb_env B"
  from assms obtain token own targets where token: "config_secret ?V (gc_token_env c) = Ok token"
    and backend: "prepare_backend B token (gc_backend c) = Ok ()"
    and own: "prepare_owner ?V token (gc_scope c) (gc_backend c) (gc_owner c) = Ok own"
    and targets: "prepare_targets ?V token (map_option fst own) c = Ok targets"
    and p: "p = \<lparr>gp_token = token, gp_internal_token = map_option fst own, gp_owner = map_option snd own, gp_targets = targets\<rparr>"
    by (auto simp: registry_prepare_def Let_def then_result_Ok_iff split: if_splits)
  have "distinct (held_secrets ?V c p)"
    using backend own
    by (auto simp: held_secrets_def p prepare_backend_def prepare_owner_def owner_directory_def source_secret_def then_result_Ok_iff
        split: backend.splits option.splits if_splits sum.splits)
  moreover have "\<exists>s. config_secret ?V (tc_token_env t) = Ok s \<and> s \<notin> set (held_secrets ?V c p)"
    if policy: "gc_notify c = Some policy" "t \<in> set (nc_targets policy)" for policy t
  proof -
    from targets policy(1) obtain protected where protected: "protected_secrets ?V token (map_option fst own) (gc_owner c) (gc_backend c) = Ok protected"
      and out: "outgoing_distinct ?V protected (nc_targets policy) = Ok ()"
      by (auto simp: prepare_targets_def then_result_Ok_iff split: sum.splits)
    have "held_secrets ?V c p = protected"
      using protected by (auto simp: held_secrets_def p protected_secrets_def source_secret_def then_result_Ok_iff
          split: backend.splits option.splits)
    then show ?thesis using outgoing_distinct_Ok [OF out policy(2)] by simp
  qed
  ultimately show ?thesis by auto
qed

definition sample_registry_host :: host_lib where
  "sample_registry_host = sample_host\<lparr>hb_env := (hb_env sample_host)\<lparr>el_env := [''T'' \<mapsto> ''t'', ''I'' \<mapsto> ''i'']\<rparr>\<rparr>"

definition sample_registry :: registry_config where
  "sample_registry = \<lparr>gc_token_env = ''T'', gc_scope = sample_scope, gc_backend = FilesBackend ''d'',
     gc_owner = Some \<lparr>oc_source = None, oc_local_interval_seconds = None, oc_internal_token_env = ''I'',
       oc_staging_directory = None, oc_retention = None\<rparr>,
     gc_notify = None, gc_logging_ok = True, gc_tls_ok = True, gc_access_log_ok = True\<rparr>"

theorem registry_credentials_are_independent_witness:
  "\<exists>p. registry_prepare sample_registry_host sample_registry = Ok p \<and> gp_token p = ''t'' \<and> gp_internal_token p = Some ''i'' \<and>
     distinct (held_secrets (hb_env sample_registry_host) sample_registry p)"
proof -
  have texts: "secret_name ''T''" "secret_name ''I''" "token_ok ''t''" "token_ok ''i''" "scope_ok sample_scope" by code_simp+
  have secrets: "config_secret (hb_env sample_registry_host) ''T'' = Ok ''t''" "config_secret (hb_env sample_registry_host) ''I'' = Ok ''i''"
    by (simp_all add: config_secret_def sample_registry_host_def sample_host_def)
  let ?w = "\<lparr>ow_sync = None, ow_scope = sample_scope, ow_directory = ''d'', ow_database = None, ow_interval = 300\<rparr>"
  let ?p = "\<lparr>gp_token = ''t'', gp_internal_token = Some ''i'', gp_owner = Some ?w, gp_targets = None\<rparr>"
  have "registry_prepare sample_registry_host sample_registry = Ok ?p"
    by (simp add: registry_prepare_def sample_registry_def texts secrets prepare_backend_def prepare_owner_def source_secret_def
        owner_directory_def owner_new_def prepare_targets_def Let_def)
  with registry_credentials_are_independent [OF this] show ?thesis by auto
qed

end
