(* ===== verification/Api.thy ===== *)
theory Api
  imports Call_Pipeline Client_Auth Node_Routing Registry_Owner
begin

section \<open>The HTTP API (src/api.rs)\<close>

text \<open>
  The middleware that authenticates requests, the handlers of the public reads with the checks they make before
  a game call, the system and region documents, the reads of the database mirror, and the wake-ups a hint and a
  finished update cause (src/client.rs).  A handler takes the client's state and returns it; the call it makes is an
  argument, so that the same handler stands for a node with and without routing.  Path and query values
  are the typed values that the framework extracts.
\<close>

subsection \<open>Authentication\<close>

definition USER_HEADER :: string where
  "USER_HEADER = ''x-sirius-token''"

definition header_values :: "(string \<times> string) list \<Rightarrow> string \<Rightarrow> string list" where
  \<comment> \<open>\<open>headers.get_all(name)\<close>\<close>
  "header_values headers name = map snd (filter (\<lambda>h. fst h = name) headers)"

definition authorize_bearer :: "http_lib \<Rightarrow> string \<Rightarrow> (string \<times> string) list \<Rightarrow> app_error + unit" where
  "authorize_bearer H token headers =
     (if length (header_values headers ''authorization'') \<noteq> 1
         \<or> Option.bind (header_get headers ''authorization'') (hl_to_str H) \<noteq> Some (''Bearer '' @ token)
      then Err Unauthorized else Ok ())"

record api_request =
  aq_headers :: "(string \<times> string) list"
  aq_env :: auth_request \<comment> \<open>the clocks and the user store's answer, should the request reach them\<close>

definition authorize_api ::
  "auth_lib \<Rightarrow> http_lib \<Rightarrow> string \<Rightarrow> api_request \<Rightarrow> authenticator option \<Rightarrow> (app_error + unit) \<times> authenticator option" where
  "authorize_api A H token q auth =
     (let headers = aq_headers q; users = length (header_values headers USER_HEADER) in
      if users = 0 then (authorize_bearer H token headers, auth)
      else case auth of
        None \<Rightarrow> (Err Unauthorized, auth)
      | Some a \<Rightarrow>
          if users \<noteq> 1 \<or> header_values headers ''authorization'' \<noteq> [] then (Err Unauthorized, auth)
          else case Option.bind (header_get headers USER_HEADER) (hl_to_str H) of
            None \<Rightarrow> (Err Unauthorized, auth)
          | Some value \<Rightarrow> map_prod id Some (authorize A ((aq_env q)\<lparr>ar_token := value\<rparr>) a))"

subsection \<open>Public reads\<close>

definition parse_i32 :: "string \<Rightarrow> int option" where
  "parse_i32 s = (case parse_i64 s of
     None \<Rightarrow> None
   | Some v \<Rightarrow> if - (2 ^ 31) \<le> v \<and> v < 2 ^ 31 then Some v else None)"

definition parse_ranks :: "string \<Rightarrow> app_error + int list" where
  "parse_ranks raw =
     (if 1100 < length raw then Err InvalidRequest
      else case those (map parse_i32 (split_text (CHR '','') raw)) of
        None \<Rightarrow> Err InvalidRequest
      | Some values \<Rightarrow>
          if values = [] \<or> 100 < length values \<or> list_ex (\<lambda>v. v \<le> 0) values then Err InvalidRequest
          else let unique = remdups_adj (sort values) in
            if length unique \<noteq> length values then Err InvalidRequest else Ok values)"

type_synonym 'w public_call = "operation \<Rightarrow> 'w \<Rightarrow> (app_error + json) \<times> 'w"

definition announcements :: "'w public_call \<Rightarrow> int \<Rightarrow> 'w \<Rightarrow> (app_error + json) \<times> 'w" where
  "announcements call tab w =
     (if \<not> (0 \<le> tab \<and> tab \<le> 2) then (Err InvalidRequest, w) else call (OpAnnouncements tab) w)"

definition announcement :: "'w public_call \<Rightarrow> int \<Rightarrow> 'w \<Rightarrow> (app_error + json) \<times> 'w" where
  "announcement call v w = (if v \<le> 0 then (Err InvalidRequest, w) else call (OpAnnouncement v) w)"

definition profile :: "'w public_call \<Rightarrow> int \<Rightarrow> 'w \<Rightarrow> (app_error + json) \<times> 'w" where
  "profile call v w = (if v \<le> 0 then (Err InvalidRequest, w) else call (OpProfile v) w)"

definition event_ranking :: "'w public_call \<Rightarrow> int \<Rightarrow> string \<Rightarrow> 'w \<Rightarrow> (app_error + json) \<times> 'w" where
  "event_ranking call v raw w =
     (if v \<le> 0 then (Err InvalidRequest, w)
      else case parse_ranks raw of
        Inl e \<Rightarrow> (Err e, w)
      | Inr ranks \<Rightarrow> call (OpEventRanking v ranks) w)"

definition event_deck :: "'w public_call \<Rightarrow> int \<Rightarrow> string \<Rightarrow> 'w \<Rightarrow> (app_error + json) \<times> 'w" where
  "event_deck call v player w =
     (if v \<le> 0 \<or> player = [] \<or> 128 < length player
         \<or> \<not> list_all (\<lambda>b. ascii_alphanumeric b \<or> b = CHR ''-'' \<or> b = CHR ''_'') player
      then (Err InvalidRequest, w) else call (OpEventDeck v player) w)"

definition public_ranking :: "'w public_call \<Rightarrow> int \<Rightarrow> operation \<Rightarrow> 'w \<Rightarrow> (app_error + json) \<times> 'w" where
  \<comment> \<open>the two fields describe the account of the service\<close>
  "public_ranking call v op w =
     (if v \<le> 0 then (Err InvalidRequest, w)
      else map_prod (map_sum id (\<lambda>r. json_remove ''myScore'' (json_remove ''myRank'' r))) id (call op w))"

definition music_ranking :: "'w public_call \<Rightarrow> int \<Rightarrow> 'w \<Rightarrow> (app_error + json) \<times> 'w" where
  "music_ranking call v = public_ranking call v (OpMusicRanking v)"

definition challenge_ranking :: "'w public_call \<Rightarrow> int \<Rightarrow> 'w \<Rightarrow> (app_error + json) \<times> 'w" where
  "challenge_ranking call v = public_ranking call v (OpChallengeRanking v)"

datatype public_read =
    ReadServers
  | ReadAnnouncements int
  | ReadAnnouncement int
  | ReadProfile int
  | ReadEventRanking int string
  | ReadEventDeck int string
  | ReadMusicRanking int
  | ReadChallengeRanking int

fun public_handler :: "'w public_call \<Rightarrow> public_read \<Rightarrow> 'w \<Rightarrow> (app_error + json) \<times> 'w" where
  \<comment> \<open>the routes of \<open>router_at\<close> that read from the game\<close>
  "public_handler call ReadServers = call OpServers"
| "public_handler call (ReadAnnouncements tab) = announcements call tab"
| "public_handler call (ReadAnnouncement v) = announcement call v"
| "public_handler call (ReadProfile v) = profile call v"
| "public_handler call (ReadEventRanking v raw) = event_ranking call v raw"
| "public_handler call (ReadEventDeck v player) = event_deck call v player"
| "public_handler call (ReadMusicRanking v) = music_ranking call v"
| "public_handler call (ReadChallengeRanking v) = challenge_ranking call v"

subsection \<open>The call behind a read\<close>

definition public_query ::
  "(operation \<Rightarrow> 'w \<Rightarrow> execution \<times> 'w) option \<Rightarrow> (string \<Rightarrow> json \<Rightarrow> 'w \<Rightarrow> (app_error + json) \<times> 'w) \<Rightarrow>
     ('w \<Rightarrow> observation) \<Rightarrow> operation \<Rightarrow> 'w \<Rightarrow> execution \<times> 'w" where
  "public_query router call observed op w =
     (case router of
        Some route_call \<Rightarrow> route_call op w
      | None \<Rightarrow>
          let (result, w1) = (case operation_rpc op of Inl e \<Rightarrow> (Err e, w) | Inr (route, input) \<Rightarrow> call route input w) in
          (\<lparr>ex_result = result, ex_observation = observed w1\<rparr>, w1))"

definition public_call_of ::
  "(operation \<Rightarrow> 'w \<Rightarrow> execution \<times> 'w) option \<Rightarrow> (string \<Rightarrow> json \<Rightarrow> 'w \<Rightarrow> (app_error + json) \<times> 'w) \<Rightarrow>
     ('w \<Rightarrow> observation) \<Rightarrow> 'w public_call" where
  "public_call_of router call observed op w = map_prod ex_result id (public_query router call observed op w)"

definition named_account ::
  "('v::linorder) pipeline_lib \<Rightarrow> client_setup \<Rightarrow> call_env \<Rightarrow> string \<Rightarrow> world \<Rightarrow> (app_error + json) \<times> world" where
  "named_account L S E name = call_account L S E name WHOAMI"

definition named_player_data ::
  "('v::linorder) pipeline_lib \<Rightarrow> client_setup \<Rightarrow> call_env \<Rightarrow> string \<Rightarrow> world \<Rightarrow> (app_error + json) \<times> world" where
  "named_player_data L S E name = call_account L S E name PLAYER_DATA"

definition pool_account ::
  "('v::linorder) pipeline_lib \<Rightarrow> client_setup \<Rightarrow> call_env \<Rightarrow> world \<Rightarrow> (app_error + json) \<times> world" where
  "pool_account L S E = call_selected L S E WHOAMI (JObj []) None None None"

definition pool_player_data ::
  "('v::linorder) pipeline_lib \<Rightarrow> client_setup \<Rightarrow> call_env \<Rightarrow> world \<Rightarrow> (app_error + json) \<times> world" where
  "pool_player_data L S E = call_selected L S E PLAYER_DATA (JObj []) None None None"

subsection \<open>System and region documents\<close>

datatype system_document =
    SystemAvailable region platform "string list" observation
  | SystemUnavailable region platform observation

definition system ::
  "(operation \<Rightarrow> 'w \<Rightarrow> execution \<times> 'w) \<Rightarrow> region \<Rightarrow> platform \<Rightarrow> string list \<Rightarrow> 'w \<Rightarrow> (app_error + system_document) \<times> 'w" where
  "system query rg pf supported w =
     (case query OpVersion w of (x, w1) \<Rightarrow>
        (case ex_result x of
           Inr _ \<Rightarrow> Ok (SystemAvailable rg pf supported (ex_observation x))
         | Inl (Grpc _) \<Rightarrow> Ok (SystemUnavailable rg pf (ex_observation x))
         | Inl (Maintenance _) \<Rightarrow> Ok (SystemUnavailable rg pf (ex_observation x))
         | Inl e \<Rightarrow> Err e, w1))"

definition OPERATIONS :: "string list" where
  "OPERATIONS = [''version'', ''announcements'', ''profile'', ''event_ranking'', ''event_deck'', ''music_ranking'',
     ''challenge_ranking'', ''account_login'', ''account_identity'', ''player_data'']"

definition operation_status :: "region \<Rightarrow> string \<Rightarrow> string" where
  "operation_status rg op =
     (if rg = Cn then ''reserved''
      else if rg = Jp then (if op = ''account_login'' then ''static_credentials'' else ''live_verified'')
      else if op \<in> {''version'', ''account_login'', ''player_data'', ''announcements'', ''profile'', ''music_ranking''}
      then ''live_verified'' else ''implemented_unverified'')"

definition operations :: "region \<Rightarrow> json" where
  "operations rg = JObj (map (\<lambda>op. (op, JStr (operation_status rg op))) OPERATIONS @
     [(''servers'', JStr (if rg = Cn then ''reserved'' else if rg = Jp then ''unsupported'' else ''live_verified''))])"

definition region_entry :: "region \<Rightarrow> json" where
  "region_entry rg = JObj [(''region'', JStr (region_name rg)),
     (''area_id'', (case region_area_id rg of None \<Rightarrow> JNull | Some a \<Rightarrow> JStr a)),
     (''protocol_family'', JStr (region_family rg)), (''reserved'', JBool (rg = Cn)),
     (''master_data'', JBool (master_supported rg)),
     (''capability'', JStr (if rg = Cn then ''reserved'' else if rg = Jp then ''jp_proxy'' else ''global_proxy'')),
     (''operations'', operations rg)]"

definition regions :: "region \<Rightarrow> json" where
  "regions selected = JObj [(''selected'', JStr (region_name selected)),
     (''regions'', JArr (map region_entry [Jp, Hk, En, Kr, Cn]))]"

definition uptime_secs_between :: "instant \<Rightarrow> instant \<Rightarrow> nat" where
  \<comment> \<open>\<open>saturating_duration_since\<close>, in whole seconds\<close>
  "uptime_secs_between start now = (now - start) div from_secs 1"

definition health_body :: "string \<Rightarrow> string \<Rightarrow> instant \<Rightarrow> instant \<Rightarrow> json" where
  "health_body service version start now =
     JObj [(''status'', JStr ''ok''), (''service'', JStr service), (''version'', JStr version),
       (''uptime_secs'', JInt (int (uptime_secs_between start now)))]"

subsection \<open>Reads of the mirror\<close>

definition database_response ::
  "db_lib \<Rightarrow> http_lib \<Rightarrow> (master_db \<times> db_error option) option \<Rightarrow> master_scope \<Rightarrow> app_error + unit \<Rightarrow> string option \<Rightarrow>
     string option \<Rightarrow> (string \<times> string) list \<Rightarrow> app_error + doc_response" where
  \<comment> \<open>\<open>reader\<close>: the configured mirror, as the read finds it\<close>
  "database_response DL H reader scope admission hash tab headers =
     (if (\<exists>h \<in> set_option hash. \<not> hash_valid h) \<or> (\<exists>t \<in> set_option tab. \<not> safe_component t) then Err InvalidRequest
      else case reader of
        None \<Rightarrow> Err MasterUnavailable
      | Some (db, lost) \<Rightarrow>
          then_result (if tab = None then Ok () else admission) (\<lambda>_.
          then_result (from_db (db_document DL lost db scope hash tab)) (\<lambda>doc.
            registry_document_response H doc headers (tab \<noteq> None))))"

definition database_history ::
  "db_lib \<Rightarrow> (master_db \<times> db_error option) option \<Rightarrow> master_scope \<Rightarrow> nat \<Rightarrow> int option \<Rightarrow> app_error + db_page" where
  \<comment> \<open>the page, which the response carries as JSON\<close>
  "database_history DL reader scope limit before =
     (if \<not> (1 \<le> limit \<and> limit \<le> 200) \<or> (\<exists>n \<in> set_option before. n \<le> 0) then Err InvalidRequest
      else case reader of
        None \<Rightarrow> Err MasterUnavailable
      | Some (db, lost) \<Rightarrow> from_db (db_history_page DL lost db scope limit before))"

subsection \<open>Wake-ups of the Master workers (src/client.rs)\<close>

record master_wakes =
  mw_status :: json \<comment> \<open>the document of the updater\<close>
  mw_sync :: bool \<comment> \<open>each \<open>Notify\<close> holds at most one permit\<close>
  mw_publication :: bool
  mw_git :: bool
  mw_database :: bool

definition request_master_sync ::
  "bool \<Rightarrow> master_scope \<Rightarrow> update_hint \<Rightarrow> master_wakes \<Rightarrow> (app_error + unit) \<times> master_wakes" where
  \<comment> \<open>\<open>configured\<close>: the node synchronizes from an owner\<close>
  "request_master_sync configured scope hint w =
     (if \<not> configured then (Err MasterUnavailable, w)
      else if uh_scope hint \<noteq> scope \<or> length (uh_content_sha256 hint) \<noteq> 64
              \<or> \<not> list_all ascii_hexdigit (uh_content_sha256 hint)
      then (Err InvalidRequest, w)
      else (Ok (), w\<lparr>mw_sync := True\<rparr>))"

definition master_sync_hint ::
  "http_lib \<Rightarrow> string \<Rightarrow> bool \<Rightarrow> master_scope \<Rightarrow> notify_request \<Rightarrow> master_wakes \<Rightarrow> (app_error + unit) \<times> master_wakes" where
  \<comment> \<open>the internal route, behind the internal token; \<open>Ok\<close> is the answer 202 with \<open>{"status":"accepted"}\<close>\<close>
  "master_sync_hint H internal_token configured scope q w =
     (case authorize_bearer H internal_token [(''authorization'', nq_authorization q)] of
        Inl e \<Rightarrow> (Err e, w)
      | Inr _ \<Rightarrow> request_master_sync configured scope (nq_hint q) w)"

definition record_master_update :: "json \<Rightarrow> master_wakes \<Rightarrow> master_wakes" where
  "record_master_update value w =
     (if json_get value ''status'' = Some (JStr ''ready'')
         \<and> Option.bind (json_get value ''result'') (\<lambda>r. json_get r ''action'') = Some (JStr ''updated'')
      then w\<lparr>mw_status := value, mw_publication := True, mw_git := True, mw_database := True\<rparr>
      else w\<lparr>mw_status := value\<rparr>)"

section \<open>Properties\<close>

subsection \<open>Authentication\<close>

definition user_request :: "http_lib \<Rightarrow> api_request \<Rightarrow> auth_request option" where
  \<comment> \<open>the request that reaches the authenticator\<close>
  "user_request H q =
     (if length (header_values (aq_headers q) USER_HEADER) = 1 \<and> header_values (aq_headers q) ''authorization'' = []
      then map_option (\<lambda>v. (aq_env q)\<lparr>ar_token := v\<rparr>) (Option.bind (header_get (aq_headers q) USER_HEADER) (hl_to_str H))
      else None)"

definition bearer_request :: "http_lib \<Rightarrow> string \<Rightarrow> api_request \<Rightarrow> bool" where
  \<comment> \<open>one \<open>authorization\<close> header, which holds the static token, and no user token\<close>
  "bearer_request H token q \<longleftrightarrow> header_values (aq_headers q) USER_HEADER = [] \<and>
     (\<exists>v. header_values (aq_headers q) ''authorization'' = [v] \<and> hl_to_str H v = Some (''Bearer '' @ token))"

fun api_run :: "auth_lib \<Rightarrow> http_lib \<Rightarrow> string \<Rightarrow> api_request list \<Rightarrow> authenticator option \<Rightarrow> authenticator option" where
  "api_run A H token [] auth = auth"
| "api_run A H token (q # qs) auth = api_run A H token qs (snd (authorize_api A H token q auth))"

lemma header_get_values:
  "header_get headers name = (case header_values headers name of [] \<Rightarrow> None | v # _ \<Rightarrow> Some v)"
  by (induction headers) (auto simp: header_get_def header_values_def)

lemma authorize_bearer_iff:
  "authorize_bearer H token headers = Ok () \<longleftrightarrow>
     (\<exists>v. header_values headers ''authorization'' = [v] \<and> hl_to_str H v = Some (''Bearer '' @ token))"
  by (cases "header_values headers ''authorization''") (auto simp: authorize_bearer_def header_get_values bind_eq_Some_conv)

lemma authorize_api_eq:
  "authorize_api A H token q (Some a) =
     (if header_values (aq_headers q) USER_HEADER = [] then (authorize_bearer H token (aq_headers q), Some a)
      else case user_request H q of
        None \<Rightarrow> (Err Unauthorized, Some a)
      | Some r \<Rightarrow> map_prod id Some (authorize A r a))"
  by (auto simp: authorize_api_def user_request_def Let_def split: option.splits)

lemma user_request_values: "user_request H q = Some r \<Longrightarrow> header_values (aq_headers q) USER_HEADER \<noteq> []"
  by (auto simp: user_request_def split: if_splits)

lemma api_run_eq: "api_run A H token qs (Some a) = Some (auth_run A (List.map_filter (user_request H) qs) a)"
proof (induction qs arbitrary: a)
  case (Cons q qs)
  have step: "snd (authorize_api A H token q (Some a)) =
      Some (case user_request H q of None \<Rightarrow> a | Some r \<Rightarrow> snd (authorize A r a))"
    using user_request_values [of H q] by (auto simp: authorize_api_eq split: option.splits)
  then show ?case using Cons by (cases "user_request H q") (simp_all add: List.map_filter_simps)
qed (simp add: List.map_filter_simps)

lemma api_run_none: "api_run A H token qs None = None"
  by (induction qs) (auto simp: authorize_api_def Let_def)

text \<open>C6: every request the public API admits is authenticated.  Starting from an empty cache, after any sequence of
  earlier requests, an admitted request either carries no user token and exactly one \<open>authorization\<close> header, the static
  one, or carries no \<open>authorization\<close> header and exactly one user token, on a profile with client authorization, which
  verifies under the signing key and is backed by the user store: confirmed with a grant just now, or, by one of
  the earlier user requests, less than the lifetime of the cache ago.\<close>

theorem admitted_requests_are_backed:
  assumes "\<forall>a \<in> set_option auth0. an_cache a = []" and "auth = api_run A H token hist auth0"
    and "authorize_api A H token q auth = (Ok (), auth')"
  shows "bearer_request H token q \<or>
    (\<exists>a0 r c. auth0 = Some a0 \<and> user_request H q = Some r \<and> verify_token A (ar_token r) (an_key a0) (ar_wall r) = Some c \<and>
      (ar_row r = Some (Some (cl_credential c, True)) \<or>
       (\<exists>p \<in> set hist. \<exists>s. user_request H p = Some s \<and> ar_lookup r < ar_store s + an_ttl a0 \<and>
          backed A (an_key a0) s (cl_uid c, sha256 A (bytes_of (cl_credential c))))))"
proof (cases "header_values (aq_headers q) USER_HEADER = []")
  case True
  then have "authorize_bearer H token (aq_headers q) = Ok ()" using assms(3) by (simp add: authorize_api_def)
  with True show ?thesis by (simp add: authorize_bearer_iff bearer_request_def)
next
  case False
  then obtain a0 where a0: "auth0 = Some a0" using assms(2,3)
    by (cases auth0) (auto simp: api_run_none authorize_api_def Let_def)
  define rs where "rs = List.map_filter (user_request H) hist"
  have auth: "auth = Some (auth_run A rs a0)" using assms(2) by (simp add: a0 api_run_eq rs_def)
  from False assms(3) obtain r where r: "user_request H q = Some r"
    and ok: "map_prod id Some (authorize A r (auth_run A rs a0)) = (Ok (), auth')"
    by (auto simp: auth authorize_api_eq split: option.splits)
  from ok obtain a' where "authorize A r (auth_run A rs a0) = (Ok (), a')" by (cases "authorize A r (auth_run A rs a0)") auto
  from authorization_is_backed [OF _ refl this] assms(1) a0 obtain c where
    c: "verify_token A (ar_token r) (an_key a0) (ar_wall r) = Some c"
    and how: "ar_row r = Some (Some (cl_credential c, True)) \<or>
       (\<exists>s \<in> set rs. ar_lookup r < ar_store s + an_ttl a0 \<and>
          backed A (an_key a0) s (cl_uid c, sha256 A (bytes_of (cl_credential c))))" by auto
  have "\<exists>p \<in> set hist. user_request H p = Some s" if "s \<in> set rs" for s
    using that by (auto simp: rs_def List.map_filter_def)
  with how a0 r c show ?thesis by blast
qed

subsection \<open>Ranks\<close>

definition valid_ranks :: "int list \<Rightarrow> bool" where
  "valid_ranks rs \<longleftrightarrow> rs \<noteq> [] \<and> length rs \<le> 100 \<and> distinct rs \<and> list_all (\<lambda>v. 0 < v \<and> v < 2 ^ 31) rs"

fun comma_text :: "string list \<Rightarrow> string" where
  "comma_text [] = []"
| "comma_text [s] = s"
| "comma_text (s # ss) = s @ CHR '','' # comma_text ss"

definition rank_text :: "int list \<Rightarrow> string" where
  "rank_text rs = comma_text (map (decimal \<circ> nat) rs)"

lemma split_text_plain: "d \<notin> set s \<Longrightarrow> split_text d s = [s]"
  by (induction s) auto

lemma split_text_append: "d \<notin> set s \<Longrightarrow> split_text d (s @ d # r) = s # split_text d r"
  by (induction s) auto

lemma split_comma_text: "ss \<noteq> [] \<Longrightarrow> \<forall>s \<in> set ss. CHR '','' \<notin> set s \<Longrightarrow> split_text (CHR '','') (comma_text ss) = ss"
  by (induction ss rule: comma_text.induct) (auto simp: split_text_plain split_text_append)

lemma digit_char: "n < 10 \<Longrightarrow> ascii_digit (char_of (48 + n)) \<and> byte (char_of (48 + n)) = 48 + n"
  by (simp add: ascii_digit_def byte_def)

lemma decimal_digits: "list_all ascii_digit (decimal n)"
  by (induction n rule: decimal.induct) (subst decimal.simps, auto simp: digit_char)

lemma decimal_nonempty [simp]: "decimal n \<noteq> []"
  by (subst decimal.simps) auto

lemma decimal_read: "foldl (\<lambda>n c. n * 10 + (byte c - 48)) 0 (decimal n) = n"
  by (induction n rule: decimal.induct) (subst decimal.simps, auto simp: digit_char)

lemma decimal_length: "n < 10 ^ k \<Longrightarrow> 0 < k \<Longrightarrow> length (decimal n) \<le> k"
proof (induction n arbitrary: k rule: decimal.induct)
  case (1 n)
  show ?case
  proof (cases "n < 10")
    case True
    with 1(3) show ?thesis by (subst decimal.simps) simp
  next
    case False
    with 1(2,3) obtain j where j: "k = Suc j" "0 < j" by (cases k; cases "k - 1") auto
    have "n div 10 < 10 ^ j" using 1(2) j by (simp add: div_less_iff_less_mult mult.commute)
    from 1(1) [OF False this j(2)] False j show ?thesis by (subst decimal.simps) simp
  qed
qed

lemma digit_not_sign: "ascii_digit c \<Longrightarrow> c \<noteq> CHR ''+'' \<and> c \<noteq> CHR ''-'' \<and> c \<noteq> CHR '',''"
  by (auto simp: ascii_digit_def byte_def)

lemma parse_i64_decimal: "int n < 2 ^ 63 \<Longrightarrow> parse_i64 (decimal n) = Some (int n)"
proof -
  assume n: "int n < 2 ^ 63"
  obtain c s where s: "decimal n = c # s" using decimal_nonempty by (cases "decimal n") blast+
  then have "c \<noteq> CHR ''+'' \<and> c \<noteq> CHR ''-''" using decimal_digits [of n] digit_not_sign by simp
  then have "\<not> starts_with (decimal n) ''+''" "\<not> starts_with (decimal n) ''-''" by (auto simp: s starts_with_def)
  then show ?thesis using n decimal_digits [of n] by (simp add: parse_i64_def decimal_read Let_def)
qed

lemma parse_i32_decimal: "0 < v \<Longrightarrow> v < 2 ^ 31 \<Longrightarrow> parse_i32 (decimal (nat v)) = Some v"
  by (simp add: parse_i32_def parse_i64_decimal)

lemma comma_text_length: "list_all (\<lambda>s. length s \<le> k) ss \<Longrightarrow> length (comma_text ss) \<le> length ss * (k + 1) - 1"
  by (induction ss rule: comma_text.induct) auto

lemma sorted_unique: "sorted (xs :: int list) \<Longrightarrow> distinct (remdups_adj xs)"
  by (induction xs rule: remdups_adj.induct) (auto simp: order.antisym)

lemma unique_iff: "length (remdups_adj (sort xs)) = length xs \<longleftrightarrow> distinct (xs :: int list)"
proof -
  have "distinct (remdups_adj (sort xs))" by (simp add: sorted_unique)
  then have "length (remdups_adj (sort xs)) = card (set xs)" using distinct_card by fastforce
  then show ?thesis by (metis card_distinct distinct_card)
qed

lemma parse_ranks_valid: "parse_ranks raw = Ok rs \<Longrightarrow> valid_ranks rs"
proof -
  assume ok: "parse_ranks raw = Ok rs"
  then have those: "those (map parse_i32 (split_text (CHR '','') raw)) = Some rs"
    and rest: "rs \<noteq> []" "length rs \<le> 100" "\<not> list_ex (\<lambda>v. v \<le> 0) rs" "distinct rs"
    by (auto simp: parse_ranks_def Let_def unique_iff split: if_splits option.splits)
  have "v < 2 ^ 31" if "v \<in> set rs" for v
  proof -
    have "list_all (\<lambda>v. v < 2 ^ 31) ys" if "those (map parse_i32 xs) = Some ys" for xs ys
      using that
      by (induction xs arbitrary: ys) (auto simp: parse_i32_def split: option.splits if_splits)
    from this [OF those] \<open>v \<in> set rs\<close> show ?thesis by (simp add: list_all_iff)
  qed
  with rest show ?thesis by (auto simp: valid_ranks_def list_all_iff list_ex_iff not_le)
qed

text \<open>C21: rank lists round trip.  A list of ranks can be asked for through the API, in its plain spelling, exactly when it
  is nonempty, has at most 100 distinct elements and each is a positive 32-bit number: the bound on the length of the
  query (1,100 bytes) never refuses such a list.\<close>

theorem ranks_round_trip: "parse_ranks (rank_text rs) = Ok rs \<longleftrightarrow> valid_ranks rs"
proof
  assume valid: "valid_ranks rs"
  then have rs: "\<And>v. v \<in> set rs \<Longrightarrow> 0 < v \<and> v < 2 ^ 31" "rs \<noteq> []" "length rs \<le> 100" "distinct rs"
    by (simp_all add: valid_ranks_def list_all_iff)
  have no: "\<forall>s \<in> set (map (decimal \<circ> nat) rs). CHR '','' \<notin> set s"
    using decimal_digits digit_not_sign by (fastforce simp: list_all_iff)
  have split: "split_text (CHR '','') (rank_text rs) = map (decimal \<circ> nat) rs"
    unfolding rank_text_def by (rule split_comma_text [OF _ no]) (simp add: rs(2))
  have read: "those (map parse_i32 (map (decimal \<circ> nat) rs)) = Some rs"
    using rs(1) by (induction rs) (auto simp: parse_i32_decimal)
  have "length (decimal (nat v)) \<le> 10" if "v \<in> set rs" for v
    using rs(1) [OF that] by (intro decimal_length) auto
  then have "length (rank_text rs) \<le> length rs * (10 + 1) - 1"
    unfolding rank_text_def using comma_text_length [of 10 "map (decimal \<circ> nat) rs"] by (simp add: list_all_iff)
  also have "\<dots> \<le> 1100" using rs(3) by simp
  finally have "\<not> 1100 < length (rank_text rs)" by simp
  moreover have "\<not> list_ex (\<lambda>v. v \<le> 0) rs" using rs(1) by (auto simp: list_ex_iff not_le)
  ultimately show "parse_ranks (rank_text rs) = Ok rs"
    using rs(2-4) by (simp add: parse_ranks_def split read [simplified] unique_iff Let_def)
qed (rule parse_ranks_valid)

subsection \<open>Checks\<close>

definition read_operation :: "public_read \<Rightarrow> operation option" where
  \<comment> \<open>the operation a read asks for, before any check of its values\<close>
  "read_operation r = (case r of
     ReadServers \<Rightarrow> Some OpServers
   | ReadAnnouncements tab \<Rightarrow> Some (OpAnnouncements tab)
   | ReadAnnouncement v \<Rightarrow> Some (OpAnnouncement v)
   | ReadProfile v \<Rightarrow> Some (OpProfile v)
   | ReadEventRanking v raw \<Rightarrow> (case parse_ranks raw of Inl _ \<Rightarrow> None | Inr ranks \<Rightarrow> Some (OpEventRanking v ranks))
   | ReadEventDeck v player \<Rightarrow> Some (OpEventDeck v player)
   | ReadMusicRanking v \<Rightarrow> Some (OpMusicRanking v)
   | ReadChallengeRanking v \<Rightarrow> Some (OpChallengeRanking v))"

lemma parse_ranks_Err: "parse_ranks raw = Err e \<Longrightarrow> e = InvalidRequest"
  by (auto simp: parse_ranks_def Let_def split: if_splits option.splits)

lemma valid_ranks_rpc: "valid_ranks rs \<Longrightarrow> operation_rpc (OpEventRanking v rs) = id_input EVENT_RANKING ''eventId'' v [(''ranks'', JArr (map JInt rs))]"
  by (auto simp: valid_ranks_def distinct_card list_ex_iff list_all_iff)

lemma id_input_eq: "id_input route name v others =
    (if v \<le> 0 then Err InvalidRequest else Ok (route, JObj ((name, JStr (decimal (nat v))) # others)))"
  by (simp add: id_input_def id_text_def)

text \<open>C20: the checks of the API are the checks of the operation.  A read is refused, without a game call and without a
  trace in the client, exactly when its ranks do not parse or its operation has no RPC, with the error the RPC
  construction gives; otherwise the handler makes one call, with that operation.  So a read
  that is forwarded is not refused by a peer that checks again.  The answer has lost the fields of the
  service's own account on the ranking routes, whatever answered the call.\<close>

theorem reads_are_checked_as_operations:
  "public_handler call r w =
     (case read_operation r of
        None \<Rightarrow> (Err InvalidRequest, w)
      | Some op \<Rightarrow>
          (case operation_rpc op of
             Inl e \<Rightarrow> (Err e, w)
           | Inr (route, input) \<Rightarrow> map_prod (map_sum id (strip_account_fields route)) id (call op w)))"
proof -
  have plain: "map_prod (map_sum id (strip_account_fields route)) id x = x"
    if "route \<noteq> MUSIC_RANKING" "route \<noteq> CHALLENGE_RANKING" for route and x :: "(app_error + json) \<times> 'a"
    using that by (cases x; cases "fst x") (auto simp: strip_account_fields_def)
  have own: "strip_account_fields MUSIC_RANKING = (\<lambda>r. json_remove ''myScore'' (json_remove ''myRank'' r))"
    "strip_account_fields CHALLENGE_RANKING = (\<lambda>r. json_remove ''myScore'' (json_remove ''myRank'' r))"
    by (auto simp: strip_account_fields_def)
  show ?thesis
  proof (cases r)
    case (ReadEventRanking v raw)
    show ?thesis
    proof (cases "parse_ranks raw")
      case (Inl e)
      then show ?thesis using parse_ranks_Err [OF Inl] by (simp add: ReadEventRanking read_operation_def event_ranking_def)
    next
      case (Inr rs)
      then show ?thesis using valid_ranks_rpc [OF parse_ranks_valid [OF Inr]]
        by (simp add: ReadEventRanking read_operation_def event_ranking_def id_input_eq plain route_defs del: operation_rpc.simps)
    qed
  qed (auto simp: read_operation_def announcements_def announcement_def profile_def event_deck_def music_ranking_def
      challenge_ranking_def public_ranking_def id_input_eq plain own [unfolded route_defs] route_defs)
qed

subsection \<open>Hints\<close>

definition hint_answer :: "(app_error \<Rightarrow> http_answer) \<Rightarrow> app_error + unit \<Rightarrow> http_answer" where
  \<comment> \<open>the response of the internal route; the shape of an error is an argument\<close>
  "hint_answer render r = (case r of
     Inl e \<Rightarrow> render e
   | Inr _ \<Rightarrow> \<lparr>ha_status = 202, ha_headers = [(''content-type'', ''application/json'')], ha_content_length = Some 21,
               ha_chunks = [Inr (''{'' @ [CHR 34] @ ''status'' @ [CHR 34] @ '':'' @ [CHR 34] @ ''accepted'' @ [CHR 34] @ ''}'')]\<rparr>)"

definition consumer_of :: "http_lib \<Rightarrow> (app_error \<Rightarrow> http_answer) \<Rightarrow> string \<Rightarrow> bool \<Rightarrow> master_scope \<Rightarrow> master_wakes \<Rightarrow> consumer" where
  "consumer_of H render token configured scope w q = Inr (hint_answer render (fst (master_sync_hint H token configured scope q w)))"

lemma master_sync_hint_eq:
  "master_sync_hint H token configured scope (target_request t hash) w =
     (if hl_to_str H (nt_authorization t) \<noteq> Some (''Bearer '' @ token) then (Err Unauthorized, w)
      else request_master_sync configured scope \<lparr>uh_scope = nt_scope t, uh_content_sha256 = hash\<rparr> w)"
  by (simp add: master_sync_hint_def authorize_bearer_def header_values_def header_get_def target_request_def)

lemma app_error_status_refuses: "app_error_status e \<noteq> 202"
  by (cases e) auto

text \<open>Owner and consumer agree on hints.  A target reports a hint as newly accepted exactly when the
  consumer behind it accepted the token, synchronizes, and has the scope of the target; the consumer then holds
  one wake-up for its synchronization, and in every other case its state is unchanged and the hint stays pending.\<close>

theorem accepted_hints_wake_the_consumer:
  assumes "length hash = 64" and "list_all ascii_hexdigit hash" and "nt_accepted t \<noteq> Some hash"
    and "\<forall>e. ha_status (render e) = app_error_status e"
    and "reply (''{'' @ [CHR 34] @ ''status'' @ [CHR 34] @ '':'' @ [CHR 34] @ ''accepted'' @ [CHR 34] @ ''}'') = Some ''accepted''"
  shows "(let accepted = (hl_to_str H (nt_authorization t) = Some (''Bearer '' @ token) \<and> configured \<and> nt_scope t = scope) in
    target_deliver reply (consumer_of H render token configured scope w) t hash =
      (if accepted then Ok True else Err NotifyDelivery, if accepted then t\<lparr>nt_accepted := Some hash\<rparr> else t, [target_request t hash]) \<and>
    snd (master_sync_hint H token configured scope (target_request t hash) w) = (if accepted then w\<lparr>mw_sync := True\<rparr> else w))"
proof -
  have refused: "notify_answer reply (Inr (render e)) = Err NotifyDelivery" for e
    using assms(4) app_error_status_refuses by (simp add: notify_answer_def)
  have taken: "notify_answer reply (Inr (hint_answer render (Inr ()))) = Ok ()"
    using assms(5) by (simp add: notify_answer_def hint_answer_def)
  show ?thesis using assms(1-3) taken refused
    by (auto simp: target_deliver_def Let_def consumer_of_def master_sync_hint_eq request_master_sync_def hint_answer_def)
qed

subsection \<open>Witnesses\<close>

definition plain_http :: http_lib where
  "plain_http = \<lparr>hl_to_str = Some, hl_header_ok = (\<lambda>_. True)\<rparr>"

definition user_example :: "(string \<times> bool) option option \<Rightarrow> api_request" where
  "user_example row = \<lparr>aq_headers = [(USER_HEADER, ''h.p.s'')], aq_env = example_auth_request row\<rparr>"

theorem admitted_requests_are_backed_witness:
  "(\<exists>auth'. authorize_api example_auth_lib plain_http ''t'' (user_example (Some (Some (''c'', True)))) (Some example_authenticator) = (Ok (), auth')) \<and>
   (\<exists>r c. user_request plain_http (user_example (Some (Some (''c'', True)))) = Some r \<and>
      verify_token example_auth_lib (ar_token r) (an_key example_authenticator) (ar_wall r) = Some c)"
proof -
  let ?q = "user_example (Some (Some (''c'', True)))"
  have v: "verify_token example_auth_lib ''h.p.s'' (replicate 32 0x36) 7 = Some \<lparr>cl_uid = ''u'', cl_credential = ''c''\<rparr>"
    by (simp add: verify_token_def constant_time_eq_iff hmac_sha256_def hmac_block_def example_auth_lib_def
        Let_def eval_nat_numeral)
  have vals: "header_values (aq_headers ?q) USER_HEADER = [''h.p.s'']" "header_values (aq_headers ?q) ''authorization'' = []"
    by (simp_all add: user_example_def header_values_def USER_HEADER_def)
  then have "user_request plain_http ?q = Some (example_auth_request (Some (Some (''c'', True))))"
    by (simp add: user_request_def header_get_values plain_http_def) (simp add: user_example_def example_auth_request_def)
  then have ok: "\<exists>auth'. authorize_api example_auth_lib plain_http ''t'' ?q (Some example_authenticator) = (Ok (), auth')"
    using vals by (simp add: authorize_api_eq authorize_def example_auth_request_def example_authenticator_def v auth_cached_def
        constant_time_eq_iff Let_def)
  then obtain auth' where run: "authorize_api example_auth_lib plain_http ''t'' ?q (Some example_authenticator) = (Ok (), auth')" by blast
  have "\<not> bearer_request plain_http ''t'' ?q" using vals by (simp add: bearer_request_def)
  with admitted_requests_are_backed [of "Some example_authenticator" "Some example_authenticator" example_auth_lib plain_http "''t''" "[]", OF _ _ run] ok
  show ?thesis by (auto simp: example_authenticator_def)
qed

definition example_wakes :: master_wakes where
  "example_wakes = \<lparr>mw_status = JNull, mw_sync = False, mw_publication = False, mw_git = False, mw_database = False\<rparr>"

theorem accepted_hints_wake_the_consumer_witness:
  "snd (master_sync_hint plain_http ''t'' True sample_scope (target_request sample_hint_target (replicate 64 CHR ''a'')) example_wakes) =
     example_wakes\<lparr>mw_sync := True\<rparr>"
  using accepted_hints_wake_the_consumer [of "replicate 64 CHR ''a''" sample_hint_target
      "\<lambda>e. \<lparr>ha_status = app_error_status e, ha_headers = [], ha_content_length = None, ha_chunks = []\<rparr>" "\<lambda>_. Some ''accepted''"
      plain_http "''t''" True sample_scope example_wakes]
  by (simp add: sample_hint_target_def plain_http_def list_all_iff ascii_hexdigit_def ascii_digit_def byte_def Let_def)

end
