(* ===== verification/Asset_Outbox.thy ===== *)
theory Asset_Outbox
  imports Ordered_Map Region
begin

section \<open>The dispatch ledger (src/asset_outbox.rs, src/asset_jobs.rs)\<close>

text \<open>
  The durable ledger of asset dispatch identities. Next to the ledger in memory the state holds what
  is on disk: the ledger file and the archive of completed entries. A write of the ledger replaces the
  file atomically or fails (\<open>write_ok\<close>), and the memory follows the file. Parameters
  (\<open>outbox_lib\<close>): the idempotency key of an identity (a SHA-256 digest) and canonical UUIDs.
\<close>

datatype job_operation = Update | Export | Verify

record job_request =
  jr_region :: region
  jr_profile :: string
  jr_operation :: job_operation

record dispatch_identity =
  di_destination_sha256 :: string
  di_request :: job_request
  di_profile_revision :: string
  di_environment :: string
  di_platform :: string
  di_resource_version :: string
  di_platform_hash :: string
  di_require_full_catalog :: bool
  di_require_full_export :: bool
  di_require_publication :: bool

datatype dispatch_state =
    Pending
  | Sending instant
  | Submitted string
  | Completed string string "string option"
  | Failed "string option" string

record dispatch_entry =
  de_identity :: dispatch_identity
  de_state :: dispatch_state

datatype outbox_error = Invalid | Locked | Storage | Full

record ledger =
  le_schema_version :: nat
  le_cursor :: "string option"
  le_entries :: "(string, dispatch_entry) btree_map"

record outbox =
  ox_ledger :: ledger
  ox_file :: ledger \<comment> \<open>what \<open>outbox.json\<close> holds\<close>
  ox_archive :: "string \<Rightarrow> dispatch_entry option" \<comment> \<open>the files under \<open>completed/\<close>\<close>
  ox_capacity :: nat

record outbox_lib =
  identity_digest :: "dispatch_identity \<Rightarrow> string" \<comment> \<open>hexadecimal SHA-256 of its JSON\<close>
  uuid_ok :: "string \<Rightarrow> bool"

definition digest_ok :: "string \<Rightarrow> bool" where
  "digest_ok v \<longleftrightarrow> length v = 64 \<and> list_all lower_hexdigit v"

definition component_ok :: "string \<Rightarrow> bool" where
  "component_ok v \<longleftrightarrow>
     v \<noteq> [] \<and> length v \<le> 256 \<and> v \<noteq> ''.'' \<and> v \<noteq> ''..'' \<and>
     list_all (\<lambda>b. ascii_alphanumeric b \<or> b \<in> set ''-_.'') v"

definition identity_ok :: "dispatch_identity \<Rightarrow> bool" where
  "identity_ok i \<longleftrightarrow>
     digest_ok (di_destination_sha256 i) \<and> jr_region (di_request i) \<noteq> Cn \<and>
     length (jr_profile (di_request i)) \<le> 64 \<and> component_ok (jr_profile (di_request i)) \<and>
     CHR ''.'' \<notin> set (jr_profile (di_request i)) \<and>
     component_ok (di_profile_revision i) \<and> component_ok (di_environment i) \<and>
     component_ok (di_resource_version i) \<and> component_ok (di_platform_hash i) \<and>
     (di_platform i = ''iOS'' \<or> di_platform i = ''Android'')"

definition identity_key :: "outbox_lib \<Rightarrow> dispatch_identity \<Rightarrow> outbox_error + string" where
  "identity_key B i = (if identity_ok i then Ok (''sirius-'' @ identity_digest B i) else Err Invalid)"

definition failure_code_ok :: "string \<Rightarrow> bool" where
  "failure_code_ok code \<longleftrightarrow>
     code \<noteq> [] \<and> length code \<le> 64 \<and> list_all (\<lambda>b. ascii_lower b \<or> b = CHR ''_'') code"

fun valid_state :: "outbox_lib \<Rightarrow> dispatch_state \<Rightarrow> bool" where
  "valid_state B Pending = True"
| "valid_state B (Sending t) = True"
| "valid_state B (Submitted j) = uuid_ok B j"
| "valid_state B (Completed j d p) =
     (uuid_ok B j \<and> digest_ok d \<and> (case p of None \<Rightarrow> True | Some v \<Rightarrow> uuid_ok B v))"
| "valid_state B (Failed j code) =
     ((case j of None \<Rightarrow> True | Some v \<Rightarrow> uuid_ok B v) \<and> failure_code_ok code)"

definition valid_key :: "string \<Rightarrow> bool" where
  "valid_key key \<longleftrightarrow> length key = 71 \<and> starts_with key ''sirius-'' \<and> digest_ok (drop 7 key)"

fun is_completed :: "dispatch_state \<Rightarrow> bool" where
  "is_completed (Completed _ _ _) = True"
| "is_completed _ = False"

fun terminal :: "dispatch_state \<Rightarrow> bool" where
  "terminal (Completed _ _ _) = True"
| "terminal (Failed _ _) = True"
| "terminal _ = False"

fun completed_as :: "string \<Rightarrow> dispatch_state \<Rightarrow> bool" where
  "completed_as job (Completed j _ _) = (j = job)"
| "completed_as job _ = False"

lemma completed_as_iff: "completed_as job s \<longleftrightarrow> (\<exists>d p. s = Completed job d p)"
  by (cases s) auto

subsection \<open>Operations\<close>

definition outbox_commit :: "bool \<Rightarrow> ledger \<Rightarrow> outbox \<Rightarrow> (outbox_error + unit) \<times> outbox" where
  "outbox_commit write_ok l b =
     (if write_ok then (Ok (), b\<lparr>ox_file := l, ox_ledger := l\<rparr>) else (Err Storage, b))"

definition ledger_ok :: "outbox_lib \<Rightarrow> nat \<Rightarrow> ledger \<Rightarrow> bool" where
  \<comment> \<open>the checks of \<open>open\<close> on the ledger it read\<close>
  "ledger_ok B capacity l \<longleftrightarrow>
     le_schema_version l = 1 \<and> length (le_entries l) \<le> capacity \<and>
     (case le_cursor l of None \<Rightarrow> True | Some k \<Rightarrow> bt_get (le_entries l) k \<noteq> None) \<and>
     list_all (\<lambda>(k, e). identity_key B (de_identity e) = Ok k \<and> valid_state B (de_state e)) (le_entries l)"

definition empty_ledger :: ledger where
  "empty_ledger = \<lparr>le_schema_version = 1, le_cursor = None, le_entries = []\<rparr>"

definition outbox_open ::
  "outbox_lib \<Rightarrow> bool \<Rightarrow> bool \<Rightarrow> nat \<Rightarrow> outbox_error + ledger option \<Rightarrow> (string \<Rightarrow> dispatch_entry option)
   \<Rightarrow> outbox_error + outbox" where
  \<comment> \<open>\<open>owned\<close>: another process holds the lock; \<open>read\<close>: the ledger file, absent, or unreadable\<close>
  "outbox_open B owned write_ok capacity read archive =
     (if \<not> (1 \<le> capacity \<and> capacity \<le> 100000) then Err Invalid
      else if owned then Err Locked
      else then_result read (\<lambda>file.
        let l = (case file of None \<Rightarrow> empty_ledger | Some l \<Rightarrow> l)
        in if \<not> ledger_ok B capacity l then Err Storage
           else (case outbox_commit write_ok l
                        \<lparr>ox_ledger = l, ox_file = l, ox_archive = archive, ox_capacity = capacity\<rparr> of
                   (Inl e, _) \<Rightarrow> Err e
                 | (Inr _, b) \<Rightarrow> Ok b)))"

definition outbox_archived :: "outbox_lib \<Rightarrow> string \<Rightarrow> outbox \<Rightarrow> outbox_error + dispatch_entry option" where
  "outbox_archived B key b =
     (if \<not> valid_key key then Err Invalid
      else case ox_archive b key of
             None \<Rightarrow> Ok None
           | Some e \<Rightarrow>
               if identity_key B (de_identity e) \<noteq> Ok key \<or> \<not> valid_state B (de_state e)
                  \<or> \<not> is_completed (de_state e)
               then Err Storage else Ok (Some e))"

definition archive_completed ::
  "outbox_lib \<Rightarrow> bool \<Rightarrow> bool \<Rightarrow> bool \<Rightarrow> string \<Rightarrow> string \<Rightarrow> outbox \<Rightarrow> (outbox_error + dispatch_entry) \<times> outbox" where
  \<comment> \<open>\<open>archive_ok\<close>: the missing archive file could be written; \<open>sync_ok\<close>: and synchronized\<close>
  "archive_completed B archive_ok sync_ok write_ok key job b =
     (if \<not> valid_key key \<or> \<not> uuid_ok B job then (Err Invalid, b)
      else case outbox_archived B key b of
        Inl e \<Rightarrow> (Err e, b)
      | Inr old \<Rightarrow>
          (case (case bt_get (le_entries (ox_ledger b)) key of Some e \<Rightarrow> Some e | None \<Rightarrow> old) of
             None \<Rightarrow> (Err Invalid, b)
           | Some entry \<Rightarrow>
               if \<not> completed_as job (de_state entry) then (Err Invalid, b)
               else if old \<noteq> None \<and> old \<noteq> Some entry then (Err Storage, b)
               else if old = None \<and> \<not> archive_ok then (Err Storage, b)
               else
                 let b1 = b\<lparr>ox_archive := (ox_archive b)(key \<mapsto> entry)\<rparr>
                 in if \<not> sync_ok then (Err Storage, b1)
                    else if bt_get (le_entries (ox_ledger b1)) key = None then (Ok entry, b1)
                    else
                      let l = ox_ledger b1;
                          l1 = l\<lparr>le_entries := bt_remove key (le_entries l),
                                 le_cursor := (if le_cursor l = Some key then None else le_cursor l)\<rparr>
                      in (case outbox_commit write_ok l1 b1 of
                            (Inl e, b2) \<Rightarrow> (Err e, b2)
                          | (Inr _, b2) \<Rightarrow> (Ok entry, b2))))"

definition batch_of :: "nat \<Rightarrow> ledger \<Rightarrow> (string \<times> dispatch_entry) list" where
  "batch_of limit l =
     (let after = filter (\<lambda>(k, e). case le_cursor l of None \<Rightarrow> True | Some c \<Rightarrow> c < k) (le_entries l);
          before = filter (\<lambda>(k, e). case le_cursor l of None \<Rightarrow> False | Some c \<Rightarrow> k \<le> c) (le_entries l)
      in take limit (filter (\<lambda>(k, e). \<not> terminal (de_state e)) (after @ before)))"

definition next_batch ::
  "bool \<Rightarrow> nat \<Rightarrow> outbox \<Rightarrow> (outbox_error + (string \<times> dispatch_entry) list) \<times> outbox" where
  "next_batch write_ok limit b =
     (if \<not> (1 \<le> limit \<and> limit \<le> 256) then (Err Invalid, b)
      else
        let batch = batch_of limit (ox_ledger b)
        in if batch = [] then (Ok [], b)
           else (case outbox_commit write_ok ((ox_ledger b)\<lparr>le_cursor := Some (fst (last batch))\<rparr>) b of
                   (Inl e, b1) \<Rightarrow> (Err e, b1)
                 | (Inr _, b1) \<Rightarrow> (Ok batch, b1)))"

definition outbox_observe ::
  "outbox_lib \<Rightarrow> bool \<Rightarrow> dispatch_identity \<Rightarrow> outbox \<Rightarrow> (outbox_error + string) \<times> outbox" where
  "outbox_observe B write_ok i b =
     (case identity_key B i of
        Inl e \<Rightarrow> (Err e, b)
      | Inr key \<Rightarrow>
          if bt_get (le_entries (ox_ledger b)) key \<noteq> None then (Ok key, b)
          else (case outbox_archived B key b of
            Inl e \<Rightarrow> (Err e, b)
          | Inr old \<Rightarrow>
              if old \<noteq> None then (Ok key, b)
              else if ox_capacity b \<le> length (le_entries (ox_ledger b)) then (Err Full, b)
              else
                let l = ox_ledger b;
                    l1 = l\<lparr>le_entries :=
                            bt_insert key \<lparr>de_identity = i, de_state = Pending\<rparr> (le_entries l)\<rparr>
                in (case outbox_commit write_ok l1 b of
                      (Inl e, b1) \<Rightarrow> (Err e, b1)
                    | (Inr _, b1) \<Rightarrow> (Ok key, b1))))"

definition outbox_change ::
  "bool \<Rightarrow> string \<Rightarrow> (dispatch_state \<Rightarrow> outbox_error + dispatch_state) \<Rightarrow> outbox
   \<Rightarrow> (outbox_error + unit) \<times> outbox" where
  "outbox_change write_ok key f b =
     (case bt_get (le_entries (ox_ledger b)) key of
        None \<Rightarrow> (Err Invalid, b)
      | Some e \<Rightarrow>
          (case f (de_state e) of
             Inl err \<Rightarrow> (Err err, b)
           | Inr st \<Rightarrow>
               outbox_commit write_ok
                 ((ox_ledger b)\<lparr>le_entries :=
                    bt_insert key (e\<lparr>de_state := st\<rparr>) (le_entries (ox_ledger b))\<rparr>) b))"

fun begin_send_state :: "instant \<Rightarrow> dispatch_state \<Rightarrow> outbox_error + dispatch_state" where
  "begin_send_state now Pending = Ok (Sending now)"
| "begin_send_state now (Sending t) = Ok (Sending t)"
| "begin_send_state now _ = Err Invalid"

fun refused_state :: "dispatch_state \<Rightarrow> outbox_error + dispatch_state" where
  "refused_state (Sending t) = Ok Pending"
| "refused_state _ = Err Invalid"

fun acknowledge_state :: "string \<Rightarrow> dispatch_state \<Rightarrow> outbox_error + dispatch_state" where
  "acknowledge_state j (Sending t) = Ok (Submitted j)"
| "acknowledge_state j (Submitted i) = (if i = j then Ok (Submitted i) else Err Invalid)"
| "acknowledge_state j _ = Err Invalid"

definition adoptable_codes :: "string list" where
  "adoptable_codes = [''submission_ambiguous'', ''invalid_job_response'']"

fun adopt_state :: "string \<Rightarrow> dispatch_state \<Rightarrow> outbox_error + dispatch_state" where
  "adopt_state j (Sending t) = Ok (Submitted j)"
| "adopt_state j (Failed None code) =
     (if code \<in> set adoptable_codes then Ok (Submitted j) else Err Invalid)"
| "adopt_state j (Submitted i) = (if i = j then Ok (Submitted i) else Err Invalid)"
| "adopt_state j _ = Err Invalid"

fun complete_state :: "string \<Rightarrow> string \<Rightarrow> string option \<Rightarrow> dispatch_state \<Rightarrow> outbox_error + dispatch_state" where
  "complete_state j d p (Submitted i) = (if i = j then Ok (Completed j d p) else Err Invalid)"
| "complete_state j d p s = (if s = Completed j d p then Ok s else Err Invalid)"

fun fail_state :: "string \<Rightarrow> dispatch_state \<Rightarrow> outbox_error + dispatch_state" where
  "fail_state code Pending = Ok (Failed None code)"
| "fail_state code (Sending t) = Ok (Failed None code)"
| "fail_state code (Submitted j) = Ok (Failed (Some j) code)"
| "fail_state code _ = Err Invalid"

definition begin_send :: "bool \<Rightarrow> instant \<Rightarrow> string \<Rightarrow> outbox \<Rightarrow> (outbox_error + unit) \<times> outbox" where
  "begin_send w now key = outbox_change w key (begin_send_state now)"

definition outbox_refused :: "bool \<Rightarrow> string \<Rightarrow> outbox \<Rightarrow> (outbox_error + unit) \<times> outbox" where
  "outbox_refused w key = outbox_change w key refused_state"

definition acknowledge :: "outbox_lib \<Rightarrow> bool \<Rightarrow> string \<Rightarrow> string \<Rightarrow> outbox \<Rightarrow> (outbox_error + unit) \<times> outbox" where
  "acknowledge B w key j b =
     (if \<not> uuid_ok B j then (Err Invalid, b) else outbox_change w key (acknowledge_state j) b)"

definition adopt :: "outbox_lib \<Rightarrow> bool \<Rightarrow> string \<Rightarrow> string \<Rightarrow> outbox \<Rightarrow> (outbox_error + unit) \<times> outbox" where
  "adopt B w key j b =
     (if \<not> uuid_ok B j then (Err Invalid, b) else outbox_change w key (adopt_state j) b)"

definition complete ::
  "outbox_lib \<Rightarrow> bool \<Rightarrow> string \<Rightarrow> string \<Rightarrow> string \<Rightarrow> string option \<Rightarrow> outbox \<Rightarrow> (outbox_error + unit) \<times> outbox" where
  "complete B w key j d p b =
     (if \<not> digest_ok d \<or> (case p of None \<Rightarrow> False | Some v \<Rightarrow> \<not> uuid_ok B v) then (Err Invalid, b)
      else outbox_change w key (complete_state j d p) b)"

definition outbox_fail :: "bool \<Rightarrow> string \<Rightarrow> string \<Rightarrow> outbox \<Rightarrow> (outbox_error + unit) \<times> outbox" where
  "outbox_fail w key code b =
     (if \<not> failure_code_ok code then (Err Invalid, b) else outbox_change w key (fail_state code) b)"

subsection \<open>The state of an identity\<close>

definition key_status :: "outbox \<Rightarrow> string \<Rightarrow> dispatch_state option" where
  \<comment> \<open>what is known of a key: its working entry, or its archived completion\<close>
  "key_status b key =
     (case bt_get (le_entries (ox_ledger b)) key of
        Some e \<Rightarrow> Some (de_state e)
      | None \<Rightarrow> map_option de_state (ox_archive b key))"

definition outbox_inv :: "outbox_lib \<Rightarrow> outbox \<Rightarrow> bool" where
  "outbox_inv B b \<longleftrightarrow>
     ox_file b = ox_ledger b \<and> bt_wf (le_entries (ox_ledger b)) \<and>
     ledger_ok B (ox_capacity b) (ox_ledger b) \<and>
     (\<forall>k e. ox_archive b k = Some e \<longrightarrow> is_completed (de_state e) \<and>
        (\<forall>e'. bt_get (le_entries (ox_ledger b)) k = Some e' \<longrightarrow> e' = e))"

text \<open>The life of an identity. Only a definite busy answer returns it to \<open>Pending\<close>: the flag says
  whether such a step is meant.\<close>

inductive state_step :: "bool \<Rightarrow> dispatch_state option \<Rightarrow> dispatch_state option \<Rightarrow> bool" for busy_allowed where
  same: "state_step busy_allowed s s"
| observed: "state_step busy_allowed None (Some Pending)"
| sending: "state_step busy_allowed (Some Pending) (Some (Sending t))"
| busy: "busy_allowed \<Longrightarrow> state_step busy_allowed (Some (Sending t)) (Some Pending)"
| accepted: "state_step busy_allowed (Some (Sending t)) (Some (Submitted j))"
| finished: "state_step busy_allowed (Some (Submitted j)) (Some (Completed j d p))"
| failed_unsent: "s = Pending \<or> s = Sending t \<Longrightarrow> state_step busy_allowed (Some s) (Some (Failed None code))"
| failed_job: "state_step busy_allowed (Some (Submitted j)) (Some (Failed (Some j) code))"
| adopted: "code \<in> set adoptable_codes \<Longrightarrow> state_step busy_allowed (Some (Failed None code)) (Some (Submitted j))"

inductive_cases state_step_completed: "state_step r (Some (Completed j d p)) s"

definition transition_ok ::
  "outbox_lib \<Rightarrow> bool \<Rightarrow> (dispatch_state \<Rightarrow> outbox_error + dispatch_state) \<Rightarrow> bool" where
  "transition_ok B c f \<longleftrightarrow>
     (\<forall>s s'. f s = Ok s' \<longrightarrow> state_step c (Some s) (Some s') \<and> (valid_state B s \<longrightarrow> valid_state B s'))"

lemma transitions_ok:
  "transition_ok B c (begin_send_state now)" "transition_ok B True refused_state"
  "uuid_ok B j \<Longrightarrow> transition_ok B c (acknowledge_state j)"
  "uuid_ok B j \<Longrightarrow> transition_ok B c (adopt_state j)"
  "digest_ok d \<Longrightarrow> (\<forall>v. p = Some v \<longrightarrow> uuid_ok B v) \<Longrightarrow> transition_ok B c (complete_state j d p)"
  "failure_code_ok code \<Longrightarrow> transition_ok B c (fail_state code)"
  unfolding transition_ok_def
  by (auto intro: state_step.intros split: if_splits option.splits
      elim!: begin_send_state.elims refused_state.elims acknowledge_state.elims adopt_state.elims
        complete_state.elims fail_state.elims)

lemma ledger_ok_mem:
  "ledger_ok B n l \<Longrightarrow> bt_wf (le_entries l) \<Longrightarrow> bt_get (le_entries l) k = Some e \<Longrightarrow>
   identity_key B (de_identity e) = Ok k \<and> valid_state B (de_state e)"
  by (auto simp: ledger_ok_def list_all_iff bt_get_mem)

lemma ledger_ok_update:
  assumes "ledger_ok B n l" "bt_wf (le_entries l)" "bt_get (le_entries l) key = Some e"
    and "de_identity e' = de_identity e" "valid_state B (de_state e')"
  shows "ledger_ok B n (l\<lparr>le_entries := bt_insert key e' (le_entries l)\<rparr>)"
proof -
  have "identity_key B (de_identity e') = Ok key"
    using ledger_ok_mem [OF assms(1-3)] assms(4) by simp
  moreover have "length (bt_insert key e' (le_entries l)) = length (le_entries l)"
    using assms(2,3) by (rule length_bt_insert_present)
  ultimately show ?thesis
    using assms(1,2,5)
    by (auto simp: ledger_ok_def list_all_iff set_bt_insert bt_simps split: option.splits)
qed

definition ledger_set :: "string \<Rightarrow> dispatch_entry \<Rightarrow> outbox \<Rightarrow> outbox" where
  \<comment> \<open>the outbox after a committed insertion\<close>
  "ledger_set key e b =
     (let l = (ox_ledger b)\<lparr>le_entries := bt_insert key e (le_entries (ox_ledger b))\<rparr>
      in b\<lparr>ox_file := l, ox_ledger := l\<rparr>)"

lemma outbox_change_cases:
  assumes "outbox_change w key f b = (r, b')"
  shows "b' = b \<and> r \<noteq> Ok () \<or>
    (\<exists>e st. bt_get (le_entries (ox_ledger b)) key = Some e \<and> f (de_state e) = Ok st \<and> r = Ok () \<and>
      b' = ledger_set key (e\<lparr>de_state := st\<rparr>) b)"
  using assms
  by (auto simp: outbox_change_def outbox_commit_def ledger_set_def Let_def
      split: option.splits sum.splits if_splits)

lemma key_status_ledger_set:
  "bt_wf (le_entries (ox_ledger b)) \<Longrightarrow>
   key_status (ledger_set key e b) k = (if k = key then Some (de_state e) else key_status b k)"
  by (simp add: key_status_def ledger_set_def bt_simps Let_def split: option.splits)

lemma key_status_cong:
  "le_entries (ox_ledger b') = le_entries (ox_ledger b) \<Longrightarrow> ox_archive b' = ox_archive b \<Longrightarrow>
   key_status b' k = key_status b k"
  by (simp add: key_status_def split: option.splits)

lemma ledger_set_simps [simp]:
  "ox_archive (ledger_set key e b) = ox_archive b" "ox_capacity (ledger_set key e b) = ox_capacity b"
  "ox_file (ledger_set key e b) = ox_ledger (ledger_set key e b)"
  "ox_ledger (ledger_set key e b) = (ox_ledger b)\<lparr>le_entries := bt_insert key e (le_entries (ox_ledger b))\<rparr>"
  by (simp_all add: ledger_set_def Let_def)

lemma outbox_inv_wf: "outbox_inv B b \<Longrightarrow> bt_wf (le_entries (ox_ledger b))"
  by (simp add: outbox_inv_def)

lemma outbox_inv_set:
  assumes "outbox_inv B b" "bt_get (le_entries (ox_ledger b)) key = Some e"
    and "state_step c (Some (de_state e)) (Some st)" "valid_state B st"
  shows "outbox_inv B (ledger_set key (e\<lparr>de_state := st\<rparr>) b)"
proof -
  note wf = outbox_inv_wf [OF assms(1)]
  have lo: "ledger_ok B (ox_capacity b) (ox_ledger b)" using assms(1) by (simp add: outbox_inv_def)
  have "ledger_ok B (ox_capacity b) ((ox_ledger b)\<lparr>le_entries :=
      bt_insert key (e\<lparr>de_state := st\<rparr>) (le_entries (ox_ledger b))\<rparr>)"
    using assms(4) by (intro ledger_ok_update [OF lo wf assms(2)]) simp_all
  moreover have "e\<lparr>de_state := st\<rparr> = a" if "ox_archive b key = Some a" for a
  proof -
    have a: "a = e" "is_completed (de_state a)" using that assms(1,2) by (auto simp: outbox_inv_def)
    then obtain j d p where "de_state e = Completed j d p" by (auto elim: is_completed.elims)
    with assms(3) have "st = de_state e" by (auto elim: state_step_completed)
    with a show ?thesis by simp
  qed
  ultimately show ?thesis
    using assms(1) wf by (auto simp: outbox_inv_def ledger_set_def Let_def bt_simps)
qed

lemma outbox_change_ok:
  assumes "outbox_inv B b" "transition_ok B c f" "outbox_change w key f b = (r, b')"
  shows "outbox_inv B b' \<and> state_step c (key_status b k) (key_status b' k) \<and> ox_archive b' = ox_archive b"
proof -
  from outbox_change_cases [OF assms(3)] show ?thesis
  proof (elim disjE exE conjE)
    fix e st assume e: "bt_get (le_entries (ox_ledger b)) key = Some e" and f: "f (de_state e) = Ok st"
      and b': "b' = ledger_set key (e\<lparr>de_state := st\<rparr>) b"
    have lo: "ledger_ok B (ox_capacity b) (ox_ledger b)" using assms(1) by (simp add: outbox_inv_def)
    have st: "state_step c (Some (de_state e)) (Some st)" "valid_state B st"
      using f assms(2) ledger_ok_mem [OF lo outbox_inv_wf [OF assms(1)] e] by (auto simp: transition_ok_def)
    have "key_status b key = Some (de_state e)" using e by (simp add: key_status_def)
    then show ?thesis
      using outbox_inv_set [OF assms(1) e st] st(1) outbox_inv_wf [OF assms(1)]
      by (auto simp: b' key_status_ledger_set intro: state_step.same)
  qed (use assms(1) in \<open>auto intro: state_step.same\<close>)
qed

text \<open>The operations on the ledger, and a restart that loads what is on disk.\<close>

inductive outbox_step :: "outbox_lib \<Rightarrow> outbox \<Rightarrow> outbox \<Rightarrow> bool" for B where
  observe: "outbox_observe B w i b = (r, b') \<Longrightarrow> outbox_step B b b'"
| send_begins: "begin_send w now key b = (r, b') \<Longrightarrow> outbox_step B b b'"
| refuse: "outbox_refused w key b = (r, b') \<Longrightarrow> outbox_step B b b'"
| ack: "acknowledge B w key j b = (r, b') \<Longrightarrow> outbox_step B b b'"
| adopting: "adopt B w key j b = (r, b') \<Longrightarrow> outbox_step B b b'"
| completing: "complete B w key j d p b = (r, b') \<Longrightarrow> outbox_step B b b'"
| failing: "outbox_fail w key code b = (r, b') \<Longrightarrow> outbox_step B b b'"
| batch: "next_batch w limit b = (r, b') \<Longrightarrow> outbox_step B b b'"
| archive: "archive_completed B aw sw w key j b = (r, b') \<Longrightarrow> outbox_step B b b'"
| restart: "outbox_open B False w capacity (Ok (Some (ox_file b))) (ox_archive b) = Ok b' \<Longrightarrow> outbox_step B b b'"

definition step_ok :: "outbox_lib \<Rightarrow> bool \<Rightarrow> outbox \<Rightarrow> outbox \<Rightarrow> bool" where
  "step_ok B c b b' \<longleftrightarrow> outbox_inv B b' \<and> (\<forall>k. state_step c (key_status b k) (key_status b' k))"

lemma step_ok_refl: "outbox_inv B b \<Longrightarrow> step_ok B c b b"
  by (simp add: step_ok_def state_step.same)

lemma step_ok_change:
  "outbox_inv B b \<Longrightarrow> transition_ok B c f \<Longrightarrow> outbox_change w key f b = (r, b') \<Longrightarrow> step_ok B c b b'"
  using outbox_change_ok by (simp add: step_ok_def)

lemma step_ok_observe:
  assumes "outbox_inv B b" "outbox_observe B w i b = (r, b')"
  shows "step_ok B c b b'"
proof (cases "b' = b")
  case False
  note wf = outbox_inv_wf [OF assms(1)]
  obtain key where key: "identity_key B i = Ok key" and absent: "bt_get (le_entries (ox_ledger b)) key = None"
    and arch: "outbox_archived B key b = Ok None" and room: "length (le_entries (ox_ledger b)) < ox_capacity b"
    and b': "b' = ledger_set key \<lparr>de_identity = i, de_state = Pending\<rparr> b"
    using assms(2) False
    by (auto simp: outbox_observe_def outbox_commit_def ledger_set_def Let_def not_le
        split: sum.splits if_splits option.splits)
  have noarch: "ox_archive b key = None"
    using arch by (auto simp: outbox_archived_def split: if_splits option.splits)
  have "key_status b key = None" by (simp add: key_status_def absent noarch)
  moreover have "ledger_ok B (ox_capacity b) ((ox_ledger b)\<lparr>le_entries :=
      bt_insert key \<lparr>de_identity = i, de_state = Pending\<rparr> (le_entries (ox_ledger b))\<rparr>)"
    using assms(1) key room absent wf
    by (auto simp: outbox_inv_def ledger_ok_def list_all_iff set_bt_insert length_bt_insert_absent bt_simps
        split: option.splits)
  ultimately show ?thesis
    using assms(1) wf noarch
    by (auto simp: step_ok_def outbox_inv_def b' key_status_ledger_set state_step.observed state_step.same
        bt_simps)
qed (use assms(1) step_ok_refl in simp)

lemma last_batch_mem: "batch_of n l \<noteq> [] \<Longrightarrow> last (batch_of n l) \<in> set (le_entries l)"
proof -
  assume "batch_of n l \<noteq> []"
  then have "last (batch_of n l) \<in> set (batch_of n l)" by simp
  then show ?thesis by (auto simp: batch_of_def Let_def dest: in_set_takeD)
qed

lemma step_ok_batch:
  assumes "outbox_inv B b" "next_batch w limit b = (r, b')"
  shows "step_ok B c b b'"
proof (cases "b' = b")
  case False
  let ?k = "fst (last (batch_of limit (ox_ledger b)))"
  let ?l = "(ox_ledger b)\<lparr>le_cursor := Some ?k\<rparr>"
  have ne: "batch_of limit (ox_ledger b) \<noteq> []" and b': "b' = b\<lparr>ox_file := ?l, ox_ledger := ?l\<rparr>"
    using assms(2) False by (auto simp: next_batch_def outbox_commit_def Let_def split: if_splits)
  have "(?k, snd (last (batch_of limit (ox_ledger b)))) \<in> set (le_entries (ox_ledger b))"
    using last_batch_mem [OF ne] by simp
  then have "bt_get (le_entries (ox_ledger b)) ?k = Some (snd (last (batch_of limit (ox_ledger b))))"
    using bt_get_mem [OF outbox_inv_wf [OF assms(1)]] by blast
  moreover have "key_status b' k = key_status b k" for k
    by (rule key_status_cong) (simp_all add: b')
  ultimately show ?thesis
    using assms(1) by (auto simp: step_ok_def outbox_inv_def b' ledger_ok_def state_step.same)
qed (use assms(1) step_ok_refl in simp)

lemma step_ok_archive:
  assumes "outbox_inv B b" "archive_completed B aw sw w key j b = (r, b')"
  shows "step_ok B c b b'"
proof (cases "b' = b")
  case False
  note wf = outbox_inv_wf [OF assms(1)]
  let ?get = "bt_get (le_entries (ox_ledger b))"
  obtain old entry where old: "outbox_archived B key b = Ok old"
    and pick: "(case ?get key of Some e \<Rightarrow> Some e | None \<Rightarrow> old) = Some entry"
    and comp: "\<exists>d p. de_state entry = Completed j d p" and same: "old = None \<or> old = Some entry"
    using assms(2) False
    by (auto simp: archive_completed_def completed_as_iff split: if_splits sum.splits option.splits)
  let ?b1 = "b\<lparr>ox_archive := (ox_archive b)(key \<mapsto> entry)\<rparr>"
  let ?l = "(ox_ledger b)\<lparr>le_entries := bt_remove key (le_entries (ox_ledger b)),
      le_cursor := (if le_cursor (ox_ledger b) = Some key then None else le_cursor (ox_ledger b))\<rparr>"
  have b': "b' = ?b1 \<or> ?get key = Some entry \<and> b' = ?b1\<lparr>ox_file := ?l, ox_ledger := ?l\<rparr>"
    using assms(2) False old pick comp same
    by (auto simp: archive_completed_def completed_as_iff outbox_commit_def Let_def split: if_splits option.splits)
  have status: "key_status b key = Some (de_state entry)"
    using pick old by (auto simp: key_status_def outbox_archived_def split: option.splits if_splits)
  have cur: "\<And>e. ?get key = Some e \<Longrightarrow> e = entry" using pick by simp
  have i1: "outbox_inv B ?b1" using assms(1) comp cur by (auto simp: outbox_inv_def)
  have s1: "key_status ?b1 k = key_status b k" for k
    using status pick by (auto simp: key_status_def split: option.splits)
  from b' show ?thesis
  proof
    assume "b' = ?b1"
    then show ?thesis using i1 s1 by (simp add: step_ok_def state_step.same)
  next
    assume *: "?get key = Some entry \<and> b' = ?b1\<lparr>ox_file := ?l, ox_ledger := ?l\<rparr>"
    have "key_status b' k = key_status b k" for k
      using * status wf by (auto simp: key_status_def bt_simps split: option.splits)
    moreover have "outbox_inv B b'"
      using i1 wf * length_bt_remove [of "le_entries (ox_ledger b)" key]
      by (auto simp: outbox_inv_def ledger_ok_def list_all_iff set_bt_remove bt_simps
          split: option.splits if_splits)
    ultimately show ?thesis by (simp add: step_ok_def state_step.same)
  qed
qed (use assms(1) step_ok_refl in simp)

lemma step_ok_restart:
  assumes "outbox_inv B b" "outbox_open B False w capacity (Ok (Some (ox_file b))) (ox_archive b) = Ok b'"
  shows "step_ok B c b b'"
proof -
  have "ledger_ok B capacity (ox_ledger b)" "b' = b\<lparr>ox_capacity := capacity\<rparr>"
    using assms by (auto simp: outbox_open_def outbox_commit_def outbox_inv_def Let_def split: if_splits)
  moreover from this have "key_status b' k = key_status b k" for k
    by (intro key_status_cong) simp_all
  ultimately show ?thesis
    using assms(1) by (simp add: step_ok_def outbox_inv_def state_step.same)
qed

lemma outbox_step_ok: "outbox_step B b b' \<Longrightarrow> outbox_inv B b \<Longrightarrow> step_ok B True b b'"
proof (induction rule: outbox_step.induct)
  case (ack w key j b r b')
  then show ?case using step_ok_refl step_ok_change [OF _ transitions_ok(3)]
    by (auto simp: acknowledge_def split: if_splits)
next
  case (adopting w key j b r b')
  then show ?case using step_ok_refl step_ok_change [OF _ transitions_ok(4)]
    by (auto simp: adopt_def split: if_splits)
next
  case (completing w key j d p b r b')
  show ?case
  proof (cases "digest_ok d \<and> (\<forall>v. p = Some v \<longrightarrow> uuid_ok B v)")
    case True
    then have "outbox_change w key (complete_state j d p) b = (r, b')"
      using completing.hyps by (auto simp: complete_def split: if_splits option.splits)
    with True completing.prems show ?thesis by (intro step_ok_change [OF _ transitions_ok(5)]) auto
  next
    case False
    then have "b' = b" using completing.hyps by (auto simp: complete_def split: if_splits option.splits)
    with completing.prems show ?thesis by (simp add: step_ok_refl)
  qed
next
  case (failing w key code b r b')
  then show ?case using step_ok_refl step_ok_change [OF _ transitions_ok(6)]
    by (auto simp: outbox_fail_def split: if_splits)
qed (auto simp: begin_send_def outbox_refused_def step_ok_observe step_ok_batch step_ok_archive step_ok_restart
  intro: step_ok_change [OF _ transitions_ok(1)] step_ok_change [OF _ transitions_ok(2)])

lemma outbox_steps_ok:
  "(outbox_step B)\<^sup>*\<^sup>* b b' \<Longrightarrow> outbox_inv B b \<Longrightarrow>
   outbox_inv B b' \<and> (\<forall>k. (state_step True)\<^sup>*\<^sup>* (key_status b k) (key_status b' k))"
proof (induction rule: rtranclp_induct)
  case (step y z)
  then have "outbox_inv B y" "\<forall>k. (state_step True)\<^sup>*\<^sup>* (key_status b k) (key_status y k)" by simp_all
  with outbox_step_ok [OF step.hyps(2)] show ?case
    by (auto simp: step_ok_def intro: rtranclp.rtrancl_into_rtrancl)
qed simp

subsection \<open>Properties\<close>

lemma completed_forever:
  "(state_step True)\<^sup>*\<^sup>* s t \<Longrightarrow> s = Some (Completed j d p) \<Longrightarrow> t = s"
  by (induction rule: rtranclp_induct) (auto elim: state_step_completed)

text \<open>C35: the ledger is always valid and on disk as it is in memory, a completed identity stays completed with the
  same job whatever operations and restarts follow, the archiving of its entry included, and
  observing it again never queues it again.\<close>

theorem completed_work_is_never_repeated:
  assumes "(outbox_step B)\<^sup>*\<^sup>* b b'" "outbox_inv B b" "key_status b key = Some (Completed j d p)"
  shows "key_status b' key = Some (Completed j d p) \<and> ox_file b' = ox_ledger b' \<and>
    ledger_ok B (ox_capacity b') (ox_ledger b') \<and>
    (identity_key B i = Ok key \<longrightarrow> key_status (snd (outbox_observe B w i b')) key = Some (Completed j d p))"
proof -
  from outbox_steps_ok [OF assms(1,2)]
  have inv: "outbox_inv B b'" and "(state_step True)\<^sup>*\<^sup>* (key_status b key) (key_status b' key)" by auto
  then have st: "key_status b' key = Some (Completed j d p)"
    using completed_forever assms(3) by metis
  have "step_ok B True b' (snd (outbox_observe B w i b'))"
    using step_ok_observe [OF inv] by (metis prod.collapse)
  then have "state_step True (Some (Completed j d p)) (key_status (snd (outbox_observe B w i b')) key)"
    using st unfolding step_ok_def by metis
  then have "key_status (snd (outbox_observe B w i b')) key = Some (Completed j d p)"
    by (auto elim: state_step_completed)
  with st inv show ?thesis by (simp add: outbox_inv_def)
qed

definition sample_lib :: outbox_lib where
  "sample_lib = \<lparr>identity_digest = (\<lambda>_. replicate 64 (CHR ''a'')), uuid_ok = (\<lambda>j. j = ''job'')\<rparr>"

definition sample_identity :: dispatch_identity where
  "sample_identity =
     \<lparr>di_destination_sha256 = replicate 64 (CHR ''b''),
      di_request = \<lparr>jr_region = Jp, jr_profile = ''full'', jr_operation = Update\<rparr>,
      di_profile_revision = ''r1'', di_environment = ''release'', di_platform = ''iOS'',
      di_resource_version = ''v1'', di_platform_hash = ''h1'', di_require_full_catalog = True,
      di_require_full_export = False, di_require_publication = False\<rparr>"

definition sample_key :: string where
  "sample_key = ''sirius-'' @ replicate 64 (CHR ''a'')"

definition sample_outbox :: "dispatch_state \<Rightarrow> outbox" where
  "sample_outbox st =
     (let l = \<lparr>le_schema_version = 1, le_cursor = None,
               le_entries = [(sample_key, \<lparr>de_identity = sample_identity, de_state = st\<rparr>)]\<rparr>
      in \<lparr>ox_ledger = l, ox_file = l, ox_archive = (\<lambda>_. None), ox_capacity = 2\<rparr>)"

lemma sample_identity_key: "identity_key sample_lib sample_identity = Ok sample_key"
  by (simp add: identity_key_def identity_ok_def digest_ok_def component_ok_def sample_identity_def
      sample_lib_def sample_key_def byte_defs list_all_iff)

lemma sample_outbox_inv: "valid_state sample_lib st \<Longrightarrow> outbox_inv sample_lib (sample_outbox st)"
  by (simp add: outbox_inv_def ledger_ok_def sample_outbox_def Let_def sample_identity_key bt_wf_def)

theorem completed_work_is_never_repeated_witness:
  "\<exists>b'. outbox_step sample_lib (sample_outbox (Completed ''job'' (replicate 64 (CHR ''c'')) None)) b' \<and>
     le_entries (ox_ledger b') = [] \<and>
     key_status b' sample_key = Some (Completed ''job'' (replicate 64 (CHR ''c'')) None) \<and>
     key_status (snd (outbox_observe sample_lib True sample_identity b')) sample_key =
       Some (Completed ''job'' (replicate 64 (CHR ''c'')) None)"
proof -
  let ?c = "Completed ''job'' (replicate 64 (CHR ''c'')) None" and ?b = "sample_outbox (Completed ''job'' (replicate 64 (CHR ''c'')) None)"
  let ?r = "archive_completed sample_lib True True True sample_key ''job'' ?b"
  have inv: "outbox_inv sample_lib ?b"
    by (rule sample_outbox_inv) (simp add: sample_lib_def digest_ok_def byte_defs list_all_iff)
  have st: "key_status ?b sample_key = Some ?c"
    by (simp add: key_status_def sample_outbox_def Let_def)
  have step: "outbox_step sample_lib ?b (snd ?r)"
    by (rule outbox_step.archive [where r = "fst ?r"]) simp
  have key: "valid_key sample_key" "uuid_ok sample_lib ''job''"
    by (simp_all add: valid_key_def sample_key_def starts_with_def digest_ok_def byte_defs list_all_iff sample_lib_def)
  have emptied: "le_entries (ox_ledger (snd ?r)) = []"
    by (simp add: archive_completed_def outbox_archived_def outbox_commit_def sample_outbox_def key Let_def)
  from completed_work_is_never_repeated [OF r_into_rtranclp, OF step inv st, of sample_identity True]
  show ?thesis using step emptied sample_identity_key by blast
qed

end
