(* ===== verification/Asset_Dispatch.thy ===== *)
theory Asset_Dispatch
  imports Asset_Outbox Peer
begin

section \<open>Dispatch of asset jobs (src/asset_jobs.rs, src/asset_dispatch.rs)\<close>

text \<open>
  The client of the asset updater's job contract and the worker that reconciles the dispatch
  ledger with it. A pass takes what the network and the disk do to each of its entries as an
  argument (\<open>pass_env\<close>): the HTTP answer, whether each ledger write succeeds, and whether the
  worker is stopped while the request is outstanding. Every step returns the submissions (POST
  requests) it made. Parameters (\<open>jobs_lib\<close>): UUID parsing, the digest of a key and the derived
  JSON deserialization of a job.
\<close>

subsection \<open>The job contract\<close>

datatype job_status = Queued | Running | Cancelling | JobCompleted | JobFailed | JobCancelled

record verification =
  vf_region :: region
  vf_platform :: string
  vf_environment :: string
  vf_resource_version :: string
  vf_platform_hash :: string
  vf_catalog_sha256 :: string
  vf_full_catalog :: bool
  vf_catalog_verified :: bool

record job_export =
  ex_full_export :: bool
  ex_retained :: bool
  ex_files :: nat
  ex_bytes :: nat

record job_outcome =
  oc_verification :: verification
  oc_export :: "job_export option"
  oc_publication_id :: "string option"

record job =
  jb_id :: string
  jb_request :: job_request
  jb_status :: job_status
  jb_idempotency_sha256 :: "string option"
  jb_outcome :: "job_outcome option"

datatype jobs_error = JobsConfig | JobsTransport | JobsStatus nat | JobsProtocol

record jobs_lib =
  uuid_parses :: "string \<Rightarrow> bool" \<comment> \<open>\<open>Uuid::parse_str\<close> succeeds, canonical or not\<close>
  key_sha256 :: "string \<Rightarrow> string" \<comment> \<open>hexadecimal SHA-256\<close>
  parse_job :: "string \<Rightarrow> job option"

definition validate_request :: "job_request \<Rightarrow> jobs_error + unit" where
  "validate_request r =
     (if jr_region r = Cn \<or> jr_profile r = [] \<or> 64 < length (jr_profile r) \<or>
         \<not> list_all (\<lambda>b. ascii_alphanumeric b \<or> b \<in> set ''-_'') (jr_profile r)
      then Err JobsConfig else Ok ())"

definition LIMIT :: nat where
  "LIMIT = 64 * 1024"

fun jobs_read :: "string \<Rightarrow> (send_error + string) list \<Rightarrow> jobs_error + string" where
  "jobs_read bytes [] = Ok bytes"
| "jobs_read bytes (Inl _ # cs) = Err JobsTransport"
| "jobs_read bytes (Inr chunk # cs) =
     (if LIMIT - length bytes < length chunk then Err JobsProtocol else jobs_read (bytes @ chunk) cs)"

definition outcome_acceptable :: "jobs_lib \<Rightarrow> job_request \<Rightarrow> job_outcome \<Rightarrow> bool" where
  "outcome_acceptable J r o' \<longleftrightarrow>
     (let v = oc_verification o'
      in vf_region v = jr_region r \<and> vf_catalog_verified v \<and>
         (vf_platform v = ''iOS'' \<or> vf_platform v = ''Android'') \<and>
         component_ok (vf_environment v) \<and> component_ok (vf_resource_version v) \<and>
         component_ok (vf_platform_hash v) \<and>
         length (vf_catalog_sha256 v) = 64 \<and> list_all lower_hexdigit (vf_catalog_sha256 v) \<and>
         (case oc_publication_id o' of None \<Rightarrow> True | Some i \<Rightarrow> uuid_parses J i) \<and>
         \<not> (oc_publication_id o' \<noteq> None \<and> oc_export o' = None))"

definition job_acceptable :: "jobs_lib \<Rightarrow> job_request \<Rightarrow> job \<Rightarrow> bool" where
  "job_acceptable J r j \<longleftrightarrow>
     jb_request j = r \<and> uuid_parses J (jb_id j) \<and>
     \<not> (jb_status j \<noteq> JobCompleted \<and> jb_outcome j \<noteq> None) \<and>
     (case jb_outcome j of None \<Rightarrow> True | Some o' \<Rightarrow> outcome_acceptable J r o')"

definition jobs_send :: "jobs_lib \<Rightarrow> nat \<Rightarrow> job_request \<Rightarrow> send_error + http_answer \<Rightarrow> jobs_error + job" where
  "jobs_send J expected r http =
     (case http of
        Inl _ \<Rightarrow> Err JobsTransport
      | Inr a \<Rightarrow>
          if ha_status a \<noteq> expected then Err (JobsStatus (ha_status a))
          else if (case ha_content_length a of None \<Rightarrow> False | Some n \<Rightarrow> LIMIT < n) then Err JobsProtocol
          else then_result (jobs_read [] (ha_chunks a)) (\<lambda>bytes.
            (case parse_job J bytes of
               None \<Rightarrow> Err JobsProtocol
             | Some j \<Rightarrow> if job_acceptable J r j then Ok j else Err JobsProtocol)))"

definition idempotency_key_ok :: "string \<Rightarrow> bool" where
  "idempotency_key_ok key \<longleftrightarrow>
     key \<noteq> [] \<and> length key \<le> 128 \<and>
     list_all (\<lambda>b. ascii_alphanumeric b \<or> b \<in> set ''-_.:'') key"

definition submit :: "jobs_lib \<Rightarrow> job_request \<Rightarrow> string \<Rightarrow> send_error + http_answer \<Rightarrow> jobs_error + job" where
  "submit J r key http =
     then_result (validate_request r) (\<lambda>_.
       if \<not> idempotency_key_ok key then Err JobsConfig
       else then_result (jobs_send J 202 r http) (\<lambda>j.
         if jb_idempotency_sha256 j \<noteq> Some (key_sha256 J key) then Err JobsProtocol else Ok j))"

definition jobs_get ::
  "jobs_lib \<Rightarrow> outbox_lib \<Rightarrow> string \<Rightarrow> job_request \<Rightarrow> send_error + http_answer \<Rightarrow> jobs_error + job" where
  "jobs_get J B i r http =
     then_result (validate_request r) (\<lambda>_.
       if \<not> uuid_ok B i then Err JobsConfig
       else then_result (jobs_send J 200 r http) (\<lambda>j.
         if jb_id j \<noteq> i then Err JobsProtocol else Ok j))"

definition submits :: "job_request \<Rightarrow> string \<Rightarrow> bool" where
  \<comment> \<open>whether \<open>submit\<close> gets as far as sending its POST\<close>
  "submits r key \<longleftrightarrow> is_ok (validate_request r) \<and> idempotency_key_ok key"

subsection \<open>The worker\<close>

record remote =
  rm_digest :: string \<comment> \<open>SHA-256 of the target's origin\<close>
  rm_profile :: string
  rm_profile_revision :: string
  rm_require_full_catalog :: bool
  rm_require_full_export :: bool
  rm_require_publication :: bool

record dispatch_snapshot =
  sn_region :: region
  sn_environment :: string
  sn_platform :: string
  sn_resource_version :: string
  sn_platform_hash :: string

record worker =
  wk_region :: region
  wk_environment :: string
  wk_platform :: string
  wk_outbox :: outbox
  wk_refusals :: "string \<rightharpoonup> nat"
  wk_transport_errors :: nat

record pass_env =
  pe_now :: instant
  pe_begin_ok :: bool \<comment> \<open>the write of \<open>sending\<close> succeeds\<close>
  pe_ack_ok :: bool \<comment> \<open>the write of the acknowledged job succeeds\<close>
  pe_write_ok :: bool \<comment> \<open>the write of the final state succeeds\<close>
  pe_http :: "send_error + http_answer"
  pe_stopped :: bool \<comment> \<open>the worker is stopped while the request is outstanding\<close>

datatype pass_result = PassOk | PassFailed outbox_error | PassStopped

type_synonym posts = "(string \<times> pass_env) list"

definition MAX_REFUSALS :: nat where
  "MAX_REFUSALS = 10"

definition rejected_submission :: "nat \<Rightarrow> string option" where
  "rejected_submission status =
     (if status \<in> {400, 404, 405, 413, 415, 422} then Some ''submission_rejected''
      else if status \<in> {401, 403} then Some ''submission_unauthorized''
      else if status = 409 then Some ''idempotency_conflict''
      else None)"

definition busy_status :: "nat \<Rightarrow> bool" where
  "busy_status status \<longleftrightarrow> status = 429 \<or> status = 503"

definition matches_outcome :: "dispatch_identity \<Rightarrow> job_outcome \<Rightarrow> bool" where
  "matches_outcome i o' \<longleftrightarrow>
     (let v = oc_verification o'
      in vf_region v = jr_region (di_request i) \<and> vf_environment v = di_environment i \<and>
         vf_platform v = di_platform i \<and> vf_resource_version v = di_resource_version i \<and>
         vf_platform_hash v = di_platform_hash i \<and> vf_catalog_verified v \<and>
         (\<not> di_require_full_catalog i \<or> vf_full_catalog v) \<and>
         (\<not> di_require_full_export i \<or>
            (case oc_export o' of
               None \<Rightarrow> False
             | Some e \<Rightarrow> ex_full_export e \<and> (ex_retained e \<or> oc_publication_id o' \<noteq> None))) \<and>
         (\<not> di_require_publication i \<or> oc_publication_id o' \<noteq> None))"

definition pass_of :: "(outbox_error + unit) \<times> outbox \<Rightarrow> worker \<Rightarrow> pass_result \<times> worker" where
  \<comment> \<open>the \<open>?\<close> after a ledger operation of the worker\<close>
  "pass_of r k =
     ((case fst r of Inl e \<Rightarrow> PassFailed e | Inr _ \<Rightarrow> PassOk), k\<lparr>wk_outbox := snd r\<rparr>)"

definition forget_refusals :: "string \<Rightarrow> worker \<Rightarrow> worker" where
  "forget_refusals key k = k\<lparr>wk_refusals := (wk_refusals k)(key := None)\<rparr>"

definition worker_fail :: "bool \<Rightarrow> string \<Rightarrow> string \<Rightarrow> worker \<Rightarrow> pass_result \<times> worker" where
  "worker_fail w key code k =
     (case pass_of (outbox_fail w key code (wk_outbox k)) k of
        (PassOk, k1) \<Rightarrow> (PassOk, forget_refusals key k1)
      | r \<Rightarrow> r)"

definition transport_warning :: "worker \<Rightarrow> pass_result \<times> worker" where
  "transport_warning k = (PassOk, k\<lparr>wk_transport_errors := wk_transport_errors k + 1\<rparr>)"

definition settle_job ::
  "outbox_lib \<Rightarrow> pass_env \<Rightarrow> string \<Rightarrow> dispatch_identity \<Rightarrow> job \<Rightarrow> worker \<Rightarrow> pass_result \<times> worker" where
  \<comment> \<open>the \<open>match job.status\<close>\<close>
  "settle_job B E key i j k =
     (case jb_status j of
        JobFailed \<Rightarrow> worker_fail (pe_write_ok E) key ''job_failed'' k
      | JobCancelled \<Rightarrow> worker_fail (pe_write_ok E) key ''job_cancelled'' k
      | JobCompleted \<Rightarrow>
          (case jb_outcome j of
             None \<Rightarrow> worker_fail (pe_write_ok E) key ''outcome_mismatch'' k
           | Some o' \<Rightarrow>
               if matches_outcome i o'
               then pass_of (complete B (pe_write_ok E) key (jb_id j)
                      (vf_catalog_sha256 (oc_verification o')) (oc_publication_id o') (wk_outbox k)) k
               else worker_fail (pe_write_ok E) key ''outcome_mismatch'' k)
      | _ \<Rightarrow> (PassOk, k))"

definition accept_job ::
  "jobs_lib \<Rightarrow> outbox_lib \<Rightarrow> pass_env \<Rightarrow> string \<Rightarrow> dispatch_identity \<Rightarrow> bool \<Rightarrow> job \<Rightarrow> worker
   \<Rightarrow> pass_result \<times> worker" where
  \<comment> \<open>the \<open>Ok(job)\<close> arm\<close>
  "accept_job J B E key i pending j k =
     (if jb_idempotency_sha256 j \<noteq> Some (key_sha256 J key)
      then worker_fail (pe_write_ok E) key ''job_identity_mismatch'' k
      else if pending then
        (case pass_of (acknowledge B (pe_ack_ok E) key (jb_id j) (wk_outbox k)) k of
           (PassOk, k1) \<Rightarrow> settle_job B E key i j (forget_refusals key k1)
         | r \<Rightarrow> r)
      else settle_job B E key i j k)"

definition refusals_of :: "worker \<Rightarrow> string \<Rightarrow> nat" where
  "refusals_of k key = (case wk_refusals k key of None \<Rightarrow> 0 | Some n \<Rightarrow> n)"

definition count_refusal :: "string \<Rightarrow> worker \<Rightarrow> worker" where
  "count_refusal key k = k\<lparr>wk_refusals := (wk_refusals k)(key \<mapsto> refusals_of k key + 1)\<rparr>"

definition refuse_submission :: "pass_env \<Rightarrow> string \<Rightarrow> worker \<Rightarrow> pass_result \<times> worker" where
  \<comment> \<open>a 429 or 503 answer to the POST\<close>
  "refuse_submission E key k =
     (let k1 = count_refusal key k
      in if MAX_REFUSALS \<le> refusals_of k1 key
         then worker_fail (pe_write_ok E) key ''submission_refused'' (forget_refusals key k1)
         else pass_of (outbox_refused (pe_write_ok E) key (wk_outbox k1)) k1)"

definition reconcile_error ::
  "pass_env \<Rightarrow> string \<Rightarrow> bool \<Rightarrow> jobs_error \<Rightarrow> worker \<Rightarrow> pass_result \<times> worker" where
  \<comment> \<open>the \<open>Err\<close> arms, in order; an entry that is not pending here is submitted\<close>
  "reconcile_error E key pending e k =
     (case e of
        JobsStatus s \<Rightarrow>
          if s = 404 \<and> \<not> pending then worker_fail (pe_write_ok E) key ''job_pruned'' k
          else if busy_status s \<and> pending then refuse_submission E key k
          else if pending then
            (case rejected_submission s of
               Some code \<Rightarrow> worker_fail (pe_write_ok E) key code (forget_refusals key k)
             | None \<Rightarrow> transport_warning k)
          else transport_warning k
      | JobsConfig \<Rightarrow>
          if pending then worker_fail (pe_write_ok E) key ''asset_dispatch_request_invalid'' k
          else transport_warning k
      | JobsProtocol \<Rightarrow> worker_fail (pe_write_ok E) key ''invalid_job_response'' k
      | JobsTransport \<Rightarrow> transport_warning k)"

definition reconcile_result ::
  "jobs_lib \<Rightarrow> outbox_lib \<Rightarrow> pass_env \<Rightarrow> string \<Rightarrow> dispatch_identity \<Rightarrow> bool \<Rightarrow> jobs_error + job \<Rightarrow> worker
   \<Rightarrow> pass_result \<times> worker" where
  "reconcile_result J B E key i pending result k =
     (if pe_stopped E then (PassStopped, k)
      else case result of
             Inl e \<Rightarrow> reconcile_error E key pending e k
           | Inr j \<Rightarrow> accept_job J B E key i pending j k)"

definition remote_of :: "remote list \<Rightarrow> dispatch_identity \<Rightarrow> remote option" where
  "remote_of remotes i =
     List.find (\<lambda>r. rm_digest r = di_destination_sha256 i \<and> rm_profile r = jr_profile (di_request i)) remotes"

definition reconcile_entry ::
  "jobs_lib \<Rightarrow> outbox_lib \<Rightarrow> remote list \<Rightarrow> pass_env \<Rightarrow> string \<Rightarrow> dispatch_entry \<Rightarrow> worker
   \<Rightarrow> pass_result \<times> worker \<times> posts" where
  "reconcile_entry J B remotes E key e k =
     (case remote_of remotes (de_identity e) of
        None \<Rightarrow> (case worker_fail (pe_write_ok E) key ''target_removed'' k of (r, k1) \<Rightarrow> (r, k1, []))
      | Some _ \<Rightarrow>
          (case de_state e of
             Pending \<Rightarrow>
               (case pass_of (begin_send (pe_begin_ok E) (pe_now E) key (wk_outbox k)) k of
                  (PassOk, k1) \<Rightarrow>
                    (case reconcile_result J B E key (de_identity e) True
                            (submit J (di_request (de_identity e)) key (pe_http E)) k1 of
                       (r, k2) \<Rightarrow> (r, k2, if submits (di_request (de_identity e)) key then [(key, E)] else []))
                | (r, k1) \<Rightarrow> (r, k1, []))
           | Sending _ \<Rightarrow>
               (case worker_fail (pe_write_ok E) key ''submission_ambiguous'' k of (r, k1) \<Rightarrow> (r, k1, []))
           | Submitted i \<Rightarrow>
               (case reconcile_result J B E key (de_identity e) False
                       (jobs_get J B i (di_request (de_identity e)) (pe_http E)) k of
                  (r, k1) \<Rightarrow> (r, k1, []))
           | _ \<Rightarrow> (PassOk, k, [])))"

fun reconcile_each ::
  "jobs_lib \<Rightarrow> outbox_lib \<Rightarrow> remote list \<Rightarrow> (string \<Rightarrow> pass_env) \<Rightarrow> (string \<times> dispatch_entry) list \<Rightarrow> worker
   \<Rightarrow> pass_result \<times> worker \<times> posts" where
  "reconcile_each J B remotes E [] k = (PassOk, k, [])"
| "reconcile_each J B remotes E ((key, e) # es) k =
     (case reconcile_entry J B remotes (E key) key e k of
        (PassOk, k1, p1) \<Rightarrow>
          (case reconcile_each J B remotes E es k1 of (r, k2, p2) \<Rightarrow> (r, k2, p1 @ p2))
      | x \<Rightarrow> x)"

definition reconcile ::
  "jobs_lib \<Rightarrow> outbox_lib \<Rightarrow> remote list \<Rightarrow> bool \<Rightarrow> (string \<Rightarrow> pass_env) \<Rightarrow> worker
   \<Rightarrow> pass_result \<times> worker \<times> posts" where
  \<comment> \<open>\<open>reconcile\<close> with \<open>reconcile_batch\<close>: the transport errors are those of this pass\<close>
  "reconcile J B remotes cursor_ok E k0 =
     (let k = k0\<lparr>wk_transport_errors := 0\<rparr>
      in case next_batch cursor_ok 16 (wk_outbox k) of
           (Inl e, b) \<Rightarrow> (PassFailed e, k\<lparr>wk_outbox := b\<rparr>, [])
         | (Inr batch, b) \<Rightarrow> reconcile_each J B remotes E batch (k\<lparr>wk_outbox := b\<rparr>))"

definition identity_of :: "remote \<Rightarrow> dispatch_snapshot \<Rightarrow> dispatch_identity" where
  "identity_of r s =
     \<lparr>di_destination_sha256 = rm_digest r,
      di_request = \<lparr>jr_region = sn_region s, jr_profile = rm_profile r, jr_operation = Update\<rparr>,
      di_profile_revision = rm_profile_revision r, di_environment = sn_environment s,
      di_platform = sn_platform s, di_resource_version = sn_resource_version s,
      di_platform_hash = sn_platform_hash s, di_require_full_catalog = rm_require_full_catalog r,
      di_require_full_export = rm_require_full_export r,
      di_require_publication = rm_require_publication r\<rparr>"

fun observe_each ::
  "outbox_lib \<Rightarrow> (remote \<Rightarrow> bool) \<Rightarrow> dispatch_snapshot \<Rightarrow> remote list \<Rightarrow> outbox \<Rightarrow> (outbox_error + unit) \<times> outbox" where
  "observe_each B w s [] b = (Ok (), b)"
| "observe_each B w s (r # rs) b =
     (case outbox_observe B (w r) (identity_of r s) b of
        (Inl e, b1) \<Rightarrow> (Err e, b1)
      | (Inr _, b1) \<Rightarrow> observe_each B w s rs b1)"

definition worker_observe ::
  "outbox_lib \<Rightarrow> (remote \<Rightarrow> bool) \<Rightarrow> remote list \<Rightarrow> dispatch_snapshot \<Rightarrow> worker \<Rightarrow> (outbox_error + unit) \<times> worker" where
  "worker_observe B w remotes s k =
     (if sn_region s \<noteq> wk_region k \<or> sn_environment s \<noteq> wk_environment k \<or> sn_platform s \<noteq> wk_platform k
      then (Err Invalid, k)
      else case observe_each B w s remotes (wk_outbox k) of (r, b) \<Rightarrow> (r, k\<lparr>wk_outbox := b\<rparr>))"

definition worker_new ::
  "outbox_lib \<Rightarrow> bool \<Rightarrow> nat \<Rightarrow> region \<Rightarrow> string \<Rightarrow> string \<Rightarrow> outbox_error + ledger option
   \<Rightarrow> (string \<Rightarrow> dispatch_entry option) \<Rightarrow> outbox_error + worker" where
  \<comment> \<open>opening the ledger and the check that it belongs to this deployment, reported as \<open>Invalid\<close>\<close>
  "worker_new B write_ok capacity reg env plat read archive =
     then_result (outbox_open B False write_ok capacity read archive) (\<lambda>b.
       if \<not> list_all (\<lambda>(key, e). jr_region (di_request (de_identity e)) = reg \<and>
              di_environment (de_identity e) = env \<and> di_platform (de_identity e) = plat) (le_entries (ox_ledger b))
       then Err Invalid
       else Ok \<lparr>wk_region = reg, wk_environment = env, wk_platform = plat, wk_outbox = b,
                wk_refusals = Map.empty, wk_transport_errors = 0\<rparr>)"

subsection \<open>One entry of a pass\<close>

definition advanced :: "dispatch_state option \<Rightarrow> bool" where
  \<comment> \<open>known, and past the state in which the worker submits\<close>
  "advanced s \<longleftrightarrow> s \<noteq> None \<and> s \<noteq> Some Pending"

lemma advanced_step: "state_step False s s' \<Longrightarrow> advanced s \<Longrightarrow> advanced s'"
  by (induction rule: state_step.induct) (auto simp: advanced_def)

definition busy_post :: "pass_env \<Rightarrow> bool" where
  \<comment> \<open>the POST was answered, with a status that guarantees that the updater took nothing\<close>
  "busy_post E \<longleftrightarrow>
     \<not> pe_stopped E \<and> (case pe_http E of Inl _ \<Rightarrow> False | Inr a \<Rightarrow> busy_status (ha_status a))"

abbreviation wk_entry :: "worker \<Rightarrow> string \<Rightarrow> dispatch_entry option" where
  "wk_entry k \<equiv> bt_get (le_entries (ox_ledger (wk_outbox k)))"

abbreviation wk_status :: "worker \<Rightarrow> string \<Rightarrow> dispatch_state option" where
  "wk_status k \<equiv> key_status (wk_outbox k)"

definition local_step :: "outbox_lib \<Rightarrow> bool \<Rightarrow> string \<Rightarrow> outbox \<Rightarrow> outbox \<Rightarrow> bool" where
  \<comment> \<open>a ledger operation on one key leaves the entries of the others alone\<close>
  "local_step B c key b b' \<longleftrightarrow>
     outbox_inv B b' \<and> ox_archive b' = ox_archive b \<and>
     (\<forall>q. q \<noteq> key \<longrightarrow> bt_get (le_entries (ox_ledger b')) q = bt_get (le_entries (ox_ledger b)) q) \<and>
     state_step c (key_status b key) (key_status b' key)"

lemma local_step_change:
  assumes "outbox_inv B b" "transition_ok B c f" "outbox_change w key f b = (r, b')"
  shows "local_step B c key b b'"
  using outbox_change_ok [OF assms] outbox_change_cases [OF assms(3)] outbox_inv_wf [OF assms(1)]
  by (auto simp: local_step_def ledger_set_def Let_def bt_simps)

lemma local_step_refl: "outbox_inv B b \<Longrightarrow> local_step B c key b b"
  by (simp add: local_step_def state_step.same)

lemma local_step_ops:
  assumes "outbox_inv B b"
  shows "local_step B False key b (snd (begin_send w now key b))"
    "local_step B True key b (snd (outbox_refused w key b))"
    "local_step B False key b (snd (acknowledge B w key j b))"
    "local_step B False key b (snd (complete B w key j d p b))"
    "local_step B False key b (snd (outbox_fail w key code b))"
proof -
  note change = local_step_change [OF assms _ surjective_pairing]
  show "local_step B False key b (snd (begin_send w now key b))"
    "local_step B True key b (snd (outbox_refused w key b))"
    unfolding begin_send_def outbox_refused_def by (intro change transitions_ok)+
  show "local_step B False key b (snd (acknowledge B w key j b))"
    "local_step B False key b (snd (outbox_fail w key code b))"
    unfolding acknowledge_def outbox_fail_def
    by (auto intro!: change transitions_ok local_step_refl assms)
  show "local_step B False key b (snd (complete B w key j d p b))"
    unfolding complete_def
    by (auto intro!: change transitions_ok local_step_refl assms split: option.splits)
qed

definition others_kept :: "outbox_lib \<Rightarrow> string \<Rightarrow> worker \<Rightarrow> worker \<Rightarrow> bool" where
  "others_kept B key k k' \<longleftrightarrow>
     outbox_inv B (wk_outbox k') \<and> ox_archive (wk_outbox k') = ox_archive (wk_outbox k) \<and>
     (\<forall>q. q \<noteq> key \<longrightarrow> wk_entry k' q = wk_entry k q)"

definition kept :: "outbox_lib \<Rightarrow> string \<Rightarrow> worker \<Rightarrow> worker \<Rightarrow> bool" where
  "kept B key k k' \<longleftrightarrow>
     others_kept B key k k' \<and> (advanced (wk_status k key) \<longrightarrow> advanced (wk_status k' key))"

lemma kept_trans: "kept B key k k1 \<Longrightarrow> kept B key k1 k2 \<Longrightarrow> kept B key k k2"
  by (simp add: kept_def others_kept_def)

lemma kept_same: "outbox_inv B (wk_outbox k) \<Longrightarrow> wk_outbox k' = wk_outbox k \<Longrightarrow> kept B key k k'"
  by (simp add: kept_def others_kept_def)

lemma kept_inv: "kept B key k k' \<Longrightarrow> outbox_inv B (wk_outbox k')"
  by (simp add: kept_def others_kept_def)

lemma kept_pass_of:
  "local_step B False key (wk_outbox k) (snd r) \<Longrightarrow> kept B key k (snd (pass_of r k))"
  by (auto simp: kept_def others_kept_def local_step_def pass_of_def intro: advanced_step)

lemma outbox_forget_refusals [simp]: "wk_outbox (forget_refusals key k) = wk_outbox k"
  by (simp add: forget_refusals_def)

lemma kept_cong: "kept B key k (k'::worker) \<Longrightarrow> wk_outbox k'' = wk_outbox k' \<Longrightarrow> kept B key k k''"
  by (simp add: kept_def others_kept_def)

lemma kept_cong_left: "kept B key k k' \<Longrightarrow> wk_outbox k = wk_outbox k0 \<Longrightarrow> kept B key k0 k'"
  by (simp add: kept_def others_kept_def)

lemma kept_fail:
  assumes "outbox_inv B (wk_outbox k)"
  shows "kept B key k (snd (worker_fail w key code k))"
proof -
  have *: "kept B key k (snd (pass_of (outbox_fail w key code (wk_outbox k)) k))"
    by (rule kept_pass_of) (rule local_step_ops [OF assms])
  then show ?thesis
    by (cases "pass_of (outbox_fail w key code (wk_outbox k)) k")
      (auto simp: worker_fail_def split: pass_result.splits intro: kept_cong)
qed

lemma kept_transport_warning:
  "outbox_inv B (wk_outbox k) \<Longrightarrow> kept B key k (snd (transport_warning k))"
  by (rule kept_same) (simp_all add: transport_warning_def)

lemma kept_settle:
  assumes "outbox_inv B (wk_outbox k)"
  shows "kept B key k (snd (settle_job B E key i j k))"
  using kept_fail [OF assms] kept_same [OF assms] kept_pass_of local_step_ops(4) [OF assms]
  by (auto simp: settle_job_def split: job_status.splits option.splits)

lemma kept_accept:
  assumes "outbox_inv B (wk_outbox k)"
  shows "kept B key k (snd (accept_job J B E key i pending j k))"
proof -
  let ?a = "pass_of (acknowledge B (pe_ack_ok E) key (jb_id j) (wk_outbox k)) k"
  have a: "kept B key k (snd ?a)" by (rule kept_pass_of) (rule local_step_ops [OF assms])
  obtain r k1 where ra: "?a = (r, k1)" by fastforce
  with a have k1: "kept B key k k1" by simp
  then have "kept B key (forget_refusals key k1) (snd (settle_job B E key i j (forget_refusals key k1)))"
    by (intro kept_settle) (simp add: kept_inv)
  from kept_trans [OF k1 kept_cong_left [OF this]]
  have "kept B key k (snd (settle_job B E key i j (forget_refusals key k1)))" by simp
  with k1 show ?thesis
    using kept_fail [OF assms] kept_settle [OF assms]
    by (auto simp: accept_job_def ra split: pass_result.splits)
qed

lemma others_kept_fail_forgotten:
  assumes "outbox_inv B (wk_outbox k)"
  shows "kept B key k (snd (worker_fail w key code (forget_refusals key k)))"
  using kept_fail [of B "forget_refusals key k" key w code] assms by (auto intro: kept_cong_left)

lemma kept_error:
  assumes "outbox_inv B (wk_outbox k)" "\<not> (pending \<and> (\<exists>s. e = JobsStatus s \<and> busy_status s))"
  shows "kept B key k (snd (reconcile_error E key pending e k))"
  using kept_fail [OF assms(1)] kept_transport_warning [OF assms(1)] others_kept_fail_forgotten [OF assms(1)] assms(2)
  by (auto simp: reconcile_error_def split: jobs_error.splits option.splits)

lemma others_kept_refuse:
  assumes "outbox_inv B (wk_outbox k)"
  shows "others_kept B key k (snd (refuse_submission E key k))"
proof -
  define k1 where "k1 = count_refusal key k"
  have o1: "wk_outbox k1 = wk_outbox k" by (simp add: k1_def count_refusal_def)
  have "kept B key k1 (snd (worker_fail (pe_write_ok E) key ''submission_refused'' (forget_refusals key k1)))"
    using assms o1 by (intro others_kept_fail_forgotten) simp
  then have f: "others_kept B key k (snd (worker_fail (pe_write_ok E) key ''submission_refused'' (forget_refusals key k1)))"
    using o1 by (simp add: kept_def others_kept_def)
  have "local_step B True key (wk_outbox k1) (snd (outbox_refused (pe_write_ok E) key (wk_outbox k1)))"
    using assms o1 by (intro local_step_ops) simp
  then have "others_kept B key k (snd (pass_of (outbox_refused (pe_write_ok E) key (wk_outbox k1)) k1))"
    using o1 by (simp add: others_kept_def local_step_def pass_of_def)
  with f show ?thesis by (simp add: refuse_submission_def Let_def flip: k1_def)
qed

lemma jobs_read_Err: "jobs_read bytes cs = Err e \<Longrightarrow> e \<in> {JobsTransport, JobsProtocol}"
  by (induction bytes cs rule: jobs_read.induct) (auto split: if_splits)

lemma submit_busy:
  "submit J r key http = Err (JobsStatus s) \<Longrightarrow> \<exists>a. http = Ok a \<and> ha_status a = s"
  by (auto simp: submit_def then_result_Err_iff validate_request_def jobs_send_def
      split: if_splits sum.splits option.splits dest: jobs_read_Err)

lemma kept_result:
  assumes "outbox_inv B (wk_outbox k)"
    and "\<not> (pending \<and> \<not> pe_stopped E \<and> (\<exists>s. result = Err (JobsStatus s) \<and> busy_status s))"
  shows "kept B key k (snd (reconcile_result J B E key i pending result k))"
  using kept_same [OF assms(1)] kept_error [OF assms(1)] kept_accept [OF assms(1)] assms(2)
  by (auto simp: reconcile_result_def split: sum.splits)

text \<open>What a step does to a key, with the submissions it made for it: nothing is submitted for an
  advanced key, and a submission that was not answered as busy leaves the key advanced.\<close>

definition of_key :: "string \<Rightarrow> posts \<Rightarrow> pass_env list" where
  "of_key key p = map snd (filter (\<lambda>x. fst x = key) p)"

definition lawful :: "string \<Rightarrow> dispatch_state option \<Rightarrow> posts \<Rightarrow> dispatch_state option \<Rightarrow> bool" where
  "lawful key s p s' \<longleftrightarrow>
     (advanced s \<longrightarrow> advanced s' \<and> of_key key p = []) \<and>
     (\<forall>E \<in> set (butlast (of_key key p)). busy_post E) \<and>
     (of_key key p \<noteq> [] \<longrightarrow> busy_post (last (of_key key p)) \<or> advanced s')"

lemma of_key_append [simp]: "of_key key (p @ q) = of_key key p @ of_key key q"
  by (simp add: of_key_def)

lemma of_key_simps [simp]:
  "of_key key [] = []" "of_key key ((q, E) # p) = (if q = key then E # of_key key p else of_key key p)"
  by (simp_all add: of_key_def)

lemma lawful_quiet: "(advanced s \<longrightarrow> advanced s') \<Longrightarrow> of_key key p = [] \<Longrightarrow> lawful key s p s'"
  by (simp add: lawful_def)

lemma lawful_trans:
  assumes "lawful key s p t" "lawful key t q u"
  shows "lawful key s (p @ q) u"
proof (cases "of_key key q = []")
  case True
  then show ?thesis using assms by (auto simp: lawful_def)
next
  case False
  then have "\<not> advanced t" using assms(2) by (auto simp: lawful_def)
  then have "\<forall>E \<in> set (of_key key p). busy_post E"
    using assms(1) by (cases "of_key key p" rule: rev_cases) (auto simp: lawful_def)
  then show ?thesis using assms False by (auto simp: lawful_def butlast_append)
qed

lemma others_status: "others_kept B key k k' \<Longrightarrow> q \<noteq> key \<Longrightarrow> wk_status k' q = wk_status k q"
  by (simp add: others_kept_def key_status_def split: option.splits)

lemma lawful_others:
  "others_kept B key k k' \<Longrightarrow> q \<noteq> key \<Longrightarrow> of_key q p = [] \<Longrightarrow> lawful q (wk_status k q) p (wk_status k' q)"
  by (rule lawful_quiet) (simp_all add: others_status)

lemma begin_send_pending:
  assumes "outbox_inv B (wk_outbox k)" "wk_entry k key = Some e" "de_state e = Pending"
    and "pass_of (begin_send w now key (wk_outbox k)) k = (PassOk, k1)"
  shows "advanced (wk_status k1 key)"
  using assms outbox_inv_wf [OF assms(1)]
  by (auto simp: pass_of_def begin_send_def outbox_change_def outbox_commit_def advanced_def key_status_def
      bt_simps split: if_splits)

lemma reconcile_pending_lawful:
  assumes inv: "outbox_inv B (wk_outbox k)" and cur: "wk_entry k key = Some e" "de_state e = Pending"
    and k1: "pass_of (begin_send w now key (wk_outbox k)) k = (PassOk, k1)"
    and k2: "reconcile_result J B E key i True (submit J r key (pe_http E)) k1 = (res, k2)"
  shows "others_kept B key k k2 \<and> (busy_post E \<or> advanced (wk_status k2 key))"
proof -
  have b: "kept B key k k1"
    using kept_pass_of [OF local_step_ops(1) [OF inv]] k1 by (metis snd_conv)
  have adv: "advanced (wk_status k1 key)" by (rule begin_send_pending [OF inv cur k1])
  show ?thesis
  proof (cases "\<not> pe_stopped E \<and> (\<exists>s. submit J r key (pe_http E) = Err (JobsStatus s) \<and> busy_status s)")
    case True
    then obtain s where s: "submit J r key (pe_http E) = Err (JobsStatus s)" "busy_status s" "\<not> pe_stopped E"
      by auto
    then have "k2 = snd (refuse_submission E key k1)"
      using k2 by (auto simp: reconcile_result_def reconcile_error_def busy_status_def)
    with others_kept_refuse [OF kept_inv [OF b]] b have "others_kept B key k k2"
      by (simp add: kept_def others_kept_def)
    moreover have "busy_post E" using s submit_busy [OF s(1)] by (auto simp: busy_post_def)
    ultimately show ?thesis by simp
  next
    case False
    then have "kept B key k1 k2" using kept_result [OF kept_inv [OF b]] k2 by (metis snd_conv)
    with b adv show ?thesis by (auto simp: kept_def others_kept_def)
  qed
qed

lemma reconcile_entry_lawful:
  assumes inv: "outbox_inv B (wk_outbox k)" and cur: "wk_entry k key = Some e"
    and run: "reconcile_entry J B remotes E key e k = (res, k', p)"
  shows "others_kept B key k k' \<and> set (map fst p) \<subseteq> {key} \<and> lawful key (wk_status k key) p (wk_status k' key)"
proof (cases "de_state e = Pending \<and> remote_of remotes (de_identity e) \<noteq> None")
  case True
  have st: "\<not> advanced (wk_status k key)" using cur True by (simp add: advanced_def key_status_def)
  obtain b k1 where b: "pass_of (begin_send (pe_begin_ok E) (pe_now E) key (wk_outbox k)) k = (b, k1)" by fastforce
  show ?thesis
  proof (cases "b = PassOk")
    case PassOk: True
    obtain k2 where k2: "reconcile_result J B E key (de_identity e) True
        (submit J (di_request (de_identity e)) key (pe_http E)) k1 = (res, k2)"
      and k': "k' = k2" "p = (if submits (di_request (de_identity e)) key then [(key, E)] else [])"
      using run True b PassOk by (auto simp: reconcile_entry_def split: prod.splits)
    from reconcile_pending_lawful [OF inv cur _ b [unfolded PassOk] k2] True
    have "others_kept B key k k2" "busy_post E \<or> advanced (wk_status k2 key)" by auto
    then show ?thesis using st by (auto simp: k' lawful_def)
  next
    case False
    then have "k' = k1" "p = []"
      using run True b by (auto simp: reconcile_entry_def split: pass_result.splits)
    moreover have "kept B key k k1"
      using kept_pass_of [OF local_step_ops(1) [OF inv]] b by (metis snd_conv)
    ultimately show ?thesis by (simp add: kept_def lawful_quiet)
  qed
next
  case False
  then have "p = [] \<and> kept B key k k'"
    using run kept_fail [OF inv] kept_result [OF inv, of False] kept_same [OF inv]
    by (auto simp: reconcile_entry_def split: option.splits dispatch_state.splits prod.splits)
      (metis snd_conv)+
  then show ?thesis by (simp add: kept_def lawful_quiet)
qed

subsection \<open>Passes and the life of the worker\<close>

definition current :: "worker \<Rightarrow> (string \<times> dispatch_entry) list \<Rightarrow> bool" where
  "current k es \<longleftrightarrow> distinct (map fst es) \<and> (\<forall>x \<in> set es. wk_entry k (fst x) = Some (snd x))"

lemma of_key_other: "set (map fst p) \<subseteq> {key} \<Longrightarrow> q \<noteq> key \<Longrightarrow> of_key q p = []"
  by (auto simp: of_key_def filter_empty_conv)

lemma reconcile_each_lawful:
  "outbox_inv B (wk_outbox k) \<Longrightarrow> current k es \<Longrightarrow> reconcile_each J B remotes E es k = (res, k', p) \<Longrightarrow>
   outbox_inv B (wk_outbox k') \<and> lawful q (wk_status k q) p (wk_status k' q)"
proof (induction es arbitrary: k res k' p)
  case (Cons x es)
  obtain key e where x: "x = (key, e)" by fastforce
  obtain r1 k1 p1 where r1: "reconcile_entry J B remotes (E key) key e k = (r1, k1, p1)" by (metis prod_cases3)
  have "wk_entry k key = Some e" using Cons.prems(2) x by (simp add: current_def)
  from reconcile_entry_lawful [OF Cons.prems(1) this r1]
  have o: "others_kept B key k k1" and p1: "set (map fst p1) \<subseteq> {key}"
    and l: "lawful key (wk_status k key) p1 (wk_status k1 key)" by simp_all
  have l1: "lawful q (wk_status k q) p1 (wk_status k1 q)"
    using l lawful_others [OF o _ of_key_other [OF p1]] by (cases "q = key") simp_all
  have inv1: "outbox_inv B (wk_outbox k1)" using o by (simp add: others_kept_def)
  show ?case
  proof (cases "r1 = PassOk")
    case True
    obtain r2 k2 p2 where r2: "reconcile_each J B remotes E es k1 = (r2, k2, p2)" by (metis prod_cases3)
    have "fst y \<noteq> key" if "y \<in> set es" for y
      using that Cons.prems(2) by (auto simp: current_def x)
    then have "current k1 es" using Cons.prems(2) o by (simp add: current_def others_kept_def x)
    from Cons.IH [OF inv1 this r2] lawful_trans [OF l1]
    have "outbox_inv B (wk_outbox k2)" "lawful q (wk_status k q) (p1 @ p2) (wk_status k2 q)" by simp_all
    moreover have "k' = k2" "p = p1 @ p2" using Cons.prems(3) r1 r2 True by (simp_all add: x)
    ultimately show ?thesis by simp
  next
    case False
    then have "k' = k1" "p = p1" using Cons.prems(3) r1 by (auto simp: x split: pass_result.splits)
    with inv1 l1 show ?thesis by simp
  qed
qed (simp add: lawful_quiet)

lemma batch_current:
  assumes "bt_wf (le_entries l)"
  shows "distinct (map fst (batch_of n l)) \<and>
    (\<forall>x \<in> set (batch_of n l). bt_get (le_entries l) (fst x) = Some (snd x))"
proof -
  let ?a = "filter (\<lambda>(k, e). case le_cursor l of None \<Rightarrow> True | Some c \<Rightarrow> c < k) (le_entries l)"
  let ?b = "filter (\<lambda>(k, e). case le_cursor l of None \<Rightarrow> False | Some c \<Rightarrow> k \<le> c) (le_entries l)"
  have "distinct (map fst (le_entries l))" using assms by (rule bt_wf_distinct)
  then have "distinct (map fst (?a @ ?b))"
    by (auto simp: distinct_map_filter split: option.splits)
  then have "distinct (map fst (batch_of n l))"
    unfolding batch_of_def Let_def take_map [symmetric] by (intro distinct_take distinct_map_filter)
  moreover have "set (batch_of n l) \<subseteq> set (le_entries l)"
    by (auto simp: batch_of_def Let_def dest: in_set_takeD)
  ultimately show ?thesis using bt_get_mem [OF assms] by (metis prod.collapse subsetD)
qed

lemma reconcile_lawful:
  assumes "outbox_inv B (wk_outbox k)" "reconcile J B remotes w E k = (res, k', p)"
  shows "outbox_inv B (wk_outbox k') \<and> lawful q (wk_status k q) p (wk_status k' q)"
proof -
  let ?k = "k\<lparr>wk_transport_errors := 0\<rparr>"
  obtain r b where b: "next_batch w 16 (wk_outbox k) = (r, b)" by fastforce
  have ok: "step_ok B False (wk_outbox k) b" by (rule step_ok_batch [OF assms(1) b])
  then have inv: "outbox_inv B b" and st: "advanced (wk_status k q) \<Longrightarrow> advanced (key_status b q)"
    using advanced_step by (auto simp: step_ok_def)
  show ?thesis
  proof (cases r)
    case (Inl e)
    then have "k' = ?k\<lparr>wk_outbox := b\<rparr>" "p = []" using assms(2) b by (auto simp: reconcile_def Let_def)
    then show ?thesis using inv st by (simp add: lawful_quiet)
  next
    case (Inr batch)
    let ?k1 = "?k\<lparr>wk_outbox := b\<rparr>"
    have run: "reconcile_each J B remotes E batch ?k1 = (res, k', p)"
      using assms(2) b Inr by (simp add: reconcile_def Let_def)
    have "batch = batch_of 16 (ox_ledger (wk_outbox k)) \<and>
        le_entries (ox_ledger b) = le_entries (ox_ledger (wk_outbox k)) \<or> batch = []"
      using b Inr by (auto simp: next_batch_def outbox_commit_def Let_def split: if_splits)
    then have "current ?k1 batch"
      using batch_current [OF outbox_inv_wf [OF assms(1)], of 16] by (auto simp: current_def)
    from reconcile_each_lawful [OF _ this run, where q = q] inv
    have "outbox_inv B (wk_outbox k')" "lawful q (key_status b q) p (wk_status k' q)" by simp_all
    then show ?thesis using lawful_trans [OF lawful_quiet [of "wk_status k q" "key_status b q" q "[]"]] st by auto
  qed
qed

text \<open>The worker's life: observations, passes, the operator's commands between passes, and restarts
  (also after a crash) that load what is on disk.\<close>

inductive dispatch_step :: "jobs_lib \<Rightarrow> outbox_lib \<Rightarrow> worker \<Rightarrow> posts \<Rightarrow> worker \<Rightarrow> bool" for J B where
  observing: "worker_observe B w remotes s k = (r, k') \<Longrightarrow> dispatch_step J B k [] k'"
| passing: "reconcile J B remotes w E k = (r, k', p) \<Longrightarrow> dispatch_step J B k p k'"
| adoption: "adopt B w key j (wk_outbox k) = (r, b) \<Longrightarrow> dispatch_step J B k [] (k\<lparr>wk_outbox := b\<rparr>)"
| archival: "archive_completed B aw sw w key j (wk_outbox k) = (r, b) \<Longrightarrow>
    dispatch_step J B k [] (k\<lparr>wk_outbox := b\<rparr>)"
| restarting: "worker_new B w capacity reg env plat (Ok (Some (ox_file (wk_outbox k)))) (ox_archive (wk_outbox k)) = Ok k' \<Longrightarrow>
    dispatch_step J B k [] k'"

inductive dispatch_run :: "jobs_lib \<Rightarrow> outbox_lib \<Rightarrow> worker \<Rightarrow> posts \<Rightarrow> worker \<Rightarrow> bool" for J B k where
  start: "dispatch_run J B k [] k"
| continue: "dispatch_run J B k p k1 \<Longrightarrow> dispatch_step J B k1 q k2 \<Longrightarrow> dispatch_run J B k (p @ q) k2"

lemma observe_each_ok:
  "outbox_inv B b \<Longrightarrow> observe_each B w s rs b = (r, b') \<Longrightarrow>
   outbox_inv B b' \<and> (advanced (key_status b q) \<longrightarrow> advanced (key_status b' q))"
proof (induction rs arbitrary: b)
  case (Cons x rs)
  obtain r1 b1 where o: "outbox_observe B (w x) (identity_of x s) b = (r1, b1)" by fastforce
  have "step_ok B False b b1" by (rule step_ok_observe [OF Cons.prems(1) o])
  then have "outbox_inv B b1" "advanced (key_status b q) \<longrightarrow> advanced (key_status b1 q)"
    using advanced_step by (auto simp: step_ok_def)
  then show ?case using Cons.IH [of b1] Cons.prems(2) o by (auto split: sum.splits)
qed simp

lemma step_ok_lawful:
  "step_ok B False b b' \<Longrightarrow> outbox_inv B b' \<and> lawful q (key_status b q) [] (key_status b' q)"
  using advanced_step by (auto simp: step_ok_def lawful_def)

lemma dispatch_step_lawful:
  assumes "dispatch_step J B k p k'" "outbox_inv B (wk_outbox k)"
  shows "outbox_inv B (wk_outbox k') \<and> lawful q (wk_status k q) p (wk_status k' q)"
  using assms
proof (induction rule: dispatch_step.induct)
  case (observing w remotes s k r k')
  then show ?case using observe_each_ok
    by (fastforce simp: worker_observe_def lawful_quiet split: if_splits prod.splits)
next
  case (adoption w key j k r b)
  have "step_ok B False (wk_outbox k) b"
    using adoption step_ok_refl step_ok_change [OF _ transitions_ok(4)] by (auto simp: adopt_def split: if_splits)
  then show ?case using step_ok_lawful by simp
next
  case (restarting w capacity reg env plat k k')
  then have "outbox_open B False w capacity (Ok (Some (ox_file (wk_outbox k)))) (ox_archive (wk_outbox k)) = Ok (wk_outbox k')"
    by (auto simp: worker_new_def then_result_Ok_iff split: if_splits)
  from step_ok_lawful [OF step_ok_restart [OF restarting.prems this]] show ?case by simp
qed (use reconcile_lawful step_ok_lawful [OF step_ok_archive] in auto)

lemma dispatch_run_lawful:
  "dispatch_run J B k p k' \<Longrightarrow> outbox_inv B (wk_outbox k) \<Longrightarrow>
   outbox_inv B (wk_outbox k') \<and> lawful q (wk_status k q) p (wk_status k' q)"
  by (induction rule: dispatch_run.induct) (auto simp: lawful_quiet dest: dispatch_step_lawful intro: lawful_trans)

subsection \<open>Completion\<close>

definition unfinished :: "outbox \<Rightarrow> string \<Rightarrow> bool" where
  "unfinished b key \<longleftrightarrow> (\<forall>j d p. key_status b key \<noteq> Some (Completed j d p))"

lemma unfinished_change:
  assumes "outbox_inv B b" "unfinished b key" "outbox_change w key f b = (r, b')"
    and "\<And>s s'. f s = Ok s' \<Longrightarrow> \<not> is_completed s \<Longrightarrow> \<not> is_completed s'"
  shows "unfinished b' key"
proof -
  from outbox_change_cases [OF assms(3)] show ?thesis
  proof (elim disjE exE conjE)
    fix e st assume e: "bt_get (le_entries (ox_ledger b)) key = Some e" "f (de_state e) = Ok st"
      and b': "b' = ledger_set key (e\<lparr>de_state := st\<rparr>) b"
    have "\<not> is_completed (de_state e)"
      using assms(2) e(1) by (auto simp: unfinished_def key_status_def elim!: is_completed.elims)
    then have "\<not> is_completed st" using assms(4) e(2) by blast
    then show ?thesis using outbox_inv_wf [OF assms(1)]
      by (auto simp: unfinished_def b' key_status_ledger_set)
  qed (use assms(2) in simp)
qed

lemma unfinished_ops:
  assumes "outbox_inv B b" "unfinished b key"
  shows "unfinished (snd (begin_send w now key b)) key" "unfinished (snd (outbox_refused w key b)) key"
    "unfinished (snd (acknowledge B w key j b)) key" "unfinished (snd (outbox_fail w key code b)) key"
proof -
  note change = unfinished_change [OF assms surjective_pairing]
  show "unfinished (snd (begin_send w now key b)) key" "unfinished (snd (outbox_refused w key b)) key"
    unfolding begin_send_def outbox_refused_def
    by (rule change; auto elim!: begin_send_state.elims refused_state.elims)+
  have a: "\<not> is_completed s'" if "acknowledge_state j s = Ok s'" "\<not> is_completed s" for s s'
    using that by (auto elim!: acknowledge_state.elims split: if_splits)
  have f: "\<not> is_completed s'" if "fail_state code s = Ok s'" "\<not> is_completed s" for s s'
    using that by (auto elim!: fail_state.elims)
  show "unfinished (snd (acknowledge B w key j b)) key" "unfinished (snd (outbox_fail w key code b)) key"
    using change [OF a] change [OF f] assms(2) by (simp_all add: acknowledge_def outbox_fail_def)
qed

lemma unfinished_fail:
  assumes "outbox_inv B (wk_outbox k)" "unfinished (wk_outbox k) key"
  shows "unfinished (wk_outbox (snd (worker_fail w key code k))) key"
  using unfinished_ops(4) [OF assms, of w code]
  by (auto simp: worker_fail_def pass_of_def split: prod.splits pass_result.splits sum.splits)

lemma unfinished_error:
  assumes "outbox_inv B (wk_outbox k)" "unfinished (wk_outbox k) key"
  shows "unfinished (wk_outbox (snd (reconcile_error E key pending e k))) key"
proof -
  have f: "unfinished (wk_outbox (snd (worker_fail w key code k1))) key" if "wk_outbox k1 = wk_outbox k" for w code k1
    using unfinished_fail [of B k1 key] assms that by simp
  have "unfinished (wk_outbox (snd (refuse_submission E key k))) key"
    using f unfinished_ops(2) [OF assms]
    by (auto simp: refuse_submission_def Let_def count_refusal_def pass_of_def)
  then show ?thesis using f assms(2)
    by (auto simp: reconcile_error_def transport_warning_def split: jobs_error.splits option.splits)
qed

definition verified_completion ::
  "jobs_lib \<Rightarrow> string \<Rightarrow> dispatch_identity \<Rightarrow> job \<Rightarrow> string \<Rightarrow> string \<Rightarrow> string option \<Rightarrow> bool" where
  "verified_completion J key i jb j d pub \<longleftrightarrow>
     jb_id jb = j \<and> jb_status jb = JobCompleted \<and> jb_idempotency_sha256 jb = Some (key_sha256 J key) \<and>
     (\<exists>o'. jb_outcome jb = Some o' \<and> matches_outcome i o' \<and>
        vf_catalog_sha256 (oc_verification o') = d \<and> oc_publication_id o' = pub)"

lemma complete_completes:
  assumes "outbox_inv B b" "unfinished b key"
    and "key_status (snd (complete B w key j d p b)) key = Some (Completed j' d' p')"
  shows "j' = j \<and> d' = d \<and> p' = p"
proof -
  obtain r b' where c: "complete B w key j d p b = (r, b')" by fastforce
  then have "b' = b \<or> outbox_change w key (complete_state j d p) b = (r, b')"
    by (auto simp: complete_def split: if_splits)
  then show ?thesis
  proof
    assume "outbox_change w key (complete_state j d p) b = (r, b')"
    from outbox_change_cases [OF this] show ?thesis
      using assms c outbox_inv_wf [OF assms(1)]
      by (auto simp: unfinished_def key_status_ledger_set elim!: complete_state.elims split: if_splits)
  qed (use assms c in \<open>auto simp: unfinished_def\<close>)
qed

lemma settle_completes:
  assumes "outbox_inv B (wk_outbox k)" "unfinished (wk_outbox k) key"
    and "jb_idempotency_sha256 jb = Some (key_sha256 J key)"
    and "wk_status (snd (settle_job B E key i jb k)) key = Some (Completed j d p)"
  shows "verified_completion J key i jb j d p"
proof -
  have f: "wk_status (snd (worker_fail w key code k)) key \<noteq> Some (Completed j d p)" for w code
    using unfinished_fail [OF assms(1,2)] by (simp add: unfinished_def)
  have n: "wk_status k key \<noteq> Some (Completed j d p)" using assms(2) by (simp add: unfinished_def)
  obtain o' where o': "jb_status jb = JobCompleted" "jb_outcome jb = Some o'" "matches_outcome i o'"
    and c: "key_status (snd (complete B (pe_write_ok E) key (jb_id jb) (vf_catalog_sha256 (oc_verification o'))
      (oc_publication_id o') (wk_outbox k))) key = Some (Completed j d p)"
    using assms(4) f n by (auto simp: settle_job_def pass_of_def split: job_status.splits option.splits if_splits)
  from complete_completes [OF assms(1,2) c] o' assms(3) show ?thesis by (auto simp: verified_completion_def)
qed

lemma accept_completes:
  assumes "outbox_inv B (wk_outbox k)" "unfinished (wk_outbox k) key"
    and "wk_status (snd (accept_job J B E key i pending jb k)) key = Some (Completed j d p)"
  shows "verified_completion J key i jb j d p"
proof (cases "jb_idempotency_sha256 jb = Some (key_sha256 J key)")
  case True
  let ?r = "acknowledge B (pe_ack_ok E) key (jb_id jb) (wk_outbox k)"
  let ?k1 = "forget_refusals key (snd (pass_of ?r k))"
  have o1: "wk_outbox ?k1 = snd ?r" by (simp add: pass_of_def)
  have inv1: "outbox_inv B (snd ?r)" using local_step_ops(3) [OF assms(1)] by (simp add: local_step_def)
  have un1: "unfinished (snd ?r) key" by (rule unfinished_ops [OF assms(1,2)])
  show ?thesis
  proof (cases "pending")
    case False
    then show ?thesis using settle_completes [OF assms(1,2) True] assms(3) True by (simp add: accept_job_def)
  next
    case p: True
    show ?thesis
    proof (cases "fst (pass_of ?r k) = PassOk")
      case ok: True
      then have "snd (accept_job J B E key i pending jb k) = snd (settle_job B E key i jb ?k1)"
        using True p by (simp add: accept_job_def split_beta split: prod.splits)
      then show ?thesis
        using settle_completes [of B ?k1 key jb J E i] inv1 un1 o1 True assms(3) by simp
    next
      case False
      then have "wk_status (snd (accept_job J B E key i pending jb k)) key = key_status (snd ?r) key"
        using True p by (auto simp: accept_job_def pass_of_def split: prod.splits pass_result.splits sum.splits)
      with un1 assms(3) show ?thesis by (simp add: unfinished_def)
    qed
  qed
next
  case False
  then show ?thesis using unfinished_fail [OF assms(1,2)] assms(3) by (auto simp: accept_job_def unfinished_def)
qed

lemma jobs_send_Ok:
  "jobs_send J n r http = Ok jb \<Longrightarrow>
   \<exists>a bytes. http = Ok a \<and> ha_status a = n \<and> parse_job J bytes = Some jb \<and> job_acceptable J r jb"
  by (auto simp: jobs_send_def then_result_Ok_iff split: sum.splits if_splits option.splits)

lemma result_completes:
  assumes "outbox_inv B (wk_outbox k)" "unfinished (wk_outbox k) key"
    and "wk_status (snd (reconcile_result J B E key i pending result k)) key = Some (Completed j d p)"
  shows "\<not> pe_stopped E \<and> (\<exists>jb. result = Ok jb \<and> verified_completion J key i jb j d p)"
proof -
  have "\<not> pe_stopped E" using assms(2,3) by (auto simp: reconcile_result_def unfinished_def)
  moreover have "result \<noteq> Err e" for e
    using unfinished_error [OF assms(1,2)] assms(3) \<open>\<not> pe_stopped E\<close>
    by (auto simp: reconcile_result_def unfinished_def)
  ultimately show ?thesis
    using accept_completes [OF assms(1,2)] assms(3) by (cases result) (auto simp: reconcile_result_def)
qed

lemma entry_completes:
  assumes inv: "outbox_inv B (wk_outbox k)" and un: "unfinished (wk_outbox k) key"
    and run: "reconcile_entry J B remotes E key e k = (res, k', ps)"
    and fin: "wk_status k' key = Some (Completed j d p)"
  shows "\<exists>jb. verified_completion J key (de_identity e) jb j d p \<and>
    (submit J (di_request (de_identity e)) key (pe_http E) = Ok jb \<or>
     (\<exists>i. jobs_get J B i (di_request (de_identity e)) (pe_http E) = Ok jb))"
proof -
  let ?i = "de_identity e"
  let ?s = "submit J (di_request ?i) key (pe_http E)"
  let ?b = "begin_send (pe_begin_ok E) (pe_now E) key (wk_outbox k)"
  have f: "wk_status (snd (worker_fail w key code k)) key \<noteq> Some (Completed j d p)" for w code
    using unfinished_fail [OF inv un] by (simp add: unfinished_def)
  have n: "wk_status k key \<noteq> Some (Completed j d p)" using un by (simp add: unfinished_def)
  have invb: "outbox_inv B (snd ?b)" using local_step_ops(1) [OF inv] by (simp add: local_step_def)
  have unb: "unfinished (snd ?b) key" by (rule unfinished_ops [OF inv un])
  consider (sent) "wk_status (snd (reconcile_result J B E key ?i True ?s (snd (pass_of ?b k)))) key = Some (Completed j d p)"
    | (got) i where "wk_status (snd (reconcile_result J B E key ?i False
        (jobs_get J B i (di_request ?i) (pe_http E)) k)) key = Some (Completed j d p)"
    using run fin f n unb
    by (auto simp: reconcile_entry_def pass_of_def unfinished_def
        split: option.splits dispatch_state.splits prod.splits pass_result.splits sum.splits) (metis snd_conv)+
  then show ?thesis
  proof cases
    case sent
    from result_completes [OF _ _ sent] invb unb show ?thesis by (auto simp: pass_of_def)
  next
    case (got i)
    from result_completes [OF inv un got] show ?thesis by auto
  qed
qed

subsection \<open>Properties\<close>

text \<open>C3: whatever the worker does -- observations, passes cut short by a stop or by a failing disk, the
  operator's adoptions and archivings, crashes and restarts -- an identity is submitted again only
  after the updater definitely refused every earlier submission as busy, and never once the
  ledger has it past \<open>Pending\<close>.\<close>

theorem submission_is_never_replayed:
  assumes "dispatch_run J B k p k'" "outbox_inv B (wk_outbox k)"
  shows "(\<forall>E \<in> set (butlast (of_key key p)). busy_post E) \<and>
    (of_key key p \<noteq> [] \<and> \<not> busy_post (last (of_key key p)) \<longrightarrow> advanced (wk_status k' key)) \<and>
    (advanced (wk_status k key) \<longrightarrow> of_key key p = [] \<and> advanced (wk_status k' key))"
  using dispatch_run_lawful [OF assms, of key] by (auto simp: lawful_def)

definition sample_jobs :: jobs_lib where
  "sample_jobs = \<lparr>uuid_parses = (\<lambda>j. j = ''job''), key_sha256 = (\<lambda>_. ''digest''), parse_job = (\<lambda>_. None)\<rparr>"

definition sample_remote :: remote where
  "sample_remote = \<lparr>rm_digest = replicate 64 (CHR ''b''), rm_profile = ''full'', rm_profile_revision = ''r1'',
     rm_require_full_catalog = True, rm_require_full_export = False, rm_require_publication = False\<rparr>"

definition sample_worker :: "dispatch_state \<Rightarrow> worker" where
  "sample_worker st = \<lparr>wk_region = Jp, wk_environment = ''release'', wk_platform = ''iOS'',
     wk_outbox = sample_outbox st, wk_refusals = Map.empty, wk_transport_errors = 0\<rparr>"

definition sample_env :: "send_error + http_answer \<Rightarrow> pass_env" where
  "sample_env http = \<lparr>pe_now = 5, pe_begin_ok = True, pe_ack_ok = True, pe_write_ok = True, pe_http = http,
     pe_stopped = False\<rparr>"

lemma sample_key_submits: "submits (di_request sample_identity) sample_key"
  by (simp add: submits_def validate_request_def idempotency_key_ok_def sample_identity_def sample_key_def
      byte_defs list_all_iff)

lemma sample_worker_batch:
  "\<not> terminal st \<Longrightarrow>
   next_batch True 16 (sample_outbox st) = (Ok [(sample_key, \<lparr>de_identity = sample_identity, de_state = st\<rparr>)],
     (sample_outbox st)\<lparr>ox_file := (ox_ledger (sample_outbox st))\<lparr>le_cursor := Some sample_key\<rparr>,
                        ox_ledger := (ox_ledger (sample_outbox st))\<lparr>le_cursor := Some sample_key\<rparr>\<rparr>)"
  by (simp add: next_batch_def batch_of_def sample_outbox_def outbox_commit_def Let_def)

lemma sample_outbox_entries:
  "le_entries (ox_ledger (sample_outbox st)) = [(sample_key, \<lparr>de_identity = sample_identity, de_state = st\<rparr>)]"
  by (simp add: sample_outbox_def Let_def)

lemma sample_remote_of: "remote_of [sample_remote] sample_identity = Some sample_remote"
  by (simp add: remote_of_def sample_remote_def sample_identity_def)

theorem submission_is_never_replayed_witness:
  "\<exists>p k'. dispatch_run sample_jobs sample_lib (sample_worker Pending) p k' \<and>
     of_key sample_key p = [sample_env (Inl OtherError)] \<and> advanced (wk_status k' sample_key)"
proof -
  let ?E = "\<lambda>_. sample_env (Inl OtherError)"
  let ?r = "reconcile sample_jobs sample_lib [sample_remote] True ?E (sample_worker Pending)"
  obtain res k' p where r: "?r = (res, k', p)" by (metis prod_cases3)
  have run: "dispatch_run sample_jobs sample_lib (sample_worker Pending) ([] @ p) k'"
    by (rule dispatch_run.continue [OF dispatch_run.start dispatch_step.passing [OF r]])
  have inv: "outbox_inv sample_lib (wk_outbox (sample_worker Pending))"
    using sample_outbox_inv [of Pending] by (simp add: sample_worker_def)
  have "snd (snd ?r) = [(sample_key, sample_env (Inl OtherError))]"
    using sample_key_submits
    by (simp add: reconcile_def sample_worker_def sample_worker_batch reconcile_entry_def sample_remote_of
        pass_of_def begin_send_def outbox_change_def outbox_commit_def sample_outbox_entries
        Let_def sample_env_def split: prod.splits pass_result.splits)
  then have p: "p = [(sample_key, sample_env (Inl OtherError))]" using r by simp
  from submission_is_never_replayed [OF run inv, of sample_key]
  have "advanced (wk_status k' sample_key)" by (simp add: p busy_post_def sample_env_def)
  with run show ?thesis by (intro exI [of _ p] exI [of _ k']) (simp add: p)
qed


definition sample_outcome :: job_outcome where
  "sample_outcome =
     \<lparr>oc_verification = \<lparr>vf_region = Jp, vf_platform = ''iOS'', vf_environment = ''release'',
        vf_resource_version = ''v1'', vf_platform_hash = ''h1'', vf_catalog_sha256 = replicate 64 (CHR ''c''),
        vf_full_catalog = True, vf_catalog_verified = True\<rparr>,
      oc_export = None, oc_publication_id = None\<rparr>"

definition sample_job :: job where
  "sample_job = \<lparr>jb_id = ''job'', jb_request = di_request sample_identity, jb_status = JobCompleted,
     jb_idempotency_sha256 = Some ''digest'', jb_outcome = Some sample_outcome\<rparr>"

definition sample_answer :: http_answer where
  "sample_answer = \<lparr>ha_status = 200, ha_headers = [], ha_content_length = None, ha_chunks = []\<rparr>"

definition sample_updater :: jobs_lib where
  "sample_updater = sample_jobs\<lparr>parse_job := (\<lambda>_. Some sample_job)\<rparr>"

lemma sample_get:
  "jobs_get sample_updater sample_lib ''job'' (di_request sample_identity) (Inr sample_answer) = Ok sample_job"
  by (simp add: jobs_get_def validate_request_def sample_identity_def byte_defs sample_lib_def jobs_send_def
      sample_answer_def sample_updater_def sample_jobs_def job_acceptable_def sample_job_def
      outcome_acceptable_def sample_outcome_def component_ok_def list_all_iff)


text \<open>C39: the transport accepts any spelling of a UUID as the id of an accepted job, the ledger only the
  canonical one: a job accepted under another spelling ends the pass with an error, and the entry
  stays \<open>Sending\<close>.\<close>

theorem noncanonical_job_id_ends_the_pass:
  assumes "wk_entry k key = Some e" "de_state e = Pending" "remote_of remotes (de_identity e) \<noteq> None"
    and "pe_begin_ok E" "\<not> pe_stopped E" "bt_wf (le_entries (ox_ledger (wk_outbox k)))"
    and "submit J (di_request (de_identity e)) key (pe_http E) = Ok jb" "\<not> uuid_ok B (jb_id jb)"
  shows "\<exists>k' p. reconcile_entry J B remotes E key e k = (PassFailed Invalid, k', p) \<and>
    wk_status k' key = Some (Sending (pe_now E))"
proof -
  have "jb_idempotency_sha256 jb = Some (key_sha256 J key)"
    using assms(7) by (auto simp: submit_def then_result_Ok_iff split: if_splits)
  then show ?thesis
    using assms
    by (auto simp: reconcile_entry_def pass_of_def begin_send_def outbox_change_def outbox_commit_def
        reconcile_result_def accept_job_def acknowledge_def key_status_def bt_simps)
qed

definition sloppy_job :: job where
  "sloppy_job = sample_job\<lparr>jb_id := ''JOB'', jb_status := Queued, jb_outcome := None\<rparr>"

definition sloppy_updater :: jobs_lib where
  "sloppy_updater = \<lparr>uuid_parses = (\<lambda>_. True), key_sha256 = (\<lambda>_. ''digest''), parse_job = (\<lambda>_. Some sloppy_job)\<rparr>"

lemma sloppy_submit:
  "submit sloppy_updater (di_request sample_identity) sample_key (Inr (sample_answer\<lparr>ha_status := 202\<rparr>)) = Ok sloppy_job"
  using sample_key_submits
  by (auto simp: submit_def submits_def is_ok_iff jobs_send_def sample_answer_def sloppy_updater_def job_acceptable_def
      sloppy_job_def sample_job_def)

theorem noncanonical_job_id_ends_the_pass_witness:
  "\<exists>k' p. reconcile_entry sloppy_updater sample_lib [sample_remote] (sample_env (Inr (sample_answer\<lparr>ha_status := 202\<rparr>)))
       sample_key \<lparr>de_identity = sample_identity, de_state = Pending\<rparr> (sample_worker Pending) =
       (PassFailed Invalid, k', p) \<and> wk_status k' sample_key = Some (Sending 5)"
proof -
  let ?E = "sample_env (Inr (sample_answer\<lparr>ha_status := 202\<rparr>))"
  let ?e = "\<lparr>de_identity = sample_identity, de_state = Pending\<rparr>"
  have h: "wk_entry (sample_worker Pending) sample_key = Some ?e" "de_state ?e = Pending"
    "remote_of [sample_remote] (de_identity ?e) \<noteq> None" "pe_begin_ok ?E" "\<not> pe_stopped ?E"
    "bt_wf (le_entries (ox_ledger (wk_outbox (sample_worker Pending))))"
    by (simp_all add: sample_worker_def sample_outbox_entries sample_remote_of sample_env_def bt_wf_def)
  have s: "submit sloppy_updater (di_request (de_identity ?e)) sample_key (pe_http ?E) = Ok sloppy_job"
    using sloppy_submit by (simp add: sample_env_def)
  have u: "\<not> uuid_ok sample_lib (jb_id sloppy_job)" by (simp add: sample_lib_def sloppy_job_def)
  from noncanonical_job_id_ends_the_pass [OF h s u] show ?thesis by (simp add: sample_env_def)
qed

end
