(* ===== verification/Asset_Admin.thy ===== *)
theory Asset_Admin
  imports Asset_Dispatch
begin

section \<open>Administration of the dispatch ledger (src/asset_dispatch_admin.rs)\<close>

text \<open>
  The operator's commands on the ledger, which its sole owner executes between passes, and the
  counts the worker publishes. An HTTP status is the error of a command; the JSON answers are the
  values they are made of. The queue between the routes and the worker (bounded, with a reply
  channel that may be closed before the command runs) is the argument \<open>abandoned\<close>.
\<close>

definition FAILURE_CODES :: "string list" where
  "FAILURE_CODES =
     [''target_removed'', ''submission_ambiguous'', ''job_identity_mismatch'', ''job_failed'', ''job_cancelled'',
      ''outcome_mismatch'', ''job_pruned'', ''submission_refused'', ''submission_rejected'',
      ''submission_unauthorized'', ''idempotency_conflict'', ''asset_dispatch_request_invalid'',
      ''invalid_job_response'']"

record entry_counts =
  ec_total :: nat
  ec_capacity :: nat
  ec_pending :: nat
  ec_sending :: nat
  ec_submitted :: nat
  ec_completed :: nat
  ec_failed :: nat
  ec_busy_retrying :: nat

type_synonym failed_counts = "(string, nat) btree_map"

definition failure_label :: "string \<Rightarrow> string" where
  "failure_label code = (case List.find (\<lambda>known. known = code) FAILURE_CODES of Some c \<Rightarrow> c | None \<Rightarrow> ''other'')"

definition count_failure :: "string \<Rightarrow> failed_counts \<Rightarrow> failed_counts" where
  "count_failure code m =
     (let c = failure_label code
      in bt_insert c ((case bt_get m c of None \<Rightarrow> 0 | Some n \<Rightarrow> n) + 1) m)"

definition count_entry ::
  "(string \<rightharpoonup> nat) \<Rightarrow> string \<times> dispatch_entry \<Rightarrow> entry_counts \<times> failed_counts \<Rightarrow> entry_counts \<times> failed_counts" where
  "count_entry refusals x a =
     (case (x, a) of ((key, e), (c, failed)) \<Rightarrow>
        (case de_state e of
           Pending \<Rightarrow> (c\<lparr>ec_pending := ec_pending c + 1,
                         ec_busy_retrying := ec_busy_retrying c + (if refusals key \<noteq> None then 1 else 0)\<rparr>, failed)
         | Sending _ \<Rightarrow> (c\<lparr>ec_sending := ec_sending c + 1\<rparr>, failed)
         | Submitted _ \<Rightarrow> (c\<lparr>ec_submitted := ec_submitted c + 1\<rparr>, failed)
         | Completed _ _ _ \<Rightarrow> (c\<lparr>ec_completed := ec_completed c + 1\<rparr>, failed)
         | Failed _ code \<Rightarrow> (c\<lparr>ec_failed := ec_failed c + 1\<rparr>, count_failure code failed)))"

definition summarize :: "outbox \<Rightarrow> nat \<Rightarrow> (string \<rightharpoonup> nat) \<Rightarrow> entry_counts \<times> failed_counts" where
  "summarize b capacity refusals =
     (let entries = le_entries (ox_ledger b)
      in fold (count_entry refusals) entries
           (\<lparr>ec_total = length entries, ec_capacity = capacity, ec_pending = 0, ec_sending = 0, ec_submitted = 0,
             ec_completed = 0, ec_failed = 0, ec_busy_retrying = 0\<rparr>, []))"

subsection \<open>Commands\<close>

datatype admin_action =
    AdminList "nat option" "string option"
  | AdminDetail string
  | AdminArchive string string
  | AdminAdopt string string

datatype admin_reply =
    PageReply nat "(string \<times> dispatch_entry) list" "string option" \<comment> \<open>\<open>total\<close>, \<open>entries\<close>, \<open>next_after\<close>\<close>
  | EntryReply string bool dispatch_entry \<comment> \<open>\<open>key\<close>, \<open>archived\<close>, \<open>entry\<close>\<close>

definition admin_key_ok :: "string \<Rightarrow> bool" where
  "admin_key_ok key \<longleftrightarrow>
     length key = 71 \<and> starts_with key ''sirius-'' \<and>
     list_all (\<lambda>b. ascii_hexdigit b \<and> \<not> ascii_upper b) (drop 7 key)"

definition limit_of :: "nat option \<Rightarrow> nat" where
  "limit_of l = (case l of None \<Rightarrow> 50 | Some n \<Rightarrow> n)"

fun admin_check :: "outbox_lib \<Rightarrow> admin_action \<Rightarrow> nat + unit" where
  \<comment> \<open>the checks of the routes, before the command is queued\<close>
  "admin_check B (AdminList limit after) =
     (if \<not> (1 \<le> limit_of limit \<and> limit_of limit \<le> 200)
         \<or> (case after of None \<Rightarrow> False | Some k \<Rightarrow> \<not> admin_key_ok k)
      then Err 400 else Ok ())"
| "admin_check B (AdminDetail key) = (if \<not> admin_key_ok key then Err 400 else Ok ())"
| "admin_check B (AdminArchive key job) = (if \<not> admin_key_ok key \<or> \<not> uuid_ok B job then Err 400 else Ok ())"
| "admin_check B (AdminAdopt key job) = (if \<not> admin_key_ok key \<or> \<not> uuid_ok B job then Err 400 else Ok ())"

definition after_cursor :: "string option \<Rightarrow> (string \<times> dispatch_entry) list \<Rightarrow> (string \<times> dispatch_entry) list" where
  "after_cursor after es = filter (\<lambda>x. case after of None \<Rightarrow> True | Some c \<Rightarrow> c < fst x) es"

definition admin_page :: "nat \<Rightarrow> string option \<Rightarrow> (string \<times> dispatch_entry) list
   \<Rightarrow> (string \<times> dispatch_entry) list \<times> string option" where
  "admin_page limit after es =
     (let selected = after_cursor after es;
          page = take limit selected
      in (page,
          if drop limit selected \<noteq> [] \<and> page \<noteq> [] then Some (fst (last page)) else None))"

definition outbox_status :: "outbox_error \<Rightarrow> nat" where
  "outbox_status e = (if e = Invalid then 409 else 503)"

record admin_env =
  ad_abandoned :: bool \<comment> \<open>the caller has given up: the reply channel is closed\<close>
  ad_archive_ok :: bool
  ad_sync_ok :: bool
  ad_write_ok :: bool

fun admin_execute :: "outbox_lib \<Rightarrow> admin_env \<Rightarrow> admin_action \<Rightarrow> outbox \<Rightarrow> (nat + admin_reply) \<times> outbox" where
  "admin_execute B A (AdminList limit after) b =
     (let es = le_entries (ox_ledger b)
      in case admin_page (limit_of limit) after es of
           (page, nxt) \<Rightarrow> (Ok (PageReply (length es) page nxt), b))"
| "admin_execute B A (AdminDetail key) b =
     (case bt_get (le_entries (ox_ledger b)) key of
        Some e \<Rightarrow> (Ok (EntryReply key False e), b)
      | None \<Rightarrow>
          (case outbox_archived B key b of
             Inr (Some e) \<Rightarrow> (Ok (EntryReply key True e), b)
           | Inr None \<Rightarrow> (Err 404, b)
           | Inl _ \<Rightarrow> (Err 503, b)))"
| "admin_execute B A (AdminArchive key job) b =
     (case archive_completed B (ad_archive_ok A) (ad_sync_ok A) (ad_write_ok A) key job b of
        (Inr e, b1) \<Rightarrow> (Ok (EntryReply key True e), b1)
      | (Inl err, b1) \<Rightarrow> (Err (outbox_status err), b1))"
| "admin_execute B A (AdminAdopt key job) b =
     (if bt_get (le_entries (ox_ledger b)) key = None then (Err 404, b)
      else case adopt B (ad_write_ok A) key job b of
             (Inr _, b1) \<Rightarrow>
               (case bt_get (le_entries (ox_ledger b1)) key of
                  Some e \<Rightarrow> (Ok (EntryReply key False e), b1)
                | None \<Rightarrow> (Err 503, b1)) \<comment> \<open>unreachable: the entry was just changed\<close>
           | (Inl err, b1) \<Rightarrow> (Err (outbox_status err), b1))"

definition admin_handle ::
  "outbox_lib \<Rightarrow> admin_env \<Rightarrow> admin_action \<Rightarrow> outbox \<Rightarrow> (nat + admin_reply) option \<times> outbox" where
  "admin_handle B A action b =
     (if ad_abandoned A then (None, b)
      else case admin_execute B A action b of (r, b1) \<Rightarrow> (Some r, b1))"

fun admin_walk ::
  "nat \<Rightarrow> nat \<Rightarrow> string option \<Rightarrow> (string \<times> dispatch_entry) list \<Rightarrow> (string \<times> dispatch_entry) list list" where
  \<comment> \<open>a client that asks for at most \<open>fuel\<close> pages, following \<open>next_after\<close>\<close>
  "admin_walk 0 limit after es = []"
| "admin_walk (Suc fuel) limit after es =
     (case admin_page limit after es of
        (page, None) \<Rightarrow> [page]
      | (page, Some c) \<Rightarrow> page # admin_walk fuel limit (Some c) es)"

subsection \<open>Properties\<close>

lemma filter_beyond_last:
  assumes "sorted_wrt (<) (map fst xs)" "0 < n" "n < length xs"
  shows "filter (\<lambda>x. fst (last (take n xs)) < fst x) xs = drop n (xs::('k::linorder \<times> 'v) list)"
proof -
  have l: "last (take n xs) = xs ! (n - 1)"
    using assms(2,3) by (cases n) (simp_all add: take_Suc_conv_app_nth)
  have lt: "fst (xs ! i) < fst (xs ! j)" if "i < j" "j < length xs" for i j
    using sorted_wrt_nth_less [OF assms(1), of i j] that by simp
  have "\<not> fst (xs ! (n - 1)) < fst x" if x: "x \<in> set (take n xs)" for x
  proof -
    obtain i where "i < length (take n xs)" "x = take n xs ! i"
      using x unfolding in_set_conv_nth by auto
    then have i: "i < n" "x = xs ! i" by simp_all
    then show ?thesis using lt [of i "n - 1"] assms(3) by (cases "i = n - 1") (auto simp: not_less less_imp_le)
  qed
  moreover have "fst (xs ! (n - 1)) < fst x" if x: "x \<in> set (drop n xs)" for x
  proof -
    obtain i where "i < length xs - n" "x = xs ! (n + i)" using x by (auto simp: in_set_conv_nth)
    then show ?thesis using lt [of "n - 1" "n + i"] assms(2) by simp
  qed
  ultimately have "filter (\<lambda>x. fst (xs ! (n - 1)) < fst x) (take n xs @ drop n xs) = drop n xs"
    unfolding filter_append by (simp add: filter_empty_conv filter_id_conv)
  then show ?thesis by (simp add: l)
qed

lemma after_cursor_sorted: "bt_wf es \<Longrightarrow> sorted_wrt (<) (map fst (after_cursor after es))"
  by (simp add: bt_wf_def after_cursor_def sorted_wrt_map sorted_wrt_filter)

lemma next_page_starts_where_this_ends:
  assumes "bt_wf es" "0 < limit" "admin_page limit after es = (page, Some c)"
  shows "after_cursor (Some c) es = drop limit (after_cursor after es) \<and> page = take limit (after_cursor after es)"
proof -
  let ?s = "after_cursor after es"
  have page: "page = take limit ?s" and c: "c = fst (last (take limit ?s))" and more: "limit < length ?s"
    using assms(3) by (auto simp: admin_page_def Let_def split: if_splits)
  have "last (take limit ?s) \<in> set ?s"
  proof -
    have "take limit ?s \<noteq> []" using more assms(2) by auto
    from last_in_set [OF this] show ?thesis by (rule in_set_takeD)
  qed
  then have lower: "case after of None \<Rightarrow> True | Some a \<Rightarrow> a < c"
    by (auto simp: c after_cursor_def split: option.splits)
  have "after_cursor (Some c) es = filter (\<lambda>x. c < fst x) ?s"
    using lower by (auto simp: after_cursor_def intro!: filter_cong split: option.splits)
  also have "\<dots> = drop limit ?s"
    unfolding c by (rule filter_beyond_last [OF after_cursor_sorted [OF assms(1)] assms(2) more])
  finally show ?thesis using page by simp
qed

lemma admin_walk_from:
  "bt_wf es \<Longrightarrow> 0 < limit \<Longrightarrow> length (after_cursor after es) < fuel \<Longrightarrow>
   concat (admin_walk fuel limit after es) = after_cursor after es \<and>
   list_all (\<lambda>page. length page \<le> limit) (admin_walk fuel limit after es)"
proof (induction fuel arbitrary: after)
  case (Suc fuel)
  let ?s = "after_cursor after es"
  obtain page nxt where p: "admin_page limit after es = (page, nxt)" by fastforce
  then have page: "page = take limit ?s" by (simp add: admin_page_def Let_def)
  show ?case
  proof (cases nxt)
    case None
    with p have "drop limit ?s = []" using Suc.prems(2)
      by (auto simp: admin_page_def Let_def split: if_splits)
    with None show ?thesis by (simp add: p page)
  next
    case (Some c)
    from next_page_starts_where_this_ends [OF Suc.prems(1,2) p [unfolded Some]]
    have nx: "after_cursor (Some c) es = drop limit ?s" by simp
    have "limit < length ?s" using p Some by (auto simp: admin_page_def Let_def split: if_splits)
    then have "length (after_cursor (Some c) es) < fuel" using Suc.prems nx by simp
    from Suc.IH [OF Suc.prems(1,2) this] nx show ?thesis
      by (simp add: p Some page)
  qed
qed simp

text \<open>An operator who pages through the ledger by following \<open>next_after\<close> sees every entry exactly
  once and in key order, in pages within the limit, and the walk ends.\<close>

theorem paging_enumerates_the_ledger:
  assumes "outbox_inv B b" "admin_check B (AdminList limit None) = Ok ()"
    and "length (le_entries (ox_ledger b)) < fuel"
  shows "concat (admin_walk fuel (limit_of limit) None (le_entries (ox_ledger b))) = le_entries (ox_ledger b) \<and>
    list_all (\<lambda>page. length page \<le> limit_of limit)
      (admin_walk fuel (limit_of limit) None (le_entries (ox_ledger b)))"
proof -
  have "0 < limit_of limit" using assms(2) by (auto split: if_splits)
  then show ?thesis
    using admin_walk_from [OF outbox_inv_wf [OF assms(1)], of "limit_of limit" None fuel] assms(3)
    by (simp add: after_cursor_def)
qed

theorem paging_enumerates_the_ledger_witness:
  "concat (admin_walk 2 1 None (le_entries (ox_ledger (sample_outbox Pending)))) =
     le_entries (ox_ledger (sample_outbox Pending))"
proof -
  have "outbox_inv sample_lib (sample_outbox Pending)" by (rule sample_outbox_inv) simp
  moreover have "admin_check sample_lib (AdminList (Some 1) None) = Ok ()" by (simp add: limit_of_def)
  moreover have "length (le_entries (ox_ledger (sample_outbox Pending))) < 2" by (simp add: sample_outbox_entries)
  ultimately show ?thesis
    using paging_enumerates_the_ledger [of sample_lib "sample_outbox Pending" "Some 1" 2]
    by (simp add: limit_of_def)
qed

subsection \<open>Counts\<close>

definition counted :: "entry_counts \<times> failed_counts \<Rightarrow> nat" where
  "counted a = (case a of (c, _) \<Rightarrow>
     ec_pending c + ec_sending c + ec_submitted c + ec_completed c + ec_failed c)"

definition counts_ok :: "entry_counts \<times> failed_counts \<Rightarrow> bool" where
  "counts_ok a \<longleftrightarrow>
     bt_wf (snd a) \<and> sum_list (map snd (snd a)) = ec_failed (fst a) \<and>
     ec_busy_retrying (fst a) \<le> ec_pending (fst a)"

lemma weight_count: "sum_list (map snd m) = bt_weight (\<lambda>n. n) m"
  by (simp add: bt_weight_def comp_def)

lemma bt_weight_insert_present:
  "bt_wf m \<Longrightarrow> bt_get m k = Some v \<Longrightarrow> bt_weight f (bt_insert k w m) + f v = bt_weight f m + f w"
  by (induction m) (force simp: bt_wf_Cons bt_get_mem split: if_splits)+

lemma count_failure_weight:
  assumes "bt_wf m"
  shows "bt_weight (\<lambda>n. n) (count_failure code m) = bt_weight (\<lambda>n. n) m + 1 \<and> bt_wf (count_failure code m)"
proof (cases "bt_get m (failure_label code)")
  case None
  then show ?thesis using assms by (simp add: count_failure_def bt_wf_insert bt_weight_insert_absent)
next
  case (Some n)
  from bt_weight_insert_present [OF assms Some, of "\<lambda>n. n" "Suc n"] Some show ?thesis
    using assms by (simp add: count_failure_def bt_wf_insert)
qed

lemma count_entry_ok:
  "counts_ok a \<Longrightarrow> counts_ok (count_entry refusals x a) \<and> counted (count_entry refusals x a) = counted a + 1 \<and>
   ec_total (fst (count_entry refusals x a)) = ec_total (fst a) \<and>
   ec_capacity (fst (count_entry refusals x a)) = ec_capacity (fst a)"
  using count_failure_weight [of "snd a"]
  by (cases x; cases a) (auto simp: count_entry_def counts_ok_def counted_def weight_count split: dispatch_state.splits)

lemma count_entries_ok:
  "counts_ok a \<Longrightarrow> counts_ok (fold (count_entry refusals) es a) \<and>
   counted (fold (count_entry refusals) es a) = counted a + length es \<and>
   ec_total (fst (fold (count_entry refusals) es a)) = ec_total (fst a) \<and>
   ec_capacity (fst (fold (count_entry refusals) es a)) = ec_capacity (fst a)"
proof (induction es arbitrary: a)
  case (Cons x es)
  show ?case using Cons.IH [of "count_entry refusals x a"] count_entry_ok [OF Cons.prems, of refusals x] by simp
qed simp

text \<open>The published counts are exact: every working entry is counted in exactly one state, the
  failures by code add up to the failed entries, and no more entries retry a busy updater than are
  pending.\<close>

theorem published_counts_are_exact:
  "case summarize b capacity refusals of (c, failed) \<Rightarrow>
     ec_total c = length (le_entries (ox_ledger b)) \<and> ec_capacity c = capacity \<and>
     ec_pending c + ec_sending c + ec_submitted c + ec_completed c + ec_failed c = ec_total c \<and>
     sum_list (map snd failed) = ec_failed c \<and> ec_busy_retrying c \<le> ec_pending c"
proof -
  let ?es = "le_entries (ox_ledger b)"
  let ?z = "(\<lparr>ec_total = length ?es, ec_capacity = capacity, ec_pending = 0, ec_sending = 0, ec_submitted = 0,
             ec_completed = 0, ec_failed = 0, ec_busy_retrying = 0\<rparr>, []) :: entry_counts \<times> failed_counts"
  have "counts_ok ?z" by (simp add: counts_ok_def)
  from count_entries_ok [OF this, of refusals ?es] show ?thesis
    by (auto simp: summarize_def Let_def counts_ok_def counted_def split: prod.splits)
qed

end
