(* ===== verification/Protocol_Pool.thy ===== *)
theory Protocol_Pool
  imports Game_Routes
begin

section \<open>Protocol descriptors (src/protocol.rs)\<close>

text \<open>
  The checks on a compiled set of \<open>.proto\<close> files: the contract a bundle must fulfil for its family and the
  compatibility of a new bundle with the active one. The descriptor pool of \<open>prost_reflect\<close> is data here:
  services, messages and enums with the attributes the checks read. Every refusal of this file is the one error
  \<open>ProtocolDefinition\<close>, so a check is a truth value and the functions return that error when it is false.
\<close>

datatype cardinality = Optional | Required_field | Repeated

datatype scalar = KInt64 | KInt32 | KUint32 | KString | KOther string

datatype kind = KMessage string | KEnum string | KScalar scalar

record field_desc =
  fd_number :: nat
  fd_name :: string
  fd_json_name :: string
  fd_cardinality :: cardinality
  fd_is_list :: bool
  fd_is_map :: bool
  fd_is_packed :: bool
  fd_presence :: bool
  fd_proto3_optional :: bool
  fd_oneof :: "string option"
  fd_default :: "string option"
  fd_kind :: kind

record message_desc =
  md_map_entry :: bool
  md_fields :: "field_desc list"

record enum_desc =
  ed_default :: "string \<times> int"
  ed_values :: "(string \<times> int) list"
  ed_by_number :: "int \<Rightarrow> string option" \<comment> \<open>\<open>get_value\<close>: one of the names when a number has several\<close>

record method_desc =
  me_name :: string
  me_input :: string
  me_output :: string
  me_options :: string \<comment> \<open>encoded\<close>
  me_client_streaming :: bool
  me_server_streaming :: bool
  me_skip_auth :: "bool option" \<comment> \<open>the extension \<open>skip_authentication\<close>\<close>

record descriptor_pool =
  dp_services :: "(string \<times> method_desc list) list"
  dp_messages :: "(string \<times> message_desc) list"
  dp_enums :: "(string \<times> enum_desc) list"
  dp_skip_auth :: bool \<comment> \<open>the extension is declared\<close>

subsection \<open>Lookups\<close>

fun rsplit_slash :: "string \<Rightarrow> (string \<times> string) option" where
  \<comment> \<open>\<open>rsplit_once('/')\<close>\<close>
  "rsplit_slash [] = None"
| "rsplit_slash (c # cs) =
     (case rsplit_slash cs of
        Some (a, b) \<Rightarrow> Some (c # a, b)
      | None \<Rightarrow> if c = CHR ''/'' then Some ([], cs) else None)"

definition pool_method :: "descriptor_pool \<Rightarrow> string \<Rightarrow> method_desc option" where
  "pool_method P route =
     (case rsplit_slash (dropWhile (\<lambda>c. c = CHR ''/'') route) of
        None \<Rightarrow> None
      | Some (service, name) \<Rightarrow>
          Option.bind (map_of (dp_services P) service) (find (\<lambda>m. me_name m = name)))"

definition get_field :: "message_desc \<Rightarrow> nat \<Rightarrow> field_desc option" where
  "get_field m n = find (\<lambda>f. fd_number f = n) (md_fields m)"

definition field_ok :: "message_desc \<Rightarrow> string \<Rightarrow> kind \<Rightarrow> bool \<Rightarrow> bool" where
  "field_ok m name k repeated \<longleftrightarrow>
     (case find (\<lambda>f. fd_json_name f = name) (md_fields m) of
        None \<Rightarrow> False
      | Some f \<Rightarrow> fd_kind f = k \<and> fd_is_list f = repeated \<and> \<not> fd_is_map f)"

definition numbered :: "message_desc \<Rightarrow> nat \<Rightarrow> string option \<Rightarrow> kind \<Rightarrow> bool \<Rightarrow> bool" where
  "numbered m n json k repeated \<longleftrightarrow>
     (case get_field m n of
        None \<Rightarrow> False
      | Some f \<Rightarrow> (json = None \<or> json = Some (fd_json_name f)) \<and> fd_kind f = k \<and> fd_is_list f = repeated \<and> \<not> fd_is_map f)"

definition message_of :: "descriptor_pool \<Rightarrow> field_desc \<Rightarrow> message_desc option" where
  "message_of P f = (case fd_kind f of KMessage n \<Rightarrow> map_of (dp_messages P) n | _ \<Rightarrow> None)"

definition server_area_json_name :: "descriptor_pool \<Rightarrow> string option" where
  "server_area_json_name P =
     Option.bind (pool_method P SERVER_LIST) (\<lambda>m.
     Option.bind (map_of (dp_messages P) (me_output m)) (\<lambda>output.
     Option.bind (get_field output 1) (\<lambda>f.
     Option.bind (message_of P f) (\<lambda>info.
     map_option fd_json_name (get_field info 8)))))"

subsection \<open>The contract of a family\<close>

abbreviation text_kind :: kind where "text_kind \<equiv> KScalar KString"

definition server_list_ok :: "descriptor_pool \<Rightarrow> message_desc \<Rightarrow> bool" where
  "server_list_ok P output \<longleftrightarrow>
     (case get_field output 1 of
        None \<Rightarrow> False
      | Some server \<Rightarrow>
          fd_name server = ''servers'' \<and> fd_is_list server \<and> \<not> fd_is_map server \<and>
          (case message_of P server of
             None \<Rightarrow> False
           | Some info \<Rightarrow>
               list_all (\<lambda>(n, key). numbered info n (Some key) text_kind False)
                 [(1, ''name''), (2, ''cdnRoot''), (3, ''apiServerRoot''), (4, ''chatServerRoot''),
                  (5, ''atServerRoot''), (6, ''liveServer''), (7, ''displayName''), (9, ''ageIconSpriteName'')] \<and>
               numbered info 8 None text_kind False))"

definition login_input_ok :: "descriptor_pool \<Rightarrow> message_desc \<Rightarrow> bool" where
  "login_input_ok P input \<longleftrightarrow>
     list_all (\<lambda>(n, key). numbered input n (Some key) text_kind False)
       [(1, ''sdkUid''), (2, ''sdkAccessToken''), (4, ''deviceModel''), (5, ''operatingSystem''),
        (6, ''clientVersion''), (8, ''clientPackage''), (13, ''idToken'')] \<and>
     list_all (\<lambda>(n, key). numbered input n (Some key) (KScalar KUint32) False)
       [(3, ''platform''), (10, ''globalChannelId''), (11, ''brandId''), (12, ''areaId'')] \<and>
     (case get_field input 7 of
        None \<Rightarrow> False
      | Some f \<Rightarrow>
          fd_json_name f = ''uuid'' \<and> \<not> fd_is_list f \<and>
          (case message_of P f of
             None \<Rightarrow> False
           | Some uuid \<Rightarrow>
               numbered uuid 1 (Some ''adId'') text_kind False \<and> numbered uuid 2 (Some ''identifier'') text_kind False))"

definition login_output_ok :: "descriptor_pool \<Rightarrow> message_desc \<Rightarrow> bool" where
  "login_output_ok P output \<longleftrightarrow>
     (case get_field output 1 of
        None \<Rightarrow> False
      | Some f \<Rightarrow>
          fd_json_name f = ''credential'' \<and> \<not> fd_is_list f \<and>
          (case message_of P f of
             None \<Rightarrow> False
           | Some credential \<Rightarrow>
               numbered credential 1 (Some ''id'') text_kind False \<and>
               numbered credential 2 (Some ''credential'') text_kind False)) \<and>
     numbered output 2 (Some ''cpServerId'') text_kind False \<and>
     numbered output 3 (Some ''cpServerName'') text_kind False \<and>
     numbered output 4 (Some ''isNewUser'') (KScalar KUint32) False"

definition announcements_ok :: "descriptor_pool \<Rightarrow> message_desc \<Rightarrow> bool" where
  "announcements_ok P input \<longleftrightarrow>
     (case find (\<lambda>f. fd_name f = ''selected_tab'') (md_fields input) of
        None \<Rightarrow> False
      | Some f \<Rightarrow>
          (case fd_kind f of
             KEnum e \<Rightarrow>
               (case map_of (dp_enums P) e of
                  None \<Rightarrow> False
                | Some ed \<Rightarrow> list_all (\<lambda>n. ed_by_number ed n \<noteq> None) [0, 1, 2]) \<and>
               fd_json_name f = ''selectedTab'' \<and> \<not> fd_is_list f
           | _ \<Rightarrow> False))"

definition shape_ok :: "descriptor_pool \<Rightarrow> string \<Rightarrow> string \<Rightarrow> message_desc \<Rightarrow> message_desc \<Rightarrow> bool" where
  \<comment> \<open>the \<open>match\<close> on the route\<close>
  "shape_ok P family route input output \<longleftrightarrow>
     (if route = ANNOUNCEMENT then field_ok input ''id'' (KScalar KInt64) False
      else if route = PROFILE then field_ok input ''playerProfileId'' (KScalar KInt64) False
      else if route = EVENT_RANKING
      then field_ok input ''eventId'' (KScalar KInt64) False \<and> field_ok input ''ranks'' (KScalar KInt32) True
      else if route = EVENT_DECK
      then field_ok input ''eventId'' (KScalar KInt64) False \<and> field_ok input ''playerId'' text_kind False
      else if route = MUSIC_RANKING then field_ok input ''musicId'' (KScalar KInt64) False
      else if route = CHALLENGE_RANKING then field_ok input ''challengeMusicId'' (KScalar KInt64) False
      else if route = VERSION
      then field_ok output ''version'' text_kind False \<and>
           (family = ''global'' \<longrightarrow> field_ok output ''resourceVersion'' text_kind False)
      else if route = SERVER_LIST then server_list_ok P output
      else if route = PLAYER_LOGIN then login_input_ok P input \<and> login_output_ok P output
      else if route = WHOAMI then field_ok output ''playerId'' text_kind False
      else if route = ANNOUNCEMENTS then announcements_ok P input
      else True)"

definition route_ok :: "descriptor_pool \<Rightarrow> string \<Rightarrow> string \<Rightarrow> bool" where
  "route_ok P family route \<longleftrightarrow>
     (case pool_method P route of
        None \<Rightarrow> False
      | Some m \<Rightarrow>
          \<not> me_client_streaming m \<and> \<not> me_server_streaming m \<and> me_skip_auth m = Some (\<not> authenticated route) \<and>
          (case (map_of (dp_messages P) (me_input m), map_of (dp_messages P) (me_output m)) of
             (Some input, Some output) \<Rightarrow>
               list_all (\<lambda>f. fd_cardinality f \<noteq> Required_field) (md_fields input) \<and> shape_ok P family route input output
           | _ \<Rightarrow> False))"

definition validate_contract :: "descriptor_pool \<Rightarrow> string \<Rightarrow> app_error + unit" where
  "validate_contract P family =
     (if dp_skip_auth P \<and> list_all (route_ok P family) (contract_for_family family)
      then Ok () else Err ProtocolDefinition)"

subsection \<open>Compatibility of a new bundle\<close>

definition enum_compatible :: "enum_desc \<Rightarrow> enum_desc \<Rightarrow> bool" where
  "enum_compatible m n \<longleftrightarrow>
     ed_default m = ed_default n \<and>
     list_all (\<lambda>(name, number). map_of (ed_values n) name = Some number \<and> ed_by_number n number = ed_by_number m number)
       (ed_values m)"

definition kind_compatible :: "descriptor_pool \<Rightarrow> descriptor_pool \<Rightarrow> kind \<Rightarrow> kind \<Rightarrow> bool" where
  "kind_compatible old new k l \<longleftrightarrow>
     (case (k, l) of
        (KMessage m, KMessage n) \<Rightarrow> m = n
      | (KEnum m, KEnum n) \<Rightarrow>
          m = n \<and> (case (map_of (dp_enums old) m, map_of (dp_enums new) m) of
                     (Some a, Some b) \<Rightarrow> enum_compatible a b | _ \<Rightarrow> False)
      | (KScalar a, KScalar b) \<Rightarrow> a = b
      | _ \<Rightarrow> False)"

definition field_compatible :: "descriptor_pool \<Rightarrow> descriptor_pool \<Rightarrow> field_desc \<Rightarrow> field_desc \<Rightarrow> bool" where
  "field_compatible old new x y \<longleftrightarrow>
     fd_name x = fd_name y \<and> fd_json_name x = fd_json_name y \<and> fd_cardinality x = fd_cardinality y \<and>
     fd_is_map x = fd_is_map y \<and> fd_is_packed x = fd_is_packed y \<and> fd_presence x = fd_presence y \<and>
     fd_proto3_optional x = fd_proto3_optional y \<and> fd_oneof x = fd_oneof y \<and> fd_default x = fd_default y \<and>
     kind_compatible old new (fd_kind x) (fd_kind y)"

definition message_compatible :: "descriptor_pool \<Rightarrow> descriptor_pool \<Rightarrow> message_desc \<Rightarrow> message_desc \<Rightarrow> bool" where
  "message_compatible old new a b \<longleftrightarrow>
     md_map_entry a = md_map_entry b \<and>
     list_all (\<lambda>f. fd_cardinality f = Required_field \<longrightarrow> get_field a (fd_number f) \<noteq> None) (md_fields b) \<and>
     list_all (\<lambda>x. case get_field b (fd_number x) of None \<Rightarrow> False | Some y \<Rightarrow> field_compatible old new x y) (md_fields a)"

definition referenced :: "message_desc \<Rightarrow> string list" where
  \<comment> \<open>the messages the fields refer to, in order\<close>
  "referenced a = concat (map (\<lambda>f. case fd_kind f of KMessage n \<Rightarrow> [n] | _ \<Rightarrow> []) (md_fields a))"

function compat_loop ::
  "descriptor_pool \<Rightarrow> descriptor_pool \<Rightarrow> string list \<Rightarrow> string list \<Rightarrow> app_error + unit" where
  \<comment> \<open>\<open>pending\<close> is the stack, its top first; a message of the old pool that cannot be found does not occur in
    a pool that was compiled\<close>
  "compat_loop old new visited pending =
     (case pending of
        [] \<Rightarrow> Ok ()
      | name # rest \<Rightarrow>
          if name \<in> set visited then compat_loop old new visited rest
          else (case (map_of (dp_messages old) name, map_of (dp_messages new) name) of
                  (Some a, Some b) \<Rightarrow>
                    if message_compatible old new a b
                    then compat_loop old new (name # visited) (rev (referenced a) @ rest)
                    else Err ProtocolDefinition
                | _ \<Rightarrow> Err ProtocolDefinition))"
  by pat_completeness auto
termination
proof (relation "measures [\<lambda>(old, new, visited, pending). card (fst ` set (dp_messages old) - set visited),
    \<lambda>(old, new, visited, pending). length pending]", goal_cases)
  case 1
  then show ?case by simp
next
  case (2 old new visited pending name rest)
  then show ?case by simp
next
  case (3 old new visited pending name rest x y a b)
  then have "map_of (dp_messages old) name = Some a" by simp
  then have "name \<in> fst ` set (dp_messages old)" by (force dest: map_of_SomeD)
  moreover have "finite (fst ` set (dp_messages old) - set visited)" by simp
  ultimately have "card (fst ` set (dp_messages old) - insert name (set visited)) < card (fst ` set (dp_messages old) - set visited)"
    using 3 by (intro psubset_card_mono) auto
  then show ?case by simp
qed

declare compat_loop.simps [simp del]

definition method_compatible :: "method_desc \<Rightarrow> method_desc \<Rightarrow> bool" where
  "method_compatible a b \<longleftrightarrow>
     me_input a = me_input b \<and> me_output a = me_output b \<and> me_options a = me_options b \<and>
     \<not> me_client_streaming b \<and> \<not> me_server_streaming b"

definition pool_family :: "descriptor_pool \<Rightarrow> string" where
  "pool_family P = (if pool_method P SERVER_LIST \<noteq> None then ''global'' else ''jp'')"

definition contract_methods :: "descriptor_pool \<Rightarrow> descriptor_pool \<Rightarrow> (method_desc \<times> method_desc) list option" where
  "contract_methods old new =
     (let pairs = map (\<lambda>route. (pool_method old route, pool_method new route)) (contract_for_family (pool_family old))
      in if list_all (\<lambda>(a, b). a \<noteq> None \<and> b \<noteq> None \<and> method_compatible (the a) (the b)) pairs
         then Some (map (map_prod the the) pairs) else None)"

definition compatible :: "descriptor_pool \<Rightarrow> descriptor_pool \<Rightarrow> app_error + unit" where
  "compatible old new =
     (case contract_methods old new of
        None \<Rightarrow> Err ProtocolDefinition
      | Some ms \<Rightarrow> compat_loop old new [] (rev (concat (map (\<lambda>(a, _). [me_input a, me_output a]) ms))))"

subsection \<open>The search visits what the routes reach\<close>

definition refers :: "descriptor_pool \<Rightarrow> string \<Rightarrow> string \<Rightarrow> bool" where
  "refers P n n' \<longleftrightarrow> (\<exists>a. map_of (dp_messages P) n = Some a \<and> n' \<in> set (referenced a))"

definition exposed :: "descriptor_pool \<Rightarrow> string \<Rightarrow> bool" where
  \<comment> \<open>a message that a route of the contract carries, directly or in a field\<close>
  "exposed P n \<longleftrightarrow>
     (\<exists>route m root. route \<in> set (contract_for_family (pool_family P)) \<and> pool_method P route = Some m \<and>
        (root = me_input m \<or> root = me_output m) \<and> (refers P)\<^sup>*\<^sup>* root n)"

definition same_message :: "descriptor_pool \<Rightarrow> descriptor_pool \<Rightarrow> string \<Rightarrow> bool" where
  "same_message old new n \<longleftrightarrow>
     (\<exists>a b. map_of (dp_messages old) n = Some a \<and> map_of (dp_messages new) n = Some b \<and> message_compatible old new a b)"

lemma compat_loop_Nil: "compat_loop old new visited [] = Ok ()"
  by (subst compat_loop.simps) simp

lemma compat_loop_Cons:
  "name \<in> set visited \<Longrightarrow> compat_loop old new visited (name # rest) = compat_loop old new visited rest"
  "name \<notin> set visited \<Longrightarrow> compat_loop old new visited (name # rest) = Ok () \<longleftrightarrow>
     (\<exists>a b. map_of (dp_messages old) name = Some a \<and> map_of (dp_messages new) name = Some b \<and>
        message_compatible old new a b \<and> compat_loop old new (name # visited) (rev (referenced a) @ rest) = Ok ())"
  by (subst compat_loop.simps, simp split: option.split)+

lemma compat_loop_ok:
  assumes "compat_loop old new visited pending = Ok ()"
  shows "\<exists>V. set visited \<union> set pending \<subseteq> V \<and>
    (\<forall>n \<in> V - set visited. same_message old new n \<and> (\<forall>n'. refers old n n' \<longrightarrow> n' \<in> V))"
  using assms
proof (induction old new visited pending rule: compat_loop.induct)
  case (1 old new visited pending)
  show ?case
  proof (cases pending)
    case Nil
    then show ?thesis by (intro exI [of _ "set visited"]) simp
  next
    case (Cons name rest)
    show ?thesis
    proof (cases "name \<in> set visited")
      case True
      have "compat_loop old new visited rest = Ok ()" using 1(3) unfolding Cons compat_loop_Cons(1) [OF True] .
      from 1(1) [OF Cons True this] obtain V where "set visited \<union> set rest \<subseteq> V"
        "\<forall>n \<in> V - set visited. same_message old new n \<and> (\<forall>n'. refers old n n' \<longrightarrow> n' \<in> V)" by blast
      then show ?thesis using True Cons by (intro exI [of _ V]) auto
    next
      case False
      then obtain a b where ab: "map_of (dp_messages old) name = Some a" "map_of (dp_messages new) name = Some b"
        "message_compatible old new a b" "compat_loop old new (name # visited) (rev (referenced a) @ rest) = Ok ()"
        using 1(3) unfolding Cons compat_loop_Cons(2) [OF False] by blast
      from 1(2) [OF Cons False refl, unfolded ab(1,2), OF refl refl ab(3,4)] obtain V where
        V: "set (name # visited) \<union> set (rev (referenced a) @ rest) \<subseteq> V"
        "\<And>n. n \<in> V \<Longrightarrow> n \<notin> set (name # visited) \<Longrightarrow> same_message old new n \<and> (\<forall>n'. refers old n n' \<longrightarrow> n' \<in> V)"
        by blast
      have name: "same_message old new name" "\<And>n'. refers old name n' \<Longrightarrow> n' \<in> V"
        using ab V(1) by (auto simp: same_message_def refers_def)
      show ?thesis
      proof (intro exI [of _ V] conjI ballI)
        show "set visited \<union> set pending \<subseteq> V" using V(1) Cons by auto
        fix n assume "n \<in> V - set visited"
        then show "same_message old new n" "\<forall>n'. refers old n n' \<longrightarrow> n' \<in> V"
          using V(2) [of n] name by (cases "n = name"; auto)+
      qed
    qed
  qed
qed

lemma compat_loop_complete:
  assumes "\<And>n n'. n \<in> set pending \<Longrightarrow> (refers old)\<^sup>*\<^sup>* n n' \<Longrightarrow> same_message old new n'"
  shows "compat_loop old new visited pending = Ok ()"
  using assms
proof (induction old new visited pending rule: compat_loop.induct)
  case (1 old new visited pending)
  show ?case
  proof (cases pending)
    case Nil
    then show ?thesis by (simp add: compat_loop_Nil)
  next
    case (Cons name rest)
    show ?thesis
    proof (cases "name \<in> set visited")
      case True
      have "compat_loop old new visited rest = Ok ()" by (rule 1(1) [OF Cons True]) (use 1(3) Cons in auto)
      then show ?thesis unfolding Cons compat_loop_Cons(1) [OF True] .
    next
      case False
      have "same_message old new name" using 1(3) Cons by auto
      then obtain a b where ab: "map_of (dp_messages old) name = Some a" "map_of (dp_messages new) name = Some b"
        "message_compatible old new a b" by (auto simp: same_message_def)
      have "compat_loop old new (name # visited) (rev (referenced a) @ rest) = Ok ()"
      proof (rule 1(2) [OF Cons False refl, unfolded ab(1,2), OF refl refl ab(3)])
        fix n n' assume n: "n \<in> set (rev (referenced a) @ rest)" and steps: "(refers old)\<^sup>*\<^sup>* n n'"
        have "refers old name n" if "n \<in> set (referenced a)" using that ab(1) by (auto simp: refers_def)
        then show "same_message old new n'"
          using n steps 1(3) [of name n'] 1(3) [of n n'] Cons by (auto intro: converse_rtranclp_into_rtranclp)
      qed
      then show ?thesis unfolding Cons compat_loop_Cons(2) [OF False] using ab by blast
    qed
  qed
qed

lemma compat_loop_iff:
  "compat_loop old new [] pending = Ok () \<longleftrightarrow>
   (\<forall>n \<in> set pending. \<forall>n'. (refers old)\<^sup>*\<^sup>* n n' \<longrightarrow> same_message old new n')"
proof
  assume "compat_loop old new [] pending = Ok ()"
  from compat_loop_ok [OF this] obtain V where V: "set pending \<subseteq> V"
    "\<And>n. n \<in> V \<Longrightarrow> same_message old new n \<and> (\<forall>n'. refers old n n' \<longrightarrow> n' \<in> V)" by auto
  have "n' \<in> V" if "(refers old)\<^sup>*\<^sup>* n n'" "n \<in> V" for n n'
    using that by (induction rule: rtranclp_induct) (use V(2) in auto)
  then show "\<forall>n \<in> set pending. \<forall>n'. (refers old)\<^sup>*\<^sup>* n n' \<longrightarrow> same_message old new n'" using V by blast
qed (use compat_loop_complete in blast)

definition same_routes :: "descriptor_pool \<Rightarrow> descriptor_pool \<Rightarrow> bool" where
  "same_routes old new \<longleftrightarrow>
     (\<forall>route \<in> set (contract_for_family (pool_family old)).
        \<exists>a b. pool_method old route = Some a \<and> pool_method new route = Some b \<and> method_compatible a b)"

lemma both_Some:
  "(\<exists>a b. x = Some a \<and> y = Some b \<and> Q a b) \<longleftrightarrow> x \<noteq> None \<and> y \<noteq> None \<and> Q (the x) (the y)"
  by auto

lemma contract_methods_iff:
  "contract_methods old new \<noteq> None \<longleftrightarrow> same_routes old new"
  "contract_methods old new = Some ms \<Longrightarrow>
     ms = map (\<lambda>route. (the (pool_method old route), the (pool_method new route))) (contract_for_family (pool_family old))"
  unfolding same_routes_def both_Some by (auto simp: contract_methods_def list_all_iff split: if_splits)

lemma compatible_alt:
  "compatible old new = Ok () \<longleftrightarrow> same_routes old new \<and> (\<forall>n. exposed old n \<longrightarrow> same_message old new n)"
proof (cases "contract_methods old new")
  case None
  then show ?thesis using contract_methods_iff(1) [of old new] by (simp add: compatible_def)
next
  case (Some ms)
  have routes: "same_routes old new" using contract_methods_iff(1) [of old new] Some by simp
  have roots: "n \<in> set (rev (concat (map (\<lambda>(a, _). [me_input a, me_output a]) ms))) \<longleftrightarrow>
      (\<exists>route m. route \<in> set (contract_for_family (pool_family old)) \<and> pool_method old route = Some m \<and>
         (n = me_input m \<or> n = me_output m))" for n
    using routes unfolding contract_methods_iff(2) [OF Some] same_routes_def by force
  have "exposed old n' \<longleftrightarrow> (\<exists>n \<in> set (rev (concat (map (\<lambda>(a, _). [me_input a, me_output a]) ms))). (refers old)\<^sup>*\<^sup>* n n')" for n'
    unfolding Bex_def roots exposed_def by blast
  then show ?thesis
    using routes unfolding compatible_def Some option.case compat_loop_iff by blast
qed

subsection \<open>Chains of reloads\<close>

definition numbers_distinct :: "descriptor_pool \<Rightarrow> bool" where
  \<comment> \<open>protobuf requires it of every message\<close>
  "numbers_distinct P \<longleftrightarrow> (\<forall>n m. map_of (dp_messages P) n = Some m \<longrightarrow> distinct (map fd_number (md_fields m)))"

lemma get_field_Some: "get_field m n = Some f \<Longrightarrow> f \<in> set (md_fields m) \<and> fd_number f = n"
  by (auto simp: get_field_def find_Some_iff)

lemma find_by_key: "distinct (map g xs) \<Longrightarrow> x \<in> set xs \<Longrightarrow> find (\<lambda>y. g y = g x) xs = Some x"
  by (induction xs) (auto simp: rev_image_eqI)

lemma get_field_distinct:
  "distinct (map fd_number (md_fields m)) \<Longrightarrow> f \<in> set (md_fields m) \<Longrightarrow> get_field m (fd_number f) = Some f"
  unfolding get_field_def by (rule find_by_key)

lemma enum_compatible_trans:
  assumes "enum_compatible a b" "enum_compatible b c"
  shows "enum_compatible a c"
  using assms by (fastforce simp: enum_compatible_def list_all_iff dest: map_of_SomeD)

lemma kind_compatible_trans:
  "kind_compatible P Q k l \<Longrightarrow> kind_compatible Q R l m \<Longrightarrow> kind_compatible P R k m"
  by (auto simp: kind_compatible_def intro: enum_compatible_trans split: kind.splits option.splits)

lemma field_compatible_trans:
  "field_compatible P Q x y \<Longrightarrow> field_compatible Q R y z \<Longrightarrow> field_compatible P R x z"
  by (auto simp: field_compatible_def intro: kind_compatible_trans)

lemma message_compatible_trans:
  assumes pq: "message_compatible P Q a b" and qr: "message_compatible Q R b c" and distinct: "distinct (map fd_number (md_fields c))"
  shows "message_compatible P R a c"
proof -
  have ab: "\<And>x. x \<in> set (md_fields a) \<Longrightarrow> \<exists>y. get_field b (fd_number x) = Some y \<and> field_compatible P Q x y"
    "\<And>f. f \<in> set (md_fields b) \<Longrightarrow> fd_cardinality f = Required_field \<Longrightarrow> get_field a (fd_number f) \<noteq> None"
    using pq by (auto simp: message_compatible_def list_all_iff split: option.splits)
  have bc: "\<And>x. x \<in> set (md_fields b) \<Longrightarrow> \<exists>y. get_field c (fd_number x) = Some y \<and> field_compatible Q R x y"
    "\<And>f. f \<in> set (md_fields c) \<Longrightarrow> fd_cardinality f = Required_field \<Longrightarrow> get_field b (fd_number f) \<noteq> None"
    using qr by (auto simp: message_compatible_def list_all_iff split: option.splits)
  have fields: "\<exists>z. get_field c (fd_number x) = Some z \<and> field_compatible P R x z" if "x \<in> set (md_fields a)" for x
    using ab(1) [OF that] bc(1) get_field_Some field_compatible_trans by metis
  have required: "get_field a (fd_number f) \<noteq> None" if f: "f \<in> set (md_fields c)" "fd_cardinality f = Required_field" for f
  proof -
    obtain y where y: "get_field b (fd_number f) = Some y" "y \<in> set (md_fields b)" "fd_number y = fd_number f"
      using bc(2) [OF f] get_field_Some by blast
    then obtain z where "get_field c (fd_number f) = Some z" "field_compatible Q R y z" using bc(1) by metis
    then have "fd_cardinality y = Required_field"
      using get_field_distinct [OF distinct f(1)] f(2) by (simp add: field_compatible_def)
    then show ?thesis using ab(2) [OF y(2)] y(3) by simp
  qed
  have "md_map_entry a = md_map_entry c" using pq qr by (simp add: message_compatible_def)
  with fields required show ?thesis by (fastforce simp: message_compatible_def list_all_iff split: option.split)
qed

lemma refers_compatible:
  assumes "same_message P Q n" "refers P n n'"
  shows "refers Q n n'"
proof -
  obtain a b where ab: "map_of (dp_messages P) n = Some a" "map_of (dp_messages Q) n = Some b" "message_compatible P Q a b"
    using assms(1) by (auto simp: same_message_def)
  then obtain x where x: "x \<in> set (md_fields a)" "fd_kind x = KMessage n'"
    using assms(2) by (auto simp: refers_def referenced_def split: kind.splits)
  then obtain y where "get_field b (fd_number x) = Some y" "field_compatible P Q x y"
    using ab(3) by (auto simp: message_compatible_def list_all_iff split: option.splits)
  then have "y \<in> set (md_fields b)" "fd_kind y = KMessage n'"
    using get_field_Some x(2) by (auto simp: field_compatible_def kind_compatible_def split: kind.splits)
  then show ?thesis using ab(2) by (force simp: refers_def referenced_def)
qed

lemma exposed_compatible:
  assumes "compatible P Q = Ok ()" "pool_family P = pool_family Q" "exposed P n"
  shows "exposed Q n"
proof -
  note c = assms(1) [unfolded compatible_alt]
  obtain route m root where r: "route \<in> set (contract_for_family (pool_family P))" "pool_method P route = Some m"
    "root = me_input m \<or> root = me_output m" "(refers P)\<^sup>*\<^sup>* root n"
    using assms(3) by (auto simp: exposed_def)
  from r(4) have "(refers Q)\<^sup>*\<^sup>* root n"
  proof (induction rule: rtranclp_induct)
    case (step y z)
    have "exposed P y" using r(1-3) step(1) by (auto simp: exposed_def)
    then have "refers Q y z" using refers_compatible c step(2) by blast
    then show ?case using step(3) by (rule rtranclp.rtrancl_into_rtrancl [rotated])
  qed simp
  moreover obtain m' where "pool_method Q route = Some m'" "root = me_input m' \<or> root = me_output m'"
    using c r(1-3) by (fastforce simp: same_routes_def method_compatible_def)
  ultimately show ?thesis using r(1) assms(2) by (auto simp: exposed_def)
qed

lemma compatible_trans:
  assumes pq: "compatible P Q = Ok ()" and qr: "compatible Q R = Ok ()" and fam: "pool_family P = pool_family Q"
    and distinct: "numbers_distinct R"
  shows "compatible P R = Ok ()"
proof -
  note c = pq [unfolded compatible_alt] and d = qr [unfolded compatible_alt]
  have "same_routes P R" using c d fam by (fastforce simp: same_routes_def method_compatible_def)
  moreover have "same_message P R n" if "exposed P n" for n
  proof -
    have "same_message P Q n" "same_message Q R n" using that exposed_compatible [OF pq fam] c d by auto
    then show ?thesis
      using distinct message_compatible_trans by (fastforce simp: same_message_def numbers_distinct_def)
  qed
  ultimately show ?thesis by (simp add: compatible_alt)
qed

subsection \<open>Properties\<close>


text \<open>Compatibility survives any chain of reloads: a bundle that is compatible with one that is compatible with
  the first is compatible with the first, as long as the bundles are of one family.\<close>

theorem reloads_stay_compatible:
  assumes "compatible P Q = Ok ()" "compatible Q R = Ok ()" "pool_family P = pool_family Q" "numbers_distinct R"
  shows "compatible P R = Ok ()"
  using assms by (rule compatible_trans)

text \<open>The family is read off the old pool: a JP bundle that also declares the Global server list is compared against
  the Global contract, and without the Global login no bundle is compatible with it, not even itself.\<close>

lemma server_list_makes_a_bundle_global:
  assumes "pool_method P SERVER_LIST \<noteq> None" "pool_method P PLAYER_LOGIN = None"
  shows "compatible P P = Err ProtocolDefinition"
proof -
  have "PLAYER_LOGIN \<in> set (contract_for_family (pool_family P))"
    using assms(1) by (simp add: pool_family_def contract_for_family_def GLOBAL_CONTRACT_def)
  then have "\<not> same_routes P P" unfolding same_routes_def using assms(2) by force
  then show ?thesis using contract_methods_iff(1) [of P P] by (simp add: compatible_def)
qed

subsection \<open>Witnesses\<close>

definition sample_method :: "string \<Rightarrow> method_desc" where
  "sample_method name =
     \<lparr>me_name = name, me_input = ''M'', me_output = ''M'', me_options = [], me_client_streaming = False,
      me_server_streaming = False, me_skip_auth = None\<rparr>"

definition sample_field :: "nat \<Rightarrow> field_desc" where
  "sample_field n =
     \<lparr>fd_number = n, fd_name = ''f'', fd_json_name = ''f'', fd_cardinality = Optional, fd_is_list = False, fd_is_map = False,
      fd_is_packed = False, fd_presence = True, fd_proto3_optional = False, fd_oneof = None, fd_default = None,
      fd_kind = KMessage ''M''\<rparr>"

definition sample_pool :: "nat list \<Rightarrow> descriptor_pool" where
  \<comment> \<open>every route carries one recursive message with the given fields\<close>
  "sample_pool ns =
     \<lparr>dp_services = [(''app.masterdata.MasterdataService'', [sample_method ''Version'']),
        (''app.announcement.AnnouncementService'', [sample_method ''GetList'', sample_method ''Get'']),
        (''app.event.EventService'', [sample_method ''GetRankingList'', sample_method ''GetDeck'', sample_method ''GetChallengeMusicRanking'']),
        (''app.livemusic.LiveMusicService'', [sample_method ''GetRanking'']),
        (''app.player.PlayerService'', [sample_method ''Whoami'', sample_method ''GetPlayerData'']),
        (''app.friend.FriendService'', [sample_method ''FindByProfileID''])],
      dp_messages = [(''M'', \<lparr>md_map_entry = False, md_fields = map sample_field ns\<rparr>)], dp_enums = [], dp_skip_auth = True\<rparr>"

lemma sample_pool_family: "pool_family (sample_pool ns) = ''jp''"
  by (simp add: pool_family_def pool_method_def sample_pool_def SERVER_LIST_def)

lemma sample_methods:
  assumes "route \<in> set ROUTES"
  shows "\<exists>name. pool_method (sample_pool ns) route = Some (sample_method name) \<and> pool_method (sample_pool ms) route = Some (sample_method name)"
  using assms by (auto simp: ROUTES_def pool_method_def sample_pool_def route_defs sample_method_def)

lemma sample_same:
  assumes "set ns \<subseteq> set ms"
  shows "compatible (sample_pool ns) (sample_pool ms) = Ok ()"
proof -
  have routes: "same_routes (sample_pool ns) (sample_pool ms)"
    unfolding same_routes_def sample_pool_family
    using sample_methods [of _ ns ms] by (fastforce simp: contract_for_family_def method_compatible_def sample_method_def)
  have refs: "n' = ''M''" if "refers (sample_pool ns) n n'" for n n'
    using that by (auto simp: refers_def sample_pool_def referenced_def sample_field_def split: if_splits)
  have exposed: "n = ''M''" if e: "exposed (sample_pool ns) n" for n
  proof -
    obtain route m root where r: "route \<in> set ROUTES" "pool_method (sample_pool ns) route = Some m"
      "root = me_input m \<or> root = me_output m" "(refers (sample_pool ns))\<^sup>*\<^sup>* root n"
      using e by (auto simp: exposed_def sample_pool_family contract_for_family_def)
    then have "root = ''M''" using sample_methods [of route ns ns] by (auto simp: sample_method_def)
    with r(4) show ?thesis by (cases rule: rtranclp.cases) (auto dest: refs)
  qed
  have field: "get_field \<lparr>md_map_entry = False, md_fields = map sample_field ms\<rparr> n = Some (sample_field n)" if "n \<in> set ns" for n
  proof -
    have "n \<in> set ms" using that assms by blast
    then show ?thesis unfolding get_field_def by (induction ms) (auto simp: sample_field_def)
  qed
  have "same_message (sample_pool ns) (sample_pool ms) ''M''"
    using field by (auto simp: same_message_def sample_pool_def message_compatible_def list_all_iff field_compatible_def
        kind_compatible_def sample_field_def)
  with routes exposed show ?thesis by (auto simp: compatible_alt)
qed

theorem reloads_stay_compatible_witness:
  "compatible (sample_pool [1]) (sample_pool [1, 2]) = Ok () \<and> compatible (sample_pool [1]) (sample_pool [1, 2, 3]) = Ok ()"
proof -
  have "numbers_distinct (sample_pool [1, 2, 3])"
    by (auto simp: numbers_distinct_def sample_pool_def sample_field_def split: if_splits)
  moreover have "compatible (sample_pool [1]) (sample_pool [1, 2]) = Ok ()" "compatible (sample_pool [1, 2]) (sample_pool [1, 2, 3]) = Ok ()"
    by (rule sample_same, simp)+
  moreover have "pool_family (sample_pool [1]) = pool_family (sample_pool [1, 2])" by (simp add: sample_pool_family)
  ultimately show ?thesis using reloads_stay_compatible [of "sample_pool [1]" "sample_pool [1, 2]" "sample_pool [1, 2, 3]"] by blast
qed


end
