(* ===== verification/Resource_Snapshot.thy ===== *)
theory Resource_Snapshot
  imports Call_Pipeline Protocol_Pool
begin

section \<open>Resource snapshots and Master targets (src/client.rs)\<close>

text \<open>
  What the client derives from the VERSION answers besides the version headers: the Global resource
  snapshot (\<open>ensure_global_snapshot\<close>, with the catalog hash it fetches from the CDN), the checks of
  \<open>refresh_resource_snapshot\<close> and \<open>snapshot\<close>, the Master target, and the activation of a new protocol bundle.
  The state lock is free while a catalog hash is fetched, so the build of a snapshot is a step relation:
  answers of the game, failed calls and protocol reloads may come between its steps. The environment
  variables are a parameter.
\<close>

datatype cdn_authorization = CdnBasic | CdnNone

record snapshot_config =
  sx_authorization :: cdn_authorization
  sx_username_env :: "string option"
  sx_hash_ttl_seconds :: nat
  sx_network :: network

record hash_job =
  hj_version :: string
  hj_root :: string
  hj_cached :: "string option option"
  hj_basic :: "(string \<times> string) option"

subsection \<open>The Global snapshot\<close>

definition age_seconds :: "instant \<Rightarrow> instant \<Rightarrow> int" where
  \<comment> \<open>\<open>num_seconds\<close> of a difference of times: towards zero\<close>
  "age_seconds wall at = (if at \<le> wall then int ((wall - at) div 1000000000) else - int ((at - wall) div 1000000000))"

definition recent :: "instant \<Rightarrow> instant \<Rightarrow> bool" where
  "recent wall at \<longleftrightarrow> 0 \<le> age_seconds wall at \<and> age_seconds wall at \<le> 300"

definition snapshot_basic ::
  "client_config \<Rightarrow> snapshot_config \<Rightarrow> (string \<Rightarrow> string option) \<Rightarrow> client_state \<Rightarrow> app_error + (string \<times> string) option" where
  "snapshot_basic C cfg env s =
     (case sx_authorization cfg of
        CdnNone \<Rightarrow> if map_of (cc_cdn_credential_env C) (cs_cdn_root s) \<noteq> None then Err SnapshotUnavailable else Ok None
      | CdnBasic \<Rightarrow>
          (case Option.bind (sx_username_env cfg) env of
             None \<Rightarrow> Err SnapshotUnavailable
           | Some username \<Rightarrow>
               (case map_of (cc_cdn_secrets C) (cs_cdn_root s) of
                  None \<Rightarrow> Err SnapshotUnavailable
                | Some password \<Rightarrow>
                    if cs_credential_valid s \<and> CHR '':'' \<notin> set username then Ok (Some (username, password))
                    else Err SnapshotUnavailable)))"

definition cached_hash :: "snapshot_config \<Rightarrow> instant \<Rightarrow> string \<Rightarrow> client_state \<Rightarrow> string option option" where
  "cached_hash cfg now version s =
     (case cs_catalog_hash s of
        Some (r, v, hash, at) \<Rightarrow>
          if r = cs_cdn_root s \<and> v = version \<and> now - at < from_secs (sx_hash_ttl_seconds cfg) then Some hash else None
      | None \<Rightarrow> None)"

definition snapshot_begin ::
  "client_config \<Rightarrow> snapshot_config \<Rightarrow> (string \<Rightarrow> string option) \<Rightarrow> instant \<Rightarrow> instant \<Rightarrow> client_state
   \<Rightarrow> app_error + hash_job option" where
  \<comment> \<open>\<open>Ok None\<close>: the snapshot of the latest version is there already\<close>
  "snapshot_begin C cfg env now wall s =
     (if ob_maintenance (cs_observation s) \<or> ob_grpc_status (cs_observation s) \<noteq> Some 0 then Err SnapshotUnavailable
      else case cs_global_version s of
        None \<Rightarrow> Err SnapshotUnavailable
      | Some (version, observed_at) \<Rightarrow>
          if cs_cdn_root s \<noteq> cc_default_cdn_root C \<or> \<not> recent wall observed_at then Err SnapshotUnavailable
          else if \<not> cs_snapshot_stale s
            \<and> (case cs_snapshot s of None \<Rightarrow> False
               | Some sp \<Rightarrow> sp_observed_at sp = observed_at \<and> sp_resource_version sp = version)
          then Ok None
          else then_result (snapshot_basic C cfg env s) (\<lambda>basic.
            Ok (Some \<lparr>hj_version = version, hj_root = cs_cdn_root s, hj_cached = cached_hash cfg now version s,
                      hj_basic = basic\<rparr>)))"

definition hash_request :: "client_config \<Rightarrow> hash_job \<Rightarrow> cdn_request" where
  "hash_request C j =
     (case global_catalog_urls (hj_root j) (platform_name (cc_platform C)) (hj_version j) of
        (_, hash_url, _) \<Rightarrow> \<lparr>cq_url = hash_url, cq_basic = hj_basic j\<rparr>)"

fun fetched_hash :: "app_error + string \<Rightarrow> string option" where
  "fetched_hash (Inl _) = None"
| "fetched_hash (Inr h) = Some h"

definition hash_fetched :: "instant \<Rightarrow> hash_job \<Rightarrow> string option \<Rightarrow> client_state \<Rightarrow> client_state" where
  "hash_fetched now j hash s = s\<lparr>cs_catalog_hash := Some (hj_root j, hj_version j, hash, now)\<rparr>"

definition credential_reference ::
  "client_config \<Rightarrow> snapshot_config \<Rightarrow> string \<Rightarrow> app_error + string \<times> string" where
  "credential_reference C cfg root =
     (case sx_authorization cfg of
        CdnNone \<Rightarrow> Ok ([], ''none'')
      | CdnBasic \<Rightarrow>
          (case map_of (cc_cdn_credential_env C) root of
             None \<Rightarrow> Err SnapshotUnavailable
           | Some reference \<Rightarrow> Ok (reference, ''basic'')))"

definition global_snapshot ::
  "client_config \<Rightarrow> string \<Rightarrow> hash_job \<Rightarrow> string \<Rightarrow> instant \<Rightarrow> string \<times> string \<Rightarrow> client_state \<Rightarrow> resource_snapshot" where
  "global_snapshot C protocol_version j hash observed_at reference s =
     (case global_catalog_urls (hj_root j) (platform_name (cc_platform C)) (hj_version j) of
        (catalog_url, _, bundle_base_url) \<Rightarrow>
          \<lparr>sp_schema_version = 3, sp_region = cc_region C, sp_environment = cc_environment C,
           sp_platform = platform_name (cc_platform C), sp_client_version = cc_client_version C,
           sp_protocol_version = protocol_version, sp_master_version = ob_master_version (cs_observation s),
           sp_resource_version = hj_version j, sp_platform_hash = hash, sp_effective_cdn_root = hj_root j,
           sp_credential_ref = fst reference, sp_observed_at = observed_at, sp_source = ''remote'',
           sp_catalog_layout = Some ''global'', sp_catalog_url = Some catalog_url,
           sp_bundle_base_url = Some bundle_base_url, sp_cdn_authorization = Some (snd reference)\<rparr>)"

definition snapshot_publish ::
  "client_config \<Rightarrow> snapshot_config \<Rightarrow> string \<Rightarrow> hash_job \<Rightarrow> string \<Rightarrow> client_state \<Rightarrow> (app_error + unit) \<times> client_state" where
  \<comment> \<open>only if the latest VERSION still reports this version on this root\<close>
  "snapshot_publish C cfg protocol_version j hash s =
     (case cs_global_version s of
        None \<Rightarrow> (Err SnapshotUnavailable, s)
      | Some (current, observed_at) \<Rightarrow>
          if current \<noteq> hj_version j \<or> cs_cdn_root s \<noteq> hj_root j \<or> ob_maintenance (cs_observation s)
            \<or> ob_grpc_status (cs_observation s) \<noteq> Some 0 \<or> (hj_basic j \<noteq> None \<and> \<not> cs_credential_valid s)
          then (Err SnapshotUnavailable, s)
          else (case credential_reference C cfg (hj_root j) of
                  Inl err \<Rightarrow> (Err err, s)
                | Inr reference \<Rightarrow>
                    (Ok (), s\<lparr>cs_snapshot := Some (global_snapshot C protocol_version j hash observed_at reference s),
                              cs_snapshot_stale := False\<rparr>)))"

record snapshot_env =
  se_secret :: "string \<Rightarrow> string option"
  se_now :: "nat \<Rightarrow> instant"
  se_wall :: "nat \<Rightarrow> instant"
  se_trimmed :: "string \<Rightarrow> string option"
  se_server :: cdn
  se_late :: bool

definition ensure_global_snapshot ::
  "client_config \<Rightarrow> snapshot_config option \<Rightarrow> protocol_bundle \<Rightarrow> snapshot_env \<Rightarrow> client_state
   \<Rightarrow> (app_error + unit) \<times> client_state" where
  \<comment> \<open>the whole build when nothing else runs\<close>
  "ensure_global_snapshot C config P E s =
     (case config of
        None \<Rightarrow> (Err SnapshotUnavailable, s)
      | Some cfg \<Rightarrow>
     (case snapshot_begin C cfg (se_secret E) (se_now E 0) (se_wall E 0) s of
        Inl err \<Rightarrow> (Err err, s)
      | Inr None \<Rightarrow> (Ok (), s)
      | Inr (Some j) \<Rightarrow>
          (case (case hj_cached j of
                   Some h \<Rightarrow> (h, s)
                 | None \<Rightarrow>
                     (let h = fetched_hash (fetch_catalog_hash (se_trimmed E) (sx_network cfg) (hash_request C j)
                                (se_server E) (se_late E))
                      in (h, hash_fetched (se_now E 1) j h s))) of
             (None, s1) \<Rightarrow> (Err SnapshotUnavailable, s1)
           | (Some h, s1) \<Rightarrow> snapshot_publish C cfg (pb_version P) j h s1)))"

subsection \<open>Reading snapshots\<close>

definition fresh_snapshot :: "instant \<Rightarrow> instant \<Rightarrow> client_state \<Rightarrow> app_error + resource_snapshot" where
  \<comment> \<open>the end of \<open>refresh_resource_snapshot\<close>\<close>
  "fresh_snapshot started wall s =
     (if cs_snapshot_stale s \<or> ob_maintenance (cs_observation s) \<or> ob_grpc_status (cs_observation s) \<noteq> Some 0
      then Err SnapshotUnavailable
      else case cs_snapshot s of
        None \<Rightarrow> Err SnapshotUnavailable
      | Some sp \<Rightarrow>
          if sp_observed_at sp < started \<or> \<not> recent wall (sp_observed_at sp) then Err SnapshotUnavailable else Ok sp)"

definition refresh_resource_snapshot ::
  "('v::linorder) pipeline_lib \<Rightarrow> client_setup \<Rightarrow> snapshot_config option \<Rightarrow> call_env \<Rightarrow> snapshot_env \<Rightarrow> instant \<Rightarrow> world
   \<Rightarrow> (app_error + resource_snapshot) \<times> world" where
  "refresh_resource_snapshot L S config E X started w =
     (case call_selected L S E VERSION (JObj []) None None None w of
        (Inl err, w1) \<Rightarrow> (Err err, w1)
      | (Inr _, w1) \<Rightarrow>
          (case (if global_family (su_client S) then ensure_global_snapshot (su_client S) config (su_protocol S) X (gw_state w1)
                 else (Ok (), gw_state w1)) of
             (Inl err, s) \<Rightarrow> (Err err, w1\<lparr>gw_state := s\<rparr>)
           | (Inr _, s) \<Rightarrow> (fresh_snapshot started (se_wall X 1) s, w1\<lparr>gw_state := s\<rparr>)))"

definition snapshot_read ::
  "client_config \<Rightarrow> snapshot_config option \<Rightarrow> protocol_bundle \<Rightarrow> snapshot_env \<Rightarrow> client_state
   \<Rightarrow> (app_error + resource_snapshot \<times> bool) \<times> client_state" where
  \<comment> \<open>\<open>snapshot\<close>: the snapshot and whether it is stale\<close>
  "snapshot_read C config P E s =
     (let s1 = (if global_family C \<and> config \<noteq> None then snd (ensure_global_snapshot C config P E s) else s)
      in (case cs_snapshot s1 of
            None \<Rightarrow> Err SnapshotUnavailable
          | Some sp \<Rightarrow> Ok (sp, cs_snapshot_stale s1 \<or> 300 < age_seconds (se_wall E 1) (sp_observed_at sp)), s1))"

subsection \<open>The Master target\<close>

definition target_password ::
  "client_config \<Rightarrow> cdn_authorization option \<Rightarrow> client_state \<Rightarrow> app_error + string option" where
  "target_password C update s =
     (if update = Some CdnNone
      then if \<not> master_supported (cc_region C) \<or> \<not> global_family C \<or> cs_cdn_root s \<noteq> cc_default_cdn_root C
             \<or> map_of (cc_cdn_credential_env C) (cs_cdn_root s) \<noteq> None
           then Err MasterUnavailable else Ok None
      else if \<not> cs_credential_valid s then Err MasterUnavailable
      else (case map_of (cc_cdn_secrets C) (cs_cdn_root s) of
              None \<Rightarrow> Err MasterUnavailable | Some p \<Rightarrow> Ok (Some p)))"

definition master_target_of ::
  "client_config \<Rightarrow> cdn_authorization option \<Rightarrow> client_state \<Rightarrow> app_error + master_target" where
  "master_target_of C update s =
     (case cs_master_pair s of
        None \<Rightarrow> Err MasterUnavailable
      | Some (version, resource_version) \<Rightarrow>
          if \<not> safe_version version \<or> ob_grpc_status (cs_observation s) \<noteq> Some 0 \<or> ob_maintenance (cs_observation s)
          then Err MasterUnavailable
          else then_result (target_password C update s) (\<lambda>password.
            Ok \<lparr>mt_version = version, mt_resource_version = resource_version, mt_root = cs_cdn_root s, mt_password = password\<rparr>))"

definition refresh_master_target ::
  "('v::linorder) pipeline_lib \<Rightarrow> client_setup \<Rightarrow> cdn_authorization option \<Rightarrow> call_env \<Rightarrow> world
   \<Rightarrow> (app_error + master_target) \<times> world" where
  "refresh_master_target L S update E w =
     (case call_selected L S E VERSION (JObj []) None None None w of
        (Inl err, w1) \<Rightarrow> (Err err, w1)
      | (Inr _, w1) \<Rightarrow> (master_target_of (su_client S) update (gw_state w1), w1))"

subsection \<open>Protocol reload\<close>

definition reloaded_state :: "client_state \<Rightarrow> client_state" where
  "reloaded_state s =
     s\<lparr>cs_observation := observation_default, cs_master_pair := None, cs_global_version := None,
       cs_version_fresh_until := None, cs_version_suspect := False, cs_version_retry_at := None,
       cs_snapshot_stale := True\<rparr>"

record loaded_bundle =
  lb_bundle :: protocol_bundle
  lb_family :: string
  lb_pool :: descriptor_pool

definition reload_protocol ::
  "client_config \<Rightarrow> app_error + loaded_bundle \<Rightarrow> loaded_bundle \<Rightarrow> client_state
   \<Rightarrow> (app_error + loaded_bundle) \<times> loaded_bundle \<times> client_state" where
  \<comment> \<open>the answer, the active bundle and the state, once the calls of the old bundle have drained\<close>
  "reload_protocol C candidate current s =
     (case candidate of
        Inl err \<Rightarrow> (Err err, current, s)
      | Inr new \<Rightarrow>
          if lb_family new \<noteq> region_family (cc_region C) then (Err ProtocolDefinition, current, s)
          else if pb_sha256 (lb_bundle current) = pb_sha256 (lb_bundle new) then (Ok current, current, s)
          else (case compatible (lb_pool current) (lb_pool new) of
                  Inl err \<Rightarrow> (Err err, current, s)
                | Inr _ \<Rightarrow>
                    if pb_generation (lb_bundle current) = u64_max then (Err ProtocolDefinition, current, s)
                    else let active = new\<lparr>lb_bundle := (lb_bundle new)\<lparr>pb_generation := pb_generation (lb_bundle current) + 1\<rparr>\<rparr>
                         in (Ok active, active, reloaded_state s)))"

text \<open>A reload never moves the generation back, and a bundle of another generation starts without a version: its
  first authenticated call must fetch one.\<close>

lemma reload_generation:
  assumes "reload_protocol C candidate current s = (r, active, s')"
  shows "active = current \<and> s' = s \<or>
    pb_generation (lb_bundle active) = pb_generation (lb_bundle current) + 1 \<and> lb_family active = region_family (cc_region C) \<and>
    compatible (lb_pool current) (lb_pool active) = Ok () \<and> ob_master_version (cs_observation s') = None \<and> cs_snapshot_stale s'"
  using assms
  by (auto simp: reload_protocol_def reloaded_state_def observation_default_def Let_def split: sum.splits if_splits)

subsection \<open>Builds and answers interleaved\<close>

datatype build = BuildIdle | BuildFetching hash_job instant | BuildHashed hash_job string

record hash_fetch =
  hf_request :: cdn_request
  hf_version :: string
  hf_started :: instant
  hf_ended :: instant

record snapshot_sys =
  sy_state :: client_state
  sy_build :: build \<comment> \<open>one at a time: \<open>snapshot_build\<close>\<close>
  sy_now :: instant
  sy_requests :: "cdn_request list" \<comment> \<open>requests to the CDN begun so far\<close>
  sy_fetches :: "hash_fetch list" \<comment> \<open>those that completed\<close>

inductive snapshot_step ::
  "('v::linorder) rpc_lib \<Rightarrow> client_config \<Rightarrow> snapshot_config \<Rightarrow> (string \<Rightarrow> string option) \<Rightarrow> snapshot_sys \<Rightarrow> snapshot_sys \<Rightarrow> bool"
  for L C cfg env where
  tick: "sy_now y \<le> now \<Longrightarrow> snapshot_step L C cfg env y (y\<lparr>sy_now := now\<rparr>)"
| answer: "snapshot_step L C cfg env y (y\<lparr>sy_state := rr_state (rpc_answer L C P (sy_now y) wall route auth sent response (sy_state y))\<rparr>)"
| failed: "snapshot_step L C cfg env y (y\<lparr>sy_state := failed_state wall (sy_state y)\<rparr>)"
| reload: "snapshot_step L C cfg env y (y\<lparr>sy_state := reloaded_state (sy_state y)\<rparr>)"
| fetch_hash: "sy_build y = BuildIdle \<Longrightarrow> snapshot_begin C cfg env (sy_now y) wall (sy_state y) = Ok (Some j) \<Longrightarrow>
    hj_cached j = None \<Longrightarrow>
    snapshot_step L C cfg env y (y\<lparr>sy_build := BuildFetching j (sy_now y), sy_requests := sy_requests y @ [hash_request C j]\<rparr>)"
| reuse_hash: "sy_build y = BuildIdle \<Longrightarrow> snapshot_begin C cfg env (sy_now y) wall (sy_state y) = Ok (Some j) \<Longrightarrow>
    hj_cached j = Some (Some h) \<Longrightarrow> snapshot_step L C cfg env y (y\<lparr>sy_build := BuildHashed j h\<rparr>)"
| fetched: "sy_build y = BuildFetching j started \<Longrightarrow>
    snapshot_step L C cfg env y
      (y\<lparr>sy_build := (case h of None \<Rightarrow> BuildIdle | Some x \<Rightarrow> BuildHashed j x),
         sy_state := hash_fetched (sy_now y) j h (sy_state y),
         sy_fetches := sy_fetches y @ [\<lparr>hf_request = hash_request C j, hf_version = hj_version j,
                                        hf_started = started, hf_ended = sy_now y\<rparr>]\<rparr>)"
| publish: "sy_build y = BuildHashed j h \<Longrightarrow>
    snapshot_step L C cfg env y
      (y\<lparr>sy_build := BuildIdle, sy_state := snd (snapshot_publish C cfg protocol_version j h (sy_state y))\<rparr>)"
| cancel: "snapshot_step L C cfg env y (y\<lparr>sy_build := BuildIdle\<rparr>)"

definition snapshot_start :: "client_config \<Rightarrow> snapshot_sys \<Rightarrow> bool" where
  \<comment> \<open>a client as it is built: nothing observed yet, the configured root\<close>
  "snapshot_start C y \<longleftrightarrow>
     cs_snapshot_stale (sy_state y) \<and> cs_global_version (sy_state y) = None \<and> cs_catalog_hash (sy_state y) = None \<and>
     sy_build y = BuildIdle \<and> sy_requests y = [] \<and> sy_fetches y = []"

definition snapshot_reach ::
  "('v::linorder) rpc_lib \<Rightarrow> client_config \<Rightarrow> snapshot_config \<Rightarrow> (string \<Rightarrow> string option) \<Rightarrow> snapshot_sys \<Rightarrow> bool" where
  "snapshot_reach L C cfg env y \<longleftrightarrow> (\<exists>y0. snapshot_start C y0 \<and> (snapshot_step L C cfg env)\<^sup>*\<^sup>* y0 y)"

subsection \<open>The state between steps\<close>

definition latest :: "client_state \<Rightarrow> bool" where
  \<comment> \<open>a snapshot that is not stale is the one of the latest VERSION answer, on the root the game announces\<close>
  "latest s \<longleftrightarrow>
     cs_snapshot_stale s \<or>
     (\<exists>sp. cs_snapshot s = Some sp \<and> sp_effective_cdn_root sp = cs_cdn_root s \<and>
        cs_global_version s = Some (sp_resource_version sp, sp_observed_at sp) \<and>
        ob_grpc_status (cs_observation s) = Some 0)"

definition safe_components :: "client_state \<Rightarrow> bool" where
  "safe_components s \<longleftrightarrow> (\<forall>v at. cs_global_version s = Some (v, at) \<longrightarrow> resource_version_component v)"

definition good_state :: "client_state \<Rightarrow> bool" where
  "good_state s \<longleftrightarrow> latest s \<and> safe_components s"

lemma observe_parts_good:
  "good_state s \<Longrightarrow> good_state (observe_root L md s)" "good_state s \<Longrightarrow> good_state (observe_credential L C md s)"
  "cs_catalog_hash (observe_root L md s) = cs_catalog_hash s" "cs_catalog_hash (observe_credential L C md s) = cs_catalog_hash s"
  "cs_observation (observe_root L md s) = cs_observation s" "cs_observation (observe_credential L C md s) = cs_observation s"
  by (auto simp: observe_root_def observe_credential_def good_state_def latest_def safe_components_def Let_def split: option.splits)

lemma observe_code_keeps:
  "cs_snapshot_stale (observe_code st c v s) = cs_snapshot_stale s" "cs_snapshot (observe_code st c v s) = cs_snapshot s"
  "cs_cdn_root (observe_code st c v s) = cs_cdn_root s" "cs_global_version (observe_code st c v s) = cs_global_version s"
  "cs_catalog_hash (observe_code st c v s) = cs_catalog_hash s" "cs_observation (observe_code st c v s) = cs_observation s"
  by (simp_all add: observe_code_def)

lemma observe_good:
  assumes "good_state s"
  shows "good_state (observe L C wall md status sent s)"
    "cs_catalog_hash (observe L C wall md status sent s) = cs_catalog_hash s"
    "ob_grpc_status (cs_observation (observe L C wall md status sent s)) = status"
proof -
  show "good_state (observe L C wall md status sent s)"
    unfolding observe_def Let_def
    by (intro observe_parts_good) (use assms in \<open>auto simp: good_state_def latest_def safe_components_def observe_code_keeps\<close>)
qed (simp_all add: observe_def Let_def observe_parts_good observe_code_keeps)

lemma adopt_good:
  assumes "global_family C"
  shows "good_state (adopt_version L C now wall md v version s)"
    "cs_catalog_hash (adopt_version L C now wall md v version s) = cs_catalog_hash s"
  using assms
  by (auto simp: adopt_version_def good_state_def latest_def safe_components_def Let_def split: option.splits if_splits)

lemma rpc_done_good:
  assumes "rpc_done L C P now wall route auth md bytes s = (result, s')" "good_state s" "global_family C"
  shows "good_state s' \<and> cs_catalog_hash s' = cs_catalog_hash s"
  using assms
  by (auto simp: rpc_done_def promote_snapshot_def Let_def adopt_good split: if_splits sum.splits option.splits)

lemma rpc_answer_good:
  assumes "good_state s" "global_family C"
  shows "good_state (rr_state (rpc_answer L C P now wall route auth sent response s)) \<and>
    cs_catalog_hash (rr_state (rpc_answer L C P now wall route auth sent response s)) = cs_catalog_hash s"
proof -
  let ?r = "rpc_answer L C P now wall route auth sent response s"
  show ?thesis
  proof (rule rpc_answer_cases [OF refl, of L C P now wall route auth sent response s])
    fix md bytes
    assume "rpc_done L C P now wall route auth md bytes (observe L C wall md (Some 0) sent s) = (rr_result ?r, rr_state ?r)"
    from rpc_done_good [OF this observe_good(1) [OF assms(1)] assms(2)] observe_good(2) [OF assms(1)]
    show ?thesis by simp
  qed (use assms observe_good [OF assms(1)] in auto)
qed

lemma publish_good:
  assumes "good_state s"
  shows "good_state (snd (snapshot_publish C cfg pv j h s))"
    "cs_catalog_hash (snd (snapshot_publish C cfg pv j h s)) = cs_catalog_hash s"
  using assms
  by (auto simp: snapshot_publish_def global_snapshot_def good_state_def latest_def safe_components_def
      split: option.splits sum.splits prod.splits)

lemma other_good:
  "good_state s \<Longrightarrow> good_state (failed_state wall s)" "good_state s \<Longrightarrow> good_state (reloaded_state s)"
  "good_state s \<Longrightarrow> good_state (hash_fetched now j h s)"
  "cs_catalog_hash (failed_state wall s) = cs_catalog_hash s" "cs_catalog_hash (reloaded_state s) = cs_catalog_hash s"
  "cs_catalog_hash (hash_fetched now j h s) = Some (hj_root j, hj_version j, h, now)"
  by (auto simp: failed_state_def reloaded_state_def hash_fetched_def good_state_def latest_def safe_components_def)

definition good_job :: "client_config \<Rightarrow> snapshot_config \<Rightarrow> hash_job \<Rightarrow> bool" where
  "good_job C cfg j \<longleftrightarrow>
     hj_root j = cc_default_cdn_root C \<and> resource_version_component (hj_version j) \<and>
     (case hj_basic j of
        None \<Rightarrow> sx_authorization cfg = CdnNone
      | Some (u, p) \<Rightarrow> sx_authorization cfg = CdnBasic \<and> map_of (cc_cdn_secrets C) (cc_default_cdn_root C) = Some p)"

lemma snapshot_begin_job:
  assumes "snapshot_begin C cfg env now wall s = Ok (Some j)" "good_state s"
  shows "good_job C cfg j" "hj_cached j = cached_hash cfg now (hj_version j) s" "cs_cdn_root s = cc_default_cdn_root C"
  using assms
  by (auto simp: snapshot_begin_def snapshot_basic_def good_job_def good_state_def safe_components_def then_result_Ok_iff
      split: if_splits option.splits cdn_authorization.splits)

subsection \<open>Every reachable system\<close>

definition permitted :: "client_config \<Rightarrow> snapshot_config \<Rightarrow> cdn_request \<Rightarrow> bool" where
  "permitted C cfg q \<longleftrightarrow> (\<exists>j. q = hash_request C j \<and> good_job C cfg j)"

definition spaced :: "snapshot_config \<Rightarrow> hash_fetch list \<Rightarrow> bool" where
  \<comment> \<open>consecutive fetches of one version are a time to live apart\<close>
  "spaced cfg fs \<longleftrightarrow>
     (\<forall>i. Suc i < length fs \<longrightarrow> hf_version (fs ! i) = hf_version (fs ! Suc i) \<longrightarrow>
        hf_ended (fs ! i) + from_secs (sx_hash_ttl_seconds cfg) \<le> hf_started (fs ! Suc i))"

definition may_start :: "snapshot_config \<Rightarrow> hash_fetch list \<Rightarrow> string \<Rightarrow> instant \<Rightarrow> bool" where
  "may_start cfg fs version started \<longleftrightarrow>
     (fs = [] \<or> hf_version (last fs) \<noteq> version \<or> hf_ended (last fs) + from_secs (sx_hash_ttl_seconds cfg) \<le> started)"

fun build_ok :: "client_config \<Rightarrow> snapshot_config \<Rightarrow> hash_fetch list \<Rightarrow> build \<Rightarrow> bool" where
  "build_ok C cfg fs (BuildFetching j started) \<longleftrightarrow> good_job C cfg j \<and> may_start cfg fs (hj_version j) started"
| "build_ok C cfg fs (BuildHashed j h) \<longleftrightarrow> good_job C cfg j"
| "build_ok C cfg fs BuildIdle \<longleftrightarrow> True"

definition sys_inv :: "client_config \<Rightarrow> snapshot_config \<Rightarrow> snapshot_sys \<Rightarrow> bool" where
  "sys_inv C cfg y \<longleftrightarrow>
     good_state (sy_state y) \<and> (\<forall>q \<in> set (sy_requests y). permitted C cfg q) \<and> spaced cfg (sy_fetches y) \<and>
     build_ok C cfg (sy_fetches y) (sy_build y) \<and>
     (if sy_fetches y = [] then cs_catalog_hash (sy_state y) = None
      else \<exists>h. cs_catalog_hash (sy_state y) =
        Some (cc_default_cdn_root C, hf_version (last (sy_fetches y)), h, hf_ended (last (sy_fetches y)))) \<and>
     (\<forall>f \<in> set (sy_fetches y). hf_ended f \<le> sy_now y)"

lemma spaced_snoc:
  assumes "spaced cfg fs" "may_start cfg fs (hf_version f) (hf_started f)"
  shows "spaced cfg (fs @ [f])"
proof -
  have "last fs = fs ! i" if "Suc i = length fs" for i using that by (cases fs rule: rev_cases) auto
  then show ?thesis using assms by (auto simp: spaced_def may_start_def nth_append less_Suc_eq)
qed

lemma may_start_cached:
  assumes "cached_hash cfg now version s = None" "cs_cdn_root s = root"
    and "if fs = [] then cs_catalog_hash s = None
         else \<exists>h. cs_catalog_hash s = Some (root, hf_version (last fs), h, hf_ended (last fs))"
    and "\<forall>f \<in> set fs. hf_ended f \<le> now"
  shows "may_start cfg fs version now"
proof -
  have "fs \<noteq> [] \<Longrightarrow> hf_ended (last fs) \<le> now" using assms(4) by simp
  then show ?thesis using assms(1-3) by (auto simp: cached_hash_def may_start_def split: if_splits)
qed

lemma sys_inv_step:
  assumes "snapshot_step L C cfg env y y'" "sys_inv C cfg y" "global_family C"
  shows "sys_inv C cfg y'"
  using assms
proof (cases rule: snapshot_step.cases)
  case (tick now)
  then have "\<forall>f \<in> set (sy_fetches y). hf_ended f \<le> now" using assms(2) by (meson order_trans sys_inv_def)
  then show ?thesis using assms(2) tick(1) by (simp add: sys_inv_def)
next
  case (answer P wall route auth sent response)
  have "good_state (sy_state y)" using assms(2) by (simp add: sys_inv_def)
  note good = rpc_answer_good [OF this assms(3), of L P "sy_now y" wall route auth sent response]
  then show ?thesis using assms(2) answer by (simp add: sys_inv_def)
next
  case (failed wall)
  then show ?thesis using assms(2) by (simp add: sys_inv_def other_good)
next
  case reload
  then show ?thesis using assms(2) by (simp add: sys_inv_def other_good)
next
  case (fetch_hash wall j)
  have good: "good_state (sy_state y)" using assms(2) by (simp add: sys_inv_def)
  note job = snapshot_begin_job [OF fetch_hash(3) good]
  have "may_start cfg (sy_fetches y) (hj_version j) (sy_now y)"
    by (rule may_start_cached [OF _ job(3)]) (use assms(2) job(2) fetch_hash(4) in \<open>simp_all add: sys_inv_def\<close>)
  moreover have "permitted C cfg (hash_request C j)" using job(1) by (auto simp: permitted_def)
  ultimately show ?thesis using assms(2) fetch_hash(1) job(1) by (simp add: sys_inv_def)
next
  case (reuse_hash wall j h)
  have "good_state (sy_state y)" using assms(2) by (simp add: sys_inv_def)
  then show ?thesis using snapshot_begin_job(1) [OF reuse_hash(3)] reuse_hash(1) assms(2) by (simp add: sys_inv_def)
next
  case (fetched j started h)
  have i: "good_job C cfg j" "may_start cfg (sy_fetches y) (hj_version j) started" "spaced cfg (sy_fetches y)"
    using assms(2) fetched(2) by (simp_all add: sys_inv_def)
  let ?f = "\<lparr>hf_request = hash_request C j, hf_version = hj_version j, hf_started = started, hf_ended = sy_now y\<rparr>"
  have "spaced cfg (sy_fetches y @ [?f])" by (rule spaced_snoc [OF i(3)]) (simp add: i(2))
  moreover have "hj_root j = cc_default_cdn_root C" using i(1) by (simp add: good_job_def)
  moreover have "good_state (sy_state y)" "\<forall>q \<in> set (sy_requests y). permitted C cfg q"
    "\<forall>f \<in> set (sy_fetches y). hf_ended f \<le> sy_now y" using assms(2) by (simp_all add: sys_inv_def)
  ultimately show ?thesis using i(1) by (cases h) (simp_all add: sys_inv_def other_good fetched(1))
next
  case (publish j h pv)
  have "good_state (sy_state y)" using assms(2) by (simp add: sys_inv_def)
  then show ?thesis using assms(2) publish by (simp add: sys_inv_def publish_good)
next
  case cancel
  then show ?thesis using assms(2) by (simp add: sys_inv_def)
qed

lemma sys_inv_reach:
  assumes "snapshot_reach L C cfg env y" "global_family C"
  shows "sys_inv C cfg y"
proof -
  obtain y0 where y0: "snapshot_start C y0" and steps: "(snapshot_step L C cfg env)\<^sup>*\<^sup>* y0 y"
    using assms(1) by (auto simp: snapshot_reach_def)
  from steps show ?thesis
  proof (induction rule: rtranclp_induct)
    case base
    show ?case using y0 by (simp add: snapshot_start_def sys_inv_def good_state_def latest_def safe_components_def spaced_def)
  next
    case (step y1 y2)
    then show ?case using sys_inv_step assms(2) by blast
  qed
qed

subsection \<open>Properties\<close>

text \<open>A Global resource snapshot that is offered as fresh is the one of the latest VERSION answer: same resource
  version, observed at the time of that answer, on the CDN root the game announces, and the last answer of the
  game was a success. This holds however answers, failed calls, protocol reloads and cancelled builds come
  between the steps of a build, although the state is unlocked while the catalog hash is fetched.\<close>

theorem fresh_global_snapshots_match_the_latest_version:
  assumes "snapshot_reach L C cfg env y" "global_family C" "\<not> cs_snapshot_stale (sy_state y)"
  shows "\<exists>sp. cs_snapshot (sy_state y) = Some sp \<and>
      cs_global_version (sy_state y) = Some (sp_resource_version sp, sp_observed_at sp) \<and>
      sp_effective_cdn_root sp = cs_cdn_root (sy_state y) \<and> ob_grpc_status (cs_observation (sy_state y)) = Some 0"
  using sys_inv_reach [OF assms(1,2)] assms(3) by (auto simp: sys_inv_def good_state_def latest_def)

text \<open>Every catalog hash is requested from the configured CDN root, never from one the game announced, under a
  file name built from a version that cannot leave its directory, with no credentials when none are configured
  and otherwise with the secret configured for that root; and two consecutive fetches for one version are at
  least the configured time to live apart.\<close>

theorem catalog_requests_stay_on_the_configured_root:
  assumes "snapshot_reach L C cfg env y" "global_family C"
  shows "(\<forall>q \<in> set (sy_requests y). \<exists>v. resource_version_component v \<and>
      cq_url q = cc_default_cdn_root C @ ''/asset/'' @ platform_name (cc_platform C) @ ''/catalog_'' @ v @ ''.hash'' \<and>
      (case cq_basic q of
         None \<Rightarrow> sx_authorization cfg = CdnNone
       | Some (u, p) \<Rightarrow> sx_authorization cfg = CdnBasic \<and> map_of (cc_cdn_secrets C) (cc_default_cdn_root C) = Some p)) \<and>
    (\<forall>i. Suc i < length (sy_fetches y) \<longrightarrow> hf_version (sy_fetches y ! i) = hf_version (sy_fetches y ! Suc i) \<longrightarrow>
      hf_ended (sy_fetches y ! i) + from_secs (sx_hash_ttl_seconds cfg) \<le> hf_started (sy_fetches y ! Suc i))"
proof -
  have "sys_inv C cfg y" by (rule sys_inv_reach [OF assms])
  then have "\<forall>q \<in> set (sy_requests y). permitted C cfg q" "spaced cfg (sy_fetches y)" by (simp_all add: sys_inv_def)
  then show ?thesis
    unfolding spaced_def permitted_def by (fastforce simp: good_job_def hash_request_def global_catalog_urls_def Let_def)
qed

subsection \<open>Witnesses\<close>

definition sample_global :: client_config where
  "sample_global = sample_config\<lparr>cc_region := Hk\<rparr>"

definition sample_snapshot_config :: snapshot_config where
  "sample_snapshot_config =
     \<lparr>sx_authorization = CdnNone, sx_username_env = None, sx_hash_ttl_seconds = 60, sx_network = network_default\<rparr>"

definition sample_observed :: client_state where
  "sample_observed = rr_state (rpc_answer sample_rpc_lib sample_global sample_bundle 0 6 VERSION None None (Ok sample_response) sample_state)"

definition sample_snapshot_sys :: "client_state \<Rightarrow> snapshot_sys" where
  "sample_snapshot_sys s = \<lparr>sy_state = s, sy_build = BuildIdle, sy_now = 0, sy_requests = [], sy_fetches = []\<rparr>"

definition sample_job :: hash_job where
  "sample_job = \<lparr>hj_version = ''r2'', hj_root = ''https://cdn'', hj_cached = None, hj_basic = None\<rparr>"

definition sample_published :: snapshot_sys where
  "sample_published =
     (let y = (sample_snapshot_sys sample_observed)\<lparr>sy_requests := [hash_request sample_global sample_job],
            sy_fetches := [\<lparr>hf_request = hash_request sample_global sample_job, hf_version = ''r2'', hf_started = 0, hf_ended = 0\<rparr>]\<rparr>
      in y\<lparr>sy_state := snd (snapshot_publish sample_global sample_snapshot_config ''1.0.4'' sample_job ''h''
             (hash_fetched 0 sample_job (Some ''h'') sample_observed))\<rparr>)"

lemma sample_observed_fields:
  "cs_global_version sample_observed = Some (''r2'', 6)" "cs_cdn_root sample_observed = ''https://cdn''"
  "ob_grpc_status (cs_observation sample_observed) = Some 0" "\<not> ob_maintenance (cs_observation sample_observed)"
  "cs_snapshot_stale sample_observed" "cs_catalog_hash sample_observed = None"
proof -
  have len: "length (frame_encode ''m'') = 6" by (simp add: frame_encode_def)
  have frame: "frame_decode (frame_encode ''m'') = Ok ''m''" by (simp add: frame_decode_iff)
  have neq: "VERSION \<noteq> WHOAMI" "VERSION \<noteq> SERVER_LIST" by (simp_all add: route_defs)
  show "cs_global_version sample_observed = Some (''r2'', 6)" "cs_cdn_root sample_observed = ''https://cdn''"
    "ob_grpc_status (cs_observation sample_observed) = Some 0" "\<not> ob_maintenance (cs_observation sample_observed)"
    "cs_snapshot_stale sample_observed" "cs_catalog_hash sample_observed = None"
    unfolding sample_observed_def sample_global_def
    by (simp_all add: rpc_answer_def sample_rpc_defs len headers_extend_def content_ok_def header_def grpc_status_def
        parse_u16_def decimal_value_def byte_defs starts_with_def Let_def rpc_done_def frame neq reported_version_def
        adopt_version_def promote_snapshot_def global_family_def body_resource_def safe_version_def
        resource_version_component_def observe_def observe_code_def observe_root_def observe_credential_def application_code_def)
qed

lemma sample_published_reach: "snapshot_reach sample_rpc_lib sample_global sample_snapshot_config (\<lambda>_. None) sample_published"
proof -
  let ?step = "snapshot_step sample_rpc_lib sample_global sample_snapshot_config (\<lambda>_. None)"
  let ?y0 = "sample_snapshot_sys sample_state"
  let ?y1 = "sample_snapshot_sys sample_observed"
  let ?y2 = "?y1\<lparr>sy_build := BuildFetching sample_job 0, sy_requests := [hash_request sample_global sample_job]\<rparr>"
  let ?y3 = "?y2\<lparr>sy_build := BuildHashed sample_job ''h'', sy_state := hash_fetched 0 sample_job (Some ''h'') sample_observed,
    sy_fetches := [\<lparr>hf_request = hash_request sample_global sample_job, hf_version = ''r2'', hf_started = 0, hf_ended = 0\<rparr>]\<rparr>"
  have s1: "?step ?y0 ?y1"
    using answer [of sample_rpc_lib sample_global sample_snapshot_config "\<lambda>_. None" ?y0 sample_bundle 6 VERSION None None "Ok sample_response"]
    by (simp add: sample_snapshot_sys_def sample_observed_def)
  have begin_job: "snapshot_begin sample_global sample_snapshot_config (\<lambda>_. None) 0 6 sample_observed = Ok (Some sample_job)"
    by (simp add: snapshot_begin_def snapshot_basic_def sample_observed_fields sample_global_def sample_config_def
        sample_snapshot_config_def sample_job_def recent_def age_seconds_def cached_hash_def)
  have s2: "?step ?y1 ?y2"
    using fetch_hash [of ?y1 sample_global sample_snapshot_config "\<lambda>_. None" 6 sample_job sample_rpc_lib] begin_job
    by (simp add: sample_snapshot_sys_def sample_job_def)
  have s3: "?step ?y2 ?y3"
    using fetched [of ?y2 sample_job 0 sample_rpc_lib sample_global sample_snapshot_config "\<lambda>_. None" "Some ''h''"]
    by (simp add: sample_snapshot_sys_def sample_job_def)
  have s4: "?step ?y3 sample_published"
    using publish [of ?y3 sample_job "''h''" sample_rpc_lib sample_global sample_snapshot_config "\<lambda>_. None" "''1.0.4''"]
    by (simp add: sample_snapshot_sys_def sample_published_def Let_def)
  have "snapshot_start sample_global ?y0" by (simp add: snapshot_start_def sample_snapshot_sys_def sample_state_def)
  with s1 s2 s3 s4 show ?thesis unfolding snapshot_reach_def by (meson converse_rtranclp_into_rtranclp rtranclp.rtrancl_refl)
qed

lemma sample_global_family: "global_family sample_global"
  by (simp add: global_family_def sample_global_def)

theorem fresh_global_snapshots_match_the_latest_version_witness:
  "\<exists>sp. cs_snapshot (sy_state sample_published) = Some sp \<and> sp_resource_version sp = ''r2'' \<and> sp_observed_at sp = 6"
proof -
  have fields: "\<not> cs_snapshot_stale (sy_state sample_published)" "cs_global_version (sy_state sample_published) = Some (''r2'', 6)"
    by (simp_all add: sample_published_def snapshot_publish_def sample_job_def hash_fetched_def sample_observed_fields
        credential_reference_def sample_snapshot_config_def Let_def)
  from fresh_global_snapshots_match_the_latest_version [OF sample_published_reach sample_global_family fields(1)] fields(2)
  show ?thesis by auto
qed

theorem catalog_requests_stay_on_the_configured_root_witness:
  "\<exists>q. sy_requests sample_published = [q] \<and> (\<exists>v. cq_url q = ''https://cdn'' @ ''/asset/'' @ ''iOS'' @ ''/catalog_'' @ v @ ''.hash'')"
proof -
  have q: "sy_requests sample_published = [hash_request sample_global sample_job]"
    by (simp add: sample_published_def Let_def)
  have c: "cc_default_cdn_root sample_global = ''https://cdn''" "platform_name (cc_platform sample_global) = ''iOS''"
    by (simp_all add: sample_global_def sample_config_def)
  from catalog_requests_stay_on_the_configured_root [OF sample_published_reach sample_global_family, THEN conjunct1] q c
  show ?thesis by auto
qed

end
