(* ===== verification/Master_Update.thy ===== *)
theory Master_Update
  imports Master_Sync Resource_Snapshot
begin

section \<open>Master updates from the game's CDN (src/master_update.rs)\<close>

text \<open>
  One pass of the updater: it asks the game for the announced version, keeps the installed snapshot when it has that
  version intact, and otherwise downloads the encrypted bundle, decodes it into a snapshot, asks the game again
  and publishes only if the announcement is still the same.

  \<open>refresh\<close> gives the results of the two calls of \<open>refresh_master_target\<close> (\<open>Resource_Snapshot\<close>), between which other
  calls may run; \<open>server\<close> the answers to the attempts for each name.  As in \<open>Master_Sync\<close>, publication is the
  last step and waits for nothing, so a pass whose deadline passes has published nothing.
\<close>

subsection \<open>Construction\<close>

record update_config =
  uc_network :: network
  uc_cdn_authorization :: cdn_authorization
  uc_username_env :: "string option"
  uc_key_hex_env :: string
  uc_iv_hex_env :: string
  uc_interval_seconds :: nat

definition update_secret :: "env_lib \<Rightarrow> string \<Rightarrow> update_error + string" where
  "update_secret V name = (case config_secret V name of Inl _ \<Rightarrow> Err UpConfig | Inr v \<Rightarrow> Ok v)"

definition network_client :: "env_lib \<Rightarrow> network \<Rightarrow> update_error + (url \<times> string option) option" where
  \<comment> \<open>the proxy with its authorization; the other settings are those of the network\<close>
  "network_client V n =
     then_result (network_validate n) (\<lambda>_.
       case nw_proxy_url_env n of
         None \<Rightarrow> Ok None
       | Some name \<Rightarrow>
           then_result (update_secret V name) (\<lambda>v.
             case proxy_uri V v of
               Inl _ \<Rightarrow> Err UpConfig
             | Inr u \<Rightarrow>
                 (case nw_proxy_authorization_env n of
                    None \<Rightarrow> Ok (Some (u, None))
                  | Some auth \<Rightarrow>
                      then_result (update_secret V auth) (\<lambda>a.
                        if 4096 < length a \<or> blank a \<or> \<not> el_header_ok V a then Err UpConfig
                        else Ok (Some (u, Some a))))))"

definition master_key :: "env_lib \<Rightarrow> string \<Rightarrow> update_error + u8 list" where
  "master_key V name =
     then_result (update_secret V name) (\<lambda>hex.
       case key_from_hex hex of Inl _ \<Rightarrow> Err UpMaster | Inr key \<Rightarrow> Ok key)"

record updater =
  mu_username :: "string option"
  mu_decoder :: master_decoder
  mu_region :: region
  mu_network :: network
  mu_retention :: "nat option"

definition updater_username :: "env_lib \<Rightarrow> region \<Rightarrow> update_config \<Rightarrow> update_error + string option" where
  "updater_username V region c =
     (case uc_cdn_authorization c of
        CdnBasic \<Rightarrow>
          (case uc_username_env c of
             None \<Rightarrow> Err UpConfig
           | Some name \<Rightarrow>
               then_result (update_secret V name) (\<lambda>username.
                 if CHR '':'' \<in> set username then Err UpConfig else Ok (Some username)))
      | CdnNone \<Rightarrow>
          if uc_username_env c \<noteq> None \<or> \<not> master_supported region \<or> region_family region \<noteq> ''global''
          then Err UpConfig else Ok None)"

definition updater_new ::
  "env_lib \<Rightarrow> update_config option \<Rightarrow> string option \<Rightarrow> region \<Rightarrow> nat option \<Rightarrow> update_error + updater" where
  "updater_new V update directory region retention =
     (case update of
        None \<Rightarrow> Err UpConfig
      | Some c \<Rightarrow>
          if directory = None then Err UpConfig
          else then_result (updater_username V region c) (\<lambda>username.
               then_result (master_key V (uc_key_hex_env c)) (\<lambda>key.
               then_result (master_key V (uc_iv_hex_env c)) (\<lambda>iv.
               then_result (network_client V (uc_network c)) (\<lambda>_.
                 Ok \<lparr>mu_username = username, mu_decoder = decoder_new key iv, mu_region = region,
                     mu_network = uc_network c, mu_retention = retention\<rparr>)))))"

subsection \<open>One pass\<close>

definition table_kept :: "master_lib \<Rightarrow> disk \<Rightarrow> region \<Rightarrow> string \<Rightarrow> json \<Rightarrow> bool" where
  "table_kept L root region version v =
     (case v of JStr t \<Rightarrow> current_table_intact L root t region version | _ \<Rightarrow> False)"

definition kept_status :: "master_lib \<Rightarrow> disk \<Rightarrow> region \<Rightarrow> master_target \<Rightarrow> json option" where
  \<comment> \<open>the installed status when nothing has to be downloaded\<close>
  "kept_status L root region t =
     (case read_current_in L root None region of
        Inl _ \<Rightarrow> None
      | Inr current \<Rightarrow>
          if mdoc_version current \<noteq> mt_version t then None
          else case ml_de_value L (mdoc_bytes current) of
                 None \<Rightarrow> None
               | Some status \<Rightarrow>
                   if mt_resource_version t \<noteq> None \<and> json_get status ''resource_version'' = None then None
                   else case json_get status ''tables'' of
                          Some (JArr ts) \<Rightarrow>
                            if list_all (table_kept L root region (mt_version t)) ts then Some status else None
                        | _ \<Rightarrow> None)"

type_synonym cdn_files = "string \<Rightarrow> cdn"

definition fetch_file :: "updater \<Rightarrow> cdn_files \<Rightarrow> master_target \<Rightarrow> string \<Rightarrow> nat \<Rightarrow> update_error + u8 list" where
  "fetch_file U server t name limit =
     (case ar_result (download (mu_network U) (mu_username U) t name limit (server name)) of
        Inl e \<Rightarrow> Err e | Inr s \<Rightarrow> Ok (text_bytes s))"

fun fetch_entries ::
  "updater \<Rightarrow> cdn_files \<Rightarrow> master_target \<Rightarrow> folder \<Rightarrow> master_entry list \<Rightarrow> update_error + folder" where
  "fetch_entries U server t encrypted [] = Ok encrypted"
| "fetch_entries U server t encrypted (e # es) =
     then_result (fetch_file U server t (en_name e) (en_size e)) (\<lambda>bs.
       fetch_entries U server t (encrypted(en_name e \<mapsto> Plain bs)) es)"

definition master_step :: "MasterError + 'a \<Rightarrow> update_error + 'a" where
  \<comment> \<open>\<open>From<MasterError>\<close>\<close>
  "master_step r = (case r of Inl _ \<Rightarrow> Err UpMaster | Inr x \<Rightarrow> Ok x)"

definition target_step :: "app_error + master_target \<Rightarrow> update_error + master_target" where
  "target_step r = (case r of Inl _ \<Rightarrow> Err UpTarget | Inr t \<Rightarrow> Ok t)"

datatype update_result = UpdateUnchanged json | UpdateUpdated import_receipt

definition master_update ::
  "master_lib \<Rightarrow> updater \<Rightarrow> cdn_files \<Rightarrow> (nat \<Rightarrow> app_error + master_target) \<Rightarrow> bool \<Rightarrow> sync_names \<Rightarrow> disk \<Rightarrow>
     update_error + update_result \<times> disk \<times> disk_step list" where
  \<comment> \<open>the result, the disk with the staging directory, and the steps of the publication on it\<close>
  "master_update L U server refresh locked N root =
     (if locked then Err UpMaster
      else then_result (target_step (refresh 0)) (\<lambda>t.
        case kept_status L root (mu_region U) t of
          Some status \<Rightarrow> Ok (UpdateUnchanged status, root, [])
        | None \<Rightarrow>
            then_result (fetch_file U server t ''MasterManifest.json'' MAX_MANIFEST) (\<lambda>bs.
            then_result (master_step (manifest_parse L bs)) (\<lambda>m.
              if mf_version m \<noteq> mt_version t then Err UpChanged
              else then_result (fetch_entries U server t [''MasterManifest.json'' \<mapsto> Plain bs] (mf_files m)) (\<lambda>encrypted.
              then_result (master_step (prepare_directory L (mu_decoder U) encrypted ''remote''
                  (mt_resource_version t) (mu_region U) (nm_snapshot N))) (\<lambda>p.
              then_result (target_step (refresh 1)) (\<lambda>latest.
                if latest \<noteq> t then Err UpChanged
                else then_result (master_step (publish L (staged root (nm_stage N) p) (nm_now N) (nm_stage N) (nm_tmp N) p))
                  (\<lambda>(steps, receipt). Ok (UpdateUpdated receipt, staged root (nm_stage N) p, steps)))))))))"

definition update_result_value :: "update_result \<Rightarrow> nat option \<Rightarrow> json" where
  "update_result_value r pruned =
     (let tail = (case pruned of None \<Rightarrow> [] | Some n \<Rightarrow> [(''pruned_snapshots'', JInt (int n))]) in
      case r of
        UpdateUnchanged status \<Rightarrow> JObj ([(''action'', JStr ''unchanged''), (''current'', status)] @ tail)
      | UpdateUpdated receipt \<Rightarrow> JObj ([(''action'', JStr ''updated'')] @ tail @ [(''receipt'', receipt_value receipt)]))"

record update_pass =
  up_result :: "update_error + update_result"
  up_pruned :: "nat option"
  up_disk :: disk

definition master_update_once ::
  "master_lib \<Rightarrow> updater \<Rightarrow> cdn_files \<Rightarrow> (nat \<Rightarrow> app_error + master_target) \<Rightarrow> bool \<Rightarrow> bool \<Rightarrow> bool \<Rightarrow> sync_names \<Rightarrow>
     (string \<Rightarrow> string) \<Rightarrow> disk \<Rightarrow> update_pass" where
  "master_update_once L U server refresh locked expired retain_locked N trash root =
     (if expired then \<lparr>up_result = Err UpTimeout, up_pruned = None, up_disk = root\<rparr>
      else case master_update L U server refresh locked N root of
        Inl e \<Rightarrow> \<lparr>up_result = Err e, up_pruned = None, up_disk = root\<rparr>
      | Inr (r, root0, steps) \<Rightarrow>
          let root1 = fold apply_step steps root0;
              kept = retain L retain_locked root1 (mu_retention U) (nm_tmp N) trash in
          \<lparr>up_result = Ok r, up_pruned = snd kept, up_disk = fold apply_step (fst kept) root1\<rparr>)"

subsection \<open>What a pass installs\<close>

lemma fetch_entries_Ok:
  assumes "fetch_entries U server t encrypted es = Ok folder" "distinct (map en_name es)"
  shows "(\<forall>e \<in> set es. \<exists>bs. fetch_file U server t (en_name e) (en_size e) = Ok bs \<and> folder (en_name e) = Some (Plain bs)) \<and>
    (\<forall>n. n \<notin> en_name ` set es \<longrightarrow> folder n = encrypted n)"
  using assms
proof (induction es arbitrary: encrypted)
  case (Cons e es)
  then obtain bs where bs: "fetch_file U server t (en_name e) (en_size e) = Ok bs"
    and rest: "fetch_entries U server t (encrypted(en_name e \<mapsto> Plain bs)) es = Ok folder"
    by (auto simp: then_result_Ok_iff)
  note IH = Cons.IH [OF rest]
  have "en_name e \<notin> en_name ` set es" using Cons.prems(2) by simp
  then show ?case using IH Cons.prems(2) bs by auto
qed simp

lemma manifest_not_entry: "manifest_ok m \<Longrightarrow> e \<in> set (mf_files m) \<Longrightarrow> en_name e \<noteq> ''MasterManifest.json''"
proof -
  assume "manifest_ok m" "e \<in> set (mf_files m)"
  then have "entry_ok e" by (auto simp: manifest_ok_def list_all_iff)
  then obtain tab where "en_name e = tab @ ''.bin''" by (rule entry_okE)
  then have "take 2 (rev (en_name e)) = ''ni''" by simp
  then show ?thesis by auto
qed

lemma master_update_Updated:
  assumes "master_update L U server refresh locked N root = Ok (UpdateUpdated receipt, root0, steps)"
  obtains t bs m encrypted p where "refresh 0 = Ok t" "refresh 1 = Ok t"
    "fetch_file U server t ''MasterManifest.json'' MAX_MANIFEST = Ok bs" "manifest_parse L bs = Ok m"
    "mf_version m = mt_version t"
    "fetch_entries U server t [''MasterManifest.json'' \<mapsto> Plain bs] (mf_files m) = Ok encrypted"
    "prepare_directory L (mu_decoder U) encrypted ''remote'' (mt_resource_version t) (mu_region U) (nm_snapshot N) = Ok p"
    "root0 = staged root (nm_stage N) p" "receipt = pi_receipt p"
    "publish L (staged root (nm_stage N) p) (nm_now N) (nm_stage N) (nm_tmp N) p = Ok (steps, receipt)"
proof -
  from assms obtain t bs m encrypted p where parts: "refresh 0 = Ok t" "refresh 1 = Ok t"
    "fetch_file U server t ''MasterManifest.json'' MAX_MANIFEST = Ok bs" "manifest_parse L bs = Ok m"
    "mf_version m = mt_version t"
    "fetch_entries U server t [''MasterManifest.json'' \<mapsto> Plain bs] (mf_files m) = Ok encrypted"
    "prepare_directory L (mu_decoder U) encrypted ''remote'' (mt_resource_version t) (mu_region U) (nm_snapshot N) = Ok p"
    "root0 = staged root (nm_stage N) p"
    "publish L (staged root (nm_stage N) p) (nm_now N) (nm_stage N) (nm_tmp N) p = Ok (steps, receipt)"
    by (auto simp: master_update_def then_result_Ok_iff target_step_def master_step_def
        split: if_splits sum.splits option.splits)
  moreover have "receipt = pi_receipt p" using parts(9) by (rule publish_Ok)
  ultimately show thesis using that by blast
qed

text \<open>C11: an update installs the announced version, and only what the CDN served for it.  If a pass installs a
  snapshot, the game announced the same target before the download and before the publication; the receipt has the
  announced version and the asset version announced with it; and after the pass every table of the
  manifest downloaded for that version is served through the pointer, byte for byte the document that decodes from the file
  the CDN answered with for this target.\<close>

theorem updates_install_the_announced_version:
  assumes "master_update L U server refresh locked N root = Ok (UpdateUpdated receipt, root0, steps)"
    and "fresh_names root (nm_snapshot N) (nm_stage N) (nm_tmp N)" and "staged_written L root0 (nm_stage N) receipt"
    and "\<forall>previous. predecessor L root = Ok previous \<longrightarrow>
      publication_written L (publish_record receipt previous (nm_now N))"
    and "root' = fold apply_step steps root0"
  shows "\<exists>t bs m. refresh 0 = Ok t \<and> refresh 1 = Ok t \<and> rc_version receipt = mt_version t \<and>
    rc_resource_version receipt = mt_resource_version t \<and> current_snapshot L root' = Ok (nm_snapshot N) \<and>
    fetch_file U server t ''MasterManifest.json'' MAX_MANIFEST = Ok bs \<and> manifest_parse L bs = Ok m \<and>
    (\<forall>e \<in> set (mf_files m). \<exists>tab bin json. en_name e = tab @ ''.bin'' \<and>
      fetch_file U server t (en_name e) (en_size e) = Ok bin \<and> decode L (mu_decoder U) e bin = Ok json \<and>
      read_current_in L root' (Some tab) (mu_region U) =
        Ok \<lparr>mdoc_version = mt_version t, mdoc_sha256 = digest L json, mdoc_bytes = json\<rparr>)"
proof -
  from assms(1) obtain t bs m encrypted p where t: "refresh 0 = Ok t" "refresh 1 = Ok t"
    and m: "fetch_file U server t ''MasterManifest.json'' MAX_MANIFEST = Ok bs" "manifest_parse L bs = Ok m"
      "mf_version m = mt_version t"
    and enc: "fetch_entries U server t [''MasterManifest.json'' \<mapsto> Plain bs] (mf_files m) = Ok encrypted"
    and prep: "prepare_directory L (mu_decoder U) encrypted ''remote'' (mt_resource_version t) (mu_region U) (nm_snapshot N) = Ok p"
    and root0: "root0 = staged root (nm_stage N) p" and receipt: "receipt = pi_receipt p"
    and pub: "publish L (staged root (nm_stage N) p) (nm_now N) (nm_stage N) (nm_tmp N) p = Ok (steps, receipt)"
    by (rule master_update_Updated)
  have ok: "manifest_ok m" by (rule manifest_parse_ok [OF m(2)])
  then have distinct: "distinct (map en_name (mf_files m))" by (simp add: manifest_ok_def)
  note E = fetch_entries_Ok [OF enc distinct]
  have files: "\<forall>e \<in> set (mf_files m). \<exists>bin. fetch_file U server t (en_name e) (en_size e) = Ok bin \<and>
      encrypted (en_name e) = Some (Plain bin)" using E by blast
  have "''MasterManifest.json'' \<notin> en_name ` set (mf_files m)" using manifest_not_entry [OF ok] by force
  then have manifest: "encrypted ''MasterManifest.json'' = Some (Plain bs)" using E by simp
  have written: "import_written L p" using assms(3) staged_writtenD by (simp add: root0 receipt)
  have built: "prepare_bundle ''remote'' L (mu_decoder U, encrypted, mt_resource_version t, mu_region U) (nm_snapshot N) = Ok p"
    using prep by (simp add: prepare_bundle_def)
  note root' = assms(5) [unfolded root0]
  from built pub assms(2) root' obtain previous where
    placed: "root' (nm_snapshot N) = Some (Dir ((pi_staging p)(''publication.json'' \<mapsto>
        Plain (ml_ser_publication L (publish_record receipt previous (nm_now N))))))"
      "root' ''CURRENT'' = Some (Top (Plain (text_bytes (nm_snapshot N))))"
    by (rule remote_update.publication_final)
  from built written pub assms(2) assms(4) [rule_format] root' have current: "current_snapshot L root' = Ok (nm_snapshot N)"
    by (rule remote_update.published_snapshot)
  have len: "length bs \<le> MAX_MANIFEST" using m(2) by (simp add: manifest_parse_iff)
  then have "read_bounded L (encrypted ''MasterManifest.json'') MAX_MANIFEST = Ok bs"
    by (simp add: manifest within_limit_def)
  then have served: "\<forall>e \<in> set (mf_files m). \<exists>tab json. en_name e = tab @ ''.bin'' \<and>
      decoded_from L (mu_decoder U) encrypted e json \<and> read_current_in L root' (Some tab) (mu_region U) =
        Ok \<lparr>mdoc_version = mf_version m, mdoc_sha256 = digest L json, mdoc_bytes = json\<rparr>"
    using bundle_tables_served [where root = root', OF prep _ written placed(1) fresh_namesD(5) [OF assms(2)] placed(2)] m(2)
    by fastforce
  have tables: "\<exists>tab bin json. en_name e = tab @ ''.bin'' \<and> fetch_file U server t (en_name e) (en_size e) = Ok bin \<and>
      decode L (mu_decoder U) e bin = Ok json \<and> read_current_in L root' (Some tab) (mu_region U) =
        Ok \<lparr>mdoc_version = mt_version t, mdoc_sha256 = digest L json, mdoc_bytes = json\<rparr>"
    if e: "e \<in> set (mf_files m)" for e
  proof -
    from served e obtain tab json where json: "en_name e = tab @ ''.bin''" "decoded_from L (mu_decoder U) encrypted e json"
      "read_current_in L root' (Some tab) (mu_region U) =
        Ok \<lparr>mdoc_version = mf_version m, mdoc_sha256 = digest L json, mdoc_bytes = json\<rparr>" by blast
    from files e obtain bin where bin: "fetch_file U server t (en_name e) (en_size e) = Ok bin"
      "encrypted (en_name e) = Some (Plain bin)" by blast
    have "decode L (mu_decoder U) e bin = Ok json"
      using json(2) bin(2) by (auto simp: decoded_from_def within_limit_def split: if_splits)
    then show ?thesis using json(1) json(3) [unfolded m(3)] bin(1) by blast
  qed
  have fields: "rc_version receipt = mt_version t \<and> rc_resource_version receipt = mt_resource_version t"
    using prep \<open>read_bounded L (encrypted ''MasterManifest.json'') MAX_MANIFEST = Ok bs\<close> m(2,3) unfolding receipt
    by (auto elim!: prepare_directory_Ok)
  show ?thesis using t fields current m(1,2) tables by blast
qed

subsection \<open>A sample update\<close>

text \<open>The store of \<open>Master_Store\<close>, whose snapshot has no asset version, meets a game that announces one: the bundle
  is downloaded and installed with it.\<close>

definition update_receipt :: import_receipt where
  "update_receipt = \<lparr>rc_version = ''1.0'', rc_snapshot = ''master-2'', rc_tables = 1, rc_json_bytes = 1,
     rc_source = ''remote'', rc_region = En, rc_resource_version = Some ''7''\<rparr>"

definition update_lib :: master_lib where
  "update_lib = import_lib\<lparr>
     ml_de_value := (\<lambda>bs. if bs = [12] then Some sample_receipt
        else if bs = [14] then Some (receipt_value update_receipt) else None),
     ml_de_publication := (\<lambda>bs. if bs = [13] then Some (publish_record update_receipt (Some ''master-1'') 7) else None)\<rparr>"

definition announced :: master_target where
  "announced = \<lparr>mt_version = ''1.0'', mt_resource_version = Some ''7'', mt_root = ''https://cdn'', mt_password = None\<rparr>"

definition sample_updater :: updater where
  "sample_updater = \<lparr>mu_username = None, mu_decoder = decoder_new sample_key sample_iv, mu_region = En,
     mu_network = network_master, mu_retention = None\<rparr>"

definition sample_files :: cdn_files where
  "sample_files name n q = Inr \<lparr>ha_status = 200, ha_headers = [], ha_content_length = None,
     ha_chunks = [Inr (if name = ''MasterA.bin'' then bytes_text sample_bin else bytes_text [10])]\<rparr>"

definition update_prepared :: prepared_import where
  "update_prepared = stage_documents update_lib [''MasterA.json'' \<mapsto> Plain [1]] sample_inventory [10] update_receipt"

lemma text_bytes_text [simp]: "text_bytes (bytes_text bs) = bs"
proof -
  have "of_nat (byte (char_of (unat b))) = (b :: u8)" for b
    using unsigned_less [of b, where ?'a = nat] by (simp add: byte_def)
  then show ?thesis by (simp add: text_bytes_def bytes_text_def comp_def)
qed

lemma length_bytes_text [simp]: "length (bytes_text bs) = length bs"
  by (simp add: bytes_text_def)

lemma sample_fetch:
  "fetch_file sample_updater sample_files announced ''MasterManifest.json'' MAX_MANIFEST = Ok [10]"
  "fetch_file sample_updater sample_files announced ''MasterA.bin'' 96 = Ok sample_bin"
  by (simp_all add: fetch_file_def download_def retrying.simps download_once_def download_request_def get_once_def
      sample_files_def sample_updater_def announced_def network_master_def network_default_def sample_bin_length MAX_MANIFEST_def)

lemma update_lib_simps [simp]:
  "ml_sha256 update_lib bs = replicate 64 CHR ''a''" "ml_gunzip update_lib bs n = Some (take n bs)"
  "ml_validate_json update_lib bs \<longleftrightarrow> bs \<noteq> []"
  "ml_de_manifest update_lib bs = (if bs = [10] then Some sample_manifest else None)"
  "ml_ser_inventory update_lib i = (if i = sample_inventory then [11] else [99])"
  "ml_de_inventory update_lib bs = (if bs = [11] then Some sample_inventory else None)"
  "ml_de_value update_lib [14] = Some (receipt_value update_receipt)" "ml_de_value update_lib [12] = Some sample_receipt"
  "ml_ser_value update_lib v = []" "ml_de_value update_lib [] = None"
  "ml_ser_receipt update_lib r = [14]" "ml_ser_publication update_lib r' = [13]"
  "ml_de_publication update_lib [13] = Some (publish_record update_receipt (Some ''master-1'') 7)"
  by (simp_all add: update_lib_def import_lib_def sample_store_lib_def plain_lib_def)

lemma update_decode:
  "decode update_lib (decoder_new sample_key sample_iv)
     \<lparr>en_name = ''MasterA.bin'', en_hash = replicate 64 CHR ''a'', en_size = 96\<rparr> sample_bin = Ok [1]"
proof -
  have "ml_sha256 update_lib = ml_sha256 import_lib" "ml_gunzip update_lib = ml_gunzip import_lib"
    "ml_validate_json update_lib = ml_validate_json import_lib" by (simp_all add: update_lib_def)
  then have "decode update_lib dec e bs = decode import_lib dec e bs" for dec e bs by (simp only: decode_def)
  then show ?thesis using sample_decode by simp
qed

lemma update_prepare:
  assumes "encrypted = [''MasterManifest.json'' \<mapsto> Plain [10], ''MasterA.bin'' \<mapsto> Plain sample_bin]"
  shows "prepare_directory update_lib (decoder_new sample_key sample_iv) encrypted ''remote'' (Some ''7'') En ''master-2'' =
    Ok update_prepared"
proof -
  have parse: "manifest_parse update_lib [10] = Ok sample_manifest"
    by (simp add: manifest_parse_iff sample_manifest_ok MAX_MANIFEST_def)
  have files: "read_bounded update_lib (encrypted ''MasterManifest.json'') MAX_MANIFEST = Ok [10]"
      "read_bounded update_lib (encrypted ''MasterA.bin'') MAX_ENCRYPTED = Ok sample_bin"
    by (simp_all add: assms within_limit_def sample_bin_length master_limits)
  have names: "replace_bin ''MasterA.bin'' = ''MasterA.json''" "safe_version ''7''" by code_simp+
  have tables: "prepare_tables update_lib (decoder_new sample_key sample_iv) encrypted 0 (\<lambda>_. None) []
      (mf_files sample_manifest) = Ok (1, [''MasterA.json'' \<mapsto> Plain [1]], iv_files sample_inventory)"
    by (simp add: sample_manifest_def files update_decode names Let_def MAX_TOTAL_def sample_inventory_def
        file_of_def digest_def del: replace_bin.simps)
  have index: "\<lparr>iv_schema_version = 1, iv_version = mf_version sample_manifest,
      iv_files = sort_key tf_name (iv_files sample_inventory)\<rparr> = sample_inventory"
    by (simp add: sample_inventory_def sample_manifest_def)
  show ?thesis
    by (simp add: prepare_directory_def master_supported_def names files parse tables index [simplified]
        sample_index_valid Let_def update_prepared_def)
      (simp add: update_receipt_def sample_manifest_def)
qed

lemma update_store:
  "predecessor update_lib sample_store = Ok (Some ''master-1'')"
  "snapshot_region update_lib sample_store ''master-1'' = Ok En"
  "kept_status update_lib sample_store En announced = None"
proof -
  have source: "source_with_provenance update_lib ''master-1'' sample_folder = Ok (sample_manifest, None, En)"
    by (rule sample_provenance_in) simp_all
  have utf: "from_utf8 (text_bytes ''master-1'') = Some ''master-1''" by code_simp
  have "regular update_lib (node_leaf (sample_store ''CURRENT'')) 128 = Ok (text_bytes ''master-1'')"
    by (simp add: sample_store_def within_limit_def)
  then show "predecessor update_lib sample_store = Ok (Some ''master-1'')"
    using utf source by (simp add: predecessor_def read_text_def sample_dir)
  show "snapshot_region update_lib sample_store ''master-1'' = Ok En"
    using source by (simp add: snapshot_region_def sample_dir)
  have "mdoc_bytes doc = []" if "read_current_in update_lib sample_store None En = Ok doc" for doc
    using that by (auto simp: read_current_in_def read_current_checked_def read_current_inner_def then_result_Ok_iff
        read_current_status_def Let_def split: if_splits)
  then show "kept_status update_lib sample_store En announced = None"
    by (auto simp: kept_status_def split: sum.splits)
qed

lemma sample_update:
  "master_update update_lib sample_updater sample_files (\<lambda>_. Ok announced) False sample_sync_names sample_store =
     Ok (UpdateUpdated update_receipt, staged sample_store ''.stage'' update_prepared, import_steps)"
proof -
  let ?root = "staged sample_store ''.stage'' update_prepared"
  have receipt: "pi_receipt update_prepared = update_receipt" by (simp add: update_prepared_def stage_documents_def)
  have fields: "rc_region update_receipt = En" "rc_snapshot update_receipt = ''master-2''" "mt_version announced = ''1.0''"
    "mt_resource_version announced = Some ''7''" "mu_region sample_updater = En"
    "mu_decoder sample_updater = decoder_new sample_key sample_iv" "mf_version sample_manifest = ''1.0''"
    by (simp_all add: update_receipt_def announced_def sample_updater_def sample_manifest_def)
  have prev: "predecessor update_lib ?root = Ok (Some ''master-1'')"
    by (rule predecessor_cong [OF update_store(1)]) (simp_all add: staged_def)
  have "snapshot_region update_lib ?root ''master-1'' = Ok En"
    using update_store(2) by (simp add: snapshot_region_def snapshot_directory_def sample_names staged_def)
  then have pub: "publish update_lib ?root 7 ''.stage'' ''.tmp'' update_prepared = Ok (import_steps, update_receipt)"
    by (simp add: publish_def prev receipt fields Let_def import_steps_def)
  have parse: "manifest_parse update_lib [10] = Ok sample_manifest"
    by (simp add: manifest_parse_iff sample_manifest_ok MAX_MANIFEST_def)
  have enc: "fetch_entries sample_updater sample_files announced [''MasterManifest.json'' \<mapsto> Plain [10]] (mf_files sample_manifest) =
      Ok [''MasterManifest.json'' \<mapsto> Plain [10], ''MasterA.bin'' \<mapsto> Plain sample_bin]"
    by (simp add: sample_manifest_def sample_fetch)
  show ?thesis
    using pub by (simp add: master_update_def target_step_def update_store sample_fetch parse master_step_def enc fields
        update_prepare sample_sync_names_def)
qed

theorem updates_install_the_announced_version_witness:
  "read_current_in update_lib (fold apply_step import_steps (staged sample_store ''.stage'' update_prepared)) (Some ''MasterA'') En =
     Ok \<lparr>mdoc_version = ''1.0'', mdoc_sha256 = digest update_lib [1], mdoc_bytes = [1]\<rparr>"
proof -
  let ?root = "fold apply_step import_steps (staged sample_store ''.stage'' update_prepared)"
  have fresh: "fresh_names sample_store (nm_snapshot sample_sync_names) (nm_stage sample_sync_names) (nm_tmp sample_sync_names)"
    using sample_import_fresh by (simp add: sample_sync_names_def)
  have written: "staged_written update_lib (staged sample_store ''.stage'' update_prepared) (nm_stage sample_sync_names) update_receipt"
    by (auto simp: staged_written_def receipt_written_def inventory_written_def MAX_INDEX_def sample_sync_names_def staged_def
        update_prepared_def stage_documents_def split: if_splits)
  have pub: "\<forall>previous. predecessor update_lib sample_store = Ok previous \<longrightarrow>
      publication_written update_lib (publish_record update_receipt previous (nm_now sample_sync_names))"
    using update_store(1) by (simp add: publication_written_def sample_sync_names_def)
  let ?e = "\<lparr>en_name = ''MasterA.bin'', en_hash = replicate 64 CHR ''a'', en_size = 96\<rparr>"
  have parse: "manifest_parse update_lib [10] = Ok sample_manifest"
    by (simp add: manifest_parse_iff sample_manifest_ok MAX_MANIFEST_def)
  have e: "?e \<in> set (mf_files sample_manifest)" by (simp add: sample_manifest_def)
  from updates_install_the_announced_version [OF sample_update fresh written pub refl] obtain t bs m where
    t: "(Ok announced :: app_error + master_target) = Ok t"
    and m: "fetch_file sample_updater sample_files t ''MasterManifest.json'' MAX_MANIFEST = Ok bs" "manifest_parse update_lib bs = Ok m"
    and tables: "\<forall>e \<in> set (mf_files m). \<exists>tab bin json. en_name e = tab @ ''.bin'' \<and>
      fetch_file sample_updater sample_files t (en_name e) (en_size e) = Ok bin \<and>
      decode update_lib (mu_decoder sample_updater) e bin = Ok json \<and>
      read_current_in update_lib ?root (Some tab) (mu_region sample_updater) =
        Ok \<lparr>mdoc_version = mt_version t, mdoc_sha256 = digest update_lib json, mdoc_bytes = json\<rparr>"
    by blast
  have same: "t = announced" "m = sample_manifest" using t m parse by (auto simp: sample_fetch)
  obtain tab bin json where "''MasterA.bin'' = tab @ ''.bin''"
      "fetch_file sample_updater sample_files announced ''MasterA.bin'' 96 = Ok bin"
      "decode update_lib (mu_decoder sample_updater) ?e bin = Ok json"
      "read_current_in update_lib ?root (Some tab) (mu_region sample_updater) =
        Ok \<lparr>mdoc_version = mt_version announced, mdoc_sha256 = digest update_lib json, mdoc_bytes = json\<rparr>"
    using bspec [OF tables [unfolded same] e] unfolding master_entry.select_convs by blast
  moreover from this have "tab = ''MasterA''" using append_same_eq [of "''MasterA''" "''.bin''" tab] by simp
  moreover have "mu_decoder sample_updater = decoder_new sample_key sample_iv" "mu_region sample_updater = En" "mt_version announced = ''1.0''"
    by (simp_all add: sample_updater_def announced_def)
  ultimately show ?thesis by (simp add: sample_fetch update_decode)
qed

end
