(* ===== verification/Single_Flight.thy ===== *)
theory Single_Flight
  imports Prelude
begin

section \<open>Shared execution of identical reads (src/single_flight.rs)\<close>

text \<open>
  Concurrent callers with the same key share one execution. The state holds the map of running
  executions, the cells callers share, and where every caller is. A cell behaves as
  \<open>tokio::sync::OnceCell\<close> documents: it is written once; while it is empty one caller at a time runs its
  initializer; a caller that finds it written gets a clone; if the initializing caller is dropped, another waiting caller may
  run its own. \<open>sf_join\<close> to \<open>sf_receive\<close> are the pieces of \<open>run\<close> between its suspension points,
  each atomic because the map is only touched under its lock; callers are interleaved arbitrarily.
\<close>

datatype ('k, 'v) caller =
    NotArrived
  | Waiting nat 'k bool \<comment> \<open>in \<open>get_or_init\<close> of a cell; the flag says it holds the registration\<close>
  | Running nat 'k bool \<comment> \<open>awaiting its \<open>fetch\<close>\<close>
  | Released nat 'k 'v \<comment> \<open>the leader after \<open>release\<close>, before its outcome is published\<close>
  | Finished nat 'v
  | TimedOut
  | Gone \<comment> \<open>cancelled\<close>

record ('k, 'v) flights =
  sf_inflight :: "'k \<Rightarrow> nat option"
  sf_value :: "nat \<Rightarrow> 'v option"
  sf_runner :: "nat \<Rightarrow> nat option"
  sf_next :: nat
  sf_caller :: "nat \<Rightarrow> ('k, 'v) caller"

definition sf_new :: "('k, 'v) flights" where
  "sf_new = \<lparr>sf_inflight = (\<lambda>_. None), sf_value = (\<lambda>_. None), sf_runner = (\<lambda>_. None), sf_next = 0,
     sf_caller = (\<lambda>_. NotArrived)\<rparr>"

definition sf_release :: "'k \<Rightarrow> nat \<Rightarrow> ('k, 'v) flights \<Rightarrow> ('k, 'v) flights" where
  \<comment> \<open>only the entry this registration inserted is removed\<close>
  "sf_release k m s =
     (if sf_inflight s k = Some m then s\<lparr>sf_inflight := (sf_inflight s)(k := None)\<rparr> else s)"

definition sf_move :: "nat \<Rightarrow> ('k, 'v) caller \<Rightarrow> ('k, 'v) flights \<Rightarrow> ('k, 'v) flights" where
  "sf_move c st s = s\<lparr>sf_caller := (sf_caller s)(c := st)\<rparr>"

definition sf_write :: "nat \<Rightarrow> 'v \<Rightarrow> ('k, 'v) flights \<Rightarrow> ('k, 'v) flights" where
  "sf_write m v s = s\<lparr>sf_value := (sf_value s)(m := Some v), sf_runner := (sf_runner s)(m := None)\<rparr>"

definition sf_yield :: "nat \<Rightarrow> ('k, 'v) flights \<Rightarrow> ('k, 'v) flights" where
  "sf_yield m s = s\<lparr>sf_runner := (sf_runner s)(m := None)\<rparr>"

definition sf_arrive :: "nat \<Rightarrow> 'k \<Rightarrow> ('k, 'v) flights \<Rightarrow> ('k, 'v) flights" where
  \<comment> \<open>the locked block at the start of \<open>run\<close>\<close>
  "sf_arrive c k s =
     (case sf_inflight s k of
        Some m \<Rightarrow> sf_move c (Waiting m k False) s
      | None \<Rightarrow>
          sf_move c (Waiting (sf_next s) k True)
            (s\<lparr>sf_inflight := (sf_inflight s)(k \<mapsto> sf_next s), sf_next := sf_next s + 1\<rparr>))"

definition sf_drop_registration :: "bool \<Rightarrow> 'k \<Rightarrow> nat \<Rightarrow> ('k, 'v) flights \<Rightarrow> ('k, 'v) flights" where
  "sf_drop_registration leader k m s = (if leader then sf_release k m s else s)"

inductive sf_step :: "('k, 'v) flights \<Rightarrow> ('k, 'v) flights \<Rightarrow> bool" where
  arrive: "sf_caller s c = NotArrived \<Longrightarrow> sf_step s (sf_arrive c k s)"
| start: "sf_caller s c = Waiting m k l \<Longrightarrow> sf_value s m = None \<Longrightarrow> sf_runner s m = None \<Longrightarrow>
    sf_step s (sf_move c (Running m k l) (s\<lparr>sf_runner := (sf_runner s)(m \<mapsto> c)\<rparr>))"
| fetched: "sf_caller s c = Running m k True \<Longrightarrow>
    sf_step s (sf_move c (Released m k v) (sf_release k m s))"
| publish: "sf_caller s c = Released m k v \<Longrightarrow>
    sf_step s (sf_move c (Finished m v) (sf_write m v s))"
| joiner_fetched: "sf_caller s c = Running m k False \<Longrightarrow>
    sf_step s (sf_move c (Finished m v) (sf_write m v s))"
| receive: "sf_caller s c = Waiting m k l \<Longrightarrow> sf_value s m = Some v \<Longrightarrow>
    sf_step s (sf_move c (Finished m v) (sf_drop_registration l k m s))"
| timeout_waiting: "sf_caller s c = Waiting m k False \<Longrightarrow> sf_step s (sf_move c TimedOut s)"
| timeout_running: "sf_caller s c = Running m k False \<Longrightarrow> sf_step s (sf_move c TimedOut (sf_yield m s))"
| cancel_waiting: "sf_caller s c = Waiting m k l \<Longrightarrow>
    sf_step s (sf_move c Gone (sf_drop_registration l k m s))"
| cancel_running: "sf_caller s c = Running m k l \<Longrightarrow>
    sf_step s (sf_move c Gone (sf_drop_registration l k m (sf_yield m s)))"

lemmas sf_defs = sf_release_def sf_move_def sf_write_def sf_yield_def sf_arrive_def sf_drop_registration_def

subsection \<open>The invariant\<close>

fun runs_in :: "('k, 'v) caller \<Rightarrow> nat option" where
  "runs_in (Running m k l) = Some m"
| "runs_in (Released m k v) = Some m"
| "runs_in _ = None"

fun leads :: "('k, 'v) caller \<Rightarrow> (nat \<times> 'k) option" where
  "leads (Waiting m k l) = (if l then Some (m, k) else None)"
| "leads (Running m k l) = (if l then Some (m, k) else None)"
| "leads _ = None"

fun cell_of :: "('k, 'v) caller \<Rightarrow> nat option" where
  "cell_of (Waiting m k l) = Some m"
| "cell_of (Running m k l) = Some m"
| "cell_of (Released m k v) = Some m"
| "cell_of _ = None"

definition runner_ok :: "('k, 'v) flights \<Rightarrow> bool" where
  "runner_ok s \<longleftrightarrow>
     (\<forall>m c. sf_runner s m = Some c \<longleftrightarrow> runs_in (sf_caller s c) = Some m) \<and>
     (\<forall>m. sf_value s m \<noteq> None \<longrightarrow> sf_runner s m = None)"

definition fresh_ok :: "('k, 'v) flights \<Rightarrow> bool" where
  "fresh_ok s \<longleftrightarrow>
     (\<forall>m. sf_value s m \<noteq> None \<longrightarrow> m < sf_next s) \<and>
     (\<forall>c m. cell_of (sf_caller s c) = Some m \<longrightarrow> m < sf_next s) \<and>
     (\<forall>k m. sf_inflight s k = Some m \<longrightarrow> m < sf_next s)"

definition registered_ok :: "('k, 'v) flights \<Rightarrow> bool" where
  \<comment> \<open>an entry of the map belongs to exactly one leader, who has not left yet\<close>
  "registered_ok s \<longleftrightarrow>
     (\<forall>k m. sf_inflight s k = Some m \<longrightarrow> (\<exists>c. leads (sf_caller s c) = Some (m, k))) \<and>
     (\<forall>c d m k k'. leads (sf_caller s c) = Some (m, k) \<longrightarrow> leads (sf_caller s d) = Some (m, k') \<longrightarrow> c = d)"

definition finished_ok :: "('k, 'v) flights \<Rightarrow> bool" where
  "finished_ok s \<longleftrightarrow> (\<forall>c m v. sf_caller s c = Finished m v \<longrightarrow> sf_value s m = Some v)"

lemma cell_of_runs: "runs_in st = Some m \<Longrightarrow> cell_of st = Some m"
  by (cases st) auto

lemma cell_of_leads: "leads st = Some (m, k) \<Longrightarrow> cell_of st = Some m"
  by (cases st) (auto split: if_splits)

lemma sf_select [simp]:
  "sf_caller (sf_move c st s) = (sf_caller s)(c := st)" "sf_value (sf_move c st s) = sf_value s"
  "sf_runner (sf_move c st s) = sf_runner s" "sf_inflight (sf_move c st s) = sf_inflight s"
  "sf_next (sf_move c st s) = sf_next s"
  "sf_caller (sf_release k m s) = sf_caller s" "sf_value (sf_release k m s) = sf_value s"
  "sf_runner (sf_release k m s) = sf_runner s" "sf_next (sf_release k m s) = sf_next s"
  "sf_caller (sf_drop_registration l k m s) = sf_caller s" "sf_value (sf_drop_registration l k m s) = sf_value s"
  "sf_runner (sf_drop_registration l k m s) = sf_runner s" "sf_next (sf_drop_registration l k m s) = sf_next s"
  "sf_caller (sf_write m v s) = sf_caller s" "sf_value (sf_write m v s) = (sf_value s)(m := Some v)"
  "sf_runner (sf_write m v s) = (sf_runner s)(m := None)" "sf_inflight (sf_write m v s) = sf_inflight s"
  "sf_next (sf_write m v s) = sf_next s"
  "sf_caller (sf_yield m s) = sf_caller s" "sf_value (sf_yield m s) = sf_value s"
  "sf_runner (sf_yield m s) = (sf_runner s)(m := None)" "sf_inflight (sf_yield m s) = sf_inflight s"
  "sf_next (sf_yield m s) = sf_next s"
  by (simp_all add: sf_defs)

lemma sf_inflight_release:
  "sf_inflight (sf_release k m s) j = Some n \<longleftrightarrow> sf_inflight s j = Some n \<and> \<not> (j = k \<and> n = m)"
  "sf_inflight (sf_drop_registration l k m s) j = Some n \<longleftrightarrow>
     sf_inflight s j = Some n \<and> \<not> (l \<and> j = k \<and> n = m)"
  by (auto simp: sf_defs)

lemma runner_ok_write:
  "runner_ok s \<Longrightarrow> sf_runner s m = Some c \<Longrightarrow> runs_in st = None \<Longrightarrow>
   runner_ok (sf_move c st (sf_write m v s))"
  unfolding runner_ok_def by (auto; metis option.inject)

lemma runner_ok_yield:
  "runner_ok s \<Longrightarrow> sf_runner s m = Some c \<Longrightarrow> runs_in st = None \<Longrightarrow>
   runner_ok (sf_move c st (sf_drop_registration l k m' (sf_yield m s)))"
  unfolding runner_ok_def by (auto; metis option.inject)

lemma runner_ok_keep:
  "runner_ok s \<Longrightarrow> runs_in st = runs_in (sf_caller s c) \<Longrightarrow> sf_caller s' = (sf_caller s)(c := st) \<Longrightarrow>
   sf_runner s' = sf_runner s \<Longrightarrow> sf_value s' = sf_value s \<Longrightarrow> runner_ok s'"
  unfolding runner_ok_def by auto

lemma runner_ok_start:
  "runner_ok s \<Longrightarrow> sf_caller s c = Waiting m k l \<Longrightarrow> sf_runner s m = None \<Longrightarrow> sf_value s m = None \<Longrightarrow>
   runner_ok (sf_move c (Running m k l) (s\<lparr>sf_runner := (sf_runner s)(m \<mapsto> c)\<rparr>))"
  unfolding runner_ok_def by (auto; metis option.distinct(1) runs_in.simps(4))

lemma sf_arrive_select [simp]:
  "sf_value (sf_arrive c k s) = sf_value s" "sf_runner (sf_arrive c k s) = sf_runner s"
  "\<exists>m l. sf_caller (sf_arrive c k s) = (sf_caller s)(c := Waiting m k l)"
  by (auto simp: sf_arrive_def split: option.splits)

lemma runner_ok_step:
  assumes "sf_step s s'" "runner_ok s"
  shows "runner_ok s'"
  using assms
proof (induction rule: sf_step.induct)
  case (arrive s c k)
  obtain m l where "sf_caller (sf_arrive c k s) = (sf_caller s)(c := Waiting m k l)"
    using sf_arrive_select(3) [of c k s] by blast
  with arrive show ?case by (intro runner_ok_keep [OF arrive.prems]) simp_all
next
  case (publish s c m k v)
  then have "sf_runner s m = Some c" by (simp add: runner_ok_def)
  with publish show ?case by (intro runner_ok_write) simp_all
next
  case (joiner_fetched s c m k v)
  then have "sf_runner s m = Some c" by (simp add: runner_ok_def)
  with joiner_fetched show ?case by (intro runner_ok_write) simp_all
next
  case (timeout_running s c m k)
  then have "sf_runner s m = Some c" by (simp add: runner_ok_def)
  from runner_ok_yield [where l = False and st = TimedOut, OF timeout_running.prems this]
  show ?case by (simp add: sf_drop_registration_def)
next
  case (cancel_running s c m k l)
  then have "sf_runner s m = Some c" by (simp add: runner_ok_def)
  with cancel_running show ?case by (intro runner_ok_yield) simp_all
next
  case (fetched s c m k v)
  then show ?case by (intro runner_ok_keep [OF fetched.prems, of "Released m k v" c]) simp_all
next
  case (receive s c m k l v)
  then show ?case by (intro runner_ok_keep [OF receive.prems, of "Finished m v" c]) simp_all
next
  case (timeout_waiting s c m k)
  then show ?case by (intro runner_ok_keep [OF timeout_waiting.prems, of TimedOut c]) simp_all
next
  case (cancel_waiting s c m k l)
  then show ?case by (intro runner_ok_keep [OF cancel_waiting.prems, of Gone c]) simp_all
qed (simp add: runner_ok_start)

lemma fresh_ok_step:
  assumes "sf_step s s'" "fresh_ok s"
  shows "fresh_ok s'"
  using assms
proof (induction rule: sf_step.induct)
  case (arrive s c k)
  then show ?case by (fastforce simp: fresh_ok_def sf_arrive_def split: option.splits if_splits)
next
  case (start s c m k l)
  then have "m < sf_next s" unfolding fresh_ok_def by (metis cell_of.simps(1))
  with start show ?case by (auto simp: fresh_ok_def)
next
  case (fetched s c m k v)
  then have "m < sf_next s" unfolding fresh_ok_def by (metis cell_of.simps(2))
  with fetched show ?case by (auto simp: fresh_ok_def sf_inflight_release)
next
  case (publish s c m k v)
  then have "m < sf_next s" unfolding fresh_ok_def by (metis cell_of.simps(3))
  with publish show ?case by (auto simp: fresh_ok_def)
next
  case (joiner_fetched s c m k v)
  then have "m < sf_next s" unfolding fresh_ok_def by (metis cell_of.simps(2))
  with joiner_fetched show ?case by (auto simp: fresh_ok_def)
qed (auto simp: fresh_ok_def sf_inflight_release)

lemma registered_ok_keep:
  "registered_ok s \<Longrightarrow> leads st = leads (sf_caller s c) \<Longrightarrow> sf_caller s' = (sf_caller s)(c := st) \<Longrightarrow>
   sf_inflight s' = sf_inflight s \<Longrightarrow> registered_ok s'"
  unfolding registered_ok_def by (simp; metis)

lemma registered_ok_leave:
  assumes "registered_ok s" "leads st = None" "sf_caller s' = (sf_caller s)(c := st)"
    and "\<And>j n. sf_inflight s' j = Some n \<Longrightarrow> sf_inflight s j = Some n \<and> leads (sf_caller s c) \<noteq> Some (n, j)"
  shows "registered_ok s'"
proof -
  have "\<exists>d. leads (sf_caller s' d) = Some (n, j)" if "sf_inflight s' j = Some n" for j n
    using assms(1,3) assms(4) [OF that] unfolding registered_ok_def by (metis fun_upd_other)
  moreover have "d = e" if "leads (sf_caller s' d) = Some (m, k)" "leads (sf_caller s' e) = Some (m, k')" for d e m k k'
    using assms(1,2,3) that unfolding registered_ok_def
    by (metis fun_upd_apply option.distinct(1))
  ultimately show ?thesis unfolding registered_ok_def by blast
qed

lemma registered_ok_arrive:
  assumes "registered_ok s" "fresh_ok s" "sf_caller s c = NotArrived"
  shows "registered_ok (sf_arrive c k s)"
proof (cases "sf_inflight s k")
  case (Some m)
  then show ?thesis
    using assms by (intro registered_ok_keep [OF assms(1), of "Waiting m k False" c]) (simp_all add: sf_arrive_def)
next
  case None
  let ?s = "sf_arrive c k s"
  have eq: "sf_caller ?s = (sf_caller s)(c := Waiting (sf_next s) k True)"
    "sf_inflight ?s = (sf_inflight s)(k \<mapsto> sf_next s)"
    by (simp_all add: sf_arrive_def None)
  have old: "leads (sf_caller s d) \<noteq> Some (sf_next s, j)" for d j
    using assms(2) cell_of_leads unfolding fresh_ok_def by (metis less_irrefl)
  have "\<exists>d. leads (sf_caller ?s d) = Some (m, j)" if "sf_inflight ?s j = Some m" for j m
  proof (cases "j = k")
    case True
    with that show ?thesis by (intro exI [of _ c]) (simp add: eq)
  next
    case False
    with that have "sf_inflight s j = Some m" by (simp add: eq)
    with assms(1) obtain d where "leads (sf_caller s d) = Some (m, j)"
      unfolding registered_ok_def by blast
    moreover from this have "d \<noteq> c" using assms(3) by auto
    ultimately show ?thesis by (intro exI [of _ d]) (simp add: eq)
  qed
  moreover have "d = e" if "leads (sf_caller ?s d) = Some (m, j)" "leads (sf_caller ?s e) = Some (m, j')" for d e m j j'
    using that old assms(1) unfolding registered_ok_def
    by (auto simp: eq split: if_splits)
  ultimately show ?thesis unfolding registered_ok_def by blast
qed

lemma registered_ok_step:
  assumes "sf_step s s'" "registered_ok s" "fresh_ok s"
  shows "registered_ok s'"
  using assms
proof (induction rule: sf_step.induct)
  case (start s c m k l)
  then show ?case by (intro registered_ok_keep [OF start.prems(1), of "Running m k l" c]) simp_all
next
  case (publish s c m k v)
  then show ?case by (intro registered_ok_keep [OF publish.prems(1), of "Finished m v" c]) simp_all
next
  case (joiner_fetched s c m k v)
  then show ?case by (intro registered_ok_keep [OF joiner_fetched.prems(1), of "Finished m v" c]) simp_all
next
  case (timeout_waiting s c m k)
  then show ?case by (intro registered_ok_keep [OF timeout_waiting.prems(1), of TimedOut c]) simp_all
next
  case (timeout_running s c m k)
  then show ?case by (intro registered_ok_keep [OF timeout_running.prems(1), of TimedOut c]) simp_all
next
  case (fetched s c m k v)
  then show ?case
    by (intro registered_ok_leave [OF fetched.prems(1), of "Released m k v" _ c]) (auto simp: sf_inflight_release)
next
  case (receive s c m k l v)
  then show ?case
    by (intro registered_ok_leave [OF receive.prems(1), of "Finished m v" _ c])
      (auto simp: sf_inflight_release split: if_splits)
next
  case (cancel_waiting s c m k l)
  then show ?case
    by (intro registered_ok_leave [OF cancel_waiting.prems(1), of Gone _ c])
      (auto simp: sf_inflight_release split: if_splits)
next
  case (cancel_running s c m k l)
  then show ?case
    by (intro registered_ok_leave [OF cancel_running.prems(1), of Gone _ c])
      (auto simp: sf_inflight_release split: if_splits)
qed (simp add: registered_ok_arrive)

lemma finished_ok_step:
  assumes "sf_step s s'" "finished_ok s" "runner_ok s"
  shows "finished_ok s'"
  using assms
proof (induction rule: sf_step.induct)
  case (publish s c m k v)
  then have "sf_runner s m = Some c" by (simp add: runner_ok_def)
  then have "sf_value s m = None" using publish.prems(2) unfolding runner_ok_def by (metis option.distinct(1))
  with publish show ?case by (auto simp: finished_ok_def)
next
  case (joiner_fetched s c m k v)
  then have "sf_runner s m = Some c" by (simp add: runner_ok_def)
  then have "sf_value s m = None" using joiner_fetched.prems(2) unfolding runner_ok_def by (metis option.distinct(1))
  with joiner_fetched show ?case by (auto simp: finished_ok_def)
next
  case (arrive s c k)
  obtain m l where "sf_caller (sf_arrive c k s) = (sf_caller s)(c := Waiting m k l)"
    using sf_arrive_select(3) [of c k s] by blast
  with arrive show ?case by (auto simp: finished_ok_def)
qed (auto simp: finished_ok_def)

definition sf_inv :: "('k, 'v) flights \<Rightarrow> bool" where
  "sf_inv s \<longleftrightarrow> runner_ok s \<and> fresh_ok s \<and> registered_ok s \<and> finished_ok s"

lemma sf_reachable_inv: "sf_step\<^sup>*\<^sup>* sf_new s \<Longrightarrow> sf_inv s"
proof (induction rule: rtranclp_induct)
  case base
  show ?case
    by (simp add: sf_inv_def runner_ok_def fresh_ok_def registered_ok_def finished_ok_def sf_new_def)
next
  case (step y z)
  then show ?case
    using runner_ok_step fresh_ok_step registered_ok_step finished_ok_step unfolding sf_inv_def by blast
qed

subsection \<open>Properties\<close>

text \<open>C5: in every interleaving of callers, cancellations and timeouts: a shared execution has at most one
  running fetch, all callers it answers get the same outcome, and the map holds an entry only while
  the caller that registered it is still there (so nothing leaks). A caller can join an
  execution whose outcome is already published only in one situation: its registered caller has
  been overtaken, and is still waiting for the outcome another caller computed.\<close>

theorem single_flight:
  assumes "sf_step\<^sup>*\<^sup>* sf_new s"
  shows "(\<forall>c d m. runs_in (sf_caller s c) = Some m \<and> runs_in (sf_caller s d) = Some m \<longrightarrow> c = d) \<and>
    (\<forall>c d m v w. sf_caller s c = Finished m v \<and> sf_caller s d = Finished m w \<longrightarrow> v = w) \<and>
    (\<forall>k m. sf_inflight s k = Some m \<longrightarrow> (\<exists>c. leads (sf_caller s c) = Some (m, k))) \<and>
    (\<forall>k m v. sf_inflight s k = Some m \<and> sf_value s m = Some v \<longrightarrow>
       (\<exists>c. sf_caller s c = Waiting m k True))"
proof (intro conjI allI impI)
  note inv = sf_reachable_inv [OF assms]
  fix c d m
  show "runs_in (sf_caller s c) = Some m \<and> runs_in (sf_caller s d) = Some m \<Longrightarrow> c = d"
    using inv unfolding sf_inv_def runner_ok_def by (metis option.inject)
next
  fix c d m v w
  show "sf_caller s c = Finished m v \<and> sf_caller s d = Finished m w \<Longrightarrow> v = w"
    using sf_reachable_inv [OF assms] unfolding sf_inv_def finished_ok_def by (metis option.inject)
next
  fix k m
  show "sf_inflight s k = Some m \<Longrightarrow> \<exists>c. leads (sf_caller s c) = Some (m, k)"
    using sf_reachable_inv [OF assms] unfolding sf_inv_def registered_ok_def by blast
next
  fix k m v assume a: "sf_inflight s k = Some m \<and> sf_value s m = Some v"
  note inv = sf_reachable_inv [OF assms]
  obtain c where c: "leads (sf_caller s c) = Some (m, k)"
    using a inv unfolding sf_inv_def registered_ok_def by blast
  have "sf_runner s m = None" using a inv unfolding sf_inv_def runner_ok_def by blast
  then have "runs_in (sf_caller s c) \<noteq> Some m" using inv unfolding sf_inv_def runner_ok_def by (metis option.distinct(1))
  with c have "sf_caller s c = Waiting m k True" by (cases "sf_caller s c") (auto split: if_splits)
  then show "\<exists>c. sf_caller s c = Waiting m k True" ..
qed

lemma overtaken_leader_run:
  "\<exists>s :: (nat, nat) flights. sf_step\<^sup>*\<^sup>* sf_new s \<and> sf_inflight s 0 = Some 0 \<and> sf_value s 0 = Some 7 \<and>
     sf_caller s 0 = Waiting 0 0 True \<and> sf_caller s 2 = NotArrived"
proof -
  let ?s1 = "sf_arrive 0 0 (sf_new :: (nat, nat) flights)"
  let ?s2 = "sf_arrive 1 0 ?s1"
  let ?s3 = "sf_move 1 (Running 0 0 False) (?s2\<lparr>sf_runner := (sf_runner ?s2)(0 \<mapsto> 1)\<rparr>)"
  let ?s4 = "sf_move 1 (Finished 0 7) (sf_write 0 7 ?s3)"
  have 1: "sf_step sf_new ?s1" by (rule sf_step.arrive) (simp add: sf_new_def)
  have 2: "sf_step ?s1 ?s2" by (rule sf_step.arrive) (simp add: sf_new_def sf_arrive_def)
  have 3: "sf_step ?s2 ?s3"
    by (rule sf_step.start) (simp_all add: sf_new_def sf_arrive_def)
  have 4: "sf_step ?s3 ?s4" by (rule sf_step.joiner_fetched) simp
  have "sf_step\<^sup>*\<^sup>* sf_new ?s4"
    using 1 2 3 4 by (meson r_into_rtranclp rtranclp.rtrancl_into_rtrancl)
  then show ?thesis by (intro exI [of _ ?s4]) (simp add: sf_new_def sf_arrive_def)
qed

theorem single_flight_witness:
  "\<exists>s :: (nat, nat) flights. sf_step\<^sup>*\<^sup>* sf_new s \<and> sf_inflight s 0 = Some 0 \<and> sf_value s 0 = Some 7 \<and>
     (\<exists>c. leads (sf_caller s c) = Some (0, 0)) \<and> (\<exists>c. sf_caller s c = Waiting 0 0 True)"
proof -
  obtain s :: "(nat, nat) flights" where s: "sf_step\<^sup>*\<^sup>* sf_new s" "sf_inflight s 0 = Some 0" "sf_value s 0 = Some 7"
    using overtaken_leader_run by blast
  from single_flight [OF s(1)] s(2,3) s show ?thesis by blast
qed

text \<open>C38: the situation of the last clause is reachable: a caller that arrives after the outcome was published can still be
  answered with it, although the entry is documented to be "removed before the outcome is published".\<close>

theorem late_caller_gets_completed_outcome:
  "\<exists>s s' s'' :: (nat, nat) flights. sf_step\<^sup>*\<^sup>* sf_new s \<and> sf_value s 0 = Some 7 \<and>
     sf_caller s 2 = NotArrived \<and> sf_step s s' \<and> sf_step s' s'' \<and> sf_caller s'' 2 = Finished 0 7"
proof -
  obtain s :: "(nat, nat) flights" where s: "sf_step\<^sup>*\<^sup>* sf_new s" "sf_inflight s 0 = Some 0" "sf_value s 0 = Some 7"
    "sf_caller s 2 = NotArrived"
    using overtaken_leader_run by blast
  let ?s' = "sf_arrive 2 0 s"
  have 1: "sf_step s ?s'" using s(4) by (rule sf_step.arrive)
  have w: "sf_caller ?s' 2 = Waiting 0 0 False" "sf_value ?s' 0 = Some 7"
    using s(2,3) by (simp_all add: sf_arrive_def)
  from sf_step.receive [OF w]
  have 2: "sf_step ?s' (sf_move 2 (Finished 0 7) (sf_drop_registration False 0 0 ?s'))" .
  show ?thesis
    using s 1 2 by (intro exI [of _ s] exI [of _ ?s'] exI conjI) auto
qed

end
