(* ===== verification/Spec2Isabelle.thy ===== *)
theory Spec2Isabelle
  imports Account_Config Api Asset_Admin Global_Identity Master_Update Single_Flight
begin

text \<open>
  \<^bold>\<open>Sirius API proxy: a verification library.\<close>

  The proxy (\<open>src/src/*.rs\<close>) answers HTTP reads about a game from the game's own gRPC servers. It keeps a
  pool of game accounts, logs Global accounts in through a vendor SDK, spends as few logins and upstream calls
  as it can (response cache, shared executions, path health), may forward a read to a peer node, follows the
  Master data versions the game announces, and hands finished resources to an asset updater through a durable
  ledger. These theories model that logic and prove what makes it correct; every theory names the functions it
  translates, and each definition follows the branches of its function, errors included.

  \<^bold>\<open>How the code is rendered.\<close> A fallible function returns a sum (\<open>Err\<close>/\<open>Ok\<close>); a struct is a record, an enum a
  datatype; a method that changes its object returns the new state. Clocks, files, environment variables, HTTP
  servers, peers and third-party code (hashes, JSON, protobuf, semantic versions, URL syntax) are arguments, with
  their documented behaviour as hypotheses where a theorem needs it. Text is a list of bytes. Counters that wrap
  or saturate do so in the model (\<open>usize\<close> leases, \<open>u32\<close>/\<open>u64\<close> counters, the shifts of retry delays as 64-bit words). Where tasks
  interleave between await points, the component is a step relation and its theorems range over all reachable
  states; where a function runs under one lock, it is one function.

  \<^bold>\<open>Parts and theories.\<close>
  \<^item> \<open>Prelude\<close>, \<open>Json_Value\<close>, \<open>Ordered_Map\<close>: results, clock, saturating arithmetic, bytes, JSON, B-tree maps.
  \<^item> \<open>App_Error\<close> (error.rs), \<open>Region\<close> (region.rs), \<open>Game_Routes\<close> (routes.rs and the route predicates of client.rs),
    \<open>Upstream_Policy\<close> (the upstream section of config.rs): vocabulary, tables and bounds.
  \<^item> \<open>Probe_Gate\<close> is the interface of a circuit breaker with one probe; \<open>Path_Health\<close> (path_health.rs) and the target
    breaker of \<open>Node_Routing\<close> interpret it.
  \<^item> \<open>Global_Login\<close>, \<open>Global_Identity\<close> (global_account.rs), \<open>Global_Sdk\<close> (global_sdk.rs), \<open>Sdk_Session\<close> (sdk_session.rs):
    login limits, the identity file and the one-time bootstrap, the signed SDK requests, the session shared by
    regions and processes with its state file.
  \<^item> \<open>Accounts\<close>, \<open>Account_Pool\<close>, \<open>Account_Config\<close> (accounts.rs): health of an account, scheduling and leases, reload
    and loading of the configuration.
  \<^item> \<open>Login_Flow\<close> (client.rs: \<open>account_auth\<close>, \<open>revalidate\<close>, \<open>sdk_keepalive\<close>): logins of one account and the keepalive
    interleaved, over the four theories above.
  \<^item> \<open>Response_Cache\<close> (response_cache.rs), \<open>Single_Flight\<close> (single_flight.rs): bounded cache with expiry, shared
    executions as a step relation.
  \<^item> \<open>Resources\<close> (resources.rs and the network policy of master_update.rs): bounded downloads, choice of a release.
  \<^item> \<open>Game_Rpc\<close> (client.rs: \<open>execute\<close>, \<open>execute_once\<close>, \<open>observe\<close>, \<open>promote_snapshot\<close>): one gRPC call: request
    headers, framing, reading of the answer, and what the client remembers from it.
  \<^item> \<open>Call_Pipeline\<close> (client.rs: \<open>call_selected\<close>, \<open>cached_before_admission\<close>, \<open>call_admitted\<close>, \<open>ensure_version\<close>): a logical
    call from the request to the answer, composed from the cache, the pool, the path, the login and the RPC.
  \<^item> \<open>Protocol_Pool\<close> (protocol.rs), \<open>Resource_Snapshot\<close> (client.rs: \<open>ensure_global_snapshot\<close>, \<open>refresh_master_target\<close>,
    \<open>reload_protocol\<close>): the contract of a protocol bundle and the compatibility search of a reload; snapshots built
    while other calls change the state.
  \<^item> \<open>Peer\<close> (peer.rs, peer_transport.rs), \<open>Node_Routing\<close> (node_routing.rs): reads forwarded to peers, failover.
  \<^item> \<open>Client_Auth\<close> (client_auth.rs): tokens, their bounded cache and the user store.
  \<^item> \<open>Rijndael_Field\<close>, \<open>Rijndael\<close> (rijndael.rs): the byte field and its boxes, the key schedule, the 256-bit
    block, chaining and padding of the cipher Master files come in.
  \<^item> \<open>Master_Format\<close> (master.rs, the documents of master_registry.rs): manifests, inventories, receipts, the decoder.
    \<open>Master_Store\<close>, \<open>Master_Publish\<close>, \<open>Master_History\<close> (master_registry.rs, the import of master.rs): the registry
    as a directory tree: verified reads; an import as the sequence of its writes and renames, which may stop
    after any of them; the chain of snapshots with paging, lookup by hash and retention.
  \<^item> \<open>Origins\<close> (config.rs, transport.rs, peer_transport.rs, asset_jobs.rs): configured origins and secrets and the clients
    built from them. \<open>Master_Update\<close> (master_update.rs): passes that install what the game announces.
    \<open>Master_Sync\<close> (master_sync.rs): passes that copy the snapshot of another owner. \<open>Table_Reads\<close> (master_admission.rs):
    the gate in front of table reads. \<open>Master_Http\<close> (api.rs, master_bundle.rs): documents and archives over HTTP.
  \<^item> \<open>Master_Database\<close> (master_database.rs): the PostgreSQL mirror: rows, transactions whose commit may be lost, retention,
    migration, reads. \<open>Master_Notify\<close> (master_notify.rs): update hints to consumers. \<open>Registry_Service\<close> (registry_service.rs):
    the routes over both backends. \<open>Registry_Owner\<close> (registry_owner.rs, \<open>Config::prepare\<close>): the owner and its loop.
  \<^item> \<open>Api\<close> (api.rs and the queries and wake-ups of client.rs): authentication, the public reads with their checks, system and
    region documents, reads of the mirror, hints.
  \<^item> \<open>Asset_Outbox\<close> (asset_outbox.rs), \<open>Asset_Dispatch\<close> (asset_jobs.rs, asset_dispatch.rs), \<open>Asset_Admin\<close>
    (asset_dispatch_admin.rs): the durable ledger, the worker that reconciles it, and its commands.

  \<^bold>\<open>What the theorems show.\<close>
  \<^item> At most once: an authenticated read is not repeated after it may have executed, on this node
    (\<open>Game_Rpc\<close>, \<open>Call_Pipeline\<close>) or across nodes (\<open>Node_Routing\<close>); a submission to the asset updater is never
    replayed (\<open>Asset_Dispatch\<close>); the bootstrap sends one request (\<open>Global_Identity\<close>).
  \<^item> Login limits: attempts respect the daily cap and the interval in every interleaving without the keepalive
    worker; with it a race exceeds them by one, which is a theorem too (\<open>Login_Flow\<close>). Refused identities send nothing.
  \<^item> Secrets: credentials only reach account routes, shared answers carry no field of the account that read
    them, catalog requests stay on the configured root (\<open>Game_Rpc\<close>, \<open>Call_Pipeline\<close>, \<open>Resource_Snapshot\<close>).
  \<^item> Admission: every admitted public request carries the static token or a user token backed by the user store
    (\<open>Client_Auth\<close>, \<open>Api\<close>); the checks of the API are exactly those of the operation it calls, so that a forwarded read is
    not refused by a peer; a list of ranks round trips; owner and consumer agree on hints.
  \<^item> Bookkeeping: leases are counted exactly and given back on every branch, the cache stays within its bounds, one
    probe per open path, a streak of the shared path leaves no trace on accounts, versions come from VERSION
    answers only, fresh snapshots belong to the latest version.
  \<^item> Master data: decryption accepts exactly the ciphertexts of the textbook cipher, a decoded table comes from an
    authentic file, a table read returns the pinned bytes. An import interrupted anywhere leaves the registry at the
    old or at the new snapshot, a finished one serves its tables and puts one entry in front of the history; pages
    enumerate that history without gap or repetition, and retention removes only what is older than the window.
    A local import, an update from the CDN and a synchronization are three preparations with one contract (the locale
    \<open>preparation\<close>), so the publication theorems hold of each: what a pass reports as installed is the announced version
    or the content of the owner, and is served. Archives hold exactly the pinned snapshot; the bytes held by table
    reads stay within the permits of the gate. The mirror keeps the invariant of its rows under publications, migrations
    and lost commits, serves what the file backend serves, and is bounded; hints only announce committed content; a
    request to the owner is served within two passes; a registry never accepts or sends one of its secrets in another role.
  \<^item> Progress: an available call is answered (\<open>Call_Pipeline\<close>), a login is one pass (\<open>Login_Flow\<close>), retried downloads and the
    compatibility search end (\<open>Resources\<close>, \<open>Protocol_Pool\<close>), the latter with exactly the answer its specification gives.

  \<^bold>\<open>Loops and bounds.\<close> No definition uses fuel. Loops over data are structural; retries end by the distance to the
  configured number of attempts, eviction by the number of entries, the compatibility search by the messages not
  yet visited, eight bits bound the field multiplication. The walks over the snapshot chain carry the counter the code has
  (\<open>WALK_LIMIT\<close>, 10,000 links) and give the error the code gives when it is used up. Loops that wait for the outside (workers, polling) are step relations.

  \<^bold>\<open>Not modelled.\<close> HTTP listeners, routers, compression, logging and startup (server.rs, http_compression.rs,
  access_log.rs, application_log.rs, deployment.rs, main.rs): glue around the modelled parts. Connections and codecs (transport.rs,
  native.rs, proto_source.rs): hyper, prost and protox. The publication to git (master_git.rs, git_process.rs) and the timer
  loops around the passes of the workers.
\<close>

end
